(* ===== verification/QiipPrelude.thy ===== *)
theory QiipPrelude
  imports Complex_Main "HOL-Library.AList" "HOL-Library.Char_ord" "HOL-Library.List_Lexorder"
    "HOL-Library.Product_Lexorder" "HOL-Library.Multiset"
begin

text \<open>
  Shared vocabulary of the development: Python dictionaries as association lists that keep
  insertion order, Python's \<open>min\<close>/\<open>max\<close> with a key, the string methods the gateway uses,
  and the generic reachability argument for step relations.

  A dictionary is a list of key/value pairs with distinct keys. \<open>AList.update\<close> replaces a
  value in place and appends a new key at the end, and \<open>AList.delete\<close> drops a key, which is
  what \<open>d[k] = v\<close> and \<open>d.pop(k, None)\<close> do in Python; iterating the dictionary is iterating
  the list.

  Text is \<open>string\<close>, a list of 8-bit characters; \<open>lower\<close> and \<open>strip\<close> act on ASCII, the
  alphabet of the host names, identifiers and e-mail addresses the gateway compares.
\<close>

section \<open>Names\<close>

type_synonym ('k, 'v) dict = "('k \<times> 'v) list"
type_synonym host = string
type_synonym revision = int
type_synonym micros = int
  \<comment> \<open>an aware \<open>datetime\<close>, in microseconds since the epoch; a \<open>timedelta\<close> is a difference\<close>

named_theorems dict_simps
named_theorems status_simps

abbreviation dict_get :: "('k, 'v) dict \<Rightarrow> 'k \<Rightarrow> 'v option" where
  "dict_get d k \<equiv> map_of d k"

abbreviation dict_set :: "'k \<Rightarrow> 'v \<Rightarrow> ('k, 'v) dict \<Rightarrow> ('k, 'v) dict" where
  "dict_set k v d \<equiv> AList.update k v d"

abbreviation dict_pop :: "'k \<Rightarrow> ('k, 'v) dict \<Rightarrow> ('k, 'v) dict" where
  "dict_pop k d \<equiv> AList.delete k d"

abbreviation dict_keys :: "('k, 'v) dict \<Rightarrow> 'k list" where
  "dict_keys d \<equiv> map fst d"

abbreviation dict_values :: "('k, 'v) dict \<Rightarrow> 'v list" where
  "dict_values d \<equiv> map snd d"

definition dict_get_or :: "('k, 'v) dict \<Rightarrow> 'k \<Rightarrow> 'v \<Rightarrow> 'v" where
  "dict_get_or d k v = (case map_of d k of None \<Rightarrow> v | Some x \<Rightarrow> x)"

definition dict_ok :: "('k, 'v) dict \<Rightarrow> bool" where
  "dict_ok d \<longleftrightarrow> distinct (map fst d)"

text \<open>Python exceptions that a modelled statement can raise by itself.\<close>

datatype py_error = IndexError | KeyError | ValueError string | RuntimeError string | RecursionLimit

text \<open>Decoded JSON documents, as \<open>json.loads\<close> returns them; finite floats are rationals.\<close>

datatype json =
    JNull
  | JBool bool
  | JInt int
  | JFloat rat
  | JStr string
  | JList "json list"
  | JObj "(string \<times> json) list"

definition seconds :: "int \<Rightarrow> micros" where
  "seconds s = s * 1000000"

text \<open>A dict comprehension: later entries replace the value, not the position, of earlier ones.\<close>

definition dict_comp :: "('k \<times> 'v) list \<Rightarrow> ('k, 'v) dict" where
  "dict_comp kvs = foldl (\<lambda>d (k, v). dict_set k v d) [] kvs"

text \<open>The slice \<open>xs[:n]\<close>: a negative bound counts from the end.\<close>

definition py_slice_to :: "int \<Rightarrow> 'a list \<Rightarrow> 'a list" where
  "py_slice_to n xs = (if 0 \<le> n then take (nat n) xs else take (nat (int (length xs) + n)) xs)"

lemma distinct_mapI: "distinct (map f xs) \<Longrightarrow> distinct xs"
  by (simp add: distinct_map)

section \<open>Dictionary lemmas\<close>

lemma dict_set_new: "k \<notin> set (dict_keys d) \<Longrightarrow> dict_set k v d = d @ [(k, v)]"
  by (induction d) auto

lemma foldl_dict_set_new:
  "distinct (map fst kvs) \<Longrightarrow> set (map fst kvs) \<inter> set (dict_keys d) = {} \<Longrightarrow>
     foldl (\<lambda>d (k, v). dict_set k v d) d kvs = d @ kvs"
proof (induction kvs arbitrary: d)
  case (Cons p kvs)
  obtain k v where p: "p = (k, v)" by fastforce
  from Cons.prems p have "k \<notin> set (dict_keys d)" by auto
  then have "foldl (\<lambda>d (k, v). dict_set k v d) d (p # kvs) =
      foldl (\<lambda>d (k, v). dict_set k v d) (d @ [(k, v)]) kvs"
    using p by (simp add: dict_set_new)
  also have "\<dots> = (d @ [(k, v)]) @ kvs"
    using Cons.prems p by (intro Cons.IH) auto
  finally show ?case using p by simp
qed simp

lemma dict_comp_distinct [simp]: "distinct (map fst kvs) \<Longrightarrow> dict_comp kvs = kvs"
  by (simp add: dict_comp_def foldl_dict_set_new)

lemma dict_ok_Nil [simp]: "dict_ok []"
  by (simp add: dict_ok_def)

lemma dict_ok_set [simp, intro]: "dict_ok d \<Longrightarrow> dict_ok (dict_set k v d)"
  by (simp add: dict_ok_def distinct_update)

lemma dict_ok_pop [simp, intro]: "dict_ok d \<Longrightarrow> dict_ok (dict_pop k d)"
  by (simp add: dict_ok_def distinct_delete)

lemma dict_ok_filter [simp, intro]: "dict_ok d \<Longrightarrow> dict_ok (filter P d)"
  by (simp add: dict_ok_def distinct_map_filter)

lemma dict_get_set [simp]: "dict_get (dict_set k v d) k' = (if k' = k then Some v else dict_get d k')"
  by (simp add: update_conv')

lemma dict_get_pop [simp]: "dict_get (dict_pop k d) k' = (if k' = k then None else dict_get d k')"
  by (simp add: delete_conv')

lemma dict_get_or_set [simp]:
  "dict_get_or (dict_set k v d) k' w = (if k' = k then v else dict_get_or d k' w)"
  by (simp add: dict_get_or_def)

lemma dict_get_or_pop [simp]:
  "dict_get_or (dict_pop k d) k' w = (if k' = k then w else dict_get_or d k' w)"
  by (simp add: dict_get_or_def)

lemma dict_get_or_Nil [simp]: "dict_get_or [] k w = w"
  by (simp add: dict_get_or_def)

lemma dict_mem_get: "dict_ok d \<Longrightarrow> (k, v) \<in> set d \<longleftrightarrow> dict_get d k = Some v"
  by (simp add: dict_ok_def)

lemma dict_get_mem: "dict_get d k = Some v \<Longrightarrow> (k, v) \<in> set d"
  by (rule map_of_SomeD)

lemma dict_get_values: "dict_get d k = Some v \<Longrightarrow> v \<in> set (dict_values d)"
  by (force dest: map_of_SomeD)

lemma dict_values_get:
  "dict_ok d \<Longrightarrow> v \<in> set (dict_values d) \<Longrightarrow> \<exists>k. dict_get d k = Some v"
  by (auto simp: dict_ok_def)

lemma dict_set_values:
  "set (dict_values (dict_set k v d)) \<subseteq> insert v (set (dict_values d))"
proof (induction d)
  case (Cons p d)
  then show ?case by (cases p) auto
qed simp

lemma dict_get_None_keys: "dict_get d k = None \<longleftrightarrow> k \<notin> set (dict_keys d)"
  by (simp add: map_of_eq_None_iff)

lemma dict_keys_set: "set (dict_keys (dict_set k v d)) = insert k (set (dict_keys d))"
  using dom_update [of k v d] by (simp add: dom_map_of_conv_image_fst)

lemma dict_keys_set_present: "k \<in> set (dict_keys d) \<Longrightarrow> dict_keys (dict_set k v d) = dict_keys d"
  by (induction d) auto

lemma dict_keys_pop: "set (dict_keys (dict_pop k d)) = set (dict_keys d) - {k}"
  by (induction d) auto

lemma dict_set_idle: "dict_get d k = Some v \<Longrightarrow> dict_set k v d = d"
  by (induction d) auto

lemma dict_comp_get:
  "dict_get (map (\<lambda>x. (f x, g x)) xs) k = (case find (\<lambda>x. f x = k) xs of None \<Rightarrow> None | Some x \<Rightarrow> Some (g x))"
  by (induction xs) auto

text \<open>
  The interface every in-memory table of the gateway is used through: the laws are those of a
  finite map, and \<open>ok\<close> is the representation invariant.
\<close>

locale keyed_store =
  fixes empty_s :: "'s"
    and put_s :: "'k \<Rightarrow> 'v \<Rightarrow> 's \<Rightarrow> 's"
    and drop_s :: "'k \<Rightarrow> 's \<Rightarrow> 's"
    and look_s :: "'s \<Rightarrow> 'k \<Rightarrow> 'v option"
    and ok_s :: "'s \<Rightarrow> bool"
  assumes look_empty: "look_s empty_s k = None"
    and look_put: "ok_s s \<Longrightarrow> look_s (put_s k v s) k' = (if k' = k then Some v else look_s s k')"
    and look_drop: "ok_s s \<Longrightarrow> look_s (drop_s k s) k' = (if k' = k then None else look_s s k')"
    and ok_empty: "ok_s empty_s"
    and ok_put: "ok_s s \<Longrightarrow> ok_s (put_s k v s)"
    and ok_drop: "ok_s s \<Longrightarrow> ok_s (drop_s k s)"
begin

lemma put_put_look: "ok_s s \<Longrightarrow> look_s (put_s k v (put_s k w s)) k' = look_s (put_s k v s) k'"
  by (simp add: look_put ok_put)

lemma put_swap_look:
  "ok_s s \<Longrightarrow> k \<noteq> l \<Longrightarrow> look_s (put_s k v (put_s l w s)) j = look_s (put_s l w (put_s k v s)) j"
  by (simp add: look_put ok_put)

lemma drop_put_look:
  "ok_s s \<Longrightarrow> look_s s k = None \<Longrightarrow> look_s (drop_s k (put_s k v s)) j = look_s s j"
  by (simp add: look_put look_drop ok_put)

lemma fold_drop_look:
  "ok_s s \<Longrightarrow> ok_s (fold drop_s ks s) \<and>
    look_s (fold drop_s ks s) k = (if k \<in> set ks then None else look_s s k)"
  by (induction ks arbitrary: s) (auto simp: look_drop ok_drop)

end

interpretation pydict: keyed_store "[]" dict_set dict_pop dict_get dict_ok
  by unfold_locales auto

section \<open>Python's min and max with a key\<close>

text \<open>Both return the first extremal element; the empty case raises in Python.\<close>

fun py_min_by :: "('a \<Rightarrow> 'b::linorder) \<Rightarrow> 'a list \<Rightarrow> 'a option" where
  "py_min_by f [] = None"
| "py_min_by f (x # xs) =
     (case py_min_by f xs of None \<Rightarrow> Some x | Some y \<Rightarrow> if f x \<le> f y then Some x else Some y)"

fun py_max_by :: "('a \<Rightarrow> 'b::linorder) \<Rightarrow> 'a list \<Rightarrow> 'a option" where
  "py_max_by f [] = None"
| "py_max_by f (x # xs) =
     (case py_max_by f xs of None \<Rightarrow> Some x | Some y \<Rightarrow> if f y \<le> f x then Some x else Some y)"

lemma py_min_by_None [simp]: "py_min_by f xs = None \<longleftrightarrow> xs = []"
  by (cases xs) (auto split: option.splits)

lemma py_max_by_None [simp]: "py_max_by f xs = None \<longleftrightarrow> xs = []"
  by (cases xs) (auto split: option.splits)

lemma py_min_by_Some:
  "py_min_by f xs = Some x \<Longrightarrow> x \<in> set xs \<and> (\<forall>y \<in> set xs. f x \<le> f y)"
proof (induction xs arbitrary: x)
  case (Cons a xs)
  then show ?case
    by (cases "py_min_by f xs") (fastforce split: if_splits)+
qed simp

lemma py_max_by_Some:
  "py_max_by f xs = Some x \<Longrightarrow> x \<in> set xs \<and> (\<forall>y \<in> set xs. f y \<le> f x)"
proof (induction xs arbitrary: x)
  case (Cons a xs)
  then show ?case
    by (cases "py_max_by f xs") (fastforce split: if_splits)+
qed simp

section \<open>String methods\<close>

definition lower_char :: "char \<Rightarrow> char" where
  "lower_char c = (if 65 \<le> (of_char c :: nat) \<and> (of_char c :: nat) \<le> 90
                   then char_of ((of_char c :: nat) + 32) else c)"

definition str_lower :: "string \<Rightarrow> string" where
  "str_lower s = map lower_char s"

definition is_space :: "char \<Rightarrow> bool" where
  "is_space c \<longleftrightarrow> (of_char c :: nat) \<in> {9, 10, 11, 12, 13, 28, 29, 30, 31, 32}"

definition str_rstrip :: "(char \<Rightarrow> bool) \<Rightarrow> string \<Rightarrow> string" where
  "str_rstrip P s = rev (dropWhile P (rev s))"

definition str_strip :: "string \<Rightarrow> string" where
  "str_strip s = str_rstrip is_space (dropWhile is_space s)"

definition str_startswith :: "string \<Rightarrow> string \<Rightarrow> bool" where
  "str_startswith s p \<longleftrightarrow> take (length p) s = p"

definition str_removeprefix :: "string \<Rightarrow> string \<Rightarrow> string" where
  "str_removeprefix s p = (if str_startswith s p then drop (length p) s else s)"

fun str_contains :: "string \<Rightarrow> string \<Rightarrow> bool" where
  "str_contains s [] = True"
| "str_contains [] (c # cs) = False"
| "str_contains (x # xs) (c # cs) = (str_startswith (x # xs) (c # cs) \<or> str_contains xs (c # cs))"

text \<open>Decimal text of an integer: \<open>str(n)\<close>.\<close>

fun nat_digits :: "nat \<Rightarrow> string" where
  "nat_digits n = (if n < 10 then [char_of (48 + n)] else nat_digits (n div 10) @ [char_of (48 + n mod 10)])"

definition str_int :: "int \<Rightarrow> string" where
  "str_int n = (if n < 0 then CHR ''-'' # nat_digits (nat (- n)) else nat_digits (nat n))"

lemma lower_char_idem [simp]: "lower_char (lower_char c) = lower_char c"
proof (cases "65 \<le> (of_char c :: nat) \<and> (of_char c :: nat) \<le> 90")
  case True
  then have "(of_char (char_of ((of_char c :: nat) + 32) :: char) :: nat) = of_char c + 32"
    by (simp add: of_char_of)
  with True show ?thesis by (simp add: lower_char_def)
next
  case False
  then show ?thesis by (auto simp: lower_char_def)
qed

lemma str_lower_idem [simp]: "str_lower (str_lower s) = str_lower s"
  by (simp add: str_lower_def comp_def)

lemma str_removeprefix_append [simp]: "str_removeprefix (p @ s) p = s"
  by (simp add: str_removeprefix_def str_startswith_def)

lemma str_startswith_append [simp]: "str_startswith (p @ s) p"
  by (simp add: str_startswith_def)

section \<open>Reachability\<close>

text \<open>
  One inductive predicate serves every step relation of the development, and one locale turns
  "holds initially and is kept by every step" into "holds in every reachable state".
\<close>

inductive reachable :: "('s \<Rightarrow> bool) \<Rightarrow> ('s \<Rightarrow> 's \<Rightarrow> bool) \<Rightarrow> 's \<Rightarrow> bool"
  for init :: "'s \<Rightarrow> bool" and step :: "'s \<Rightarrow> 's \<Rightarrow> bool" where
  reach_init: "init s \<Longrightarrow> reachable init step s"
| reach_step: "reachable init step s \<Longrightarrow> step s t \<Longrightarrow> reachable init step t"

locale invariant_system =
  fixes init :: "'s \<Rightarrow> bool"
    and step :: "'s \<Rightarrow> 's \<Rightarrow> bool"
    and inv :: "'s \<Rightarrow> bool"
  assumes inv_init: "init s \<Longrightarrow> inv s"
    and inv_step: "inv s \<Longrightarrow> step s t \<Longrightarrow> inv t"
begin

lemma reachable_inv: "reachable init step s \<Longrightarrow> inv s"
  by (induction rule: reachable.induct) (auto intro: inv_init inv_step)

lemma steps_inv: "step\<^sup>*\<^sup>* s t \<Longrightarrow> inv s \<Longrightarrow> inv t"
  by (induction rule: rtranclp_induct) (auto intro: inv_step)

end

text \<open>
  A system that simulates an abstract one through an abstraction function, given an invariant. Each
  concrete step is an abstract step or leaves the abstract state alone.
\<close>

locale simulation = invariant_system init step inv
  for init :: "'s \<Rightarrow> bool" and step :: "'s \<Rightarrow> 's \<Rightarrow> bool" and inv :: "'s \<Rightarrow> bool" +
  fixes abs :: "'s \<Rightarrow> 'a"
    and ainit :: "'a \<Rightarrow> bool"
    and astep :: "'a \<Rightarrow> 'a \<Rightarrow> bool"
  assumes sim_init: "init s \<Longrightarrow> ainit (abs s)"
    and sim_step: "inv s \<Longrightarrow> step s t \<Longrightarrow> astep (abs s) (abs t) \<or> abs t = abs s"
begin

lemma reachable_abs: "reachable init step s \<Longrightarrow> reachable ainit astep (abs s)"
proof (induction rule: reachable.induct)
  case (reach_init s)
  then show ?case by (auto intro: reachable.reach_init sim_init)
next
  case (reach_step s t)
  then show ?case using sim_step [OF reachable_inv] by (metis reachable.reach_step)
qed

end

section \<open>Code that may raise\<close>

definition ebind :: "'e + 'a \<Rightarrow> ('a \<Rightarrow> 'e + 'b) \<Rightarrow> 'e + 'b" where
  "ebind r f = (case r of Inl e \<Rightarrow> Inl e | Inr x \<Rightarrow> f x)"

lemma ebind_simps [simp]: "ebind (Inl e) f = Inl e" "ebind (Inr x) f = f x"
  by (simp_all add: ebind_def)

lemma ebind_Inr: "ebind r f = Inr y \<longleftrightarrow> (\<exists>x. r = Inr x \<and> f x = Inr y)"
  by (cases r) simp_all

lemma ebind_Inl: "ebind r f = Inl e \<longleftrightarrow> r = Inl e \<or> (\<exists>x. r = Inr x \<and> f x = Inl e)"
  by (cases r) simp_all

section \<open>Lists\<close>

lemma sum_list_update_dict:
  fixes f :: "'v \<Rightarrow> int"
  assumes "dict_ok d" "dict_get d k = Some v"
  shows "sum_list (map f (dict_values (dict_set k w d))) = sum_list (map f (dict_values d)) - f v + f w"
  using assms
proof (induction d)
  case (Cons p d)
  show ?case
  proof (cases "fst p = k")
    case True
    with Cons.prems show ?thesis by (cases p) auto
  next
    case False
    with Cons.prems have "dict_ok d" "dict_get d k = Some v"
      by (cases p; simp add: dict_ok_def)+
    with Cons.IH False show ?thesis by (cases p) auto
  qed
qed simp

lemma sort_key_set [simp]: "set (sort_key f xs) = set xs"
  by simp

lemma distinct_sort_key [simp]: "distinct (sort_key f xs) = distinct xs"
  by simp

end
