(* ===== verification/Planner.thy ===== *)
theory Planner
  imports QiipPrelude
begin

text \<open>
  The fixed-ratio placement planner of \<^verbatim>\<open>placement/planner.py\<close>, translated statement by
  statement: the largest-remainder apportionment with rational shares, the grant loop, the
  augmenting-path search \<open>take\<close> with its shared \<open>visited\<close> set and \<open>assigned\<close> dictionary, and the
  resulting plan. The recursion of \<open>take\<close> carries fuel; the caller passes one more than the
  number of hosts, which is enough because every nested call marks one more host as visited.
\<close>

section \<open>Data\<close>

record PlannedProfile =
  pp_profile_id :: string
  pp_weight :: int
  pp_gpu_classes :: "string list"
  pp_preferred_gpu_class :: "string option"
  pp_placeable :: bool

record Candidate =
  ca_hostname :: host
  ca_gpu_class :: string

record Assignment =
  as_hostname :: host
  as_profile_id :: string

record PlacementPlan =
  pl_targets :: "(string, int) dict"
  pl_held :: "(string, int) dict"
  pl_assignments :: "Assignment list"
  pl_unfilled :: "(string, int) dict"

text \<open>\<open>d[k]\<close> for the count dictionaries below, whose keys are all the profile ids from the start.\<close>

abbreviation count_of :: "(string, int) dict \<Rightarrow> string \<Rightarrow> int" where
  "count_of d k \<equiv> dict_get_or d k 0"

definition bump :: "string \<Rightarrow> int \<Rightarrow> (string, int) dict \<Rightarrow> (string, int) dict" where
  "bump k n d = dict_set k (count_of d k + n) d"

section \<open>Apportionment\<close>

definition weighted_profiles :: "PlannedProfile list \<Rightarrow> PlannedProfile list" where
  "weighted_profiles profiles = filter (\<lambda>p. pp_weight p > 0) profiles"

definition share :: "int \<Rightarrow> PlannedProfile list \<Rightarrow> PlannedProfile \<Rightarrow> rat" where
  "share tot weighted p = Fract (tot * pp_weight p) (sum_list (map pp_weight weighted))"

text \<open>\<open>share.numerator // share.denominator\<close> on the normalised fraction.\<close>

definition whole :: "rat \<Rightarrow> int" where
  "whole q = fst (quotient_of q) div snd (quotient_of q)"

definition floor_targets ::
  "int \<Rightarrow> PlannedProfile list \<Rightarrow> (string, int) dict \<Rightarrow> (string, int) dict" where
  "floor_targets tot weighted targets =
     fold (\<lambda>p d. dict_set (pp_profile_id p) (whole (share tot weighted p)) d) weighted targets"

definition by_remainder :: "int \<Rightarrow> PlannedProfile list \<Rightarrow> nat list" where
  "by_remainder tot weighted =
     sort_key (\<lambda>i. (- frac (share tot weighted (weighted ! i)), i)) [0..<length weighted]"

definition donor_index :: "PlannedProfile list \<Rightarrow> (string, int) dict \<Rightarrow> nat" where
  "donor_index weighted targets =
     the (py_max_by (\<lambda>i. (count_of targets (pp_profile_id (weighted ! i)), i)) [0..<length weighted])"

fun donate :: "PlannedProfile list \<Rightarrow> PlannedProfile list \<Rightarrow> (string, int) dict \<Rightarrow> (string, int) dict" where
  "donate weighted [] targets = targets"
| "donate weighted (p # ps) targets =
     (if count_of targets (pp_profile_id p) > 0 then donate weighted ps targets
      else donate weighted ps
        (bump (pp_profile_id p) 1
          (bump (pp_profile_id (weighted ! donor_index weighted targets)) (- 1) targets)))"

definition apportion :: "int \<Rightarrow> PlannedProfile list \<Rightarrow> (string, int) dict" where
  "apportion tot profiles =
     (let weighted = weighted_profiles profiles;
          targets = dict_comp (map (\<lambda>p. (pp_profile_id p, 0)) profiles)
      in if tot \<le> 0 \<or> weighted = [] then targets
         else if tot < int (length weighted)
         then fold (\<lambda>p d. dict_set (pp_profile_id p) 1 d) (py_slice_to tot weighted) targets
         else
           let targets = floor_targets tot weighted targets;
               leftover = tot - sum_list (dict_values targets);
               targets = fold (\<lambda>i d. bump (pp_profile_id (weighted ! i)) 1 d)
                           (py_slice_to leftover (by_remainder tot weighted)) targets
           in if tot \<ge> int (length weighted) then donate weighted weighted targets else targets)"

section \<open>Grants\<close>

fun grant_loop ::
  "nat \<Rightarrow> string list \<Rightarrow> (string, int) dict \<Rightarrow> (string, nat) dict \<Rightarrow> (string, int) dict \<Rightarrow> (string, int) dict" where
  "grant_loop 0 placeable deficits order grants = grants"
| "grant_loop (Suc remaining) placeable deficits order grants =
     (case py_min_by (\<lambda>k. (- (count_of deficits k - count_of grants k), dict_get_or order k 0))
             (filter (\<lambda>k. count_of deficits k - count_of grants k > 0) placeable) of
        None \<Rightarrow> grants
      | Some chosen \<Rightarrow> grant_loop remaining placeable deficits order (bump chosen 1 grants))"

section \<open>Matching grants to hosts\<close>

definition contested :: "PlannedProfile list \<Rightarrow> (string, int) dict \<Rightarrow> PlannedProfile \<Rightarrow> string option list" where
  "contested profiles pending p =
     map pp_preferred_gpu_class
       (filter (\<lambda>q. pp_profile_id q \<noteq> pp_profile_id p \<and> count_of pending (pp_profile_id q) > 0) profiles)"

definition usable_hosts ::
  "PlannedProfile list \<Rightarrow> Candidate list \<Rightarrow> (string, int) dict \<Rightarrow> PlannedProfile \<Rightarrow> Candidate list" where
  "usable_hosts profiles ordered pending p =
     sort_key (\<lambda>c. (Some (ca_gpu_class c) \<noteq> pp_preferred_gpu_class p,
                    Some (ca_gpu_class c) \<in> set (contested profiles pending p),
                    ca_hostname c))
       (filter (\<lambda>c. ca_gpu_class c \<in> set (pp_gpu_classes p)) ordered)"

type_synonym assigned = "(host, PlannedProfile) dict"
type_synonym take_result = "py_error + (bool \<times> host list \<times> (host, PlannedProfile) dict)"

text \<open>The second loop of \<open>take\<close>: \<open>again\<close> is the recursive call.\<close>

fun displace ::
  "(PlannedProfile \<Rightarrow> host list \<Rightarrow> assigned \<Rightarrow> take_result) \<Rightarrow> PlannedProfile \<Rightarrow> Candidate list
     \<Rightarrow> host list \<Rightarrow> assigned \<Rightarrow> take_result" where
  "displace again p [] visited assigned = Inr (False, visited, assigned)"
| "displace again p (c # cs) visited assigned =
     (if ca_hostname c \<in> set visited then displace again p cs visited assigned
      else case dict_get assigned (ca_hostname c) of
             None \<Rightarrow> Inl KeyError
           | Some q \<Rightarrow>
               (case again q (ca_hostname c # visited) assigned of
                  Inl e \<Rightarrow> Inl e
                | Inr (True, v, a) \<Rightarrow> Inr (True, v, dict_set (ca_hostname c) p a)
                | Inr (False, v, a) \<Rightarrow> displace again p cs v a))"

fun take_host ::
  "nat \<Rightarrow> PlannedProfile list \<Rightarrow> Candidate list \<Rightarrow> (string, int) dict \<Rightarrow> PlannedProfile \<Rightarrow> host list
     \<Rightarrow> assigned \<Rightarrow> take_result" where
  "take_host 0 profiles ordered pending p visited assigned = Inl RecursionLimit"
| "take_host (Suc fuel) profiles ordered pending p visited assigned =
     (let usable = usable_hosts profiles ordered pending p
      in case find (\<lambda>c. ca_hostname c \<notin> set (dict_keys assigned) \<and> ca_hostname c \<notin> set visited) usable of
           Some c \<Rightarrow> Inr (True, visited, dict_set (ca_hostname c) p assigned)
         | None \<Rightarrow> displace (\<lambda>q v a. take_host fuel profiles ordered pending q v a) p usable visited assigned)"

function fill_profile ::
  "PlannedProfile list \<Rightarrow> Candidate list \<Rightarrow> PlannedProfile \<Rightarrow> (string, int) dict \<Rightarrow> assigned
     \<Rightarrow> py_error + ((string, int) dict \<times> assigned)" where
  "fill_profile profiles ordered p pending assigned =
     (if count_of pending (pp_profile_id p) > 0 then
        let pending = bump (pp_profile_id p) (- 1) pending
        in case take_host (Suc (length ordered)) profiles ordered pending p [] assigned of
             Inl e \<Rightarrow> Inl e
           | Inr (False, _, a) \<Rightarrow> Inr (pending, a)
           | Inr (True, _, a) \<Rightarrow> fill_profile profiles ordered p pending a
      else Inr (pending, assigned))"
  by pat_completeness auto
termination
  by (relation "measure (\<lambda>(profiles, ordered, p, pending, assigned). nat (count_of pending (pp_profile_id p)))")
    (auto simp: bump_def)

declare fill_profile.simps [simp del]

fun fill_all ::
  "PlannedProfile list \<Rightarrow> Candidate list \<Rightarrow> PlannedProfile list \<Rightarrow> (string, int) dict \<Rightarrow> assigned
     \<Rightarrow> py_error + ((string, int) dict \<times> assigned)" where
  "fill_all profiles ordered [] pending assigned = Inr (pending, assigned)"
| "fill_all profiles ordered (p # ps) pending assigned =
     (case fill_profile profiles ordered p pending assigned of
        Inl e \<Rightarrow> Inl e
      | Inr (pending', assigned') \<Rightarrow> fill_all profiles ordered ps pending' assigned')"

section \<open>The plan\<close>

definition ordered_candidates :: "Candidate list \<Rightarrow> Candidate list" where
  "ordered_candidates candidates = sort_key ca_hostname (remdups candidates)"

definition held_counts :: "PlannedProfile list \<Rightarrow> (string, int) dict \<Rightarrow> (string, int) dict" where
  "held_counts profiles held =
     dict_comp (map (\<lambda>p. (pp_profile_id p, max 0 (count_of held (pp_profile_id p)))) profiles)"

definition retired_count :: "PlannedProfile list \<Rightarrow> (string, int) dict \<Rightarrow> int" where
  "retired_count profiles held =
     sum_list (map (\<lambda>(k, n). max 0 n) (filter (\<lambda>(k, n). k \<notin> set (map pp_profile_id profiles)) held))"

definition plan_targets :: "PlannedProfile list \<Rightarrow> (string, int) dict \<Rightarrow> Candidate list \<Rightarrow> (string, int) dict" where
  "plan_targets profiles held ordered =
     apportion (sum_list (dict_values (held_counts profiles held)) + int (length ordered)) profiles"

definition plan_deficits :: "PlannedProfile list \<Rightarrow> (string, int) dict \<Rightarrow> Candidate list \<Rightarrow> (string, int) dict" where
  "plan_deficits profiles held ordered =
     map (\<lambda>(k, n). (k, max 0 (n - count_of (held_counts profiles held) k))) (plan_targets profiles held ordered)"

definition profile_order :: "PlannedProfile list \<Rightarrow> (string, nat) dict" where
  "profile_order profiles = dict_comp (zip (map pp_profile_id profiles) [0..<length profiles])"

definition plan_grants :: "PlannedProfile list \<Rightarrow> (string, int) dict \<Rightarrow> Candidate list \<Rightarrow> (string, int) dict" where
  "plan_grants profiles held ordered =
     grant_loop (length ordered)
       (dict_keys (dict_comp (map (\<lambda>p. (pp_profile_id p, p)) (filter pp_placeable profiles))))
       (plan_deficits profiles held ordered) (profile_order profiles)
       (map (\<lambda>(k, n). (k, 0)) (plan_targets profiles held ordered))"

definition plan_placements ::
  "PlannedProfile list \<Rightarrow> (string, int) dict \<Rightarrow> Candidate list \<Rightarrow> py_error + PlacementPlan" where
  "plan_placements profiles held candidates =
     (let ordered = ordered_candidates candidates
      in if length (remdups (map ca_hostname ordered)) \<noteq> length ordered
         then Inl (ValueError ''a host was offered with two GPU classes'')
         else
           let retired = retired_count profiles held;
               grants = plan_grants profiles held ordered;
               order = profile_order profiles
           in case fill_all profiles ordered profiles grants [] of
                Inl e \<Rightarrow> Inl e
              | Inr (pending, assigned) \<Rightarrow>
                  let assignments =
                        sort_key (\<lambda>a. (dict_get_or order (as_profile_id a) 0, as_hostname a))
                          (map (\<lambda>(h, p). \<lparr>as_hostname = h, as_profile_id = pp_profile_id p\<rparr>) assigned);
                      unfilled = fold (\<lambda>a d. bump (as_profile_id a) (- 1) d) assignments
                          (plan_deficits profiles held ordered)
                  in Inr \<lparr>pl_targets = plan_targets profiles held ordered,
                          pl_held = (if retired \<noteq> 0
                             then dict_set ''(retired)'' retired (held_counts profiles held)
                             else held_counts profiles held),
                          pl_assignments = assignments,
                          pl_unfilled = filter (\<lambda>(k, n). n > 0) unfilled\<rparr>)"

section \<open>Count dictionaries\<close>

lemma count_bump [simp]:
  "count_of (bump k n d) j = (if j = k then count_of d k + n else count_of d j)"
  by (simp add: bump_def)

lemma bump_keys: "k \<in> set (dict_keys d) \<Longrightarrow> dict_keys (bump k n d) = dict_keys d"
  by (simp add: bump_def dict_keys_set_present)

lemma dict_ok_bump [simp]: "dict_ok d \<Longrightarrow> dict_ok (bump k n d)"
  by (simp add: bump_def)

lemma dict_values_counts:
  "dict_ok d \<Longrightarrow> dict_values d = map (count_of d) (dict_keys d)"
  by (auto simp: dict_ok_def dict_get_or_def intro!: map_cong)

lemma sum_bump:
  assumes "dict_ok d" "k \<in> set (dict_keys d)"
  shows "sum_list (dict_values (bump k n d)) = sum_list (dict_values d) + n"
proof -
  from assms(2) obtain v where v: "dict_get d k = Some v"
    by (cases "dict_get d k") (auto simp: dict_get_None_keys)
  with sum_list_update_dict [OF assms(1) v, of "\<lambda>x. x" "v + n"] show ?thesis
    by (simp add: bump_def dict_get_or_def)
qed

lemma dict_keys_zero: "dict_keys (map (\<lambda>p. (f p, v)) ps) = map f ps"
  by simp

lemma fold_set_keys:
  "f ` set ps \<subseteq> set (dict_keys d) \<Longrightarrow>
     dict_keys (fold (\<lambda>p d. dict_set (f p) (g p) d) ps d) = dict_keys d"
proof (induction ps arbitrary: d)
  case (Cons p ps)
  then have "dict_keys (dict_set (f p) (g p) d) = dict_keys d"
    by (intro dict_keys_set_present) auto
  with Cons show ?case by (simp flip: set_map)
qed simp

lemma fold_set_count:
  assumes "distinct (map f ps)"
  shows "dict_get (fold (\<lambda>p d. dict_set (f p) (g p) d) ps d) k =
     (case find (\<lambda>p. f p = k) ps of Some p \<Rightarrow> Some (g p) | None \<Rightarrow> dict_get d k)"
  using assms
proof (induction ps arbitrary: d)
  case (Cons p ps)
  show ?case
  proof (cases "f p = k")
    case True
    with Cons.prems have "\<not> (\<exists>q \<in> set ps. f q = k)" by (metis distinct.simps(2) image_eqI list.map(2) set_map)
    then have "find (\<lambda>p. f p = k) ps = None" by (simp add: find_None_iff)
    with Cons True show ?thesis by simp
  next
    case False
    with Cons show ?thesis by (simp split: option.split)
  qed
qed simp

lemma find_distinct_key:
  "distinct (map f ps) \<Longrightarrow> p \<in> set ps \<Longrightarrow> find (\<lambda>q. f q = f p) ps = Some p"
  by (induction ps) (auto simp: image_iff)

lemma fold_bump:
  assumes "dict_ok d" "f ` set is \<subseteq> set (dict_keys d)"
  shows "dict_keys (fold (\<lambda>i d. bump (f i) n d) is d) = dict_keys d \<and>
    dict_ok (fold (\<lambda>i d. bump (f i) n d) is d) \<and>
    sum_list (dict_values (fold (\<lambda>i d. bump (f i) n d) is d)) =
      sum_list (dict_values d) + int (length is) * n \<and>
    count_of (fold (\<lambda>i d. bump (f i) n d) is d) k =
      count_of d k + int (count (mset (map f is)) k) * n"
  using assms
proof (induction "is" arbitrary: d)
  case (Cons i "is")
  then have i: "f i \<in> set (dict_keys d)" and "dict_ok (bump (f i) n d)" by simp_all
  moreover from i Cons.prems have "f ` set is \<subseteq> set (dict_keys (bump (f i) n d))"
    by (simp add: bump_keys del: set_map)
  ultimately show ?case
    using Cons.IH [of "bump (f i) n d"] Cons.prems(1) i
    by (simp add: bump_keys sum_bump algebra_simps del: set_map)
qed simp

section \<open>Apportionment is exact\<close>

lemma whole_floor: "whole q = \<lfloor>q\<rfloor>"
  by (simp add: whole_def rat_floor_code case_prod_beta Let_def)

lemma weight_sum_pos:
  "weighted_profiles ps \<noteq> [] \<Longrightarrow> 0 < sum_list (map pp_weight (weighted_profiles ps))"
proof -
  have *: "0 < sum_list (map pp_weight qs)" if "\<forall>q \<in> set qs. 0 < pp_weight q" "qs \<noteq> []" for qs
    using that(2,1) by (induction qs rule: list_nonempty_induct) (auto intro: add_pos_pos)
  assume "weighted_profiles ps \<noteq> []"
  then show ?thesis by (intro *) (auto simp: weighted_profiles_def)
qed

lemma share_quotient:
  "share tot ws p = of_int (tot * pp_weight p) / of_int (sum_list (map pp_weight ws))"
  by (simp add: share_def Fract_of_int_quotient)

lemma sum_shares:
  assumes "sum_list (map pp_weight ws) \<noteq> 0"
  shows "sum_list (map (share tot ws) ws) = of_int tot"
proof -
  have *: "sum_list (map (\<lambda>p. of_int (tot * pp_weight p) / of_int s :: rat) qs) =
      of_int (tot * sum_list (map pp_weight qs)) / of_int s" for s qs
    by (induction qs) (auto simp: add_divide_distrib algebra_simps)
  show ?thesis unfolding share_quotient [abs_def] * using assms by simp
qed

lemma leftover_bounds:
  fixes f :: "'a \<Rightarrow> rat"
  assumes "sum_list (map f xs) = of_int t" "xs \<noteq> []"
  shows "0 \<le> t - sum_list (map (\<lambda>x. \<lfloor>f x\<rfloor>) xs)"
    and "t - sum_list (map (\<lambda>x. \<lfloor>f x\<rfloor>) xs) < int (length xs)"
proof -
  have split: "sum_list (map f ys) = of_int (sum_list (map (\<lambda>x. \<lfloor>f x\<rfloor>) ys)) + sum_list (map (frac \<circ> f) ys)" for ys
    by (induction ys) (auto simp: frac_def)
  have lo: "0 \<le> sum_list (map (frac \<circ> f) ys)" for ys
    by (induction ys) (auto simp: frac_ge_0 add_nonneg_nonneg)
  have hi: "sum_list (map (frac \<circ> f) ys) < of_nat (length ys)" if "ys \<noteq> []" for ys
    using that
  proof (induction ys rule: list_nonempty_induct)
    case (single x)
    then show ?case by (simp add: frac_lt_1)
  next
    case (cons x xs)
    then show ?case using frac_lt_1 [of "f x"] by simp
  qed
  from split [of xs] assms(1) have "of_int (t - sum_list (map (\<lambda>x. \<lfloor>f x\<rfloor>) xs)) = sum_list (map (frac \<circ> f) xs)"
    by simp
  with lo [of xs] hi [OF assms(2)] have
    "(0::rat) \<le> of_int (t - sum_list (map (\<lambda>x. \<lfloor>f x\<rfloor>) xs))"
    "(of_int (t - sum_list (map (\<lambda>x. \<lfloor>f x\<rfloor>) xs)) :: rat) < of_int (int (length xs))"
    by simp_all
  then show "0 \<le> t - sum_list (map (\<lambda>x. \<lfloor>f x\<rfloor>) xs)"
    and "t - sum_list (map (\<lambda>x. \<lfloor>f x\<rfloor>) xs) < int (length xs)"
    by (simp_all only: of_int_0_le_iff of_int_less_iff)
qed

lemma weighted_distinct:
  "distinct (map pp_profile_id ps) \<Longrightarrow> distinct (map pp_profile_id (weighted_profiles ps))"
  by (simp add: weighted_profiles_def distinct_map_filter)

lemma weighted_subset: "set (weighted_profiles ps) \<subseteq> set ps"
  by (auto simp: weighted_profiles_def)

text \<open>What holds of the target dictionary between the statements of \<open>apportion\<close>.\<close>

definition targets_inv :: "PlannedProfile list \<Rightarrow> int \<Rightarrow> (string, int) dict \<Rightarrow> bool" where
  "targets_inv profiles tot d \<longleftrightarrow>
     dict_keys d = map pp_profile_id profiles \<and> dict_ok d \<and> sum_list (dict_values d) = tot \<and>
     (\<forall>k. 0 \<le> count_of d k) \<and>
     (\<forall>k. k \<notin> set (map pp_profile_id (weighted_profiles profiles)) \<longrightarrow> count_of d k = 0)"

lemma targets_inv_weighted_sum:
  assumes "targets_inv profiles tot d" "distinct (map pp_profile_id profiles)"
  shows "sum_list (map (\<lambda>p. count_of d (pp_profile_id p)) (weighted_profiles profiles)) = tot"
proof -
  have "tot = sum_list (map (count_of d) (map pp_profile_id profiles))"
    using assms(1) dict_values_counts [of d] by (simp add: targets_inv_def)
  also have "\<dots> = sum_list (map (\<lambda>p. count_of d (pp_profile_id p)) profiles)"
    by (simp add: comp_def)
  also have "\<dots> = sum_list (map (\<lambda>p. count_of d (pp_profile_id p)) (weighted_profiles profiles))"
  proof -
    have "count_of d (pp_profile_id p) = 0" if "p \<in> set profiles" "\<not> 0 < pp_weight p" for p
    proof -
      have "pp_profile_id p \<notin> set (map pp_profile_id (weighted_profiles profiles))"
        using that assms(2) by (auto simp: weighted_profiles_def distinct_map inj_on_def)
      with assms(1) show ?thesis by (simp add: targets_inv_def)
    qed
    then show ?thesis
      unfolding weighted_profiles_def by (intro sum_list_map_filter [symmetric]) auto
  qed
  finally show ?thesis by simp
qed

lemma donor_index_max:
  assumes "ws \<noteq> []"
  shows "donor_index ws d < length ws"
    and "\<And>p. p \<in> set ws \<Longrightarrow>
      count_of d (pp_profile_id p) \<le> count_of d (pp_profile_id (ws ! donor_index ws d))"
proof -
  let ?key = "\<lambda>i. (count_of d (pp_profile_id (ws ! i)), i)"
  from assms have "py_max_by ?key [0..<length ws] \<noteq> None" by simp
  then obtain j where j: "py_max_by ?key [0..<length ws] = Some j" by blast
  then have dj: "donor_index ws d = j" by (simp add: donor_index_def)
  from py_max_by_Some [OF j] have "j < length ws" "\<And>i. i < length ws \<Longrightarrow> ?key i \<le> ?key j" by auto
  then show "donor_index ws d < length ws"
    and "\<And>p. p \<in> set ws \<Longrightarrow>
      count_of d (pp_profile_id p) \<le> count_of d (pp_profile_id (ws ! donor_index ws d))"
    by (fastforce simp: dj in_set_conv_nth less_eq_prod_def)+
qed

lemma sum_list_le_one:
  fixes f :: "'a \<Rightarrow> int"
  assumes "\<And>x. x \<in> set xs \<Longrightarrow> f x \<le> 1" "x \<in> set xs" "f x \<le> 0"
  shows "sum_list (map f xs) < int (length xs)"
proof -
  have le: "sum_list (map f ys) \<le> int (length ys)" if "\<And>y. y \<in> set ys \<Longrightarrow> f y \<le> 1" for ys
    using that by (induction ys) fastforce+
  obtain us vs where xs: "xs = us @ x # vs" using assms(2) by (auto dest: split_list)
  have "sum_list (map f us) \<le> int (length us)" "sum_list (map f vs) \<le> int (length vs)"
    using assms(1) xs by (auto intro: le)
  with assms(3) xs show ?thesis by simp
qed

lemma donor_has_two:
  assumes inv: "targets_inv profiles tot d" and dist: "distinct (map pp_profile_id profiles)"
    and ws: "ws = weighted_profiles profiles" and many: "int (length ws) \<le> tot"
    and p: "p \<in> set ws" "\<not> 0 < count_of d (pp_profile_id p)"
  shows "2 \<le> count_of d (pp_profile_id (ws ! donor_index ws d))"
proof (rule ccontr)
  assume less: "\<not> ?thesis"
  from p have ne: "ws \<noteq> []" by auto
  have "sum_list (map (\<lambda>p. count_of d (pp_profile_id p)) ws) < int (length ws)"
    using donor_index_max(2) [OF ne, of _ d] less p
    by (intro sum_list_le_one [of ws _ p]) force+
  with targets_inv_weighted_sum [OF inv dist] many show False by (simp add: ws)
qed

lemma donate_inv:
  assumes dist: "distinct (map pp_profile_id profiles)"
    and ws: "ws = weighted_profiles profiles" and many: "int (length ws) \<le> tot"
  shows "targets_inv profiles tot d \<Longrightarrow> set ps \<subseteq> set ws \<Longrightarrow>
    targets_inv profiles tot (donate ws ps d) \<and>
    (\<forall>k. 1 \<le> count_of d k \<longrightarrow> 1 \<le> count_of (donate ws ps d) k) \<and>
    (\<forall>p \<in> set ps. 1 \<le> count_of (donate ws ps d) (pp_profile_id p))"
proof (induction ps arbitrary: d)
  case (Cons p ps)
  show ?case
  proof (cases "count_of d (pp_profile_id p) > 0")
    case True
    with Cons show ?thesis by auto
  next
    case False
    let ?k = "pp_profile_id (ws ! donor_index ws d)"
    let ?e = "bump (pp_profile_id p) 1 (bump ?k (- 1) d)"
    have pw: "p \<in> set ws" and ne: "ws \<noteq> []" using Cons.prems by auto
    have two: "2 \<le> count_of d ?k"
      by (rule donor_has_two [OF Cons.prems(1) dist ws many pw False])
    have keyset: "set (dict_keys d) = pp_profile_id ` set profiles"
      using Cons.prems(1) by (simp add: targets_inv_def del: set_map) simp
    have dw: "ws ! donor_index ws d \<in> set ws" by (rule nth_mem [OF donor_index_max(1) [OF ne]])
    then have mem: "?k \<in> set (dict_keys d)" "pp_profile_id p \<in> set (dict_keys d)"
      and memw: "?k \<in> pp_profile_id ` set ws"
      using pw weighted_subset [of profiles] unfolding keyset ws by auto
    have sum: "sum_list (dict_values ?e) = tot" and keys: "dict_keys ?e = map pp_profile_id profiles"
      using Cons.prems(1) mem by (simp_all add: targets_inv_def sum_bump bump_keys del: set_map)
    have inv: "targets_inv profiles tot ?e"
      using Cons.prems(1) sum keys two memw pw ws unfolding targets_inv_def by auto
    have grow: "1 \<le> count_of ?e k" if "1 \<le> count_of d k" for k
      using that two by auto
    have "1 \<le> count_of ?e (pp_profile_id p)" using two Cons.prems(1) by (auto simp: targets_inv_def)
    with Cons.IH [OF inv] Cons.prems(2) grow False show ?thesis by auto
  qed
qed simp

lemma targets_zero:
  assumes "distinct (map pp_profile_id profiles)"
  shows "dict_comp (map (\<lambda>p. (pp_profile_id p, 0)) profiles) = map (\<lambda>p. (pp_profile_id p, 0 :: int)) profiles"
  using assms by (intro dict_comp_distinct) (simp add: comp_def)

lemma count_zero_targets: "count_of (map (\<lambda>p. (pp_profile_id p, 0)) profiles) k = 0"
  by (induction profiles) (auto simp: dict_get_or_def)

lemma fold_dict_ok: "dict_ok d \<Longrightarrow> dict_ok (fold (\<lambda>p d. dict_set (f p) (g p) d) ps d)"
  by (induction ps arbitrary: d) auto

lemma fold_set_counts:
  assumes "distinct (map f ps)"
  shows "p \<in> set ps \<Longrightarrow> count_of (fold (\<lambda>p d. dict_set (f p) (g p) d) ps d) (f p) = g p"
    and "k \<notin> f ` set ps \<Longrightarrow> count_of (fold (\<lambda>p d. dict_set (f p) (g p) d) ps d) k = count_of d k"
proof -
  show "p \<in> set ps \<Longrightarrow> count_of (fold (\<lambda>p d. dict_set (f p) (g p) d) ps d) (f p) = g p"
    using assms by (simp add: dict_get_or_def fold_set_count find_distinct_key)
  assume "k \<notin> f ` set ps"
  then have "find (\<lambda>p. f p = k) ps = None" by (auto simp: find_None_iff)
  then show "count_of (fold (\<lambda>p d. dict_set (f p) (g p) d) ps d) k = count_of d k"
    using assms by (simp add: dict_get_or_def fold_set_count)
qed

text \<open>Assigning a value to each of some weighted profiles, all others staying at zero.\<close>

lemma fold_set_targets_inv:
  assumes dist: "distinct (map pp_profile_id profiles)"
    and sub: "set ps \<subseteq> set (weighted_profiles profiles)" "distinct (map pp_profile_id ps)"
    and nonneg: "\<And>p. p \<in> set ps \<Longrightarrow> 0 \<le> g p"
  shows "targets_inv profiles (sum_list (map g ps))
    (fold (\<lambda>p d. dict_set (pp_profile_id p) (g p) d) ps (map (\<lambda>p. (pp_profile_id p, 0)) profiles))"
    (is "targets_inv _ _ ?d")
proof -
  let ?z = "map (\<lambda>p. (pp_profile_id p, 0 :: int)) profiles"
  have zk: "dict_keys ?z = map pp_profile_id profiles" by simp
  have keys: "dict_keys ?d = map pp_profile_id profiles"
    using sub weighted_subset [of profiles] zk by (subst fold_set_keys) auto
  have ok: "dict_ok ?d" using dist zk by (intro fold_dict_ok) (simp add: dict_ok_def comp_def)
  note counts = fold_set_counts [OF sub(2), of _ g ?z] fold_set_counts(2) [OF sub(2), of _ g ?z]
  have off: "count_of ?d k = 0" if "k \<notin> pp_profile_id ` set ps" for k
    using counts(2) [OF that] by (simp add: count_zero_targets)
  have "sum_list (dict_values ?d) = sum_list (map (count_of ?d) (map pp_profile_id profiles))"
    using dict_values_counts [OF ok] keys by simp
  also have "\<dots> = (\<Sum>k \<in> pp_profile_id ` set profiles. count_of ?d k)"
    using dist by (simp add: sum_list_distinct_conv_sum_set del: map_map)
  also have "\<dots> = (\<Sum>k \<in> pp_profile_id ` set ps. count_of ?d k)"
    using sub(1) weighted_subset [of profiles] off by (intro sum.mono_neutral_right) auto
  also have "\<dots> = sum_list (map (count_of ?d) (map pp_profile_id ps))"
    using sub(2) by (simp add: sum_list_distinct_conv_sum_set del: map_map)
  also have "\<dots> = sum_list (map g ps)"
    using counts(1) by (auto simp: comp_def intro!: arg_cong [where f = sum_list] map_cong)
  finally have sum: "sum_list (dict_values ?d) = sum_list (map g ps)" .
  have "0 \<le> count_of ?d k" for k
    using counts(1) nonneg off by (cases "k \<in> pp_profile_id ` set ps") auto
  moreover have "count_of ?d k = 0" if "k \<notin> set (map pp_profile_id (weighted_profiles profiles))" for k
    using that sub(1) by (intro off) auto
  ultimately show ?thesis using keys ok sum by (simp add: targets_inv_def)
qed

lemma py_slice_take: "0 \<le> n \<Longrightarrow> py_slice_to n xs = take (nat n) xs"
  by (simp add: py_slice_to_def)

lemma by_remainder_perm: "mset (by_remainder tot ws) = mset [0..<length ws]"
  by (simp add: by_remainder_def)

lemma bumped_slice_counts:
  assumes "distinct (map f xs)" "mset is = mset [0..<length xs]" "i < length xs"
  shows "count (mset (map (\<lambda>i. f (xs ! i)) (take n is))) (f (xs ! i)) \<le> 1"
proof -
  have "mset (map (\<lambda>i. f (xs ! i)) is) = mset (map (\<lambda>i. f (xs ! i)) [0..<length xs])"
    unfolding mset_map assms(2) by (rule refl)
  also have "map (\<lambda>i. f (xs ! i)) [0..<length xs] = map f xs"
    by (rule nth_equalityI) auto
  finally have "distinct (map (\<lambda>i. f (xs ! i)) is)"
    using assms(1) by (metis mset_eq_imp_distinct_iff)
  then have "distinct (map (\<lambda>i. f (xs ! i)) (take n is))" by (simp add: distinct_take flip: take_map)
  then show ?thesis by (simp add: distinct_count_atmost_1)
qed

lemma remainder_stage:
  assumes dist: "distinct (map pp_profile_id profiles)"
    and ws: "ws = weighted_profiles profiles" "ws \<noteq> []" and tot: "0 \<le> tot"
    and d1: "d1 = floor_targets tot ws (map (\<lambda>p. (pp_profile_id p, 0)) profiles)"
    and d2: "d2 = fold (\<lambda>i d. bump (pp_profile_id (ws ! i)) 1 d)
       (py_slice_to (tot - sum_list (dict_values d1)) (by_remainder tot ws)) d1"
  shows "targets_inv profiles tot d2"
    and "\<And>p. p \<in> set ws \<Longrightarrow> \<lfloor>share tot ws p\<rfloor> \<le> count_of d2 (pp_profile_id p) \<and>
           count_of d2 (pp_profile_id p) \<le> \<lfloor>share tot ws p\<rfloor> + 1"
proof -
  let ?fl = "\<lambda>p. \<lfloor>share tot ws p\<rfloor>" and ?id = "\<lambda>i. pp_profile_id (ws ! i)"
  have distw: "distinct (map pp_profile_id ws)" using weighted_distinct [OF dist] ws by simp
  have wpos: "0 < sum_list (map pp_weight ws)" using weight_sum_pos ws by simp
  have nn: "0 \<le> ?fl p" if "p \<in> set ws" for p
    using that wpos tot ws by (auto simp: share_quotient weighted_profiles_def)
  have d1': "d1 = fold (\<lambda>p d. dict_set (pp_profile_id p) (?fl p) d) ws (map (\<lambda>p. (pp_profile_id p, 0)) profiles)"
    by (simp add: d1 floor_targets_def whole_floor)
  have inv1: "targets_inv profiles (sum_list (map ?fl ws)) d1"
    unfolding d1' by (rule fold_set_targets_inv [OF dist _ distw nn]) (simp_all add: ws)
  have c1: "count_of d1 (pp_profile_id p) = ?fl p" if "p \<in> set ws" for p
    unfolding d1' by (rule fold_set_counts(1) [OF distw that])
  have left: "0 \<le> tot - sum_list (dict_values d1)" "tot - sum_list (dict_values d1) < int (length ws)"
    using leftover_bounds [of "share tot ws" ws tot] sum_shares [of ws tot] wpos ws inv1
    by (auto simp: targets_inv_def)
  let ?n = "nat (tot - sum_list (dict_values d1))"
  let ?is = "take ?n (by_remainder tot ws)"
  have perm: "mset (by_remainder tot ws) = mset [0..<length ws]" by (rule by_remainder_perm)
  then have idx: "set (by_remainder tot ws) = {0..<length ws}" and len: "length (by_remainder tot ws) = length ws"
    by (metis set_mset_mset set_upt) (metis perm length_upt minus_nat.diff_0 size_mset)
  have lis: "length ?is = ?n" using left len by simp
  have sis: "set ?is \<subseteq> {0..<length ws}" using idx by (metis set_take_subset)
  have d2': "d2 = fold (\<lambda>i d. bump (?id i) 1 d) ?is d1"
    unfolding d2 by (subst py_slice_take [OF left(1)]) (rule refl)
  have keyset: "set (dict_keys d1) = pp_profile_id ` set profiles"
    using inv1 by (simp add: targets_inv_def del: set_map) simp
  have idw: "?id i \<in> pp_profile_id ` set ws" if "i \<in> set ?is" for i using that sis by auto
  then have sub: "?id ` set ?is \<subseteq> set (dict_keys d1)"
    unfolding keyset using weighted_subset [of profiles] ws by blast
  have ok1: "dict_ok d1" using inv1 by (simp add: targets_inv_def)
  note fb = fold_bump [OF ok1 sub, of 1, folded d2']
  have c2: "count_of d2 k = count_of d1 k + int (count (mset (map ?id ?is)) k)" for k
    using fb [of k] by simp
  have off: "count (mset (map ?id ?is)) k = 0" if "k \<notin> pp_profile_id ` set ws" for k
    using that idw by (subst count_eq_zero_iff) auto
  have sum: "sum_list (dict_values d2) = tot" using fb [of "[]"] lis left by simp
  have c2nn: "0 \<le> count_of d2 k" for k using c2 inv1 by (simp add: targets_inv_def)
  have "count_of d2 k = 0" if "k \<notin> set (map pp_profile_id (weighted_profiles profiles))" for k
    using c2 [of k] off [of k] that inv1 ws by (simp add: targets_inv_def)
  with sum c2nn show "targets_inv profiles tot d2"
    using fb [of "[]"] inv1 by (simp add: targets_inv_def)
  fix p assume p: "p \<in> set ws"
  then obtain i where "i < length ws" "ws ! i = p" by (auto simp: in_set_conv_nth)
  with bumped_slice_counts [OF distw perm, of i ?n]
  have "count (mset (map ?id ?is)) (pp_profile_id p) \<le> 1" by simp
  then show "?fl p \<le> count_of d2 (pp_profile_id p) \<and> count_of d2 (pp_profile_id p) \<le> ?fl p + 1"
    using c2 c1 [OF p] by simp
qed

lemma apportion_large:
  assumes "distinct (map pp_profile_id profiles)" "weighted_profiles profiles \<noteq> []"
    and "int (length (weighted_profiles profiles)) \<le> tot"
  obtains d2 where "apportion tot profiles = donate (weighted_profiles profiles) (weighted_profiles profiles) d2"
    and "targets_inv profiles tot d2"
    and "\<And>p. p \<in> set (weighted_profiles profiles) \<Longrightarrow>
           \<lfloor>share tot (weighted_profiles profiles) p\<rfloor> \<le> count_of d2 (pp_profile_id p) \<and>
           count_of d2 (pp_profile_id p) \<le> \<lfloor>share tot (weighted_profiles profiles) p\<rfloor> + 1"
proof -
  have pos: "0 < tot" using assms(2,3) by (cases "weighted_profiles profiles") auto
  note st = remainder_stage [OF assms(1) refl assms(2) _ refl refl, of tot]
  show ?thesis
    by (rule that [OF _ st])
      (use pos assms in \<open>simp_all add: apportion_def Let_def targets_zero\<close>)
qed

lemma apportion_inv:
  assumes dist: "distinct (map pp_profile_id profiles)" and "weighted_profiles profiles \<noteq> []" "0 \<le> tot"
  shows "targets_inv profiles tot (apportion tot profiles)"
proof (cases "int (length (weighted_profiles profiles)) \<le> tot")
  case True
  from apportion_large [OF dist assms(2) True] obtain d2 where
    "apportion tot profiles = donate (weighted_profiles profiles) (weighted_profiles profiles) d2"
    "targets_inv profiles tot d2" by metis
  with donate_inv [OF dist refl True] show ?thesis by auto
next
  case False
  let ?ps = "take (nat tot) (weighted_profiles profiles)"
  have "targets_inv profiles (sum_list (map (\<lambda>_. 1) ?ps))
    (fold (\<lambda>p d. dict_set (pp_profile_id p) 1 d) ?ps (map (\<lambda>p. (pp_profile_id p, 0)) profiles))"
    using weighted_distinct [OF dist]
    by (intro fold_set_targets_inv [OF dist]) (auto dest: in_set_takeD simp: distinct_take simp flip: take_map)
  then have "targets_inv profiles tot
    (fold (\<lambda>p d. dict_set (pp_profile_id p) 1 d) ?ps (map (\<lambda>p. (pp_profile_id p, 0)) profiles))"
    using False assms(3) by (simp add: sum_list_triv)
  with False assms show ?thesis
    by (cases "tot = 0") (auto simp: apportion_def Let_def targets_zero py_slice_take)
qed

section \<open>The augmenting search\<close>

text \<open>
  \<open>usable_set\<close> is the edge relation of the bipartite graph between profiles and offered hosts;
  \<open>closed_hosts\<close> is the certificate a failed search leaves behind: every host of the set is
  assigned, to a profile that can use no host outside the set.
\<close>

definition usable_set :: "Candidate list \<Rightarrow> PlannedProfile \<Rightarrow> host set" where
  "usable_set ordered p = {ca_hostname c | c. c \<in> set ordered \<and> ca_gpu_class c \<in> set (pp_gpu_classes p)}"

definition assigned_ok :: "Candidate list \<Rightarrow> assigned \<Rightarrow> bool" where
  "assigned_ok ordered a \<longleftrightarrow> dict_ok a \<and> (\<forall>h q. dict_get a h = Some q \<longrightarrow> h \<in> usable_set ordered q)"

definition closed_hosts :: "Candidate list \<Rightarrow> assigned \<Rightarrow> host set \<Rightarrow> bool" where
  "closed_hosts ordered a V \<longleftrightarrow> (\<forall>h \<in> V. \<exists>q. dict_get a h = Some q \<and> usable_set ordered q \<subseteq> V)"

definition failed_post ::
  "Candidate list \<Rightarrow> PlannedProfile \<Rightarrow> host list \<Rightarrow> assigned \<Rightarrow> host list \<Rightarrow> assigned \<Rightarrow> bool" where
  "failed_post ordered p visited a v' a' \<longleftrightarrow>
     a' = a \<and> set visited \<subseteq> set v' \<and> usable_set ordered p \<subseteq> set v' \<and>
     (\<forall>h \<in> set v' - set visited. \<exists>q. dict_get a h = Some q \<and> usable_set ordered q \<subseteq> set v')"

definition taken_post ::
  "Candidate list \<Rightarrow> PlannedProfile \<Rightarrow> host list \<Rightarrow> assigned \<Rightarrow> assigned \<Rightarrow> bool" where
  "taken_post ordered p visited a a' \<longleftrightarrow>
     assigned_ok ordered a' \<and> (\<forall>h \<in> set visited. dict_get a' h = dict_get a h) \<and>
     mset (dict_values a') = add_mset p (mset (dict_values a)) \<and>
     (\<forall>V. closed_hosts ordered a V \<longrightarrow>
        \<not> usable_set ordered p \<subseteq> V \<and> (\<forall>h \<in> V. dict_get a' h = dict_get a h))"

definition take_post ::
  "Candidate list \<Rightarrow> PlannedProfile \<Rightarrow> host list \<Rightarrow> assigned \<Rightarrow> take_result \<Rightarrow> bool" where
  "take_post ordered p visited a r \<longleftrightarrow>
     (\<exists>v' a'. r = Inr (False, v', a') \<and> failed_post ordered p visited a v' a') \<or>
     (\<exists>v' a'. r = Inr (True, v', a') \<and> taken_post ordered p visited a a')"

lemma usable_set_usable: "usable_set ordered p = ca_hostname ` set (usable_hosts profiles ordered pending p)"
  by (auto simp: usable_set_def usable_hosts_def)

lemma usable_set_filter:
  "usable_set ordered p = ca_hostname ` set (filter (\<lambda>c. ca_gpu_class c \<in> set (pp_gpu_classes p)) ordered)"
  by (auto simp: usable_set_def)

lemma usable_set_hosts: "usable_set ordered p \<subseteq> ca_hostname ` set ordered"
  by (auto simp: usable_set_def)

lemma mset_values_new:
  "h \<notin> set (dict_keys a) \<Longrightarrow> mset (dict_values (dict_set h p a)) = add_mset p (mset (dict_values a))"
  by (simp add: dict_set_new del: set_map)

lemma mset_values_replace:
  "dict_ok a \<Longrightarrow> dict_get a h = Some q \<Longrightarrow>
     add_mset q (mset (dict_values (dict_set h p a))) = add_mset p (mset (dict_values a))"
proof (induction a)
  case (Cons x a)
  obtain k v where x: "x = (k, v)" by fastforce
  show ?case
  proof (cases "k = h")
    case False
    with Cons x have "add_mset q (mset (dict_values (dict_set h p a))) = add_mset p (mset (dict_values a))"
      by (simp add: dict_ok_def)
    then show ?thesis
      using add_mset_commute [of q v] add_mset_commute [of p v] by (simp add: False x)
  qed (use Cons.prems x in \<open>simp add: add_mset_commute\<close>)
qed simp

lemma assigned_ok_set:
  "assigned_ok ordered a \<Longrightarrow> h \<in> usable_set ordered p \<Longrightarrow> assigned_ok ordered (dict_set h p a)"
  by (auto simp: assigned_ok_def)

lemma take_free_post:
  assumes "assigned_ok ordered a" "h \<in> usable_set ordered p" "h \<notin> set (dict_keys a)" "h \<notin> set visited"
  shows "taken_post ordered p visited a (dict_set h p a)"
proof -
  have none: "dict_get a h = None" using assms(3) by (simp add: dict_get_None_keys del: set_map)
  have "h \<notin> V" if "closed_hosts ordered a V" for V
    using that none by (auto simp: closed_hosts_def)
  then have V: "\<not> usable_set ordered p \<subseteq> V \<and> (\<forall>g \<in> V. dict_get (dict_set h p a) g = dict_get a g)"
    if "closed_hosts ordered a V" for V
    using that assms(2) by auto
  have "mset (dict_values (dict_set h p a)) = add_mset p (mset (dict_values a))"
    by (rule mset_values_new [OF assms(3)])
  with V assms(1,2,4) show ?thesis
    unfolding taken_post_def by (simp add: assigned_ok_set)
qed

lemma take_displaced_post:
  assumes ok: "assigned_ok ordered a" and h: "h \<in> usable_set ordered p" "h \<notin> set visited" "dict_get a h = Some q"
    and again: "taken_post ordered q (h # visited) a a1"
  shows "taken_post ordered p visited a (dict_set h p a1)"
proof -
  have a1: "assigned_ok ordered a1" "dict_get a1 h = Some q"
    "mset (dict_values a1) = add_mset q (mset (dict_values a))"
    and vis: "\<And>g. g \<in> set visited \<Longrightarrow> dict_get a1 g = dict_get a g"
    and certs: "\<And>V. closed_hosts ordered a V \<Longrightarrow> \<not> usable_set ordered q \<subseteq> V \<and> (\<forall>g \<in> V. dict_get a1 g = dict_get a g)"
    using again h(3) by (auto simp: taken_post_def)
  have "add_mset q (mset (dict_values (dict_set h p a1))) = add_mset p (mset (dict_values a1))"
    using a1 by (intro mset_values_replace) (auto simp: assigned_ok_def)
  then have mset: "mset (dict_values (dict_set h p a1)) = add_mset p (mset (dict_values a))"
    using a1(3) by simp
  have "h \<notin> V" if "closed_hosts ordered a V" for V
    using that certs [OF that] h(3) by (fastforce simp: closed_hosts_def)
  then have V: "\<not> usable_set ordered p \<subseteq> V \<and> (\<forall>g \<in> V. dict_get (dict_set h p a1) g = dict_get a g)"
    if "closed_hosts ordered a V" for V
    using that certs [OF that] h(1) by auto
  show ?thesis
    unfolding taken_post_def using mset V vis h(1,2) a1(1) by (auto simp: assigned_ok_set)
qed

text \<open>The displacement loop, given that the recursive call meets its specification.\<close>

lemma displace_post:
  assumes rec: "\<And>q v h. h \<in> ca_hostname ` set ordered \<Longrightarrow> h \<notin> set v \<Longrightarrow> set visited \<subseteq> set v \<Longrightarrow>
        take_post ordered q (h # v) a (again q (h # v) a)"
    and ok: "assigned_ok ordered a"
    and sub: "ca_hostname ` set cs \<subseteq> usable_set ordered p"
    and busy: "\<And>c. c \<in> set cs \<Longrightarrow> ca_hostname c \<in> set (dict_keys a) \<or> ca_hostname c \<in> set v0"
    and v0: "set visited \<subseteq> set v0" "\<forall>h \<in> set v0 - set visited. \<exists>q. dict_get a h = Some q \<and> usable_set ordered q \<subseteq> set v0"
    and rest: "usable_set ordered p - ca_hostname ` set cs \<subseteq> set v0"
  shows "take_post ordered p visited a (displace again p cs v0 a)"
  using sub busy v0 rest
proof (induction cs arbitrary: v0)
  case Nil
  then show ?case by (auto simp: take_post_def failed_post_def)
next
  case (Cons c cs)
  let ?h = "ca_hostname c"
  show ?case
  proof (cases "?h \<in> set v0")
    case True
    have "take_post ordered p visited a (displace again p cs v0 a)"
      using Cons.prems True by (intro Cons.IH) auto
    with True show ?thesis by simp
  next
    case False
    have "?h \<in> set (dict_keys a)" using Cons.prems(2) [of c] False by simp
    then obtain q where q: "dict_get a ?h = Some q"
      by (cases "dict_get a ?h") (auto simp: dict_get_None_keys)
    have hp: "?h \<in> usable_set ordered p" using Cons.prems(1) by simp
    then have "?h \<in> ca_hostname ` set ordered" using usable_set_hosts by blast
    from rec [OF this False Cons.prems(3), of q] consider
      (fail) v where "again q (?h # v0) a = Inr (False, v, a)" "failed_post ordered q (?h # v0) a v a"
    | (hit) v a1 where "again q (?h # v0) a = Inr (True, v, a1)" "taken_post ordered q (?h # v0) a a1"
      unfolding take_post_def by (auto simp: failed_post_def)
    then show ?thesis
    proof cases
      case fail
      then have v: "set v0 \<subseteq> set v" "?h \<in> set v" "usable_set ordered q \<subseteq> set v"
        and new: "\<forall>g \<in> set v - set (?h # v0). \<exists>r. dict_get a g = Some r \<and> usable_set ordered r \<subseteq> set v"
        by (auto simp: failed_post_def)
      have "\<forall>g \<in> set v - set visited. \<exists>r. dict_get a g = Some r \<and> usable_set ordered r \<subseteq> set v"
        using new v q Cons.prems(4) by (metis (no_types, lifting) Diff_iff order_trans set_ConsD)
      moreover have "ca_hostname d \<in> set (dict_keys a) \<or> ca_hostname d \<in> set v" if "d \<in> set cs" for d
        using Cons.prems(2) [of d] that v(1) by auto
      moreover have "ca_hostname ` set cs \<subseteq> usable_set ordered p" using Cons.prems(1) by simp
      moreover have "set visited \<subseteq> set v" using Cons.prems(3) v(1) by blast
      moreover have "usable_set ordered p - ca_hostname ` set cs \<subseteq> set v" using Cons.prems(5) v by auto
      ultimately have "take_post ordered p visited a (displace again p cs v a)"
        by (intro Cons.IH)
      with False q fail show ?thesis by simp
    next
      case hit
      have "taken_post ordered q (?h # visited) a a1"
        using hit(2) Cons.prems(3) by (auto simp: taken_post_def)
      then have "taken_post ordered p visited a (dict_set ?h p a1)"
        using False Cons.prems(3) by (intro take_displaced_post [OF ok hp _ q]) auto
      with False q hit show ?thesis by (simp add: take_post_def)
    qed
  qed
qed

lemma take_host_post:
  assumes "assigned_ok ordered a" "card (ca_hostname ` set ordered - set visited) < fuel"
  shows "take_post ordered p visited a (take_host fuel profiles ordered pending p visited a)"
  using assms
proof (induction fuel arbitrary: p visited)
  case (Suc fuel)
  let ?us = "usable_hosts profiles ordered pending p"
  let ?free = "\<lambda>c. ca_hostname c \<notin> set (dict_keys a) \<and> ca_hostname c \<notin> set visited"
  have us: "ca_hostname ` set ?us = usable_set ordered p"
    by (simp add: usable_set_usable [of ordered p profiles pending])
  show ?case
  proof (cases "find ?free ?us")
    case (Some c)
    then have "?free c" "c \<in> set ?us" by (auto simp: find_Some_iff in_set_conv_nth)
    with us have "taken_post ordered p visited a (dict_set (ca_hostname c) p a)"
      by (intro take_free_post [OF Suc.prems(1)]) auto
    with Some show ?thesis by (simp add: take_post_def Let_def del: set_map)
  next
    case None
    have rec: "take_post ordered q (h # v) a (take_host fuel profiles ordered pending q (h # v) a)"
      if "h \<in> ca_hostname ` set ordered" "h \<notin> set v" "set visited \<subseteq> set v" for q v h
    proof (rule Suc.IH [OF Suc.prems(1)])
      have "ca_hostname ` set ordered - set (h # v) \<subset> ca_hostname ` set ordered - set visited"
        using that by auto
      then have "card (ca_hostname ` set ordered - set (h # v)) < card (ca_hostname ` set ordered - set visited)"
        by (intro psubset_card_mono) auto
      with Suc.prems(2) show "card (ca_hostname ` set ordered - set (h # v)) < fuel" by linarith
    qed
    have "take_post ordered p visited a
      (displace (\<lambda>q v a. take_host fuel profiles ordered pending q v a) p ?us visited a)"
      using None us by (intro displace_post rec Suc.prems(1)) (auto simp: find_None_iff simp del: set_map)
    with None show ?thesis by (simp add: Let_def del: set_map)
  qed
qed simp

section \<open>Filling the grants\<close>

lemma taken_closed: "taken_post ordered p v a a' \<Longrightarrow> closed_hosts ordered a V \<Longrightarrow> closed_hosts ordered a' V"
  by (fastforce simp: taken_post_def closed_hosts_def)

lemma failed_closed: "failed_post ordered p [] a v a' \<Longrightarrow> closed_hosts ordered a' (set v) \<and> usable_set ordered p \<subseteq> set v"
  by (auto simp: failed_post_def closed_hosts_def)

lemma take_host_top:
  assumes "assigned_ok ordered a"
  shows "take_post ordered p [] a (take_host (Suc (length ordered)) profiles ordered pending p [] a)"
proof (rule take_host_post [OF assms])
  have "card (ca_hostname ` set ordered) \<le> length ordered"
    by (metis card_length length_map set_map)
  then show "card (ca_hostname ` set ordered - set []) < Suc (length ordered)" by simp
qed

definition filled :: "Candidate list \<Rightarrow> PlannedProfile \<Rightarrow> nat \<Rightarrow> assigned \<Rightarrow> bool" where
  "filled ordered p n a \<longleftrightarrow>
     count (mset (dict_values a)) p \<le> n \<and>
     (count (mset (dict_values a)) p = n \<or> (\<exists>V. closed_hosts ordered a V \<and> usable_set ordered p \<subseteq> V))"

lemma fill_profile_post:
  assumes "assigned_ok ordered a"
  shows "\<exists>pending' a'. fill_profile profiles ordered p pending a = Inr (pending', a') \<and>
    assigned_ok ordered a' \<and>
    (\<forall>V. closed_hosts ordered a V \<longrightarrow> closed_hosts ordered a' V) \<and>
    (\<forall>q. q \<noteq> p \<longrightarrow> count (mset (dict_values a')) q = count (mset (dict_values a)) q) \<and>
    filled ordered p (count (mset (dict_values a)) p + nat (count_of pending (pp_profile_id p))) a' \<and>
    (\<forall>k. k \<noteq> pp_profile_id p \<longrightarrow> count_of pending' k = count_of pending k)"
  using assms
proof (induction profiles ordered p pending a rule: fill_profile.induct)
  case (1 profiles ordered p pending a)
  let ?k = "pp_profile_id p"
  let ?pend = "bump ?k (- 1) pending"
  let ?r = "take_host (Suc (length ordered)) profiles ordered ?pend p [] a"
  show ?case
  proof (cases "count_of pending ?k > 0")
    case False
    with 1 show ?thesis by (simp add: fill_profile.simps [of _ _ _ pending] filled_def)
  next
    case True
    from take_host_top [OF 1(2), of p profiles ?pend] consider
      (fail) v where "?r = Inr (False, v, a)" "failed_post ordered p [] a v a"
    | (hit) v a1 where "?r = Inr (True, v, a1)" "taken_post ordered p [] a a1"
      unfolding take_post_def by (auto simp: failed_post_def)
    then show ?thesis
    proof cases
      case fail
      with True have "fill_profile profiles ordered p pending a = Inr (?pend, a)"
        by (simp add: fill_profile.simps [of _ _ _ pending])
      moreover have "filled ordered p (count (mset (dict_values a)) p + nat (count_of pending ?k)) a"
        using failed_closed [OF fail(2)] unfolding filled_def by (meson le_add1)
      ultimately show ?thesis using 1(2) by auto
    next
      case hit
      then have a1: "assigned_ok ordered a1"
        "mset (dict_values a1) = add_mset p (mset (dict_values a))" by (simp_all add: taken_post_def)
      from 1(1) [OF True refl hit(1) refl refl refl a1(1)] obtain pending' a' where
        ih: "fill_profile profiles ordered p ?pend a1 = Inr (pending', a')"
        "assigned_ok ordered a'" "\<forall>V. closed_hosts ordered a1 V \<longrightarrow> closed_hosts ordered a' V"
        "\<forall>q. q \<noteq> p \<longrightarrow> count (mset (dict_values a')) q = count (mset (dict_values a1)) q"
        "filled ordered p (count (mset (dict_values a1)) p + nat (count_of ?pend ?k)) a'"
        "\<forall>k. k \<noteq> ?k \<longrightarrow> count_of pending' k = count_of ?pend k"
        by blast
      have "fill_profile profiles ordered p pending a = Inr (pending', a')"
        using True hit ih(1) by (simp add: fill_profile.simps [of _ _ _ pending])
      moreover have "count (mset (dict_values a1)) p + nat (count_of ?pend ?k) =
          count (mset (dict_values a)) p + nat (count_of pending ?k)"
        using True a1(2) by simp
      ultimately show ?thesis using ih a1(2) taken_closed [OF hit(2)] by simp
    qed
  qed
qed

lemma filled_closed_mono:
  assumes "filled ordered p n a" "\<forall>V. closed_hosts ordered a V \<longrightarrow> closed_hosts ordered a' V"
    and "count (mset (dict_values a')) p = count (mset (dict_values a)) p"
  shows "filled ordered p n a'"
  using assms unfolding filled_def by metis

lemma fill_all_post:
  assumes "assigned_ok ordered a" "distinct (map pp_profile_id ps)"
    and "\<And>p. p \<in> set ps \<Longrightarrow> count (mset (dict_values a)) p = 0"
  shows "\<exists>pending' a'. fill_all profiles ordered ps pending a = Inr (pending', a') \<and>
    assigned_ok ordered a' \<and>
    (\<forall>V. closed_hosts ordered a V \<longrightarrow> closed_hosts ordered a' V) \<and>
    (\<forall>q. q \<notin> set ps \<longrightarrow> count (mset (dict_values a')) q = count (mset (dict_values a)) q) \<and>
    (\<forall>p \<in> set ps. filled ordered p (nat (count_of pending (pp_profile_id p))) a')"
  using assms
proof (induction ps arbitrary: pending a)
  case (Cons p ps)
  from fill_profile_post [OF Cons.prems(1), of profiles p pending] obtain pending1 a1 where
    one: "fill_profile profiles ordered p pending a = Inr (pending1, a1)" "assigned_ok ordered a1"
    "\<forall>V. closed_hosts ordered a V \<longrightarrow> closed_hosts ordered a1 V"
    "\<forall>q. q \<noteq> p \<longrightarrow> count (mset (dict_values a1)) q = count (mset (dict_values a)) q"
    "filled ordered p (count (mset (dict_values a)) p + nat (count_of pending (pp_profile_id p))) a1"
    "\<forall>k. k \<noteq> pp_profile_id p \<longrightarrow> count_of pending1 k = count_of pending k"
    by blast
  have ids: "pp_profile_id q \<noteq> pp_profile_id p" "q \<noteq> p" if "q \<in> set ps" for q
    using Cons.prems(2) that by (force simp: image_iff)+
  have zero: "count (mset (dict_values a1)) q = 0" if "q \<in> set ps" for q
    using one(4) ids [OF that] Cons.prems(3) [of q] that by simp
  from Cons.IH [OF one(2) _ zero, of pending1] Cons.prems(2) obtain pending' a' where
    two: "fill_all profiles ordered ps pending1 a1 = Inr (pending', a')" "assigned_ok ordered a'"
    "\<forall>V. closed_hosts ordered a1 V \<longrightarrow> closed_hosts ordered a' V"
    "\<forall>q. q \<notin> set ps \<longrightarrow> count (mset (dict_values a')) q = count (mset (dict_values a1)) q"
    "\<forall>q \<in> set ps. filled ordered q (nat (count_of pending1 (pp_profile_id q))) a'"
    by auto
  have "p \<notin> set ps" using ids by auto
  then have "filled ordered p (nat (count_of pending (pp_profile_id p))) a'"
    using filled_closed_mono [OF one(5) two(3)] two(4) Cons.prems(3) [of p] by simp
  moreover have "filled ordered q (nat (count_of pending (pp_profile_id q))) a'" if "q \<in> set ps" for q
    using bspec [OF two(5) that] one(6) ids(1) [OF that] by simp
  ultimately show ?case using one two by auto
qed auto

section \<open>Grants\<close>

lemma grant_loop_post:
  fixes grants :: "(string, int) dict"
  assumes "distinct placeable" "\<And>k. k \<in> set placeable \<Longrightarrow> count_of grants k \<le> count_of deficits k"
  defines "G \<equiv> \<lambda>g. sum_list (map (count_of g) placeable)"
  shows "(\<forall>k. k \<notin> set placeable \<longrightarrow> count_of (grant_loop n placeable deficits order grants) k = count_of grants k) \<and>
    (\<forall>k. count_of grants k \<le> count_of (grant_loop n placeable deficits order grants) k) \<and>
    (\<forall>k \<in> set placeable. count_of (grant_loop n placeable deficits order grants) k \<le> count_of deficits k) \<and>
    G (grant_loop n placeable deficits order grants) = min (G grants + int n) (G deficits)"
  using assms(2)
proof (induction n arbitrary: grants)
  case 0
  then have "G grants \<le> G deficits" unfolding G_def by (intro sum_list_mono) simp
  with 0 show ?case by simp
next
  case (Suc n)
  let ?open = "filter (\<lambda>k. count_of deficits k - count_of grants k > 0) placeable"
  let ?pick = "py_min_by (\<lambda>k. (- (count_of deficits k - count_of grants k), dict_get_or order k 0)) ?open"
  show ?case
  proof (cases ?pick)
    case None
    then have "?open = []" by simp
    then have "count_of grants k = count_of deficits k" if "k \<in> set placeable" for k
      using Suc.prems [OF that] that by (auto simp: filter_empty_conv intro: antisym)
    then have "G grants = G deficits" unfolding G_def by (simp cong: map_cong)
    with None Suc.prems show ?thesis by simp
  next
    case (Some k)
    from py_min_by_Some [OF this] have k: "k \<in> set placeable" "count_of grants k < count_of deficits k" by auto
    let ?g = "bump k 1 grants"
    have "G ?g = G grants + 1"
    proof -
      have "sum_list (map (count_of ?g) placeable) = (\<Sum>j \<in> set placeable. count_of ?g j)"
        using assms(1) by (rule sum_list_distinct_conv_sum_set)
      also have "\<dots> = (\<Sum>j \<in> set placeable. count_of grants j + (if j = k then 1 else 0))"
        by (rule sum.cong) auto
      also have "\<dots> = (\<Sum>j \<in> set placeable. count_of grants j) + 1"
        using k(1) by (simp add: sum.distrib)
      also have "(\<Sum>j \<in> set placeable. count_of grants j) = sum_list (map (count_of grants) placeable)"
        using assms(1) by (rule sum_list_distinct_conv_sum_set [symmetric])
      finally show ?thesis by (simp add: G_def)
    qed
    moreover have "\<And>j. j \<in> set placeable \<Longrightarrow> count_of ?g j \<le> count_of deficits j"
      using k Suc.prems by (auto simp: int_one_le_iff_zero_less)
    moreover have le: "count_of grants j \<le> count_of ?g j" for j by simp
    moreover have step: "grant_loop (Suc n) placeable deficits order grants = grant_loop n placeable deficits order ?g"
      using Some by simp
    ultimately have ih: "\<forall>j. j \<notin> set placeable \<longrightarrow> count_of (grant_loop (Suc n) placeable deficits order grants) j = count_of ?g j"
      "\<forall>j. count_of ?g j \<le> count_of (grant_loop (Suc n) placeable deficits order grants) j"
      "\<forall>j \<in> set placeable. count_of (grant_loop (Suc n) placeable deficits order grants) j \<le> count_of deficits j"
      "G (grant_loop (Suc n) placeable deficits order grants) = min (G grants + 1 + int n) (G deficits)"
      using Suc.IH [of ?g] by (simp_all only:) blast+
    have "count_of grants j \<le> count_of (grant_loop (Suc n) placeable deficits order grants) j" for j
      using ih(2) le [of j] by (meson order_trans)
    moreover have "count_of ?g j = count_of grants j" if "j \<notin> set placeable" for j
      using that k(1) by auto
    ultimately show ?thesis using ih by (simp del: grant_loop.simps)
  qed
qed

lemma map_count:
  "count_of (map (\<lambda>(k, n). (k, f k n)) d) k =
     (if k \<in> set (dict_keys d) then f k (count_of d k) else 0)"
  by (induction d) (auto simp: dict_get_or_def split: option.splits)

abbreviation placeable_ids :: "PlannedProfile list \<Rightarrow> string list" where
  "placeable_ids profiles \<equiv> map pp_profile_id (filter pp_placeable profiles)"

lemma placeable_keys:
  assumes "distinct (map pp_profile_id profiles)"
  shows "dict_keys (dict_comp (map (\<lambda>p. (pp_profile_id p, p)) (filter pp_placeable profiles))) = placeable_ids profiles"
  using assms by (subst dict_comp_distinct) (auto simp: comp_def distinct_map_filter)

lemma plan_deficits_nonneg: "0 \<le> count_of (plan_deficits profiles held ordered) k"
  by (simp add: plan_deficits_def map_count)

lemma plan_grants_post:
  assumes "distinct (map pp_profile_id profiles)"
  shows "\<And>k. 0 \<le> count_of (plan_grants profiles held ordered) k"
    and "\<And>k. k \<notin> set (placeable_ids profiles) \<Longrightarrow> count_of (plan_grants profiles held ordered) k = 0"
    and "\<And>k. count_of (plan_grants profiles held ordered) k \<le> count_of (plan_deficits profiles held ordered) k"
    and "sum_list (map (count_of (plan_grants profiles held ordered)) (placeable_ids profiles)) =
      min (int (length ordered))
        (sum_list (map (count_of (plan_deficits profiles held ordered)) (placeable_ids profiles)))"
proof -
  let ?zero = "map (\<lambda>(k, n). (k, 0 :: int)) (plan_targets profiles held ordered)"
  have zero: "count_of ?zero k = 0" for k by (simp add: map_count [where f = "\<lambda>_ _. 0"])
  have dist: "distinct (placeable_ids profiles)" using assms by (simp add: distinct_map_filter)
  have g: "plan_grants profiles held ordered = grant_loop (length ordered) (placeable_ids profiles)
      (plan_deficits profiles held ordered) (profile_order profiles) ?zero"
    by (simp only: plan_grants_def placeable_keys [OF assms])
  note post = grant_loop_post [OF dist, of ?zero "plan_deficits profiles held ordered" "length ordered"
      "profile_order profiles", folded g, unfolded zero, OF plan_deficits_nonneg]
  show "0 \<le> count_of (plan_grants profiles held ordered) k" for k using post by blast
  show off: "count_of (plan_grants profiles held ordered) k = 0" if "k \<notin> set (placeable_ids profiles)" for k
    using post that by blast
  show "count_of (plan_grants profiles held ordered) k \<le> count_of (plan_deficits profiles held ordered) k" for k
    using post off [of k] plan_deficits_nonneg [of profiles held ordered k]
    by (cases "k \<in> set (placeable_ids profiles)") auto
  show "sum_list (map (count_of (plan_grants profiles held ordered)) (placeable_ids profiles)) =
      min (int (length ordered))
        (sum_list (map (count_of (plan_deficits profiles held ordered)) (placeable_ids profiles)))"
  proof -
    have "sum_list (map (\<lambda>_. 0 :: int) (placeable_ids profiles)) = 0" by (simp add: comp_def)
    with post show ?thesis by (simp only: add_0)
  qed
qed

section \<open>The plan as a matching\<close>

lemma ordered_hosts_distinct:
  "length (remdups (map ca_hostname (ordered_candidates cs))) = length (ordered_candidates cs)
     \<longleftrightarrow> inj_on ca_hostname (set cs)"
proof -
  have "length (remdups (map ca_hostname (ordered_candidates cs))) = length (ordered_candidates cs)
      \<longleftrightarrow> distinct (map ca_hostname (ordered_candidates cs))"
    by (metis length_map length_remdups_eq remdups_id_iff_distinct)
  also have "\<dots> \<longleftrightarrow> inj_on ca_hostname (set cs)"
    by (simp add: distinct_map ordered_candidates_def)
  finally show ?thesis .
qed

lemma filled_values:
  assumes "\<forall>q. q \<notin> set profiles \<longrightarrow> count (mset (dict_values a)) q = 0"
  shows "set (dict_values a) \<subseteq> set profiles"
proof
  fix q assume "q \<in> set (dict_values a)"
  then have "0 < count (mset (dict_values a)) q" by (simp only: count_greater_zero_iff set_mset_mset)
  with assms show "q \<in> set profiles" by (cases "q \<in> set profiles") auto
qed

text \<open>The plan of a well-formed problem is read off an assignment with the properties above.\<close>

definition plan_from ::
  "PlannedProfile list \<Rightarrow> (string, int) dict \<Rightarrow> Candidate list \<Rightarrow> assigned \<Rightarrow> PlacementPlan \<Rightarrow> bool" where
  "plan_from profiles held cs a plan \<longleftrightarrow>
     assigned_ok (ordered_candidates cs) a \<and> set (dict_values a) \<subseteq> set profiles \<and>
     (\<forall>p \<in> set profiles. filled (ordered_candidates cs) p
        (nat (count_of (plan_grants profiles held (ordered_candidates cs)) (pp_profile_id p))) a) \<and>
     mset (pl_assignments plan) =
       mset (map (\<lambda>(h, p). \<lparr>as_hostname = h, as_profile_id = pp_profile_id p\<rparr>) a) \<and>
     pl_targets plan = plan_targets profiles held (ordered_candidates cs)"

lemma plan_exists:
  assumes "distinct (map pp_profile_id profiles)" "inj_on ca_hostname (set cs)"
  obtains plan a where "plan_placements profiles held cs = Inr plan" "plan_from profiles held cs a plan"
proof -
  let ?o = "ordered_candidates cs"
  have "assigned_ok ?o []" by (simp add: assigned_ok_def)
  from fill_all_post [OF this assms(1), of profiles "plan_grants profiles held ?o"] obtain pending a where
    fill: "fill_all profiles ?o profiles (plan_grants profiles held ?o) [] = Inr (pending, a)"
    "assigned_ok ?o a" "\<forall>q. q \<notin> set profiles \<longrightarrow> count (mset (dict_values a)) q = 0"
    "\<forall>p \<in> set profiles. filled ?o p (nat (count_of (plan_grants profiles held ?o) (pp_profile_id p))) a"
    by auto
  then show ?thesis
    using filled_values [OF fill(3)] assms(2)
    by (intro that [of _ a])
      (auto simp: plan_placements_def ordered_hosts_distinct Let_def plan_from_def simp del: set_map)
qed

lemma plan_placements_Inr:
  assumes "distinct (map pp_profile_id profiles)" "plan_placements profiles held cs = Inr plan"
  obtains a where "plan_from profiles held cs a plan" "inj_on ca_hostname (set cs)"
proof -
  have inj: "inj_on ca_hostname (set cs)"
  proof (rule ccontr)
    assume "\<not> ?thesis"
    then have "length (remdups (map ca_hostname (ordered_candidates cs))) \<noteq> length (ordered_candidates cs)"
      by (simp only: ordered_hosts_distinct not_False_eq_True)
    with assms(2) show False by (simp add: plan_placements_def)
  qed
  from plan_exists [OF assms(1) inj, of held] assms(2) that inj show ?thesis by (metis sum.inject(2))
qed

lemma plan_count:
  assumes "distinct (map pp_profile_id profiles)" "plan_from profiles held cs a plan" "p \<in> set profiles"
  shows "length (filter (\<lambda>x. as_profile_id x = pp_profile_id p) (pl_assignments plan)) =
    count (mset (dict_values a)) p"
proof -
  have inj: "pp_profile_id q = pp_profile_id p \<longleftrightarrow> q = p" if "q \<in> set profiles" for q
    using assms(1,3) that by (auto simp: distinct_map inj_on_def)
  have "length (filter (\<lambda>x. as_profile_id x = pp_profile_id p) (pl_assignments plan)) =
      size (filter_mset (\<lambda>x. as_profile_id x = pp_profile_id p) (mset (pl_assignments plan)))"
    by (simp flip: mset_filter)
  also have "\<dots> = length (filter (\<lambda>x. pp_profile_id (snd x) = pp_profile_id p) a)"
  proof -
    let ?f = "\<lambda>(h, p). \<lparr>as_hostname = h, as_profile_id = pp_profile_id p\<rparr>"
    have "mset (pl_assignments plan) = mset (map ?f a)" using assms(2) by (simp add: plan_from_def)
    then have "size (filter_mset (\<lambda>x. as_profile_id x = pp_profile_id p) (mset (pl_assignments plan))) =
        length (filter (\<lambda>x. as_profile_id x = pp_profile_id p) (map ?f a))"
      by (simp only: mset_filter [symmetric] size_mset)
    then show ?thesis by (simp add: filter_map comp_def case_prod_beta)
  qed
  also have "\<dots> = length (filter (\<lambda>x. snd x = p) a)"
  proof -
    have "filter (\<lambda>x. pp_profile_id (snd x) = pp_profile_id p) a = filter (\<lambda>x. snd x = p) a"
      using inj assms(2) by (intro filter_cong) (auto simp: plan_from_def)
    then show ?thesis by simp
  qed
  also have "\<dots> = count (mset (dict_values a)) p"
    by (induction a) auto
  finally show ?thesis .
qed

lemma plan_hosts:
  assumes "plan_from profiles held cs a plan"
  shows "distinct (map as_hostname (pl_assignments plan))" "length (pl_assignments plan) = length a"
    and "x \<in> set (pl_assignments plan) \<Longrightarrow>
      \<exists>p \<in> set profiles. pp_profile_id p = as_profile_id x \<and> as_hostname x \<in> usable_set (ordered_candidates cs) p"
proof -
  let ?f = "\<lambda>(h, p). \<lparr>as_hostname = h, as_profile_id = pp_profile_id p\<rparr>"
  have m: "mset (pl_assignments plan) = mset (map ?f a)" and ok: "dict_ok a"
    and get: "\<And>h q. dict_get a h = Some q \<Longrightarrow> h \<in> usable_set (ordered_candidates cs) q"
    and vals: "set (dict_values a) \<subseteq> set profiles"
    using assms by (auto simp: plan_from_def assigned_ok_def)
  have "mset (map as_hostname (pl_assignments plan)) = mset (map as_hostname (map ?f a))"
    by (simp only: mset_map m)
  also have "map as_hostname (map ?f a) = dict_keys a" by (simp add: comp_def case_prod_beta)
  finally show "distinct (map as_hostname (pl_assignments plan))"
    using ok by (metis dict_ok_def mset_eq_imp_distinct_iff)
  show "length (pl_assignments plan) = length a" using m by (metis length_map size_mset)
  assume "x \<in> set (pl_assignments plan)"
  then have "x \<in> set (map ?f a)" by (metis m set_mset_mset)
  then obtain h p where hp: "(h, p) \<in> set a" "x = \<lparr>as_hostname = h, as_profile_id = pp_profile_id p\<rparr>" by auto
  then have "dict_get a h = Some p" using ok by (simp add: dict_mem_get)
  with get vals hp show "\<exists>p \<in> set profiles. pp_profile_id p = as_profile_id x \<and>
      as_hostname x \<in> usable_set (ordered_candidates cs) p"
    by (intro bexI [of _ p]) force+
qed

lemma length_filter_in_sum:
  "finite S \<Longrightarrow> length (filter (\<lambda>x. f x \<in> S) xs) = (\<Sum>s \<in> S. length (filter (\<lambda>x. f x = s) xs))"
proof (induction xs)
  case (Cons x xs)
  have "(\<Sum>s \<in> S. length (filter (\<lambda>y. f y = s) (x # xs))) =
      (\<Sum>s \<in> S. length (filter (\<lambda>y. f y = s) xs) + (if f x = s then 1 else 0))"
    by (rule sum.cong) auto
  then show ?case using Cons by (simp add: sum.distrib)
qed simp

lemma closed_Union: "(\<And>V. V \<in> C \<Longrightarrow> closed_hosts ordered a V) \<Longrightarrow> closed_hosts ordered a (\<Union>C)"
  unfolding closed_hosts_def by (meson UnionE Union_upper order_trans)

text \<open>
  The cut argument: hosts inside the union \<open>V\<close> of all failure certificates are all assigned, to
  profiles confined to \<open>V\<close>, and every profile not confined to \<open>V\<close> received its whole grant.
\<close>

definition alternative ::
  "PlannedProfile list \<Rightarrow> (string, int) dict \<Rightarrow> Candidate list \<Rightarrow> Assignment list \<Rightarrow> bool" where
  "alternative profiles grants cs alt \<longleftrightarrow>
     distinct (map as_hostname alt) \<and>
     (\<forall>x \<in> set alt. \<exists>p \<in> set profiles. pp_profile_id p = as_profile_id x \<and>
        as_hostname x \<in> usable_set (ordered_candidates cs) p) \<and>
     (\<forall>p \<in> set profiles.
        int (length (filter (\<lambda>x. as_profile_id x = pp_profile_id p) alt)) \<le> count_of grants (pp_profile_id p))"

lemma alternative_cut:
  assumes "distinct (map pp_profile_id profiles)" "alternative profiles grants cs alt"
    and "finite V" and F: "F = {p \<in> set profiles. usable_set (ordered_candidates cs) p \<subseteq> V}"
  shows "length alt \<le> card V + (\<Sum>p \<in> set profiles - F. nat (count_of grants (pp_profile_id p)))"
proof -
  let ?in = "\<lambda>x. as_profile_id x \<in> pp_profile_id ` F" and ?out = "\<lambda>x. as_profile_id x \<in> pp_profile_id ` (set profiles - F)"
  have inj: "inj_on pp_profile_id (set profiles)" using assms(1) by (simp add: distinct_map)
  have valid: "\<exists>p \<in> set profiles. pp_profile_id p = as_profile_id x \<and> as_hostname x \<in> usable_set (ordered_candidates cs) p"
    if "x \<in> set alt" for x using assms(2) that by (simp add: alternative_def)
  have "as_hostname ` set (filter ?in alt) \<subseteq> V"
  proof clarify
    fix x assume x: "x \<in> set (filter ?in alt)"
    then obtain p where p: "p \<in> F" "as_profile_id x = pp_profile_id p" by auto
    from x valid [of x] obtain q where "q \<in> set profiles" "pp_profile_id q = as_profile_id x"
      "as_hostname x \<in> usable_set (ordered_candidates cs) q" by auto
    with p inj F show "as_hostname x \<in> V" by (auto simp: inj_on_def)
  qed
  moreover have "distinct (map as_hostname (filter ?in alt))"
    using assms(2) by (simp add: alternative_def distinct_map_filter)
  ultimately have one: "length (filter ?in alt) \<le> card V"
    by (metis assms(3) card_mono distinct_card length_map set_map)
  have "length (filter ?out alt) = (\<Sum>k \<in> pp_profile_id ` (set profiles - F). length (filter (\<lambda>x. as_profile_id x = k) alt))"
    by (rule length_filter_in_sum) simp
  also have "\<dots> = (\<Sum>p \<in> set profiles - F. length (filter (\<lambda>x. as_profile_id x = pp_profile_id p) alt))"
    using inj by (subst sum.reindex) (auto intro: inj_on_subset)
  also have "\<dots> \<le> (\<Sum>p \<in> set profiles - F. nat (count_of grants (pp_profile_id p)))"
    using assms(2) by (intro sum_mono) (auto simp: alternative_def nat_le_iff le_nat_iff)
  finally have two: "length (filter ?out alt) \<le> \<dots>" .
  have "length alt = length (filter ?in alt) + length (filter (\<lambda>x. \<not> ?in x) alt)"
    by (rule sum_length_filter_compl [symmetric])
  also have "filter (\<lambda>x. \<not> ?in x) alt = filter ?out alt"
  proof (rule filter_cong [OF refl])
    fix x assume "x \<in> set alt"
    then obtain p where "p \<in> set profiles" "as_profile_id x = pp_profile_id p" using valid by metis
    moreover from this(1) have "pp_profile_id p \<in> pp_profile_id ` F \<longleftrightarrow> p \<in> F"
      by (rule inj_on_image_mem_iff [OF inj]) (auto simp: F)
    moreover have "pp_profile_id p \<in> pp_profile_id ` (set profiles - F) \<longleftrightarrow> p \<in> set profiles - F"
      by (rule inj_on_image_mem_iff [OF inj \<open>p \<in> set profiles\<close>]) auto
    ultimately show "(\<not> ?in x) = ?out x" by simp
  qed
  finally show ?thesis using one two by linarith
qed

lemma assigned_cut:
  assumes "closed_hosts ordered a V" "set (dict_values a) \<subseteq> set profiles" "dict_ok a"
    and F: "F = {p \<in> set profiles. usable_set ordered p \<subseteq> V}"
  shows "card V + (\<Sum>p \<in> set profiles - F. count (mset (dict_values a)) p) \<le> length a"
proof -
  have "V \<subseteq> fst ` set (filter (\<lambda>x. snd x \<in> F) a)"
  proof
    fix h assume "h \<in> V"
    with assms(1) obtain q where q: "dict_get a h = Some q" "usable_set ordered q \<subseteq> V"
      by (auto simp: closed_hosts_def)
    then have "(h, q) \<in> set a" by (auto dest: map_of_SomeD)
    with q assms(2) F have "(h, q) \<in> set (filter (\<lambda>x. snd x \<in> F) a)" by auto
    then show "h \<in> fst ` set (filter (\<lambda>x. snd x \<in> F) a)" by force
  qed
  then have "card V \<le> length (filter (\<lambda>x. snd x \<in> F) a)"
    by (meson card_image_le card_length card_mono finite_imageI finite_set order_trans)
  moreover have "(\<Sum>p \<in> set profiles - F. count (mset (dict_values a)) p) =
      length (filter (\<lambda>x. snd x \<in> set profiles - F) a)"
  proof -
    have "count (mset (dict_values a)) p = length (filter (\<lambda>x. snd x = p) a)" for p
      by (induction a) auto
    then show ?thesis by (subst length_filter_in_sum) simp_all
  qed
  moreover have "filter (\<lambda>x. snd x \<in> set profiles - F) a = filter (\<lambda>x. \<not> snd x \<in> F) a"
    using assms(2) by (intro filter_cong) auto
  ultimately show ?thesis
    using sum_length_filter_compl [of "\<lambda>x. snd x \<in> F" a] by simp
qed

lemma plan_maximal_matching:
  assumes dist: "distinct (map pp_profile_id profiles)" and from_a: "plan_from profiles held cs a plan"
    and alt: "alternative profiles (plan_grants profiles held (ordered_candidates cs)) cs alt"
  shows "length alt \<le> length (pl_assignments plan)"
proof -
  let ?o = "ordered_candidates cs" and ?g = "plan_grants profiles held (ordered_candidates cs)"
  define V where "V = \<Union>{W. closed_hosts ?o a W}"
  define F where "F = {p \<in> set profiles. usable_set ?o p \<subseteq> V}"
  have closed: "closed_hosts ?o a V" unfolding V_def by (rule closed_Union) simp
  have "V \<subseteq> fst ` set a"
    using closed unfolding closed_hosts_def by (metis image_eqI fst_conv map_of_SomeD subsetI)
  then have fin: "finite V" by (rule finite_subset) simp
  have full: "count (mset (dict_values a)) p = nat (count_of ?g (pp_profile_id p))" if "p \<in> set profiles - F" for p
  proof -
    have "filled ?o p (nat (count_of ?g (pp_profile_id p))) a"
      using from_a that by (simp add: plan_from_def)
    moreover have "\<not> usable_set ?o p \<subseteq> W" if "closed_hosts ?o a W" for W
      using that \<open>p \<in> set profiles - F\<close> by (auto simp: F_def V_def)
    ultimately show ?thesis unfolding filled_def by metis
  qed
  have "length alt \<le> card V + (\<Sum>p \<in> set profiles - F. nat (count_of ?g (pp_profile_id p)))"
    by (rule alternative_cut [OF dist alt fin F_def])
  also have "\<dots> = card V + (\<Sum>p \<in> set profiles - F. count (mset (dict_values a)) p)"
    using full by simp
  also have "\<dots> \<le> length a"
    using from_a by (intro assigned_cut [OF closed _ _ F_def]) (auto simp: plan_from_def assigned_ok_def)
  also have "\<dots> = length (pl_assignments plan)" using plan_hosts(2) [OF from_a] by simp
  finally show ?thesis .
qed

section \<open>Properties\<close>

text \<open>
  Apportionment is exact: when at least one profile carries weight, the targets have one
  entry per catalog profile in catalog order, they are non-negative, sum to exactly the number of
  hosts, and a profile of weight zero (or less) is never given a host.
\<close>

theorem apportion_exact:
  assumes "distinct (map pp_profile_id profiles)" "weighted_profiles profiles \<noteq> []" "0 \<le> hosts"
  shows "dict_keys (apportion hosts profiles) = map pp_profile_id profiles \<and>
    sum_list (dict_values (apportion hosts profiles)) = hosts \<and>
    (\<forall>p \<in> set profiles. 0 \<le> count_of (apportion hosts profiles) (pp_profile_id p) \<and>
       (pp_weight p \<le> 0 \<longrightarrow> count_of (apportion hosts profiles) (pp_profile_id p) = 0))"
proof -
  have inv: "targets_inv profiles hosts (apportion hosts profiles)" by (rule apportion_inv [OF assms])
  have "pp_profile_id p \<notin> set (map pp_profile_id (weighted_profiles profiles))"
    if "p \<in> set profiles" "pp_weight p \<le> 0" for p
    using that assms(1) by (auto simp: weighted_profiles_def distinct_map inj_on_def)
  with inv show ?thesis by (simp add: targets_inv_def)
qed

definition example_profiles :: "PlannedProfile list" where
  "example_profiles =
     [\<lparr>pp_profile_id = ''chat'', pp_weight = 5, pp_gpu_classes = [''h100'', ''a100''],
       pp_preferred_gpu_class = Some ''h100'', pp_placeable = True\<rparr>,
      \<lparr>pp_profile_id = ''code'', pp_weight = 1, pp_gpu_classes = [''h100''],
       pp_preferred_gpu_class = None, pp_placeable = True\<rparr>]"

theorem apportion_exact_witness:
  "sum_list (dict_values (apportion 3 example_profiles)) = 3 \<and>
   dict_keys (apportion 3 example_profiles) = [''chat'', ''code'']"
  using apportion_exact [of example_profiles 3] by (simp add: example_profiles_def weighted_profiles_def)

text \<open>
  No weighted profile is starved: with at least as many hosts as weighted profiles,
  every one of them has a target of at least one host, whatever its weight.
\<close>

theorem apportion_no_starvation:
  assumes "distinct (map pp_profile_id profiles)" "p \<in> set profiles" "0 < pp_weight p"
    and "int (length (weighted_profiles profiles)) \<le> hosts"
  shows "1 \<le> count_of (apportion hosts profiles) (pp_profile_id p)"
proof -
  have p: "p \<in> set (weighted_profiles profiles)" using assms(2,3) by (simp add: weighted_profiles_def)
  then have ne: "weighted_profiles profiles \<noteq> []" by auto
  from apportion_large [OF assms(1) ne assms(4)] obtain d2 where
    "apportion hosts profiles = donate (weighted_profiles profiles) (weighted_profiles profiles) d2"
    "targets_inv profiles hosts d2" by metis
  with donate_inv [OF assms(1) refl assms(4)] p show ?thesis by auto
qed

theorem apportion_no_starvation_witness:
  "1 \<le> count_of (apportion 2 example_profiles) ''code''"
  using apportion_no_starvation [of example_profiles "example_profiles ! 1" 2]
  by (simp add: example_profiles_def weighted_profiles_def)

text \<open>
  Largest-remainder quota: when every weighted profile's exact share is at least one host,
  each target is the exact share rounded down or up.
\<close>

theorem apportion_quota:
  assumes "distinct (map pp_profile_id profiles)" "p \<in> set (weighted_profiles profiles)"
    and "int (length (weighted_profiles profiles)) \<le> hosts"
    and "\<forall>q \<in> set (weighted_profiles profiles). 1 \<le> share hosts (weighted_profiles profiles) q"
  shows "count_of (apportion hosts profiles) (pp_profile_id p) \<in>
    {\<lfloor>share hosts (weighted_profiles profiles) p\<rfloor>, \<lfloor>share hosts (weighted_profiles profiles) p\<rfloor> + 1}"
proof -
  let ?ws = "weighted_profiles profiles"
  have ne: "?ws \<noteq> []" using assms(2) by auto
  from apportion_large [OF assms(1) ne assms(3)] obtain d2 where
    d2: "apportion hosts profiles = donate ?ws ?ws d2"
    and b: "\<And>p. p \<in> set ?ws \<Longrightarrow> \<lfloor>share hosts ?ws p\<rfloor> \<le> count_of d2 (pp_profile_id p) \<and>
        count_of d2 (pp_profile_id p) \<le> \<lfloor>share hosts ?ws p\<rfloor> + 1"
    by metis
  have pos: "0 < count_of d2 (pp_profile_id q)" if "q \<in> set ?ws" for q
    using b [OF that] assms(4) that by (metis le_floor_iff of_int_1 order_trans zless_add1_eq zero_less_one order_less_le_trans)
  have "donate ?ws qs d2 = d2" if "set qs \<subseteq> set ?ws" for qs
    using that pos by (induction qs) auto
  with d2 b [OF assms(2)] show ?thesis by auto
qed

theorem apportion_quota_witness:
  "count_of (apportion 12 example_profiles) ''code'' \<in> {2, 3}"
proof -
  have w: "weighted_profiles example_profiles = example_profiles"
    by (simp add: example_profiles_def weighted_profiles_def)
  show ?thesis
    using apportion_quota [of example_profiles "example_profiles ! 1" 12]
    by (simp add: w) (simp add: example_profiles_def share_quotient)
qed

text \<open>
  The planner is total: for a catalog with distinct profile ids it raises exactly when the
  same host is offered with two GPU classes, and then it raises that \<open>ValueError\<close>; the augmenting
  search neither looks up an unassigned host nor recurses deeper than the number of hosts.
\<close>

theorem plan_total:
  assumes "distinct (map pp_profile_id profiles)"
  shows "plan_placements profiles held candidates =
      Inl (ValueError ''a host was offered with two GPU classes'') \<and> \<not> inj_on ca_hostname (set candidates)
    \<or> (\<exists>plan. plan_placements profiles held candidates = Inr plan) \<and> inj_on ca_hostname (set candidates)"
proof (cases "inj_on ca_hostname (set candidates)")
  case True
  with plan_exists [OF assms True, of held] show ?thesis by metis
next
  case False
  then have "length (remdups (map ca_hostname (ordered_candidates candidates))) \<noteq> length (ordered_candidates candidates)"
    by (simp only: ordered_hosts_distinct not_False_eq_True)
  then show ?thesis using False by (simp add: plan_placements_def)
qed

definition example_candidates :: "Candidate list" where
  "example_candidates =
     [\<lparr>ca_hostname = ''n2'', ca_gpu_class = ''a100''\<rparr>, \<lparr>ca_hostname = ''n1'', ca_gpu_class = ''h100''\<rparr>]"

theorem plan_total_witness:
  "\<exists>plan. plan_placements example_profiles [] example_candidates = Inr plan"
  using plan_total [of example_profiles "[]" example_candidates]
  by (simp add: example_profiles_def example_candidates_def)

text \<open>
  A plan is sound: no host is assigned twice, every assigned host was offered with a GPU
  class the profile accepts, only placeable profiles receive hosts, and no profile receives more
  hosts than its target exceeds what it already holds.
\<close>

theorem plan_sound:
  assumes "distinct (map pp_profile_id profiles)" "plan_placements profiles held candidates = Inr plan"
  shows "distinct (map as_hostname (pl_assignments plan)) \<and>
    (\<forall>x \<in> set (pl_assignments plan). \<exists>p \<in> set profiles. \<exists>c \<in> set candidates.
       pp_profile_id p = as_profile_id x \<and> ca_hostname c = as_hostname x \<and>
       ca_gpu_class c \<in> set (pp_gpu_classes p) \<and> pp_placeable p) \<and>
    (\<forall>p \<in> set profiles.
       int (length (filter (\<lambda>x. as_profile_id x = pp_profile_id p) (pl_assignments plan))) \<le>
       max 0 (count_of (pl_targets plan) (pp_profile_id p) - max 0 (count_of held (pp_profile_id p))))"
proof -
  let ?o = "ordered_candidates candidates"
  from plan_placements_Inr [OF assms] obtain a where a: "plan_from profiles held candidates a plan" by metis
  have len: "int (length (filter (\<lambda>x. as_profile_id x = pp_profile_id p) (pl_assignments plan))) \<le>
      count_of (plan_grants profiles held ?o) (pp_profile_id p)" if "p \<in> set profiles" for p
    using plan_count [OF assms(1) a that] a that plan_grants_post(1) [OF assms(1), of held ?o "pp_profile_id p"]
    by (auto simp: plan_from_def filled_def)
  have ids: "pp_profile_id p \<in> set (placeable_ids profiles) \<longleftrightarrow> pp_placeable p" if "p \<in> set profiles" for p
    using assms(1) that by (auto simp: distinct_map inj_on_def)
  have one: "\<exists>p \<in> set profiles. \<exists>c \<in> set candidates. pp_profile_id p = as_profile_id x \<and>
      ca_hostname c = as_hostname x \<and> ca_gpu_class c \<in> set (pp_gpu_classes p) \<and> pp_placeable p"
    if x: "x \<in> set (pl_assignments plan)" for x
  proof -
    from plan_hosts(3) [OF a x] obtain p where p: "p \<in> set profiles" "pp_profile_id p = as_profile_id x"
      "as_hostname x \<in> usable_set ?o p" by blast
    have "0 < length (filter (\<lambda>y. as_profile_id y = pp_profile_id p) (pl_assignments plan))"
      using x p(2) by (auto simp: filter_empty_conv)
    with len [OF p(1)] have "count_of (plan_grants profiles held ?o) (pp_profile_id p) \<noteq> 0" by linarith
    with plan_grants_post(2) [OF assms(1)] have "pp_placeable p" using ids [OF p(1)] by metis
    moreover from p(3) obtain c where "c \<in> set candidates" "ca_hostname c = as_hostname x"
      "ca_gpu_class c \<in> set (pp_gpu_classes p)" by (auto simp: usable_set_def ordered_candidates_def)
    ultimately show ?thesis using p(1,2) by blast
  qed
  have held: "count_of (held_counts profiles held) (pp_profile_id p) = max 0 (count_of held (pp_profile_id p))"
    if "p \<in> set profiles" for p
  proof -
    have "dict_get (held_counts profiles held) (pp_profile_id p) = Some (max 0 (count_of held (pp_profile_id p)))"
      using assms(1) that find_distinct_key [OF assms(1) that]
      by (simp add: held_counts_def comp_def dict_comp_get)
    then show ?thesis by (simp add: dict_get_or_def)
  qed
  have "int (length (filter (\<lambda>x. as_profile_id x = pp_profile_id p) (pl_assignments plan))) \<le>
      max 0 (count_of (pl_targets plan) (pp_profile_id p) - max 0 (count_of held (pp_profile_id p)))"
    if "p \<in> set profiles" for p
    using len [OF that] plan_grants_post(3) [OF assms(1), of held ?o "pp_profile_id p"] held [OF that] a
    by (auto simp: plan_deficits_def map_count plan_from_def split: if_splits)
  with one plan_hosts(1) [OF a] show ?thesis by blast
qed

theorem plan_sound_witness:
  "\<exists>plan. plan_placements example_profiles [] example_candidates = Inr plan \<and>
     distinct (map as_hostname (pl_assignments plan))"
proof -
  obtain plan a where "plan_placements example_profiles [] example_candidates = Inr plan"
    by (rule plan_exists [of example_profiles example_candidates "[]"])
      (simp_all add: example_profiles_def example_candidates_def)
  with plan_sound [of example_profiles "[]" example_candidates plan] show ?thesis
    by (simp add: example_profiles_def)
qed

text \<open>
  C1. The plan is a maximum matching: no way of giving offered hosts to profiles, each host at most
  once, each to a profile that accepts its GPU class, and within the grants, fills more hosts than
  the plan does. In particular a flexible profile never keeps a host that a constrained one needs.
\<close>

theorem plan_maximal:
  assumes "distinct (map pp_profile_id profiles)" "plan_placements profiles held candidates = Inr plan"
    and "alternative profiles (plan_grants profiles held (ordered_candidates candidates)) candidates alt"
  shows "length alt \<le> length (pl_assignments plan)"
  using plan_placements_Inr [OF assms(1,2)] plan_maximal_matching [OF assms(1) _ assms(3)] by metis

definition example_alternative :: "Assignment list" where
  "example_alternative =
     [\<lparr>as_hostname = ''n2'', as_profile_id = ''chat''\<rparr>, \<lparr>as_hostname = ''n1'', as_profile_id = ''code''\<rparr>]"

lemma example_grants:
  "plan_grants example_profiles [] (ordered_candidates example_candidates) = [(''chat'', 1), (''code'', 1)]"
  by code_simp

theorem plan_maximal_witness:
  "\<exists>plan. plan_placements example_profiles [] example_candidates = Inr plan \<and>
     2 \<le> length (pl_assignments plan)"
proof -
  obtain plan a where plan: "plan_placements example_profiles [] example_candidates = Inr plan"
    by (rule plan_exists [of example_profiles example_candidates "[]"])
      (simp_all add: example_profiles_def example_candidates_def)
  have "alternative example_profiles (plan_grants example_profiles [] (ordered_candidates example_candidates))
      example_candidates example_alternative"
    by (simp add: alternative_def example_grants)
      (auto simp: example_alternative_def example_profiles_def usable_set_filter ordered_candidates_def
        example_candidates_def dict_get_or_def)
  with plan_maximal [of example_profiles "[]" example_candidates plan example_alternative] plan show ?thesis
    by (simp add: example_profiles_def example_alternative_def)
qed

text \<open>
  Grants use up the free hosts: the number of hosts granted is the number of free hosts or the
  total deficit of the placeable profiles, whichever is smaller; an unplaceable profile is granted
  nothing and no profile more than its deficit.
\<close>

theorem grants_exhaustive:
  assumes "distinct (map pp_profile_id profiles)"
  shows "sum_list (map (count_of (plan_grants profiles held ordered)) (placeable_ids profiles)) =
      min (int (length ordered))
        (sum_list (map (count_of (plan_deficits profiles held ordered)) (placeable_ids profiles))) \<and>
    (\<forall>k. k \<notin> set (placeable_ids profiles) \<longrightarrow> count_of (plan_grants profiles held ordered) k = 0) \<and>
    (\<forall>k. count_of (plan_grants profiles held ordered) k \<le> count_of (plan_deficits profiles held ordered) k)"
  using plan_grants_post [OF assms] by blast

theorem grants_exhaustive_witness:
  "sum_list (map (count_of (plan_grants example_profiles [] example_candidates)) [''chat'', ''code'']) =
     min 2 (sum_list (map (count_of (plan_deficits example_profiles [] example_candidates)) [''chat'', ''code'']))"
  using grants_exhaustive [of example_profiles "[]" example_candidates]
  by (simp add: example_profiles_def example_candidates_def)

end
