(* ===== verification/NodeModel.thy ===== *)
theory NodeModel
  imports QiipPrelude
begin

text \<open>
  The node domain model of \<^verbatim>\<open>models/node.py\<close>: every enumeration as a datatype, every Pydantic
  model as a record, its \<open>Field\<close> bounds as a boolean \<open>*_fields\<close> predicate and its validators as
  functions into \<open>string + 'a\<close>, where \<open>Inl\<close> carries the message of the \<open>ValueError\<close>. Finite
  floats are rationals. \<open>model_copy(update=...)\<close> is a record update: Pydantic does not run
  validators on a copy.
\<close>

section \<open>Enumerations\<close>

datatype InferenceEngine = VLLM | LLAMA_CPP

datatype NodeStatus =
    AVAILABLE | HEALTHY | UNHEALTHY | DRAINING | RELAUNCHING | RELAUNCH_FAILED
  | PROVISIONING | FAILED | UNKNOWN

datatype LlamaCppSizingMode = SZ_AUTO | SZ_CUSTOM | SZ_PROFILE

datatype LlamaCppCacheType = F16 | Q8_0 | Q4_0

datatype LlamaCppFlashAttention = FA_AUTO | FA_ON

datatype LlamaCppSpeculativeType = DRAFT_MTP | DRAFT_DFLASH | DRAFT_MTP_ASSISTANT

datatype VllmModelSelection = SEL_AUTO | SEL_EXPLICIT

text \<open>A \<open>datetime\<close> with or without a timezone.\<close>

datatype py_datetime = Naive micros | Aware micros

fun NodeStatus_value :: "NodeStatus \<Rightarrow> string" where
  "NodeStatus_value AVAILABLE = ''available''"
| "NodeStatus_value HEALTHY = ''healthy''"
| "NodeStatus_value UNHEALTHY = ''unhealthy''"
| "NodeStatus_value DRAINING = ''draining''"
| "NodeStatus_value RELAUNCHING = ''relaunching''"
| "NodeStatus_value RELAUNCH_FAILED = ''relaunch_failed''"
| "NodeStatus_value PROVISIONING = ''provisioning''"
| "NodeStatus_value FAILED = ''failed''"
| "NodeStatus_value UNKNOWN = ''unknown''"

fun LlamaCppSizingMode_value :: "LlamaCppSizingMode \<Rightarrow> string" where
  "LlamaCppSizingMode_value SZ_AUTO = ''auto''"
| "LlamaCppSizingMode_value SZ_CUSTOM = ''custom''"
| "LlamaCppSizingMode_value SZ_PROFILE = ''profile''"

fun LlamaCppCacheType_value :: "LlamaCppCacheType \<Rightarrow> string" where
  "LlamaCppCacheType_value F16 = ''f16''"
| "LlamaCppCacheType_value Q8_0 = ''q8_0''"
| "LlamaCppCacheType_value Q4_0 = ''q4_0''"

fun LlamaCppSpeculativeType_value :: "LlamaCppSpeculativeType \<Rightarrow> string" where
  "LlamaCppSpeculativeType_value DRAFT_MTP = ''draft-mtp''"
| "LlamaCppSpeculativeType_value DRAFT_DFLASH = ''draft-dflash''"
| "LlamaCppSpeculativeType_value DRAFT_MTP_ASSISTANT = ''draft-mtp-assistant''"

definition LLAMACPP_CONTEXT_ALIGNMENT :: int where
  "LLAMACPP_CONTEXT_ALIGNMENT = 256"

definition LLAMACPP_MAX_AGGREGATE_CONTEXT :: int where
  "LLAMACPP_MAX_AGGREGATE_CONTEXT = 4294967040"

definition LLAMACPP_MAX_SEQUENCES :: int where
  "LLAMACPP_MAX_SEQUENCES = 256"

definition SUPPORTED_VLLM_DTYPES :: "string list" where
  "SUPPORTED_VLLM_DTYPES =
     [''auto'', ''half'', ''float16'', ''bfloat16'', ''float'', ''float32'']"

definition PLANNER_CACHE_TYPES :: "LlamaCppCacheType list" where
  "PLANNER_CACHE_TYPES = [F16, Q8_0]"

section \<open>Field patterns\<close>

definition is_digit_char :: "char \<Rightarrow> bool" where
  "is_digit_char c \<longleftrightarrow> CHR ''0'' \<le> c \<and> c \<le> CHR ''9''"

definition is_lower_char :: "char \<Rightarrow> bool" where
  "is_lower_char c \<longleftrightarrow> CHR ''a'' \<le> c \<and> c \<le> CHR ''z''"

definition is_upper_char :: "char \<Rightarrow> bool" where
  "is_upper_char c \<longleftrightarrow> CHR ''A'' \<le> c \<and> c \<le> CHR ''Z''"

definition is_lower_hex :: "char \<Rightarrow> bool" where
  "is_lower_hex c \<longleftrightarrow> is_digit_char c \<or> (CHR ''a'' \<le> c \<and> c \<le> CHR ''f'')"

definition is_hex_digest :: "nat \<Rightarrow> string \<Rightarrow> bool" where
  "is_hex_digest n s \<longleftrightarrow> length s = n \<and> list_all is_lower_hex s"

definition is_profile_id :: "string \<Rightarrow> bool" where
  "is_profile_id s \<longleftrightarrow>
     (case s of [] \<Rightarrow> False
      | c # cs \<Rightarrow> (is_lower_char c \<or> is_digit_char c) \<and> length cs \<le> 63 \<and>
          list_all (\<lambda>x. is_lower_char x \<or> is_digit_char x \<or> x \<in> set ''._-'') cs)"

definition is_gpu_name :: "string \<Rightarrow> bool" where
  "is_gpu_name s \<longleftrightarrow>
     (case s of [] \<Rightarrow> False
      | c # cs \<Rightarrow> (is_lower_char c \<or> is_upper_char c \<or> is_digit_char c) \<and>
          1 \<le> length cs \<and> length cs \<le> 127 \<and>
          list_all (\<lambda>x. is_lower_char x \<or> is_upper_char x \<or> is_digit_char x \<or> x \<in> set '' ._-'') cs)"

definition is_gpu_uuid :: "string \<Rightarrow> bool" where
  "is_gpu_uuid s \<longleftrightarrow>
     str_startswith s ''GPU-'' \<and> 8 \<le> length (drop 4 s) \<and> length (drop 4 s) \<le> 64 \<and>
     list_all (\<lambda>x. is_lower_hex x \<or> (CHR ''A'' \<le> x \<and> x \<le> CHR ''F'') \<or> x = CHR ''-'') (drop 4 s)"

definition opt_all :: "('a \<Rightarrow> bool) \<Rightarrow> 'a option \<Rightarrow> bool" where
  "opt_all P x = (case x of None \<Rightarrow> True | Some v \<Rightarrow> P v)"

lemma opt_all_simps [simp]: "opt_all P None" "opt_all P (Some v) = P v"
  by (simp_all add: opt_all_def)

definition len_between :: "nat \<Rightarrow> nat \<Rightarrow> 'a list \<Rightarrow> bool" where
  "len_between lo hi s \<longleftrightarrow> lo \<le> length s \<and> length s \<le> hi"

section \<open>vLLM parameters\<close>

record VllmParams =
  vp_tensor_parallel_size :: "int option"
  vp_max_model_len :: "int option"
  vp_gpu_memory_utilization :: "rat option"
  vp_max_num_batched_tokens :: "int option"
  vp_tool_call_parser :: "string option"
  vp_reasoning_parser :: "string option"
  vp_dtype :: "string option"
  vp_gpu_devices :: "int list option"

definition VllmParams_fields :: "VllmParams \<Rightarrow> bool" where
  "VllmParams_fields p \<longleftrightarrow>
     opt_all (\<lambda>n. 1 \<le> n) (vp_tensor_parallel_size p) \<and>
     opt_all (\<lambda>n. 1 \<le> n) (vp_max_model_len p) \<and>
     opt_all (\<lambda>u. 0 < u \<and> u \<le> 1) (vp_gpu_memory_utilization p) \<and>
     opt_all (\<lambda>n. 1 \<le> n) (vp_max_num_batched_tokens p) \<and>
     opt_all (len_between 1 256) (vp_tool_call_parser p) \<and>
     opt_all (len_between 1 256) (vp_reasoning_parser p) \<and>
     opt_all (len_between 1 256) (vp_dtype p) \<and>
     opt_all (\<lambda>ds. ds \<noteq> []) (vp_gpu_devices p)"

definition validate_dtype :: "string option \<Rightarrow> string + string option" where
  "validate_dtype value =
     (case value of None \<Rightarrow> Inr None
      | Some v \<Rightarrow> if v \<notin> set SUPPORTED_VLLM_DTYPES then Inl ''unsupported vLLM dtype'' else Inr (Some v))"

definition validate_gpu_devices :: "int list option \<Rightarrow> string + int list option" where
  "validate_gpu_devices value =
     (case value of None \<Rightarrow> Inr None
      | Some v \<Rightarrow>
          if list_ex (\<lambda>d. d < 0) v then Inl ''GPU device indices must be non-negative''
          else if length (remdups v) \<noteq> length v then Inl ''GPU device indices must be unique''
          else Inr (Some v))"

definition validate_tensor_parallel_fits_devices :: "VllmParams \<Rightarrow> string + VllmParams" where
  "validate_tensor_parallel_fits_devices p =
     (case (vp_gpu_devices p, vp_tensor_parallel_size p) of
        (Some ds, Some t) \<Rightarrow>
          if t > int (length ds)
          then Inl ''tensor_parallel_size exceeds the selected GPU device count'' else Inr p
      | _ \<Rightarrow> Inr p)"

text \<open>
  Construction: field bounds first, then the field validators in declaration order, then the
  model validator; Pydantic collects field errors, so an instance exists iff all of them pass.
\<close>

definition VllmParams_new :: "VllmParams \<Rightarrow> string + VllmParams" where
  "VllmParams_new p =
     (if \<not> VllmParams_fields p then Inl ''field constraint''
      else case validate_dtype (vp_dtype p) of Inl e \<Rightarrow> Inl e
      | Inr _ \<Rightarrow> (case validate_gpu_devices (vp_gpu_devices p) of Inl e \<Rightarrow> Inl e
         | Inr _ \<Rightarrow> validate_tensor_parallel_fits_devices p))"

section \<open>llama.cpp profiles and sizing requests\<close>

record LlamaCppSampling =
  ls_temperature :: rat
  ls_top_p :: rat
  ls_top_k :: int
  ls_min_p :: "rat option"
  ls_presence_penalty :: "rat option"

definition LlamaCppSampling_fields :: "LlamaCppSampling \<Rightarrow> bool" where
  "LlamaCppSampling_fields s \<longleftrightarrow>
     0 \<le> ls_temperature s \<and> ls_temperature s \<le> 2 \<and>
     0 < ls_top_p s \<and> ls_top_p s \<le> 1 \<and>
     0 \<le> ls_top_k s \<and> ls_top_k s \<le> 1000 \<and>
     opt_all (\<lambda>p. 0 \<le> p \<and> p \<le> 1) (ls_min_p s) \<and>
     opt_all (\<lambda>p. - 2 \<le> p \<and> p \<le> 2) (ls_presence_penalty s)"

record LlamaCppProfileRuntime =
  pr_profile_id :: string
  pr_profile_version :: int
  pr_ubatch :: int
  pr_required_free_mib :: int
  pr_gpu_name :: string
  pr_gpu_min_total_mib :: int
  pr_speculative_type :: LlamaCppSpeculativeType
  pr_speculative_draft_n_max :: int
  pr_draft_cache_type :: "LlamaCppCacheType option"
  pr_draft_artifact_id :: "string option"
  pr_sampling :: LlamaCppSampling
  pr_disable_cuda_graphs :: bool

definition LlamaCppProfileRuntime_fields :: "LlamaCppProfileRuntime \<Rightarrow> bool" where
  "LlamaCppProfileRuntime_fields p \<longleftrightarrow>
     is_profile_id (pr_profile_id p) \<and> 1 \<le> pr_profile_version p \<and>
     32 \<le> pr_ubatch p \<and> pr_ubatch p \<le> 4096 \<and> 1 \<le> pr_required_free_mib p \<and>
     is_gpu_name (pr_gpu_name p) \<and> 1 \<le> pr_gpu_min_total_mib p \<and>
     1 \<le> pr_speculative_draft_n_max p \<and> pr_speculative_draft_n_max p \<le> 16 \<and>
     opt_all (is_hex_digest 64) (pr_draft_artifact_id p) \<and>
     LlamaCppSampling_fields (pr_sampling p)"

definition validate_speculation :: "LlamaCppProfileRuntime \<Rightarrow> string + LlamaCppProfileRuntime" where
  "validate_speculation p =
     (case pr_speculative_type p of
        DRAFT_MTP \<Rightarrow>
          if pr_draft_artifact_id p \<noteq> None
          then Inl ''MTP drafts from the target file, not an artifact''
          else if pr_draft_cache_type p = None
          then Inl ''MTP profiles must state the draft cache type''
          else Inr p
      | DRAFT_MTP_ASSISTANT \<Rightarrow>
          if pr_draft_artifact_id p = None
          then Inl ''MTP assistant profiles require a draft artifact''
          else if pr_draft_cache_type p \<noteq> None
          then Inl ''an MTP assistant shares the target KV cache''
          else Inr p
      | DRAFT_DFLASH \<Rightarrow>
          if pr_draft_artifact_id p = None
          then Inl ''DFlash profiles require a draft artifact''
          else if pr_draft_cache_type p \<noteq> None
          then Inl ''DFlash profiles use the default draft cache''
          else Inr p)"

record LlamaCppRuntimeRequest =
  rr_sizing :: LlamaCppSizingMode
  rr_fit_target_mib :: int
  rr_context_per_slot :: "int option"
  rr_slots :: "int option"
  rr_cache_type :: "LlamaCppCacheType option"
  rr_allow_estimator_overrun :: bool
  rr_profile :: "LlamaCppProfileRuntime option"

definition LlamaCppRuntimeRequest_fields :: "LlamaCppRuntimeRequest \<Rightarrow> bool" where
  "LlamaCppRuntimeRequest_fields r \<longleftrightarrow>
     1 \<le> rr_fit_target_mib r \<and>
     opt_all (\<lambda>n. LLAMACPP_CONTEXT_ALIGNMENT \<le> n) (rr_context_per_slot r) \<and>
     opt_all (\<lambda>n. 1 \<le> n \<and> n \<le> LLAMACPP_MAX_SEQUENCES) (rr_slots r) \<and>
     opt_all (\<lambda>p. LlamaCppProfileRuntime_fields p \<and> validate_speculation p = Inr p) (rr_profile r)"

text \<open>
  \<open>validate_sizing_policy\<close> in the order of the source. The two \<open>assert\<close>s follow the check that
  every custom value is present, so the pattern match below is where they hold.
\<close>

definition validate_sizing_policy :: "LlamaCppRuntimeRequest \<Rightarrow> string + LlamaCppRuntimeRequest" where
  "validate_sizing_policy r =
     (if rr_sizing r = SZ_AUTO then
        if rr_context_per_slot r \<noteq> None \<or> rr_slots r \<noteq> None \<or> rr_cache_type r \<noteq> None
           \<or> rr_allow_estimator_overrun r \<or> rr_profile r \<noteq> None
        then Inl ''automatic llama.cpp sizing does not accept custom values''
        else Inr r
      else case (rr_context_per_slot r, rr_slots r, rr_cache_type r) of
        (Some context, Some slots, Some cache) \<Rightarrow>
          (let checked =
             (if rr_sizing r = SZ_PROFILE then
                if rr_profile r = None then Some ''profile llama.cpp sizing requires a profile''
                else if slots \<noteq> 1 then Some ''profile llama.cpp sizing serves exactly one slot''
                else if rr_allow_estimator_overrun r then Some ''profile llama.cpp sizing has no estimator''
                else None
              else
                if rr_profile r \<noteq> None then Some ''custom llama.cpp sizing does not accept a profile''
                else if cache \<notin> set PLANNER_CACHE_TYPES then Some ''custom llama.cpp sizing supports f16 or q8_0 KV''
                else None)
           in case checked of Some e \<Rightarrow> Inl e
              | None \<Rightarrow>
                 if context mod LLAMACPP_CONTEXT_ALIGNMENT \<noteq> 0
                 then Inl ''context_per_slot must be aligned to 256-token increments''
                 else if context * slots > LLAMACPP_MAX_AGGREGATE_CONTEXT
                 then Inl ''context_per_slot * slots exceeds the aggregate context limit''
                 else Inr r)
      | _ \<Rightarrow> Inl ''llama.cpp sizing requires context_per_slot, slots, and cache_type'')"

definition LlamaCppRuntimeRequest_new :: "LlamaCppRuntimeRequest \<Rightarrow> string + LlamaCppRuntimeRequest" where
  "LlamaCppRuntimeRequest_new r =
     (if \<not> LlamaCppRuntimeRequest_fields r then Inl ''field constraint''
      else validate_sizing_policy r)"

section \<open>Compact wire shape of a request\<close>

text \<open>\<open>model_dump(mode="json", exclude_none=True)\<close> of the nested models, keys in field order.\<close>

definition opt_entry :: "string \<Rightarrow> ('a \<Rightarrow> json) \<Rightarrow> 'a option \<Rightarrow> (string \<times> json) list" where
  "opt_entry k f x = (case x of None \<Rightarrow> [] | Some v \<Rightarrow> [(k, f v)])"

definition LlamaCppSampling_dump :: "LlamaCppSampling \<Rightarrow> json" where
  "LlamaCppSampling_dump s = JObj
     ([(''temperature'', JFloat (ls_temperature s)), (''top_p'', JFloat (ls_top_p s)),
       (''top_k'', JInt (ls_top_k s))]
      @ opt_entry ''min_p'' JFloat (ls_min_p s)
      @ opt_entry ''presence_penalty'' JFloat (ls_presence_penalty s))"

definition LlamaCppProfileRuntime_dump :: "LlamaCppProfileRuntime \<Rightarrow> json" where
  "LlamaCppProfileRuntime_dump p = JObj
     ([(''profile_id'', JStr (pr_profile_id p)), (''profile_version'', JInt (pr_profile_version p)),
       (''ubatch'', JInt (pr_ubatch p)), (''required_free_mib'', JInt (pr_required_free_mib p)),
       (''gpu_name'', JStr (pr_gpu_name p)), (''gpu_min_total_mib'', JInt (pr_gpu_min_total_mib p)),
       (''speculative_type'', JStr (LlamaCppSpeculativeType_value (pr_speculative_type p))),
       (''speculative_draft_n_max'', JInt (pr_speculative_draft_n_max p))]
      @ opt_entry ''draft_cache_type'' (\<lambda>c. JStr (LlamaCppCacheType_value c)) (pr_draft_cache_type p)
      @ opt_entry ''draft_artifact_id'' JStr (pr_draft_artifact_id p)
      @ [(''sampling'', LlamaCppSampling_dump (pr_sampling p)),
         (''disable_cuda_graphs'', JBool (pr_disable_cuda_graphs p))])"

definition serialize_policy :: "LlamaCppRuntimeRequest \<Rightarrow> json" where
  "serialize_policy r = JObj
     ([(''sizing'', JStr (LlamaCppSizingMode_value (rr_sizing r))),
       (''fit_target_mib'', JInt (rr_fit_target_mib r))]
      @ opt_entry ''context_per_slot'' JInt (rr_context_per_slot r)
      @ opt_entry ''slots'' JInt (rr_slots r)
      @ opt_entry ''cache_type'' (\<lambda>c. JStr (LlamaCppCacheType_value c)) (rr_cache_type r)
      @ (if rr_allow_estimator_overrun r then [(''allow_estimator_overrun'', JBool True)] else [])
      @ opt_entry ''profile'' LlamaCppProfileRuntime_dump (rr_profile r))"

section \<open>Effective llama.cpp runtime\<close>

record LlamaCppSpeculativeEffective =
  se_type :: LlamaCppSpeculativeType
  se_draft_n_max :: int
  se_draft_gpu_layers :: "int option"
  se_draft_total_layers :: "int option"
  se_draft_cache_type_k :: "LlamaCppCacheType option"
  se_draft_cache_type_v :: "LlamaCppCacheType option"
  se_draft_shares_target_cache :: bool

definition LlamaCppSpeculativeEffective_fields :: "LlamaCppSpeculativeEffective \<Rightarrow> bool" where
  "LlamaCppSpeculativeEffective_fields s \<longleftrightarrow>
     1 \<le> se_draft_n_max s \<and> opt_all (\<lambda>n. 1 \<le> n) (se_draft_gpu_layers s) \<and>
     opt_all (\<lambda>n. 1 \<le> n) (se_draft_total_layers s)"

record LlamaCppRuntimeEffective =
  re_train_context :: int
  re_context_per_slot :: int
  re_slot_context_limit :: int
  re_slots :: int
  re_aggregate_context :: int
  re_cache_type_k :: LlamaCppCacheType
  re_cache_type_v :: LlamaCppCacheType
  re_flash_attn :: LlamaCppFlashAttention
  re_kv_unified :: bool
  re_gpu_layers :: int
  re_total_layers :: int
  re_estimator_overrun_used :: bool
  re_ubatch :: "int option"
  re_speculative :: "LlamaCppSpeculativeEffective option"

definition LlamaCppRuntimeEffective_fields :: "LlamaCppRuntimeEffective \<Rightarrow> bool" where
  "LlamaCppRuntimeEffective_fields e \<longleftrightarrow>
     1 \<le> re_train_context e \<and> 1 \<le> re_context_per_slot e \<and> 1 \<le> re_slot_context_limit e \<and>
     1 \<le> re_slots e \<and> re_slots e \<le> 256 \<and>
     1 \<le> re_aggregate_context e \<and> re_aggregate_context e \<le> 4294967040 \<and>
     1 \<le> re_gpu_layers e \<and> 1 \<le> re_total_layers e \<and>
     opt_all (\<lambda>n. 1 \<le> n) (re_ubatch e) \<and>
     opt_all LlamaCppSpeculativeEffective_fields (re_speculative e)"

text \<open>
  The wrap serializers take the dictionary Pydantic's own handler produced and drop keys whose
  value is \<open>None\<close>; \<open>values.get(name) is None\<close> is also true of an absent key, whose \<open>pop\<close> with a
  default does nothing.
\<close>

definition drop_none_key :: "string \<Rightarrow> (string, json) dict \<Rightarrow> (string, json) dict" where
  "drop_none_key name values =
     (case dict_get values name of
        None \<Rightarrow> dict_pop name values
      | Some JNull \<Rightarrow> dict_pop name values
      | Some _ \<Rightarrow> values)"

definition llamacpp_serialize_effective :: "(string, json) dict \<Rightarrow> (string, json) dict" where
  "llamacpp_serialize_effective values = fold drop_none_key [''ubatch'', ''speculative''] values"

definition vllm_serialize_effective :: "(string, json) dict \<Rightarrow> (string, json) dict" where
  "vllm_serialize_effective values = fold drop_none_key [''dtype'', ''attention_backend''] values"

definition vllm_serialize_request :: "(string, json) dict \<Rightarrow> (string, json) dict" where
  "vllm_serialize_request values =
     drop_none_key ''model''
       (case dict_get values ''params'' of
          Some (JObj params) \<Rightarrow>
            (let trimmed = filter (\<lambda>(k, v). v \<noteq> JNull) params
             in if trimmed \<noteq> [] then dict_set ''params'' (JObj trimmed) values
                else dict_pop ''params'' values)
        | _ \<Rightarrow> values)"

record LlamaCppGPUState =
  gs_index :: int
  gs_total_mib :: int
  gs_used_mib :: int
  gs_free_mib :: int

definition LlamaCppGPUState_fields :: "LlamaCppGPUState \<Rightarrow> bool" where
  "LlamaCppGPUState_fields g \<longleftrightarrow>
     0 \<le> gs_index g \<and> 1 \<le> gs_total_mib g \<and> 0 \<le> gs_used_mib g \<and> 0 \<le> gs_free_mib g"

record LlamaCppRuntimeState =
  rs_requested :: LlamaCppRuntimeRequest
  rs_effective :: LlamaCppRuntimeEffective
  rs_gpus :: "LlamaCppGPUState list"
  rs_observed_at :: py_datetime

definition require_timezone :: "py_datetime \<Rightarrow> string + py_datetime" where
  "require_timezone value =
     (case value of Naive t \<Rightarrow> Inl ''observed_at must include a timezone'' | Aware t \<Rightarrow> Inr value)"

definition LlamaCppRuntimeState_new :: "LlamaCppRuntimeState \<Rightarrow> string + LlamaCppRuntimeState" where
  "LlamaCppRuntimeState_new s =
     (if LlamaCppRuntimeRequest_new (rs_requested s) \<noteq> Inr (rs_requested s)
         \<or> \<not> LlamaCppRuntimeEffective_fields (rs_effective s)
         \<or> rs_gpus s = [] \<or> \<not> list_all LlamaCppGPUState_fields (rs_gpus s)
      then Inl ''field constraint''
      else case require_timezone (rs_observed_at s) of Inl e \<Rightarrow> Inl e | Inr _ \<Rightarrow> Inr s)"

section \<open>vLLM runtime state\<close>

record VllmRuntimeRequest =
  vq_model :: "string option"
  vq_params :: VllmParams

record VllmRuntimeEffective =
  ve_model :: string
  ve_model_selection :: VllmModelSelection
  ve_model_reason :: string
  ve_tensor_parallel_size :: int
  ve_max_model_len :: int
  ve_max_num_batched_tokens :: int
  ve_gpu_memory_utilization :: rat
  ve_dtype :: "string option"
  ve_attention_backend :: "string option"

definition VllmRuntimeEffective_fields :: "VllmRuntimeEffective \<Rightarrow> bool" where
  "VllmRuntimeEffective_fields e \<longleftrightarrow>
     len_between 1 512 (ve_model e) \<and> len_between 1 512 (ve_model_reason e) \<and>
     1 \<le> ve_tensor_parallel_size e \<and> 1 \<le> ve_max_model_len e \<and> 1 \<le> ve_max_num_batched_tokens e \<and>
     0 < ve_gpu_memory_utilization e \<and> ve_gpu_memory_utilization e \<le> 1"

record VllmMemoryEstimate =
  vm_weights_mib :: int
  vm_weights_per_gpu_mib :: int
  vm_kv_cache_mib :: int
  vm_runtime_overhead_mib :: int
  vm_reserve_mib :: int
  vm_usable_budget_mib :: int
  vm_free_per_gpu_mib :: int

definition VllmMemoryEstimate_fields :: "VllmMemoryEstimate \<Rightarrow> bool" where
  "VllmMemoryEstimate_fields m \<longleftrightarrow>
     0 \<le> vm_weights_mib m \<and> 0 \<le> vm_weights_per_gpu_mib m \<and> 0 \<le> vm_kv_cache_mib m \<and>
     0 \<le> vm_runtime_overhead_mib m \<and> 0 \<le> vm_reserve_mib m \<and> 0 \<le> vm_usable_budget_mib m \<and>
     0 \<le> vm_free_per_gpu_mib m"

record VllmAdjustment =
  va_field :: string
  va_previous :: string
  va_value :: string
  va_reason :: string

definition VllmAdjustment_fields :: "VllmAdjustment \<Rightarrow> bool" where
  "VllmAdjustment_fields a \<longleftrightarrow>
     len_between 1 64 (va_field a) \<and> length (va_previous a) \<le> 64 \<and> length (va_value a) \<le> 64 \<and>
     len_between 1 64 (va_reason a)"

record VllmGPUState =
  vg_index :: int
  vg_total_mib :: int
  vg_used_mib :: int
  vg_free_mib :: int

definition VllmGPUState_fields :: "VllmGPUState \<Rightarrow> bool" where
  "VllmGPUState_fields g \<longleftrightarrow>
     0 \<le> vg_index g \<and> 1 \<le> vg_total_mib g \<and> 0 \<le> vg_used_mib g \<and> 0 \<le> vg_free_mib g"

record VllmServingVerification =
  sv_served_model :: string
  sv_runtime_version :: string
  sv_generation_id :: "string option"
  sv_runtime_path :: "string option"
  sv_model_revision :: "string option"
  sv_model_max_model_len :: "int option"
  sv_process_id :: int
  sv_process_age_seconds :: int
  sv_task :: string
  sv_endpoint :: string
  sv_latency_ms :: rat
  sv_prompt_tokens :: "int option"
  sv_completion_tokens :: "int option"
  sv_finish_reason :: "string option"
  sv_verified_at :: py_datetime

definition VllmServingVerification_fields :: "VllmServingVerification \<Rightarrow> bool" where
  "VllmServingVerification_fields v \<longleftrightarrow>
     len_between 1 512 (sv_served_model v) \<and> len_between 1 128 (sv_runtime_version v) \<and>
     opt_all (\<lambda>s. length s \<le> 64) (sv_generation_id v) \<and>
     opt_all (\<lambda>s. length s \<le> 1024) (sv_runtime_path v) \<and>
     opt_all (\<lambda>s. length s \<le> 128) (sv_model_revision v) \<and>
     opt_all (\<lambda>n. 1 \<le> n) (sv_model_max_model_len v) \<and>
     1 \<le> sv_process_id v \<and> 0 \<le> sv_process_age_seconds v \<and>
     len_between 1 32 (sv_task v) \<and> len_between 1 128 (sv_endpoint v) \<and> 0 \<le> sv_latency_ms v \<and>
     opt_all (\<lambda>n. 0 \<le> n) (sv_prompt_tokens v) \<and> opt_all (\<lambda>n. 0 \<le> n) (sv_completion_tokens v) \<and>
     opt_all (\<lambda>s. length s \<le> 64) (sv_finish_reason v)"

record VllmRuntimeState =
  vs_requested :: VllmRuntimeRequest
  vs_effective :: VllmRuntimeEffective
  vs_estimate :: VllmMemoryEstimate
  vs_adjustments :: "VllmAdjustment list"
  vs_attempt :: int
  vs_reason :: string
  vs_approximate :: bool
  vs_gpus :: "VllmGPUState list"
  vs_serving :: "VllmServingVerification option"
  vs_observed_at :: py_datetime

definition VllmRuntimeState_new :: "VllmRuntimeState \<Rightarrow> string + VllmRuntimeState" where
  "VllmRuntimeState_new s =
     (if \<not> opt_all (len_between 1 512) (vq_model (vs_requested s))
         \<or> VllmParams_new (vq_params (vs_requested s)) \<noteq> Inr (vq_params (vs_requested s))
         \<or> \<not> VllmRuntimeEffective_fields (vs_effective s) \<or> \<not> VllmMemoryEstimate_fields (vs_estimate s)
         \<or> \<not> list_all VllmAdjustment_fields (vs_adjustments s) \<or> vs_attempt s < 0
         \<or> \<not> len_between 1 512 (vs_reason s)
         \<or> vs_gpus s = [] \<or> \<not> list_all VllmGPUState_fields (vs_gpus s)
         \<or> \<not> opt_all (\<lambda>v. VllmServingVerification_fields v \<and>
                require_timezone (sv_verified_at v) = Inr (sv_verified_at v)) (vs_serving s)
      then Inl ''field constraint''
      else case require_timezone (vs_observed_at s) of Inl e \<Rightarrow> Inl e | Inr _ \<Rightarrow> Inr s)"

section \<open>Nodes\<close>

record NodeCapabilities =
  nc_max_tokens :: int
  nc_gpu_memory :: string

record NodeGPU =
  ng_index :: int
  ng_uuid :: string
  ng_name :: string
  ng_total_mib :: int

definition NodeGPU_fields :: "NodeGPU \<Rightarrow> bool" where
  "NodeGPU_fields g \<longleftrightarrow>
     0 \<le> ng_index g \<and> is_gpu_uuid (ng_uuid g) \<and> len_between 1 128 (ng_name g) \<and> 1 \<le> ng_total_mib g"

record NodePlacement =
  np_profile_id :: string
  np_profile_version :: int
  np_claim_id :: string

definition NodePlacement_fields :: "NodePlacement \<Rightarrow> bool" where
  "NodePlacement_fields p \<longleftrightarrow>
     is_profile_id (np_profile_id p) \<and> 1 \<le> np_profile_version p \<and> is_hex_digest 32 (np_claim_id p)"

record node =
  node_id :: string
  node_name :: string
  node_endpoint :: string
  node_status :: NodeStatus
  node_model :: string
  node_engine :: InferenceEngine
  node_artifact_id :: "string option"
  node_llamacpp_runtime :: "LlamaCppRuntimeState option"
  node_vllm_runtime :: "VllmRuntimeState option"
  node_last_heartbeat :: "py_datetime option"
  node_capabilities :: NodeCapabilities
  node_active_connections :: int
  node_managed :: bool
  node_self_setup :: bool
  node_admin_only :: bool
  node_owner :: string
  node_gpus :: "NodeGPU list"
  node_placement :: "NodePlacement option"

definition placement_is_managed :: "node \<Rightarrow> string + node" where
  "placement_is_managed n =
     (if node_placement n \<noteq> None \<and> (\<not> node_managed n \<or> node_owner n \<noteq> [])
      then Inl ''automatic placements are managed and unowned'' else Inr n)"

definition self_setup_is_unmanaged :: "node \<Rightarrow> string + node" where
  "self_setup_is_unmanaged n =
     (if node_self_setup n \<and> node_managed n then Inl ''self_setup nodes cannot be managed'' else Inr n)"

definition Node_new :: "node \<Rightarrow> string + node" where
  "Node_new n =
     (if \<not> opt_all (is_hex_digest 64) (node_artifact_id n) \<or> \<not> list_all NodeGPU_fields (node_gpus n)
         \<or> \<not> opt_all NodePlacement_fields (node_placement n)
         \<or> \<not> opt_all (\<lambda>s. LlamaCppRuntimeState_new s = Inr s) (node_llamacpp_runtime n)
         \<or> \<not> opt_all (\<lambda>s. VllmRuntimeState_new s = Inr s) (node_vllm_runtime n)
      then Inl ''field constraint''
      else case placement_is_managed n of Inl e \<Rightarrow> Inl e
           | Inr n' \<Rightarrow> self_setup_is_unmanaged n')"

text \<open>\<open>Node(node_id=..., endpoint=...)\<close> with every other field at its default.\<close>

definition blank_node :: "string \<Rightarrow> string \<Rightarrow> node" where
  "blank_node i e =
     \<lparr>node_id = i, node_name = [], node_endpoint = e, node_status = UNKNOWN, node_model = [],
      node_engine = VLLM, node_artifact_id = None, node_llamacpp_runtime = None,
      node_vllm_runtime = None, node_last_heartbeat = None,
      node_capabilities = \<lparr>nc_max_tokens = 4096, nc_gpu_memory = []\<rparr>,
      node_active_connections = 0, node_managed = False, node_self_setup = False,
      node_admin_only = False, node_owner = [], node_gpus = [], node_placement = None\<rparr>"

section \<open>What the validators accept\<close>

text \<open>The accepted sizing requests, stated independently of the order of the checks.\<close>

definition sizing_accepted :: "LlamaCppRuntimeRequest \<Rightarrow> bool" where
  "sizing_accepted r \<longleftrightarrow>
     (case rr_sizing r of
        SZ_AUTO \<Rightarrow> rr_context_per_slot r = None \<and> rr_slots r = None \<and> rr_cache_type r = None \<and>
          \<not> rr_allow_estimator_overrun r \<and> rr_profile r = None
      | mode \<Rightarrow> (\<exists>c s k. rr_context_per_slot r = Some c \<and> rr_slots r = Some s \<and> rr_cache_type r = Some k \<and>
          256 dvd c \<and> c * s \<le> 4294967040 \<and>
          (if mode = SZ_PROFILE then rr_profile r \<noteq> None \<and> s = 1 \<and> \<not> rr_allow_estimator_overrun r
           else rr_profile r = None \<and> k \<noteq> Q4_0)))"

lemma planner_cache_types: "k \<in> set PLANNER_CACHE_TYPES \<longleftrightarrow> k \<noteq> Q4_0"
  by (cases k) (simp_all add: PLANNER_CACHE_TYPES_def)

lemma validate_sizing_policy_iff: "validate_sizing_policy r = Inr r' \<longleftrightarrow> r' = r \<and> sizing_accepted r"
  by (cases "rr_sizing r"; cases "rr_context_per_slot r"; cases "rr_slots r"; cases "rr_cache_type r")
    (auto simp: validate_sizing_policy_def sizing_accepted_def Let_def planner_cache_types
      LLAMACPP_CONTEXT_ALIGNMENT_def LLAMACPP_MAX_AGGREGATE_CONTEXT_def dvd_eq_mod_eq_0)

lemma SUPPORTED_dtype_clean:
  "v \<in> set SUPPORTED_VLLM_DTYPES \<Longrightarrow> CHR '' '' \<notin> set v \<and> CHR ''-'' \<notin> set v \<and> v \<noteq> []"
  by (auto simp: SUPPORTED_VLLM_DTYPES_def)

lemma validate_dtype_cases:
  "\<exists>e. validate_dtype v =
     (if opt_all (\<lambda>d. d \<in> set SUPPORTED_VLLM_DTYPES) v then Inr v else Inl e)"
  by (cases v) (auto simp: validate_dtype_def)

lemma validate_gpu_devices_cases:
  "\<exists>e. validate_gpu_devices v =
     (if opt_all (\<lambda>ds. (\<forall>d \<in> set ds. 0 \<le> d) \<and> distinct ds) v then Inr v else Inl e)"
proof (cases v)
  case (Some ds)
  have d: "length (remdups ds) \<noteq> length ds \<longleftrightarrow> \<not> distinct ds"
    by (simp add: length_remdups_eq distinct_remdups_id)
  have n: "list_ex (\<lambda>d. d < 0) ds \<longleftrightarrow> \<not> (\<forall>d \<in> set ds. 0 \<le> d)"
    by (auto simp: list_ex_iff not_le)
  show ?thesis
    unfolding Some validate_gpu_devices_def option.case d n by auto
qed (simp add: validate_gpu_devices_def)

lemma VllmParams_new_iff:
  "VllmParams_new p = Inr q \<longleftrightarrow>
     q = p \<and> VllmParams_fields p \<and> opt_all (\<lambda>d. d \<in> set SUPPORTED_VLLM_DTYPES) (vp_dtype p) \<and>
     opt_all (\<lambda>ds. (\<forall>d \<in> set ds. 0 \<le> d) \<and> distinct ds) (vp_gpu_devices p) \<and>
     (\<forall>ds t. vp_gpu_devices p = Some ds \<and> vp_tensor_parallel_size p = Some t \<longrightarrow> t \<le> int (length ds))"
proof -
  obtain e1 where 1: "validate_dtype (vp_dtype p) =
      (if opt_all (\<lambda>d. d \<in> set SUPPORTED_VLLM_DTYPES) (vp_dtype p) then Inr (vp_dtype p) else Inl e1)"
    using validate_dtype_cases by blast
  obtain e2 where 2: "validate_gpu_devices (vp_gpu_devices p) =
      (if opt_all (\<lambda>ds. (\<forall>d \<in> set ds. 0 \<le> d) \<and> distinct ds) (vp_gpu_devices p)
       then Inr (vp_gpu_devices p) else Inl e2)"
    using validate_gpu_devices_cases by blast
  have 3: "validate_tensor_parallel_fits_devices p = Inr q \<longleftrightarrow> q = p \<and>
      (\<forall>ds t. vp_gpu_devices p = Some ds \<and> vp_tensor_parallel_size p = Some t \<longrightarrow> t \<le> int (length ds))"
    by (auto simp: validate_tensor_parallel_fits_devices_def split: option.splits)
  show ?thesis
    unfolding VllmParams_new_def 1 2 using 3 by auto
qed

lemma Node_new_Inr:
  assumes "Node_new n = Inr m"
  shows "m = n \<and> (node_placement n \<noteq> None \<longrightarrow> node_managed n \<and> node_owner n = [] \<and> \<not> node_self_setup n)
     \<and> \<not> (node_self_setup n \<and> node_managed n)"
  using assms
  by (auto simp: Node_new_def placement_is_managed_def self_setup_is_unmanaged_def split: if_splits)

section \<open>The wire shape loses nothing\<close>

lemma opt_entry_get:
  "k' \<noteq> k \<Longrightarrow> dict_get (opt_entry k f x @ rest) k' = dict_get rest k'"
  "dict_get rest k = None \<Longrightarrow> dict_get (opt_entry k f x @ rest) k = map_option f x"
  by (cases x; simp add: opt_entry_def)+

lemma opt_entry_get_last [simp]:
  "dict_get (opt_entry k f x) k' = (if k' = k then map_option f x else None)"
  by (cases x) (auto simp: opt_entry_def)

lemma enum_values_inj:
  "LlamaCppSizingMode_value a = LlamaCppSizingMode_value b \<longleftrightarrow> a = b"
  "LlamaCppCacheType_value c = LlamaCppCacheType_value d \<longleftrightarrow> c = d"
  "LlamaCppSpeculativeType_value e = LlamaCppSpeculativeType_value f \<longleftrightarrow> e = f"
proof -
  show "LlamaCppSizingMode_value a = LlamaCppSizingMode_value b \<longleftrightarrow> a = b" by (cases a; cases b; simp)
  show "LlamaCppCacheType_value c = LlamaCppCacheType_value d \<longleftrightarrow> c = d" by (cases c; cases d; simp)
  show "LlamaCppSpeculativeType_value e = LlamaCppSpeculativeType_value f \<longleftrightarrow> e = f"
    by (cases e; cases f; simp)
qed

lemma NodeStatus_value_inj [simp]: "NodeStatus_value a = NodeStatus_value b \<longleftrightarrow> a = b"
  by (cases a; cases b) simp_all

lemma map_option_eq_inj: "(\<And>a b. f a = f b \<longleftrightarrow> a = b) \<Longrightarrow> map_option f x = map_option f y \<longleftrightarrow> x = y"
  by (cases x; cases y) simp_all

lemmas wire_inj = opt_entry_get enum_values_inj map_option_eq_inj

lemma LlamaCppSampling_dump_inj:
  assumes "LlamaCppSampling_dump s = LlamaCppSampling_dump t"
  shows "s = t"
proof -
  let ?look = "\<lambda>j k. case j of JObj d \<Rightarrow> dict_get d k | _ \<Rightarrow> None"
  have look: "?look (LlamaCppSampling_dump s) k = ?look (LlamaCppSampling_dump t) k" for k
    using assms by simp
  show ?thesis
    using look [of "''temperature''"] look [of "''top_p''"] look [of "''top_k''"]
      look [of "''min_p''"] look [of "''presence_penalty''"]
    by (cases s, cases t) (simp add: LlamaCppSampling_dump_def wire_inj del: map_of_append)
qed

lemma LlamaCppProfileRuntime_dump_inj:
  assumes "LlamaCppProfileRuntime_dump s = LlamaCppProfileRuntime_dump t"
  shows "s = t"
proof -
  let ?look = "\<lambda>j k. case j of JObj d \<Rightarrow> dict_get d k | _ \<Rightarrow> None"
  have look: "?look (LlamaCppProfileRuntime_dump s) k = ?look (LlamaCppProfileRuntime_dump t) k" for k
    using assms by simp
  show ?thesis
    using look [of "''profile_id''"] look [of "''profile_version''"] look [of "''ubatch''"]
      look [of "''required_free_mib''"] look [of "''gpu_name''"] look [of "''gpu_min_total_mib''"]
      look [of "''speculative_type''"] look [of "''speculative_draft_n_max''"]
      look [of "''draft_cache_type''"] look [of "''draft_artifact_id''"]
      look [of "''sampling''"] look [of "''disable_cuda_graphs''"]
    by (cases s, cases t)
      (simp add: LlamaCppProfileRuntime_dump_def wire_inj LlamaCppSampling_dump_inj del: map_of_append)
qed

text \<open>
  The compact wire shape of a llama.cpp sizing request drops absent optional fields and a false
  overrun flag, and still determines the request: two requests with the same serialization are
  the same request, so nothing retained for a retry or a relaunch is lost in storage.
\<close>

theorem serialize_policy_inj: "serialize_policy r = serialize_policy q \<longleftrightarrow> r = q"
proof
  assume eq: "serialize_policy r = serialize_policy q"
  let ?look = "\<lambda>j k. case j of JObj d \<Rightarrow> dict_get d k | _ \<Rightarrow> None"
  have look: "?look (serialize_policy r) k = ?look (serialize_policy q) k" for k
    using eq by simp
  have prof: "map_option LlamaCppProfileRuntime_dump x = map_option LlamaCppProfileRuntime_dump y \<longleftrightarrow> x = y" for x y
    by (rule map_option_eq_inj) (auto dest: LlamaCppProfileRuntime_dump_inj)
  show "r = q"
    using look [of "''sizing''"] look [of "''fit_target_mib''"] look [of "''context_per_slot''"]
      look [of "''slots''"] look [of "''cache_type''"] look [of "''allow_estimator_overrun''"]
      look [of "''profile''"]
    by (cases r, cases q)
      (simp add: serialize_policy_def wire_inj prof del: map_of_append split: if_splits)
qed simp

end
