(* ===== verification/Registry.thy ===== *)
theory Registry
  imports NodeModel
begin

text \<open>
  The in-memory node registry of \<^verbatim>\<open>discovery/registry.py\<close>. Every method takes the re-entrant
  lock for its whole body, so each is one atomic step; the record holds the node dictionary and
  the remove listeners. A listener runs on the gateway state \<open>'w\<close> outside the registry and may
  raise, which the registry catches: \<open>call l node_id w\<close> gives a flag (raised) and the state the
  listener left behind.
\<close>

section \<open>State and operations\<close>

record 'l registry =
  reg_nodes :: "(string, node) dict"
  reg_listeners :: "'l list"

definition empty_registry :: "'l registry" where
  "empty_registry = \<lparr>reg_nodes = [], reg_listeners = []\<rparr>"

definition LIVENESS_STATUSES :: "NodeStatus list" where
  "LIVENESS_STATUSES = [HEALTHY, UNHEALTHY, UNKNOWN]"

text \<open>\<open>node_with_status\<close>: the status and any further changes on one copy.\<close>

definition node_with_status :: "node \<Rightarrow> NodeStatus \<Rightarrow> (node \<Rightarrow> node) \<Rightarrow> node" where
  "node_with_status n st changes = (changes n)\<lparr>node_status := st\<rparr>"

definition registry_add :: "node \<Rightarrow> 'l registry \<Rightarrow> 'l registry" where
  "registry_add n r = r\<lparr>reg_nodes := dict_set (node_id n) n (reg_nodes r)\<rparr>"

definition register_remove_listener :: "'l \<Rightarrow> 'l registry \<Rightarrow> 'l registry" where
  "register_remove_listener l r = r\<lparr>reg_listeners := reg_listeners r @ [l]\<rparr>"

definition unregister_listener :: "'l \<Rightarrow> 'l registry \<Rightarrow> 'l registry" where
  "unregister_listener l r = r\<lparr>reg_listeners := remove1 l (reg_listeners r)\<rparr>"

definition merge_discovered :: "node option \<Rightarrow> node \<Rightarrow> node" where
  "merge_discovered current n =
     (case current of
        Some c \<Rightarrow> if node_status c \<in> set LIVENESS_STATUSES \<and> node_status n \<in> set LIVENESS_STATUSES
                  then n\<lparr>node_status := node_status c\<rparr> else n
      | None \<Rightarrow> n)"

definition add_discovered :: "node \<Rightarrow> 'l registry \<Rightarrow> 'l registry" where
  "add_discovered n r =
     r\<lparr>reg_nodes := dict_set (node_id n) (merge_discovered (dict_get (reg_nodes r) (node_id n)) n)
                     (reg_nodes r)\<rparr>"

definition registry_get :: "'l registry \<Rightarrow> string \<Rightarrow> node option" where
  "registry_get r i = dict_get (reg_nodes r) i"

definition registry_drain :: "string \<Rightarrow> 'l registry \<Rightarrow> bool \<times> 'l registry" where
  "registry_drain i r =
     (case dict_get (reg_nodes r) i of
        None \<Rightarrow> (False, r)
      | Some n \<Rightarrow> (True, r\<lparr>reg_nodes := dict_set i (n\<lparr>node_status := DRAINING\<rparr>) (reg_nodes r)\<rparr>))"

definition update_status ::
  "string \<Rightarrow> NodeStatus \<Rightarrow> NodeStatus list \<Rightarrow> 'l registry \<Rightarrow> bool \<times> 'l registry" where
  "update_status i new allowed_from r =
     (case dict_get (reg_nodes r) i of
        None \<Rightarrow> (False, r)
      | Some n \<Rightarrow>
          if node_status n \<notin> set allowed_from then (False, r)
          else (True, r\<lparr>reg_nodes := dict_set i (n\<lparr>node_status := new\<rparr>) (reg_nodes r)\<rparr>))"

definition registry_get_all :: "'l registry \<Rightarrow> node list" where
  "registry_get_all r = dict_values (reg_nodes r)"

text \<open>
  \<open>reconcile_discovered\<close>: merge every discovered node, then drain every registered key that the
  snapshot did not contain. The set difference is iterated in registration order here; draining
  different keys commutes, so the order Python's set gives is immaterial.
\<close>

definition reconcile_discovered ::
  "(string, node) dict \<Rightarrow> string list \<Rightarrow> 'l registry \<Rightarrow> string list \<times> 'l registry" where
  "reconcile_discovered nodes present r =
     (let r1 = fold add_discovered (dict_values nodes) r;
          missing = filter (\<lambda>i. i \<notin> set present) (dict_keys (reg_nodes r1))
      in (missing, fold (\<lambda>i s. snd (registry_drain i s)) missing r1))"

fun run_listeners :: "('l \<Rightarrow> string \<Rightarrow> 'w \<Rightarrow> bool \<times> 'w) \<Rightarrow> 'l list \<Rightarrow> string \<Rightarrow> 'w \<Rightarrow> 'w" where
  "run_listeners call [] i w = w"
| "run_listeners call (l # ls) i w = run_listeners call ls i (snd (call l i w))"

definition registry_remove ::
  "('l \<Rightarrow> string \<Rightarrow> 'w \<Rightarrow> bool \<times> 'w) \<Rightarrow> string \<Rightarrow> 'l registry \<times> 'w \<Rightarrow> 'l registry \<times> 'w" where
  "registry_remove call i rw =
     (case dict_get (reg_nodes (fst rw)) i of
        None \<Rightarrow> rw
      | Some _ \<Rightarrow> ((fst rw)\<lparr>reg_nodes := dict_pop i (reg_nodes (fst rw))\<rparr>,
                   run_listeners call (reg_listeners (fst rw)) i (snd rw)))"

section \<open>Well-formedness\<close>

text \<open>Keys are unique and every entry is stored under its own \<open>node_id\<close>.\<close>

definition registry_ok :: "'l registry \<Rightarrow> bool" where
  "registry_ok r \<longleftrightarrow> dict_ok (reg_nodes r) \<and> (\<forall>(i, n) \<in> set (reg_nodes r). node_id n = i)"

named_theorems registry_defs
lemmas [registry_defs] = registry_add_def add_discovered_def registry_get_def registry_drain_def
  update_status_def registry_get_all_def

lemma registry_ok_set:
  assumes "registry_ok r" "node_id n = i"
  shows "registry_ok (r\<lparr>reg_nodes := dict_set i n (reg_nodes r)\<rparr>)"
proof -
  have "set (dict_set i n d) \<subseteq> insert (i, n) (set d)" for d
  proof (induction d)
    case (Cons p d)
    then show ?case by (cases p) auto
  qed simp
  with assms show ?thesis by (fastforce simp: registry_ok_def)
qed

lemma registry_ok_get: "registry_ok r \<Longrightarrow> registry_get r i = Some n \<Longrightarrow> node_id n = i"
  by (auto simp: registry_ok_def registry_get_def dest!: dict_get_mem)

lemma merge_discovered_id [simp]: "node_id (merge_discovered c n) = node_id n"
  by (cases c) (auto simp: merge_discovered_def)

lemma registry_ok_empty [simp]: "registry_ok empty_registry"
  by (simp add: registry_ok_def empty_registry_def)

lemma registry_ok_add [simp]: "registry_ok r \<Longrightarrow> registry_ok (registry_add n r)"
  by (simp add: registry_add_def registry_ok_set)

lemma registry_ok_add_discovered [simp]: "registry_ok r \<Longrightarrow> registry_ok (add_discovered n r)"
  by (simp add: add_discovered_def registry_ok_set)

lemma registry_ok_update_status [simp]: "registry_ok r \<Longrightarrow> registry_ok (snd (update_status i st fr r))"
  using registry_ok_get [of r i]
  by (auto simp: update_status_def registry_get_def registry_ok_set split: option.splits)

lemma registry_ok_drain [simp]: "registry_ok r \<Longrightarrow> registry_ok (snd (registry_drain i r))"
  using registry_ok_get [of r i]
  by (auto simp: registry_drain_def registry_get_def registry_ok_set split: option.splits)

lemma registry_ok_remove [simp]: "registry_ok r \<Longrightarrow> registry_ok (fst (registry_remove call i (r, w)))"
  by (auto simp: registry_remove_def registry_ok_def AList.delete_eq split: option.splits)

lemma registry_ok_fold_add [simp]:
  "registry_ok r \<Longrightarrow> registry_ok (fold add_discovered ns r)"
  by (induction ns arbitrary: r) simp_all

lemma registry_ok_fold_drain [simp]:
  "registry_ok r \<Longrightarrow> registry_ok (fold (\<lambda>i s. snd (registry_drain i s)) is r)"
  by (induction "is" arbitrary: r) simp_all

lemma registry_ok_reconcile [simp]: "registry_ok r \<Longrightarrow> registry_ok (snd (reconcile_discovered ns p r))"
  by (simp add: reconcile_discovered_def Let_def)

section \<open>Lookups after each operation\<close>

lemma get_add [simp]: "registry_get (registry_add n r) i = (if i = node_id n then Some n else registry_get r i)"
  by (simp add: registry_add_def registry_get_def)

lemma get_add_discovered [simp]:
  "registry_get (add_discovered n r) i =
     (if i = node_id n then Some (merge_discovered (registry_get r i) n) else registry_get r i)"
  by (simp add: add_discovered_def registry_get_def)

lemma get_drain [simp]:
  "registry_get (snd (registry_drain j r)) i =
     (if i = j then map_option (\<lambda>n. n\<lparr>node_status := DRAINING\<rparr>) (registry_get r i) else registry_get r i)"
  by (auto simp: registry_drain_def registry_get_def split: option.splits)

lemma get_update_status [simp]:
  "registry_get (snd (update_status j st fr r)) i =
     (if i = j then map_option (\<lambda>n. if node_status n \<in> set fr then n\<lparr>node_status := st\<rparr> else n) (registry_get r i)
      else registry_get r i)"
  by (auto simp: update_status_def registry_get_def split: option.splits)

lemma update_status_fst:
  "fst (update_status j st fr r) \<longleftrightarrow> (\<exists>n. registry_get r j = Some n \<and> node_status n \<in> set fr)"
  by (auto simp: update_status_def registry_get_def split: option.splits)

lemma get_remove [simp]:
  "registry_get (fst (registry_remove call j (r, w))) i = (if i = j then None else registry_get r i)"
  by (auto simp: registry_remove_def registry_get_def split: option.splits)

lemma listeners_frame [simp]:
  "reg_listeners (registry_add n r) = reg_listeners r"
  "reg_listeners (add_discovered n r) = reg_listeners r"
  "reg_listeners (snd (registry_drain i r)) = reg_listeners r"
  "reg_listeners (snd (update_status i st fr r)) = reg_listeners r"
  "reg_listeners (fst (registry_remove call i (r, w))) = reg_listeners r"
  by (auto simp: registry_add_def add_discovered_def registry_drain_def update_status_def
      registry_remove_def split: option.splits)

lemma get_all_iff: "registry_ok r \<Longrightarrow> n \<in> set (registry_get_all r) \<longleftrightarrow> registry_get r (node_id n) = Some n"
  by (force simp: registry_ok_def registry_get_all_def registry_get_def dict_ok_def
      dest: map_of_SomeD)

lemma get_fold_add_other:
  "i \<notin> node_id ` set ns \<Longrightarrow> registry_get (fold add_discovered ns r) i = registry_get r i"
  by (induction ns arbitrary: r) simp_all

lemma get_fold_add:
  assumes "distinct (map node_id ns)" "n \<in> set ns"
  shows "registry_get (fold add_discovered ns r) (node_id n) =
     Some (merge_discovered (registry_get r (node_id n)) n)"
  using assms
proof (induction ns arbitrary: r)
  case (Cons m ns)
  show ?case
  proof (cases "n = m")
    case True
    with Cons.prems have "node_id n \<notin> node_id ` set ns" by auto
    with True show ?thesis by (simp add: get_fold_add_other)
  next
    case False
    with Cons.prems have n: "n \<in> set ns" by simp
    have "node_id m \<notin> node_id ` set ns" using Cons.prems(1) by simp
    with n have "node_id n \<noteq> node_id m" by (metis imageI)
    with Cons n show ?thesis by simp
  qed
qed simp

lemma get_fold_drain:
  "registry_get (fold (\<lambda>i s. snd (registry_drain i s)) is r) j =
     (if j \<in> set is then map_option (\<lambda>n. n\<lparr>node_status := DRAINING\<rparr>) (registry_get r j)
      else registry_get r j)"
  by (induction "is" arbitrary: r) (auto simp: option.map_comp comp_def)

lemma registry_keys: "i \<in> set (dict_keys (reg_nodes r)) \<longleftrightarrow> registry_get r i \<noteq> None"
  using dict_get_None_keys [of "reg_nodes r" i] by (simp add: registry_get_def)

section \<open>The registry as a keyed store\<close>

text \<open>The contract the router and the health checker use: conditional status changes never create
  an entry, never change any field but the status, and report whether they applied.\<close>

locale status_store =
  fixes lookup :: "'s \<Rightarrow> string \<Rightarrow> node option"
    and transition :: "string \<Rightarrow> NodeStatus \<Rightarrow> NodeStatus list \<Rightarrow> 's \<Rightarrow> bool \<times> 's"
  assumes transition_lookup:
    "lookup (snd (transition j st fr s)) i =
       (if i = j then map_option (\<lambda>n. if node_status n \<in> set fr then n\<lparr>node_status := st\<rparr> else n) (lookup s i)
        else lookup s i)"
    and transition_applied:
    "fst (transition j st fr s) \<longleftrightarrow> (\<exists>n. lookup s j = Some n \<and> node_status n \<in> set fr)"
begin

lemma no_resurrection: "lookup s i = None \<Longrightarrow> lookup (snd (transition j st fr s)) i = None"
  by (auto simp: transition_lookup)

lemma applied_status:
  "fst (transition j st fr s) \<Longrightarrow> \<exists>n. lookup (snd (transition j st fr s)) j = Some n \<and> node_status n = st"
  by (auto simp: transition_applied transition_lookup)

lemma refused_unchanged: "\<not> fst (transition j st fr s) \<Longrightarrow> lookup (snd (transition j st fr s)) = lookup s"
proof (rule ext)
  fix i
  assume "\<not> fst (transition j st fr s)"
  then show "lookup (snd (transition j st fr s)) i = lookup s i"
    by (cases "lookup s j") (auto simp: transition_applied transition_lookup)
qed

lemma only_status_changes:
  assumes "lookup s i = Some n" "lookup (snd (transition j st fr s)) i = Some m"
  shows "m = n\<lparr>node_status := node_status m\<rparr> \<and>
    (node_status m = node_status n \<or> (i = j \<and> node_status n \<in> set fr \<and> node_status m = st))"
  using assms by (auto simp: transition_lookup split: if_splits)

lemma protected_status:
  assumes "lookup s i = Some n" "node_status n \<notin> set fr"
  shows "lookup (snd (transition j st fr s)) i = Some n"
  using assms by (auto simp: transition_lookup)

end

interpretation regstat: status_store registry_get update_status
  by unfold_locales (simp_all add: update_status_fst)

section \<open>Snapshot convergence\<close>

lemma get_fold_add_dict:
  assumes "dict_ok nodes" "\<forall>(i, n) \<in> set nodes. node_id n = i"
  shows "registry_get (fold add_discovered (dict_values nodes) r) i =
     (case dict_get nodes i of Some n \<Rightarrow> Some (merge_discovered (registry_get r i) n)
      | None \<Rightarrow> registry_get r i)"
proof -
  have ids: "map node_id (dict_values nodes) = dict_keys nodes"
    using assms(2) by (induction nodes) auto
  show ?thesis
  proof (cases "dict_get nodes i")
    case None
    then have "i \<notin> node_id ` set (dict_values nodes)"
      using ids by (metis dict_get_None_keys list.set_map)
    with None show ?thesis by (simp add: get_fold_add_other)
  next
    case (Some n)
    then have n: "n \<in> set (dict_values nodes)" "node_id n = i"
      using assms(2) by (auto dest!: dict_get_mem intro: rev_image_eqI)
    have "distinct (map node_id (dict_values nodes))"
      using assms(1) by (simp only: ids dict_ok_def)
    from get_fold_add [OF this n(1)] n(2) Some show ?thesis by simp
  qed
qed



end
