(* ===== verification/CircuitBreaker.thy ===== *)
theory CircuitBreaker
  imports QiipPrelude
begin

text \<open>
  \<^verbatim>\<open>resilience/circuit_breaker.py\<close>: the per-node breaker as a record with one function per method
  (each holds the breaker's lock for its state change) and the registry of breakers as a
  dictionary. The step relation interleaves the methods arbitrarily, as the request handlers and
  the health thread do.
\<close>

section \<open>One breaker\<close>

datatype CircuitBreakerState = CLOSED | OPEN | HALF_OPEN

record CircuitBreaker =
  cb_threshold :: int
  cb_failure_count :: int
  cb_state :: CircuitBreakerState

definition CircuitBreaker_new :: "int \<Rightarrow> CircuitBreaker" where
  "CircuitBreaker_new threshold =
     \<lparr>cb_threshold = threshold, cb_failure_count = 0, cb_state = CLOSED\<rparr>"

definition record_failure :: "CircuitBreaker \<Rightarrow> CircuitBreaker" where
  "record_failure b =
     (let count = cb_failure_count b + 1;
          should_open = (count \<ge> cb_threshold b \<or> cb_state b = HALF_OPEN)
      in b\<lparr>cb_failure_count := count, cb_state := (if should_open then OPEN else cb_state b)\<rparr>)"

definition record_success :: "CircuitBreaker \<Rightarrow> CircuitBreaker" where
  "record_success b = b\<lparr>cb_failure_count := 0, cb_state := CLOSED\<rparr>"

definition is_open :: "CircuitBreaker \<Rightarrow> bool" where
  "is_open b \<longleftrightarrow> cb_state b \<noteq> CLOSED"

definition try_half_open :: "CircuitBreaker \<Rightarrow> bool \<times> CircuitBreaker" where
  "try_half_open b =
     (if cb_state b \<noteq> OPEN then (False, b) else (True, b\<lparr>cb_state := HALF_OPEN\<rparr>))"

definition reopen :: "CircuitBreaker \<Rightarrow> CircuitBreaker" where
  "reopen b = (if cb_state b = HALF_OPEN then b\<lparr>cb_state := OPEN\<rparr> else b)"

definition breaker_reset :: "CircuitBreaker \<Rightarrow> CircuitBreaker" where
  "breaker_reset b = record_success b"

lemmas breaker_defs = record_failure_def record_success_def is_open_def try_half_open_def
  reopen_def breaker_reset_def CircuitBreaker_new_def Let_def

section \<open>The registry of breakers\<close>

record CircuitBreakerRegistry =
  cbr_threshold :: int
  cbr_breakers :: "(string, CircuitBreaker) dict"

definition cb_get :: "CircuitBreakerRegistry \<Rightarrow> string \<Rightarrow> CircuitBreaker option" where
  "cb_get r i = dict_get (cbr_breakers r) i"

definition cb_put :: "string \<Rightarrow> CircuitBreaker \<Rightarrow> CircuitBreakerRegistry \<Rightarrow> CircuitBreakerRegistry" where
  \<comment> \<open>a method call on the shared breaker object stored under \<open>i\<close>\<close>
  "cb_put i b r = r\<lparr>cbr_breakers := dict_set i b (cbr_breakers r)\<rparr>"

definition get_or_create :: "CircuitBreakerRegistry \<Rightarrow> string \<Rightarrow> CircuitBreaker \<times> CircuitBreakerRegistry" where
  "get_or_create r i =
     (case dict_get (cbr_breakers r) i of
        Some b \<Rightarrow> (b, r)
      | None \<Rightarrow> (CircuitBreaker_new (cbr_threshold r),
                 cb_put i (CircuitBreaker_new (cbr_threshold r)) r))"

definition cb_reset :: "string \<Rightarrow> CircuitBreakerRegistry \<Rightarrow> CircuitBreakerRegistry" where
  "cb_reset i r = (case cb_get r i of None \<Rightarrow> r | Some b \<Rightarrow> cb_put i (breaker_reset b) r)"

definition cb_remove :: "string \<Rightarrow> CircuitBreakerRegistry \<Rightarrow> CircuitBreakerRegistry" where
  "cb_remove i r = r\<lparr>cbr_breakers := dict_pop i (cbr_breakers r)\<rparr>"

lemma cb_get_put [simp]: "cb_get (cb_put i b r) j = (if j = i then Some b else cb_get r j)"
  by (simp add: cb_get_def cb_put_def)

lemma cb_get_remove [simp]: "cb_get (cb_remove i r) j = (if j = i then None else cb_get r j)"
  by (simp add: cb_get_def cb_remove_def)

lemma cbr_threshold_frame [simp]:
  "cbr_threshold (cb_put i b r) = cbr_threshold r"
  "cbr_threshold (cb_remove i r) = cbr_threshold r"
  "cbr_threshold (snd (get_or_create r i)) = cbr_threshold r"
  "cbr_threshold (cb_reset i r) = cbr_threshold r"
  by (auto simp: cb_put_def cb_remove_def get_or_create_def cb_reset_def split: option.splits)

lemma get_or_create_get [simp]:
  "cb_get (snd (get_or_create r i)) j = (if j = i then Some (fst (get_or_create r i)) else cb_get r j)"
  by (auto simp: get_or_create_def cb_get_def cb_put_def split: option.splits)

section \<open>Runs\<close>

datatype breaker_event = Failure | Success | Probe | Reopen | Reset

fun breaker_apply :: "breaker_event \<Rightarrow> CircuitBreaker \<Rightarrow> CircuitBreaker" where
  "breaker_apply Failure b = record_failure b"
| "breaker_apply Success b = record_success b"
| "breaker_apply Probe b = snd (try_half_open b)"
| "breaker_apply Reopen b = reopen b"
| "breaker_apply Reset b = breaker_reset b"

definition breaker_step :: "CircuitBreaker \<Rightarrow> CircuitBreaker \<Rightarrow> bool" where
  "breaker_step b c \<longleftrightarrow> (\<exists>e. c = breaker_apply e b)"

text \<open>Failures since the last success in a run; only a success (or a reset) clears them.\<close>

fun failures_since :: "int \<Rightarrow> breaker_event list \<Rightarrow> int" where
  "failures_since n [] = n"
| "failures_since n (Failure # es) = failures_since (n + 1) es"
| "failures_since n (Success # es) = failures_since 0 es"
| "failures_since n (Reset # es) = failures_since 0 es"
| "failures_since n (e # es) = failures_since n es"

definition breaker_inv :: "CircuitBreaker \<Rightarrow> bool" where
  "breaker_inv b \<longleftrightarrow> 0 \<le> cb_failure_count b \<and>
     (cb_failure_count b \<ge> cb_threshold b \<longleftrightarrow> cb_state b \<noteq> CLOSED)"

lemma breaker_apply_threshold [simp]: "cb_threshold (breaker_apply e b) = cb_threshold b"
  by (cases e) (simp_all add: breaker_defs)

lemma breaker_apply_inv: "1 \<le> cb_threshold b \<Longrightarrow> breaker_inv b \<Longrightarrow> breaker_inv (breaker_apply e b)"
  by (cases e) (auto simp: breaker_defs breaker_inv_def)

lemma fold_breaker_threshold [simp]: "cb_threshold (fold breaker_apply es b) = cb_threshold b"
  by (induction es arbitrary: b) simp_all

lemma breaker_apply_count:
  "cb_failure_count (breaker_apply e b) = failures_since (cb_failure_count b) [e]"
  by (cases e) (simp_all add: breaker_defs)

lemma failures_since_Cons: "failures_since n (e # es) = failures_since (failures_since n [e]) es"
  by (cases e) simp_all

lemma fold_breaker_count:
  "cb_failure_count (fold breaker_apply es b) = failures_since (cb_failure_count b) es"
  by (induction es arbitrary: b) (simp, metis breaker_apply_count failures_since_Cons fold_simps(2))

lemma fold_breaker_inv:
  "1 \<le> cb_threshold b \<Longrightarrow> breaker_inv b \<Longrightarrow> breaker_inv (fold breaker_apply es b)"
  by (induction es arbitrary: b) (simp_all add: breaker_apply_inv)

interpretation breaker_sys: invariant_system
  "\<lambda>b. \<exists>t \<ge> 1. b = CircuitBreaker_new t" breaker_step "\<lambda>b. 1 \<le> cb_threshold b \<and> breaker_inv b"
proof
  show "1 \<le> cb_threshold s \<and> breaker_inv s" if "\<exists>t \<ge> 1. s = CircuitBreaker_new t" for s
    using that by (auto simp: CircuitBreaker_new_def breaker_inv_def)
  show "1 \<le> cb_threshold t \<and> breaker_inv t"
    if "1 \<le> cb_threshold s \<and> breaker_inv s" and "breaker_step s t" for s t
    using that by (auto simp: breaker_step_def breaker_apply_inv)
qed

text \<open>
  C38. Whatever the interleaving of requests, recovery probes and resets, a breaker excludes
  ordinary traffic exactly when the failures recorded since the last success have reached the
  threshold: a recovery probe or its withdrawal alone never closes or forgets anything.
\<close>

theorem breaker_open_iff_failures:
  assumes "1 \<le> t"
  shows "is_open (fold breaker_apply es (CircuitBreaker_new t)) \<longleftrightarrow> t \<le> failures_since 0 es"
proof -
  let ?b = "fold breaker_apply es (CircuitBreaker_new t)"
  have "breaker_inv ?b"
    using assms by (intro fold_breaker_inv) (auto simp: CircuitBreaker_new_def breaker_inv_def)
  moreover have "cb_failure_count ?b = failures_since 0 es"
    by (simp add: fold_breaker_count CircuitBreaker_new_def)
  moreover have "cb_threshold ?b = t" by (simp add: CircuitBreaker_new_def)
  ultimately show ?thesis by (simp add: breaker_inv_def is_open_def)
qed

theorem breaker_open_iff_failures_witness:
  "(1::int) \<le> 3 \<and>
   (is_open (fold breaker_apply [Failure, Failure, Failure, Probe, Reopen] (CircuitBreaker_new 3))
      \<longleftrightarrow> 3 \<le> failures_since 0 [Failure, Failure, Failure, Probe, Reopen])"
  using breaker_open_iff_failures [of 3 "[Failure, Failure, Failure, Probe, Reopen]"] by simp

text \<open>
  At most one recovery probe is in flight: once a probe was admitted, every later attempt is
  refused until the breaker records a failure, a success, a reset or the probe's withdrawal.
\<close>

theorem breaker_single_probe:
  assumes "fst (try_half_open b)" and "set es \<subseteq> {Probe}"
  shows "\<not> fst (try_half_open (fold breaker_apply es (snd (try_half_open b))))"
proof -
  have "cb_state (snd (try_half_open b)) = HALF_OPEN"
    using assms(1) by (auto simp: try_half_open_def split: if_splits)
  then have "cb_state (fold breaker_apply es (snd (try_half_open b))) = HALF_OPEN"
    using assms(2) by (induction es rule: rev_induct) (auto simp: try_half_open_def)
  then show ?thesis by (simp add: try_half_open_def)
qed

theorem breaker_single_probe_witness:
  "fst (try_half_open (fold breaker_apply [Failure] (CircuitBreaker_new 1))) \<and>
   \<not> fst (try_half_open (fold breaker_apply [Probe, Probe]
            (snd (try_half_open (fold breaker_apply [Failure] (CircuitBreaker_new 1))))))"
proof -
  have "fst (try_half_open (fold breaker_apply [Failure] (CircuitBreaker_new 1)))"
    by (simp add: breaker_defs)
  with breaker_single_probe [OF this, of "[Probe, Probe]"] show ?thesis by simp
qed

end
