(* ===== verification/Routing.thy ===== *)
theory Routing
  imports Registry CircuitBreaker
begin

text \<open>
  Request routing: \<^verbatim>\<open>routing/connection_tracker.py\<close>, \<^verbatim>\<open>routing/request_metrics.py\<close>,
  \<^verbatim>\<open>routing/drain_cleanup.py\<close> and \<^verbatim>\<open>routing/node_selector.py\<close>. The record \<open>gateway\<close> is the shared
  state those objects reference; the two remove listeners are the ones the application registers
  (the breaker registry in \<^verbatim>\<open>main.py\<close> and the health thread's failure counters). Operations that
  hold the registry lock are single functions; reservations are kept in a list so that a
  reservation object is an index, and the step relation at the end interleaves every operation
  that touches the shared state.
\<close>

section \<open>Counters\<close>

definition tracker_increment :: "string \<Rightarrow> (string, int) dict \<Rightarrow> (string, int) dict" where
  "tracker_increment i t = dict_set i (dict_get_or t i 0 + 1) t"

definition tracker_decrement :: "string \<Rightarrow> (string, int) dict \<Rightarrow> (string, int) dict" where
  "tracker_decrement i t =
     (let current = dict_get_or t i 0 in if current > 0 then dict_set i (current - 1) t else t)"

definition tracker_get :: "(string, int) dict \<Rightarrow> string \<Rightarrow> int" where
  "tracker_get t i = dict_get_or t i 0"

definition tracker_remove :: "string \<Rightarrow> (string, int) dict \<Rightarrow> (string, int) dict" where
  "tracker_remove i t = dict_pop i t"

lemma tracker_simps [simp]:
  "tracker_get (tracker_increment i t) j = tracker_get t j + (if j = i then 1 else 0)"
  "tracker_get (tracker_decrement i t) j =
     (if j = i \<and> tracker_get t j > 0 then tracker_get t j - 1 else tracker_get t j)"
  "tracker_get (tracker_remove i t) j = (if j = i then 0 else tracker_get t j)"
  "tracker_get [] j = 0"
  by (auto simp: tracker_increment_def tracker_decrement_def tracker_get_def tracker_remove_def Let_def)

record RequestMetrics =
  rm_total :: int
  rm_per_node :: "(string, int) dict"
  rm_per_model :: "(string, int) dict"

definition record_request :: "string \<Rightarrow> string option \<Rightarrow> RequestMetrics \<Rightarrow> RequestMetrics" where
  "record_request i model m =
     (let m1 = m\<lparr>rm_total := rm_total m + 1,
                 rm_per_node := dict_set i (dict_get_or (rm_per_node m) i 0 + 1) (rm_per_node m)\<rparr>
      in case model of None \<Rightarrow> m1
         | Some x \<Rightarrow> m1\<lparr>rm_per_model := dict_set x (dict_get_or (rm_per_model m1) x 0 + 1) (rm_per_model m1)\<rparr>)"

definition record_node_attempt :: "string \<Rightarrow> RequestMetrics \<Rightarrow> RequestMetrics" where
  "record_node_attempt i m =
     m\<lparr>rm_per_node := dict_set i (dict_get_or (rm_per_node m) i 0 + 1) (rm_per_node m)\<rparr>"

section \<open>Shared gateway state\<close>

datatype remove_listener = BreakerListener | FailureListener

record gateway =
  gw_registry :: "remove_listener registry"
  gw_tracker :: "(string, int) dict"
  gw_breakers :: CircuitBreakerRegistry
  gw_failures :: "(string, int) dict"
  gw_metrics :: RequestMetrics

text \<open>The registered listeners: \<open>CircuitBreakerRegistry.remove\<close> and \<open>_ConsecutiveFailures.remove\<close>.\<close>

fun call_listener ::
  "remove_listener \<Rightarrow> string \<Rightarrow> CircuitBreakerRegistry \<times> (string, int) dict
     \<Rightarrow> bool \<times> (CircuitBreakerRegistry \<times> (string, int) dict)" where
  "call_listener BreakerListener i (b, f) = (False, (cb_remove i b, f))"
| "call_listener FailureListener i (b, f) = (False, (b, dict_pop i f))"

definition gw_remove :: "string \<Rightarrow> gateway \<Rightarrow> gateway" where
  "gw_remove i g =
     (case registry_remove call_listener i (gw_registry g, (gw_breakers g, gw_failures g)) of
        (r, (b, f)) \<Rightarrow> g\<lparr>gw_registry := r, gw_breakers := b, gw_failures := f\<rparr>)"

lemma gw_remove_registry_eq:
  "gw_registry (gw_remove i g) =
     fst (registry_remove call_listener i (gw_registry g, (gw_breakers g, gw_failures g)))"
  by (simp add: gw_remove_def split_beta)

lemma gw_remove_registry [simp]:
  "registry_get (gw_registry (gw_remove i g)) j = (if j = i then None else registry_get (gw_registry g) j)"
  by (simp add: gw_remove_registry_eq)

lemma gw_remove_frame [simp]:
  "gw_tracker (gw_remove i g) = gw_tracker g" "gw_metrics (gw_remove i g) = gw_metrics g"
  by (simp_all add: gw_remove_def split_beta)

lemma gw_remove_ok [simp]:
  "registry_ok (gw_registry g) \<Longrightarrow> registry_ok (gw_registry (gw_remove i g))"
  by (simp add: gw_remove_registry_eq)

section \<open>Drain cleanup\<close>

fun sweep_nodes :: "node list \<Rightarrow> gateway \<Rightarrow> string list \<times> gateway" where
  "sweep_nodes [] g = ([], g)"
| "sweep_nodes (n # ns) g =
     (if node_status n = DRAINING \<and> tracker_get (gw_tracker g) (node_id n) = 0
      then (let g1 = gw_remove (node_id n) g;
                g2 = g1\<lparr>gw_tracker := tracker_remove (node_id n) (gw_tracker g1)\<rparr>;
                (removed, g3) = sweep_nodes ns g2
            in (node_id n # removed, g3))
      else sweep_nodes ns g)"

definition sweep_drained_nodes :: "gateway \<Rightarrow> string list \<times> gateway" where
  "sweep_drained_nodes g = sweep_nodes (registry_get_all (gw_registry g)) g"

lemma sweep_nodes_tracker [simp]:
  "tracker_get (gw_tracker (snd (sweep_nodes ns g))) i = tracker_get (gw_tracker g) i"
  by (induction ns g rule: sweep_nodes.induct) (simp_all add: Let_def split_beta)

lemma sweep_nodes_ok [simp]:
  "registry_ok (gw_registry g) \<Longrightarrow> registry_ok (gw_registry (snd (sweep_nodes ns g)))"
  by (induction ns g rule: sweep_nodes.induct) (simp_all add: Let_def split_beta)

lemma sweep_nodes_metrics [simp]: "gw_metrics (snd (sweep_nodes ns g)) = gw_metrics g"
  by (induction ns g rule: sweep_nodes.induct) (simp_all add: Let_def split_beta)

lemma sweep_nodes_removed:
  "set (fst (sweep_nodes ns g)) =
     {node_id n |n. n \<in> set ns \<and> node_status n = DRAINING \<and> tracker_get (gw_tracker g) (node_id n) = 0}"
  by (induction ns g rule: sweep_nodes.induct) (auto simp: Let_def split_beta split: if_splits)

lemma sweep_nodes_get:
  "registry_get (gw_registry (snd (sweep_nodes ns g))) i =
     (if i \<in> set (fst (sweep_nodes ns g)) then None else registry_get (gw_registry g) i)"
  by (induction ns g rule: sweep_nodes.induct) (auto simp: Let_def split_beta)

section \<open>Node selection\<close>

text \<open>\<open>exclude\<close> is the set of failed nodes (\<open>None\<close> or empty: no exclusion), \<open>allowed\<close> a token's
  endpoint pin, \<open>owner\<close> the owner gate (\<open>None\<close>: admin, empty: anonymous).\<close>

definition in_scope :: "node \<Rightarrow> string list option \<Rightarrow> string option \<Rightarrow> bool" where
  "in_scope n allowed owner =
     (if (case allowed of None \<Rightarrow> False | Some a \<Rightarrow> node_id n \<notin> set a) then False
      else if node_admin_only n \<and> owner \<noteq> None then False
      else \<not> (case owner of None \<Rightarrow> False
              | Some own \<Rightarrow> node_owner n \<noteq> [] \<and> str_lower (node_owner n) \<noteq> str_lower own))"

text \<open>The sort, the tie set and \<open>random.choice\<close>: \<open>rnd\<close> is the drawn number, so every element of the
  tie set is drawn by some \<open>rnd\<close>. \<open>healthy[0]\<close> on an empty list would raise.\<close>

definition least_connections :: "(string, int) dict \<Rightarrow> nat \<Rightarrow> node list \<Rightarrow> py_error + node option" where
  "least_connections t rnd healthy =
     (let ordered = sort_key (\<lambda>n. tracker_get t (node_id n)) healthy
      in case ordered of
           [] \<Rightarrow> Inl IndexError
         | first # _ \<Rightarrow>
             (let tied = filter (\<lambda>n. tracker_get t (node_id n) = tracker_get t (node_id first)) ordered
              in Inr (Some (tied ! (rnd mod length tied)))))"

definition select_locked ::
  "string option \<Rightarrow> string list option \<Rightarrow> string list option \<Rightarrow> string option \<Rightarrow> nat \<Rightarrow> gateway
     \<Rightarrow> py_error + node option" where
  "select_locked model exclude allowed owner rnd g =
     (let nodes = registry_get_all (gw_registry g);
          healthy = filter (\<lambda>n. node_status n = HEALTHY) nodes
      in if healthy = [] then Inr None
      else let excluding = (exclude \<noteq> None \<and> exclude \<noteq> Some []);
               healthy = (if excluding then filter (\<lambda>n. node_id n \<notin> set (the exclude)) healthy else healthy)
      in if excluding \<and> healthy = [] then Inr None
      else let scoped = (allowed \<noteq> None \<or> owner \<noteq> None);
               healthy = (if scoped then filter (\<lambda>n. in_scope n allowed owner) healthy else healthy)
      in if scoped \<and> healthy = [] then Inr None
      else let healthy = (case model of None \<Rightarrow> healthy | Some m \<Rightarrow> filter (\<lambda>n. node_model n = m) healthy)
      in if model \<noteq> None \<and> healthy = [] then Inr None
      else least_connections (gw_tracker g) rnd healthy)"

definition select_and_reserve ::
  "string option \<Rightarrow> string list option \<Rightarrow> string list option \<Rightarrow> string option \<Rightarrow> nat \<Rightarrow> gateway
     \<Rightarrow> py_error + (node \<times> gateway) option" where
  "select_and_reserve model exclude allowed owner rnd g =
     (case select_locked model exclude allowed owner rnd g of
        Inl e \<Rightarrow> Inl e
      | Inr None \<Rightarrow> Inr None
      | Inr (Some n) \<Rightarrow> Inr (Some (n, g\<lparr>gw_tracker := tracker_increment (node_id n) (gw_tracker g)\<rparr>)))"

definition selector_release :: "string \<Rightarrow> gateway \<Rightarrow> gateway" where
  "selector_release i g =
     snd (sweep_drained_nodes (g\<lparr>gw_tracker := tracker_decrement i (gw_tracker g)\<rparr>))"

definition has_model ::
  "string \<Rightarrow> string list option \<Rightarrow> string option \<Rightarrow> gateway \<Rightarrow> bool" where
  "has_model model allowed owner g =
     (let nodes = registry_get_all (gw_registry g);
          nodes = (if allowed \<noteq> None \<or> owner \<noteq> None
                   then filter (\<lambda>n. in_scope n allowed owner) nodes else nodes)
      in list_ex (\<lambda>n. node_model n = model) nodes)"

text \<open>The nodes a request may be sent to, stated as one filter.\<close>

definition eligible ::
  "string option \<Rightarrow> string list option \<Rightarrow> string list option \<Rightarrow> string option \<Rightarrow> node \<Rightarrow> bool" where
  "eligible model exclude allowed owner n \<longleftrightarrow>
     node_status n = HEALTHY \<and> (\<forall>ex. exclude = Some ex \<longrightarrow> node_id n \<notin> set ex) \<and>
     in_scope n allowed owner \<and> (\<forall>m. model = Some m \<longrightarrow> node_model n = m)"

lemma in_scope_open [simp]: "in_scope n None None"
  by (simp add: in_scope_def)

lemma least_connections_spec:
  assumes "ns \<noteq> []"
  shows "\<exists>n. least_connections t rnd ns = Inr (Some n) \<and> n \<in> set ns \<and>
      (\<forall>m \<in> set ns. tracker_get t (node_id n) \<le> tracker_get t (node_id m))"
proof -
  let ?key = "\<lambda>n. tracker_get t (node_id n)"
  obtain f fs where ord: "sort_key ?key ns = f # fs"
    using assms by (metis neq_Nil_conv set_empty set_sort)
  let ?tied = "filter (\<lambda>n. ?key n = ?key f) (f # fs)"
  have "rnd mod length ?tied < length ?tied" by simp
  then have pick: "?tied ! (rnd mod length ?tied) \<in> set ?tied" by (rule nth_mem)
  have sorted: "sorted (map ?key (f # fs))" using sorted_sort_key [of ?key ns] ord by simp
  have set: "set (f # fs) = set ns" using ord by (metis set_sort)
  have least: "?key f \<le> ?key m" if "m \<in> set ns" for m
    using that sorted set by auto
  show ?thesis
    using pick least set by (auto simp: least_connections_def ord Let_def simp del: filter.simps)
qed

lemma least_connections_any:
  assumes "n \<in> set ns" "\<forall>m \<in> set ns. tracker_get t (node_id n) \<le> tracker_get t (node_id m)"
  shows "\<exists>rnd. least_connections t rnd ns = Inr (Some n)"
proof -
  let ?key = "\<lambda>n. tracker_get t (node_id n)"
  obtain f fs where ord: "sort_key ?key ns = f # fs"
    using assms(1) by (metis empty_iff list.set(1) neq_Nil_conv set_sort)
  have set: "set (f # fs) = set ns" using ord by (metis set_sort)
  have sorted: "sorted (map ?key (f # fs))" using sorted_sort_key [of ?key ns] ord by simp
  have "?key f \<le> ?key n" using sorted set assms(1) by auto
  with assms(2) set have "?key n = ?key f" by (metis antisym list.set_intros(1))
  with assms(1) set have "n \<in> set (filter (\<lambda>n. ?key n = ?key f) (f # fs))" by (simp only: set_filter mem_Collect_eq simp_thms)
  then obtain j where "j < length (filter (\<lambda>n. ?key n = ?key f) (f # fs))"
      "filter (\<lambda>n. ?key n = ?key f) (f # fs) ! j = n"
    by (metis in_set_conv_nth)
  then show ?thesis
    by (intro exI [of _ j]) (simp add: least_connections_def ord Let_def del: filter.simps)
qed

lemma select_locked_eq:
  "select_locked model exclude allowed owner rnd g =
     (let es = filter (eligible model exclude allowed owner) (registry_get_all (gw_registry g))
      in if es = [] then Inr None else least_connections (gw_tracker g) rnd es)"
proof -
  define h0 where "h0 = filter (\<lambda>n. node_status n = HEALTHY) (registry_get_all (gw_registry g))"
  define h1 where "h1 = (if exclude \<noteq> None \<and> exclude \<noteq> Some []
    then filter (\<lambda>n. node_id n \<notin> set (the exclude)) h0 else h0)"
  define h2 where "h2 = (if allowed \<noteq> None \<or> owner \<noteq> None
    then filter (\<lambda>n. in_scope n allowed owner) h1 else h1)"
  define h3 where "h3 = (case model of None \<Rightarrow> h2 | Some m \<Rightarrow> filter (\<lambda>n. node_model n = m) h2)"
  have h1': "h1 = filter (\<lambda>n. \<forall>ex. exclude = Some ex \<longrightarrow> node_id n \<notin> set ex) h0"
    by (cases exclude) (auto simp: h1_def)
  have h2': "h2 = filter (\<lambda>n. in_scope n allowed owner) h1"
    by (auto simp: h2_def)
  have h3': "h3 = filter (\<lambda>n. \<forall>m. model = Some m \<longrightarrow> node_model n = m) h2"
    by (cases model) (auto simp: h3_def)
  have el: "h3 = filter (eligible model exclude allowed owner) (registry_get_all (gw_registry g))"
    unfolding h3' h2' h1' h0_def filter_filter
    by (rule filter_cong) (auto simp: eligible_def)
  have "select_locked model exclude allowed owner rnd g =
     (if h0 = [] then Inr None
      else if (exclude \<noteq> None \<and> exclude \<noteq> Some []) \<and> h1 = [] then Inr None
      else if (allowed \<noteq> None \<or> owner \<noteq> None) \<and> h2 = [] then Inr None
      else if model \<noteq> None \<and> h3 = [] then Inr None
      else least_connections (gw_tracker g) rnd h3)"
    unfolding select_locked_def Let_def h0_def [symmetric] h1_def [symmetric] h2_def [symmetric] h3_def [symmetric] ..
  moreover have "h3 = [] \<longleftrightarrow> h0 = [] \<or> ((exclude \<noteq> None \<and> exclude \<noteq> Some []) \<and> h1 = []) \<or>
      ((allowed \<noteq> None \<or> owner \<noteq> None) \<and> h2 = []) \<or> (model \<noteq> None \<and> h3 = [])"
  proof -
    have down: "h0 = [] \<Longrightarrow> h1 = []" "h1 = [] \<Longrightarrow> h2 = []" "h2 = [] \<Longrightarrow> h3 = []"
      by (simp_all add: h1' h2' h3')
    have skip: "\<not> (exclude \<noteq> None \<and> exclude \<noteq> Some []) \<Longrightarrow> h1 = h0"
      "\<not> (allowed \<noteq> None \<or> owner \<noteq> None) \<Longrightarrow> h2 = h1" "model = None \<Longrightarrow> h3 = h2"
      by (auto simp: h1_def h2_def h3_def)
    show ?thesis using down skip by metis
  qed
  ultimately show ?thesis
    unfolding Let_def el [symmetric] by presburger
qed

lemma select_locked_cases:
  assumes "select_locked model exclude allowed owner rnd g = res"
  shows "(res = Inr None \<and> (\<forall>n \<in> set (registry_get_all (gw_registry g)). \<not> eligible model exclude allowed owner n))
    \<or> (\<exists>n. res = Inr (Some n) \<and> n \<in> set (registry_get_all (gw_registry g)) \<and>
        eligible model exclude allowed owner n \<and>
        (\<forall>m \<in> set (registry_get_all (gw_registry g)). eligible model exclude allowed owner m
           \<longrightarrow> tracker_get (gw_tracker g) (node_id n) \<le> tracker_get (gw_tracker g) (node_id m)))"
proof -
  let ?es = "filter (eligible model exclude allowed owner) (registry_get_all (gw_registry g))"
  show ?thesis
  proof (cases "?es = []")
    case True
    with assms show ?thesis by (auto simp: select_locked_eq filter_empty_conv)
  next
    case False
    with least_connections_spec [of ?es "gw_tracker g" rnd] assms show ?thesis
      by (auto simp: select_locked_eq Let_def)
  qed
qed

text \<open>
  C30. Node selection is exactly least-connections over the eligible nodes. It never raises; it
  returns no node only when no registered node is HEALTHY, outside the failed set, inside the
  caller's pin and owner gate and serving the model; otherwise it returns an eligible registered
  node with the fewest active connections, and every such node is returned by some random draw.
\<close>

theorem select_least_connections:
  "(case select_locked model exclude allowed owner rnd g of
      Inl e \<Rightarrow> False
    | Inr None \<Rightarrow> list_all (\<lambda>n. \<not> eligible model exclude allowed owner n) (registry_get_all (gw_registry g))
    | Inr (Some n) \<Rightarrow> n \<in> set (registry_get_all (gw_registry g)) \<and> eligible model exclude allowed owner n \<and>
        list_all (\<lambda>m. eligible model exclude allowed owner m
           \<longrightarrow> tracker_get (gw_tracker g) (node_id n) \<le> tracker_get (gw_tracker g) (node_id m))
          (registry_get_all (gw_registry g)))
   \<and> (\<forall>n. n \<in> set (registry_get_all (gw_registry g)) \<and> eligible model exclude allowed owner n \<and>
        list_all (\<lambda>m. eligible model exclude allowed owner m
           \<longrightarrow> tracker_get (gw_tracker g) (node_id n) \<le> tracker_get (gw_tracker g) (node_id m))
          (registry_get_all (gw_registry g))
      \<longrightarrow> (\<exists>rnd'. select_locked model exclude allowed owner rnd' g = Inr (Some n)))"
proof -
  let ?all = "registry_get_all (gw_registry g)"
  let ?es = "filter (eligible model exclude allowed owner) ?all"
  have any: "\<exists>rnd'. select_locked model exclude allowed owner rnd' g = Inr (Some n)"
    if n: "n \<in> set ?all" "eligible model exclude allowed owner n"
      and least: "list_all (\<lambda>m. eligible model exclude allowed owner m
           \<longrightarrow> tracker_get (gw_tracker g) (node_id n) \<le> tracker_get (gw_tracker g) (node_id m)) ?all" for n
  proof -
    have "n \<in> set ?es" "\<forall>m \<in> set ?es. tracker_get (gw_tracker g) (node_id n) \<le> tracker_get (gw_tracker g) (node_id m)"
      using n least by (auto simp: list_all_iff)
    from least_connections_any [OF this] n show ?thesis
      by (auto simp: select_locked_eq Let_def filter_empty_conv)
  qed
  show ?thesis
    using select_locked_cases [OF refl, of model exclude allowed owner rnd g] any
    by (auto simp: list_all_iff)
qed

theorem select_least_connections_witness:
  "let a = (blank_node ''a'' ''h:1'')\<lparr>node_status := HEALTHY\<rparr>;
       b = (blank_node ''b'' ''h:2'')\<lparr>node_status := HEALTHY\<rparr>;
       g = \<lparr>gw_registry = registry_add b (registry_add a empty_registry), gw_tracker = [(''a'', 2)],
            gw_breakers = \<lparr>cbr_threshold = 3, cbr_breakers = []\<rparr>, gw_failures = [],
            gw_metrics = \<lparr>rm_total = 0, rm_per_node = [], rm_per_model = []\<rparr>\<rparr>
   in (\<exists>rnd. select_locked None None None (Some []) rnd g = Inr (Some b))"
proof -
  let ?a = "(blank_node ''a'' ''h:1'')\<lparr>node_status := HEALTHY\<rparr>"
  let ?b = "(blank_node ''b'' ''h:2'')\<lparr>node_status := HEALTHY\<rparr>"
  let ?g = "\<lparr>gw_registry = registry_add ?b (registry_add ?a empty_registry), gw_tracker = [(''a'', 2)],
            gw_breakers = \<lparr>cbr_threshold = 3, cbr_breakers = []\<rparr>, gw_failures = [],
            gw_metrics = \<lparr>rm_total = 0, rm_per_node = [], rm_per_model = []\<rparr>\<rparr>"
  have all: "registry_get_all (gw_registry ?g) = [?a, ?b]"
    by (simp add: registry_get_all_def registry_add_def empty_registry_def blank_node_def)
  have "?b \<in> set (registry_get_all (gw_registry ?g)) \<and> eligible None None None (Some []) ?b \<and>
      list_all (\<lambda>m. eligible None None None (Some []) m
         \<longrightarrow> tracker_get (gw_tracker ?g) (node_id ?b) \<le> tracker_get (gw_tracker ?g) (node_id m))
        (registry_get_all (gw_registry ?g))"
    unfolding all
    by (simp add: eligible_def in_scope_def blank_node_def tracker_get_def dict_get_or_def)
  then have "\<exists>rnd. select_locked None None None (Some []) rnd ?g = Inr (Some ?b)"
    using select_least_connections [where model = None and exclude = None and allowed = None
        and owner = "Some []" and rnd = 0 and g = ?g] by blast
  then show ?thesis unfolding Let_def .
qed

section \<open>Isolation\<close>

lemma in_scope_iff:
  "in_scope n allowed owner \<longleftrightarrow>
     (\<forall>a. allowed = Some a \<longrightarrow> node_id n \<in> set a) \<and>
     (\<forall>own. owner = Some own \<longrightarrow> \<not> node_admin_only n \<and>
        (node_owner n = [] \<or> str_lower (node_owner n) = str_lower own))"
  by (cases allowed; cases owner) (auto simp: in_scope_def)

text \<open>
  Scope isolation at the router: whatever the retries exclude and whichever node is drawn, a
  caller with an owner gate (a user's address or the anonymous gate) is never given an
  admin-only node or a node another user owns, the anonymous gate is given unowned nodes only,
  and a pinned token never leaves its pin.
\<close>

lemma select_respects_scope:
  assumes "select_locked model exclude allowed owner rnd g = Inr (Some n)"
  shows "(\<forall>a. allowed = Some a \<longrightarrow> node_id n \<in> set a)
    \<and> (\<forall>own. owner = Some own \<longrightarrow> \<not> node_admin_only n \<and>
         (node_owner n = [] \<or> str_lower (node_owner n) = str_lower own))
    \<and> (owner = Some [] \<longrightarrow> node_owner n = [])"
proof -
  have "eligible model exclude allowed owner n"
    using select_locked_cases [OF assms] by auto
  then have "in_scope n allowed owner" by (simp add: eligible_def)
  then show ?thesis by (auto simp: in_scope_iff str_lower_def)
qed

end
