(* ===== verification/Reservations.thy ===== *)
theory Reservations
  imports Routing
begin

text \<open>
  Reservations over the shared gateway state: \<open>NodeReservation\<close> of \<^verbatim>\<open>routing/node_selector.py\<close> and
  the interleaving of every operation that changes the registry or the connection counts. A
  reservation object is an index into \<open>sys_resv\<close>, its entry the node it holds and whether it was
  released. \<open>routing_step\<close> is one atomic operation of any thread; \<open>forced_step\<close> adds the
  provisioner's unconditional removal of a node (\<open>cleanup_stale_node\<close>, \<open>remove_available\<close>).
\<close>

section \<open>State and steps\<close>

record routing_sys =
  sys_gw :: gateway
  sys_resv :: "(string \<times> bool) list"

definition outstanding :: "(string \<times> bool) list \<Rightarrow> string \<Rightarrow> int" where
  "outstanding rs i = int (length (filter (\<lambda>(k, released). k = i \<and> \<not> released) rs))"

definition reservation_release :: "nat \<Rightarrow> routing_sys \<Rightarrow> routing_sys" where
  "reservation_release j s =
     (case sys_resv s ! j of (i, released) \<Rightarrow>
        if released then s
        else s\<lparr>sys_resv := (sys_resv s)[j := (i, True)], sys_gw := selector_release i (sys_gw s)\<rparr>)"

definition cleanup_local :: "string \<Rightarrow> gateway \<Rightarrow> gateway" where
  "cleanup_local i g =
     (let g1 = gw_remove i g;
          g2 = g1\<lparr>gw_tracker := tracker_remove i (gw_tracker g1)\<rparr>
      in g2\<lparr>gw_breakers := cb_remove i (gw_breakers g2)\<rparr>)"

definition on_registry :: "(remove_listener registry \<Rightarrow> remove_listener registry) \<Rightarrow> routing_sys \<Rightarrow> routing_sys" where
  "on_registry f s = s\<lparr>sys_gw := (sys_gw s)\<lparr>gw_registry := f (gw_registry (sys_gw s))\<rparr>\<rparr>"

inductive routing_step :: "routing_sys \<Rightarrow> routing_sys \<Rightarrow> bool" where
  reserve: "select_and_reserve model exclude allowed owner rnd (sys_gw s) = Inr (Some (n, g')) \<Longrightarrow>
     routing_step s (s\<lparr>sys_gw := g', sys_resv := sys_resv s @ [(node_id n, False)]\<rparr>)"
| release: "j < length (sys_resv s) \<Longrightarrow> routing_step s (reservation_release j s)"
| register: "routing_step s (on_registry (registry_add n) s)"
| discover: "routing_step s (on_registry (add_discovered n) s)"
| drain: "routing_step s (on_registry (\<lambda>r. snd (registry_drain i r)) s)"
| status: "routing_step s (on_registry (\<lambda>r. snd (update_status i st fr r)) s)"
| snapshot: "routing_step s (on_registry (\<lambda>r. snd (reconcile_discovered nodes present r)) s)"
| sweep: "routing_step s (s\<lparr>sys_gw := snd (sweep_drained_nodes (sys_gw s))\<rparr>)"
| other: "gw_registry g' = gw_registry (sys_gw s) \<Longrightarrow> gw_tracker g' = gw_tracker (sys_gw s) \<Longrightarrow>
     routing_step s (s\<lparr>sys_gw := g'\<rparr>)"

inductive forced_step :: "routing_sys \<Rightarrow> routing_sys \<Rightarrow> bool" where
  ordinary: "routing_step s t \<Longrightarrow> forced_step s t"
| forced: "forced_step s (s\<lparr>sys_gw := cleanup_local i (sys_gw s)\<rparr>)"

inductive_cases forced_stepE: "forced_step s t"

definition routing_init :: "routing_sys \<Rightarrow> bool" where
  "routing_init s \<longleftrightarrow> reg_nodes (gw_registry (sys_gw s)) = [] \<and> gw_tracker (sys_gw s) = [] \<and> sys_resv s = []"

section \<open>Counting\<close>

lemma outstanding_simps [simp]:
  "outstanding [] i = 0"
  "outstanding (rs @ [(k, False)]) i = outstanding rs i + (if k = i then 1 else 0)"
  by (simp_all add: outstanding_def)

lemma outstanding_nonneg [simp]: "0 \<le> outstanding rs i"
  by (simp add: outstanding_def)

lemma outstanding_update:
  assumes "j < length rs" "rs ! j = (k, False)"
  shows "outstanding (rs[j := (k, True)]) i = outstanding rs i - (if i = k then 1 else 0)"
  using assms
proof (induction rs arbitrary: j)
  case (Cons p rs)
  then show ?case
    by (cases j) (auto simp: outstanding_def)
qed simp

lemma outstanding_pos:
  assumes "j < length rs" "rs ! j = (i, False)"
  shows "0 < outstanding rs i"
proof -
  have "(i, False) \<in> set (filter (\<lambda>(k, released). k = i \<and> \<not> released) rs)"
    using assms by (auto intro: nth_mem dest: nth_mem [of j rs])
  then have "filter (\<lambda>(k, released). k = i \<and> \<not> released) rs \<noteq> []" by (metis list.distinct(1) list.set_cases)
  then show ?thesis by (simp add: outstanding_def)
qed

lemma select_and_reserve_Some:
  assumes "select_and_reserve model exclude allowed owner rnd g = Inr (Some (n, g'))"
  shows "g' = g\<lparr>gw_tracker := tracker_increment (node_id n) (gw_tracker g)\<rparr> \<and>
    select_locked model exclude allowed owner rnd g = Inr (Some n)"
  using assms by (auto simp: select_and_reserve_def split: sum.splits option.splits)

lemma on_registry_simps [simp]:
  "gw_tracker (sys_gw (on_registry f s)) = gw_tracker (sys_gw s)"
  "sys_resv (on_registry f s) = sys_resv s"
  "gw_registry (sys_gw (on_registry f s)) = f (gw_registry (sys_gw s))"
  by (simp_all add: on_registry_def)

lemma sweep_frame [simp]:
  "tracker_get (gw_tracker (snd (sweep_drained_nodes g))) i = tracker_get (gw_tracker g) i"
  "registry_ok (gw_registry g) \<Longrightarrow> registry_ok (gw_registry (snd (sweep_drained_nodes g)))"
  by (simp_all add: sweep_drained_nodes_def)

lemma selector_release_tracker [simp]:
  "tracker_get (gw_tracker (selector_release k g)) i =
     (if i = k \<and> tracker_get (gw_tracker g) i > 0 then tracker_get (gw_tracker g) i - 1
      else tracker_get (gw_tracker g) i)"
  by (simp add: selector_release_def)

lemma selector_release_ok [simp]:
  "registry_ok (gw_registry g) \<Longrightarrow> registry_ok (gw_registry (selector_release k g))"
  by (simp add: selector_release_def)

lemma cleanup_local_simps [simp]:
  "tracker_get (gw_tracker (cleanup_local k g)) i = (if i = k then 0 else tracker_get (gw_tracker g) i)"
  "registry_ok (gw_registry g) \<Longrightarrow> registry_ok (gw_registry (cleanup_local k g))"
  "registry_get (gw_registry (cleanup_local k g)) i = (if i = k then None else registry_get (gw_registry g) i)"
  by (simp_all add: cleanup_local_def Let_def)

section \<open>Invariants\<close>

definition exact_inv :: "routing_sys \<Rightarrow> bool" where
  "exact_inv s \<longleftrightarrow> registry_ok (gw_registry (sys_gw s)) \<and>
     (\<forall>i. tracker_get (gw_tracker (sys_gw s)) i = outstanding (sys_resv s) i)"

definition bounded_inv :: "routing_sys \<Rightarrow> bool" where
  "bounded_inv s \<longleftrightarrow> registry_ok (gw_registry (sys_gw s)) \<and>
     (\<forall>i. 0 \<le> tracker_get (gw_tracker (sys_gw s)) i \<and>
          tracker_get (gw_tracker (sys_gw s)) i \<le> outstanding (sys_resv s) i)"

lemma reservation_release_exact:
  assumes "exact_inv s" "j < length (sys_resv s)"
  shows "exact_inv (reservation_release j s)"
proof -
  obtain k rel where kr: "sys_resv s ! j = (k, rel)" by fastforce
  show ?thesis
  proof (cases rel)
    case True
    with assms kr show ?thesis by (simp add: reservation_release_def)
  next
    case False
    with kr assms(2) have "0 < outstanding (sys_resv s) k" by (auto intro: outstanding_pos)
    with False kr assms show ?thesis
      by (auto simp: reservation_release_def exact_inv_def outstanding_update)
  qed
qed

lemma reservation_release_bounded:
  assumes "bounded_inv s" "j < length (sys_resv s)"
  shows "bounded_inv (reservation_release j s)"
proof -
  obtain k rel where kr: "sys_resv s ! j = (k, rel)" by fastforce
  show ?thesis
  proof (cases rel)
    case True
    with assms kr show ?thesis by (simp add: reservation_release_def)
  next
    case False
    with kr assms(2) have "0 < outstanding (sys_resv s) k" by (auto intro: outstanding_pos)
    then have "0 \<le> tracker_get (gw_tracker (sys_gw (reservation_release j s))) i \<and>
        tracker_get (gw_tracker (sys_gw (reservation_release j s))) i
          \<le> outstanding (sys_resv (reservation_release j s)) i" for i
      using assms(1) [unfolded bounded_inv_def, THEN conjunct2, THEN spec, of i] False kr assms(2)
      by (auto simp: reservation_release_def outstanding_update)
    moreover have "registry_ok (gw_registry (sys_gw (reservation_release j s)))"
      using assms(1) kr by (simp add: bounded_inv_def reservation_release_def)
    ultimately show ?thesis by (simp add: bounded_inv_def)
  qed
qed

lemma routing_step_exact: "routing_step s t \<Longrightarrow> exact_inv s \<Longrightarrow> exact_inv t"
proof (induction rule: routing_step.induct)
  case (reserve model exclude allowed owner rnd s n g')
  then show ?case by (auto dest!: select_and_reserve_Some simp: exact_inv_def)
next
  case (release j s)
  then show ?case by (simp add: reservation_release_exact)
qed (auto simp: exact_inv_def)

lemma routing_step_bounded: "routing_step s t \<Longrightarrow> bounded_inv s \<Longrightarrow> bounded_inv t"
proof (induction rule: routing_step.induct)
  case (reserve model exclude allowed owner rnd s n g')
  then show ?case by (auto dest!: select_and_reserve_Some simp: bounded_inv_def)
next
  case (release j s)
  then show ?case by (simp add: reservation_release_bounded)
qed (auto simp: bounded_inv_def)

lemma forced_step_bounded: "forced_step s t \<Longrightarrow> bounded_inv s \<Longrightarrow> bounded_inv t"
  by (erule forced_stepE) (auto simp: routing_step_bounded, auto simp: bounded_inv_def)

lemma routing_init_inv: "routing_init s \<Longrightarrow> exact_inv s \<and> bounded_inv s"
  by (simp add: routing_init_def exact_inv_def bounded_inv_def registry_ok_def)

interpretation exact_sys: invariant_system routing_init routing_step exact_inv
  by unfold_locales (auto simp: routing_init_inv routing_step_exact)

interpretation forced_sys: invariant_system routing_init forced_step bounded_inv
  by unfold_locales (auto simp: routing_init_inv forced_step_bounded)

section \<open>Properties\<close>

text \<open>
  C4. Connection accounting is exact: in every state reachable by any interleaving of selection,
  release, discovery, draining, status changes, snapshots and sweeps, a node's active-connection
  count equals the number of its reservations that have not been released.
\<close>

theorem counts_are_outstanding:
  assumes "reachable routing_init routing_step s"
  shows "tracker_get (gw_tracker (sys_gw s)) i = outstanding (sys_resv s) i"
  using exact_sys.reachable_inv [OF assms] by (simp add: exact_inv_def)

lemma sweep_drained_nodes_iff:
  assumes "registry_ok (gw_registry g)"
  shows "i \<in> set (fst (sweep_drained_nodes g)) \<longleftrightarrow>
    (\<exists>n. registry_get (gw_registry g) i = Some n \<and> node_status n = DRAINING) \<and>
    tracker_get (gw_tracker g) i = 0"
  using assms registry_ok_get [OF assms]
  by (auto simp: sweep_drained_nodes_def sweep_nodes_removed get_all_iff)

definition idle_gateway :: "(string, node) dict \<Rightarrow> gateway" where
  "idle_gateway nodes =
     \<lparr>gw_registry = \<lparr>reg_nodes = nodes, reg_listeners = [BreakerListener, FailureListener]\<rparr>,
      gw_tracker = [], gw_breakers = \<lparr>cbr_threshold = 3, cbr_breakers = []\<rparr>, gw_failures = [],
      gw_metrics = \<lparr>rm_total = 0, rm_per_node = [], rm_per_model = []\<rparr>\<rparr>"

text \<open>A run used by the witnesses: one healthy node, one reservation on it, then a drain.\<close>

definition example_node :: node where
  "example_node = (blank_node ''a'' ''h:1'')\<lparr>node_status := HEALTHY\<rparr>"

definition example_reserved :: routing_sys where
  "example_reserved =
     \<lparr>sys_gw = (idle_gateway [(''a'', example_node)])\<lparr>gw_tracker := [(''a'', 1)]\<rparr>,
      sys_resv = [(''a'', False)]\<rparr>"

definition example_draining :: routing_sys where
  "example_draining = on_registry (\<lambda>r. snd (registry_drain ''a'' r)) example_reserved"

lemma example_reserved_reachable: "reachable routing_init routing_step example_reserved"
proof -
  let ?s0 = "\<lparr>sys_gw = idle_gateway [], sys_resv = []\<rparr>"
  have "reachable routing_init routing_step ?s0"
    by (rule reach_init) (simp add: routing_init_def idle_gateway_def)
  then have 1: "reachable routing_init routing_step (on_registry (registry_add example_node) ?s0)"
    by (rule reach_step) (rule routing_step.register)
  let ?s1 = "on_registry (registry_add example_node) ?s0"
  have "select_and_reserve None None None None 0 (sys_gw ?s1) =
      Inr (Some (example_node, (sys_gw ?s1)\<lparr>gw_tracker := tracker_increment ''a'' (gw_tracker (sys_gw ?s1))\<rparr>))"
    by (simp add: select_and_reserve_def select_locked_def on_registry_def idle_gateway_def
        registry_add_def registry_get_all_def least_connections_def example_node_def blank_node_def)
  from reach_step [OF 1 routing_step.reserve [OF this]] show ?thesis
    by (simp add: example_reserved_def on_registry_def idle_gateway_def registry_add_def
        tracker_increment_def example_node_def blank_node_def)
qed

lemma example_draining_reachable: "reachable routing_init routing_step example_draining"
  unfolding example_draining_def
  by (rule reach_step [OF example_reserved_reachable]) (rule routing_step.drain)

theorem counts_are_outstanding_witness:
  "tracker_get (gw_tracker (sys_gw example_draining)) ''a'' = outstanding (sys_resv example_draining) ''a''"
  by (rule counts_are_outstanding [OF example_draining_reachable])

text \<open>
  Drain safety: in every reachable state a sweep, from a finished request or from the health
  cycle, removes exactly the registered DRAINING nodes with no unreleased reservation, so no
  node disappears under an in-flight request and no drained idle node is left behind.
\<close>

theorem sweep_never_removes_reserved:
  assumes "reachable routing_init routing_step s"
  shows "i \<in> set (fst (sweep_drained_nodes (sys_gw s))) \<longleftrightarrow>
    (\<exists>n. registry_get (gw_registry (sys_gw s)) i = Some n \<and> node_status n = DRAINING) \<and>
    outstanding (sys_resv s) i = 0"
proof -
  have inv: "exact_inv s" by (rule exact_sys.reachable_inv [OF assms])
  then show ?thesis by (simp add: exact_inv_def sweep_drained_nodes_iff)
qed

theorem sweep_never_removes_reserved_witness:
  "''a'' \<notin> set (fst (sweep_drained_nodes (sys_gw example_draining)))"
  using sweep_never_removes_reserved [OF example_draining_reachable, of "''a''"]
  by (simp add: example_draining_def example_reserved_def outstanding_def on_registry_def)

text \<open>
  The last release finishes a drain: releasing the only outstanding reservation of a DRAINING
  node removes the node from the registry in the same atomic step, releasing twice is the same
  as releasing once, and a release never removes a node that still serves another request.
\<close>

theorem last_release_completes_drain:
  assumes "reachable routing_init routing_step s"
    and "j < length (sys_resv s)" and "sys_resv s ! j = (i, False)"
    and "registry_get (gw_registry (sys_gw s)) i = Some n" and "node_status n = DRAINING"
  shows "registry_get (gw_registry (sys_gw (reservation_release j s))) i =
      (if outstanding (sys_resv s) i = 1 then None else Some n)
    \<and> reservation_release j (reservation_release j s) = reservation_release j s"
proof -
  have inv: "exact_inv s" by (rule exact_sys.reachable_inv [OF assms(1)])
  let ?g = "(sys_gw s)\<lparr>gw_tracker := tracker_decrement i (gw_tracker (sys_gw s))\<rparr>"
  have ok: "registry_ok (gw_registry ?g)" using inv by (simp add: exact_inv_def)
  have pos: "0 < outstanding (sys_resv s) i" using assms(2,3) by (rule outstanding_pos)
  have "i \<in> set (fst (sweep_drained_nodes ?g)) \<longleftrightarrow> outstanding (sys_resv s) i = 1"
    using inv pos assms(4,5) by (simp add: sweep_drained_nodes_iff [OF ok] exact_inv_def)
  then have "registry_get (gw_registry (snd (sweep_drained_nodes ?g))) i =
      (if outstanding (sys_resv s) i = 1 then None else Some n)"
    using assms(4) by (simp add: sweep_drained_nodes_def sweep_nodes_get)
  then show ?thesis
    using assms(2,3) by (simp add: reservation_release_def selector_release_def)
qed

theorem last_release_completes_drain_witness:
  "registry_get (gw_registry (sys_gw (reservation_release 0 example_draining))) ''a'' = None"
proof -
  have h: "0 < length (sys_resv example_draining)" "sys_resv example_draining ! 0 = (''a'', False)"
    "registry_get (gw_registry (sys_gw example_draining)) ''a'' = Some (example_node\<lparr>node_status := DRAINING\<rparr>)"
    "node_status (example_node\<lparr>node_status := DRAINING\<rparr>) = DRAINING"
    "outstanding (sys_resv example_draining) ''a'' = 1"
    by (simp_all add: example_draining_def example_reserved_def idle_gateway_def registry_get_def outstanding_def on_registry_def
        registry_drain_def)
  show ?thesis
    using last_release_completes_drain [OF example_draining_reachable h(1-4)] h(5) by simp
qed

text \<open>
  Even when the provisioner forcibly removes nodes that still carry requests, no count ever
  becomes negative or exceeds the number of unreleased reservations, and the registry stays
  well formed: keys unique, every entry under its own node id.
\<close>

theorem counts_bounded_under_forced_removal:
  assumes "reachable routing_init forced_step s"
  shows "0 \<le> tracker_get (gw_tracker (sys_gw s)) i
    \<and> tracker_get (gw_tracker (sys_gw s)) i \<le> outstanding (sys_resv s) i
    \<and> registry_ok (gw_registry (sys_gw s))"
  using forced_sys.reachable_inv [OF assms] by (simp add: bounded_inv_def)

theorem counts_bounded_under_forced_removal_witness:
  "let s = \<lparr>sys_gw = idle_gateway [], sys_resv = []\<rparr>\<lparr>sys_gw := cleanup_local ''a'' (idle_gateway [])\<rparr>
   in reachable routing_init forced_step s \<and> 0 \<le> tracker_get (gw_tracker (sys_gw s)) ''a''"
proof -
  let ?s0 = "\<lparr>sys_gw = idle_gateway [], sys_resv = []\<rparr>"
  have "reachable routing_init forced_step ?s0"
    by (rule reach_init) (simp add: routing_init_def idle_gateway_def)
  then have r: "reachable routing_init forced_step (?s0\<lparr>sys_gw := cleanup_local ''a'' (sys_gw ?s0)\<rparr>)"
    by (rule reach_step) (rule forced_step.forced)
  show ?thesis unfolding Let_def using r counts_bounded_under_forced_removal [OF r] by simp
qed

end
