(* ===== verification/PyText.thy ===== *)
theory PyText
  imports QiipPrelude
begin

text \<open>
  Text and JSON as the standard library handles them: UTF-8, cutting a text to a number of bytes, character classes,
  \<open>str.join\<close>, the truth value of a decoded document and \<open>json.dumps\<close>. Bytes and text are both \<open>string\<close>.
\<close>

section \<open>Characters\<close>

abbreviation byte :: "char \<Rightarrow> nat" where
  "byte c \<equiv> of_char c"

abbreviation is_digit :: "char \<Rightarrow> bool" where
  "is_digit c \<equiv> 48 \<le> byte c \<and> byte c \<le> 57"

definition is_letter :: "char \<Rightarrow> bool" where
  "is_letter c \<longleftrightarrow> 65 \<le> byte c \<and> byte c \<le> 90 \<or> 97 \<le> byte c \<and> byte c \<le> 122"

text \<open>\<open>\w\<close> of a regular expression on text: letters, digits and the underscore, with the letters and numerals above ASCII.\<close>

definition is_word :: "char \<Rightarrow> bool" where
  "is_word c \<longleftrightarrow> is_letter c \<or> is_digit c \<or> c = CHR ''_'' \<or> byte c \<in> {170, 178, 179, 181, 185, 186, 188, 189, 190} \<or>
     192 \<le> byte c \<and> byte c \<noteq> 215 \<and> byte c \<noteq> 247"

definition digits_value :: "string \<Rightarrow> int" where
  "digits_value s = foldl (\<lambda>n c. 10 * n + (of_char c - 48)) 0 s"

definition str_isdigit :: "string \<Rightarrow> bool" where
  "str_isdigit s \<longleftrightarrow> s \<noteq> [] \<and> list_all is_digit s"

fun str_join :: "string \<Rightarrow> string list \<Rightarrow> string" where
  "str_join sep [] = []"
| "str_join sep [x] = x"
| "str_join sep (x # xs) = x @ sep @ str_join sep xs"

lemma byte_less: "byte c < 256"
  using nat_of_char_less_256 [of c] by simp

section \<open>UTF-8\<close>

text \<open>\<open>str.encode("utf-8")\<close> on code points below 256.\<close>

definition utf8_encode :: "string \<Rightarrow> string" where
  "utf8_encode s = concat (map (\<lambda>c. if byte c < 128 then [c]
     else [char_of (192 + byte c div 64), char_of (128 + byte c mod 64)]) s)"

text \<open>\<open>bytes.decode("utf-8")\<close> onto code points below 256; \<open>None\<close> is \<open>UnicodeDecodeError\<close>. Keys with
  larger code points are outside the modelled alphabet and count as undecodable.\<close>

fun utf8_decode :: "string \<Rightarrow> string option" where
  "utf8_decode [] = Some []"
| "utf8_decode (c # cs) =
     (if byte c < 128 then map_option ((#) c) (utf8_decode cs)
      else if byte c \<in> {194, 195} then
        (case cs of
           d # ds \<Rightarrow> if 128 \<le> byte d \<and> byte d < 192
                      then map_option ((#) (char_of ((byte c - 192) * 64 + (byte d - 128)))) (utf8_decode ds)
                      else None
         | [] \<Rightarrow> None)
      else None)"

text \<open>\<open>bytes.decode("utf-8", errors="ignore")\<close>: what is not a code point is left out.\<close>

fun utf8_decode_ignore :: "string \<Rightarrow> string" where
  "utf8_decode_ignore [] = []"
| "utf8_decode_ignore (c # cs) =
     (if byte c < 128 then c # utf8_decode_ignore cs
      else if byte c \<in> {194, 195} then
        (case cs of
           d # ds \<Rightarrow> if 128 \<le> byte d \<and> byte d < 192
                      then char_of ((byte c - 192) * 64 + (byte d - 128)) # utf8_decode_ignore ds
                      else utf8_decode_ignore cs
         | [] \<Rightarrow> [])
      else utf8_decode_ignore cs)"

definition TRUNCATION_MARKER :: string where
  "TRUNCATION_MARKER = '' ... [truncated]''"

text \<open>A text of more than \<open>limit\<close> bytes keeps a prefix of it and ends with the marker.\<close>

definition clip_text :: "int \<Rightarrow> string \<Rightarrow> string" where
  "clip_text limit s =
     (let encoded = utf8_encode s
      in if int (length encoded) \<le> limit then s
         else utf8_decode_ignore (py_slice_to (limit - int (length TRUNCATION_MARKER)) encoded) @ TRUNCATION_MARKER)"

lemma utf8_encode_Nil [simp]: "utf8_encode [] = []"
  by (simp add: utf8_encode_def)

lemma utf8_encode_append: "utf8_encode (s @ t) = utf8_encode s @ utf8_encode t"
  by (simp add: utf8_encode_def)

lemma utf8_encode_Cons:
  "utf8_encode (c # s) = (if byte c < 128 then [c] else [char_of (192 + byte c div 64), char_of (128 + byte c mod 64)]) @ utf8_encode s"
  by (simp add: utf8_encode_def)

lemma utf8_pair:
  assumes "\<not> byte c < 128"
  obtains a b where "\<And>s. utf8_encode (c # s) = a # b # utf8_encode s" "byte a \<in> {194, 195}" "128 \<le> byte b" "byte b < 192"
    "char_of ((byte a - 192) * 64 + (byte b - 128)) = c"
proof -
  let ?a = "char_of (192 + byte c div 64) :: char" and ?b = "char_of (128 + byte c mod 64) :: char"
  have "2 \<le> byte c div 64" "byte c div 64 < 4"
    using assms byte_less [of c] by (simp_all add: less_eq_div_iff_mult_less_eq div_less_iff_less_mult)
  then have a: "byte ?a = 192 + byte c div 64" "byte ?a \<in> {194, 195}" by (auto simp: of_char_of)
  have b: "byte ?b = 128 + byte c mod 64" by (simp add: of_char_of)
  have "byte c div 64 * 64 + byte c mod 64 = byte c" by simp
  then have "char_of ((byte ?a - 192) * 64 + (byte ?b - 128)) = c" using a(1) b by simp
  moreover have "utf8_encode (c # s) = ?a # ?b # utf8_encode s" for s using assms by (simp add: utf8_encode_Cons)
  ultimately show thesis using that a(2) b by simp
qed

lemma utf8_roundtrip [simp]: "utf8_decode (utf8_encode s) = Some s"
proof (induction s)
  case (Cons c s)
  show ?case
  proof (cases "byte c < 128")
    case False
    from utf8_pair [OF False] obtain a b where "\<And>s. utf8_encode (c # s) = a # b # utf8_encode s" "byte a \<in> {194, 195}"
      "128 \<le> byte b" "byte b < 192" "char_of ((byte a - 192) * 64 + (byte b - 128)) = c" by metis
    then show ?thesis using Cons by auto
  qed (use Cons in \<open>simp add: utf8_encode_Cons\<close>)
qed simp

text \<open>Cutting an encoded text anywhere and decoding what is left gives a prefix of the text.\<close>

lemma utf8_decode_take: "\<exists>t. s = utf8_decode_ignore (take n (utf8_encode s)) @ t"
proof (induction s arbitrary: n)
  case (Cons c s)
  show ?case
  proof (cases "byte c < 128")
    case True
    then show ?thesis using Cons.IH [of "n - 1"] by (cases n) (auto simp: utf8_encode_Cons)
  next
    case False
    from utf8_pair [OF False] obtain a b where ab: "\<And>s. utf8_encode (c # s) = a # b # utf8_encode s" "byte a \<in> {194, 195}"
      "128 \<le> byte b" "byte b < 192" "char_of ((byte a - 192) * 64 + (byte b - 128)) = c" by metis
    consider "n = 0" | "n = 1" | m where "n = Suc (Suc m)" by (metis One_nat_def old.nat.exhaust)
    then show ?thesis
    proof cases
      case 3
      then show ?thesis using Cons.IH [of m] ab by auto
    qed (use ab in auto)
  qed
qed simp

lemma utf8_decode_ignore_length: "length (utf8_encode (utf8_decode_ignore bs)) \<le> length bs"
proof (induction bs rule: utf8_decode_ignore.induct)
  case (2 c cs)
  show ?case
  proof (cases "byte c < 128 \<or> byte c \<notin> {194, 195} \<or> cs = []")
    case True
    then show ?thesis using 2 by (auto simp: utf8_encode_Cons)
  next
    case False
    then obtain d ds where cs: "cs = d # ds" by (cases cs) auto
    show ?thesis
    proof (cases "128 \<le> byte d \<and> byte d < 192")
      case True
      let ?x = "char_of ((byte c - 192) * 64 + (byte d - 128)) :: char"
      have "length (utf8_encode (?x # utf8_decode_ignore ds)) \<le> 2 + length (utf8_encode (utf8_decode_ignore ds))"
        by (simp add: utf8_encode_Cons)
      moreover have "length (utf8_encode (utf8_decode_ignore ds)) \<le> length ds" using 2 True False cs by blast
      ultimately show ?thesis using True False cs by simp
    qed (use 2 False cs in auto)
  qed
qed simp

lemma marker_length: "length (utf8_encode TRUNCATION_MARKER) = 16" "length TRUNCATION_MARKER = 16"
  by (simp_all add: TRUNCATION_MARKER_def utf8_encode_def)

lemma clip_text_length: "16 \<le> limit \<Longrightarrow> int (length (utf8_encode (clip_text limit s))) \<le> limit"
  using utf8_decode_ignore_length [of "take (nat (limit - 16)) (utf8_encode s)"]
  by (auto simp: clip_text_def Let_def marker_length py_slice_to_def utf8_encode_append)

section \<open>JSON\<close>

abbreviation obj_get :: "(string \<times> json) list \<Rightarrow> string \<Rightarrow> json \<Rightarrow> json" where
  "obj_get o' k d \<equiv> dict_get_or o' k d"

fun json_truthy :: "json \<Rightarrow> bool" where
  "json_truthy JNull = False"
| "json_truthy (JBool b) = b"
| "json_truthy (JInt n) = (n \<noteq> 0)"
| "json_truthy (JFloat q) = (q \<noteq> 0)"
| "json_truthy (JStr s) = (s \<noteq> [])"
| "json_truthy (JList xs) = (xs \<noteq> [])"
| "json_truthy (JObj kvs) = (kvs \<noteq> [])"

definition hex_digit :: "nat \<Rightarrow> char" where
  "hex_digit n = ''0123456789abcdef'' ! n"

definition json_escape :: "char \<Rightarrow> string" where
  "json_escape c =
     (if c = CHR 0x22 then [CHR 0x5C, CHR 0x22]
      else if c = CHR 0x5C then [CHR 0x5C, CHR 0x5C]
      else if byte c = 10 then [CHR 0x5C, CHR ''n'']
      else if byte c = 13 then [CHR 0x5C, CHR ''r'']
      else if byte c = 9 then [CHR 0x5C, CHR ''t'']
      else if byte c = 8 then [CHR 0x5C, CHR ''b'']
      else if byte c = 12 then [CHR 0x5C, CHR ''f'']
      else if byte c < 32 then [CHR 0x5C] @ ''u00'' @ [hex_digit (byte c div 16), hex_digit (byte c mod 16)]
      else [c])"

definition json_quote :: "string \<Rightarrow> string" where
  "json_quote s = [CHR 0x22] @ concat (map json_escape s) @ [CHR 0x22]"

text \<open>\<open>json.dumps(document, ensure_ascii=False)\<close>; \<open>repr\<close> of a float is the first argument.\<close>

fun json_dumps :: "(rat \<Rightarrow> string) \<Rightarrow> json \<Rightarrow> string" where
  "json_dumps fr JNull = ''null''"
| "json_dumps fr (JBool b) = (if b then ''true'' else ''false'')"
| "json_dumps fr (JInt n) = str_int n"
| "json_dumps fr (JFloat q) = fr q"
| "json_dumps fr (JStr s) = json_quote s"
| "json_dumps fr (JList xs) = ''['' @ str_join '', '' (map (json_dumps fr) xs) @ '']''"
| "json_dumps fr (JObj kvs) = ''{'' @ str_join '', '' (map (\<lambda>kv. json_quote (fst kv) @ '': '' @ json_dumps fr (snd kv)) kvs) @ ''}''"

end
