(* ===== verification/EtcdClient.thy ===== *)
theory EtcdClient
  imports PyText
begin

text \<open>
  \<^verbatim>\<open>discovery/etcd_client.py\<close>: the base64 and revision codecs of the etcd JSON gateway, the prefix
  range, the parsers of range and watch responses, and the request each client method sends. The
  gateway library \<^verbatim>\<open>etcd3gw\<close> and the etcd service behind it are not part of the repository: they are
  the record \<open>etcd_api\<close> of functions, an argument of every method, acting on a service state \<open>'e\<close>.
  Lines of a watch stream enter
  after \<open>json.loads\<close>, as \<open>watch_line\<close> values.
\<close>

section \<open>Errors and records\<close>

datatype etcd_error =
    EtcdProtocolError string
  | WatchCompactedError int json
  | WatchCanceledError json
  | WatchReadTimeoutError
  | TransportError
  | AttributeError
  | TypeError
  | EndpointValidationError

record EtcdRecord =
  er_key :: string
  er_value :: string
  er_mod_revision :: int
  er_lease_id :: int

record EtcdSnapshot =
  es_records :: "EtcdRecord list"
  es_revision :: int

record EtcdEvent =
  ee_key :: string
  ee_value :: "string option"
  ee_mod_revision :: int
  ee_is_delete :: bool
  ee_lease_id :: int

record EtcdWatchBatch =
  ew_events :: "EtcdEvent list"
  ew_revision :: int

text \<open>\<open>json.loads\<close> (\<open>None\<close>: it raises) and \<open>json.dumps\<close>, as used on record values.\<close>

record json_codec =
  jc_loads :: "string \<Rightarrow> json option"
  jc_dumps :: "json \<Rightarrow> string"

section \<open>Codecs\<close>

definition b64_alphabet :: string where
  "b64_alphabet = ''ABCDEFGHIJKLMNOPQRSTUVWXYZabcdefghijklmnopqrstuvwxyz0123456789+/''"

definition b64_char :: "nat \<Rightarrow> char" where
  "b64_char n = b64_alphabet ! n"

definition b64_value :: "char \<Rightarrow> nat option" where
  "b64_value c = map_of (zip b64_alphabet [0..<64]) c"

text \<open>\<open>base64.b64encode\<close>.\<close>

fun b64encode :: "string \<Rightarrow> string" where
  "b64encode [] = []"
| "b64encode [a] = [b64_char (byte a div 4), b64_char (byte a mod 4 * 16), CHR ''='', CHR ''='']"
| "b64encode [a, b] =
     [b64_char (byte a div 4), b64_char (byte a mod 4 * 16 + byte b div 16),
      b64_char (byte b mod 16 * 4), CHR ''='']"
| "b64encode (a # b # c # cs) =
     b64_char (byte a div 4) # b64_char (byte a mod 4 * 16 + byte b div 16)
     # b64_char (byte b mod 16 * 4 + byte c div 64) # b64_char (byte c mod 64) # b64encode cs"

text \<open>\<open>base64.b64decode(..., validate=True)\<close>: strict mode, padding only at the very end.\<close>

fun b64decode :: "string \<Rightarrow> string option" where
  "b64decode [] = Some []"
| "b64decode (w # x # y # z # cs) =
     (case (b64_value w, b64_value x) of
        (Some i, Some j) \<Rightarrow>
          if y = CHR ''='' then
            (if z = CHR ''='' \<and> cs = [] then Some [char_of (i * 4 + j div 16)] else None)
          else (case b64_value y of
                  None \<Rightarrow> None
                | Some k \<Rightarrow>
                    if z = CHR ''='' then
                      (if cs = [] then Some [char_of (i * 4 + j div 16), char_of (j mod 16 * 16 + k div 4)] else None)
                    else (case (b64_value z, b64decode cs) of
                            (Some l, Some rest) \<Rightarrow>
                              Some (char_of (i * 4 + j div 16) # char_of (j mod 16 * 16 + k div 4)
                                    # char_of (k mod 4 * 64 + l) # rest)
                          | _ \<Rightarrow> None))
      | _ \<Rightarrow> None)"
| "b64decode _ = None"

definition etcd_encode :: "string \<Rightarrow> string" where
  "etcd_encode value = b64encode value"

definition etcd_decode :: "json \<Rightarrow> string \<Rightarrow> etcd_error + string" where
  "etcd_decode value field =
     (case value of
        JStr s \<Rightarrow> (case b64decode s of
                    Some b \<Rightarrow> Inr b
                  | None \<Rightarrow> Inl (EtcdProtocolError (field @ '' is not valid base64'')))
      | _ \<Rightarrow> Inl (EtcdProtocolError (field @ '' must be a base64 string'')))"

text \<open>\<open>int(str)\<close>: surrounding whitespace, a sign, digits with single underscores between them, at
  most 4300 digits.\<close>

definition digit_value :: "char \<Rightarrow> int option" where
  "digit_value c = (if 48 \<le> byte c \<and> byte c \<le> 57 then Some (int (byte c) - 48) else None)"

fun int_digits :: "int \<Rightarrow> string \<Rightarrow> int option" where
  "int_digits acc [] = Some acc"
| "int_digits acc (c # cs) =
     (case digit_value c of
        Some d \<Rightarrow> int_digits (acc * 10 + d) cs
      | None \<Rightarrow>
          if c = CHR ''_'' then
            (case cs of
               [] \<Rightarrow> None
             | c' # cs' \<Rightarrow> (case digit_value c' of Some d \<Rightarrow> int_digits (acc * 10 + d) cs' | None \<Rightarrow> None))
          else None)"

definition unsigned_int :: "string \<Rightarrow> int option" where
  "unsigned_int s =
     (case s of [] \<Rightarrow> None
      | c # cs \<Rightarrow> (case digit_value c of
                    None \<Rightarrow> None
                  | Some d \<Rightarrow> if length (filter (\<lambda>c. digit_value c \<noteq> None) s) > 4300 then None
                              else int_digits d cs))"

definition py_int :: "string \<Rightarrow> int option" where
  "py_int s =
     (case str_strip s of
        [] \<Rightarrow> None
      | c # cs \<Rightarrow> if c = CHR ''-'' then map_option uminus (unsigned_int cs)
                   else if c = CHR ''+'' then unsigned_int cs else unsigned_int (c # cs))"

definition etcd_revision :: "json \<Rightarrow> string \<Rightarrow> etcd_error + int" where
  "etcd_revision value field =
     (let bad = Inl (EtcdProtocolError (field @ '' must be an integer''))
      in case (case value of JInt n \<Rightarrow> Some n | JStr s \<Rightarrow> py_int s | _ \<Rightarrow> None) of
           None \<Rightarrow> bad
         | Some n \<Rightarrow> if n < 0 then Inl (EtcdProtocolError (field @ '' must not be negative'')) else Inr n)"

text \<open>The loop of \<open>_prefix_range_end\<close> walks the index down; here the prefix is reversed.\<close>

fun range_end_rev :: "string \<Rightarrow> string option" where
  "range_end_rev [] = None"
| "range_end_rev (c # cs) =
     (if byte c < 255 then Some (char_of (byte c + 1) # cs) else range_end_rev cs)"

definition prefix_range_end :: "string \<Rightarrow> string" where
  "prefix_range_end p = (case range_end_rev (rev p) of Some q \<Rightarrow> rev q | None \<Rightarrow> [CHR 0x00])"

section \<open>Response parsers\<close>

definition header_revision :: "(string \<times> json) list \<Rightarrow> string \<Rightarrow> etcd_error + int" where
  "header_revision response context =
     (case obj_get response ''header'' JNull of
        JObj header \<Rightarrow> etcd_revision (obj_get header ''revision'' JNull) (context @ '' header.revision'')
      | _ \<Rightarrow> Inl (EtcdProtocolError (context @ '' response is missing header'')))"

definition parse_kv ::
  "json \<Rightarrow> string \<Rightarrow> bool \<Rightarrow> etcd_error + (string \<times> string option \<times> int \<times> int)" where
  "parse_kv raw_kv context value_required =
     (case raw_kv of
        JObj kv \<Rightarrow>
          (case (if value_required
                 then map_sum id Some (etcd_decode (obj_get kv ''value'' (JStr [])) (context @ '' kv.value''))
                 else Inr None) of
             Inl e \<Rightarrow> Inl e
           | Inr value \<Rightarrow>
          (case etcd_decode (obj_get kv ''key'' JNull) (context @ '' kv.key'') of
             Inl e \<Rightarrow> Inl e
           | Inr key \<Rightarrow>
          (case etcd_revision (obj_get kv ''mod_revision'' JNull) (context @ '' kv.mod_revision'') of
             Inl e \<Rightarrow> Inl e
           | Inr m \<Rightarrow>
          (case etcd_revision (obj_get kv ''lease'' (JInt 0)) (context @ '' kv.lease'') of
             Inl e \<Rightarrow> Inl e
           | Inr lease \<Rightarrow> Inr (key, value, m, lease)))))
      | _ \<Rightarrow> Inl (EtcdProtocolError (context @ '' kv must be an object'')))"

text \<open>Sequencing for loops that parse a list and stop at the first error.\<close>

fun traverse :: "('a \<Rightarrow> 'e + 'b) \<Rightarrow> 'a list \<Rightarrow> 'e + 'b list" where
  "traverse f [] = Inr []"
| "traverse f (x # xs) =
     (case f x of Inl e \<Rightarrow> Inl e
      | Inr y \<Rightarrow> (case traverse f xs of Inl e \<Rightarrow> Inl e | Inr ys \<Rightarrow> Inr (y # ys)))"

definition record_of_range :: "json \<Rightarrow> etcd_error + EtcdRecord" where
  "record_of_range raw =
     (case parse_kv raw ''range'' True of
        Inl e \<Rightarrow> Inl e
      | Inr (_, None, _, _) \<Rightarrow> Inl (EtcdProtocolError ''range kv is missing value'')
      | Inr (k, Some v, m, l) \<Rightarrow> Inr \<lparr>er_key = k, er_value = v, er_mod_revision = m, er_lease_id = l\<rparr>)"

definition parse_get_record :: "string \<Rightarrow> json \<Rightarrow> etcd_error + EtcdRecord option" where
  "parse_get_record raw_key response =
     (case response of
        JObj r \<Rightarrow>
          (case obj_get r ''kvs'' (JList []) of
             JList [] \<Rightarrow> Inr None
           | JList [raw] \<Rightarrow>
               (case parse_kv raw ''range'' True of
                  Inl e \<Rightarrow> Inl e
                | Inr (k, v, m, l) \<Rightarrow>
                    if k \<noteq> raw_key \<or> v = None
                    then Inl (EtcdProtocolError ''exact range returned an unexpected key'')
                    else Inr (Some \<lparr>er_key = k, er_value = the v, er_mod_revision = m, er_lease_id = l\<rparr>))
           | JList _ \<Rightarrow> Inl (EtcdProtocolError ''exact range returned multiple keys'')
           | _ \<Rightarrow> Inl (EtcdProtocolError ''range kvs must be a list''))
      | _ \<Rightarrow> Inl (EtcdProtocolError ''range response must be an object''))"

definition parse_snapshot :: "json \<Rightarrow> etcd_error + EtcdSnapshot" where
  "parse_snapshot response =
     (case response of
        JObj r \<Rightarrow>
          (case header_revision r ''range'' of
             Inl e \<Rightarrow> Inl e
           | Inr revision \<Rightarrow>
               (case obj_get r ''kvs'' (JList []) of
                  JList raws \<Rightarrow>
                    (case traverse record_of_range raws of
                       Inl e \<Rightarrow> Inl e
                     | Inr records \<Rightarrow>
                         if list_ex (\<lambda>x. er_mod_revision x > revision) records
                         then Inl (EtcdProtocolError ''range kv revision exceeds snapshot revision'')
                         else Inr \<lparr>es_records = records, es_revision = revision\<rparr>)
                | _ \<Rightarrow> Inl (EtcdProtocolError ''range kvs must be a list'')))
      | _ \<Rightarrow> Inl (EtcdProtocolError ''range response must be an object''))"

section \<open>The watch stream\<close>

text \<open>What \<open>next(lines)\<close> and \<open>json.loads\<close> give for one line of the stream.\<close>

datatype watch_line =
    StopLines | ReadTimeout | ConnectionTimedOut | ConnectionLost | BlankLine | UndecodableLine
  | JsonLine json

definition parse_event :: "json \<Rightarrow> etcd_error + EtcdEvent" where
  "parse_event raw =
     (case raw of
        JObj ev \<Rightarrow>
          (let is_delete = (obj_get ev ''type'' (JStr ''PUT'') = JStr ''DELETE'')
           in case parse_kv (obj_get ev ''kv'' JNull) ''watch'' (\<not> is_delete) of
                Inl e \<Rightarrow> Inl e
              | Inr (k, v, m, l) \<Rightarrow>
                  Inr \<lparr>ee_key = k, ee_value = v, ee_mod_revision = m, ee_is_delete = is_delete, ee_lease_id = l\<rparr>)
      | _ \<Rightarrow> Inl (EtcdProtocolError ''watch event must be an object''))"

text \<open>One decoded envelope: an error, nothing to yield (\<open>None\<close>), or a batch.\<close>

definition watch_envelope :: "json \<Rightarrow> etcd_error + EtcdWatchBatch option" where
  "watch_envelope envelope =
     (case envelope of
        JObj env \<Rightarrow>
          (case obj_get env ''result'' JNull of
             JObj result \<Rightarrow>
               if json_truthy (obj_get result ''canceled'' JNull) then
                 (case etcd_revision (obj_get result ''compact_revision'' (JInt 0)) ''watch compact_revision'' of
                    Inl e \<Rightarrow> Inl e
                  | Inr crev \<Rightarrow>
                      (let reason = obj_get result ''cancel_reason'' (JStr [])
                       in if crev \<noteq> 0 then Inl (WatchCompactedError crev reason)
                          else Inl (WatchCanceledError
                                 (if reason = JStr [] then JStr ''etcd watch canceled'' else reason))))
               else if dict_get result ''created'' \<noteq> None then
                 (if dict_get result ''created'' = Some (JBool True) then Inr None
                  else Inl (WatchCanceledError (JStr ''etcd could not create watch'')))
               else
                 (case header_revision result ''watch'' of
                    Inl e \<Rightarrow> Inl e
                  | Inr revision \<Rightarrow>
                      (case obj_get result ''events'' (JList []) of
                         JList raws \<Rightarrow>
                           (case traverse parse_event raws of
                              Inl e \<Rightarrow> Inl e
                            | Inr events \<Rightarrow>
                                if list_ex (\<lambda>x. ee_mod_revision x > revision) events
                                then Inl (EtcdProtocolError ''watch event revision exceeds response revision'')
                                else Inr (Some \<lparr>ew_events = events, ew_revision = revision\<rparr>))
                       | _ \<Rightarrow> Inl (EtcdProtocolError ''watch events must be a list'')))
           | _ \<Rightarrow> Inl (EtcdProtocolError ''watch response is missing result''))
      | _ \<Rightarrow> Inl (EtcdProtocolError ''watch response is missing result''))"

text \<open>The generator: the batches it yields and how it ends (\<open>None\<close>: the stream ended).\<close>

fun watch_iter :: "watch_line list \<Rightarrow> EtcdWatchBatch list \<times> etcd_error option" where
  "watch_iter [] = ([], None)"
| "watch_iter (l # ls) =
     (case l of
        StopLines \<Rightarrow> ([], None)
      | ReadTimeout \<Rightarrow> ([], Some WatchReadTimeoutError)
      | ConnectionTimedOut \<Rightarrow> ([], Some WatchReadTimeoutError)
      | ConnectionLost \<Rightarrow> ([], Some TransportError)
      | BlankLine \<Rightarrow> watch_iter ls
      | UndecodableLine \<Rightarrow> ([], Some (EtcdProtocolError ''malformed etcd watch response''))
      | JsonLine envelope \<Rightarrow>
          (case watch_envelope envelope of
             Inl e \<Rightarrow> ([], Some e)
           | Inr None \<Rightarrow> watch_iter ls
           | Inr (Some b) \<Rightarrow> (case watch_iter ls of (bs, e) \<Rightarrow> (b # bs, e))))"

section \<open>The client\<close>

record 'e etcd_api =
  api_prefix :: string
  api_node_lease_ttl :: int
  api_range :: "json \<Rightarrow> 'e \<Rightarrow> (etcd_error + json) \<times> 'e"
  api_transaction :: "json \<Rightarrow> 'e \<Rightarrow> (etcd_error + json) \<times> 'e"
  api_put :: "string \<Rightarrow> string \<Rightarrow> int option \<Rightarrow> 'e \<Rightarrow> (etcd_error + bool) \<times> 'e"
  api_grant :: "int \<Rightarrow> 'e \<Rightarrow> (etcd_error + int) \<times> 'e"
  api_refresh :: "int \<Rightarrow> 'e \<Rightarrow> (etcd_error + int) \<times> 'e"
  api_revoke :: "int \<Rightarrow> 'e \<Rightarrow> (etcd_error + bool) \<times> 'e"
  api_replace :: "string \<Rightarrow> string \<Rightarrow> string \<Rightarrow> 'e \<Rightarrow> (etcd_error + bool) \<times> 'e"
  api_delete :: "string \<Rightarrow> 'e \<Rightarrow> (etcd_error + bool) \<times> 'e"

type_synonym ('e, 'a) etcd_call = "'e \<Rightarrow> (etcd_error + 'a) \<times> 'e"

definition then_parse :: "('e, json) etcd_call \<Rightarrow> (json \<Rightarrow> etcd_error + 'a) \<Rightarrow> ('e, 'a) etcd_call" where
  "then_parse call f e =
     (case call e of (Inl err, e') \<Rightarrow> (Inl err, e') | (Inr r, e') \<Rightarrow> (f r, e'))"

definition get_record :: "'e etcd_api \<Rightarrow> string \<Rightarrow> ('e, EtcdRecord option) etcd_call" where
  "get_record api key =
     (let raw_key = utf8_encode key
      in then_parse (api_range api (JObj [(''key'', JStr (etcd_encode raw_key))])) (parse_get_record raw_key))"

definition get_snapshot :: "'e etcd_api \<Rightarrow> string option \<Rightarrow> ('e, EtcdSnapshot) etcd_call" where
  "get_snapshot api prefix =
     (let raw_prefix = utf8_encode (case prefix of Some p \<Rightarrow> if p = [] then api_prefix api else p
                                    | None \<Rightarrow> api_prefix api)
      in then_parse
           (api_range api (JObj [(''key'', JStr (etcd_encode raw_prefix)),
                                 (''range_end'', JStr (etcd_encode (prefix_range_end raw_prefix)))]))
           parse_snapshot)"

definition put :: "'e etcd_api \<Rightarrow> string \<Rightarrow> string \<Rightarrow> int option \<Rightarrow> ('e, bool) etcd_call" where
  "put api key value lease_id = api_put api key value lease_id"

definition grant_node_lease :: "'e etcd_api \<Rightarrow> ('e, int) etcd_call" where
  "grant_node_lease api = api_grant api (api_node_lease_ttl api)"

definition refresh_lease :: "'e etcd_api \<Rightarrow> int \<Rightarrow> ('e, int) etcd_call" where
  "refresh_lease api lease_id = api_refresh api lease_id"

definition revoke_lease :: "'e etcd_api \<Rightarrow> int \<Rightarrow> ('e, bool) etcd_call" where
  "revoke_lease api lease_id = api_revoke api lease_id"

definition compare_mod :: "string \<Rightarrow> int \<Rightarrow> json" where
  "compare_mod raw_key m =
     JObj [(''key'', JStr (etcd_encode raw_key)), (''result'', JStr ''EQUAL''), (''target'', JStr ''MOD''),
           (''mod_revision'', JStr (str_int m))]"

definition compare_lease :: "string \<Rightarrow> int \<Rightarrow> json" where
  "compare_lease raw_key l =
     JObj [(''key'', JStr (etcd_encode raw_key)), (''result'', JStr ''EQUAL''), (''target'', JStr ''LEASE''),
           (''lease'', JStr (str_int l))]"

definition request_put :: "string \<Rightarrow> string \<Rightarrow> int \<Rightarrow> json" where
  "request_put raw_key raw_value l =
     JObj [(''request_put'', JObj [(''key'', JStr (etcd_encode raw_key)), (''value'', JStr (etcd_encode raw_value)),
                                   (''lease'', JStr (str_int l))])]"

definition request_delete :: "string \<Rightarrow> json" where
  "request_delete raw_key =
     JObj [(''request_delete_range'', JObj [(''key'', JStr (etcd_encode raw_key))])]"

definition txn :: "json list \<Rightarrow> json list \<Rightarrow> json" where
  "txn compare success =
     JObj [(''compare'', JList compare), (''success'', JList success), (''failure'', JList [])]"

definition txn_succeeded :: "json \<Rightarrow> etcd_error + bool" where
  "txn_succeeded result =
     (case result of JObj r \<Rightarrow> Inr (json_truthy (obj_get r ''succeeded'' (JBool False))) | _ \<Rightarrow> Inl AttributeError)"

definition attach_lease_if_current ::
  "'e etcd_api \<Rightarrow> string \<Rightarrow> string \<Rightarrow> int \<Rightarrow> int \<Rightarrow> int \<Rightarrow> ('e, bool) etcd_call" where
  "attach_lease_if_current api key raw_value expected_mod_revision expected_lease_id lease_id =
     (let raw_key = utf8_encode key
      in then_parse
           (api_transaction api
             (txn [compare_mod raw_key expected_mod_revision, compare_lease raw_key expected_lease_id]
                  [request_put raw_key raw_value lease_id]))
           txn_succeeded)"

definition replace_if_revision ::
  "'e etcd_api \<Rightarrow> string \<Rightarrow> string \<Rightarrow> int \<Rightarrow> int \<Rightarrow> ('e, int option) etcd_call" where
  "replace_if_revision api key raw_value expected_mod_revision lease_id =
     (let raw_key = utf8_encode key
      in then_parse
           (api_transaction api
             (txn [compare_mod raw_key expected_mod_revision] [request_put raw_key raw_value lease_id]))
           (\<lambda>result. case result of
              JObj r \<Rightarrow> if json_truthy (obj_get r ''succeeded'' (JBool False))
                        then map_sum id Some (header_revision r ''transaction'') else Inr None
            | _ \<Rightarrow> Inl AttributeError))"

definition delete_if_revision :: "'e etcd_api \<Rightarrow> string \<Rightarrow> int \<Rightarrow> ('e, bool) etcd_call" where
  "delete_if_revision api key expected_mod_revision =
     (let raw_key = utf8_encode key
      in then_parse
           (api_transaction api (txn [compare_mod raw_key expected_mod_revision] [request_delete raw_key]))
           txn_succeeded)"

definition replace_value :: "'e etcd_api \<Rightarrow> string \<Rightarrow> string \<Rightarrow> string \<Rightarrow> ('e, bool) etcd_call" where
  "replace_value api key expected_value new_value = api_replace api key expected_value new_value"

definition delete_key :: "'e etcd_api \<Rightarrow> string \<Rightarrow> ('e, bool) etcd_call" where
  "delete_key api key = api_delete api key"

section \<open>Base64\<close>

lemma b64_value_char: "n < 64 \<Longrightarrow> b64_value (b64_char n) = Some n"
proof -
  have "\<forall>n \<in> set [0..<64]. b64_value (b64_char n) = Some n" by code_simp
  then show "n < 64 \<Longrightarrow> b64_value (b64_char n) = Some n" by auto
qed

lemma b64_char_not_pad: "n < 64 \<Longrightarrow> b64_char n \<noteq> CHR ''=''"
proof
  have none: "b64_value (CHR ''='') = None" by code_simp
  assume "n < 64" "b64_char n = CHR ''=''"
  with b64_value_char [of n] none show False by simp
qed

lemma byte_div_bounds: "byte a div 4 < 64" "byte a div 16 < 16" "byte a div 64 < 4"
  using byte_less [of a] by (simp_all add: less_mult_imp_div_less)

lemma b64_pieces:
  "byte a mod 4 * 16 + byte b div 16 < 64" "byte b mod 16 * 4 + byte c div 64 < 64"
  "byte a mod 4 * 16 < 64" "byte b mod 16 * 4 < 64" "byte c mod 64 < 64"
  using byte_div_bounds(2) [of b] byte_div_bounds(3) [of c]
    mod_less_divisor [of 4 "byte a"] mod_less_divisor [of 16 "byte b"]
  by linarith+

lemma b64_joins:
  "byte b div 16 div 16 = 0" "byte b div 16 mod 16 * 16 + byte b mod 16 = byte b"
  "byte c div 64 div 4 = 0" "byte c div 64 mod 4 * 64 + byte c mod 64 = byte c"
  using byte_div_bounds(2) [of b] byte_div_bounds(3) [of c] by simp_all

lemma b64_roundtrip: "b64decode (b64encode v) = Some v"
  by (induction v rule: b64encode.induct)
    (simp_all add: b64_value_char b64_char_not_pad byte_div_bounds b64_pieces b64_joins)

section \<open>Prefix ranges\<close>

lemma range_end_rev_split:
  assumes "range_end_rev s = Some r"
  obtains q c m where "s = replicate m (CHR 0xFF) @ c # q" "byte c < 255" "r = char_of (byte c + 1) # q"
proof -
  have "\<exists>q c m. s = replicate m (CHR 0xFF) @ c # q \<and> byte c < 255 \<and> r = char_of (byte c + 1) # q"
    using assms
  proof (induction s)
    case (Cons a s)
    show ?case
    proof (cases "byte a < 255")
      case True
      with Cons.prems show ?thesis by (intro exI [of _ s] exI [of _ a] exI [of _ 0]) simp
    next
      case False
      then have "byte a = 255" using byte_less [of a] by linarith
      then have "byte a = byte (CHR 0xFF)" by simp
      then have a: "a = CHR 0xFF" by (simp only: of_char_eq_iff)
      from False Cons obtain q c m where "s = replicate m (CHR 0xFF) @ c # q" "byte c < 255"
        "r = char_of (byte c + 1) # q" by auto
      then show ?thesis using a by (intro exI [of _ q] exI [of _ c] exI [of _ "Suc m"]) simp
    qed
  qed simp
  then show ?thesis using that by blast
qed

lemma range_end_rev_None: "range_end_rev s = None \<longleftrightarrow> (\<forall>c \<in> set s. \<not> byte c < 255)"
  by (induction s) auto

lemma char_top: "CHR 0xFF \<le> (c :: char) \<longleftrightarrow> c = CHR 0xFF"
proof
  assume "CHR 0xFF \<le> c"
  then have "255 \<le> byte c" by (simp add: less_eq_char_def)
  with byte_less [of c] have "byte c = 255" by linarith
  then have "byte c = byte (CHR 0xFF)" by simp
  then show "c = CHR 0xFF" by (simp only: of_char_eq_iff)
qed simp

lemma top_tail_le: "replicate m (CHR 0xFF) \<le> t \<longleftrightarrow> take m t = replicate m (CHR 0xFF)"
proof (induction m arbitrary: t)
  case (Suc m)
  show ?case
  proof (cases t)
    case (Cons d u)
    have "\<not> CHR 0xFF < d" using char_top [of d] by force
    with Suc Cons show ?thesis by auto
  qed simp
qed simp

lemma char_between:
  assumes "byte c < 255"
  shows "c \<le> d \<and> d < char_of (byte c + 1) \<longleftrightarrow> d = c"
proof -
  have "byte (char_of (byte c + 1)) = byte c + 1" using assms by (simp add: of_char_of)
  then have "c \<le> d \<and> d < char_of (byte c + 1) \<longleftrightarrow> byte d = byte c"
    unfolding less_eq_char_def less_char_def by linarith
  then show ?thesis by (simp only: of_char_eq_iff)
qed

lemma range_end_bounds:
  assumes "byte c < 255"
  shows "(q @ c # replicate m (CHR 0xFF) \<le> k \<and> k < q @ [char_of (byte c + 1)]) \<longleftrightarrow>
    take (length q + Suc m) k = q @ c # replicate m (CHR 0xFF)"
proof (induction q arbitrary: k)
  case Nil
  show ?case
  proof (cases k)
    case (Cons d t)
    have "byte (char_of (byte c + 1)) = byte c + 1" using assms by (simp add: of_char_of)
    then have lt: "c < char_of (byte c + 1)" by (simp add: less_char_def)
    have "[] @ c # replicate m (CHR 0xFF) \<le> k \<and> k < [] @ [char_of (byte c + 1)] \<longleftrightarrow>
        (c < d \<or> c = d \<and> replicate m (CHR 0xFF) \<le> t) \<and> d < char_of (byte c + 1)"
      by (simp add: Cons)
    also have "\<dots> \<longleftrightarrow> d = c \<and> replicate m (CHR 0xFF) \<le> t"
      using char_between [OF assms, of d] lt by (metis less_imp_le order_less_irrefl order_refl)
    also have "\<dots> \<longleftrightarrow> take (length [] + Suc m) k = [] @ c # replicate m (CHR 0xFF)"
      by (simp add: Cons top_tail_le)
    finally show ?thesis .
  qed simp
next
  case (Cons x q)
  show ?case
  proof (cases k)
    case k: (Cons d t)
    show ?thesis
    proof (cases "d = x")
      case True
      have lr: "((x # q) @ c # replicate m (CHR 0xFF) \<le> k \<and> k < (x # q) @ [char_of (byte c + 1)]) \<longleftrightarrow>
          (q @ c # replicate m (CHR 0xFF) \<le> t \<and> t < q @ [char_of (byte c + 1)])"
        by (simp only: k True append_Cons Cons_le_Cons Cons_less_Cons order_less_irrefl) simp
      have "(take (length (x # q) + Suc m) k = (x # q) @ c # replicate m (CHR 0xFF)) \<longleftrightarrow>
          (take (length q + Suc m) t = q @ c # replicate m (CHR 0xFF))"
        by (simp only: k True list.size append_Cons add_Suc take_Suc_Cons) simp
      then show ?thesis by (simp only: lr Cons.IH)
    next
      case False
      then show ?thesis by (simp add: k order_less_not_sym)
    qed
  qed simp
qed

section \<open>Properties\<close>

text \<open>
  The base64 codec loses nothing: whatever bytes a key or value holds, decoding what the
  client sends gives them back.
\<close>

theorem etcd_codec_roundtrip: "etcd_decode (JStr (etcd_encode v)) field = Inr v"
  by (simp add: etcd_decode_def etcd_encode_def b64_roundtrip)

text \<open>
  The range a snapshot and a watch ask for is exactly the prefix: for a prefix with some byte
  below 255, a key starts with it iff the key lies in the half-open interval from the prefix to
  its range end in etcd's byte order.
\<close>

theorem prefix_range_exact:
  assumes "\<exists>c \<in> set p. byte c < 255"
  shows "str_startswith k p \<longleftrightarrow> p \<le> k \<and> k < prefix_range_end p"
proof -
  from assms have "range_end_rev (rev p) \<noteq> None" by (auto simp: range_end_rev_None)
  then obtain r where r: "range_end_rev (rev p) = Some r" by auto
  from range_end_rev_split [OF this] obtain q c m where
    q: "rev p = replicate m (CHR 0xFF) @ c # q" "byte c < 255" "r = char_of (byte c + 1) # q" .
  then have p: "p = rev q @ c # replicate m (CHR 0xFF)" by (metis append.assoc append_Cons append_Nil
    rev.simps(2) rev_append rev_replicate rev_rev_ident)
  have "prefix_range_end p = rev q @ [char_of (byte c + 1)]"
    using r q(3) by (simp add: prefix_range_end_def)
  with range_end_bounds [OF q(2), of "rev q" m k] p show ?thesis
    by (simp add: str_startswith_def)
qed

theorem prefix_range_exact_witness:
  "str_startswith ''/nodes/a'' ''/nodes/'' \<and> ''/nodes/'' \<le> ''/nodes/a'' \<and> ''/nodes/a'' < prefix_range_end ''/nodes/''"
  using prefix_range_exact [of "''/nodes/''" "''/nodes/a''"]
  by (simp add: str_startswith_def)

lemma traverse_Inr: "traverse f xs = Inr ys \<Longrightarrow> y \<in> set ys \<Longrightarrow> \<exists>x \<in> set xs. f x = Inr y"
  by (induction xs arbitrary: ys) (auto split: sum.splits)

lemma parse_kv_value:
  "parse_kv raw ctx req = Inr (k, v, m, l) \<Longrightarrow> (v \<noteq> None \<longleftrightarrow> req) \<and> 0 \<le> m \<and> 0 \<le> l"
proof -
  have dec: "map_sum id Some (etcd_decode j f) = Inr w \<Longrightarrow> w \<noteq> None" for j f w
    by (cases "etcd_decode j f") auto
  have nn: "etcd_revision j f = Inr n \<Longrightarrow> 0 \<le> n" for j f n
    by (auto simp: etcd_revision_def Let_def split: option.splits if_splits)
  assume "parse_kv raw ctx req = Inr (k, v, m, l)"
  then show ?thesis
    by (cases raw) (auto simp: parse_kv_def split: sum.splits if_splits dest: dec nn)
qed

lemma parse_event_ok:
  "parse_event raw = Inr e \<Longrightarrow> (ee_value e = None \<longleftrightarrow> ee_is_delete e) \<and> 0 \<le> ee_mod_revision e"
  by (cases raw) (auto simp: parse_event_def Let_def split: sum.splits dest!: parse_kv_value)

lemma header_revision_nonneg: "header_revision r ctx = Inr n \<Longrightarrow> 0 \<le> n"
  by (auto simp: header_revision_def etcd_revision_def Let_def split: json.splits option.splits if_splits)

lemma watch_envelope_ok:
  assumes "watch_envelope env = Inr (Some b)"
  shows "0 \<le> ew_revision b \<and> (\<forall>e \<in> set (ew_events b). ee_mod_revision e \<le> ew_revision b \<and>
    0 \<le> ee_mod_revision e \<and> (ee_value e = None \<longleftrightarrow> ee_is_delete e))"
proof -
  from assms obtain result revision raws events where
    "header_revision result ''watch'' = Inr revision" "traverse parse_event raws = Inr events"
    "\<not> list_ex (\<lambda>x. ee_mod_revision x > revision) events"
    "b = \<lparr>ew_events = events, ew_revision = revision\<rparr>"
    by (auto simp: watch_envelope_def Let_def split: json.splits if_splits sum.splits)
  then show ?thesis
    by (auto simp: list_ex_iff not_less header_revision_nonneg
        dest!: traverse_Inr parse_event_ok)
qed

text \<open>
  Whatever the service streams, every batch the watch yields is internally consistent: no event
  is newer than the batch's revision, revisions are non-negative, and an event carries a value
  exactly when it is not a deletion.
\<close>

theorem watch_batches_consistent:
  assumes "b \<in> set (fst (watch_iter lines))"
  shows "0 \<le> ew_revision b \<and> (\<forall>e \<in> set (ew_events b). ee_mod_revision e \<le> ew_revision b \<and>
    0 \<le> ee_mod_revision e \<and> (ee_value e = None \<longleftrightarrow> ee_is_delete e))"
  using assms
  by (induction lines) (auto split: watch_line.splits sum.splits option.splits prod.splits dest: watch_envelope_ok)

definition example_line :: watch_line where
  "example_line = JsonLine (JObj [(''result'', JObj [(''header'', JObj [(''revision'', JStr ''12'')]),
     (''events'', JList [JObj [(''kv'', JObj [(''key'', JStr (etcd_encode ''/nodes/a'')),
        (''value'', JStr (etcd_encode ''{}'')), (''mod_revision'', JStr ''11'')])]])])])"

theorem watch_batches_consistent_witness:
  "\<exists>b. fst (watch_iter [BlankLine, example_line]) = [b] \<and> ew_revision b = 12 \<and>
     (\<forall>e \<in> set (ew_events b). ee_mod_revision e \<le> ew_revision b)"
proof -
  let ?b = "\<lparr>ew_events = [\<lparr>ee_key = ''/nodes/a'', ee_value = Some ''{}'', ee_mod_revision = 11,
    ee_is_delete = False, ee_lease_id = 0\<rparr>], ew_revision = 12\<rparr>"
  have "fst (watch_iter [BlankLine, example_line]) = [?b]" by code_simp
  with watch_batches_consistent [of ?b "[BlankLine, example_line]"] show ?thesis by auto
qed

end
