(* ===== verification/NodeLeases.thy ===== *)
theory NodeLeases
  imports Registry EtcdClient
begin

text \<open>
  \<^verbatim>\<open>discovery/node_leases.py\<close>: the node records last observed in etcd and the lease upkeep that a
  successful health probe triggers. Each critical section is one function; what other threads do to
  the manager while an etcd call is in flight is the argument \<open>meanwhile\<close>.
\<close>

section \<open>State and observations\<close>

record NodeLeaseObservation =
  ob_value :: string
  ob_mod_revision :: int
  ob_lease_id :: int

record NodeLeaseManager =
  lm_records :: "(string, NodeLeaseObservation) dict"
  lm_snapshot_ready :: bool

definition NodeLeaseManager_new :: NodeLeaseManager where
  "NodeLeaseManager_new = \<lparr>lm_records = [], lm_snapshot_ready = False\<rparr>"

definition lm_reconcile_snapshot ::
  "(string, NodeLeaseObservation) dict \<Rightarrow> NodeLeaseManager \<Rightarrow> NodeLeaseManager" where
  "lm_reconcile_snapshot records m = m\<lparr>lm_records := records, lm_snapshot_ready := True\<rparr>"

definition observe_put :: "string \<Rightarrow> string \<Rightarrow> int \<Rightarrow> int \<Rightarrow> NodeLeaseManager \<Rightarrow> NodeLeaseManager" where
  "observe_put i value mod_revision lease_id m =
     (let observation = \<lparr>ob_value = value, ob_mod_revision = mod_revision, ob_lease_id = lease_id\<rparr>
      in if (case dict_get (lm_records m) i of None \<Rightarrow> True | Some c \<Rightarrow> mod_revision \<ge> ob_mod_revision c)
         then m\<lparr>lm_records := dict_set i observation (lm_records m)\<rparr> else m)"

definition observe_delete :: "string \<Rightarrow> int \<Rightarrow> NodeLeaseManager \<Rightarrow> NodeLeaseManager" where
  "observe_delete i mod_revision m =
     (if (case dict_get (lm_records m) i of None \<Rightarrow> True | Some c \<Rightarrow> mod_revision \<ge> ob_mod_revision c)
      then m\<lparr>lm_records := dict_pop i (lm_records m)\<rparr> else m)"

definition lm_get :: "NodeLeaseManager \<Rightarrow> string \<Rightarrow> NodeLeaseObservation option" where
  "lm_get m i = dict_get (lm_records m) i"

section \<open>Lease upkeep\<close>

type_synonym 'e lease_world = "NodeLeaseManager \<times> 'e"

definition discard_if_current ::
  "string \<Rightarrow> NodeLeaseObservation \<Rightarrow> NodeLeaseManager \<Rightarrow> NodeLeaseManager" where
  "discard_if_current i observation m =
     (if dict_get (lm_records m) i = Some observation
      then m\<lparr>lm_records := dict_pop i (lm_records m)\<rparr> else m)"

definition revoke_unused :: "'e etcd_api \<Rightarrow> int \<Rightarrow> 'e \<Rightarrow> 'e" where
  "revoke_unused api lease_id e = snd (revoke_lease api lease_id e)"

definition lease_refresh ::
  "'e etcd_api \<Rightarrow> (NodeLeaseManager \<Rightarrow> NodeLeaseManager) \<Rightarrow> string \<Rightarrow> NodeLeaseObservation
     \<Rightarrow> 'e lease_world \<Rightarrow> 'e lease_world" where
  "lease_refresh api meanwhile i observation w =
     (case refresh_lease api (ob_lease_id observation) (snd w) of
        (Inl _, e) \<Rightarrow> (meanwhile (fst w), e)
      | (Inr ttl, e) \<Rightarrow>
          if ttl = - 1 then (discard_if_current i observation (meanwhile (fst w)), e)
          else (meanwhile (fst w), e))"

definition lease_adopt ::
  "'e etcd_api \<Rightarrow> (NodeLeaseManager \<Rightarrow> NodeLeaseManager) \<Rightarrow> string \<Rightarrow> NodeLeaseObservation
     \<Rightarrow> 'e lease_world \<Rightarrow> 'e lease_world" where
  "lease_adopt api meanwhile i observation w =
     (case grant_node_lease api (snd w) of
        (Inl _, e) \<Rightarrow> (meanwhile (fst w), e)
      | (Inr lease_id, e) \<Rightarrow>
          (case attach_lease_if_current api (api_prefix api @ i) (ob_value observation)
                  (ob_mod_revision observation) (ob_lease_id observation) lease_id e of
             (Inl _, e') \<Rightarrow> (meanwhile (fst w), revoke_unused api lease_id e')
           | (Inr attached, e') \<Rightarrow>
               if \<not> attached then (meanwhile (fst w), revoke_unused api lease_id e')
               else let m = meanwhile (fst w)
                    in (if dict_get (lm_records m) i = Some observation
                        then m\<lparr>lm_records := dict_set i (observation\<lparr>ob_lease_id := lease_id\<rparr>) (lm_records m)\<rparr>
                        else m, e')))"

definition maintain_after_success ::
  "'e etcd_api \<Rightarrow> (NodeLeaseManager \<Rightarrow> NodeLeaseManager) \<Rightarrow> node \<Rightarrow> 'e lease_world \<Rightarrow> 'e lease_world" where
  "maintain_after_success api meanwhile n w =
     (if \<not> node_managed n \<or> node_status n \<noteq> HEALTHY then w
      else if \<not> lm_snapshot_ready (fst w) then w
      else case lm_get (fst w) (node_id n) of
             None \<Rightarrow> w
           | Some observation \<Rightarrow>
               if ob_lease_id observation \<noteq> 0
               then lease_refresh api meanwhile (node_id n) observation w
               else lease_adopt api meanwhile (node_id n) observation w)"

section \<open>Lemmas\<close>

lemma lm_get_observe_put:
  "lm_get (observe_put i v r l m) j =
     (if j = i \<and> (\<forall>c. lm_get m i = Some c \<longrightarrow> ob_mod_revision c \<le> r)
      then Some \<lparr>ob_value = v, ob_mod_revision = r, ob_lease_id = l\<rparr> else lm_get m j)"
  by (auto simp: lm_get_def observe_put_def Let_def split: option.splits)

lemma lm_get_observe_delete:
  "lm_get (observe_delete i r m) j =
     (if j = i \<and> (\<forall>c. lm_get m i = Some c \<longrightarrow> ob_mod_revision c \<le> r) then None else lm_get m j)"
  by (auto simp: lm_get_def observe_delete_def split: option.splits)

lemma lm_get_discard:
  "lm_get (discard_if_current i ob m) j = (if j = i \<and> lm_get m i = Some ob then None else lm_get m j)"
  by (auto simp: lm_get_def discard_if_current_def)

lemma lease_refresh_frame:
  "\<not> (j = i \<and> lm_get (meanwhile (fst w)) j = Some ob) \<Longrightarrow>
     lm_get (fst (lease_refresh api meanwhile i ob w)) j = lm_get (meanwhile (fst w)) j"
  by (auto simp: lease_refresh_def lm_get_discard split: sum.splits prod.splits)

lemma lease_adopt_frame:
  "\<not> (j = i \<and> lm_get (meanwhile (fst w)) j = Some ob) \<Longrightarrow>
     lm_get (fst (lease_adopt api meanwhile i ob w)) j = lm_get (meanwhile (fst w)) j"
  by (auto simp: lease_adopt_def Let_def lm_get_def split: sum.splits prod.splits)

section \<open>Properties\<close>

text \<open>
  Lease upkeep never acts on a stale observation: if another thread replaced or removed a
  node's record while the etcd call was in flight, what that thread left is kept; and the
  records of other nodes are never touched.
\<close>

theorem lease_upkeep_keeps_newer:
  assumes "node_managed n" "node_status n = HEALTHY" "lm_snapshot_ready m" "lm_get m (node_id n) \<noteq> None"
    and "lm_get (meanwhile m) j \<noteq> lm_get m j \<or> j \<noteq> node_id n"
  shows "lm_get (fst (maintain_after_success api meanwhile n (m, e))) j = lm_get (meanwhile m) j"
proof -
  obtain ob where ob: "lm_get m (node_id n) = Some ob" using assms(4) by auto
  then have "\<not> (j = node_id n \<and> lm_get (meanwhile m) j = Some ob)" using assms(5) by auto
  with assms(1-3) ob show ?thesis
    by (simp add: maintain_after_success_def lease_refresh_frame lease_adopt_frame)
qed

text \<open>
  No lease is granted, refreshed or attached on behalf of a node that is unmanaged or not
  HEALTHY, before the first snapshot, or without an observed record: etcd is not called at all.
\<close>

theorem lease_upkeep_guarded:
  assumes "\<not> node_managed n \<or> node_status n \<noteq> HEALTHY \<or> \<not> lm_snapshot_ready m \<or> lm_get m (node_id n) = None"
  shows "maintain_after_success api meanwhile n (m, e) = (m, e)"
  using assms by (auto simp: maintain_after_success_def)

definition silent_api :: "nat etcd_api" where
  "silent_api =
     \<lparr>api_prefix = ''/nodes/'', api_node_lease_ttl = 30,
      api_range = (\<lambda>_ e. (Inl TransportError, e + 1)), api_transaction = (\<lambda>_ e. (Inl TransportError, e + 1)),
      api_put = (\<lambda>_ _ _ e. (Inl TransportError, e + 1)), api_grant = (\<lambda>_ e. (Inr 7, e + 1)),
      api_refresh = (\<lambda>_ e. (Inr (- 1), e + 1)), api_revoke = (\<lambda>_ e. (Inr True, e + 1)),
      api_replace = (\<lambda>_ _ _ e. (Inl TransportError, e + 1)), api_delete = (\<lambda>_ e. (Inl TransportError, e + 1))\<rparr>"

definition example_manager :: NodeLeaseManager where
  "example_manager =
     \<lparr>lm_records = [(''a'', \<lparr>ob_value = ''{}'', ob_mod_revision = 4, ob_lease_id = 9\<rparr>)], lm_snapshot_ready = True\<rparr>"

definition example_managed :: node where
  "example_managed = (blank_node ''a'' ''http://a:8000'')\<lparr>node_status := HEALTHY, node_managed := True\<rparr>"

theorem lease_upkeep_keeps_newer_witness:
  "lm_get (fst (maintain_after_success silent_api (observe_put ''a'' ''{1}'' 5 9) example_managed (example_manager, 0))) ''a''
     = Some \<lparr>ob_value = ''{1}'', ob_mod_revision = 5, ob_lease_id = 9\<rparr>"
proof -
  let ?m = "observe_put ''a'' ''{1}'' 5 9"
  have new: "lm_get (?m example_manager) ''a'' = Some \<lparr>ob_value = ''{1}'', ob_mod_revision = 5, ob_lease_id = 9\<rparr>"
    by code_simp
  have old: "lm_get example_manager ''a'' = Some \<lparr>ob_value = ''{}'', ob_mod_revision = 4, ob_lease_id = 9\<rparr>"
    by code_simp
  have "node_managed example_managed" "node_status example_managed = HEALTHY" "node_id example_managed = ''a''"
    "lm_snapshot_ready example_manager"
    by (simp_all add: example_managed_def blank_node_def example_manager_def)
  with lease_upkeep_keeps_newer [of example_managed example_manager ?m "''a''" silent_api 0] new old
  show ?thesis by simp
qed

theorem lease_upkeep_guarded_witness:
  "maintain_after_success silent_api id (blank_node ''a'' ''http://a:8000'') (example_manager, 0) = (example_manager, 0)"
  by (rule lease_upkeep_guarded) (simp add: blank_node_def)

end
