(* ===== verification/HealthChecker.thy ===== *)
theory HealthChecker
  imports Reservations NodeLeases
begin

text \<open>
  \<^verbatim>\<open>resilience/health_checker.py\<close>: one probe cycle of the health thread over the shared gateway
  state, the lease manager and etcd. The record \<open>backend\<close> is the environment of a cycle: the reply of
  each node's endpoints (\<open>None\<close> when building the URL or the HTTP call raises), whether the
  recovery completion succeeded, and what other threads do to the gateway while a call is in
  flight (\<open>be_during_\<dots>\<close>, arbitrary functions). A breaker object is identified with its entry
  in the breaker registry. Messages that are only logged are left out.
\<close>

section \<open>Environment\<close>

record reply =
  rp_status :: int
  rp_json :: "json option"

record backend =
  be_health :: "string \<Rightarrow> reply option"
  be_models :: "string \<Rightarrow> reply option"
  be_trial :: "string \<Rightarrow> string \<Rightarrow> bool"
  be_during_health :: "gateway \<Rightarrow> gateway"
  be_during_models :: "gateway \<Rightarrow> gateway"
  be_during_trial :: "gateway \<Rightarrow> gateway"
  be_during_etcd :: "gateway \<Rightarrow> gateway"
  be_during_lease :: "NodeLeaseManager \<Rightarrow> NodeLeaseManager"

record 'e health_world =
  hw_gateway :: gateway
  hw_leases :: NodeLeaseManager
  hw_etcd :: 'e

definition RECOVERABLE_STATUSES :: "NodeStatus list" where
  "RECOVERABLE_STATUSES = [UNHEALTHY, UNKNOWN]"

definition DEMOTABLE_STATUSES :: "NodeStatus list" where
  "DEMOTABLE_STATUSES = [HEALTHY, UNKNOWN]"

definition OPTIONAL_HEALTH_STATUSES :: "int list" where
  "OPTIONAL_HEALTH_STATUSES = [404, 405, 501]"

section \<open>Failure counters\<close>

definition failures_reset :: "string \<Rightarrow> gateway \<Rightarrow> gateway" where
  "failures_reset i g = g\<lparr>gw_failures := dict_set i 0 (gw_failures g)\<rparr>"

definition failures_increment :: "string \<Rightarrow> gateway \<Rightarrow> int \<times> gateway" where
  "failures_increment i g =
     (let failed = dict_get_or (gw_failures g) i 0 + 1
      in (failed, g\<lparr>gw_failures := dict_set i failed (gw_failures g)\<rparr>))"

section \<open>Liveness\<close>

definition served_model_id :: "json \<Rightarrow> string option" where
  "served_model_id payload =
     (case payload of
        JObj p \<Rightarrow>
          (case dict_get p ''data'' of
             Some (JList (JObj first # _)) \<Rightarrow>
               (case dict_get first ''id'' of
                  Some (JStr s) \<Rightarrow> (let m = str_strip s in if m = [] then None else Some m)
                | _ \<Rightarrow> None)
           | _ \<Rightarrow> None)
      | _ \<Rightarrow> None)"

definition observed_of :: "reply \<Rightarrow> string option" where
  "observed_of r = (case rp_json r of None \<Rightarrow> None | Some j \<Rightarrow> served_model_id j)"

text \<open>\<open>None\<close>: the probe raised; otherwise whether the node is alive and the model it reported.\<close>

definition probe_liveness ::
  "backend \<Rightarrow> string \<Rightarrow> bool \<Rightarrow> gateway \<Rightarrow> (bool \<times> string option) option \<times> gateway" where
  "probe_liveness be endpoint self_setup g =
     (let g = be_during_health be g
      in case be_health be endpoint of
           None \<Rightarrow> (None, g)
         | Some response \<Rightarrow>
             if rp_status response = 200 then (Some (True, None), g)
             else if self_setup \<and> rp_status response \<in> set OPTIONAL_HEALTH_STATUSES then
               (let g = be_during_models be g
                in case be_models be endpoint of
                     None \<Rightarrow> (None, g)
                   | Some models \<Rightarrow>
                       if rp_status models = 200 then (Some (True, observed_of models), g)
                       else (Some (False, None), g))
             else (Some (False, None), g))"

section \<open>Model refresh\<close>

definition apply_model_if_current ::
  "string \<Rightarrow> string \<Rightarrow> string \<Rightarrow> gateway \<Rightarrow> bool \<times> gateway" where
  "apply_model_if_current i endpoint model g =
     (case registry_get (gw_registry g) i of
        None \<Rightarrow> (False, g)
      | Some latest \<Rightarrow>
          if node_endpoint latest \<noteq> endpoint then (False, g)
          else (True, if node_model latest \<noteq> model
                      then g\<lparr>gw_registry := registry_add (latest\<lparr>node_model := model\<rparr>) (gw_registry g)\<rparr>
                      else g))"

text \<open>The compare-and-swap loop; every exit patches the registry.\<close>

fun refresh_attempts ::
  "nat \<Rightarrow> 'e etcd_api \<Rightarrow> json_codec \<Rightarrow> backend \<Rightarrow> string \<Rightarrow> string \<Rightarrow> string \<Rightarrow> gateway \<times> 'e \<Rightarrow> gateway \<times> 'e" where
  "refresh_attempts 0 api jc be i endpoint model (g, e) =
     (snd (apply_model_if_current i endpoint model g), e)"
| "refresh_attempts (Suc n) api jc be i endpoint model (g, e) =
     (let key = api_prefix api @ i;
          done' = (\<lambda>g e. (snd (apply_model_if_current i endpoint model (be_during_etcd be g)), e))
      in case get_record api key e of
           (Inl _, e) \<Rightarrow> done' g e
         | (Inr None, e) \<Rightarrow> done' g e
         | (Inr (Some rec), e) \<Rightarrow>
             (case jc_loads jc (er_value rec) of
                Some (JObj d) \<Rightarrow>
                  (case replace_if_revision api key (jc_dumps jc (JObj (dict_set ''model'' (JStr model) d)))
                          (er_mod_revision rec) (er_lease_id rec) e of
                     (Inl _, e) \<Rightarrow> done' g e
                   | (Inr (Some _), e) \<Rightarrow> done' g e
                   | (Inr None, e) \<Rightarrow> refresh_attempts n api jc be i endpoint model (be_during_etcd be g, e))
              | _ \<Rightarrow> done' g e))"

definition fetched_model :: "backend \<Rightarrow> string \<Rightarrow> string option" where
  "fetched_model be endpoint =
     (case be_models be endpoint of
        None \<Rightarrow> None
      | Some models \<Rightarrow> if rp_status models \<noteq> 200 then None else observed_of models)"

definition refresh_self_setup_model ::
  "'e etcd_api option \<Rightarrow> json_codec \<Rightarrow> backend \<Rightarrow> string \<Rightarrow> string \<Rightarrow> bool \<Rightarrow> string option
     \<Rightarrow> gateway \<times> 'e \<Rightarrow> gateway \<times> 'e" where
  "refresh_self_setup_model etcd jc be i endpoint self_setup observed w =
     (if \<not> self_setup then w
      else let g = (if observed = None then be_during_models be (fst w) else fst w);
               model = (if observed = None then fetched_model be endpoint else observed)
      in case model of
           None \<Rightarrow> (g, snd w)
         | Some m \<Rightarrow>
             (case registry_get (gw_registry g) i of
                None \<Rightarrow> (g, snd w)
              | Some current \<Rightarrow>
                  if node_endpoint current \<noteq> endpoint then (g, snd w)
                  else (case etcd of
                          None \<Rightarrow> if node_model current = m then (g, snd w)
                                   else (snd (apply_model_if_current i endpoint m g), snd w)
                        | Some api \<Rightarrow> refresh_attempts 3 api jc be i endpoint m (g, snd w))))"

section \<open>Probe outcomes\<close>

definition PROTECTED_STATUSES :: "NodeStatus list" where
  "PROTECTED_STATUSES = [AVAILABLE, DRAINING, RELAUNCHING, RELAUNCH_FAILED, PROVISIONING, FAILED]"

definition breaker_update :: "string \<Rightarrow> (CircuitBreaker \<Rightarrow> CircuitBreaker) \<Rightarrow> gateway \<Rightarrow> gateway" where
  \<comment> \<open>a method call on the breaker object held for node \<open>i\<close>\<close>
  "breaker_update i f g =
     (case cb_get (gw_breakers g) i of
        None \<Rightarrow> g
      | Some b \<Rightarrow> g\<lparr>gw_breakers := cb_put i (f b) (gw_breakers g)\<rparr>)"

definition gw_update_status :: "string \<Rightarrow> NodeStatus \<Rightarrow> NodeStatus list \<Rightarrow> gateway \<Rightarrow> bool \<times> gateway" where
  "gw_update_status i new allowed_from g =
     (case update_status i new allowed_from (gw_registry g) of
        (done', r) \<Rightarrow> (done', g\<lparr>gw_registry := r\<rparr>))"

definition recovery_trial :: "backend \<Rightarrow> string \<Rightarrow> node \<Rightarrow> gateway \<Rightarrow> bool \<times> gateway" where
  "recovery_trial be i current g =
     (let g = be_during_trial be g
      in if \<not> be_trial be (node_endpoint current) (node_model current)
         then (False, breaker_update i record_failure g)
         else case gw_update_status i HEALTHY RECOVERABLE_STATUSES g of
                (transitioned, g) \<Rightarrow>
                  (transitioned, breaker_update i (if transitioned then record_success else reopen) g))"

definition handle_probe_success :: "backend \<Rightarrow> string \<Rightarrow> gateway \<Rightarrow> bool \<times> gateway" where
  "handle_probe_success be i g =
     (let g = failures_reset i g
      in case registry_get (gw_registry g) i of
           None \<Rightarrow> (False, g)
         | Some current \<Rightarrow>
             if node_status current \<in> set PROTECTED_STATUSES then (False, g)
             else let breaker = cb_get (gw_breakers g) i;
                      opened = (case breaker of None \<Rightarrow> False | Some b \<Rightarrow> is_open b)
             in if node_status current = HEALTHY then (\<not> opened, g)
             else if opened then
               (if \<not> fst (try_half_open (the breaker)) then (False, g)
                else let g = breaker_update i (\<lambda>b. snd (try_half_open b)) g
                in if node_model current = [] then (False, breaker_update i reopen g)
                else recovery_trial be i current g)
             else gw_update_status i HEALTHY RECOVERABLE_STATUSES g)"

definition handle_probe_failure :: "int \<Rightarrow> string \<Rightarrow> gateway \<Rightarrow> gateway" where
  "handle_probe_failure failure_threshold i g =
     (case failures_increment i g of
        (failed, g) \<Rightarrow>
          if failed \<ge> failure_threshold
          then snd (gw_update_status i UNHEALTHY DEMOTABLE_STATUSES g) else g)"

section \<open>Probing\<close>

definition lease_upkeep ::
  "'e etcd_api option \<Rightarrow> backend \<Rightarrow> string \<Rightarrow> string \<Rightarrow> 'e health_world \<Rightarrow> 'e health_world" where
  "lease_upkeep leases be i endpoint w =
     (case (leases, registry_get (gw_registry (hw_gateway w)) i) of
        (Some api, Some current) \<Rightarrow>
          if node_endpoint current = endpoint
          then (case maintain_after_success api (be_during_lease be) current (hw_leases w, hw_etcd w) of
                  (m, e) \<Rightarrow> w\<lparr>hw_leases := m, hw_etcd := e\<rparr>)
          else w
      | _ \<Rightarrow> w)"

definition probe_node ::
  "'e etcd_api option \<Rightarrow> 'e etcd_api option \<Rightarrow> json_codec \<Rightarrow> backend \<Rightarrow> int \<Rightarrow> string \<Rightarrow> string
     \<Rightarrow> 'e health_world \<Rightarrow> 'e health_world" where
  "probe_node leases etcd jc be failure_threshold i endpoint w =
     (let self_setup = (case registry_get (gw_registry (hw_gateway w)) i of
                          None \<Rightarrow> False | Some n \<Rightarrow> node_self_setup n)
      in case probe_liveness be endpoint self_setup (hw_gateway w) of
           (Some (True, observed), g) \<Rightarrow>
             (case refresh_self_setup_model etcd jc be i endpoint self_setup observed (g, hw_etcd w) of
                (g, e) \<Rightarrow>
                  (case handle_probe_success be i g of
                     (evidence, g) \<Rightarrow>
                       (let w = w\<lparr>hw_gateway := g, hw_etcd := e\<rparr>
                        in if evidence then lease_upkeep leases be i endpoint w else w)))
         | (_, g) \<Rightarrow> w\<lparr>hw_gateway := handle_probe_failure failure_threshold i g\<rparr>)"

definition probe_all_nodes ::
  "bool \<Rightarrow> 'e etcd_api option \<Rightarrow> 'e etcd_api option \<Rightarrow> json_codec \<Rightarrow> int \<Rightarrow> backend
     \<Rightarrow> 'e health_world \<Rightarrow> 'e health_world" where
  "probe_all_nodes tracked leases etcd jc failure_threshold be w =
     (let w = (if tracked then w\<lparr>hw_gateway := snd (sweep_drained_nodes (hw_gateway w))\<rparr> else w);
          nodes = registry_get_all (gw_registry (hw_gateway w))
      in fold (\<lambda>n w. if node_status n \<in> {AVAILABLE, PROVISIONING} then w
                      else probe_node leases etcd jc be failure_threshold (node_id n) (node_endpoint n) w)
           nodes w)"

text \<open>The thread: counters start empty, the listener lives as long as the loop, one backend
  environment per cycle until the stop event.\<close>

definition run_health_checker ::
  "bool \<Rightarrow> 'e etcd_api option \<Rightarrow> 'e etcd_api option \<Rightarrow> json_codec \<Rightarrow> int \<Rightarrow> backend list
     \<Rightarrow> 'e health_world \<Rightarrow> 'e health_world" where
  "run_health_checker tracked leases etcd jc failure_threshold cycles w =
     (let g = hw_gateway w;
          w = w\<lparr>hw_gateway := g\<lparr>gw_failures := [],
                 gw_registry := register_remove_listener FailureListener (gw_registry g)\<rparr>\<rparr>;
          w = fold (probe_all_nodes tracked leases etcd jc failure_threshold) cycles w
      in w\<lparr>hw_gateway := (hw_gateway w)\<lparr>gw_registry :=
             unregister_listener FailureListener (gw_registry (hw_gateway w))\<rparr>\<rparr>)"

section \<open>The proof rule for one probe\<close>

text \<open>
  A property of the gateway is kept by a probe of node \<open>i\<close> when the environment keeps it and each
  of the writes a probe can make keeps it.
\<close>

definition env_keeps :: "backend \<Rightarrow> (gateway \<Rightarrow> bool) \<Rightarrow> bool" where
  "env_keeps be P \<longleftrightarrow>
     (\<forall>g. P g \<longrightarrow> P (be_during_health be g) \<and> P (be_during_models be g) \<and> P (be_during_trial be g) \<and>
        P (be_during_etcd be g))"

definition probe_writes_keep :: "string \<Rightarrow> (gateway \<Rightarrow> bool) \<Rightarrow> bool" where
  "probe_writes_keep i P \<longleftrightarrow>
     (\<forall>g. P g \<longrightarrow>
        P (failures_reset i g) \<and> P (snd (failures_increment i g)) \<and>
        (\<forall>endpoint m. P (snd (apply_model_if_current i endpoint m g))) \<and>
        (\<forall>f. f \<in> {record_failure, record_success, reopen, (\<lambda>b. snd (try_half_open b))} \<longrightarrow>
           P (breaker_update i f g)) \<and>
        P (snd (gw_update_status i HEALTHY RECOVERABLE_STATUSES g)) \<and>
        P (snd (gw_update_status i UNHEALTHY DEMOTABLE_STATUSES g)))"

lemma writes_keepD:
  assumes "probe_writes_keep i P" "P g"
  shows "P (failures_reset i g)" "P (snd (failures_increment i g))"
    and "P (snd (apply_model_if_current i endpoint m g))"
    and "P (breaker_update i record_failure g)" "P (breaker_update i record_success g)"
    and "P (breaker_update i reopen g)" "P (breaker_update i (\<lambda>b. snd (try_half_open b)) g)"
    and "P (snd (gw_update_status i HEALTHY RECOVERABLE_STATUSES g))"
    and "P (snd (gw_update_status i UNHEALTHY DEMOTABLE_STATUSES g))"
  using assms unfolding probe_writes_keep_def by blast+

lemma env_keepsD:
  assumes "env_keeps be P" "P g"
  shows "P (be_during_health be g)" "P (be_during_models be g)" "P (be_during_trial be g)"
    "P (be_during_etcd be g)"
  using assms unfolding env_keeps_def by blast+

lemma probe_liveness_keeps: "env_keeps be P \<Longrightarrow> P g \<Longrightarrow> P (snd (probe_liveness be endpoint ss g))"
  by (auto simp: probe_liveness_def Let_def env_keepsD split: option.splits)

lemma refresh_attempts_keeps:
  assumes "env_keeps be P" "\<And>g endpoint m. P g \<Longrightarrow> P (snd (apply_model_if_current i endpoint m g))"
  shows "P (fst w) \<Longrightarrow> P (fst (refresh_attempts n api jc be i endpoint m w))"
proof (induction n arbitrary: w)
  case 0
  with assms show ?case by (cases w) simp
next
  case (Suc n)
  obtain g e where w: "w = (g, e)" by fastforce
  have etcd: "P (be_during_etcd be g)" using Suc.prems by (intro env_keepsD [OF assms(1)]) (simp add: w)
  then have fin: "P (snd (apply_model_if_current i endpoint m (be_during_etcd be g)))"
    by (rule assms(2))
  have rec: "P (fst (refresh_attempts n api jc be i endpoint m (be_during_etcd be g, e')))" for e'
    using Suc.IH [of "(be_during_etcd be g, e')"] etcd by simp
  from fin rec show ?case
    by (auto simp: w Let_def split: sum.splits option.splits prod.splits json.splits)
qed

lemma refresh_model_keeps:
  assumes "env_keeps be P" "\<And>g endpoint m. P g \<Longrightarrow> P (snd (apply_model_if_current i endpoint m g))"
    and "P (fst w)"
  shows "P (fst (refresh_self_setup_model etcd jc be i endpoint ss observed w))"
proof -
  define g where "g = (if observed = None then be_during_models be (fst w) else fst w)"
  define model where "model = (if observed = None then fetched_model be endpoint else observed)"
  have g: "P g" using assms(3) env_keepsD(2) [OF assms(1,3)] by (simp add: g_def)
  then have a: "P (fst (refresh_attempts 3 api jc be i endpoint m (g, snd w)))" for api m
    using refresh_attempts_keeps [OF assms(1,2), of "(g, snd w)" 3] by (metis fst_conv)
  have b: "P (snd (apply_model_if_current i endpoint m g))" for m
    by (rule assms(2) [OF g])
  show ?thesis
    unfolding refresh_self_setup_model_def Let_def g_def [symmetric] model_def [symmetric]
    using a b g assms(3) by (simp del: refresh_attempts.simps split: option.split)
qed

lemma recovery_trial_keeps:
  assumes "env_keeps be P" "probe_writes_keep i P" "P g"
  shows "P (snd (recovery_trial be i n g))"
proof -
  define g1 where "g1 = be_during_trial be g"
  have g1: "P g1" unfolding g1_def by (rule env_keepsD [OF assms(1,3)])
  define u where "u = gw_update_status i HEALTHY RECOVERABLE_STATUSES g1"
  have "P (snd u)" unfolding u_def by (rule writes_keepD [OF assms(2) g1])
  then show ?thesis
    unfolding recovery_trial_def Let_def g1_def [symmetric] u_def [symmetric]
    by (cases u) (simp add: writes_keepD [OF assms(2)] g1)
qed

text \<open>The five ways a successful probe can leave the gateway.\<close>

lemma probe_success_cases:
  fixes g i
  defines "g1 \<equiv> failures_reset i g"
  defines "g2 \<equiv> breaker_update i (\<lambda>b. snd (try_half_open b)) g1"
  obtains (idle) "snd (handle_probe_success be i g) = g1"
    | (withdrawn) "snd (handle_probe_success be i g) = breaker_update i reopen g2"
    | (trial) n where "registry_get (gw_registry g1) i = Some n"
        "handle_probe_success be i g = recovery_trial be i n g2"
    | (recovered) "handle_probe_success be i g = gw_update_status i HEALTHY RECOVERABLE_STATUSES g1"
        "\<And>b. cb_get (gw_breakers g1) i = Some b \<Longrightarrow> \<not> is_open b"
proof -
  note unfold = handle_probe_success_def Let_def g1_def [symmetric] g2_def [symmetric]
  show ?thesis
  proof (cases "registry_get (gw_registry g1) i")
    case None
    then show ?thesis by (intro idle) (simp add: unfold)
  next
    case (Some n)
    show ?thesis
    proof (cases "node_status n \<in> set PROTECTED_STATUSES \<or> node_status n = HEALTHY")
      case True
      with Some show ?thesis by (intro idle) (auto simp: unfold)
    next
      case live: False
      show ?thesis
      proof (cases "\<exists>b. cb_get (gw_breakers g1) i = Some b \<and> is_open b")
        case False
        then show ?thesis using live Some
          by (intro recovered) (auto simp: unfold split: option.split)
      next
        case True
        then obtain b where b: "cb_get (gw_breakers g1) i = Some b" "is_open b" by blast
        consider (busy) "\<not> fst (try_half_open b)" | (nameless) "fst (try_half_open b)" "node_model n = []"
          | (go) "fst (try_half_open b)" "node_model n \<noteq> []" by blast
        then show ?thesis
        proof cases
          case busy
          with live Some b show ?thesis by (intro idle) (simp add: unfold)
        next
          case nameless
          with live Some b show ?thesis by (intro withdrawn) (simp add: unfold)
        next
          case go
          with live Some b show ?thesis by (intro trial [OF Some]) (simp add: unfold)
        qed
      qed
    qed
  qed
qed

lemma probe_success_keeps:
  assumes "env_keeps be P" "probe_writes_keep i P" "P g"
  shows "P (snd (handle_probe_success be i g))"
proof -
  have g1: "P (failures_reset i g)" by (rule writes_keepD [OF assms(2,3)])
  have g2: "P (breaker_update i (\<lambda>b. snd (try_half_open b)) (failures_reset i g))"
    by (rule writes_keepD [OF assms(2) g1])
  show ?thesis
    by (rule probe_success_cases [of be i g])
      (simp_all add: g1 writes_keepD [OF assms(2) g1] writes_keepD [OF assms(2) g2]
        recovery_trial_keeps [OF assms(1,2) g2])
qed

lemma probe_failure_keeps:
  assumes "probe_writes_keep i P" "P g"
  shows "P (handle_probe_failure t i g)"
proof (cases "failures_increment i g")
  case (Pair n g1)
  then have "P g1" using writes_keepD(2) [OF assms] by simp
  with Pair show ?thesis by (simp add: handle_probe_failure_def writes_keepD [OF assms(1)])
qed

lemma lease_upkeep_gateway [simp]: "hw_gateway (lease_upkeep leases be i endpoint w) = hw_gateway w"
  by (auto simp: lease_upkeep_def split: option.splits prod.splits)

text \<open>The gateway after a probe, as one expression.\<close>

lemma probe_node_gateway:
  "hw_gateway (probe_node leases etcd jc be t i endpoint w) =
     (let ss = (case registry_get (gw_registry (hw_gateway w)) i of None \<Rightarrow> False | Some n \<Rightarrow> node_self_setup n);
          r = probe_liveness be endpoint ss (hw_gateway w)
      in case fst r of
           Some (True, observed) \<Rightarrow>
             snd (handle_probe_success be i
               (fst (refresh_self_setup_model etcd jc be i endpoint ss observed (snd r, hw_etcd w))))
         | _ \<Rightarrow> handle_probe_failure t i (snd r))"
  by (auto simp: probe_node_def Let_def split: prod.splits option.splits bool.splits)

lemma probe_node_keeps:
  assumes "env_keeps be P" "probe_writes_keep i P" "P (hw_gateway w)"
  shows "P (hw_gateway (probe_node leases etcd jc be t i endpoint w))"
proof -
  have 1: "P (snd (probe_liveness be endpoint ss (hw_gateway w)))" for ss
    by (rule probe_liveness_keeps [OF assms(1,3)])
  then have 2: "P (fst (refresh_self_setup_model etcd jc be i endpoint ss observed
      (snd (probe_liveness be endpoint ss (hw_gateway w)), hw_etcd w)))" for ss observed
    using refresh_model_keeps [OF assms(1) writes_keepD(3) [OF assms(2)]] by (metis fst_conv)
  from probe_success_keeps [OF assms(1,2) 2] probe_failure_keeps [OF assms(2) 1] show ?thesis
    unfolding probe_node_gateway Let_def
    by (auto split: option.split prod.split bool.split)
qed

section \<open>What the writes do\<close>

definition status_of :: "gateway \<Rightarrow> string \<Rightarrow> NodeStatus option" where
  "status_of g j = map_option node_status (registry_get (gw_registry g) j)"

definition breaker_of :: "gateway \<Rightarrow> string \<Rightarrow> CircuitBreaker option" where
  "breaker_of g j = cb_get (gw_breakers g) j"

lemma failures_frame [simp]:
  "gw_registry (failures_reset i g) = gw_registry g" "gw_breakers (failures_reset i g) = gw_breakers g"
  "gw_registry (snd (failures_increment i g)) = gw_registry g"
  "gw_breakers (snd (failures_increment i g)) = gw_breakers g"
  by (simp_all add: failures_reset_def failures_increment_def Let_def)

lemma breaker_update_frame [simp]: "gw_registry (breaker_update i f g) = gw_registry g"
  "gw_failures (breaker_update i f g) = gw_failures g"
  by (simp_all add: breaker_update_def split: option.split)

lemma breaker_update_of [simp]:
  "breaker_of (breaker_update i f g) j = (if j = i then map_option f (breaker_of g i) else breaker_of g j)"
  by (simp add: breaker_update_def breaker_of_def split: option.split)

lemma gw_update_status_eq:
  "gw_update_status i new from g =
     (fst (update_status i new from (gw_registry g)),
      g\<lparr>gw_registry := snd (update_status i new from (gw_registry g))\<rparr>)"
  by (simp add: gw_update_status_def split_beta)

lemma gw_update_status_frame [simp]:
  "gw_breakers (snd (gw_update_status i new from g)) = gw_breakers g"
  "gw_failures (snd (gw_update_status i new from g)) = gw_failures g"
  by (simp_all add: gw_update_status_eq)

lemma gw_update_status_get:
  "registry_get (gw_registry (snd (gw_update_status i new from g))) j =
     (case registry_get (gw_registry g) j of
        None \<Rightarrow> None
      | Some n \<Rightarrow> Some (if j = i \<and> node_status n \<in> set from then n\<lparr>node_status := new\<rparr> else n))"
  by (simp add: gw_update_status_eq update_status_def registry_get_def split: option.split)

lemma gw_update_status_of [simp]:
  "status_of (snd (gw_update_status i new from g)) j =
     (if j = i \<and> (\<exists>s \<in> set from. status_of g i = Some s) then Some new else status_of g j)"
  by (cases "j = i"; cases "registry_get (gw_registry g) j") (auto simp: status_of_def gw_update_status_get)

lemma gw_update_status_ok [simp]:
  "registry_ok (gw_registry g) \<Longrightarrow> registry_ok (gw_registry (snd (gw_update_status i new from g)))"
  by (simp add: gw_update_status_eq)

lemma apply_model_frame [simp]:
  "gw_breakers (snd (apply_model_if_current i endpoint m g)) = gw_breakers g"
  "gw_failures (snd (apply_model_if_current i endpoint m g)) = gw_failures g"
  by (simp_all add: apply_model_if_current_def split: option.split)

lemma apply_model_ok [simp]:
  "registry_ok (gw_registry g) \<Longrightarrow> registry_ok (gw_registry (snd (apply_model_if_current i endpoint m g)))"
  by (simp add: apply_model_if_current_def split: option.split)

lemma apply_model_get:
  assumes "registry_ok (gw_registry g)"
  shows "registry_get (gw_registry (snd (apply_model_if_current i endpoint m g))) j =
     (case registry_get (gw_registry g) j of
        None \<Rightarrow> None
      | Some n \<Rightarrow> Some (if j = i \<and> node_endpoint n = endpoint then n\<lparr>node_model := m\<rparr> else n))"
proof (cases "registry_get (gw_registry g) i")
  case None
  then show ?thesis by (simp add: apply_model_if_current_def split: option.split)
next
  case (Some n)
  with assms have "node_id n = i" by (rule registry_ok_get)
  with Some show ?thesis by (simp add: apply_model_if_current_def split: option.split)
qed

lemma apply_model_of [simp]:
  "registry_ok (gw_registry g) \<Longrightarrow> status_of (snd (apply_model_if_current i endpoint m g)) j = status_of g j"
  by (auto simp: status_of_def apply_model_get split: option.splits)

lemma status_of_frame [simp]:
  "status_of (failures_reset i g) j = status_of g j" "status_of (snd (failures_increment i g)) j = status_of g j"
  "status_of (breaker_update i f g) j = status_of g j"
  by (simp_all add: status_of_def)

lemma breaker_of_frame [simp]:
  "breaker_of (failures_reset i g) j = breaker_of g j" "breaker_of (snd (failures_increment i g)) j = breaker_of g j"
  "breaker_of (snd (apply_model_if_current i endpoint m g)) j = breaker_of g j"
  "breaker_of (snd (gw_update_status i new from g)) j = breaker_of g j"
  by (simp_all add: breaker_of_def)

definition quiet :: "backend \<Rightarrow> bool" where
  "quiet be \<longleftrightarrow> be_during_health be = id \<and> be_during_models be = id \<and> be_during_trial be = id \<and>
     be_during_etcd be = id"

lemma quiet_keeps [simp]: "quiet be \<Longrightarrow> env_keeps be P"
  by (simp add: quiet_def env_keeps_def)

lemma settled_states:
  "cb_state (record_failure b) \<noteq> HALF_OPEN" "cb_state (record_success b) \<noteq> HALF_OPEN"
  "cb_state (reopen b) \<noteq> HALF_OPEN"
  by (simp_all add: breaker_defs)

definition half_open_free :: "string \<Rightarrow> gateway \<Rightarrow> bool" where
  "half_open_free i g \<longleftrightarrow> (\<forall>b. breaker_of g i = Some b \<longrightarrow> cb_state b \<noteq> HALF_OPEN)"

lemma half_open_free_simps [simp]:
  "half_open_free i (breaker_update i record_failure g)" "half_open_free i (breaker_update i record_success g)"
  "half_open_free i (breaker_update i reopen g)"
  "half_open_free i (failures_reset j g) = half_open_free i g"
  "half_open_free i (snd (failures_increment j g)) = half_open_free i g"
  "half_open_free i (snd (apply_model_if_current j endpoint m g)) = half_open_free i g"
  "half_open_free i (snd (gw_update_status j new from g)) = half_open_free i g"
  by (auto simp: half_open_free_def settled_states)

lemma recovery_trial_settles: "half_open_free i (snd (recovery_trial be i n g))"
  by (simp add: recovery_trial_def Let_def split_beta)

lemma refresh_attempts_trial_irrelevant:
  "refresh_attempts n api jc (be\<lparr>be_during_trial := f\<rparr>) i endpoint m v = refresh_attempts n api jc be i endpoint m v"
proof (induction n arbitrary: v)
  case 0
  show ?case by (cases v) simp
next
  case (Suc n)
  show ?case
    by (cases v) (simp add: Suc.IH Let_def cong: sum.case_cong option.case_cong prod.case_cong json.case_cong)
qed

lemma refresh_model_trial_irrelevant:
  "refresh_self_setup_model etcd jc (be\<lparr>be_during_trial := f\<rparr>) i endpoint ss observed w =
     refresh_self_setup_model etcd jc be i endpoint ss observed w"
  by (simp add: refresh_self_setup_model_def fetched_model_def refresh_attempts_trial_irrelevant Let_def
      del: refresh_attempts.simps split: option.split)

lemma probe_liveness_trial_irrelevant:
  "probe_liveness (be\<lparr>be_during_trial := f\<rparr>) endpoint ss g = probe_liveness be endpoint ss g"
  by (simp add: probe_liveness_def Let_def split: option.split)

lemma protected_disjoint:
  "s \<in> set PROTECTED_STATUSES \<Longrightarrow> s \<notin> set RECOVERABLE_STATUSES \<and> s \<notin> set DEMOTABLE_STATUSES"
  by (auto simp: PROTECTED_STATUSES_def RECOVERABLE_STATUSES_def DEMOTABLE_STATUSES_def)

section \<open>Properties\<close>

text \<open>
  A probe never takes a node out of a state owned by provisioning, relaunch or drain: whatever
  the backend answers and whatever etcd does, and with any interference that itself leaves the
  node in that state, a node that is AVAILABLE, DRAINING, RELAUNCHING, RELAUNCH_FAILED,
  PROVISIONING or FAILED before a probe of any node is so afterwards.
\<close>

theorem probe_keeps_protected:
  assumes "s \<in> set PROTECTED_STATUSES" "registry_ok (gw_registry (hw_gateway w))"
    and "status_of (hw_gateway w) j = Some s"
    and "env_keeps be (\<lambda>g. registry_ok (gw_registry g) \<and> status_of g j = Some s)"
  shows "status_of (hw_gateway (probe_node leases etcd jc be t i endpoint w)) j = Some s"
proof -
  let ?P = "\<lambda>g. registry_ok (gw_registry g) \<and> status_of g j = Some s"
  have "probe_writes_keep i ?P"
    unfolding probe_writes_keep_def using protected_disjoint [OF assms(1)] by auto
  from probe_node_keeps [OF assms(4) this] assms(2,3) show ?thesis by blast
qed

text \<open>
  The half-open slot is never leaked: a probe that found the breaker not HALF_OPEN leaves it not
  HALF_OPEN on every path (trial refused, failed, succeeded, node changed meanwhile), whatever
  other threads do to the gateway during the trial itself.
\<close>

theorem probe_releases_half_open:
  assumes "half_open_free i (hw_gateway w)"
    and "env_keeps (be\<lparr>be_during_trial := id\<rparr>) (half_open_free i)"
  shows "half_open_free i (hw_gateway (probe_node leases etcd jc be t i endpoint w))"
proof -
  let ?be = "be\<lparr>be_during_trial := id\<rparr>"
  have live: "half_open_free i (snd (probe_liveness be ep ss (hw_gateway w)))" for ep ss
    using probe_liveness_keeps [OF assms(2,1), of ep ss] by (simp only: probe_liveness_trial_irrelevant)
  have model: "half_open_free i (fst (refresh_self_setup_model etcd jc be i endpoint ss observed (g, e)))"
    if "half_open_free i g" for g e ss observed
    using refresh_model_keeps [OF assms(2), of i "(g, e)" etcd jc endpoint ss observed] that
    by (simp add: refresh_model_trial_irrelevant)
  have succ: "half_open_free i (snd (handle_probe_success be i g))" if "half_open_free i g" for g
  proof (cases rule: probe_success_cases [of be i g])
    case (trial n)
    then show ?thesis by (simp add: recovery_trial_settles)
  qed (use that in simp_all)
  have fail: "half_open_free i (handle_probe_failure t i g)" if "half_open_free i g" for g
    using that by (simp add: handle_probe_failure_def split_beta)
  show ?thesis
    using succ [OF model [OF live]] fail [OF live]
    unfolding probe_node_gateway Let_def by (simp split: option.split prod.split bool.split)
qed

text \<open>
  What the steps before the probe outcome leave alone when no other thread interferes: the status,
  the breaker and the failure count of every node.
\<close>

lemma probe_liveness_quiet: "quiet be \<Longrightarrow> snd (probe_liveness be endpoint ss g) = g"
  by (simp add: probe_liveness_def quiet_def Let_def split: option.split)

lemma refresh_quiet:
  fixes w :: "gateway \<times> 'e"
  assumes "quiet be" "registry_ok (gw_registry (fst w))"
    and w': "w' = refresh_self_setup_model etcd jc be i endpoint ss observed w"
  shows "registry_ok (gw_registry (fst w'))" "status_of (fst w') j = status_of (fst w) j"
    "breaker_of (fst w') j = breaker_of (fst w) j" "gw_failures (fst w') = gw_failures (fst w)"
    "map_option node_endpoint (registry_get (gw_registry (fst w')) j) =
       map_option node_endpoint (registry_get (gw_registry (fst w)) j)"
proof -
  let ?P = "\<lambda>g. registry_ok (gw_registry g) \<and> status_of g j = status_of (fst w) j \<and>
    breaker_of g j = breaker_of (fst w) j \<and> gw_failures g = gw_failures (fst w) \<and>
    map_option node_endpoint (registry_get (gw_registry g) j) =
       map_option node_endpoint (registry_get (gw_registry (fst w)) j)"
  have "?P (fst w')" unfolding w'
  proof (rule refresh_model_keeps [OF quiet_keeps [OF assms(1)]])
    fix g endpoint m
    assume P: "?P g"
    then have ok: "registry_ok (gw_registry g)" by simp
    have "map_option node_endpoint (registry_get (gw_registry (snd (apply_model_if_current i endpoint m g))) j) =
        map_option node_endpoint (registry_get (gw_registry g) j)"
      by (cases "registry_get (gw_registry g) j") (simp_all add: apply_model_get [OF ok])
    with P show "?P (snd (apply_model_if_current i endpoint m g))" by simp
  qed (use assms(2) in simp)
  then show "registry_ok (gw_registry (fst w'))" "status_of (fst w') j = status_of (fst w) j"
    "breaker_of (fst w') j = breaker_of (fst w) j" "gw_failures (fst w') = gw_failures (fst w)"
    "map_option node_endpoint (registry_get (gw_registry (fst w')) j) =
       map_option node_endpoint (registry_get (gw_registry (fst w)) j)"
    by simp_all
qed

lemma recovery_trial_quiet:
  assumes "quiet be" "status_of (snd (recovery_trial be i n g)) i = Some HEALTHY" "status_of g i \<noteq> Some HEALTHY"
  shows "be_trial be (node_endpoint n) (node_model n) \<and>
    gw_registry (snd (recovery_trial be i n g)) =
      gw_registry (snd (gw_update_status i HEALTHY RECOVERABLE_STATUSES g)) \<and>
    breaker_of (snd (recovery_trial be i n g)) i = map_option record_success (breaker_of g i)"
proof -
  have trial: "be_trial be (node_endpoint n) (node_model n)"
    using assms by (auto simp: recovery_trial_def Let_def quiet_def split: if_splits)
  have "\<exists>s \<in> set RECOVERABLE_STATUSES. status_of g i = Some s"
    using assms trial by (auto simp: recovery_trial_def Let_def quiet_def split_beta split: if_splits)
  then have "fst (gw_update_status i HEALTHY RECOVERABLE_STATUSES g)"
    by (auto simp: gw_update_status_eq update_status_fst status_of_def)
  with trial assms(1) show ?thesis
    by (simp add: recovery_trial_def Let_def quiet_def split_beta)
qed

text \<open>
  C34. An open breaker is closed only by inference: when no other thread intervenes, a probe that
  turns a node with an open breaker HEALTHY has run the completion trial against the node's
  current endpoint and model and it succeeded; the breaker is then closed with no failures
  counted. Liveness alone never does it.
\<close>

theorem recovery_requires_inference:
  assumes "quiet be" "registry_ok (gw_registry (hw_gateway w))"
    and "breaker_of (hw_gateway w) i = Some b" "is_open b"
    and "status_of (hw_gateway w) i \<noteq> Some HEALTHY"
    and "registry_get (gw_registry (hw_gateway (probe_node leases etcd jc be t i endpoint w))) i = Some n'"
    and "node_status n' = HEALTHY"
  shows "be_trial be (node_endpoint n') (node_model n') \<and>
    breaker_of (hw_gateway (probe_node leases etcd jc be t i endpoint w)) i = Some (record_success (snd (try_half_open b)))"
proof -
  define ss where "ss = (case registry_get (gw_registry (hw_gateway w)) i of None \<Rightarrow> False | Some n \<Rightarrow> node_self_setup n)"
  define g where "g = (\<lambda>observed. fst (refresh_self_setup_model etcd jc be i endpoint ss observed (hw_gateway w, hw_etcd w)))"
  have g: "registry_ok (gw_registry (g ob))" "status_of (g ob) i = status_of (hw_gateway w) i"
    "breaker_of (g ob) i = Some b" for ob
    using refresh_quiet(1) [OF assms(1) _ refl, of "(hw_gateway w, hw_etcd w)" etcd jc i endpoint ss ob]
      refresh_quiet(2,3) [OF assms(1) _ refl, of "(hw_gateway w, hw_etcd w)" etcd jc i endpoint ss ob i] assms(2,3)
    by (simp_all add: g_def)
  have live: "snd (probe_liveness be endpoint ss (hw_gateway w)) = hw_gateway w"
    by (rule probe_liveness_quiet [OF assms(1)])
  have healthy: "status_of (hw_gateway (probe_node leases etcd jc be t i endpoint w)) i = Some HEALTHY"
    using assms(6,7) by (simp add: status_of_def)
  have "status_of (handle_probe_failure t i (hw_gateway w)) i \<noteq> Some HEALTHY"
    using assms(5) by (auto simp: handle_probe_failure_def split_beta)
  with healthy obtain ob where eq: "hw_gateway (probe_node leases etcd jc be t i endpoint w) = snd (handle_probe_success be i (g ob))"
    unfolding probe_node_gateway Let_def ss_def [symmetric] live g_def
    by (auto split: option.splits prod.splits bool.splits)
  have opened: "is_open b" "cb_get (gw_breakers (failures_reset i (g ob))) i = Some b"
    using assms(4) g(3) by (simp_all add: breaker_of_def)
  show ?thesis
  proof (cases rule: probe_success_cases [of be i "g ob"])
    case (trial n)
    let ?g2 = "breaker_update i (\<lambda>b. snd (try_half_open b)) (failures_reset i (g ob))"
    have st: "status_of (snd (recovery_trial be i n ?g2)) i = Some HEALTHY" "status_of ?g2 i \<noteq> Some HEALTHY"
      using healthy eq trial(2) assms(5) g(2) by simp_all
    note rt = recovery_trial_quiet [OF assms(1) st]
    have "registry_get (gw_registry (snd (recovery_trial be i n ?g2))) i = Some n'"
      using assms(6) eq trial(2) by simp
    then have "node_endpoint n' = node_endpoint n \<and> node_model n' = node_model n"
      using rt trial(1) by (auto simp: gw_update_status_get split: if_splits)
    with rt eq trial(2) g(3) [of ob] show ?thesis by simp
  qed (use healthy eq assms(5) g opened in auto)
qed

definition health_fails :: "backend \<Rightarrow> string \<Rightarrow> bool" where
  "health_fails be endpoint \<longleftrightarrow>
     (case be_health be endpoint of
        None \<Rightarrow> True
      | Some r \<Rightarrow> rp_status r \<noteq> 200 \<and> rp_status r \<notin> set OPTIONAL_HEALTH_STATUSES)"

lemma probe_node_fails:
  assumes "quiet be" "health_fails be endpoint"
  shows "hw_gateway (probe_node leases etcd jc be t i endpoint w) = handle_probe_failure t i (hw_gateway w)"
  using assms
  by (cases "be_health be endpoint")
    (simp_all add: probe_node_gateway Let_def probe_liveness_def health_fails_def quiet_def)

lemma handle_probe_failure_effect:
  "dict_get_or (gw_failures (handle_probe_failure t i g)) i 0 = dict_get_or (gw_failures g) i 0 + 1"
  "status_of (handle_probe_failure t i g) i =
     (if t \<le> dict_get_or (gw_failures g) i 0 + 1 \<and> status_of g i \<in> {Some HEALTHY, Some UNKNOWN}
      then Some UNHEALTHY else status_of g i)"
  by (auto simp: handle_probe_failure_def split_beta DEMOTABLE_STATUSES_def)
    (simp_all add: failures_increment_def Let_def)

text \<open>
  Demotion happens exactly at the threshold: with the failure counter at zero and a backend
  that keeps failing its health check, a HEALTHY node is still HEALTHY after fewer than
  \<open>failure_threshold\<close> probes and UNHEALTHY from that many on.
\<close>

theorem demotion_at_threshold:
  assumes "quiet be" "health_fails be endpoint" "1 \<le> t"
    and "status_of (hw_gateway w) i = Some HEALTHY" "dict_get_or (gw_failures (hw_gateway w)) i 0 = 0"
  shows "status_of (hw_gateway ((probe_node leases etcd jc be t i endpoint ^^ n) w)) i =
    Some (if t \<le> int n then UNHEALTHY else HEALTHY)"
proof -
  let ?w = "\<lambda>n. (probe_node leases etcd jc be t i endpoint ^^ n) w"
  have "dict_get_or (gw_failures (hw_gateway (?w n))) i 0 = int n \<and>
      status_of (hw_gateway (?w n)) i = Some (if t \<le> int n then UNHEALTHY else HEALTHY)"
  proof (induction n)
    case 0
    show ?case using assms(3-5) by simp
  next
    case (Suc n)
    have "hw_gateway (?w (Suc n)) = handle_probe_failure t i (hw_gateway (?w n))"
      using probe_node_fails [OF assms(1,2)] by simp
    with Suc show ?case by (simp add: handle_probe_failure_effect)
  qed
  then show ?thesis by simp
qed

lemma refresh_attempts_sets_model:
  assumes "quiet be" "registry_ok (gw_registry (fst v))"
    and "map_option node_endpoint (registry_get (gw_registry (fst v)) i) = Some endpoint"
  shows "map_option node_model (registry_get (gw_registry (fst (refresh_attempts n api jc be i endpoint m v))) i) = Some m"
proof -
  obtain g e where v: "v = (g, e)" by fastforce
  have "map_option node_model (registry_get (gw_registry (snd (apply_model_if_current i endpoint m g))) i) = Some m"
    using assms(2,3) by (auto simp: v apply_model_get)
  then show ?thesis
    unfolding v using assms(1)
  proof (induction n arbitrary: e)
    case (Suc n)
    then show ?case
      by (auto simp: Let_def quiet_def split: prod.split sum.split option.split json.split)
  qed simp
qed

lemma refresh_sets_model:
  assumes "quiet be" "registry_ok (gw_registry g)" "registry_get (gw_registry g) i = Some n"
    and "node_endpoint n = endpoint" "fetched_model be endpoint = Some m"
    and "observed = None \<or> observed = fetched_model be endpoint"
  shows "map_option node_model (registry_get (gw_registry
    (fst (refresh_self_setup_model etcd jc be i endpoint True observed (g, e)))) i) = Some m"
proof -
  have a: "map_option node_model (registry_get (gw_registry (fst (refresh_attempts 3 api jc be i endpoint m (g, e)))) i) = Some m"
    for api :: "'a etcd_api"
    using assms by (intro refresh_attempts_sets_model) auto
  have b: "map_option node_model (registry_get (gw_registry (snd (apply_model_if_current i endpoint m g))) i) = Some m"
    using assms(2-4) by (simp add: apply_model_get)
  have model: "(if observed = None then fetched_model be endpoint else observed) = Some m"
    and env: "(if observed = None then be_during_models be g else g) = g"
    using assms(1,5,6) by (auto simp: quiet_def)
  show ?thesis
    unfolding refresh_self_setup_model_def fst_conv snd_conv model env Let_def
    using a b assms(3,4) by (auto simp del: refresh_attempts.simps split: option.split)
qed

definition found_alive :: "backend \<Rightarrow> string \<Rightarrow> bool" where
  "found_alive be endpoint \<longleftrightarrow>
     (\<exists>r. be_health be endpoint = Some r \<and> (rp_status r = 200 \<or>
        rp_status r \<in> set OPTIONAL_HEALTH_STATUSES \<and> (\<exists>m. be_models be endpoint = Some m \<and> rp_status m = 200)))"

lemma probe_liveness_alive:
  assumes "found_alive be endpoint"
  shows "\<exists>ob. fst (probe_liveness be endpoint True g) = Some (True, ob) \<and> (ob = None \<or> ob = fetched_model be endpoint)"
  using assms by (auto simp: found_alive_def probe_liveness_def Let_def fetched_model_def)

lemma probe_success_model:
  assumes "quiet be"
  shows "map_option node_model (registry_get (gw_registry (snd (handle_probe_success be i g))) j) =
    map_option node_model (registry_get (gw_registry g) j)"
proof -
  have st: "map_option node_model (registry_get (gw_registry (snd (gw_update_status i HEALTHY fr h))) j) =
      map_option node_model (registry_get (gw_registry h) j)" for fr h
    by (simp add: gw_update_status_get split: option.split)
  show ?thesis
  proof (cases rule: probe_success_cases [of be i g])
    case (trial n)
    then show ?thesis using assms st by (simp add: recovery_trial_def Let_def split_beta quiet_def)
  qed (simp_all add: st)
qed

text \<open>
  A self-setup node follows its server: after a probe cycle that found it alive at its
  registered endpoint and reporting a model, the registry carries that model, whether etcd
  accepts the write, refuses every compare-and-swap or fails.
\<close>

theorem self_setup_model_followed:
  assumes "quiet be" "registry_ok (gw_registry (hw_gateway w))"
    and "registry_get (gw_registry (hw_gateway w)) i = Some n" "node_self_setup n" "node_endpoint n = endpoint"
    and "found_alive be endpoint" "fetched_model be endpoint = Some m"
  shows "map_option node_model
    (registry_get (gw_registry (hw_gateway (probe_node leases etcd jc be t i endpoint w))) i) = Some m"
proof -
  obtain ob where ob: "fst (probe_liveness be endpoint True (hw_gateway w)) = Some (True, ob)"
    "ob = None \<or> ob = fetched_model be endpoint"
    using probe_liveness_alive [OF assms(6)] by blast
  have "hw_gateway (probe_node leases etcd jc be t i endpoint w) = snd (handle_probe_success be i
      (fst (refresh_self_setup_model etcd jc be i endpoint True ob (hw_gateway w, hw_etcd w))))"
    using ob(1) assms(3,4) by (simp add: probe_node_gateway Let_def probe_liveness_quiet [OF assms(1)])
  then show ?thesis
    using refresh_sets_model [OF assms(1-3,5,7) ob(2)] by (simp add: probe_success_model [OF assms(1)])
qed

section \<open>Witnesses\<close>

definition scripted_backend :: "reply option \<Rightarrow> reply option \<Rightarrow> bool \<Rightarrow> backend" where
  "scripted_backend health models trial =
     \<lparr>be_health = (\<lambda>_. health), be_models = (\<lambda>_. models), be_trial = (\<lambda>_ _. trial),
      be_during_health = id, be_during_models = id, be_during_trial = id, be_during_etcd = id, be_during_lease = id\<rparr>"

definition plain_codec :: json_codec where
  "plain_codec = \<lparr>jc_loads = (\<lambda>_. None), jc_dumps = (\<lambda>_. [])\<rparr>"

definition one_node_world :: "node \<Rightarrow> nat health_world" where
  "one_node_world n =
     \<lparr>hw_gateway = idle_gateway [(node_id n, n)], hw_leases = NodeLeaseManager_new, hw_etcd = 0\<rparr>"

lemma scripted_quiet [simp]: "quiet (scripted_backend h m t)"
  by (simp add: quiet_def scripted_backend_def)

lemma one_node_world_ok [simp]: "registry_ok (gw_registry (hw_gateway (one_node_world n)))"
  by (simp add: one_node_world_def idle_gateway_def registry_ok_def dict_ok_def)

lemma one_node_world_get [simp]:
  "registry_get (gw_registry (hw_gateway (one_node_world n))) (node_id n) = Some n"
  by (simp add: one_node_world_def idle_gateway_def registry_get_def)

definition failed_node :: node where
  "failed_node = (blank_node ''a'' ''http://a:8000'')\<lparr>node_status := FAILED, node_model := ''m''\<rparr>"

theorem probe_keeps_protected_witness:
  "status_of (hw_gateway (probe_node None (Some silent_api) plain_codec
     (scripted_backend (Some \<lparr>rp_status = 200, rp_json = None\<rparr>) None True) 3 ''a'' ''http://a:8000''
     (one_node_world failed_node))) ''a'' = Some FAILED"
proof -
  have "status_of (hw_gateway (one_node_world failed_node)) ''a'' = Some FAILED"
    using one_node_world_get [of failed_node] by (simp add: status_of_def failed_node_def blank_node_def)
  then show ?thesis
    by (intro probe_keeps_protected) (simp_all add: PROTECTED_STATUSES_def)
qed

definition tripped_world :: "nat health_world" where
  "tripped_world =
     (let w = one_node_world (failed_node\<lparr>node_status := UNHEALTHY\<rparr>); g = hw_gateway w
      in w\<lparr>hw_gateway := g\<lparr>gw_breakers := cb_put ''a'' \<lparr>cb_threshold = 3, cb_failure_count = 3, cb_state = OPEN\<rparr>
             (gw_breakers g)\<rparr>\<rparr>)"

definition recovering_backend :: backend where
  "recovering_backend = scripted_backend (Some \<lparr>rp_status = 200, rp_json = None\<rparr>) None True"

definition probed_world :: "nat health_world" where
  "probed_world = probe_node None None plain_codec recovering_backend 3 ''a'' ''http://a:8000'' tripped_world"

lemma tripped_breaker:
  "breaker_of (hw_gateway tripped_world) ''a'' = Some \<lparr>cb_threshold = 3, cb_failure_count = 3, cb_state = OPEN\<rparr>"
  by (simp add: tripped_world_def breaker_of_def Let_def)

theorem probe_releases_half_open_witness:
  "half_open_free ''a'' (hw_gateway probed_world) \<and> half_open_free ''a'' (hw_gateway tripped_world)"
proof
  show t: "half_open_free ''a'' (hw_gateway tripped_world)"
    by (simp add: half_open_free_def tripped_breaker)
  have "env_keeps (recovering_backend\<lparr>be_during_trial := id\<rparr>) (half_open_free ''a'')"
    by (simp add: recovering_backend_def env_keeps_def scripted_backend_def)
  with t show "half_open_free ''a'' (hw_gateway probed_world)"
    unfolding probed_world_def by (rule probe_releases_half_open)
qed

lemma probed_world_node:
  "registry_get (gw_registry (hw_gateway probed_world)) ''a'' = Some (failed_node\<lparr>node_status := HEALTHY\<rparr>)"
  by code_simp

theorem recovery_requires_inference_witness:
  "be_trial recovering_backend ''http://a:8000'' ''m'' \<and>
   breaker_of (hw_gateway probed_world) ''a'' = Some \<lparr>cb_threshold = 3, cb_failure_count = 0, cb_state = CLOSED\<rparr>"
proof -
  let ?b = "\<lparr>cb_threshold = 3, cb_failure_count = 3, cb_state = OPEN\<rparr>"
  have q: "quiet recovering_backend" by (simp add: recovering_backend_def)
  have ok: "registry_ok (gw_registry (hw_gateway tripped_world))"
    using one_node_world_ok by (simp add: tripped_world_def Let_def)
  have st: "status_of (hw_gateway tripped_world) ''a'' \<noteq> Some HEALTHY" by code_simp
  have n: "node_endpoint failed_node = ''http://a:8000''" "node_model failed_node = ''m''"
    by (simp_all add: failed_node_def blank_node_def)
  from recovery_requires_inference [OF q ok tripped_breaker _ st probed_world_node [unfolded probed_world_def]]
  show ?thesis by (simp add: breaker_defs n probed_world_def)
qed

theorem demotion_at_threshold_witness:
  "status_of (hw_gateway ((probe_node None None plain_codec (scripted_backend None None False) 3 ''a'' ''h:1'' ^^ 2)
     (one_node_world example_node))) ''a'' = Some HEALTHY \<and>
   status_of (hw_gateway ((probe_node None None plain_codec (scripted_backend None None False) 3 ''a'' ''h:1'' ^^ 3)
     (one_node_world example_node))) ''a'' = Some UNHEALTHY"
proof -
  have h: "status_of (hw_gateway (one_node_world example_node)) ''a'' = Some HEALTHY"
    "dict_get_or (gw_failures (hw_gateway (one_node_world example_node))) ''a'' 0 = 0"
    by code_simp+
  have f: "health_fails (scripted_backend None None False) ''h:1''"
    by (simp add: health_fails_def scripted_backend_def)
  show ?thesis
    using demotion_at_threshold [OF scripted_quiet f _ h, where t = 3 and n = 2]
      demotion_at_threshold [OF scripted_quiet f _ h, where t = 3 and n = 3] by simp
qed

definition models_reply :: reply where
  "models_reply = \<lparr>rp_status = 200, rp_json = Some (JObj [(''data'', JList [JObj [(''id'', JStr '' llama '')]])])\<rparr>"

theorem self_setup_model_followed_witness:
  "map_option node_model (registry_get (gw_registry (hw_gateway (probe_node None (Some silent_api) plain_codec
     (scripted_backend (Some \<lparr>rp_status = 404, rp_json = None\<rparr>) (Some models_reply) False) 3 ''a'' ''h:1''
     (one_node_world (example_node\<lparr>node_self_setup := True\<rparr>))))) ''a'') = Some ''llama''"
proof -
  let ?be = "scripted_backend (Some \<lparr>rp_status = 404, rp_json = None\<rparr>) (Some models_reply) False"
  have "found_alive ?be ''h:1''"
    by (simp add: found_alive_def scripted_backend_def OPTIONAL_HEALTH_STATUSES_def models_reply_def)
  moreover have "fetched_model ?be ''h:1'' = Some ''llama''" by code_simp
  moreover have n: "node_id (example_node\<lparr>node_self_setup := True\<rparr>) = ''a''"
    "node_endpoint (example_node\<lparr>node_self_setup := True\<rparr>) = ''h:1''"
    by (simp_all add: example_node_def blank_node_def)
  ultimately show ?thesis
    using self_setup_model_followed [OF scripted_quiet one_node_world_ok
        one_node_world_get [of "example_node\<lparr>node_self_setup := True\<rparr>", unfolded n(1)] _ n(2)]
    by simp
qed

end
