(* ===== verification/ProvisioningState.thy ===== *)
theory ProvisioningState
  imports NodeModel
begin

text \<open>
  \<^verbatim>\<open>provisioning/state.py\<close>: the steps of a provisioning, relaunch or teardown task and the task
  record that is persisted under \<^verbatim>\<open>/provisioning/\<close>.
\<close>

datatype ProvisioningStep =
    PS_PENDING | PS_POWERING_ON | PS_PREFLIGHT | PS_UPLOADING_SCRIPTS | PS_SYSTEM_UPDATE
  | PS_SYSTEM_PREREQUISITES | PS_NVIDIA_DRIVER | PS_CUDA_TOOLKIT | PS_VLLM_INSTALL
  | PS_LLAMACPP_INSTALL | PS_GENERATION_ACTIVATE | PS_NFS_MOUNT | PS_FIREWALL | PS_LLMFIT_INSTALL
  | PS_STARTING_VLLM | PS_STARTING_LLAMACPP | PS_HEALTH_POLL | PS_REGISTERING
  | PS_RELAUNCH_VALIDATING | PS_DRAINING | PS_STOPPING_VLLM | PS_STOPPING_LLAMACPP
  | PS_DEREGISTERING | PS_ROLLING_BACK | PS_TEARDOWN_COMPLETE | PS_COMPLETE | PS_FAILED

fun ProvisioningStep_value :: "ProvisioningStep \<Rightarrow> string" where
  "ProvisioningStep_value PS_PENDING = ''pending''"
| "ProvisioningStep_value PS_POWERING_ON = ''powering_on''"
| "ProvisioningStep_value PS_PREFLIGHT = ''preflight''"
| "ProvisioningStep_value PS_UPLOADING_SCRIPTS = ''uploading_scripts''"
| "ProvisioningStep_value PS_SYSTEM_UPDATE = ''system_update''"
| "ProvisioningStep_value PS_SYSTEM_PREREQUISITES = ''system_prerequisites''"
| "ProvisioningStep_value PS_NVIDIA_DRIVER = ''nvidia_driver''"
| "ProvisioningStep_value PS_CUDA_TOOLKIT = ''cuda_toolkit''"
| "ProvisioningStep_value PS_VLLM_INSTALL = ''vllm_install''"
| "ProvisioningStep_value PS_LLAMACPP_INSTALL = ''llamacpp_install''"
| "ProvisioningStep_value PS_GENERATION_ACTIVATE = ''generation_activate''"
| "ProvisioningStep_value PS_NFS_MOUNT = ''nfs_mount''"
| "ProvisioningStep_value PS_FIREWALL = ''firewall''"
| "ProvisioningStep_value PS_LLMFIT_INSTALL = ''llmfit_install''"
| "ProvisioningStep_value PS_STARTING_VLLM = ''starting_vllm''"
| "ProvisioningStep_value PS_STARTING_LLAMACPP = ''starting_llamacpp''"
| "ProvisioningStep_value PS_HEALTH_POLL = ''health_poll''"
| "ProvisioningStep_value PS_REGISTERING = ''registering''"
| "ProvisioningStep_value PS_RELAUNCH_VALIDATING = ''relaunch_validating''"
| "ProvisioningStep_value PS_DRAINING = ''draining''"
| "ProvisioningStep_value PS_STOPPING_VLLM = ''stopping_vllm''"
| "ProvisioningStep_value PS_STOPPING_LLAMACPP = ''stopping_llamacpp''"
| "ProvisioningStep_value PS_DEREGISTERING = ''deregistering''"
| "ProvisioningStep_value PS_ROLLING_BACK = ''rolling_back''"
| "ProvisioningStep_value PS_TEARDOWN_COMPLETE = ''teardown_complete''"
| "ProvisioningStep_value PS_COMPLETE = ''complete''"
| "ProvisioningStep_value PS_FAILED = ''failed''"

definition TEARDOWN_STEPS :: "ProvisioningStep list" where
  "TEARDOWN_STEPS = [PS_DRAINING, PS_STOPPING_VLLM, PS_STOPPING_LLAMACPP, PS_DEREGISTERING]"

datatype ProvisioningResumeState = MAINTENANCE_REQUIRED | REBOOT_REQUIRED

datatype ProvisioningStageStatus = STAGE_RUNNING | STAGE_COMPLETED | STAGE_SKIPPED | STAGE_FAILED

record ProvisioningCheckpoint =
  pc_stage :: string
  pc_status :: ProvisioningStageStatus
  pc_plan_id :: "string option"
  pc_attempt_id :: "string option"
  pc_attempt_number :: "int option"
  pc_started_at :: "py_datetime option"
  pc_completed_at :: "py_datetime option"
  pc_evidence :: "string option"

record ProvisioningState =
  ps_hostname :: host
  ps_attempt_id :: "string option"
  ps_engine :: "InferenceEngine option"
  ps_current_step :: ProvisioningStep
  ps_started_at :: py_datetime
  ps_updated_at :: py_datetime
  ps_failed_step :: "string option"
  ps_error :: "string option"
  ps_resume_state :: "ProvisioningResumeState option"
  ps_attempt_number :: "int option"
  ps_retry_count :: int
  ps_progress :: "(string \<times> json) list option"
  ps_failure_class :: "string option"
  ps_next_action :: "string option"

end
