(* ===== verification/Serializer.thy ===== *)
theory Serializer
  imports NodeLeases ProvisioningState
begin

text \<open>
  \<^verbatim>\<open>discovery/serializer.py\<close> and \<^verbatim>\<open>discovery/relaunch_recovery.py\<close>: node records to and from etcd and
  the settlement of relaunches that a gateway restart interrupted. The record \<open>wire\<close> collects what
  those functions call outside this development: the JSON codec, the endpoint policy's
  \<open>normalize\<close> and \<open>parse_endpoint(...).origin\<close> (\<open>None\<close>: it raises), and Pydantic's construction and
  dump of \<open>Node\<close> and \<open>ProvisioningState\<close>.
\<close>

record wire =
  wr_codec :: json_codec
  wr_normalize :: "string \<Rightarrow> string option"
  wr_origin :: "string \<Rightarrow> string option"
  wr_node :: "string \<Rightarrow> (string, json) dict \<Rightarrow> node option"
  wr_dump :: "node \<Rightarrow> (string, json) dict"
  wr_state :: "json \<Rightarrow> ProvisioningState option"
  wr_state_dump :: "ProvisioningState \<Rightarrow> (string, json) dict"

text \<open>A constructed node carries the \<open>node_id\<close> it was constructed with.\<close>

definition wire_ok :: "wire \<Rightarrow> bool" where
  "wire_ok wr \<longleftrightarrow> (\<forall>i d n. wr_node wr i d = Some n \<longrightarrow> node_id n = i)"

section \<open>Serializer\<close>

definition node_from_etcd :: "wire \<Rightarrow> string \<Rightarrow> string \<Rightarrow> string \<Rightarrow> node option" where
  "node_from_etcd wr key value prefix =
     (case utf8_decode key of
        None \<Rightarrow> None
      | Some k \<Rightarrow>
          (let i = str_removeprefix k prefix
           in case jc_loads (wr_codec wr) value of
                Some (JObj d) \<Rightarrow>
                  (case dict_get d ''endpoint'' of
                     Some (JStr raw_endpoint) \<Rightarrow>
                       (case wr_normalize wr raw_endpoint of
                          None \<Rightarrow> None
                        | Some endpoint \<Rightarrow>
                            (let d = dict_set ''endpoint'' (JStr endpoint) d
                             in if dict_get d ''node_id'' \<noteq> None then None else wr_node wr i d))
                   | _ \<Rightarrow> None)
              | _ \<Rightarrow> None))"

definition node_to_etcd :: "wire \<Rightarrow> node \<Rightarrow> string \<Rightarrow> etcd_error + (string \<times> string)" where
  "node_to_etcd wr n prefix =
     (case wr_origin wr (node_endpoint n) of
        None \<Rightarrow> Inl EndpointValidationError
      | Some origin \<Rightarrow>
          Inr (prefix @ node_id n,
               jc_dumps (wr_codec wr) (JObj (dict_set ''endpoint'' (JStr origin) (wr_dump wr n)))))"

lemma node_from_etcd_id:
  "wire_ok wr \<Longrightarrow> node_from_etcd wr key value prefix = Some n \<Longrightarrow>
     \<exists>k. utf8_decode key = Some k \<and> node_id n = str_removeprefix k prefix"
  by (auto simp: node_from_etcd_def wire_ok_def Let_def split: option.splits json.splits if_splits)

section \<open>Interrupted relaunches\<close>

definition RELAUNCH_TASK_STEPS :: "ProvisioningStep list" where
  "RELAUNCH_TASK_STEPS =
     [PS_RELAUNCH_VALIDATING, PS_DRAINING, PS_STOPPING_LLAMACPP, PS_STARTING_LLAMACPP, PS_HEALTH_POLL,
      PS_REGISTERING, PS_ROLLING_BACK]"

definition INTERRUPTED_RELAUNCH_ERROR :: string where
  "INTERRUPTED_RELAUNCH_ERROR = ''Gateway restarted during llama.cpp relaunch; teardown required''"

text \<open>\<open>dict.update\<close>.\<close>

definition dict_update :: "('k, 'v) dict \<Rightarrow> ('k, 'v) dict \<Rightarrow> ('k, 'v) dict" where
  "dict_update d other = foldl (\<lambda>d (k, v). dict_set k v d) d other"

definition fail_relaunch_task :: "py_datetime \<Rightarrow> ProvisioningState \<Rightarrow> ProvisioningState" where
  "fail_relaunch_task now st =
     st\<lparr>ps_current_step := PS_FAILED, ps_updated_at := now,
        ps_failed_step := Some (ProvisioningStep_value (ps_current_step st)),
        ps_error := Some INTERRUPTED_RELAUNCH_ERROR\<rparr>"

definition reconcile_interrupted_relaunch_task ::
  "wire \<Rightarrow> 'e etcd_api \<Rightarrow> py_datetime \<Rightarrow> host \<Rightarrow> 'e \<Rightarrow> 'e" where
  "reconcile_interrupted_relaunch_task wr api now hostname e =
     (let key = ''/provisioning/'' @ hostname
      in case get_record api key e of
           (Inr (Some rec), e) \<Rightarrow>
             (case jc_loads (wr_codec wr) (er_value rec) of
                None \<Rightarrow> e
              | Some document \<Rightarrow>
                  (case (wr_state wr document, document) of
                     (Some st, JObj d) \<Rightarrow>
                       if ps_hostname st \<noteq> hostname \<or> ps_current_step st \<notin> set RELAUNCH_TASK_STEPS then e
                       else snd (replace_if_revision api key
                              (jc_dumps (wr_codec wr)
                                (JObj (dict_update d (wr_state_dump wr (fail_relaunch_task now st)))))
                              (er_mod_revision rec) 0 e)
                   | _ \<Rightarrow> e))
         | (_, e) \<Rightarrow> e)"

text \<open>
  \<open>status not in {...}\<close> hashes the value first: a JSON array or object raises \<open>TypeError\<close>, which
  the function does not catch.
\<close>

fun hashable :: "json \<Rightarrow> bool" where
  "hashable (JList _) = False"
| "hashable (JObj _) = False"
| "hashable _ = True"

fun reconcile_interrupted_relaunch ::
  "nat \<Rightarrow> wire \<Rightarrow> 'e etcd_api \<Rightarrow> py_datetime \<Rightarrow> EtcdRecord option \<Rightarrow> ('e, EtcdRecord option) etcd_call" where
  "reconcile_interrupted_relaunch 0 wr api now rec e = (Inr None, e)"
| "reconcile_interrupted_relaunch (Suc attempts) wr api now None e = (Inr None, e)"
| "reconcile_interrupted_relaunch (Suc attempts) wr api now (Some rec) e =
     (case jc_loads (wr_codec wr) (er_value rec) of
        Some (JObj document) \<Rightarrow>
          (let status = dict_get_or document ''status'' JNull
           in if \<not> hashable status then (Inl TypeError, e)
              else if status \<notin> {JStr (NodeStatus_value RELAUNCHING), JStr (NodeStatus_value RELAUNCH_FAILED)}
              then (Inr (Some rec), e)
              else case node_from_etcd wr (er_key rec) (er_value rec) (api_prefix api) of
                     None \<Rightarrow> (Inr None, e)
                   | Some n \<Rightarrow>
                       if status = JStr (NodeStatus_value RELAUNCH_FAILED)
                       then (Inr (Some rec), reconcile_interrupted_relaunch_task wr api now (node_id n) e)
                       else case node_to_etcd wr
                                (node_with_status n RELAUNCH_FAILED (\<lambda>n. n\<lparr>node_llamacpp_runtime := None\<rparr>))
                                (api_prefix api) of
                              Inl err \<Rightarrow> (Inl err, e)
                            | Inr (key, value) \<Rightarrow>
                                (case replace_if_revision api key value (er_mod_revision rec) 0 e of
                                   (Inl err, e) \<Rightarrow> (Inl err, e)
                                 | (Inr (Some committed), e) \<Rightarrow>
                                     (Inr (Some \<lparr>er_key = utf8_encode key, er_value = value,
                                                 er_mod_revision = committed, er_lease_id = 0\<rparr>),
                                      reconcile_interrupted_relaunch_task wr api now (node_id n) e)
                                 | (Inr None, e) \<Rightarrow>
                                     (case get_record api key e of
                                        (Inl err, e) \<Rightarrow> (Inl err, e)
                                      | (Inr rec', e) \<Rightarrow> reconcile_interrupted_relaunch attempts wr api now rec' e)))
      | _ \<Rightarrow> (Inr (Some rec), e))"

abbreviation RECONCILE_ATTEMPTS :: nat where
  "RECONCILE_ATTEMPTS \<equiv> 3"

fun reconcile_records ::
  "wire \<Rightarrow> 'e etcd_api \<Rightarrow> py_datetime \<Rightarrow> EtcdRecord list \<Rightarrow> ('e, EtcdRecord list) etcd_call" where
  "reconcile_records wr api now [] e = (Inr [], e)"
| "reconcile_records wr api now (rec # recs) e =
     (case reconcile_interrupted_relaunch RECONCILE_ATTEMPTS wr api now (Some rec) e of
        (Inl err, e) \<Rightarrow> (Inl err, e)
      | (Inr keep, e) \<Rightarrow>
          (case reconcile_records wr api now recs e of
             (Inl err, e) \<Rightarrow> (Inl err, e)
           | (Inr rest, e) \<Rightarrow> (Inr (case keep of None \<Rightarrow> rest | Some r \<Rightarrow> r # rest), e)))"

definition reconcile_startup_snapshot ::
  "wire \<Rightarrow> 'e etcd_api \<Rightarrow> py_datetime \<Rightarrow> EtcdSnapshot \<Rightarrow> ('e, EtcdSnapshot) etcd_call" where
  "reconcile_startup_snapshot wr api now snapshot e =
     (case reconcile_records wr api now (es_records snapshot) e of
        (Inl err, e) \<Rightarrow> (Inl err, e)
      | (Inr records, e) \<Rightarrow> (Inr \<lparr>es_records = records, es_revision = es_revision snapshot\<rparr>, e))"

section \<open>Properties\<close>

text \<open>The codec gives back the status field of an object it encoded, and Pydantic dumps the status
  by value.\<close>

definition wire_roundtrip :: "wire \<Rightarrow> bool" where
  "wire_roundtrip wr \<longleftrightarrow>
     (\<forall>d s. dict_get d ''status'' = Some (JStr s) \<longrightarrow>
        (\<exists>d'. jc_loads (wr_codec wr) (jc_dumps (wr_codec wr) (JObj d)) = Some (JObj d') \<and>
              dict_get d' ''status'' = Some (JStr s))) \<and>
     (\<forall>n. dict_get (wr_dump wr n) ''status'' = Some (JStr (NodeStatus_value (node_status n))))"

definition record_status :: "wire \<Rightarrow> EtcdRecord \<Rightarrow> json" where
  "record_status wr rec =
     (case jc_loads (wr_codec wr) (er_value rec) of
        Some (JObj d) \<Rightarrow> dict_get_or d ''status'' JNull
      | _ \<Rightarrow> JNull)"

lemma node_to_etcd_status:
  assumes "wire_roundtrip wr" "node_to_etcd wr n prefix = Inr (k, v)"
  shows "record_status wr \<lparr>er_key = k', er_value = v, er_mod_revision = m, er_lease_id = l\<rparr> =
    JStr (NodeStatus_value (node_status n))"
proof -
  let ?d = "\<lambda>origin. dict_set ''endpoint'' (JStr origin) (wr_dump wr n)"
  from assms(2) obtain origin where v: "v = jc_dumps (wr_codec wr) (JObj (?d origin))"
    by (auto simp: node_to_etcd_def split: option.splits)
  from assms(1) have "dict_get (?d origin) ''status'' = Some (JStr (NodeStatus_value (node_status n)))"
    by (simp add: wire_roundtrip_def)
  with assms(1) obtain d' where "jc_loads (wr_codec wr) v = Some (JObj d')"
    "dict_get d' ''status'' = Some (JStr (NodeStatus_value (node_status n)))"
    unfolding wire_roundtrip_def v by blast
  then show ?thesis by (simp add: record_status_def dict_get_or_def)
qed

lemma reconcile_settles:
  assumes "wire_roundtrip wr"
  shows "reconcile_interrupted_relaunch k wr api now rec e = (Inr (Some r), e') \<Longrightarrow>
    record_status wr r \<noteq> JStr (NodeStatus_value RELAUNCHING)"
proof (induction k arbitrary: rec e e')
  case (Suc k)
  from Suc.prems obtain x where rec: "rec = Some x" by (cases rec) simp_all
  note step = Suc.prems [unfolded rec reconcile_interrupted_relaunch.simps Let_def]
  show ?case
  proof (cases "record_status wr x = JStr (NodeStatus_value RELAUNCHING)")
    case False
    with step show ?thesis
      by (auto simp: record_status_def split: option.splits json.splits if_splits)
  next
    case True
    then obtain d where d: "jc_loads (wr_codec wr) (er_value x) = Some (JObj d)"
      "dict_get_or d ''status'' JNull = JStr (NodeStatus_value RELAUNCHING)"
      by (auto simp: record_status_def split: option.splits json.splits)
    note step = step [unfolded d option.case json.case, simplified]
    from step obtain n where n: "node_from_etcd wr (er_key x) (er_value x) (api_prefix api) = Some n"
      by (auto split: option.splits)
    let ?n = "n\<lparr>node_llamacpp_runtime := None, node_status := RELAUNCH_FAILED\<rparr>"
    note step = step [unfolded n option.case]
    from step obtain key v where kv: "node_to_etcd wr ?n (api_prefix api) = Inr (key, v)"
      by (auto simp: node_with_status_def split: sum.splits)
    have st: "record_status wr \<lparr>er_key = k', er_value = v, er_mod_revision = m, er_lease_id = l\<rparr> =
        JStr (NodeStatus_value RELAUNCH_FAILED)" for k' m l
      using node_to_etcd_status [OF assms kv] by simp
    from step kv show ?thesis
      using Suc.IH st
      by (auto simp: node_with_status_def split: sum.splits option.splits prod.splits)
  qed
qed simp

lemma reconcile_records_settled:
  assumes "wire_roundtrip wr"
  shows "reconcile_records wr api now recs e = (Inr out, e') \<Longrightarrow> r \<in> set out \<Longrightarrow>
    record_status wr r \<noteq> JStr (NodeStatus_value RELAUNCHING)"
proof (induction recs arbitrary: e out)
  case (Cons x recs)
  from Cons.prems(1) obtain keep e1 rest where
    x: "reconcile_interrupted_relaunch RECONCILE_ATTEMPTS wr api now (Some x) e = (Inr keep, e1)"
    and rest: "reconcile_records wr api now recs e1 = (Inr rest, e')"
    and out: "out = (case keep of None \<Rightarrow> rest | Some r \<Rightarrow> r # rest)"
    by (auto simp del: reconcile_interrupted_relaunch.simps split: prod.splits sum.splits)
  show ?case
  proof (cases "keep = Some r")
    case True
    from reconcile_settles [OF assms x [unfolded True]] show ?thesis .
  next
    case False
    with out Cons.prems(2) have "r \<in> set rest" by (auto split: option.splits)
    with rest Cons.IH show ?thesis by blast
  qed
qed simp

text \<open>
  C36. No interrupted relaunch survives a gateway start: once the startup pass has produced a
  snapshot, none of its records is still RELAUNCHING, whatever other writers did in between.
\<close>

theorem startup_settles_relaunches:
  assumes "wire_roundtrip wr" "reconcile_startup_snapshot wr api now snapshot e = (Inr settled, e')"
    and "r \<in> set (es_records settled)"
  shows "record_status wr r \<noteq> JStr (NodeStatus_value RELAUNCHING)"
proof -
  from assms(2) have "reconcile_records wr api now (es_records snapshot) e = (Inr (es_records settled), e')"
    by (auto simp: reconcile_startup_snapshot_def split: prod.splits sum.splits)
  from reconcile_records_settled [OF assms(1) this assms(3)] show ?thesis .
qed

text \<open>
  C40. A record whose status is a JSON array or object stops the startup pass: the membership test
  raises, the pass returns an error instead of skipping the record, and with it the whole
  snapshot.
\<close>

theorem unhashable_status_blocks_startup:
  assumes "es_records snapshot = pre @ r # post" "\<not> hashable (record_status wr r)"
  shows "\<exists>err. fst (reconcile_startup_snapshot wr api now snapshot e) = Inl err"
proof -
  have one: "fst (reconcile_interrupted_relaunch RECONCILE_ATTEMPTS wr api now (Some r) e) = Inl TypeError" for e
    using assms(2) by (auto simp: record_status_def eval_nat_numeral split: option.splits json.splits)
  have "\<exists>err. fst (reconcile_records wr api now (pre @ r # post) e) = Inl err" for e
  proof (induction pre arbitrary: e)
    case Nil
    show ?case using one [of e]
      by (auto simp del: reconcile_interrupted_relaunch.simps split: prod.split sum.split)
  next
    case (Cons x pre)
    then show ?case
      by (auto simp del: reconcile_interrupted_relaunch.simps split: prod.split sum.split)
        (metis fst_conv sum.distinct(1))+
  qed
  then obtain err where "fst (reconcile_records wr api now (pre @ r # post) e) = Inl err" by blast
  then show ?thesis
    unfolding reconcile_startup_snapshot_def assms(1)
    by (cases "reconcile_records wr api now (pre @ r # post) e") auto
qed

text \<open>A concrete wire for the witnesses: the text of a record is its status.\<close>

definition toy_doc :: "string \<Rightarrow> json" where
  "toy_doc s = JObj [(''endpoint'', JStr ''http://a:1''), (''status'', JStr s)]"

definition toy_dumps :: "json \<Rightarrow> string" where
  "toy_dumps j =
     (case j of JObj d \<Rightarrow> (case dict_get d ''status'' of Some (JStr s) \<Rightarrow> s | _ \<Rightarrow> []) | _ \<Rightarrow> [])"

definition toy_wire :: wire where
  "toy_wire =
     \<lparr>wr_codec = \<lparr>jc_loads = (\<lambda>v. Some (toy_doc v)), jc_dumps = toy_dumps\<rparr>,
      wr_normalize = Some, wr_origin = Some, wr_node = (\<lambda>i d. Some (blank_node i ''http://a:1'')),
      wr_dump = (\<lambda>n. [(''status'', JStr (NodeStatus_value (node_status n)))]),
      wr_state = (\<lambda>_. None), wr_state_dump = (\<lambda>_. [])\<rparr>"

definition accepting_api :: "nat etcd_api" where
  "accepting_api = silent_api\<lparr>api_transaction :=
     (\<lambda>_ e. (Inr (JObj [(''succeeded'', JBool True), (''header'', JObj [(''revision'', JStr ''9'')])]), e + 1))\<rparr>"

definition toy_record :: "string \<Rightarrow> EtcdRecord" where
  "toy_record v = \<lparr>er_key = ''/nodes/a'', er_value = v, er_mod_revision = 4, er_lease_id = 7\<rparr>"

lemma toy_wire_roundtrip: "wire_roundtrip toy_wire" "wire_ok toy_wire"
  by (auto simp: wire_roundtrip_def wire_ok_def toy_wire_def toy_dumps_def toy_doc_def blank_node_def)

theorem startup_settles_relaunches_witness:
  "\<exists>settled e' r. reconcile_startup_snapshot toy_wire accepting_api (Aware 0)
     \<lparr>es_records = [toy_record ''relaunching''], es_revision = 4\<rparr> 0 = (Inr settled, e') \<and>
   r \<in> set (es_records settled) \<and> record_status toy_wire r \<noteq> JStr (NodeStatus_value RELAUNCHING)"
proof -
  let ?out = "\<lparr>es_records = [\<lparr>er_key = ''/nodes/a'', er_value = ''relaunch_failed'', er_mod_revision = 9,
      er_lease_id = 0\<rparr>], es_revision = 4\<rparr>"
  have "reconcile_startup_snapshot toy_wire accepting_api (Aware 0)
     \<lparr>es_records = [toy_record ''relaunching''], es_revision = 4\<rparr> 0 = (Inr ?out, 2)"
    by code_simp
  from startup_settles_relaunches [OF toy_wire_roundtrip(1) this] this show ?thesis by auto
qed

theorem unhashable_status_blocks_startup_witness:
  "\<exists>err. fst (reconcile_startup_snapshot
     (toy_wire\<lparr>wr_codec := \<lparr>jc_loads = (\<lambda>_. Some (JObj [(''status'', JList [])])), jc_dumps = toy_dumps\<rparr>\<rparr>)
     silent_api (Aware 0) \<lparr>es_records = [toy_record ''x''], es_revision = 4\<rparr> 0) = Inl err"
  by (rule unhashable_status_blocks_startup [where pre = "[]" and post = "[]"])
    (simp_all add: record_status_def dict_get_or_def)

end
