(* ===== verification/Watcher.thy ===== *)
theory Watcher
  imports Serializer
begin

text \<open>
  \<^verbatim>\<open>discovery/watcher.py\<close>: the discovery thread. Its local variables (resume revision and per-key
  gates) and the objects it writes (registry, lease manager) form the record \<open>watch_state\<close>; the loop
  of \<open>run\<close> is a function over the sequence of things that can happen to it: a snapshot, a batch, a
  batch that fails after some of its events, a compaction, a reconnect.
\<close>

section \<open>State and events\<close>

record 'l watch_state =
  ws_registry :: "'l registry"
  ws_leases :: "NodeLeaseManager option"
  ws_gates :: "(string, int) dict"
  ws_resume :: "int option"

definition watcher_node_id :: "string \<Rightarrow> string \<Rightarrow> string option" where
  "watcher_node_id key prefix =
     (case utf8_decode key of
        None \<Rightarrow> None
      | Some decoded \<Rightarrow>
          if \<not> str_startswith decoded prefix then None
          else let i = str_removeprefix decoded prefix in if i = [] then None else Some i)"

definition apply_event ::
  "wire \<Rightarrow> string \<Rightarrow> EtcdEvent \<Rightarrow> string \<Rightarrow> 'l watch_state \<Rightarrow> 'l watch_state" where
  "apply_event wr prefix event i s =
     (if ee_is_delete event then
        s\<lparr>ws_leases := map_option (observe_delete i (ee_mod_revision event)) (ws_leases s),
          ws_registry := snd (registry_drain i (ws_registry s))\<rparr>
      else case ee_value event of
             None \<Rightarrow> s
           | Some value \<Rightarrow>
               (case node_from_etcd wr (ee_key event) value prefix of
                  None \<Rightarrow> s
                | Some n \<Rightarrow>
                    s\<lparr>ws_registry := add_discovered n (ws_registry s),
                      ws_leases := map_option (observe_put i value (ee_mod_revision event) (ee_lease_id event))
                                     (ws_leases s)\<rparr>))"

text \<open>One iteration of the loop of \<open>_apply_batch\<close>.\<close>

definition apply_gated :: "wire \<Rightarrow> string \<Rightarrow> EtcdEvent \<Rightarrow> 'l watch_state \<Rightarrow> 'l watch_state" where
  "apply_gated wr prefix event s =
     (case watcher_node_id (ee_key event) prefix of
        None \<Rightarrow> s
      | Some i \<Rightarrow>
          if ee_mod_revision event \<le> dict_get_or (ws_gates s) i 0 then s
          else let s = apply_event wr prefix event i s
               in s\<lparr>ws_gates := dict_set i (ee_mod_revision event) (ws_gates s)\<rparr>)"

definition apply_batch :: "wire \<Rightarrow> string \<Rightarrow> EtcdEvent list \<Rightarrow> 'l watch_state \<Rightarrow> 'l watch_state" where
  "apply_batch wr prefix events s = fold (apply_gated wr prefix) events s"

section \<open>Snapshots\<close>

record snapshot_scan =
  sc_nodes :: "(string, node) dict"
  sc_present :: "string list"
  sc_revisions :: "(string, int) dict"
  sc_leases :: "(string, NodeLeaseObservation) dict"

definition scan_record :: "wire \<Rightarrow> string \<Rightarrow> EtcdRecord \<Rightarrow> snapshot_scan \<Rightarrow> snapshot_scan" where
  "scan_record wr prefix rec sc =
     (case watcher_node_id (er_key rec) prefix of
        None \<Rightarrow> sc
      | Some i \<Rightarrow>
          (let sc = sc\<lparr>sc_present := List.insert i (sc_present sc),
                       sc_revisions := dict_set i (er_mod_revision rec) (sc_revisions sc)\<rparr>
           in case node_from_etcd wr (er_key rec) (er_value rec) prefix of
                None \<Rightarrow> sc
              | Some n \<Rightarrow>
                  sc\<lparr>sc_nodes := dict_set i n (sc_nodes sc),
                     sc_leases := dict_set i \<lparr>ob_value = er_value rec, ob_mod_revision = er_mod_revision rec,
                       ob_lease_id = er_lease_id rec\<rparr> (sc_leases sc)\<rparr>))"

definition scan_snapshot :: "wire \<Rightarrow> string \<Rightarrow> EtcdSnapshot \<Rightarrow> snapshot_scan" where
  "scan_snapshot wr prefix snapshot =
     fold (scan_record wr prefix) (es_records snapshot)
       \<lparr>sc_nodes = [], sc_present = [], sc_revisions = [], sc_leases = []\<rparr>"

definition reconcile_snapshot ::
  "wire \<Rightarrow> string \<Rightarrow> EtcdSnapshot \<Rightarrow> 'l watch_state \<Rightarrow> 'l watch_state" where
  "reconcile_snapshot wr prefix snapshot s =
     (let sc = scan_snapshot wr prefix snapshot;
          (missing, r) = reconcile_discovered (sc_nodes sc) (sc_present sc) (ws_registry s)
      in s\<lparr>ws_registry := r,
           ws_leases := map_option (lm_reconcile_snapshot (sc_leases sc)) (ws_leases s),
           ws_gates := fold (\<lambda>i d. dict_set i (es_revision snapshot) d) missing (sc_revisions sc)\<rparr>)"

section \<open>The loop\<close>

datatype watch_input =
    SnapshotRead EtcdSnapshot
  | BatchDelivered EtcdWatchBatch
  | BatchBroken EtcdWatchBatch nat
  | Compacted
  | Reconnect

definition watcher_handle :: "wire \<Rightarrow> string \<Rightarrow> watch_input \<Rightarrow> 'l watch_state \<Rightarrow> 'l watch_state" where
  "watcher_handle wr prefix input s =
     (case input of
        SnapshotRead snapshot \<Rightarrow>
          if ws_resume s = None
          then (reconcile_snapshot wr prefix snapshot s)\<lparr>ws_resume := Some (es_revision snapshot)\<rparr> else s
      | BatchDelivered batch \<Rightarrow>
          (case ws_resume s of
             None \<Rightarrow> s
           | Some r \<Rightarrow> (apply_batch wr prefix (ew_events batch) s)\<lparr>ws_resume := Some (max r (ew_revision batch))\<rparr>)
      | BatchBroken batch k \<Rightarrow>
          (if ws_resume s = None then s else apply_batch wr prefix (take k (ew_events batch)) s)
      | Compacted \<Rightarrow> s\<lparr>ws_resume := None, ws_gates := []\<rparr>
      | Reconnect \<Rightarrow> s)"

definition watcher_run :: "wire \<Rightarrow> string \<Rightarrow> watch_input list \<Rightarrow> 'l watch_state \<Rightarrow> 'l watch_state" where
  "watcher_run wr prefix inputs s = fold (watcher_handle wr prefix) inputs s"

section \<open>Gates\<close>

abbreviation gate :: "'l watch_state \<Rightarrow> string \<Rightarrow> int" where
  "gate s i \<equiv> dict_get_or (ws_gates s) i 0"

lemma apply_event_frame [simp]:
  "ws_gates (apply_event wr prefix ev i s) = ws_gates s" "ws_resume (apply_event wr prefix ev i s) = ws_resume s"
  by (simp_all add: apply_event_def split: option.split)

lemma apply_gated_resume [simp]: "ws_resume (apply_gated wr prefix ev s) = ws_resume s"
  by (simp add: apply_gated_def Let_def split: option.split)

lemma gate_apply_gated:
  "gate (apply_gated wr prefix ev s) i =
     (if watcher_node_id (ee_key ev) prefix = Some i then max (gate s i) (ee_mod_revision ev) else gate s i)"
  by (auto simp: apply_gated_def Let_def split: option.splits)

lemma gate_apply_batch:
  "gate s i \<le> gate (apply_batch wr prefix evs s) i"
  "ev \<in> set evs \<Longrightarrow> watcher_node_id (ee_key ev) prefix = Some i \<Longrightarrow>
     ee_mod_revision ev \<le> gate (apply_batch wr prefix evs s) i"
proof (induction evs arbitrary: s)
  case (Cons e evs)
  { case 1
    have "gate s i \<le> gate (apply_gated wr prefix e s) i" by (simp add: gate_apply_gated)
    with Cons.IH(1) [of "apply_gated wr prefix e s"] show ?case by (simp add: apply_batch_def) }
  { case 2
    show ?case
    proof (cases "ev = e")
      case True
      then have "ee_mod_revision ev \<le> gate (apply_gated wr prefix e s) i"
        using 2(2) by (simp add: gate_apply_gated)
      with Cons.IH(1) [of "apply_gated wr prefix e s"] show ?thesis by (simp add: apply_batch_def)
    next
      case False
      with 2 Cons.IH(2) [of "apply_gated wr prefix e s"] show ?thesis by (simp add: apply_batch_def)
    qed }
qed (simp_all add: apply_batch_def)

definition stale :: "string \<Rightarrow> 'l watch_state \<Rightarrow> EtcdEvent \<Rightarrow> bool" where
  "stale prefix s ev \<longleftrightarrow>
     (\<forall>i. watcher_node_id (ee_key ev) prefix = Some i \<longrightarrow> ee_mod_revision ev \<le> gate s i)"

lemma stale_idle: "stale prefix s ev \<Longrightarrow> apply_gated wr prefix ev s = s"
  by (auto simp: stale_def apply_gated_def split: option.splits)

lemma stale_batch_idle: "(\<And>ev. ev \<in> set evs \<Longrightarrow> stale prefix s ev) \<Longrightarrow> apply_batch wr prefix evs s = s"
  by (induction evs) (simp_all add: apply_batch_def stale_idle)

lemma applied_stale: "ev \<in> set evs \<Longrightarrow> stale prefix (apply_batch wr prefix evs s) ev"
  using gate_apply_batch(2) by (auto simp: stale_def)

lemma stale_mono: "stale prefix s ev \<Longrightarrow> stale prefix (apply_batch wr prefix evs s) ev"
  using gate_apply_batch(1) by (fastforce simp: stale_def intro: order_trans)

section \<open>What a run delivers\<close>

fun streaming :: "watch_input \<Rightarrow> bool" where
  "streaming (BatchDelivered _) = True"
| "streaming (BatchBroken _ _) = True"
| "streaming Reconnect = True"
| "streaming _ = False"

fun delivered :: "watch_input list \<Rightarrow> EtcdEvent list" where
  "delivered [] = []"
| "delivered (BatchDelivered b # ins) = ew_events b @ delivered ins"
| "delivered (BatchBroken b k # ins) = take k (ew_events b) @ delivered ins"
| "delivered (_ # ins) = delivered ins"

lemma apply_batch_append [simp]:
  "apply_batch wr prefix (xs @ ys) s = apply_batch wr prefix ys (apply_batch wr prefix xs s)"
  by (simp add: apply_batch_def)

lemma apply_gated_update_resume:
  "apply_gated wr prefix ev (s\<lparr>ws_resume := r\<rparr>) = (apply_gated wr prefix ev s)\<lparr>ws_resume := r\<rparr>"
  by (simp add: apply_gated_def apply_event_def Let_def split: option.split)

lemma apply_batch_update_resume:
  "apply_batch wr prefix evs (s\<lparr>ws_resume := r\<rparr>) = (apply_batch wr prefix evs s)\<lparr>ws_resume := r\<rparr>"
  by (induction evs arbitrary: s) (simp_all add: apply_batch_def apply_gated_update_resume)

lemma apply_batch_resume [simp]: "ws_resume (apply_batch wr prefix evs s) = ws_resume s"
  by (induction evs arbitrary: s) (simp_all add: apply_batch_def)

lemma run_delivers:
  assumes "ws_resume s \<noteq> None" "list_all streaming inputs"
  shows "\<exists>r. watcher_run wr prefix inputs s = (apply_batch wr prefix (delivered inputs) s)\<lparr>ws_resume := r\<rparr>"
  using assms
proof (induction inputs arbitrary: s)
  case Nil
  show ?case by (intro exI [of _ "ws_resume s"]) (simp add: watcher_run_def apply_batch_def)
next
  case (Cons x inputs)
  then obtain r0 where r0: "ws_resume s = Some r0" by auto
  let ?t = "watcher_handle wr prefix x s"
  have "\<exists>evs r. ?t = (apply_batch wr prefix evs s)\<lparr>ws_resume := r\<rparr> \<and> r \<noteq> None \<and>
      delivered (x # inputs) = evs @ delivered inputs"
  proof (cases x)
    case (BatchDelivered b)
    then show ?thesis
      using r0 by (intro exI [of _ "ew_events b"] exI [of _ "Some (max r0 (ew_revision b))"])
        (simp add: watcher_handle_def)
  next
    case (BatchBroken b k)
    then show ?thesis
      using r0 by (intro exI [of _ "take k (ew_events b)"] exI [of _ "Some r0"]) (simp add: watcher_handle_def)
  next
    case Reconnect
    then show ?thesis
      using r0 by (intro exI [of _ "[]"] exI [of _ "Some r0"]) (simp add: watcher_handle_def apply_batch_def)
  qed (use Cons.prems in simp_all)
  then obtain evs r where t: "?t = (apply_batch wr prefix evs s)\<lparr>ws_resume := r\<rparr>" "r \<noteq> None"
    "delivered (x # inputs) = evs @ delivered inputs" by blast
  from t(1,2) have "ws_resume ?t \<noteq> None" by simp
  with Cons.IH [of ?t] Cons.prems(2) obtain q where
    "watcher_run wr prefix inputs ?t = (apply_batch wr prefix (delivered inputs) ?t)\<lparr>ws_resume := q\<rparr>" by auto
  then show ?case
    unfolding t by (intro exI [of _ q]) (simp add: watcher_run_def t apply_batch_update_resume)
qed

section \<open>The latest change wins\<close>

definition reflects :: "wire \<Rightarrow> string \<Rightarrow> EtcdEvent \<Rightarrow> node option \<Rightarrow> bool" where
  "reflects wr prefix ev current \<longleftrightarrow>
     (if ee_is_delete ev then (\<forall>n. current = Some n \<longrightarrow> node_status n = DRAINING)
      else \<forall>value n. ee_value ev = Some value \<longrightarrow> node_from_etcd wr (ee_key ev) value prefix = Some n \<longrightarrow>
             (\<exists>previous. current = Some (merge_discovered previous n)))"

lemma decoded_id:
  assumes "wire_ok wr" "watcher_node_id key prefix = Some i" "node_from_etcd wr key value prefix = Some n"
  shows "node_id n = i"
  using node_from_etcd_id [OF assms(1,3)] assms(2)
  by (auto simp: watcher_node_id_def Let_def split: option.splits if_splits)

lemma apply_gated_other:
  assumes "wire_ok wr" "watcher_node_id (ee_key ev) prefix \<noteq> Some i \<or> ee_mod_revision ev \<le> gate s i"
  shows "registry_get (ws_registry (apply_gated wr prefix ev s)) i = registry_get (ws_registry s) i"
proof (cases "watcher_node_id (ee_key ev) prefix")
  case None
  then show ?thesis by (simp add: apply_gated_def)
next
  case (Some j)
  show ?thesis
  proof (cases "ee_mod_revision ev \<le> gate s j")
    case True
    with Some show ?thesis by (simp add: apply_gated_def)
  next
    case False
    with Some assms(2) have "j \<noteq> i" by auto
    with Some decoded_id [OF assms(1) Some] show ?thesis
      by (auto simp: apply_gated_def apply_event_def Let_def split: option.split)
  qed
qed

lemma apply_batch_other:
  assumes "wire_ok wr"
    and "\<And>ev. ev \<in> set evs \<Longrightarrow> watcher_node_id (ee_key ev) prefix = Some i \<Longrightarrow> ee_mod_revision ev \<le> gate s i"
  shows "registry_get (ws_registry (apply_batch wr prefix evs s)) i = registry_get (ws_registry s) i"
  using assms(2)
proof (induction evs arbitrary: s)
  case (Cons e evs)
  have "registry_get (ws_registry (apply_gated wr prefix e s)) i = registry_get (ws_registry s) i"
    using Cons.prems by (intro apply_gated_other [OF assms(1)]) auto
  moreover have "registry_get (ws_registry (apply_batch wr prefix evs (apply_gated wr prefix e s))) i =
      registry_get (ws_registry (apply_gated wr prefix e s)) i"
  proof (rule Cons.IH)
    fix ev assume "ev \<in> set evs" "watcher_node_id (ee_key ev) prefix = Some i"
    then have "ee_mod_revision ev \<le> gate s i" using Cons.prems by simp
    then show "ee_mod_revision ev \<le> gate (apply_gated wr prefix e s) i"
      by (simp add: gate_apply_gated le_max_iff_disj)
  qed
  ultimately show ?case by (simp add: apply_batch_def)
qed (simp add: apply_batch_def)

lemma gate_below:
  "gate s i < m \<Longrightarrow> (\<And>ev. ev \<in> set evs \<Longrightarrow> watcher_node_id (ee_key ev) prefix = Some i \<Longrightarrow> ee_mod_revision ev < m) \<Longrightarrow>
     gate (apply_batch wr prefix evs s) i < m"
proof (induction evs arbitrary: s)
  case (Cons e evs)
  then have "gate (apply_gated wr prefix e s) i < m" by (simp add: gate_apply_gated)
  with Cons show ?case by (simp add: apply_batch_def)
qed (simp add: apply_batch_def)

lemma apply_gated_reflects:
  assumes "wire_ok wr" "watcher_node_id (ee_key ev) prefix = Some i" "gate s i < ee_mod_revision ev"
  shows "reflects wr prefix ev (registry_get (ws_registry (apply_gated wr prefix ev s)) i)"
  using assms(2,3) decoded_id [OF assms(1,2)]
  by (auto simp: reflects_def apply_gated_def apply_event_def Let_def split: option.splits)

lemma apply_batch_reflects:
  assumes ok: "wire_ok wr" and ev: "ev \<in> set evs" "watcher_node_id (ee_key ev) prefix = Some i"
    and gate: "gate s i < ee_mod_revision ev"
    and latest: "\<forall>ev' \<in> set evs. watcher_node_id (ee_key ev') prefix = Some i \<longrightarrow>
        ee_mod_revision ev' < ee_mod_revision ev \<or> ev' = ev"
  shows "reflects wr prefix ev (registry_get (ws_registry (apply_batch wr prefix evs s)) i)"
proof -
  obtain pre post where split: "evs = pre @ ev # post" "ev \<notin> set pre"
    using ev(1) by (meson split_list_first)
  let ?s = "apply_batch wr prefix pre s"
  have "gate ?s i < ee_mod_revision ev"
    using gate latest split by (intro gate_below) auto
  note now = apply_gated_reflects [OF ok ev(2) this]
  have "registry_get (ws_registry (apply_batch wr prefix post (apply_gated wr prefix ev ?s))) i =
      registry_get (ws_registry (apply_gated wr prefix ev ?s)) i"
  proof (rule apply_batch_other [OF ok])
    fix ev' assume "ev' \<in> set post" "watcher_node_id (ee_key ev') prefix = Some i"
    with latest split have "ee_mod_revision ev' \<le> ee_mod_revision ev" by force
    then show "ee_mod_revision ev' \<le> gate (apply_gated wr prefix ev ?s) i"
      using ev(2) by (simp add: gate_apply_gated)
  qed
  with now show ?thesis by (simp add: split(1)) (simp add: apply_batch_def)
qed

section \<open>Properties\<close>


text \<open>
  The registry converges to the newest change of every key: over any run of batches, broken
  batches, replays and reconnects, in whatever order events arrive, once the event of highest
  revision for a node was delivered the registry shows that event: the node is gone or
  DRAINING if it was a deletion, and carries the decoded record otherwise.
\<close>

theorem watcher_reflects_latest:
  assumes "wire_ok wr" "ws_resume s \<noteq> None" "list_all streaming inputs"
    and "ev \<in> set (delivered inputs)" "watcher_node_id (ee_key ev) prefix = Some i"
    and "gate s i < ee_mod_revision ev"
    and "\<forall>ev' \<in> set (delivered inputs). watcher_node_id (ee_key ev') prefix = Some i \<longrightarrow>
        ee_mod_revision ev' < ee_mod_revision ev \<or> ev' = ev"
  shows "reflects wr prefix ev (registry_get (ws_registry (watcher_run wr prefix inputs s)) i)"
proof -
  from run_delivers [OF assms(2,3)] obtain r where
    "watcher_run wr prefix inputs s = (apply_batch wr prefix (delivered inputs) s)\<lparr>ws_resume := r\<rparr>" by blast
  with apply_batch_reflects [OF assms(1,4-7)] show ?thesis by simp
qed

definition put_event :: "string \<Rightarrow> int \<Rightarrow> EtcdEvent" where
  "put_event v m = \<lparr>ee_key = ''/nodes/a'', ee_value = Some v, ee_mod_revision = m, ee_is_delete = False, ee_lease_id = 0\<rparr>"

definition delete_event :: "int \<Rightarrow> EtcdEvent" where
  "delete_event m = \<lparr>ee_key = ''/nodes/a'', ee_value = None, ee_mod_revision = m, ee_is_delete = True, ee_lease_id = 0\<rparr>"

definition started_watch :: "unit watch_state" where
  "started_watch = \<lparr>ws_registry = empty_registry, ws_leases = None, ws_gates = [], ws_resume = Some 3\<rparr>"

definition example_inputs :: "watch_input list" where
  "example_inputs =
     [BatchDelivered \<lparr>ew_events = [put_event ''healthy'' 5, delete_event 7], ew_revision = 7\<rparr>,
      Reconnect, BatchDelivered \<lparr>ew_events = [put_event ''healthy'' 5], ew_revision = 7\<rparr>]"

theorem watcher_reflects_latest_witness:
  "reflects toy_wire ''/nodes/'' (delete_event 7)
     (registry_get (ws_registry (watcher_run toy_wire ''/nodes/'' example_inputs started_watch)) ''a'')"
proof (rule watcher_reflects_latest)
  show "watcher_node_id (ee_key (delete_event 7)) ''/nodes/'' = Some ''a''" by code_simp
qed (auto simp: toy_wire_roundtrip started_watch_def example_inputs_def put_event_def delete_event_def)

end
