(* ===== verification/Claims.thy ===== *)
theory Claims
  imports NodeModel EtcdClient
begin

text \<open>
  \<^verbatim>\<open>placement/claims.py\<close> and \<^verbatim>\<open>placement/suspensions.py\<close>: the per-host placement claims and the manual
  suspensions that gateways share through etcd, each written by a single-key compare-and-swap on
  the revision it was read at. Pydantic's JSON parsing and dumping of a claim are arguments. What
  the store promises is stated by \<open>etcd_law\<close>: etcd's documented behaviour for an exact range and for a
  transaction that compares one key's \<open>mod_revision\<close>, with \<open>view\<close> the visible key space and \<open>cur\<close> the
  store revision. A call that errors may or may not have taken effect.
\<close>

section \<open>Data\<close>

datatype ClaimState = CLAIM_PROVISIONING | CLAIM_ACTIVE | CLAIM_FAILED | CLAIM_EXHAUSTED

record PlacementClaim =
  cl_claim_id :: string
  cl_hostname :: host
  cl_profile_id :: string
  cl_profile_version :: int
  cl_gpu_class :: string
  cl_state :: ClaimState
  cl_attempts :: int
  cl_holder :: string
  cl_created_at :: micros
  cl_updated_at :: micros
  cl_heartbeat_at :: micros
  cl_retry_at :: "micros option"
  cl_last_error :: string

definition is_gpu_class :: "string \<Rightarrow> bool" where
  "is_gpu_class s \<longleftrightarrow> s \<noteq> [] \<and> list_all (\<lambda>c. is_lower_char c \<or> is_digit_char c) s"

definition PlacementClaim_fields :: "PlacementClaim \<Rightarrow> bool" where
  "PlacementClaim_fields c \<longleftrightarrow>
     is_hex_digest 32 (cl_claim_id c) \<and> cl_hostname c \<noteq> [] \<and> is_profile_id (cl_profile_id c) \<and>
     1 \<le> cl_profile_version c \<and> is_gpu_class (cl_gpu_class c) \<and> 0 \<le> cl_attempts c \<and>
     is_hex_digest 32 (cl_holder c) \<and> length (cl_last_error c) \<le> 2000"

definition counts_toward_ratio :: "PlacementClaim \<Rightarrow> bool" where
  "counts_toward_ratio c \<longleftrightarrow> cl_state c \<noteq> CLAIM_EXHAUSTED"

record StoredClaim =
  sc_claim :: PlacementClaim
  sc_mod_revision :: int

record claim_codec =
  cc_parse :: "string \<Rightarrow> PlacementClaim option"
  cc_dump :: "PlacementClaim \<Rightarrow> string"

section \<open>The claim store\<close>

definition CLAIM_PREFIX :: string where
  "CLAIM_PREFIX = ''/placement/claims/''"

definition claim_key :: "host \<Rightarrow> string" where
  "claim_key hostname = CLAIM_PREFIX @ hostname"

text \<open>\<open>record.key.decode("utf-8")\<close> is outside the \<open>try\<close>: an undecodable key raises.\<close>

fun split_claims ::
  "claim_codec \<Rightarrow> EtcdRecord list \<Rightarrow> (StoredClaim list \<times> host list) option" where
  "split_claims cc [] = Some ([], [])"
| "split_claims cc (rec # recs) =
     (case (utf8_decode (er_key rec), split_claims cc recs) of
        (Some key, Some (claims, unreadable)) \<Rightarrow>
          (let hostname = str_removeprefix key CLAIM_PREFIX
           in case cc_parse cc (er_value rec) of
                Some c \<Rightarrow> if cl_hostname c \<noteq> hostname then Some (claims, hostname # unreadable)
                          else Some (\<lparr>sc_claim = c, sc_mod_revision = er_mod_revision rec\<rparr> # claims, unreadable)
              | None \<Rightarrow> Some (claims, hostname # unreadable))
      | _ \<Rightarrow> None)"

definition claim_list ::
  "claim_codec \<Rightarrow> 'e etcd_api \<Rightarrow> ('e, (StoredClaim list \<times> host list) option) etcd_call" where
  "claim_list cc api e =
     (case get_snapshot api (Some CLAIM_PREFIX) e of
        (Inl err, e) \<Rightarrow> (Inl err, e)
      | (Inr snapshot, e) \<Rightarrow> (Inr (split_claims cc (es_records snapshot)), e))"

definition claim_get :: "claim_codec \<Rightarrow> 'e etcd_api \<Rightarrow> host \<Rightarrow> ('e, StoredClaim option) etcd_call" where
  "claim_get cc api hostname e =
     (case get_record api (claim_key hostname) e of
        (Inl err, e) \<Rightarrow> (Inl err, e)
      | (Inr None, e) \<Rightarrow> (Inr None, e)
      | (Inr (Some rec), e) \<Rightarrow>
          (case cc_parse cc (er_value rec) of
             None \<Rightarrow> (Inr None, e)
           | Some c \<Rightarrow>
               if cl_hostname c \<noteq> hostname then (Inr None, e)
               else (Inr (Some \<lparr>sc_claim = c, sc_mod_revision = er_mod_revision rec\<rparr>), e)))"

definition claim_write ::
  "claim_codec \<Rightarrow> 'e etcd_api \<Rightarrow> PlacementClaim \<Rightarrow> int \<Rightarrow> ('e, int option) etcd_call" where
  "claim_write cc api c expected_mod_revision =
     replace_if_revision api (claim_key (cl_hostname c)) (utf8_encode (cc_dump cc c)) expected_mod_revision 0"

definition claim_create :: "claim_codec \<Rightarrow> 'e etcd_api \<Rightarrow> PlacementClaim \<Rightarrow> ('e, int option) etcd_call" where
  "claim_create cc api c = claim_write cc api c 0"

definition claim_update ::
  "claim_codec \<Rightarrow> 'e etcd_api \<Rightarrow> StoredClaim \<Rightarrow> PlacementClaim \<Rightarrow> ('e, int option) etcd_call" where
  "claim_update cc api stored c = claim_write cc api c (sc_mod_revision stored)"

definition claim_delete :: "'e etcd_api \<Rightarrow> StoredClaim \<Rightarrow> ('e, bool) etcd_call" where
  "claim_delete api stored =
     delete_if_revision api (claim_key (cl_hostname (sc_claim stored))) (sc_mod_revision stored)"

section \<open>Hosts of QUADS\<close>

record QUADSHost =
  qh_hostname :: host
  qh_gpu_vendor :: string
  qh_gpu_model :: string
  qh_gpu_count :: int

definition canonical_hostname :: "string \<Rightarrow> string" where
  "canonical_hostname hostname = str_rstrip (\<lambda>c. c = CHR ''.'') (str_lower (str_strip hostname))"

section \<open>Suspensions\<close>

definition SUSPENSION_PREFIX :: string where
  "SUSPENSION_PREFIX = ''/placement/suspensions/''"

datatype suspension_result = SuspensionDone | SuspensionConflict string | SuspensionError etcd_error

text \<open>\<open>next((r for r in snapshot.records if r.key.decode() == key), None)\<close>; an undecodable key met first raises.\<close>

fun find_record :: "string \<Rightarrow> EtcdRecord list \<Rightarrow> EtcdRecord option option" where
  "find_record key [] = Some None"
| "find_record key (r # rs) =
     (case utf8_decode (er_key r) of
        None \<Rightarrow> None
      | Some k \<Rightarrow> if k = key then Some (Some r) else find_record key rs)"

fun decode_keys :: "EtcdRecord list \<Rightarrow> string list option" where
  "decode_keys [] = Some []"
| "decode_keys (r # rs) =
     (case (utf8_decode (er_key r), decode_keys rs) of
        (Some k, Some ks) \<Rightarrow> Some (str_removeprefix k SUSPENSION_PREFIX # ks)
      | _ \<Rightarrow> None)"

definition suspension_list :: "'e etcd_api \<Rightarrow> ('e, host set option) etcd_call" where
  "suspension_list api e =
     (case get_snapshot api (Some SUSPENSION_PREFIX) e of
        (Inl err, e) \<Rightarrow> (Inl err, e)
      | (Inr snapshot, e) \<Rightarrow> (Inr (map_option set (decode_keys (es_records snapshot))), e))"

text \<open>\<open>other\<close> is what other clients do between the read and the write.\<close>

definition SUSPENSION_VALUE :: string where
  "SUSPENSION_VALUE = ''{'' @ [CHR 0x22] @ ''reason'' @ [CHR 0x22] @ '':'' @ [CHR 0x22] @ ''manual_teardown'' @ [CHR 0x22] @ ''}''"

definition suspend :: "'e etcd_api \<Rightarrow> ('e \<Rightarrow> 'e) \<Rightarrow> host \<Rightarrow> 'e \<Rightarrow> suspension_result \<times> 'e" where
  "suspend api other hostname e =
     (let key = SUSPENSION_PREFIX @ canonical_hostname hostname;
          (read, e) = get_snapshot api (Some key) e;
          e = other e
      in case read of
           Inl err \<Rightarrow> (SuspensionError err, e)
         | Inr snapshot \<Rightarrow>
             (case find_record key (es_records snapshot) of
                None \<Rightarrow> (SuspensionConflict ''UnicodeDecodeError'', e)
              | Some found \<Rightarrow>
                  (case replace_if_revision api key (utf8_encode SUSPENSION_VALUE)
                          (case found of None \<Rightarrow> 0 | Some r \<Rightarrow> er_mod_revision r) 0 e of
                     (Inl err, e) \<Rightarrow> (SuspensionError err, e)
                   | (Inr None, e) \<Rightarrow> (SuspensionConflict ''Suspension changed concurrently; retry teardown'', e)
                   | (Inr (Some _), e) \<Rightarrow> (SuspensionDone, e))))"

definition resume :: "'e etcd_api \<Rightarrow> ('e \<Rightarrow> 'e) \<Rightarrow> host \<Rightarrow> 'e \<Rightarrow> suspension_result \<times> 'e" where
  "resume api other hostname e =
     (let key = SUSPENSION_PREFIX @ canonical_hostname hostname;
          (read, e) = get_snapshot api (Some key) e;
          e = other e
      in case read of
           Inl err \<Rightarrow> (SuspensionError err, e)
         | Inr snapshot \<Rightarrow>
             (case find_record key (es_records snapshot) of
                None \<Rightarrow> (SuspensionConflict ''UnicodeDecodeError'', e)
              | Some None \<Rightarrow> (SuspensionDone, e)
              | Some (Some r) \<Rightarrow>
                  (case delete_if_revision api key (er_mod_revision r) e of
                     (Inl err, e) \<Rightarrow> (SuspensionError err, e)
                   | (Inr removed, e) \<Rightarrow>
                       if removed then (SuspensionDone, e)
                       else (SuspensionConflict ''Suspension changed concurrently; refresh and retry'', e))))"

section \<open>What etcd promises\<close>

type_synonym 'e key_view = "'e \<Rightarrow> string \<Rightarrow> (string \<times> int \<times> int) option"

definition mod_rev :: "'e key_view \<Rightarrow> 'e \<Rightarrow> string \<Rightarrow> int" where
  "mod_rev view e k = (case view e k of None \<Rightarrow> 0 | Some (_, m, _) \<Rightarrow> m)"

text \<open>
  A transaction that compares one key's \<open>mod_revision\<close> with \<open>m\<close> and then runs one request: it commits
  only when the comparison holds, and a reply tells which. \<open>new\<close> is what a commit at a revision stores.
\<close>

definition cas_law ::
  "'e etcd_api \<Rightarrow> 'e key_view \<Rightarrow> ('e \<Rightarrow> int) \<Rightarrow> string \<Rightarrow> int \<Rightarrow> json
    \<Rightarrow> (int \<Rightarrow> (string \<times> int \<times> int) option) \<Rightarrow> bool" where
  "cas_law api view cur k m request new \<longleftrightarrow>
     (\<forall>e r e'. api_transaction api (txn [compare_mod k m] [request]) e = (r, e') \<longrightarrow>
        (let committed = (view e' = (view e)(k := new (cur e')) \<and> cur e < cur e')
         in (view e' = view e \<and> cur e' = cur e \<or> committed \<and> mod_rev view e k = m) \<and>
            (\<forall>j. r = Inr j \<longrightarrow>
               (\<exists>d. j = JObj d \<and> header_revision d ''transaction'' = Inr (cur e') \<and>
                 (json_truthy (obj_get d ''succeeded'' (JBool False)) \<longleftrightarrow> mod_rev view e k = m) \<and>
                 (if mod_rev view e k = m then committed else view e' = view e \<and> cur e' = cur e)))))"

definition txn_law :: "'e etcd_api \<Rightarrow> 'e key_view \<Rightarrow> ('e \<Rightarrow> int) \<Rightarrow> bool" where
  "txn_law api view cur \<longleftrightarrow>
     (\<forall>k m v l. 0 \<le> l \<longrightarrow> cas_law api view cur k m (request_put k v l) (\<lambda>c. Some (v, c, l))) \<and>
     (\<forall>k m. 0 < m \<longrightarrow> cas_law api view cur k m (request_delete k) (\<lambda>_. None))"

definition stored_record :: "'e key_view \<Rightarrow> 'e \<Rightarrow> string \<Rightarrow> EtcdRecord option" where
  "stored_record view e k =
     map_option (\<lambda>(v, m, l). \<lparr>er_key = k, er_value = v, er_mod_revision = m, er_lease_id = l\<rparr>) (view e k)"

definition range_law :: "'e etcd_api \<Rightarrow> 'e key_view \<Rightarrow> ('e \<Rightarrow> int) \<Rightarrow> bool" where
  "range_law api view cur \<longleftrightarrow>
     (\<forall>k e r e'. api_range api (JObj [(''key'', JStr (etcd_encode k))]) e = (r, e') \<longrightarrow>
        view e' = view e \<and> cur e' = cur e \<and>
        (\<forall>j. r = Inr j \<longrightarrow> parse_get_record k j = Inr (stored_record view e k)))"

text \<open>A prefix read leaves the store alone and returns records that it holds.\<close>

definition snapshot_law :: "'e etcd_api \<Rightarrow> 'e key_view \<Rightarrow> ('e \<Rightarrow> int) \<Rightarrow> bool" where
  "snapshot_law api view cur \<longleftrightarrow>
     (\<forall>k n e r e'. api_range api (JObj [(''key'', JStr (etcd_encode k)), (''range_end'', JStr (etcd_encode n))]) e = (r, e') \<longrightarrow>
        view e' = view e \<and> cur e' = cur e \<and>
        (\<forall>j snap. r = Inr j \<longrightarrow> parse_snapshot j = Inr snap \<longrightarrow>
           (\<forall>rec \<in> set (es_records snap). stored_record view e (er_key rec) = Some rec)))"

definition etcd_law :: "'e etcd_api \<Rightarrow> 'e key_view \<Rightarrow> ('e \<Rightarrow> int) \<Rightarrow> bool" where
  "etcd_law api view cur \<longleftrightarrow>
     txn_law api view cur \<and> range_law api view cur \<and> snapshot_law api view cur \<and>
     (\<forall>e. 0 \<le> cur e) \<and> (\<forall>e k v m l. view e k = Some (v, m, l) \<longrightarrow> 0 < m \<and> m \<le> cur e)"

section \<open>Runs of claim operations\<close>

text \<open>
  The claim operations that change the store, as all gateways issue them in the order the store
  serves them. Before each, other clients of the store may act (\<open>other\<close>); they have no claim keys.
\<close>

datatype claim_call =
    CreateCall PlacementClaim | UpdateCall StoredClaim PlacementClaim | DeleteCall StoredClaim

fun call_host :: "claim_call \<Rightarrow> host" where
  "call_host (CreateCall c) = cl_hostname c"
| "call_host (UpdateCall s c) = cl_hostname c"
| "call_host (DeleteCall s) = cl_hostname (sc_claim s)"

fun call_revision :: "claim_call \<Rightarrow> int" where
  "call_revision (CreateCall c) = 0"
| "call_revision (UpdateCall s c) = sc_mod_revision s"
| "call_revision (DeleteCall s) = sc_mod_revision s"

fun is_delete_call :: "claim_call \<Rightarrow> bool" where
  "is_delete_call (DeleteCall s) = True"
| "is_delete_call _ = False"

fun run_call :: "claim_codec \<Rightarrow> 'e etcd_api \<Rightarrow> claim_call \<Rightarrow> 'e \<Rightarrow> bool \<times> 'e" where
  "run_call cc api (CreateCall c) e =
     (case claim_create cc api c e of (Inr (Some _), e) \<Rightarrow> (True, e) | (_, e) \<Rightarrow> (False, e))"
| "run_call cc api (UpdateCall s c) e =
     (case claim_update cc api s c e of (Inr (Some _), e) \<Rightarrow> (True, e) | (_, e) \<Rightarrow> (False, e))"
| "run_call cc api (DeleteCall s) e =
     (case claim_delete api s e of (Inr True, e) \<Rightarrow> (True, e) | (_, e) \<Rightarrow> (False, e))"

text \<open>Which calls of a run reported success.\<close>

fun claim_run ::
  "claim_codec \<Rightarrow> 'e etcd_api \<Rightarrow> ('e \<Rightarrow> 'e) list \<Rightarrow> claim_call list \<Rightarrow> 'e \<Rightarrow> bool list" where
  "claim_run cc api (other # others) (call # calls) e =
     (case run_call cc api call (other e) of (ok, e) \<Rightarrow> ok # claim_run cc api others calls e)"
| "claim_run cc api _ _ e = []"

definition other_law :: "'e key_view \<Rightarrow> ('e \<Rightarrow> int) \<Rightarrow> ('e \<Rightarrow> 'e) \<Rightarrow> bool" where
  "other_law view cur other \<longleftrightarrow>
     (\<forall>e. cur e \<le> cur (other e) \<and> (\<forall>h. view (other e) (utf8_encode (claim_key h)) = view e (utf8_encode (claim_key h))))"

section \<open>One call\<close>

abbreviation claim_rev :: "'e key_view \<Rightarrow> 'e \<Rightarrow> host \<Rightarrow> int" where
  "claim_rev view e h \<equiv> mod_rev view e (utf8_encode (claim_key h))"

lemma claim_key_inj [simp]: "utf8_encode (claim_key g) = utf8_encode (claim_key h) \<longleftrightarrow> g = h"
proof
  assume "utf8_encode (claim_key g) = utf8_encode (claim_key h)"
  then have "utf8_decode (utf8_encode (claim_key g)) = utf8_decode (utf8_encode (claim_key h))" by simp
  then show "g = h" by (simp add: claim_key_def)
qed simp

lemma mod_rev_bounds:
  assumes "etcd_law api view cur"
  shows "0 \<le> mod_rev view e k" "mod_rev view e k \<noteq> 0 \<Longrightarrow> mod_rev view e k \<le> cur e"
  using assms by (auto simp: etcd_law_def mod_rev_def split: option.splits) (meson less_le_not_le not_le)+

text \<open>
  One step of the store as seen from the record of host \<open>h\<close>: it keeps its revision or takes a new
  one, and only a delete call for \<open>h\<close> makes a present record absent.
\<close>

definition claim_step_ok ::
  "'e key_view \<Rightarrow> ('e \<Rightarrow> int) \<Rightarrow> claim_call \<Rightarrow> 'e \<Rightarrow> bool \<Rightarrow> 'e \<Rightarrow> bool" where
  "claim_step_ok view cur call e ok e' \<longleftrightarrow>
     (let h = call_host call in
      cur e \<le> cur e' \<and> (\<forall>g. g \<noteq> h \<longrightarrow> claim_rev view e' g = claim_rev view e g) \<and>
      (claim_rev view e' h = claim_rev view e h \<and> \<not> ok \<or>
       claim_rev view e h = call_revision call \<and>
       (if is_delete_call call then claim_rev view e' h = 0
        else cur e < claim_rev view e' h \<and> claim_rev view e' h = cur e')))"

lemma cas_cases:
  assumes "cas_law api view cur k m request new" "api_transaction api (txn [compare_mod k m] [request]) e = (q, e')"
  shows "view e' = view e \<and> cur e' = cur e \<and> (\<forall>d. q = Inr (JObj d) \<longrightarrow> \<not> json_truthy (obj_get d ''succeeded'' (JBool False))) \<or>
    view e' = (view e)(k := new (cur e')) \<and> cur e < cur e' \<and> mod_rev view e k = m \<and>
    (\<forall>d. q = Inr (JObj d) \<longrightarrow> header_revision d ''transaction'' = Inr (cur e'))"
proof -
  have "(view e' = view e \<and> cur e' = cur e \<or>
      (view e' = (view e)(k := new (cur e')) \<and> cur e < cur e') \<and> mod_rev view e k = m) \<and>
    (\<forall>j. q = Inr j \<longrightarrow>
       (\<exists>d. j = JObj d \<and> header_revision d ''transaction'' = Inr (cur e') \<and>
         (json_truthy (obj_get d ''succeeded'' (JBool False)) \<longleftrightarrow> mod_rev view e k = m) \<and>
         (if mod_rev view e k = m then view e' = (view e)(k := new (cur e')) \<and> cur e < cur e'
          else view e' = view e \<and> cur e' = cur e)))"
    using assms unfolding cas_law_def Let_def by blast
  then show ?thesis by (cases q) (auto split: if_splits)
qed

lemma replace_cases:
  assumes "etcd_law api view cur" "replace_if_revision api key v m 0 e = (r, e')"
  shows "view e' = view e \<and> cur e' = cur e \<and> (\<forall>n. r \<noteq> Inr (Some n)) \<or>
    view e' = (view e)(utf8_encode key \<mapsto> (v, cur e', 0)) \<and>
    cur e < cur e' \<and> mod_rev view e (utf8_encode key) = m \<and> (\<forall>n. r = Inr (Some n) \<longrightarrow> n = cur e')"
proof -
  let ?k = "utf8_encode key"
  have law: "cas_law api view cur ?k m (request_put ?k v 0) (\<lambda>n. Some (v, n, 0))"
    using assms(1) by (simp add: etcd_law_def txn_law_def)
  obtain q where "api_transaction api (txn [compare_mod ?k m] [request_put ?k v 0]) e = (q, e')"
    using assms(2)
    by (auto simp: replace_if_revision_def then_parse_def Let_def split: prod.splits sum.splits)
  with cas_cases [OF law this] assms(2) show ?thesis
    by (cases q) (auto simp: replace_if_revision_def then_parse_def Let_def split: if_splits json.splits)
qed

lemma delete_cases:
  assumes "etcd_law api view cur" "0 < m" "delete_if_revision api key m e = (r, e')"
  shows "view e' = view e \<and> cur e' = cur e \<and> r \<noteq> Inr True \<or>
    view e' = (view e)(utf8_encode key := None) \<and> cur e < cur e' \<and> mod_rev view e (utf8_encode key) = m"
proof -
  let ?k = "utf8_encode key"
  have law: "cas_law api view cur ?k m (request_delete ?k) (\<lambda>_. None)"
    using assms(1,2) by (simp add: etcd_law_def txn_law_def)
  obtain q e2 where q: "api_transaction api (txn [compare_mod ?k m] [request_delete ?k]) e = (q, e2)"
    by fastforce
  have "e2 = e'" and r: "r = Inr True \<Longrightarrow> \<exists>d. q = Inr (JObj d) \<and> json_truthy (obj_get d ''succeeded'' (JBool False))"
    using assms(3) q
    by (cases q; simp add: delete_if_revision_def then_parse_def txn_succeeded_def Let_def split: json.splits)+
  with cas_cases [OF law q] show ?thesis by blast
qed

lemma claim_write_cases:
  assumes "etcd_law api view cur" "claim_write cc api c m e = (r, e')"
  shows "view e' = view e \<and> cur e' = cur e \<and> (\<forall>n. r \<noteq> Inr (Some n)) \<or>
    view e' = (view e)(utf8_encode (claim_key (cl_hostname c)) \<mapsto> (utf8_encode (cc_dump cc c), cur e', 0)) \<and>
    cur e < cur e' \<and> claim_rev view e (cl_hostname c) = m \<and> (\<forall>n. r = Inr (Some n) \<longrightarrow> n = cur e')"
  using replace_cases [OF assms(1) assms(2) [unfolded claim_write_def]] .

lemma claim_delete_cases:
  assumes "etcd_law api view cur" "0 < sc_mod_revision s" "claim_delete api s e = (r, e')"
  shows "view e' = view e \<and> cur e' = cur e \<and> r \<noteq> Inr True \<or>
    view e' = (view e)(utf8_encode (claim_key (cl_hostname (sc_claim s))) := None) \<and>
    cur e < cur e' \<and> claim_rev view e (cl_hostname (sc_claim s)) = sc_mod_revision s"
  using delete_cases [OF assms(1,2) assms(3) [unfolded claim_delete_def]] .

definition well_read :: "claim_call \<Rightarrow> bool" where
  "well_read call \<longleftrightarrow> (case call of CreateCall _ \<Rightarrow> True | _ \<Rightarrow> 0 < call_revision call)"

lemma write_step_ok:
  assumes "etcd_law api view cur" "claim_write cc api c (call_revision call) e = (r, e')"
    "call_host call = cl_hostname c" "\<not> is_delete_call call"
  shows "claim_step_ok view cur call e (\<exists>n. r = Inr (Some n)) e'"
  using claim_write_cases [OF assms(1,2)]
proof (elim disjE conjE)
  assume "view e' = (view e)(utf8_encode (claim_key (cl_hostname c)) \<mapsto> (utf8_encode (cc_dump cc c), cur e', 0))"
  then have "claim_rev view e' g = (if g = cl_hostname c then cur e' else claim_rev view e g)" for g
    by (simp add: mod_rev_def)
  moreover assume "cur e < cur e'" "claim_rev view e (cl_hostname c) = call_revision call"
  ultimately show ?thesis using assms(3,4) by (simp add: claim_step_ok_def)
next
  assume "view e' = view e" "cur e' = cur e" "\<forall>n. r \<noteq> Inr (Some n)"
  then show ?thesis by (simp add: claim_step_ok_def mod_rev_def)
qed

lemma run_call_ok:
  assumes law: "etcd_law api view cur" and "well_read call" "run_call cc api call e = (ok, e')"
  shows "claim_step_ok view cur call e ok e'"
proof (cases call)
  case (CreateCall c)
  obtain r where r: "claim_write cc api c 0 e = (r, e')" "ok \<longleftrightarrow> (\<exists>n. r = Inr (Some n))"
    using assms(3) CreateCall by (auto simp: claim_create_def split: prod.splits sum.splits option.splits)
  show ?thesis using write_step_ok [OF law, of cc c call e r e'] r CreateCall by simp
next
  case (UpdateCall s c)
  obtain r where r: "claim_write cc api c (sc_mod_revision s) e = (r, e')" "ok \<longleftrightarrow> (\<exists>n. r = Inr (Some n))"
    using assms(3) UpdateCall by (auto simp: claim_update_def split: prod.splits sum.splits option.splits)
  show ?thesis using write_step_ok [OF law, of cc c call e r e'] r UpdateCall by simp
next
  case (DeleteCall s)
  obtain r where r: "claim_delete api s e = (r, e')" "ok \<longleftrightarrow> r = Inr True"
    using assms(3) DeleteCall by (auto split: prod.splits sum.splits bool.splits)
  let ?h = "cl_hostname (sc_claim s)"
  have "0 < sc_mod_revision s" using assms(2) DeleteCall by (simp add: well_read_def)
  from claim_delete_cases [OF law this r(1)] show ?thesis
  proof (elim disjE conjE)
    assume "view e' = (view e)(utf8_encode (claim_key ?h) := None)"
    then have "claim_rev view e' g = (if g = ?h then 0 else claim_rev view e g)" for g
      by (simp add: mod_rev_def)
    moreover assume "cur e < cur e'" "claim_rev view e ?h = sc_mod_revision s"
    ultimately show ?thesis using DeleteCall by (simp add: claim_step_ok_def)
  next
    assume "view e' = view e" "cur e' = cur e" "r \<noteq> Inr True"
    then show ?thesis using r(2) by (simp add: claim_step_ok_def mod_rev_def)
  qed
qed

section \<open>Exclusive writes\<close>

text \<open>Revision \<open>m\<close> of host \<open>h\<close>'s record is spent: no later call that compares with it succeeds.\<close>

definition spent :: "'e key_view \<Rightarrow> ('e \<Rightarrow> int) \<Rightarrow> host \<Rightarrow> int \<Rightarrow> 'e \<Rightarrow> bool" where
  "spent view cur h m e \<longleftrightarrow> claim_rev view e h \<noteq> m \<and> m \<le> cur e"

lemma other_spent:
  assumes "other_law view cur other" "spent view cur h m e"
  shows "spent view cur h m (other e)"
proof -
  have "m \<le> cur e" "cur e \<le> cur (other e)" using assms by (simp_all add: other_law_def spent_def)
  then have "m \<le> cur (other e)" by simp
  then show ?thesis using assms by (simp add: spent_def other_law_def mod_rev_def)
qed

lemma spent_step:
  assumes "etcd_law api view cur" "claim_step_ok view cur call e ok e'" "spent view cur h m e"
    "0 < m \<or> \<not> (is_delete_call call \<and> call_host call = h)"
  shows "spent view cur h m e'" "call_host call = h \<Longrightarrow> call_revision call = m \<Longrightarrow> \<not> ok"
  using assms mod_rev_bounds(1) [OF assms(1), of e' "utf8_encode (claim_key h)"]
  by (cases "call_host call = h"; auto simp: claim_step_ok_def spent_def Let_def split: if_splits)+

lemma success_spends:
  assumes "etcd_law api view cur" "claim_step_ok view cur call e True e'" "well_read call"
  shows "spent view cur (call_host call) (call_revision call) e' "
proof -
  let ?k = "utf8_encode (claim_key (call_host call))"
  have "0 \<le> cur e" using assms(1) by (simp add: etcd_law_def)
  moreover have "call_revision call = 0 \<or> call_revision call \<le> cur e"
    using assms(2) mod_rev_bounds(2) [OF assms(1), of e ?k] by (auto simp: claim_step_ok_def Let_def)
  ultimately show ?thesis using assms mod_rev_bounds [OF assms(1), of e' ?k]
    by (cases call) (auto simp: claim_step_ok_def spent_def well_read_def Let_def)
qed

lemma claim_run_length: "length (claim_run cc api others calls e) = min (length others) (length calls)"
  by (induction cc api others calls e rule: claim_run.induct) (auto split: prod.splits)

lemma spent_run:
  assumes "etcd_law api view cur" "\<forall>f \<in> set others. other_law view cur f" "\<forall>c \<in> set calls. well_read c"
    "spent view cur h m e" "j < length (claim_run cc api others calls e)"
    "call_host (calls ! j) = h" "call_revision (calls ! j) = m"
    "0 < m \<or> (\<forall>n < j. \<not> (is_delete_call (calls ! n) \<and> call_host (calls ! n) = h))"
  shows "\<not> claim_run cc api others calls e ! j"
  using assms
proof (induction cc api others calls e arbitrary: j rule: claim_run.induct)
  case (1 cc api other others call calls e)
  obtain ok e' where call: "run_call cc api call (other e) = (ok, e')" by fastforce
  have ok: "claim_step_ok view cur call (other e) ok e'"
    using run_call_ok [OF "1.prems"(1) _ call] "1.prems"(3) by simp
  have "spent view cur h m (other e)"
    using "1.prems"(2,4) by (simp add: other_spent)
  note step = spent_step [OF "1.prems"(1) ok this]
  show ?case
  proof (cases j)
    case 0
    then have "0 < m \<or> \<not> is_delete_call call"
      using "1.prems"(3,7) by (cases call) (auto simp: well_read_def)
    then show ?thesis using step(2) "1.prems"(6,7) 0 call by simp
  next
    case (Suc i)
    have del: "0 < m \<or> \<not> (is_delete_call call \<and> call_host call = h)" "0 < m \<or> (\<forall>n < i. \<not> (is_delete_call (calls ! n) \<and> call_host (calls ! n) = h))"
      using "1.prems"(8) Suc by (auto simp: nth_Cons' dest: spec [of _ 0] spec [of _ "Suc _"])
    then show ?thesis
      using "1.IH" [OF call [symmetric], of i] step(1) "1.prems" Suc call by simp
  qed
qed simp_all

text \<open>
  C5. Claims are exclusive across gateways. Take any sequence of claim creations, updates and deletions
  issued by any gateways, with other store traffic in between and any of them failing with an error that
  may or may not have taken effect. If two of them compare the same host's record with the same revision
  and both report success, they are creations, and a deletion of that host's claim lies between them.
\<close>

theorem claim_write_exclusive:
  assumes "etcd_law api view cur" "\<forall>f \<in> set others. other_law view cur f" "\<forall>c \<in> set calls. well_read c"
    and "oks = claim_run cc api others calls e" "i < j" "j < length oks" "oks ! i" "oks ! j"
    and "call_host (calls ! i) = call_host (calls ! j)" "call_revision (calls ! i) = call_revision (calls ! j)"
  shows "call_revision (calls ! i) = 0 \<and>
    (\<exists>n. i < n \<and> n < j \<and> is_delete_call (calls ! n) \<and> call_host (calls ! n) = call_host (calls ! i))"
  using assms
proof (induction cc api others calls e arbitrary: i j oks rule: claim_run.induct)
  case (1 cc api other others call calls e)
  obtain ok e' where call: "run_call cc api call (other e) = (ok, e')" by fastforce
  let ?oks = "claim_run cc api others calls e'"
  obtain j' where j: "j = Suc j'" using "1.prems"(5) by (cases j) auto
  have later: "j' < length ?oks" "?oks ! j'" using "1.prems"(4,6,8) call j by simp_all
  show ?case
  proof (cases i)
    case 0
    have ok "well_read call" using "1.prems"(3,4,7) 0 call by simp_all
    then have "spent view cur (call_host call) (call_revision call) e'"
      using success_spends [OF "1.prems"(1)] run_call_ok [OF "1.prems"(1) _ call] by simp
    then have "\<not> (0 < call_revision call \<or>
        (\<forall>n < j'. \<not> (is_delete_call (calls ! n) \<and> call_host (calls ! n) = call_host call)))"
      using spent_run [OF "1.prems"(1), of others calls "call_host call" "call_revision call" e' j' cc]
        "1.prems"(2,3,9,10) 0 j later by auto
    moreover have "0 \<le> call_revision call" using \<open>well_read call\<close> by (cases call) (auto simp: well_read_def)
    ultimately show ?thesis using 0 j by fastforce
  next
    case (Suc i')
    have "call_revision (calls ! i') = 0 \<and>
      (\<exists>n. i' < n \<and> n < j' \<and> is_delete_call (calls ! n) \<and> call_host (calls ! n) = call_host (calls ! i'))"
      using "1.IH" [OF call [symmetric], of ?oks i' j'] "1.prems" Suc j call later by simp
    then show ?thesis using Suc j by fastforce
  qed
qed simp_all

text \<open>
  A claim that was written is what the store returns: when a write reports revision \<open>n\<close>, a read of
  that host served next returns exactly this claim with revision \<open>n\<close>, ready for the next update.
\<close>

theorem claim_write_then_get:
  assumes "etcd_law api view cur" "cc_parse cc (utf8_encode (cc_dump cc c)) = Some c"
    and "claim_write cc api c m e = (Inr (Some n), e')" "claim_get cc api (cl_hostname c) e' = (Inr r, e'')"
  shows "r = Some \<lparr>sc_claim = c, sc_mod_revision = n\<rparr>"
proof -
  let ?k = "utf8_encode (claim_key (cl_hostname c))"
  have v: "stored_record view e' ?k = Some \<lparr>er_key = ?k, er_value = utf8_encode (cc_dump cc c), er_mod_revision = n, er_lease_id = 0\<rparr>"
    using claim_write_cases [OF assms(1,3)] by (auto simp: stored_record_def)
  have "range_law api view cur" using assms(1) by (simp add: etcd_law_def)
  then have parse: "api_range api (JObj [(''key'', JStr (etcd_encode ?k))]) e' = (Inr j, e2) \<Longrightarrow>
      parse_get_record ?k j = Inr (stored_record view e' ?k)" for j e2
    unfolding range_law_def by blast
  obtain q e2 where q: "api_range api (JObj [(''key'', JStr (etcd_encode ?k))]) e' = (q, e2)" by fastforce
  show ?thesis
  proof (cases q)
    case (Inl err)
    then show ?thesis using assms(4) q by (simp add: claim_get_def get_record_def then_parse_def Let_def)
  next
    case (Inr j)
    then show ?thesis using assms(2,4) q parse [of j e2] v
      by (simp add: claim_get_def get_record_def then_parse_def Let_def)
  qed
qed

section \<open>Suspensions survive a racing resume\<close>

abbreviation suspension_key :: "host \<Rightarrow> string" where
  "suspension_key h \<equiv> SUSPENSION_PREFIX @ canonical_hostname h"

lemma snapshot_read:
  assumes "etcd_law api view cur" "get_snapshot api p e = (r, e')"
  shows "view e' = view e" "cur e' = cur e"
    "r = Inr snap \<Longrightarrow> rec \<in> set (es_records snap) \<Longrightarrow> stored_record view e (er_key rec) = Some rec"
proof -
  define k where "k = utf8_encode (case p of Some q \<Rightarrow> if q = [] then api_prefix api else q | None \<Rightarrow> api_prefix api)"
  obtain q e2 where q: "api_range api (JObj [(''key'', JStr (etcd_encode k)),
      (''range_end'', JStr (etcd_encode (prefix_range_end k)))]) e = (q, e2)" by fastforce
  have "snapshot_law api view cur" using assms(1) by (simp add: etcd_law_def)
  with q have law: "view e2 = view e \<and> cur e2 = cur e \<and>
      (\<forall>j snap. q = Inr j \<longrightarrow> parse_snapshot j = Inr snap \<longrightarrow>
         (\<forall>rec \<in> set (es_records snap). stored_record view e (er_key rec) = Some rec))"
    unfolding snapshot_law_def by blast
  have res: "e' = e2" "r = (case q of Inl err \<Rightarrow> Inl err | Inr j \<Rightarrow> parse_snapshot j)"
    using assms(2) q
    by (cases q; simp add: get_snapshot_def then_parse_def Let_def k_def [symmetric])+
  show "view e' = view e" "cur e' = cur e" using law res by simp_all
  show "r = Inr snap \<Longrightarrow> rec \<in> set (es_records snap) \<Longrightarrow> stored_record view e (er_key rec) = Some rec"
    using law res by (cases q) auto
qed

lemma find_record_Some: "find_record key rs = Some (Some r) \<Longrightarrow> r \<in> set rs \<and> utf8_decode (er_key r) = Some key"
  by (induction rs) (auto split: option.splits if_splits)

lemma suspend_done:
  assumes "etcd_law api view cur" "suspend api other h e = (SuspensionDone, e')" "\<forall>e. cur e \<le> cur (other e)"
  shows "\<exists>v. view e' (utf8_encode (suspension_key h)) = Some (v, cur e', 0)" "cur e < cur e'"
proof -
  obtain r e1 where read: "get_snapshot api (Some (suspension_key h)) e = (r, e1)" by fastforce
  obtain m n where w: "replace_if_revision api (suspension_key h) (utf8_encode SUSPENSION_VALUE) m 0 (other e1) = (Inr (Some n), e')"
    using assms(2) read by (auto simp: suspend_def Let_def split: sum.splits option.splits prod.splits)
  have w': "view e' = (view (other e1))(utf8_encode (suspension_key h) \<mapsto> (utf8_encode SUSPENSION_VALUE, cur e', 0))" "cur (other e1) < cur e'"
    using replace_cases [OF assms(1) w] by auto
  show "\<exists>v. view e' (utf8_encode (suspension_key h)) = Some (v, cur e', 0)" using w'(1) by simp
  have "cur e \<le> cur (other e1)" using snapshot_read(2) [OF assms(1) read] assms(3) by metis
  with w'(2) show "cur e < cur e'" by simp
qed

text \<open>
  A resume never erases a newer suspension. If, after a resume has read the suspension record and
  before it deletes, a suspend of the same host (under any spelling with the same canonical name)
  completes, then the suspension is still recorded when the resume ends.
\<close>

theorem resume_keeps_newer_suspension:
  assumes "etcd_law api view cur" "resume api other h e = (r, e')" "\<forall>x. cur x \<le> cur (between x)"
    and read: "get_snapshot api (Some (suspension_key h)) e = (q, e1)"
    and "suspend api between h' e0 = (SuspensionDone, other e1)" "cur e1 \<le> cur e0"
    and "canonical_hostname h' = canonical_hostname h"
  shows "view e' (utf8_encode (suspension_key h)) \<noteq> None"
proof -
  let ?k = "utf8_encode (suspension_key h)"
  let ?e2 = "other e1"
  have fin: "\<exists>v. view ?e2 ?k = Some (v, cur ?e2, 0)" "cur e1 < cur ?e2"
    using suspend_done [OF assms(1,5,3)] assms(6,7) by auto
  show ?thesis
  proof (cases "e' = ?e2")
    case False
    then obtain snap rec x where snap: "q = Inr snap" "find_record (suspension_key h) (es_records snap) = Some (Some rec)"
      and del: "delete_if_revision api (suspension_key h) (er_mod_revision rec) ?e2 = (x, e')"
      using assms(2) read
      by (auto simp: resume_def Let_def split: sum.splits option.splits prod.splits if_splits)
    have "stored_record view e (er_key rec) = Some rec"
      using snapshot_read(3) [OF assms(1) read snap(1)] find_record_Some [OF snap(2)] by blast
    then obtain v l where "view e (er_key rec) = Some (v, er_mod_revision rec, l)"
      by (cases rec) (auto simp: stored_record_def)
    then have rev: "0 < er_mod_revision rec" "er_mod_revision rec \<le> cur e"
      using assms(1) unfolding etcd_law_def by blast+
    then have "mod_rev view ?e2 ?k \<noteq> er_mod_revision rec"
      using fin snapshot_read(2) [OF assms(1) read] by (auto simp: mod_rev_def)
    then have "view e' = view ?e2" using delete_cases [OF assms(1) rev(1) del] by blast
    then show ?thesis using fin(1) by auto
  qed (use fin(1) in auto)
qed

section \<open>A store that meets the laws\<close>

text \<open>
  A store as the list of its committed writes, newest first: the revision is the number of writes.
  It reads the requests in the JSON form the client sends.
\<close>

type_synonym kv_log = "(string \<times> (string \<times> nat) option) list"

fun kv_view :: "kv_log key_view" where
  "kv_view [] k = None"
| "kv_view ((k', w) # ws) k =
     (if k = k' then map_option (\<lambda>(v, l). (v, 1 + int (length ws), int l)) w else kv_view ws k)"

definition kv_cur :: "kv_log \<Rightarrow> int" where
  "kv_cur e = int (length e)"

definition parse_int :: "string \<Rightarrow> int" where
  "parse_int s = (case s of CHR ''-'' # ds \<Rightarrow> - the (int_digits 0 ds) | ds \<Rightarrow> the (int_digits 0 ds))"

definition json_str :: "(string \<times> json) list \<Rightarrow> string \<Rightarrow> string" where
  "json_str d f = (case obj_get d f JNull of JStr s \<Rightarrow> s | _ \<Rightarrow> [])"

definition json_bytes :: "(string \<times> json) list \<Rightarrow> string \<Rightarrow> string" where
  "json_bytes d f = the (b64decode (json_str d f))"

fun kv_request :: "json \<Rightarrow> string \<times> (string \<times> nat) option" where
  "kv_request (JObj [(f, JObj d)]) =
     (json_bytes d ''key'',
      if f = ''request_put'' then Some (json_bytes d ''value'', nat (parse_int (json_str d ''lease''))) else None)"
| "kv_request _ = ([], None)"

definition kv_reply :: "kv_log \<Rightarrow> (string \<times> json) list \<Rightarrow> json" where
  "kv_reply e d = JObj ((''header'', JObj [(''revision'', JInt (kv_cur e))]) # d)"

fun kv_transaction :: "json \<Rightarrow> kv_log \<Rightarrow> (etcd_error + json) \<times> kv_log" where
  "kv_transaction (JObj [(_, JList [JObj c]), (_, JList [request]), _]) e =
     (if mod_rev kv_view e (json_bytes c ''key'') = parse_int (json_str c ''mod_revision'')
      then (let e' = kv_request request # e in (Inr (kv_reply e' [(''succeeded'', JBool True)]), e'))
      else (Inr (kv_reply e []), e))"
| "kv_transaction _ e = (Inl TransportError, e)"

definition kv_record :: "kv_log \<Rightarrow> string \<Rightarrow> json list" where
  "kv_record e k =
     (case kv_view e k of
        None \<Rightarrow> []
      | Some (v, m, l) \<Rightarrow>
          [JObj [(''key'', JStr (etcd_encode k)), (''value'', JStr (etcd_encode v)),
                 (''mod_revision'', JInt m), (''lease'', JInt l)]])"

fun kv_range :: "json \<Rightarrow> kv_log \<Rightarrow> (etcd_error + json) \<times> kv_log" where
  "kv_range (JObj [k]) e = (Inr (kv_reply e [(''kvs'', JList (kv_record e (json_bytes [k] ''key'')))]), e)"
| "kv_range (JObj [k, n]) e =
     (Inr (kv_reply e [(''kvs'', JList (concat (map (kv_record e)
        (filter (\<lambda>j. take (length (json_bytes [k] ''key'')) j = json_bytes [k] ''key'') (remdups (map fst e))))))]), e)"
| "kv_range _ e = (Inl TransportError, e)"

definition kv_api :: "kv_log etcd_api" where
  "kv_api = \<lparr>api_prefix = ''/nodes/'', api_node_lease_ttl = 60, api_range = kv_range,
     api_transaction = kv_transaction,
     api_put = (\<lambda>_ _ _ e. (Inr True, e)), api_grant = (\<lambda>_ e. (Inr 1, e)), api_refresh = (\<lambda>_ e. (Inr 1, e)),
     api_revoke = (\<lambda>_ e. (Inr True, e)), api_replace = (\<lambda>_ _ _ e. (Inr True, e)), api_delete = (\<lambda>_ e. (Inr True, e))\<rparr>"

lemma int_digits_append:
  "list_all (\<lambda>c. digit_value c \<noteq> None) xs \<Longrightarrow>
   int_digits a (xs @ ys) = int_digits (the (int_digits a xs)) ys"
  by (induction xs arbitrary: a) auto

lemma digit_value_of: "d < 10 \<Longrightarrow> digit_value (char_of (48 + d)) = Some (int d)"
  by (auto simp: digit_value_def of_char_of)

lemma nat_digits_digits: "list_all (\<lambda>c. digit_value c \<noteq> None) (nat_digits n)"
proof (induction n rule: nat_digits.induct)
  case (1 n)
  then show ?case by (subst nat_digits.simps) (auto simp: digit_value_of simp del: nat_digits.simps)
qed

lemma int_digits_nat: "int_digits 0 (nat_digits n) = Some (int n)"
proof (induction n rule: nat_digits.induct)
  case (1 n)
  show ?case
  proof (cases "n < 10")
    case False
    then have "int_digits 0 (nat_digits n) = int_digits (int (n div 10)) [char_of (48 + n mod 10)]"
      using 1 by (subst nat_digits.simps) (simp add: int_digits_append [OF nat_digits_digits] del: nat_digits.simps)
    also have "\<dots> = Some (int (n div 10) * 10 + int (n mod 10))" by (simp add: digit_value_of)
    also have "\<dots> = Some (int n)" by (metis div_mult_mod_eq of_nat_add of_nat_mult of_nat_numeral)
    finally show ?thesis .
  qed (simp add: digit_value_of)
qed

lemma parse_int_str [simp]: "parse_int (str_int n) = n"
proof (cases "n < 0")
  case True
  then show ?thesis by (simp add: parse_int_def str_int_def int_digits_nat del: nat_digits.simps)
next
  case False
  obtain c cs where ds: "nat_digits (nat n) = c # cs"
    by (metis append_is_Nil_conv list.exhaust nat_digits.simps list.distinct(1))
  have "c \<noteq> CHR ''-''"
    using nat_digits_digits [of "nat n"] ds by (auto simp: digit_value_def)
  then have "parse_int (nat_digits (nat n)) = the (int_digits 0 (nat_digits (nat n)))"
    unfolding ds parse_int_def by (auto split: char.splits bool.splits)
  then show ?thesis using False by (simp add: str_int_def int_digits_nat del: nat_digits.simps)
qed

lemma json_bytes_encode [simp]:
  "dict_get d f = Some (JStr (etcd_encode b)) \<Longrightarrow> json_bytes d f = b"
  by (simp add: json_bytes_def json_str_def dict_get_or_def etcd_encode_def b64_roundtrip)

lemma kv_cas_law:
  assumes "kv_request request = (k, w)" "new = (\<lambda>c. map_option (\<lambda>(v, l). (v, c, int l)) w)"
  shows "cas_law kv_api kv_view kv_cur k m request new"
proof -
  let ?t = "txn [compare_mod k m] [request]"
  have run: "api_transaction kv_api ?t e =
      (if mod_rev kv_view e k = m then (Inr (kv_reply ((k, w) # e) [(''succeeded'', JBool True)]), (k, w) # e)
       else (Inr (kv_reply e []), e))" for e
    by (simp add: kv_api_def txn_def compare_mod_def json_str_def dict_get_or_def assms(1) Let_def)
  have view: "kv_view ((k, w) # e) = (kv_view e)(k := new (kv_cur ((k, w) # e)))" for e
    by (auto simp: fun_eq_iff kv_cur_def assms(2))
  have cur: "kv_cur e < kv_cur ((k, w) # e)" "\<not> kv_cur e < 0" "\<not> kv_cur ((k, w) # e) < 0" for e
    by (simp_all add: kv_cur_def)
  show ?thesis
    unfolding cas_law_def run Let_def
    using view cur by (auto simp: kv_reply_def header_revision_def etcd_revision_def dict_get_or_def simp del: kv_view.simps)
qed

lemma kv_view_bounds: "kv_view e k = Some (v, m, l) \<Longrightarrow> 0 < m \<and> m \<le> kv_cur e \<and> 0 \<le> l"
  by (induction e k rule: kv_view.induct) (auto simp: kv_cur_def split: if_splits)

lemma kv_record_parse:
  assumes "j \<in> set (kv_record e k)"
  obtains v m l where "kv_view e k = Some (v, m, l)" "parse_kv j c True = Inr (k, Some v, m, l)" "kv_record e k = [j]"
proof -
  obtain v m l where v: "kv_view e k = Some (v, m, l)"
    using assms by (cases "kv_view e k") (auto simp: kv_record_def)
  moreover have "kv_record e k = [j]" using assms v by (simp add: kv_record_def)
  moreover have "parse_kv j c True = Inr (k, Some v, m, l)"
    using assms v kv_view_bounds [OF v]
    by (auto simp: kv_record_def parse_kv_def etcd_decode_def etcd_encode_def b64_roundtrip etcd_revision_def dict_get_or_def)
  ultimately show thesis using that by blast
qed

lemma kv_range_law: "range_law kv_api kv_view kv_cur"
proof -
  have "parse_get_record k (kv_reply e [(''kvs'', JList (kv_record e k))]) = Inr (stored_record kv_view e k)" for k e
  proof (cases "kv_record e k")
    case Nil
    then show ?thesis
      by (auto simp: kv_reply_def parse_get_record_def stored_record_def kv_record_def dict_get_or_def split: option.splits)
  next
    case (Cons j js)
    then show ?thesis
      by (auto intro: kv_record_parse [of j e k "''range''"] simp: kv_reply_def parse_get_record_def stored_record_def dict_get_or_def)
  qed
  then show ?thesis
    by (simp add: range_law_def kv_api_def dict_get_or_def)
qed

lemma kv_record_of_range:
  assumes "j \<in> set (kv_record e k)" "record_of_range j = Inr rec"
  shows "stored_record kv_view e (er_key rec) = Some rec"
proof -
  obtain v m l where "kv_view e k = Some (v, m, l)" "parse_kv j ''range'' True = Inr (k, Some v, m, l)"
    using kv_record_parse [OF assms(1), of "''range''"] by blast
  then show ?thesis using assms(2) by (auto simp: record_of_range_def stored_record_def)
qed

lemma kv_snapshot_law: "snapshot_law kv_api kv_view kv_cur"
proof -
  have "stored_record kv_view e (er_key rec) = Some rec"
    if "parse_snapshot (kv_reply e [(''kvs'', JList (concat (map (kv_record e) ks)))]) = Inr snap"
      "rec \<in> set (es_records snap)" for e ks snap rec
  proof -
    have "traverse record_of_range (concat (map (kv_record e) ks)) = Inr (es_records snap)"
      using that(1) by (auto simp: parse_snapshot_def kv_reply_def dict_get_or_def split: sum.splits if_splits)
    from traverse_Inr [OF this that(2)] show ?thesis using kv_record_of_range by auto
  qed
  then show ?thesis
    unfolding snapshot_law_def kv_api_def by auto
qed

lemma kv_law: "etcd_law kv_api kv_view kv_cur"
proof -
  have "cas_law kv_api kv_view kv_cur k m (request_put k v l) (\<lambda>c. Some (v, c, l))" if "0 \<le> l" for k m v l
    by (rule kv_cas_law [where w = "Some (v, nat l)"])
      (simp_all add: request_put_def json_str_def dict_get_or_def that)
  moreover have "cas_law kv_api kv_view kv_cur k m (request_delete k) (\<lambda>_. None)" for k m
    by (rule kv_cas_law [where w = None]) (simp_all add: request_delete_def)
  ultimately show ?thesis
    using kv_view_bounds kv_range_law kv_snapshot_law by (auto simp: etcd_law_def txn_law_def kv_cur_def)
qed

text \<open>What the client methods do on this store, with the codecs gone.\<close>

lemma kv_txn_run:
  "kv_request request = w \<Longrightarrow> kv_transaction (txn [compare_mod k m] [request]) e =
     (if mod_rev kv_view e k = m then (Inr (kv_reply (w # e) [(''succeeded'', JBool True)]), w # e)
      else (Inr (kv_reply e []), e))"
  by (simp add: txn_def compare_mod_def json_str_def dict_get_or_def Let_def)

lemma kv_reply_revision [simp]: "header_revision [(''header'', JObj [(''revision'', JInt (kv_cur e))]), x] c = Inr (kv_cur e)"
  by (simp add: header_revision_def etcd_revision_def dict_get_or_def kv_cur_def)

lemma kv_replace:
  "replace_if_revision kv_api key v m 0 e =
     (if mod_rev kv_view e (utf8_encode key) = m
      then (Inr (Some (1 + kv_cur e)), (utf8_encode key, Some (v, 0)) # e) else (Inr None, e))"
proof -
  have "kv_request (request_put (utf8_encode key) v 0) = (utf8_encode key, Some (v, 0))"
    using parse_int_str [of 0] by (simp add: request_put_def json_str_def dict_get_or_def)
  then show ?thesis
    by (simp add: replace_if_revision_def then_parse_def kv_api_def kv_txn_run Let_def kv_reply_def dict_get_or_def)
      (simp add: kv_cur_def)
qed

lemma kv_delete:
  "delete_if_revision kv_api key m e =
     (if mod_rev kv_view e (utf8_encode key) = m then (Inr True, (utf8_encode key, None) # e) else (Inr False, e))"
proof -
  have "kv_request (request_delete (utf8_encode key)) = (utf8_encode key, None)"
    by (simp add: request_delete_def)
  then show ?thesis
    by (simp add: delete_if_revision_def then_parse_def kv_api_def kv_txn_run Let_def kv_reply_def dict_get_or_def txn_succeeded_def)
qed

lemma kv_get_record: "get_record kv_api key e = (Inr (stored_record kv_view e (utf8_encode key)), e)"
proof -
  let ?r = "JObj [(''key'', JStr (etcd_encode (utf8_encode key)))]"
  obtain j where j: "api_range kv_api ?r e = (Inr j, e)" by (simp add: kv_api_def)
  then have "parse_get_record (utf8_encode key) j = Inr (stored_record kv_view e (utf8_encode key))"
    using kv_range_law unfolding range_law_def by blast
  then show ?thesis using j by (simp add: get_record_def then_parse_def Let_def)
qed

lemma kv_traverse:
  "traverse record_of_range (concat (map (kv_record e) ks)) = Inr (List.map_filter (stored_record kv_view e) ks)"
proof (induction ks)
  case (Cons k ks)
  show ?case
  proof (cases "kv_view e k")
    case None
    then show ?thesis using Cons by (simp add: kv_record_def stored_record_def map_filter_simps)
  next
    case (Some x)
    then obtain j where "kv_record e k = [j]" by (cases x) (simp add: kv_record_def)
    then have j: "kv_record e k = [j]" "j \<in> set (kv_record e k)" by simp_all
    then obtain v m l where v: "kv_view e k = Some (v, m, l)" "parse_kv j ''range'' True = Inr (k, Some v, m, l)"
      using kv_record_parse [OF j(2), of "''range''"] by blast
    have "record_of_range j = Inr \<lparr>er_key = k, er_value = v, er_mod_revision = m, er_lease_id = l\<rparr>"
      using v(2) by (simp add: record_of_range_def)
    then show ?thesis using Cons j(1) v(1) by (simp add: map_filter_simps stored_record_def)
  qed
qed simp

lemma kv_get_snapshot:
  assumes "p \<noteq> []"
  shows "get_snapshot kv_api (Some p) e =
    (Inr \<lparr>es_records = List.map_filter (stored_record kv_view e)
            (filter (\<lambda>k. take (length (utf8_encode p)) k = utf8_encode p) (remdups (map fst e))),
          es_revision = kv_cur e\<rparr>, e)"
proof -
  let ?ks = "filter (\<lambda>k. take (length (utf8_encode p)) k = utf8_encode p) (remdups (map fst e))"
  have "\<not> list_ex (\<lambda>x. er_mod_revision x > kv_cur e) (List.map_filter (stored_record kv_view e) ?ks)"
    using kv_view_bounds by (fastforce simp: list_ex_iff stored_record_def List.map_filter_def)
  then show ?thesis
    using assms
    by (simp add: get_snapshot_def then_parse_def kv_api_def Let_def kv_reply_def parse_snapshot_def kv_traverse dict_get_or_def)
qed

lemmas kv_eval = kv_replace kv_delete kv_get_record kv_get_snapshot mod_rev_def stored_record_def kv_cur_def

definition sample_claim :: PlacementClaim where
  "sample_claim = \<lparr>cl_claim_id = replicate 32 (CHR ''a''), cl_hostname = ''h1'', cl_profile_id = ''p'',
     cl_profile_version = 1, cl_gpu_class = ''h100'', cl_state = CLAIM_PROVISIONING, cl_attempts = 0,
     cl_holder = replicate 32 (CHR ''b''), cl_created_at = 0, cl_updated_at = 0, cl_heartbeat_at = 0,
     cl_retry_at = None, cl_last_error = []\<rparr>"

definition sample_codec :: claim_codec where
  "sample_codec = \<lparr>cc_parse = (\<lambda>v. if v = ''claim'' then Some sample_claim else None), cc_dump = (\<lambda>_. ''claim'')\<rparr>"

abbreviation sample_calls :: "claim_call list" where
  "sample_calls \<equiv> [CreateCall sample_claim, CreateCall sample_claim,
     DeleteCall \<lparr>sc_claim = sample_claim, sc_mod_revision = 1\<rparr>, CreateCall sample_claim]"

lemmas claim_eval = kv_eval claim_create_def claim_update_def claim_delete_def claim_write_def claim_get_def
  sample_codec_def sample_claim_def

theorem claim_write_exclusive_witness:
  "claim_run sample_codec kv_api [id, id, id, id] sample_calls [] = [True, False, True, True] \<and>
   call_revision (sample_calls ! 0) = 0 \<and>
   (\<exists>n. 0 < n \<and> n < 3 \<and> is_delete_call (sample_calls ! n) \<and> call_host (sample_calls ! n) = call_host (sample_calls ! 0))"
proof -
  have run: "claim_run sample_codec kv_api [id, id, id, id] sample_calls [] = [True, False, True, True]"
    by (simp add: claim_eval)
  show ?thesis
    using run claim_write_exclusive [OF kv_law, of "[id, id, id, id]" sample_calls _ sample_codec "[]" 0 3]
    by (simp add: other_law_def well_read_def)
qed

theorem claim_write_then_get_witness:
  "\<exists>n e'. claim_write sample_codec kv_api sample_claim 0 [] = (Inr (Some n), e') \<and>
     fst (claim_get sample_codec kv_api ''h1'' e') = Inr (Some \<lparr>sc_claim = sample_claim, sc_mod_revision = n\<rparr>)"
proof -
  let ?e = "[(utf8_encode (claim_key ''h1''), Some (utf8_encode ''claim'', 0))]"
  have w: "claim_write sample_codec kv_api sample_claim 0 [] = (Inr (Some 1), ?e)" by (simp add: claim_eval)
  have p: "cc_parse sample_codec (utf8_encode (cc_dump sample_codec sample_claim)) = Some sample_claim"
    by (simp add: sample_codec_def utf8_encode_def)
  have host: "cl_hostname sample_claim = ''h1''" by (simp add: sample_claim_def)
  obtain r where g: "claim_get sample_codec kv_api (cl_hostname sample_claim) ?e = (Inr r, ?e)"
    unfolding host using p by (simp add: kv_eval claim_get_def sample_codec_def utf8_encode_def sample_claim_def)
  from claim_write_then_get [OF kv_law p w g] g w show ?thesis by (simp add: host)
qed

theorem resume_keeps_newer_suspension_witness:
  "\<exists>e e'. snd (suspend kv_api id ''h1'' []) = e \<and>
     resume kv_api (\<lambda>x. snd (suspend kv_api id ''H1.'' x)) ''h1'' e =
       (SuspensionConflict ''Suspension changed concurrently; refresh and retry'', e') \<and>
     kv_view e' (utf8_encode (suspension_key ''h1'')) \<noteq> None"
proof -
  let ?k = "utf8_encode (suspension_key ''h1'')" and ?v = "utf8_encode SUSPENSION_VALUE"
  let ?e = "[(?k, Some (?v, 0))]" and ?e2 = "[(?k, Some (?v, 0)), (?k, Some (?v, 0))]"
  have c: "canonical_hostname ''H1.'' = ''h1''" "canonical_hostname ''h1'' = ''h1''" by code_simp+
  have ne: "SUSPENSION_PREFIX \<noteq> []" by (simp add: SUSPENSION_PREFIX_def)
  have s1: "snd (suspend kv_api id ''h1'' []) = ?e"
    by (simp add: suspend_def Let_def kv_eval ne map_filter_simps)
  have s2: "suspend kv_api id ''H1.'' ?e = (SuspensionDone, ?e2)"
    using ne by (simp add: suspend_def Let_def kv_eval map_filter_simps c)
  have r: "resume kv_api (\<lambda>x. snd (suspend kv_api id ''H1.'' x)) ''h1'' ?e =
       (SuspensionConflict ''Suspension changed concurrently; refresh and retry'', ?e2)"
    using ne s2 by (simp add: resume_def Let_def kv_eval map_filter_simps c)
  obtain t where t: "get_snapshot kv_api (Some (suspension_key ''h1'')) ?e = (t, ?e)"
    using ne by (simp add: kv_get_snapshot)
  have "kv_view ?e2 ?k \<noteq> None"
    by (rule resume_keeps_newer_suspension [OF kv_law r, where between = id and h' = "''H1.''" and ?e0.0 = "[(utf8_encode (suspension_key ''h1''), Some (utf8_encode SUSPENSION_VALUE, 0))]", OF _ t])
      (use s2 c in simp_all)
  then show ?thesis using s1 r by blast
qed

end
