(* ===== verification/HostLifecycle.thy ===== *)
theory HostLifecycle
  imports QiipPrelude
begin

text \<open>
  \<^verbatim>\<open>provisioning/host_lifecycle.py\<close>: one lifecycle operation (provisioning, relaunch, teardown) per host
  at a time. The coordinator maps a hostname to a lock entry shared by the holder of the host and
  by the tasks that wait for it, and drops the entry with its last user. Entries are objects with an
  identity: they live in \<open>hc_heap\<close> and the dictionary and the leases name them by index. The
  \<open>asyncio.Lock\<close> of an entry is modelled with its queue of waiters, each with the flag that its future
  was resolved; a step is what runs between two suspension points of the event loop. A cancelled
  waiter leaves the queue in the step that cancels it. The component refines a first-come first-served
  mutex per host.
\<close>

section \<open>asyncio.Lock\<close>

type_synonym task = nat

record HostLockEntry =
  le_locked :: bool
  le_waiters :: "(task \<times> bool) list"
  le_users :: int

definition HostLockEntry_new :: "int \<Rightarrow> HostLockEntry" where
  "HostLockEntry_new users = \<lparr>le_locked = False, le_waiters = [], le_users = users\<rparr>"

text \<open>Taken at once when free and nobody waits; otherwise the caller queues.\<close>

definition lock_acquire :: "task \<Rightarrow> HostLockEntry \<Rightarrow> bool \<times> HostLockEntry" where
  "lock_acquire t l =
     (if \<not> le_locked l \<and> le_waiters l = [] then (True, l\<lparr>le_locked := True\<rparr>)
      else (False, l\<lparr>le_waiters := le_waiters l @ [(t, False)]\<rparr>))"

definition wake_up_first :: "HostLockEntry \<Rightarrow> HostLockEntry" where
  "wake_up_first l =
     (case le_waiters l of [] \<Rightarrow> l | (t, _) # ws \<Rightarrow> l\<lparr>le_waiters := (t, True) # ws\<rparr>)"

definition lock_release :: "HostLockEntry \<Rightarrow> HostLockEntry option" where
  "lock_release l = (if le_locked l then Some (wake_up_first (l\<lparr>le_locked := False\<rparr>)) else None)"

definition lock_resume :: "task \<Rightarrow> HostLockEntry \<Rightarrow> HostLockEntry" where
  "lock_resume t l = l\<lparr>le_waiters := filter (\<lambda>w. fst w \<noteq> t) (le_waiters l), le_locked := True\<rparr>"

definition lock_cancel :: "task \<Rightarrow> HostLockEntry \<Rightarrow> HostLockEntry" where
  "lock_cancel t l =
     (let l = l\<lparr>le_waiters := filter (\<lambda>w. fst w \<noteq> t) (le_waiters l)\<rparr>
      in if le_locked l then l else wake_up_first l)"

section \<open>Leases and the coordinator\<close>

record HostLifecycleLease =
  hl_hostname :: host
  hl_entry :: nat
  hl_released :: bool

record HostLifecycleCoordinator =
  hc_entries :: "(host, nat) dict"
  hc_heap :: "HostLockEntry list"
  hc_leases :: "HostLifecycleLease list"

definition HostLifecycleCoordinator_new :: HostLifecycleCoordinator where
  "HostLifecycleCoordinator_new = \<lparr>hc_entries = [], hc_heap = [], hc_leases = []\<rparr>"

definition on_entry ::
  "nat \<Rightarrow> (HostLockEntry \<Rightarrow> HostLockEntry) \<Rightarrow> HostLifecycleCoordinator \<Rightarrow> HostLifecycleCoordinator" where
  "on_entry a f s = s\<lparr>hc_heap := (hc_heap s)[a := f (hc_heap s ! a)]\<rparr>"

definition new_lease :: "host \<Rightarrow> nat \<Rightarrow> HostLifecycleCoordinator \<Rightarrow> HostLifecycleCoordinator" where
  "new_lease hostname a s =
     s\<lparr>hc_leases := hc_leases s @ [\<lparr>hl_hostname = hostname, hl_entry = a, hl_released = False\<rparr>]\<rparr>"

definition drop_user :: "host \<Rightarrow> nat \<Rightarrow> HostLifecycleCoordinator \<Rightarrow> HostLifecycleCoordinator" where
  "drop_user hostname a s =
     (if dict_get (hc_entries s) hostname \<noteq> Some a then s
      else let s = on_entry a (\<lambda>l. l\<lparr>le_users := le_users l - 1\<rparr>) s
           in if le_users (hc_heap s ! a) = 0 then s\<lparr>hc_entries := dict_pop hostname (hc_entries s)\<rparr> else s)"

text \<open>The entry of a host and the state after looking it up or creating it.\<close>

definition entry_for :: "host \<Rightarrow> HostLifecycleCoordinator \<Rightarrow> nat \<times> HostLifecycleCoordinator" where
  "entry_for hostname s =
     (case dict_get (hc_entries s) hostname of
        Some a \<Rightarrow> (a, s)
      | None \<Rightarrow> (length (hc_heap s),
          s\<lparr>hc_entries := dict_set hostname (length (hc_heap s)) (hc_entries s),
            hc_heap := hc_heap s @ [HostLockEntry_new 0]\<rparr>))"

text \<open>
  \<open>acquire\<close> up to its suspension point: it either returns a lease at once (\<open>True\<close>) or waits. A waiting
  task later continues with \<open>acquire_resume\<close>, or with \<open>acquire_cancel\<close> when it is cancelled.
\<close>

definition acquire_start :: "host \<Rightarrow> task \<Rightarrow> HostLifecycleCoordinator \<Rightarrow> bool \<times> HostLifecycleCoordinator" where
  "acquire_start hostname t s =
     (let (a, s) = entry_for hostname s;
          s = on_entry a (\<lambda>l. l\<lparr>le_users := le_users l + 1\<rparr>) s;
          (got, l) = lock_acquire t (hc_heap s ! a);
          s = on_entry a (\<lambda>_. l) s
      in (got, if got then new_lease hostname a s else s))"

definition acquire_resume :: "host \<Rightarrow> nat \<Rightarrow> task \<Rightarrow> HostLifecycleCoordinator \<Rightarrow> HostLifecycleCoordinator" where
  "acquire_resume hostname a t s = new_lease hostname a (on_entry a (lock_resume t) s)"

definition acquire_cancel :: "host \<Rightarrow> nat \<Rightarrow> task \<Rightarrow> HostLifecycleCoordinator \<Rightarrow> HostLifecycleCoordinator" where
  "acquire_cancel hostname a t s = drop_user hostname a (on_entry a (lock_cancel t) s)"

text \<open>The lock of a private new entry is free, so the \<open>await\<close> in \<open>try_acquire\<close> does not suspend.\<close>

definition try_acquire :: "host \<Rightarrow> task \<Rightarrow> HostLifecycleCoordinator \<Rightarrow> bool \<times> HostLifecycleCoordinator" where
  "try_acquire hostname t s =
     (if dict_get (hc_entries s) hostname \<noteq> None then (False, s)
      else let a = length (hc_heap s);
               (got, l) = lock_acquire t (HostLockEntry_new 1);
               s = s\<lparr>hc_entries := dict_set hostname a (hc_entries s), hc_heap := hc_heap s @ [l]\<rparr>
           in (True, new_lease hostname a s))"

definition is_busy :: "HostLifecycleCoordinator \<Rightarrow> host \<Rightarrow> bool" where
  "is_busy s hostname \<longleftrightarrow> dict_get (hc_entries s) hostname \<noteq> None"

text \<open>\<open>False\<close>: \<open>asyncio.Lock.release\<close> raised \<open>RuntimeError\<close> for a lock that is not held.\<close>

definition coordinator_release ::
  "host \<Rightarrow> nat \<Rightarrow> HostLifecycleCoordinator \<Rightarrow> bool \<times> HostLifecycleCoordinator" where
  "coordinator_release hostname a s =
     (case lock_release (hc_heap s ! a) of
        None \<Rightarrow> (False, s)
      | Some l \<Rightarrow> (True, drop_user hostname a (on_entry a (\<lambda>_. l) s)))"

definition lease_release :: "nat \<Rightarrow> HostLifecycleCoordinator \<Rightarrow> bool \<times> HostLifecycleCoordinator" where
  "lease_release i s =
     (let lease = hc_leases s ! i
      in if hl_released lease then (True, s)
         else coordinator_release (hl_hostname lease) (hl_entry lease)
                (s\<lparr>hc_leases := (hc_leases s)[i := lease\<lparr>hl_released := True\<rparr>]\<rparr>))"

text \<open>The coordinator argument is the lease's own one here: a lease names only its own coordinator.\<close>

definition belongs_to :: "HostLifecycleLease \<Rightarrow> host \<Rightarrow> bool" where
  "belongs_to lease hostname \<longleftrightarrow> \<not> hl_released lease \<and> hl_hostname lease = hostname"

section \<open>Interleavings\<close>

definition waiting :: "HostLifecycleCoordinator \<Rightarrow> host \<Rightarrow> (task \<times> bool) list" where
  "waiting s h = (case dict_get (hc_entries s) h of None \<Rightarrow> [] | Some a \<Rightarrow> le_waiters (hc_heap s ! a))"

text \<open>A task waits for one host at a time, so a task that starts to acquire is not in the queue.\<close>

inductive lifecycle_step :: "HostLifecycleCoordinator \<Rightarrow> HostLifecycleCoordinator \<Rightarrow> bool" where
  start: "t \<notin> fst ` set (waiting s h) \<Longrightarrow> lifecycle_step s (snd (acquire_start h t s))"
| resume: "dict_get (hc_entries s) h = Some a \<Longrightarrow> (t, True) \<in> set (le_waiters (hc_heap s ! a)) \<Longrightarrow>
     lifecycle_step s (acquire_resume h a t s)"
| cancel: "dict_get (hc_entries s) h = Some a \<Longrightarrow> (t, w) \<in> set (le_waiters (hc_heap s ! a)) \<Longrightarrow>
     lifecycle_step s (acquire_cancel h a t s)"
| trying: "lifecycle_step s (snd (try_acquire h t s))"
| release: "i < length (hc_leases s) \<Longrightarrow> lifecycle_step s (snd (lease_release i s))"

inductive_cases lifecycle_stepE: "lifecycle_step s t"

definition lifecycle_init :: "HostLifecycleCoordinator \<Rightarrow> bool" where
  "lifecycle_init s \<longleftrightarrow> s = HostLifecycleCoordinator_new"

section \<open>The abstract mutex\<close>

record fifo_mutex =
  mx_owner :: "host \<Rightarrow> nat option"
  mx_queue :: "host \<Rightarrow> task list"
  mx_issued :: nat

text \<open>A host has at most one owner. A free host goes to the task that waited longest.\<close>

inductive mutex_step :: "fifo_mutex \<Rightarrow> fifo_mutex \<Rightarrow> bool" where
  grant: "mx_owner m h = None \<Longrightarrow> mx_queue m h = [] \<Longrightarrow>
     mutex_step m (m\<lparr>mx_owner := (mx_owner m)(h \<mapsto> mx_issued m), mx_issued := Suc (mx_issued m)\<rparr>)"
| enqueue: "mx_owner m h \<noteq> None \<or> mx_queue m h \<noteq> [] \<Longrightarrow> t \<notin> set (mx_queue m h) \<Longrightarrow>
     mutex_step m (m\<lparr>mx_queue := (mx_queue m)(h := mx_queue m h @ [t])\<rparr>)"
| handover: "mx_owner m h = None \<Longrightarrow> mx_queue m h = t # ts \<Longrightarrow>
     mutex_step m (m\<lparr>mx_owner := (mx_owner m)(h \<mapsto> mx_issued m), mx_queue := (mx_queue m)(h := ts),
                     mx_issued := Suc (mx_issued m)\<rparr>)"
| withdraw: "t \<in> set (mx_queue m h) \<Longrightarrow>
     mutex_step m (m\<lparr>mx_queue := (mx_queue m)(h := filter (\<lambda>u. u \<noteq> t) (mx_queue m h))\<rparr>)"
| free: "mx_owner m h = Some i \<Longrightarrow> mutex_step m (m\<lparr>mx_owner := (mx_owner m)(h := None)\<rparr>)"

definition mutex_init :: "fifo_mutex \<Rightarrow> bool" where
  "mutex_init m \<longleftrightarrow> m = \<lparr>mx_owner = (\<lambda>_. None), mx_queue = (\<lambda>_. []), mx_issued = 0\<rparr>"

section \<open>Invariant and abstraction\<close>

definition live :: "HostLifecycleCoordinator \<Rightarrow> host \<Rightarrow> nat list" where
  "live s h = filter (\<lambda>i. belongs_to (hc_leases s ! i) h) [0..<length (hc_leases s)]"

definition entry_of :: "HostLifecycleCoordinator \<Rightarrow> host \<Rightarrow> HostLockEntry option" where
  "entry_of s h = map_option (\<lambda>a. hc_heap s ! a) (dict_get (hc_entries s) h)"

definition lifecycle_abs :: "HostLifecycleCoordinator \<Rightarrow> fifo_mutex" where
  "lifecycle_abs s =
     \<lparr>mx_owner = (\<lambda>h. case live s h of [] \<Rightarrow> None | i # _ \<Rightarrow> Some i),
      mx_queue = (\<lambda>h. map fst (waiting s h)), mx_issued = length (hc_leases s)\<rparr>"

definition ids_ok :: "HostLifecycleCoordinator \<Rightarrow> bool" where
  "ids_ok s \<longleftrightarrow>
     (\<forall>h a. dict_get (hc_entries s) h = Some a \<longrightarrow> a < length (hc_heap s)) \<and>
     (\<forall>h h' a. dict_get (hc_entries s) h = Some a \<longrightarrow> dict_get (hc_entries s) h' = Some a \<longrightarrow> h = h') \<and>
     (\<forall>h. \<forall>i \<in> set (live s h). dict_get (hc_entries s) h = Some (hl_entry (hc_leases s ! i)))"

text \<open>An entry against the live leases of its host.\<close>

definition entry_ok :: "HostLockEntry \<Rightarrow> nat list \<Rightarrow> bool" where
  "entry_ok l is \<longleftrightarrow>
     le_users l = int (length is) + int (length (le_waiters l)) \<and> distinct (map fst (le_waiters l)) \<and>
     (if le_locked l then (\<exists>i. is = [i]) \<and> (\<forall>w \<in> set (le_waiters l). \<not> snd w)
      else is = [] \<and> (\<exists>t ws. le_waiters l = (t, True) # ws \<and> (\<forall>w \<in> set ws. \<not> snd w)))"

definition lifecycle_inv :: "HostLifecycleCoordinator \<Rightarrow> bool" where
  "lifecycle_inv s \<longleftrightarrow> ids_ok s \<and>
     (\<forall>h. case entry_of s h of None \<Rightarrow> live s h = [] | Some l \<Rightarrow> entry_ok l (live s h))"

lemma waiting_entry: "waiting s h = (case entry_of s h of None \<Rightarrow> [] | Some l \<Rightarrow> le_waiters l)"
  by (simp add: waiting_def entry_of_def split: option.splits)

lemma entry_ofD:
  assumes "entry_of s h = Some l"
  obtains a where "dict_get (hc_entries s) h = Some a" "hc_heap s ! a = l"
  using assms by (auto simp: entry_of_def)

lemma live_frame [simp]:
  "live (on_entry a f s) h = live s h" "live (drop_user g a s) h = live s h"
  "live (s\<lparr>hc_entries := x\<rparr>) h = live s h" "live (s\<lparr>hc_heap := y\<rparr>) h = live s h"
  by (simp_all add: live_def on_entry_def drop_user_def Let_def)

lemma leases_frame [simp]:
  "hc_leases (on_entry a f s) = hc_leases s" "hc_leases (drop_user g a s) = hc_leases s"
  by (simp_all add: on_entry_def drop_user_def Let_def)

lemma entries_on_entry [simp]: "hc_entries (on_entry a f s) = hc_entries s"
  by (simp add: on_entry_def)

lemma live_new_lease [simp]:
  "live (new_lease h a s) g = live s g @ (if g = h then [length (hc_leases s)] else [])"
proof -
  define x where "x = \<lparr>hl_hostname = h, hl_entry = a, hl_released = False\<rparr>"
  have old: "filter (\<lambda>i. belongs_to ((hc_leases s @ [x]) ! i) g) [0..<length (hc_leases s)] = live s g"
    unfolding live_def by (rule filter_cong) (auto simp: nth_append)
  have "live (new_lease h a s) g = filter (\<lambda>i. belongs_to ((hc_leases s @ [x]) ! i) g) [0..<Suc (length (hc_leases s))]"
    by (simp add: live_def new_lease_def x_def)
  then show ?thesis by (simp add: old) (simp add: belongs_to_def x_def)
qed

lemma live_released:
  assumes "i < length (hc_leases s)"
  shows "live (s\<lparr>hc_leases := (hc_leases s)[i := (hc_leases s ! i)\<lparr>hl_released := True\<rparr>]\<rparr>) g =
    filter (\<lambda>j. j \<noteq> i) (live s g)"
  unfolding live_def filter_filter using assms
  by (auto simp: belongs_to_def nth_list_update intro!: filter_cong)

text \<open>How the operations change the entry of each host.\<close>

lemma entry_on_entry:
  assumes "ids_ok s" "dict_get (hc_entries s) h = Some a"
  shows "entry_of (on_entry a f s) g = (if g = h then map_option f (entry_of s h) else entry_of s g)"
proof (cases "g = h")
  case True
  have "a < length (hc_heap s)" using assms unfolding ids_ok_def by blast
  then show ?thesis using assms(2) True by (simp add: entry_of_def on_entry_def)
next
  case False
  have "dict_get (hc_entries s) g \<noteq> Some a" using assms False unfolding ids_ok_def by blast
  then show ?thesis
    using False by (cases "dict_get (hc_entries s) g") (auto simp: entry_of_def on_entry_def)
qed

lemma ids_on_entry [simp]: "ids_ok (on_entry a f s) \<longleftrightarrow> ids_ok s"
proof -
  have "hc_entries (on_entry a f s) = hc_entries s" "length (hc_heap (on_entry a f s)) = length (hc_heap s)"
    by (simp_all add: on_entry_def)
  then show ?thesis by (simp add: ids_ok_def)
qed

lemma heap_on_entry:
  assumes "ids_ok s" "dict_get (hc_entries s) h = Some a"
  shows "hc_heap (on_entry a f s) ! a = f (hc_heap s ! a)"
proof -
  have "a < length (hc_heap s)" using assms unfolding ids_ok_def by blast
  then show ?thesis by (simp add: on_entry_def)
qed

lemma drop_user_eq:
  assumes "ids_ok s" "dict_get (hc_entries s) h = Some a" "hc_heap s ! a = l"
    "s' = on_entry a (\<lambda>l. l\<lparr>le_users := le_users l - 1\<rparr>) s"
  shows "drop_user h a s = (if le_users l = 1 then s'\<lparr>hc_entries := dict_pop h (hc_entries s)\<rparr> else s')"
proof -
  have "hc_entries s' = hc_entries s" by (simp add: assms(4) on_entry_def)
  moreover have "hc_heap s' ! a = l\<lparr>le_users := le_users l - 1\<rparr>"
    using heap_on_entry [OF assms(1,2)] assms(3,4) by simp
  ultimately show ?thesis using assms(2,4) by (simp add: drop_user_def Let_def)
qed

lemma drop_user_entry:
  assumes "ids_ok s" "entry_of s h = Some l" "dict_get (hc_entries s) h = Some a"
  shows "entry_of (drop_user h a s) g =
    (if g = h then (if le_users l = 1 then None else Some (l\<lparr>le_users := le_users l - 1\<rparr>)) else entry_of s g)"
proof -
  define s' where "s' = on_entry a (\<lambda>l. l\<lparr>le_users := le_users l - 1\<rparr>) s"
  have l: "hc_heap s ! a = l" using assms(2,3) by (simp add: entry_of_def)
  have "entry_of s' g = (if g = h then Some (l\<lparr>le_users := le_users l - 1\<rparr>) else entry_of s g)"
    using entry_on_entry [OF assms(1,3)] assms(2) by (simp add: s'_def)
  moreover have "entry_of (s'\<lparr>hc_entries := dict_pop h (hc_entries s)\<rparr>) g = (if g = h then None else entry_of s' g)"
    by (simp add: entry_of_def s'_def on_entry_def)
  ultimately show ?thesis using drop_user_eq [OF assms(1,3) l s'_def] by (cases "g = h") simp_all
qed

lemma drop_user_ids:
  assumes "ids_ok s" "entry_of s h = Some l" "dict_get (hc_entries s) h = Some a"
    "le_users l = 1 \<longrightarrow> live s h = []"
  shows "ids_ok (drop_user h a s)"
proof -
  define s' where "s' = on_entry a (\<lambda>l. l\<lparr>le_users := le_users l - 1\<rparr>) s"
  have l: "hc_heap s ! a = l" using assms(2,3) by (simp add: entry_of_def)
  have "ids_ok s'" "live s' g = live s g" "hc_entries s' = hc_entries s" for g
    using assms(1) by (simp_all add: s'_def)
  then have "live s h = [] \<Longrightarrow> ids_ok (s'\<lparr>hc_entries := dict_pop h (hc_entries s)\<rparr>)"
    unfolding ids_ok_def by (auto split: if_splits)
  then show ?thesis using drop_user_eq [OF assms(1,3) l s'_def] \<open>ids_ok s'\<close> assms(4) by simp
qed

lemma new_lease_entry [simp]: "entry_of (new_lease h a s) g = entry_of s g"
  by (simp add: entry_of_def new_lease_def)

lemma new_lease_ids:
  assumes "ids_ok s" "dict_get (hc_entries s) h = Some a"
  shows "ids_ok (new_lease h a s)"
proof -
  have frame: "hc_entries (new_lease h a s) = hc_entries s" "hc_heap (new_lease h a s) = hc_heap s"
    by (simp_all add: new_lease_def)
  have "i < length (hc_leases s)" if "i \<in> set (live s g)" for i g using that by (auto simp: live_def)
  then have "hc_leases (new_lease h a s) ! i = hc_leases s ! i" if "i \<in> set (live s g)" for i g
    using that by (fastforce simp: new_lease_def nth_append)
  moreover have "hc_leases (new_lease h a s) ! length (hc_leases s) = \<lparr>hl_hostname = h, hl_entry = a, hl_released = False\<rparr>"
    by (simp add: new_lease_def)
  ultimately show ?thesis
    using assms unfolding ids_ok_def frame by (auto split: if_splits)
qed

text \<open>A host gets a new entry.\<close>

abbreviation add_entry :: "host \<Rightarrow> HostLockEntry \<Rightarrow> HostLifecycleCoordinator \<Rightarrow> HostLifecycleCoordinator" where
  "add_entry h l s \<equiv> s\<lparr>hc_entries := dict_set h (length (hc_heap s)) (hc_entries s), hc_heap := hc_heap s @ [l]\<rparr>"

lemma add_entry_ids:
  assumes "ids_ok s" "live s h = []"
  shows "ids_ok (add_entry h l s)" "entry_of (add_entry h l s) g = (if g = h then Some l else entry_of s g)"
proof -
  have lt: "dict_get (hc_entries s) g = Some a \<Longrightarrow> a < length (hc_heap s)" for g a
    using assms(1) unfolding ids_ok_def by blast
  then show "ids_ok (add_entry h l s)"
    using assms unfolding ids_ok_def by (auto split: if_splits simp: less_SucI)
  show "entry_of (add_entry h l s) g = (if g = h then Some l else entry_of s g)"
    using lt by (cases "dict_get (hc_entries s) g") (auto simp: entry_of_def nth_append)
qed

section \<open>Every step is a step of the mutex\<close>

text \<open>
  The shape of a step: it changes the entry and the live leases of one host \<open>h\<close> only. With the entry
  still right, the invariant is kept and the abstract state changes at \<open>h\<close> only.
\<close>

lemma invI:
  assumes "lifecycle_inv s" "ids_ok s'" "\<And>g. g \<noteq> h \<Longrightarrow> entry_of s' g = entry_of s g \<and> live s' g = live s g"
    "case entry_of s' h of None \<Rightarrow> live s' h = [] | Some l \<Rightarrow> entry_ok l (live s' h)"
  shows "lifecycle_inv s'"
  using assms unfolding lifecycle_inv_def by metis

lemma inv_entry:
  assumes "lifecycle_inv s"
  shows "entry_of s h = None \<Longrightarrow> live s h = []" "entry_of s h = Some l \<Longrightarrow> entry_ok l (live s h)" "ids_ok s"
  using assms unfolding lifecycle_inv_def by (metis option.simps(4,5))+

definition step_ok :: "HostLifecycleCoordinator \<Rightarrow> HostLifecycleCoordinator \<Rightarrow> bool" where
  "step_ok s s' \<longleftrightarrow> lifecycle_inv s' \<and>
     (mutex_step (lifecycle_abs s) (lifecycle_abs s') \<or> lifecycle_abs s' = lifecycle_abs s)"

text \<open>A free host is granted to the caller.\<close>

lemma grant_ok:
  assumes "lifecycle_inv s" "entry_of s h = None"
  shows "step_ok s (new_lease h (length (hc_heap s)) (add_entry h \<lparr>le_locked = True, le_waiters = [], le_users = 1\<rparr> s))"
    (is "step_ok s ?s'")
proof -
  have none: "live s h = []" using inv_entry(1) [OF assms] .
  have ids: "ids_ok ?s'"
    using add_entry_ids(1) [OF inv_entry(3) [OF assms(1)] none] by (intro new_lease_ids) simp_all
  have other: "g \<noteq> h \<Longrightarrow> entry_of ?s' g = entry_of s g \<and> live ?s' g = live s g" for g
    using add_entry_ids(2) [OF inv_entry(3) [OF assms(1)] none] by simp
  have here: "entry_of ?s' h = Some \<lparr>le_locked = True, le_waiters = [], le_users = 1\<rparr>" "live ?s' h = [length (hc_leases s)]"
    using add_entry_ids(2) [OF inv_entry(3) [OF assms(1)] none] none by simp_all
  have "case entry_of ?s' h of None \<Rightarrow> live ?s' h = [] | Some l \<Rightarrow> entry_ok l (live ?s' h)"
    unfolding here by (simp add: entry_ok_def)
  then have "lifecycle_inv ?s'" using invI [OF assms(1) ids, of h] other by blast
  moreover have "lifecycle_abs ?s' = (lifecycle_abs s)\<lparr>mx_owner := (mx_owner (lifecycle_abs s))(h \<mapsto> mx_issued (lifecycle_abs s)),
      mx_issued := Suc (mx_issued (lifecycle_abs s))\<rparr>"
  proof -
    have "live ?s' g = (if g = h then [length (hc_leases s)] else live s g)"
      "map fst (waiting ?s' g) = map fst (waiting s g)" for g
      using other here assms(2) unfolding waiting_entry by (metis option.simps(4,5) HostLockEntry.select_convs(2))+
    moreover have "length (hc_leases ?s') = Suc (length (hc_leases s))" by (simp add: new_lease_def)
    ultimately show ?thesis unfolding lifecycle_abs_def by (auto simp: fun_eq_iff)
  qed
  moreover have "mx_owner (lifecycle_abs s) h = None" "mx_queue (lifecycle_abs s) h = []"
    using none assms(2) by (simp_all add: lifecycle_abs_def waiting_entry)
  ultimately show ?thesis using mutex_step.grant [of "lifecycle_abs s" h] unfolding step_ok_def by metis
qed

lemma acquire_start_ok:
  assumes inv: "lifecycle_inv s" and t: "t \<notin> fst ` set (waiting s h)"
  shows "step_ok s (snd (acquire_start h t s))"
proof (cases "entry_of s h")
  case None
  then have "dict_get (hc_entries s) h = None" by (simp add: entry_of_def)
  then have "snd (acquire_start h t s) = new_lease h (length (hc_heap s)) (add_entry h \<lparr>le_locked = True, le_waiters = [], le_users = 1\<rparr> s)"
    by (simp add: acquire_start_def entry_for_def on_entry_def lock_acquire_def HostLockEntry_new_def)
  then show ?thesis using grant_ok [OF inv None] by simp
next
  case (Some l)
  then obtain a where a: "dict_get (hc_entries s) h = Some a" "hc_heap s ! a = l" by (rule entry_ofD)
  have ids: "ids_ok s" and ok: "entry_ok l (live s h)" using inv_entry [OF inv] Some by simp_all
  have queues: "lock_acquire t (l\<lparr>le_users := u\<rparr>) = (False, l\<lparr>le_users := u, le_waiters := le_waiters l @ [(t, False)]\<rparr>)" for u
    using ok by (auto simp: lock_acquire_def entry_ok_def split: if_splits)
  let ?l = "l\<lparr>le_users := le_users l + 1, le_waiters := le_waiters l @ [(t, False)]\<rparr>"
  define s' where "s' = on_entry a (\<lambda>_. ?l) (on_entry a (\<lambda>l. l\<lparr>le_users := le_users l + 1\<rparr>) s)"
  have s': "snd (acquire_start h t s) = s'"
    using a heap_on_entry [OF ids a(1)] by (simp add: acquire_start_def entry_for_def queues s'_def Let_def)
  have ids1: "ids_ok (on_entry a (\<lambda>l. l\<lparr>le_users := le_users l + 1\<rparr>) s)"
    "dict_get (hc_entries (on_entry a (\<lambda>l. l\<lparr>le_users := le_users l + 1\<rparr>) s)) h = Some a"
    using ids a(1) by simp_all
  have entry: "entry_of s' g = (if g = h then Some ?l else entry_of s g)" for g
    unfolding s'_def by (simp add: entry_on_entry [OF ids1] entry_on_entry [OF ids a(1)] Some)
  have live: "live s' g = live s g" for g by (simp add: s'_def)
  have "t \<notin> fst ` set (le_waiters l)" using t Some by (simp add: waiting_entry)
  then have "entry_ok ?l (live s h)" using ok by (auto simp: entry_ok_def split: if_splits)
  then have "lifecycle_inv s'"
    using ids by (intro invI [OF inv, of s' h]) (simp_all add: s'_def [symmetric] entry live, simp add: s'_def)
  moreover have "mutex_step (lifecycle_abs s) (lifecycle_abs s')"
  proof -
    have abs: "lifecycle_abs s' = (lifecycle_abs s)\<lparr>mx_queue := (mx_queue (lifecycle_abs s))(h := mx_queue (lifecycle_abs s) h @ [t])\<rparr>"
      using entry live by (auto simp: lifecycle_abs_def waiting_entry fun_eq_iff s'_def Some)
    show ?thesis
      unfolding abs using ok t Some
      by (intro mutex_step.enqueue)
        (auto simp: lifecycle_abs_def waiting_entry entry_ok_def split: if_splits)
  qed
  ultimately show ?thesis by (simp add: step_ok_def s')
qed

lemma other_waiters: "t \<notin> fst ` set ws \<Longrightarrow> filter (\<lambda>w. fst w \<noteq> t) ws = ws"
  by (induction ws) auto

lemma remove_waiter:
  "distinct (map fst ws) \<Longrightarrow> t \<in> fst ` set ws \<Longrightarrow> Suc (length (filter (\<lambda>w. fst w \<noteq> t) ws)) = length ws"
  by (induction ws) (auto simp: other_waiters)

lemma map_fst_filter: "map fst (filter (\<lambda>w. fst w \<noteq> t) ws) = filter (\<lambda>u. u \<noteq> t) (map fst ws)"
  by (induction ws) auto

lemma handover_ok:
  assumes inv: "lifecycle_inv s" and a: "dict_get (hc_entries s) h = Some a"
    and t: "(t, True) \<in> set (le_waiters (hc_heap s ! a))"
  shows "step_ok s (acquire_resume h a t s)"
proof -
  define l where "l = hc_heap s ! a"
  have l: "entry_of s h = Some l" using a by (simp add: entry_of_def l_def)
  have ids: "ids_ok s" and ok: "entry_ok l (live s h)" using inv_entry [OF inv] l by simp_all
  obtain ws where ws: "le_waiters l = (t, True) # ws" "\<forall>w \<in> set ws. \<not> snd w" and free: "live s h = []"
    using ok t by (fastforce simp: entry_ok_def l_def [symmetric] split: if_splits)
  have "t \<notin> fst ` set ws" using ok ws(1) by (simp add: entry_ok_def)
  then have resume: "lock_resume t l = l\<lparr>le_waiters := ws, le_locked := True\<rparr>"
    using ws(1) by (simp add: lock_resume_def other_waiters)
  let ?s' = "acquire_resume h a t s"
  have entry: "entry_of ?s' g = (if g = h then Some (l\<lparr>le_waiters := ws, le_locked := True\<rparr>) else entry_of s g)" for g
    by (simp add: acquire_resume_def entry_on_entry [OF ids a] l resume)
  have live: "live ?s' g = live s g @ (if g = h then [length (hc_leases s)] else [])" for g
    by (simp add: acquire_resume_def)
  have "ids_ok ?s'" using ids a by (simp add: acquire_resume_def new_lease_ids)
  moreover have "entry_ok (l\<lparr>le_waiters := ws, le_locked := True\<rparr>) (live ?s' h)"
    using ok ws free live by (simp add: entry_ok_def split: if_splits)
  ultimately have "lifecycle_inv ?s'"
    by (intro invI [OF inv, of ?s' h]) (simp_all add: entry live)
  moreover have "lifecycle_abs ?s' = (lifecycle_abs s)\<lparr>mx_owner := (mx_owner (lifecycle_abs s))(h \<mapsto> mx_issued (lifecycle_abs s)),
      mx_queue := (mx_queue (lifecycle_abs s))(h := map fst ws), mx_issued := Suc (mx_issued (lifecycle_abs s))\<rparr>"
    using entry live free by (auto simp: lifecycle_abs_def waiting_entry fun_eq_iff acquire_resume_def new_lease_def)
  moreover have "mx_owner (lifecycle_abs s) h = None" "mx_queue (lifecycle_abs s) h = t # map fst ws"
    using free l ws(1) by (simp_all add: lifecycle_abs_def waiting_entry)
  ultimately show ?thesis using mutex_step.handover [of "lifecycle_abs s" h t "map fst ws"] by (simp add: step_ok_def)
qed

text \<open>Giving up a place in the queue, and giving up the host, both end with \<open>drop_user\<close>.\<close>

lemma drop_ok:
  assumes "lifecycle_inv s" and ids: "ids_ok s1" and a: "dict_get (hc_entries s1) h = Some a" "entry_of s1 h = Some l"
    and other: "\<And>g. g \<noteq> h \<Longrightarrow> entry_of s1 g = entry_of s g \<and> live s1 g = live s g"
    and users: "if le_users l = 1 then live s1 h = [] else entry_ok (l\<lparr>le_users := le_users l - 1\<rparr>) (live s1 h)"
  shows "lifecycle_inv (drop_user h a s1)"
proof (rule invI [OF assms(1), of _ h])
  show "ids_ok (drop_user h a s1)" using drop_user_ids [OF ids a(2,1)] users by (simp split: if_splits)
  show "g \<noteq> h \<Longrightarrow> entry_of (drop_user h a s1) g = entry_of s g \<and> live (drop_user h a s1) g = live s g" for g
    using drop_user_entry [OF ids a(2,1)] other by simp
  show "case entry_of (drop_user h a s1) h of None \<Rightarrow> live (drop_user h a s1) h = []
      | Some l \<Rightarrow> entry_ok l (live (drop_user h a s1) h)"
    using drop_user_entry [OF ids a(2,1)] users by simp
qed

lemma in_tl: "x \<in> set (tl xs) \<Longrightarrow> x \<in> set xs"
  by (cases xs) auto

lemma wake_up_first_simps [simp]:
  "map fst (le_waiters (wake_up_first l)) = map fst (le_waiters l)" "le_users (wake_up_first l) = le_users l"
  "le_locked (wake_up_first l) = le_locked l"
  by (auto simp: wake_up_first_def split: list.splits)

lemma woken_ok:
  assumes "\<not> le_locked l" "distinct (map fst (le_waiters l))" "\<forall>w \<in> set (tl (le_waiters l)). \<not> snd w"
    "le_users l = 1 + int (length (le_waiters l))"
  shows "le_users l \<noteq> 1 \<Longrightarrow> entry_ok ((wake_up_first l)\<lparr>le_users := le_users l - 1\<rparr>) []"
  using assms by (cases "le_waiters l") (auto simp: entry_ok_def wake_up_first_def)

lemma lock_cancel_ok:
  assumes "entry_ok l is" "t \<in> fst ` set (le_waiters l)"
  shows "if le_users l = 1 then is = [] else entry_ok ((lock_cancel t l)\<lparr>le_users := le_users l - 1\<rparr>) is"
    "map fst (le_waiters (lock_cancel t l)) = filter (\<lambda>u. u \<noteq> t) (map fst (le_waiters l))"
    "le_users (lock_cancel t l) = le_users l"
proof -
  let ?f = "filter (\<lambda>w. fst w \<noteq> t)"
  have d: "distinct (map fst (le_waiters l))" using assms(1) by (simp add: entry_ok_def)
  have len: "int (length (le_waiters l)) = 1 + int (length (?f (le_waiters l)))"
    using remove_waiter [OF d assms(2)] by linarith
  have d': "distinct (map fst (?f (le_waiters l)))" using d by (simp add: map_fst_filter)
  show "if le_users l = 1 then is = [] else entry_ok ((lock_cancel t l)\<lparr>le_users := le_users l - 1\<rparr>) is"
  proof (cases "le_locked l")
    case True
    then show ?thesis using assms(1) len d' by (auto simp: entry_ok_def lock_cancel_def)
  next
    case False
    then obtain u ws where ws: "le_waiters l = (u, True) # ws" "\<forall>w \<in> set ws. \<not> snd w" "is = []"
      using assms(1) by (auto simp: entry_ok_def)
    have "set (tl (?f (le_waiters l))) \<subseteq> set ws"
      using ws(1) by (auto dest: in_tl)
    with ws(2) have "\<forall>w \<in> set (tl (?f (le_waiters l))). \<not> snd w" by blast
    then show ?thesis
      using woken_ok [of "l\<lparr>le_waiters := ?f (le_waiters l)\<rparr>"] False d' len assms(1) ws(3)
      by (simp add: lock_cancel_def entry_ok_def)
  qed
  show "map fst (le_waiters (lock_cancel t l)) = filter (\<lambda>u. u \<noteq> t) (map fst (le_waiters l))"
    "le_users (lock_cancel t l) = le_users l"
    by (simp_all add: lock_cancel_def Let_def map_fst_filter)
qed

lemma withdraw_ok:
  assumes inv: "lifecycle_inv s" and a: "dict_get (hc_entries s) h = Some a"
    and t: "(t, w) \<in> set (le_waiters (hc_heap s ! a))"
  shows "step_ok s (acquire_cancel h a t s)"
proof -
  define l where "l = hc_heap s ! a"
  have l: "entry_of s h = Some l" and t': "t \<in> fst ` set (le_waiters l)"
    using a t by (force simp: entry_of_def l_def)+
  have ids: "ids_ok s" and ok: "entry_ok l (live s h)" using inv_entry [OF inv] l by simp_all
  note cancel = lock_cancel_ok [OF ok t']
  define s1 where "s1 = on_entry a (lock_cancel t) s"
  have s1: "ids_ok s1" "dict_get (hc_entries s1) h = Some a" "entry_of s1 h = Some (lock_cancel t l)"
    using ids a by (simp_all add: s1_def entry_on_entry [OF ids a] l)
  have other: "g \<noteq> h \<Longrightarrow> entry_of s1 g = entry_of s g \<and> live s1 g = live s g" for g
    by (simp add: s1_def entry_on_entry [OF ids a])
  have live: "live s1 g = live s g" for g by (simp add: s1_def)
  have s': "acquire_cancel h a t s = drop_user h a s1" by (simp add: acquire_cancel_def s1_def)
  have "lifecycle_inv (drop_user h a s1)"
    by (rule drop_ok [OF inv s1 other]) (use cancel live in simp_all)
  moreover have "map fst (waiting (drop_user h a s1) h) = filter (\<lambda>u. u \<noteq> t) (map fst (le_waiters l))"
  proof (cases "le_users l = 1")
    case True
    then have "length (le_waiters l) = 1" using ok t' by (auto simp: entry_ok_def split: if_splits)
    then obtain x where "le_waiters l = [x]" by (auto simp: length_Suc_conv)
    then show ?thesis using True t' cancel(3) by (auto simp: waiting_entry drop_user_entry [OF s1(1,3,2)])
  qed (simp add: waiting_entry drop_user_entry [OF s1(1,3,2)] cancel)
  then have "lifecycle_abs (drop_user h a s1) =
      (lifecycle_abs s)\<lparr>mx_queue := (mx_queue (lifecycle_abs s))(h := filter (\<lambda>u. u \<noteq> t) (mx_queue (lifecycle_abs s) h))\<rparr>"
    using drop_user_entry [OF s1(1,3,2)] other l live
    by (auto simp: lifecycle_abs_def fun_eq_iff waiting_entry s1_def)
  moreover have "t \<in> set (mx_queue (lifecycle_abs s) h)" using t' l by (simp add: lifecycle_abs_def waiting_entry)
  ultimately show ?thesis using mutex_step.withdraw [of t "lifecycle_abs s" h] by (simp add: step_ok_def s')
qed

lemma free_ok:
  assumes inv: "lifecycle_inv s" and i: "i < length (hc_leases s)"
  shows "step_ok s (snd (lease_release i s))" "fst (lease_release i s)"
proof -
  define lease where "lease = hc_leases s ! i"
  define h a where "h = hl_hostname lease" and "a = hl_entry lease"
  have "step_ok s (snd (lease_release i s)) \<and> fst (lease_release i s)"
  proof (cases "hl_released lease")
    case True
    then show ?thesis using inv by (simp add: lease_release_def lease_def step_ok_def)
  next
    case False
    have mem: "i \<in> set (live s h)" using i False by (simp add: live_def belongs_to_def h_def lease_def)
    have ids: "ids_ok s" using inv_entry [OF inv] by simp
    have a: "dict_get (hc_entries s) h = Some a"
      using ids mem unfolding ids_ok_def a_def lease_def by blast
    define l where "l = hc_heap s ! a"
    have l: "entry_of s h = Some l" using a by (simp add: entry_of_def l_def)
    have ok: "entry_ok l (live s h)" using inv_entry(2) [OF inv l] .
    then have locked: "le_locked l" "live s h = [i]" "\<forall>w \<in> set (le_waiters l). \<not> snd w" "distinct (map fst (le_waiters l))"
      "le_users l = 1 + int (length (le_waiters l))"
      using mem by (auto simp: entry_ok_def split: if_splits)
    define l' where "l' = wake_up_first (l\<lparr>le_locked := False\<rparr>)"
    define s0 where "s0 = s\<lparr>hc_leases := (hc_leases s)[i := lease\<lparr>hl_released := True\<rparr>]\<rparr>"
    have live0: "live s0 g = filter (\<lambda>j. j \<noteq> i) (live s g)" for g
      using live_released [OF i] by (simp add: s0_def lease_def)
    have own: "i \<in> set (live s g) \<Longrightarrow> g = h" for g by (auto simp: live_def belongs_to_def h_def lease_def)
    then have live0': "live s0 g = (if g = h then [] else live s g)" for g
      using locked(2) by (auto simp: live0 filter_id_conv)
    have "j \<noteq> i \<Longrightarrow> hc_leases s0 ! j = hc_leases s ! j" for j by (simp add: s0_def)
    then have ids0: "ids_ok s0" using ids live0 unfolding ids_ok_def by (auto simp: s0_def [symmetric]) (auto simp: s0_def)
    have a0: "dict_get (hc_entries s0) h = Some a" using a by (simp add: s0_def)
    define s1 where "s1 = on_entry a (\<lambda>_. l') s0"
    have s1: "ids_ok s1" "dict_get (hc_entries s1) h = Some a" "entry_of s1 h = Some l'"
      using ids0 a0 by (simp_all add: s1_def entry_on_entry [OF ids0 a0]) (simp add: entry_of_def)
    have other: "g \<noteq> h \<Longrightarrow> entry_of s1 g = entry_of s g \<and> live s1 g = live s g" for g
      by (simp add: s1_def entry_on_entry [OF ids0 a0] live0') (simp add: entry_of_def s0_def)
    have run: "lease_release i s = (True, drop_user h a s1)"
      using False locked(1)
      by (simp add: lease_release_def lease_def [symmetric] h_def [symmetric] a_def [symmetric] coordinator_release_def
          lock_release_def s0_def [symmetric] s1_def l'_def) (simp add: s0_def l_def)
    have users: "if le_users l' = 1 then live s1 h = [] else entry_ok (l'\<lparr>le_users := le_users l' - 1\<rparr>) (live s1 h)"
      using woken_ok [of "l\<lparr>le_locked := False\<rparr>"] locked
      by (auto simp: l'_def s1_def live0' dest: in_tl)
    have "lifecycle_inv (drop_user h a s1)" by (rule drop_ok [OF inv s1 other users])
    moreover have "lifecycle_abs (drop_user h a s1) = (lifecycle_abs s)\<lparr>mx_owner := (mx_owner (lifecycle_abs s))(h := None)\<rparr>"
    proof -
      have "live (drop_user h a s1) g = (if g = h then [] else live s g)" for g by (simp add: s1_def live0')
      moreover have "map fst (waiting (drop_user h a s1) g) = map fst (waiting s g)" for g
        using drop_user_entry [OF s1(1,3,2)] other l locked(5) by (simp add: waiting_entry l'_def)
      moreover have "length (hc_leases (drop_user h a s1)) = length (hc_leases s)" by (simp add: s1_def s0_def)
      ultimately show ?thesis by (simp add: lifecycle_abs_def fun_eq_iff)
    qed
    moreover have "mx_owner (lifecycle_abs s) h = Some i" using locked(2) by (simp add: lifecycle_abs_def)
    ultimately show ?thesis using mutex_step.free [of "lifecycle_abs s" h i] by (simp add: step_ok_def run)
  qed
  then show "step_ok s (snd (lease_release i s))" "fst (lease_release i s)" by simp_all
qed

lemma trying_ok:
  assumes "lifecycle_inv s"
  shows "step_ok s (snd (try_acquire h t s))"
proof (cases "entry_of s h")
  case None
  then have "snd (try_acquire h t s) = new_lease h (length (hc_heap s)) (add_entry h \<lparr>le_locked = True, le_waiters = [], le_users = 1\<rparr> s)"
    by (simp add: try_acquire_def entry_of_def lock_acquire_def HostLockEntry_new_def Let_def)
  then show ?thesis using grant_ok [OF assms None] by simp
next
  case (Some l)
  then have "try_acquire h t s = (False, s)" by (auto simp: try_acquire_def entry_of_def)
  then show ?thesis using assms by (simp add: step_ok_def)
qed

lemma lifecycle_step_ok: "lifecycle_inv s \<Longrightarrow> lifecycle_step s s' \<Longrightarrow> step_ok s s'"
  by (auto elim!: lifecycle_stepE intro: acquire_start_ok handover_ok withdraw_ok trying_ok free_ok(1))

lemma lifecycle_inv_init: "lifecycle_inv HostLifecycleCoordinator_new"
  by (simp add: lifecycle_inv_def ids_ok_def live_def entry_of_def HostLifecycleCoordinator_new_def)

interpretation lifecycle: simulation lifecycle_init lifecycle_step lifecycle_inv lifecycle_abs mutex_init mutex_step
proof
  show "lifecycle_inv s" if "lifecycle_init s" for s
    using that lifecycle_inv_init by (simp add: lifecycle_init_def)
  show "lifecycle_inv t" if "lifecycle_inv s" "lifecycle_step s t" for s t
    using lifecycle_step_ok [OF that] by (simp add: step_ok_def)
  show "mutex_init (lifecycle_abs s)" if "lifecycle_init s" for s
    using that by (simp add: lifecycle_init_def mutex_init_def lifecycle_abs_def live_def waiting_def HostLifecycleCoordinator_new_def)
  show "mutex_step (lifecycle_abs s) (lifecycle_abs t) \<or> lifecycle_abs t = lifecycle_abs s"
    if "lifecycle_inv s" "lifecycle_step s t" for s t
    using lifecycle_step_ok [OF that] by (simp add: step_ok_def)
qed

section \<open>Properties\<close>


text \<open>
  In every reachable state a host has at most one lease that is not released, the host counts as busy
  exactly while a task holds it or waits for it (no entry is leaked), a host that is free with tasks
  waiting has woken the first of them (no wake-up is lost), and releasing any lease never raises.
\<close>

theorem lifecycle_exclusive:
  assumes "reachable lifecycle_init lifecycle_step s"
  shows "(\<forall>i j. i < length (hc_leases s) \<and> j < length (hc_leases s) \<and>
         belongs_to (hc_leases s ! i) h \<and> belongs_to (hc_leases s ! j) h \<longrightarrow> i = j) \<and>
    (is_busy s h \<longleftrightarrow> waiting s h \<noteq> [] \<or> (\<exists>i < length (hc_leases s). belongs_to (hc_leases s ! i) h)) \<and>
    (waiting s h \<noteq> [] \<longrightarrow> (\<exists>i < length (hc_leases s). belongs_to (hc_leases s ! i) h) \<or> snd (hd (waiting s h))) \<and>
    (\<forall>i < length (hc_leases s). fst (lease_release i s))"
proof -
  have inv: "lifecycle_inv s" using lifecycle.reachable_inv [OF assms] .
  have live: "i \<in> set (live s h) \<longleftrightarrow> i < length (hc_leases s) \<and> belongs_to (hc_leases s ! i) h" for i
    by (auto simp: live_def)
  have ok: "case entry_of s h of None \<Rightarrow> live s h = [] | Some l \<Rightarrow> entry_ok l (live s h)"
    using inv by (simp add: lifecycle_inv_def)
  then have "\<forall>i \<in> set (live s h). \<forall>j \<in> set (live s h). i = j"
    by (auto simp: entry_ok_def split: option.splits if_splits)
  moreover have busy: "is_busy s h \<longleftrightarrow> entry_of s h \<noteq> None" by (auto simp: is_busy_def entry_of_def)
  have some: "live s h \<noteq> [] \<longleftrightarrow> (\<exists>i < length (hc_leases s). belongs_to (hc_leases s ! i) h)"
    using live by (metis list.set_intros(1) neq_Nil_conv list.set(1) empty_iff)
  have "(is_busy s h \<longleftrightarrow> waiting s h \<noteq> [] \<or> live s h \<noteq> []) \<and>
      (waiting s h \<noteq> [] \<longrightarrow> live s h \<noteq> [] \<or> snd (hd (waiting s h)))"
    using ok unfolding busy by (auto simp: waiting_entry entry_ok_def split: option.splits if_splits)
  with some have "(is_busy s h \<longleftrightarrow> waiting s h \<noteq> [] \<or> (\<exists>i < length (hc_leases s). belongs_to (hc_leases s ! i) h)) \<and>
      (waiting s h \<noteq> [] \<longrightarrow> (\<exists>i < length (hc_leases s). belongs_to (hc_leases s ! i) h) \<or> snd (hd (waiting s h)))"
    by simp
  ultimately show ?thesis using free_ok(2) [OF inv] by (simp add: live)
qed

abbreviation contended :: HostLifecycleCoordinator where
  "contended \<equiv> snd (acquire_start ''a'' 2 (snd (acquire_start ''a'' 1 HostLifecycleCoordinator_new)))"

lemma contended_reachable: "reachable lifecycle_init lifecycle_step contended"
proof -
  have "1 \<notin> fst ` set (waiting HostLifecycleCoordinator_new ''a'')"
    "2 \<notin> fst ` set (waiting (snd (acquire_start ''a'' 1 HostLifecycleCoordinator_new)) ''a'')"
    by code_simp+
  note lifecycle_step.start [OF this(1)] lifecycle_step.start [OF this(2)]
  moreover have "reachable lifecycle_init lifecycle_step HostLifecycleCoordinator_new"
    by (rule reachable.reach_init) (simp add: lifecycle_init_def)
  ultimately show ?thesis by (blast intro: reachable.reach_step)
qed


theorem lifecycle_exclusive_witness:
  "is_busy contended ''a'' \<and> waiting contended ''a'' = [(2, False)] \<and> fst (lease_release 0 contended)"
proof -
  have "waiting contended ''a'' = [(2, False)]" "0 < length (hc_leases contended)" by code_simp+
  then show ?thesis using lifecycle_exclusive [OF contended_reachable, of "''a''"] by simp
qed

section \<open>Leases only grow\<close>

lemma try_acquire_simps:
  "try_acquire h t s =
     (if is_busy s h then (False, s)
      else (True, new_lease h (length (hc_heap s)) (add_entry h \<lparr>le_locked = True, le_waiters = [], le_users = 1\<rparr> s)))"
  by (simp add: try_acquire_def is_busy_def lock_acquire_def HostLockEntry_new_def Let_def)

lemma new_lease_parts [simp]:
  "hc_entries (new_lease h a s) = hc_entries s" "hc_heap (new_lease h a s) = hc_heap s"
  "hc_leases (new_lease h a s) = hc_leases s @ [\<lparr>hl_hostname = h, hl_entry = a, hl_released = False\<rparr>]"
  by (simp_all add: new_lease_def)

text \<open>Leases are only added and released.\<close>

definition leases_grow :: "HostLifecycleLease list \<Rightarrow> HostLifecycleLease list \<Rightarrow> bool" where
  "leases_grow ls ls' \<longleftrightarrow> length ls \<le> length ls' \<and>
     (\<forall>i < length ls. hl_hostname (ls' ! i) = hl_hostname (ls ! i) \<and> (hl_released (ls ! i) \<longrightarrow> hl_released (ls' ! i)))"

lemma leases_grow_simps [simp]: "leases_grow ls ls" "leases_grow ls (ls @ xs)"
  by (simp_all add: leases_grow_def nth_append)

lemma leases_release:
  "hc_leases (snd (lease_release i s)) =
     (if hl_released (hc_leases s ! i) then hc_leases s else (hc_leases s)[i := (hc_leases s ! i)\<lparr>hl_released := True\<rparr>])"
  by (simp add: lease_release_def coordinator_release_def Let_def split: option.splits)

lemma leases_grow_release: "leases_grow (hc_leases s) (hc_leases (snd (lease_release i s)))"
proof (cases "i < length (hc_leases s)")
  case True
  then show ?thesis by (auto simp: leases_release leases_grow_def nth_list_update)
qed (simp add: leases_release list_update_beyond)

lemma entry_for_leases [simp]: "hc_leases (snd (entry_for h s)) = hc_leases s"
  by (simp add: entry_for_def split: option.splits)

lemma lifecycle_leases_grow: "lifecycle_step s s' \<Longrightarrow> leases_grow (hc_leases s) (hc_leases s')"
proof (erule lifecycle_stepE, goal_cases)
  case (1 t h)
  then show ?case
    using entry_for_leases [of h s] by (auto simp: acquire_start_def Let_def simp del: entry_for_leases split: prod.splits)
next
  case (5 i)
  then show ?case using leases_grow_release by simp
qed (simp_all add: acquire_resume_def acquire_cancel_def try_acquire_simps)

lemma lease_release_again [simp]: "i < length (hc_leases s) \<Longrightarrow> snd (lease_release i (snd (lease_release i s))) = snd (lease_release i s)"
  by (subst lease_release_def) (simp add: leases_release)

lemma lease_release_noop: "hl_released (hc_leases s ! i) \<Longrightarrow> snd (lease_release i s) = s"
  by (simp add: lease_release_def Let_def)

end
