(* ===== verification/Catalog.thy ===== *)
theory Catalog
  imports NodeModel
begin

text \<open>
  \<^verbatim>\<open>placement/catalog.py\<close>: the qualified llama.cpp profiles, their validation, the launch request a profile
  gives for a GPU class, and the resolution of the catalog against the GGUF artifacts in the shared cache.
  Of an artifact, which \<^verbatim>\<open>huggingface/artifacts.py\<close> scans from the disk, the fields read here are kept.
\<close>

section \<open>Data\<close>

definition is_word_char :: "char \<Rightarrow> bool" where
  "is_word_char c \<longleftrightarrow> is_lower_char c \<or> is_upper_char c \<or> is_digit_char c \<or> c = CHR ''_''"

text \<open>\<open>[A-Za-z0-9][\w.-]*\<close> and \<open>[\w.-]+\.gguf\<close>.\<close>

definition is_repo_part :: "string \<Rightarrow> bool" where
  "is_repo_part s \<longleftrightarrow>
     (case s of [] \<Rightarrow> False
      | c # cs \<Rightarrow> (is_lower_char c \<or> is_upper_char c \<or> is_digit_char c) \<and>
          list_all (\<lambda>x. is_word_char x \<or> x \<in> set ''.-'') cs)"

definition is_repo_id :: "string \<Rightarrow> bool" where
  "is_repo_id s \<longleftrightarrow>
     (let (owner, rest) = (takeWhile (\<lambda>c. c \<noteq> CHR ''/'') s, dropWhile (\<lambda>c. c \<noteq> CHR ''/'') s)
      in rest \<noteq> [] \<and> is_repo_part owner \<and> is_repo_part (tl rest))"

definition is_gguf_filename :: "string \<Rightarrow> bool" where
  "is_gguf_filename s \<longleftrightarrow>
     5 < length s \<and> drop (length s - 5) s = ''.gguf'' \<and>
     list_all (\<lambda>x. is_word_char x \<or> x \<in> set ''.-'') (take (length s - 5) s)"

record GGUFArtifact =
  ga_artifact_id :: string
  ga_repo_id :: string
  ga_resolved_revision :: string
  ga_files :: "string list"
  ga_file_sizes :: "(string, int) dict"

record GGUFRef =
  gr_repo_id :: string
  gr_revision :: string
  gr_filename :: string
  gr_size_bytes :: int
  gr_sha256 :: string

definition GGUFRef_fields :: "GGUFRef \<Rightarrow> bool" where
  "GGUFRef_fields r \<longleftrightarrow>
     is_repo_id (gr_repo_id r) \<and> is_hex_digest 40 (gr_revision r) \<and> is_gguf_filename (gr_filename r) \<and>
     1 \<le> gr_size_bytes r \<and> is_hex_digest 64 (gr_sha256 r)"

definition ref_matches :: "GGUFRef \<Rightarrow> GGUFArtifact \<Rightarrow> bool" where
  "ref_matches r artifact \<longleftrightarrow>
     ga_repo_id artifact = gr_repo_id r \<and> ga_resolved_revision artifact = gr_revision r \<and>
     ga_files artifact = [gr_filename r] \<and>
     dict_get (ga_file_sizes artifact) (gr_filename r) = Some (gr_size_bytes r)"

record GPUClass =
  gc_key :: string
  gc_quads_model_token :: string
  gc_nvidia_smi_name :: string
  gc_min_total_mib :: int

definition GPUClass_fields :: "GPUClass \<Rightarrow> bool" where
  "GPUClass_fields g \<longleftrightarrow>
     gc_key g \<noteq> [] \<and> list_all (\<lambda>c. is_lower_char c \<or> is_digit_char c) (gc_key g) \<and>
     2 \<le> length (gc_quads_model_token g) \<and> length (gc_quads_model_token g) \<le> 64 \<and>
     2 \<le> length (gc_nvidia_smi_name g) \<and> length (gc_nvidia_smi_name g) \<le> 128 \<and> 1 \<le> gc_min_total_mib g"

datatype ArtifactRole = ROLE_TARGET | ROLE_DRAFT

record ModelProfile =
  mp_profile_id :: string
  mp_version :: int
  mp_display_name :: string
  mp_target :: GGUFRef
  mp_draft :: "GGUFRef option"
  mp_context :: int
  mp_cache_type :: LlamaCppCacheType
  mp_ubatch :: int
  mp_speculative_type :: LlamaCppSpeculativeType
  mp_speculative_draft_n_max :: int
  mp_draft_cache_type :: "LlamaCppCacheType option"
  mp_sampling :: LlamaCppSampling
  mp_measured_need_mib :: int
  mp_cuda_context_allowance_mib :: int
  mp_gpu_classes :: "GPUClass list"
  mp_preferred_gpu_class :: "string option"
  mp_qualified_gpus :: "string list"

definition ModelProfile_fields :: "ModelProfile \<Rightarrow> bool" where
  "ModelProfile_fields p \<longleftrightarrow>
     is_profile_id (mp_profile_id p) \<and> 1 \<le> mp_version p \<and> GGUFRef_fields (mp_target p) \<and>
     opt_all GGUFRef_fields (mp_draft p) \<and> 256 \<le> mp_context p \<and> 32 \<le> mp_ubatch p \<and> mp_ubatch p \<le> 4096 \<and>
     1 \<le> mp_speculative_draft_n_max p \<and> mp_speculative_draft_n_max p \<le> 16 \<and>
     LlamaCppSampling_fields (mp_sampling p) \<and> 1 \<le> mp_measured_need_mib p \<and>
     0 \<le> mp_cuda_context_allowance_mib p \<and> mp_gpu_classes p \<noteq> [] \<and> list_all GPUClass_fields (mp_gpu_classes p)"

definition validate_profile :: "ModelProfile \<Rightarrow> string + ModelProfile" where
  "validate_profile p =
     (let keys = map gc_key (mp_gpu_classes p)
      in if \<not> distinct keys then Inl ''a profile lists each GPU class once''
         else if \<not> opt_all (\<lambda>v. v \<in> set keys) (mp_preferred_gpu_class p)
         then Inl ''preferred_gpu_class must name one of the profile's GPU classes''
         else if \<not> list_all (\<lambda>v. v \<in> set keys) (mp_qualified_gpus p)
         then Inl ''qualified_gpus must name one of the profile's GPU classes''
         else if (mp_draft p = None) \<noteq> (mp_speculative_type p = DRAFT_MTP)
         then Inl ''in-file MTP profiles take no draft file; DFlash and MTP assistant profiles need one''
         else Inr p)"

definition required_free_mib :: "ModelProfile \<Rightarrow> int" where
  "required_free_mib p = mp_measured_need_mib p + mp_cuda_context_allowance_mib p"

definition gpu_class :: "ModelProfile \<Rightarrow> string \<Rightarrow> GPUClass option" where
  "gpu_class p key = find (\<lambda>g. gc_key g = key) (mp_gpu_classes p)"

definition runtime_request :: "ModelProfile \<Rightarrow> int \<Rightarrow> string option \<Rightarrow> string \<Rightarrow> string + LlamaCppRuntimeRequest" where
  "runtime_request p reserve_mib draft_artifact_id key =
     (case gpu_class p key of
        None \<Rightarrow> Inl (''profile '' @ mp_profile_id p @ '' does not run on GPU class '' @ key)
      | Some gpu \<Rightarrow>
          LlamaCppRuntimeRequest_new
            \<lparr>rr_sizing = SZ_PROFILE, rr_fit_target_mib = reserve_mib, rr_context_per_slot = Some (mp_context p),
             rr_slots = Some 1, rr_cache_type = Some (mp_cache_type p), rr_allow_estimator_overrun = False,
             rr_profile = Some
               \<lparr>pr_profile_id = mp_profile_id p, pr_profile_version = mp_version p, pr_ubatch = mp_ubatch p,
                pr_required_free_mib = required_free_mib p, pr_gpu_name = gc_nvidia_smi_name gpu,
                pr_gpu_min_total_mib = gc_min_total_mib gpu, pr_speculative_type = mp_speculative_type p,
                pr_speculative_draft_n_max = mp_speculative_draft_n_max p,
                pr_draft_cache_type = mp_draft_cache_type p, pr_draft_artifact_id = draft_artifact_id,
                pr_sampling = mp_sampling p, pr_disable_cuda_graphs = False\<rparr>\<rparr>)"

section \<open>The catalog\<close>

definition GPU_L4 :: GPUClass where
  "GPU_L4 = \<lparr>gc_key = ''l4'', gc_quads_model_token = ''AD104GL [L4]'', gc_nvidia_smi_name = ''NVIDIA L4'',
     gc_min_total_mib = 22900\<rparr>"

definition GPU_A30 :: GPUClass where
  "GPU_A30 = \<lparr>gc_key = ''a30'', gc_quads_model_token = ''GA100GL [A30'', gc_nvidia_smi_name = ''NVIDIA A30'',
     gc_min_total_mib = 24000\<rparr>"

definition profile_qwen3_8_27b_24g :: ModelProfile where
  "profile_qwen3_8_27b_24g =
     \<lparr>mp_profile_id = ''qwen3.8-27b-24g'', mp_version = 1,
      mp_display_name = ''Qwen3.8-27B UD-Q4_K_S, 262K, q4_0 KV, MTP'',
      mp_target =
        \<lparr>gr_repo_id = ''unsloth/Qwen3.8-27B-GGUF'',
         gr_revision = ''4ca720788d1e01f1bff70c033e0d0028fd02e502'',
         gr_filename = ''Qwen3.8-27B-UD-Q4_K_S.gguf'', gr_size_bytes = 15358213024,
         gr_sha256 = ''75bc9c8adba2842e72f0ab5201aaa07133c5010b566305c09187fcbdcd364017''\<rparr>,
      mp_draft = None,
      mp_context = 262144, mp_cache_type = Q4_0, mp_ubatch = 256,
      mp_speculative_type = DRAFT_MTP, mp_speculative_draft_n_max = 2, mp_draft_cache_type = Some F16,
      mp_sampling = \<lparr>ls_temperature = 1, ls_top_p = 19 / 20, ls_top_k = 20, ls_min_p = Some (0),
        ls_presence_penalty = Some (0)\<rparr>,
      mp_measured_need_mib = 21678, mp_cuda_context_allowance_mib = 300, mp_gpu_classes = [GPU_L4, GPU_A30],
      mp_preferred_gpu_class = Some (''a30''), mp_qualified_gpus = [''l4'', ''a30'']\<rparr>"

definition profile_qwen3_6_35b_a3b_24g :: ModelProfile where
  "profile_qwen3_6_35b_a3b_24g =
     \<lparr>mp_profile_id = ''qwen3.6-35b-a3b-24g'', mp_version = 1,
      mp_display_name = ''Qwen3.6-35B-A3B UD-Q3_K_XL, 262K, q8_0 KV, MTP'',
      mp_target =
        \<lparr>gr_repo_id = ''unsloth/Qwen3.6-35B-A3B-MTP-GGUF'',
         gr_revision = ''5bc3e238d916f48a861bac2f8a1990a0e9b7e98d'',
         gr_filename = ''Qwen3.6-35B-A3B-UD-Q3_K_XL.gguf'', gr_size_bytes = 17227569440,
         gr_sha256 = ''3fba9ab57290b34726837521335bf9268397174f3dd662880e2d0c5264d17b81''\<rparr>,
      mp_draft = None,
      mp_context = 262144, mp_cache_type = Q8_0, mp_ubatch = 256,
      mp_speculative_type = DRAFT_MTP, mp_speculative_draft_n_max = 2, mp_draft_cache_type = Some F16,
      mp_sampling = \<lparr>ls_temperature = 3 / 5, ls_top_p = 19 / 20, ls_top_k = 20, ls_min_p = Some (0),
        ls_presence_penalty = Some (0)\<rparr>,
      mp_measured_need_mib = 20456, mp_cuda_context_allowance_mib = 300, mp_gpu_classes = [GPU_L4, GPU_A30],
      mp_preferred_gpu_class = None, mp_qualified_gpus = [''l4'', ''a30'']\<rparr>"

definition profile_muse_glimmer_30b_24g :: ModelProfile where
  "profile_muse_glimmer_30b_24g =
     \<lparr>mp_profile_id = ''muse-glimmer-30b-24g'', mp_version = 1,
      mp_display_name = ''Muse Glimmer 30B UD-Q5_K_M, 131K, f16 KV, DFlash2'',
      mp_target =
        \<lparr>gr_repo_id = ''unsloth/Muse-Glimmer-30B-GGUF'',
         gr_revision = ''faa5b025c584459c13febfa5c59883516710ae39'',
         gr_filename = ''Muse-Glimmer-30B-UD-Q5_K_M.gguf'', gr_size_bytes = 19194274848,
         gr_sha256 = ''27c27bc0cc2591344a9ef977d57aa79a9d36ddebee59660bd2abbf738f940f5b''\<rparr>,
      mp_draft = Some (
        \<lparr>gr_repo_id = ''z-lab/Muse-Glimmer-30B-DFlash2-GGUF'',
         gr_revision = ''880882627431093d99d3b2368efb4a6fcf12d4cb'',
         gr_filename = ''Muse-Glimmer-30B-DFlash2-Q4_K_M.gguf'', gr_size_bytes = 1645657280,
         gr_sha256 = ''93dbfb6f88e4645dec1347cf93f9d6fc80b90d413038722385b2a8e53565c949''\<rparr>),
      mp_context = 131072, mp_cache_type = F16, mp_ubatch = 256,
      mp_speculative_type = DRAFT_DFLASH, mp_speculative_draft_n_max = 7, mp_draft_cache_type = None,
      mp_sampling = \<lparr>ls_temperature = 1, ls_top_p = 19 / 20, ls_top_k = 64, ls_min_p = None,
        ls_presence_penalty = None\<rparr>,
      mp_measured_need_mib = 21218, mp_cuda_context_allowance_mib = 300, mp_gpu_classes = [GPU_L4, GPU_A30],
      mp_preferred_gpu_class = None, mp_qualified_gpus = [''l4'', ''a30'']\<rparr>"

definition profile_gemma_4_31b_24g :: ModelProfile where
  "profile_gemma_4_31b_24g =
     \<lparr>mp_profile_id = ''gemma-4-31b-24g'', mp_version = 1,
      mp_display_name = ''Gemma 4 31B IQ4_XS, 131K, q4_0 KV, MTP assistant'',
      mp_target =
        \<lparr>gr_repo_id = ''unsloth/gemma-4-31B-it-GGUF'',
         gr_revision = ''c1ac76e99d5513b141e8adde7288b85c3f9c32ec'',
         gr_filename = ''gemma-4-31B-it-IQ4_XS.gguf'', gr_size_bytes = 16372460480,
         gr_sha256 = ''e3d40b6e363954c993a6e28b160d881dfe5a243b62746bd4092b393d4f1d54e5''\<rparr>,
      mp_draft = Some (
        \<lparr>gr_repo_id = ''unsloth/gemma-4-31B-it-GGUF'',
         gr_revision = ''c1ac76e99d5513b141e8adde7288b85c3f9c32ec'',
         gr_filename = ''mtp-gemma-4-31B-it.gguf'', gr_size_bytes = 514687104,
         gr_sha256 = ''5ae8b0117bed601e8924c6305bd5b0585de361d51f0e77091bcb4252cf1f27de''\<rparr>),
      mp_context = 131072, mp_cache_type = Q4_0, mp_ubatch = 256,
      mp_speculative_type = DRAFT_MTP_ASSISTANT, mp_speculative_draft_n_max = 4, mp_draft_cache_type = None,
      mp_sampling = \<lparr>ls_temperature = 1, ls_top_p = 19 / 20, ls_top_k = 64, ls_min_p = None,
        ls_presence_penalty = None\<rparr>,
      mp_measured_need_mib = 21597, mp_cuda_context_allowance_mib = 300, mp_gpu_classes = [GPU_L4, GPU_A30],
      mp_preferred_gpu_class = None, mp_qualified_gpus = [''l4'']\<rparr>"

definition BUILTIN_PROFILES :: "ModelProfile list" where
  "BUILTIN_PROFILES = [profile_qwen3_8_27b_24g, profile_qwen3_6_35b_a3b_24g, profile_muse_glimmer_30b_24g, profile_gemma_4_31b_24g]"

section \<open>Resolution\<close>

record MissingArtifact =
  ma_profile_id :: string
  ma_role :: ArtifactRole
  ma_ref :: GGUFRef

record ResolvedProfile =
  rp_profile :: ModelProfile
  rp_artifact_id :: string
  rp_draft_artifact_id :: "string option"

record CatalogResolution =
  cr_resolved :: "ResolvedProfile list"
  cr_missing :: "MissingArtifact list"

definition resolution_get :: "CatalogResolution \<Rightarrow> string \<Rightarrow> ResolvedProfile option" where
  "resolution_get res profile_id = find (\<lambda>item. mp_profile_id (rp_profile item) = profile_id) (cr_resolved res)"

definition validate_catalog :: "ModelProfile list \<Rightarrow> string + unit" where
  "validate_catalog profiles =
     (if distinct (map mp_profile_id profiles) then Inr () else Inl ''catalog profile ids must be unique'')"

definition find_artifact :: "GGUFArtifact list \<Rightarrow> GGUFRef \<Rightarrow> string option" where
  "find_artifact artifacts r = map_option ga_artifact_id (find (ref_matches r) artifacts)"

definition missing_of :: "GGUFArtifact list \<Rightarrow> ModelProfile \<Rightarrow> MissingArtifact list" where
  "missing_of artifacts p =
     (if find_artifact artifacts (mp_target p) = None
      then [\<lparr>ma_profile_id = mp_profile_id p, ma_role = ROLE_TARGET, ma_ref = mp_target p\<rparr>] else [])
     @ (case mp_draft p of
          None \<Rightarrow> []
        | Some d \<Rightarrow>
            if find_artifact artifacts d = None
            then [\<lparr>ma_profile_id = mp_profile_id p, ma_role = ROLE_DRAFT, ma_ref = d\<rparr>] else [])"

definition resolved_of :: "GGUFArtifact list \<Rightarrow> ModelProfile \<Rightarrow> ResolvedProfile list" where
  "resolved_of artifacts p =
     (let draft_id = (case mp_draft p of None \<Rightarrow> None | Some d \<Rightarrow> find_artifact artifacts d)
      in case find_artifact artifacts (mp_target p) of
           None \<Rightarrow> []
         | Some target_id \<Rightarrow>
             if mp_draft p = None \<or> draft_id \<noteq> None
             then [\<lparr>rp_profile = p, rp_artifact_id = target_id, rp_draft_artifact_id = draft_id\<rparr>] else [])"

definition resolve_catalog :: "ModelProfile list \<Rightarrow> GGUFArtifact list \<Rightarrow> CatalogResolution" where
  "resolve_catalog profiles artifacts =
     \<lparr>cr_resolved = concat (map (resolved_of artifacts) profiles),
      cr_missing = concat (map (missing_of artifacts) profiles)\<rparr>"

section \<open>Properties\<close>

text \<open>What a profile needs beyond its own validation for the request model to accept its launch request.\<close>

definition launchable_profile :: "ModelProfile \<Rightarrow> bool" where
  "launchable_profile p \<longleftrightarrow>
     ModelProfile_fields p \<and> validate_profile p = Inr p \<and> mp_context p mod LLAMACPP_CONTEXT_ALIGNMENT = 0 \<and>
     mp_context p \<le> LLAMACPP_MAX_AGGREGATE_CONTEXT \<and>
     (mp_draft_cache_type p = None) = (mp_speculative_type p \<noteq> DRAFT_MTP) \<and>
     list_all (\<lambda>g. is_gpu_name (gc_nvidia_smi_name g)) (mp_gpu_classes p)"

lemma builtin_launchable: "list_all launchable_profile BUILTIN_PROFILES"
  by code_simp

lemma launchable_request:
  assumes p: "launchable_profile p" and key: "key \<in> gc_key ` set (mp_gpu_classes p)" and "1 \<le> reserve"
    and d: "(d = None) = (mp_draft p = None)" "opt_all (is_hex_digest 64) d"
  shows "\<exists>r. runtime_request p reserve d key = Inr r"
proof -
  obtain gpu where gpu: "gpu_class p key = Some gpu" "gpu \<in> set (mp_gpu_classes p)"
    using key unfolding gpu_class_def
    by (cases "find (\<lambda>g. gc_key g = key) (mp_gpu_classes p)") (auto simp: find_None_iff find_Some_iff)
  have "GPUClass_fields gpu" "is_gpu_name (gc_nvidia_smi_name gpu)"
    using p gpu(2) by (auto simp: launchable_profile_def ModelProfile_fields_def list_all_iff)
  moreover have "(mp_draft p = None) = (mp_speculative_type p = DRAFT_MTP)"
    using p by (auto simp: launchable_profile_def validate_profile_def Let_def split: if_splits)
  ultimately show ?thesis
    using p assms(3) d
    by (simp add: runtime_request_def gpu(1) LlamaCppRuntimeRequest_new_def LlamaCppRuntimeRequest_fields_def
        LlamaCppProfileRuntime_fields_def launchable_profile_def ModelProfile_fields_def GPUClass_fields_def
        required_free_mib_def validate_speculation_def validate_sizing_policy_def LLAMACPP_CONTEXT_ALIGNMENT_def
        LLAMACPP_MAX_SEQUENCES_def split: LlamaCppSpeculativeType.splits)
qed



lemma find_artifact_Some:
  "find_artifact artifacts r = Some i \<Longrightarrow> \<exists>a \<in> set artifacts. ga_artifact_id a = i \<and> ref_matches r a"
  by (auto simp: find_artifact_def find_Some_iff)

lemma find_artifact_None: "find_artifact artifacts r = None \<longleftrightarrow> (\<forall>a \<in> set artifacts. \<not> ref_matches r a)"
  by (auto simp: find_artifact_def find_None_iff)

lemma resolved_of_mem:
  assumes "x \<in> set (resolved_of artifacts p)"
  shows "rp_profile x = p" "find_artifact artifacts (mp_target p) = Some (rp_artifact_id x)"
    "case mp_draft p of None \<Rightarrow> rp_draft_artifact_id x = None
     | Some d \<Rightarrow> \<exists>i. find_artifact artifacts d = Some i \<and> rp_draft_artifact_id x = Some i"
  using assms
  by (cases "find_artifact artifacts (mp_target p)"; auto simp: resolved_of_def Let_def split: option.splits if_splits)+

text \<open>
  Resolution is exact: a profile is resolved only to artifacts in the cache that match its target and
  draft file; a file is reported missing only when no artifact matches it; and every profile of the catalog
  is either resolved or has a file reported missing.
\<close>

theorem resolve_catalog_exact:
  "(\<forall>x \<in> set (cr_resolved (resolve_catalog profiles artifacts)).
      rp_profile x \<in> set profiles \<and>
      (\<exists>a \<in> set artifacts. ga_artifact_id a = rp_artifact_id x \<and> ref_matches (mp_target (rp_profile x)) a) \<and>
      (case mp_draft (rp_profile x) of
         None \<Rightarrow> rp_draft_artifact_id x = None
       | Some d \<Rightarrow> \<exists>a \<in> set artifacts. rp_draft_artifact_id x = Some (ga_artifact_id a) \<and> ref_matches d a)) \<and>
   (\<forall>m \<in> set (cr_missing (resolve_catalog profiles artifacts)). \<forall>a \<in> set artifacts. \<not> ref_matches (ma_ref m) a) \<and>
   (\<forall>p \<in> set profiles. (\<exists>x \<in> set (cr_resolved (resolve_catalog profiles artifacts)). rp_profile x = p) \<or>
      (\<exists>m \<in> set (cr_missing (resolve_catalog profiles artifacts)).
         ma_profile_id m = mp_profile_id p \<and> (ma_ref m = mp_target p \<or> mp_draft p = Some (ma_ref m))))"
proof (intro conjI ballI)
  fix x assume "x \<in> set (cr_resolved (resolve_catalog profiles artifacts))"
  then obtain p where "p \<in> set profiles" "x \<in> set (resolved_of artifacts p)" by (auto simp: resolve_catalog_def)
  note mem = this(1) resolved_of_mem [OF this(2)]
  show "rp_profile x \<in> set profiles"
    "\<exists>a \<in> set artifacts. ga_artifact_id a = rp_artifact_id x \<and> ref_matches (mp_target (rp_profile x)) a"
    "case mp_draft (rp_profile x) of None \<Rightarrow> rp_draft_artifact_id x = None
     | Some d \<Rightarrow> \<exists>a \<in> set artifacts. rp_draft_artifact_id x = Some (ga_artifact_id a) \<and> ref_matches d a"
    using mem find_artifact_Some by (fastforce split: option.splits)+
next
  fix m a assume "m \<in> set (cr_missing (resolve_catalog profiles artifacts))" "a \<in> set artifacts"
  then show "\<not> ref_matches (ma_ref m) a"
    by (auto simp: resolve_catalog_def missing_of_def find_artifact_None split: option.splits if_splits)
next
  fix p assume p: "p \<in> set profiles"
  show "(\<exists>x \<in> set (cr_resolved (resolve_catalog profiles artifacts)). rp_profile x = p) \<or>
      (\<exists>m \<in> set (cr_missing (resolve_catalog profiles artifacts)).
         ma_profile_id m = mp_profile_id p \<and> (ma_ref m = mp_target p \<or> mp_draft p = Some (ma_ref m)))"
  proof (cases "missing_of artifacts p")
    case Nil
    then have "\<exists>x \<in> set (resolved_of artifacts p). rp_profile x = p"
      by (auto simp: missing_of_def resolved_of_def Let_def split: option.splits if_splits)
    then show ?thesis using p by (auto simp: resolve_catalog_def)
  next
    case (Cons m ms)
    then have "m \<in> set (missing_of artifacts p)" by simp
    moreover from this have "ma_profile_id m = mp_profile_id p \<and> (ma_ref m = mp_target p \<or> mp_draft p = Some (ma_ref m))"
      by (auto simp: missing_of_def split: option.splits if_splits)
    moreover from calculation(1) have "m \<in> set (cr_missing (resolve_catalog profiles artifacts))"
      using p by (auto simp: resolve_catalog_def)
    ultimately show ?thesis by blast
  qed
qed

theorem resolve_catalog_exact_witness:
  "let p = profile_qwen3_8_27b_24g; t = mp_target p;
       a = \<lparr>ga_artifact_id = ''a1'', ga_repo_id = gr_repo_id t, ga_resolved_revision = gr_revision t,
            ga_files = [gr_filename t], ga_file_sizes = [(gr_filename t, gr_size_bytes t)]\<rparr>;
       x = \<lparr>rp_profile = p, rp_artifact_id = ''a1'', rp_draft_artifact_id = None\<rparr>
   in x \<in> set (cr_resolved (resolve_catalog [p] [a])) \<and> ref_matches (mp_target p) a"
proof -
  let ?p = profile_qwen3_8_27b_24g
  let ?t = "mp_target ?p"
  let ?a = "\<lparr>ga_artifact_id = ''a1'', ga_repo_id = gr_repo_id ?t, ga_resolved_revision = gr_revision ?t,
            ga_files = [gr_filename ?t], ga_file_sizes = [(gr_filename ?t, gr_size_bytes ?t)]\<rparr>"
  let ?x = "\<lparr>rp_profile = ?p, rp_artifact_id = ''a1'', rp_draft_artifact_id = None\<rparr>"
  have "mp_draft ?p = None" by (simp add: profile_qwen3_8_27b_24g_def)
  then have x: "?x \<in> set (cr_resolved (resolve_catalog [?p] [?a]))"
    by (simp add: resolve_catalog_def resolved_of_def find_artifact_def ref_matches_def)
  have "\<exists>a \<in> set [?a]. ga_artifact_id a = rp_artifact_id ?x \<and> ref_matches (mp_target (rp_profile ?x)) a"
    using resolve_catalog_exact [of "[?p]" "[?a]", THEN conjunct1] x by blast
  then show ?thesis unfolding Let_def using x by simp
qed

end
