(* ===== verification/PassMonad.thy ===== *)
theory PassMonad
  imports QiipPrelude
begin

text \<open>
  Asynchronous code that changes shared state and may raise: a function from the world to a result or an
  exception and the world it leaves. In a \<open>pass\<close> the exception is its text. \<open>ptriple\<close> is a Hoare triple with a postcondition for a
  normal return and one for an exception; the rules below are what the proofs about such code apply.
\<close>

type_synonym ('x, 'w, 'a) xpass = "'w \<Rightarrow> ('x + 'a) \<times> 'w"

type_synonym ('w, 'a) pass = "(string, 'w, 'a) xpass"

definition preturn :: "'a \<Rightarrow> ('x, 'w, 'a) xpass" where
  "preturn x w = (Inr x, w)"

definition praise :: "'x \<Rightarrow> ('x, 'w, 'a) xpass" where
  "praise err w = (Inl err, w)"

definition pbind :: "('x, 'w, 'a) xpass \<Rightarrow> ('a \<Rightarrow> ('x, 'w, 'b) xpass) \<Rightarrow> ('x, 'w, 'b) xpass" where
  "pbind f g w = (case f w of (Inl err, w') \<Rightarrow> (Inl err, w') | (Inr x, w') \<Rightarrow> g x w')"

text \<open>\<open>try: f except Exception as exc: handler(exc)\<close>\<close>

definition ptry :: "('x, 'w, 'a) xpass \<Rightarrow> ('x \<Rightarrow> ('x, 'w, 'a) xpass) \<Rightarrow> ('x, 'w, 'a) xpass" where
  "ptry f handler w = (case f w of (Inl err, w') \<Rightarrow> handler err w' | (Inr x, w') \<Rightarrow> (Inr x, w'))"

text \<open>\<open>try: f finally: g\<close>, where \<open>g\<close> neither raises nor suspends.\<close>

definition pfinally :: "('x, 'w, 'a) xpass \<Rightarrow> ('w \<Rightarrow> 'w) \<Rightarrow> ('x, 'w, 'a) xpass" where
  "pfinally f g w = (case f w of (r, w') \<Rightarrow> (r, g w'))"

definition pread :: "('w \<Rightarrow> 'a) \<Rightarrow> ('x, 'w, 'a) xpass" where
  "pread f w = (Inr (f w), w)"

definition pwrite :: "('w \<Rightarrow> 'w) \<Rightarrow> ('x, 'w, unit) xpass" where
  "pwrite f w = (Inr (), f w)"

lemmas pass_defs = preturn_def praise_def pbind_def ptry_def pfinally_def pread_def pwrite_def

fun pfold :: "('b \<Rightarrow> 'a \<Rightarrow> ('x, 'w, 'a) xpass) \<Rightarrow> 'b list \<Rightarrow> 'a \<Rightarrow> ('x, 'w, 'a) xpass" where
  "pfold f [] acc = preturn acc"
| "pfold f (x # xs) acc = pbind (f x acc) (pfold f xs)"

section \<open>Triples\<close>

definition ptriple ::
  "('w \<Rightarrow> bool) \<Rightarrow> ('x, 'w, 'a) xpass \<Rightarrow> ('a \<Rightarrow> 'w \<Rightarrow> bool) \<Rightarrow> ('w \<Rightarrow> bool) \<Rightarrow> bool" where
  "ptriple P f Q E \<longleftrightarrow>
     (\<forall>w. P w \<longrightarrow> (case f w of (Inl _, w') \<Rightarrow> E w' | (Inr x, w') \<Rightarrow> Q x w'))"

lemma ptripleD:
  assumes "ptriple P f Q E" "P w" "f w = (r, w')"
  shows "r = Inr x \<Longrightarrow> Q x w'" "r = Inl err \<Longrightarrow> E w'"
  using assms by (auto simp: ptriple_def dest: spec [of _ w])

lemma ptriple_return: "(\<And>w. P w \<Longrightarrow> Q x w) \<Longrightarrow> ptriple P (preturn x) Q E"
  by (simp add: ptriple_def preturn_def)

lemma ptriple_raise: "(\<And>w. P w \<Longrightarrow> E w) \<Longrightarrow> ptriple P (praise err) Q E"
  by (simp add: ptriple_def praise_def)

lemma ptriple_bind:
  assumes "ptriple P f R E" "\<And>x. ptriple (R x) (g x) Q E"
  shows "ptriple P (pbind f g) Q E"
  using assms unfolding ptriple_def pbind_def by (fastforce split: prod.splits sum.splits)

lemma ptriple_try:
  assumes "ptriple P f Q R" "\<And>err. ptriple R (handler err) Q E"
  shows "ptriple P (ptry f handler) Q E"
  using assms unfolding ptriple_def ptry_def by (fastforce split: prod.splits sum.splits)

lemma ptriple_finally:
  assumes "ptriple P f (\<lambda>x w. Q x (g w)) (\<lambda>w. E (g w))"
  shows "ptriple P (pfinally f g) Q E"
  using assms unfolding ptriple_def pfinally_def by (fastforce split: prod.splits sum.splits)

lemma ptriple_read: "(\<And>w. P w \<Longrightarrow> Q (f w) w) \<Longrightarrow> ptriple P (pread f) Q E"
  by (simp add: ptriple_def pread_def)

lemma ptriple_write: "(\<And>w. P w \<Longrightarrow> Q () (f w)) \<Longrightarrow> ptriple P (pwrite f) Q E"
  by (simp add: ptriple_def pwrite_def)

lemma ptriple_conseq:
  assumes "ptriple P f Q E" "\<And>w. P' w \<Longrightarrow> P w" "\<And>x w. Q x w \<Longrightarrow> Q' x w" "\<And>w. E w \<Longrightarrow> E' w"
  shows "ptriple P' f Q' E'"
  using assms unfolding ptriple_def by (fastforce split: prod.splits sum.splits)

lemma ptriple_if: "(b \<Longrightarrow> ptriple P f Q E) \<Longrightarrow> (\<not> b \<Longrightarrow> ptriple P g Q E) \<Longrightarrow> ptriple P (if b then f else g) Q E"
  by simp

lemma ptriple_option:
  "(x = None \<Longrightarrow> ptriple P f Q E) \<Longrightarrow> (\<And>y. x = Some y \<Longrightarrow> ptriple P (g y) Q E) \<Longrightarrow>
   ptriple P (case x of None \<Rightarrow> f | Some y \<Rightarrow> g y) Q E"
  by (cases x) simp_all

text \<open>A read, and a step that keeps the precondition, before the rest.\<close>

lemma ptriple_read_bind: "(\<And>w0. ptriple P (g (f w0)) Q E) \<Longrightarrow> ptriple P (pbind (pread f) g) Q E"
  by (simp add: ptriple_def pbind_def pread_def)

text \<open>What a step returns may satisfy a condition that does not mention the world.\<close>

lemma ptriple_bind_pure:
  assumes "ptriple P f (\<lambda>x w. P w \<and> B x) E" "\<And>x. B x \<Longrightarrow> ptriple P (g x) Q E"
  shows "ptriple P (pbind f g) Q E"
proof (rule ptriple_bind [OF assms(1)])
  show "ptriple (\<lambda>w. P w \<and> B x) (g x) Q E" for x
    using assms(2) [of x] by (cases "B x") (auto simp: ptriple_def)
qed

lemma ptriple_fold:
  assumes "\<And>x acc. x \<in> set xs \<Longrightarrow> ptriple (I acc) (f x acc) I E"
  shows "ptriple (I acc) (pfold f xs acc) I E"
  using assms
proof (induction xs arbitrary: acc)
  case Nil
  show ?case by (simp add: ptriple_return)
next
  case (Cons x xs)
  show ?case using Cons by (auto intro: ptriple_bind)
qed

section \<open>Invariants\<close>

text \<open>\<open>I\<close> holds after every return and every exception when it held before.\<close>

definition pkeeps :: "('w \<Rightarrow> bool) \<Rightarrow> ('x, 'w, 'a) xpass \<Rightarrow> bool" where
  "pkeeps I f \<longleftrightarrow> ptriple I f (\<lambda>_. I) I"

named_theorems keeps

lemma ptriple_keeps_bind: "pkeeps I f \<Longrightarrow> (\<And>x. ptriple I (g x) Q I) \<Longrightarrow> ptriple I (pbind f g) Q I"
  unfolding pkeeps_def by (rule ptriple_bind)

lemma pkeepsD: "pkeeps I f \<Longrightarrow> I w \<Longrightarrow> I (snd (f w))"
  by (cases "f w"; cases "fst (f w)") (fastforce simp: pkeeps_def ptriple_def)+

lemma pkeepsI: "(\<And>w. I w \<Longrightarrow> I (snd (f w))) \<Longrightarrow> pkeeps I f"
  by (fastforce simp: pkeeps_def ptriple_def split: prod.splits sum.splits)

lemma pkeeps_return [keeps]: "pkeeps I (preturn x)"
  by (simp add: pkeepsI preturn_def)

lemma pkeeps_raise [keeps]: "pkeeps I (praise err)"
  by (simp add: pkeepsI praise_def)

lemma pkeeps_read [keeps]: "pkeeps I (pread f)"
  by (simp add: pkeepsI pread_def)

lemma pkeeps_bind [keeps]: "pkeeps I f \<Longrightarrow> (\<And>x. pkeeps I (g x)) \<Longrightarrow> pkeeps I (pbind f g)"
  unfolding pkeeps_def by (rule ptriple_bind)

lemma pkeeps_try [keeps]: "pkeeps I f \<Longrightarrow> (\<And>err. pkeeps I (handler err)) \<Longrightarrow> pkeeps I (ptry f handler)"
  unfolding pkeeps_def by (rule ptriple_try)

lemma pkeeps_finally [keeps]: "pkeeps I f \<Longrightarrow> (\<And>w. I w \<Longrightarrow> I (g w)) \<Longrightarrow> pkeeps I (pfinally f g)"
  unfolding pkeeps_def by (rule ptriple_finally) (auto elim: ptriple_conseq)

lemma pkeeps_write [keeps]: "(\<And>w. I w \<Longrightarrow> I (f w)) \<Longrightarrow> pkeeps I (pwrite f)"
  by (simp add: pkeepsI pwrite_def)

lemma pkeeps_fold [keeps]: "(\<And>x acc. x \<in> set xs \<Longrightarrow> pkeeps I (f x acc)) \<Longrightarrow> pkeeps I (pfold f xs acc)"
  unfolding pkeeps_def by (rule ptriple_fold)

lemma pkeeps_if [keeps]: "(b \<Longrightarrow> pkeeps I f) \<Longrightarrow> (\<not> b \<Longrightarrow> pkeeps I g) \<Longrightarrow> pkeeps I (if b then f else g)"
  by simp

lemma pkeeps_option [keeps]:
  "(x = None \<Longrightarrow> pkeeps I f) \<Longrightarrow> (\<And>y. x = Some y \<Longrightarrow> pkeeps I (g y)) \<Longrightarrow> pkeeps I (case x of None \<Rightarrow> f | Some y \<Rightarrow> g y)"
  by (cases x) simp_all

lemma pkeeps_prod [keeps]:
  "(\<And>a b. x = (a, b) \<Longrightarrow> pkeeps I (f a b)) \<Longrightarrow> pkeeps I (case x of (a, b) \<Rightarrow> f a b)"
  by (cases x) simp_all

end
