(* ===== verification/Reconciler.thy ===== *)
theory Reconciler
  imports Reservations Claims Serializer HostLifecycle Catalog Planner PassMonad
begin

text \<open>
  \<^verbatim>\<open>placement/reconciler.py\<close> with \<open>PlacementSettings\<close> of \<^verbatim>\<open>config/settings.py\<close>: one pass of automatic placement
  over the claim store, the node registry, the host leases and the planner, and the background work of the
  provisions it starts (heartbeat, final write, fencing).

  The world is the state the pass shares with the rest of the gateway. Every call that suspends ends with
  \<open>await\<close>, where anything else may run: \<open>en_other\<close> is what it does to the world. Answers of services that are
  not part of the repository (QUADS, the hosts over SSH, the BMC, the clock) are functions of the
  number of suspensions so far, so they may differ from call to call. The readiness checks that
  \<open>asyncio.gather\<close> runs concurrently are run in list order: each touches the deferral of its own host only.
\<close>

section \<open>Settings\<close>

record PlacementSettings =
  ps_enabled :: bool
  ps_interval_seconds :: int
  ps_ratios :: "(string, int) dict"
  ps_reserve_mib :: int
  ps_max_attempts :: int
  ps_retry_backoff_seconds :: int
  ps_claim_stale_seconds :: int
  ps_max_concurrent :: int
  ps_require_qualified_gpu :: bool
  ps_exclude_hosts :: "host list"
  ps_only_hosts :: "host list"

definition PlacementSettings_fields :: "PlacementSettings \<Rightarrow> bool" where
  "PlacementSettings_fields s \<longleftrightarrow>
     30 \<le> ps_interval_seconds s \<and> 1 \<le> ps_reserve_mib s \<and> 1 \<le> ps_max_attempts s \<and> ps_max_attempts s \<le> 20 \<and>
     30 \<le> ps_retry_backoff_seconds s \<and> 60 \<le> ps_claim_stale_seconds s \<and>
     1 \<le> ps_max_concurrent s \<and> ps_max_concurrent s \<le> 32"

definition ratios_are_usable :: "(string, int) dict \<Rightarrow> string + (string, int) dict" where
  "ratios_are_usable value =
     (if \<not> list_all (\<lambda>k. k \<in> set (map mp_profile_id BUILTIN_PROFILES)) (dict_keys value)
      then Inl ''placement.ratios names unknown catalog profiles''
      else if list_ex (\<lambda>v. v < 0) (dict_values value) then Inl ''placement.ratios weights must not be negative''
      else if \<not> list_ex (\<lambda>v. v > 0) (dict_values value) then Inl ''placement.ratios needs at least one positive weight''
      else Inr value)"

definition exclude_hosts_are_canonical :: "string list \<Rightarrow> host list" where
  "exclude_hosts_are_canonical value =
     sort (remdups (map (\<lambda>h. str_rstrip (\<lambda>c. c = CHR ''.'') (str_lower (str_strip h))) (filter (\<lambda>h. h \<noteq> []) value)))"

section \<open>Data\<close>

definition PENDING_MOVE_REASON :: string where
  "PENDING_MOVE_REASON = ''QUADS has a pending move for the host''"

definition MOVES_UNKNOWN_REASON :: string where
  "MOVES_UNKNOWN_REASON = ''QUADS pending moves could not be read at launch''"

definition LAUNCH_REFUSAL_RECHECK_SECONDS :: int where
  "LAUNCH_REFUSAL_RECHECK_SECONDS = 60"

definition SERVING_NODE_STATUSES :: "NodeStatus list" where
  "SERVING_NODE_STATUSES = [HEALTHY, UNHEALTHY, DRAINING, RELAUNCHING, RELAUNCH_FAILED]"

definition RETRYABLE_NODE_STATUSES :: "NodeStatus list" where
  "RETRYABLE_NODE_STATUSES = [FAILED, PROVISIONING, UNKNOWN]"

record SkippedHost =
  sk_hostname :: host
  sk_reason :: string

record PlacementStatus =
  st_enabled :: bool
  st_holder :: string
  st_last_run_at :: "micros option"
  st_error :: string
  st_targets :: "(string, int) dict"
  st_held :: "(string, int) dict"
  st_unfilled :: "(string, int) dict"
  st_missing_artifacts :: "MissingArtifact list"
  st_claims :: "PlacementClaim list"
  st_unreadable_claims :: "host list"
  st_started :: "host list"
  st_skipped :: "SkippedHost list"

text \<open>\<open>_OwnedClaim\<close> objects are mutable and compared by identity: they live in \<open>w_owned_heap\<close>. The lock of
  one serialises its heartbeat and its final write, each of which is one definition below.\<close>

record OwnedClaim =
  oc_stored :: StoredClaim
  oc_refreshed_at :: micros
  oc_lost :: bool
  oc_started :: bool

record launch =
  la_hostname :: host
  la_claim :: PlacementClaim
  la_artifact_id :: string
  la_request :: LlamaCppRuntimeRequest
  la_placement :: NodePlacement
  la_lease :: nat
  la_owned :: nat

text \<open>\<open>w_tasks\<close> are the provisioning tasks of the provisioner with their \<open>done()\<close>; \<open>w_launches\<close> the provisions
  handed to it by this component and \<open>w_fenced\<close> the hosts whose provision it asked to cancel.\<close>

record 'e rworld =
  w_tick :: nat
  w_etcd :: 'e
  w_gw :: gateway
  w_life :: HostLifecycleCoordinator
  w_owned :: "(host, nat) dict"
  w_owned_heap :: "OwnedClaim list"
  w_deferred :: "(host, micros \<times> string) dict"
  w_refused :: "(host, string) dict"
  w_tasks :: "(host, bool) dict"
  w_launches :: "launch list"
  w_fenced :: "host list"

record 'e renv =
  en_settings :: PlacementSettings
  en_holder :: string
  en_profiles :: "ModelProfile list"
  en_codec :: claim_codec
  en_wire :: wire
  en_api :: "'e etcd_api"
  en_stale_after :: micros
  en_max_provisions :: int
  en_exc :: "etcd_error \<Rightarrow> string"
  en_strftime :: "micros \<Rightarrow> string"
  en_clock :: "nat \<Rightarrow> micros"
  en_other :: "nat \<Rightarrow> 'e rworld \<Rightarrow> 'e rworld"
  en_hosts :: "nat \<Rightarrow> QUADSHost list"
  en_last_sync :: "nat \<Rightarrow> micros option"
  en_scan :: "nat \<Rightarrow> string + GGUFArtifact list"
  en_available :: "nat \<Rightarrow> string + string list"
  en_moves :: "nat \<Rightarrow> string + host list"
  en_remote :: "nat \<Rightarrow> host \<Rightarrow> string + string list"
  en_power :: "nat \<Rightarrow> host \<Rightarrow> string + string option"
  en_uuid :: "nat \<Rightarrow> string"

type_synonym ('e, 'a) rpass = "('e rworld, 'a) pass"

definition await :: "'e renv \<Rightarrow> 'e rworld \<Rightarrow> 'e rworld" where
  "await env w = (en_other env (w_tick w) w)\<lparr>w_tick := Suc (w_tick w)\<rparr>"

text \<open>A call of the etcd client from a worker thread, and a call whose answer comes from outside.\<close>

definition call_etcd :: "'e renv \<Rightarrow> ('e, 'a) etcd_call \<Rightarrow> ('e, 'a) rpass" where
  "call_etcd env f w =
     (case f (w_etcd w) of (r, e) \<Rightarrow> (map_sum (en_exc env) id r, await env (w\<lparr>w_etcd := e\<rparr>)))"

definition ask :: "'e renv \<Rightarrow> (nat \<Rightarrow> string + 'a) \<Rightarrow> ('e, 'a) rpass" where
  "ask env answer w = (answer (w_tick w), await env w)"

definition clock :: "'e renv \<Rightarrow> ('e, micros) rpass" where
  "clock env = pread (\<lambda>w. en_clock env (w_tick w))"

definition node_at :: "host \<Rightarrow> ('e, node option) rpass" where
  "node_at h = pread (\<lambda>w. registry_get (gw_registry (w_gw w)) h)"

definition decoded :: "('e, 'a option) rpass \<Rightarrow> ('e, 'a) rpass" where
  "decoded f = pbind f (\<lambda>x. case x of None \<Rightarrow> praise ''UnicodeDecodeError'' | Some y \<Rightarrow> preturn y)"

definition claims_list :: "'e renv \<Rightarrow> ('e, StoredClaim list \<times> host list) rpass" where
  "claims_list env = decoded (call_etcd env (claim_list (en_codec env) (en_api env)))"

definition suspensions_list :: "'e renv \<Rightarrow> ('e, host set) rpass" where
  "suspensions_list env = decoded (call_etcd env (suspension_list (en_api env)))"

section \<open>Nodes automation may touch\<close>

definition is_own_failed_node :: "node \<Rightarrow> PlacementClaim \<Rightarrow> bool" where
  "is_own_failed_node n c \<longleftrightarrow>
     (case node_placement n of None \<Rightarrow> False | Some p \<Rightarrow> np_claim_id p = cl_claim_id c) \<and>
     node_managed n \<and> \<not> node_self_setup n \<and> node_owner n = [] \<and> node_status n \<in> set RETRYABLE_NODE_STATUSES"

definition is_free_pool_node :: "node \<Rightarrow> bool" where
  "is_free_pool_node n \<longleftrightarrow>
     node_status n = AVAILABLE \<and> \<not> node_self_setup n \<and> node_owner n = [] \<and> node_placement n = None"

definition may_replace :: "node option \<Rightarrow> StoredClaim option \<Rightarrow> bool" where
  "may_replace node existing \<longleftrightarrow>
     (case node of
        None \<Rightarrow> True
      | Some n \<Rightarrow> is_free_pool_node n \<or>
          (case existing of None \<Rightarrow> False | Some s \<Rightarrow> is_own_failed_node n (sc_claim s)))"

section \<open>Provisioner operations the pass uses\<close>

definition try_reserve_host :: "host \<Rightarrow> ('e, nat option) rpass" where
  "try_reserve_host h w =
     (case try_acquire h 0 (w_life w) of
        (False, l) \<Rightarrow> (Inr None, w)
      | (True, l) \<Rightarrow> (Inr (Some (length (hc_leases (w_life w)))), w\<lparr>w_life := l\<rparr>))"

definition release_lease :: "nat \<Rightarrow> 'e rworld \<Rightarrow> 'e rworld" where
  "release_lease i w = w\<lparr>w_life := snd (lease_release i (w_life w))\<rparr>"

definition host_operation_in_progress :: "host \<Rightarrow> 'e rworld \<Rightarrow> bool" where
  "host_operation_in_progress h w = is_busy (w_life w) h"

definition cleanup_stale_node :: "'e renv \<Rightarrow> host \<Rightarrow> ('e, unit) rpass" where
  "cleanup_stale_node env h =
     pbind (call_etcd env (delete_key (en_api env) (api_prefix (en_api env) @ h)))
       (\<lambda>_. pwrite (\<lambda>w. w\<lparr>w_gw := cleanup_local h (w_gw w)\<rparr>))"

definition stored_node :: "'e renv \<Rightarrow> host \<Rightarrow> ('e, bool \<times> node option) rpass" where
  "stored_node env h =
     pbind (call_etcd env (get_record (en_api env) (api_prefix (en_api env) @ h)))
       (\<lambda>record. preturn (case record of
          None \<Rightarrow> (False, None)
        | Some r \<Rightarrow> (True, node_from_etcd (en_wire env) (er_key r) (er_value r) (api_prefix (en_api env)))))"

datatype fire_result = Fired | AtCapacity | FireFailed string

definition fire_background :: "'e renv \<Rightarrow> host \<Rightarrow> ('e, fire_result) rpass" where
  "fire_background env h w =
     (if dict_get (w_tasks w) h = Some False
      then (Inr (FireFailed ''Provisioning task already active''), w)
      else if int (length (filter (\<lambda>d. \<not> d) (dict_values (w_tasks w)))) \<ge> en_max_provisions env
      then (Inr AtCapacity, w)
      else (Inr Fired, w\<lparr>w_tasks := dict_set h False (w_tasks w)\<rparr>))"

section \<open>QUADS and policy\<close>

definition quads_stale_reason :: "'e renv \<Rightarrow> 'e rworld \<Rightarrow> string option" where
  "quads_stale_reason env w =
     (case en_last_sync env (w_tick w) of
        None \<Rightarrow> Some ''QUADS inventory has not synchronized yet''
      | Some last_sync \<Rightarrow>
          (let age = en_clock env (w_tick w) - last_sync
           in if age > en_stale_after env
              then Some (''QUADS inventory is stale ('' @ str_int (age div 1000000) @ ''s old, last synchronized ''
                         @ en_strftime env last_sync @ '' UTC)'')
              else None))"

definition planned_profiles :: "'e renv \<Rightarrow> CatalogResolution \<Rightarrow> PlannedProfile list" where
  "planned_profiles env resolution =
     map (\<lambda>p. let classes = filter (\<lambda>k. \<not> ps_require_qualified_gpu (en_settings env) \<or> k \<in> set (mp_qualified_gpus p))
                              (map gc_key (mp_gpu_classes p))
              in \<lparr>pp_profile_id = mp_profile_id p,
                  pp_weight = dict_get_or (ps_ratios (en_settings env)) (mp_profile_id p) 0,
                  pp_gpu_classes = classes, pp_preferred_gpu_class = mp_preferred_gpu_class p,
                  pp_placeable = (resolution_get resolution (mp_profile_id p) \<noteq> None \<and> classes \<noteq> [])\<rparr>)
         (en_profiles env)"

definition host_gpu_class :: "'e renv \<Rightarrow> QUADSHost \<Rightarrow> string option" where
  "host_gpu_class env h =
     map_option gc_key
       (find (\<lambda>g. str_contains (str_lower (qh_gpu_model h)) (str_lower (gc_quads_model_token g)))
          (concat (map mp_gpu_classes (en_profiles env))))"

text \<open>\<open>wanted\<close> is the profile id and version a claim already carries, with its GPU class.\<close>

definition policy_refusal ::
  "'e renv \<Rightarrow> host \<Rightarrow> QUADSHost option \<Rightarrow> PlannedProfile list \<Rightarrow> (string \<times> int \<times> string) option \<Rightarrow> string option" where
  "policy_refusal env hostname host planned wanted =
     (if hostname \<in> set (ps_exclude_hosts (en_settings env)) then Some ''excluded by placement.exclude_hosts''
      else if ps_only_hosts (en_settings env) \<noteq> [] \<and> hostname \<notin> set (ps_only_hosts (en_settings env))
      then Some ''not listed in placement.only_hosts''
      else case host of
        None \<Rightarrow> Some ''no longer in the QUADS GPU inventory''
      | Some h \<Rightarrow>
          (case host_gpu_class env h of
             None \<Rightarrow> Some ''its GPU product is not in the profile catalog''
           | Some actual_class \<Rightarrow>
               if qh_gpu_count h \<noteq> 1
               then Some (str_int (qh_gpu_count h) @ '' GPUs: catalog profiles support exactly one GPU per host'')
               else if (case wanted of None \<Rightarrow> False | Some (_, _, gpu) \<Rightarrow> gpu \<noteq> actual_class)
               then Some (''inventory now reports '' @ actual_class @ '', not '' @ (case wanted of Some (_, _, gpu) \<Rightarrow> gpu | None \<Rightarrow> []))
               else
                 let usable = filter (\<lambda>p. pp_weight p > 0 \<and> actual_class \<in> set (pp_gpu_classes p) \<and>
                                (case wanted of None \<Rightarrow> True | Some (i, _, _) \<Rightarrow> pp_profile_id p = i)) planned
                 in case wanted of
                      None \<Rightarrow> if \<not> list_ex pp_placeable usable
                               then Some (''no placeable profile is qualified for '' @ actual_class) else None
                    | Some (i, version, _) \<Rightarrow>
                        if usable = []
                        then Some (''profile '' @ i @ '' is no longer weighted and qualified for '' @ actual_class)
                        else (case find (\<lambda>p. mp_profile_id p = i) (en_profiles env) of
                                None \<Rightarrow> Some (''profile '' @ i @ '' changed version'')
                              | Some current \<Rightarrow>
                                  if mp_version current \<noteq> version
                                  then Some (''profile '' @ i @ '' changed version'') else None)))"

section \<open>Candidates\<close>

abbreviation skip :: "host \<Rightarrow> string \<Rightarrow> SkippedHost" where
  "skip h reason \<equiv> \<lparr>sk_hostname = h, sk_reason = reason\<rparr>"

text \<open>Why an unclaimed host of a known GPU class is not a candidate, and the deferrals afterwards.\<close>

definition candidate_reason ::
  "'e renv \<Rightarrow> host list \<Rightarrow> PlannedProfile list \<Rightarrow> micros \<Rightarrow> host list \<Rightarrow> QUADSHost \<Rightarrow> 'e rworld
    \<Rightarrow> string option \<times> (host, micros \<times> string) dict" where
  "candidate_reason env available planned now pending_moves h w =
     (let hostname = canonical_hostname (qh_hostname h);
          node = registry_get (gw_registry (w_gw w)) hostname;
          deferred = w_deferred w
      in case policy_refusal env hostname (Some h) planned None of
           Some reason \<Rightarrow> (Some reason, deferred)
         | None \<Rightarrow>
             if hostname \<notin> set available then (Some ''not free for the whole QUADS scheduling window'', deferred)
             else if hostname \<in> set pending_moves then (Some PENDING_MOVE_REASON, deferred)
             else if node \<noteq> None \<and> \<not> is_free_pool_node (the node)
             then (Some (''already has a '' @ NodeStatus_value (node_status (the node)) @ '' node record''), deferred)
             else if host_operation_in_progress hostname w
             then (Some ''another lifecycle operation is in progress'', deferred)
             else case dict_get deferred hostname of
                    None \<Rightarrow> (None, deferred)
                  | Some (ask_again_at, why) \<Rightarrow>
                      if ask_again_at > now then (Some why, deferred) else (None, dict_pop hostname deferred))"

fun candidates_loop ::
  "'e renv \<Rightarrow> host list \<Rightarrow> (host \<Rightarrow> bool) \<Rightarrow> PlannedProfile list \<Rightarrow> micros \<Rightarrow> host list \<Rightarrow> QUADSHost list
    \<Rightarrow> 'e rworld \<Rightarrow> Candidate list \<times> SkippedHost list \<times> 'e rworld" where
  "candidates_loop env available blocked planned now moves [] w = ([], [], w)"
| "candidates_loop env available blocked planned now moves (h # hs) w =
     (let hostname = canonical_hostname (qh_hostname h)
      in case host_gpu_class env h of
           None \<Rightarrow> candidates_loop env available blocked planned now moves hs w
         | Some gpu \<Rightarrow>
             if blocked hostname then candidates_loop env available blocked planned now moves hs w
             else
               let (reason, deferred) = candidate_reason env available planned now moves h w;
                   (candidates, skipped, w) = candidates_loop env available blocked planned now moves hs (w\<lparr>w_deferred := deferred\<rparr>)
               in case reason of
                    Some r \<Rightarrow> (candidates, skip hostname r # skipped, w)
                  | None \<Rightarrow> (\<lparr>ca_hostname = hostname, ca_gpu_class = gpu\<rparr> # candidates, skipped, w))"

definition find_candidates ::
  "'e renv \<Rightarrow> host list \<Rightarrow> (host \<Rightarrow> bool) \<Rightarrow> PlannedProfile list \<Rightarrow> micros \<Rightarrow> host list
    \<Rightarrow> ('e, Candidate list \<times> SkippedHost list) rpass" where
  "find_candidates env available blocked planned now pending_moves w =
     (let hosts = en_hosts env (w_tick w);
          inventory = map (\<lambda>h. canonical_hostname (qh_hostname h)) hosts;
          w = w\<lparr>w_deferred := filter (\<lambda>(h, _). h \<in> set inventory) (w_deferred w)\<rparr>
      in case candidates_loop env available blocked planned now pending_moves (sort_key qh_hostname hosts) w of
           (candidates, skipped, w) \<Rightarrow> (Inr (candidates, skipped), w))"

section \<open>Claims\<close>

definition drop_claim :: "'e renv \<Rightarrow> StoredClaim \<Rightarrow> ('e, StoredClaim option) rpass" where
  "drop_claim env stored =
     pbind (call_etcd env (claim_delete (en_api env) stored))
       (\<lambda>gone. preturn (if gone then None else Some stored))"

definition rewrite ::
  "'e renv \<Rightarrow> StoredClaim \<Rightarrow> micros \<Rightarrow> (PlacementClaim \<Rightarrow> PlacementClaim) \<Rightarrow> ('e, StoredClaim) rpass" where
  "rewrite env stored now changes =
     (let c = (changes (sc_claim stored))\<lparr>cl_updated_at := now\<rparr>
      in pbind (call_etcd env (claim_update (en_codec env) (en_api env) stored c))
           (\<lambda>revision. preturn (case revision of
              None \<Rightarrow> stored | Some r \<Rightarrow> \<lparr>sc_claim = c, sc_mod_revision = r\<rparr>)))"

definition clear_own_node :: "'e renv \<Rightarrow> PlacementClaim \<Rightarrow> ('e, bool) rpass" where
  "clear_own_node env c =
     pbind (try_reserve_host (cl_hostname c)) (\<lambda>lease.
       case lease of
         None \<Rightarrow> preturn False
       | Some i \<Rightarrow>
           pfinally
             (ptry
               (pbind (node_at (cl_hostname c)) (\<lambda>node.
                  case node of
                    None \<Rightarrow> preturn True
                  | Some n \<Rightarrow>
                      if \<not> is_own_failed_node n c then preturn False
                      else pbind (cleanup_stale_node env (cl_hostname c)) (\<lambda>_. preturn True)))
               (\<lambda>_. preturn False))
             (release_lease i))"

text \<open>Somebody set the host up by hand.\<close>

definition taken_over :: "node \<Rightarrow> PlacementClaim \<Rightarrow> bool" where
  "taken_over n c \<longleftrightarrow>
     \<not> is_free_pool_node n \<and>
     ((case node_placement n of None \<Rightarrow> True | Some p \<Rightarrow> np_claim_id p \<noteq> cl_claim_id c) \<or>
      node_owner n \<noteq> [] \<or> node_self_setup n \<or> \<not> node_managed n)"

definition is_serving :: "node \<Rightarrow> PlacementClaim \<Rightarrow> bool" where
  "is_serving n c \<longleftrightarrow>
     (case node_placement n of None \<Rightarrow> False | Some p \<Rightarrow> np_claim_id p = cl_claim_id c) \<and>
     node_status n \<in> set SERVING_NODE_STATUSES"

text \<open>A provisioning claim that somebody may still be working on.\<close>

definition in_flight :: "'e renv \<Rightarrow> PlacementClaim \<Rightarrow> micros \<Rightarrow> 'e rworld \<Rightarrow> bool" where
  "in_flight env c now w \<longleftrightarrow>
     cl_state c = CLAIM_PROVISIONING \<and>
     (if cl_holder c = en_holder env then dict_get (w_owned w) (cl_hostname c) \<noteq> None
      else now - cl_heartbeat_at c < seconds (ps_claim_stale_seconds (en_settings env)))"

definition settle_claim ::
  "'e renv \<Rightarrow> StoredClaim \<Rightarrow> host list \<Rightarrow> micros \<Rightarrow> ('e, StoredClaim option) rpass" where
  "settle_claim env stored available now =
     (let c = sc_claim stored;
          cfg = en_settings env;
          again = (\<lambda>changes. pbind (rewrite env stored now changes) (\<lambda>s. preturn (Some s)))
      in
      pbind (node_at (cl_hostname c)) (\<lambda>node.
      pbind (pread (in_flight env c now)) (\<lambda>flying.
      if (case node of None \<Rightarrow> False | Some n \<Rightarrow> taken_over n c) then drop_claim env stored
      else if flying then preturn (Some stored)
      else if (case node of None \<Rightarrow> False | Some n \<Rightarrow> is_serving n c) \<and> cl_state c \<in> {CLAIM_PROVISIONING, CLAIM_FAILED}
      then again (\<lambda>c. c\<lparr>cl_state := CLAIM_ACTIVE, cl_attempts := 0, cl_holder := en_holder env,
                       cl_retry_at := None, cl_last_error := []\<rparr>)
      else if cl_state c = CLAIM_PROVISIONING
      then (let spent = cl_attempts c \<ge> ps_max_attempts cfg
            in again (\<lambda>c. c\<lparr>cl_state := (if spent then CLAIM_EXHAUSTED else CLAIM_FAILED),
                            cl_holder := en_holder env, cl_retry_at := (if spent then None else Some now),
                            cl_last_error := ''the provisioning gateway stopped refreshing this claim''\<rparr>))
      else if cl_hostname c \<notin> set available
      then (case node of
              None \<Rightarrow> drop_claim env stored
            | Some n \<Rightarrow>
                if node_status n \<in> set RETRYABLE_NODE_STATUSES
                then pbind (clear_own_node env c)
                       (\<lambda>cleared. if \<not> cleared then preturn (Some stored) else drop_claim env stored)
                else preturn (Some stored))
      else if cl_state c = CLAIM_ACTIVE
         \<and> (case node of None \<Rightarrow> False | Some n \<Rightarrow> node_status n = FAILED \<and> is_own_failed_node n c)
      then again (\<lambda>c. c\<lparr>cl_state := CLAIM_FAILED, cl_attempts := 0,
                       cl_retry_at := Some (now + seconds (ps_retry_backoff_seconds cfg)),
                       cl_last_error := ''the placed node failed''\<rparr>)
      else if cl_state c = CLAIM_ACTIVE \<and> node = None
      then again (\<lambda>c. c\<lparr>cl_state := CLAIM_FAILED, cl_attempts := 0,
                       cl_retry_at := Some (now + seconds (ps_claim_stale_seconds cfg)),
                       cl_last_error := ''the node record disappeared''\<rparr>)
      else preturn (Some stored))))"

definition release_failed_claim :: "'e renv \<Rightarrow> StoredClaim \<Rightarrow> ('e, bool) rpass" where
  "release_failed_claim env stored =
     pbind (node_at (cl_hostname (sc_claim stored))) (\<lambda>node.
       pbind (if node \<noteq> None \<and> is_own_failed_node (the node) (sc_claim stored)
              then clear_own_node env (sc_claim stored) else preturn True)
         (\<lambda>cleared. if \<not> cleared then preturn False
                    else call_etcd env (claim_delete (en_api env) stored)))"

section \<open>What blocks a launch\<close>

definition host_is_powered_off :: "'e renv \<Rightarrow> host \<Rightarrow> ('e, bool) rpass" where
  "host_is_powered_off env h =
     ptry (pbind (ask env (\<lambda>n. en_power env n h)) (\<lambda>state. preturn (state = Some ''Off''))) (\<lambda>_. preturn False)"

definition remote_work_blocker :: "'e renv \<Rightarrow> host \<Rightarrow> ('e, string option) rpass" where
  "remote_work_blocker env h =
     ptry
       (pbind (ask env (\<lambda>n. en_remote env n h)) (\<lambda>running. preturn
          (if running \<noteq> [] then Some ''an earlier provisioning command is still running on the host'' else None)))
       (\<lambda>detail. pbind (host_is_powered_off env h) (\<lambda>off. preturn
          (if off then None
           else Some (''could not verify that no earlier provisioning is running: '' @ detail))))"

definition stored_node_blocker :: "'e renv \<Rightarrow> host \<Rightarrow> StoredClaim option \<Rightarrow> ('e, string option) rpass" where
  "stored_node_blocker env h existing =
     ptry
       (pbind (stored_node env h) (\<lambda>(present, node). preturn
          (if \<not> present then None
           else case node of
             None \<Rightarrow> Some ''the host's node record in etcd cannot be parsed''
           | Some n \<Rightarrow>
               if may_replace (Some n) existing then None
               else Some (''etcd holds a '' @ NodeStatus_value (node_status n) @ '' node record for the host''))))
       (\<lambda>detail. preturn (Some (''could not read the host's node record from etcd: '' @ detail)))"

definition launch_blocker :: "'e renv \<Rightarrow> host \<Rightarrow> StoredClaim option \<Rightarrow> ('e, string option) rpass" where
  "launch_blocker env h existing =
     pbind (remote_work_blocker env h) (\<lambda>b. case b of
        Some r \<Rightarrow> preturn (Some r) | None \<Rightarrow> stored_node_blocker env h existing)"

definition pending_move_blocker :: "'e renv \<Rightarrow> host \<Rightarrow> ('e, string option) rpass" where
  "pending_move_blocker env h =
     ptry
       (pbind (ask env (en_moves env)) (\<lambda>pending. preturn (if h \<in> set pending then Some PENDING_MOVE_REASON else None)))
       (\<lambda>detail. preturn (Some (MOVES_UNKNOWN_REASON @ '': '' @ detail)))"

definition set_deferred :: "host \<Rightarrow> micros \<Rightarrow> string \<Rightarrow> ('e, unit) rpass" where
  "set_deferred h ask_again_at reason = pwrite (\<lambda>w. w\<lparr>w_deferred := dict_set h (ask_again_at, reason) (w_deferred w)\<rparr>)"

definition ready_check :: "'e renv \<Rightarrow> host \<Rightarrow> ('e, string option) rpass" where
  "ready_check env h =
     pbind (pread (host_operation_in_progress h)) (\<lambda>busy.
     if busy then preturn (Some ''host lifecycle operation in progress'') else
     pbind (node_at h) (\<lambda>node.
     if \<not> may_replace node None then preturn (Some ''node changed before readiness check'') else
     pbind (launch_blocker env h None) (\<lambda>blocker.
     case blocker of
       Some b \<Rightarrow>
         (let reason = ''blocked: '' @ b
          in pbind (clock env) (\<lambda>now.
             pbind (set_deferred h (now + seconds (ps_retry_backoff_seconds (en_settings env))) reason)
               (\<lambda>_. preturn (Some reason))))
     | None \<Rightarrow>
         pbind (node_at h) (\<lambda>node. preturn
           (if \<not> may_replace node None then Some ''node changed during readiness check'' else None)))))"

definition ready_candidates :: "'e renv \<Rightarrow> Candidate list \<Rightarrow> ('e, Candidate list \<times> SkippedHost list) rpass" where
  "ready_candidates env candidates =
     pfold (\<lambda>c (ready, skipped).
        pbind (ready_check env (ca_hostname c)) (\<lambda>reason. preturn
          (case reason of None \<Rightarrow> (ready @ [c], skipped)
           | Some r \<Rightarrow> (ready, skipped @ [skip (ca_hostname c) r]))))
       candidates ([], [])"

section \<open>Owned claims\<close>

definition owned_at :: "nat \<Rightarrow> 'e rworld \<Rightarrow> OwnedClaim" where
  "owned_at i w = w_owned_heap w ! i"

definition on_owned :: "nat \<Rightarrow> (OwnedClaim \<Rightarrow> OwnedClaim) \<Rightarrow> 'e rworld \<Rightarrow> 'e rworld" where
  "on_owned i f w = w\<lparr>w_owned_heap := (w_owned_heap w)[i := f (w_owned_heap w ! i)]\<rparr>"

definition forget_owned :: "host \<Rightarrow> nat \<Rightarrow> 'e rworld \<Rightarrow> 'e rworld" where
  "forget_owned h i w =
     (if dict_get (w_owned w) h = Some i then w\<lparr>w_owned := dict_pop h (w_owned w)\<rparr> else w)"

text \<open>The claim as this gateway last wrote it, read back after a write whose outcome is unknown.\<close>

definition own_current :: "'e renv \<Rightarrow> nat \<Rightarrow> PlacementClaim \<Rightarrow> ('e, StoredClaim option) rpass" where
  "own_current env i written =
     ptry
       (pbind (pread (\<lambda>w. cl_hostname (sc_claim (oc_stored (owned_at i w))))) (\<lambda>h.
        pbind (call_etcd env (claim_get (en_codec env) (en_api env) h)) (\<lambda>current.
        pread (\<lambda>w. case current of
           None \<Rightarrow> None
         | Some s \<Rightarrow>
             if sc_claim s = written then Some s
             else if sc_claim s = (sc_claim (oc_stored (owned_at i w)))
                       \<lparr>cl_heartbeat_at := cl_heartbeat_at (sc_claim s), cl_updated_at := cl_updated_at (sc_claim s)\<rparr>
             then Some s else None))))
       (\<lambda>_. preturn None)"

definition finished_claim :: "PlacementSettings \<Rightarrow> PlacementClaim \<Rightarrow> string option \<Rightarrow> bool \<Rightarrow> micros \<Rightarrow> PlacementClaim" where
  "finished_claim cfg c error count_attempt now =
     (let attempts = (if count_attempt then cl_attempts c else max 0 (cl_attempts c - 1))
      in case error of
           None \<Rightarrow> c\<lparr>cl_state := CLAIM_ACTIVE, cl_retry_at := None, cl_last_error := [],
                     cl_attempts := 0, cl_updated_at := now\<rparr>
         | Some err \<Rightarrow>
             if attempts \<ge> ps_max_attempts cfg
             then c\<lparr>cl_state := CLAIM_EXHAUSTED, cl_retry_at := None, cl_last_error := take 2000 err,
                    cl_attempts := attempts, cl_updated_at := now\<rparr>
             else
               let backoff = ps_retry_backoff_seconds cfg * 2 ^ nat (max 0 (attempts - 1))
               in c\<lparr>cl_state := CLAIM_FAILED, cl_retry_at := Some (now + seconds backoff), cl_last_error := take 2000 err,
                    cl_attempts := attempts, cl_updated_at := now\<rparr>)"

text \<open>A revision-checked write: the revision, \<open>None\<close> on a conflict, and whether it raised.\<close>

definition update_or_fail ::
  "'e renv \<Rightarrow> StoredClaim \<Rightarrow> PlacementClaim \<Rightarrow> ('e, int option \<times> string option) rpass" where
  "update_or_fail env stored c =
     ptry
       (pbind (call_etcd env (claim_update (en_codec env) (en_api env) stored c)) (\<lambda>r. preturn (r, None)))
       (\<lambda>err. preturn (None, Some err))"

text \<open>The final write and its repair when the outcome is unknown or an earlier heartbeat landed unseen.\<close>

definition final_write ::
  "'e renv \<Rightarrow> nat \<Rightarrow> StoredClaim \<Rightarrow> PlacementClaim \<Rightarrow> ('e, int option \<times> string option) rpass" where
  "final_write env i stored updated =
     pbind (update_or_fail env stored updated) (\<lambda>(revision, failure).
     if revision \<noteq> None then preturn (revision, failure) else
     pbind (own_current env i updated) (\<lambda>current.
     case current of
       None \<Rightarrow> preturn (None, failure)
     | Some s \<Rightarrow>
         if sc_claim s = updated then preturn (Some (sc_mod_revision s), failure)
         else pbind (update_or_fail env s updated) (\<lambda>(r, f). preturn (r, if f \<noteq> None then f else failure))))"

definition finish :: "'e renv \<Rightarrow> nat \<Rightarrow> string option \<Rightarrow> bool \<Rightarrow> ('e, unit) rpass" where
  "finish env i error count_attempt =
     pbind (clock env) (\<lambda>now.
     pbind (pread (owned_at i)) (\<lambda>owned.
     (let updated = finished_claim (en_settings env) (sc_claim (oc_stored owned)) error count_attempt now
      in pbind (final_write env i (oc_stored owned) updated) (\<lambda>(revision, failure). pwrite (\<lambda>w.
           case revision of
             Some r \<Rightarrow> on_owned i (\<lambda>o'. o'\<lparr>oc_stored := \<lparr>sc_claim = updated, sc_mod_revision = r\<rparr>\<rparr>) w
           | None \<Rightarrow> if failure \<noteq> None then w else on_owned i (\<lambda>o'. o'\<lparr>oc_lost := True\<rparr>) w)))))"

text \<open>Half of the stale period without a successful refresh ends the provision.\<close>

definition heartbeat_once :: "'e renv \<Rightarrow> nat \<Rightarrow> ('e, unit) rpass" where
  "heartbeat_once env i =
     pbind (pread (owned_at i)) (\<lambda>owned.
     if oc_lost owned then preturn () else
     pbind (clock env) (\<lambda>now.
     (let c = (sc_claim (oc_stored owned))\<lparr>cl_heartbeat_at := now, cl_updated_at := now\<rparr>;
          refreshed = (\<lambda>r. pwrite (on_owned i (\<lambda>o'. o'\<lparr>oc_stored := \<lparr>sc_claim = c, sc_mod_revision = r\<rparr>, oc_refreshed_at := now\<rparr>)));
          lose = pwrite (\<lambda>w. (on_owned i (\<lambda>o'. o'\<lparr>oc_lost := True\<rparr>) w)\<lparr>w_fenced := w_fenced w @ [cl_hostname c]\<rparr>)
      in pbind (update_or_fail env (oc_stored owned) c) (\<lambda>(revision, failure).
         case revision of
           Some r \<Rightarrow> refreshed r
         | None \<Rightarrow>
             pbind (own_current env i c) (\<lambda>current.
             case current of
               Some s \<Rightarrow>
                 if sc_claim s = c then refreshed (sc_mod_revision s)
                 else pbind (pwrite (on_owned i (\<lambda>o'. o'\<lparr>oc_stored := s\<rparr>))) (\<lambda>_.
                   if failure = None \<or> now - oc_refreshed_at owned < ps_claim_stale_seconds (en_settings env) * 500000
                   then preturn () else lose)
             | None \<Rightarrow>
                 if failure \<noteq> None \<and> now - oc_refreshed_at owned < ps_claim_stale_seconds (en_settings env) * 500000
                 then preturn () else lose)))))"

definition HEARTBEAT_INTERVAL :: "PlacementSettings \<Rightarrow> micros" where
  "HEARTBEAT_INTERVAL cfg = max 5000000 (ps_claim_stale_seconds cfg * 250000)"

datatype provision_outcome = ProvisionOk | ProvisionCancelled | ProvisionFailed string

definition run_owned_start :: "nat \<Rightarrow> 'e rworld \<Rightarrow> 'e rworld" where
  "run_owned_start i = on_owned i (\<lambda>o'. o'\<lparr>oc_started := True\<rparr>)"

definition run_owned_end :: "'e renv \<Rightarrow> nat \<Rightarrow> provision_outcome \<Rightarrow> ('e, unit) rpass" where
  "run_owned_end env i outcome =
     pbind (pread (owned_at i)) (\<lambda>owned.
     (let h = cl_hostname (sc_claim (oc_stored owned));
          error = (case outcome of
             ProvisionOk \<Rightarrow> None
           | ProvisionCancelled \<Rightarrow> Some (if oc_lost owned then ''claim ownership was lost during provisioning''
                                           else ''provisioning was cancelled'')
           | ProvisionFailed err \<Rightarrow> Some err)
      in pbind
           (if oc_lost owned then pwrite (forget_owned h i)
            else pfinally (finish env i error True) (forget_owned h i))
           (\<lambda>_. if outcome = ProvisionCancelled then praise ''CancelledError'' else preturn ())))"

definition task_ended :: "host \<Rightarrow> nat \<Rightarrow> nat \<Rightarrow> 'e rworld \<Rightarrow> 'e rworld" where
  "task_ended h i lease w =
     (let w = release_lease lease w
      in if \<not> oc_started (owned_at i w) then forget_owned h i w else w)"

section \<open>Launching\<close>

text \<open>The claim a launch writes; a retry keeps the id and the creation time.\<close>

definition launch_claim ::
  "'e renv \<Rightarrow> ResolvedProfile \<Rightarrow> host \<Rightarrow> string \<Rightarrow> StoredClaim option \<Rightarrow> micros \<Rightarrow> string \<Rightarrow> PlacementClaim" where
  "launch_claim env resolved h gpu existing now uuid =
     \<lparr>cl_claim_id = (case existing of None \<Rightarrow> uuid | Some s \<Rightarrow> cl_claim_id (sc_claim s)), cl_hostname = h,
      cl_profile_id = mp_profile_id (rp_profile resolved), cl_profile_version = mp_version (rp_profile resolved),
      cl_gpu_class = gpu, cl_state = CLAIM_PROVISIONING,
      cl_attempts = (case existing of None \<Rightarrow> 0 | Some s \<Rightarrow> cl_attempts (sc_claim s)) + 1,
      cl_holder = en_holder env,
      cl_created_at = (case existing of None \<Rightarrow> now | Some s \<Rightarrow> cl_created_at (sc_claim s)),
      cl_updated_at = now, cl_heartbeat_at = now, cl_retry_at = None, cl_last_error = []\<rparr>"

text \<open>Handing the provision over once the claim is written; \<open>i\<close> is the owned claim, \<open>lease\<close> the host lease.\<close>

definition hand_over ::
  "'e renv \<Rightarrow> ResolvedProfile \<Rightarrow> PlacementClaim \<Rightarrow> nat \<Rightarrow> nat \<Rightarrow> ('e, bool) rpass" where
  "hand_over env resolved c lease i =
     (case runtime_request (rp_profile resolved) (ps_reserve_mib (en_settings env)) (rp_draft_artifact_id resolved) (cl_gpu_class c) of
        Inl err \<Rightarrow> praise err
      | Inr request \<Rightarrow>
          (let placement = \<lparr>np_profile_id = cl_profile_id c, np_profile_version = cl_profile_version c, np_claim_id = cl_claim_id c\<rparr>
           in if \<not> NodePlacement_fields placement then praise ''ValidationError''
              else pbind (fire_background env (cl_hostname c)) (\<lambda>fired.
                case fired of
                  AtCapacity \<Rightarrow>
                    pbind (finish env i (Some ''provisioning capacity reached'') False) (\<lambda>_. preturn False)
                | FireFailed err \<Rightarrow>
                    pbind (finish env i (Some ''could not schedule provisioning'') False) (\<lambda>_. praise err)
                | Fired \<Rightarrow>
                    pbind (pwrite (\<lambda>w. w\<lparr>w_owned := dict_set (cl_hostname c) i (w_owned w),
                       w_launches := w_launches w @
                         [\<lparr>la_hostname = cl_hostname c, la_claim = c, la_artifact_id = rp_artifact_id resolved,
                           la_request = request, la_placement = placement, la_lease = lease, la_owned = i\<rparr>]\<rparr>))
                      (\<lambda>_. preturn True))))"

definition write_claim :: "'e renv \<Rightarrow> StoredClaim option \<Rightarrow> PlacementClaim \<Rightarrow> ('e, int option) rpass" where
  "write_claim env existing c =
     (case existing of
        Some s \<Rightarrow> call_etcd env (claim_update (en_codec env) (en_api env) s c)
      | None \<Rightarrow> call_etcd env (claim_create (en_codec env) (en_api env) c))"

text \<open>From the last look at the registry to the hand-over.\<close>

definition claim_and_start ::
  "'e renv \<Rightarrow> ResolvedProfile \<Rightarrow> host \<Rightarrow> string \<Rightarrow> StoredClaim option \<Rightarrow> nat \<Rightarrow> ('e, bool) rpass" where
  "claim_and_start env resolved h gpu existing lease =
     pbind (node_at h) (\<lambda>node.
     if \<not> may_replace node existing then preturn False else
     pbind (clock env) (\<lambda>now.
     pbind (pread (\<lambda>w. en_uuid env (w_tick w))) (\<lambda>uuid.
     (let c = launch_claim env resolved h gpu existing now uuid
      in if \<not> PlacementClaim_fields c then praise ''ValidationError''
         else pbind (write_claim env existing c) (\<lambda>revision.
           case revision of
             None \<Rightarrow> preturn False
           | Some r \<Rightarrow>
               pbind (pread (\<lambda>w. length (w_owned_heap w))) (\<lambda>i.
               pbind (pwrite (\<lambda>w. w\<lparr>w_owned_heap := w_owned_heap w @
                   [\<lparr>oc_stored = \<lparr>sc_claim = c, sc_mod_revision = r\<rparr>, oc_refreshed_at = now, oc_lost = False, oc_started = False\<rparr>]\<rparr>)) (\<lambda>_.
               pbind (case node of None \<Rightarrow> preturn ()
                      | Some n \<Rightarrow> if is_free_pool_node n then preturn () else cleanup_stale_node env h) (\<lambda>_.
               hand_over env resolved c lease i))))))))"

definition launch_refusal :: "'e renv \<Rightarrow> host \<Rightarrow> ('e, string option) rpass" where
  "launch_refusal env h =
     pbind (pread (quads_stale_reason env)) (\<lambda>stale. case stale of
        Some r \<Rightarrow> preturn (Some r) | None \<Rightarrow> pending_move_blocker env h)"

text \<open>The checks under the host lease, in the order of the source.\<close>

definition launch_under_lease ::
  "'e renv \<Rightarrow> ResolvedProfile \<Rightarrow> host \<Rightarrow> string \<Rightarrow> StoredClaim option \<Rightarrow> nat \<Rightarrow> ('e, bool) rpass" where
  "launch_under_lease env resolved h gpu existing lease =
     (let cfg = en_settings env in
     pbind (suspensions_list env) (\<lambda>suspended.
     if h \<in> suspended then preturn False else
     pbind (node_at h) (\<lambda>node.
     if \<not> may_replace node existing then preturn False else
     case existing of
       Some s \<Rightarrow>
         if cl_attempts (sc_claim s) \<ge> ps_max_attempts cfg
         then pbind (clock env) (\<lambda>now. pbind
                (rewrite env s now (\<lambda>c. c\<lparr>cl_state := CLAIM_EXHAUSTED, cl_retry_at := None,
                   cl_last_error := (if cl_last_error c \<noteq> [] then cl_last_error c else ''the attempt limit was reached'')\<rparr>))
                (\<lambda>_. preturn False))
         else
           pbind (launch_refusal env h) (\<lambda>refusal. case refusal of
             Some r \<Rightarrow> pbind (pwrite (\<lambda>w. w\<lparr>w_refused := dict_set h r (w_refused w)\<rparr>)) (\<lambda>_. preturn False)
           | None \<Rightarrow>
               pbind (launch_blocker env h (Some s)) (\<lambda>blocker. case blocker of
                 Some b \<Rightarrow>
                   pbind (clock env) (\<lambda>now. pbind
                     (rewrite env s now (\<lambda>c. c\<lparr>cl_retry_at := Some (now + seconds (ps_retry_backoff_seconds cfg)),
                        cl_last_error := ''blocked: '' @ b\<rparr>))
                     (\<lambda>_. preturn False))
               | None \<Rightarrow>
                   pbind (pwrite (\<lambda>w. w\<lparr>w_deferred := dict_pop h (w_deferred w)\<rparr>))
                     (\<lambda>_. claim_and_start env resolved h gpu (Some s) lease)))
     | None \<Rightarrow>
         pbind (launch_refusal env h) (\<lambda>refusal. case refusal of
           Some r \<Rightarrow>
             pbind (pwrite (\<lambda>w. w\<lparr>w_refused := dict_set h r (w_refused w)\<rparr>)) (\<lambda>_.
             pbind (clock env) (\<lambda>now.
             pbind (set_deferred h (now + seconds LAUNCH_REFUSAL_RECHECK_SECONDS) r) (\<lambda>_. preturn False)))
         | None \<Rightarrow>
             pbind (launch_blocker env h None) (\<lambda>blocker. case blocker of
               Some b \<Rightarrow>
                 pbind (clock env) (\<lambda>now.
                 pbind (set_deferred h (now + seconds (ps_retry_backoff_seconds cfg)) (''blocked: '' @ b)) (\<lambda>_. preturn False))
             | None \<Rightarrow>
                 pbind (pwrite (\<lambda>w. w\<lparr>w_deferred := dict_pop h (w_deferred w)\<rparr>))
                   (\<lambda>_. claim_and_start env resolved h gpu None lease))))))"

text \<open>\<open>finally: if not handed_over: lease.release()\<close>: handed over exactly when it returns \<open>True\<close>.\<close>

definition launch_host ::
  "'e renv \<Rightarrow> ResolvedProfile \<Rightarrow> host \<Rightarrow> string \<Rightarrow> StoredClaim option \<Rightarrow> ('e, bool) rpass" where
  "launch_host env resolved h gpu existing =
     pbind (try_reserve_host h) (\<lambda>lease.
     case lease of
       None \<Rightarrow> preturn False
     | Some i \<Rightarrow> (\<lambda>w.
         case launch_under_lease env resolved h gpu existing i w of
           (Inr True, w') \<Rightarrow> (Inr True, w')
         | (r, w') \<Rightarrow> (r, release_lease i w')))"

section \<open>The pass\<close>

type_synonym progress = "int \<times> host list \<times> SkippedHost list"

text \<open>Nothing to do for this host, or a launch.\<close>

definition retry_step ::
  "'e renv \<Rightarrow> CatalogResolution \<Rightarrow> host list \<Rightarrow> host list \<Rightarrow> PlannedProfile list \<Rightarrow> (host, QUADSHost) dict \<Rightarrow> micros
    \<Rightarrow> StoredClaim \<Rightarrow> progress \<Rightarrow> ('e, progress) rpass" where
  "retry_step env resolution available pending_moves planned hosts now stored =
     (\<lambda>(budget, started, skipped).
       let c = sc_claim stored; h = cl_hostname c; same = preturn (budget, started, skipped)
       in if budget \<le> 0 \<or> cl_state c \<noteq> CLAIM_FAILED \<or> (case cl_retry_at c of None \<Rightarrow> False | Some t \<Rightarrow> t > now)
             \<or> h \<notin> set available then same
          else if h \<in> set pending_moves then preturn (budget, started, skipped @ [skip h PENDING_MOVE_REASON])
          else case policy_refusal env h (dict_get hosts h) planned (Some (cl_profile_id c, cl_profile_version c, cl_gpu_class c)) of
            Some refusal \<Rightarrow>
              pbind (release_failed_claim env stored) (\<lambda>gone. preturn
                (budget, started, if gone then skipped @ [skip h refusal] else skipped))
          | None \<Rightarrow>
              (case resolution_get resolution (cl_profile_id c) of
                 None \<Rightarrow> same
               | Some resolved \<Rightarrow>
                   pbind (launch_host env resolved h (cl_gpu_class c) (Some stored)) (\<lambda>ok.
                   pread (\<lambda>w. if ok then (budget - 1, started @ [h], skipped)
                     else case dict_get (w_refused w) h of
                       Some r \<Rightarrow> (budget, started, skipped @ [skip h r])
                     | None \<Rightarrow> (budget, started, skipped)))))"

definition assign_step ::
  "'e renv \<Rightarrow> CatalogResolution \<Rightarrow> (host, string) dict \<Rightarrow> Assignment \<Rightarrow> progress \<Rightarrow> ('e, progress) rpass" where
  "assign_step env resolution classes a =
     (\<lambda>(budget, started, skipped).
       if budget \<le> 0 then preturn (budget, started, skipped)
       else case resolution_get resolution (as_profile_id a) of
         None \<Rightarrow> preturn (budget, started, skipped)
       | Some resolved \<Rightarrow>
           (case dict_get classes (as_hostname a) of
              None \<Rightarrow> praise ''KeyError''
            | Some gpu \<Rightarrow>
                pbind (launch_host env resolved (as_hostname a) gpu None) (\<lambda>ok.
                pread (\<lambda>w. if ok then (budget - 1, started @ [as_hostname a], skipped)
                  else case dict_get (w_refused w) (as_hostname a) of
                    Some r \<Rightarrow> (budget, started, skipped @ [skip (as_hostname a) r])
                  | None \<Rightarrow>
                      (case dict_get (w_deferred w) (as_hostname a) of
                         Some (_, why) \<Rightarrow> (budget, started, skipped @ [skip (as_hostname a) why])
                       | None \<Rightarrow> (budget, started, skipped))))))"

definition settle_step ::
  "'e renv \<Rightarrow> host set \<Rightarrow> host list \<Rightarrow> micros \<Rightarrow> StoredClaim \<Rightarrow> StoredClaim list \<Rightarrow> ('e, StoredClaim list) rpass" where
  "settle_step env suspended available now stored settled =
     (if cl_hostname (sc_claim stored) \<in> suspended
      then pbind (node_at (cl_hostname (sc_claim stored))) (\<lambda>node.
             if node = None then pbind (drop_claim env stored) (\<lambda>_. preturn settled) else preturn settled)
      else pbind (settle_claim env stored available now) (\<lambda>kept. preturn
             (case kept of None \<Rightarrow> settled | Some s \<Rightarrow> settled @ [s])))"

definition held_profiles :: "PlacementClaim list \<Rightarrow> (string, int) dict \<Rightarrow> (string, int) dict" where
  "held_profiles cs held = fold (\<lambda>c d. if counts_toward_ratio c then bump (cl_profile_id c) 1 d else d) cs held"

definition launch_budget :: "'e renv \<Rightarrow> StoredClaim list \<Rightarrow> int" where
  "launch_budget env settled =
     ps_max_concurrent (en_settings env)
     - int (length (filter (\<lambda>s. cl_state (sc_claim s) = CLAIM_PROVISIONING \<and> cl_holder (sc_claim s) = en_holder env) settled))"

definition base_status :: "'e renv \<Rightarrow> micros \<Rightarrow> PlacementStatus" where
  "base_status env now =
     \<lparr>st_enabled = ps_enabled (en_settings env), st_holder = en_holder env, st_last_run_at = Some now, st_error = [],
      st_targets = [], st_held = [], st_unfilled = [], st_missing_artifacts = [], st_claims = [],
      st_unreadable_claims = [], st_started = [], st_skipped = []\<rparr>"

text \<open>Planning and launching, from the settled claims to the launches.\<close>

definition place ::
  "'e renv \<Rightarrow> CatalogResolution \<Rightarrow> host set \<Rightarrow> host list \<Rightarrow> host list \<Rightarrow> host list \<Rightarrow> micros \<Rightarrow> StoredClaim list
    \<Rightarrow> ('e, PlacementPlan \<times> host list \<times> SkippedHost list) rpass" where
  "place env resolution suspended available pending_moves unreadable now settled =
     (let held = held_profiles (map sc_claim settled) [];
          planned = planned_profiles env resolution;
          blocked = (\<lambda>h. h \<in> set (map (cl_hostname o sc_claim) settled) \<or> h \<in> set unreadable \<or> h \<in> suspended);
          budget = launch_budget env settled
      in
      pbind (pread (\<lambda>w. dict_comp (map (\<lambda>h. (canonical_hostname (qh_hostname h), h)) (en_hosts env (w_tick w))))) (\<lambda>hosts.
      pbind (find_candidates env available blocked planned now pending_moves) (\<lambda>(candidates, skipped).
      (let skipped = skipped @ map (\<lambda>h. skip h ''automatic placement suspended by an administrator'')
                       (sorted_list_of_set suspended)
       in
      pbind (if budget > 0 then ready_candidates env candidates else preturn (candidates, [])) (\<lambda>(candidates, unreachable).
      (case plan_placements planned held candidates of
         Inl _ \<Rightarrow> praise ''planner error''
       | Inr plan \<Rightarrow>
           (let classes = dict_comp (map (\<lambda>c. (ca_hostname c, ca_gpu_class c)) candidates) in
            pbind (pfold (retry_step env resolution available pending_moves planned hosts now) settled
                     (budget, [], skipped @ unreachable)) (\<lambda>progress.
            pbind (pfold (assign_step env resolution classes) (pl_assignments plan) progress) (\<lambda>(budget, started, skipped).
            preturn (plan, started, skipped))))))))))"

definition final_status ::
  "'e renv \<Rightarrow> CatalogResolution \<Rightarrow> host set \<Rightarrow> micros \<Rightarrow> PlacementPlan \<Rightarrow> host list \<Rightarrow> SkippedHost list
    \<Rightarrow> StoredClaim list \<times> host list \<Rightarrow> PlacementStatus" where
  "final_status env resolution suspended now plan started skipped =
     (\<lambda>(final_claims, final_unreadable).
       let held_now = held_profiles
             (filter (\<lambda>c. cl_hostname c \<notin> suspended) (map sc_claim final_claims))
             (map (\<lambda>p. (mp_profile_id p, 0)) (en_profiles env))
       in (base_status env now)
            \<lparr>st_targets := pl_targets plan, st_held := held_now,
             st_unfilled := filter (\<lambda>(_, owed). owed > 0)
                (map (\<lambda>(k, target). (k, target - dict_get_or held_now k 0)) (pl_targets plan)),
             st_missing_artifacts := cr_missing resolution, st_claims := map sc_claim final_claims,
             st_unreadable_claims := final_unreadable, st_started := started, st_skipped := skipped\<rparr>)"

definition failed_status :: "PlacementStatus \<Rightarrow> string \<Rightarrow> MissingArtifact list \<Rightarrow> PlacementClaim list \<Rightarrow> PlacementStatus" where
  "failed_status base message missing claims =
     base\<lparr>st_error := message, st_missing_artifacts := missing, st_claims := claims\<rparr>"

text \<open>A guarded read of the pass: its error ends the pass with a status instead of raising.\<close>

definition guarded ::
  "('e, 'a) rpass \<Rightarrow> (string \<Rightarrow> PlacementStatus) \<Rightarrow> ('a \<Rightarrow> ('e, PlacementStatus) rpass) \<Rightarrow> ('e, PlacementStatus) rpass" where
  "guarded f on_error k =
     pbind (ptry (pbind f (\<lambda>x. preturn (Inr x))) (\<lambda>err. preturn (Inl err)))
       (\<lambda>r. case r of Inl err \<Rightarrow> preturn (on_error err) | Inr x \<Rightarrow> k x)"

definition reconcile :: "'e renv \<Rightarrow> ('e, PlacementStatus) rpass" where
  "reconcile env =
     pbind (clock env) (\<lambda>now.
     pbind (pwrite (\<lambda>w. w\<lparr>w_refused := []\<rparr>)) (\<lambda>_.
     (let base = base_status env now in
     guarded (ask env (en_scan env)) (\<lambda>err. failed_status base (''could not scan the GGUF cache: '' @ err) [] []) (\<lambda>artifacts.
     (let resolution = resolve_catalog (en_profiles env) artifacts in
     guarded (pbind (suspensions_list env) (\<lambda>suspended. pbind (claims_list env) (\<lambda>claims. preturn (suspended, claims))))
       (\<lambda>err. failed_status base (''could not read placement claims: '' @ err) (cr_missing resolution) [])
       (\<lambda>(suspended, claims, unreadable).
     (let known = map sc_claim claims in
     pbind (pread (quads_stale_reason env)) (\<lambda>stale.
     case stale of
       Some reason \<Rightarrow> preturn (failed_status base reason (cr_missing resolution) known)
     | None \<Rightarrow>
         guarded (ask env (en_available env))
           (\<lambda>err. failed_status base (''QUADS availability is unknown: '' @ err) (cr_missing resolution) known) (\<lambda>raw.
         (let available = map canonical_hostname raw in
         guarded (ask env (en_moves env))
           (\<lambda>err. failed_status base (''QUADS pending moves are unknown: '' @ err) (cr_missing resolution) known) (\<lambda>pending_moves.
         pbind (pfold (settle_step env suspended available now) claims []) (\<lambda>settled.
         pbind (place env resolution suspended available pending_moves unreadable now settled) (\<lambda>(plan, started, skipped).
         pbind (claims_list env) (\<lambda>final.
         preturn (final_status env resolution suspended now plan started skipped final)))))))))))))))"

definition reset_claim :: "'e renv \<Rightarrow> host \<Rightarrow> ('e, bool) rpass" where
  "reset_claim env h =
     pbind (claims_list env) (\<lambda>(claims, _).
     case find (\<lambda>s. cl_hostname (sc_claim s) = h) claims of
       None \<Rightarrow> preturn False
     | Some s \<Rightarrow>
         if cl_state (sc_claim s) \<notin> {CLAIM_FAILED, CLAIM_EXHAUSTED}
         then praise ''only a failed or exhausted claim can be reset''
         else pbind (release_failed_claim env s) (\<lambda>released.
           if \<not> released then praise ''the host is busy; try again when it is idle'' else preturn True))"

end
