(* ===== verification/PlacementSamples.thy ===== *)
theory PlacementSamples
  imports Reconciler
begin

text \<open>
  Concrete surroundings of a pass, for the instances of the properties: one free host with an L4 card, one
  profile whose file is in the cache, and no other activity.
\<close>

definition sample_profile :: ModelProfile where
  "sample_profile = profile_qwen3_8_27b_24g"

definition sample_artifact :: GGUFArtifact where
  "sample_artifact = (let t = mp_target sample_profile in
     \<lparr>ga_artifact_id = ''a1'', ga_repo_id = gr_repo_id t, ga_resolved_revision = gr_revision t,
      ga_files = [gr_filename t], ga_file_sizes = [(gr_filename t, gr_size_bytes t)]\<rparr>)"

definition sample_settings :: PlacementSettings where
  "sample_settings = \<lparr>ps_enabled = True, ps_interval_seconds = 60, ps_ratios = [(mp_profile_id sample_profile, 1)],
     ps_reserve_mib = 256, ps_max_attempts = 3, ps_retry_backoff_seconds = 60, ps_claim_stale_seconds = 120,
     ps_max_concurrent = 2, ps_require_qualified_gpu = False, ps_exclude_hosts = [], ps_only_hosts = []\<rparr>"

definition sample_wire :: wire where
  "sample_wire = \<lparr>wr_codec = \<lparr>jc_loads = (\<lambda>_. None), jc_dumps = (\<lambda>_. [])\<rparr>, wr_normalize = Some, wr_origin = Some,
     wr_node = (\<lambda>_ _. None), wr_dump = (\<lambda>_. []),
     wr_state = (\<lambda>_. None), wr_state_dump = (\<lambda>_. [])\<rparr>"

definition launched_claim :: PlacementClaim where
  "launched_claim = \<lparr>cl_claim_id = replicate 32 (CHR ''a''), cl_hostname = ''h1'', cl_profile_id = mp_profile_id sample_profile,
     cl_profile_version = mp_version sample_profile, cl_gpu_class = ''l4'', cl_state = CLAIM_PROVISIONING, cl_attempts = 1,
     cl_holder = replicate 32 (CHR ''b''), cl_created_at = 5, cl_updated_at = 5, cl_heartbeat_at = 5,
     cl_retry_at = None, cl_last_error = []\<rparr>"

definition launched_codec :: claim_codec where
  "launched_codec = \<lparr>cc_parse = (\<lambda>v. if v = ''claim'' then Some launched_claim else None),
     cc_dump = (\<lambda>c. if c = launched_claim then ''claim'' else ''other'')\<rparr>"

text \<open>A store that is empty and accepts every write, and one that is unreachable.\<close>

definition quiet_api :: "unit etcd_api" where
  "quiet_api = \<lparr>api_prefix = ''/nodes/'', api_node_lease_ttl = 60,
     api_range = (\<lambda>_ e. (Inr (JObj [(''header'', JObj [(''revision'', JInt 1)])]), e)),
     api_transaction = (\<lambda>_ e. (Inr (JObj [(''header'', JObj [(''revision'', JInt 1)]), (''succeeded'', JBool True)]), e)),
     api_put = (\<lambda>_ _ _ e. (Inr True, e)), api_grant = (\<lambda>_ e. (Inr 1, e)), api_refresh = (\<lambda>_ e. (Inr 1, e)),
     api_revoke = (\<lambda>_ e. (Inr True, e)), api_replace = (\<lambda>_ _ _ e. (Inr True, e)), api_delete = (\<lambda>_ e. (Inr True, e))\<rparr>"

definition down_api :: "unit etcd_api" where
  "down_api = quiet_api\<lparr>api_range := (\<lambda>_ e. (Inl TransportError, e)), api_transaction := (\<lambda>_ e. (Inl TransportError, e))\<rparr>"

definition sample_env :: "'e etcd_api \<Rightarrow> 'e renv" where
  "sample_env api = \<lparr>en_settings = sample_settings, en_holder = replicate 32 (CHR ''b''), en_profiles = [sample_profile],
     en_codec = launched_codec, en_wire = sample_wire, en_api = api, en_stale_after = 600000000, en_max_provisions = 4,
     en_exc = (\<lambda>_. ''EtcdError''), en_strftime = (\<lambda>_. []), en_clock = (\<lambda>_. 5), en_other = (\<lambda>_ w. w),
     en_hosts = (\<lambda>_. [\<lparr>qh_hostname = ''h1'', qh_gpu_vendor = ''NVIDIA'', qh_gpu_model = ''AD104GL [L4]'', qh_gpu_count = 1\<rparr>]),
     en_last_sync = (\<lambda>_. Some 0), en_scan = (\<lambda>_. Inr [sample_artifact]), en_available = (\<lambda>_. Inr [''h1'']),
     en_moves = (\<lambda>_. Inr []), en_remote = (\<lambda>_ _. Inr []), en_power = (\<lambda>_ _. Inr None),
     en_uuid = (\<lambda>_. replicate 32 (CHR ''a''))\<rparr>"

definition sample_gateway :: gateway where
  "sample_gateway = \<lparr>gw_registry = empty_registry, gw_tracker = [], gw_breakers = \<lparr>cbr_threshold = 3, cbr_breakers = []\<rparr>, gw_failures = [],
     gw_metrics = \<lparr>rm_total = 0, rm_per_node = [], rm_per_model = []\<rparr>\<rparr>"

definition sample_world :: "'e \<Rightarrow> 'e rworld" where
  "sample_world e = \<lparr>w_tick = 0, w_etcd = e, w_gw = sample_gateway, w_life = HostLifecycleCoordinator_new, w_owned = [],
     w_owned_heap = [], w_deferred = [], w_refused = [], w_tasks = [], w_launches = [], w_fenced = []\<rparr>"

end
