(* ===== verification/ReconcilerSafety.thy ===== *)
theory ReconcilerSafety
  imports PlacementSamples
begin

text \<open>
  What every pass of the placement reconciler guarantees: each claim it writes stays within the attempt
  budget, whatever the order of passes, heartbeats, ends of provisions and resets, and a pass starts at most
  \<open>max_concurrent\<close> provisions, on hosts that policy and QUADS allow.
\<close>

section \<open>The attempt budget\<close>

definition claim_budget :: "PlacementSettings \<Rightarrow> PlacementClaim \<Rightarrow> bool" where
  "claim_budget cfg c \<longleftrightarrow>
     0 \<le> cl_attempts c \<and> cl_attempts c \<le> ps_max_attempts cfg \<and>
     (cl_state c = CLAIM_FAILED \<longrightarrow> cl_attempts c < ps_max_attempts cfg) \<and>
     (cl_state c = CLAIM_ACTIVE \<longrightarrow> cl_attempts c = 0)"

text \<open>Every readable claim in the store, and every claim held in memory, is within the budget.\<close>

definition store_budget :: "PlacementSettings \<Rightarrow> claim_codec \<Rightarrow> 'e key_view \<Rightarrow> 'e \<Rightarrow> bool" where
  "store_budget cfg cc view e \<longleftrightarrow>
     (\<forall>k v m l c. view e k = Some (v, m, l) \<longrightarrow>
        cc_parse cc v = Some c \<longrightarrow> claim_budget cfg c)"

definition budget_inv :: "'e renv \<Rightarrow> 'e key_view \<Rightarrow> nat \<Rightarrow> 'e rworld \<Rightarrow> bool" where
  "budget_inv env view k w \<longleftrightarrow>
     store_budget (en_settings env) (en_codec env) view (w_etcd w) \<and> k \<le> length (w_owned_heap w) \<and>
     (\<forall>x \<in> set (w_owned_heap w). claim_budget (en_settings env) (sc_claim (oc_stored x)))"

text \<open>
  What the proof relies on: the store behaves like etcd, a plain delete removes at most its key, parsing
  a dumped claim gives that claim or fails, and whatever else runs keeps the invariant (the owned claims
  are objects, so the first \<open>k\<close> of them stay).
\<close>

definition budget_env :: "'e renv \<Rightarrow> 'e key_view \<Rightarrow> ('e \<Rightarrow> int) \<Rightarrow> bool" where
  "budget_env env view cur \<longleftrightarrow>
     etcd_law (en_api env) view cur \<and>
     (\<forall>k e r e'. api_delete (en_api env) k e = (r, e') \<longrightarrow> view e' = view e \<or> view e' = (view e)(utf8_encode k := None)) \<and>
     (\<forall>c d. cc_parse (en_codec env) (utf8_encode (cc_dump (en_codec env) c)) = Some d \<longrightarrow> d = c) \<and>
     1 \<le> ps_max_attempts (en_settings env) \<and>
     (\<forall>k n w. budget_inv env view k w \<longrightarrow> budget_inv env view k (en_other env n w))"

abbreviation good_stored :: "'e renv \<Rightarrow> StoredClaim \<Rightarrow> bool" where
  "good_stored env s \<equiv> claim_budget (en_settings env) (sc_claim s) \<and> 0 < sc_mod_revision s"

lemma store_budget_write:
  assumes "store_budget cfg cc view e" "view e' = (view e)(k \<mapsto> (utf8_encode (cc_dump cc c), m, l))" "claim_budget cfg c"
    and "\<forall>c d. cc_parse cc (utf8_encode (cc_dump cc c)) = Some d \<longrightarrow> d = c"
  shows "store_budget cfg cc view e'"
  using assms unfolding store_budget_def by (auto split: if_splits)

lemma store_budget_drop:
  assumes "store_budget cfg cc view e" "view e' = (view e)(k := None)"
  shows "store_budget cfg cc view e'"
  using assms unfolding store_budget_def by (auto split: if_splits)

lemma store_budget_same: "store_budget cfg cc view e \<Longrightarrow> view e' = view e \<Longrightarrow> store_budget cfg cc view e'"
  by (simp add: store_budget_def)

lemma budget_envD:
  assumes "budget_env env view cur"
  shows "etcd_law (en_api env) view cur"
    "\<forall>c d. cc_parse (en_codec env) (utf8_encode (cc_dump (en_codec env) c)) = Some d \<longrightarrow> d = c"
    "1 \<le> ps_max_attempts (en_settings env)"
    "\<And>k n w. budget_inv env view k w \<Longrightarrow> budget_inv env view k (en_other env n w)"
    "\<And>k e r e'. api_delete (en_api env) k e = (r, e') \<Longrightarrow> view e' = view e \<or> view e' = (view e)(utf8_encode k := None)"
  using assms unfolding budget_env_def by blast+

lemma inv_await: "budget_env env view cur \<Longrightarrow> budget_inv env view k w \<Longrightarrow> budget_inv env view k (await env w)"
  using budget_envD(4) [of env view cur k w "w_tick w"] by (simp add: await_def budget_inv_def)

lemma call_triple:
  assumes env: "budget_env env view cur"
    and f: "\<And>e r e'. store_budget (en_settings env) (en_codec env) view e \<Longrightarrow> f e = (r, e') \<Longrightarrow>
      store_budget (en_settings env) (en_codec env) view e' \<and> (\<forall>x. r = Inr x \<longrightarrow> Q x)"
  shows "ptriple (budget_inv env view k) (call_etcd env f) (\<lambda>x w. budget_inv env view k w \<and> Q x) (budget_inv env view k)"
  unfolding ptriple_def
proof (intro allI impI)
  fix w assume w: "budget_inv env view k w"
  obtain r e where call: "f (w_etcd w) = (r, e)" by fastforce
  have "store_budget (en_settings env) (en_codec env) view (w_etcd w)" using w by (simp add: budget_inv_def)
  from f [OF this call] have "budget_inv env view k (w\<lparr>w_etcd := e\<rparr>)" and Q: "\<forall>x. r = Inr x \<longrightarrow> Q x"
    using w by (auto simp: budget_inv_def)
  then have "budget_inv env view k (await env (w\<lparr>w_etcd := e\<rparr>))" using inv_await [OF env] by blast
  then show "case call_etcd env f w of (Inl _, w') \<Rightarrow> budget_inv env view k w' | (Inr x, w') \<Rightarrow> budget_inv env view k w' \<and> Q x"
    using Q by (cases r) (simp_all add: call_etcd_def call)
qed

lemma call_keeps:
  assumes "budget_env env view cur"
    and "\<And>e r e'. store_budget (en_settings env) (en_codec env) view e \<Longrightarrow> f e = (r, e') \<Longrightarrow>
      store_budget (en_settings env) (en_codec env) view e'"
  shows "pkeeps (budget_inv env view k) (call_etcd env f)"
  unfolding pkeeps_def
  by (rule ptriple_conseq [OF call_triple [where f = f and Q = "\<lambda>_. True"]]) (use assms in auto)

lemma ask_keeps [keeps]: "budget_env env view cur \<Longrightarrow> pkeeps (budget_inv env view k) (ask env answer)"
  by (simp add: pkeepsI ask_def inv_await)

lemma clock_keeps [keeps]: "pkeeps I (clock env)"
  by (simp add: clock_def keeps)

lemma node_at_keeps [keeps]: "pkeeps I (node_at h)"
  by (simp add: node_at_def keeps)

lemma write_triple:
  assumes env: "budget_env env view cur" and c: "claim_budget (en_settings env) c"
  shows "ptriple (budget_inv env view k) (call_etcd env (claim_write (en_codec env) (en_api env) c m))
    (\<lambda>r w. budget_inv env view k w \<and> (\<forall>n. r = Some n \<longrightarrow> 0 < n)) (budget_inv env view k)"
proof (rule call_triple [OF env])
  note law = budget_envD(1) [OF env]
  fix e r e' assume e: "store_budget (en_settings env) (en_codec env) view e"
    and w: "claim_write (en_codec env) (en_api env) c m e = (r, e')"
  have "0 < n" if "r = Inr (Some n)" for n
  proof -
    have "n = cur e'" "cur e < cur e'" using claim_write_cases [OF law w] that by blast+
    moreover have "0 \<le> cur e" using law by (simp add: etcd_law_def)
    ultimately show ?thesis by simp
  qed
  then have "\<forall>x. r = Inr x \<longrightarrow> (\<forall>n. x = Some n \<longrightarrow> 0 < n)" by blast
  moreover have "store_budget (en_settings env) (en_codec env) view e'"
    using claim_write_cases [OF law w]
    by (elim disjE conjE) (rule store_budget_same [OF e], assumption, rule store_budget_write [OF e _ c budget_envD(2) [OF env]])
  ultimately show "store_budget (en_settings env) (en_codec env) view e' \<and> (\<forall>x. r = Inr x \<longrightarrow> (\<forall>n. x = Some n \<longrightarrow> 0 < n))"
    by blast
qed

lemma delete_keeps [keeps]:
  assumes "budget_env env view cur" "0 < sc_mod_revision s"
  shows "pkeeps (budget_inv env view k) (call_etcd env (claim_delete (en_api env) s))"
proof (rule call_keeps [OF assms(1)])
  fix e r e' assume "store_budget (en_settings env) (en_codec env) view e" "claim_delete (en_api env) s e = (r, e')"
  then show "store_budget (en_settings env) (en_codec env) view e'"
    using claim_delete_cases [OF budget_envD(1) [OF assms(1)] assms(2)] store_budget_same store_budget_drop by metis
qed

lemma read_record_same:
  assumes law: "etcd_law api view cur" and "get_record api key e = (r, e')"
  shows "view e' = view e" "r = Inr (Some rec) \<Longrightarrow> view e (utf8_encode key) = Some (er_value rec, er_mod_revision rec, er_lease_id rec)"
proof -
  let ?k = "utf8_encode key"
  obtain q e2 where q: "api_range api (JObj [(''key'', JStr (etcd_encode ?k))]) e = (q, e2)" by fastforce
  have "range_law api view cur" using law by (simp add: etcd_law_def)
  then have rng: "view e2 = view e \<and> (\<forall>j. q = Inr j \<longrightarrow> parse_get_record ?k j = Inr (stored_record view e ?k))"
    using q unfolding range_law_def by blast
  have res: "e' = e2" "r = (case q of Inl err \<Rightarrow> Inl err | Inr j \<Rightarrow> parse_get_record ?k j)"
    using assms(2) q by (cases q; simp add: get_record_def then_parse_def Let_def)+
  show "view e' = view e" using rng res by simp
  show "r = Inr (Some rec) \<Longrightarrow> view e ?k = Some (er_value rec, er_mod_revision rec, er_lease_id rec)"
    using rng res by (cases q) (auto simp: stored_record_def)
qed

lemma claim_get_cases:
  assumes "claim_get cc api h e = (r, e')" "get_record api (claim_key h) e = (q, e2)"
  shows "e' = e2" "r = Inr (Some s) \<Longrightarrow> \<exists>rec. q = Inr (Some rec) \<and> cc_parse cc (er_value rec) = Some (sc_claim s)"
proof -
  show "e' = e2" using assms by (auto simp: claim_get_def split: sum.splits option.splits if_splits)
  show "r = Inr (Some s) \<Longrightarrow> \<exists>rec. q = Inr (Some rec) \<and> cc_parse cc (er_value rec) = Some (sc_claim s)"
    using assms by (auto simp: claim_get_def split: sum.splits option.splits if_splits)
qed

lemma claim_get_triple:
  assumes env: "budget_env env view cur"
  shows "ptriple (budget_inv env view k) (call_etcd env (claim_get (en_codec env) (en_api env) h))
     (\<lambda>r w. budget_inv env view k w \<and> (\<forall>s. r = Some s \<longrightarrow> claim_budget (en_settings env) (sc_claim s))) (budget_inv env view k)"
proof (rule call_triple [OF env])
  fix e r e' assume e: "store_budget (en_settings env) (en_codec env) view e"
    and g: "claim_get (en_codec env) (en_api env) h e = (r, e')"
  obtain q e2 where q: "get_record (en_api env) (claim_key h) e = (q, e2)" by fastforce
  note same = read_record_same [OF budget_envD(1) [OF env] q]
  have "claim_budget (en_settings env) (sc_claim s)" if "r = Inr (Some s)" for s
    using claim_get_cases(2) [OF g q that] same(2) e unfolding store_budget_def by blast
  then show "store_budget (en_settings env) (en_codec env) view e' \<and>
      (\<forall>x. r = Inr x \<longrightarrow> (\<forall>s. x = Some s \<longrightarrow> claim_budget (en_settings env) (sc_claim s)))"
    using store_budget_same [OF e same(1)] claim_get_cases(1) [OF g q] by auto
qed

text \<open>Listing: everything listed is within the budget and was read at a positive revision.\<close>

lemma split_claims_mem:
  "split_claims cc recs = Some (claims, unreadable) \<Longrightarrow> s \<in> set claims \<Longrightarrow>
     \<exists>rec \<in> set recs. cc_parse cc (er_value rec) = Some (sc_claim s) \<and> sc_mod_revision s = er_mod_revision rec"
proof (induction recs arbitrary: claims unreadable)
  case (Cons rec recs)
  obtain key cs us where tail: "utf8_decode (er_key rec) = Some key" "split_claims cc recs = Some (cs, us)"
    using Cons.prems(1) by (auto split: option.splits)
  then have "claims = cs \<or> (\<exists>c. cc_parse cc (er_value rec) = Some c \<and> claims = \<lparr>sc_claim = c, sc_mod_revision = er_mod_revision rec\<rparr> # cs)"
    using Cons.prems(1) by (auto simp: Let_def split: option.splits if_splits)
  then show ?case using Cons.IH [OF tail(2)] Cons.prems(2) by auto
qed simp

lemma claims_list_triple:
  assumes env: "budget_env env view cur"
  shows "ptriple (budget_inv env view k) (claims_list env)
     (\<lambda>r w. budget_inv env view k w \<and> (\<forall>s \<in> set (fst r). good_stored env s)) (budget_inv env view k)"
proof -
  let ?Q = "\<lambda>r. \<forall>claims unreadable. r = Some (claims, unreadable) \<longrightarrow> (\<forall>s \<in> set claims. good_stored env s)"
  note law = budget_envD(1) [OF env]
  have call: "ptriple (budget_inv env view k) (call_etcd env (claim_list (en_codec env) (en_api env)))
      (\<lambda>x w. budget_inv env view k w \<and> ?Q x) (budget_inv env view k)"
  proof (rule call_triple [OF env])
    fix e r e' assume e: "store_budget (en_settings env) (en_codec env) view e"
      and l: "claim_list (en_codec env) (en_api env) e = (r, e')"
    obtain q e2 where q: "get_snapshot (en_api env) (Some CLAIM_PREFIX) e = (q, e2)" by fastforce
    note snap = snapshot_read [OF law q]
    have "e' = e2" using l q by (auto simp: claim_list_def split: sum.splits)
    moreover have "good_stored env s" if r: "r = Inr (Some (claims, unreadable))" and s: "s \<in> set claims" for claims unreadable s
    proof -
      obtain sn where sn: "q = Inr sn" "split_claims (en_codec env) (es_records sn) = Some (claims, unreadable)"
        using l q r by (auto simp: claim_list_def split: sum.splits)
      obtain rec where rec: "rec \<in> set (es_records sn)" "cc_parse (en_codec env) (er_value rec) = Some (sc_claim s)"
        "sc_mod_revision s = er_mod_revision rec"
        using split_claims_mem [OF sn(2) s] by blast
      have "view e (er_key rec) = Some (er_value rec, er_mod_revision rec, er_lease_id rec)"
        using snap(3) [OF sn(1) rec(1)] by (cases rec) (auto simp: stored_record_def)
      then show ?thesis using e rec(2,3) law unfolding store_budget_def etcd_law_def by metis
    qed
    ultimately show "store_budget (en_settings env) (en_codec env) view e' \<and> (\<forall>x. r = Inr x \<longrightarrow> ?Q x)"
      using store_budget_same [OF e snap(1)] by blast
  qed
  show ?thesis
    unfolding claims_list_def decoded_def
  proof (rule ptriple_bind [OF call])
    fix x
    show "ptriple (\<lambda>w. budget_inv env view k w \<and> ?Q x) (case x of None \<Rightarrow> praise ''UnicodeDecodeError'' | Some y \<Rightarrow> preturn y)
        (\<lambda>r w. budget_inv env view k w \<and> (\<forall>s \<in> set (fst r). good_stored env s)) (budget_inv env view k)"
      by (cases x) (auto intro!: ptriple_return ptriple_raise)
  qed
qed

lemma claims_list_keeps [keeps]: "budget_env env view cur \<Longrightarrow> pkeeps (budget_inv env view k) (claims_list env)"
  unfolding pkeeps_def by (rule ptriple_conseq [OF claims_list_triple]) auto

lemma suspensions_list_keeps [keeps]: "budget_env env view cur \<Longrightarrow> pkeeps (budget_inv env view k) (suspensions_list env)"
  unfolding suspensions_list_def decoded_def
proof (intro keeps call_keeps)
  fix e r e' assume env: "budget_env env view cur" and e: "store_budget (en_settings env) (en_codec env) view e"
    and l: "suspension_list (en_api env) e = (r, e')"
  obtain q e2 where q: "get_snapshot (en_api env) (Some SUSPENSION_PREFIX) e = (q, e2)" by fastforce
  have "e' = e2" using l q by (auto simp: suspension_list_def split: sum.splits)
  then show "store_budget (en_settings env) (en_codec env) view e'"
    using store_budget_same [OF e snapshot_read(1) [OF budget_envD(1) [OF env] q]] by simp
qed

lemma budget_frame [simp]:
  "budget_inv env view k (w\<lparr>w_life := a\<rparr>) = budget_inv env view k w"
  "budget_inv env view k (w\<lparr>w_gw := b\<rparr>) = budget_inv env view k w"
  "budget_inv env view k (w\<lparr>w_owned := c\<rparr>) = budget_inv env view k w"
  "budget_inv env view k (w\<lparr>w_deferred := d\<rparr>) = budget_inv env view k w"
  "budget_inv env view k (w\<lparr>w_refused := f\<rparr>) = budget_inv env view k w"
  "budget_inv env view k (w\<lparr>w_tasks := g\<rparr>) = budget_inv env view k w"
  "budget_inv env view k (w\<lparr>w_launches := h\<rparr>) = budget_inv env view k w"
  "budget_inv env view k (w\<lparr>w_fenced := i\<rparr>) = budget_inv env view k w"
  by (simp_all add: budget_inv_def)

lemma rewrite_triple:
  assumes env: "budget_env env view cur" and "good_stored env s"
    and c: "claim_budget (en_settings env) (changes (sc_claim s))"
  shows "ptriple (budget_inv env view k) (rewrite env s now changes)
    (\<lambda>s' w. budget_inv env view k w \<and> good_stored env s') (budget_inv env view k)"
  unfolding rewrite_def Let_def claim_update_def
proof (rule ptriple_bind [OF write_triple [OF env]])
  have c': "claim_budget (en_settings env) ((changes (sc_claim s))\<lparr>cl_updated_at := now\<rparr>)"
    using c by (simp add: claim_budget_def)
  then show "claim_budget (en_settings env) ((changes (sc_claim s))\<lparr>cl_updated_at := now\<rparr>)" .
  show "ptriple (\<lambda>w. budget_inv env view k w \<and> (\<forall>n. x = Some n \<longrightarrow> 0 < n))
      (preturn (case x of None \<Rightarrow> s | Some r \<Rightarrow> \<lparr>sc_claim = (changes (sc_claim s))\<lparr>cl_updated_at := now\<rparr>, sc_mod_revision = r\<rparr>))
      (\<lambda>s' w. budget_inv env view k w \<and> good_stored env s') (budget_inv env view k)" for x
    using assms(2) c' by (cases x) (auto intro!: ptriple_return)
qed

lemma rewrite_keeps [keeps]:
  "budget_env env view cur \<Longrightarrow> good_stored env s \<Longrightarrow> claim_budget (en_settings env) (changes (sc_claim s)) \<Longrightarrow>
   pkeeps (budget_inv env view k) (rewrite env s now changes)"
  unfolding pkeeps_def by (rule ptriple_conseq [OF rewrite_triple]) auto

lemma cleanup_keeps [keeps]:
  assumes env: "budget_env env view cur"
  shows "pkeeps (budget_inv env view k) (cleanup_stale_node env h)"
  unfolding cleanup_stale_node_def
proof (intro keeps call_keeps [OF env])
  fix e r e' assume e: "store_budget (en_settings env) (en_codec env) view e"
    and d: "delete_key (en_api env) (api_prefix (en_api env) @ h) e = (r, e')"
  show "store_budget (en_settings env) (en_codec env) view e'"
    using budget_envD(5) [OF env d [unfolded delete_key_def]] store_budget_same [OF e] store_budget_drop [OF e] by blast
qed simp

lemma try_reserve_keeps [keeps]: "pkeeps (budget_inv env view k) (try_reserve_host h)"
  by (rule pkeepsI) (auto simp: try_reserve_host_def split: prod.splits bool.splits)

lemma release_lease_keeps [simp]: "budget_inv env view k (release_lease i w) = budget_inv env view k w"
  by (simp add: release_lease_def)

lemma clear_own_node_keeps [keeps]: "budget_env env view cur \<Longrightarrow> pkeeps (budget_inv env view k) (clear_own_node env c)"
  unfolding clear_own_node_def by (intro keeps) simp_all

lemma drop_claim_keeps [keeps]:
  "budget_env env view cur \<Longrightarrow> 0 < sc_mod_revision s \<Longrightarrow> pkeeps (budget_inv env view k) (drop_claim env s)"
  unfolding drop_claim_def by (intro keeps)

lemma drop_claim_triple:
  assumes "budget_env env view cur" "good_stored env s"
  shows "ptriple (budget_inv env view k) (drop_claim env s)
    (\<lambda>r w. budget_inv env view k w \<and> (\<forall>s'. r = Some s' \<longrightarrow> good_stored env s')) (budget_inv env view k)"
  unfolding drop_claim_def
  by (rule ptriple_bind [OF delete_keeps [OF assms(1), unfolded pkeeps_def]]) (use assms(2) in \<open>auto intro!: ptriple_return\<close>)

lemma release_failed_keeps [keeps]:
  "budget_env env view cur \<Longrightarrow> 0 < sc_mod_revision s \<Longrightarrow> pkeeps (budget_inv env view k) (release_failed_claim env s)"
  unfolding release_failed_claim_def by (intro keeps)

abbreviation settled_post :: "'e renv \<Rightarrow> 'e key_view \<Rightarrow> nat \<Rightarrow> StoredClaim option \<Rightarrow> 'e rworld \<Rightarrow> bool" where
  "settled_post env view k r w \<equiv> budget_inv env view k w \<and> (\<forall>s'. r = Some s' \<longrightarrow> good_stored env s')"

lemma again_triple:
  assumes "budget_env env view cur" "good_stored env s" "claim_budget (en_settings env) (changes (sc_claim s))"
  shows "ptriple (budget_inv env view k) (pbind (rewrite env s now changes) (\<lambda>s'. preturn (Some s')))
    (settled_post env view k) (budget_inv env view k)"
  by (rule ptriple_bind [OF rewrite_triple [where changes = changes, OF assms]]) (auto intro!: ptriple_return)

lemma settle_triple:
  assumes env: "budget_env env view cur" and s: "good_stored env s"
  shows "ptriple (budget_inv env view k) (settle_claim env s available now) (settled_post env view k) (budget_inv env view k)"
proof -
  have pos: "1 \<le> ps_max_attempts (en_settings env)" by (rule budget_envD(3) [OF env])
  show ?thesis
    unfolding settle_claim_def Let_def node_at_def
    by (intro ptriple_read_bind ptriple_if ptriple_option drop_claim_triple [OF env s] again_triple [OF env s]
        ptriple_keeps_bind [OF clear_own_node_keeps [OF env]] ptriple_return)
      (use s pos in \<open>auto simp: claim_budget_def\<close>)
qed

section \<open>Owned claims stay within the budget\<close>

lemma update_or_fail_triple:
  assumes env: "budget_env env view cur" and c: "claim_budget (en_settings env) c"
  shows "ptriple (budget_inv env view k) (update_or_fail env s c) (\<lambda>_. budget_inv env view k) (budget_inv env view k)"
  unfolding update_or_fail_def claim_update_def
  by (rule ptriple_try [OF ptriple_bind [OF write_triple [OF env c]]]) (auto intro!: ptriple_return)

lemma own_current_triple:
  assumes env: "budget_env env view cur"
  shows "ptriple (budget_inv env view k) (own_current env i written)
    (\<lambda>r w. budget_inv env view k w \<and> (\<forall>s. r = Some s \<longrightarrow> claim_budget (en_settings env) (sc_claim s))) (budget_inv env view k)"
  unfolding own_current_def
proof (intro ptriple_try ptriple_read_bind)
  show "ptriple (budget_inv env view k)
      (pbind (call_etcd env (claim_get (en_codec env) (en_api env) h)) (\<lambda>current.
        pread (\<lambda>w. case current of None \<Rightarrow> None
         | Some s \<Rightarrow> if sc_claim s = written then Some s
             else if sc_claim s = (sc_claim (oc_stored (owned_at i w)))
                       \<lparr>cl_heartbeat_at := cl_heartbeat_at (sc_claim s), cl_updated_at := cl_updated_at (sc_claim s)\<rparr>
             then Some s else None)))
      (\<lambda>r w. budget_inv env view k w \<and> (\<forall>s. r = Some s \<longrightarrow> claim_budget (en_settings env) (sc_claim s))) (budget_inv env view k)" for h
    by (rule ptriple_bind [OF claim_get_triple [OF env]]) (auto intro!: ptriple_read split: option.splits if_splits)
qed (auto intro: ptriple_return)

lemma finished_budget:
  assumes "claim_budget cfg c" "1 \<le> ps_max_attempts cfg"
  shows "claim_budget cfg (finished_claim cfg c error counted now)"
  using assms by (auto simp: finished_claim_def claim_budget_def Let_def split: option.splits)

lemma owned_budget: "budget_inv env view (Suc i) w \<Longrightarrow> claim_budget (en_settings env) (sc_claim (oc_stored (owned_at i w)))"
  by (simp add: budget_inv_def owned_at_def)

lemma on_owned_budget:
  assumes "budget_inv env view k w" "\<And>x. claim_budget (en_settings env) (sc_claim (oc_stored x)) \<Longrightarrow>
      claim_budget (en_settings env) (sc_claim (oc_stored (f x)))"
  shows "budget_inv env view k (on_owned i f w)"
proof (cases "i < length (w_owned_heap w)")
  case True
  then show ?thesis
    using assms unfolding budget_inv_def on_owned_def
    by (auto dest!: in_set_conv_nth [THEN iffD1] simp: nth_list_update)
next
  case False
  then show ?thesis using assms(1) by (simp add: on_owned_def list_update_beyond)
qed

lemma ptriple_owned:
  assumes "\<And>x. claim_budget (en_settings env) (sc_claim (oc_stored x)) \<Longrightarrow> ptriple (budget_inv env view (Suc i)) (g x) Q E"
  shows "ptriple (budget_inv env view (Suc i)) (pbind (pread (owned_at i)) g) Q E"
proof -
  have "ptriple (budget_inv env view (Suc i)) (pread (owned_at i))
      (\<lambda>x w. budget_inv env view (Suc i) w \<and> claim_budget (en_settings env) (sc_claim (oc_stored x))) E"
    by (rule ptriple_read) (simp add: owned_budget)
  then show ?thesis
  proof (rule ptriple_bind)
    show "ptriple (\<lambda>w. budget_inv env view (Suc i) w \<and> claim_budget (en_settings env) (sc_claim (oc_stored x))) (g x) Q E" for x
      using assms [of x] by (cases "claim_budget (en_settings env) (sc_claim (oc_stored x))") (auto simp: ptriple_def)
  qed
qed

lemma final_write_triple:
  assumes env: "budget_env env view cur" and u: "claim_budget (en_settings env) u"
  shows "ptriple (budget_inv env view k) (final_write env i stored u) (\<lambda>_. budget_inv env view k) (budget_inv env view k)"
proof -
  let ?I = "budget_inv env view k"
  note wr = update_or_fail_triple [OF env u]
  have again: "ptriple ?I (pbind (update_or_fail env s u) (\<lambda>(r, f). preturn (r, if f \<noteq> None then f else failure))) (\<lambda>_. ?I) ?I" for s failure
    by (rule ptriple_bind [OF wr]) (auto intro!: ptriple_return split: prod.split)
  have own: "ptriple ?I (own_current env i u) (\<lambda>_. ?I) ?I"
    by (rule ptriple_conseq [OF own_current_triple [OF env]]) auto
  show ?thesis
    unfolding final_write_def
    by (rule ptriple_bind [OF wr])
      (auto split!: prod.split intro!: ptriple_if ptriple_return ptriple_bind [OF own] ptriple_option again)
qed

lemma finish_keeps [keeps]:
  assumes env: "budget_env env view cur"
  shows "pkeeps (budget_inv env view (Suc i)) (finish env i error counted)"
  unfolding pkeeps_def finish_def Let_def
proof (intro ptriple_keeps_bind [OF clock_keeps] ptriple_owned)
  fix now x assume x: "claim_budget (en_settings env) (sc_claim (oc_stored x))"
  note u = finished_budget [OF x budget_envD(3) [OF env], of error counted now]
  show "ptriple (budget_inv env view (Suc i))
    (pbind (final_write env i (oc_stored x) (finished_claim (en_settings env) (sc_claim (oc_stored x)) error counted now))
      (\<lambda>(revision, failure). pwrite (\<lambda>w. case revision of
         Some r \<Rightarrow> on_owned i (\<lambda>o'. o'\<lparr>oc_stored := \<lparr>sc_claim = finished_claim (en_settings env) (sc_claim (oc_stored x)) error counted now, sc_mod_revision = r\<rparr>\<rparr>) w
       | None \<Rightarrow> if failure \<noteq> None then w else on_owned i (\<lambda>o'. o'\<lparr>oc_lost := True\<rparr>) w)))
    (\<lambda>_. budget_inv env view (Suc i)) (budget_inv env view (Suc i))"
    by (rule ptriple_bind [OF final_write_triple [OF env u]])
      (auto split!: prod.split intro!: ptriple_write on_owned_budget simp: u split: option.split)
qed

lemma heartbeat_keeps [keeps]:
  assumes env: "budget_env env view cur"
  shows "pkeeps (budget_inv env view (Suc i)) (heartbeat_once env i)"
  unfolding pkeeps_def heartbeat_once_def Let_def
proof (intro ptriple_owned ptriple_if ptriple_return ptriple_keeps_bind [OF clock_keeps], assumption, goal_cases beat)
  case (beat x now)
  let ?I = "budget_inv env view (Suc i)" and ?c = "(sc_claim (oc_stored x))\<lparr>cl_heartbeat_at := now, cl_updated_at := now\<rparr>"
  have c: "claim_budget (en_settings env) ?c" using beat(1) by (simp add: claim_budget_def)
  show ?case
    by (rule ptriple_bind [OF update_or_fail_triple [OF env c]])
      (auto split!: prod.split simp: c intro!: ptriple_option ptriple_if ptriple_return ptriple_write on_owned_budget
        ptriple_bind_pure [OF own_current_triple [OF env]]
        ptriple_keeps_bind [where f = "pwrite f" for f, OF pkeeps_write])
qed

lemma forget_owned_keeps [simp]: "budget_inv env view k (forget_owned h i w) = budget_inv env view k w"
  by (simp add: forget_owned_def)

lemma run_owned_end_keeps [keeps]:
  "budget_env env view cur \<Longrightarrow> pkeeps (budget_inv env view (Suc i)) (run_owned_end env i outcome)"
  unfolding run_owned_end_def Let_def by (intro keeps) simp_all

lemma reset_claim_keeps [keeps]:
  assumes env: "budget_env env view cur"
  shows "pkeeps (budget_inv env view k) (reset_claim env h)"
  unfolding pkeeps_def reset_claim_def
proof (rule ptriple_bind_pure [OF claims_list_triple [OF env]], clarsimp split: prod.split, goal_cases found)
  case (found claims)
  have "good_stored env s" if "find (\<lambda>s. cl_hostname (sc_claim s) = h) claims = Some s" for s
    using that found by (metis find_Some_iff nth_mem)
  then show ?case
    by (intro ptriple_option ptriple_if ptriple_return ptriple_raise
        ptriple_keeps_bind [OF release_failed_keeps [OF env]]) auto
qed

section \<open>Launches stay within the budget\<close>

lemma stored_node_keeps [keeps]:
  assumes env: "budget_env env view cur"
  shows "pkeeps (budget_inv env view k) (stored_node env h)"
  unfolding stored_node_def
proof (intro keeps call_keeps [OF env])
  fix e r e' assume e: "store_budget (en_settings env) (en_codec env) view e"
    and g: "get_record (en_api env) (api_prefix (en_api env) @ h) e = (r, e')"
  show "store_budget (en_settings env) (en_codec env) view e'"
    by (rule store_budget_same [OF e read_record_same(1) [OF budget_envD(1) [OF env] g]])
qed

lemma launch_blocker_keeps [keeps]:
  "budget_env env view cur \<Longrightarrow> pkeeps (budget_inv env view k) (launch_blocker env h existing)"
  unfolding launch_blocker_def remote_work_blocker_def host_is_powered_off_def stored_node_blocker_def
  by (intro keeps)

lemma launch_refusal_keeps [keeps]:
  "budget_env env view cur \<Longrightarrow> pkeeps (budget_inv env view k) (launch_refusal env h)"
  unfolding launch_refusal_def pending_move_blocker_def by (intro keeps)

lemma set_deferred_keeps [keeps]: "pkeeps (budget_inv env view k) (set_deferred h t r)"
  unfolding set_deferred_def by (intro keeps) simp

lemma ready_candidates_keeps [keeps]:
  "budget_env env view cur \<Longrightarrow> pkeeps (budget_inv env view k) (ready_candidates env candidates)"
  unfolding ready_candidates_def ready_check_def Let_def
  by (intro keeps)

lemma candidates_loop_keeps:
  "candidates_loop env available blocked planned now moves hs w = (cs, skipped, w') \<Longrightarrow>
     budget_inv env view k w \<Longrightarrow> budget_inv env view k w'"
  by (induction hs arbitrary: w cs skipped w')
    (auto simp: Let_def split: option.splits if_splits prod.splits)

lemma find_candidates_keeps [keeps]: "pkeeps (budget_inv env view k) (find_candidates env available blocked planned now moves)"
  by (rule pkeepsI) (auto simp: find_candidates_def Let_def split: prod.splits dest: candidates_loop_keeps)

lemma fire_background_keeps [keeps]: "pkeeps (budget_inv env view k) (fire_background env h)"
  by (rule pkeepsI) (simp add: fire_background_def)

lemma hand_over_keeps [keeps]:
  assumes "budget_env env view cur"
  shows "pkeeps (budget_inv env view (Suc i)) (hand_over env resolved c lease i)"
proof -
  have fired: "pkeeps (budget_inv env view (Suc i))
      (case r of Fired \<Rightarrow> f | AtCapacity \<Rightarrow> g | FireFailed err \<Rightarrow> h err)"
    if "pkeeps (budget_inv env view (Suc i)) f" "pkeeps (budget_inv env view (Suc i)) g"
      "\<And>err. pkeeps (budget_inv env view (Suc i)) (h err)" for r f g and h :: "string \<Rightarrow> ('a, bool) rpass"
    using that by (cases r) auto
  show ?thesis
    unfolding hand_over_def Let_def
    by (cases "runtime_request (rp_profile resolved) (ps_reserve_mib (en_settings env)) (rp_draft_artifact_id resolved) (cl_gpu_class c)")
      (use assms in \<open>auto intro!: keeps fired\<close>)
qed

text \<open>A launch counts one more attempt, and only below the limit.\<close>

lemma launch_claim_budget:
  assumes "1 \<le> ps_max_attempts (en_settings env)"
    and "\<And>s. existing = Some s \<Longrightarrow> 0 \<le> cl_attempts (sc_claim s) \<and> cl_attempts (sc_claim s) < ps_max_attempts (en_settings env)"
  shows "claim_budget (en_settings env) (launch_claim env resolved h gpu existing now uuid)"
  using assms by (cases existing) (auto simp: claim_budget_def launch_claim_def)

lemma budget_inv_mono: "budget_inv env view i w \<Longrightarrow> k \<le> i \<Longrightarrow> budget_inv env view k w"
  by (simp add: budget_inv_def)

lemma write_claim_keeps [keeps]:
  assumes "budget_env env view cur" "claim_budget (en_settings env) c"
  shows "pkeeps (budget_inv env view k) (write_claim env existing c)"
  unfolding write_claim_def claim_update_def claim_create_def pkeeps_def
  by (intro ptriple_option ptriple_conseq [OF write_triple [OF assms]]) auto

text \<open>The new owned claim is object number \<open>i\<close>: what follows works on it.\<close>

lemma own_new_triple:
  assumes env: "budget_env env view cur" and c: "claim_budget (en_settings env) (sc_claim (oc_stored x))"
    and f: "\<And>i. pkeeps (budget_inv env view (Suc i)) (f i)"
  shows "ptriple (budget_inv env view k)
    (pbind (pread (\<lambda>w. length (w_owned_heap w))) (\<lambda>i. pbind (pwrite (\<lambda>w. w\<lparr>w_owned_heap := w_owned_heap w @ [x]\<rparr>)) (\<lambda>_. f i)))
    (\<lambda>_. budget_inv env view k) (budget_inv env view k)"
  unfolding ptriple_def
proof (intro allI impI)
  fix w assume w: "budget_inv env view k w"
  let ?i = "length (w_owned_heap w)" and ?w = "w\<lparr>w_owned_heap := w_owned_heap w @ [x]\<rparr>"
  have "budget_inv env view (Suc ?i) ?w" and le: "k \<le> Suc ?i" using w c by (auto simp: budget_inv_def)
  then have "budget_inv env view k (snd (f ?i ?w))" using pkeepsD [OF f] budget_inv_mono by blast
  then show "case pbind (pread (\<lambda>w. length (w_owned_heap w))) (\<lambda>i. pbind (pwrite (\<lambda>w. w\<lparr>w_owned_heap := w_owned_heap w @ [x]\<rparr>)) (\<lambda>_. f i)) w of
      (Inl _, w') \<Rightarrow> budget_inv env view k w' | (Inr _, w') \<Rightarrow> budget_inv env view k w'"
    by (cases "f ?i ?w"; cases "fst (f ?i ?w)") (auto simp: pass_defs)
qed

lemma claim_and_start_keeps [keeps]:
  assumes env: "budget_env env view cur"
    and old: "\<And>s. existing = Some s \<Longrightarrow> 0 \<le> cl_attempts (sc_claim s) \<and> cl_attempts (sc_claim s) < ps_max_attempts (en_settings env)"
  shows "pkeeps (budget_inv env view k) (claim_and_start env resolved h gpu existing lease)"
proof -
  note c = launch_claim_budget [where resolved = resolved and h = h and gpu = gpu, OF budget_envD(3) [OF env] old]
  have start: "pkeeps (budget_inv env view k)
      (pbind (pread (\<lambda>w. length (w_owned_heap w))) (\<lambda>i. pbind (pwrite (\<lambda>w. w\<lparr>w_owned_heap := w_owned_heap w @ [x]\<rparr>)) (\<lambda>_. pbind
        (case node of None \<Rightarrow> preturn () | Some n \<Rightarrow> if is_free_pool_node n then preturn () else cleanup_stale_node env h)
        (\<lambda>_. hand_over env resolved c' lease i))))"
    if "claim_budget (en_settings env) (sc_claim (oc_stored x))" for x node c'
    unfolding pkeeps_def by (rule own_new_triple [OF env that]) (intro keeps; rule env)
  show ?thesis
    unfolding claim_and_start_def Let_def
    by ((rule start | rule write_claim_keeps [OF env c] | rule keeps | (simp add: c; fail))+)
qed

lemma launch_under_lease_keeps [keeps]:
  assumes env: "budget_env env view cur" and s: "\<And>s. existing = Some s \<Longrightarrow> good_stored env s"
  shows "pkeeps (budget_inv env view k) (launch_under_lease env resolved h gpu existing lease)"
  unfolding launch_under_lease_def Let_def
  by (intro keeps; (rule env | (use s in \<open>force simp: claim_budget_def\<close>)))

lemma launch_host_keeps [keeps]:
  assumes env: "budget_env env view cur" and s: "\<And>s. existing = Some s \<Longrightarrow> good_stored env s"
  shows "pkeeps (budget_inv env view k) (launch_host env resolved h gpu existing)"
proof -
  have "pkeeps (budget_inv env view k) (\<lambda>w. case launch_under_lease env resolved h gpu existing i w of
      (Inr True, w') \<Rightarrow> (Inr True, w') | (r, w') \<Rightarrow> (r, release_lease i w'))" for i
  proof (rule pkeepsI)
    fix w assume "budget_inv env view k w"
    then have "budget_inv env view k (snd (launch_under_lease env resolved h gpu existing i w))"
      by (rule pkeepsD [rotated]) (rule launch_under_lease_keeps [OF env s])
    then show "budget_inv env view k (snd (case launch_under_lease env resolved h gpu existing i w of
        (Inr True, w') \<Rightarrow> (Inr True, w') | (r, w') \<Rightarrow> (r, release_lease i w')))"
      by (auto split: prod.split sum.split bool.split)
  qed
  then show ?thesis unfolding launch_host_def by (intro keeps)
qed

section \<open>A pass keeps the budget\<close>

lemma retry_step_keeps [keeps]:
  assumes env: "budget_env env view cur" and s: "good_stored env stored"
  shows "pkeeps (budget_inv env view k) (retry_step env resolution available moves planned hosts now stored acc)"
  unfolding retry_step_def Let_def
  by (intro keeps; (rule env | (use s in simp)))

lemma assign_step_keeps [keeps]:
  assumes env: "budget_env env view cur"
  shows "pkeeps (budget_inv env view k) (assign_step env resolution classes a acc)"
  unfolding assign_step_def by (intro keeps; (rule env | simp))

lemma settle_step_triple:
  assumes env: "budget_env env view cur" and s: "good_stored env stored"
  shows "ptriple (\<lambda>w. budget_inv env view k w \<and> (\<forall>s \<in> set acc. good_stored env s)) (settle_step env suspended available now stored acc)
    (\<lambda>r w. budget_inv env view k w \<and> (\<forall>s \<in> set r. good_stored env s)) (budget_inv env view k)"
proof -
  have "ptriple (budget_inv env view k) (settle_step env suspended available now stored acc)
      (\<lambda>r w. budget_inv env view k w \<and> (\<forall>s \<in> set r. good_stored env s)) (budget_inv env view k)"
    if acc: "\<forall>s \<in> set acc. good_stored env s"
    unfolding settle_step_def
    by (intro ptriple_if ptriple_keeps_bind [OF node_at_keeps] ptriple_keeps_bind [OF drop_claim_keeps [OF env]]
        ptriple_bind_pure [OF settle_triple [OF env s]] ptriple_return)
      (use acc s in \<open>auto split: option.split\<close>)
  then show ?thesis by (auto simp: ptriple_def)
qed

lemma settle_fold_triple:
  assumes env: "budget_env env view cur" and s: "\<forall>s \<in> set claims. good_stored env s"
  shows "ptriple (budget_inv env view k) (pfold (settle_step env suspended available now) claims [])
    (\<lambda>r w. budget_inv env view k w \<and> (\<forall>s \<in> set r. good_stored env s)) (budget_inv env view k)"
proof -
  have "ptriple (\<lambda>w. budget_inv env view k w \<and> (\<forall>s \<in> set []. good_stored env s))
      (pfold (settle_step env suspended available now) claims [])
      (\<lambda>r w. budget_inv env view k w \<and> (\<forall>s \<in> set r. good_stored env s)) (budget_inv env view k)"
    by (rule ptriple_fold [where I = "\<lambda>acc w. budget_inv env view k w \<and> (\<forall>s \<in> set acc. good_stored env s)"])
      (use s in \<open>auto intro: settle_step_triple [OF env]\<close>)
  then show ?thesis by simp
qed

lemma place_keeps [keeps]:
  assumes env: "budget_env env view cur" and s: "\<forall>s \<in> set settled. good_stored env s"
  shows "pkeeps (budget_inv env view k) (place env resolution suspended available moves unreadable now settled)"
proof -
  have planned: "pkeeps I (case p of Inl err \<Rightarrow> f err | Inr plan \<Rightarrow> g plan)"
    if "\<And>err. pkeeps I (f err)" "\<And>plan. pkeeps I (g plan)" for I p f g
    using that by (cases p) auto
  show ?thesis
    unfolding place_def Let_def by (intro keeps planned; (rule env | (use s in simp)))
qed

lemma guarded_triple:
  assumes "ptriple I f (\<lambda>x w. I w \<and> B x) I" "\<And>x. B x \<Longrightarrow> ptriple I (g x) Q I" "\<And>err w. I w \<Longrightarrow> Q (on_error err) w"
  shows "ptriple I (guarded f on_error g) Q I"
  unfolding guarded_def
proof (rule ptriple_bind_pure)
  show "ptriple I (ptry (pbind f (\<lambda>x. preturn (Inr x))) (\<lambda>err. preturn (Inl err)))
      (\<lambda>r w. I w \<and> (\<forall>x. r = Inr x \<longrightarrow> B x)) I"
    by (rule ptriple_try [OF ptriple_bind [OF assms(1)]]) (auto intro!: ptriple_return)
  show "ptriple I (case r of Inl err \<Rightarrow> preturn (on_error err) | Inr x \<Rightarrow> g x) Q I" if "\<forall>x. r = Inr x \<longrightarrow> B x" for r
    using that assms(2,3) by (cases r) (auto intro: ptriple_return)
qed

lemma guarded_pure: "ptriple I f (\<lambda>x w. I w \<and> B x) I \<Longrightarrow> (\<And>x. B x \<Longrightarrow> pkeeps I (g x)) \<Longrightarrow> pkeeps I (guarded f on_error g)"
  unfolding pkeeps_def by (rule guarded_triple)

lemma guarded_keeps [keeps]: "pkeeps I f \<Longrightarrow> (\<And>x. pkeeps I (g x)) \<Longrightarrow> pkeeps I (guarded f on_error g)"
  by (rule guarded_pure [where B = "\<lambda>_. True"]) (simp_all add: pkeeps_def)

lemma reconcile_keeps:
  assumes env: "budget_env env view cur"
  shows "pkeeps (budget_inv env view k) (reconcile env)"
proof -
  let ?I = "budget_inv env view k"
  have claims: "ptriple ?I (pbind (suspensions_list env) (\<lambda>suspended. pbind (claims_list env) (\<lambda>claims. preturn (suspended, claims))))
      (\<lambda>x w. ?I w \<and> (\<forall>s \<in> set (fst (snd x)). good_stored env s)) ?I"
    by (intro ptriple_keeps_bind [OF suspensions_list_keeps [OF env]] ptriple_bind_pure [OF claims_list_triple [OF env]])
      (auto intro!: ptriple_return)
  have settled: "pkeeps ?I (pbind (pfold (settle_step env suspended available now) cs []) g)"
    if "\<forall>s \<in> set cs. good_stored env s" "\<And>settled. \<forall>s \<in> set settled. good_stored env s \<Longrightarrow> pkeeps ?I (g settled)" for suspended available now cs g
    using that unfolding pkeeps_def by (intro ptriple_bind_pure [OF settle_fold_triple [OF env]]) auto
  show ?thesis
    unfolding reconcile_def Let_def
    by ((rule guarded_pure [OF claims] | rule settled | rule keeps | rule env | (simp; fail) | (assumption))+)
qed

section \<open>What a pass may launch\<close>

definition policy_allows :: "'e renv \<Rightarrow> host \<Rightarrow> bool" where
  "policy_allows env h \<longleftrightarrow>
     h \<notin> set (ps_exclude_hosts (en_settings env)) \<and>
     (ps_only_hosts (en_settings env) \<noteq> [] \<longrightarrow> h \<in> set (ps_only_hosts (en_settings env)))"

lemma refusal_None: "policy_refusal env h host planned wanted = None \<Longrightarrow> policy_allows env h"
  by (auto simp: policy_refusal_def policy_allows_def split: if_splits)

lemma candidate_reason_None:
  assumes "candidate_reason env available planned now moves q w = (None, d)" "h = canonical_hostname (qh_hostname q)"
  shows "policy_allows env h \<and> h \<in> set available \<and> h \<notin> set moves"
  using assms refusal_None [of env h "Some q" planned None]
  by (auto simp: candidate_reason_def Let_def split: option.splits if_splits)

lemma candidates_loop_ok:
  "candidates_loop env available blocked planned now moves hs w = (cs, skipped, w') \<Longrightarrow> c \<in> set cs \<Longrightarrow>
     policy_allows env (ca_hostname c) \<and> ca_hostname c \<in> set available \<and> ca_hostname c \<notin> set moves \<and> \<not> blocked (ca_hostname c)"
proof (induction hs arbitrary: w cs skipped w')
  case (Cons q hs)
  let ?h = "canonical_hostname (qh_hostname q)"
  obtain reason d where r: "candidate_reason env available planned now moves q w = (reason, d)" by fastforce
  obtain cs1 sk1 w1 where tail: "candidates_loop env available blocked planned now moves hs w = (cs1, sk1, w1)" by (metis prod_cases3)
  obtain cs2 sk2 w2 where step: "candidates_loop env available blocked planned now moves hs (w\<lparr>w_deferred := d\<rparr>) = (cs2, sk2, w2)" by (metis prod_cases3)
  consider "cs = cs1" | "cs = cs2" | gpu where "reason = None" "\<not> blocked ?h" "cs = \<lparr>ca_hostname = ?h, ca_gpu_class = gpu\<rparr> # cs2"
    using Cons.prems(1) r tail step by (auto simp: Let_def split: option.splits if_splits)
  then show ?case
  proof cases
    case 1
    then show ?thesis using Cons.IH [OF tail] Cons.prems(2) by simp
  next
    case 2
    then show ?thesis using Cons.IH [OF step] Cons.prems(2) by simp
  next
    case 3
    then show ?thesis using Cons.IH [OF step] Cons.prems(2) candidate_reason_None [OF r [unfolded 3(1)] refl] by auto
  qed
qed simp

abbreviation anyw :: "'w \<Rightarrow> bool" where
  "anyw \<equiv> \<lambda>_. True"

lemma keeps_anyw: "pkeeps anyw f"
  by (simp add: pkeeps_def ptriple_def split: prod.split sum.split)

lemma anyw_bind: "(\<And>x. ptriple anyw (g x) Q anyw) \<Longrightarrow> ptriple anyw (pbind f g) Q anyw"
  by (rule ptriple_keeps_bind [OF keeps_anyw])

lemma find_candidates_ok:
  "ptriple anyw (find_candidates env available blocked planned now moves)
    (\<lambda>r w. True \<and> (\<forall>c \<in> set (fst r). policy_allows env (ca_hostname c) \<and> ca_hostname c \<in> set available \<and>
       ca_hostname c \<notin> set moves \<and> \<not> blocked (ca_hostname c))) anyw"
  by (auto simp: ptriple_def find_candidates_def Let_def split: prod.split dest: candidates_loop_ok)

lemma ready_subset:
  "ptriple anyw (ready_candidates env cs) (\<lambda>r w. True \<and> set (fst r) \<subseteq> set cs) anyw"
proof -
  have "ptriple (\<lambda>w. set (fst ([] :: Candidate list, [] :: SkippedHost list)) \<subseteq> set cs) (ready_candidates env cs) (\<lambda>r w. set (fst r) \<subseteq> set cs) anyw"
    unfolding ready_candidates_def
    by (rule ptriple_fold [where I = "\<lambda>acc w. set (fst acc) \<subseteq> set cs"])
      (auto simp: ptriple_def pass_defs split: prod.split sum.split option.split)
  then show ?thesis by simp
qed

text \<open>The budget pays for every start.\<close>

definition paid :: "'e renv \<Rightarrow> host list \<Rightarrow> host list \<Rightarrow> int \<Rightarrow> progress \<Rightarrow> bool" where
  "paid env available moves b = (\<lambda>(budget, started, skipped).
     int (length started) + max 0 budget = max 0 b \<and>
     (\<forall>h \<in> set started. policy_allows env h \<and> h \<in> set available \<and> h \<notin> set moves))"

lemma retry_step_paid:
  "ptriple (\<lambda>_. paid env available moves b acc) (retry_step env resolution available moves planned hosts now stored acc)
     (\<lambda>r _. paid env available moves b r) anyw"
proof -
  obtain budget started skipped where acc: "acc = (budget, started, skipped)" by (metis prod_cases3)
  let ?h = "cl_hostname (sc_claim stored)"
  have launched: "ptriple anyw (pbind f (\<lambda>ok. pread (\<lambda>w. if ok then (budget - 1, started @ [?h], skipped)
        else case dict_get (w_refused w) ?h of Some r \<Rightarrow> (budget, started, skipped @ [skip ?h r]) | None \<Rightarrow> (budget, started, skipped))))
      (\<lambda>r _. paid env available moves b r) anyw"
    if "paid env available moves b acc" "0 < budget" "policy_allows env ?h" "?h \<in> set available" "?h \<notin> set moves" for f :: "('e, bool) rpass"
    using that by (intro anyw_bind ptriple_read) (auto simp: acc paid_def split: option.split)
  show ?thesis
  proof (cases "paid env available moves b acc")
    case True
    have "ptriple anyw (retry_step env resolution available moves planned hosts now stored acc) (\<lambda>r _. paid env available moves b r) anyw"
      unfolding retry_step_def acc Let_def prod.case
      by (intro ptriple_if ptriple_option anyw_bind ptriple_return launched)
        (use True refusal_None in \<open>auto simp: acc paid_def split: option.split\<close>)
    then show ?thesis by (rule ptriple_conseq) auto
  qed (simp add: ptriple_def)
qed

lemma assign_step_paid:
  assumes "\<And>h gpu. dict_get classes h = Some gpu \<Longrightarrow> policy_allows env h \<and> h \<in> set available \<and> h \<notin> set moves"
  shows "ptriple (\<lambda>_. paid env available moves b acc) (assign_step env resolution classes a acc) (\<lambda>r _. paid env available moves b r) anyw"
proof (cases "paid env available moves b acc")
  case True
  obtain budget started skipped where acc: "acc = (budget, started, skipped)" by (metis prod_cases3)
  have "ptriple anyw (assign_step env resolution classes a acc) (\<lambda>r _. paid env available moves b r) anyw"
    unfolding assign_step_def acc prod.case
    by (intro ptriple_if ptriple_option anyw_bind ptriple_return ptriple_read ptriple_raise)
      (use True assms in \<open>auto simp: acc paid_def split: option.split\<close>)
  then show ?thesis by (rule ptriple_conseq) auto
qed (simp add: ptriple_def)

lemma paid_start: "paid env available moves b (b, [], skipped)"
  by (simp add: paid_def)

lemma foldl_dict_set_mem:
  "dict_get (foldl (\<lambda>d (k, v). dict_set k v d) d kvs) k = Some v \<Longrightarrow> (k, v) \<in> set kvs \<or> dict_get d k = Some v"
  by (induction kvs arbitrary: d) (fastforce split: if_splits)+

lemma class_hosts:
  "dict_get (dict_comp (map (\<lambda>c. (ca_hostname c, ca_gpu_class c)) cs)) h = Some gpu \<Longrightarrow> \<exists>c \<in> set cs. ca_hostname c = h"
  by (auto simp: dict_comp_def dest!: foldl_dict_set_mem)

lemma place_paid:
  "ptriple anyw (place env resolution suspended available moves unreadable now settled)
     (\<lambda>r _. \<exists>budget. paid env available moves (launch_budget env settled) (budget, snd r)) anyw"
proof -
  let ?b = "launch_budget env settled" and ?ok = "\<lambda>h. policy_allows env h \<and> h \<in> set available \<and> h \<notin> set moves"
  have folds: "ptriple anyw
      (pbind (pfold (retry_step env resolution available moves planned hosts now) settled (?b, [], skipped)) (\<lambda>progress.
       pbind (pfold (assign_step env resolution (dict_comp (map (\<lambda>c. (ca_hostname c, ca_gpu_class c)) cs))) as progress) (\<lambda>(budget, started, skipped).
       preturn (plan, started, skipped))))
      (\<lambda>r _. \<exists>budget. paid env available moves ?b (budget, snd r)) anyw"
    if "\<forall>c \<in> set cs. ?ok (ca_hostname c)" for planned hosts skipped cs as and plan :: PlacementPlan
  proof -
    have ok: "?ok h" if "dict_get (dict_comp (map (\<lambda>c. (ca_hostname c, ca_gpu_class c)) cs)) h = Some gpu" for h gpu
      using class_hosts [OF that] \<open>\<forall>c \<in> set cs. ?ok (ca_hostname c)\<close> by auto
    show ?thesis
    proof (rule ptriple_bind [where R = "\<lambda>acc _. paid env available moves ?b acc"])
      show "ptriple anyw (pfold (retry_step env resolution available moves planned hosts now) settled (?b, [], skipped))
          (\<lambda>acc _. paid env available moves ?b acc) anyw"
        by (rule ptriple_conseq [OF ptriple_fold [where I = "\<lambda>acc _. paid env available moves ?b acc", OF retry_step_paid]])
          (auto intro: paid_start)
      show "ptriple (\<lambda>_. paid env available moves ?b acc)
          (pbind (pfold (assign_step env resolution (dict_comp (map (\<lambda>c. (ca_hostname c, ca_gpu_class c)) cs))) as acc) (\<lambda>(budget, started, skipped).
             preturn (plan, started, skipped)))
          (\<lambda>r _. \<exists>budget. paid env available moves ?b (budget, snd r)) anyw" for acc
        by (rule ptriple_bind [OF ptriple_fold [where I = "\<lambda>acc _. paid env available moves ?b acc", OF assign_step_paid [OF ok]]])
          (auto split!: prod.split intro!: ptriple_return)
    qed
  qed
  have planned: "ptriple anyw (case plan_placements profiles held cs of Inl _ \<Rightarrow> praise err | Inr plan \<Rightarrow> g plan) Q anyw"
    if "\<And>plan. ptriple anyw (g plan) Q anyw" for profiles held cs err g and Q :: "'c \<Rightarrow> 'e rworld \<Rightarrow> bool"
    using that by (cases "plan_placements profiles held cs") (auto intro: ptriple_raise)
  have ready: "ptriple anyw (if go then ready_candidates env cs else preturn (cs, [])) (\<lambda>r w. True \<and> set (fst r) \<subseteq> set cs) anyw" for go cs
    using ready_subset by (auto intro: ptriple_return)
  show ?thesis
    unfolding place_def Let_def
    by (intro ptriple_read_bind ptriple_bind_pure [OF find_candidates_ok])
      (auto split!: prod.split intro!: ptriple_bind_pure [OF ready] planned folds)
qed

definition within_limits :: "'e renv \<Rightarrow> PlacementStatus \<Rightarrow> bool" where
  "within_limits env st \<longleftrightarrow>
     int (length (st_started st)) \<le> max 0 (ps_max_concurrent (en_settings env)) \<and>
     (\<forall>h \<in> set (st_started st). policy_allows env h \<and>
        (\<exists>n raw. en_available env n = Inr raw \<and> h \<in> canonical_hostname ` set raw) \<and>
        (\<exists>n moves. en_moves env n = Inr moves \<and> h \<notin> set moves))"

lemma ask_answer: "ptriple anyw (ask env answer) (\<lambda>x w. True \<and> (\<exists>n. answer n = Inr x)) anyw"
  by (auto simp: ptriple_def ask_def split: sum.split)

lemma anyw_guarded:
  "(\<And>x. ptriple anyw (g x) Q anyw) \<Longrightarrow> (\<And>err w. Q (on_error err) w) \<Longrightarrow> ptriple anyw (guarded f on_error g) Q anyw"
  by (rule guarded_triple [where B = "\<lambda>_. True"]) (simp_all add: ptriple_def split: prod.split sum.split)

lemma idle_limits: "st_started st = [] \<Longrightarrow> within_limits env st"
  by (simp add: within_limits_def)

lemma paid_limits:
  assumes "paid env (map canonical_hostname raw) moves (launch_budget env settled) (budget, started, skipped)"
    and "en_available env n = Inr raw" "en_moves env m = Inr moves" "st_started st = started"
  shows "within_limits env st"
proof -
  have "launch_budget env settled \<le> ps_max_concurrent (en_settings env)" by (simp add: launch_budget_def)
  then have "int (length started) \<le> max 0 (ps_max_concurrent (en_settings env))" using assms(1) by (auto simp: paid_def)
  then show ?thesis using assms by (fastforce simp: within_limits_def paid_def)
qed

lemma reconcile_limits: "ptriple anyw (reconcile env) (\<lambda>st _. within_limits env st) anyw"
proof -
  have place: "ptriple anyw (pbind (place env resolution suspended (map canonical_hostname raw) moves unreadable now settled)
      (\<lambda>(plan, started, skipped). pbind (claims_list env) (\<lambda>final.
         preturn (final_status env resolution suspended now plan started skipped final))))
      (\<lambda>st _. within_limits env st) anyw"
    if "\<exists>n. en_available env n = Inr raw" "\<exists>n. en_moves env n = Inr moves" for resolution suspended raw moves unreadable now settled
  proof (rule ptriple_bind [OF place_paid])
    fix r :: "PlacementPlan \<times> host list \<times> SkippedHost list"
    obtain plan started skipped where r: "r = (plan, started, skipped)" by (metis prod_cases3)
    have "within_limits env (final_status env resolution suspended now plan started skipped final)"
      if "paid env (map canonical_hostname raw) moves (launch_budget env settled) (budget, started, skipped)" for budget final
      using paid_limits [OF that] \<open>\<exists>n. en_available env n = Inr raw\<close> \<open>\<exists>n. en_moves env n = Inr moves\<close>
      by (auto simp: final_status_def Let_def split: prod.split)
    then show "ptriple (\<lambda>_. \<exists>budget. paid env (map canonical_hostname raw) moves (launch_budget env settled) (budget, snd r))
        (case r of (plan, started, skipped) \<Rightarrow> pbind (claims_list env) (\<lambda>final.
           preturn (final_status env resolution suspended now plan started skipped final)))
        (\<lambda>st _. within_limits env st) anyw"
      by (auto simp: r ptriple_def pass_defs split: prod.split sum.split)
  qed
  have idle: "within_limits env (failed_status (base_status env now) message missing claims)" for now message missing claims
    by (rule idle_limits) (simp add: failed_status_def base_status_def)
  have parts: "ptriple anyw (case x of (a, b, c) \<Rightarrow> g a b c) Q anyw" if "\<And>a b c. ptriple anyw (g a b c) Q anyw"
    for x g and Q :: "PlacementStatus \<Rightarrow> 'a rworld \<Rightarrow> bool"
    using that by (simp split: prod.split)
  have finish: "ptriple anyw (guarded (ask env (en_available env)) ea (\<lambda>raw. guarded (ask env (en_moves env)) em (\<lambda>moves.
         pbind (pfold (settle_step env suspended (map canonical_hostname raw) now) claims []) (\<lambda>settled.
         pbind (place env resolution suspended (map canonical_hostname raw) moves unreadable now settled) (\<lambda>(plan, started, skipped).
         pbind (claims_list env) (\<lambda>final. preturn (final_status env resolution suspended now plan started skipped final)))))))
      (\<lambda>st _. within_limits env st) anyw"
    if "\<And>err. within_limits env (ea err)" "\<And>err. within_limits env (em err)" for ea em suspended now claims resolution unreadable
    using that by (intro guarded_triple [OF ask_answer] anyw_bind place) auto
  show ?thesis
    unfolding reconcile_def Let_def
    by (intro anyw_bind anyw_guarded parts ptriple_option ptriple_return finish idle)
qed

text \<open>
  C2. Whatever else runs while a pass is suspended, a pass that returns a status has started at most
  \<open>max_concurrent\<close> provisions, and only on hosts that the operator's \<open>only_hosts\<close> and \<open>exclude_hosts\<close> lists allow, that
  QUADS reported free for the whole scheduling window and that were not in the pending moves it reported.
\<close>

theorem pass_respects_limits:
  assumes "reconcile env w = (Inr st, w')"
  shows "int (length (st_started st)) \<le> max 0 (ps_max_concurrent (en_settings env)) \<and>
    (\<forall>h \<in> set (st_started st).
       h \<notin> set (ps_exclude_hosts (en_settings env)) \<and>
       (ps_only_hosts (en_settings env) \<noteq> [] \<longrightarrow> h \<in> set (ps_only_hosts (en_settings env))) \<and>
       (\<exists>n raw. en_available env n = Inr raw \<and> h \<in> canonical_hostname ` set raw) \<and>
       (\<exists>n moves. en_moves env n = Inr moves \<and> h \<notin> set moves))"
  using ptripleD(1) [OF reconcile_limits TrueI assms refl] unfolding within_limits_def policy_allows_def by blast

lemma sample_pass: "map_sum id st_started (fst (reconcile (sample_env quiet_api) (sample_world ()))) = Inr [''h1'']"
  by code_simp

theorem pass_respects_limits_witness:
  "\<exists>st w'. reconcile (sample_env quiet_api) (sample_world ()) = (Inr st, w') \<and> st_started st = [''h1''] \<and>
     int (length (st_started st)) \<le> max 0 (ps_max_concurrent sample_settings)"
proof -
  obtain st w' where st: "reconcile (sample_env quiet_api) (sample_world ()) = (Inr st, w')" "st_started st = [''h1'']"
    using sample_pass by (cases "reconcile (sample_env quiet_api) (sample_world ())") (auto simp: map_sum_def split: sum.splits)
  from pass_respects_limits [OF st(1)] st show ?thesis by (auto simp: sample_env_def)
qed

section \<open>Any sequence of events keeps the budget\<close>

text \<open>A pass, a heartbeat of the owned claim \<open>i\<close>, the end of its provision, or an administrator's reset.\<close>

datatype placement_event = Pass | Beat nat | Ended nat provision_outcome | ResetClaim host

definition run_placement_event :: "'e renv \<Rightarrow> placement_event \<Rightarrow> 'e rworld \<Rightarrow> 'e rworld" where
  "run_placement_event env ev w =
     (case ev of
        Pass \<Rightarrow> snd (reconcile env w)
      | Beat i \<Rightarrow> if i < length (w_owned_heap w) then snd (heartbeat_once env i w) else w
      | Ended i outcome \<Rightarrow> if i < length (w_owned_heap w) then snd (run_owned_end env i outcome w) else w
      | ResetClaim h \<Rightarrow> snd (reset_claim env h w))"

lemma event_keeps:
  assumes env: "budget_env env view cur" and w: "budget_inv env view 0 w"
  shows "budget_inv env view 0 (run_placement_event env ev w)"
proof -
  have own: "budget_inv env view (Suc i) w" if "i < length (w_owned_heap w)" for i
    using w that by (simp add: budget_inv_def)
  show ?thesis
    using pkeepsD [OF reconcile_keeps [OF env] w] pkeepsD [OF reset_claim_keeps [OF env] w]
      budget_inv_mono [OF pkeepsD [OF heartbeat_keeps [OF env] own]] budget_inv_mono [OF pkeepsD [OF run_owned_end_keeps [OF env] own]] w
    by (cases ev) (auto simp: run_placement_event_def)
qed

text \<open>
  C22. The attempt budget is an invariant of automatic placement: after any sequence of passes, heartbeats,
  ends of provisions and resets, and whatever else keeps the invariant between their suspension points, every
  readable claim in etcd and every claim held in memory has between zero and \<open>max_attempts\<close> attempts, a failed claim (the only kind that
  is retried) has at least one attempt left, and an active one has none counted.
\<close>

theorem attempts_stay_in_budget:
  assumes "budget_env env view cur" "budget_inv env view 0 w"
  shows "budget_inv env view 0 (fold (run_placement_event env) events w)"
  using assms(2) by (induction events arbitrary: w) (auto intro: event_keeps [OF assms(1)])

lemma kv_budget_env: "budget_env (sample_env kv_api) kv_view kv_cur"
  using kv_law unfolding budget_env_def
  by (auto simp: sample_env_def sample_settings_def launched_codec_def utf8_encode_def kv_api_def split: if_splits)

theorem attempts_stay_in_budget_witness:
  "let w = sample_world [(utf8_encode (claim_key ''h1''), Some (''claim'', 0))]
   in kv_view (w_etcd w) (utf8_encode (claim_key ''h1'')) = Some (''claim'', 1, 0) \<and>
      cc_parse launched_codec ''claim'' = Some launched_claim \<and> cl_attempts launched_claim = 1 \<and>
      budget_inv (sample_env kv_api) kv_view 0 (fold (run_placement_event (sample_env kv_api)) [Pass, ResetClaim ''h1'', Pass, Beat 0] w)"
proof -
  let ?w = "sample_world [(utf8_encode (claim_key ''h1''), Some (''claim'', 0))]"
  have "budget_inv (sample_env kv_api) kv_view 0 ?w"
    by (auto simp: budget_inv_def store_budget_def sample_world_def sample_env_def launched_codec_def claim_budget_def
        launched_claim_def sample_settings_def split: if_splits)
  from attempts_stay_in_budget [OF kv_budget_env this]
  have "budget_inv (sample_env kv_api) kv_view 0 (fold (run_placement_event (sample_env kv_api)) [Pass, ResetClaim ''h1'', Pass, Beat 0] ?w)" .
  moreover have "kv_view (w_etcd ?w) (utf8_encode (claim_key ''h1'')) = Some (''claim'', 1, 0)"
    "cc_parse launched_codec ''claim'' = Some launched_claim" "cl_attempts launched_claim = 1"
    by (simp_all add: sample_world_def launched_codec_def launched_claim_def)
  ultimately show ?thesis unfolding Let_def by blast
qed

end
