(* ===== verification/LaunchSafety.thy ===== *)
theory LaunchSafety
  imports ReconcilerSafety
begin

text \<open>
  What one launch of the placement reconciler guarantees: the checks it has passed, what becomes of the
  host lease, and that a gateway which cannot refresh its claim stops before another may take the host.
\<close>

section \<open>A launch has passed its checks\<close>

lemma anyw_try:
  "ptriple anyw f Q anyw \<Longrightarrow> (\<And>err. ptriple anyw (handler err) Q anyw) \<Longrightarrow> ptriple anyw (ptry f handler) Q anyw"
  by (rule ptriple_try)

text \<open>The answers of QUADS and of the host at moment \<open>n\<close> allow a launch.\<close>

definition quads_checked :: "'e renv \<Rightarrow> host \<Rightarrow> nat \<Rightarrow> bool" where
  "quads_checked env h n \<longleftrightarrow>
     (\<exists>synced moves. en_last_sync env n = Some synced \<and> en_clock env n - synced \<le> en_stale_after env \<and>
        en_moves env n = Inr moves \<and> h \<notin> set moves)"

definition host_checked :: "'e renv \<Rightarrow> host \<Rightarrow> nat \<Rightarrow> bool" where
  "host_checked env h n \<longleftrightarrow> en_remote env n h = Inr [] \<or> en_power env n h = Inr (Some ''Off'')"

definition launched_as :: "host \<Rightarrow> StoredClaim option \<Rightarrow> 'e rworld \<Rightarrow> bool" where
  "launched_as h existing w \<longleftrightarrow>
     (\<exists>ls l. w_launches w = ls @ [l] \<and> la_hostname l = h \<and> cl_hostname (la_claim l) = h \<and>
        cl_state (la_claim l) = CLAIM_PROVISIONING \<and>
        cl_attempts (la_claim l) = (case existing of None \<Rightarrow> 0 | Some s \<Rightarrow> cl_attempts (sc_claim s)) + 1 \<and>
        np_claim_id (la_placement l) = cl_claim_id (la_claim l)) \<and>
     dict_get (w_tasks w) h = Some False"

lemma pbindE:
  assumes "pbind f g w = (Inr y, w')"
  obtains x w1 where "f w = (Inr x, w1)" "g x w1 = (Inr y, w')"
  using assms by (auto simp: pbind_def split: prod.splits sum.splits)

lemma preturn_Inr: "preturn x w = (Inr y, w') \<longleftrightarrow> y = x \<and> w' = w"
  by (auto simp: preturn_def)

lemma pread_Inr: "pread f w = (Inr y, w') \<longleftrightarrow> y = f w \<and> w' = w"
  by (auto simp: pread_def)

lemma pwrite_Inr: "pwrite f w = (Inr y, w') \<longleftrightarrow> w' = f w"
  by (auto simp: pwrite_def)

lemmas pass_Inr = preturn_Inr pread_Inr pwrite_Inr

lemma tick_await [simp]: "w_tick (await env w) = Suc (w_tick w)"
  by (simp add: await_def)

lemma quads_fresh:
  "quads_stale_reason env w = None \<Longrightarrow>
     \<exists>synced. en_last_sync env (w_tick w) = Some synced \<and> en_clock env (w_tick w) - synced \<le> en_stale_after env"
  by (cases "en_last_sync env (w_tick w)"; cases "en_clock env (w_tick w) - the (en_last_sync env (w_tick w)) > en_stale_after env")
    (simp_all add: quads_stale_reason_def Let_def)

lemma pending_move_None:
  assumes "pending_move_blocker env h w = (Inr None, w')"
  shows "\<exists>moves. en_moves env (w_tick w) = Inr moves \<and> h \<notin> set moves" "w_tick w' = Suc (w_tick w)"
  using assms by (cases "en_moves env (w_tick w)"; auto simp: pending_move_blocker_def ask_def pass_defs split: if_splits)+

lemma launch_refusal_None:
  assumes "launch_refusal env h w = (Inr None, w')"
  shows "quads_stale_reason env w = None" "pending_move_blocker env h w = (Inr None, w')"
  using assms by (cases "quads_stale_reason env w"; simp add: launch_refusal_def pbind_def pread_def preturn_def)+

lemma remote_work_None:
  assumes "remote_work_blocker env h w = (Inr None, w')"
  shows "en_remote env (w_tick w) h = Inr [] \<or> en_power env (Suc (w_tick w)) h = Inr (Some ''Off'')"
    "w_tick w < w_tick w'" "en_remote env (w_tick w) h \<noteq> Inr [] \<Longrightarrow> Suc (w_tick w) < w_tick w'"
  using assms
  by (auto simp: remote_work_blocker_def host_is_powered_off_def ask_def pass_defs split: if_splits sum.splits)

lemma hand_over_launched:
  assumes "cl_hostname c = h" "cl_state c = CLAIM_PROVISIONING"
    "cl_attempts c = (case existing of None \<Rightarrow> 0 | Some s \<Rightarrow> cl_attempts (sc_claim s)) + 1"
  shows "ptriple anyw (hand_over env resolved c lease i) (\<lambda>ok w. ok \<longrightarrow> launched_as h existing w) anyw"
proof -
  let ?task = "\<lambda>w :: 'a rworld. dict_get (w_tasks w) h = Some False"
  have fire: "ptriple anyw (fire_background env h) (\<lambda>r w. r = Fired \<longrightarrow> ?task w) anyw"
    by (auto simp: ptriple_def fire_background_def)
  have "ptriple (\<lambda>w. fired = Fired \<longrightarrow> ?task w)
      (case fired of AtCapacity \<Rightarrow> pbind f (\<lambda>_. preturn False) | FireFailed err \<Rightarrow> pbind f' (\<lambda>_. praise err)
       | Fired \<Rightarrow> pbind (pwrite (\<lambda>w. w\<lparr>w_owned := dict_set h i (w_owned w), w_launches := w_launches w @
            [\<lparr>la_hostname = h, la_claim = c, la_artifact_id = art, la_request = req,
               la_placement = \<lparr>np_profile_id = p, np_profile_version = v, np_claim_id = cl_claim_id c\<rparr>, la_lease = lease, la_owned = i\<rparr>]\<rparr>))
          (\<lambda>_. preturn True))
      (\<lambda>ok w. ok \<longrightarrow> launched_as h existing w) anyw"
    for fired and f f' :: "('a, unit) rpass" and art req p v
    by (cases fired) (auto simp: ptriple_def pass_defs launched_as_def assms split: prod.split sum.split)
  then show ?thesis
    unfolding hand_over_def Let_def assms(1)
    by (cases "runtime_request (rp_profile resolved) (ps_reserve_mib (en_settings env)) (rp_draft_artifact_id resolved) (cl_gpu_class c)")
      (auto intro!: ptriple_raise ptriple_bind [OF fire])
qed

lemma launch_claim_fields [simp]:
  "cl_hostname (launch_claim env resolved h gpu existing now uuid) = h"
  "cl_state (launch_claim env resolved h gpu existing now uuid) = CLAIM_PROVISIONING"
  "cl_attempts (launch_claim env resolved h gpu existing now uuid) = (case existing of None \<Rightarrow> 0 | Some s \<Rightarrow> cl_attempts (sc_claim s)) + 1"
  by (simp_all add: launch_claim_def)

lemma claim_and_start_launched:
  "ptriple anyw (claim_and_start env resolved h gpu existing lease) (\<lambda>ok w. ok \<longrightarrow> launched_as h existing w) anyw"
  unfolding claim_and_start_def Let_def
  by (intro anyw_bind ptriple_if ptriple_return ptriple_raise ptriple_option hand_over_launched) simp_all


lemma launch_under_leaseE:
  assumes "launch_under_lease env resolved h gpu existing lease w = (Inr True, w')"
  obtains suspended w1 w2 w3 where "suspensions_list env w = (Inr suspended, w1)" "h \<notin> suspended"
    "may_replace (registry_get (gw_registry (w_gw w1)) h) existing"
    "\<forall>s. existing = Some s \<longrightarrow> cl_attempts (sc_claim s) < ps_max_attempts (en_settings env)"
    "launch_refusal env h w1 = (Inr None, w2)" "launch_blocker env h existing w2 = (Inr None, w3)"
    "claim_and_start env resolved h gpu existing lease (w3\<lparr>w_deferred := dict_pop h (w_deferred w3)\<rparr>) = (Inr True, w')"
  using assms unfolding launch_under_lease_def Let_def node_at_def set_deferred_def
  by (auto elim!: pbindE simp: pass_Inr split: if_splits option.splits)

text \<open>A condition on the host leases or the time, which the launch itself does not touch after it has its lease.\<close>

definition frame_inv :: "'e renv \<Rightarrow> ('e rworld \<Rightarrow> bool) \<Rightarrow> bool" where
  "frame_inv env I \<longleftrightarrow> (\<forall>w. I w \<longrightarrow> I (await env w)) \<and>
     (\<forall>w a b c d e f g. I (w\<lparr>w_etcd := a\<rparr>) = I w \<and> I (w\<lparr>w_gw := b\<rparr>) = I w \<and> I (w\<lparr>w_owned := c\<rparr>) = I w \<and>
        I (w\<lparr>w_owned_heap := d\<rparr>) = I w \<and> I (w\<lparr>w_deferred := e\<rparr>) = I w \<and> I (w\<lparr>w_tasks := f\<rparr>) = I w \<and> I (w\<lparr>w_launches := g\<rparr>) = I w) \<and>
     (\<forall>w a. I (w\<lparr>w_refused := a\<rparr>) = I w)"

lemma frameD:
  assumes "frame_inv env I"
  shows "I w \<Longrightarrow> I (await env w)" "I (w\<lparr>w_etcd := a\<rparr>) = I w" "I (w\<lparr>w_gw := b\<rparr>) = I w" "I (w\<lparr>w_owned := c\<rparr>) = I w"
    "I (w\<lparr>w_owned_heap := d\<rparr>) = I w" "I (w\<lparr>w_deferred := e\<rparr>) = I w" "I (w\<lparr>w_tasks := f\<rparr>) = I w" "I (w\<lparr>w_launches := g\<rparr>) = I w"
    "I (w\<lparr>w_refused := r\<rparr>) = I w"
  using assms unfolding frame_inv_def by blast+

lemma frame_call: "frame_inv env I \<Longrightarrow> pkeeps I (call_etcd env f)"
  by (rule pkeepsI) (simp add: call_etcd_def frameD split: prod.split)

lemma frame_ask: "frame_inv env I \<Longrightarrow> pkeeps I (ask env f)"
  by (rule pkeepsI) (simp add: ask_def frameD)

lemmas frame_basic = frame_call frame_ask pkeeps_return pkeeps_raise pkeeps_read pkeeps_bind pkeeps_try pkeeps_write pkeeps_if pkeeps_option
  pkeeps_prod clock_keeps node_at_keeps

lemma frame_suspensions: "frame_inv env I \<Longrightarrow> pkeeps I (suspensions_list env)"
  unfolding suspensions_list_def decoded_def by (intro frame_basic)

lemma frame_blockers:
  assumes "frame_inv env I"
  shows "pkeeps I (stored_node_blocker env h existing)" "pkeeps I (remote_work_blocker env h)" "pkeeps I (pending_move_blocker env h)"
  unfolding stored_node_blocker_def stored_node_def remote_work_blocker_def host_is_powered_off_def pending_move_blocker_def
  by (intro frame_basic assms)+

lemma frame_rewrite: "frame_inv env I \<Longrightarrow> pkeeps I (rewrite env s now changes)"
  unfolding rewrite_def Let_def by (intro frame_basic)

lemma frame_finish:
  assumes "frame_inv env I"
  shows "pkeeps I (finish env i error counted)"
proof -
  have update: "pkeeps I (update_or_fail env s c)" for s c
    unfolding update_or_fail_def by (intro frame_basic assms)
  have own: "pkeeps I (own_current env i c)" for c
    unfolding own_current_def by (intro frame_basic assms)
  have "pkeeps I (final_write env i s c)" for s c
    unfolding final_write_def by (intro frame_basic update own)
  then show ?thesis
    unfolding finish_def Let_def
    by (intro frame_basic) (auto simp: on_owned_def frameD [OF assms] split: option.split)
qed

lemma frame_start:
  assumes "frame_inv env I"
  shows "pkeeps I (claim_and_start env resolved h gpu existing lease)"
proof -
  have fire: "pkeeps I (fire_background env h)" for h
    by (rule pkeepsI) (simp add: fire_background_def frameD [OF assms])
  have result: "pkeeps I (case r of Fired \<Rightarrow> f | AtCapacity \<Rightarrow> g | FireFailed err \<Rightarrow> k err)"
    if "pkeeps I f" "pkeeps I g" "\<And>err. pkeeps I (k err)" for r f g and k :: "string \<Rightarrow> ('a, bool) rpass"
    using that by (cases r) auto
  have request: "pkeeps I (case r of Inl err \<Rightarrow> f err | Inr x \<Rightarrow> g x)"
    if "\<And>err. pkeeps I (f err)" "\<And>x. pkeeps I (g x)" for r f and g :: "LlamaCppRuntimeRequest \<Rightarrow> ('a, bool) rpass"
    using that by (cases r) auto
  have hand: "pkeeps I (hand_over env resolved c lease i)" for c i
    unfolding hand_over_def Let_def
    by (intro frame_basic fire result request frame_finish assms) (simp add: frameD [OF assms])
  show ?thesis
    unfolding claim_and_start_def write_claim_def cleanup_stale_node_def Let_def
    by (intro frame_basic hand assms) (simp_all add: frameD [OF assms])
qed

lemma frame_tick: "frame_inv env (\<lambda>w. T \<le> w_tick w)"
  by (simp add: frame_inv_def)

lemma tick_le: "(\<And>T. pkeeps (\<lambda>w. T \<le> w_tick w) f) \<Longrightarrow> f w = (r, w') \<Longrightarrow> w_tick w \<le> w_tick w'"
  using pkeepsD [of "\<lambda>v. w_tick w \<le> w_tick v" f w] by simp

lemma launch_refusal_checked:
  assumes "launch_refusal env h w = (Inr None, w')"
  shows "quads_checked env h (w_tick w)" "w_tick w' = Suc (w_tick w)"
  using launch_refusal_None [OF assms] quads_fresh pending_move_None unfolding quads_checked_def by blast+

lemma launch_blocker_checked:
  assumes "launch_blocker env h existing w = (Inr None, w')"
  shows "\<exists>n \<ge> w_tick w. n < w_tick w' \<and> host_checked env h n"
proof -
  obtain w1 where w1: "remote_work_blocker env h w = (Inr None, w1)" "stored_node_blocker env h existing w1 = (Inr None, w')"
    using assms by (auto simp: launch_blocker_def pass_Inr elim!: pbindE split: option.splits)
  have le: "w_tick w1 \<le> w_tick w'" by (rule tick_le [OF frame_blockers(1) [OF frame_tick] w1(2)])
  show ?thesis
  proof (cases "en_remote env (w_tick w) h = Inr []")
    case True
    then show ?thesis using remote_work_None(2) [OF w1(1)] le by (auto simp: host_checked_def)
  next
    case False
    then show ?thesis using remote_work_None(1,3) [OF w1(1)] le by (intro exI [of _ "Suc (w_tick w)"]) (auto simp: host_checked_def)
  qed
qed

lemma suspensions_etcd: "w_etcd v = w_etcd w \<Longrightarrow> fst (suspensions_list env v) = fst (suspensions_list env w)"
  by (auto simp: suspensions_list_def decoded_def call_etcd_def pass_defs split: prod.splits sum.splits option.splits)

lemma launch_hostE:
  assumes "launch_host env resolved h gpu existing w = (Inr True, w')"
  obtains i v where "try_reserve_host h w = (Inr (Some i), v)" "launch_under_lease env resolved h gpu existing i v = (Inr True, w')"
  using assms
  by (auto simp: launch_host_def pass_Inr elim!: pbindE split: option.splits prod.splits sum.splits bool.splits)

lemma try_reserve_frame: "try_reserve_host h w = (r, v) \<Longrightarrow> w_tick v = w_tick w \<and> w_etcd v = w_etcd w \<and> w_gw v = w_gw w"
  by (auto simp: try_reserve_host_def split: prod.splits bool.splits)


definition sample_resolved :: ResolvedProfile where
  "sample_resolved = \<lparr>rp_profile = sample_profile, rp_artifact_id = ''a1'', rp_draft_artifact_id = None\<rparr>"

lemma sample_launch: "fst (launch_host (sample_env quiet_api) sample_resolved ''h1'' ''l4'' None (sample_world ())) = Inr True"
  by code_simp


section \<open>The host lease of a launch\<close>

lemma try_acquire_busy:
  assumes "try_acquire h t s = (got, s')"
  shows "is_busy s h \<Longrightarrow> \<not> got \<and> s' = s" "\<not> is_busy s h \<Longrightarrow> got \<and> is_busy s' h"
  using assms by (auto simp: try_acquire_def is_busy_def Let_def lock_acquire_def HostLockEntry_new_def new_lease_def split: if_splits)

lemma release_new_lease:
  assumes "try_acquire h t s = (True, s')"
  shows "\<not> is_busy (snd (lease_release (length (hc_leases s)) s')) h"
  using assms
  by (auto simp: try_acquire_def is_busy_def Let_def lock_acquire_def HostLockEntry_new_def new_lease_def lease_release_def
      coordinator_release_def lock_release_def drop_user_def on_entry_def wake_up_first_def dict_get_pop split: if_splits)

lemma frame_life: "\<forall>n w. w_life (en_other env n w) = w_life w \<Longrightarrow> frame_inv env (\<lambda>w. w_life w = l)"
  by (simp add: frame_inv_def await_def)

lemma frame_under_lease:
  assumes "frame_inv env I"
  shows "pkeeps I (launch_under_lease env resolved h gpu existing lease)"
  unfolding launch_under_lease_def launch_refusal_def launch_blocker_def set_deferred_def Let_def
  by (intro frame_basic frame_suspensions frame_blockers frame_rewrite frame_start assms) (simp_all add: frameD [OF assms])

text \<open>
  The host lease follows the outcome of a launch, when nothing else uses the leases meanwhile: a host that
  is busy is left alone and not launched; on a free host the lease is held afterwards exactly when the
  launch is reported as started, so neither a refusal nor an exception on any path leaves the host locked.
\<close>

theorem launch_lease_follows_outcome:
  assumes quiet: "\<forall>n w. w_life (en_other env n w) = w_life w" and "launch_host env resolved h gpu existing w = (r, w')"
  shows "(is_busy (w_life w) h \<longrightarrow> r = Inr False \<and> w' = w) \<and>
    (\<not> is_busy (w_life w) h \<longrightarrow> (is_busy (w_life w') h \<longleftrightarrow> r = Inr True))"
proof -
  obtain got l where acq: "try_acquire h 0 (w_life w) = (got, l)" by fastforce
  show ?thesis
  proof (cases "is_busy (w_life w) h")
    case True
    then have "try_reserve_host h w = (Inr None, w)" using try_acquire_busy(1) [OF acq] by (simp add: try_reserve_host_def acq)
    then show ?thesis using True assms(2) by (simp add: launch_host_def pbind_def preturn_def)
  next
    case False
    then have got: "got" "is_busy l h" using try_acquire_busy(2) [OF acq] by simp_all
    let ?i = "length (hc_leases (w_life w))" and ?v = "w\<lparr>w_life := l\<rparr>"
    obtain q v where under: "launch_under_lease env resolved h gpu existing ?i ?v = (q, v)" by fastforce
    have life: "w_life v = l" using pkeepsD [OF frame_under_lease [OF frame_life [OF quiet]], of ?v l resolved h gpu existing ?i] under by simp
    have out: "(r, w') = (if q = Inr True then (q, v) else (q, release_lease ?i v))"
      using assms(2) got acq under
      by (auto simp: launch_host_def pbind_def try_reserve_host_def split: sum.splits bool.splits)
    have "\<not> is_busy (w_life (release_lease ?i v)) h"
      using release_new_lease [of h 0 "w_life w" l] acq got(1) life by (simp add: release_lease_def)
    then show ?thesis using out life got(2) False by (auto split: if_splits)
  qed
qed

theorem launch_lease_follows_outcome_witness:
  "\<exists>w'. launch_host (sample_env quiet_api) sample_resolved ''h1'' ''l4'' None (sample_world ()) = (Inr True, w') \<and>
     \<not> is_busy (w_life (sample_world ())) ''h1'' \<and> is_busy (w_life w') ''h1''"
proof -
  obtain w' where w': "launch_host (sample_env quiet_api) sample_resolved ''h1'' ''l4'' None (sample_world ()) = (Inr True, w')"
    using sample_launch by (metis prod.collapse)
  have "\<forall>n w. w_life (en_other (sample_env quiet_api) n w) = w_life w" by (simp add: sample_env_def)
  moreover have "\<not> is_busy (w_life (sample_world ())) ''h1''"
    by (simp add: sample_world_def is_busy_def HostLifecycleCoordinator_new_def)
  ultimately show ?thesis using launch_lease_follows_outcome [OF _ w'] w' by blast
qed

section \<open>Fencing\<close>

text \<open>The store answers no transaction and no read.\<close>

definition etcd_down :: "'e etcd_api \<Rightarrow> bool" where
  "etcd_down api \<longleftrightarrow> (\<forall>j e. (\<exists>err. fst (api_transaction api j e) = Inl err) \<and> (\<exists>err. fst (api_range api j e) = Inl err))"

lemma down_replace: "etcd_down api \<Longrightarrow> \<exists>err e'. replace_if_revision api k v m l e = (Inl err, e')"
  unfolding etcd_down_def replace_if_revision_def then_parse_def Let_def
  by (auto split: prod.split sum.split) (metis fst_conv sum.distinct(1))

lemma down_get: "etcd_down api \<Longrightarrow> \<exists>err e'. get_record api k e = (Inl err, e')"
  unfolding etcd_down_def get_record_def then_parse_def Let_def
  by (auto split: prod.split sum.split) (metis fst_conv sum.distinct(1))

lemma down_claim_get: "etcd_down api \<Longrightarrow> \<exists>err e'. claim_get cc api h e = (Inl err, e')"
  using down_get [of api "claim_key h" e] by (auto simp: claim_get_def)

lemma down_claim_update: "etcd_down api \<Longrightarrow> \<exists>err e'. claim_update cc api s c e = (Inl err, e')"
  using down_replace by (simp add: claim_update_def claim_write_def)

lemma call_down:
  assumes "\<And>e. \<exists>err e'. f e = (Inl err, e')" "\<forall>n w. w_owned_heap (en_other env n w) = w_owned_heap w"
  shows "\<exists>err v. call_etcd env f w = (Inl err, v) \<and> w_owned_heap v = w_owned_heap w"
  using assms(1) [of "w_etcd w"] assms(2) by (auto simp: call_etcd_def await_def)

lemma update_down:
  assumes "etcd_down (en_api env)" "\<forall>n w. w_owned_heap (en_other env n w) = w_owned_heap w"
  shows "\<exists>err v. update_or_fail env s c w = (Inr (None, Some err), v) \<and> w_owned_heap v = w_owned_heap w"
proof -
  obtain err v where "call_etcd env (claim_update (en_codec env) (en_api env) s c) w = (Inl err, v)" "w_owned_heap v = w_owned_heap w"
    using call_down [where f = "claim_update (en_codec env) (en_api env) s c", OF down_claim_update [OF assms(1)] assms(2)] by blast
  then show ?thesis by (simp add: update_or_fail_def pass_defs)
qed

lemma own_current_down:
  assumes "etcd_down (en_api env)" "\<forall>n w. w_owned_heap (en_other env n w) = w_owned_heap w"
  shows "\<exists>v. own_current env i c w = (Inr None, v) \<and> w_owned_heap v = w_owned_heap w"
proof -
  let ?h = "cl_hostname (sc_claim (oc_stored (owned_at i w)))"
  obtain err v where "call_etcd env (claim_get (en_codec env) (en_api env) ?h) w = (Inl err, v)" "w_owned_heap v = w_owned_heap w"
    using call_down [where f = "claim_get (en_codec env) (en_api env) ?h", OF down_claim_get [OF assms(1)] assms(2)] by blast
  then show ?thesis by (simp add: own_current_def pass_defs)
qed

text \<open>
  C23. An owner that cannot reach etcd stops before another gateway may take its host. With beats at
  most one heartbeat interval apart, a beat that can neither write nor read the store either fences the host (when
  half of the stale period has passed since the last successful refresh) and marks the claim lost, or leaves the claim
  owned with less than half of the period gone; in both cases every other gateway with the same
  settings still treats the claim as in flight at that moment.
\<close>

theorem fenced_before_takeover:
  assumes "PlacementSettings_fields (en_settings env)"
    and quiet: "\<forall>n w. w_owned_heap (en_other env n w) = w_owned_heap w" and down: "etcd_down (en_api env)"
    and i: "i < length (w_owned_heap w)" "owned_at i w = owned" "\<not> oc_lost owned"
    and c: "sc_claim (oc_stored owned) = c" "cl_state c = CLAIM_PROVISIONING" "cl_heartbeat_at c = oc_refreshed_at owned"
    and gap: "previous - oc_refreshed_at owned < ps_claim_stale_seconds (en_settings env) * 500000"
      "en_clock env (w_tick w) - previous \<le> HEARTBEAT_INTERVAL (en_settings env)"
    and other: "en_settings env' = en_settings env" "en_holder env' \<noteq> cl_holder c"
    and beat: "heartbeat_once env i w = (r, w')"
  shows "in_flight env' c (en_clock env (w_tick w)) w'' \<and>
    (if en_clock env (w_tick w) - oc_refreshed_at owned < ps_claim_stale_seconds (en_settings env) * 500000
     then owned_at i w' = owned
     else owned_at i w' = owned\<lparr>oc_lost := True\<rparr> \<and> (\<exists>fenced. w_fenced w' = fenced @ [cl_hostname c]))"
proof -
  let ?now = "en_clock env (w_tick w)" and ?stale = "ps_claim_stale_seconds (en_settings env)"
  have "60 \<le> ?stale" using assms(1) by (simp add: PlacementSettings_fields_def)
  then have "?now - cl_heartbeat_at c < seconds ?stale"
    using gap c(3) by (auto simp: HEARTBEAT_INTERVAL_def seconds_def)
  then have flying: "in_flight env' c ?now w''" using c(2) other by (auto simp: in_flight_def)
  let ?c = "c\<lparr>cl_heartbeat_at := ?now, cl_updated_at := ?now\<rparr>"
  obtain err v where v: "update_or_fail env (oc_stored owned) ?c w = (Inr (None, Some err), v)" "w_owned_heap v = w_owned_heap w"
    using update_down [OF down quiet] by blast
  obtain v' where v': "own_current env i ?c v = (Inr None, v')" "w_owned_heap v' = w_owned_heap w"
    using own_current_down [OF down quiet] v(2) by metis
  have "heartbeat_once env i w =
      (if ?now - oc_refreshed_at owned < ?stale * 500000 then (Inr (), v')
       else (Inr (), (on_owned i (\<lambda>o'. o'\<lparr>oc_lost := True\<rparr>) v')\<lparr>w_fenced := w_fenced v' @ [cl_hostname c]\<rparr>))"
    using i(2,3) c(1) v(1) v'(1) by (simp add: heartbeat_once_def clock_def pass_defs Let_def)
  then show ?thesis
    using flying beat i v'(2) by (auto simp: owned_at_def on_owned_def)
qed

definition owned_sample :: OwnedClaim where
  "owned_sample = \<lparr>oc_stored = \<lparr>sc_claim = launched_claim, sc_mod_revision = 1\<rparr>, oc_refreshed_at = 5, oc_lost = False, oc_started = True\<rparr>"

theorem fenced_before_takeover_witness:
  "\<exists>w'. snd (heartbeat_once ((sample_env down_api)\<lparr>en_clock := \<lambda>_. 80000005\<rparr>) 0 ((sample_world ())\<lparr>w_owned_heap := [owned_sample]\<rparr>)) = w' \<and>
     oc_lost (owned_at 0 w') \<and> (\<exists>fenced. w_fenced w' = fenced @ [''h1'']) \<and>
     in_flight ((sample_env quiet_api)\<lparr>en_holder := replicate 32 (CHR ''c'')\<rparr>) launched_claim 80000005 (sample_world ())"
proof -
  let ?env = "(sample_env down_api)\<lparr>en_clock := \<lambda>_. 80000005\<rparr>" and ?w = "(sample_world ())\<lparr>w_owned_heap := [owned_sample]\<rparr>"
    and ?env' = "(sample_env quiet_api)\<lparr>en_holder := replicate 32 (CHR ''c'')\<rparr>"
  obtain r w' where beat: "heartbeat_once ?env 0 ?w = (r, w')" by fastforce
  have "in_flight ?env' launched_claim (en_clock ?env (w_tick ?w)) (sample_world ()) \<and>
      (if en_clock ?env (w_tick ?w) - oc_refreshed_at owned_sample < ps_claim_stale_seconds (en_settings ?env) * 500000
       then owned_at 0 w' = owned_sample
       else owned_at 0 w' = owned_sample\<lparr>oc_lost := True\<rparr> \<and> (\<exists>fenced. w_fenced w' = fenced @ [cl_hostname launched_claim]))"
    by (rule fenced_before_takeover [where env = ?env and w = ?w and previous = 55000005, OF _ _ _ _ _ _ _ _ _ _ _ _ _ beat])
      (simp_all add: sample_env_def sample_settings_def PlacementSettings_fields_def etcd_down_def down_api_def quiet_api_def owned_at_def
        owned_sample_def launched_claim_def HEARTBEAT_INTERVAL_def sample_world_def)
  then show ?thesis
    using beat by (simp add: sample_env_def sample_settings_def owned_sample_def launched_claim_def)
qed

section \<open>An unbounded error text\<close>

text \<open>
  A retry that is blocked for a long reason destroys its claim. The reason is stored with the prefix
  \<open>blocked:\<close> and is not cut to the 2000 characters the claim model allows, unlike the error of a finished provision; with a reason of
  more than 1991 characters the launch returns normally, but the record it wrote does not parse
  again, so the claim is then read as absent.
\<close>

theorem long_blocker_destroys_claim:
  assumes law: "etcd_law (en_api env) view cur"
    and strict: "\<forall>v c. cc_parse (en_codec env) v = Some c \<longrightarrow> PlacementClaim_fields c"
    and codec: "\<forall>c d. cc_parse (en_codec env) (utf8_encode (cc_dump (en_codec env) c)) = Some d \<longrightarrow> d = c"
    and h: "cl_hostname (sc_claim s) = h" "cl_attempts (sc_claim s) < ps_max_attempts (en_settings env)"
    and steps: "suspensions_list env w = (Inr suspended, w1)" "h \<notin> suspended"
      "may_replace (registry_get (gw_registry (w_gw w1)) h) (Some s)"
      "launch_refusal env h w1 = (Inr None, w2)" "launch_blocker env h (Some s) w2 = (Inr (Some reason), w3)"
    and long: "1991 < length reason"
    and stored: "claim_update (en_codec env) (en_api env) s ((sc_claim s)\<lparr>cl_retry_at := Some (en_clock env (w_tick w3) +
        seconds (ps_retry_backoff_seconds (en_settings env))), cl_last_error := ''blocked: '' @ reason,
        cl_updated_at := en_clock env (w_tick w3)\<rparr>) (w_etcd w3) = (Inr (Some n), e')"
  shows "launch_under_lease env resolved h gpu (Some s) lease w = (Inr False, await env (w3\<lparr>w_etcd := e'\<rparr>)) \<and>
    (\<exists>v m l. view e' (utf8_encode (claim_key h)) = Some (v, m, l) \<and> cc_parse (en_codec env) v = None)"
proof -
  let ?now = "en_clock env (w_tick w3)"
  define c where "c = (sc_claim s)\<lparr>cl_retry_at := Some (?now + seconds (ps_retry_backoff_seconds (en_settings env))),
      cl_last_error := ''blocked: '' @ reason, cl_updated_at := ?now\<rparr>"
  have wr: "claim_write (en_codec env) (en_api env) c (sc_mod_revision s) (w_etcd w3) = (Inr (Some n), e')"
    using stored by (simp add: claim_update_def c_def)
  have "view e' = (view (w_etcd w3))(utf8_encode (claim_key h) \<mapsto> (utf8_encode (cc_dump (en_codec env) c), cur e', 0))"
    using claim_write_cases [OF law wr] h(1) by (auto simp: c_def)
  moreover have "cc_parse (en_codec env) (utf8_encode (cc_dump (en_codec env) c)) = None"
  proof (rule ccontr)
    assume "cc_parse (en_codec env) (utf8_encode (cc_dump (en_codec env) c)) \<noteq> None"
    then have "PlacementClaim_fields c" using codec strict by fastforce
    then show False using long by (simp add: PlacementClaim_fields_def c_def)
  qed
  moreover have "launch_under_lease env resolved h gpu (Some s) lease w = (Inr False, await env (w3\<lparr>w_etcd := e'\<rparr>))"
    using steps h(2) stored
    by (simp add: launch_under_lease_def Let_def pbind_def node_at_def pread_def clock_def rewrite_def preturn_def call_etcd_def)
  ultimately show ?thesis by simp
qed

definition failed_claim :: PlacementClaim where
  "failed_claim = launched_claim\<lparr>cl_state := CLAIM_FAILED, cl_retry_at := Some 0\<rparr>"

definition failed_codec :: claim_codec where
  "failed_codec = \<lparr>cc_parse = (\<lambda>v. if v = ''claim'' then Some failed_claim else None),
     cc_dump = (\<lambda>c. if c = failed_claim then ''claim'' else ''other'')\<rparr>"

abbreviation failed_stored :: StoredClaim where
  "failed_stored \<equiv> \<lparr>sc_claim = failed_claim, sc_mod_revision = 1\<rparr>"

text \<open>The remote probe fails with a long message.\<close>

definition noisy_env :: "kv_log renv" where
  "noisy_env = (sample_env kv_api)\<lparr>en_codec := failed_codec, en_remote := \<lambda>_ _. Inl (replicate 2000 (CHR ''x''))\<rparr>"

abbreviation failed_world :: "kv_log rworld" where
  "failed_world \<equiv> sample_world [(utf8_encode (claim_key ''h1''), Some (''claim'', 0))]"

lemma await_noisy [simp]: "await noisy_env w = w\<lparr>w_tick := Suc (w_tick w)\<rparr>"
  by (simp add: await_def noisy_env_def sample_env_def)

lemma noisy_suspensions: "suspensions_list noisy_env failed_world = (Inr {}, failed_world\<lparr>w_tick := 1\<rparr>)"
proof -
  have api: "en_api noisy_env = kv_api" by (simp add: noisy_env_def sample_env_def)
  have ne: "take (length (utf8_encode SUSPENSION_PREFIX)) (utf8_encode (claim_key ''h1'')) \<noteq> utf8_encode SUSPENSION_PREFIX"
    by (simp add: claim_key_def CLAIM_PREFIX_def SUSPENSION_PREFIX_def utf8_encode_def)
  have "SUSPENSION_PREFIX \<noteq> []" by (simp add: SUSPENSION_PREFIX_def)
  then have "suspension_list kv_api (w_etcd failed_world) = (Inr (Some {}), w_etcd failed_world)"
    using ne by (simp add: suspension_list_def kv_get_snapshot map_filter_simps sample_world_def)
  then show ?thesis
    by (simp add: suspensions_list_def decoded_def call_etcd_def api pbind_def preturn_def) (simp add: sample_world_def)
qed

lemma noisy_refusal: "launch_refusal noisy_env ''h1'' w = (Inr None, w\<lparr>w_tick := Suc (w_tick w)\<rparr>)"
proof -
  have q: "quads_stale_reason noisy_env w = None" by (simp add: quads_stale_reason_def noisy_env_def sample_env_def Let_def)
  have m: "en_moves noisy_env = (\<lambda>_. Inr [])" by (simp add: noisy_env_def sample_env_def)
  show ?thesis by (simp add: launch_refusal_def pending_move_blocker_def ask_def pass_defs q m)
qed

lemma noisy_blocker:
  "launch_blocker noisy_env ''h1'' existing w =
     (Inr (Some (''could not verify that no earlier provisioning is running: '' @ replicate 2000 (CHR ''x''))),
      w\<lparr>w_tick := Suc (Suc (w_tick w))\<rparr>)"
proof -
  have m: "en_remote noisy_env = (\<lambda>_ _. Inl (replicate 2000 (CHR ''x'')))" "en_power noisy_env = (\<lambda>_ _. Inr None)"
    by (simp_all add: noisy_env_def sample_env_def)
  show ?thesis
    by (simp add: launch_blocker_def remote_work_blocker_def host_is_powered_off_def ask_def pass_defs m)
qed

theorem long_blocker_destroys_claim_witness:
  "\<exists>w'. launch_under_lease noisy_env sample_resolved ''h1'' ''l4'' (Some failed_stored) 0 failed_world = (Inr False, w') \<and>
     (\<exists>v m l. kv_view (w_etcd w') (utf8_encode (claim_key ''h1'')) = Some (v, m, l) \<and> cc_parse failed_codec v = None)"
proof -
  let ?w3 = "failed_world\<lparr>w_tick := 4\<rparr>" and ?reason = "''could not verify that no earlier provisioning is running: '' @ replicate 2000 (CHR ''x'')"
  let ?c = "failed_claim\<lparr>cl_retry_at := Some (5 + seconds 60), cl_last_error := ''blocked: '' @ ?reason, cl_updated_at := 5\<rparr>"
  have env: "en_api noisy_env = kv_api" "en_codec noisy_env = failed_codec" "en_clock noisy_env = (\<lambda>_. 5)"
    "ps_max_attempts (en_settings noisy_env) = 3" "ps_retry_backoff_seconds (en_settings noisy_env) = 60"
    by (simp_all add: noisy_env_def sample_env_def sample_settings_def)
  have claim: "cl_hostname failed_claim = ''h1''" "cl_attempts failed_claim = 1" "cl_last_error failed_claim = []"
    by (simp_all add: failed_claim_def launched_claim_def)
  have "PlacementClaim_fields failed_claim" by code_simp
  then have strict: "\<forall>v c. cc_parse failed_codec v = Some c \<longrightarrow> PlacementClaim_fields c" by (simp add: failed_codec_def)
  have codec: "\<forall>c d. cc_parse failed_codec (utf8_encode (cc_dump failed_codec c)) = Some d \<longrightarrow> d = c"
    by (simp add: failed_codec_def utf8_encode_def)
  have free: "may_replace (registry_get (gw_registry (w_gw (failed_world\<lparr>w_tick := 1\<rparr>))) ''h1'') (Some failed_stored)"
    by (simp add: may_replace_def sample_world_def sample_gateway_def registry_get_def empty_registry_def)
  obtain e' where e': "claim_update failed_codec kv_api failed_stored ?c (w_etcd ?w3) = (Inr (Some 2), e')"
    by (simp add: claim_update_def claim_write_def kv_replace mod_rev_def kv_cur_def claim sample_world_def)
  have refusal: "launch_refusal noisy_env ''h1'' (failed_world\<lparr>w_tick := 1\<rparr>) = (Inr None, failed_world\<lparr>w_tick := 2\<rparr>)"
    using noisy_refusal [of "failed_world\<lparr>w_tick := 1\<rparr>"] by (simp add: numeral_2_eq_2)
  have blocker: "launch_blocker noisy_env ''h1'' (Some failed_stored) (failed_world\<lparr>w_tick := 2\<rparr>) = (Inr (Some ?reason), ?w3)"
    using noisy_blocker [of "Some failed_stored" "failed_world\<lparr>w_tick := 2\<rparr>"] by simp
  have "launch_under_lease noisy_env sample_resolved ''h1'' ''l4'' (Some failed_stored) 0 failed_world = (Inr False, await noisy_env (?w3\<lparr>w_etcd := e'\<rparr>)) \<and>
      (\<exists>v m l. kv_view e' (utf8_encode (claim_key ''h1'')) = Some (v, m, l) \<and> cc_parse (en_codec noisy_env) v = None)"
    by (rule long_blocker_destroys_claim [where n = 2, OF _ _ _ _ _ noisy_suspensions _ free refusal blocker])
      (use kv_law strict codec claim e' in \<open>simp_all add: env sample_world_def\<close>)
  then show ?thesis by (simp add: env)
qed

end
