(* ===== verification/PyFloat.thy ===== *)
theory PyFloat
  imports QiipPrelude "HOL-Library.Log_Nat"
begin

text \<open>
  Python's floats. A double is the rational number it stands for; every operation computes exactly and then
  rounds to 53 significant bits, ties to even (\<open>fl\<close>). Overflow beyond the largest double and
  the subnormal range are left out: the values here are sizes and ratios far from both. \<open>round\<close> and \<open>:g\<close> formatting work on the
  exact value, as CPython's correctly rounded conversions do.
\<close>

section \<open>Rounding to 53 bits\<close>

definition half_even :: "rat \<Rightarrow> int" where
  "half_even x =
     (let f = \<lfloor>x\<rfloor>; d = x - of_int f
      in if d < 1 / 2 \<or> d = 1 / 2 \<and> even f then f else f + 1)"

definition two_to :: "int \<Rightarrow> rat" where
  "two_to e = (if 0 \<le> e then 2 ^ nat e else 1 / 2 ^ nat (- e))"

text \<open>The \<open>e\<close> with \<open>2 ^ e \<le> x < 2 ^ (e + 1)\<close>.\<close>

definition bin_exp :: "rat \<Rightarrow> int" where
  "bin_exp x =
     (case quotient_of x of (p, q) \<Rightarrow>
        let e = bitlen p - bitlen q in if two_to e \<le> x then e else e - 1)"

definition fl :: "rat \<Rightarrow> rat" where
  "fl x =
     (if x = 0 then 0
      else let s = two_to (52 - bin_exp \<bar>x\<bar>) in sgn x * (of_int (half_even (\<bar>x\<bar> * s)) / s))"

abbreviation fmul :: "rat \<Rightarrow> rat \<Rightarrow> rat" where "fmul x y \<equiv> fl (x * y)"

abbreviation fdiv :: "rat \<Rightarrow> rat \<Rightarrow> rat" where "fdiv x y \<equiv> fl (x / y)"

abbreviation fadd :: "rat \<Rightarrow> rat \<Rightarrow> rat" where "fadd x y \<equiv> fl (x + y)"

abbreviation fsub :: "rat \<Rightarrow> rat \<Rightarrow> rat" where "fsub x y \<equiv> fl (x - y)"

text \<open>\<open>round(x, 2)\<close>\<close>

definition round2 :: "rat \<Rightarrow> rat" where
  "round2 x = fl (of_int (half_even (x * 100)) / 100)"

section \<open>Formatting\<close>

text \<open>The \<open>e\<close> with \<open>10 ^ e \<le> x < 10 ^ (e + 1)\<close>, for positive \<open>x\<close>.\<close>

definition dec_exp :: "rat \<Rightarrow> int" where
  "dec_exp x =
     (if x \<ge> 1 then int (length (nat_digits (nat \<lfloor>x\<rfloor>))) - 1
      else - int (length (nat_digits (nat (\<lceil>1 / x\<rceil> - 1)))))"

definition ten_to :: "int \<Rightarrow> rat" where
  "ten_to e = (if 0 \<le> e then 10 ^ nat e else 1 / 10 ^ nat (- e))"

text \<open>Six significant digits and their exponent.\<close>

definition six_digits :: "rat \<Rightarrow> int \<times> int" where
  "six_digits x =
     (let e = dec_exp x; d = half_even (x / ten_to (e - 5)) in if d = 1000000 then (100000, e + 1) else (d, e))"

definition strip_zeros :: "string \<Rightarrow> string" where
  "strip_zeros s = str_rstrip (\<lambda>c. c = CHR ''0'') s"

definition with_fraction :: "string \<Rightarrow> string \<Rightarrow> string" where
  "with_fraction whole fraction = (if strip_zeros fraction = [] then whole else whole @ ''.'' @ strip_zeros fraction)"

definition zero_pad :: "nat \<Rightarrow> string \<Rightarrow> string" where
  "zero_pad n s = replicate (n - length s) (CHR ''0'') @ s"

definition format_pos :: "rat \<Rightarrow> string" where
  "format_pos x =
     (case six_digits x of (d, e) \<Rightarrow>
        if -4 \<le> e \<and> e < 6
        then let p = nat (5 - e)
             in with_fraction (nat_digits (nat d div 10 ^ p)) (zero_pad p (if p = 0 then [] else nat_digits (nat d mod 10 ^ p)))
        else with_fraction (nat_digits (nat d div 100000)) (zero_pad 5 (nat_digits (nat d mod 100000)))
             @ ''e'' @ (if e < 0 then ''-'' else ''+'') @ zero_pad 2 (nat_digits (nat \<bar>e\<bar>)))"

text \<open>\<open>f"{x:g}"\<close>\<close>

definition format_g :: "rat \<Rightarrow> string" where
  "format_g x = (if x = 0 then ''0'' else if x < 0 then CHR ''-'' # format_pos (- x) else format_pos x)"

section \<open>Laws\<close>

lemma half_even_bounds: "\<bar>of_int (half_even x) - x\<bar> \<le> 1 / 2"
proof -
  have "of_int \<lfloor>x\<rfloor> \<le> x" "x < of_int \<lfloor>x\<rfloor> + 1" by linarith+
  then show ?thesis by (auto simp: half_even_def Let_def abs_le_iff)
qed

lemma half_even_of_int [simp]: "half_even (of_int n) = n"
  by (simp add: half_even_def)

lemma half_even_mono: "x \<le> y \<Longrightarrow> half_even x \<le> half_even y"
proof -
  assume le: "x \<le> y"
  show ?thesis
  proof (cases "\<lfloor>x\<rfloor> = \<lfloor>y\<rfloor>")
    case True
    then show ?thesis using le by (auto simp: half_even_def Let_def)
  next
    case False
    then have "\<lfloor>x\<rfloor> + 1 \<le> \<lfloor>y\<rfloor>" using floor_mono [OF le] by linarith
    then show ?thesis by (auto simp: half_even_def Let_def)
  qed
qed

lemma two_to_pos [simp]: "0 < two_to e"
  by (simp add: two_to_def)

lemma two_to_nonneg [simp]: "0 \<le> two_to e"
  by (simp add: less_imp_le)

lemma two_to_nonzero [simp]: "two_to e \<noteq> 0"
  using two_to_pos [of e] by linarith

lemma two_to_powi: "two_to e = 2 powi e"
  by (simp add: two_to_def power_int_def power_one_over)

lemma two_to_add: "two_to (a + b) = two_to a * two_to b"
  by (simp add: two_to_powi power_int_add)

lemma two_to_mono: "a \<le> b \<Longrightarrow> two_to a \<le> two_to b"
  by (simp add: two_to_powi power_int_increasing)

lemma two_to_less: "a < b \<Longrightarrow> two_to a < two_to b"
  by (simp add: two_to_powi power_int_strict_increasing)

lemma two_to_nat: "two_to (int n) = 2 ^ n"
  by (simp add: two_to_def)

lemma bitlen_two_to:
  assumes "0 < (p :: int)"
  shows "two_to (bitlen p - 1) \<le> of_int p" "of_int p < two_to (bitlen p)"
proof -
  have ge: "1 \<le> bitlen p" using assms bitlen_nonneg [of p] bitlen_eq_zero_iff [of p] by linarith
  have "2 ^ nat (bitlen p - 1) \<le> p" "p < 2 ^ nat (bitlen p)" using bitlen_bounds [OF assms] by simp_all
  then have "(of_int (2 ^ nat (bitlen p - 1)) :: rat) \<le> of_int p" "(of_int p :: rat) < of_int (2 ^ nat (bitlen p))"
    by (simp_all only: of_int_le_iff of_int_less_iff)
  then show "two_to (bitlen p - 1) \<le> of_int p" "of_int p < two_to (bitlen p)" using ge by (simp_all add: two_to_def)
qed

lemma bin_exp_bounds:
  assumes "0 < x"
  shows "two_to (bin_exp x) \<le> x" "x < two_to (bin_exp x + 1)"
proof -
  obtain p q where pq: "quotient_of x = (p, q)" by fastforce
  have x: "x = of_int p / of_int q" and q: "0 < q" using quotient_of_div [OF pq] quotient_of_denom_pos [OF pq] by simp_all
  have p: "0 < p" using assms x q by (simp add: zero_less_divide_iff)
  note bp = bitlen_two_to [OF p] and bq = bitlen_two_to [OF q]
  let ?e = "bitlen p - bitlen q"
  have q0: "(0 :: rat) < of_int q" using q by simp
  have "x < two_to (?e + 1)"
  proof -
    have "of_int p < two_to (?e + 1) * two_to (bitlen q - 1)" using bp(2) by (simp flip: two_to_add)
    also have "\<dots> \<le> two_to (?e + 1) * of_int q" using bq(1) by (simp add: mult_left_mono)
    finally show ?thesis using q0 by (simp add: x pos_divide_less_eq)
  qed
  moreover have "two_to (?e - 1) \<le> x"
  proof -
    have "two_to (?e - 1) * of_int q \<le> two_to (?e - 1) * two_to (bitlen q)" using bq(2) by simp
    also have "\<dots> \<le> of_int p" using bp(1) by (simp flip: two_to_add)
    finally show ?thesis using q0 by (simp add: x pos_le_divide_eq)
  qed
  ultimately show "two_to (bin_exp x) \<le> x" "x < two_to (bin_exp x + 1)"
    by (auto simp: bin_exp_def pq Let_def)
qed

lemma bin_exp_unique:
  assumes "two_to e \<le> x" "x < two_to (e + 1)"
  shows "bin_exp x = e"
proof -
  have "0 < x" using assms(1) two_to_pos [of e] by linarith
  note b = bin_exp_bounds [OF this]
  have "\<not> bin_exp x < e"
  proof
    assume "bin_exp x < e"
    then have "two_to (bin_exp x + 1) \<le> two_to e" by (simp add: two_to_mono)
    then show False using b(2) assms(1) by linarith
  qed
  moreover have "\<not> e < bin_exp x"
  proof
    assume "e < bin_exp x"
    then have "two_to (e + 1) \<le> two_to (bin_exp x)" by (simp add: two_to_mono)
    then show False using b(1) assms(2) by linarith
  qed
  ultimately show ?thesis by linarith
qed

lemma bin_exp_mono: "0 < x \<Longrightarrow> x \<le> y \<Longrightarrow> bin_exp x \<le> bin_exp y"
proof (rule ccontr)
  assume x: "0 < x" "x \<le> y" and "\<not> bin_exp x \<le> bin_exp y"
  then have "two_to (bin_exp y + 1) \<le> two_to (bin_exp x)" by (simp add: two_to_mono)
  then show False using bin_exp_bounds(1) [of x] bin_exp_bounds(2) [of y] x by linarith
qed

section \<open>Laws of the rounding\<close>

lemma fl_0 [simp]: "fl 0 = 0"
  by (simp add: fl_def)

lemma fl_pos_eq: "0 < x \<Longrightarrow> fl x = of_int (half_even (x * two_to (52 - bin_exp x))) / two_to (52 - bin_exp x)"
  by (simp add: fl_def Let_def)

lemma scaled_bounds:
  assumes "0 < x"
  shows "2 ^ 52 \<le> x * two_to (52 - bin_exp x)" "x * two_to (52 - bin_exp x) < 2 ^ 53"
proof -
  let ?s = "two_to (52 - bin_exp x)"
  have "two_to (bin_exp x) * ?s \<le> x * ?s" "x * ?s < two_to (bin_exp x + 1) * ?s"
    using bin_exp_bounds [OF assms] by simp_all
  moreover have "two_to (bin_exp x) * ?s = 2 ^ 52" "two_to (bin_exp x + 1) * ?s = 2 ^ 53"
    using two_to_add [of "bin_exp x" "52 - bin_exp x"] two_to_add [of "bin_exp x + 1" "52 - bin_exp x"] two_to_nat [of 52] two_to_nat [of 53]
    by simp_all
  ultimately show "2 ^ 52 \<le> x * ?s" "x * ?s < 2 ^ 53" by simp_all
qed

text \<open>A rounded number is an integer of 53 bits times a power of two.\<close>

lemma fl_mantissa:
  assumes "0 < x"
  obtains m where "fl x = of_int m * two_to (bin_exp x - 52)" "2 ^ 52 \<le> m" "m \<le> 2 ^ 53"
proof
  let ?s = "two_to (52 - bin_exp x)" and ?m = "half_even (x * two_to (52 - bin_exp x))"
  have "two_to (bin_exp x - 52) = 1 / ?s" using two_to_add [of "bin_exp x - 52" "52 - bin_exp x"] by (simp add: two_to_def field_simps)
  then show "fl x = of_int ?m * two_to (bin_exp x - 52)" by (simp add: fl_pos_eq [OF assms])
  have "half_even (of_int (2 ^ 52)) \<le> ?m" by (rule half_even_mono) (use scaled_bounds(1) [OF assms] in simp)
  then show "2 ^ 52 \<le> ?m" by (simp only: half_even_of_int)
  have "?m \<le> half_even (of_int (2 ^ 53))" by (rule half_even_mono) (use scaled_bounds(2) [OF assms] in simp)
  then show "?m \<le> 2 ^ 53" by (simp only: half_even_of_int)
qed

lemma fl_pos: "0 < x \<Longrightarrow> 0 < fl x"
proof -
  assume "0 < x"
  then obtain m where "fl x = of_int m * two_to (bin_exp x - 52)" "2 ^ 52 \<le> m" by (rule fl_mantissa)
  then show "0 < fl x" by simp
qed

lemma fl_nonneg: "0 \<le> x \<Longrightarrow> 0 \<le> fl x"
  using fl_pos [of x] by (cases "x = 0") auto

lemma fl_binade:
  assumes "0 < x"
  shows "two_to (bin_exp x) \<le> fl x" "fl x \<le> two_to (bin_exp x + 1)"
proof -
  obtain m where m: "fl x = of_int m * two_to (bin_exp x - 52)" "2 ^ 52 \<le> m" "m \<le> 2 ^ 53" using assms by (rule fl_mantissa)
  have "(of_int (2 ^ 52) :: rat) \<le> of_int m" "(of_int m :: rat) \<le> of_int (2 ^ 53)" using m(2,3) by (simp_all only: of_int_le_iff)
  then have "2 ^ 52 * two_to (bin_exp x - 52) \<le> fl x" "fl x \<le> 2 ^ 53 * two_to (bin_exp x - 52)" using m(1) by (simp_all add: mult_right_mono)
  moreover have "2 ^ 52 * two_to (bin_exp x - 52) = two_to (bin_exp x)" "2 ^ 53 * two_to (bin_exp x - 52) = two_to (bin_exp x + 1)"
    using two_to_add [of 52 "bin_exp x - 52"] two_to_add [of 53 "bin_exp x - 52"] two_to_nat [of 52] two_to_nat [of 53]
    by (simp_all add: add.commute)
  ultimately show "two_to (bin_exp x) \<le> fl x" "fl x \<le> two_to (bin_exp x + 1)" by simp_all
qed

lemma fl_mono:
  assumes "0 \<le> x" "x \<le> y"
  shows "fl x \<le> fl y"
proof (cases "x = 0")
  case True
  then show ?thesis using fl_nonneg [of y] assms by simp
next
  case False
  then have x: "0 < x" and y: "0 < y" using assms by simp_all
  show ?thesis
  proof (cases "bin_exp x = bin_exp y")
    case True
    have "half_even (x * two_to (52 - bin_exp y)) \<le> half_even (y * two_to (52 - bin_exp y))"
      using assms(2) by (simp add: half_even_mono mult_right_mono)
    then show ?thesis by (simp only: fl_pos_eq [OF x] fl_pos_eq [OF y] True) (simp add: divide_right_mono less_imp_le)
  next
    case False
    then have "two_to (bin_exp x + 1) \<le> two_to (bin_exp y)"
      using bin_exp_mono [OF x assms(2)] by (simp add: two_to_mono)
    then show ?thesis using fl_binade(2) [OF x] fl_binade(1) [OF y] by linarith
  qed
qed

lemma fl_error:
  assumes "0 < x"
  shows "\<bar>fl x - x\<bar> \<le> x / 2 ^ 53"
proof -
  let ?s = "two_to (52 - bin_exp x)"
  have "fl x - x = (of_int (half_even (x * ?s)) - x * ?s) / ?s" by (simp add: fl_pos_eq [OF assms] diff_divide_distrib)
  then have "\<bar>fl x - x\<bar> = \<bar>of_int (half_even (x * ?s)) - x * ?s\<bar> / ?s" by (simp add: abs_divide abs_of_pos)
  also have "\<dots> \<le> (1 / 2) / ?s" using half_even_bounds by (rule divide_right_mono) simp
  also have "\<dots> \<le> x / 2 ^ 53"
    using scaled_bounds(1) [OF assms] by (simp add: field_simps)
  finally show ?thesis .
qed

lemma bin_exp_scale: "0 < x \<Longrightarrow> bin_exp (x * two_to k) = bin_exp x + k"
  using bin_exp_bounds [of x] by (intro bin_exp_unique) (simp_all add: two_to_add mult_right_mono add.commute [of k] add.assoc [symmetric])

text \<open>Scaling by a power of two is exact.\<close>

lemma fl_scale:
  assumes "0 \<le> x"
  shows "fl (x * two_to k) = fl x * two_to k"
proof (cases "x = 0")
  case False
  then have x: "0 < x" using assms by simp
  then have xk: "0 < x * two_to k" by simp
  have s: "two_to (52 - bin_exp x) = two_to k * two_to (52 - bin_exp x - k)" by (simp flip: two_to_add)
  then have "x * two_to k * two_to (52 - (bin_exp x + k)) = x * two_to (52 - bin_exp x)" by (simp add: diff_diff_eq)
  then show ?thesis
    by (simp only: fl_pos_eq [OF xk] fl_pos_eq [OF x] bin_exp_scale [OF x] s) (simp add: diff_diff_eq field_simps)
qed simp

lemma fl_small_int:
  assumes "0 \<le> n" "n \<le> 2 ^ 53"
  shows "fl (of_int n) = of_int n"
proof (cases "n = 0")
  case False
  then have n: "0 < (of_int n :: rat)" using assms by simp
  let ?e = "bin_exp (of_int n)"
  have "\<exists>m. of_int n * two_to (52 - ?e) = of_int m"
  proof (cases "?e \<le> 52")
    case True
    then have "of_int n * two_to (52 - ?e) = of_int (n * 2 ^ nat (52 - ?e))" by (simp add: two_to_def)
    then show ?thesis by blast
  next
    case False
    have up: "(of_int n :: rat) \<le> 2 ^ 53" using assms(2) of_int_le_iff [of n "2 ^ 53", where 'a = rat] by simp
    have "two_to 53 \<le> two_to ?e" using False by (simp add: two_to_mono)
    then have "two_to 53 \<le> of_int n" using bin_exp_bounds(1) [OF n] by linarith
    then have "of_int n = (2 ^ 53 :: rat)" using up two_to_nat [of 53] by simp
    moreover from this have "?e = 53" by (simp add: bin_exp_unique two_to_def)
    ultimately have "of_int n * two_to (52 - ?e) = of_int (2 ^ 52)" by (simp add: two_to_def)
    then show ?thesis by blast
  qed
  then show ?thesis using fl_pos_eq [OF n] by (metis half_even_of_int nonzero_mult_div_cancel_right two_to_nonzero)
qed simp

lemma fl_fl:
  assumes "0 \<le> x"
  shows "fl (fl x) = fl x"
proof (cases "x = 0")
  case False
  then have "0 < x" using assms by simp
  then obtain m where m: "fl x = of_int m * two_to (bin_exp x - 52)" "2 ^ 52 \<le> m" "m \<le> 2 ^ 53" by (rule fl_mantissa)
  then have "fl (of_int m) = of_int m" by (intro fl_small_int) simp_all
  then show ?thesis using m fl_scale [of "of_int m" "bin_exp x - 52"] by simp
qed simp

text \<open>A quotient of doubles below one is not rounded up to one.\<close>

lemma fl_quotient_less:
  assumes "0 < a" "a < b" "fl a = a" "fl b = b"
  shows "fl (a / b) < 1"
proof -
  have b: "0 < b" using assms by simp
  obtain m where m: "a = of_int m * two_to (bin_exp a - 52)" using fl_mantissa [OF assms(1)] assms(3) by metis
  obtain n where n: "b = of_int n * two_to (bin_exp b - 52)" using fl_mantissa [OF b] assms(4) by metis
  let ?u = "two_to (bin_exp a - 52)" and ?d = "bin_exp b - bin_exp a"
  have d: "0 \<le> ?d" using bin_exp_mono [of a b] assms by simp
  define k where "k = n * 2 ^ nat ?d"
  have k: "b = of_int k * ?u" using n two_to_add [of ?d "bin_exp a - 52"] d by (simp add: two_to_def k_def)
  have "(of_int m :: rat) * ?u < of_int k * ?u" using assms(2) m k by simp
  then have "m + 1 \<le> k" by simp
  then have "(of_int m + 1 :: rat) \<le> of_int k" by (metis of_int_1 of_int_add of_int_le_iff)
  then have "(of_int m + 1) * ?u \<le> of_int k * ?u" by (rule mult_right_mono) simp
  then have gap: "a + ?u \<le> b" by (simp only: distrib_right mult_1 m [symmetric] k [symmetric])
  have "a < two_to (bin_exp a + 1)" using bin_exp_bounds(2) [OF assms(1)] .
  then have "a \<le> 2 ^ 53 * ?u" using two_to_add [of 53 "bin_exp a - 52"] two_to_nat [of 53] by (simp add: add.commute)
  then have "a * (2 ^ 53 + 1) \<le> 2 ^ 53 * b" using gap by (simp add: algebra_simps)
  then have "a / b \<le> 2 ^ 53 / (2 ^ 53 + 1)" using b by (simp add: field_simps)
  then have "fl (a / b) \<le> fl (2 ^ 53 / (2 ^ 53 + 1))" using assms b by (intro fl_mono) simp_all
  also have "\<dots> < 1" by code_simp
  finally show ?thesis .
qed

lemma fl_neg: "fl (- x) = - fl x"
  by (simp add: fl_def Let_def)

lemma fl_nonpos: "x \<le> 0 \<Longrightarrow> fl x \<le> 0"
  using fl_nonneg [of "- x"] fl_neg [of x] by simp

lemma fl_le: "x \<le> y \<Longrightarrow> 0 \<le> y \<Longrightarrow> fl x \<le> fl y"
  using fl_mono [of x y] fl_nonpos [of x] fl_nonneg [of y] by (cases "0 \<le> x") auto

lemma fl_error_abs: "\<bar>fl x - x\<bar> \<le> \<bar>x\<bar> / 2 ^ 53"
proof (cases x "0 :: rat" rule: linorder_cases)
  case less
  then have "\<bar>fl (- x) - - x\<bar> \<le> - x / 2 ^ 53" by (intro fl_error) simp
  then show ?thesis using less by (simp add: fl_neg abs_minus_commute)
next
  case greater
  then show ?thesis using fl_error [of x] by simp
qed simp

lemma half_even_near: "\<bar>x - of_int n\<bar> < 1 / 2 \<Longrightarrow> half_even x = n"
proof -
  assume "\<bar>x - of_int n\<bar> < 1 / 2"
  then have "\<bar>of_int (half_even x) - of_int n :: rat\<bar> < 1" using half_even_bounds [of x] by linarith
  then have "\<bar>of_int (half_even x - n) :: rat\<bar> < 1" by simp
  then show ?thesis by linarith
qed

section \<open>Capacity\<close>

text \<open>
  What a planner needs of the rounding: if \<open>c\<close> items of size \<open>b\<close> are said to fit into \<open>a\<close> because \<open>c\<close> is at most the rounded
  quotient, then the rounded product is at most \<open>a\<close> when \<open>c\<close> is a power of two, and exceeds it by less than
  one unit otherwise.
\<close>

locale rounding =
  fixes rnd :: "rat \<Rightarrow> rat"
  assumes rnd_le: "x \<le> y \<Longrightarrow> 0 \<le> y \<Longrightarrow> rnd x \<le> rnd y"
    and rnd_int: "0 \<le> n \<Longrightarrow> n \<le> 2 ^ 53 \<Longrightarrow> rnd (of_int n) = of_int n"
    and rnd_scale: "0 \<le> x \<Longrightarrow> rnd (x * 2 ^ k) = rnd x * 2 ^ k"
    and rnd_error: "0 < x \<Longrightarrow> \<bar>rnd x - x\<bar> \<le> x / 2 ^ 53"
    and rnd_quotient: "0 < x \<Longrightarrow> x < y \<Longrightarrow> rnd x = x \<Longrightarrow> rnd y = y \<Longrightarrow> rnd (x / y) < 1"
begin

lemma power_capacity:
  assumes "0 < b" "rnd b = b" "0 < a" "a \<le> 2 ^ 53" "2 ^ k \<le> \<lfloor>rnd (of_int a / b)\<rfloor>"
  shows "\<lceil>rnd (b * 2 ^ k)\<rceil> \<le> a"
proof -
  have b: "rnd (b * 2 ^ k) = b * 2 ^ k" using assms(1,2) rnd_scale [of b k] by simp
  have "\<not> of_int a < b * 2 ^ k"
  proof
    assume less: "of_int a < b * 2 ^ k"
    have "rnd (of_int a / (b * 2 ^ k)) < 1"
      using assms rnd_int [of a] less b by (intro rnd_quotient) simp_all
    then have "rnd (of_int a / (b * 2 ^ k)) * 2 ^ k < 2 ^ k" by simp
    moreover have "rnd (of_int a / (b * 2 ^ k) * 2 ^ k) = rnd (of_int a / (b * 2 ^ k)) * 2 ^ k"
      by (rule rnd_scale) (use assms in simp)
    ultimately have "rnd (of_int a / b) < 2 ^ k" by simp
    then have "\<lfloor>rnd (of_int a / b)\<rfloor> < 2 ^ k" by (simp add: floor_less_iff)
    then show False using assms(5) by simp
  qed
  then show ?thesis using b by (simp add: ceiling_le_iff)
qed

lemma any_capacity:
  assumes "0 < b" "0 < a" "a < 2 ^ 53" "c \<le> \<lfloor>rnd (of_int a / b)\<rfloor>"
  shows "\<lceil>rnd (b * of_int c)\<rceil> \<le> a + 1"
proof -
  let ?q = "of_int a / b"
  have q: "0 < ?q" using assms by simp
  have "of_int c \<le> rnd ?q" using assms(4) by (simp add: le_floor_iff)
  also have "\<dots> \<le> ?q + ?q / 2 ^ 53" using rnd_error [OF q] by (simp add: abs_le_iff)
  finally have "b * of_int c \<le> b * (?q + ?q / 2 ^ 53)" by (rule mult_left_mono) (use assms(1) in simp)
  also have "\<dots> = of_int a + of_int a / 2 ^ 53" using assms(1) by (simp add: distrib_left)
  also have "\<dots> \<le> of_int a + 1"
  proof -
    have "(of_int a :: rat) \<le> of_int (2 ^ 53)" using assms(3) by (simp only: of_int_le_iff)
    then show ?thesis by simp
  qed
  finally have "rnd (b * of_int c) \<le> rnd (of_int (a + 1))" using assms(2) by (intro rnd_le) simp_all
  also have "\<dots> = of_int (a + 1)" using assms by (intro rnd_int) simp_all
  finally show ?thesis by (simp add: ceiling_le_iff)
qed

end

interpretation double: rounding fl
proof
  show "fl (x * 2 ^ k) = fl x * 2 ^ k" if "0 \<le> x" for x k
    using fl_scale [OF that, of "int k"] by (simp add: two_to_nat)
qed (blast intro: fl_le fl_small_int fl_error fl_quotient_less)+

end
