(* ===== verification/VllmFit.thy ===== *)
theory VllmFit
  imports PyFloat PyText
begin

text \<open>
  \<^verbatim>\<open>provisioning/vllm_fit.py\<close>: which model a set of GPUs gets and with which settings vLLM is launched. The
  plan is pure; memory sizes are in MiB and fractions are Python floats (\<open>PyFloat\<close>). The geometry read from a
  model cache on disk is the argument \<open>cached\<close>.
\<close>

section \<open>Policy tables\<close>

definition MIB :: int where
  "MIB = 1024 * 1024"

definition CONTEXT_LADDER :: "int list" where
  "CONTEXT_LADDER = [2048, 4096, 8192, 16384, 32768, 65536, 131072]"

definition MIN_CONTEXT :: int where
  "MIN_CONTEXT = 2048"

definition BATCH_LADDER :: "int list" where
  "BATCH_LADDER = [2048, 4096, 8192, 16384, 32768]"

definition MIN_GPU_MEMORY_UTILIZATION :: rat where
  "MIN_GPU_MEMORY_UTILIZATION = fl (1 / 2)"

definition DEFAULT_GPU_MEMORY_UTILIZATION :: rat where
  "DEFAULT_GPU_MEMORY_UTILIZATION = fl (9 / 10)"

definition PROFILE_RUNTIME_OVERHEAD_MIB :: "(string, int) dict" where
  "PROFILE_RUNTIME_OVERHEAD_MIB =
     [(''hopper'', 6144), (''ampere-a100'', 5120), (''ampere-a30'', 4096), (''ga102-dc'', 4096), (''volta'', 4096),
      (''turing'', 2048), (''consumer-ada'', 2048), (''consumer-ampere'', 2048), (''consumer-turing'', 2048)]"

definition DEFAULT_RUNTIME_OVERHEAD_MIB :: int where
  "DEFAULT_RUNTIME_OVERHEAD_MIB = 4096"

definition MIN_RESERVE_MIB :: int where
  "MIN_RESERVE_MIB = 256"

definition RESERVE_FRACTION :: rat where
  "RESERVE_FRACTION = fl (2 / 100)"

definition APPROXIMATE_RESERVE_FRACTION :: rat where
  "APPROXIMATE_RESERVE_FRACTION = fl (10 / 100)"

definition PROFILE_DESIRED_CONTEXT :: "(string, int) dict" where
  "PROFILE_DESIRED_CONTEXT =
     [(''hopper'', 32768), (''ampere-a100'', 32768), (''ampere-a30'', 32768), (''ga102-dc'', 32768), (''volta'', 8192),
      (''turing'', 8192), (''consumer-ada'', 4096), (''consumer-ampere'', 4096), (''consumer-turing'', 4096)]"

definition DEFAULT_DESIRED_CONTEXT :: int where
  "DEFAULT_DESIRED_CONTEXT = 4096"

definition PROFILE_COMPUTE_CAPABILITY :: "(string, int \<times> int) dict" where
  "PROFILE_COMPUTE_CAPABILITY =
     [(''hopper'', (9, 0)), (''ampere-a100'', (8, 0)), (''ampere-a30'', (8, 0)), (''ga102-dc'', (8, 6)), (''volta'', (7, 0)),
      (''turing'', (7, 5)), (''consumer-ada'', (8, 9)), (''consumer-ampere'', (8, 6)), (''consumer-turing'', (7, 5))]"

definition DATACENTER_BUCKETS :: "string list" where
  "DATACENTER_BUCKETS = [''hopper'', ''ampere-a100'', ''ampere-a30'', ''ga102-dc'', ''volta'']"

definition DTYPE_BYTES :: "(string, int) dict" where
  "DTYPE_BYTES =
     [(''auto'', 2), (''half'', 2), (''float16'', 2), (''bfloat16'', 2), (''float'', 4), (''float32'', 4), (''float8'', 1), (''int8'', 1)]"

definition dtype_bytes :: "string option \<Rightarrow> int" where
  "dtype_bytes dtype = (case dtype of None \<Rightarrow> 2 | Some d \<Rightarrow> dict_get_or DTYPE_BYTES (str_lower (str_strip d)) 2)"

section \<open>Data\<close>

record VllmModelProfile =
  vm_name :: string
  vm_weights_mib :: int
  vm_num_hidden_layers :: int
  vm_hidden_size :: int
  vm_num_attention_heads :: int
  vm_num_key_value_heads :: int
  vm_head_dim :: int
  vm_max_position_embeddings :: int
  vm_kv_dtype :: string
  vm_quantized :: bool
  vm_approximate :: bool

record VllmDeviceMemory =
  vd_index :: int
  vd_total_mib :: int
  vd_free_mib :: int
  vd_compute_capability :: "string option"

record VllmRequested =
  vq_model :: "string option"
  vq_tensor_parallel_size :: "int option"
  vq_max_model_len :: "int option"
  vq_max_num_batched_tokens :: "int option"
  vq_gpu_memory_utilization :: "rat option"
  vq_dtype :: "string option"
  vq_gpu_devices :: "int list option"

definition VllmRequested_new :: VllmRequested where
  "VllmRequested_new = \<lparr>vq_model = None, vq_tensor_parallel_size = None, vq_max_model_len = None,
     vq_max_num_batched_tokens = None, vq_gpu_memory_utilization = None, vq_dtype = None, vq_gpu_devices = None\<rparr>"

record VllmEffective =
  ve_model :: string
  ve_tensor_parallel_size :: int
  ve_max_model_len :: int
  ve_max_num_batched_tokens :: int
  ve_gpu_memory_utilization :: rat
  ve_dtype :: "string option"
  ve_attention_backend :: "string option"

record VllmEstimate =
  vs_weights_mib :: int
  vs_weights_per_gpu_mib :: int
  vs_kv_cache_mib :: int
  vs_runtime_overhead_mib :: int
  vs_reserve_mib :: int
  vs_usable_budget_mib :: int
  vs_free_per_gpu_mib :: int

definition total_mib :: "VllmEstimate \<Rightarrow> int" where
  "total_mib e = vs_weights_per_gpu_mib e + vs_kv_cache_mib e + vs_runtime_overhead_mib e + vs_reserve_mib e"

datatype ModelSelection = EXPLICIT | AUTOMATIC

datatype AdjustmentReason = OOM_RETRY | FREE_MEMORY | TOPOLOGY

record FitAdjustment =
  va_field :: string
  va_previous :: string
  va_value :: string
  va_reason :: AdjustmentReason

record VllmFitPlan =
  vf_model :: string
  vf_model_selection :: ModelSelection
  vf_model_reason :: string
  vf_attempt :: int
  vf_fitting :: bool
  vf_reason :: string
  vf_requested :: VllmRequested
  vf_effective :: VllmEffective
  vf_estimate :: VllmEstimate
  vf_adjustments :: "FitAdjustment list"
  vf_retry_available :: bool
  vf_approximate :: bool

section \<open>Model selection\<close>

definition catalog_model :: "string \<Rightarrow> int \<Rightarrow> int \<Rightarrow> int \<Rightarrow> int \<Rightarrow> int \<Rightarrow> int \<Rightarrow> string \<Rightarrow> bool \<Rightarrow> string \<times> VllmModelProfile" where
  "catalog_model name weights layers hidden heads kv_heads positions dtype quantized =
     (name, \<lparr>vm_name = name, vm_weights_mib = weights, vm_num_hidden_layers = layers, vm_hidden_size = hidden,
        vm_num_attention_heads = heads, vm_num_key_value_heads = kv_heads, vm_head_dim = 128,
        vm_max_position_embeddings = positions, vm_kv_dtype = dtype, vm_quantized = quantized, vm_approximate = False\<rparr>)"

definition MODEL_CATALOG :: "(string, VllmModelProfile) dict" where
  "MODEL_CATALOG =
     [catalog_model ''Qwen/Qwen2.5-72B-Instruct'' 145000 80 8192 64 8 32768 ''bfloat16'' False,
      catalog_model ''Qwen/Qwen2.5-32B-Instruct'' 64000 64 5120 40 8 32768 ''bfloat16'' False,
      catalog_model ''Qwen/Qwen2.5-14B-Instruct'' 28500 48 5120 40 8 32768 ''bfloat16'' False,
      catalog_model ''Qwen/Qwen2.5-7B-Instruct'' 15200 28 3584 28 4 32768 ''bfloat16'' False,
      catalog_model ''Qwen/Qwen3-14B-AWQ'' 9500 40 5120 40 8 40960 ''float16'' True]"

definition OOM_SIGNATURES :: "string list" where
  "OOM_SIGNATURES =
     [''cuda out of memory'', ''cuda error: out of memory'', ''torch.cuda.outofmemoryerror'', ''out of memory on device'',
      ''less than desired gpu memory utilization'', ''memory plan reserved'']"

definition is_memory_failure :: "string \<Rightarrow> bool" where
  "is_memory_failure log_text = list_ex (str_contains (str_lower log_text)) OOM_SIGNATURES"

text \<open>\<open>s.partition(".")\<close> without the separator.\<close>

definition dot_partition :: "string \<Rightarrow> string \<times> string" where
  "dot_partition s = (takeWhile (\<lambda>c. c \<noteq> CHR ''.'') s, drop 1 (dropWhile (\<lambda>c. c \<noteq> CHR ''.'') s))"

definition vllm_profile_bucket :: "string \<Rightarrow> int \<Rightarrow> py_error + string" where
  "vllm_profile_bucket compute_capability vram =
     (case dot_partition (str_strip compute_capability) of (major, minor) \<Rightarrow>
        if \<not> str_isdigit major \<or> \<not> str_isdigit minor then Inl (ValueError ''cannot parse GPU compute capability'')
        else
          (let sm = digits_value major * 10 + digits_value minor; vram_gb = (vram + 512) div 1024
           in if sm = 90 \<and> vram_gb \<ge> 80 then Inr ''hopper''
              else if sm = 80 \<and> vram_gb \<ge> 40 then Inr ''ampere-a100''
              else if sm = 80 \<and> vram_gb \<ge> 24 then Inr ''ampere-a30''
              else if sm = 86 \<and> vram \<ge> 45056 then Inr ''ga102-dc''
              else if sm = 86 then Inr ''consumer-ampere''
              else if sm = 89 then Inr ''consumer-ada''
              else if sm = 75 \<and> vram \<ge> 14336 then Inr ''turing''
              else if sm = 75 then Inr ''consumer-turing''
              else Inl (ValueError ''no tested runtime profile'')))"

definition select_vllm_model :: "string \<Rightarrow> int \<Rightarrow> py_error + string" where
  "select_vllm_model bucket total_vram_gb =
     (if bucket \<in> {''hopper'', ''ampere-a100''} then
        Inr (if total_vram_gb \<ge> 240 then ''Qwen/Qwen2.5-72B-Instruct''
             else if total_vram_gb \<ge> 80 then ''Qwen/Qwen2.5-32B-Instruct'' else ''Qwen/Qwen2.5-14B-Instruct'')
      else if bucket \<in> {''ampere-a30'', ''ga102-dc''} then
        Inr (if total_vram_gb \<ge> 80 then ''Qwen/Qwen2.5-32B-Instruct''
             else if total_vram_gb \<ge> 40 then ''Qwen/Qwen2.5-14B-Instruct'' else ''Qwen/Qwen2.5-7B-Instruct'')
      else if bucket \<in> {''turing'', ''consumer-turing''} then
        Inr (if bucket = ''turing'' \<and> total_vram_gb \<le> 16 then ''Qwen/Qwen3-14B-AWQ'' else ''Qwen/Qwen2.5-7B-Instruct'')
      else if bucket = ''volta'' then
        Inr (if total_vram_gb \<ge> 96 then ''Qwen/Qwen2.5-32B-Instruct'' else ''Qwen/Qwen2.5-14B-Instruct'')
      else if bucket \<in> {''consumer-ada'', ''consumer-ampere''} then
        Inr (if total_vram_gb \<ge> 48 then ''Qwen/Qwen2.5-14B-Instruct'' else ''Qwen/Qwen2.5-7B-Instruct'')
      else Inl (ValueError ''no automatic model policy for profile''))"

text \<open>
  The first match of \<open>(?<![0-9.])([0-9]+(?:\.[0-9]+)?)\s*[bB](?![a-zA-Z])\<close>: what may precede it is neither a digit nor a dot, and
  backtracking into the number or the white space never helps, because what follows them cannot be a digit, a dot or white space.
\<close>

text \<open>The number at the beginning of the text, as integer and fraction digits, when a parameter count starts there.\<close>

definition count_here :: "string \<Rightarrow> (string \<times> string) option" where
  "count_here s =
     (let whole = takeWhile is_digit s; rest = dropWhile is_digit s;
          fraction = (if take 1 rest = ''.'' then takeWhile is_digit (drop 1 rest) else []);
          rest = (if fraction = [] then rest else drop (Suc (length fraction)) rest)
      in if whole = [] then None
         else case dropWhile is_space rest of
           c # r \<Rightarrow> if c \<in> {CHR ''b'', CHR ''B''} \<and> (r = [] \<or> \<not> is_letter (hd r)) then Some (whole, fraction) else None
         | [] \<Rightarrow> None)"

fun find_count :: "bool \<Rightarrow> string \<Rightarrow> (string \<times> string) option" where
  "find_count may_start [] = None"
| "find_count may_start (c # cs) =
     (case (if may_start then count_here (c # cs) else None) of
        Some x \<Rightarrow> Some x
      | None \<Rightarrow> find_count (\<not> is_digit c \<and> c \<noteq> CHR ''.'') cs)"

definition float_of_decimal :: "string \<times> string \<Rightarrow> rat" where
  "float_of_decimal = (\<lambda>(whole, fraction). fl (of_int (digits_value (whole @ fraction)) / 10 ^ length fraction))"

definition QUANTIZED_MARKERS :: "string list" where
  "QUANTIZED_MARKERS = [''awq'', ''gptq'', ''4bit'', ''4-bit'', ''int4'', ''fp8'', ''w4a16'']"

definition estimate_model_profile :: "string \<Rightarrow> py_error + VllmModelProfile" where
  "estimate_model_profile model =
     (case find_count True model of
        None \<Rightarrow> Inl (ValueError ''cannot estimate the size of model'')
      | Some number \<Rightarrow>
          (let params = fmul (float_of_decimal number) (10 ^ 9);
               quantized = list_ex (str_contains (str_lower model)) QUANTIZED_MARKERS;
               bytes_per_param = (if quantized then 1 / 2 else 2);
               weights = \<lceil>fdiv (fmul (fmul params bytes_per_param) (fl (11 / 10))) (of_int MIB)\<rceil>;
               layers = max 24 (min 80 (half_even (fadd (fdiv params (10 ^ 9)) 12)))
           in Inr \<lparr>vm_name = model, vm_weights_mib = weights, vm_num_hidden_layers = layers, vm_hidden_size = 4096,
                vm_num_attention_heads = 32, vm_num_key_value_heads = 8, vm_head_dim = 128,
                vm_max_position_embeddings = 8192, vm_kv_dtype = (if quantized then ''float16'' else ''bfloat16''),
                vm_quantized = quantized, vm_approximate = True\<rparr>))"

definition model_profile_for :: "(string \<Rightarrow> VllmModelProfile option) \<Rightarrow> string \<Rightarrow> py_error + VllmModelProfile" where
  "model_profile_for cached model =
     (case dict_get MODEL_CATALOG model of
        Some known \<Rightarrow> Inr known
      | None \<Rightarrow> (case cached model of Some loaded \<Rightarrow> Inr loaded | None \<Rightarrow> estimate_model_profile model))"

section \<open>Adjustments\<close>

record MutableEffective =
  me_tensor_parallel_size :: int
  me_max_model_len :: int
  me_max_num_batched_tokens :: int
  me_gpu_memory_utilization :: rat
  me_dtype :: "string option"
  me_attention_backend :: "string option"

definition context_halved :: "MutableEffective \<Rightarrow> MutableEffective" where
  "context_halved e =
     (let n = max MIN_CONTEXT (me_max_model_len e div 2)
      in e\<lparr>me_max_model_len := n, me_max_num_batched_tokens := min (me_max_num_batched_tokens e) n\<rparr>)"

definition batch_reduced :: "MutableEffective \<Rightarrow> MutableEffective" where
  "batch_reduced e = e\<lparr>me_max_num_batched_tokens := min (me_max_num_batched_tokens e) MIN_CONTEXT\<rparr>"

definition utilization_reduced :: "MutableEffective \<Rightarrow> MutableEffective" where
  "utilization_reduced e =
     e\<lparr>me_gpu_memory_utilization :=
         max MIN_GPU_MEMORY_UTILIZATION (round2 (fsub (me_gpu_memory_utilization e) (fl (5 / 100))))\<rparr>"

datatype AdjustmentStep = CONTEXT_STEP | BATCH_STEP | UTILIZATION_STEP

fun step_field :: "AdjustmentStep \<Rightarrow> string" where
  "step_field CONTEXT_STEP = ''max_model_len''"
| "step_field BATCH_STEP = ''max_num_batched_tokens''"
| "step_field UTILIZATION_STEP = ''gpu_memory_utilization''"

fun step_apply :: "AdjustmentStep \<Rightarrow> MutableEffective \<Rightarrow> MutableEffective" where
  "step_apply CONTEXT_STEP e = context_halved e"
| "step_apply BATCH_STEP e = batch_reduced e"
| "step_apply UTILIZATION_STEP e = utilization_reduced e"

fun is_explicit :: "AdjustmentStep \<Rightarrow> VllmRequested \<Rightarrow> bool" where
  "is_explicit CONTEXT_STEP r = (vq_max_model_len r \<noteq> None)"
| "is_explicit BATCH_STEP r = (vq_max_num_batched_tokens r \<noteq> None)"
| "is_explicit UTILIZATION_STEP r = (vq_gpu_memory_utilization r \<noteq> None)"

definition ADJUSTMENT_POLICY :: "AdjustmentStep list" where
  "ADJUSTMENT_POLICY = [CONTEXT_STEP, BATCH_STEP, UTILIZATION_STEP]"

definition reduction_key :: "MutableEffective \<Rightarrow> int \<times> int \<times> rat" where
  "reduction_key e = (me_max_model_len e, me_max_num_batched_tokens e, me_gpu_memory_utilization e)"

section \<open>Memory arithmetic\<close>

abbreviation to_float :: "int \<Rightarrow> rat" where
  "to_float n \<equiv> fl (of_int n)"

definition utilization_fits :: "VllmDeviceMemory list \<Rightarrow> rat \<Rightarrow> bool" where
  "utilization_fits devices utilization \<longleftrightarrow>
     utilization > 0 \<and> list_all (\<lambda>d. \<lceil>fmul (to_float (vd_total_mib d)) utilization\<rceil> \<le> vd_free_mib d) devices"

text \<open>The \<open>while\<close> loop, with a bound on its iterations; \<open>None\<close> when the bound is too small.\<close>

fun lower_utilization :: "nat \<Rightarrow> VllmDeviceMemory list \<Rightarrow> rat \<Rightarrow> rat option" where
  "lower_utilization n devices candidate =
     (if candidate > 0 \<and> \<not> utilization_fits devices candidate
      then case n of 0 \<Rightarrow> None | Suc m \<Rightarrow> lower_utilization m devices (round2 (fsub candidate (fl (1 / 100))))
      else Some candidate)"

fun free_ratio :: "rat \<Rightarrow> VllmDeviceMemory list \<Rightarrow> rat option" where
  "free_ratio ratio [] = Some ratio"
| "free_ratio ratio (d # ds) =
     (if vd_total_mib d \<le> 0 then None
      else free_ratio (min ratio (fdiv (of_int (vd_free_mib d)) (of_int (vd_total_mib d)))) ds)"

definition max_fitting_utilization :: "VllmDeviceMemory list \<Rightarrow> py_error + rat" where
  "max_fitting_utilization devices =
     (if devices = [] then Inr 0
      else case free_ratio 1 devices of
        None \<Rightarrow> Inr 0
      | Some ratio \<Rightarrow>
          (case lower_utilization 100 devices (fdiv (of_int \<lfloor>fmul ratio 100\<rfloor>) 100) of
             None \<Rightarrow> Inl RecursionLimit
           | Some candidate \<Rightarrow> Inr (max 0 candidate)))"

definition effective_weights_mib :: "VllmModelProfile \<Rightarrow> string option \<Rightarrow> int" where
  "effective_weights_mib model dtype =
     (if vm_quantized model then vm_weights_mib model
      else let native = dtype_bytes (Some (vm_kv_dtype model)); chosen = dtype_bytes dtype
           in if chosen = native then vm_weights_mib model
              else \<lceil>fdiv (of_int (vm_weights_mib model * chosen)) (of_int native)\<rceil>)"

definition kv_bytes_per_token_for :: "VllmModelProfile \<Rightarrow> string option \<Rightarrow> int" where
  "kv_bytes_per_token_for model dtype =
     2 * vm_num_hidden_layers model * vm_num_key_value_heads model * vm_head_dim model * dtype_bytes dtype"

definition tensor_parallel_valid :: "VllmModelProfile \<Rightarrow> int \<Rightarrow> bool" where
  "tensor_parallel_valid model tp \<longleftrightarrow>
     tp \<le> 1 \<or>
     (let heads = vm_num_attention_heads model; kv_heads = min (vm_num_key_value_heads model) heads
      in tp \<le> heads \<and> heads mod tp = 0 \<and> (if tp \<le> kv_heads then kv_heads mod tp = 0 else tp mod kv_heads = 0))"

definition largest_valid_tensor_parallel :: "VllmModelProfile \<Rightarrow> int \<Rightarrow> int" where
  "largest_valid_tensor_parallel model device_count =
     (case find (tensor_parallel_valid model) (rev [1..min device_count (vm_num_attention_heads model)]) of
        Some candidate \<Rightarrow> candidate | None \<Rightarrow> 1)"

fun ladder_loop :: "int \<Rightarrow> int \<Rightarrow> int list \<Rightarrow> int" where
  "ladder_loop limit best [] = best"
| "ladder_loop limit best (v # vs) = (if v \<le> limit then ladder_loop limit v vs else best)"

definition largest_ladder_value :: "int \<Rightarrow> int list \<Rightarrow> int" where
  "largest_ladder_value limit ladder = ladder_loop limit 0 ladder"

definition default_tensor_parallel :: "string \<Rightarrow> int \<Rightarrow> int" where
  "default_tensor_parallel bucket device_count = (if bucket \<in> set DATACENTER_BUCKETS then max 1 device_count else 1)"

text \<open>Python compares the capability pairs lexicographically.\<close>

definition capability_at_least :: "string \<Rightarrow> int \<Rightarrow> bool" where
  "capability_at_least bucket major \<longleftrightarrow> major \<le> fst (dict_get_or PROFILE_COMPUTE_CAPABILITY bucket (7, 5))"

definition choose_dtype :: "string \<Rightarrow> VllmModelProfile \<Rightarrow> string" where
  "choose_dtype bucket model =
     (if vm_quantized model \<or> \<not> capability_at_least bucket 8 then ''float16''
      else if vm_kv_dtype model \<in> {''bfloat16'', ''float16''} then vm_kv_dtype model else ''bfloat16'')"

definition choose_attention_backend :: "string \<Rightarrow> string option" where
  "choose_attention_backend bucket =
     (if capability_at_least bucket 9 then Some ''FLASHINFER''
      else if capability_at_least bucket 8 then Some ''FLASH_ATTN'' else None)"

section \<open>Planning\<close>

definition py_min :: "int list \<Rightarrow> py_error + int" where
  "py_min xs = (if xs = [] then Inl (ValueError ''min() arg is an empty sequence'') else Inr (Min (set xs)))"

definition resolve_model ::
  "string \<Rightarrow> VllmDeviceMemory list \<Rightarrow> VllmRequested \<Rightarrow> int \<Rightarrow> py_error + string \<times> ModelSelection \<times> string" where
  "resolve_model bucket devices requested tp =
     (case vq_model requested of
        Some (c # cs) \<Rightarrow> Inr (c # cs, EXPLICIT, ''explicit model '' @ (c # cs))
      | _ \<Rightarrow>
          ebind (py_min (map vd_total_mib devices)) (\<lambda>smallest.
          let per_card_gb = (smallest + 512) div 1024;
              sizing_gb = (if bucket \<in> set DATACENTER_BUCKETS then tp * per_card_gb else per_card_gb)
          in ebind (select_vllm_model bucket sizing_gb) (\<lambda>model.
             Inr (model, AUTOMATIC,
               ''automatic policy: profile '' @ bucket @ '' with '' @ str_int sizing_gb @ '' GB (tp='' @ str_int tp
               @ '', '' @ str_int per_card_gb @ '' GB/device)''))))"

definition start_tensor_parallel :: "string \<Rightarrow> VllmRequested \<Rightarrow> int \<Rightarrow> int \<times> string option" where
  "start_tensor_parallel bucket requested device_count =
     (let tp = (case vq_tensor_parallel_size requested of
            Some n \<Rightarrow> if n \<noteq> 0 then n else default_tensor_parallel bucket device_count
          | None \<Rightarrow> default_tensor_parallel bucket device_count)
      in if tp > device_count
         then (device_count,
               if vq_tensor_parallel_size requested \<noteq> None
               then Some (''explicit tensor_parallel_size '' @ str_int tp @ '' exceeds the '' @ str_int device_count @ '' selected device(s)'')
               else None)
         else (tp, None))"

record resolved_model =
  rm_name :: string
  rm_selection :: ModelSelection
  rm_why :: string
  rm_model :: VllmModelProfile
  rm_tp :: int
  rm_blocked :: "string option"
  rm_adjustment :: "FitAdjustment option"

text \<open>\<open>for _ in range(3)\<close>; the argument counts the iterations left after this one.\<close>

fun resolve_loop ::
  "nat \<Rightarrow> (string \<Rightarrow> VllmModelProfile option) \<Rightarrow> string \<Rightarrow> VllmDeviceMemory list \<Rightarrow> VllmRequested \<Rightarrow> int \<Rightarrow> string option
    \<Rightarrow> FitAdjustment option \<Rightarrow> py_error + resolved_model" where
  "resolve_loop n cached bucket devices requested tp blocked adjustment =
     ebind (resolve_model bucket (py_slice_to tp devices) requested tp) (\<lambda>(name, selection, why).
     ebind (model_profile_for cached name) (\<lambda>model.
       let found = \<lparr>rm_name = name, rm_selection = selection, rm_why = why, rm_model = model, rm_tp = tp,
                     rm_blocked = blocked, rm_adjustment = adjustment\<rparr>
       in if tensor_parallel_valid model tp then Inr found
          else if vq_tensor_parallel_size requested \<noteq> None
          then Inr (found\<lparr>rm_blocked := (if blocked = None
                 then Some (''explicit tensor_parallel_size '' @ str_int tp @ '' is not shardable for '' @ name @ '' (''
                        @ str_int (vm_num_attention_heads model) @ '' attention / '' @ str_int (vm_num_key_value_heads model) @ '' KV heads)'')
                 else blocked)\<rparr>)
          else
            let reduced = largest_valid_tensor_parallel model (int (length devices))
            in if reduced = tp then Inr found
               else
                 let adjustment = (if adjustment = None
                       then Some \<lparr>va_field = ''tensor_parallel_size'', va_previous = str_int tp, va_value = str_int reduced, va_reason = TOPOLOGY\<rparr>
                       else adjustment)
                 in case n of
                      0 \<Rightarrow> Inr (found\<lparr>rm_tp := reduced, rm_adjustment := adjustment\<rparr>)
                    | Suc m \<Rightarrow> resolve_loop m cached bucket devices requested reduced blocked adjustment))"

definition or_else :: "'a option \<Rightarrow> 'a option \<Rightarrow> 'a option" where
  "or_else x y = (if x \<noteq> None then x else y)"

text \<open>The utilization, why it blocks the plan, and the adjustment it causes.\<close>

definition choose_utilization ::
  "VllmDeviceMemory list \<Rightarrow> VllmRequested \<Rightarrow> py_error + rat \<times> string option \<times> FitAdjustment list" where
  "choose_utilization allocated requested =
     (case vq_gpu_memory_utilization requested of
        Some u \<Rightarrow>
          if utilization_fits allocated u then Inr (u, None, [])
          else
            ebind (py_min (map vd_total_mib allocated)) (\<lambda>smallest.
            ebind (py_min (map vd_free_mib allocated)) (\<lambda>free.
            Inr (u, Some (''explicit gpu_memory_utilization '' @ format_g u @ '' needs ''
                   @ str_int \<lceil>fmul (to_float smallest) u\<rceil> @ '' MiB free per device but only '' @ str_int free @ '' MiB is available''), [])))
      | None \<Rightarrow>
          ebind (max_fitting_utilization allocated) (\<lambda>util_cap.
          let u = min DEFAULT_GPU_MEMORY_UTILIZATION util_cap
          in Inr (if u < DEFAULT_GPU_MEMORY_UTILIZATION
                  then if u < MIN_GPU_MEMORY_UTILIZATION
                       then (u, Some (''free memory cannot satisfy the minimum GPU memory utilization ''
                               @ format_g MIN_GPU_MEMORY_UTILIZATION @ '' (at most '' @ format_g util_cap @ '' is available)''), [])
                       else (u, None, [\<lparr>va_field = ''gpu_memory_utilization'', va_previous = format_g DEFAULT_GPU_MEMORY_UTILIZATION,
                               va_value = format_g u, va_reason = FREE_MEMORY\<rparr>])
                  else (u, None, []))))"

definition memory_budget ::
  "VllmModelProfile \<Rightarrow> VllmDeviceMemory list \<Rightarrow> int \<Rightarrow> rat \<Rightarrow> int \<Rightarrow> int \<Rightarrow> py_error + int \<times> int \<times> int \<times> int \<times> rat" where
  "memory_budget model devices tp utilization weights kv_bytes_per_token =
     ebind (py_min (map (\<lambda>d. min (vd_free_mib d) \<lfloor>fmul (to_float (vd_total_mib d)) utilization\<rfloor>) devices)) (\<lambda>budget.
     ebind (py_min (map vd_free_mib devices)) (\<lambda>free.
       let weights_per_gpu = \<lceil>fdiv (of_int weights) (of_int tp)\<rceil>;
           kv_shards = max 1 (min tp (vm_num_key_value_heads model));
           kv_per_token = fdiv (fdiv (of_int kv_bytes_per_token) (of_int kv_shards)) (of_int MIB)
       in Inr (budget - weights_per_gpu, budget, free, weights_per_gpu, kv_per_token)))"

definition fit_context ::
  "VllmModelProfile \<Rightarrow> VllmRequested \<Rightarrow> int \<Rightarrow> int \<Rightarrow> int \<Rightarrow> rat \<Rightarrow> int \<Rightarrow> bool \<times> int \<times> string" where
  "fit_context model requested desired_context current_context kv_budget kv_per_token weights_per_gpu =
     (if kv_budget \<le> 0 \<or> kv_per_token \<le> 0
      then (False, current_context, ''weights ('' @ str_int weights_per_gpu @ '' MiB) plus runtime overhead and reserve exceed the usable device budget'')
      else
        let max_context_by_kv = \<lfloor>fdiv (to_float kv_budget) kv_per_token\<rfloor>
        in if vq_max_model_len requested \<noteq> None
           then if max_context_by_kv < current_context
                then (False, current_context, ''explicit max_model_len '' @ str_int current_context @ '' needs more KV memory than the ''
                       @ str_int kv_budget @ '' MiB left after weights'')
                else (True, current_context, ''explicit max_model_len fits the budget'')
           else
             let chosen = largest_ladder_value (min (min current_context max_context_by_kv) (vm_max_position_embeddings model)) CONTEXT_LADDER
             in if chosen < MIN_CONTEXT
                then (False, MIN_CONTEXT, ''not enough KV memory for the minimum tested context ('' @ str_int max_context_by_kv @ '' of ''
                       @ str_int MIN_CONTEXT @ '' tokens fit)'')
                else if chosen < desired_context
                then (True, chosen, ''context reduced from '' @ str_int desired_context @ '' to '' @ str_int chosen @ '' tokens to fit the ''
                       @ str_int kv_budget @ '' MiB KV budget'')
                else (True, chosen, ''context '' @ str_int chosen @ '' tokens fits the KV budget''))"

definition applicable_steps :: "VllmRequested \<Rightarrow> AdjustmentStep list" where
  "applicable_steps requested = filter (\<lambda>step. \<not> is_explicit step requested) ADJUSTMENT_POLICY"

text \<open>The fields the plan starts from, before memory shrinks them.\<close>

definition base_effective :: "string \<Rightarrow> VllmRequested \<Rightarrow> VllmModelProfile \<Rightarrow> int \<Rightarrow> rat \<Rightarrow> MutableEffective" where
  "base_effective bucket requested model tp utilization =
     (let desired = min (dict_get_or PROFILE_DESIRED_CONTEXT bucket DEFAULT_DESIRED_CONTEXT) (vm_max_position_embeddings model);
          ctx = (case vq_max_model_len requested of
             Some n \<Rightarrow> n | None \<Rightarrow> max MIN_CONTEXT (largest_ladder_value desired CONTEXT_LADDER));
          batched = (case vq_max_num_batched_tokens requested of
             Some n \<Rightarrow> n | None \<Rightarrow> max MIN_CONTEXT (largest_ladder_value ctx BATCH_LADDER))
      in \<lparr>me_tensor_parallel_size = tp, me_max_model_len = ctx, me_max_num_batched_tokens = batched,
          me_gpu_memory_utilization = utilization,
          me_dtype = Some (case vq_dtype requested of Some (c # cs) \<Rightarrow> c # cs | _ \<Rightarrow> choose_dtype bucket model),
          me_attention_backend = choose_attention_backend bucket\<rparr>)"

text \<open>One retry step after the context was fitted; the utilization step was applied already.\<close>

definition retry_adjustment :: "AdjustmentStep \<Rightarrow> string \<Rightarrow> string \<Rightarrow> FitAdjustment" where
  "retry_adjustment step previous new = \<lparr>va_field = step_field step, va_previous = previous, va_value = new, va_reason = OOM_RETRY\<rparr>"

fun apply_step :: "rat \<Rightarrow> AdjustmentStep \<Rightarrow> MutableEffective \<times> FitAdjustment list \<Rightarrow> MutableEffective \<times> FitAdjustment list" where
  "apply_step earlier UTILIZATION_STEP (e, adjustments) =
     (e, if me_gpu_memory_utilization e \<noteq> earlier
         then adjustments @ [retry_adjustment UTILIZATION_STEP (format_g earlier) (format_g (me_gpu_memory_utilization e))] else adjustments)"
| "apply_step earlier CONTEXT_STEP (e, adjustments) =
     (let e' = context_halved e
      in (e', if me_max_model_len e' \<noteq> me_max_model_len e
              then adjustments @ [retry_adjustment CONTEXT_STEP (str_int (me_max_model_len e)) (str_int (me_max_model_len e'))] else adjustments))"
| "apply_step earlier BATCH_STEP (e, adjustments) =
     (let e' = batch_reduced e
      in (e', if me_max_num_batched_tokens e' \<noteq> me_max_num_batched_tokens e
              then adjustments @ [retry_adjustment BATCH_STEP (str_int (me_max_num_batched_tokens e)) (str_int (me_max_num_batched_tokens e'))]
              else adjustments))"

text \<open>An explicit batch size is never rewritten; an automatic one follows the context.\<close>

definition settle_batch :: "VllmRequested \<Rightarrow> MutableEffective \<Rightarrow> MutableEffective" where
  "settle_batch requested e =
     e\<lparr>me_max_num_batched_tokens :=
         (case vq_max_num_batched_tokens requested of
            None \<Rightarrow> min (me_max_num_batched_tokens e) (me_max_model_len e) | Some n \<Rightarrow> n)\<rparr>"

record sized =
  sz_effective :: MutableEffective
  sz_fitting :: bool
  sz_context :: int
  sz_reason :: string
  sz_kv_per_token :: rat
  sz_weights_mib :: int
  sz_weights_per_gpu :: int
  sz_overhead :: int
  sz_reserve :: int
  sz_budget :: int
  sz_free :: int
  sz_before :: rat

text \<open>Sizing: the utilization steps, the memory budget, and the context that fits it.\<close>

definition size_launch ::
  "string \<Rightarrow> VllmRequested \<Rightarrow> VllmModelProfile \<Rightarrow> VllmDeviceMemory list \<Rightarrow> int option \<Rightarrow> AdjustmentStep list \<Rightarrow> MutableEffective
    \<Rightarrow> py_error + sized" where
  "size_launch bucket requested model allocated overhead_mib steps base =
     (let desired = min (dict_get_or PROFILE_DESIRED_CONTEXT bucket DEFAULT_DESIRED_CONTEXT) (vm_max_position_embeddings model);
          weights = effective_weights_mib model (me_dtype base);
          kv_bytes = kv_bytes_per_token_for model (me_dtype base);
          overhead = (case overhead_mib of Some n \<Rightarrow> n | None \<Rightarrow> dict_get_or PROFILE_RUNTIME_OVERHEAD_MIB bucket DEFAULT_RUNTIME_OVERHEAD_MIB);
          e = fold (\<lambda>step e. if step = UTILIZATION_STEP then step_apply step e else e) steps base
      in ebind (memory_budget model allocated (me_tensor_parallel_size e) (me_gpu_memory_utilization e) weights kv_bytes)
           (\<lambda>(remaining, budget, free, weights_per_gpu, kv_per_token).
         let reserve_fraction = (if vm_approximate model then APPROXIMATE_RESERVE_FRACTION else RESERVE_FRACTION);
             reserve = max MIN_RESERVE_MIB (half_even (fmul (to_float budget) reserve_fraction));
             kv_budget = remaining - overhead - reserve
         in case fit_context model requested desired (me_max_model_len e) kv_budget kv_per_token weights_per_gpu of
              (fitting, ctx, reason) \<Rightarrow>
                Inr \<lparr>sz_effective = e\<lparr>me_max_model_len := ctx, me_max_num_batched_tokens := min (me_max_num_batched_tokens e) ctx\<rparr>,
                     sz_fitting = fitting, sz_context = ctx, sz_reason = reason, sz_kv_per_token = kv_per_token, sz_weights_mib = weights,
                     sz_weights_per_gpu = weights_per_gpu, sz_overhead = overhead, sz_reserve = reserve, sz_budget = budget, sz_free = free,
                     sz_before = me_gpu_memory_utilization base\<rparr>))"

definition retry_moves :: "bool \<Rightarrow> int \<Rightarrow> AdjustmentStep list \<Rightarrow> MutableEffective \<Rightarrow> bool" where
  "retry_moves fitting attempt applicable e \<longleftrightarrow>
     fitting \<and> attempt < int (length applicable) \<and> reduction_key (step_apply (applicable ! nat attempt) e) \<noteq> reduction_key e"

definition finish_plan ::
  "VllmRequested \<Rightarrow> int \<Rightarrow> resolved_model \<Rightarrow> string option \<Rightarrow> FitAdjustment list \<Rightarrow> AdjustmentStep list \<Rightarrow> sized \<Rightarrow> VllmFitPlan" where
  "finish_plan requested attempt found blocked adjustments applicable sz =
     (let (e, adjustments) = fold (apply_step (sz_before sz)) (take (nat attempt) applicable) (sz_effective sz, adjustments);
          e = settle_batch requested e;
          reason = (if sz_fitting sz \<and> me_max_model_len e \<noteq> sz_context sz
             then sz_reason sz @ ''; '' @ str_int attempt @ '' bounded OOM '' @ (if attempt = 1 then ''retry'' else ''retries'')
                  @ '' reduced the context to '' @ str_int (me_max_model_len e) @ '' tokens''
             else sz_reason sz);
          blocked = (if \<not> sz_fitting sz then or_else blocked (Some reason) else blocked);
          fitting = (sz_fitting sz \<and> blocked = None)
      in \<lparr>vf_model = rm_name found, vf_model_selection = rm_selection found, vf_model_reason = rm_why found, vf_attempt = attempt,
          vf_fitting = fitting, vf_reason = (case blocked of Some b \<Rightarrow> b | None \<Rightarrow> reason), vf_requested = requested,
          vf_effective = \<lparr>ve_model = rm_name found, ve_tensor_parallel_size = me_tensor_parallel_size e, ve_max_model_len = me_max_model_len e,
            ve_max_num_batched_tokens = me_max_num_batched_tokens e, ve_gpu_memory_utilization = me_gpu_memory_utilization e,
            ve_dtype = me_dtype e, ve_attention_backend = me_attention_backend e\<rparr>,
          vf_estimate = \<lparr>vs_weights_mib = sz_weights_mib sz, vs_weights_per_gpu_mib = sz_weights_per_gpu sz,
            vs_kv_cache_mib = \<lceil>fmul (sz_kv_per_token sz) (to_float (me_max_model_len e))\<rceil>, vs_runtime_overhead_mib = sz_overhead sz,
            vs_reserve_mib = sz_reserve sz, vs_usable_budget_mib = sz_budget sz, vs_free_per_gpu_mib = sz_free sz\<rparr>,
          vf_adjustments = adjustments, vf_retry_available = retry_moves fitting attempt applicable e,
          vf_approximate = vm_approximate (rm_model found)\<rparr>)"

definition plan_vllm_launch ::
  "(string \<Rightarrow> VllmModelProfile option) \<Rightarrow> string \<Rightarrow> VllmDeviceMemory list \<Rightarrow> VllmRequested option \<Rightarrow> int \<Rightarrow> int option
    \<Rightarrow> py_error + VllmFitPlan" where
  "plan_vllm_launch cached bucket devices requested attempt overhead_mib =
     (if devices = [] then Inl (ValueError ''a vLLM plan needs at least one selected device'')
      else if attempt < 0 then Inl (ValueError ''attempt must not be negative'')
      else
        let request = (case requested of Some r \<Rightarrow> r | None \<Rightarrow> VllmRequested_new);
            (tp, blocked) = start_tensor_parallel bucket request (int (length devices))
        in ebind (resolve_loop 2 cached bucket devices request tp blocked None) (\<lambda>found.
           let allocated = py_slice_to (rm_tp found) devices
           in ebind (choose_utilization allocated request) (\<lambda>(utilization, util_blocked, util_adjustments).
              let blocked = or_else (rm_blocked found) util_blocked;
                  adjustments = (case rm_adjustment found of None \<Rightarrow> [] | Some a \<Rightarrow> [a]) @ util_adjustments;
                  applicable = applicable_steps request;
                  base = base_effective bucket request (rm_model found) (rm_tp found) utilization
              in ebind (size_launch bucket request (rm_model found) allocated overhead_mib (take (nat attempt) applicable) base) (\<lambda>sz.
                 Inr (finish_plan request attempt found blocked adjustments applicable sz)))))"

text \<open>The one-line form of a plan.\<close>

definition plan_line :: "VllmFitPlan \<Rightarrow> string" where
  "plan_line plan =
     (let e = vf_effective plan; s = vf_estimate plan;
          reason_text = (\<lambda>r. case r of OOM_RETRY \<Rightarrow> ''oom_retry'' | FREE_MEMORY \<Rightarrow> ''free_memory'' | TOPOLOGY \<Rightarrow> ''topology'');
          parts = map (\<lambda>a. va_field a @ ''='' @ va_value a @ '':'' @ reason_text (va_reason a)) (vf_adjustments plan)
      in ''qiip_vllm_plan: mode='' @ (case vf_model_selection plan of EXPLICIT \<Rightarrow> ''explicit'' | AUTOMATIC \<Rightarrow> ''automatic'')
         @ '' attempt='' @ str_int (vf_attempt plan) @ '' model='' @ ve_model e @ '' tp='' @ str_int (ve_tensor_parallel_size e)
         @ '' max_model_len='' @ str_int (ve_max_model_len e) @ '' max_num_batched_tokens='' @ str_int (ve_max_num_batched_tokens e)
         @ '' gpu_memory_utilization='' @ format_g (ve_gpu_memory_utilization e)
         @ '' dtype='' @ (case ve_dtype e of Some (c # cs) \<Rightarrow> c # cs | _ \<Rightarrow> ''auto'')
         @ '' attention_backend='' @ (case ve_attention_backend e of Some (c # cs) \<Rightarrow> c # cs | _ \<Rightarrow> ''auto'')
         @ '' weights_mib='' @ str_int (vs_weights_mib s) @ '' kv_mib='' @ str_int (vs_kv_cache_mib s)
         @ '' overhead_mib='' @ str_int (vs_runtime_overhead_mib s) @ '' reserve_mib='' @ str_int (vs_reserve_mib s)
         @ '' budget_mib='' @ str_int (vs_usable_budget_mib s) @ '' free_mib='' @ str_int (vs_free_per_gpu_mib s)
         @ '' fitting='' @ (if vf_fitting plan then ''true'' else ''false'')
         @ '' adjustment='' @ (if parts = [] then ''none'' else tl (concat (map ((#) (CHR '','')) parts))))"

end
