(* ===== verification/VllmFitSafety.thy ===== *)
theory VllmFitSafety
  imports VllmFit
begin

text \<open>
  What a launch plan of \<open>VllmFit\<close> guarantees: the utilization loop stays on hundredths and ends, retries only shrink the
  launch, a plan that claims to fit is within the memory of every allocated card, and explicit settings are kept.
\<close>

section \<open>Utilization\<close>

abbreviation hundredth :: "int \<Rightarrow> rat" where
  "hundredth k \<equiv> fl (of_int k / 100)"

lemma hundredth_error:
  assumes "0 \<le> k" "k \<le> 100"
  shows "\<bar>hundredth k - of_int k / 100\<bar> \<le> 1 / 2 ^ 53"
proof -
  have "\<bar>hundredth k - of_int k / 100\<bar> \<le> \<bar>of_int k / 100\<bar> / 2 ^ 53" by (rule fl_error_abs)
  also have "\<dots> \<le> 1 / 2 ^ 53" using assms by (intro divide_right_mono) simp_all
  finally show ?thesis .
qed

lemma near_hundred:
  fixes z y n e :: rat
  assumes "\<bar>z - y\<bar> \<le> e" "\<bar>y - n / 100\<bar> \<le> e" "e \<le> 1 / 1000"
  shows "\<bar>z * 100 - n\<bar> < 1 / 2"
  using assms by linarith

text \<open>Subtracting hundredths and rounding to two places gives the hundredths of the difference.\<close>

lemma hundredth_diff:
  assumes "0 \<le> j" "j \<le> k" "k \<le> 100"
  shows "round2 (fsub (hundredth k) (hundredth j)) = hundredth (k - j)"
proof -
  let ?y = "hundredth k - hundredth j" and ?d = "of_int (k - j) / 100 :: rat"
  have small: "(2 :: rat) / 2 ^ 53 \<le> 1 / 1000" by simp
  have d: "0 \<le> ?d" "?d \<le> 1" using assms by simp_all
  have "?d = of_int k / 100 - of_int j / 100" by (simp add: diff_divide_distrib)
  moreover have "\<bar>hundredth k - of_int k / 100\<bar> \<le> 1 / 2 ^ 53" "\<bar>hundredth j - of_int j / 100\<bar> \<le> 1 / 2 ^ 53"
    using assms by (intro hundredth_error; simp)+
  ultimately have y: "\<bar>?y - ?d\<bar> \<le> 2 / 2 ^ 53" by linarith
  then have "\<bar>?y\<bar> \<le> 2" using d small by linarith
  then have "\<bar>fl ?y - ?y\<bar> \<le> 2 / 2 ^ 53" using fl_error_abs [of ?y] by simp
  then have "\<bar>fl ?y * 100 - of_int (k - j)\<bar> < 1 / 2" using y small by (rule near_hundred)
  from half_even_near [OF this] show ?thesis by (simp only: round2_def)
qed

lemma step_down: "1 \<le> k \<Longrightarrow> k \<le> 100 \<Longrightarrow> round2 (fsub (hundredth k) (fl (1 / 100))) = hundredth (k - 1)"
  using hundredth_diff [of 1 k] by simp

lemma retry_down: "50 \<le> k \<Longrightarrow> k \<le> 90 \<Longrightarrow> round2 (fsub (hundredth k) (fl (5 / 100))) = hundredth (k - 5)"
  using hundredth_diff [of 5 k] by simp

lemma hundredth_mono: "i \<le> j \<Longrightarrow> 0 \<le> j \<Longrightarrow> hundredth i \<le> hundredth j"
  by (intro fl_le) (simp_all add: divide_right_mono)

lemma hundredth_pos: "0 < hundredth k \<longleftrightarrow> 0 < k"
  using fl_pos [of "of_int k / 100"] fl_nonpos [of "of_int k / 100"] by (cases "0 < k") auto

lemma utilization_fits_mono:
  assumes "utilization_fits devices u" "0 < v" "v \<le> u" "\<forall>d \<in> set devices. 0 \<le> vd_total_mib d"
  shows "utilization_fits devices v"
proof -
  have "\<lceil>fmul (to_float (vd_total_mib d)) v\<rceil> \<le> \<lceil>fmul (to_float (vd_total_mib d)) u\<rceil>" if "d \<in> set devices" for d
    using assms(2,3,4) that fl_nonneg [of "of_int (vd_total_mib d)"]
    by (intro ceiling_mono fl_mono) (simp_all add: mult_left_mono)
  then show ?thesis using assms(1,2) by (fastforce simp: utilization_fits_def list_all_iff)
qed

text \<open>The loop ends within its bound, at a number of hundredths that fits.\<close>

lemma lower_utilization_hundredth:
  assumes "0 \<le> k" "k \<le> 100" "k \<le> int n"
  shows "\<exists>j. 0 \<le> j \<and> j \<le> k \<and> lower_utilization n devices (hundredth k) = Some (hundredth j) \<and>
    (0 < j \<longrightarrow> utilization_fits devices (hundredth j))"
  using assms
proof (induction n arbitrary: k)
  case 0
  then have k: "k = 0" by simp
  then have "lower_utilization 0 devices (hundredth k) = Some (hundredth k)" by (subst lower_utilization.simps) simp
  then show ?case using k by (intro exI [of _ 0]) simp
next
  case (Suc n)
  show ?case
  proof (cases "0 < k \<and> \<not> utilization_fits devices (hundredth k)")
    case True
    then have step: "lower_utilization (Suc n) devices (hundredth k) = lower_utilization n devices (hundredth (k - 1))"
      using step_down [of k] Suc.prems by (subst lower_utilization.simps) (simp add: hundredth_pos)
    obtain j where "0 \<le> j" "j \<le> k - 1" "lower_utilization n devices (hundredth (k - 1)) = Some (hundredth j)"
      "0 < j \<longrightarrow> utilization_fits devices (hundredth j)"
      using Suc.IH [of "k - 1"] Suc.prems True by auto
    then show ?thesis using step by (intro exI [of _ j]) auto
  next
    case False
    then have "lower_utilization (Suc n) devices (hundredth k) = Some (hundredth k)"
      using hundredth_pos by (subst lower_utilization.simps) auto
    then show ?thesis using Suc.prems False by (intro exI [of _ k]) auto
  qed
qed

lemma free_ratio_le: "free_ratio r ds = Some q \<Longrightarrow> q \<le> r"
  by (induction ds arbitrary: r) (fastforce split: if_splits)+

lemma max_fitting_hundredth:
  "\<exists>k. 0 \<le> k \<and> k \<le> 100 \<and> max_fitting_utilization devices = Inr (hundredth k) \<and>
     (0 < k \<longrightarrow> utilization_fits devices (hundredth k))"
proof (cases "devices = [] \<or> free_ratio 1 devices = None")
  case True
  then show ?thesis by (intro exI [of _ 0]) (auto simp: max_fitting_utilization_def)
next
  case False
  then obtain ratio where r: "devices \<noteq> []" "free_ratio 1 devices = Some ratio" by auto
  let ?k = "\<lfloor>fmul ratio 100\<rfloor>"
  have "fmul ratio 100 \<le> fl (of_int 100)" using free_ratio_le [OF r(2)] by (intro fl_le) simp_all
  then have k: "?k \<le> 100" using fl_small_int [of 100] by (simp add: floor_le_iff)
  show ?thesis
  proof (cases "0 < ?k")
    case True
    then obtain j where j: "0 \<le> j" "j \<le> ?k" "lower_utilization 100 devices (hundredth ?k) = Some (hundredth j)"
      "0 < j \<longrightarrow> utilization_fits devices (hundredth j)"
      using lower_utilization_hundredth [of ?k 100 devices] k by auto
    have "0 \<le> hundredth j" using j(1) by (intro fl_nonneg) simp
    then have "max_fitting_utilization devices = Inr (hundredth j)"
      using r j(3) by (simp add: max_fitting_utilization_def del: lower_utilization.simps)
    moreover have "j \<le> 100" using j(2) k by linarith
    ultimately show ?thesis using j(1,4) by blast
  next
    case False
    then have le: "hundredth ?k \<le> 0" by (intro fl_nonpos) simp
    then have "lower_utilization 100 devices (hundredth ?k) = Some (hundredth ?k)" by (subst lower_utilization.simps) simp
    then show ?thesis using r le by (intro exI [of _ 0]) (simp add: max_fitting_utilization_def del: lower_utilization.simps)
  qed
qed

section \<open>The steps never grow a field\<close>

lemma py_min_Inr: "py_min xs = Inr m \<longleftrightarrow> xs \<noteq> [] \<and> m = Min (set xs)"
  by (auto simp: py_min_def)

definition smaller :: "MutableEffective \<Rightarrow> MutableEffective \<Rightarrow> bool" where
  "smaller e e' \<longleftrightarrow>
     me_tensor_parallel_size e = me_tensor_parallel_size e' \<and> me_gpu_memory_utilization e = me_gpu_memory_utilization e' \<and>
     me_dtype e = me_dtype e' \<and> me_attention_backend e = me_attention_backend e' \<and>
     me_max_model_len e \<le> me_max_model_len e' \<and> me_max_num_batched_tokens e \<le> me_max_num_batched_tokens e' \<and>
     MIN_CONTEXT \<le> me_max_model_len e"

lemma apply_step_smaller:
  assumes "MIN_CONTEXT \<le> me_max_model_len e"
  shows "smaller (fst (apply_step u step (e, adj))) e"
  using assms by (cases step) (auto simp: smaller_def context_halved_def batch_reduced_def Let_def MIN_CONTEXT_def)

lemma apply_steps_smaller:
  "MIN_CONTEXT \<le> me_max_model_len e \<Longrightarrow> smaller (fst (fold (apply_step u) steps (e, adj))) e"
proof (induction steps arbitrary: e adj)
  case (Cons step steps)
  obtain e' adj' where step: "apply_step u step (e, adj) = (e', adj')" by fastforce
  have e': "smaller e' e" using apply_step_smaller [OF Cons.prems, of u step adj] step by simp
  then have "smaller (fst (fold (apply_step u) steps (e', adj'))) e'" by (intro Cons.IH) (simp add: smaller_def)
  then show ?case using e' step by (auto simp: smaller_def)
qed (simp add: smaller_def)

text \<open>Without a context step nothing but the batch changes.\<close>

definition same_shape :: "MutableEffective \<Rightarrow> MutableEffective \<Rightarrow> bool" where
  "same_shape e e' \<longleftrightarrow>
     me_tensor_parallel_size e = me_tensor_parallel_size e' \<and> me_gpu_memory_utilization e = me_gpu_memory_utilization e' \<and>
     me_dtype e = me_dtype e' \<and> me_attention_backend e = me_attention_backend e' \<and> me_max_model_len e = me_max_model_len e'"

lemma apply_step_explicit: "st \<noteq> CONTEXT_STEP \<Longrightarrow> same_shape (fst (apply_step u st (e, adj))) e"
  by (cases st) (auto simp: same_shape_def batch_reduced_def Let_def)

lemma apply_steps_explicit: "CONTEXT_STEP \<notin> set steps \<Longrightarrow> same_shape (fst (fold (apply_step u) steps (e, adj))) e"
proof (induction steps arbitrary: e adj)
  case (Cons st steps)
  obtain e' adj' where step: "apply_step u st (e, adj) = (e', adj')" by fastforce
  then have "same_shape e' e" using apply_step_explicit [of st u e adj] Cons.prems by fastforce
  then show ?case using Cons.IH [of e' adj'] Cons.prems step by (auto simp: same_shape_def)
qed (simp add: same_shape_def)

lemma utilization_fold:
  "fold (\<lambda>step e. if step = UTILIZATION_STEP then step_apply step e else e) steps e =
     (utilization_reduced ^^ length (filter (\<lambda>s. s = UTILIZATION_STEP) steps)) e"
  by (induction steps arbitrary: e) (simp_all add: funpow_swap1)

lemma applicable_utilization:
  "length (filter (\<lambda>s. s = UTILIZATION_STEP) (take n (applicable_steps request))) \<le> 1 \<and>
   (vq_gpu_memory_utilization request \<noteq> None \<longrightarrow> filter (\<lambda>s. s = UTILIZATION_STEP) (take n (applicable_steps request)) = [])"
  by (cases n; cases "n - 1"; cases "n - 2"; cases "vq_max_model_len request"; cases "vq_max_num_batched_tokens request"; cases "vq_gpu_memory_utilization request")
    (auto simp: applicable_steps_def ADJUSTMENT_POLICY_def take_Cons')

lemma applicable_context: "vq_max_model_len request \<noteq> None \<Longrightarrow> CONTEXT_STEP \<notin> set (take n (applicable_steps request))"
  by (auto simp: applicable_steps_def dest: in_set_takeD)

section \<open>Sizing\<close>

lemma ladder_loop_mem: "ladder_loop limit b xs = b \<or> ladder_loop limit b xs \<in> set xs \<and> ladder_loop limit b xs \<le> limit"
proof (induction xs arbitrary: b)
  case (Cons x xs)
  from Cons.IH [of x] show ?case
    by (cases "x \<le> limit"; elim disjE) simp_all
qed simp

lemma ladder_value:
  assumes "MIN_CONTEXT \<le> largest_ladder_value limit CONTEXT_LADDER"
  shows "\<exists>k. largest_ladder_value limit CONTEXT_LADDER = 2 ^ k" "largest_ladder_value limit CONTEXT_LADDER \<le> limit"
proof -
  have "largest_ladder_value limit CONTEXT_LADDER \<in> set CONTEXT_LADDER \<and> largest_ladder_value limit CONTEXT_LADDER \<le> limit"
    using assms ladder_loop_mem [of limit 0 CONTEXT_LADDER] by (auto simp: largest_ladder_value_def MIN_CONTEXT_def)
  moreover have "\<forall>v \<in> set CONTEXT_LADDER. \<exists>k. v = 2 ^ k"
    by (auto simp: CONTEXT_LADDER_def intro: exI [of _ 11] exI [of _ 12] exI [of _ 13] exI [of _ 14] exI [of _ 15] exI [of _ 16] exI [of _ 17])
  ultimately show "\<exists>k. largest_ladder_value limit CONTEXT_LADDER = 2 ^ k" "largest_ladder_value limit CONTEXT_LADDER \<le> limit" by blast+
qed

text \<open>The context that \<open>fit_context\<close> accepts: its KV cache fits the budget.\<close>

lemma fit_context_capacity:
  assumes fit: "fit_context model request desired cur kv_budget b wpg = (True, ctx, reason)"
    and b: "fl b = b" and small: "kv_budget < 2 ^ 53"
  shows "vq_max_model_len request = None \<Longrightarrow> MIN_CONTEXT \<le> ctx \<and> \<lceil>fmul b (to_float ctx)\<rceil> \<le> kv_budget"
    and "vq_max_model_len request = Some n \<Longrightarrow> ctx = cur \<and> (cur \<le> 2 ^ 53 \<longrightarrow> \<lceil>fmul b (to_float ctx)\<rceil> \<le> kv_budget + 1)"
proof -
  let ?m = "\<lfloor>fdiv (to_float kv_budget) b\<rfloor>"
  have pos: "0 < kv_budget" "0 < b" using fit by (auto simp: fit_context_def Let_def split: if_splits)
  have kv: "to_float kv_budget = of_int kv_budget" using pos(1) small by (intro fl_small_int) simp_all
  show "MIN_CONTEXT \<le> ctx \<and> \<lceil>fmul b (to_float ctx)\<rceil> \<le> kv_budget" if auto: "vq_max_model_len request = None"
  proof -
    have ctx: "MIN_CONTEXT \<le> ctx" "ctx = largest_ladder_value (min (min cur ?m) (vm_max_position_embeddings model)) CONTEXT_LADDER"
      using fit auto by (auto simp: fit_context_def Let_def split: if_splits)
    then obtain k where k: "ctx = 2 ^ k" using ladder_value(1) by metis
    have "ctx \<le> ?m" using ladder_value(2) ctx by fastforce
    then have "2 ^ k \<le> \<lfloor>fl (of_int kv_budget / b)\<rfloor>" using k kv by simp
    from double.power_capacity [OF pos(2) b pos(1) _ this] small have "\<lceil>fl (b * 2 ^ k)\<rceil> \<le> kv_budget" by simp
    moreover have "to_float ctx = 2 ^ k"
    proof -
      have "ctx \<in> set CONTEXT_LADDER"
        using ctx ladder_loop_mem [of "min (min cur ?m) (vm_max_position_embeddings model)" 0 CONTEXT_LADDER]
        by (auto simp: largest_ladder_value_def MIN_CONTEXT_def)
      then have "to_float ctx = of_int ctx" by (intro fl_small_int) (auto simp: CONTEXT_LADDER_def)
      then show ?thesis using k by simp
    qed
    ultimately show ?thesis using ctx(1) by simp
  qed
  show "ctx = cur \<and> (cur \<le> 2 ^ 53 \<longrightarrow> \<lceil>fmul b (to_float ctx)\<rceil> \<le> kv_budget + 1)" if "vq_max_model_len request = Some n"
  proof -
    have ctx: "ctx = cur" "cur \<le> ?m" using fit that by (auto simp: fit_context_def Let_def split: if_splits)
    have "\<lceil>fl (b * to_float cur)\<rceil> \<le> kv_budget + 1" if le: "cur \<le> 2 ^ 53"
    proof (cases "0 \<le> cur")
      case True
      then have "to_float cur = of_int cur" using le by (intro fl_small_int)
      then show ?thesis using double.any_capacity [OF pos(2,1) small] ctx(2) kv by simp
    next
      case False
      then have "to_float cur \<le> 0" by (intro fl_nonpos) simp
      then have "fl (b * to_float cur) \<le> 0" using pos(2) by (intro fl_nonpos) (simp add: mult_nonneg_nonpos)
      then show ?thesis using pos(1) by (simp add: ceiling_le_iff)
    qed
    then show ?thesis using ctx(1) by simp
  qed
qed

lemma hundredth_less: "hundredth k < hundredth 50 \<longleftrightarrow> k < 50" if "0 \<le> k" "k \<le> 100"
proof
  assume "hundredth k < hundredth 50"
  then show "k < 50" using hundredth_mono [of 50 k] that by fastforce
next
  assume "k < 50"
  then have "hundredth k \<le> hundredth 49" by (intro hundredth_mono) simp_all
  moreover have "hundredth 49 \<le> of_int 49 / 100 + 1 / 2 ^ 53" "of_int 50 / 100 - 1 / 2 ^ 53 \<le> hundredth 50"
    using hundredth_error [of 49] hundredth_error [of 50] by linarith+
  ultimately show "hundredth k < hundredth 50" by simp
qed

text \<open>The utilization of a plan that is not blocked passes vLLM's own check of the free memory.\<close>

lemma choose_utilization_fits:
  assumes "choose_utilization ds request = Inr (u, None, adj)" "\<forall>d \<in> set ds. 0 \<le> vd_total_mib d"
  shows "utilization_fits ds u"
    and "vq_gpu_memory_utilization request = None \<Longrightarrow> \<exists>k. 50 \<le> k \<and> k \<le> 90 \<and> u = hundredth k"
    and "vq_gpu_memory_utilization request = Some v \<Longrightarrow> u = v"
proof -
  have ninety: "DEFAULT_GPU_MEMORY_UTILIZATION = hundredth 90" "MIN_GPU_MEMORY_UTILIZATION = hundredth 50"
    by (simp_all add: DEFAULT_GPU_MEMORY_UTILIZATION_def MIN_GPU_MEMORY_UTILIZATION_def)
  show "u = v" if "vq_gpu_memory_utilization request = Some v" for v
    using assms(1) that by (auto simp: choose_utilization_def ebind_Inr split: if_splits)
  have auto: "\<exists>k. 50 \<le> k \<and> k \<le> 90 \<and> u = hundredth k \<and> utilization_fits ds u" if none: "vq_gpu_memory_utilization request = None"
  proof -
    obtain k where k: "0 \<le> k" "k \<le> 100" "max_fitting_utilization ds = Inr (hundredth k)"
      "0 < k \<longrightarrow> utilization_fits ds (hundredth k)"
      using max_fitting_hundredth by blast
    have u: "u = min (hundredth 90) (hundredth k)" "\<not> u < hundredth 50"
      using assms(1) none k(3) hundredth_less [of 90] by (auto simp: choose_utilization_def ebind_def ninety Let_def split: if_splits)
    have "50 \<le> k" using u hundredth_less [OF k(1,2)] by auto
    moreover have "u = hundredth (min 90 k)"
      using u(1) hundredth_mono [of 90 k] hundredth_mono [of k 90] k by (cases "k \<le> 90") auto
    moreover have "utilization_fits ds u"
    proof (rule utilization_fits_mono)
      show "utilization_fits ds (hundredth k)" using k(4) \<open>50 \<le> k\<close> by linarith
      show "0 < u" using u(1) hundredth_pos [of 90] hundredth_pos [of k] \<open>50 \<le> k\<close> by (simp only: min_less_iff_conj) simp
      show "u \<le> hundredth k" using u(1) by (simp only: min.cobounded2)
    qed (rule assms(2))
    ultimately show ?thesis by (intro exI [of _ "min 90 k"]) auto
  qed
  then show "\<exists>k. 50 \<le> k \<and> k \<le> 90 \<and> u = hundredth k" if "vq_gpu_memory_utilization request = None" using that by blast
  show "utilization_fits ds u"
    using assms(1) auto by (cases "vq_gpu_memory_utilization request") (auto simp: choose_utilization_def ebind_Inr split: if_splits)
qed

lemma utilization_reduced_le:
  assumes "50 \<le> k" "k \<le> 90" "me_gpu_memory_utilization e = hundredth k"
  shows "me_gpu_memory_utilization (utilization_reduced e) \<le> hundredth k" "0 < me_gpu_memory_utilization (utilization_reduced e)"
proof -
  have "round2 (fsub (hundredth k) (fl (5 / 100))) = hundredth (k - 5)" using assms by (intro retry_down)
  moreover have "MIN_GPU_MEMORY_UTILIZATION = hundredth 50" by (simp add: MIN_GPU_MEMORY_UTILIZATION_def)
  ultimately have "me_gpu_memory_utilization (utilization_reduced e) = max (hundredth 50) (hundredth (k - 5))"
    using assms(3) by (simp add: utilization_reduced_def)
  then show "me_gpu_memory_utilization (utilization_reduced e) \<le> hundredth k" "0 < me_gpu_memory_utilization (utilization_reduced e)"
    using hundredth_mono [of 50 k] hundredth_mono [of "k - 5" k] hundredth_pos [of 50] assms(1) by (auto simp: less_max_iff_disj)
qed

definition with_utilization_steps :: "AdjustmentStep list \<Rightarrow> MutableEffective \<Rightarrow> MutableEffective" where
  "with_utilization_steps steps e = fold (\<lambda>step e. if step = UTILIZATION_STEP then step_apply step e else e) steps e"

lemma utilization_steps_fit:
  fixes n :: nat
  assumes "choose_utilization ds request = Inr (u, None, adj)" "\<forall>d \<in> set ds. 0 \<le> vd_total_mib d"
    and "me_gpu_memory_utilization e = u"
  defines "e' \<equiv> with_utilization_steps (take n (applicable_steps request)) e"
  shows "utilization_fits ds (me_gpu_memory_utilization e')"
    and "me_gpu_memory_utilization e' \<le> u"
    and "vq_gpu_memory_utilization request \<noteq> None \<Longrightarrow> me_gpu_memory_utilization e' = u"
    and "me_tensor_parallel_size e' = me_tensor_parallel_size e" "me_max_model_len e' = me_max_model_len e"
      "me_max_num_batched_tokens e' = me_max_num_batched_tokens e" "me_dtype e' = me_dtype e"
      "me_attention_backend e' = me_attention_backend e"
proof -
  have "length (filter (\<lambda>s. s = UTILIZATION_STEP) (take n (applicable_steps request))) \<in> {0, 1}"
    using applicable_utilization [of n request] by (auto simp: le_Suc_eq)
  then have e': "e' = e \<or> vq_gpu_memory_utilization request = None \<and> e' = utilization_reduced e"
    using applicable_utilization [of n request] by (auto simp: e'_def with_utilization_steps_def utilization_fold)
  then show "me_tensor_parallel_size e' = me_tensor_parallel_size e" "me_max_model_len e' = me_max_model_len e"
    "me_max_num_batched_tokens e' = me_max_num_batched_tokens e" "me_dtype e' = me_dtype e"
    "me_attention_backend e' = me_attention_backend e"
    by (auto simp: utilization_reduced_def)
  have "me_gpu_memory_utilization e' \<le> u \<and> 0 < me_gpu_memory_utilization e'"
  proof (cases "e' = e")
    case True
    then show ?thesis using assms(3) choose_utilization_fits(1) [OF assms(1,2)] by (simp add: utilization_fits_def)
  next
    case False
    then obtain k where "e' = utilization_reduced e" "50 \<le> k" "k \<le> 90" "u = hundredth k"
      using e' choose_utilization_fits(2) [OF assms(1,2)] by blast
    then show ?thesis using utilization_reduced_le [of k e] assms(3) by simp
  qed
  then show le: "me_gpu_memory_utilization e' \<le> u" and "utilization_fits ds (me_gpu_memory_utilization e')"
    using choose_utilization_fits(1) [OF assms(1,2)] assms(2) utilization_fits_mono by blast+
  show "me_gpu_memory_utilization e' = u" if "vq_gpu_memory_utilization request \<noteq> None" using e' that assms(3) by blast
qed

section \<open>A fitting plan fits the memory\<close>

lemma digits_value_nonneg: "list_all is_digit s \<Longrightarrow> 0 \<le> digits_value s"
proof (induction s rule: rev_induct)
  case (snoc c s)
  have "(48 :: int) \<le> of_char c"
    using snoc.prems of_nat_le_iff [of 48 "of_char c", where ?'a = int] by (simp add: of_nat_of_char)
  then show ?case using snoc by (simp add: digits_value_def)
qed (simp add: digits_value_def)

lemma ceiling_nonneg: "0 \<le> x \<Longrightarrow> 0 \<le> \<lceil>x\<rceil>" for x :: rat
  by simp

lemma count_here_digits: "count_here s = Some (w, f) \<Longrightarrow> list_all is_digit w \<and> list_all is_digit f"
  by (auto simp: count_here_def Let_def list_all_iff dest: set_takeWhileD split: list.splits if_splits)

lemma find_count_digits: "find_count b s = Some (w, f) \<Longrightarrow> list_all is_digit w \<and> list_all is_digit f"
  by (induction s arbitrary: b) (auto split: option.splits if_splits dest: count_here_digits)

lemma estimate_weights_nonneg:
  assumes "estimate_model_profile m = Inr p"
  shows "0 \<le> vm_weights_mib p"
proof -
  obtain w f where count: "find_count True m = Some (w, f)" and p: "vm_weights_mib p =
      \<lceil>fdiv (fmul (fmul (fmul (float_of_decimal (w, f)) (10 ^ 9))
        (if list_ex (str_contains (str_lower m)) QUANTIZED_MARKERS then 1 / 2 else 2)) (fl (11 / 10))) (of_int MIB)\<rceil>"
    using assms by (auto simp: estimate_model_profile_def Let_def split: option.splits)
  have "0 \<le> float_of_decimal (w, f)"
    using find_count_digits [OF count] digits_value_nonneg [of "w @ f"] by (auto simp: float_of_decimal_def intro!: fl_nonneg)
  then have "0 \<le> fdiv (fmul (fmul (fmul (float_of_decimal (w, f)) (10 ^ 9))
        (if list_ex (str_contains (str_lower m)) QUANTIZED_MARKERS then 1 / 2 else 2)) (fl (11 / 10))) (of_int MIB)"
    by (intro fl_nonneg mult_nonneg_nonneg divide_nonneg_nonneg) (simp_all add: MIB_def)
  then show ?thesis unfolding p by (rule ceiling_nonneg)
qed

lemma profile_weights_nonneg:
  assumes "model_profile_for cached m = Inr p" "\<And>m p. cached m = Some p \<Longrightarrow> 0 \<le> vm_weights_mib p"
  shows "0 \<le> vm_weights_mib p"
proof (cases "dict_get MODEL_CATALOG m")
  case None
  then show ?thesis using assms estimate_weights_nonneg by (auto simp: model_profile_for_def split: option.splits)
next
  case (Some known)
  then show ?thesis
    using assms(1) by (auto simp: model_profile_for_def MODEL_CATALOG_def catalog_model_def split: if_splits)
qed

lemma dtype_bytes_pos: "0 < dtype_bytes d"
  by (auto simp: dtype_bytes_def dict_get_or_def DTYPE_BYTES_def split: option.splits)

lemma effective_weights_nonneg: "0 \<le> vm_weights_mib p \<Longrightarrow> 0 \<le> effective_weights_mib p d"
  using dtype_bytes_pos [of d] dtype_bytes_pos [of "Some (vm_kv_dtype p)"]
  by (auto simp: effective_weights_mib_def Let_def intro!: ceiling_nonneg fl_nonneg simp del: zero_le_ceiling)

lemma largest_valid_bounds:
  assumes "1 \<le> n"
  shows "1 \<le> largest_valid_tensor_parallel m n \<and> largest_valid_tensor_parallel m n \<le> n"
proof (cases "find (tensor_parallel_valid m) (rev [1..min n (vm_num_attention_heads m)])")
  case None
  then show ?thesis using assms by (simp add: largest_valid_tensor_parallel_def)
next
  case (Some k)
  then have "k \<in> set (rev [1..min n (vm_num_attention_heads m)])" by (metis find_Some_iff nth_mem)
  then show ?thesis using Some by (simp add: largest_valid_tensor_parallel_def)
qed


lemma resolve_loop_round:
  assumes "resolve_loop n cached bucket devices request tp blocked adj = Inr found"
  obtains (Stop) name selection why where
      "resolve_model bucket (py_slice_to tp devices) request tp = Inr (name, selection, why)"
      "model_profile_for cached name = Inr (rm_model found)" "rm_name found = name" "rm_selection found = selection"
      "rm_tp found = tp \<or> vq_tensor_parallel_size request = None \<and>
         rm_tp found = largest_valid_tensor_parallel (rm_model found) (int (length devices))"
      "blocked \<noteq> None \<longrightarrow> rm_blocked found \<noteq> None"
  | (Again) m model adj' where "n = Suc m" "vq_tensor_parallel_size request = None"
      "resolve_loop m cached bucket devices request (largest_valid_tensor_parallel model (int (length devices))) blocked adj' = Inr found"
proof -
  from assms obtain name selection why model where
    r: "resolve_model bucket (py_slice_to tp devices) request tp = Inr (name, selection, why)" "model_profile_for cached name = Inr model"
    by (subst (asm) resolve_loop.simps) (auto simp: ebind_Inr simp del: resolve_loop.simps)
  let ?reduced = "largest_valid_tensor_parallel model (int (length devices))"
  note round = assms [unfolded resolve_loop.simps [of n] r ebind_def sum.case prod.case Let_def r(2)]
  show thesis
  proof (cases "tensor_parallel_valid model tp \<or> vq_tensor_parallel_size request \<noteq> None \<or> ?reduced = tp \<or> n = 0")
    case True
    have "rm_model found = model \<and> rm_name found = name \<and> rm_selection found = selection \<and>
      (rm_tp found = tp \<or> vq_tensor_parallel_size request = None \<and> rm_tp found = ?reduced) \<and>
      (blocked \<noteq> None \<longrightarrow> rm_blocked found \<noteq> None)"
      using round True by (auto simp del: resolve_loop.simps split: if_splits nat.splits)
    then show thesis using r by (intro Stop) auto
  next
    case False
    then obtain m where m: "n = Suc m" by (cases n) auto
    then show thesis using round False by (intro Again) (auto simp del: resolve_loop.simps)
  qed
qed

lemma resolve_loop_bounds:
  assumes "resolve_loop n cached bucket devices request tp blocked adj = Inr found"
    and "1 \<le> tp" "tp \<le> int (length devices)"
  shows "1 \<le> rm_tp found" "rm_tp found \<le> int (length devices)" "\<exists>m. model_profile_for cached m = Inr (rm_model found)"
    "vq_tensor_parallel_size request \<noteq> None \<Longrightarrow> rm_tp found = tp"
    "vq_model request = Some m \<Longrightarrow> m \<noteq> [] \<Longrightarrow> rm_name found = m"
    "blocked \<noteq> None \<Longrightarrow> rm_blocked found \<noteq> None"
proof -
  have "1 \<le> rm_tp found \<and> rm_tp found \<le> int (length devices) \<and> (\<exists>m. model_profile_for cached m = Inr (rm_model found)) \<and>
    (vq_tensor_parallel_size request \<noteq> None \<longrightarrow> rm_tp found = tp) \<and>
    (\<forall>m. vq_model request = Some m \<and> m \<noteq> [] \<longrightarrow> rm_name found = m) \<and> (blocked \<noteq> None \<longrightarrow> rm_blocked found \<noteq> None)"
    using assms
  proof (induction n arbitrary: tp adj)
    case 0
    from "0.prems"(1) show ?case
    proof (cases rule: resolve_loop_round)
      case Stop
      then show ?thesis using largest_valid_bounds [of "int (length devices)" "rm_model found"] 0
        by (auto simp: resolve_model_def split: option.splits list.splits)
    qed simp
  next
    case (Suc n)
    from Suc.prems(1) show ?case
    proof (cases rule: resolve_loop_round)
      case Stop
      then show ?thesis using largest_valid_bounds [of "int (length devices)" "rm_model found"] Suc.prems
        by (auto simp: resolve_model_def split: option.splits list.splits)
    next
      case (Again m model adj')
      then show ?thesis using largest_valid_bounds [of "int (length devices)" model] Suc.prems Suc.IH by auto
    qed
  qed
  then show "1 \<le> rm_tp found" "rm_tp found \<le> int (length devices)" "\<exists>m. model_profile_for cached m = Inr (rm_model found)"
    "vq_tensor_parallel_size request \<noteq> None \<Longrightarrow> rm_tp found = tp"
    "vq_model request = Some m \<Longrightarrow> m \<noteq> [] \<Longrightarrow> rm_name found = m"
    "blocked \<noteq> None \<Longrightarrow> rm_blocked found \<noteq> None"
    by blast+
qed

lemma start_tensor_parallel_bounds:
  assumes "start_tensor_parallel bucket request n = (tp, blocked)" "1 \<le> n" "\<forall>k. vq_tensor_parallel_size request = Some k \<longrightarrow> 1 \<le> k"
  shows "1 \<le> tp" "tp \<le> n" "vq_tensor_parallel_size request = Some k \<Longrightarrow> blocked = None \<Longrightarrow> tp = k"
  using assms by (auto simp: start_tensor_parallel_def default_tensor_parallel_def Let_def split: option.splits if_splits)

text \<open>What sizing computes: the estimate fits the budget, and the budget fits every allocated device.\<close>

lemma size_launch_fits:
  assumes sz: "size_launch bucket request model ds overhead steps base = Inr sz" "sz_fitting sz"
    and free: "\<forall>d \<in> set ds. vd_free_mib d < 2 ^ 53"
    and tp: "1 \<le> me_tensor_parallel_size base" and weights: "0 \<le> vm_weights_mib model" and overhead: "\<forall>n. overhead = Some n \<longrightarrow> 0 \<le> n"
    and e: "e = with_utilization_steps steps base" "me_tensor_parallel_size e = me_tensor_parallel_size base"
      "me_max_model_len e = me_max_model_len base"
    and len: "\<forall>n. vq_max_model_len request = Some n \<longrightarrow> me_max_model_len base = n \<and> n \<le> 2 ^ 53"
  shows "sz_weights_per_gpu sz + \<lceil>fmul (sz_kv_per_token sz) (to_float (sz_context sz))\<rceil> + sz_overhead sz + sz_reserve sz
      \<le> sz_budget sz + (if vq_max_model_len request = None then 0 else 1)"
    and "\<forall>d \<in> set ds. sz_budget sz \<le> vd_free_mib d"
    and "0 < sz_kv_per_token sz"
    and "vq_max_model_len request = None \<Longrightarrow> MIN_CONTEXT \<le> sz_context sz"
    and "vq_max_model_len request = Some n \<Longrightarrow> sz_context sz = n"
proof -
  let ?w = "effective_weights_mib model (me_dtype base)"
  let ?over = "case overhead of Some n \<Rightarrow> n | None \<Rightarrow> dict_get_or PROFILE_RUNTIME_OVERHEAD_MIB bucket DEFAULT_RUNTIME_OVERHEAD_MIB"
  have over: "0 \<le> ?over"
    using overhead by (auto simp: dict_get_or_def PROFILE_RUNTIME_OVERHEAD_MIB_def DEFAULT_RUNTIME_OVERHEAD_MIB_def split: option.splits)
  obtain budget free where b: "py_min (map (\<lambda>d. min (vd_free_mib d) \<lfloor>fmul (to_float (vd_total_mib d)) (me_gpu_memory_utilization e)\<rfloor>) ds) = Inr budget"
    "py_min (map vd_free_mib ds) = Inr free"
    using sz(1) unfolding size_launch_def memory_budget_def with_utilization_steps_def [symmetric] e(1) [symmetric]
    by (auto simp: ebind_Inr Let_def)
  let ?kv = "budget - \<lceil>fdiv (of_int ?w) (of_int (me_tensor_parallel_size e))\<rceil> - sz_overhead sz - sz_reserve sz"
  let ?raw = "fdiv (of_int (kv_bytes_per_token_for model (me_dtype base))) (of_int (max 1 (min (me_tensor_parallel_size e) (vm_num_key_value_heads model))))"
  have parts: "sz_budget sz = budget" "sz_overhead sz = ?over" "0 \<le> sz_reserve sz" "sz_kv_per_token sz = fdiv ?raw (of_int MIB)"
    "sz_weights_per_gpu sz = \<lceil>fdiv (of_int ?w) (of_int (me_tensor_parallel_size e))\<rceil>"
    using sz(1) b unfolding size_launch_def memory_budget_def with_utilization_steps_def [symmetric] e(1) [symmetric]
    by (auto simp: ebind_def Let_def MIN_RESERVE_MIB_def split: prod.splits)
  obtain desired reason where fit:
    "fit_context model request desired (me_max_model_len e) ?kv (sz_kv_per_token sz) (sz_weights_per_gpu sz) = (True, sz_context sz, reason)"
    using sz b unfolding size_launch_def memory_budget_def with_utilization_steps_def [symmetric] e(1) [symmetric]
    by (fastforce simp: ebind_def Let_def split: prod.splits)
  have budget: "budget \<le> vd_free_mib d" if "d \<in> set ds" for d
    using b(1) that by (auto simp: py_min_Inr intro: Min.coboundedI order_trans [OF Min_le])
  then show "\<forall>d \<in> set ds. sz_budget sz \<le> vd_free_mib d" using parts by simp
  obtain d where "d \<in> set ds" using b(1) by (cases ds) (auto simp: py_min_Inr)
  then have small: "budget < 2 ^ 53" using budget free by fastforce
  have wpg: "0 \<le> \<lceil>fdiv (of_int ?w) (of_int (me_tensor_parallel_size e))\<rceil>"
    using effective_weights_nonneg [OF weights, of "me_dtype base"] tp e(2) by (intro ceiling_nonneg fl_nonneg) simp
  show pos: "0 < sz_kv_per_token sz" using fit by (auto simp: fit_context_def split: if_splits)
  then have "0 \<le> ?raw / of_int MIB" using parts(4) fl_nonpos [of "?raw / of_int MIB"] by linarith
  then have fl: "fl (sz_kv_per_token sz) = sz_kv_per_token sz" unfolding parts(4) by (rule fl_fl)
  have kv: "?kv < 2 ^ 53" using small wpg over parts(2,3) by linarith
  show "sz_weights_per_gpu sz + \<lceil>fmul (sz_kv_per_token sz) (to_float (sz_context sz))\<rceil> + sz_overhead sz + sz_reserve sz
      \<le> sz_budget sz + (if vq_max_model_len request = None then 0 else 1)"
  proof (cases "vq_max_model_len request")
    case None
    then show ?thesis using fit_context_capacity(1) [OF fit fl kv] parts(1,5) by simp
  next
    case (Some n)
    then show ?thesis using fit_context_capacity(2) [OF fit fl kv Some] len e(3) parts(1,5) by auto
  qed
  show "vq_max_model_len request = None \<Longrightarrow> MIN_CONTEXT \<le> sz_context sz" using fit_context_capacity(1) [OF fit fl kv] by blast
  show "vq_max_model_len request = Some n \<Longrightarrow> sz_context sz = n" using fit_context_capacity(2) [OF fit fl kv] len e(3) by simp
qed

lemma size_launch_effective:
  assumes "size_launch bucket request model ds overhead steps base = Inr sz"
  shows "sz_effective sz = (let e = with_utilization_steps steps base
    in e\<lparr>me_max_model_len := sz_context sz, me_max_num_batched_tokens := min (me_max_num_batched_tokens e) (sz_context sz)\<rparr>)"
  using assms unfolding size_launch_def with_utilization_steps_def [symmetric]
  by (auto simp: ebind_Inr Let_def case_prod_beta)

lemma finish_plan_fitting:
  assumes "vf_fitting (finish_plan request attempt found blocked adj (applicable_steps request) sz)"
    and "me_max_model_len (sz_effective sz) = sz_context sz" "vq_max_model_len request = None \<longrightarrow> MIN_CONTEXT \<le> sz_context sz"
  defines "plan \<equiv> finish_plan request attempt found blocked adj (applicable_steps request) sz"
  shows "sz_fitting sz" "blocked = None"
    "ve_tensor_parallel_size (vf_effective plan) = me_tensor_parallel_size (sz_effective sz)"
    "ve_gpu_memory_utilization (vf_effective plan) = me_gpu_memory_utilization (sz_effective sz)"
    "ve_dtype (vf_effective plan) = me_dtype (sz_effective sz)"
    "ve_max_model_len (vf_effective plan) \<le> sz_context sz"
    "vq_max_model_len request = None \<Longrightarrow> MIN_CONTEXT \<le> ve_max_model_len (vf_effective plan)"
    "vq_max_model_len request \<noteq> None \<Longrightarrow> ve_max_model_len (vf_effective plan) = sz_context sz"
    "vq_max_num_batched_tokens request = Some b \<Longrightarrow> ve_max_num_batched_tokens (vf_effective plan) = b"
    "ve_model (vf_effective plan) = rm_name found"
    "vf_estimate plan = \<lparr>vs_weights_mib = sz_weights_mib sz, vs_weights_per_gpu_mib = sz_weights_per_gpu sz,
       vs_kv_cache_mib = \<lceil>fmul (sz_kv_per_token sz) (to_float (ve_max_model_len (vf_effective plan)))\<rceil>,
       vs_runtime_overhead_mib = sz_overhead sz, vs_reserve_mib = sz_reserve sz, vs_usable_budget_mib = sz_budget sz,
       vs_free_per_gpu_mib = sz_free sz\<rparr>"
proof -
  obtain e adj' where f: "fold (apply_step (sz_before sz)) (take (nat attempt) (applicable_steps request)) (sz_effective sz, adj) = (e, adj')"
    by fastforce
  have none: "smaller e (sz_effective sz)" if "vq_max_model_len request = None"
    using apply_steps_smaller [of "sz_effective sz"] f assms(2,3) that by (metis fst_conv)
  have some: "same_shape e (sz_effective sz)" if "vq_max_model_len request \<noteq> None"
    using apply_steps_explicit [OF applicable_context [OF that]] f by (metis fst_conv)
  note plan = plan_def finish_plan_def f prod.case Let_def settle_batch_def or_else_def
  show "sz_fitting sz" "blocked = None" using assms(1) by (auto simp: finish_plan_def Let_def or_else_def split: prod.splits if_splits)
  show "ve_model (vf_effective plan) = rm_name found"
    "vq_max_num_batched_tokens request = Some b \<Longrightarrow> ve_max_num_batched_tokens (vf_effective plan) = b"
    "vf_estimate plan = \<lparr>vs_weights_mib = sz_weights_mib sz, vs_weights_per_gpu_mib = sz_weights_per_gpu sz,
       vs_kv_cache_mib = \<lceil>fmul (sz_kv_per_token sz) (to_float (ve_max_model_len (vf_effective plan)))\<rceil>,
       vs_runtime_overhead_mib = sz_overhead sz, vs_reserve_mib = sz_reserve sz, vs_usable_budget_mib = sz_budget sz,
       vs_free_per_gpu_mib = sz_free sz\<rparr>"
    by (simp_all add: plan)
  have "vf_effective plan = \<lparr>ve_model = rm_name found, ve_tensor_parallel_size = me_tensor_parallel_size e,
     ve_max_model_len = me_max_model_len e, ve_max_num_batched_tokens = ve_max_num_batched_tokens (vf_effective plan),
     ve_gpu_memory_utilization = me_gpu_memory_utilization e, ve_dtype = me_dtype e, ve_attention_backend = me_attention_backend e\<rparr>"
    by (simp add: plan)
  then have v: "ve_tensor_parallel_size (vf_effective plan) = me_tensor_parallel_size e" "ve_max_model_len (vf_effective plan) = me_max_model_len e"
    "ve_gpu_memory_utilization (vf_effective plan) = me_gpu_memory_utilization e" "ve_dtype (vf_effective plan) = me_dtype e"
    by (metis VllmEffective.select_convs)+
  show "ve_tensor_parallel_size (vf_effective plan) = me_tensor_parallel_size (sz_effective sz)"
    "ve_gpu_memory_utilization (vf_effective plan) = me_gpu_memory_utilization (sz_effective sz)"
    "ve_dtype (vf_effective plan) = me_dtype (sz_effective sz)"
    "ve_max_model_len (vf_effective plan) \<le> sz_context sz"
    "vq_max_model_len request = None \<Longrightarrow> MIN_CONTEXT \<le> ve_max_model_len (vf_effective plan)"
    "vq_max_model_len request \<noteq> None \<Longrightarrow> ve_max_model_len (vf_effective plan) = sz_context sz"
    unfolding v using none some assms(2) by (cases "vq_max_model_len request"; simp add: smaller_def same_shape_def)+
qed

definition request_of :: "VllmRequested option \<Rightarrow> VllmRequested" where
  "request_of requested = (case requested of Some r \<Rightarrow> r | None \<Rightarrow> VllmRequested_new)"

lemma plan_stages:
  assumes "plan_vllm_launch cached bucket devices requested attempt overhead = Inr plan"
  obtains tp blocked found u ub adj sz where
    "devices \<noteq> []" "0 \<le> attempt"
    "start_tensor_parallel bucket (request_of requested) (int (length devices)) = (tp, blocked)"
    "resolve_loop 2 cached bucket devices (request_of requested) tp blocked None = Inr found"
    "choose_utilization (py_slice_to (rm_tp found) devices) (request_of requested) = Inr (u, ub, adj)"
    "size_launch bucket (request_of requested) (rm_model found) (py_slice_to (rm_tp found) devices) overhead
       (take (nat attempt) (applicable_steps (request_of requested)))
       (base_effective bucket (request_of requested) (rm_model found) (rm_tp found) u) = Inr sz"
    "plan = finish_plan (request_of requested) attempt found (or_else (rm_blocked found) ub)
       ((case rm_adjustment found of None \<Rightarrow> [] | Some a \<Rightarrow> [a]) @ adj) (applicable_steps (request_of requested)) sz"
  using assms unfolding plan_vllm_launch_def request_of_def [symmetric]
  by (auto simp: ebind_Inr Let_def simp del: resolve_loop.simps split: if_splits prod.splits)

lemma slice_to_take: "0 \<le> n \<Longrightarrow> py_slice_to n xs = take (nat n) xs"
  by (simp add: py_slice_to_def)

text \<open>The inputs a launch is planned from: memory sizes that are sizes, a tensor-parallel degree of at least one.\<close>

definition plausible_inputs :: "(string \<Rightarrow> VllmModelProfile option) \<Rightarrow> VllmDeviceMemory list \<Rightarrow> VllmRequested \<Rightarrow> int option \<Rightarrow> bool" where
  "plausible_inputs cached devices request overhead \<longleftrightarrow>
     (\<forall>d \<in> set devices. 0 \<le> vd_total_mib d \<and> vd_free_mib d < 2 ^ 53) \<and>
     (\<forall>m p. cached m = Some p \<longrightarrow> 0 \<le> vm_weights_mib p) \<and>
     pred_option (\<lambda>n. 1 \<le> n) (vq_tensor_parallel_size request) \<and> pred_option (\<lambda>n. n \<le> 2 ^ 53) (vq_max_model_len request) \<and>
     pred_option (\<lambda>n. 0 \<le> n) overhead"

lemma base_effective_simps:
  "me_tensor_parallel_size (base_effective bucket request m tp u) = tp"
  "me_gpu_memory_utilization (base_effective bucket request m tp u) = u"
  "vq_max_model_len request = Some n \<Longrightarrow> me_max_model_len (base_effective bucket request m tp u) = n"
  "vq_dtype request = Some d \<Longrightarrow> d \<noteq> [] \<Longrightarrow> me_dtype (base_effective bucket request m tp u) = Some d"
  by (auto simp: base_effective_def Let_def split: list.splits)

text \<open>The stages of a fitting plan, with what each of them established.\<close>

lemma fitting_stages:
  assumes plan: "plan_vllm_launch cached bucket devices requested attempt overhead = Inr plan" "vf_fitting plan"
    and inputs: "plausible_inputs cached devices (request_of requested) overhead"
  shows "1 \<le> ve_tensor_parallel_size (vf_effective plan)" "ve_tensor_parallel_size (vf_effective plan) \<le> int (length devices)"
    "utilization_fits (take (nat (ve_tensor_parallel_size (vf_effective plan))) devices) (ve_gpu_memory_utilization (vf_effective plan))"
    "\<forall>d \<in> set (take (nat (ve_tensor_parallel_size (vf_effective plan))) devices). vs_usable_budget_mib (vf_estimate plan) \<le> vd_free_mib d"
    "total_mib (vf_estimate plan) \<le> vs_usable_budget_mib (vf_estimate plan)
       + (if vq_max_model_len (request_of requested) = None then 0 else 1)"
    "\<forall>n. vq_tensor_parallel_size (request_of requested) = Some n \<longrightarrow> ve_tensor_parallel_size (vf_effective plan) = n"
    "\<forall>n. vq_max_model_len (request_of requested) = Some n \<longrightarrow> ve_max_model_len (vf_effective plan) = n"
    "\<forall>n. vq_max_num_batched_tokens (request_of requested) = Some n \<longrightarrow> ve_max_num_batched_tokens (vf_effective plan) = n"
    "\<forall>v. vq_gpu_memory_utilization (request_of requested) = Some v \<longrightarrow> ve_gpu_memory_utilization (vf_effective plan) = v"
    "\<forall>m. vq_model (request_of requested) = Some m \<and> m \<noteq> [] \<longrightarrow> ve_model (vf_effective plan) = m"
    "\<forall>d. vq_dtype (request_of requested) = Some d \<and> d \<noteq> [] \<longrightarrow> ve_dtype (vf_effective plan) = Some d"
proof -
  let ?r = "request_of requested"
  from plan(1) obtain tp blocked found u ub adj sz where s:
    "devices \<noteq> []" "0 \<le> attempt" "start_tensor_parallel bucket ?r (int (length devices)) = (tp, blocked)"
    "resolve_loop 2 cached bucket devices ?r tp blocked None = Inr found"
    "choose_utilization (py_slice_to (rm_tp found) devices) ?r = Inr (u, ub, adj)"
    "size_launch bucket ?r (rm_model found) (py_slice_to (rm_tp found) devices) overhead
       (take (nat attempt) (applicable_steps ?r)) (base_effective bucket ?r (rm_model found) (rm_tp found) u) = Inr sz"
    "plan = finish_plan ?r attempt found (or_else (rm_blocked found) ub)
       ((case rm_adjustment found of None \<Rightarrow> [] | Some a \<Rightarrow> [a]) @ adj) (applicable_steps ?r) sz"
    by (rule plan_stages)
  let ?base = "base_effective bucket ?r (rm_model found) (rm_tp found) u" and ?ds = "py_slice_to (rm_tp found) devices"
  let ?e = "with_utilization_steps (take (nat attempt) (applicable_steps ?r)) ?base"
  have len: "1 \<le> int (length devices)" using s(1) by (cases devices) simp_all
  have request: "\<forall>k. vq_tensor_parallel_size ?r = Some k \<longrightarrow> 1 \<le> k" "\<forall>n. vq_max_model_len ?r = Some n \<longrightarrow> n \<le> 2 ^ 53"
    "\<forall>n. overhead = Some n \<longrightarrow> 0 \<le> n" "\<And>m p. cached m = Some p \<Longrightarrow> 0 \<le> vm_weights_mib p"
    using inputs by (auto simp: plausible_inputs_def pred_option_def)
  note start = start_tensor_parallel_bounds [OF s(3) len request(1)]
  note found = resolve_loop_bounds [OF s(4) start(1,2)]
  have ds: "?ds = take (nat (rm_tp found)) devices" using found(1) by (intro slice_to_take) simp
  have devices: "\<forall>d \<in> set ?ds. 0 \<le> vd_total_mib d" "\<forall>d \<in> set ?ds. vd_free_mib d < 2 ^ 53"
    using inputs ds by (auto simp: plausible_inputs_def dest: in_set_takeD)
  have fitting: "sz_fitting sz" "or_else (rm_blocked found) ub = None"
    using plan(2) unfolding s(7) by (auto simp: finish_plan_def Let_def or_else_def split: prod.splits if_splits)
  then have blocked: "ub = None" "blocked = None" using found(6) by (auto simp: or_else_def split: if_splits option.splits) (cases blocked, auto)
  note util = utilization_steps_fit [OF s(5) [unfolded blocked(1)] devices(1) base_effective_simps(2), of "nat attempt"]
  obtain m where "model_profile_for cached m = Inr (rm_model found)" using found(3) by blast
  then have weights: "0 \<le> vm_weights_mib (rm_model found)" using request(4) by (rule profile_weights_nonneg)
  have explicit: "\<forall>n. vq_max_model_len ?r = Some n \<longrightarrow> me_max_model_len ?base = n \<and> n \<le> 2 ^ 53"
    using request(2) base_effective_simps(3) by blast
  have tp: "1 \<le> me_tensor_parallel_size ?base" using found(1) by (simp add: base_effective_simps)
  note sized = size_launch_fits [OF s(6) fitting(1) devices(2) tp weights request(3) refl util(4,5) explicit]
  have eff: "me_max_model_len (sz_effective sz) = sz_context sz" "me_tensor_parallel_size (sz_effective sz) = rm_tp found"
    "me_gpu_memory_utilization (sz_effective sz) = me_gpu_memory_utilization ?e" "me_dtype (sz_effective sz) = me_dtype ?base"
    using size_launch_effective [OF s(6)] util(4,7) by (simp_all add: Let_def base_effective_simps)
  have least: "vq_max_model_len ?r = None \<longrightarrow> MIN_CONTEXT \<le> sz_context sz" using sized(4) by blast
  note final = finish_plan_fitting [OF plan(2) [unfolded s(7)] eff(1) least, folded s(7)]
  have vtp: "ve_tensor_parallel_size (vf_effective plan) = rm_tp found" using final(3) eff(2) by simp
  have vds: "take (nat (ve_tensor_parallel_size (vf_effective plan))) devices = ?ds" using vtp ds by simp
  show "1 \<le> ve_tensor_parallel_size (vf_effective plan)" "ve_tensor_parallel_size (vf_effective plan) \<le> int (length devices)"
    using vtp found(1,2) by simp_all
  show "utilization_fits (take (nat (ve_tensor_parallel_size (vf_effective plan))) devices) (ve_gpu_memory_utilization (vf_effective plan))"
    unfolding vds final(4) eff(3) by (rule util(1))
  show "\<forall>d \<in> set (take (nat (ve_tensor_parallel_size (vf_effective plan))) devices). vs_usable_budget_mib (vf_estimate plan) \<le> vd_free_mib d"
    unfolding vds using sized(2) final(11) by simp
  have kv: "\<lceil>fmul (sz_kv_per_token sz) (to_float (ve_max_model_len (vf_effective plan)))\<rceil>
      \<le> \<lceil>fmul (sz_kv_per_token sz) (to_float (sz_context sz))\<rceil>"
  proof (cases "vq_max_model_len ?r")
    case None
    then have "0 \<le> ve_max_model_len (vf_effective plan)" using final(7) by (simp add: MIN_CONTEXT_def)
    then show ?thesis using sized(3) final(6)
      by (intro ceiling_mono fl_mono mult_nonneg_nonneg mult_left_mono fl_nonneg) simp_all
  qed (simp add: final(8))
  then show "total_mib (vf_estimate plan) \<le> vs_usable_budget_mib (vf_estimate plan) + (if vq_max_model_len ?r = None then 0 else 1)"
    using sized(1) final(11) by (simp add: total_mib_def)
  show "\<forall>n. vq_tensor_parallel_size ?r = Some n \<longrightarrow> ve_tensor_parallel_size (vf_effective plan) = n"
    using vtp found(4) start(3) blocked(2) by simp
  show "\<forall>n. vq_max_model_len ?r = Some n \<longrightarrow> ve_max_model_len (vf_effective plan) = n" using final(8) sized(5) by simp
  show "\<forall>n. vq_max_num_batched_tokens ?r = Some n \<longrightarrow> ve_max_num_batched_tokens (vf_effective plan) = n" using final(9) by blast
  show "\<forall>v. vq_gpu_memory_utilization ?r = Some v \<longrightarrow> ve_gpu_memory_utilization (vf_effective plan) = v"
    using final(4) eff(3) util(3) choose_utilization_fits(3) [OF s(5) [unfolded blocked(1)] devices(1)] by (metis option.distinct(1))
  show "\<forall>m. vq_model ?r = Some m \<and> m \<noteq> [] \<longrightarrow> ve_model (vf_effective plan) = m" using final(10) found(5) by simp
  show "\<forall>d. vq_dtype ?r = Some d \<and> d \<noteq> [] \<longrightarrow> ve_dtype (vf_effective plan) = Some d"
    using final(5) eff(4) base_effective_simps(4) by simp
qed

text \<open>
  C31. A plan that claims to fit does: with \<open>tp\<close> cards allocated from the front of the selected devices, the estimate of
  weights, KV cache, runtime overhead and reserve is within the usable budget, the budget is within the free memory of each
  allocated card, and vLLM's own start-up check (its share of the total memory is free) passes on each of them. With an
  explicit context length the float division costs one MiB: the estimate may exceed the budget by one. The number of cards
  is at least one and at most the number of selected devices.
\<close>

theorem plan_fits_memory:
  assumes "plan_vllm_launch cached bucket devices requested attempt overhead = Inr plan" "vf_fitting plan"
    and "plausible_inputs cached devices (request_of requested) overhead"
  defines "tp \<equiv> ve_tensor_parallel_size (vf_effective plan)" and "u \<equiv> ve_gpu_memory_utilization (vf_effective plan)"
  shows "1 \<le> tp \<and> tp \<le> int (length devices) \<and> 0 < u \<and>
    total_mib (vf_estimate plan) \<le> vs_usable_budget_mib (vf_estimate plan)
      + (if vq_max_model_len (request_of requested) = None then 0 else 1) \<and>
    (\<forall>d \<in> set (take (nat tp) devices). vs_usable_budget_mib (vf_estimate plan) \<le> vd_free_mib d \<and>
       \<lceil>fmul (to_float (vd_total_mib d)) u\<rceil> \<le> vd_free_mib d)"
  using fitting_stages(1-5) [OF assms(1-3)] unfolding tp_def u_def by (auto simp: utilization_fits_def list_all_iff)

text \<open>
  An explicit setting of the operator is never changed by a fitting plan, on no attempt: not the model, the
  tensor-parallel size, the context length, the batch size, the memory utilization or the data type.
\<close>

theorem plan_keeps_explicit_settings:
  assumes "plan_vllm_launch cached bucket devices requested attempt overhead = Inr plan" "vf_fitting plan"
    and "plausible_inputs cached devices (request_of requested) overhead"
  defines "e \<equiv> vf_effective plan" and "r \<equiv> request_of requested"
  shows "(\<forall>m. vq_model r = Some m \<and> m \<noteq> [] \<longrightarrow> ve_model e = m) \<and>
    (\<forall>n. vq_tensor_parallel_size r = Some n \<longrightarrow> ve_tensor_parallel_size e = n) \<and>
    (\<forall>n. vq_max_model_len r = Some n \<longrightarrow> ve_max_model_len e = n) \<and>
    (\<forall>n. vq_max_num_batched_tokens r = Some n \<longrightarrow> ve_max_num_batched_tokens e = n) \<and>
    (\<forall>u. vq_gpu_memory_utilization r = Some u \<longrightarrow> ve_gpu_memory_utilization e = u) \<and>
    (\<forall>d. vq_dtype r = Some d \<and> d \<noteq> [] \<longrightarrow> ve_dtype e = Some d)"
  using fitting_stages(6-11) [OF assms(1-3)] unfolding e_def r_def by blast

section \<open>A sample launch\<close>

definition sample_card :: "int \<Rightarrow> VllmDeviceMemory" where
  "sample_card i = \<lparr>vd_index = i, vd_total_mib = 49152, vd_free_mib = 48000, vd_compute_capability = Some ''8.6''\<rparr>"

definition sample_request :: VllmRequested where
  "sample_request = VllmRequested_new\<lparr>vq_model := Some ''Qwen/Qwen2.5-7B-Instruct'', vq_gpu_memory_utilization := Some (1 / 2),
     vq_max_model_len := Some 4096, vq_dtype := Some ''float16''\<rparr>"

abbreviation sample_cards :: "VllmDeviceMemory list" where
  "sample_cards \<equiv> [sample_card 0, sample_card 1]"

definition sample_model :: VllmModelProfile where
  "sample_model = snd (catalog_model ''Qwen/Qwen2.5-7B-Instruct'' 15200 28 3584 28 4 32768 ''bfloat16'' False)"

lemma sample_start: "start_tensor_parallel ''consumer-ampere'' sample_request 2 = (1, None)"
  by code_simp

lemma sample_resolve:
  "resolve_loop 2 Map.empty ''consumer-ampere'' sample_cards sample_request 1 None None =
     Inr \<lparr>rm_name = ''Qwen/Qwen2.5-7B-Instruct'', rm_selection = EXPLICIT, rm_why = ''explicit model Qwen/Qwen2.5-7B-Instruct'',
       rm_model = sample_model, rm_tp = 1, rm_blocked = None, rm_adjustment = None\<rparr>"
  by code_simp

lemma sample_utilization: "choose_utilization [sample_card 0] sample_request = Inr (1 / 2, None, [])"
  by code_simp

lemma sample_slice: "py_slice_to 1 sample_cards = [sample_card 0]"
  by code_simp

lemma sample_applicable: "applicable_steps sample_request = [BATCH_STEP]"
  by code_simp

lemma sample_base:
  "base_effective ''consumer-ampere'' sample_request sample_model 1 (1 / 2) = \<lparr>me_tensor_parallel_size = 1, me_max_model_len = 4096,
     me_max_num_batched_tokens = 4096, me_gpu_memory_utilization = 1 / 2, me_dtype = Some ''float16'', me_attention_backend = Some ''FLASH_ATTN''\<rparr>"
  by code_simp

lemma sample_size:
  "size_launch ''consumer-ampere'' sample_request sample_model [sample_card 0] None []
     (base_effective ''consumer-ampere'' sample_request sample_model 1 (1 / 2)) =
   Inr \<lparr>sz_effective = base_effective ''consumer-ampere'' sample_request sample_model 1 (1 / 2), sz_fitting = True, sz_context = 4096,
     sz_reason = ''explicit max_model_len fits the budget'', sz_kv_per_token = 7 / 128, sz_weights_mib = 15200, sz_weights_per_gpu = 15200,
     sz_overhead = 2048, sz_reserve = 492, sz_budget = 24576, sz_free = 48000, sz_before = 1 / 2\<rparr>"
proof -
  have "memory_budget sample_model [sample_card 0] 1 (1 / 2) (effective_weights_mib sample_model (Some ''float16''))
      (kv_bytes_per_token_for sample_model (Some ''float16'')) = Inr (9376, 24576, 48000, 15200, 7 / 128)" by code_simp
  moreover have "max MIN_RESERVE_MIB (half_even (fmul (to_float 24576) RESERVE_FRACTION)) = 492" by code_simp
  moreover have "fit_context sample_model sample_request 4096 4096 6836 (7 / 128) 15200 = (True, 4096, ''explicit max_model_len fits the budget'')"
    by code_simp
  moreover have "min (dict_get_or PROFILE_DESIRED_CONTEXT ''consumer-ampere'' DEFAULT_DESIRED_CONTEXT) (vm_max_position_embeddings sample_model) = 4096"
    "dict_get_or PROFILE_RUNTIME_OVERHEAD_MIB ''consumer-ampere'' DEFAULT_RUNTIME_OVERHEAD_MIB = 2048" "vm_approximate sample_model = False"
    "effective_weights_mib sample_model (Some ''float16'') = 15200"
    by code_simp+
  ultimately show ?thesis by (simp add: size_launch_def ebind_def sample_base Let_def)
qed

lemma sample_plan:
  "\<exists>plan. plan_vllm_launch Map.empty ''consumer-ampere'' sample_cards (Some sample_request) 0 None = Inr plan \<and>
     vf_fitting plan \<and> ve_max_model_len (vf_effective plan) = 4096 \<and> ve_max_num_batched_tokens (vf_effective plan) = 4096 \<and> vf_retry_available plan \<and>
     ve_tensor_parallel_size (vf_effective plan) = 1 \<and> total_mib (vf_estimate plan) = 17964 \<and> vs_usable_budget_mib (vf_estimate plan) = 24576"
proof -
  have kv: "\<lceil>fmul (7 / 128) (to_float 4096)\<rceil> = 224" by code_simp
  have none: "vq_max_num_batched_tokens sample_request = None" by (simp add: sample_request_def VllmRequested_new_def)
  obtain found sz where "plan_vllm_launch Map.empty ''consumer-ampere'' sample_cards (Some sample_request) 0 None =
      Inr (finish_plan sample_request 0 found None [] [BATCH_STEP] sz)"
    and "sz = \<lparr>sz_effective = base_effective ''consumer-ampere'' sample_request sample_model 1 (1 / 2), sz_fitting = True, sz_context = 4096,
     sz_reason = ''explicit max_model_len fits the budget'', sz_kv_per_token = 7 / 128, sz_weights_mib = 15200, sz_weights_per_gpu = 15200,
     sz_overhead = 2048, sz_reserve = 492, sz_budget = 24576, sz_free = 48000, sz_before = 1 / 2\<rparr>"
    by (simp add: plan_vllm_launch_def sample_start sample_resolve sample_utilization sample_slice sample_applicable sample_size
      ebind_def or_else_def del: resolve_loop.simps)
  then show ?thesis
    by (simp add: finish_plan_def settle_batch_def Let_def or_else_def sample_base batch_reduced_def MIN_CONTEXT_def total_mib_def retry_moves_def reduction_key_def none kv kv [simplified])
qed

lemma sample_plausible: "plausible_inputs Map.empty sample_cards (request_of (Some sample_request)) None"
  by (simp add: plausible_inputs_def sample_card_def request_of_def sample_request_def VllmRequested_new_def)

theorem plan_fits_memory_witness:
  "\<exists>plan. plan_vllm_launch Map.empty ''consumer-ampere'' sample_cards (Some sample_request) 0 None = Inr plan \<and>
     total_mib (vf_estimate plan) = 17964 \<and> ve_tensor_parallel_size (vf_effective plan) = 1 \<and>
     total_mib (vf_estimate plan) \<le> vs_usable_budget_mib (vf_estimate plan) + 1 \<and>
     vs_usable_budget_mib (vf_estimate plan) \<le> vd_free_mib (sample_card 0)"
proof -
  obtain plan where plan: "plan_vllm_launch Map.empty ''consumer-ampere'' sample_cards (Some sample_request) 0 None = Inr plan" "vf_fitting plan"
    and tp: "ve_tensor_parallel_size (vf_effective plan) = 1" "total_mib (vf_estimate plan) = 17964"
    using sample_plan by auto
  have "vq_max_model_len (request_of (Some sample_request)) \<noteq> None" by (simp add: request_of_def sample_request_def)
  then show ?thesis using plan_fits_memory [OF plan sample_plausible] plan tp by auto
qed

theorem plan_keeps_explicit_settings_witness:
  "\<exists>plan. plan_vllm_launch Map.empty ''consumer-ampere'' sample_cards (Some sample_request) 0 None = Inr plan \<and>
     vq_max_model_len sample_request = Some 4096 \<and> ve_max_model_len (vf_effective plan) = 4096 \<and>
     ve_gpu_memory_utilization (vf_effective plan) = 1 / 2 \<and> ve_dtype (vf_effective plan) = Some ''float16''"
proof -
  obtain plan where plan: "plan_vllm_launch Map.empty ''consumer-ampere'' sample_cards (Some sample_request) 0 None = Inr plan" "vf_fitting plan"
    using sample_plan by auto
  have fields: "vq_max_model_len sample_request = Some 4096" "vq_gpu_memory_utilization sample_request = Some (1 / 2)"
    "vq_dtype sample_request = Some ''float16''" "request_of (Some sample_request) = sample_request"
    by (simp_all add: sample_request_def request_of_def)
  have keeps: "\<forall>n. vq_max_model_len sample_request = Some n \<longrightarrow> ve_max_model_len (vf_effective plan) = n"
    "\<forall>u. vq_gpu_memory_utilization sample_request = Some u \<longrightarrow> ve_gpu_memory_utilization (vf_effective plan) = u"
    "\<forall>d. vq_dtype sample_request = Some d \<and> d \<noteq> [] \<longrightarrow> ve_dtype (vf_effective plan) = Some d"
    using plan_keeps_explicit_settings [OF plan sample_plausible] unfolding fields(4) by blast+
  show ?thesis
    using plan(1) fields(1) keeps(1) [rule_format, OF fields(1)] keeps(2) [rule_format, OF fields(2)] keeps(3) [rule_format, of "''float16''"] fields(3)
    by blast
qed

lemma no_recursion_limit:
  "py_min xs \<noteq> Inl RecursionLimit" "select_vllm_model b n \<noteq> Inl RecursionLimit" "estimate_model_profile m \<noteq> Inl RecursionLimit"
  "model_profile_for cached m \<noteq> Inl RecursionLimit"
  by (auto simp: py_min_def select_vllm_model_def estimate_model_profile_def model_profile_for_def Let_def split: option.splits)

lemma resolve_model_no_limit: "resolve_model bucket ds request tp \<noteq> Inl RecursionLimit"
  by (auto simp: resolve_model_def ebind_Inl Let_def no_recursion_limit split: option.splits list.splits)

lemma resolve_loop_no_limit: "resolve_loop n cached bucket ds request tp blocked adj \<noteq> Inl RecursionLimit"
proof (induction n arbitrary: tp adj)
  case 0
  show ?case by (auto simp: ebind_Inl Let_def resolve_model_no_limit no_recursion_limit)
next
  case (Suc n)
  show ?case
    by (subst resolve_loop.simps) (auto simp: ebind_Inl Let_def resolve_model_no_limit no_recursion_limit Suc.IH simp del: resolve_loop.simps)
qed

lemma choose_utilization_no_limit: "choose_utilization ds request \<noteq> Inl RecursionLimit"
  using max_fitting_hundredth [of ds]
  by (auto simp: choose_utilization_def ebind_Inl Let_def no_recursion_limit split: option.splits)

text \<open>
  Planning ends: the loop that lowers the utilization by one hundredth at a time never runs past its hundred steps (each
  subtraction and rounding gives the next lower hundredth exactly), so no input makes the planner run on; and the retries end,
  because a plan offers a retry only below three attempts, and only when the next step changes the launch.
\<close>

theorem planning_ends:
  "plan_vllm_launch cached bucket devices requested attempt overhead \<noteq> Inl RecursionLimit \<and>
   (\<forall>plan. plan_vllm_launch cached bucket devices requested attempt overhead = Inr plan \<and> vf_retry_available plan
      \<longrightarrow> 0 \<le> attempt \<and> attempt < 3)"
proof
  have "size_launch bucket r m ds overhead steps base \<noteq> Inl RecursionLimit" for r m ds steps base
    by (auto simp: size_launch_def memory_budget_def ebind_Inl Let_def case_prod_beta no_recursion_limit)
  then show "plan_vllm_launch cached bucket devices requested attempt overhead \<noteq> Inl RecursionLimit"
    by (auto simp: plan_vllm_launch_def ebind_Inl Let_def case_prod_beta resolve_loop_no_limit choose_utilization_no_limit
      simp del: resolve_loop.simps)
  have three: "length (applicable_steps r) \<le> 3" for r
    unfolding applicable_steps_def ADJUSTMENT_POLICY_def by (rule order_trans [OF length_filter_le]) simp
  have "0 \<le> attempt \<and> attempt < 3"
    if "plan_vllm_launch cached bucket devices requested attempt overhead = Inr plan" "vf_retry_available plan" for plan
    using that(1)
  proof (rule plan_stages)
    fix found ub adj sz
    assume "0 \<le> attempt" "plan = finish_plan (request_of requested) attempt found (or_else (rm_blocked found) ub)
       ((case rm_adjustment found of None \<Rightarrow> [] | Some a \<Rightarrow> [a]) @ adj) (applicable_steps (request_of requested)) sz"
    then show ?thesis using that(2) three [of "request_of requested"] by (auto simp: finish_plan_def retry_moves_def Let_def split: prod.splits)
  qed
  then show "\<forall>plan. plan_vllm_launch cached bucket devices requested attempt overhead = Inr plan \<and> vf_retry_available plan
      \<longrightarrow> 0 \<le> attempt \<and> attempt < 3" by blast
qed

theorem planning_ends_witness:
  "\<exists>plan. plan_vllm_launch Map.empty ''consumer-ampere'' sample_cards (Some sample_request) 0 None = Inr plan \<and>
     vf_retry_available plan \<and> (0 :: int) < 3"
  using planning_ends [of Map.empty "''consumer-ampere''" sample_cards "Some sample_request" 0 None] sample_plan by auto

end
