(* ===== verification/LogStore.thy ===== *)
theory LogStore
  imports PyFloat PyText
begin

text \<open>
  \<^verbatim>\<open>provisioning/log_store.py\<close>: the attempt logs in SQLite. The database is three tables; a row of \<open>attempts\<close> keeps its
  manifest decoded (\<open>json.loads\<close> and \<open>json.dumps\<close> are inverse on what the store writes), a row of \<open>records\<close> keeps
  the entry whose dump is the payload. A method is one transaction: on an error the database is left as it was. Rows are in
  \<open>rowid\<close> order, and \<open>ORDER BY\<close> sorts stably. \<open>BadMetadata\<close> stands for the \<open>TypeError\<close>, \<open>KeyError\<close> or
  \<open>AttributeError\<close> that a manifest of another shape raises. Clock readings, fresh identifiers and \<open>repr\<close> of a float are arguments.
\<close>

section \<open>Stages\<close>

definition SOURCE_RECORD_BUDGET :: nat where
  "SOURCE_RECORD_BUDGET = 201"

definition SETUP_STAGE_ORDER :: "string list" where
  "SETUP_STAGE_ORDER =
     [''check_install_capacity'', ''system_prerequisites'', ''runtime_prerequisites'', ''nvidia_driver'', ''cuda_toolkit'',
      ''fabric_manager'', ''cuda_proof'', ''llamacpp_toolchain'', ''vllm_install'', ''llamacpp_install'', ''nfs_mount'', ''firewall'',
      ''llmfit_install'', ''generation_activate'', ''vllm_unit'']"

definition SETUP_ENGINE_STAGES :: "(string, string list) dict" where
  "SETUP_ENGINE_STAGES =
     [(''vllm'',
        [''check_install_capacity'', ''system_prerequisites'', ''runtime_prerequisites'', ''nvidia_driver'', ''cuda_toolkit'',
         ''fabric_manager'', ''cuda_proof'', ''vllm_install'', ''nfs_mount'', ''firewall'', ''llmfit_install'', ''generation_activate'',
         ''vllm_unit'']),
      (''llama_cpp'',
        [''check_install_capacity'', ''system_prerequisites'', ''runtime_prerequisites'', ''nvidia_driver'', ''fabric_manager'',
         ''llamacpp_toolchain'', ''cuda_toolkit'', ''cuda_proof'', ''llamacpp_install'', ''nfs_mount'', ''firewall'', ''llmfit_install'',
         ''generation_activate''])]"

definition NON_RESUMABLE_STAGES :: "string list" where
  "NON_RESUMABLE_STAGES = [''generation_activate'']"

definition MAX_CHECKPOINTS :: nat where
  "MAX_CHECKPOINTS = 32"

datatype log_error = MissingAttempt string | DuplicateAttempt string | BadMetadata | EmptyPage

text \<open>Only a text can be a key of the stage table; a list or an object is unhashable.\<close>

definition stage_order :: "json \<Rightarrow> log_error + string list" where
  "stage_order engine =
     (if json_truthy engine
      then case engine of
             JStr e \<Rightarrow> Inr (dict_get_or SETUP_ENGINE_STAGES e SETUP_STAGE_ORDER)
           | JList _ \<Rightarrow> Inl BadMetadata
           | JObj _ \<Rightarrow> Inl BadMetadata
           | _ \<Rightarrow> Inr SETUP_STAGE_ORDER
      else Inr SETUP_STAGE_ORDER)"

text \<open>\<open>str(status).lower()\<close>, as far as it can be one of the status words: of another type, the text is none of them.\<close>

definition status_word :: "json \<Rightarrow> string" where
  "status_word j = (case j of JStr s \<Rightarrow> str_lower s | _ \<Rightarrow> [])"

record setup_summary =
  sp_completed_stages :: "string list"
  sp_stages_passed :: int
  sp_total_stages :: int
  sp_percent :: rat
  sp_failed_stages :: "string list"

definition round1 :: "rat \<Rightarrow> rat" where
  "round1 x = fl (of_int (half_even (x * 10)) / 10)"

definition summarize :: "string list \<Rightarrow> (string, json) dict \<Rightarrow> setup_summary" where
  "summarize stages completed =
     (let finished = filter (\<lambda>stage. status_word (dict_get_or completed stage (JStr [])) \<in> {''completed'', ''skipped''}) stages;
          passed = Max (set (0 # map fst (filter (\<lambda>(i, stage). stage \<in> set finished) (zip [1..int (length stages)] stages))));
          total_stages = int (length stages)
      in \<lparr>sp_completed_stages = finished, sp_stages_passed = passed, sp_total_stages = total_stages,
          sp_percent = (if total_stages = 0 then 0 else round1 (fdiv (of_int (100 * passed)) (of_int total_stages))),
          sp_failed_stages = sort (map fst (filter (\<lambda>(stage, status). status_word status = ''failed'' \<and> stage \<in> set stages) completed))\<rparr>)"

definition summary_json :: "setup_summary \<Rightarrow> json" where
  "summary_json p =
     JObj [(''completed_stages'', JList (map JStr (sp_completed_stages p))), (''completed_count'', JInt (int (length (sp_completed_stages p)))),
       (''stages_passed'', JInt (sp_stages_passed p)), (''total_stages'', JInt (sp_total_stages p)), (''percent'', JFloat (sp_percent p)),
       (''failed_stages'', JList (map JStr (sp_failed_stages p)))]"

definition setup_progress :: "(string, json) dict \<Rightarrow> json \<Rightarrow> log_error + json" where
  "setup_progress completed engine = ebind (stage_order engine) (\<lambda>stages. Inr (summary_json (summarize stages completed)))"

section \<open>Tables\<close>

type_synonym metadata = "(string, json) dict"

record attempt_row =
  at_id :: string
  at_hostname :: host
  at_created :: micros
  at_metadata :: metadata
  at_next_seq :: int
  at_remote_cursor :: int
  at_dropped :: int
  at_bytes :: int

record log_record =
  lr_hostname :: json
  lr_attempt_id :: string
  lr_engine :: json
  lr_model :: json
  lr_bundle_version :: json
  lr_seq :: int
  lr_remote_seq :: "int option"
  lr_ts :: string
  lr_level :: string
  lr_msg :: string
  lr_stream :: "string option"
  lr_source :: string
  lr_stage :: json
  lr_truncated :: bool

record record_row =
  rr_attempt :: string
  rr_seq :: int
  rr_entry :: log_record
  rr_bytes :: int

record log_db =
  db_attempts :: "attempt_row list"
  db_records :: "record_row list"
  db_statistics :: "(string, int) dict"

record AttemptLogStore =
  ls_max_bytes :: int
  ls_attempt_max_bytes :: int
  ls_max_attempts :: int
  ls_retention :: micros
  ls_max_record_bytes :: int

abbreviation find_attempt :: "string \<Rightarrow> log_db \<Rightarrow> attempt_row option" where
  "find_attempt i db \<equiv> find (\<lambda>r. at_id r = i) (db_attempts db)"

definition update_attempt :: "string \<Rightarrow> (attempt_row \<Rightarrow> attempt_row) \<Rightarrow> log_db \<Rightarrow> log_db" where
  "update_attempt i f db = db\<lparr>db_attempts := map (\<lambda>r. if at_id r = i then f r else r) (db_attempts db)\<rparr>"

definition get_row :: "string \<Rightarrow> log_db \<Rightarrow> log_error + attempt_row" where
  "get_row i db = (case find_attempt i db of None \<Rightarrow> Inl (MissingAttempt i) | Some r \<Rightarrow> Inr r)"

text \<open>\<open>UPDATE statistics SET value=value+n WHERE name=...\<close>: no row, no effect.\<close>

definition bump :: "string \<Rightarrow> int \<Rightarrow> log_db \<Rightarrow> log_db" where
  "bump name n db = db\<lparr>db_statistics := map (\<lambda>(k, v). (k, if k = name then v + n else v)) (db_statistics db)\<rparr>"

definition statistic :: "string \<Rightarrow> log_db \<Rightarrow> int option" where
  "statistic name db = dict_get (db_statistics db) name"

text \<open>Inserting and deleting records fires the triggers that keep \<open>retained_bytes\<close>.\<close>

definition insert_record :: "record_row \<Rightarrow> log_db \<Rightarrow> log_db" where
  "insert_record r db = bump ''retained_bytes'' (rr_bytes r) (db\<lparr>db_records := db_records db @ [r]\<rparr>)"

definition delete_records :: "(record_row \<Rightarrow> bool) \<Rightarrow> log_db \<Rightarrow> log_db" where
  "delete_records P db =
     bump ''retained_bytes'' (- sum_list (map rr_bytes (filter P (db_records db))))
       (db\<lparr>db_records := filter (\<lambda>r. \<not> P r) (db_records db)\<rparr>)"

text \<open>Deleting attempts cascades to their records and counts the eviction of each host.\<close>

definition host_evicted :: "host \<Rightarrow> log_db \<Rightarrow> log_db" where
  "host_evicted h db =
     (let name = ''evicted_attempts:'' @ h
      in db\<lparr>db_statistics := (case dict_get (db_statistics db) name of
           None \<Rightarrow> db_statistics db @ [(name, 1)] | Some v \<Rightarrow> dict_set name (v + 1) (db_statistics db))\<rparr>)"

definition delete_attempts :: "(attempt_row \<Rightarrow> bool) \<Rightarrow> log_db \<Rightarrow> log_db" where
  "delete_attempts P db =
     (let gone = filter P (db_attempts db)
      in fold (\<lambda>r. host_evicted (at_hostname r)) gone
           (delete_records (\<lambda>r. rr_attempt r \<in> set (map at_id gone)) (db\<lparr>db_attempts := filter (\<lambda>r. \<not> P r) (db_attempts db)\<rparr>)))"

section \<open>Retention\<close>

text \<open>\<open>json_extract(metadata,'$.status') != 'running'\<close>: unknown, and so not true, when there is no status.\<close>

definition not_running :: "attempt_row \<Rightarrow> bool" where
  "not_running r =
     (case dict_get (at_metadata r) ''status'' of
        None \<Rightarrow> False | Some JNull \<Rightarrow> False | Some (JStr s) \<Rightarrow> s \<noteq> ''running'' | Some _ \<Rightarrow> True)"

definition newest_first :: "attempt_row list \<Rightarrow> attempt_row list" where
  "newest_first rows = rev (sort_key (\<lambda>r. (at_created r, at_id r)) rows)"

definition excess_rows :: "AttemptLogStore \<Rightarrow> log_db \<Rightarrow> attempt_row list" where
  "excess_rows store db = drop (nat (ls_max_attempts store)) (newest_first (filter not_running (db_attempts db)))"

definition prune_rows :: "AttemptLogStore \<Rightarrow> micros \<Rightarrow> log_db \<Rightarrow> log_db" where
  "prune_rows store now db =
     (let cutoff = now - ls_retention store;
          doomed = (\<lambda>r. not_running r \<and> (at_created r < cutoff \<or> at_id r \<in> set (map at_id (excess_rows store db))));
          removed = int (length (filter doomed (db_attempts db)))
      in if removed = 0 then db else bump ''evicted_attempts'' removed (delete_attempts doomed db))"

definition prune :: "AttemptLogStore \<Rightarrow> micros \<Rightarrow> micros \<Rightarrow> log_db \<Rightarrow> log_db" where
  "prune store now now' db =
     (if list_ex (\<lambda>r. not_running r \<and> at_created r < now - ls_retention store) (db_attempts db) \<or> excess_rows store db \<noteq> []
      then prune_rows store now' db else db)"

text \<open>The rows a rotation removes: the oldest ones, until what is left fits.\<close>

fun rotate_scan :: "int \<Rightarrow> int \<Rightarrow> int \<Rightarrow> int \<Rightarrow> int \<Rightarrow> record_row list \<Rightarrow> int \<times> int \<times> int" where
  "rotate_scan bytes budget removed n final [] = (removed, n, final)"
| "rotate_scan bytes budget removed n final (r # rs) =
     (let removed = removed + rr_bytes r
      in if bytes - removed \<le> budget then (removed, n + 1, rr_seq r) else rotate_scan bytes budget removed (n + 1) (rr_seq r) rs)"

definition rotate_attempt :: "string \<Rightarrow> int \<Rightarrow> log_db \<Rightarrow> log_error + int \<times> log_db" where
  "rotate_attempt i budget db =
     (case find_attempt i db of
        None \<Rightarrow> Inl BadMetadata
      | Some row \<Rightarrow>
          if at_bytes row > budget
          then case rotate_scan (at_bytes row) budget 0 0 (- 1) (sort_key rr_seq (filter (\<lambda>r. rr_attempt r = i) (db_records db))) of
                 (removed, n, final) \<Rightarrow>
                   Inr (removed, update_attempt i (\<lambda>r. r\<lparr>at_bytes := at_bytes r - removed, at_dropped := at_dropped r + n\<rparr>)
                     (delete_records (\<lambda>r. rr_attempt r = i \<and> rr_seq r \<le> final) db))
          else Inr (0, db))"

fun shrink_attempts :: "int \<Rightarrow> int \<Rightarrow> attempt_row list \<Rightarrow> log_db \<Rightarrow> log_error + log_db" where
  "shrink_attempts limit all_bytes [] db = Inr db"
| "shrink_attempts limit all_bytes (c # cs) db =
     (if all_bytes \<le> limit then Inr db
      else ebind (rotate_attempt (at_id c) (max 0 (at_bytes c - (all_bytes - limit))) db)
             (\<lambda>(removed, db'). shrink_attempts limit (all_bytes - removed) cs db'))"

definition apply_budgets :: "AttemptLogStore \<Rightarrow> string \<Rightarrow> log_db \<Rightarrow> log_error + log_db" where
  "apply_budgets store i db =
     ebind (rotate_attempt i (ls_attempt_max_bytes store) db) (\<lambda>(_, db).
     case statistic ''retained_bytes'' db of
       None \<Rightarrow> Inl BadMetadata
     | Some all_bytes \<Rightarrow>
         if all_bytes \<le> ls_max_bytes store then Inr db
         else shrink_attempts (ls_max_bytes store) all_bytes (sort_key at_created (filter (\<lambda>r. at_bytes r > 0) (db_attempts db))) db)"

text \<open>Opening the store: the statistics rows of an older database are added, then retention runs.\<close>

definition add_statistic :: "string \<Rightarrow> int \<Rightarrow> log_db \<Rightarrow> log_db" where
  "add_statistic name v db =
     (if statistic name db = None then db\<lparr>db_statistics := db_statistics db @ [(name, v)]\<rparr> else db)"

definition open_store :: "AttemptLogStore \<Rightarrow> micros \<Rightarrow> log_db \<Rightarrow> log_db" where
  "open_store store now db =
     (let db = add_statistic ''evicted_attempts'' 0 db;
          db = add_statistic ''retained_bytes'' (sum_list (map rr_bytes (db_records db))) db;
          attributed = sum_list (map snd (filter (\<lambda>(k, v). str_startswith k ''evicted_attempts:'') (db_statistics db)));
          db = add_statistic ''unattributed_evicted_attempts'' (dict_get_or (db_statistics db) ''evicted_attempts'' 0 - attributed) db
      in prune_rows store now db)"

definition empty_db :: log_db where
  "empty_db = \<lparr>db_attempts = [], db_records = [], db_statistics = []\<rparr>"

section \<open>Creating an attempt\<close>

record new_attempt =
  na_engine :: string
  na_model :: "string option"
  na_bundle_version :: string
  na_operation :: string
  na_attempt_id :: "string option"
  na_plan_id :: "string option"
  na_setup_inputs :: metadata

definition jopt :: "string option \<Rightarrow> json" where
  "jopt x = (case x of None \<Rightarrow> JNull | Some s \<Rightarrow> JStr s)"

definition initial_metadata :: "string \<Rightarrow> host \<Rightarrow> new_attempt \<Rightarrow> string \<Rightarrow> metadata" where
  "initial_metadata i hostname n stamp =
     [(''attempt_id'', JStr i), (''hostname'', JStr hostname), (''engine'', JStr (na_engine n)), (''model'', jopt (na_model n)),
      (''bundle_version'', JStr (na_bundle_version n)), (''operation'', JStr (na_operation n)), (''started_at'', JStr stamp),
      (''stage'', JStr ''pending''), (''status'', JStr ''running''), (''failure_summary'', JNull), (''sources'', JObj []),
      (''issues'', JList []), (''finished_at'', JNull), (''plan_id'', jopt (na_plan_id n)), (''setup_inputs'', JObj (na_setup_inputs n)),
      (''checkpoints'', JObj []), (''progress'', JNull), (''failure_class'', JNull), (''next_action'', JNull), (''transient_retries'', JInt 0)]"

definition is_retry :: "metadata \<Rightarrow> new_attempt \<Rightarrow> bool" where
  "is_retry previous n \<longleftrightarrow>
     obj_get previous ''operation'' JNull = JStr ''provision'' \<and> obj_get previous ''engine'' JNull = JStr (na_engine n) \<and>
     obj_get previous ''requested_model'' (obj_get previous ''model'' JNull) = jopt (na_model n) \<and>
     obj_get previous ''status'' JNull \<in> {JStr ''failed'', JStr ''interrupted'', JStr ''running''} \<and>
     obj_get previous ''stage'' JNull \<noteq> JStr ''cancelled''"

definition next_attempt_number :: "json \<Rightarrow> log_error + json" where
  "next_attempt_number j =
     (if \<not> json_truthy j then Inr (JInt 1)
      else case j of JInt n \<Rightarrow> Inr (JInt (n + 1)) | JBool b \<Rightarrow> Inr (JInt 2) | JFloat q \<Rightarrow> Inr (JFloat (fadd q 1)) | _ \<Rightarrow> Inl BadMetadata)"

definition series_fields :: "log_db \<Rightarrow> host \<Rightarrow> new_attempt \<Rightarrow> string \<Rightarrow> string \<Rightarrow> log_error + metadata" where
  "series_fields db hostname n i stamp =
     (let prior = newest_first (filter (\<lambda>r. at_hostname r = hostname) (db_attempts db));
          previous = (case prior of [] \<Rightarrow> [] | r # _ \<Rightarrow> at_metadata r);
          retry = is_retry previous n
      in case statistic ''unattributed_evicted_attempts'' db of
           None \<Rightarrow> Inl BadMetadata
         | Some unattributed \<Rightarrow>
             ebind (if retry then next_attempt_number (obj_get previous ''attempt_number'' JNull) else Inr (JInt 1)) (\<lambda>attempt_number.
             Inr [(''requested_model'', jopt (na_model n)),
                  (''series_id'', if retry then obj_get previous ''series_id'' (JStr i) else JStr i),
                  (''series_started_at'', if retry then obj_get previous ''series_started_at'' (obj_get previous ''started_at'' JNull)
                     else JStr stamp),
                  (''attempt_number'', attempt_number),
                  (''series_origin_known'', JBool (if retry then json_truthy (obj_get previous ''series_origin_known'' JNull)
                     else prior \<noteq> [] \<or> statistic (''evicted_attempts:'' @ hostname) db = None \<and> unattributed = 0))]))"

definition dict_update :: "('k, 'v) dict \<Rightarrow> ('k, 'v) dict \<Rightarrow> ('k, 'v) dict" where
  "dict_update d changes = foldl (\<lambda>d (k, v). dict_set k v d) d changes"

definition create_attempt ::
  "AttemptLogStore \<Rightarrow> host \<Rightarrow> new_attempt \<Rightarrow> string \<Rightarrow> string \<Rightarrow> micros \<Rightarrow> micros \<Rightarrow> log_db \<Rightarrow> log_error + string \<times> log_db" where
  "create_attempt store hostname n fresh stamp now now' db =
     (let i = (case na_attempt_id n of Some (c # cs) \<Rightarrow> c # cs | _ \<Rightarrow> fresh);
          base = initial_metadata i hostname n stamp
      in ebind (if na_operation n = ''provision'' then map_sum id (dict_update base) (series_fields db hostname n i stamp) else Inr base) (\<lambda>metadata.
         if find_attempt i db \<noteq> None then Inl (DuplicateAttempt i)
         else Inr (i, prune_rows store now' (db\<lparr>db_attempts := db_attempts db @
           [\<lparr>at_id = i, at_hostname = hostname, at_created = now, at_metadata = metadata, at_next_seq = 0, at_remote_cursor = 0,
             at_dropped = 0, at_bytes = 0\<rparr>]\<rparr>))))"

section \<open>Changing a manifest\<close>

definition as_list :: "json \<Rightarrow> log_error + json list" where
  "as_list j = (case j of JList xs \<Rightarrow> Inr xs | _ \<Rightarrow> Inl BadMetadata)"

definition as_object :: "json \<Rightarrow> log_error + (string, json) dict" where
  "as_object j = (case j of JObj kvs \<Rightarrow> Inr kvs | _ \<Rightarrow> Inl BadMetadata)"

definition field :: "metadata \<Rightarrow> string \<Rightarrow> log_error + json" where
  "field m k = (case dict_get m k of None \<Rightarrow> Inl BadMetadata | Some v \<Rightarrow> Inr v)"

text \<open>\<open>xs[-n:]\<close>\<close>

definition keep_final :: "nat \<Rightarrow> 'a list \<Rightarrow> 'a list" where
  "keep_final n xs = drop (length xs - n) xs"

fun merge_issues :: "json list \<Rightarrow> json list \<Rightarrow> log_error + json list" where
  "merge_issues issues [] = Inr issues"
| "merge_issues issues (m # ms) =
     (case m of
        JStr s \<Rightarrow> (let m = JStr (take 2048 s) in merge_issues (if m \<in> set issues then issues else issues @ [m]) ms)
      | _ \<Rightarrow> Inl BadMetadata)"

definition update_fields :: "string \<Rightarrow> metadata \<Rightarrow> log_db \<Rightarrow> log_error + log_db" where
  "update_fields i changes db =
     ebind (get_row i db) (\<lambda>row.
     let metadata = at_metadata row
     in ebind (case dict_get changes ''issues'' of
           None \<Rightarrow> Inr metadata
         | Some new \<Rightarrow>
             ebind (ebind (field metadata ''issues'') as_list) (\<lambda>issues.
             ebind (ebind (as_list new) (merge_issues issues)) (\<lambda>merged.
             Inr (dict_set ''issues'' (JList (keep_final 32 merged)) metadata)))) (\<lambda>metadata.
        Inr (update_attempt i (\<lambda>r. r\<lparr>at_metadata := dict_update metadata (dict_pop ''issues'' changes)\<rparr>) db)))"

definition store_update :: "string \<Rightarrow> metadata \<Rightarrow> log_db \<Rightarrow> log_error + log_db" where
  "store_update i changes db =
     update_fields i (case dict_get changes ''failure_summary'' of
         Some (JStr s) \<Rightarrow> dict_set ''failure_summary'' (JStr (take 8192 s)) changes | _ \<Rightarrow> changes) db"

definition mutate_metadata :: "string \<Rightarrow> (metadata \<Rightarrow> log_error + metadata) \<Rightarrow> log_db \<Rightarrow> log_error + metadata \<times> log_db" where
  "mutate_metadata i mutate db =
     ebind (get_row i db) (\<lambda>row.
     ebind (mutate (at_metadata row)) (\<lambda>metadata.
     ebind (update_fields i metadata db) (\<lambda>db. Inr (metadata, db))))"

definition store_issue :: "string \<Rightarrow> string \<Rightarrow> string option \<Rightarrow> log_db \<Rightarrow> log_error + log_db" where
  "store_issue i message source db =
     map_sum id snd (mutate_metadata i (\<lambda>metadata.
       ebind (ebind (field metadata ''issues'') as_list) (\<lambda>issues.
       let message = JStr (take 2048 message);
           metadata = (if message \<in> set issues then metadata else dict_set ''issues'' (JList (keep_final 32 (issues @ [message]))) metadata)
       in case source of
            Some (c # cs) \<Rightarrow>
              ebind (ebind (field metadata ''sources'') as_object) (\<lambda>sources.
              Inr (dict_set ''sources'' (JObj (dict_set (c # cs) (JStr ''unavailable'') sources)) metadata))
          | _ \<Rightarrow> Inr metadata)) db)"

text \<open>\<open>(evidence or current.get("evidence") or "")[:1024] or None\<close>\<close>

definition clip_evidence :: "string option \<Rightarrow> (string, json) dict \<Rightarrow> log_error + json" where
  "clip_evidence evidence current =
     (case evidence of
        Some (c # cs) \<Rightarrow> Inr (JStr (take 1024 (c # cs)))
      | _ \<Rightarrow>
          let kept = obj_get current ''evidence'' JNull
          in if \<not> json_truthy kept then Inr JNull
             else case kept of JStr s \<Rightarrow> Inr (JStr (take 1024 s)) | JList xs \<Rightarrow> Inr (JList (take 1024 xs)) | _ \<Rightarrow> Inl BadMetadata)"

definition json_or :: "json \<Rightarrow> json \<Rightarrow> json" where
  "json_or x y = (if json_truthy x then x else y)"

fun checkpoint_statuses :: "(string, json) dict \<Rightarrow> log_error + (string, json) dict" where
  "checkpoint_statuses [] = Inr []"
| "checkpoint_statuses ((name, cp) # cps) =
     ebind (as_object cp) (\<lambda>c. ebind (checkpoint_statuses cps) (\<lambda>rest. Inr ((name, obj_get c ''status'' JNull) # rest)))"

definition checkpoint_mutation ::
  "string \<Rightarrow> string \<Rightarrow> string \<Rightarrow> string option \<Rightarrow> string \<Rightarrow> metadata \<Rightarrow> log_error + metadata" where
  "checkpoint_mutation i stage status evidence now metadata =
     (let terminal = status \<in> {''completed'', ''skipped'', ''failed''};
          metadata = (if dict_get metadata ''checkpoints'' = None then dict_set ''checkpoints'' (JObj []) metadata else metadata)
      in ebind (as_object (obj_get metadata ''checkpoints'' JNull)) (\<lambda>checkpoints.
         if dict_get checkpoints stage = None \<and> MAX_CHECKPOINTS \<le> length checkpoints then Inr metadata
         else
           let held = obj_get checkpoints stage JNull
           in ebind (if json_truthy held then as_object held else Inr []) (\<lambda>current.
              ebind (clip_evidence evidence current) (\<lambda>clipped.
              let completed_at = (if status = ''running'' then JNull else if status = ''failed'' then JStr now
                    else json_or (obj_get current ''completed_at'' JNull) (if terminal then JStr now else JNull));
                  checkpoint = JObj [(''stage'', JStr stage), (''status'', JStr status), (''plan_id'', obj_get metadata ''plan_id'' JNull),
                    (''attempt_id'', JStr i), (''attempt_number'', obj_get metadata ''attempt_number'' JNull),
                    (''started_at'', json_or (obj_get current ''started_at'' JNull) (JStr now)), (''completed_at'', completed_at),
                    (''evidence'', clipped)];
                  checkpoints = dict_set stage checkpoint checkpoints
              in ebind (checkpoint_statuses checkpoints) (\<lambda>statuses.
                 ebind (setup_progress statuses (obj_get metadata ''engine'' JNull)) (\<lambda>progress.
                 let metadata = dict_set ''progress'' progress (dict_set ''current_stage'' (JStr stage) (dict_set ''checkpoints'' (JObj checkpoints) metadata))
                 in Inr (if status = ''running'' then dict_set ''next_action'' JNull (dict_set ''failure_class'' JNull metadata) else metadata))))))) "

definition record_checkpoint ::
  "string \<Rightarrow> string \<Rightarrow> string \<Rightarrow> string option \<Rightarrow> string \<Rightarrow> log_db \<Rightarrow> log_error + log_db" where
  "record_checkpoint i stage status evidence now db =
     (if stage \<notin> set SETUP_STAGE_ORDER then Inr db
      else map_sum id snd (mutate_metadata i (checkpoint_mutation i stage status evidence now) db))"

text \<open>\<open>int(...)\<close> of a decoded value.\<close>

definition json_int :: "json \<Rightarrow> log_error + int" where
  "json_int j =
     (case j of
        JInt n \<Rightarrow> Inr n
      | JBool b \<Rightarrow> Inr (if b then 1 else 0)
      | JFloat q \<Rightarrow> Inr (if 0 \<le> q then \<lfloor>q\<rfloor> else \<lceil>q\<rceil>)
      | JStr s \<Rightarrow>
          (let s = str_strip s; sign = (if take 1 s = ''-'' then - 1 else 1); digits = (if take 1 s \<in> {''-'', ''+''} then drop 1 s else s)
           in if str_isdigit digits then Inr (sign * digits_value digits) else Inl BadMetadata)
      | _ \<Rightarrow> Inl BadMetadata)"

definition increment_transient_retry :: "string \<Rightarrow> string \<Rightarrow> log_db \<Rightarrow> log_error + int \<times> log_db" where
  "increment_transient_retry i now db =
     ebind (mutate_metadata i (\<lambda>metadata.
       ebind (json_int (json_or (obj_get metadata ''transient_retries'' JNull) (JInt 0))) (\<lambda>n.
       Inr (dict_set ''last_transient_retry_at'' (JStr now) (dict_set ''transient_retries'' (JInt (n + 1)) metadata)))) db) (\<lambda>(metadata, db).
     ebind (json_int (obj_get metadata ''transient_retries'' JNull)) (\<lambda>n. Inr (n, db)))"

text \<open>The stages an attempt decides, and those of them it verified.\<close>

fun decide_stages ::
  "(string, json) dict \<Rightarrow> string list \<times> (string, (string, json) dict) dict \<Rightarrow> log_error + string list \<times> (string, (string, json) dict) dict" where
  "decide_stages [] acc = Inr acc"
| "decide_stages ((stage, checkpoint) # cps) (decided, merged) =
     (if stage \<in> set NON_RESUMABLE_STAGES \<or> stage \<in> set decided then decide_stages cps (decided, merged)
      else ebind (as_object checkpoint) (\<lambda>c.
        decide_stages cps (stage # decided,
          if obj_get c ''status'' JNull \<in> {JStr ''completed'', JStr ''skipped''} then dict_set stage c merged else merged)))"

fun merge_checkpoints ::
  "string \<Rightarrow> attempt_row list \<Rightarrow> string list \<times> (string, (string, json) dict) dict \<Rightarrow> log_error + string list \<times> (string, (string, json) dict) dict" where
  "merge_checkpoints plan_id [] acc = Inr acc"
| "merge_checkpoints plan_id (r # rs) acc =
     (let metadata = at_metadata r; checkpoints = obj_get metadata ''checkpoints'' JNull
      in if obj_get metadata ''plan_id'' JNull \<noteq> JStr plan_id then merge_checkpoints plan_id rs acc
         else ebind (if json_truthy checkpoints then as_object checkpoints else Inr []) (\<lambda>cps.
              ebind (decide_stages cps acc) (merge_checkpoints plan_id rs)))"

definition resumable_checkpoints :: "host \<Rightarrow> string \<Rightarrow> log_db \<Rightarrow> log_error + (string, (string, json) dict) dict" where
  "resumable_checkpoints hostname plan_id db =
     map_sum id snd (merge_checkpoints plan_id (newest_first (filter (\<lambda>r. at_hostname r = hostname) (db_attempts db))) ([], []))"

text \<open>A node worker's phase; the time between two timestamps is the argument \<open>elapsed\<close>, \<open>None\<close> when one cannot be parsed.\<close>

definition phase_changes ::
  "(string \<Rightarrow> string \<Rightarrow> rat option) \<Rightarrow> string \<Rightarrow> (string, json) dict \<Rightarrow> (string, json) dict \<Rightarrow> log_error + (string, json) dict" where
  "phase_changes elapsed now info changes =
     (let changes = (if obj_get changes ''status'' JNull \<in> {JStr ''launching'', JStr ''running''} \<and> dict_get info ''started_at'' = None
                        \<and> dict_get changes ''started_at'' = None
           then dict_set ''started_at'' (JStr now) changes else changes)
      in if obj_get changes ''status'' JNull = JStr ''complete'' \<and> dict_get info ''finished_at'' = None
         then let changes = dict_set ''finished_at'' (JStr now) changes; started = obj_get info ''started_at'' JNull
              in if \<not> json_truthy started then Inr (dict_set ''duration_seconds'' JNull changes)
                 else case started of
                        JStr s \<Rightarrow> (case elapsed s now of
                            None \<Rightarrow> Inl BadMetadata
                          | Some d \<Rightarrow> Inr (dict_set ''duration_seconds'' (if 0 < d then JFloat d else JInt 0) changes))
                      | _ \<Rightarrow> Inl BadMetadata
         else Inr changes)"

definition update_phase ::
  "(string \<Rightarrow> string \<Rightarrow> rat option) \<Rightarrow> string \<Rightarrow> string \<Rightarrow> (string, json) dict \<Rightarrow> string \<Rightarrow> log_db \<Rightarrow> log_error + log_db" where
  "update_phase elapsed i phase changes now db =
     map_sum id snd (mutate_metadata i (\<lambda>metadata.
       ebind (as_object (obj_get metadata ''phases'' (JObj []))) (\<lambda>phases.
       ebind (as_object (obj_get phases phase (JObj []))) (\<lambda>info.
       ebind (phase_changes elapsed now info changes) (\<lambda>changes.
       Inr (dict_set ''phases'' (JObj (dict_set phase (JObj (dict_update info changes)) phases)) metadata))))) db)"

text \<open>At start-up, every running attempt is interrupted; the manifest of each must have a status and issues.\<close>

fun interrupt_rows :: "attempt_row list \<Rightarrow> log_db \<Rightarrow> log_error + log_db" where
  "interrupt_rows [] db = Inr db"
| "interrupt_rows (r # rs) db =
     ebind (field (at_metadata r) ''status'') (\<lambda>status.
     if status = JStr ''running''
     then ebind (ebind (field (at_metadata r) ''issues'') as_list) (\<lambda>issues.
          ebind (update_fields (at_id r)
            (dict_set ''issues'' (JList (keep_final 32 (issues @ [JStr ''Gateway collection interrupted''])))
              (dict_update (at_metadata r) [(''status'', JStr ''interrupted''),
                (''failure_summary'', JStr ''Gateway stopped before attempt completion; collect remote logs to recover evidence'')])) db)
            (interrupt_rows rs))
     else interrupt_rows rs db)"

definition interrupt_running :: "log_db \<Rightarrow> log_error + log_db" where
  "interrupt_running db = interrupt_rows (db_attempts db) db"

section \<open>Appending records\<close>

record append_args =
  ap_msg :: string
  ap_level :: string
  ap_source :: string
  ap_stage :: "string option"
  ap_ts :: "string option"
  ap_remote_seq :: "int option"
  ap_stream :: "string option"
  ap_journal_cursor :: "string option"

text \<open>The first match of \<open>\[PROFILE:select:([\w.-]+) \(([^\]\r\n]+)\)\]\<close>, its first group.\<close>

definition profile_here :: "string \<Rightarrow> string option" where
  "profile_here s =
     (let head = ''[PROFILE:select:'';
          rest = drop (length head) s;
          is_name = (\<lambda>c. is_word c \<or> c \<in> {CHR ''.'', CHR ''-''});
          name = takeWhile is_name rest;
          after = dropWhile is_name rest;
          inside = takeWhile (\<lambda>c. c \<notin> {CHR '']'', CHR 0x0D, CHR 0x0A}) (drop 2 after);
          stop = drop (length inside) (drop 2 after)
      in if str_startswith s head \<and> name \<noteq> [] \<and> take 2 after = '' ('' \<and> 2 \<le> length inside \<and> last inside = CHR '')'' \<and> take 1 stop = '']''
         then Some name else None)"

fun find_profile :: "string \<Rightarrow> string option" where
  "find_profile [] = None"
| "find_profile (c # cs) = (case profile_here (c # cs) of Some p \<Rightarrow> Some p | None \<Rightarrow> find_profile cs)"

definition entry_json :: "log_record \<Rightarrow> json" where
  "entry_json e =
     JObj [(''hostname'', lr_hostname e), (''attempt_id'', JStr (lr_attempt_id e)), (''engine'', lr_engine e), (''model'', lr_model e),
       (''bundle_version'', lr_bundle_version e), (''seq'', JInt (lr_seq e)),
       (''remote_seq'', case lr_remote_seq e of None \<Rightarrow> JNull | Some n \<Rightarrow> JInt n), (''ts'', JStr (lr_ts e)), (''level'', JStr (lr_level e)),
       (''msg'', JStr (lr_msg e)), (''stream'', jopt (lr_stream e)), (''source'', JStr (lr_source e)), (''stage'', lr_stage e),
       (''truncated'', JBool (lr_truncated e))]"

definition payload_size :: "(rat \<Rightarrow> string) \<Rightarrow> log_record \<Rightarrow> int" where
  "payload_size fr e = int (length (utf8_encode (json_dumps fr (entry_json e))))"

definition add_issue :: "string \<Rightarrow> metadata \<Rightarrow> log_error + metadata" where
  "add_issue text metadata =
     ebind (ebind (field metadata ''issues'') as_list) (\<lambda>issues.
     Inr (dict_set ''issues'' (JList (keep_final 32 (issues @ [JStr text]))) metadata))"

text \<open>What one record changes in the manifest before it is stored; \<open>None\<close> when its journal cursor was seen already.\<close>

definition append_metadata :: "AttemptLogStore \<Rightarrow> append_args \<Rightarrow> attempt_row \<Rightarrow> log_error + metadata option" where
  "append_metadata store a row =
     (let metadata = at_metadata row;
          metadata = (if ap_source a \<in> {''setup.stdout'', ''start.stdout''}
             then case find_profile (ap_msg a) of Some p \<Rightarrow> dict_set ''runtime_profile'' (JStr (take 200 p)) metadata | None \<Rightarrow> metadata
             else metadata)
      in if ap_journal_cursor a \<noteq> None \<and> obj_get metadata ''journal_cursor'' JNull = jopt (ap_journal_cursor a) then Inr None
         else
           let metadata = (case ap_journal_cursor a of None \<Rightarrow> metadata | Some j \<Rightarrow> dict_set ''journal_cursor'' (JStr j) metadata)
           in ebind (case ap_remote_seq a of
                Some n \<Rightarrow> if n > at_remote_cursor row
                  then add_issue (''Remote records '' @ str_int (at_remote_cursor row) @ ''..'' @ str_int (n - 1)
                         @ '' unavailable (rotation or interrupted collection)'') metadata
                  else Inr metadata
              | None \<Rightarrow> Inr metadata) (\<lambda>metadata.
              ebind (if int (length (utf8_encode (ap_msg a))) > ls_max_record_bytes store
                then ebind (ebind (field metadata ''issues'') as_list) (\<lambda>issues.
                     if JStr ''Record truncated by byte limit'' \<in> set issues then Inr metadata
                     else add_issue ''Record truncated by byte limit'' metadata)
                else Inr metadata) (\<lambda>metadata. Inr (Some metadata))))"

text \<open>The record and the manifest that names its source.\<close>

definition new_entry ::
  "AttemptLogStore \<Rightarrow> string \<Rightarrow> string \<Rightarrow> append_args \<Rightarrow> attempt_row \<Rightarrow> metadata \<Rightarrow> log_error + log_record \<times> metadata" where
  "new_entry store stamp i a row metadata =
     ebind (field metadata ''hostname'') (\<lambda>hostname.
     ebind (field metadata ''engine'') (\<lambda>engine.
     ebind (field metadata ''model'') (\<lambda>model.
     ebind (field metadata ''bundle_version'') (\<lambda>bundle.
     ebind (case ap_stage a of Some (c # cs) \<Rightarrow> Inr (JStr (c # cs)) | _ \<Rightarrow> field metadata ''stage'') (\<lambda>stage.
     ebind (ebind (field metadata ''sources'') as_object) (\<lambda>sources.
     Inr (\<lparr>lr_hostname = hostname, lr_attempt_id = i, lr_engine = engine, lr_model = model, lr_bundle_version = bundle,
            lr_seq = at_next_seq row, lr_remote_seq = ap_remote_seq a,
            lr_ts = (case ap_ts a of Some (c # cs) \<Rightarrow> c # cs | _ \<Rightarrow> stamp), lr_level = ap_level a,
            lr_msg = clip_text (ls_max_record_bytes store) (ap_msg a), lr_stream = ap_stream a, lr_source = ap_source a,
            lr_stage = stage, lr_truncated = (int (length (utf8_encode (ap_msg a))) > ls_max_record_bytes store)\<rparr>,
          dict_set ''sources'' (JObj (dict_set (ap_source a) (JStr ''collected'') sources)) metadata)))))))"

definition append_one ::
  "AttemptLogStore \<Rightarrow> (rat \<Rightarrow> string) \<Rightarrow> string \<Rightarrow> string \<Rightarrow> append_args \<Rightarrow> log_db \<Rightarrow> log_error + log_record option \<times> log_db" where
  "append_one store fr stamp i a db =
     ebind (get_row i db) (\<lambda>row.
     if (case ap_remote_seq a of Some n \<Rightarrow> n < at_remote_cursor row | None \<Rightarrow> False) then Inr (None, db)
     else ebind (append_metadata store a row) (\<lambda>found.
       case found of
         None \<Rightarrow> Inr (None, db)
       | Some metadata \<Rightarrow>
           ebind (new_entry store stamp i a row metadata) (\<lambda>(entry, metadata).
           let bytes = payload_size fr entry
           in Inr (Some entry, update_attempt i (\<lambda>r. r\<lparr>at_next_seq := at_next_seq row + 1,
                  at_remote_cursor := (case ap_remote_seq a of Some n \<Rightarrow> n + 1 | None \<Rightarrow> at_remote_cursor row),
                  at_bytes := at_bytes r + bytes, at_metadata := metadata\<rparr>)
                (insert_record \<lparr>rr_attempt = i, rr_seq = at_next_seq row, rr_entry = entry, rr_bytes = bytes\<rparr> db)))))"

fun append_all ::
  "AttemptLogStore \<Rightarrow> (rat \<Rightarrow> string) \<Rightarrow> string \<Rightarrow> append_args list \<Rightarrow> (nat \<Rightarrow> string) \<Rightarrow> log_db \<Rightarrow> log_error + log_record list \<times> log_db" where
  "append_all store fr i [] stamp db = Inr ([], db)"
| "append_all store fr i (a # as) stamp db =
     ebind (append_one store fr (stamp (length as)) i a db) (\<lambda>(entry, db).
     ebind (append_all store fr i as stamp db) (\<lambda>(added, db).
     Inr ((case entry of Some e \<Rightarrow> e # added | None \<Rightarrow> added), db)))"

definition append_many ::
  "AttemptLogStore \<Rightarrow> (rat \<Rightarrow> string) \<Rightarrow> string \<Rightarrow> append_args list \<Rightarrow> (nat \<Rightarrow> string) \<Rightarrow> log_db \<Rightarrow> log_error + log_record list \<times> log_db" where
  "append_many store fr i records stamp db =
     (if records = [] then Inr ([], db)
      else ebind (append_all store fr i records stamp db) (\<lambda>(added, db).
           ebind (apply_budgets store i db) (\<lambda>db. Inr (added, db))))"

definition append_record ::
  "AttemptLogStore \<Rightarrow> (rat \<Rightarrow> string) \<Rightarrow> string \<Rightarrow> append_args \<Rightarrow> (nat \<Rightarrow> string) \<Rightarrow> log_db \<Rightarrow> log_error + log_record option \<times> log_db" where
  "append_record store fr i a stamp db =
     ebind (append_many store fr i [a] stamp db) (\<lambda>(added, db). Inr (case added of [] \<Rightarrow> None | e # _ \<Rightarrow> Some e, db))"

section \<open>Reading\<close>

text \<open>A diagnostic source whose first record was evicted is marked.\<close>

definition mark_evicted :: "int \<Rightarrow> (string, json) dict \<Rightarrow> log_error + (string, json) dict" where
  "mark_evicted dropped source =
     (case dict_get_or source ''first_seq'' (JInt dropped) of
        JInt first \<Rightarrow>
          if first < dropped
          then let source = dict_update source [(''truncated'', JBool True), (''reason'', JStr ''Diagnostic records evicted by retention'')]
               in ebind (field source ''status'') (\<lambda>status.
                  Inr (if status = JStr ''collected'' then dict_set ''status'' (JStr ''truncated'') source else source))
          else Inr source
      | _ \<Rightarrow> Inl BadMetadata)"

fun map_values :: "('v \<Rightarrow> 'e + 'w) \<Rightarrow> ('k, 'v) dict \<Rightarrow> 'e + ('k, 'w) dict" where
  "map_values f [] = Inr []"
| "map_values f ((k, v) # kvs) = ebind (f v) (\<lambda>w. ebind (map_values f kvs) (\<lambda>rest. Inr ((k, w) # rest)))"

definition source_incomplete :: "json \<Rightarrow> log_error + bool" where
  "source_incomplete j =
     ebind (as_object j) (\<lambda>source. ebind (field source ''status'') (\<lambda>status.
     Inr (status \<noteq> JStr ''collected'' \<or> json_truthy (obj_get source ''deferred'' JNull))))"

fun any_incomplete :: "(string, json) dict \<Rightarrow> log_error + bool" where
  "any_incomplete [] = Inr False"
| "any_incomplete ((_, j) # rest) = ebind (source_incomplete j) (\<lambda>b. if b then Inr True else any_incomplete rest)"

definition manifest :: "attempt_row \<Rightarrow> log_error + metadata" where
  "manifest row =
     (let m = dict_update (at_metadata row) [(''next_seq'', JInt (at_next_seq row)), (''remote_cursor'', JInt (at_remote_cursor row)),
            (''dropped_records'', JInt (at_dropped row)), (''retained_bytes'', JInt (at_bytes row))]
      in ebind (as_object (obj_get m ''diagnostics'' (JObj []))) (\<lambda>diagnostics.
         ebind (as_object (obj_get diagnostics ''sources'' (JObj []))) (\<lambda>sources.
         ebind (map_values (\<lambda>j. ebind (as_object j) (\<lambda>s. map_sum id JObj (mark_evicted (at_dropped row) s))) sources) (\<lambda>marked.
         let m = (if dict_get m ''diagnostics'' = None \<or> dict_get diagnostics ''sources'' = None then m
                  else dict_set ''diagnostics'' (JObj (dict_set ''sources'' (JObj marked) diagnostics)) m)
         in ebind (field m ''issues'') (\<lambda>issues.
            ebind (if json_truthy issues \<or> at_dropped row \<noteq> 0 then Inr True else any_incomplete marked) (\<lambda>incomplete.
            Inr (dict_set ''incomplete'' (JBool incomplete) m)))))))"

definition get_attempt :: "string \<Rightarrow> log_db \<Rightarrow> log_error + metadata" where
  "get_attempt i db = ebind (get_row i db) manifest"

definition source_records :: "string \<Rightarrow> string \<Rightarrow> int \<Rightarrow> int option \<Rightarrow> bool \<Rightarrow> log_db \<Rightarrow> log_record list" where
  "source_records i source first_seq last_seq newest db =
     (let rows = sort_key rr_seq (filter (\<lambda>r. rr_attempt r = i \<and> lr_source (rr_entry r) = source \<and> first_seq \<le> rr_seq r
            \<and> (case last_seq of None \<Rightarrow> True | Some n \<Rightarrow> rr_seq r \<le> n)) (db_records db))
      in take (SOURCE_RECORD_BUDGET + 1) (map rr_entry (if newest then rev rows else rows)))"

text \<open>\<open>str.splitlines()\<close> for the line boundaries among 8-bit characters.\<close>

definition is_line_end :: "char \<Rightarrow> bool" where
  "is_line_end c \<longleftrightarrow> byte c \<in> {10, 11, 12, 13, 28, 29, 30, 133}"

fun split_lines :: "string \<Rightarrow> string \<Rightarrow> string list" where
  "split_lines line [] = (if line = [] then [] else [line])"
| "split_lines line (c # cs) =
     (if byte c = 13 \<and> take 1 cs = [CHR 0x0A] then split_lines line cs
      else if is_line_end c then line # split_lines [] cs
      else split_lines (line @ [c]) cs)"

record tail_result =
  tr_truncated :: bool
  tr_output :: string

definition tail :: "string \<Rightarrow> string \<Rightarrow> nat \<Rightarrow> log_db \<Rightarrow> tail_result option" where
  "tail i source max_bytes db =
     (let records = source_records i source 0 None True db
      in if records = [] then None
         else
           let records = rev (take SOURCE_RECORD_BUDGET records);
               raw = utf8_encode (str_join [CHR 0x0A] (map lr_msg records));
               suffix = (if max_bytes = 0 then raw else keep_final max_bytes raw);
               lines = split_lines [] (utf8_decode_ignore suffix)
           in Some \<lparr>tr_truncated = (length records = SOURCE_RECORD_BUDGET \<or> max_bytes < length raw \<or> 200 < length lines
                      \<or> list_ex lr_truncated records),
                    tr_output = str_join [CHR 0x0A] (keep_final 200 lines)\<rparr>)"

definition by_created_desc :: "attempt_row list \<Rightarrow> attempt_row list" where
  "by_created_desc rows = sort_key (\<lambda>r. - at_created r) rows"

fun manifests :: "attempt_row list \<Rightarrow> log_error + metadata list" where
  "manifests [] = Inr []"
| "manifests (r # rs) = ebind (manifest r) (\<lambda>m. ebind (manifests rs) (\<lambda>ms. Inr (m # ms)))"

definition attempt_history :: "host \<Rightarrow> nat \<Rightarrow> nat \<Rightarrow> log_db \<Rightarrow> log_error + metadata list \<times> int \<times> int" where
  "attempt_history hostname limit offset db =
     (let rows = filter (\<lambda>r. at_hostname r = hostname) (db_attempts db)
      in ebind (manifests (take limit (drop offset (by_created_desc rows)))) (\<lambda>attempts.
         case statistic ''evicted_attempts'' db of
           None \<Rightarrow> Inl BadMetadata
         | Some evicted \<Rightarrow> Inr (attempts, int (length rows), evicted)))"

definition attempts_metadata_by_host :: "host \<Rightarrow> log_db \<Rightarrow> (string \<times> metadata) list" where
  "attempts_metadata_by_host hostname db =
     map (\<lambda>r. (at_id r, at_metadata r)) (by_created_desc (filter (\<lambda>r. at_hostname r = hostname) (db_attempts db)))"

definition latest_running :: "host \<Rightarrow> string option \<Rightarrow> log_db \<Rightarrow> string option" where
  "latest_running hostname exclude db =
     (case by_created_desc (filter (\<lambda>r. at_hostname r = hostname \<and> at_id r \<noteq> (case exclude of Some e \<Rightarrow> e | None \<Rightarrow> [])
          \<and> dict_get (at_metadata r) ''status'' = Some (JStr ''running'')) (db_attempts db)) of
        [] \<Rightarrow> None | r # _ \<Rightarrow> Some (at_id r))"

definition pending_hosts :: "log_db \<Rightarrow> host list" where
  "pending_hosts db =
     (let newest = (\<lambda>h. hd (by_created_desc (filter (\<lambda>r. at_hostname r = h) (db_attempts db))));
          hosts = sort (remdups (map at_hostname (db_attempts db)));
          pending = filter (\<lambda>h. obj_get (at_metadata (newest h)) ''status'' JNull \<in> {JStr ''running'', JStr ''interrupted'', JStr ''failed''}) hosts
      in sort_key (\<lambda>h. - at_created (newest h)) pending)"

record log_page =
  pg_attempt :: metadata
  pg_records :: "log_record list"
  pg_has_more :: bool
  pg_next_offset :: int

text \<open>The manifest and the page are read in two transactions.\<close>

definition read_records :: "string \<Rightarrow> int \<Rightarrow> string \<Rightarrow> string \<Rightarrow> nat \<Rightarrow> log_db \<Rightarrow> log_db \<Rightarrow> log_error + log_page" where
  "read_records i after query source limit db db' =
     ebind (get_attempt i db) (\<lambda>attempt.
     ebind (json_int (obj_get attempt ''next_seq'' JNull)) (\<lambda>next_seq.
     let rows = take (limit + 1) (sort_key rr_seq (filter (\<lambda>r. rr_attempt r = i \<and> after \<le> rr_seq r \<and> rr_seq r < next_seq
            \<and> str_contains (str_lower (lr_msg (rr_entry r))) (str_lower query) \<and> (source = [] \<or> lr_source (rr_entry r) = source)) (db_records db')));
         records = map rr_entry (take limit rows); more = (limit < length rows)
     in if more \<and> records = [] then Inl EmptyPage
        else Inr \<lparr>pg_attempt = attempt, pg_records = records, pg_has_more = more,
                  pg_next_offset = (if more then lr_seq (last records) + 1 else next_seq)\<rparr>))"

end
