(* ===== verification/LogStoreSafety.thy ===== *)
theory LogStoreSafety
  imports LogStore
begin

text \<open>
  What the attempt log store of \<open>LogStore\<close> guarantees: its tables agree after every sequence of operations, the byte budgets
  hold after every append, collecting the same remote records again changes nothing, retention never removes a running attempt, and
  only verified stages of the same plan are resumed.
\<close>

section \<open>The tables agree\<close>

definition records_of :: "string \<Rightarrow> log_db \<Rightarrow> record_row list" where
  "records_of i db = filter (\<lambda>r. rr_attempt r = i) (db_records db)"

text \<open>
  The retained records of an attempt are the last ones appended to it, without a hole; its byte count is their size, and what was
  collected from the node has increasing positions below the cursor.
\<close>

definition remote_seqs :: "record_row list \<Rightarrow> int list" where
  "remote_seqs rs = List.map_filter (\<lambda>r. lr_remote_seq (rr_entry r)) rs"

definition attempt_ok :: "record_row list \<Rightarrow> attempt_row \<Rightarrow> bool" where
  "attempt_ok rs r \<longleftrightarrow>
     0 \<le> at_dropped r \<and> at_dropped r \<le> at_next_seq r \<and> map rr_seq rs = [at_dropped r..at_next_seq r - 1] \<and>
     at_bytes r = sum_list (map rr_bytes rs) \<and> sorted_wrt (<) (remote_seqs rs) \<and> (\<forall>n \<in> set (remote_seqs rs). n < at_remote_cursor r) \<and>
     (\<forall>x \<in> set rs. lr_seq (rr_entry x) = rr_seq x)"

definition log_ok :: "log_db \<Rightarrow> bool" where
  "log_ok db \<longleftrightarrow>
     distinct (map at_id (db_attempts db)) \<and> dict_ok (db_statistics db) \<and>
     (\<forall>x \<in> set (db_records db). 0 < rr_bytes x \<and> rr_attempt x \<in> at_id ` set (db_attempts db)) \<and>
     statistic ''retained_bytes'' db = Some (sum_list (map rr_bytes (db_records db))) \<and>
     statistic ''unattributed_evicted_attempts'' db \<noteq> None \<and> statistic ''evicted_attempts'' db \<noteq> None \<and>
     (\<forall>r \<in> set (db_attempts db). attempt_ok (records_of (at_id r) db) r)"

lemma log_okD:
  assumes "log_ok db"
  shows "distinct (map at_id (db_attempts db))" "dict_ok (db_statistics db)"
    "x \<in> set (db_records db) \<Longrightarrow> 0 < rr_bytes x" "x \<in> set (db_records db) \<Longrightarrow> rr_attempt x \<in> at_id ` set (db_attempts db)"
    "statistic ''retained_bytes'' db = Some (sum_list (map rr_bytes (db_records db)))"
    "r \<in> set (db_attempts db) \<Longrightarrow> attempt_ok (records_of (at_id r) db) r"
  using assms by (auto simp: log_ok_def)

section \<open>Table operations\<close>

lemma find_attempt_Some:
  assumes "find_attempt i db = Some r"
  shows "r \<in> set (db_attempts db)" "at_id r = i"
  using assms by (auto simp: find_Some_iff)

lemma find_attempt_unique: "distinct (map at_id rs) \<Longrightarrow> r \<in> set rs \<Longrightarrow> find (\<lambda>x. at_id x = at_id r) rs = Some r"
  by (induction rs) auto

lemma statistic_bump: "statistic n (bump m d db) = map_option (\<lambda>v. if n = m then v + d else v) (statistic n db)"
proof -
  have "map_of (map (\<lambda>(k, v). (k, if k = m then v + d else v)) xs) n = map_option (\<lambda>v. if n = m then v + d else v) (map_of xs n)" for xs
    by (induction xs) auto
  then show ?thesis by (simp add: statistic_def bump_def)
qed

lemma bump_simps [simp]:
  "db_attempts (bump m d db) = db_attempts db" "db_records (bump m d db) = db_records db"
  "dict_ok (db_statistics (bump m d db)) = dict_ok (db_statistics db)"
  by (auto simp: bump_def dict_ok_def comp_def case_prod_beta)

lemma update_attempt_simps [simp]:
  "db_records (update_attempt i f db) = db_records db" "db_statistics (update_attempt i f db) = db_statistics db"
  "records_of k (update_attempt i f db) = records_of k db" "statistic n (update_attempt i f db) = statistic n db"
  by (simp_all add: update_attempt_def records_of_def statistic_def)

lemma update_attempt_ids:
  "(\<And>r. at_id (f r) = at_id r) \<Longrightarrow> map at_id (db_attempts (update_attempt i f db)) = map at_id (db_attempts db)"
  by (simp add: update_attempt_def)

text \<open>Changing a row keeps the tables in agreement when the row still agrees with its records.\<close>

lemma log_ok_update_attempt:
  assumes "log_ok db" "\<And>r. at_id (f r) = at_id r"
    and "\<And>r. r \<in> set (db_attempts db) \<Longrightarrow> at_id r = i \<Longrightarrow> attempt_ok (records_of i db) r \<Longrightarrow> attempt_ok (records_of i db) (f r)"
  shows "log_ok (update_attempt i f db)"
proof -
  have ids: "map at_id (db_attempts (update_attempt i f db)) = map at_id (db_attempts db)" using assms(2) by (rule update_attempt_ids)
  then have "at_id ` set (db_attempts (update_attempt i f db)) = at_id ` set (db_attempts db)" by (metis list.set_map)
  moreover have "attempt_ok (records_of (at_id r) db) r" if "r \<in> set (db_attempts (update_attempt i f db))" for r
    using that assms by (auto simp: update_attempt_def log_ok_def)
  ultimately show ?thesis using assms(1) ids by (simp add: log_ok_def)
qed

lemma attempt_ok_metadata [simp]: "attempt_ok rs (r\<lparr>at_metadata := m\<rparr>) = attempt_ok rs r"
  by (simp add: attempt_ok_def)

lemma update_fields_ok: "log_ok db \<Longrightarrow> update_fields i changes db = Inr db' \<Longrightarrow> log_ok db'"
  by (auto simp: update_fields_def ebind_Inr Let_def intro!: log_ok_update_attempt split: option.splits)

lemma mutate_metadata_ok: "log_ok db \<Longrightarrow> mutate_metadata i f db = Inr (m, db') \<Longrightarrow> log_ok db'"
  by (auto simp: mutate_metadata_def ebind_Inr intro: update_fields_ok)

lemma map_sum_Inr: "map_sum f g x = Inr y \<longleftrightarrow> (\<exists>z. x = Inr z \<and> y = g z)"
  by (cases x) auto

lemma interrupt_rows_ok: "log_ok db \<Longrightarrow> interrupt_rows rs db = Inr db' \<Longrightarrow> log_ok db'"
  by (induction rs arbitrary: db) (auto simp: ebind_Inr intro: update_fields_ok split: if_splits)

section \<open>Rotation\<close>

lemma sum_list_filter_split: "sum_list (map f (filter P xs)) + sum_list (map f (filter (\<lambda>x. \<not> P x) xs)) = sum_list (map f xs)" for f :: "'a \<Rightarrow> int"
  by (induction xs) auto

lemma statistic_tables [simp]:
  "statistic n (db\<lparr>db_records := x\<rparr>) = statistic n db" "statistic n (db\<lparr>db_attempts := y\<rparr>) = statistic n db"
  by (simp_all add: statistic_def)

lemma statistic_delete_records:
  "statistic n (delete_records P db) = map_option (\<lambda>v. if n = ''retained_bytes''
     then v - sum_list (map rr_bytes (filter P (db_records db))) else v) (statistic n db)"
  by (auto simp: delete_records_def statistic_bump intro!: option.map_cong)

lemma delete_records_simps [simp]:
  "db_attempts (delete_records P db) = db_attempts db" "db_records (delete_records P db) = filter (\<lambda>r. \<not> P r) (db_records db)"
  "dict_ok (db_statistics (delete_records P db)) = dict_ok (db_statistics db)"
  by (simp_all add: delete_records_def)

lemma rotate_scan_prefix:
  assumes "rotate_scan bytes budget removed n final rs = (removed', n', final')"
  shows "\<exists>k \<le> length rs. removed' = removed + sum_list (map rr_bytes (take k rs)) \<and> n' = n + int k \<and>
    (k = 0 \<longrightarrow> final' = final) \<and> (0 < k \<longrightarrow> final' = rr_seq (rs ! (k - 1))) \<and> (bytes - removed' \<le> budget \<or> k = length rs)"
  using assms
proof (induction rs arbitrary: removed n final)
  case (Cons r rs)
  show ?case
  proof (cases "bytes - (removed + rr_bytes r) \<le> budget")
    case True
    then show ?thesis using Cons.prems by (intro exI [of _ 1]) (auto simp: Let_def)
  next
    case False
    then have "rotate_scan bytes budget (removed + rr_bytes r) (n + 1) (rr_seq r) rs = (removed', n', final')"
      using Cons.prems by (simp add: Let_def)
    from Cons.IH [OF this] obtain k where "k \<le> length rs" "removed' = removed + rr_bytes r + sum_list (map rr_bytes (take k rs))"
      "n' = n + 1 + int k" "k = 0 \<longrightarrow> final' = rr_seq r" "0 < k \<longrightarrow> final' = rr_seq (rs ! (k - 1))" "bytes - removed' \<le> budget \<or> k = length rs"
      by blast
    then show ?thesis by (intro exI [of _ "Suc k"]) (auto simp: nth_Cons')
  qed
qed auto

lemma filter_prefix:
  fixes f :: "'a \<Rightarrow> int"
  assumes "sorted_wrt (<) (map f xs)" "0 < k" "k \<le> length xs"
  shows "filter (\<lambda>x. f x \<le> f (xs ! (k - 1))) xs = take k xs" "filter (\<lambda>x. \<not> f x \<le> f (xs ! (k - 1))) xs = drop k xs"
proof -
  let ?b = "f (xs ! (k - 1))"
  have low: "f x \<le> ?b" if x: "x \<in> set (take k xs)" for x
  proof -
    obtain j where j: "j < k" "x = xs ! j" using x assms(3) by (auto simp: in_set_conv_nth)
    show ?thesis
    proof (cases "j = k - 1")
      case False
      then have "j < k - 1" using j(1) by simp
      then have "f (xs ! j) < ?b" using assms sorted_wrt_nth_less [OF assms(1), of j "k - 1"] by (simp add: less_diff_conv)
      then show ?thesis using j by simp
    qed (use j in simp)
  qed
  have high: "\<not> f x \<le> ?b" if x: "x \<in> set (drop k xs)" for x
  proof -
    obtain j where j: "k + j < length xs" "x = xs ! (k + j)" using x assms(3) by (auto simp: in_set_conv_nth less_diff_conv add.commute)
    moreover have "k - 1 < k + j" using assms(2) by simp
    ultimately show ?thesis using sorted_wrt_nth_less [OF assms(1), of "k - 1" "k + j"] assms(2) by simp
  qed
  have split: "filter P xs = filter P (take k xs) @ filter P (drop k xs)" for P by (metis append_take_drop_id filter_append)
  show "filter (\<lambda>x. f x \<le> ?b) xs = take k xs" unfolding split using low high by simp
  show "filter (\<lambda>x. \<not> f x \<le> ?b) xs = drop k xs" unfolding split using low high by simp
qed

lemma upto_increasing: "sorted_wrt (<) [i..j]"
  by (induction i j rule: upto.induct) (subst upto.simps, auto)

lemma drop_upto: "k \<le> length [i..j] \<Longrightarrow> drop k [i..j] = [i + int k..j]"
  by (rule nth_equalityI) (auto simp: nth_upto)

lemma remote_seqs_append: "remote_seqs (xs @ ys) = remote_seqs xs @ remote_seqs ys"
  by (simp add: remote_seqs_def List.map_filter_def)

lemma attempt_ok_drop:
  assumes "attempt_ok rs r" "k \<le> length rs"
  shows "attempt_ok (drop k rs) (r\<lparr>at_bytes := at_bytes r - sum_list (map rr_bytes (take k rs)), at_dropped := at_dropped r + int k\<rparr>)"
proof -
  have seqs: "map rr_seq rs = [at_dropped r..at_next_seq r - 1]" using assms(1) by (simp add: attempt_ok_def)
  then have "length rs = nat (at_next_seq r - at_dropped r)" by (metis length_map length_upto add.commute diff_add_cancel uminus_add_conv_diff diff_diff_eq2)
  then have len: "k \<le> length [at_dropped r..at_next_seq r - 1]" "int k \<le> at_next_seq r - at_dropped r"
    using assms by (auto simp: attempt_ok_def)
  then have "map rr_seq (drop k rs) = [at_dropped r + int k..at_next_seq r - 1]" using seqs drop_upto [OF len(1)] by (metis drop_map)
  moreover have "sum_list (map rr_bytes rs) = sum_list (map rr_bytes (take k rs)) + sum_list (map rr_bytes (drop k rs))"
    by (metis append_take_drop_id map_append sum_list_append)
  moreover have "remote_seqs rs = remote_seqs (take k rs) @ remote_seqs (drop k rs)" by (metis append_take_drop_id remote_seqs_append)
  ultimately show ?thesis using assms(1) len by (auto simp: attempt_ok_def sorted_wrt_append dest: in_set_dropD)
qed

lemma attempt_ok_sorted: "attempt_ok rs r \<Longrightarrow> sorted_wrt (<) (map rr_seq rs)"
  by (simp add: attempt_ok_def upto_increasing)

lemma sort_key_increasing: "sorted_wrt (<) (map f xs) \<Longrightarrow> sort_key f xs = xs" for f :: "'a \<Rightarrow> int"
  by (rule sort_key_id_if_sorted) (rule strict_sorted_imp_sorted)

lemma rotate_prefix:
  assumes ok: "attempt_ok rs r" and scan: "rotate_scan (at_bytes r) budget 0 0 (- 1) (sort_key rr_seq rs) = (removed, n, final)"
  obtains k where "k \<le> length rs" "n = int k" "removed = sum_list (map rr_bytes (take k rs))" "at_bytes r - removed \<le> budget \<or> k = length rs"
    "filter (\<lambda>x. rr_seq x \<le> final) rs = take k rs" "filter (\<lambda>x. \<not> rr_seq x \<le> final) rs = drop k rs"
proof -
  have inc: "sorted_wrt (<) (map rr_seq rs)" using ok by (rule attempt_ok_sorted)
  from rotate_scan_prefix [OF scan [unfolded sort_key_increasing [OF inc]]] obtain k where
    k: "k \<le> length rs" "removed = sum_list (map rr_bytes (take k rs))" "n = int k"
    "k = 0 \<longrightarrow> final = - 1" "0 < k \<longrightarrow> final = rr_seq (rs ! (k - 1))" "at_bytes r - removed \<le> budget \<or> k = length rs"
    by auto
  have nonneg: "0 \<le> rr_seq x" if "x \<in> set rs" for x
  proof -
    have "rr_seq x \<in> set [at_dropped r..at_next_seq r - 1]" using that ok by (metis attempt_ok_def image_eqI list.set_map)
    then show ?thesis using ok by (simp add: attempt_ok_def)
  qed
  have "filter (\<lambda>x. rr_seq x \<le> final) rs = take k rs \<and> filter (\<lambda>x. \<not> rr_seq x \<le> final) rs = drop k rs"
  proof (cases "k = 0")
    case True
    then show ?thesis using k(4) nonneg by (force simp: filter_empty_conv intro!: filter_True)
  next
    case False
    then show ?thesis using filter_prefix [OF inc _ k(1)] k(5) by simp
  qed
  then show thesis using that k by blast
qed

text \<open>A rotation removes the oldest records of one attempt, at least as many bytes as are over the budget.\<close>

lemma rotate_attempt_cases:
  assumes ok: "log_ok db" and rot: "rotate_attempt i budget db = Inr (removed, db')"
  obtains row k P where "row \<in> set (db_attempts db)" "at_id row = i" "k \<le> length (records_of i db)"
    "removed = sum_list (map rr_bytes (take k (records_of i db)))" "at_bytes row - removed \<le> budget \<or> k = length (records_of i db)"
    "filter P (db_records db) = take k (records_of i db)"
    "\<forall>j. filter (\<lambda>r. rr_attempt r = j) (filter (\<lambda>r. \<not> P r) (db_records db)) = (if j = i then drop k (records_of i db) else records_of j db)"
    "db' = update_attempt i (\<lambda>r. r\<lparr>at_bytes := at_bytes r - removed, at_dropped := at_dropped r + int k\<rparr>) (delete_records P db)"
proof -
  obtain row where row: "find_attempt i db = Some row" using rot by (auto simp: rotate_attempt_def split: option.splits)
  note row' = find_attempt_Some [OF row]
  have row_ok: "attempt_ok (records_of i db) row" using log_okD(6) [OF ok row'(1)] row'(2) by simp
  show thesis
  proof (cases "at_bytes row > budget")
    case False
    have "map (\<lambda>(k, v). (k, if k = ''retained_bytes'' then v + 0 else v)) xs = xs" for xs :: "(string, int) dict" by (induction xs) auto
    then have "bump ''retained_bytes'' 0 db = db" by (simp add: bump_def)
    then have "delete_records (\<lambda>_. False) db = db" by (simp add: delete_records_def)
    moreover have "map (\<lambda>r. if at_id r = i then r else r) xs = xs" for xs by (induction xs) auto
    ultimately have "update_attempt i (\<lambda>r. r\<lparr>at_bytes := at_bytes r - 0, at_dropped := at_dropped r + int 0\<rparr>) (delete_records (\<lambda>_. False) db) = db"
      by (simp add: update_attempt_def)
    then show thesis using False row rot row' by (intro that [of row 0 "\<lambda>_. False"]) (auto simp: rotate_attempt_def records_of_def)
  next
    case True
    obtain n final where scan: "rotate_scan (at_bytes row) budget 0 0 (- 1) (sort_key rr_seq (records_of i db)) = (removed, n, final)"
      and db': "db' = update_attempt i (\<lambda>r. r\<lparr>at_bytes := at_bytes r - removed, at_dropped := at_dropped r + n\<rparr>)
        (delete_records (\<lambda>r. rr_attempt r = i \<and> rr_seq r \<le> final) db)"
      using True row rot by (auto simp: rotate_attempt_def records_of_def split: prod.splits)
    obtain k where k: "k \<le> length (records_of i db)" "n = int k" "removed = sum_list (map rr_bytes (take k (records_of i db)))"
      "at_bytes row - removed \<le> budget \<or> k = length (records_of i db)"
      "filter (\<lambda>x. rr_seq x \<le> final) (records_of i db) = take k (records_of i db)"
      "filter (\<lambda>x. \<not> rr_seq x \<le> final) (records_of i db) = drop k (records_of i db)"
      using rotate_prefix [OF row_ok scan] by metis
    have "filter (\<lambda>r. rr_attempt r = j) (filter (\<lambda>r. \<not> (rr_attempt r = i \<and> rr_seq r \<le> final)) (db_records db)) =
        (if j = i then drop k (records_of i db) else records_of j db)" for j
    proof (cases "j = i")
      case True
      have "filter (\<lambda>x. rr_attempt x = i \<and> \<not> (rr_attempt x = i \<and> rr_seq x \<le> final)) (db_records db) =
          filter (\<lambda>x. rr_attempt x = i \<and> \<not> rr_seq x \<le> final) (db_records db)" by (rule filter_cong) auto
      then show ?thesis using k(6) True by (simp add: records_of_def conj_commute)
    next
      case False
      then show ?thesis by (auto simp: records_of_def intro: filter_cong)
    qed
    moreover have "filter (\<lambda>r. rr_attempt r = i \<and> rr_seq r \<le> final) (db_records db) = take k (records_of i db)"
      using k(5) by (simp add: records_of_def conj_commute)
    ultimately show thesis using k(1,3,4) row' db' unfolding k(2) by (intro that [of row k "\<lambda>r. rr_attempt r = i \<and> rr_seq r \<le> final"] allI)
  qed
qed

lemma log_ok_rotate:
  assumes ok: "log_ok db" and rot: "rotate_attempt i budget db = Inr (removed, db')"
  shows "log_ok db'"
    and "sum_list (map rr_bytes (db_records db')) = sum_list (map rr_bytes (db_records db)) - removed" and "0 \<le> removed"
    and "\<exists>f. db_attempts db' = map (\<lambda>r. if at_id r = i then f r else r) (db_attempts db) \<and>
      (\<forall>r. at_id (f r) = at_id r \<and> at_bytes (f r) = at_bytes r - removed)"
    and "\<And>r. r \<in> set (db_attempts db) \<Longrightarrow> at_id r = i \<Longrightarrow> 0 \<le> budget \<Longrightarrow> at_bytes r - removed \<le> budget"
proof -
  obtain row k P where
    row: "row \<in> set (db_attempts db)" "at_id row = i" and k: "k \<le> length (records_of i db)"
      "removed = sum_list (map rr_bytes (take k (records_of i db)))" "at_bytes row - removed \<le> budget \<or> k = length (records_of i db)"
    and gone: "filter P (db_records db) = take k (records_of i db)"
    and left: "\<forall>j. filter (\<lambda>r. rr_attempt r = j) (filter (\<lambda>r. \<not> P r) (db_records db)) = (if j = i then drop k (records_of i db) else records_of j db)"
    and db': "db' = update_attempt i (\<lambda>r. r\<lparr>at_bytes := at_bytes r - removed, at_dropped := at_dropped r + int k\<rparr>) (delete_records P db)"
    by (rule rotate_attempt_cases [OF assms])
  let ?f = "\<lambda>r. r\<lparr>at_bytes := at_bytes r - removed, at_dropped := at_dropped r + int k\<rparr>"
  have rows: "db_attempts db' = map (\<lambda>r. if at_id r = i then ?f r else r) (db_attempts db)" by (simp add: db' update_attempt_def)
  show "\<exists>f. db_attempts db' = map (\<lambda>r. if at_id r = i then f r else r) (db_attempts db) \<and>
      (\<forall>r. at_id (f r) = at_id r \<and> at_bytes (f r) = at_bytes r - removed)"
    using rows by (intro exI [of _ ?f]) simp
  have unique: "r = row" if "r \<in> set (db_attempts db)" "at_id r = i" for r
    using that row log_okD(1) [OF ok] by (auto simp: distinct_map dest: inj_onD)
  have "set (take k (records_of i db)) \<subseteq> set (db_records db)" by (auto simp: records_of_def dest!: in_set_takeD)
  then show "0 \<le> removed" unfolding k(2) using log_okD(3) [OF ok] by (intro sum_list_nonneg) fastforce
  show sum: "sum_list (map rr_bytes (db_records db')) = sum_list (map rr_bytes (db_records db)) - removed"
    using sum_list_filter_split [of rr_bytes P "db_records db"] by (simp add: db' gone k(2))
  show "at_bytes r - removed \<le> budget" if "r \<in> set (db_attempts db)" "at_id r = i" "0 \<le> budget" for r
    using unique [OF that(1,2)] k(2,3) that(3) log_okD(6) [OF ok row(1)] row(2) by (auto simp: attempt_ok_def)
  have ids: "map at_id (db_attempts db') = map at_id (db_attempts db)" by (simp add: rows)
  have "attempt_ok (records_of (at_id r) db') r" if r: "r \<in> set (db_attempts db')" for r
  proof -
    obtain r0 where r0: "r0 \<in> set (db_attempts db)" "r = (if at_id r0 = i then ?f r0 else r0)" using r unfolding rows by auto
    have "records_of (at_id r) db' = (if at_id r0 = i then drop k (records_of i db) else records_of (at_id r0) db)"
      using left [rule_format, of "at_id r0"] r0(2) by (cases "at_id r0 = i") (simp_all add: records_of_def db')
    then show ?thesis using attempt_ok_drop [OF _ k(1)] log_okD(6) [OF ok r0(1)] r0(2) k(2) by auto
  qed
  moreover have "at_id ` set (db_attempts db') = at_id ` set (db_attempts db)" using ids by (metis list.set_map)
  moreover have "statistic ''retained_bytes'' db' = Some (sum_list (map rr_bytes (db_records db')))"
    using log_okD(5) [OF ok] sum by (simp add: db' statistic_delete_records gone k(2))
  ultimately show "log_ok db'" using ok ids by (auto simp: log_ok_def db' statistic_delete_records)
qed

section \<open>Budgets\<close>

lemma shrink_attempts_ok:
  assumes "log_ok db" "shrink_attempts limit total_bytes cs db = Inr db'" "total_bytes = sum_list (map rr_bytes (db_records db))"
    and "0 \<le> limit" "distinct (map at_id cs)" "set cs \<subseteq> set (db_attempts db)" "\<forall>c \<in> set cs. 0 \<le> at_bytes c"
  shows "log_ok db' \<and> sum_list (map rr_bytes (db_records db')) \<le> max limit (total_bytes - sum_list (map at_bytes cs)) \<and>
    (\<forall>r' \<in> set (db_attempts db'). \<exists>r \<in> set (db_attempts db). at_id r = at_id r' \<and> at_bytes r' \<le> at_bytes r)"
  using assms
proof (induction cs arbitrary: db total_bytes)
  case (Cons c cs)
  show ?case
  proof (cases "total_bytes \<le> limit")
    case False
    let ?budget = "max 0 (at_bytes c - (total_bytes - limit))"
    obtain removed db1 where rot: "rotate_attempt (at_id c) ?budget db = Inr (removed, db1)"
      and rest: "shrink_attempts limit (total_bytes - removed) cs db1 = Inr db'"
      using Cons.prems(2) False by (auto simp: ebind_Inr)
    note spec = log_ok_rotate [OF Cons.prems(1) rot]
    obtain f where f: "db_attempts db1 = map (\<lambda>r. if at_id r = at_id c then f r else r) (db_attempts db)"
      "\<forall>r. at_id (f r) = at_id r \<and> at_bytes (f r) = at_bytes r - removed" using spec(4) by blast
    have sub: "set cs \<subseteq> set (db_attempts db1)"
    proof
      fix r assume r: "r \<in> set cs"
      then have "at_id r \<noteq> at_id c" "r \<in> set (db_attempts db)" using Cons.prems(5,6) by (auto simp: rev_image_eqI)
      then show "r \<in> set (db_attempts db1)" unfolding f(1) by (auto intro!: image_eqI [of _ _ r])
    qed
    have IH: "log_ok db' \<and> sum_list (map rr_bytes (db_records db')) \<le> max limit (total_bytes - removed - sum_list (map at_bytes cs)) \<and>
      (\<forall>r' \<in> set (db_attempts db'). \<exists>r \<in> set (db_attempts db1). at_id r = at_id r' \<and> at_bytes r' \<le> at_bytes r)"
      using Cons.prems(3-5,7) spec(2) sub by (intro Cons.IH [OF spec(1) rest]) auto
    have "at_bytes c - removed \<le> ?budget" using spec(5) [of c] Cons.prems(6) by simp
    moreover have "0 \<le> sum_list (map at_bytes cs)" using Cons.prems(7) by (intro sum_list_nonneg) auto
    ultimately have "max limit (total_bytes - removed - sum_list (map at_bytes cs)) \<le> max limit (total_bytes - sum_list (map at_bytes (c # cs)))"
      using False by auto
    then have "sum_list (map rr_bytes (db_records db')) \<le> max limit (total_bytes - sum_list (map at_bytes (c # cs)))"
      using IH order_trans by blast
    moreover have rows: "\<exists>r0 \<in> set (db_attempts db). at_id r0 = at_id r \<and> at_bytes r \<le> at_bytes r0" if "r \<in> set (db_attempts db1)" for r
      using that spec(3) f(2) unfolding f(1) by (force split: if_splits)
    moreover have "\<exists>r \<in> set (db_attempts db). at_id r = at_id r' \<and> at_bytes r' \<le> at_bytes r" if r': "r' \<in> set (db_attempts db')" for r'
    proof -
      obtain r where "r \<in> set (db_attempts db1)" "at_id r = at_id r'" "at_bytes r' \<le> at_bytes r" using IH r' by blast
      then show ?thesis using rows [of r] by fastforce
    qed
    ultimately show ?thesis using IH by simp
  qed (use Cons.prems in auto)
qed auto

lemma distinct_map_sort_key [simp]: "distinct (map f (sort_key g xs)) = distinct (map f xs)"
  by (metis distinct_map distinct_sort_key set_sort)

lemma sum_list_zero_filter: "sum_list (map f (filter (\<lambda>x. 0 < f x) xs)) = sum_list (map f xs)" if "\<forall>x \<in> set xs. 0 \<le> f x" for f :: "'a \<Rightarrow> int"
  using that by (induction xs) auto

lemma sum_list_sort_key: "sum_list (map f (sort_key g xs)) = sum_list (map f xs)" for f :: "'a \<Rightarrow> int"
  by (metis mset_map mset_sort sum_mset_sum_list)

text \<open>The attempts own all records, so their byte counts add up to the size of the table.\<close>

lemma sum_list_pick: "distinct is \<Longrightarrow> k \<in> set is \<Longrightarrow> sum_list (map (\<lambda>i. if k = i then v else 0) is) = (v :: int)"
  by (induction "is") (auto simp: sum_list_0 intro!: sum_list_nonneg_eq_0_iff [THEN iffD2])

lemma attempts_own_records:
  assumes "\<forall>x \<in> set xs. key x \<in> set is" "distinct is"
  shows "sum_list (map (\<lambda>i. sum_list (map f (filter (\<lambda>x. key x = i) xs))) is) = (sum_list (map f xs) :: int)"
  using assms(1)
proof (induction xs)
  case (Cons x xs)
  have "sum_list (map f (filter (\<lambda>y. key y = i) (x # xs))) = (if key x = i then f x else 0) + sum_list (map f (filter (\<lambda>y. key y = i) xs))" for i
    by simp
  then show ?case using Cons sum_list_pick [OF assms(2), of "key x" "f x"] by (simp only: sum_list_addf) simp
qed simp

lemma retained_bytes_by_attempt:
  assumes "log_ok db"
  shows "sum_list (map rr_bytes (db_records db)) = sum_list (map at_bytes (db_attempts db))"
proof -
  have eq: "map at_bytes (db_attempts db) = map (\<lambda>r. sum_list (map rr_bytes (records_of (at_id r) db))) (db_attempts db)"
    using log_okD(6) [OF assms] by (simp add: attempt_ok_def)
  show ?thesis unfolding eq
    using attempts_own_records [of "db_records db" rr_attempt "map at_id (db_attempts db)" rr_bytes] log_okD(1,4) [OF assms]
    by (simp add: records_of_def comp_def)
qed

lemma at_bytes_nonneg: "log_ok db \<Longrightarrow> r \<in> set (db_attempts db) \<Longrightarrow> 0 \<le> at_bytes r"
  using log_okD(3,6) by (fastforce simp: attempt_ok_def records_of_def intro!: sum_list_nonneg)

lemma apply_budgets_ok:
  assumes ok: "log_ok db" and app: "apply_budgets store i db = Inr db'" and "0 \<le> ls_max_bytes store" "0 \<le> ls_attempt_max_bytes store"
  shows "log_ok db'" "sum_list (map rr_bytes (db_records db')) \<le> ls_max_bytes store"
    "r \<in> set (db_attempts db') \<Longrightarrow> at_id r = i \<Longrightarrow> at_bytes r \<le> ls_attempt_max_bytes store"
proof -
  obtain removed db1 where rot: "rotate_attempt i (ls_attempt_max_bytes store) db = Inr (removed, db1)"
    and rest: "db1 = db' \<and> sum_list (map rr_bytes (db_records db1)) \<le> ls_max_bytes store \<or>
      shrink_attempts (ls_max_bytes store) (sum_list (map rr_bytes (db_records db1)))
        (sort_key at_created (filter (\<lambda>r. at_bytes r > 0) (db_attempts db1))) db1 = Inr db'"
    using app log_okD(5) [OF log_ok_rotate(1) [OF ok]] by (fastforce simp: apply_budgets_def ebind_Inr split: if_splits)
  note spec = log_ok_rotate [OF ok rot]
  have small: "at_bytes r \<le> ls_attempt_max_bytes store" if r: "r \<in> set (db_attempts db1)" "at_id r = i" for r
  proof -
    obtain f where "db_attempts db1 = map (\<lambda>r. if at_id r = i then f r else r) (db_attempts db)"
      "\<forall>r. at_id (f r) = at_id r \<and> at_bytes (f r) = at_bytes r - removed" using spec(4) by blast
    then obtain r0 where "r0 \<in> set (db_attempts db)" "at_id r0 = i" "at_bytes r = at_bytes r0 - removed" using r by (auto split: if_splits)
    then show ?thesis using spec(5) assms(4) by simp
  qed
  have nonneg: "\<forall>r \<in> set (db_attempts db1). 0 \<le> at_bytes r" using at_bytes_nonneg [OF spec(1)] by blast
  have "log_ok db' \<and> sum_list (map rr_bytes (db_records db')) \<le> ls_max_bytes store \<and>
     (\<forall>r' \<in> set (db_attempts db'). \<exists>r \<in> set (db_attempts db1). at_id r = at_id r' \<and> at_bytes r' \<le> at_bytes r)"
    using rest
  proof
    let ?cs = "sort_key at_created (filter (\<lambda>r. at_bytes r > 0) (db_attempts db1))"
    assume shrink: "shrink_attempts (ls_max_bytes store) (sum_list (map rr_bytes (db_records db1))) ?cs db1 = Inr db'"
    have "distinct (map at_id ?cs)" using log_okD(1) [OF spec(1)] by (simp add: distinct_map_filter)
    moreover have "sum_list (map at_bytes ?cs) = sum_list (map rr_bytes (db_records db1))"
      using sum_list_zero_filter [OF nonneg] retained_bytes_by_attempt [OF spec(1)] by (simp add: sum_list_sort_key)
    ultimately show ?thesis using shrink_attempts_ok [OF spec(1) shrink refl assms(3)] nonneg assms(3) by auto
  qed (use spec(1) in auto)
  then show "log_ok db'" "sum_list (map rr_bytes (db_records db')) \<le> ls_max_bytes store"
    "r \<in> set (db_attempts db') \<Longrightarrow> at_id r = i \<Longrightarrow> at_bytes r \<le> ls_attempt_max_bytes store"
    using small by (auto dest!: bspec) fastforce
qed

section \<open>Appending\<close>

lemma payload_size_pos: "0 < payload_size fr e"
proof -
  have "json_dumps fr (JObj kvs) \<noteq> []" for kvs by simp
  then obtain c cs where "json_dumps fr (entry_json e) = c # cs" unfolding entry_json_def by (metis neq_Nil_conv)
  then show ?thesis by (simp add: payload_size_def utf8_encode_Cons)
qed

lemma upto_snoc: "i \<le> j \<Longrightarrow> [i..j - 1] @ [j] = [i..j]" for i :: int
  using upto_rec2 [of i j] by simp

lemma attempt_ok_snoc:
  assumes ok: "attempt_ok rs r" and x: "rr_seq x = at_next_seq r" "lr_seq (rr_entry x) = at_next_seq r"
    and remote: "\<forall>n. lr_remote_seq (rr_entry x) = Some n \<longrightarrow> at_remote_cursor r \<le> n"
  shows "attempt_ok (rs @ [x]) (r\<lparr>at_next_seq := at_next_seq r + 1,
    at_remote_cursor := (case lr_remote_seq (rr_entry x) of Some n \<Rightarrow> n + 1 | None \<Rightarrow> at_remote_cursor r),
    at_bytes := at_bytes r + rr_bytes x, at_metadata := m\<rparr>)"
proof -
  have "map rr_seq (rs @ [x]) = [at_dropped r..at_next_seq r]"
    using ok x upto_snoc [of "at_dropped r" "at_next_seq r"] by (simp add: attempt_ok_def)
  moreover have "remote_seqs (rs @ [x]) = remote_seqs rs @ (case lr_remote_seq (rr_entry x) of Some n \<Rightarrow> [n] | None \<Rightarrow> [])"
    by (simp add: remote_seqs_append) (simp add: remote_seqs_def List.map_filter_def split: option.splits)
  ultimately show ?thesis using ok x remote by (fastforce simp: attempt_ok_def sorted_wrt_append split: option.splits)
qed

lemma insert_record_simps [simp]:
  "db_attempts (insert_record x db) = db_attempts db" "db_records (insert_record x db) = db_records db @ [x]"
  "dict_ok (db_statistics (insert_record x db)) = dict_ok (db_statistics db)"
  "statistic n (insert_record x db) = map_option (\<lambda>v. if n = ''retained_bytes'' then v + rr_bytes x else v) (statistic n db)"
  by (simp_all add: insert_record_def statistic_bump)

lemma log_ok_insert:
  assumes ok: "log_ok db" and row: "row \<in> set (db_attempts db)" "at_id row = i"
    and x: "rr_attempt x = i" "rr_seq x = at_next_seq row" "lr_seq (rr_entry x) = at_next_seq row" "0 < rr_bytes x"
    and remote: "\<forall>n. lr_remote_seq (rr_entry x) = Some n \<longrightarrow> at_remote_cursor row \<le> n"
  shows "log_ok (update_attempt i (\<lambda>r. r\<lparr>at_next_seq := at_next_seq row + 1,
    at_remote_cursor := (case lr_remote_seq (rr_entry x) of Some n \<Rightarrow> n + 1 | None \<Rightarrow> at_remote_cursor row),
    at_bytes := at_bytes r + rr_bytes x, at_metadata := m\<rparr>) (insert_record x db))" (is "log_ok (update_attempt i ?f ?db)")
proof -
  have unique: "r = row" if "r \<in> set (db_attempts db)" "at_id r = i" for r
    using that row log_okD(1) [OF ok] by (auto simp: distinct_map dest: inj_onD)
  have rs: "records_of j ?db = records_of j db @ (if j = i then [x] else [])" for j by (simp add: records_of_def x(1))
  have "attempt_ok (records_of (at_id r) ?db) r" if r: "r \<in> set (db_attempts (update_attempt i ?f ?db))" for r
  proof -
    obtain r0 where r0: "r0 \<in> set (db_attempts db)" "r = (if at_id r0 = i then ?f r0 else r0)" using r by (auto simp: update_attempt_def)
    show ?thesis
    proof (cases "at_id r0 = i")
      case True
      then have "r = ?f row" using r0 unique by auto
      moreover have "attempt_ok (records_of i db @ [x]) (?f row)"
        using log_okD(6) [OF ok row(1)] row(2) x remote by (intro attempt_ok_snoc) auto
      ultimately show ?thesis using rs [of i] row(2) by simp
    next
      case False
      then show ?thesis using r0 rs log_okD(6) [OF ok r0(1)] by simp
    qed
  qed
  moreover have ids: "map at_id (db_attempts (update_attempt i ?f ?db)) = map at_id (db_attempts db)"
    by (subst update_attempt_ids) simp_all
  moreover have "at_id ` set (db_attempts (update_attempt i ?f ?db)) = at_id ` set (db_attempts db)" using ids by (metis list.set_map)
  moreover have "rr_attempt x \<in> at_id ` set (db_attempts db)" using row x(1) by blast
  ultimately show ?thesis using ok x(4) by (simp add: log_ok_def)
qed

lemma get_row_Inr: "get_row i db = Inr row \<longleftrightarrow> find_attempt i db = Some row"
  by (auto simp: get_row_def split: option.splits)

lemma new_entry_fields:
  "new_entry store stamp i a row m = Inr (e, m') \<Longrightarrow>
     lr_seq e = at_next_seq row \<and> lr_remote_seq e = ap_remote_seq a \<and> lr_msg e = clip_text (ls_max_record_bytes store) (ap_msg a)"
  by (auto simp: new_entry_def ebind_Inr)

lemma append_one_cases:
  assumes "append_one store fr stamp i a db = Inr (entry, db')"
  obtains (Skip) "entry = None" "db' = db"
  | (Add) row e x m where "entry = Some e" "find_attempt i db = Some row"
      "x = \<lparr>rr_attempt = i, rr_seq = at_next_seq row, rr_entry = e, rr_bytes = payload_size fr e\<rparr>"
      "lr_seq e = at_next_seq row" "lr_remote_seq e = ap_remote_seq a" "lr_msg e = clip_text (ls_max_record_bytes store) (ap_msg a)"
      "\<forall>n. ap_remote_seq a = Some n \<longrightarrow> at_remote_cursor row \<le> n"
      "db' = update_attempt i (\<lambda>r. r\<lparr>at_next_seq := at_next_seq row + 1,
         at_remote_cursor := (case lr_remote_seq (rr_entry x) of Some n \<Rightarrow> n + 1 | None \<Rightarrow> at_remote_cursor row),
         at_bytes := at_bytes r + rr_bytes x, at_metadata := m\<rparr>) (insert_record x db)"
proof -
  obtain row where row: "find_attempt i db = Some row" using assms by (auto simp: append_one_def ebind_Inr get_row_Inr)
  show thesis
  proof (cases entry)
    case None
    then have "db' = db" using assms by (auto simp: append_one_def ebind_Inr Let_def split: if_splits option.splits)
    then show thesis using None Skip by blast
  next
    case (Some e)
    let ?x = "\<lparr>rr_attempt = i, rr_seq = at_next_seq row, rr_entry = e, rr_bytes = payload_size fr e\<rparr>"
    have late: "\<forall>n. ap_remote_seq a = Some n \<longrightarrow> at_remote_cursor row \<le> n"
      using assms row Some by (auto simp: append_one_def get_row_def split: if_splits)
    obtain m m' where e: "new_entry store stamp i a row m = Inr (e, m')"
      and db': "db' = update_attempt i (\<lambda>r. r\<lparr>at_next_seq := at_next_seq row + 1,
         at_remote_cursor := (case ap_remote_seq a of Some n \<Rightarrow> n + 1 | None \<Rightarrow> at_remote_cursor row),
         at_bytes := at_bytes r + payload_size fr e, at_metadata := m'\<rparr>) (insert_record ?x db)"
      using assms row Some by (auto simp: append_one_def ebind_Inr get_row_Inr Let_def split: if_splits option.splits)
    show thesis using new_entry_fields [OF e] late row Some db' by (intro Add [of e row ?x m']) simp_all
  qed
qed

lemma append_one_ok: "log_ok db \<Longrightarrow> append_one store fr stamp i a db = Inr (entry, db') \<Longrightarrow> log_ok db'"
proof (erule append_one_cases)
  fix row e x m
  assume "log_ok db" "find_attempt i db = Some row" and x: "x = \<lparr>rr_attempt = i, rr_seq = at_next_seq row, rr_entry = e, rr_bytes = payload_size fr e\<rparr>"
    "lr_seq e = at_next_seq row" "lr_remote_seq e = ap_remote_seq a" "\<forall>n. ap_remote_seq a = Some n \<longrightarrow> at_remote_cursor row \<le> n"
    and db': "db' = update_attempt i (\<lambda>r. r\<lparr>at_next_seq := at_next_seq row + 1,
         at_remote_cursor := (case lr_remote_seq (rr_entry x) of Some n \<Rightarrow> n + 1 | None \<Rightarrow> at_remote_cursor row),
         at_bytes := at_bytes r + rr_bytes x, at_metadata := m\<rparr>) (insert_record x db)"
  then show "log_ok db'" unfolding db' using payload_size_pos by (intro log_ok_insert) (auto dest: find_attempt_Some)
qed simp

lemma append_all_ok: "log_ok db \<Longrightarrow> append_all store fr i as stamp db = Inr (added, db') \<Longrightarrow> log_ok db'"
  by (induction "as" arbitrary: db added) (auto simp: ebind_Inr intro: append_one_ok)

lemma append_many_ok:
  "log_ok db \<Longrightarrow> append_many store fr i as stamp db = Inr (added, db') \<Longrightarrow> 0 \<le> ls_max_bytes store \<Longrightarrow> 0 \<le> ls_attempt_max_bytes store \<Longrightarrow> log_ok db'"
  by (auto simp: append_many_def ebind_Inr split: if_splits intro: apply_budgets_ok(1) append_all_ok)

section \<open>Retention and creation\<close>

lemma host_evicted_simps [simp]:
  "db_attempts (host_evicted h db) = db_attempts db" "db_records (host_evicted h db) = db_records db"
  by (simp_all add: host_evicted_def Let_def)

lemma host_evicted_ok: "dict_ok (db_statistics db) \<Longrightarrow> dict_ok (db_statistics (host_evicted h db))"
  by (auto simp: host_evicted_def Let_def dict_ok_def dict_get_None_keys distinct_update split: option.splits)

lemma host_evicted_statistic:
  assumes "\<not> str_startswith n ''evicted_attempts:''"
  shows "statistic n (host_evicted h db) = statistic n db"
proof -
  define name where "name = ''evicted_attempts:'' @ h"
  have "n \<noteq> name" using assms str_startswith_append unfolding name_def by metis
  then show ?thesis
    unfolding statistic_def host_evicted_def Let_def name_def [symmetric] by (auto simp: map_add_def split: option.splits)
qed

definition same_counters :: "log_db \<Rightarrow> log_db \<Rightarrow> bool" where
  "same_counters db db' \<longleftrightarrow> (\<forall>n \<in> {''retained_bytes'', ''unattributed_evicted_attempts'', ''evicted_attempts''}. statistic n db' = statistic n db)"

lemma evict_hosts:
  "dict_ok (db_statistics db) \<Longrightarrow>
     let db' = fold (\<lambda>r. host_evicted (at_hostname r)) gone db
     in db_attempts db' = db_attempts db \<and> db_records db' = db_records db \<and> dict_ok (db_statistics db') \<and> same_counters db db'"
proof (induction gone arbitrary: db)
  case (Cons r gone)
  have "same_counters db (host_evicted (at_hostname r) db)"
    by (simp add: same_counters_def host_evicted_statistic str_startswith_def)
  then show ?case using Cons.IH [of "host_evicted (at_hostname r) db"] Cons.prems host_evicted_ok
    by (simp add: Let_def same_counters_def)
qed (simp add: same_counters_def)

lemma log_ok_delete_attempts:
  assumes ok: "log_ok db"
  shows "log_ok (delete_attempts P db)" "db_attempts (delete_attempts P db) = filter (\<lambda>r. \<not> P r) (db_attempts db)"
proof -
  define gone where "gone = filter P (db_attempts db)"
  define mid where "mid = delete_records (\<lambda>r. rr_attempt r \<in> set (map at_id gone)) (db\<lparr>db_attempts := filter (\<lambda>r. \<not> P r) (db_attempts db)\<rparr>)"
  have del: "delete_attempts P db = fold (\<lambda>r. host_evicted (at_hostname r)) gone mid"
    by (simp add: delete_attempts_def Let_def gone_def mid_def)
  have rows: "db_attempts mid = filter (\<lambda>r. \<not> P r) (db_attempts db)"
    "db_records mid = filter (\<lambda>r. rr_attempt r \<notin> set (map at_id gone)) (db_records db)"
    by (simp_all add: mid_def)
  have "dict_ok (db_statistics mid)" using log_okD(2) [OF ok] by (simp add: mid_def)
  from evict_hosts [OF this, of gone] have same: "db_attempts (delete_attempts P db) = db_attempts mid"
    "db_records (delete_attempts P db) = db_records mid" "dict_ok (db_statistics (delete_attempts P db))" "same_counters mid (delete_attempts P db)"
    by (simp_all add: del Let_def)
  then show "db_attempts (delete_attempts P db) = filter (\<lambda>r. \<not> P r) (db_attempts db)" by (simp add: rows)
  have kept: "at_id r \<notin> at_id ` set gone" if "r \<in> set (db_attempts db)" "\<not> P r" for r
    using that log_okD(1) [OF ok] by (auto simp: gone_def distinct_map dest: inj_onD)
  have "attempt_ok (records_of (at_id r) (delete_attempts P db)) r" if r: "r \<in> set (db_attempts db)" "\<not> P r" for r
  proof -
    have "records_of (at_id r) (delete_attempts P db) = records_of (at_id r) db"
      unfolding records_of_def same(2) rows(2) filter_filter using kept [OF r] by (intro filter_cong) (auto simp: image_iff)
    then show ?thesis using log_okD(6) [OF ok r(1)] by simp
  qed
  moreover have "rr_attempt x \<in> at_id ` set (filter (\<lambda>r. \<not> P r) (db_attempts db))" if "x \<in> set (db_records mid)" for x
    using that log_okD(4) [OF ok, of x] by (auto simp: rows gone_def)
  moreover have "statistic ''retained_bytes'' (delete_attempts P db) = Some (sum_list (map rr_bytes (db_records mid)))"
    using same(4) log_okD(5) [OF ok] sum_list_filter_split [of rr_bytes "\<lambda>r. rr_attempt r \<in> set (map at_id gone)" "db_records db"]
    by (simp add: same_counters_def rows(2)) (simp add: mid_def statistic_delete_records)
  moreover have "statistic ''unattributed_evicted_attempts'' (delete_attempts P db) \<noteq> None" "statistic ''evicted_attempts'' (delete_attempts P db) \<noteq> None"
    using same(4) ok by (simp_all add: same_counters_def log_ok_def mid_def statistic_delete_records)
  ultimately show "log_ok (delete_attempts P db)"
    using ok same rows by (auto simp: log_ok_def distinct_map_filter)
qed

lemma log_ok_bump: "log_ok db \<Longrightarrow> n \<noteq> ''retained_bytes'' \<Longrightarrow> log_ok (bump n d db)"
  by (auto simp: log_ok_def statistic_bump records_of_def)

lemma prune_rows_ok:
  assumes "log_ok db"
  shows "log_ok (prune_rows store now db)"
    "db_attempts (prune_rows store now db) = filter (\<lambda>r. \<not> (not_running r \<and>
       (at_created r < now - ls_retention store \<or> at_id r \<in> set (map at_id (excess_rows store db))))) (db_attempts db)"
  using assms log_ok_delete_attempts [OF assms]
  by (auto simp: prune_rows_def Let_def filter_empty_conv intro!: filter_True [symmetric] log_ok_bump)

lemma records_of_attempts [simp]: "records_of j (db\<lparr>db_attempts := x\<rparr>) = records_of j db"
  by (simp add: records_of_def)

lemma create_attempt_ok:
  assumes "log_ok db" "create_attempt store h n fresh stamp now now' db = Inr (i, db')"
  shows "log_ok db'"
proof -
  obtain m where new: "find_attempt i db = None" "db' = prune_rows store now' (db\<lparr>db_attempts := db_attempts db @
     [\<lparr>at_id = i, at_hostname = h, at_created = now, at_metadata = m, at_next_seq = 0, at_remote_cursor = 0, at_dropped = 0, at_bytes = 0\<rparr>]\<rparr>)"
    using assms(2) by (auto simp: create_attempt_def Let_def ebind_Inr split: if_splits)
  have "i \<notin> at_id ` set (db_attempts db)" using new(1) by (auto simp: find_None_iff)
  moreover have "records_of i db = []" using calculation log_okD(4) [OF assms(1)] by (auto simp: records_of_def filter_empty_conv)
  then have "attempt_ok (records_of i db) \<lparr>at_id = i, at_hostname = h, at_created = now, at_metadata = m, at_next_seq = 0,
     at_remote_cursor = 0, at_dropped = 0, at_bytes = 0\<rparr>"
    by (simp add: attempt_ok_def remote_seqs_def List.map_filter_def)
  ultimately have "log_ok (db\<lparr>db_attempts := db_attempts db @
     [\<lparr>at_id = i, at_hostname = h, at_created = now, at_metadata = m, at_next_seq = 0, at_remote_cursor = 0, at_dropped = 0, at_bytes = 0\<rparr>]\<rparr>)"
    using assms(1) by (auto simp: log_ok_def)
  then show ?thesis unfolding new(2) by (rule prune_rows_ok(1))
qed

section \<open>Every sequence of operations\<close>

text \<open>One method of the store; a method that raises leaves the database alone.\<close>

inductive log_step :: "AttemptLogStore \<Rightarrow> (rat \<Rightarrow> string) \<Rightarrow> (string \<Rightarrow> string \<Rightarrow> rat option) \<Rightarrow> log_db \<Rightarrow> log_db \<Rightarrow> bool"
  for store fr elapsed where
  step_open: "log_step store fr elapsed db (open_store store now db)"
| step_create: "create_attempt store h n fresh stamp now now' db = Inr (i, db') \<Longrightarrow> log_step store fr elapsed db db'"
| step_append: "append_many store fr i as stamps db = Inr (added, db') \<Longrightarrow> log_step store fr elapsed db db'"
| step_update: "store_update i changes db = Inr db' \<Longrightarrow> log_step store fr elapsed db db'"
| step_issue: "store_issue i message source db = Inr db' \<Longrightarrow> log_step store fr elapsed db db'"
| step_checkpoint: "record_checkpoint i stage status evidence stamp db = Inr db' \<Longrightarrow> log_step store fr elapsed db db'"
| step_retry: "increment_transient_retry i stamp db = Inr (n, db') \<Longrightarrow> log_step store fr elapsed db db'"
| step_phase: "update_phase elapsed i phase changes stamp db = Inr db' \<Longrightarrow> log_step store fr elapsed db db'"
| step_interrupt: "interrupt_running db = Inr db' \<Longrightarrow> log_step store fr elapsed db db'"
| step_prune: "log_step store fr elapsed db (prune store now now' db)"

definition fresh_store :: "AttemptLogStore \<Rightarrow> log_db \<Rightarrow> bool" where
  "fresh_store store db \<longleftrightarrow> (\<exists>now. db = open_store store now empty_db)"

definition sane_budgets :: "AttemptLogStore \<Rightarrow> bool" where
  "sane_budgets store \<longleftrightarrow> 0 \<le> ls_max_bytes store \<and> 0 \<le> ls_attempt_max_bytes store"

lemma fresh_store_ok: "fresh_store store db \<Longrightarrow> log_ok db"
  by (auto simp: fresh_store_def open_store_def empty_db_def add_statistic_def statistic_def prune_rows_def Let_def log_ok_def dict_ok_def
    str_startswith_def dict_get_or_def records_of_def)

lemma open_store_ok: "log_ok db \<Longrightarrow> log_ok (open_store store now db)"
  using log_okD(5) [of db]
  by (auto simp: open_store_def Let_def add_statistic_def log_ok_def [of db] intro!: prune_rows_ok(1))

lemma log_step_ok: "log_step store fr elapsed db db' \<Longrightarrow> sane_budgets store \<Longrightarrow> log_ok db \<Longrightarrow> log_ok db'"
proof (induction rule: log_step.induct)
  case (step_append i as stamps db added db')
  then show ?case by (auto simp: sane_budgets_def intro: append_many_ok)
qed (auto simp: store_update_def store_issue_def record_checkpoint_def increment_transient_retry_def update_phase_def interrupt_running_def
  prune_def map_sum_Inr ebind_Inr split: if_splits
  intro: open_store_ok create_attempt_ok update_fields_ok mutate_metadata_ok interrupt_rows_ok prune_rows_ok(1))

interpretation log_tables: invariant_system "fresh_store store" "log_step store fr elapsed" "\<lambda>db. sane_budgets store \<longrightarrow> log_ok db"
  for store fr elapsed
  by unfold_locales (auto intro: fresh_store_ok log_step_ok)

lemma reachable_log_ok: "reachable (fresh_store store) (log_step store fr elapsed) db \<Longrightarrow> sane_budgets store \<Longrightarrow> log_ok db"
  using log_tables.reachable_inv by blast

section \<open>Collecting remote records again\<close>

definition remote_cursor :: "string \<Rightarrow> log_db \<Rightarrow> int" where
  "remote_cursor i db = (case find_attempt i db of None \<Rightarrow> 0 | Some r \<Rightarrow> at_remote_cursor r)"

lemma find_update_attempt:
  assumes "\<And>r. at_id (f r) = at_id r"
  shows "find_attempt j (update_attempt i f db) = map_option (\<lambda>r. if j = i then f r else r) (find_attempt j db)"
proof -
  have "find (\<lambda>r. at_id r = j) (map (\<lambda>r. if at_id r = i then f r else r) rs) = map_option (\<lambda>r. if j = i then f r else r) (find (\<lambda>r. at_id r = j) rs)" for rs
    using assms by (induction rs) auto
  then show ?thesis by (simp add: update_attempt_def)
qed

definition from_node :: "append_args \<Rightarrow> bool" where
  "from_node a \<longleftrightarrow> ap_remote_seq a \<noteq> None \<and> ap_journal_cursor a = None"

lemma append_metadata_from_node: "from_node a \<Longrightarrow> append_metadata store a row \<noteq> Inr None"
  by (auto simp: from_node_def append_metadata_def Let_def ebind_Inr)

lemma append_one_cursor:
  assumes "append_one store fr stamp i a db = Inr (entry, db')"
  shows "remote_cursor i db \<le> remote_cursor i db'" "from_node a \<Longrightarrow> ap_remote_seq a = Some n \<Longrightarrow> n < remote_cursor i db'"
proof -
  have "remote_cursor i db \<le> remote_cursor i db' \<and> (from_node a \<and> ap_remote_seq a = Some n \<longrightarrow> n < remote_cursor i db')"
    using assms
  proof (cases rule: append_one_cases)
    case Skip
    then show ?thesis using assms append_metadata_from_node [of a]
      by (auto simp: append_one_def ebind_Inr get_row_Inr remote_cursor_def Let_def split: if_splits option.splits)
  next
    case (Add row e x m)
    then show ?thesis by (auto simp: remote_cursor_def find_update_attempt split: option.splits)
  qed
  then show "remote_cursor i db \<le> remote_cursor i db'" "from_node a \<Longrightarrow> ap_remote_seq a = Some n \<Longrightarrow> n < remote_cursor i db'" by auto
qed

lemma append_all_cursor:
  assumes "append_all store fr i as stamps db = Inr (added, db')"
  shows "remote_cursor i db \<le> remote_cursor i db'" "a \<in> set as \<Longrightarrow> from_node a \<Longrightarrow> ap_remote_seq a = Some n \<Longrightarrow> n < remote_cursor i db'"
proof -
  have "remote_cursor i db \<le> remote_cursor i db' \<and> (\<forall>a \<in> set as. \<forall>n. from_node a \<and> ap_remote_seq a = Some n \<longrightarrow> n < remote_cursor i db')"
    using assms
  proof (induction "as" arbitrary: db added)
    case (Cons a as)
    then obtain entry db1 added1 where one: "append_one store fr (stamps (length as)) i a db = Inr (entry, db1)"
      and rest: "append_all store fr i as stamps db1 = Inr (added1, db')" by (auto simp: ebind_Inr)
    show ?case using Cons.IH [OF rest] append_one_cursor [OF one] by fastforce
  qed simp
  then show "remote_cursor i db \<le> remote_cursor i db'" "a \<in> set as \<Longrightarrow> from_node a \<Longrightarrow> ap_remote_seq a = Some n \<Longrightarrow> n < remote_cursor i db'"
    by blast+
qed

lemma rotate_cursor: "rotate_attempt j budget db = Inr (removed, db') \<Longrightarrow> remote_cursor i db' = remote_cursor i db"
  by (auto simp: rotate_attempt_def remote_cursor_def find_update_attempt split: option.splits if_splits prod.splits)

lemma shrink_cursor: "shrink_attempts limit n cs db = Inr db' \<Longrightarrow> remote_cursor i db' = remote_cursor i db"
  by (induction cs arbitrary: n db) (auto simp: ebind_Inr split: if_splits dest: rotate_cursor)

lemma apply_budgets_cursor: "apply_budgets store j db = Inr db' \<Longrightarrow> remote_cursor i db' = remote_cursor i db"
  by (auto simp: apply_budgets_def ebind_Inr split: option.splits if_splits dest!: rotate_cursor [of _ _ _ _ _ i] shrink_cursor [of _ _ _ _ _ i])

lemma append_one_old:
  "find_attempt i db = Some row \<Longrightarrow> ap_remote_seq a = Some n \<Longrightarrow> n < at_remote_cursor row \<Longrightarrow> append_one store fr stamp i a db = Inr (None, db)"
  by (simp add: append_one_def get_row_def)

lemma append_all_old:
  assumes "find_attempt i db = Some row" "\<forall>a \<in> set as. \<exists>n. ap_remote_seq a = Some n \<and> n < at_remote_cursor row"
  shows "append_all store fr i as stamps db = Inr ([], db)"
  using assms(2) by (induction "as") (auto simp: append_one_old [OF assms(1)])

lemma apply_budgets_idle:
  assumes ok: "log_ok db" and row: "find_attempt i db = Some row" "at_bytes row \<le> ls_attempt_max_bytes store"
    and small: "sum_list (map rr_bytes (db_records db)) \<le> ls_max_bytes store"
  shows "apply_budgets store i db = Inr db"
  using row small log_okD(5) [OF ok] by (simp add: apply_budgets_def rotate_attempt_def)

lemma append_one_row:
  assumes app: "append_one store fr stamp i a db = Inr (entry, db')"
  shows "find_attempt i db' \<noteq> None"
  using app
proof (cases rule: append_one_cases)
  case Skip
  then show ?thesis using app by (auto simp: append_one_def ebind_Inr get_row_Inr)
qed (auto simp: find_update_attempt)

lemma append_all_row:
  assumes "append_all store fr i as stamps db = Inr (added, db')" "as \<noteq> []"
  shows "find_attempt i db' \<noteq> None"
  using assms
proof (induction "as" arbitrary: db added)
  case (Cons a as)
  then obtain entry db1 added1 where one: "append_one store fr (stamps (length as)) i a db = Inr (entry, db1)"
    and rest: "append_all store fr i as stamps db1 = Inr (added1, db')" by (auto simp: ebind_Inr)
  show ?case using Cons.IH [OF rest] append_one_row [OF one] rest by (cases "as = []") auto
qed simp

lemma rotate_keeps_row: "rotate_attempt j budget db = Inr (removed, db') \<Longrightarrow> find_attempt i db' \<noteq> None \<longleftrightarrow> find_attempt i db \<noteq> None"
  by (auto simp: rotate_attempt_def find_update_attempt split: option.splits if_splits prod.splits)

lemma shrink_keeps_row: "shrink_attempts limit n cs db = Inr db' \<Longrightarrow> find_attempt i db' \<noteq> None \<longleftrightarrow> find_attempt i db \<noteq> None"
  by (induction cs arbitrary: n db) (auto simp: ebind_Inr split: if_splits dest!: rotate_keeps_row [of _ _ _ _ _ i])

lemma apply_budgets_keeps_row: "apply_budgets store j db = Inr db' \<Longrightarrow> find_attempt i db' \<noteq> None \<longleftrightarrow> find_attempt i db \<noteq> None"
  by (auto simp: apply_budgets_def ebind_Inr split: option.splits if_splits
    dest!: rotate_keeps_row [of _ _ _ _ _ i] shrink_keeps_row [of _ _ _ _ _ i])

text \<open>After a batch, its records lie below the cursor and the budgets hold, so the batch adds nothing when it comes again.\<close>

lemma append_many_replay:
  assumes ok: "log_ok db" and sane: "sane_budgets store" and node: "\<forall>a \<in> set as. from_node a"
    and app: "append_many store fr i as stamps db = Inr (added, db')" and again: "again \<noteq> []" "set again \<subseteq> set as"
  shows "append_many store fr i again stamps' db' = Inr ([], db')"
proof -
  obtain a where a: "a \<in> set as" using again by (cases again) auto
  then have "as \<noteq> []" by auto
  then obtain db1 where all: "append_all store fr i as stamps db = Inr (added, db1)" and bud: "apply_budgets store i db1 = Inr db'"
    using app by (auto simp: append_many_def ebind_Inr)
  have ok1: "log_ok db1" using append_all_ok [OF ok all] .
  have "find_attempt i db1 \<noteq> None" using append_all_row [OF all \<open>as \<noteq> []\<close>] .
  then obtain row where row: "find_attempt i db' = Some row" using apply_budgets_keeps_row [OF bud] by fastforce
  have low: "\<forall>a \<in> set again. \<exists>n. ap_remote_seq a = Some n \<and> n < at_remote_cursor row"
  proof
    fix b assume "b \<in> set again"
    then have b: "b \<in> set as" "from_node b" using again(2) node by auto
    then obtain m where m: "ap_remote_seq b = Some m" by (auto simp: from_node_def)
    have "m < remote_cursor i db'" using append_all_cursor(2) [OF all b m] apply_budgets_cursor [OF bud] by simp
    then show "\<exists>n. ap_remote_seq b = Some n \<and> n < at_remote_cursor row" using m row by (simp add: remote_cursor_def)
  qed
  have "apply_budgets store i db' = Inr db'"
    using apply_budgets_ok [OF ok1 bud] sane find_attempt_Some [OF row] by (intro apply_budgets_idle [OF _ row]) (auto simp: sane_budgets_def)
  then show ?thesis using append_all_old [OF row low] again(1) by (simp add: append_many_def)
qed

section \<open>Resuming a setup\<close>

lemma decide_stages_spec:
  assumes "decide_stages cps (decided, merged) = Inr (decided', merged')" "dict_ok cps"
  shows "set decided' = set decided \<union> (set (dict_keys cps) - set NON_RESUMABLE_STAGES)"
    and "dict_get merged' stage = Some c \<Longrightarrow> dict_get merged stage = Some c \<or>
      stage \<notin> set decided \<and> stage \<notin> set NON_RESUMABLE_STAGES \<and> dict_get cps stage = Some (JObj c) \<and>
      obj_get c ''status'' JNull \<in> {JStr ''completed'', JStr ''skipped''}"
proof -
  have "set decided' = set decided \<union> (set (dict_keys cps) - set NON_RESUMABLE_STAGES) \<and>
    (dict_get merged' stage = Some c \<longrightarrow> dict_get merged stage = Some c \<or>
      stage \<notin> set decided \<and> stage \<notin> set NON_RESUMABLE_STAGES \<and> dict_get cps stage = Some (JObj c) \<and>
      obj_get c ''status'' JNull \<in> {JStr ''completed'', JStr ''skipped''})"
    using assms
  proof (induction cps arbitrary: decided merged)
    case (Cons cp cps)
    obtain s j where cp: "cp = (s, j)" by fastforce
    have ok: "dict_ok cps" "s \<notin> set (dict_keys cps)" using Cons.prems(2) cp by (auto simp: dict_ok_def)
    show ?case
    proof (cases "s \<in> set NON_RESUMABLE_STAGES \<or> s \<in> set decided")
      case True
      then have "decide_stages cps (decided, merged) = Inr (decided', merged')" using Cons.prems(1) cp by simp
      from Cons.IH [OF this ok(1)] show ?thesis using True cp ok(2) by (auto simp: dict_get_None_keys [symmetric])
    next
      case False
      then obtain c0 where c0: "j = JObj c0" and rest: "decide_stages cps (s # decided,
          if obj_get c0 ''status'' JNull \<in> {JStr ''completed'', JStr ''skipped''} then dict_set s c0 merged else merged) = Inr (decided', merged')"
        using Cons.prems(1) cp by (auto simp: ebind_Inr as_object_def split: json.splits)
      from Cons.IH [OF rest ok(1)] show ?thesis using False cp c0 ok(2) by (auto split: if_splits)
    qed
  qed simp
  then show "set decided' = set decided \<union> (set (dict_keys cps) - set NON_RESUMABLE_STAGES)"
    "dict_get merged' stage = Some c \<Longrightarrow> dict_get merged stage = Some c \<or>
      stage \<notin> set decided \<and> stage \<notin> set NON_RESUMABLE_STAGES \<and> dict_get cps stage = Some (JObj c) \<and>
      obj_get c ''status'' JNull \<in> {JStr ''completed'', JStr ''skipped''}" by blast+
qed

definition row_checkpoints :: "attempt_row \<Rightarrow> (string, json) dict" where
  "row_checkpoints r = (case obj_get (at_metadata r) ''checkpoints'' JNull of JObj cps \<Rightarrow> cps | _ \<Rightarrow> [])"

definition has_plan :: "string \<Rightarrow> attempt_row \<Rightarrow> bool" where
  "has_plan p r \<longleftrightarrow> obj_get (at_metadata r) ''plan_id'' JNull = JStr p"

lemma merge_checkpoints_spec:
  assumes "merge_checkpoints p rs (decided, merged) = Inr (decided', merged')" "\<forall>r \<in> set rs. dict_ok (row_checkpoints r)"
    and "dict_get merged' stage = Some c"
  shows "dict_get merged stage = Some c \<or>
    stage \<notin> set decided \<and> stage \<notin> set NON_RESUMABLE_STAGES \<and> obj_get c ''status'' JNull \<in> {JStr ''completed'', JStr ''skipped''} \<and>
    (\<exists>pre r post. rs = pre @ r # post \<and> has_plan p r \<and> dict_get (row_checkpoints r) stage = Some (JObj c) \<and>
       (\<forall>q \<in> set pre. has_plan p q \<longrightarrow> dict_get (row_checkpoints q) stage = None))"
  using assms
proof (induction rs arbitrary: decided merged)
  case (Cons r rs)
  show ?case
  proof (cases "has_plan p r")
    case False
    then have "merge_checkpoints p rs (decided, merged) = Inr (decided', merged')" using Cons.prems(1) by (simp add: has_plan_def Let_def)
    from Cons.IH [OF this _ Cons.prems(3)] Cons.prems(2) False show ?thesis by (fastforce intro: exI [of _ "r # _"])
  next
    case True
    let ?j = "obj_get (at_metadata r) ''checkpoints'' JNull"
    have "(if json_truthy ?j then as_object ?j else Inr []) = Inr cps \<Longrightarrow> cps = row_checkpoints r" for cps
      by (cases ?j) (auto simp: as_object_def row_checkpoints_def split: if_splits)
    then obtain d1 m1 where one: "decide_stages (row_checkpoints r) (decided, merged) = Inr (d1, m1)"
      and rest: "merge_checkpoints p rs (d1, m1) = Inr (decided', merged')"
      using Cons.prems(1) True by (auto simp: has_plan_def Let_def ebind_Inr)
    have "dict_ok (row_checkpoints r)" using Cons.prems(2) by simp
    note spec = decide_stages_spec [OF one this]
    from Cons.IH [OF rest _ Cons.prems(3)] Cons.prems(2) consider "dict_get m1 stage = Some c"
      | pre q post where "stage \<notin> set d1" "stage \<notin> set NON_RESUMABLE_STAGES" "obj_get c ''status'' JNull \<in> {JStr ''completed'', JStr ''skipped''}"
        "rs = pre @ q # post" "has_plan p q" "dict_get (row_checkpoints q) stage = Some (JObj c)"
        "\<forall>q \<in> set pre. has_plan p q \<longrightarrow> dict_get (row_checkpoints q) stage = None" by auto
    then show ?thesis
    proof cases
      case 1
      then show ?thesis using spec(2) [of stage c] True by (auto intro!: exI [of _ "[]"])
    next
      case 2
      then have "dict_get (row_checkpoints r) stage = None" "stage \<notin> set decided"
        using spec(1) by (auto simp: dict_get_None_keys)
      then show ?thesis using 2 by (intro disjI2) (auto intro!: exI [of _ "r # pre"])
    qed
  qed
qed simp

lemma newest_first_split:
  assumes "newest_first rs = pre @ r # post" "q \<in> set rs" "(at_created r, at_id r) < (at_created q, at_id q)"
  shows "q \<in> set pre"
proof -
  have "sort_key (\<lambda>r. (at_created r, at_id r)) rs = rev post @ r # rev pre" using assms(1) by (simp add: newest_first_def rev_eq_append_conv)
  then have "sorted (map (\<lambda>r. (at_created r, at_id r)) (rev post @ r # rev pre))" by (metis sorted_sort_key)
  then have "\<forall>x \<in> set post. (at_created x, at_id x) \<le> (at_created r, at_id r)" by (auto simp: sorted_append)
  moreover have "q \<in> set (pre @ r # post)" using assms(1,2) by (metis newest_first_def set_rev set_sort)
  ultimately show ?thesis using assms(3) by auto
qed

section \<open>Properties\<close>

text \<open>
  After any sequence of calls of the store, started from a new database: the records kept of an attempt are exactly the last ones
  appended, numbered without a hole from the number of dropped ones; its byte count and the total of the store are the sizes of the
  records kept; and what was collected from the node has strictly increasing positions, all below the stored cursor.
\<close>

theorem log_tables_agree:
  assumes "reachable (fresh_store store) (log_step store fr elapsed) db" "sane_budgets store" "r \<in> set (db_attempts db)"
  shows "map rr_seq (records_of (at_id r) db) = [at_dropped r..at_next_seq r - 1] \<and>
    at_bytes r = sum_list (map rr_bytes (records_of (at_id r) db)) \<and>
    sorted_wrt (<) (remote_seqs (records_of (at_id r) db)) \<and> (\<forall>n \<in> set (remote_seqs (records_of (at_id r) db)). n < at_remote_cursor r) \<and>
    statistic ''retained_bytes'' db = Some (sum_list (map rr_bytes (db_records db)))"
  using log_okD(5,6) [OF reachable_log_ok [OF assms(1,2)]] assms(3) by (auto simp: attempt_ok_def)

text \<open>
  C32. An append leaves the attempt within its own byte budget and the whole store within the store's, whatever was appended.
\<close>

theorem append_respects_budgets:
  assumes "reachable (fresh_store store) (log_step store fr elapsed) db" "sane_budgets store" "records \<noteq> []"
    and "append_many store fr i records stamps db = Inr (added, db')"
  shows "sum_list (map rr_bytes (db_records db')) \<le> ls_max_bytes store \<and>
    (\<forall>r \<in> set (db_attempts db'). at_id r = i \<longrightarrow> at_bytes r \<le> ls_attempt_max_bytes store)"
proof -
  obtain db1 where "append_all store fr i records stamps db = Inr (added, db1)" "apply_budgets store i db1 = Inr db'"
    using assms(3,4) by (auto simp: append_many_def ebind_Inr)
  then show ?thesis
    using apply_budgets_ok(2,3) [OF append_all_ok [OF reachable_log_ok [OF assms(1,2)]]] assms(2) by (auto simp: sane_budgets_def)
qed

text \<open>
  Collecting records from a node is idempotent: when a batch, or any part of it, arrives again, nothing is added and the database
  does not change, even when retention has dropped the records meanwhile.
\<close>

theorem remote_replay_adds_nothing:
  assumes "reachable (fresh_store store) (log_step store fr elapsed) db" "sane_budgets store" "list_all from_node batch"
    and "append_many store fr i batch stamps db = Inr (added, db')" "again \<noteq> []" "set again \<subseteq> set batch"
  shows "append_many store fr i again stamps' db' = Inr ([], db')"
  using append_many_replay [OF reachable_log_ok [OF assms(1,2)] assms(2) _ assms(4-6)] assms(3) by (simp add: list_all_iff)

text \<open>
  A retry resumes a stage only on verified work of the same plan: an attempt on the same host and plan recorded the stage as completed
  or skipped, every newer attempt of that host and plan left the stage alone (one that failed it blocks the older success), and
  activating the generation is never resumed.
\<close>

theorem resumed_stage_verified:
  assumes "resumable_checkpoints h p db = Inr merged" "dict_get merged stage = Some c"
    and "\<forall>r \<in> set (db_attempts db). dict_ok (row_checkpoints r)"
  shows "stage \<noteq> ''generation_activate'' \<and> obj_get c ''status'' JNull \<in> {JStr ''completed'', JStr ''skipped''} \<and>
    (\<exists>r \<in> set (db_attempts db). at_hostname r = h \<and> has_plan p r \<and> dict_get (row_checkpoints r) stage = Some (JObj c) \<and>
       (\<forall>q \<in> set (db_attempts db). at_hostname q = h \<and> has_plan p q \<and> (at_created r, at_id r) < (at_created q, at_id q)
          \<longrightarrow> dict_get (row_checkpoints q) stage = None))"
proof -
  let ?rs = "filter (\<lambda>r. at_hostname r = h) (db_attempts db)"
  obtain decided where run: "merge_checkpoints p (newest_first ?rs) ([], []) = Inr (decided, merged)"
    using assms(1) by (auto simp: resumable_checkpoints_def map_sum_Inr)
  have mem: "set (newest_first ?rs) = set ?rs" by (simp add: newest_first_def)
  then have "\<forall>r \<in> set (newest_first ?rs). dict_ok (row_checkpoints r)" using assms(3) by simp
  from merge_checkpoints_spec [OF run this assms(2)] obtain pre r post where r: "newest_first ?rs = pre @ r # post" "has_plan p r" "dict_get (row_checkpoints r) stage = Some (JObj c)"
    "\<forall>q \<in> set pre. has_plan p q \<longrightarrow> dict_get (row_checkpoints q) stage = None"
    and c: "stage \<notin> set NON_RESUMABLE_STAGES" "obj_get c ''status'' JNull \<in> {JStr ''completed'', JStr ''skipped''}"
    by auto
  have "r \<in> set ?rs" using mem r(1) by (metis in_set_conv_decomp)
  then show ?thesis using r c newest_first_split [OF r(1)] by (auto simp: NON_RESUMABLE_STAGES_def)
qed

section \<open>A sample store\<close>

definition sample_store :: AttemptLogStore where
  "sample_store = \<lparr>ls_max_bytes = 100000, ls_attempt_max_bytes = 300, ls_max_attempts = 10, ls_retention = 1000, ls_max_record_bytes = 64\<rparr>"

definition sample_new :: new_attempt where
  "sample_new = \<lparr>na_engine = ''vllm'', na_model = None, na_bundle_version = ''1'', na_operation = ''provision'', na_attempt_id = None,
     na_plan_id = Some ''p'', na_setup_inputs = []\<rparr>"

definition sample_line :: "int \<Rightarrow> append_args" where
  "sample_line n = \<lparr>ap_msg = ''line'', ap_level = ''info'', ap_source = ''setup.stdout'', ap_stage = None, ap_ts = None,
     ap_remote_seq = Some n, ap_stream = None, ap_journal_cursor = None\<rparr>"

definition sample_opened :: log_db where
  "sample_opened = open_store sample_store 0 empty_db"

definition sample_created :: log_db where
  "sample_created = (case create_attempt sample_store ''h1'' sample_new ''a1'' ''t'' 5 5 sample_opened of Inr (i, db) \<Rightarrow> db | Inl _ \<Rightarrow> sample_opened)"

definition sample_appended :: "(log_record list \<times> log_db) option" where
  "sample_appended = (case append_many sample_store (\<lambda>_. ''0'') ''a1'' [sample_line 0, sample_line 1] (\<lambda>_. ''t'') sample_created of
     Inr x \<Rightarrow> Some x | Inl _ \<Rightarrow> None)"

definition sample_checked :: log_db where
  "sample_checked = empty_db\<lparr>db_attempts := [\<lparr>at_id = ''a1'', at_hostname = ''h1'', at_created = 5,
     at_metadata = [(''plan_id'', JStr ''p''), (''checkpoints'', JObj [(''nvidia_driver'', JObj [(''status'', JStr ''completed'')])])],
     at_next_seq = 0, at_remote_cursor = 0, at_dropped = 0, at_bytes = 0\<rparr>]\<rparr>"

lemma sample_sane: "sane_budgets sample_store"
  by (simp add: sane_budgets_def sample_store_def)

lemma sample_reachable_created: "reachable (fresh_store sample_store) (log_step sample_store fr elapsed) sample_created"
proof -
  have opened: "reachable (fresh_store sample_store) (log_step sample_store fr elapsed) sample_opened"
    by (rule reach_init) (auto simp: fresh_store_def sample_opened_def)
  have "\<not> Option.is_none (case create_attempt sample_store ''h1'' sample_new ''a1'' ''t'' 5 5 sample_opened of Inr x \<Rightarrow> Some x | Inl _ \<Rightarrow> None)"
    by code_simp
  then obtain i db where c: "create_attempt sample_store ''h1'' sample_new ''a1'' ''t'' 5 5 sample_opened = Inr (i, db)"
    by (auto split: sum.splits)
  then have "sample_created = db" by (simp add: sample_created_def)
  then show ?thesis using reach_step [OF opened step_create [OF c]] by simp
qed

lemma sample_append:
  obtains added db where "append_many sample_store (\<lambda>_. ''0'') ''a1'' [sample_line 0, sample_line 1] (\<lambda>_. ''t'') sample_created = Inr (added, db)"
    "map at_dropped (db_attempts db) = [1]" "map at_id (db_attempts db) = [''a1'']" "map at_next_seq (db_attempts db) = [2]" "length added = 2"
proof -
  have "case sample_appended of None \<Rightarrow> False | Some (added, db) \<Rightarrow> map at_dropped (db_attempts db) = [1] \<and> map at_id (db_attempts db) = [''a1''] \<and>
    map at_next_seq (db_attempts db) = [2] \<and> length added = 2"
    by code_simp
  then show thesis using that by (auto simp: sample_appended_def split: option.splits sum.splits)
qed

theorem log_tables_agree_witness:
  "\<exists>db r. reachable (fresh_store sample_store) (log_step sample_store (\<lambda>_. ''0'') (\<lambda>_ _. None)) db \<and> db_attempts db = [r] \<and>
     at_dropped r = 1 \<and> map rr_seq (records_of (at_id r) db) = [1]"
proof -
  obtain added db where db: "append_many sample_store (\<lambda>_. ''0'') ''a1'' [sample_line 0, sample_line 1] (\<lambda>_. ''t'') sample_created = Inr (added, db)"
    "map at_dropped (db_attempts db) = [1]" "map at_next_seq (db_attempts db) = [2]" by (rule sample_append)
  have reach: "reachable (fresh_store sample_store) (log_step sample_store (\<lambda>_. ''0'') (\<lambda>_ _. None)) db"
    by (rule reach_step [OF sample_reachable_created step_append [OF db(1)]])
  obtain r where r: "db_attempts db = [r]" "at_dropped r = 1" "at_next_seq r = 2" using db(2,3) by auto
  have "[1..1] = [1 :: int]" by (simp add: upto.simps)
  then show ?thesis using log_tables_agree [OF reach sample_sane, of r] reach r by auto
qed

theorem append_respects_budgets_witness:
  "\<exists>added db. append_many sample_store (\<lambda>_. ''0'') ''a1'' [sample_line 0, sample_line 1] (\<lambda>_. ''t'') sample_created = Inr (added, db) \<and>
     length added = 2 \<and> sum_list (map rr_bytes (db_records db)) \<le> 100000 \<and> (\<forall>r. db_attempts db = [r] \<longrightarrow> at_bytes r \<le> 300)"
proof -
  obtain added db where db: "append_many sample_store (\<lambda>_. ''0'') ''a1'' [sample_line 0, sample_line 1] (\<lambda>_. ''t'') sample_created = Inr (added, db)"
    "map at_id (db_attempts db) = [''a1'']" "length added = 2" by (rule sample_append)
  then show ?thesis
    using append_respects_budgets [OF sample_reachable_created [where elapsed = "\<lambda>_ _. None"] sample_sane _ db(1)] by (auto simp: sample_store_def)
qed

theorem remote_replay_adds_nothing_witness:
  "\<exists>added db. append_many sample_store (\<lambda>_. ''0'') ''a1'' [sample_line 0, sample_line 1] (\<lambda>_. ''t'') sample_created = Inr (added, db) \<and>
     length added = 2 \<and> append_many sample_store (\<lambda>_. ''0'') ''a1'' [sample_line 0] (\<lambda>_. ''u'') db = Inr ([], db)"
proof -
  obtain added db where db: "append_many sample_store (\<lambda>_. ''0'') ''a1'' [sample_line 0, sample_line 1] (\<lambda>_. ''t'') sample_created = Inr (added, db)"
    "length added = 2" by (rule sample_append)
  have "list_all from_node [sample_line 0, sample_line 1]" by (simp add: from_node_def sample_line_def)
  from remote_replay_adds_nothing [OF sample_reachable_created [where elapsed = "\<lambda>_ _. None"] sample_sane this db(1), of "[sample_line 0]" "\<lambda>_. ''u''"] db
  show ?thesis by auto
qed

theorem resumed_stage_verified_witness:
  "\<exists>merged c. resumable_checkpoints ''h1'' ''p'' sample_checked = Inr merged \<and> dict_get merged ''nvidia_driver'' = Some c \<and>
     obj_get c ''status'' JNull \<in> {JStr ''completed'', JStr ''skipped''}"
proof -
  have rows: "db_attempts sample_checked = [\<lparr>at_id = ''a1'', at_hostname = ''h1'', at_created = 5,
     at_metadata = [(''plan_id'', JStr ''p''), (''checkpoints'', JObj [(''nvidia_driver'', JObj [(''status'', JStr ''completed'')])])],
     at_next_seq = 0, at_remote_cursor = 0, at_dropped = 0, at_bytes = 0\<rparr>]" by (simp add: sample_checked_def)
  have m: "resumable_checkpoints ''h1'' ''p'' sample_checked = Inr [(''nvidia_driver'', [(''status'', JStr ''completed'')])]"
    by (simp add: resumable_checkpoints_def rows newest_first_def as_object_def NON_RESUMABLE_STAGES_def dict_get_or_def Let_def)
  have "\<forall>r \<in> set (db_attempts sample_checked). dict_ok (row_checkpoints r)" by (simp add: rows row_checkpoints_def dict_get_or_def dict_ok_def)
  from resumed_stage_verified [OF m _ this, of "''nvidia_driver''"] m show ?thesis by auto
qed

end
