(* ===== verification/LogBuffer.thy ===== *)
theory LogBuffer
  imports LogStore
begin

text \<open>
  \<^verbatim>\<open>provisioning/log_buffer.py\<close>: the bounded per-host logs that live viewers follow. A generation (\<open>_HostLog\<close>) is an object that a
  reader may hold after its host was given a new one: it is an index into \<open>lb_logs\<close>, and \<open>lb_hosts\<close> maps a host to its current one.
  A method returns the exception it raises, if any, and the buffer it leaves. The asynchronous generator \<open>iter_from\<close> is a function from
  the generation it finds when it is resumed to what it does until it suspends again; waking the waiters is left out.
\<close>

section \<open>Entries and generations\<close>

record LogEntry =
  en_ts :: string
  en_level :: string
  en_msg :: string
  en_stream :: "string option"

record StoredEntry =
  se_position :: int
  se_entry :: LogEntry
  se_message_bytes :: int

record HostLog =
  hl_entries :: "StoredEntry list"
  hl_complete :: bool
  hl_completed_sequence :: "int option"
  hl_message_bytes :: int
  hl_next_position :: int

definition HostLog_new :: HostLog where
  "HostLog_new = \<lparr>hl_entries = [], hl_complete = False, hl_completed_sequence = None, hl_message_bytes = 0, hl_next_position = 0\<rparr>"

record buffer_limits =
  bl_max_entries_per_host :: int
  bl_max_bytes_per_host :: int
  bl_max_entry_bytes :: int
  bl_max_completed_hosts :: int

definition limits_error :: "buffer_limits \<Rightarrow> string option" where
  "limits_error l =
     (if bl_max_entries_per_host l < 1 then Some ''max_entries_per_host must be at least 1''
      else if bl_max_bytes_per_host l < 1 then Some ''max_bytes_per_host must be at least 1''
      else if bl_max_entry_bytes l < int (length TRUNCATION_MARKER) \<or> bl_max_entry_bytes l > bl_max_bytes_per_host l
      then Some ''max_entry_bytes must fit the truncation marker and not exceed max_bytes_per_host''
      else if bl_max_completed_hosts l < 1 then Some ''max_completed_hosts must be at least 1''
      else None)"

text \<open>The persistent store is absent or a database with its settings.\<close>

record LogBuffer =
  lb_store :: "(AttemptLogStore \<times> log_db) option"
  lb_attempts :: "(host, string) dict"
  lb_hosts :: "(host, nat) dict"
  lb_logs :: "HostLog list"
  lb_completion_sequence :: int

definition LogBuffer_new :: "(AttemptLogStore \<times> log_db) option \<Rightarrow> LogBuffer" where
  "LogBuffer_new store = \<lparr>lb_store = store, lb_attempts = [], lb_hosts = [], lb_logs = [], lb_completion_sequence = 0\<rparr>"

text \<open>What the standard library supplies during one call: timestamps, the clock, a fresh identifier.\<close>

record log_call =
  lc_fresh :: string
  lc_stamp :: string
  lc_now :: micros
  lc_now' :: micros
  lc_repr :: "rat \<Rightarrow> string"

section \<open>Operations\<close>

definition close_log :: "nat \<Rightarrow> LogBuffer \<Rightarrow> LogBuffer" where
  "close_log g b =
     (if hl_complete (lb_logs b ! g) then b
      else b\<lparr>lb_completion_sequence := lb_completion_sequence b + 1,
             lb_logs := (lb_logs b)[g := (lb_logs b ! g)\<lparr>hl_complete := True, hl_completed_sequence := Some (lb_completion_sequence b + 1)\<rparr>]\<rparr>)"

text \<open>\<open>self.attempts[hostname]\<close> and an update of that attempt, when there is a store.\<close>

definition store_call :: "host \<Rightarrow> (AttemptLogStore \<Rightarrow> string \<Rightarrow> log_db \<Rightarrow> log_error + log_db) \<Rightarrow> LogBuffer \<Rightarrow> log_error option \<times> LogBuffer" where
  "store_call h f b =
     (case lb_store b of
        None \<Rightarrow> (None, b)
      | Some (settings, db) \<Rightarrow>
          (case dict_get (lb_attempts b) h of
             None \<Rightarrow> (Some (MissingAttempt h), b)
           | Some i \<Rightarrow> (case f settings i db of Inl e \<Rightarrow> (Some e, b) | Inr db' \<Rightarrow> (None, b\<lparr>lb_store := Some (settings, db')\<rparr>))))"

definition start_generation :: "log_call \<Rightarrow> host \<Rightarrow> new_attempt \<Rightarrow> LogBuffer \<Rightarrow> log_error option \<times> LogBuffer" where
  "start_generation c h n b =
     (let b = b\<lparr>lb_hosts := dict_set h (length (lb_logs b)) (lb_hosts b), lb_logs := lb_logs b @ [HostLog_new]\<rparr>
      in case lb_store b of
           None \<Rightarrow> (None, b)
         | Some (settings, db) \<Rightarrow>
             (case create_attempt settings h n (lc_fresh c) (lc_stamp c) (lc_now c) (lc_now' c) db of
                Inl e \<Rightarrow> (Some e, b)
              | Inr (i, db') \<Rightarrow> (None, b\<lparr>lb_store := Some (settings, db'), lb_attempts := dict_set h i (lb_attempts b)\<rparr>)))"

definition buffer_create :: "log_call \<Rightarrow> host \<Rightarrow> new_attempt \<Rightarrow> LogBuffer \<Rightarrow> log_error option \<times> LogBuffer" where
  "buffer_create c h n b =
     (case dict_get (lb_hosts b) h of
        None \<Rightarrow> start_generation c h n b
      | Some g \<Rightarrow>
          let b = b\<lparr>lb_hosts := dict_pop h (lb_hosts b)\<rparr>;
              (e, b) = (if hl_complete (lb_logs b ! g) then (None, b)
                else store_call h (\<lambda>_ i. store_update i [(''status'', JStr ''interrupted''),
                  (''failure_summary'', JStr ''Replaced by a later operation before completion'')]) b)
          in case e of Some e \<Rightarrow> (Some e, b) | None \<Rightarrow> start_generation c h n (close_log g b))"

text \<open>The loop of \<open>_trim\<close> over the queue and its size in bytes.\<close>

fun trim_entries :: "buffer_limits \<Rightarrow> StoredEntry list \<Rightarrow> int \<Rightarrow> StoredEntry list \<times> int" where
  "trim_entries l [] bytes = ([], bytes)"
| "trim_entries l (x # xs) bytes =
     (if int (length (x # xs)) > bl_max_entries_per_host l \<or> bytes > bl_max_bytes_per_host l
      then trim_entries l xs (bytes - se_message_bytes x) else (x # xs, bytes))"

definition append_entry :: "buffer_limits \<Rightarrow> string \<Rightarrow> string \<Rightarrow> string \<Rightarrow> string option \<Rightarrow> HostLog \<Rightarrow> HostLog" where
  "append_entry l stamp level msg stream hl =
     (let bounded = clip_text (bl_max_entry_bytes l) msg;
          n = int (length (utf8_encode bounded));
          entry = \<lparr>se_position = hl_next_position hl,
            se_entry = \<lparr>en_ts = stamp, en_level = level, en_msg = bounded, en_stream = stream\<rparr>, se_message_bytes = n\<rparr>;
          (entries, bytes) = trim_entries l (hl_entries hl @ [entry]) (hl_message_bytes hl + n)
      in hl\<lparr>hl_entries := entries, hl_message_bytes := bytes, hl_next_position := hl_next_position hl + 1\<rparr>)"

definition buffer_append ::
  "buffer_limits \<Rightarrow> log_call \<Rightarrow> host \<Rightarrow> string \<Rightarrow> string \<Rightarrow> string option \<Rightarrow> bool \<Rightarrow> LogBuffer \<Rightarrow> log_error option \<times> LogBuffer" where
  "buffer_append l c h level msg stream persist b =
     (case dict_get (lb_hosts b) h of
        None \<Rightarrow> (None, b)
      | Some g \<Rightarrow>
          case (if persist
                then store_call h (\<lambda>settings i db. map_sum id snd (append_record settings (lc_repr c) i
                  \<lparr>ap_msg = msg, ap_level = level, ap_source = ''gateway'', ap_stage = None, ap_ts = None, ap_remote_seq = None,
                    ap_stream = stream, ap_journal_cursor = None\<rparr> (\<lambda>_. lc_stamp c) db)) b
                else (None, b)) of
            (Some e, b) \<Rightarrow> (Some e, b)
          | (None, b) \<Rightarrow> (None, b\<lparr>lb_logs := (lb_logs b)[g := append_entry l (lc_stamp c) level msg stream (lb_logs b ! g)]\<rparr>))"

text \<open>The completed generations by age; all but the newest ones are dropped.\<close>

definition completed_hosts :: "LogBuffer \<Rightarrow> (int \<times> host \<times> nat) list" where
  "completed_hosts b =
     sort_key fst (List.map_filter (\<lambda>(h, g). case hl_completed_sequence (lb_logs b ! g) of None \<Rightarrow> None | Some s \<Rightarrow> Some (s, h, g)) (lb_hosts b))"

definition evict_host :: "int \<times> host \<times> nat \<Rightarrow> LogBuffer \<Rightarrow> LogBuffer" where
  "evict_host x b =
     (case x of (_, h, g) \<Rightarrow>
        let b = close_log g b
        in if dict_get (lb_hosts b) h = Some g
           then b\<lparr>lb_hosts := dict_pop h (lb_hosts b), lb_attempts := dict_pop h (lb_attempts b)\<rparr> else b)"

definition evict_completed :: "buffer_limits \<Rightarrow> LogBuffer \<Rightarrow> LogBuffer" where
  "evict_completed l b = fold evict_host (py_slice_to (- bl_max_completed_hosts l) (completed_hosts b)) b"

definition mark_complete :: "buffer_limits \<Rightarrow> log_call \<Rightarrow> host \<Rightarrow> LogBuffer \<Rightarrow> log_error option \<times> LogBuffer" where
  "mark_complete l c h b =
     (case dict_get (lb_hosts b) h of
        None \<Rightarrow> (None, b)
      | Some g \<Rightarrow>
          case store_call h (\<lambda>_ i db.
              ebind (get_attempt i db) (\<lambda>current.
              ebind (field current ''status'') (\<lambda>status.
              store_update i [(''finished_at'', json_or (obj_get current ''finished_at'' JNull) (JStr (lc_stamp c))),
                (''status'', if status = JStr ''running'' then JStr ''complete'' else status)] db))) (close_log g b) of
            (Some e, b) \<Rightarrow> (Some e, b)
          | (None, b) \<Rightarrow> (None, evict_completed l b))"

definition has_log :: "host \<Rightarrow> LogBuffer \<Rightarrow> bool" where
  "has_log h b \<longleftrightarrow> dict_get (lb_hosts b) h \<noteq> None"

definition get_entries :: "host \<Rightarrow> LogBuffer \<Rightarrow> LogEntry list" where
  "get_entries h b = (case dict_get (lb_hosts b) h of None \<Rightarrow> [] | Some g \<Rightarrow> map se_entry (hl_entries (lb_logs b ! g)))"

section \<open>Following a log\<close>

definition gap_entry :: "string \<Rightarrow> int \<Rightarrow> LogEntry" where
  "gap_entry stamp n =
     \<lparr>en_ts = stamp, en_level = ''warning'',
      en_msg = str_int n @ '' earlier log '' @ (if n = 1 then ''entry'' else ''entries'') @ '' evicted by retention limits'', en_stream = None\<rparr>"

text \<open>
  Where a reader is suspended: about to start its loop, waiting to be notified, or at the \<open>yield\<close> of a gap, with the first position
  it read before. \<open>Gap p n\<close> is the pair that announces \<open>n\<close> evicted entries up to position \<open>p\<close>.
\<close>

datatype reader = AtTop int | Waiting int | AfterGap int | Finished

datatype item = Entry int LogEntry | Gap int int

definition after_entries :: "HostLog \<Rightarrow> int \<Rightarrow> item option \<times> reader" where
  "after_entries hl cursor =
     (if hl_complete hl then (None, Finished)
      else
        let first_position = (case hl_entries hl of x # _ \<Rightarrow> se_position x | [] \<Rightarrow> hl_next_position hl)
        in if cursor \<ge> hl_next_position hl \<and> \<not> cursor < first_position then (None, Waiting cursor) else (None, AtTop cursor))"

definition deliver :: "HostLog \<Rightarrow> int \<Rightarrow> int \<Rightarrow> item option \<times> reader" where
  "deliver hl first_position cursor =
     (let offset = cursor - first_position
      in if 0 \<le> offset \<and> offset < int (length (hl_entries hl))
         then let stored = hl_entries hl ! nat offset in (Some (Entry (se_position stored) (se_entry stored)), AtTop (se_position stored + 1))
         else after_entries hl cursor)"

definition loop_top :: "HostLog \<Rightarrow> int \<Rightarrow> item option \<times> reader" where
  "loop_top hl cursor =
     (case hl_entries hl of
        [] \<Rightarrow> after_entries hl cursor
      | x # _ \<Rightarrow>
          if cursor < se_position x then (Some (Gap (se_position x - 1) (se_position x - cursor)), AfterGap (se_position x))
          else deliver hl (se_position x) cursor)"

fun resume_reader :: "HostLog \<Rightarrow> reader \<Rightarrow> item option \<times> reader" where
  "resume_reader hl (AtTop cursor) = loop_top hl cursor"
| "resume_reader hl (Waiting cursor) = loop_top hl cursor"
| "resume_reader hl (AfterGap first_position) =
     deliver hl first_position first_position"
| "resume_reader hl Finished = (None, Finished)"

definition iter_from :: "host \<Rightarrow> int \<Rightarrow> LogBuffer \<Rightarrow> (nat \<times> reader) option" where
  "iter_from h pos b = map_option (\<lambda>g. (g, AtTop (max 0 pos))) (dict_get (lb_hosts b) h)"

section \<open>Retention\<close>

text \<open>A generation keeps its newest entries, numbered without a hole, within both limits; the newest one is always kept.\<close>

definition host_log_ok :: "buffer_limits \<Rightarrow> HostLog \<Rightarrow> bool" where
  "host_log_ok l hl \<longleftrightarrow>
     map se_position (hl_entries hl) = [hl_next_position hl - int (length (hl_entries hl))..hl_next_position hl - 1] \<and>
     hl_message_bytes hl = sum_list (map se_message_bytes (hl_entries hl)) \<and>
     int (length (hl_entries hl)) \<le> bl_max_entries_per_host l \<and> hl_message_bytes hl \<le> bl_max_bytes_per_host l \<and>
     0 \<le> hl_next_position hl \<and> (0 < hl_next_position hl \<longrightarrow> hl_entries hl \<noteq> []) \<and> (hl_complete hl \<longleftrightarrow> hl_completed_sequence hl \<noteq> None) \<and>
     (\<forall>x \<in> set (hl_entries hl). se_message_bytes x = int (length (utf8_encode (en_msg (se_entry x)))) \<and> se_message_bytes x \<le> bl_max_entry_bytes l)"

lemma host_log_new_ok: "limits_error l = None \<Longrightarrow> host_log_ok l HostLog_new"
  by (auto simp: host_log_ok_def HostLog_new_def limits_error_def split: if_splits)

text \<open>Trimming drops a prefix, and stops before an entry that fits alone.\<close>

lemma trim_entries_spec:
  assumes "trim_entries l xs bytes = (ys, rest)" "bytes = sum_list (map se_message_bytes xs)"
  shows "\<exists>k \<le> length xs. ys = drop k xs \<and> rest = sum_list (map se_message_bytes ys) \<and>
    (ys = [] \<or> int (length ys) \<le> bl_max_entries_per_host l \<and> rest \<le> bl_max_bytes_per_host l)"
  using assms
proof (induction xs arbitrary: bytes)
  case (Cons x xs)
  show ?case
  proof (cases "int (length (x # xs)) > bl_max_entries_per_host l \<or> bytes > bl_max_bytes_per_host l")
    case True
    then have "trim_entries l xs (bytes - se_message_bytes x) = (ys, rest)" using Cons.prems(1) by simp
    from Cons.IH [OF this] Cons.prems(2) obtain k where "k \<le> length xs" "ys = drop k xs" "rest = sum_list (map se_message_bytes ys)"
      "ys = [] \<or> int (length ys) \<le> bl_max_entries_per_host l \<and> rest \<le> bl_max_bytes_per_host l" by auto
    then show ?thesis by (intro exI [of _ "Suc k"]) auto
  next
    case False
    then show ?thesis using Cons.prems by (intro exI [of _ 0]) auto
  qed
qed simp

lemma trim_entries_last:
  assumes "1 \<le> bl_max_entries_per_host l" "se_message_bytes z \<le> bl_max_bytes_per_host l"
    and "bytes = sum_list (map se_message_bytes (xs @ [z]))"
  shows "fst (trim_entries l (xs @ [z]) bytes) \<noteq> []"
  using assms by (induction xs arbitrary: bytes) auto

lemma clip_bytes: "limits_error l = None \<Longrightarrow> int (length (utf8_encode (clip_text (bl_max_entry_bytes l) msg))) \<le> bl_max_entry_bytes l"
  by (intro clip_text_length) (auto simp: limits_error_def marker_length split: if_splits)

lemma drop_upto_int: "k \<le> n \<Longrightarrow> drop k [j - int n..j - 1] = [j - int (n - k)..j - 1]" for j :: int
  by (rule nth_equalityI) (auto simp: nth_upto)

lemma append_entry_ok:
  assumes l: "limits_error l = None" and ok: "host_log_ok l hl"
  shows "host_log_ok l (append_entry l stamp level msg stream hl)"
proof -
  let ?n = "int (length (utf8_encode (clip_text (bl_max_entry_bytes l) msg)))"
  let ?z = "\<lparr>se_position = hl_next_position hl,
     se_entry = \<lparr>en_ts = stamp, en_level = level, en_msg = clip_text (bl_max_entry_bytes l) msg, en_stream = stream\<rparr>, se_message_bytes = ?n\<rparr>"
  let ?xs = "hl_entries hl @ [?z]"
  obtain ys rest where trim: "trim_entries l ?xs (hl_message_bytes hl + ?n) = (ys, rest)" by fastforce
  have bytes: "hl_message_bytes hl + ?n = sum_list (map se_message_bytes ?xs)" using ok by (simp add: host_log_ok_def)
  from trim_entries_spec [OF trim bytes] obtain k where k: "k \<le> length ?xs" "ys = drop k ?xs" "rest = sum_list (map se_message_bytes ys)"
    "ys = [] \<or> int (length ys) \<le> bl_max_entries_per_host l \<and> rest \<le> bl_max_bytes_per_host l" by blast
  have small: "?n \<le> bl_max_entry_bytes l" using clip_bytes [OF l] .
  have lim: "1 \<le> bl_max_entries_per_host l" "bl_max_entry_bytes l \<le> bl_max_bytes_per_host l" using l by (auto simp: limits_error_def split: if_splits)
  have "ys \<noteq> []" using trim_entries_last [of l ?z, OF lim(1) _ bytes] trim small lim(2) by simp
  have new: "append_entry l stamp level msg stream hl = hl\<lparr>hl_entries := ys, hl_message_bytes := rest, hl_next_position := hl_next_position hl + 1\<rparr>"
    using trim by (simp add: append_entry_def Let_def)
  let ?p = "hl_next_position hl + 1"
  have "map se_position ?xs = [?p - int (length ?xs)..?p - 1]"
    using ok upto_rec2 [of "hl_next_position hl - int (length (hl_entries hl))" "hl_next_position hl"] by (simp add: host_log_ok_def)
  then have "map se_position ys = [?p - int (length ys)..?p - 1]"
    using drop_upto_int [OF k(1), of ?p] k(2) by (metis drop_map length_drop)
  moreover have "\<forall>x \<in> set ys. se_message_bytes x = int (length (utf8_encode (en_msg (se_entry x)))) \<and> se_message_bytes x \<le> bl_max_entry_bytes l"
    using ok small k(2) by (auto simp: host_log_ok_def dest!: in_set_dropD)
  ultimately show ?thesis unfolding new using ok k(3,4) \<open>ys \<noteq> []\<close> by (auto simp: host_log_ok_def)
qed

section \<open>What a reader sees\<close>

text \<open>The positions an item accounts for, and the runs of a reader over the generations it finds when it is resumed.\<close>

fun accounted :: "item \<Rightarrow> int list" where
  "accounted (Entry p e) = [p]"
| "accounted (Gap p n) = [p - n + 1..p]"

fun run_reader :: "HostLog list \<Rightarrow> reader \<Rightarrow> item list \<times> reader" where
  "run_reader [] r = ([], r)"
| "run_reader (hl # hls) r =
     (case resume_reader hl r of (x, r') \<Rightarrow>
        case run_reader hls r' of (xs, r'') \<Rightarrow> ((case x of None \<Rightarrow> xs | Some x \<Rightarrow> x # xs), r''))"

text \<open>Nothing was evicted while the reader was suspended at the announcement of a gap.\<close>

fun undisturbed :: "HostLog list \<Rightarrow> reader \<Rightarrow> bool" where
  "undisturbed [] r = True"
| "undisturbed (hl # hls) r =
     ((case r of AfterGap first_position \<Rightarrow> map se_position (take 1 (hl_entries hl)) = [first_position] | _ \<Rightarrow> True) \<and>
      undisturbed hls (snd (resume_reader hl r)))"

fun cursor_of :: "reader \<Rightarrow> int option" where
  "cursor_of (AtTop c) = Some c"
| "cursor_of (Waiting c) = Some c"
| "cursor_of (AfterGap c) = Some c"
| "cursor_of Finished = None"

lemma host_log_position:
  assumes "host_log_ok l hl" "k < length (hl_entries hl)"
  shows "se_position (hl_entries hl ! k) = hl_next_position hl - int (length (hl_entries hl)) + int k"
proof -
  have "map se_position (hl_entries hl) ! k = [hl_next_position hl - int (length (hl_entries hl))..hl_next_position hl - 1] ! k"
    using assms(1) by (simp add: host_log_ok_def)
  then show ?thesis using assms(2) by (simp add: nth_upto)
qed

lemma host_log_first: "host_log_ok l hl \<Longrightarrow> hl_entries hl = x # xs \<Longrightarrow> se_position x = hl_next_position hl - int (length (hl_entries hl))"
  using host_log_position [of l hl 0] by simp

lemma after_entries_cursor:
  "after_entries hl c = (x, r) \<Longrightarrow> x = None \<and> (r = Finished \<and> hl_complete hl \<or> cursor_of r = Some c)"
  by (auto simp: after_entries_def Let_def split: if_splits)

lemma deliver_cursor:
  assumes ok: "host_log_ok l hl" and first: "hl_entries hl = y # ys" "f = se_position y" "f \<le> c" and res: "deliver hl f c = (x, r)"
  shows "(\<exists>e. x = Some (Entry c e)) \<and> r = AtTop (c + 1) \<or> x = None \<and> (r = Finished \<and> hl_complete hl \<and> hl_next_position hl \<le> c \<or> cursor_of r = Some c)"
proof (cases "c - f < int (length (hl_entries hl))")
  case True
  have "se_position (hl_entries hl ! nat (c - f)) = c"
    using host_log_position [OF ok, of "nat (c - f)"] True first host_log_first [OF ok first(1)] by simp
  then show ?thesis using True res first(3) by (auto simp: deliver_def Let_def)
next
  case False
  then have "after_entries hl c = (x, r)" using res by (simp add: deliver_def)
  moreover have "hl_next_position hl \<le> c" using False first host_log_first [OF ok first(1)] by simp
  ultimately show ?thesis using after_entries_cursor by blast
qed

text \<open>One resumption accounts for the positions the cursor moves over.\<close>

lemma resume_reader_cursor:
  assumes ok: "host_log_ok l hl" and res: "resume_reader hl r = (x, r')" and c: "cursor_of r = Some c" "0 \<le> c"
    and gap: "undisturbed [hl] r"
  shows "x = None \<and> r' = Finished \<and> hl_complete hl \<and> hl_next_position hl \<le> c \<or>
    (\<exists>c'. cursor_of r' = Some c' \<and> c \<le> c' \<and> (case x of None \<Rightarrow> [] | Some x \<Rightarrow> accounted x) = [c..c' - 1])"
proof -
  have single: "[c..c] = [c]" by (simp add: upto_rec1)
  have top: "?thesis" if top: "loop_top hl c = (x, r')"
  proof (cases "hl_entries hl")
    case Nil
    then have "hl_next_position hl \<le> c" using ok c(2) by (auto simp: host_log_ok_def)
    then show ?thesis using top Nil after_entries_cursor [of hl c x r'] by (auto simp: loop_top_def)
  next
    case (Cons y ys)
    show ?thesis
    proof (cases "c < se_position y")
      case True
      then show ?thesis using top Cons by (auto simp: loop_top_def)
    next
      case False
      then have "deliver hl (se_position y) c = (x, r')" using top Cons by (simp add: loop_top_def)
      from deliver_cursor [OF ok Cons refl _ this] False single show ?thesis by auto
    qed
  qed
  show ?thesis
  proof (cases r)
    case (AfterGap f)
    then obtain y ys where y: "hl_entries hl = y # ys" "se_position y = f" using gap by (cases "hl_entries hl") auto
    then have "deliver hl (se_position y) c = (x, r')" using AfterGap c res by simp
    from deliver_cursor [OF ok y(1) refl _ this] AfterGap c y(2) single show ?thesis by auto
  qed (use top res c in auto)
qed

lemma run_reader_finished: "run_reader hls Finished = ([], Finished)"
  by (induction hls) auto

lemma run_reader_cursor:
  assumes "\<forall>hl \<in> set hls. host_log_ok l hl" "run_reader hls r = (xs, r')" "cursor_of r = Some c" "0 \<le> c" "undisturbed hls r"
  shows "\<exists>e \<ge> c. concat (map accounted xs) = [c..e - 1] \<and>
    (case cursor_of r' of Some c' \<Rightarrow> e = c' | None \<Rightarrow> \<exists>hl \<in> set hls. hl_complete hl \<and> hl_next_position hl \<le> e)"
  using assms
proof (induction hls arbitrary: r c xs)
  case (Cons hl hls)
  obtain x r1 where one: "resume_reader hl r = (x, r1)" by fastforce
  obtain ys r2 where rest: "run_reader hls r1 = (ys, r2)" by fastforce
  have xs: "concat (map accounted xs) = (case x of None \<Rightarrow> [] | Some x \<Rightarrow> accounted x) @ concat (map accounted ys)" "r2 = r'"
    using Cons.prems(2) one rest by (auto split: option.splits)
  have und: "undisturbed [hl] r" "undisturbed hls r1" using Cons.prems(5) one by auto
  have "host_log_ok l hl" using Cons.prems(1) by simp
  from resume_reader_cursor [OF this one Cons.prems(3,4) und(1)] show ?case
  proof
    assume fin: "x = None \<and> r1 = Finished \<and> hl_complete hl \<and> hl_next_position hl \<le> c"
    then have "ys = []" "r' = Finished" using rest xs(2) run_reader_finished by auto
    then show ?thesis using fin xs(1) by (intro exI [of _ c]) auto
  next
    assume "\<exists>c'. cursor_of r1 = Some c' \<and> c \<le> c' \<and> (case x of None \<Rightarrow> [] | Some x \<Rightarrow> accounted x) = [c..c' - 1]"
    then obtain c' where c': "cursor_of r1 = Some c'" "c \<le> c'" "(case x of None \<Rightarrow> [] | Some x \<Rightarrow> accounted x) = [c..c' - 1]" by blast
    from Cons.IH [OF _ rest [unfolded xs(2)] c'(1) _ und(2)] Cons.prems(1,4) c'(2) obtain e where e: "c' \<le> e" "concat (map accounted ys) = [c'..e - 1]"
      "case cursor_of r' of Some c' \<Rightarrow> e = c' | None \<Rightarrow> \<exists>hl \<in> set hls. hl_complete hl \<and> hl_next_position hl \<le> e" by auto
    have "[c..c' - 1] @ [c'..e - 1] = [c..e - 1]" using upto_split2 [of c "c' - 1" "e - 1"] c'(2) e(1) by (cases "c = c'") simp_all
    then show ?thesis using c' e xs by (intro exI [of _ e]) (auto split: option.splits)
  qed
qed (auto simp: intro!: exI [of _ c])

section \<open>Generations\<close>

definition completed_count :: "LogBuffer \<Rightarrow> nat" where
  "completed_count b = length (filter (\<lambda>(h, g). hl_complete (lb_logs b ! g)) (lb_hosts b))"

definition buffer_shape :: "buffer_limits \<Rightarrow> LogBuffer \<Rightarrow> bool" where
  "buffer_shape l b \<longleftrightarrow>
     dict_ok (lb_hosts b) \<and> distinct (dict_values (lb_hosts b)) \<and> (\<forall>(h, g) \<in> set (lb_hosts b). g < length (lb_logs b)) \<and>
     (\<forall>g < length (lb_logs b). host_log_ok l (lb_logs b ! g)) \<and>
     (\<forall>g < length (lb_logs b). g \<notin> set (dict_values (lb_hosts b)) \<longrightarrow> hl_complete (lb_logs b ! g))"

definition buffer_ok :: "buffer_limits \<Rightarrow> LogBuffer \<Rightarrow> bool" where
  "buffer_ok l b \<longleftrightarrow> buffer_shape l b \<and> int (completed_count b) \<le> bl_max_completed_hosts l"

lemma buffer_shapeD:
  assumes "buffer_shape l b"
  shows "dict_ok (lb_hosts b)" "distinct (dict_values (lb_hosts b))" "(h, g) \<in> set (lb_hosts b) \<Longrightarrow> g < length (lb_logs b)"
    "g < length (lb_logs b) \<Longrightarrow> host_log_ok l (lb_logs b ! g)"
    "g < length (lb_logs b) \<Longrightarrow> g \<notin> snd ` set (lb_hosts b) \<Longrightarrow> hl_complete (lb_logs b ! g)"
  using assms by (auto simp: buffer_shape_def)

lemma store_call_simps:
  assumes "store_call h f b = (e, b')"
  shows "lb_hosts b' = lb_hosts b" "lb_logs b' = lb_logs b" "lb_attempts b' = lb_attempts b" "lb_completion_sequence b' = lb_completion_sequence b"
  using assms by (auto simp: store_call_def split: option.splits sum.splits)

lemma buffer_ok_cong:
  assumes "lb_hosts b' = lb_hosts b" "lb_logs b' = lb_logs b"
  shows "buffer_shape l b' = buffer_shape l b" "buffer_ok l b' = buffer_ok l b"
  using assms by (simp_all add: buffer_shape_def buffer_ok_def completed_count_def)

lemma close_log_simps [simp]:
  "lb_hosts (close_log g b) = lb_hosts b" "length (lb_logs (close_log g b)) = length (lb_logs b)" "lb_attempts (close_log g b) = lb_attempts b"
  "lb_store (close_log g b) = lb_store b"
  by (simp_all add: close_log_def)

lemma host_log_complete_ok: "host_log_ok l hl \<Longrightarrow> host_log_ok l (hl\<lparr>hl_complete := True, hl_completed_sequence := Some s\<rparr>)"
  by (auto simp: host_log_ok_def)

lemma close_log_nth:
  "k < length (lb_logs b) \<Longrightarrow> hl_complete (lb_logs (close_log g b) ! k) = (hl_complete (lb_logs b ! k) \<or> k = g)"
  "host_log_ok l (lb_logs b ! k) \<Longrightarrow> k < length (lb_logs b) \<Longrightarrow> host_log_ok l (lb_logs (close_log g b) ! k)"
proof -
  show "hl_complete (lb_logs (close_log g b) ! k) = (hl_complete (lb_logs b ! k) \<or> k = g)" if "k < length (lb_logs b)"
    using that by (cases "k = g") (auto simp: close_log_def)
  show "host_log_ok l (lb_logs (close_log g b) ! k)" if "host_log_ok l (lb_logs b ! k)" "k < length (lb_logs b)"
    using that by (cases "k = g") (simp_all add: close_log_def host_log_complete_ok)
qed

lemma close_log_complete [simp]: "hl_complete (lb_logs b ! g) \<Longrightarrow> close_log g b = b"
  by (simp add: close_log_def)

text \<open>Starting a generation replaces the host's entry; the caller has closed the one before.\<close>

lemma start_generation_ok:
  assumes ok: "buffer_ok l b" and lim: "limits_error l = None" and free: "dict_get (lb_hosts b) h = None"
    and start: "start_generation c h n b = (e, b')"
  shows "buffer_ok l b'"
proof -
  have shape: "buffer_shape l b" using ok by (simp add: buffer_ok_def)
  have h: "h \<notin> set (dict_keys (lb_hosts b))" using free by (simp add: dict_get_None_keys)
  have hosts: "lb_hosts b' = lb_hosts b @ [(h, length (lb_logs b))]" "lb_logs b' = lb_logs b @ [HostLog_new]"
    using start dict_set_new [OF h] by (auto simp: start_generation_def Let_def split: option.splits sum.splits)
  have below: "\<And>h' g. (h', g) \<in> set (lb_hosts b) \<Longrightarrow> g < length (lb_logs b)" using buffer_shapeD(3) [OF shape] by blast
  have "filter (\<lambda>(h, g). hl_complete (lb_logs b' ! g)) (lb_hosts b) = filter (\<lambda>(h, g). hl_complete (lb_logs b ! g)) (lb_hosts b)"
    using below by (auto simp: hosts nth_append intro!: filter_cong)
  then have "completed_count b' = completed_count b" by (simp add: completed_count_def hosts HostLog_new_def)
  moreover have "length (lb_logs b) \<notin> snd ` set (lb_hosts b)" using below by fastforce
  ultimately show ?thesis using ok h host_log_new_ok [OF lim]
    by (auto simp: buffer_ok_def buffer_shape_def hosts dict_ok_def nth_append less_Suc_eq)
qed

lemma length_filter_filter: "length (filter P (filter Q xs)) \<le> length (filter P xs)"
  by (induction xs) auto

lemma dict_pop_filter: "dict_pop h d = filter (\<lambda>x. fst x \<noteq> h) d"
  unfolding AList.delete_eq by (rule filter_cong) auto

text \<open>Dropping the mapping of a host closes the only generation that loses its host.\<close>

lemma buffer_shape_pop:
  assumes ok: "buffer_shape l b" and h: "dict_get (lb_hosts b) h = Some g"
  shows "buffer_shape l (close_log g (b\<lparr>lb_hosts := dict_pop h (lb_hosts b)\<rparr>))"
proof -
  have mem: "(h, g) \<in> set (lb_hosts b)" using h by (rule dict_get_mem)
  have kept: "g' \<in> snd ` set (filter (\<lambda>x. fst x \<noteq> h) (lb_hosts b))" if g': "g' \<in> snd ` set (lb_hosts b)" "g' \<noteq> g" for g'
  proof -
    obtain h' where mem': "(h', g') \<in> set (lb_hosts b)" using g'(1) by auto
    then have "h' \<noteq> h" using h g'(2) buffer_shapeD(1) [OF ok] by (auto simp: dict_mem_get)
    then show ?thesis using mem' by (intro image_eqI [of _ _ "(h', g')"]) simp_all
  qed
  show ?thesis unfolding buffer_shape_def
  proof (intro conjI allI impI)
    show "hl_complete (lb_logs (close_log g (b\<lparr>lb_hosts := dict_pop h (lb_hosts b)\<rparr>)) ! g')"
      if g': "g' < length (lb_logs (close_log g (b\<lparr>lb_hosts := dict_pop h (lb_hosts b)\<rparr>)))"
        "g' \<notin> set (dict_values (lb_hosts (close_log g (b\<lparr>lb_hosts := dict_pop h (lb_hosts b)\<rparr>))))" for g'
      using g' kept [of g'] buffer_shapeD(5) [OF ok, of g'] by (cases "g' \<in> snd ` set (lb_hosts b)") (auto simp: close_log_nth dict_pop_filter)
  qed (use buffer_shapeD [OF ok] in \<open>auto simp: dict_pop_filter dict_ok_def distinct_map_filter close_log_nth\<close>)
qed

lemma buffer_ok_pop:
  assumes ok: "buffer_ok l b" and h: "dict_get (lb_hosts b) h = Some g"
  shows "buffer_ok l (close_log g (b\<lparr>lb_hosts := dict_pop h (lb_hosts b)\<rparr>))"
proof -
  have shape: "buffer_shape l b" using ok by (simp add: buffer_ok_def)
  let ?b = "b\<lparr>lb_hosts := dict_pop h (lb_hosts b)\<rparr>"
  have mem: "(h, g) \<in> set (lb_hosts b)" using h by (rule dict_get_mem)
  have other: "g' \<noteq> g" if "(h', g') \<in> set (lb_hosts b)" "h' \<noteq> h" for h' g'
    using that mem buffer_shapeD(2) [OF shape] by (auto simp: distinct_map dest!: inj_onD [OF _ _ that(1) mem])
  have "filter (\<lambda>(h, g'). hl_complete (lb_logs (close_log g ?b) ! g')) (dict_pop h (lb_hosts b)) =
      filter (\<lambda>(h, g'). hl_complete (lb_logs b ! g')) (filter (\<lambda>x. fst x \<noteq> h) (lb_hosts b))"
    unfolding dict_pop_filter using other buffer_shapeD(3) [OF shape] by (intro filter_cong) (auto simp: close_log_nth)
  then have "completed_count (close_log g ?b) \<le> completed_count b"
    by (simp add: completed_count_def length_filter_filter del: filter_filter)
  then show ?thesis using ok buffer_shape_pop [OF shape h] by (simp add: buffer_ok_def)
qed

text \<open>\<open>_evict_completed\<close> drops the mappings of the completed hosts it chose, and of no other.\<close>

lemma evict_fold:
  assumes "\<forall>(s, h, g) \<in> set xs. (h, g) \<in> set (lb_hosts b) \<and> hl_complete (lb_logs b ! g)" "dict_ok (lb_hosts b)"
    and "distinct (map (\<lambda>x. fst (snd x)) xs)"
  shows "lb_logs (fold evict_host xs b) = lb_logs b \<and>
    lb_hosts (fold evict_host xs b) = filter (\<lambda>x. fst x \<notin> (\<lambda>x. fst (snd x)) ` set xs) (lb_hosts b)"
  using assms
proof (induction xs arbitrary: b)
  case (Cons x xs)
  obtain s h g where x: "x = (s, h, g)" by (cases x)
  have h: "dict_get (lb_hosts b) h = Some g" "hl_complete (lb_logs b ! g)" using Cons.prems(1,2) x by (auto simp: dict_mem_get)
  let ?b = "b\<lparr>lb_hosts := dict_pop h (lb_hosts b), lb_attempts := dict_pop h (lb_attempts b)\<rparr>"
  have step: "evict_host x b = ?b" using h x by (simp add: evict_host_def)
  note pop = dict_pop_filter [of h "lb_hosts b"]
  have "\<forall>(s', h', g') \<in> set xs. h' \<noteq> h" using Cons.prems(3) x by (auto simp: image_iff)
  then have "\<forall>(s, h, g) \<in> set xs. (h, g) \<in> set (lb_hosts ?b) \<and> hl_complete (lb_logs ?b ! g)"
    using Cons.prems(1) by (auto simp: pop)
  moreover have "dict_ok (lb_hosts ?b)" using Cons.prems(2) by (simp add: pop dict_ok_def distinct_map_filter)
  ultimately have "lb_logs (fold evict_host xs ?b) = lb_logs ?b \<and>
    lb_hosts (fold evict_host xs ?b) = filter (\<lambda>x. fst x \<notin> (\<lambda>x. fst (snd x)) ` set xs) (lb_hosts ?b)"
    using Cons.IH Cons.prems(3) by simp
  then show ?case by (simp add: step [unfolded x] pop x conj_commute)
qed simp

lemma completed_hosts_mset:
  assumes "\<forall>(h, g) \<in> set (lb_hosts b). host_log_ok l (lb_logs b ! g)"
  shows "mset (map snd (completed_hosts b)) = mset (filter (\<lambda>(h, g). hl_complete (lb_logs b ! g)) (lb_hosts b))"
proof -
  let ?f = "\<lambda>(h, g). case hl_completed_sequence (lb_logs b ! g) of None \<Rightarrow> None | Some s \<Rightarrow> Some (s, h, g)"
  have "map snd (List.map_filter ?f xs) = filter (\<lambda>(h, g). hl_complete (lb_logs b ! g)) xs" if "set xs \<subseteq> set (lb_hosts b)" for xs
    using that
  proof (induction xs)
    case (Cons x xs)
    obtain h g where x: "x = (h, g)" by (cases x)
    then have "host_log_ok l (lb_logs b ! g)" using assms Cons.prems by auto
    then show ?case using Cons x by (auto simp: host_log_ok_def map_filter_simps split: option.splits)
  qed (simp add: map_filter_simps)
  then have "mset (map snd (List.map_filter ?f (lb_hosts b))) = mset (filter (\<lambda>(h, g). hl_complete (lb_logs b ! g)) (lb_hosts b))"
    by simp
  then show ?thesis by (simp add: completed_hosts_def mset_map)
qed

lemma distinct_submset:
  assumes "mset xs \<subseteq># mset ys" "distinct ys"
  shows "distinct xs"
proof -
  obtain zs where "mset ys = mset (xs @ zs)" using assms(1) by (metis ex_mset mset_append mset_subset_eq_exists_conv)
  then show ?thesis using assms(2) mset_eq_imp_distinct_iff by fastforce
qed

lemma mset_py_slice_to: "mset (py_slice_to n xs) \<subseteq># mset xs"
  unfolding py_slice_to_def using append_take_drop_id [of _ xs] by (metis mset_append mset_subset_eq_add_left)

lemma evict_completed_ok:
  assumes shape: "buffer_shape l b" and max: "1 \<le> bl_max_completed_hosts l"
  shows "buffer_ok l (evict_completed l b)"
proof -
  let ?done = "\<lambda>(h, g). hl_complete (lb_logs b ! g)"
  define old where "old = py_slice_to (- bl_max_completed_hosts l) (completed_hosts b)"
  let ?out = "(\<lambda>x. fst (snd x)) ` set old"
  note D = buffer_shapeD [OF shape]
  have perm: "mset (map snd (completed_hosts b)) = mset (filter ?done (lb_hosts b))"
    using D(3,4) by (intro completed_hosts_mset [of _ l]) auto
  have sub: "mset (map snd old) \<subseteq># mset (filter ?done (lb_hosts b))"
    unfolding perm [symmetric] old_def mset_map by (rule image_mset_subseteq_mono [OF mset_py_slice_to])
  then have mem: "set (map snd old) \<subseteq> set (filter ?done (lb_hosts b))" using set_mset_mono by fastforce
  have keys: "distinct (map fst (filter ?done (lb_hosts b)))" using D(1) by (simp add: dict_ok_def distinct_map_filter)
  have "mset (map fst (map snd old)) \<subseteq># mset (map fst (filter ?done (lb_hosts b)))"
    unfolding mset_map [of fst] by (rule image_mset_subseteq_mono [OF sub])
  then have dist: "distinct (map (\<lambda>x. fst (snd x)) old)" using distinct_submset [OF _ keys] by (simp add: comp_def)
  have chosen: "\<forall>(s, h, g) \<in> set old. (h, g) \<in> set (lb_hosts b) \<and> hl_complete (lb_logs b ! g)" using mem by fastforce
  have fold: "lb_logs (evict_completed l b) = lb_logs b" "lb_hosts (evict_completed l b) = filter (\<lambda>x. fst x \<notin> ?out) (lb_hosts b)"
    using evict_fold [OF chosen D(1) dist] by (simp_all add: evict_completed_def old_def)
  have inout: "(h, g) \<in> set (map snd old)" if "(h, g) \<in> set (lb_hosts b)" "h \<in> ?out" for h g
    using that mem D(1) by (force simp: dict_mem_get)
  have "set (filter ?done (lb_hosts (evict_completed l b))) = set (filter ?done (lb_hosts b)) - set (map snd old)"
  proof -
    have "fst x \<in> ?out \<longleftrightarrow> x \<in> set (map snd old)" if "x \<in> set (lb_hosts b)" for x
      using inout [of "fst x" "snd x"] that by (auto simp: image_iff)
    then show ?thesis unfolding fold(2) by auto
  qed
  then have "card (set (filter ?done (lb_hosts (evict_completed l b)))) = card (set (filter ?done (lb_hosts b))) - card (set (map snd old))"
    using mem by (simp add: card_Diff_subset)
  moreover have "distinct (filter ?done (lb_hosts (evict_completed l b)))" "distinct (filter ?done (lb_hosts b))" "distinct (map snd old)"
    using D(1) distinct_mapI [of fst "map snd old"] dist by (auto simp: fold(2) dict_ok_def comp_def dest: distinct_mapI)
  ultimately have "completed_count (evict_completed l b) = completed_count b - length old"
    by (simp only: completed_count_def fold(1) distinct_card length_map)
  moreover have "length (completed_hosts b) = completed_count b" using mset_eq_length [OF perm] by (simp add: completed_count_def)
  then have "length old = completed_count b - nat (bl_max_completed_hosts l)" using max by (auto simp: old_def py_slice_to_def)
  ultimately have "int (completed_count (evict_completed l b)) \<le> bl_max_completed_hosts l" using max by linarith
  moreover have "hl_complete (lb_logs b ! g)" if g: "g < length (lb_logs b)" "g \<notin> snd ` set (filter (\<lambda>x. fst x \<notin> ?out) (lb_hosts b))" for g
  proof (cases "g \<in> snd ` set (lb_hosts b)")
    case True
    then obtain h where h: "(h, g) \<in> set (lb_hosts b)" by auto
    then have "h \<in> ?out" using g(2) by (force simp: image_iff)
    then show ?thesis using inout [OF h] mem by auto
  qed (use D(5) g(1) in blast)
  ultimately show ?thesis using D(1-4) by (auto simp: buffer_ok_def buffer_shape_def fold dict_ok_def distinct_map_filter)
qed

section \<open>Calls\<close>

text \<open>A call that raises nothing keeps the invariant; without a store none raises.\<close>

lemma buffer_create_ok:
  assumes ok: "buffer_ok l b" and lim: "limits_error l = None" and call: "buffer_create c h n b = (None, b')"
  shows "buffer_ok l b'"
proof (cases "dict_get (lb_hosts b) h")
  case None
  then show ?thesis using start_generation_ok [OF ok lim] call by (simp add: buffer_create_def)
next
  case (Some g)
  let ?b = "b\<lparr>lb_hosts := dict_pop h (lb_hosts b)\<rparr>"
  obtain b1 where b1: "lb_hosts b1 = lb_hosts ?b" "lb_logs b1 = lb_logs ?b" "lb_completion_sequence b1 = lb_completion_sequence ?b"
    "start_generation c h n (close_log g b1) = (None, b')"
  proof (cases "hl_complete (lb_logs b ! g)")
    case True
    then show ?thesis using that [of ?b] call Some by (simp add: buffer_create_def)
  next
    case False
    then obtain b1 where "store_call h (\<lambda>_ i. store_update i [(''status'', JStr ''interrupted''),
        (''failure_summary'', JStr ''Replaced by a later operation before completion'')]) ?b = (None, b1)"
      "start_generation c h n (close_log g b1) = (None, b')"
      using call Some by (auto simp: buffer_create_def split: prod.splits option.splits)
    then show ?thesis using that [of b1] store_call_simps by fastforce
  qed
  have "lb_hosts (close_log g b1) = lb_hosts (close_log g ?b)" "lb_logs (close_log g b1) = lb_logs (close_log g ?b)"
    using b1(1-3) by (simp_all add: close_log_def)
  then have "buffer_ok l (close_log g b1)" using buffer_ok_cong(2) buffer_ok_pop [OF ok Some] by blast
  moreover have "dict_get (lb_hosts (close_log g b1)) h = None" using b1(1) by (auto simp: dict_pop_filter dict_get_None_keys)
  ultimately show ?thesis using start_generation_ok lim b1(4) by blast
qed

lemma append_entry_simps [simp]: "hl_complete (append_entry l stamp level msg stream hl) = hl_complete hl"
  by (simp add: append_entry_def Let_def split: prod.splits)

lemma buffer_append_ok:
  assumes ok: "buffer_ok l b" and lim: "limits_error l = None" and call: "buffer_append l c h level msg stream persist b = (e, b')"
  shows "buffer_ok l b'"
proof (cases "dict_get (lb_hosts b) h")
  case None
  then show ?thesis using ok call by (simp add: buffer_append_def)
next
  case (Some g)
  let ?new = "\<lambda>b. b\<lparr>lb_logs := (lb_logs b)[g := append_entry l (lc_stamp c) level msg stream (lb_logs b ! g)]\<rparr>"
  obtain e1 b1 where stored: "(if persist
      then store_call h (\<lambda>settings i db. map_sum id snd (append_record settings (lc_repr c) i
        \<lparr>ap_msg = msg, ap_level = level, ap_source = ''gateway'', ap_stage = None, ap_ts = None, ap_remote_seq = None,
          ap_stream = stream, ap_journal_cursor = None\<rparr> (\<lambda>_. lc_stamp c) db)) b
      else (None, b)) = (e1, b1)" by fastforce
  then have b1: "lb_hosts b1 = lb_hosts b" "lb_logs b1 = lb_logs b" using store_call_simps by (auto split: if_splits)
  have new: "b' = b1 \<or> b' = ?new b1" using call Some stored by (auto simp: buffer_append_def split: option.splits)
  have ok1: "buffer_ok l b1" using ok buffer_ok_cong(2) [OF b1(1,2)] by simp
  then have shape: "buffer_shape l b1" by (simp add: buffer_ok_def)
  have g: "g < length (lb_logs b1)" using buffer_shapeD(3) [OF shape] dict_get_mem [OF Some] b1(1) by simp
  have complete: "hl_complete (lb_logs (?new b1) ! k) = hl_complete (lb_logs b1 ! k)" if "k < length (lb_logs b1)" for k
    using that by (cases "k = g") auto
  have "completed_count (?new b1) = completed_count b1"
    unfolding completed_count_def using complete buffer_shapeD(3) [OF shape] by (auto intro!: arg_cong [of _ _ length] filter_cong)
  moreover have "host_log_ok l (lb_logs (?new b1) ! k)" if "k < length (lb_logs b1)" for k
    using that buffer_shapeD(4) [OF shape that] append_entry_ok [OF lim] by (cases "k = g") auto
  ultimately have "buffer_ok l (?new b1)" using ok1 complete by (auto simp: buffer_ok_def buffer_shape_def)
  then show ?thesis using new ok1 by blast
qed

lemma mark_complete_ok:
  assumes ok: "buffer_ok l b" and lim: "limits_error l = None" and call: "mark_complete l c h b = (None, b')"
  shows "buffer_ok l b'"
proof (cases "dict_get (lb_hosts b) h")
  case None
  then show ?thesis using ok call by (simp add: mark_complete_def)
next
  case (Some g)
  define f where "f = (\<lambda>(_ :: AttemptLogStore) i db.
      ebind (get_attempt i db) (\<lambda>current.
      ebind (field current ''status'') (\<lambda>status.
      store_update i [(''finished_at'', json_or (obj_get current ''finished_at'' JNull) (JStr (lc_stamp c))),
        (''status'', if status = JStr ''running'' then JStr ''complete'' else status)] db)))"
  obtain e1 b1 where stored: "store_call h f (close_log g b) = (e1, b1)" by fastforce
  then have b1: "lb_hosts b1 = lb_hosts (close_log g b)" "lb_logs b1 = lb_logs (close_log g b)" using store_call_simps by auto
  have new: "b' = evict_completed l b1" using call Some stored by (auto simp: mark_complete_def f_def [symmetric] split: option.splits)
  have shape: "buffer_shape l b" using ok by (simp add: buffer_ok_def)
  have "buffer_shape l (close_log g b)" unfolding buffer_shape_def using buffer_shapeD [OF shape] by (auto simp: close_log_nth)
  then have "buffer_shape l b1" using buffer_ok_cong(1) b1(1,2) by blast
  moreover have "1 \<le> bl_max_completed_hosts l" using lim by (auto simp: limits_error_def split: if_splits)
  ultimately show ?thesis using evict_completed_ok new by blast
qed

datatype buffer_op =
  BCreate log_call host new_attempt
| BAppend log_call host string string "string option" bool
| BComplete log_call host

fun buffer_apply :: "buffer_limits \<Rightarrow> buffer_op \<Rightarrow> LogBuffer \<Rightarrow> log_error option \<times> LogBuffer" where
  "buffer_apply l (BCreate c h n) b = buffer_create c h n b"
| "buffer_apply l (BAppend c h level msg stream persist) b = buffer_append l c h level msg stream persist b"
| "buffer_apply l (BComplete c h) b = mark_complete l c h b"

text \<open>A run of calls that raise nothing.\<close>

fun buffer_run :: "buffer_limits \<Rightarrow> buffer_op list \<Rightarrow> LogBuffer \<Rightarrow> LogBuffer option" where
  "buffer_run l [] b = Some b"
| "buffer_run l (x # xs) b = (case buffer_apply l x b of (None, b') \<Rightarrow> buffer_run l xs b' | (Some e, b') \<Rightarrow> None)"

lemma buffer_new_ok: "limits_error l = None \<Longrightarrow> buffer_ok l (LogBuffer_new store)"
  by (auto simp: buffer_ok_def buffer_shape_def LogBuffer_new_def dict_ok_def completed_count_def limits_error_def split: if_splits)

lemma buffer_apply_ok:
  "buffer_ok l b \<Longrightarrow> limits_error l = None \<Longrightarrow> buffer_apply l x b = (None, b') \<Longrightarrow> buffer_ok l b'"
  by (cases x) (auto dest: buffer_create_ok buffer_append_ok mark_complete_ok)

lemma buffer_run_ok: "buffer_run l xs b = Some b' \<Longrightarrow> buffer_ok l b \<Longrightarrow> limits_error l = None \<Longrightarrow> buffer_ok l b'"
  by (induction xs arbitrary: b) (auto split: prod.splits option.splits dest: buffer_apply_ok)

text \<open>Generations are never removed, so a reader's one is there whenever it is resumed.\<close>

lemma start_generation_length: "start_generation c h n b = (e, b') \<Longrightarrow> length (lb_logs b) \<le> length (lb_logs b')"
  by (auto simp: start_generation_def Let_def split: option.splits sum.splits)

lemma buffer_create_length:
  assumes "buffer_create c h n b = (e, b')"
  shows "length (lb_logs b) \<le> length (lb_logs b')"
  using assms
  by (auto simp: buffer_create_def Let_def split: option.splits if_splits prod.splits dest!: store_call_simps(2) start_generation_length)

lemma buffer_append_length:
  assumes "buffer_append l c h level msg stream persist b = (e, b')"
  shows "length (lb_logs b) \<le> length (lb_logs b')"
  using assms by (auto simp: buffer_append_def split: option.splits if_splits prod.splits dest!: store_call_simps(2))

lemma fold_evict_length: "length (lb_logs (fold evict_host xs b)) = length (lb_logs b)"
  by (induction xs arbitrary: b) (auto simp: evict_host_def Let_def)

lemma mark_complete_length:
  assumes "mark_complete l c h b = (e, b')"
  shows "length (lb_logs b) \<le> length (lb_logs b')"
  using assms
  by (auto simp: mark_complete_def evict_completed_def fold_evict_length split: option.splits prod.splits dest!: store_call_simps(2))

lemma buffer_run_length: "buffer_run l xs b = Some b' \<Longrightarrow> length (lb_logs b) \<le> length (lb_logs b')"
proof (induction xs arbitrary: b)
  case (Cons x xs)
  obtain b1 where b1: "buffer_apply l x b = (None, b1)" "buffer_run l xs b1 = Some b'"
    using Cons.prems by (auto split: prod.splits option.splits)
  then have "length (lb_logs b) \<le> length (lb_logs b1)"
    by (cases x) (auto dest: buffer_create_length buffer_append_length mark_complete_length)
  then show ?case using Cons.IH [OF b1(2)] by linarith
qed simp

text \<open>The buffers a reader finds when it is resumed after each of a sequence of runs.\<close>

fun buffer_states :: "buffer_limits \<Rightarrow> buffer_op list list \<Rightarrow> LogBuffer \<Rightarrow> LogBuffer list option" where
  "buffer_states l [] b = Some []"
| "buffer_states l (xs # xss) b =
     (case buffer_run l xs b of None \<Rightarrow> None | Some b' \<Rightarrow> map_option (\<lambda>bs. b' # bs) (buffer_states l xss b'))"

lemma buffer_states_ok:
  assumes "buffer_states l xss b = Some bs" "buffer_ok l b" "limits_error l = None"
  shows "\<forall>b' \<in> set bs. buffer_ok l b' \<and> length (lb_logs b) \<le> length (lb_logs b')"
  using assms
proof (induction xss arbitrary: b bs)
  case (Cons xs xss)
  obtain b1 bs1 where b1: "buffer_run l xs b = Some b1" "buffer_states l xss b1 = Some bs1" "bs = b1 # bs1"
    using Cons.prems(1) by (auto split: option.splits)
  have "buffer_ok l b1" "length (lb_logs b) \<le> length (lb_logs b1)"
    using buffer_run_ok [OF b1(1)] buffer_run_length [OF b1(1)] Cons.prems by auto
  then show ?case using Cons.IH [OF b1(2)] Cons.prems(3) b1(3) by fastforce
qed simp

lemma resume_reader_entry:
  assumes "resume_reader hl r = (Some (Entry p e), r')"
  shows "\<exists>s \<in> set (hl_entries hl). se_position s = p \<and> se_entry s = e"
proof -
  have deliver: "\<exists>s \<in> set (hl_entries hl). se_position s = p \<and> se_entry s = e" if "deliver hl f c = (Some (Entry p e), r')" for f c
    using that by (auto simp: deliver_def Let_def after_entries_def split: if_splits)
  show ?thesis using assms deliver
    by (cases r) (auto simp: loop_top_def after_entries_def Let_def split: list.splits if_splits)
qed

lemma run_reader_entry:
  assumes "run_reader hls r = (xs, r')" "Entry p e \<in> set xs"
  shows "\<exists>hl \<in> set hls. \<exists>s \<in> set (hl_entries hl). se_position s = p \<and> se_entry s = e"
  using assms
proof (induction hls arbitrary: r xs)
  case (Cons hl hls)
  obtain x r1 where one: "resume_reader hl r = (x, r1)" by fastforce
  obtain ys r2 where rest: "run_reader hls r1 = (ys, r2)" by fastforce
  show ?case
  proof (cases "x = Some (Entry p e)")
    case True
    then show ?thesis using resume_reader_entry one by fastforce
  next
    case False
    then have "Entry p e \<in> set ys" "r2 = r'" using Cons.prems one rest by (auto split: option.splits)
    then show ?thesis using Cons.IH [of r1 ys] rest by auto
  qed
qed simp

section \<open>Properties of the buffer\<close>

text \<open>
  After any sequence of create, append and mark-complete calls that raise nothing, every generation of the log buffer, displaced
  ones included, keeps consecutive positions up to its newest entry, at most \<open>max_entries_per_host\<close> of them and at most
  \<open>max_bytes_per_host\<close> bytes of message text; at most \<open>max_completed_hosts\<close> completed hosts stay listed; and a generation that is no
  longer a host's current one is complete, so that its readers end.
\<close>

theorem log_buffer_bounded:
  assumes "limits_error l = None" "buffer_run l ops (LogBuffer_new store) = Some b"
  shows "(\<forall>hl \<in> set (lb_logs b).
      map se_position (hl_entries hl) = [hl_next_position hl - int (length (hl_entries hl))..hl_next_position hl - 1] \<and>
      int (length (hl_entries hl)) \<le> bl_max_entries_per_host l \<and>
      (\<Sum>x\<leftarrow>hl_entries hl. int (length (utf8_encode (en_msg (se_entry x))))) \<le> bl_max_bytes_per_host l) \<and>
    int (length (filter (\<lambda>(h, g). hl_complete (lb_logs b ! g)) (lb_hosts b))) \<le> bl_max_completed_hosts l \<and>
    (\<forall>g < length (lb_logs b). g \<notin> snd ` set (lb_hosts b) \<longrightarrow> hl_complete (lb_logs b ! g))"
proof -
  have ok: "buffer_ok l b" using buffer_run_ok [OF assms(2) buffer_new_ok assms(1)] assms(1) by simp
  then have shape: "buffer_shape l b" by (simp add: buffer_ok_def)
  have logs: "host_log_ok l hl" if "hl \<in> set (lb_logs b)" for hl using that buffer_shapeD(4) [OF shape] by (auto simp: in_set_conv_nth)
  have "(\<Sum>x\<leftarrow>hl_entries hl. int (length (utf8_encode (en_msg (se_entry x))))) \<le> bl_max_bytes_per_host l" if hl: "hl \<in> set (lb_logs b)" for hl
  proof -
    have "map (\<lambda>x. int (length (utf8_encode (en_msg (se_entry x))))) (hl_entries hl) = map se_message_bytes (hl_entries hl)"
      using logs [OF hl] by (auto simp: host_log_ok_def)
    then show ?thesis using logs [OF hl] unfolding host_log_ok_def by (metis (no_types, lifting))
  qed
  then show ?thesis using ok logs buffer_shapeD(5) [OF shape] by (auto simp: buffer_ok_def completed_count_def host_log_ok_def)
qed

definition sample_call :: log_call where
  "sample_call = \<lparr>lc_fresh = ''a1'', lc_stamp = ''t'', lc_now = 0, lc_now' = 0, lc_repr = (\<lambda>_. '''')\<rparr>"

definition sample_new :: new_attempt where
  "sample_new = \<lparr>na_engine = ''vllm'', na_model = None, na_bundle_version = ''1'', na_operation = ''install'', na_attempt_id = None, na_plan_id = None, na_setup_inputs = []\<rparr>"

definition sample_limits :: buffer_limits where
  "sample_limits = \<lparr>bl_max_entries_per_host = 2, bl_max_bytes_per_host = 64, bl_max_entry_bytes = 32, bl_max_completed_hosts = 1\<rparr>"

definition sample_append :: "string \<Rightarrow> buffer_op" where
  "sample_append msg = BAppend sample_call ''h'' ''info'' msg None True"

definition sample_ops :: "buffer_op list" where
  "sample_ops = [BCreate sample_call ''h'' sample_new, sample_append ''a'', sample_append ''b'', sample_append ''c'']"

lemma sample_limits_ok: "limits_error sample_limits = None"
  by (simp add: limits_error_def sample_limits_def TRUNCATION_MARKER_def)

definition sample_buffer :: LogBuffer where
  "sample_buffer = the (buffer_run sample_limits sample_ops (LogBuffer_new None))"

lemma sample_run: "buffer_run sample_limits sample_ops (LogBuffer_new None) = Some sample_buffer"
proof -
  have "buffer_run sample_limits sample_ops (LogBuffer_new None) \<noteq> None" by code_simp
  then show ?thesis by (auto simp: sample_buffer_def)
qed

theorem log_buffer_bounded_witness:
  "lb_logs sample_buffer \<noteq> [] \<and> list_all (\<lambda>hl. int (length (hl_entries hl)) \<le> 2) (lb_logs sample_buffer)"
proof
  show "lb_logs sample_buffer \<noteq> []" by code_simp
  show "list_all (\<lambda>hl. int (length (hl_entries hl)) \<le> 2) (lb_logs sample_buffer)"
    using log_buffer_bounded [OF sample_limits_ok sample_run] by (auto simp: sample_limits_def list_all_iff)
qed


definition sample_opss :: "buffer_op list list" where
  "sample_opss = [[], [], [], [sample_append ''d'', BComplete sample_call ''h''], [], []]"

definition sample_disturbed :: "buffer_op list list" where
  "sample_disturbed = [[], [sample_append ''d''], []]"

definition sample_states :: "buffer_op list list \<Rightarrow> LogBuffer list" where
  "sample_states opss = the (buffer_states sample_limits opss sample_buffer)"

definition sample_items :: "buffer_op list list \<Rightarrow> item list" where
  "sample_items opss = fst (run_reader (map (\<lambda>b. lb_logs b ! 0) (sample_states opss)) (AtTop 0))"

lemma sample_reader:
  "iter_from ''h'' 0 sample_buffer = Some (0, AtTop 0)" "buffer_states sample_limits sample_opss sample_buffer = Some (sample_states sample_opss)"
  "run_reader (map (\<lambda>b. lb_logs b ! 0) (sample_states sample_opss)) (AtTop 0) = (sample_items sample_opss, Finished)"
  "undisturbed (map (\<lambda>b. lb_logs b ! 0) (sample_states sample_opss)) (AtTop 0)"
proof -
  show "iter_from ''h'' 0 sample_buffer = Some (0, AtTop 0)" by code_simp
  have "buffer_states sample_limits sample_opss sample_buffer \<noteq> None" by code_simp
  then show "buffer_states sample_limits sample_opss sample_buffer = Some (sample_states sample_opss)" by (auto simp: sample_states_def)
  have "snd (run_reader (map (\<lambda>b. lb_logs b ! 0) (sample_states sample_opss)) (AtTop 0)) = Finished" by code_simp
  then show "run_reader (map (\<lambda>b. lb_logs b ! 0) (sample_states sample_opss)) (AtTop 0) = (sample_items sample_opss, Finished)"
    by (simp add: sample_items_def prod_eq_iff)
  show "undisturbed (map (\<lambda>b. lb_logs b ! 0) (sample_states sample_opss)) (AtTop 0)" by code_simp
qed


text \<open>
  A reader suspended at the warning of a gap resumes with the first position it read before: when an entry is evicted in the
  meantime, it is skipped without a warning. With room for two entries, a reader that starts at 0 after three of them is told of
  position 0, and then, after a fourth one, gets positions 2 and 3 and never hears of position 1.
\<close>

theorem reader_skips_at_gap:
  "iter_from ''h'' 0 sample_buffer = Some (0, AtTop 0) \<and>
   map_option (\<lambda>bs. map accounted (fst (run_reader (map (\<lambda>b. lb_logs b ! 0) bs) (AtTop 0))))
     (buffer_states sample_limits sample_disturbed sample_buffer) = Some [[0], [2], [3]]"
  by code_simp

lemma closed_reader_behind:
  assumes ok: "host_log_ok l hl" and closed: "hl_complete hl" and first: "hl_next_position hl - int (length (hl_entries hl)) \<le> c" "0 \<le> c"
    and n: "nat (hl_next_position hl - c) < n"
  shows "snd (run_reader (replicate n hl) (AtTop c)) = Finished"
  using first n
proof (induction n arbitrary: c)
  case (Suc n)
  obtain x r where one: "resume_reader hl (AtTop c) = (x, r)" by fastforce
  show ?case
  proof (cases "hl_next_position hl \<le> c")
    case True
    have "r = Finished"
    proof (cases "hl_entries hl")
      case Nil
      then show ?thesis using one closed by (simp add: loop_top_def after_entries_def)
    next
      case (Cons y ys)
      then have "\<not> c < se_position y" "\<not> c - se_position y < int (length (hl_entries hl))"
        using host_log_first [OF ok Cons] Suc.prems(1) True by auto
      then show ?thesis using one closed Cons by (simp add: loop_top_def deliver_def after_entries_def Let_def)
    qed
    then show ?thesis using one run_reader_finished by (simp split: prod.splits)
  next
    case False
    then obtain y ys where y: "hl_entries hl = y # ys" using Suc.prems(1) by (cases "hl_entries hl") auto
    have pos: "se_position y \<le> c" "c - se_position y < int (length (hl_entries hl))"
      using host_log_first [OF ok y] Suc.prems(1) False by auto
    then have "deliver hl (se_position y) c = (x, r)" using one y by (simp add: loop_top_def)
    moreover have "se_position (hl_entries hl ! nat (c - se_position y)) = c"
      using host_log_position [OF ok, of "nat (c - se_position y)"] pos host_log_first [OF ok y] by simp
    ultimately have "r = AtTop (c + 1)" using pos by (auto simp: deliver_def Let_def)
    moreover have "nat (hl_next_position hl - (c + 1)) < n" using Suc.prems(3) False by linarith
    ultimately show ?thesis using Suc.IH [of "c + 1"] Suc.prems(1,2) one by (simp add: case_prod_beta)
  qed
qed simp

lemma closed_reader_gap:
  assumes ok: "host_log_ok l hl" and y: "hl_entries hl = y # ys"
  shows "resume_reader hl (AfterGap (se_position y)) = resume_reader hl (AtTop (se_position y))"
  using y by (simp add: loop_top_def)

text \<open>
  A reader of a complete generation that no longer changes, wherever it starts, ends within one resumption for each retained
  entry, one for the warning of a gap and a last one.
\<close>

theorem reader_of_closed_log_ends:
  assumes "limits_error l = None" "buffer_run l ops (LogBuffer_new store) = Some b" "iter_from h pos b = Some (g, r)"
    "hl_complete (lb_logs b ! g)" "length (hl_entries (lb_logs b ! g)) + 2 \<le> n"
  shows "snd (run_reader (replicate n (lb_logs b ! g)) r) = Finished"
proof -
  let ?hl = "lb_logs b ! g"
  have "buffer_ok l b" using buffer_run_ok [OF assms(2) buffer_new_ok assms(1)] assms(1) by simp
  then have shape: "buffer_shape l b" by (simp add: buffer_ok_def)
  have g: "dict_get (lb_hosts b) h = Some g" "r = AtTop (max 0 pos)" using assms(3) by (auto simp: iter_from_def)
  have ok: "host_log_ok l ?hl" using buffer_shapeD(3,4) [OF shape] dict_get_mem [OF g(1)] by blast
  let ?first = "hl_next_position ?hl - int (length (hl_entries ?hl))"
  show ?thesis
  proof (cases "?first \<le> max 0 pos")
    case True
    then show ?thesis using closed_reader_behind [OF ok assms(4) True] assms(5) g(2) by simp
  next
    case False
    then obtain y ys where y: "hl_entries ?hl = y # ys" using ok by (cases "hl_entries ?hl") (auto simp: host_log_ok_def)
    have first: "se_position y = ?first" using host_log_first [OF ok y] .
    obtain k where n: "n = Suc (Suc k)" "length (hl_entries ?hl) \<le> k" using assms(5) by (metis add_2_eq_Suc' le_Suc_ex Suc_le_mono Suc_le_D)
    have "resume_reader ?hl r = (Some (Gap (?first - 1) (?first - max 0 pos)), AfterGap ?first)"
      unfolding g(2) first [symmetric] using False first y by (simp add: loop_top_def not_le del: max_less_iff_conj)
    then have "snd (run_reader (replicate n ?hl) r) = snd (run_reader (replicate (Suc k) ?hl) (AfterGap ?first))"
      by (simp add: n(1) case_prod_beta)
    also have "\<dots> = snd (run_reader (replicate (Suc k) ?hl) (AtTop ?first))"
      using closed_reader_gap [OF ok y] first by simp
    also have "\<dots> = Finished" using closed_reader_behind [OF ok assms(4), of ?first "Suc k"] n(2) False by simp
    finally show ?thesis .
  qed
qed

definition sample_closed :: LogBuffer where
  "sample_closed = the (buffer_run sample_limits (sample_ops @ [BComplete sample_call ''h'']) (LogBuffer_new None))"

theorem reader_of_closed_log_ends_witness:
  "length (hl_entries (lb_logs sample_closed ! 0)) = 2 \<and> snd (run_reader (replicate 4 (lb_logs sample_closed ! 0)) (AtTop 0)) = Finished"
proof
  have "buffer_run sample_limits (sample_ops @ [BComplete sample_call ''h'']) (LogBuffer_new None) \<noteq> None" by code_simp
  then have run: "buffer_run sample_limits (sample_ops @ [BComplete sample_call ''h'']) (LogBuffer_new None) = Some sample_closed"
    by (auto simp: sample_closed_def)
  show two: "length (hl_entries (lb_logs sample_closed ! 0)) = 2" by code_simp
  have "iter_from ''h'' 0 sample_closed = Some (0, AtTop 0)" by code_simp
  moreover have "hl_complete (lb_logs sample_closed ! 0)" by code_simp
  ultimately show "snd (run_reader (replicate 4 (lb_logs sample_closed ! 0)) (AtTop 0)) = Finished"
    using reader_of_closed_log_ends [OF sample_limits_ok run] two by simp
qed

end
