(* ===== verification/Scopes.thy ===== *)
theory Scopes
  imports Routing
begin

text \<open>
  \<^verbatim>\<open>auth/scopes.py\<close> with the records of \<^verbatim>\<open>auth/models.py\<close> it reads: the selection filters that a resolved
  API token gives the router, and the endpoints a user may pin a token to. The settings are their two
  trust lists. A frozenset of node ids is a list read through \<open>set\<close>.
\<close>

section \<open>Data\<close>

record user =
  u_id :: int
  u_google_sub :: string
  u_issuer :: string
  u_email :: string
  u_name :: string
  u_picture :: string
  u_is_admin :: bool
  u_created_at :: micros
  u_updated_at :: micros

record ApiToken =
  tok_id :: int
  tok_user_id :: int
  tok_name :: string
  tok_prefix :: string
  tok_created_at :: micros
  tok_last_used_at :: "micros option"
  tok_revoked :: bool
  tok_endpoint_scope :: "string list option"
  tok_model_scope :: "string list option"
  tok_purpose :: "string option"

record TokenAuth =
  ta_user :: user
  ta_token :: ApiToken

record PublicToken =
  pt_id :: int
  pt_name :: string
  pt_prefix :: string
  pt_created_at :: micros
  pt_last_used_at :: "micros option"
  pt_revoked :: bool
  pt_endpoint_scope :: "string list option"
  pt_model_scope :: "string list option"

definition from_token :: "ApiToken \<Rightarrow> PublicToken" where
  "from_token t =
     \<lparr>pt_id = tok_id t, pt_name = tok_name t, pt_prefix = tok_prefix t, pt_created_at = tok_created_at t,
      pt_last_used_at = tok_last_used_at t, pt_revoked = tok_revoked t,
      pt_endpoint_scope = tok_endpoint_scope t, pt_model_scope = tok_model_scope t\<rparr>"

definition GOOGLE_ISSUER :: string where
  "GOOGLE_ISSUER = ''https://accounts.google.com''"

record auth_settings =
  as_full_access :: "string list"
  as_full_access_by_issuer :: "(string, string list) dict"

text \<open>
  \<open>CreateTokenRequest\<close>: the name check and the endpoint list check; \<open>hostname_re\<close> is
  \<open>_HOSTNAME_RE.fullmatch\<close>, compiled in \<^verbatim>\<open>models/admin.py\<close>.
\<close>

definition name_has_no_surrounding_whitespace :: "string \<Rightarrow> string + string" where
  "name_has_no_surrounding_whitespace value =
     (if value \<noteq> str_strip value then Inl ''token name must not have surrounding whitespace'' else Inr value)"

fun clean_endpoints :: "(string \<Rightarrow> bool) \<Rightarrow> string list \<Rightarrow> string list \<Rightarrow> string + string list" where
  "clean_endpoints hostname_re cleaned [] = Inr cleaned"
| "clean_endpoints hostname_re cleaned (item # items) =
     (let normalized = str_strip item
      in if \<not> hostname_re normalized then Inl ''endpoint scope entries must be hostnames''
         else clean_endpoints hostname_re
                (if normalized \<in> set cleaned then cleaned else cleaned @ [normalized]) items)"

definition endpoints_are_hostnames ::
  "(string \<Rightarrow> bool) \<Rightarrow> string list option \<Rightarrow> string + string list option" where
  "endpoints_are_hostnames hostname_re value =
     (case value of
        None \<Rightarrow> Inr None
      | Some [] \<Rightarrow> Inl ''endpoint scope must not be empty''
      | Some items \<Rightarrow> map_sum id Some (clean_endpoints hostname_re [] items))"

section \<open>Scope computation\<close>

definition is_full_access :: "string \<Rightarrow> string \<Rightarrow> auth_settings \<Rightarrow> bool" where
  "is_full_access email issuer settings =
     (let normalized = str_lower email
      in if issuer = GOOGLE_ISSUER \<and> list_ex (\<lambda>item. str_lower item = normalized) (as_full_access settings)
         then True
         else (case dict_get (as_full_access_by_issuer settings) issuer of
                 None \<Rightarrow> False
               | Some per_issuer \<Rightarrow>
                   if per_issuer = [] then False else list_ex (\<lambda>item. str_lower item = normalized) per_issuer))"

definition has_admin_access :: "string \<Rightarrow> string \<Rightarrow> auth_settings \<Rightarrow> bool \<Rightarrow> bool" where
  "has_admin_access email issuer settings is_admin = (is_full_access email issuer settings \<or> is_admin)"

definition allowed_node_ids :: "TokenAuth option \<Rightarrow> auth_settings \<Rightarrow> string list option" where
  "allowed_node_ids auth settings =
     (case auth of None \<Rightarrow> None | Some a \<Rightarrow> tok_endpoint_scope (ta_token a))"

definition scope_owner :: "TokenAuth option \<Rightarrow> auth_settings \<Rightarrow> string option" where
  "scope_owner auth settings =
     (case auth of
        None \<Rightarrow> Some []
      | Some a \<Rightarrow>
          if has_admin_access (u_email (ta_user a)) (u_issuer (ta_user a)) settings (u_is_admin (ta_user a))
          then None else Some (str_lower (u_email (ta_user a))))"

definition auth_scope :: "TokenAuth option \<Rightarrow> auth_settings \<Rightarrow> string list option \<times> string option" where
  "auth_scope auth settings =
     (case auth of
        None \<Rightarrow> (None, Some [])
      | Some a \<Rightarrow>
          (let allowed = tok_endpoint_scope (ta_token a)
           in if has_admin_access (u_email (ta_user a)) (u_issuer (ta_user a)) settings (u_is_admin (ta_user a))
              then (allowed, None) else (allowed, Some (str_lower (u_email (ta_user a))))))"

fun pick_nodes :: "bool \<Rightarrow> string \<Rightarrow> node list \<Rightarrow> string list" where
  "pick_nodes admin email [] = []"
| "pick_nodes admin email (n # ns) =
     (if \<not> admin \<and> node_admin_only n then pick_nodes admin email ns
      else if admin \<or> node_owner n = [] \<or> str_lower (node_owner n) = email
      then node_id n # pick_nodes admin email ns else pick_nodes admin email ns)"

definition pickable_endpoints :: "string \<Rightarrow> string \<Rightarrow> auth_settings \<Rightarrow> node list \<Rightarrow> bool \<Rightarrow> string list" where
  "pickable_endpoints user_email issuer settings nodes is_admin =
     sort (pick_nodes (has_admin_access user_email issuer settings is_admin) (str_lower user_email) nodes)"

section \<open>Properties\<close>

lemma auth_scope_split: "auth_scope auth settings = (allowed_node_ids auth settings, scope_owner auth settings)"
  by (simp add: auth_scope_def allowed_node_ids_def scope_owner_def Let_def split: option.split)

text \<open>
  C7. A request never reaches a node outside its caller's scope. Whatever nodes the retries exclude and
  whichever node is drawn, the node selected with the filters of \<open>auth_scope\<close> is inside the token's
  endpoint pin if it has one (administrators included); an anonymous caller gets unowned nodes only; a
  caller without admin access never gets an admin-only node or a node of another owner.
\<close>

theorem token_scope_enforced:
  assumes "auth_scope auth settings = (allowed, owner)"
    and "select_and_reserve model exclude allowed owner rnd g = Inr (Some (n, g'))"
  shows "(case auth of
      None \<Rightarrow> \<not> node_admin_only n \<and> node_owner n = []
    | Some a \<Rightarrow>
        (\<forall>pin. tok_endpoint_scope (ta_token a) = Some pin \<longrightarrow> node_id n \<in> set pin) \<and>
        (has_admin_access (u_email (ta_user a)) (u_issuer (ta_user a)) settings (u_is_admin (ta_user a)) \<or>
         \<not> node_admin_only n \<and> (node_owner n = [] \<or> str_lower (node_owner n) = str_lower (u_email (ta_user a)))))"
proof -
  have sel: "select_locked model exclude allowed owner rnd g = Inr (Some n)"
    using assms(2) by (auto simp: select_and_reserve_def split: sum.splits option.splits)
  show ?thesis
    using select_respects_scope [OF sel] assms(1)
    by (auto simp: auth_scope_def Let_def split: option.splits if_splits)
qed

text \<open>
  The endpoint picker and the router agree: a node id is offered to a user exactly when some node
  with that id would be in scope of that user's unpinned token, and the list is sorted.
\<close>

theorem pickable_iff_routable:
  "sorted (pickable_endpoints email issuer settings nodes adm) \<and>
   set (pickable_endpoints email issuer settings nodes adm) =
     node_id ` {n \<in> set nodes. in_scope n None
       (if has_admin_access email issuer settings adm then None else Some (str_lower email))}"
proof -
  have "set (pick_nodes a e nodes) = node_id ` {n \<in> set nodes. in_scope n None (if a then None else Some e)}"
    if "str_lower e = e" for a e
    using that by (induction nodes) (auto simp: in_scope_iff)
  then show ?thesis by (simp add: pickable_endpoints_def)
qed

definition ann_auth :: TokenAuth where
  "ann_auth = \<lparr>ta_user = \<lparr>u_id = 1, u_google_sub = ''s'', u_issuer = GOOGLE_ISSUER, u_email = ''Ann@x'', u_name = ''Ann'',
        u_picture = [], u_is_admin = False, u_created_at = 0, u_updated_at = 0\<rparr>,
     ta_token = \<lparr>tok_id = 1, tok_user_id = 1, tok_name = ''t'', tok_prefix = ''qiip_a'', tok_created_at = 0,
        tok_last_used_at = None, tok_revoked = False, tok_endpoint_scope = Some [''b''], tok_model_scope = None,
        tok_purpose = None\<rparr>\<rparr>"

theorem token_scope_enforced_witness:
  "let b = (blank_node ''b'' ''h:2'')\<lparr>node_status := HEALTHY, node_owner := ''ann@x''\<rparr>;
       g = \<lparr>gw_registry = registry_add b empty_registry, gw_tracker = [],
            gw_breakers = \<lparr>cbr_threshold = 3, cbr_breakers = []\<rparr>, gw_failures = [],
            gw_metrics = \<lparr>rm_total = 0, rm_per_node = [], rm_per_model = []\<rparr>\<rparr>
   in (\<exists>g'. select_and_reserve None None (Some [''b'']) (Some ''ann@x'') 0 g = Inr (Some (b, g'))) \<and>
      node_id b \<in> set [''b''] \<and> str_lower (node_owner b) = str_lower ''Ann@x''"
proof -
  let ?b = "(blank_node ''b'' ''h:2'')\<lparr>node_status := HEALTHY, node_owner := ''ann@x''\<rparr>"
  let ?g = "\<lparr>gw_registry = registry_add ?b empty_registry, gw_tracker = [],
            gw_breakers = \<lparr>cbr_threshold = 3, cbr_breakers = []\<rparr>, gw_failures = [],
            gw_metrics = \<lparr>rm_total = 0, rm_per_node = [], rm_per_model = []\<rparr>\<rparr>"
  let ?s = "\<lparr>as_full_access = [], as_full_access_by_issuer = []\<rparr>"
  have low: "str_lower ''Ann@x'' = ''ann@x''" "str_lower ''ann@x'' = ''ann@x''" by code_simp+
  have scope: "auth_scope (Some ann_auth) ?s = (Some [''b''], Some ''ann@x'')"
    by (simp add: auth_scope_def ann_auth_def has_admin_access_def is_full_access_def low)
  obtain g' where sel: "select_and_reserve None None (Some [''b'']) (Some ''ann@x'') 0 ?g = Inr (Some (?b, g'))"
    by (simp add: select_and_reserve_def select_locked_def registry_get_all_def registry_add_def empty_registry_def
        blank_node_def in_scope_def least_connections_def low)
  have own: "node_owner ?b \<noteq> []" by (simp add: blank_node_def)
  show ?thesis
    unfolding Let_def using token_scope_enforced [OF scope sel] sel own
    by (auto simp: ann_auth_def has_admin_access_def is_full_access_def)
qed

end
