(* ===== verification/PyTime.thy ===== *)
theory PyTime
  imports QiipPrelude
begin

text \<open>
  \<open>datetime\<close> as the program uses it: an aware time in UTC is the number of microseconds since 0001-01-01T00:00:00, and
  \<open>isoformat\<close> writes its proleptic Gregorian date and time of day. The stores keep these texts in SQLite columns and let SQL
  compare them: the last section shows that text order is time order, so that the models keep the times themselves.
\<close>

section \<open>Calendar\<close>

definition is_leap :: "nat \<Rightarrow> bool" where
  "is_leap y \<longleftrightarrow> y mod 4 = 0 \<and> (y mod 100 \<noteq> 0 \<or> y mod 400 = 0)"

definition days_in_month :: "nat \<Rightarrow> nat \<Rightarrow> nat" where
  "days_in_month y m = (if m = 2 then (if is_leap y then 29 else 28) else if m \<in> {4, 6, 9, 11} then 30 else 31)"

definition next_day :: "nat \<times> nat \<times> nat \<Rightarrow> nat \<times> nat \<times> nat" where
  "next_day x =
     (case x of (y, m, d) \<Rightarrow>
        if d < days_in_month y m then (y, m, d + 1) else if m < 12 then (y, m + 1, 1) else (y + 1, 1, 1))"

definition date_of :: "nat \<Rightarrow> nat \<times> nat \<times> nat" where
  "date_of n = (next_day ^^ n) (1, 1, 1)"

section \<open>isoformat\<close>

definition digit :: "nat \<Rightarrow> char" where
  "digit n = char_of (48 + n)"

fun pad :: "nat \<Rightarrow> nat \<Rightarrow> string" where
  "pad 0 n = []"
| "pad (Suc k) n = pad k (n div 10) @ [digit (n mod 10)]"

definition DAY :: int where
  "DAY = 86400000000"

definition iso_date :: "nat \<times> nat \<times> nat \<Rightarrow> string" where
  "iso_date x = (case x of (y, m, d) \<Rightarrow> pad 4 y @ ''-'' @ pad 2 m @ ''-'' @ pad 2 d)"

definition iso_time :: "nat \<Rightarrow> string" where
  "iso_time us =
     pad 2 (us div 3600000000) @ '':'' @ pad 2 (us div 60000000 mod 60) @ '':'' @ pad 2 (us div 1000000 mod 60) @
     (if us mod 1000000 = 0 then [] else ''.'' @ pad 6 (us mod 1000000)) @ ''+00:00''"

definition isoformat :: "micros \<Rightarrow> string" where
  "isoformat t = iso_date (date_of (nat (t div DAY))) @ ''T'' @ iso_time (nat (t mod DAY))"

text \<open>The times a \<open>datetime\<close> can hold end with the year 9999.\<close>

definition valid_time :: "micros \<Rightarrow> bool" where
  "valid_time t \<longleftrightarrow> 0 \<le> t \<and> fst (date_of (nat (t div DAY))) \<le> 9999"

section \<open>Text order is time order\<close>

lemma length_pad [simp]: "length (pad k n) = k"
  by (induction k arbitrary: n) auto

lemma append_less_same: "length xs = length ys \<Longrightarrow> xs < ys \<Longrightarrow> xs @ u < ys @ v" for xs ys :: string
proof (induction xs ys rule: list_induct2)
  case (Cons x xs y ys)
  then show ?case by (cases "x = y") auto
qed simp

lemma append_less_prefix [simp]: "xs @ u < xs @ v \<longleftrightarrow> u < v" for xs :: string
  by (induction xs) auto

lemma digit_less: "a < b \<Longrightarrow> b < 10 \<Longrightarrow> digit a < digit b"
  by (simp add: digit_def less_char_def of_char_of)

lemma pad_less: "a < b \<Longrightarrow> b < 10 ^ k \<Longrightarrow> pad k a < pad k b"
proof (induction k arbitrary: a b)
  case (Suc k)
  show ?case
  proof (cases "a div 10 = b div 10")
    case True
    then have "a mod 10 < b mod 10" using Suc.prems(1) by (metis div_mod_decomp add_less_cancel_left)
    then show ?thesis using True by (simp add: digit_less)
  next
    case False
    then have "a div 10 < b div 10" using Suc.prems(1) by (meson div_le_mono le_neq_implies_less less_imp_le)
    moreover have "b div 10 < 10 ^ k" using Suc.prems(2) by (simp add: less_mult_imp_div_less mult.commute)
    ultimately show ?thesis using Suc.IH append_less_same by simp
  qed
qed simp

lemma pad_less_append: "a < b \<Longrightarrow> b < 10 ^ k \<Longrightarrow> pad k a @ u < pad k b @ v"
  by (intro append_less_same pad_less) simp_all

definition date_less :: "nat \<times> nat \<times> nat \<Rightarrow> nat \<times> nat \<times> nat \<Rightarrow> bool" where
  "date_less x y \<longleftrightarrow> fst x < fst y \<or> fst x = fst y \<and> (fst (snd x) < fst (snd y) \<or> fst (snd x) = fst (snd y) \<and> snd (snd x) < snd (snd y))"

lemma next_day_less: "date_less x (next_day x)"
  by (auto simp: date_less_def next_day_def split: prod.splits)

lemma date_less_trans: "date_less x y \<Longrightarrow> date_less y z \<Longrightarrow> date_less x z"
  by (auto simp: date_less_def)

lemma date_of_less: "a < b \<Longrightarrow> date_less (date_of a) (date_of b)"
proof (induction b)
  case (Suc b)
  then show ?case using next_day_less [of "date_of b"] date_less_trans by (cases "a = b") (auto simp: date_of_def)
qed simp

definition date_ok :: "nat \<times> nat \<times> nat \<Rightarrow> bool" where
  "date_ok x \<longleftrightarrow> 1 \<le> fst (snd x) \<and> fst (snd x) \<le> 12 \<and> 1 \<le> snd (snd x) \<and> snd (snd x) \<le> days_in_month (fst x) (fst (snd x))"

lemma days_in_month_bounds: "28 \<le> days_in_month y m" "days_in_month y m \<le> 31"
  by (auto simp: days_in_month_def)

lemma date_of_ok: "date_ok (date_of n)"
proof (induction n)
  case 0
  show ?case by (simp add: date_of_def date_ok_def days_in_month_def)
next
  case (Suc n)
  obtain y m d where x: "date_of n = (y, m, d)" by (cases "date_of n")
  have "28 \<le> days_in_month y' m'" for y' m' by (rule days_in_month_bounds)
  then have "1 \<le> days_in_month y' m'" for y' m' by (meson le_trans one_le_numeral)
  then show ?case using Suc x by (auto simp: date_of_def date_ok_def next_day_def)
qed

lemma iso_date_less:
  assumes "date_less x y" "date_ok x" "date_ok y" "fst y \<le> 9999"
  shows "iso_date x @ u < iso_date y @ v"
proof -
  obtain a b c where x: "x = (a, b, c)" by (cases x)
  obtain a' b' c' where y: "y = (a', b', c')" by (cases y)
  have bounds: "a' < 10 ^ 4" "b' < 10 ^ 2" "c' < 10 ^ 2"
    using assms(3,4) y days_in_month_bounds(2) [of a' b'] by (auto simp: date_ok_def)
  consider "a < a'" | "a = a'" "b < b'" | "a = a'" "b = b'" "c < c'" using assms(1) x y by (auto simp: date_less_def)
  then show ?thesis using pad_less_append bounds by cases (simp_all add: iso_date_def x y)
qed

lemma div_mod_less: "x < y \<Longrightarrow> x div k < y div k \<or> x div k = y div k \<and> x mod k < y mod k" for x y k :: nat
  by (metis add_less_cancel_left div_le_mono div_mod_decomp le_neq_implies_less less_imp_le)

lemma iso_time_less:
  assumes "a < b" "int b < DAY"
  shows "iso_time a < iso_time b"
proof -
  have b: "b div 3600000000 < 10 ^ 2" using assms(2) by (simp add: DAY_def div_less_iff_less_mult)
  have small: "n mod 60 < 10 ^ 2" "n mod 1000000 < 10 ^ 6" for n :: nat
    using mod_less_divisor [of 60 n] mod_less_divisor [of 1000000 n] by simp_all
  have chain: "n div 3600000000 = n div 60000000 div 60" "n div 60000000 = n div 1000000 div 60" for n :: nat
    using div_mult2_eq [of n 60000000 60] div_mult2_eq [of n 1000000 60] by simp_all
  consider "a div 3600000000 < b div 3600000000"
    | "a div 3600000000 = b div 3600000000" "a div 60000000 mod 60 < b div 60000000 mod 60"
    | "a div 3600000000 = b div 3600000000" "a div 60000000 mod 60 = b div 60000000 mod 60" "a div 1000000 mod 60 < b div 1000000 mod 60"
    | "a div 3600000000 = b div 3600000000" "a div 60000000 mod 60 = b div 60000000 mod 60" "a div 1000000 mod 60 = b div 1000000 mod 60"
      "a mod 1000000 < b mod 1000000"
    using div_mod_less [OF assms(1), of 1000000] div_mod_less [of "a div 1000000" "b div 1000000" 60]
      div_mod_less [of "a div 60000000" "b div 60000000" 60] unfolding chain by metis
  then show ?thesis
  proof cases
    case 4
    have dot: "''+00:00'' < ''.'' @ pad 6 (b mod 1000000) @ ''+00:00''" by (simp add: less_char_def)
    show ?thesis
      using 4 small(2) [of b] pad_less_append [of "a mod 1000000" "b mod 1000000" 6] dot by (auto simp: iso_time_def)
  qed (use b small pad_less_append in \<open>simp_all add: iso_time_def\<close>)
qed

theorem isoformat_less:
  assumes "0 \<le> a" "a < b" "valid_time b"
  shows "isoformat a < isoformat b"
proof (cases "a div DAY = b div DAY")
  case True
  then have "a mod DAY < b mod DAY" using assms(2) by (metis div_mod_decomp_int add_less_cancel_left)
  moreover have "0 \<le> a mod DAY" "0 \<le> b mod DAY" "b mod DAY < DAY" by (simp_all add: DAY_def)
  ultimately have "iso_time (nat (a mod DAY)) < iso_time (nat (b mod DAY))" by (intro iso_time_less) linarith+
  then show ?thesis using True by (simp add: isoformat_def)
next
  case False
  then have "a div DAY < b div DAY" using assms(2) by (simp add: DAY_def zdiv_mono1 order.strict_iff_order)
  moreover have "0 \<le> a div DAY" using assms(1) by (simp add: DAY_def pos_imp_zdiv_nonneg_iff)
  ultimately have "date_less (date_of (nat (a div DAY))) (date_of (nat (b div DAY)))" by (intro date_of_less) linarith
  then show ?thesis using iso_date_less [OF _ date_of_ok date_of_ok] assms(3) by (simp add: isoformat_def valid_time_def)
qed

lemma isoformat_less_iff:
  assumes "valid_time a" "valid_time b"
  shows "isoformat a < isoformat b \<longleftrightarrow> a < b"
proof -
  have "0 \<le> a" "0 \<le> b" using assms by (simp_all add: valid_time_def)
  then show ?thesis using isoformat_less assms by (metis less_asym less_irrefl linorder_neqE)
qed

lemma isoformat_inject: "valid_time a \<Longrightarrow> valid_time b \<Longrightarrow> isoformat a = isoformat b \<longleftrightarrow> a = b"
  by (metis isoformat_less_iff less_irrefl linorder_neqE)

end
