(* ===== verification/AuthStore.thy ===== *)
theory AuthStore
  imports Scopes EtcdClient PyTime "HOL-Library.Product_Lexorder" "HOL-Library.Option_ord"
begin

text \<open>
  \<^verbatim>\<open>auth/store.py\<close>: users, API tokens, setup links and usage in SQLite, at the current schema. A table is the list of its rows in the
  order of insertion, which is the order of the ids that \<open>AUTOINCREMENT\<close> hands out; the unique indexes are the checks of the
  functions that insert and update. Foreign keys are declared but SQLite does not enforce them by default. A timestamp column holds
  the text of \<open>isoformat\<close>, and \<open>isoformat_less_iff\<close> lets the model keep the time itself. Each method holds the lock of the store
  for its whole body; other processes on the same file appear where the code allows for them, in \<open>get_or_create_config_token\<close>.
  \<open>hashlib\<close>, \<open>hmac\<close> with base 64, and the random generator are arguments.
\<close>

section \<open>Rows\<close>

record token_row =
  tr_id :: int
  tr_user_id :: int
  tr_name :: string
  tr_token_hash :: string
  tr_prefix :: string
  tr_created_at :: micros
  tr_last_used_at :: "micros option"
  tr_revoked :: bool
  tr_endpoint_scope :: "string option"
  tr_purpose :: "string option"
  tr_model_scope :: "string option"
  tr_derive_nonce :: "string option"

record link_row =
  ln_link_hash :: string
  ln_user_id :: int
  ln_token_id :: int
  ln_harness :: string
  ln_models :: string
  ln_expires_at :: micros

record usage_row =
  ug_user_id :: int
  ug_token_id :: "int option"
  ug_model :: string
  ug_endpoint :: string
  ug_request_count :: int
  ug_prompt_tokens :: int
  ug_completion_tokens :: int
  ug_total_tokens :: int
  ug_created_at :: micros

text \<open>The row of a user is the \<open>User\<close> it is read as.\<close>

record auth_db =
  ad_users :: "user list"
  ad_tokens :: "token_row list"
  ad_links :: "link_row list"
  ad_usage :: "usage_row list"
  ad_user_seq :: int
  ad_token_seq :: int

definition empty_auth_db :: auth_db where
  "empty_auth_db = \<lparr>ad_users = [], ad_tokens = [], ad_links = [], ad_usage = [], ad_user_seq = 0, ad_token_seq = 0\<rparr>"

datatype auth_error = AccountConflictError string | KeyError int | IntegrityError | JSONDecodeError | ValidationError | RowVanished

record CreatedToken =
  ct_api :: ApiToken
  ct_token :: string

record SetupLink =
  sl_user_id :: int
  sl_token_id :: int
  sl_harness :: string
  sl_models :: "string list"
  sl_expires_at :: micros

record crypto =
  cr_hash :: "string \<Rightarrow> string"
  cr_hmac64 :: "string \<Rightarrow> string \<Rightarrow> string"

definition TOKEN_PREFIX :: string where
  "TOKEN_PREFIX = ''qiip_''"

definition CONFIG_TOKEN :: string where
  "CONFIG_TOKEN = ''agent-config''"

definition PERSONAL_TOKEN :: string where
  "PERSONAL_TOKEN = ''personal''"

section \<open>Tokens derived from the session secret\<close>

definition derive_config_token :: "crypto \<Rightarrow> string \<Rightarrow> int \<Rightarrow> int \<Rightarrow> string" where
  "derive_config_token cr secret user_id generation =
     TOKEN_PREFIX @ cr_hmac64 cr secret (''qiip-agent-config-token-v1:'' @ str_int user_id @ '':'' @ str_int generation)"

definition derive_personal_token :: "crypto \<Rightarrow> string \<Rightarrow> int \<Rightarrow> string \<Rightarrow> string" where
  "derive_personal_token cr secret user_id nonce =
     TOKEN_PREFIX @ cr_hmac64 cr secret (''qiip-personal-token-v1:'' @ str_int user_id @ '':'' @ nonce)"

definition generate_token :: "string \<Rightarrow> string" where
  "generate_token random = TOKEN_PREFIX @ random"

section \<open>Scope columns\<close>

definition dump_scopes :: "json_codec \<Rightarrow> string list option \<Rightarrow> string option" where
  "dump_scopes jc scopes = map_option (\<lambda>xs. jc_dumps jc (JList (map JStr xs))) scopes"

fun all_strings :: "json list \<Rightarrow> string list option" where
  "all_strings [] = Some []"
| "all_strings (JStr s # xs) = map_option (\<lambda>ys. s # ys) (all_strings xs)"
| "all_strings (x # xs) = None"

definition load_scopes :: "json_codec \<Rightarrow> string option \<Rightarrow> string list option" where
  "load_scopes jc raw =
     (case raw of
        None \<Rightarrow> None
      | Some text \<Rightarrow>
          Some (case jc_loads jc text of
                  Some (JList xs) \<Rightarrow> (case all_strings xs of None \<Rightarrow> [] | Some ys \<Rightarrow> ys)
                | _ \<Rightarrow> []))"

definition token_from_row :: "json_codec \<Rightarrow> token_row \<Rightarrow> ApiToken" where
  "token_from_row jc r =
     \<lparr>tok_id = tr_id r, tok_user_id = tr_user_id r, tok_name = tr_name r, tok_prefix = tr_prefix r, tok_created_at = tr_created_at r,
      tok_last_used_at = tr_last_used_at r, tok_revoked = tr_revoked r, tok_endpoint_scope = load_scopes jc (tr_endpoint_scope r),
      tok_model_scope = load_scopes jc (tr_model_scope r), tok_purpose = tr_purpose r\<rparr>"

section \<open>Constraints\<close>

definition find_user :: "int \<Rightarrow> auth_db \<Rightarrow> user option" where
  "find_user i db = find (\<lambda>u. u_id u = i) (ad_users db)"

definition find_token :: "int \<Rightarrow> auth_db \<Rightarrow> token_row option" where
  "find_token i db = find (\<lambda>r. tr_id r = i) (ad_tokens db)"

text \<open>\<open>UNIQUE(email)\<close> and \<open>idx_users_issuer_sub\<close>.\<close>

definition users_unique :: "user list \<Rightarrow> bool" where
  "users_unique us \<longleftrightarrow> distinct (map u_email us) \<and> distinct (map (\<lambda>u. (u_issuer u, u_google_sub u)) us)"

definition set_users :: "user list \<Rightarrow> auth_db \<Rightarrow> auth_db option" where
  "set_users us db = (if users_unique us then Some (db\<lparr>ad_users := us\<rparr>) else None)"

text \<open>\<open>UNIQUE(token_hash)\<close> and the two partial indexes: one active configuration key and one active personal token for a user.\<close>

definition active_with :: "string \<Rightarrow> token_row list \<Rightarrow> token_row list" where
  "active_with purpose rs = filter (\<lambda>r. \<not> tr_revoked r \<and> tr_purpose r = Some purpose) rs"

definition tokens_unique :: "token_row list \<Rightarrow> bool" where
  "tokens_unique rs \<longleftrightarrow> distinct (map tr_token_hash rs) \<and> distinct (map tr_user_id (active_with CONFIG_TOKEN rs)) \<and>
     distinct (map tr_user_id (active_with PERSONAL_TOKEN rs))"

definition set_tokens :: "token_row list \<Rightarrow> auth_db \<Rightarrow> auth_db option" where
  "set_tokens rs db = (if tokens_unique rs then Some (db\<lparr>ad_tokens := rs\<rparr>) else None)"

definition new_token :: "int \<Rightarrow> string \<Rightarrow> string \<Rightarrow> string \<Rightarrow> micros \<Rightarrow> token_row" where
  "new_token user_id name token_hash raw now =
     \<lparr>tr_id = 0, tr_user_id = user_id, tr_name = name, tr_token_hash = token_hash, tr_prefix = take (length TOKEN_PREFIX + 8) raw,
      tr_created_at = now, tr_last_used_at = None, tr_revoked = False, tr_endpoint_scope = None, tr_purpose = None,
      tr_model_scope = None, tr_derive_nonce = None\<rparr>"

text \<open>\<open>INSERT INTO tokens\<close>: the row with the next id, or \<open>None\<close> for an \<open>IntegrityError\<close>.\<close>

definition insert_token :: "token_row \<Rightarrow> auth_db \<Rightarrow> (token_row \<times> auth_db) option" where
  "insert_token r db =
     (let r' = r\<lparr>tr_id := ad_token_seq db + 1\<rparr>
      in map_option (\<lambda>db'. (r', db'\<lparr>ad_token_seq := ad_token_seq db + 1\<rparr>)) (set_tokens (ad_tokens db @ [r']) db))"

definition update_tokens :: "(token_row \<Rightarrow> bool) \<Rightarrow> (token_row \<Rightarrow> token_row) \<Rightarrow> auth_db \<Rightarrow> auth_db" where
  "update_tokens P f db = db\<lparr>ad_tokens := map (\<lambda>r. if P r then f r else r) (ad_tokens db)\<rparr>"

text \<open>The number of rows an \<open>UPDATE\<close> or \<open>DELETE\<close> with this condition changes.\<close>

definition row_count :: "('a \<Rightarrow> bool) \<Rightarrow> 'a list \<Rightarrow> nat" where
  "row_count P rs = length (filter P rs)"

section \<open>Users\<close>

record google_profile =
  gp_google_sub :: string
  gp_issuer :: string
  gp_email :: string
  gp_name :: string
  gp_picture :: string

definition is_account :: "google_profile \<Rightarrow> user \<Rightarrow> bool" where
  "is_account p u \<longleftrightarrow> u_issuer u = gp_issuer p \<and> u_google_sub u = gp_google_sub p"

definition new_user :: "google_profile \<Rightarrow> micros \<Rightarrow> auth_db \<Rightarrow> user" where
  "new_user p now db = \<lparr>u_id = ad_user_seq db + 1, u_google_sub = gp_google_sub p, u_issuer = gp_issuer p, u_email = gp_email p,
     u_name = gp_name p, u_picture = gp_picture p, u_is_admin = False, u_created_at = now, u_updated_at = now\<rparr>"

definition refreshed :: "google_profile \<Rightarrow> micros \<Rightarrow> user \<Rightarrow> user" where
  "refreshed p now u = u\<lparr>u_email := gp_email p, u_name := gp_name p, u_picture := gp_picture p, u_updated_at := now\<rparr>"

definition rebound :: "google_profile \<Rightarrow> micros \<Rightarrow> user \<Rightarrow> user" where
  "rebound p now u = u\<lparr>u_google_sub := gp_google_sub p, u_issuer := gp_issuer p, u_name := gp_name p, u_picture := gp_picture p, u_updated_at := now\<rparr>"

definition upsert_google_user :: "google_profile \<Rightarrow> micros \<Rightarrow> auth_db \<Rightarrow> (auth_error + user) \<times> auth_db" where
  "upsert_google_user p now db =
     (case (case find (is_account p) (ad_users db) of
              None \<Rightarrow>
                (case set_users (ad_users db @ [new_user p now db]) db of
                   Some db' \<Rightarrow> Inr (db'\<lparr>ad_user_seq := ad_user_seq db + 1\<rparr>)
                 | None \<Rightarrow>
                     (case set_users (map (\<lambda>u. if u_email u = gp_email p \<and> u_issuer u = gp_issuer p then rebound p now u else u) (ad_users db)) db of
                        None \<Rightarrow> Inl IntegrityError
                      | Some db' \<Rightarrow> if row_count (\<lambda>u. u_email u = gp_email p \<and> u_issuer u = gp_issuer p) (ad_users db) \<noteq> 1
                          then Inl (AccountConflictError (gp_email p)) else Inr db'))
            | Some _ \<Rightarrow>
                (case set_users (map (\<lambda>u. if is_account p u then refreshed p now u else u) (ad_users db)) db of
                   None \<Rightarrow> Inl (AccountConflictError (gp_email p))
                 | Some db' \<Rightarrow> Inr db')) of
        Inl e \<Rightarrow> (Inl e, db)
      | Inr db' \<Rightarrow> ((case find (is_account p) (ad_users db') of None \<Rightarrow> Inl RowVanished | Some u \<Rightarrow> Inr u), db'))"

definition get_user :: "int \<Rightarrow> auth_db \<Rightarrow> user option" where
  "get_user i db = find_user i db"

definition set_user_admin :: "int \<Rightarrow> bool \<Rightarrow> micros \<Rightarrow> auth_db \<Rightarrow> bool \<times> auth_db" where
  "set_user_admin i is_admin now db =
     (row_count (\<lambda>u. u_id u = i) (ad_users db) > 0,
      db\<lparr>ad_users := map (\<lambda>u. if u_id u = i then u\<lparr>u_is_admin := is_admin, u_updated_at := now\<rparr> else u) (ad_users db)\<rparr>)"

section \<open>API tokens\<close>

definition created :: "json_codec \<Rightarrow> token_row \<Rightarrow> string \<Rightarrow> CreatedToken" where
  "created jc r raw = \<lparr>ct_api = token_from_row jc r, ct_token = raw\<rparr>"

definition create_token ::
  "crypto \<Rightarrow> json_codec \<Rightarrow> int \<Rightarrow> string \<Rightarrow> string list option \<Rightarrow> string \<Rightarrow> micros \<Rightarrow> auth_db \<Rightarrow> (auth_error + CreatedToken) \<times> auth_db" where
  "create_token cr jc user_id name endpoint_scope random now db =
     (let raw = generate_token random
      in case find_user user_id db of
           None \<Rightarrow> (Inl (KeyError user_id), db)
         | Some _ \<Rightarrow>
             (case insert_token ((new_token user_id name (cr_hash cr raw) raw now)\<lparr>tr_endpoint_scope := dump_scopes jc endpoint_scope\<rparr>) db of
                None \<Rightarrow> (Inl IntegrityError, db)
              | Some (r, db') \<Rightarrow> (Inr (created jc r raw), db')))"

definition list_tokens :: "json_codec \<Rightarrow> int \<Rightarrow> auth_db \<Rightarrow> ApiToken list" where
  "list_tokens jc user_id db =
     map (token_from_row jc) (rev (sort_key (\<lambda>r. (tr_created_at r, tr_id r)) (filter (\<lambda>r. tr_user_id r = user_id) (ad_tokens db))))"

definition revoke_token :: "int \<Rightarrow> int \<Rightarrow> auth_db \<Rightarrow> bool \<times> auth_db" where
  "revoke_token user_id token_id db =
     (let P = (\<lambda>r. tr_id r = token_id \<and> tr_user_id r = user_id \<and> \<not> tr_revoked r)
      in (row_count P (ad_tokens db) > 0, update_tokens P (\<lambda>r. r\<lparr>tr_revoked := True\<rparr>) db))"

definition revoke_any_token :: "int \<Rightarrow> auth_db \<Rightarrow> bool \<times> auth_db" where
  "revoke_any_token token_id db =
     (let P = (\<lambda>r. tr_id r = token_id \<and> \<not> tr_revoked r)
      in (row_count P (ad_tokens db) > 0, update_tokens P (\<lambda>r. r\<lparr>tr_revoked := True\<rparr>) db))"

definition resolve_token :: "crypto \<Rightarrow> json_codec \<Rightarrow> string \<Rightarrow> auth_db \<Rightarrow> TokenAuth option" where
  "resolve_token cr jc raw db =
     (if raw = [] \<or> \<not> str_startswith raw TOKEN_PREFIX then None
      else
        case find (\<lambda>r. tr_token_hash r = cr_hash cr raw \<and> \<not> tr_revoked r) (ad_tokens db) of
          None \<Rightarrow> None
        | Some r \<Rightarrow> map_option (\<lambda>u. \<lparr>ta_user = u, ta_token = token_from_row jc r\<rparr>) (find_user (tr_user_id r) db))"

section \<open>The configuration key\<close>

definition config_rows :: "int \<Rightarrow> auth_db \<Rightarrow> token_row list" where
  "config_rows user_id db =
     sort_key tr_id (filter (\<lambda>r. tr_user_id r = user_id \<and> (tr_purpose r = Some CONFIG_TOKEN \<or> tr_purpose r = None \<and> tr_name r = CONFIG_TOKEN)) (ad_tokens db))"

definition revoke_config_rows :: "int \<Rightarrow> auth_db \<Rightarrow> auth_db" where
  "revoke_config_rows user_id db =
     update_tokens (\<lambda>r. tr_user_id r = user_id \<and> tr_purpose r = Some CONFIG_TOKEN \<and> \<not> tr_revoked r) (\<lambda>r. r\<lparr>tr_revoked := True\<rparr>) db"

definition mark_config_row :: "int \<Rightarrow> auth_db \<Rightarrow> auth_db option" where
  "mark_config_row i db = set_tokens (map (\<lambda>r. if tr_id r = i then r\<lparr>tr_purpose := Some CONFIG_TOKEN\<rparr> else r) (ad_tokens db)) db"

definition insert_config_token :: "crypto \<Rightarrow> int \<Rightarrow> string \<Rightarrow> micros \<Rightarrow> auth_db \<Rightarrow> (token_row \<times> auth_db) option" where
  "insert_config_token cr user_id raw now db =
     insert_token ((new_token user_id CONFIG_TOKEN (cr_hash cr raw) raw now)\<lparr>tr_purpose := Some CONFIG_TOKEN\<rparr>) db"

text \<open>The first live row that holds the key derived for its place in the history.\<close>

fun match_generation :: "crypto \<Rightarrow> string \<Rightarrow> int \<Rightarrow> int \<Rightarrow> token_row list \<Rightarrow> (int \<times> token_row) option" where
  "match_generation cr secret user_id index [] = None"
| "match_generation cr secret user_id index (r # rs) =
     (if cr_hash cr (derive_config_token cr secret user_id index) = tr_token_hash r \<and> \<not> tr_revoked r then Some (index, r)
      else match_generation cr secret user_id (index + 1) rs)"

fun index_of :: "int \<Rightarrow> int \<Rightarrow> token_row list \<Rightarrow> int option" where
  "index_of i k [] = None"
| "index_of i k (r # rs) = (if tr_id r = i then Some k else index_of i (k + 1) rs)"

text \<open>
  The loop after a lost race. Another process may change the file before each read and between the read and the first write, which
  opens a transaction; a turn is that pair of changes. \<open>None\<close>: still looping when the turns are used up.
\<close>

fun config_retry ::
  "crypto \<Rightarrow> json_codec \<Rightarrow> int \<Rightarrow> string \<Rightarrow> micros \<Rightarrow> ((auth_db \<Rightarrow> auth_db) \<times> (auth_db \<Rightarrow> auth_db)) list \<Rightarrow> auth_db \<Rightarrow>
     ((auth_error + CreatedToken) \<times> auth_db) option" where
  "config_retry cr jc user_id secret now [] db = None"
| "config_retry cr jc user_id secret now ((before, between) # turns) db =
     (let fresh = before db;
          rows = config_rows user_id fresh;
          db = between fresh
      in case match_generation cr secret user_id 0 rows of
           Some (_, reused) \<Rightarrow>
             (case index_of (tr_id reused) 0 rows of
                None \<Rightarrow> Some (Inl RowVanished, db)
              | Some generation \<Rightarrow>
                  (case mark_config_row (tr_id reused) db of
                     None \<Rightarrow> Some (Inl IntegrityError, db)
                   | Some db' \<Rightarrow> Some (Inr (created jc reused (derive_config_token cr secret user_id generation)), db')))
         | None \<Rightarrow>
             let raw = derive_config_token cr secret user_id (int (length rows))
             in (case insert_config_token cr user_id raw now (revoke_config_rows user_id db) of
                   None \<Rightarrow> config_retry cr jc user_id secret now turns db
                 | Some (r, db') \<Rightarrow> Some (Inr (created jc r raw), db')))"

text \<open>What happens after the snapshot when no active key can be returned: \<open>db\<close> is the file at the first write.\<close>

definition config_mint ::
  "crypto \<Rightarrow> json_codec \<Rightarrow> int \<Rightarrow> string \<Rightarrow> micros \<Rightarrow> ((auth_db \<Rightarrow> auth_db) \<times> (auth_db \<Rightarrow> auth_db)) list \<Rightarrow> token_row list \<Rightarrow> bool \<Rightarrow> auth_db \<Rightarrow>
     ((auth_error + CreatedToken) \<times> auth_db) option" where
  "config_mint cr jc user_id secret now turns rows stale db =
     (let pending = (if stale then revoke_config_rows user_id db else db)
      in case match_generation cr secret user_id 0 rows of
           Some (index, r) \<Rightarrow>
             (case mark_config_row (tr_id r) pending of
                None \<Rightarrow> Some (Inl IntegrityError, pending)
              | Some db' \<Rightarrow> Some (Inr (created jc r (derive_config_token cr secret user_id index)), db'))
         | None \<Rightarrow>
             let raw = derive_config_token cr secret user_id (int (length rows))
             in (case insert_config_token cr user_id raw now pending of
                   Some (r, db') \<Rightarrow> Some (Inr (created jc r raw), db')
                 | None \<Rightarrow> config_retry cr jc user_id secret now turns db))"

definition get_or_create_config_token ::
  "crypto \<Rightarrow> json_codec \<Rightarrow> int \<Rightarrow> string \<Rightarrow> micros \<Rightarrow> (auth_db \<Rightarrow> auth_db) \<Rightarrow> ((auth_db \<Rightarrow> auth_db) \<times> (auth_db \<Rightarrow> auth_db)) list \<Rightarrow> auth_db \<Rightarrow>
     ((auth_error + CreatedToken) \<times> auth_db) option" where
  "get_or_create_config_token cr jc user_id secret now between turns db =
     (case find_user user_id db of
        None \<Rightarrow> Some (Inl (KeyError user_id), db)
      | Some _ \<Rightarrow>
          let rows = config_rows user_id db
          in case find (\<lambda>r. \<not> tr_revoked r \<and> tr_purpose r = Some CONFIG_TOKEN) (rev rows) of
               None \<Rightarrow> config_mint cr jc user_id secret now turns rows False (between db)
             | Some active \<Rightarrow>
                 (case index_of (tr_id active) 0 rows of
                    None \<Rightarrow> Some (Inl RowVanished, db)
                  | Some generation \<Rightarrow>
                      let raw = derive_config_token cr secret user_id generation
                      in if cr_hash cr raw = tr_token_hash active then Some (Inr (created jc active raw), db)
                         else config_mint cr jc user_id secret now turns rows True (between db)))"

section \<open>Personal tokens and setup links\<close>

definition create_personal_token ::
  "crypto \<Rightarrow> json_codec \<Rightarrow> int \<Rightarrow> string \<Rightarrow> string list \<Rightarrow> string \<Rightarrow> string \<Rightarrow> micros \<Rightarrow> auth_db \<Rightarrow> (auth_error + CreatedToken) \<times> auth_db" where
  "create_personal_token cr jc user_id name models secret nonce now db =
     (let raw = derive_personal_token cr secret user_id nonce
      in case find_user user_id db of
           None \<Rightarrow> (Inl (KeyError user_id), db)
         | Some _ \<Rightarrow>
             let cleared = (update_tokens (\<lambda>r. tr_user_id r = user_id \<and> \<not> tr_revoked r) (\<lambda>r. r\<lparr>tr_revoked := True\<rparr>) db)
                   \<lparr>ad_links := filter (\<lambda>l. ln_user_id l \<noteq> user_id) (ad_links db)\<rparr>
             in (case insert_token ((new_token user_id name (cr_hash cr raw) raw now)
                    \<lparr>tr_purpose := Some PERSONAL_TOKEN, tr_model_scope := dump_scopes jc (Some models), tr_derive_nonce := Some nonce\<rparr>) cleared of
                   None \<Rightarrow> (Inl IntegrityError, db)
                 | Some (r, db') \<Rightarrow> (Inr (created jc r raw), db')))"

text \<open>\<open>ORDER BY (purpose = ?) DESC, id DESC LIMIT 1\<close>: a \<open>NULL\<close> purpose compares as \<open>NULL\<close>, which a descending order puts last.\<close>

definition purpose_rank :: "token_row \<Rightarrow> int" where
  "purpose_rank r = (case tr_purpose r of None \<Rightarrow> 0 | Some p \<Rightarrow> if p = PERSONAL_TOKEN then 2 else 1)"

definition get_active_token :: "json_codec \<Rightarrow> int \<Rightarrow> auth_db \<Rightarrow> ApiToken option" where
  "get_active_token jc user_id db =
     (case rev (sort_key (\<lambda>r. (purpose_rank r, tr_id r)) (filter (\<lambda>r. tr_user_id r = user_id \<and> \<not> tr_revoked r) (ad_tokens db))) of
        [] \<Rightarrow> None | r # _ \<Rightarrow> Some (token_from_row jc r))"

definition set_token_models :: "json_codec \<Rightarrow> int \<Rightarrow> int \<Rightarrow> string list \<Rightarrow> auth_db \<Rightarrow> bool \<times> auth_db" where
  "set_token_models jc user_id token_id models db =
     (let P = (\<lambda>r. tr_id r = token_id \<and> tr_user_id r = user_id \<and> \<not> tr_revoked r)
      in (row_count P (ad_tokens db) > 0, update_tokens P (\<lambda>r. r\<lparr>tr_model_scope := dump_scopes jc (Some models)\<rparr>) db))"

definition reveal_personal_token :: "crypto \<Rightarrow> int \<Rightarrow> string \<Rightarrow> auth_db \<Rightarrow> string option" where
  "reveal_personal_token cr token_id secret db =
     (case find (\<lambda>r. tr_id r = token_id \<and> \<not> tr_revoked r \<and> tr_purpose r = Some PERSONAL_TOKEN) (ad_tokens db) of
        None \<Rightarrow> None
      | Some r \<Rightarrow>
          (case tr_derive_nonce r of
             None \<Rightarrow> None
           | Some nonce \<Rightarrow>
               if nonce = [] then None
               else let raw = derive_personal_token cr secret (tr_user_id r) nonce
                    in if cr_hash cr raw = tr_token_hash r then Some raw else None))"

text \<open>The link identifier is drawn by \<open>secrets.choice\<close>. A taken hash raises after the deletion of the expired links.\<close>

definition create_setup_link ::
  "crypto \<Rightarrow> json_codec \<Rightarrow> int \<Rightarrow> int \<Rightarrow> string \<Rightarrow> string list \<Rightarrow> int \<Rightarrow> string \<Rightarrow> micros \<Rightarrow> auth_db \<Rightarrow> (auth_error + string \<times> micros) \<times> auth_db" where
  "create_setup_link cr jc user_id token_id harness models ttl_seconds link_id now db =
     (let expires = now + seconds ttl_seconds;
          db = db\<lparr>ad_links := filter (\<lambda>l. \<not> ln_expires_at l \<le> now) (ad_links db)\<rparr>
      in if list_ex (\<lambda>l. ln_link_hash l = cr_hash cr link_id) (ad_links db) then (Inl IntegrityError, db)
         else (Inr (link_id, expires),
               db\<lparr>ad_links := ad_links db @ [\<lparr>ln_link_hash = cr_hash cr link_id, ln_user_id = user_id, ln_token_id = token_id,
                 ln_harness = harness, ln_models = jc_dumps jc (JList (map JStr models)), ln_expires_at = expires\<rparr>]\<rparr>))"

definition resolve_setup_link :: "crypto \<Rightarrow> json_codec \<Rightarrow> string \<Rightarrow> micros \<Rightarrow> auth_db \<Rightarrow> auth_error + SetupLink option" where
  "resolve_setup_link cr jc link_id now db =
     (case find (\<lambda>l. ln_link_hash l = cr_hash cr link_id \<and> ln_expires_at l > now \<and>
              list_ex (\<lambda>r. tr_id r = ln_token_id l \<and> \<not> tr_revoked r) (ad_tokens db)) (ad_links db) of
        None \<Rightarrow> Inr None
      | Some l \<Rightarrow>
          (case jc_loads jc (ln_models l) of
             Some (JList xs) \<Rightarrow>
               (case all_strings xs of
                  Some models \<Rightarrow> Inr (Some \<lparr>sl_user_id = ln_user_id l, sl_token_id = ln_token_id l, sl_harness = ln_harness l, sl_models = models,
                    sl_expires_at = ln_expires_at l\<rparr>)
                | None \<Rightarrow> Inl ValidationError)
           | Some _ \<Rightarrow> Inl ValidationError
           | None \<Rightarrow> Inl JSONDecodeError))"

section \<open>Usage\<close>

definition record_usage :: "usage_row \<Rightarrow> micros \<Rightarrow> auth_db \<Rightarrow> auth_db" where
  "record_usage u now db =
     update_tokens (\<lambda>r. Some (tr_id r) = ug_token_id u) (\<lambda>r. r\<lparr>tr_last_used_at := Some now\<rparr>)
       (db\<lparr>ad_usage := ad_usage db @ [u\<lparr>ug_created_at := now\<rparr>]\<rparr>)"

record UsageTotals =
  ut_request_count :: int
  ut_prompt_tokens :: int
  ut_completion_tokens :: int
  ut_total_tokens :: int

definition usage_sum :: "usage_row list \<Rightarrow> UsageTotals" where
  "usage_sum us = \<lparr>ut_request_count = sum_list (map ug_request_count us), ut_prompt_tokens = sum_list (map ug_prompt_tokens us),
     ut_completion_tokens = sum_list (map ug_completion_tokens us), ut_total_tokens = sum_list (map ug_total_tokens us)\<rparr>"

text \<open>\<open>GROUP BY\<close>: the distinct keys in ascending order, each with its rows.\<close>

definition group_rows :: "('a \<Rightarrow> 'k :: linorder) \<Rightarrow> 'a list \<Rightarrow> ('k \<times> 'a list) list" where
  "group_rows f xs = map (\<lambda>k. (k, filter (\<lambda>x. f x = k) xs)) (sort (remdups (map f xs)))"

definition get_usage_totals :: "int \<Rightarrow> auth_db \<Rightarrow> UsageTotals" where
  "get_usage_totals user_id db = usage_sum (filter (\<lambda>u. ug_user_id u = user_id) (ad_usage db))"

definition get_usage_totals_all :: "auth_db \<Rightarrow> UsageTotals" where
  "get_usage_totals_all db = usage_sum (ad_usage db)"

definition get_usage_by_model :: "auth_db \<Rightarrow> (string, UsageTotals) dict" where
  "get_usage_by_model db = map (\<lambda>(m, us). (m, usage_sum us)) (group_rows ug_model (ad_usage db))"

record TokenUsage =
  tu_user_id :: int
  tu_token_id :: "int option"
  tu_token_name :: "string option"
  tu_model :: string
  tu_endpoint :: string
  tu_totals :: UsageTotals

text \<open>The left join with \<open>tokens\<close>; a usage row without a token has \<open>NULL\<close> in its columns, and sorts last.\<close>

definition get_usage_summary :: "int \<Rightarrow> auth_db \<Rightarrow> TokenUsage list" where
  "get_usage_summary user_id db =
     (let joined = (\<lambda>i. Option.bind i (\<lambda>i. find_token i db));
          groups = group_rows (\<lambda>u. (ug_token_id u, ug_model u, ug_endpoint u)) (filter (\<lambda>u. ug_user_id u = user_id) (ad_usage db));
          by_model = sort_key (\<lambda>((i, m, e), us). m) groups;
          ordered = sort_key (\<lambda>((i, m, e), us). case joined i of None \<Rightarrow> (1, 0) | Some r \<Rightarrow> (0 :: int, - tr_created_at r)) by_model
      in map (\<lambda>((i, m, e), us). \<lparr>tu_user_id = user_id, tu_token_id = i, tu_token_name = map_option tr_name (joined i), tu_model = m,
           tu_endpoint = e, tu_totals = usage_sum us\<rparr>) ordered)"

record UsageTimelineRow =
  tl_day :: string
  tl_totals :: UsageTotals

definition get_user_usage_timeline :: "int \<Rightarrow> int \<Rightarrow> micros \<Rightarrow> auth_db \<Rightarrow> UsageTimelineRow list" where
  "get_user_usage_timeline user_id days now db =
     map (\<lambda>(d, us). \<lparr>tl_day = d, tl_totals = usage_sum us\<rparr>)
       (rev (group_rows (\<lambda>u. take 10 (isoformat (ug_created_at u)))
         (filter (\<lambda>u. ug_user_id u = user_id \<and> ug_created_at u \<ge> now - days * DAY) (ad_usage db))))"

section \<open>Administration\<close>

record user_stats =
  st_user :: user
  st_token_count :: nat
  st_active_token_count :: nat
  st_totals :: UsageTotals

definition stats_of :: "auth_db \<Rightarrow> user \<Rightarrow> user_stats" where
  "stats_of db u = \<lparr>st_user = u, st_token_count = row_count (\<lambda>r. tr_user_id r = u_id u) (ad_tokens db),
     st_active_token_count = row_count (\<lambda>r. tr_user_id r = u_id u \<and> \<not> tr_revoked r) (ad_tokens db), st_totals = get_usage_totals (u_id u) db\<rparr>"

definition list_users_with_stats :: "auth_db \<Rightarrow> user_stats list" where
  "list_users_with_stats db = map (stats_of db) (rev (sort_key (\<lambda>u. (u_created_at u, u_id u)) (ad_users db)))"

definition list_leaderboard :: "bool \<Rightarrow> auth_db \<Rightarrow> user_stats list" where
  "list_leaderboard include_admins db =
     sort_key (\<lambda>s. (- ut_total_tokens (st_totals s), - ut_request_count (st_totals s), u_created_at (st_user s), u_id (st_user s)))
       (map (stats_of db) (filter (\<lambda>u. include_admins \<or> \<not> u_is_admin u) (ad_users db)))"

record AdminTokenView =
  av_token :: ApiToken
  av_user_email :: string
  av_user_name :: string
  av_totals :: UsageTotals

definition list_all_tokens :: "json_codec \<Rightarrow> auth_db \<Rightarrow> AdminTokenView list" where
  "list_all_tokens jc db =
     List.map_filter (\<lambda>r. map_option (\<lambda>u. \<lparr>av_token = token_from_row jc r, av_user_email = u_email u, av_user_name = u_name u,
         av_totals = usage_sum (filter (\<lambda>x. ug_token_id x = Some (tr_id r)) (ad_usage db))\<rparr>) (find_user (tr_user_id r) db))
       (rev (sort_key (\<lambda>r. (tr_created_at r, tr_id r)) (ad_tokens db)))"

end
