(* ===== verification/AuthStoreSafety.thy ===== *)
theory AuthStoreSafety
  imports AuthStore
begin

text \<open>
  What the token store guarantees over any sequence of its calls, with other processes working on the same file: the unique indexes
  hold, rows are only added, a revoked token stays revoked, and the keys handed out are those that resolve.
\<close>

section \<open>Rows are kept\<close>

declare if_image_distrib [simp del]

text \<open>A later state of a row: its identity and hash stay, a revocation is final and a purpose changes only by marking a configuration key.\<close>

definition token_kept :: "token_row \<Rightarrow> token_row \<Rightarrow> bool" where
  "token_kept r r' \<longleftrightarrow>
     tr_id r' = tr_id r \<and> tr_user_id r' = tr_user_id r \<and> tr_token_hash r' = tr_token_hash r \<and> tr_name r' = tr_name r \<and>
     (tr_revoked r \<longrightarrow> tr_revoked r') \<and> (tr_purpose r' = tr_purpose r \<or> tr_purpose r = None \<and> tr_purpose r' = Some CONFIG_TOKEN)"

definition tokens_grow :: "token_row list \<Rightarrow> token_row list \<Rightarrow> bool" where
  "tokens_grow rs rs' \<longleftrightarrow> length rs \<le> length rs' \<and> (\<forall>k < length rs. token_kept (rs ! k) (rs' ! k))"

lemma token_kept_refl [simp]: "token_kept r r"
  by (simp add: token_kept_def)

lemma token_kept_trans: "token_kept r s \<Longrightarrow> token_kept s t \<Longrightarrow> token_kept r t"
  by (auto simp: token_kept_def)

lemma tokens_grow_refl [simp]: "tokens_grow rs rs"
  by (simp add: tokens_grow_def)

lemma tokens_grow_trans:
  assumes "tokens_grow rs ss" "tokens_grow ss ts"
  shows "tokens_grow rs ts"
  using assms token_kept_trans unfolding tokens_grow_def by (meson le_trans order.strict_trans2)

lemma tokens_grow_map:
  assumes "\<And>r. r \<in> set rs \<Longrightarrow> token_kept r (f r)"
  shows "tokens_grow rs (map f rs)"
  using assms by (simp add: tokens_grow_def)

lemma tokens_grow_append [simp]: "tokens_grow rs (rs @ ss)"
  by (simp add: tokens_grow_def nth_append)

lemma tokens_growE:
  assumes "tokens_grow rs rs'" "r \<in> set rs"
  obtains r' where "r' \<in> set rs'" "token_kept r r'"
proof -
  obtain k where "k < length rs" "rs ! k = r" using assms(2) by (auto simp: in_set_conv_nth)
  then show thesis using that [of "rs' ! k"] assms(1) by (auto simp: tokens_grow_def)
qed

section \<open>The invariant\<close>

definition auth_ok :: "auth_db \<Rightarrow> bool" where
  "auth_ok db \<longleftrightarrow>
     users_unique (ad_users db) \<and> tokens_unique (ad_tokens db) \<and>
     sorted_wrt (<) (map u_id (ad_users db)) \<and> (\<forall>u \<in> set (ad_users db). u_id u \<le> ad_user_seq db) \<and>
     sorted_wrt (<) (map tr_id (ad_tokens db)) \<and> (\<forall>r \<in> set (ad_tokens db). tr_id r \<le> ad_token_seq db) \<and>
     (\<forall>r \<in> set (ad_tokens db). tr_user_id r \<in> u_id ` set (ad_users db))"

lemma auth_okD:
  assumes "auth_ok db"
  shows "users_unique (ad_users db)" "tokens_unique (ad_tokens db)" "sorted_wrt (<) (map u_id (ad_users db))"
    "\<And>u. u \<in> set (ad_users db) \<Longrightarrow> u_id u \<le> ad_user_seq db" "sorted_wrt (<) (map tr_id (ad_tokens db))"
    "\<And>r. r \<in> set (ad_tokens db) \<Longrightarrow> tr_id r \<le> ad_token_seq db"
    "\<And>r. r \<in> set (ad_tokens db) \<Longrightarrow> tr_user_id r \<in> u_id ` set (ad_users db)"
  using assms by (auto simp: auth_ok_def)

lemma empty_auth_ok: "auth_ok empty_auth_db"
  by (simp add: auth_ok_def empty_auth_db_def users_unique_def tokens_unique_def active_with_def)

text \<open>A change of the file that one call may make.\<close>

definition auth_change :: "auth_db \<Rightarrow> auth_db \<Rightarrow> bool" where
  "auth_change db db' \<longleftrightarrow>
     (auth_ok db \<longrightarrow> auth_ok db' \<and> tokens_grow (ad_tokens db) (ad_tokens db') \<and> u_id ` set (ad_users db) \<subseteq> u_id ` set (ad_users db'))"

lemma auth_change_refl [simp]: "auth_change db db"
  by (simp add: auth_change_def)

lemma auth_change_trans: "auth_change a b \<Longrightarrow> auth_change b c \<Longrightarrow> auth_change a c"
  unfolding auth_change_def using tokens_grow_trans order_trans by metis

text \<open>Unrelated columns: the update changes neither an identity nor what an index covers, but for revoking.\<close>

definition harmless :: "(token_row \<Rightarrow> token_row) \<Rightarrow> bool" where
  "harmless f \<longleftrightarrow> (\<forall>r. tr_id (f r) = tr_id r \<and> tr_user_id (f r) = tr_user_id r \<and> tr_token_hash (f r) = tr_token_hash r \<and> tr_name (f r) = tr_name r \<and>
     (tr_revoked r \<longrightarrow> tr_revoked (f r)) \<and> tr_purpose (f r) = tr_purpose r)"

lemma harmless_simps [simp]:
  "harmless (\<lambda>r. r\<lparr>tr_revoked := True\<rparr>)" "harmless (\<lambda>r. r\<lparr>tr_model_scope := m\<rparr>)" "harmless (\<lambda>r. r\<lparr>tr_last_used_at := t\<rparr>)"
  by (simp_all add: harmless_def)

lemma harmless_active:
  assumes "harmless f" "distinct (map tr_user_id (active_with p rs))"
  shows "distinct (map tr_user_id (active_with p (map (\<lambda>r. if P r then f r else r) rs)))"
  using assms(2)
proof (induction rs)
  case (Cons r rs)
  let ?g = "\<lambda>r. if P r then f r else r"
  have "tr_user_id ` set (active_with p (map ?g rs)) \<subseteq> tr_user_id ` set (active_with p rs)"
    using assms(1) by (force simp: active_with_def harmless_def)
  then show ?case using Cons assms(1) by (auto simp: active_with_def harmless_def split: if_splits)
qed (simp add: active_with_def)

lemma harmless_unique:
  assumes "harmless f" "tokens_unique rs"
  shows "tokens_unique (map (\<lambda>r. if P r then f r else r) rs)"
proof -
  have "map tr_token_hash (map (\<lambda>r. if P r then f r else r) rs) = map tr_token_hash rs" using assms(1) by (simp add: harmless_def)
  moreover have "distinct (map tr_user_id (active_with p (map (\<lambda>r. if P r then f r else r) rs)))" if "p \<in> {CONFIG_TOKEN, PERSONAL_TOKEN}" for p
    using that assms(2) harmless_active [OF assms(1)] by (auto simp: tokens_unique_def)
  ultimately show ?thesis using assms(2) by (simp add: tokens_unique_def del: map_map)
qed

lemma update_tokens_change:
  assumes "harmless f"
  shows "auth_change db (update_tokens P f db)"
proof -
  have same: "tr_id \<circ> (\<lambda>r. if P r then f r else r) = tr_id" using assms by (auto simp: harmless_def fun_eq_iff)
  have "auth_ok db \<Longrightarrow> auth_ok (update_tokens P f db)"
    using assms harmless_unique [OF assms] by (auto simp: auth_ok_def update_tokens_def harmless_def same)
  moreover have "tokens_grow (ad_tokens db) (ad_tokens (update_tokens P f db))"
    unfolding update_tokens_def using assms by (auto simp: harmless_def token_kept_def intro!: tokens_grow_map)
  ultimately show ?thesis by (simp add: auth_change_def update_tokens_def)
qed

lemma auth_change_other:
  assumes "ad_users db' = ad_users db" "ad_tokens db' = ad_tokens db" "ad_user_seq db' = ad_user_seq db" "ad_token_seq db' = ad_token_seq db"
  shows "auth_change db db'"
  using assms by (simp add: auth_change_def auth_ok_def)

lemma insert_token_change:
  assumes ins: "insert_token r db = Some (r', db')" and user: "tr_user_id r \<in> u_id ` set (ad_users db)"
  shows "auth_change db db'"
proof -
  have new: "r' = r\<lparr>tr_id := ad_token_seq db + 1\<rparr>" "ad_tokens db' = ad_tokens db @ [r']" "tokens_unique (ad_tokens db')"
    "ad_users db' = ad_users db" "ad_user_seq db' = ad_user_seq db" "ad_token_seq db' = ad_token_seq db + 1"
    using ins by (auto simp: insert_token_def set_tokens_def Let_def split: if_splits)
  have "auth_ok db \<Longrightarrow> auth_ok db'" using new user by (fastforce simp: auth_ok_def sorted_wrt_append)
  then show ?thesis using new by (simp add: auth_change_def)
qed

section \<open>Calls and what they keep\<close>

lemma find_user_mem: "find_user i db = Some u \<Longrightarrow> u \<in> set (ad_users db) \<and> u_id u = i"
  by (auto simp: find_user_def find_Some_iff)

lemma find_user_id: "find_user i db = Some u \<Longrightarrow> i \<in> u_id ` set (ad_users db)"
  using find_user_mem by (metis imageI)

lemma create_token_change: "create_token cr jc user_id name scope random now db = (res, db') \<Longrightarrow> auth_change db db'"
  by (auto simp: create_token_def Let_def new_token_def split: option.splits dest!: find_user_id intro!: insert_token_change)

lemma revoke_token_change: "revoke_token user_id token_id db = (res, db') \<Longrightarrow> auth_change db db'"
  by (auto simp: revoke_token_def Let_def intro: update_tokens_change)

lemma revoke_any_token_change: "revoke_any_token token_id db = (res, db') \<Longrightarrow> auth_change db db'"
  by (auto simp: revoke_any_token_def Let_def intro: update_tokens_change)

lemma set_token_models_change: "set_token_models jc user_id token_id models db = (res, db') \<Longrightarrow> auth_change db db'"
  by (auto simp: set_token_models_def Let_def intro: update_tokens_change)

lemma create_setup_link_change: "create_setup_link cr jc user_id token_id harness models ttl link_id now db = (res, db') \<Longrightarrow> auth_change db db'"
  by (rule auth_change_other) (auto simp: create_setup_link_def Let_def split: if_splits)

lemma record_usage_change: "auth_change db (record_usage u now db)"
  unfolding record_usage_def by (rule auth_change_trans [OF auth_change_other update_tokens_change]) simp_all

lemma create_personal_token_change:
  assumes "create_personal_token cr jc user_id name models secret nonce now db = (res, db')"
  shows "auth_change db db'"
proof (cases "find_user user_id db")
  case (Some u)
  define cleared where "cleared = (update_tokens (\<lambda>r. tr_user_id r = user_id \<and> \<not> tr_revoked r) (\<lambda>r. r\<lparr>tr_revoked := True\<rparr>) db)
     \<lparr>ad_links := filter (\<lambda>l. ln_user_id l \<noteq> user_id) (ad_links db)\<rparr>"
  have "auth_change db cleared"
    unfolding cleared_def by (rule auth_change_trans [OF update_tokens_change auth_change_other]) simp_all
  moreover have "ad_users cleared = ad_users db" by (simp add: cleared_def update_tokens_def)
  then have "auth_change cleared db2" if "insert_token r cleared = Some (r', db2)" "tr_user_id r = user_id" for r r' db2
    using insert_token_change [OF that(1)] that(2) find_user_id [OF Some] by simp
  ultimately show ?thesis
    using assms Some by (auto simp: create_personal_token_def Let_def cleared_def [symmetric] new_token_def split: option.splits intro: auth_change_trans)
qed (use assms in \<open>simp add: create_personal_token_def\<close>)

lemma users_change:
  assumes ids: "map u_id us = map u_id (ad_users db)" and unique: "users_unique us = users_unique (ad_users db)"
  shows "auth_change db (db\<lparr>ad_users := us\<rparr>)"
proof -
  have set: "u_id ` set us = u_id ` set (ad_users db)" using ids by (metis set_map)
  have image: "(\<forall>u \<in> set us. u_id u \<le> n) \<longleftrightarrow> (\<forall>i \<in> u_id ` set us. i \<le> n)" for n us by simp
  have "(\<forall>u \<in> set us. u_id u \<le> n) = (\<forall>u \<in> set (ad_users db). u_id u \<le> n)" for n by (simp only: image set)
  then show ?thesis using set ids unique by (simp add: auth_change_def auth_ok_def)
qed

lemma set_user_admin_change:
  assumes "set_user_admin i is_admin now db = (res, db')"
  shows "auth_change db db'"
proof -
  let ?f = "\<lambda>u. if u_id u = i then u\<lparr>u_is_admin := is_admin, u_updated_at := now\<rparr> else u"
  have db': "db' = db\<lparr>ad_users := map ?f (ad_users db)\<rparr>" using assms by (simp add: set_user_admin_def)
  have same: "u_email \<circ> ?f = u_email" "(\<lambda>u. (u_issuer u, u_google_sub u)) \<circ> ?f = (\<lambda>u. (u_issuer u, u_google_sub u))" "u_id \<circ> ?f = u_id"
    by (auto simp: fun_eq_iff)
  have "map u_id (map ?f us) = map u_id us" "users_unique (map ?f us) = users_unique us" for us
    unfolding users_unique_def map_map same by (simp_all add: same)
  then show ?thesis unfolding db' by (rule users_change)
qed

lemma set_users_change:
  assumes "set_users us db = Some db'" "map u_id us = map u_id (ad_users db)"
  shows "auth_change db db'"
proof (cases "auth_ok db")
  case True
  then have "users_unique us = users_unique (ad_users db)" using assms(1) by (auto simp: set_users_def auth_ok_def split: if_splits)
  then show ?thesis using users_change [OF assms(2)] assms(1) by (auto simp: set_users_def split: if_splits)
qed (simp add: auth_change_def)

lemma upsert_change:
  assumes "upsert_google_user p now db = (res, db')"
  shows "auth_change db db'"
proof -
  have new: "auth_change db (db1\<lparr>ad_user_seq := ad_user_seq db + 1\<rparr>)" if "set_users (ad_users db @ [u]) db = Some db1" "u_id u = ad_user_seq db + 1" for u db1
  proof -
    have db1: "db1 = db\<lparr>ad_users := ad_users db @ [u]\<rparr>" "users_unique (ad_users db @ [u])" using that(1) by (auto simp: set_users_def split: if_splits)
    then show ?thesis using that(2) by (fastforce simp: auth_change_def auth_ok_def sorted_wrt_append)
  qed
  have change: "auth_change db db1" if "set_users (map (\<lambda>u. if P u then f u else u) (ad_users db)) db = Some db1" "\<And>u. u_id (f u) = u_id u" for P f db1
    using set_users_change [OF that(1)] that(2) by (simp add: comp_def if_distrib)
  show ?thesis
    using assms new [of "new_user p now db"] change [of "is_account p" "refreshed p now"]
      change [of "\<lambda>u. u_email u = gp_email p \<and> u_issuer u = gp_issuer p" "rebound p now"]
    by (auto simp: upsert_google_user_def new_user_def refreshed_def rebound_def split: option.splits if_splits)
qed

lemma sorted_id_inj:
  assumes "sorted_wrt (<) (map (f :: _ \<Rightarrow> int) xs)" "x \<in> set xs" "y \<in> set xs" "f x = f y"
  shows "x = y"
  using assms by (auto simp: distinct_map strict_sorted_iff dest: inj_onD)

lemma token_id_inj: "auth_ok db \<Longrightarrow> r \<in> set (ad_tokens db) \<Longrightarrow> r' \<in> set (ad_tokens db) \<Longrightarrow> tr_id r = tr_id r' \<Longrightarrow> r = r'"
  by (rule sorted_id_inj [of tr_id "ad_tokens db"]) (simp_all add: auth_ok_def)

text \<open>Marking a row of the snapshot, after any change that other calls made to the file.\<close>

lemma mark_config_row_change:
  assumes mark: "mark_config_row (tr_id r) db2 = Some db'" and row: "r \<in> set (config_rows user_id db)"
    and before: "auth_ok db" "auth_change db db2"
  shows "auth_change db2 db'"
proof -
  let ?f = "\<lambda>x. if tr_id x = tr_id r then x\<lparr>tr_purpose := Some CONFIG_TOKEN\<rparr> else x"
  have db': "db' = db2\<lparr>ad_tokens := map ?f (ad_tokens db2)\<rparr>" "tokens_unique (map ?f (ad_tokens db2))"
    using mark by (auto simp: mark_config_row_def set_tokens_def split: if_splits)
  have ok: "auth_ok db2" "tokens_grow (ad_tokens db) (ad_tokens db2)" using before by (simp_all add: auth_change_def)
  have r: "r \<in> set (ad_tokens db)" "tr_purpose r \<in> {None, Some CONFIG_TOKEN}" using row by (auto simp: config_rows_def)
  obtain r2 where r2: "r2 \<in> set (ad_tokens db2)" "token_kept r r2" using tokens_growE [OF ok(2) r(1)] by blast
  have "token_kept x (?f x)" if "x \<in> set (ad_tokens db2)" for x
  proof (cases "tr_id x = tr_id r")
    case True
    then have "x = r2" using token_id_inj [OF ok(1) that r2(1)] r2(2) by (simp add: token_kept_def)
    then show ?thesis using r(2) r2(2) by (auto simp: token_kept_def)
  qed simp
  then have "tokens_grow (ad_tokens db2) (map ?f (ad_tokens db2))" by (rule tokens_grow_map)
  moreover have "map tr_id (map ?f (ad_tokens db2)) = map tr_id (ad_tokens db2)" by auto
  ultimately show ?thesis using db' by (auto simp: auth_change_def auth_ok_def simp del: map_map)
qed

lemma revoke_config_rows_change: "auth_change db (revoke_config_rows user_id db)"
  by (simp add: revoke_config_rows_def update_tokens_change)

lemma insert_config_change:
  "insert_config_token cr user_id raw now db = Some (r, db') \<Longrightarrow> user_id \<in> u_id ` set (ad_users db) \<Longrightarrow> auth_change db db'"
  unfolding insert_config_token_def by (erule insert_token_change) (simp add: new_token_def)

lemma match_generation_mem: "match_generation cr secret user_id k rows = Some (i, r) \<Longrightarrow> r \<in> set rows"
  by (induction rows arbitrary: k) (auto split: if_splits)

text \<open>Other processes run the same code: what they do is a change.\<close>

definition turns_change :: "((auth_db \<Rightarrow> auth_db) \<times> (auth_db \<Rightarrow> auth_db)) list \<Rightarrow> bool" where
  "turns_change turns \<longleftrightarrow> (\<forall>(f, g) \<in> set turns. (\<forall>d. auth_change d (f d)) \<and> (\<forall>d. auth_change d (g d)))"

lemma auth_change_users: "auth_change db db' \<Longrightarrow> auth_ok db \<Longrightarrow> i \<in> u_id ` set (ad_users db) \<Longrightarrow> i \<in> u_id ` set (ad_users db')"
  by (auto simp: auth_change_def)

lemma config_retry_change:
  assumes "config_retry cr jc user_id secret now turns db = Some (res, db')" "turns_change turns" "auth_ok db" "user_id \<in> u_id ` set (ad_users db)"
  shows "auth_change db db'"
  using assms
proof (induction turns arbitrary: db)
  case (Cons turn turns)
  obtain f g where turn: "turn = (f, g)" by (cases turn)
  define fresh db2 where "fresh = f db" and "db2 = g fresh"
  have fg: "auth_change db fresh" "auth_change fresh db2" using Cons.prems(2) turn by (auto simp: turns_change_def fresh_def db2_def)
  then have c2: "auth_change db db2" by (rule auth_change_trans)
  have ok: "auth_ok fresh" "auth_ok db2" using fg c2 Cons.prems(3) by (simp_all add: auth_change_def)
  have user: "user_id \<in> u_id ` set (ad_users db2)" using auth_change_users [OF c2 Cons.prems(3,4)] .
  note revoked = revoke_config_rows_change [of db2 user_id]
  have insert: "auth_change db2 d" if "insert_config_token cr user_id raw now (revoke_config_rows user_id db2) = Some (r, d)" for raw r d
    using auth_change_trans [OF revoked insert_config_change [OF that]] auth_change_users [OF revoked ok(2) user] by simp
  have mark: "auth_change db2 d" if "mark_config_row (tr_id r) db2 = Some d" "match_generation cr secret user_id 0 (config_rows user_id fresh) = Some (k, r)" for k r d
    using mark_config_row_change [OF that(1) match_generation_mem [OF that(2)] ok(1) fg(2)] .
  have "auth_change db2 db' \<or> config_retry cr jc user_id secret now turns db2 = Some (res, db')"
    using Cons.prems(1) insert mark unfolding turn
    by (auto simp: Let_def fresh_def [symmetric] db2_def [symmetric] split: option.splits prod.splits)
  moreover have "turns_change turns" using Cons.prems(2) by (auto simp: turns_change_def)
  ultimately have "auth_change db2 db'" using Cons.IH ok(2) user by blast
  then show ?case using auth_change_trans [OF c2] by simp
qed simp

lemma config_token_change:
  assumes call: "get_or_create_config_token cr jc user_id secret now between turns db = Some (res, db')"
    and others: "\<forall>d. auth_change d (between d)" "turns_change turns"
  shows "auth_change db db'"
proof (cases "auth_ok db \<and> find_user user_id db \<noteq> None")
  case True
  then obtain u where u: "find_user user_id db = Some u" and ok: "auth_ok db" by auto
  define db2 rows where "db2 = between db" and "rows = config_rows user_id db"
  have c2: "auth_change db db2" using others(1) by (simp add: db2_def)
  then have ok2: "auth_ok db2" using ok by (simp add: auth_change_def)
  have user: "user_id \<in> u_id ` set (ad_users db2)" using auth_change_users [OF c2 ok find_user_id [OF u]] .
  have mint: "auth_change db2 d" if mint: "config_mint cr jc user_id secret now turns rows stale db2 = Some (res, d)" for stale d
  proof -
    define pending where "pending = (if stale then revoke_config_rows user_id db2 else db2)"
    have c3: "auth_change db2 pending" using revoke_config_rows_change by (simp add: pending_def)
    have insert: "auth_change db2 d" if "insert_config_token cr user_id raw now pending = Some (r, d)" for raw r
      using auth_change_trans [OF c3 insert_config_change [OF that auth_change_users [OF c3 ok2 user]]] .
    have mark: "auth_change db2 d" if "mark_config_row (tr_id r) pending = Some d" "match_generation cr secret user_id 0 rows = Some (k, r)" for k r
      using auth_change_trans [OF c3 mark_config_row_change [OF that(1) match_generation_mem [OF that(2), unfolded rows_def] ok auth_change_trans [OF c2 c3]]] .
    show ?thesis using mint insert mark c3 config_retry_change [OF _ others(2) ok2 user]
      by (auto simp: config_mint_def Let_def pending_def [symmetric] split: option.splits prod.splits)
  qed
  have "auth_change db2 db' \<or> db' = db"
    using call u mint by (auto simp: get_or_create_config_token_def Let_def db2_def [symmetric] rows_def [symmetric] split: option.splits if_splits)
  then show ?thesis using auth_change_trans [OF c2] by auto
next
  case False
  then show ?thesis using call by (auto simp: auth_change_def get_or_create_config_token_def)
qed

section \<open>Runs\<close>

inductive auth_step :: "crypto \<Rightarrow> json_codec \<Rightarrow> auth_db \<Rightarrow> auth_db \<Rightarrow> bool" for cr jc where
  step_upsert: "upsert_google_user p now db = (r, db') \<Longrightarrow> auth_step cr jc db db'"
| step_admin: "set_user_admin i is_admin now db = (b, db') \<Longrightarrow> auth_step cr jc db db'"
| step_create: "create_token cr jc user_id name scope random now db = (t, db') \<Longrightarrow> auth_step cr jc db db'"
| step_config: "get_or_create_config_token cr jc user_id secret now between turns db = Some (t, db') \<Longrightarrow>
    \<forall>d. (auth_step cr jc)\<^sup>*\<^sup>* d (between d) \<Longrightarrow>
    \<forall>(f, g) \<in> set turns. (\<forall>d. (auth_step cr jc)\<^sup>*\<^sup>* d (f d)) \<and> (\<forall>d. (auth_step cr jc)\<^sup>*\<^sup>* d (g d)) \<Longrightarrow> auth_step cr jc db db'"
| step_revoke: "revoke_token user_id token_id db = (b, db') \<Longrightarrow> auth_step cr jc db db'"
| step_revoke_any: "revoke_any_token token_id db = (b, db') \<Longrightarrow> auth_step cr jc db db'"
| step_personal: "create_personal_token cr jc user_id name models secret nonce now db = (t, db') \<Longrightarrow> auth_step cr jc db db'"
| step_models: "set_token_models jc user_id token_id models db = (b, db') \<Longrightarrow> auth_step cr jc db db'"
| step_link: "create_setup_link cr jc user_id token_id harness models ttl link_id now db = (l, db') \<Longrightarrow> auth_step cr jc db db'"
| step_usage: "auth_step cr jc db (record_usage u now db)"

lemmas auth_changes = upsert_change set_user_admin_change create_token_change revoke_token_change revoke_any_token_change
  create_personal_token_change set_token_models_change create_setup_link_change record_usage_change

lemma rtranclp_change: "(\<lambda>d d'. R d d' \<and> auth_change d d')\<^sup>*\<^sup>* db db' \<Longrightarrow> auth_change db db'"
  by (induction rule: rtranclp_induct) (auto intro: auth_change_trans)

lemma auth_step_change: "auth_step cr jc db db' \<Longrightarrow> auth_change db db'"
proof (induction rule: auth_step.induct)
  case (step_config user_id secret now between turns db t db')
  have "turns_change turns" unfolding turns_change_def
  proof (intro ballI, unfold split_paired_all prod.case)
    fix f g assume "(f, g) \<in> set turns"
    then have "\<forall>d. (\<lambda>d d'. auth_step cr jc d d' \<and> auth_change d d')\<^sup>*\<^sup>* d (f d)" "\<forall>d. (\<lambda>d d'. auth_step cr jc d d' \<and> auth_change d d')\<^sup>*\<^sup>* d (g d)"
      using step_config.IH(2) by auto
    then show "(\<forall>d. auth_change d (f d)) \<and> (\<forall>d. auth_change d (g d))" using rtranclp_change by blast
  qed
  moreover have "\<forall>d. auth_change d (between d)" using step_config.IH(1) rtranclp_change by blast
  ultimately show ?case using config_token_change [OF step_config.hyps(1)] by blast
qed (auto intro: auth_changes)

interpretation auth_runs: invariant_system "\<lambda>db. db = empty_auth_db" "auth_step cr jc" auth_ok for cr jc
  by unfold_locales (use empty_auth_ok auth_step_change in \<open>auto simp: auth_change_def\<close>)

lemma auth_steps_change: "(auth_step cr jc)\<^sup>*\<^sup>* db db' \<Longrightarrow> auth_change db db'"
  by (induction rule: rtranclp_induct) (auto intro: auth_change_trans auth_step_change)

text \<open>The files that calls produce from a new one.\<close>

abbreviation auth_file :: "crypto \<Rightarrow> json_codec \<Rightarrow> auth_db \<Rightarrow> bool" where
  "auth_file cr jc db \<equiv> reachable (\<lambda>db. db = empty_auth_db) (auth_step cr jc) db"

lemma auth_file_ok: "auth_file cr jc db \<Longrightarrow> auth_ok db"
  by (rule auth_runs.reachable_inv)

lemma resolve_token_Some:
  assumes "resolve_token cr jc raw db = Some a"
  obtains r where "r \<in> set (ad_tokens db)" "tr_token_hash r = cr_hash cr raw" "\<not> tr_revoked r" "ta_token a = token_from_row jc r"
    "find_user (tr_user_id r) db = Some (ta_user a)"
proof -
  obtain r where "find (\<lambda>r. tr_token_hash r = cr_hash cr raw \<and> \<not> tr_revoked r) (ad_tokens db) = Some r" "ta_token a = token_from_row jc r"
    "find_user (tr_user_id r) db = Some (ta_user a)"
    using assms by (auto simp: resolve_token_def split: if_splits option.splits)
  then show thesis using that [of r] by (metis (mono_tags, lifting) find_Some_iff nth_mem)
qed

lemma token_hash_inj: "tokens_unique rs \<Longrightarrow> r \<in> set rs \<Longrightarrow> r' \<in> set rs \<Longrightarrow> tr_token_hash r = tr_token_hash r' \<Longrightarrow> r = r'"
  by (auto simp: tokens_unique_def distinct_map dest: inj_onD)

lemma find_user_eq:
  assumes "auth_ok db" "u \<in> set (ad_users db)"
  shows "find_user (u_id u) db = Some u"
proof -
  obtain v where "find_user (u_id u) db = Some v" using assms(2) by (cases "find_user (u_id u) db") (auto simp: find_user_def find_None_iff)
  moreover from find_user_mem [OF this] have "v = u"
    using sorted_id_inj [of u_id "ad_users db" v u] assms by (simp add: auth_ok_def)
  ultimately show ?thesis by simp
qed

text \<open>A live row resolves from the raw value it was made of, to itself and its owner.\<close>

lemma resolve_token_row:
  assumes ok: "auth_ok db" and r: "r \<in> set (ad_tokens db)" "\<not> tr_revoked r" "tr_token_hash r = cr_hash cr raw" and raw: "str_startswith raw TOKEN_PREFIX"
  shows "\<exists>u. find_user (tr_user_id r) db = Some u \<and> resolve_token cr jc raw db = Some \<lparr>ta_user = u, ta_token = token_from_row jc r\<rparr>"
proof -
  have "raw \<noteq> []" using raw by (auto simp: str_startswith_def TOKEN_PREFIX_def)
  obtain x where x: "find (\<lambda>r. tr_token_hash r = cr_hash cr raw \<and> \<not> tr_revoked r) (ad_tokens db) = Some x"
    using r by (cases "find (\<lambda>r. tr_token_hash r = cr_hash cr raw \<and> \<not> tr_revoked r) (ad_tokens db)") (auto simp: find_None_iff)
  then have "x \<in> set (ad_tokens db)" "tr_token_hash x = cr_hash cr raw" by (auto simp: find_Some_iff)
  then have "x = r" using token_hash_inj [OF auth_okD(2) [OF ok]] r by simp
  moreover obtain u where "u \<in> set (ad_users db)" "u_id u = tr_user_id r" using auth_okD(7) [OF ok r(1)] by auto
  ultimately show ?thesis using x raw \<open>raw \<noteq> []\<close> find_user_eq [OF ok, of u] by (auto simp: resolve_token_def)
qed

lemma all_strings_map: "all_strings (map JStr xs) = Some xs"
  by (induction xs) auto

lemma find_SomeD: "find P xs = Some x \<Longrightarrow> x \<in> set xs \<and> P x"
  by (auto simp: find_Some_iff)

lemma find_unique:
  assumes "x \<in> set xs" "P x" "\<And>y. y \<in> set xs \<Longrightarrow> P y \<Longrightarrow> y = x"
  shows "find P xs = Some x"
proof (cases "find P xs")
  case None
  then show ?thesis using assms(1,2) by (simp add: find_None_iff)
next
  case (Some y)
  then show ?thesis using find_SomeD [OF Some] assms(3) by simp
qed

lemma filter_map_same: "(\<And>x. x \<in> set xs \<Longrightarrow> P (f x) = P x) \<Longrightarrow> (\<And>x. x \<in> set xs \<Longrightarrow> P x \<Longrightarrow> f x = x) \<Longrightarrow> filter P (map f xs) = filter P xs"
  by (induction xs) auto

section \<open>Properties of tokens\<close>

text \<open>
  C8. A revocation is final: once a token of the store is revoked, by its user, by an administrator, by the rotation of a configuration
  key or by a new personal token, no later sequence of calls, by this or by another process on the same file, lets its raw value
  authenticate a request again.
\<close>

theorem revoked_token_never_resolves:
  assumes "auth_file cr jc db" "r \<in> set (ad_tokens db)" "tr_revoked r" "tr_token_hash r = cr_hash cr raw" "(auth_step cr jc)\<^sup>*\<^sup>* db db'"
  shows "resolve_token cr jc raw db' = None"
proof (rule ccontr)
  assume "resolve_token cr jc raw db' \<noteq> None"
  then obtain x where x: "x \<in> set (ad_tokens db')" "tr_token_hash x = cr_hash cr raw" "\<not> tr_revoked x" using resolve_token_Some by blast
  have ok: "auth_ok db'" "tokens_grow (ad_tokens db) (ad_tokens db')"
    using auth_steps_change [OF assms(5)] auth_file_ok [OF assms(1)] by (simp_all add: auth_change_def)
  obtain r' where r': "r' \<in> set (ad_tokens db')" "token_kept r r'" using tokens_growE [OF ok(2) assms(2)] by blast
  then have "r' = x" using token_hash_inj [OF auth_okD(2) [OF ok(1)] r'(1) x(1)] x(2) assms(4) by (simp add: token_kept_def)
  then show False using r'(2) x(3) assms(3) by (simp add: token_kept_def)
qed

text \<open>
  In every file that calls produce, at most one token has a given hash, a user has at most one active configuration key and at
  most one active personal token, ids are in use once, every token belongs to a user, and no two users share an email or a
  provider account.
\<close>

theorem auth_file_constraints:
  assumes "auth_file cr jc db"
  shows "distinct (map tr_token_hash (ad_tokens db)) \<and> distinct (map tr_id (ad_tokens db)) \<and> distinct (map u_id (ad_users db)) \<and>
    distinct (map tr_user_id (active_with CONFIG_TOKEN (ad_tokens db))) \<and> distinct (map tr_user_id (active_with PERSONAL_TOKEN (ad_tokens db))) \<and>
    tr_user_id ` set (ad_tokens db) \<subseteq> u_id ` set (ad_users db) \<and>
    distinct (map u_email (ad_users db)) \<and> distinct (map (\<lambda>u. (u_issuer u, u_google_sub u)) (ad_users db))"
  using auth_file_ok [OF assms] by (auto simp: auth_ok_def tokens_unique_def users_unique_def strict_sorted_iff)


section \<open>The configuration key\<close>

definition is_config_row :: "int \<Rightarrow> token_row \<Rightarrow> bool" where
  "is_config_row user_id r \<longleftrightarrow> tr_user_id r = user_id \<and> (tr_purpose r = Some CONFIG_TOKEN \<or> tr_purpose r = None \<and> tr_name r = CONFIG_TOKEN)"

lemma config_rows_filter:
  assumes "auth_ok db"
  shows "config_rows user_id db = filter (is_config_row user_id) (ad_tokens db)"
proof -
  have "sorted (map tr_id (filter (is_config_row user_id) (ad_tokens db)))"
    using auth_okD(5) [OF assms] by (simp add: sorted_filter strict_sorted_iff)
  then show ?thesis by (simp add: config_rows_def is_config_row_def [abs_def] sort_key_id_if_sorted)
qed

lemma index_of_nth:
  assumes "distinct (map tr_id rs)" "k < length rs"
  shows "index_of (tr_id (rs ! k)) n rs = Some (n + int k)"
  using assms
proof (induction rs arbitrary: k n)
  case (Cons r rs)
  show ?case
  proof (cases k)
    case (Suc j)
    then have "tr_id (rs ! j) \<in> tr_id ` set rs" using Cons.prems(2) by simp
    then have "tr_id (rs ! j) \<noteq> tr_id r" using Cons.prems(1) by auto
    then show ?thesis using Cons.IH [of j "n + 1"] Cons.prems Suc by simp
  qed simp
qed simp

lemma match_generation_nth:
  "match_generation cr secret user_id n rs = Some (i, r) \<Longrightarrow>
     \<exists>k < length rs. rs ! k = r \<and> i = n + int k \<and> \<not> tr_revoked r \<and> tr_token_hash r = cr_hash cr (derive_config_token cr secret user_id i)"
proof (induction rs arbitrary: n)
  case (Cons x rs)
  show ?case
  proof (cases "cr_hash cr (derive_config_token cr secret user_id n) = tr_token_hash x \<and> \<not> tr_revoked x")
    case True
    then show ?thesis using Cons.prems by (intro exI [of _ 0]) auto
  next
    case False
    then have "match_generation cr secret user_id (n + 1) rs = Some (i, r)" using Cons.prems by (auto split: if_splits)
    then obtain k where "k < length rs" "rs ! k = r" "i = n + 1 + int k" "\<not> tr_revoked r" "tr_token_hash r = cr_hash cr (derive_config_token cr secret user_id i)"
      using Cons.IH by blast
    then show ?thesis by (intro exI [of _ "Suc k"]) auto
  qed
qed simp

lemma config_rows_distinct: "auth_ok db \<Longrightarrow> distinct (map tr_id (config_rows user_id db))"
  using auth_okD(5) [of db] by (simp add: config_rows_filter strict_sorted_iff distinct_map_filter)

lemma config_active_unique:
  assumes ok: "auth_ok db" and r: "r \<in> set (ad_tokens db)" "\<not> tr_revoked r" "tr_purpose r = Some CONFIG_TOKEN"
    and s: "s \<in> set (ad_tokens db)" "\<not> tr_revoked s" "tr_purpose s = Some CONFIG_TOKEN" and same: "tr_user_id r = tr_user_id s"
  shows "r = s"
proof -
  have "inj_on tr_user_id (set (active_with CONFIG_TOKEN (ad_tokens db)))" using auth_okD(2) [OF ok] by (simp add: tokens_unique_def distinct_map)
  moreover have "r \<in> set (active_with CONFIG_TOKEN (ad_tokens db))" "s \<in> set (active_with CONFIG_TOKEN (ad_tokens db))" using r s by (simp_all add: active_with_def)
  ultimately show ?thesis using same by (meson inj_onD)
qed

text \<open>A file where a live marked row holds the key derived for its place: the call returns that key and changes nothing.\<close>

lemma config_token_again:
  assumes ok: "auth_ok db" and k: "k < length (config_rows user_id db)" and r: "r = config_rows user_id db ! k"
    and live: "\<not> tr_revoked r" "tr_purpose r = Some CONFIG_TOKEN" "tr_token_hash r = cr_hash cr (derive_config_token cr secret user_id (int k))"
  shows "get_or_create_config_token cr jc user_id secret now between turns db = Some (Inr (created jc r (derive_config_token cr secret user_id (int k))), db)"
proof -
  let ?rows = "config_rows user_id db"
  have mem: "r \<in> set ?rows" using k r by simp
  then have user: "r \<in> set (ad_tokens db)" "tr_user_id r = user_id" using ok by (auto simp: config_rows_filter is_config_row_def)
  then obtain u where u: "find_user user_id db = Some u" using auth_okD(7) [OF ok user(1)] find_user_eq [OF ok] by force
  have one: "x = r" if x: "x \<in> set ?rows" "\<not> tr_revoked x" "tr_purpose x = Some CONFIG_TOKEN" for x
    using config_active_unique [OF ok _ x(2,3) user(1) live(1,2)] x(1) user(2) ok by (simp add: config_rows_filter is_config_row_def)
  have "find (\<lambda>r. \<not> tr_revoked r \<and> tr_purpose r = Some CONFIG_TOKEN) (rev ?rows) = Some r"
  proof (rule find_unique)
    show "r \<in> set (rev ?rows)" "\<not> tr_revoked r \<and> tr_purpose r = Some CONFIG_TOKEN" using mem live by simp_all
    show "y = r" if "y \<in> set (rev ?rows)" "\<not> tr_revoked y \<and> tr_purpose y = Some CONFIG_TOKEN" for y
      using that by (intro one) simp_all
  qed
  moreover have "index_of (tr_id r) 0 ?rows = Some (int k)" using index_of_nth [OF config_rows_distinct [OF ok] k, of 0] r by simp
  ultimately show ?thesis using u live(3) by (simp add: get_or_create_config_token_def Let_def)
qed

text \<open>How revoking and marking act on the history.\<close>

lemma config_rows_map:
  assumes "auth_ok db" "auth_ok db'" "ad_tokens db' = map f (ad_tokens db)" "\<And>r. r \<in> set (ad_tokens db) \<Longrightarrow> is_config_row user_id (f r) = is_config_row user_id r"
  shows "config_rows user_id db' = map f (config_rows user_id db)"
proof -
  have "filter (is_config_row user_id) (map f rs) = map f (filter (is_config_row user_id) rs)" if "set rs \<subseteq> set (ad_tokens db)" for rs
    using that assms(4) by (induction rs) auto
  then show ?thesis using assms(1-3) by (simp add: config_rows_filter)
qed

text \<open>After the revocation, or when there was no active key, no row of the user is in the way of a new one.\<close>

definition no_active_key :: "int \<Rightarrow> auth_db \<Rightarrow> bool" where
  "no_active_key user_id db \<longleftrightarrow> (\<forall>r \<in> set (ad_tokens db). tr_user_id r = user_id \<and> tr_purpose r = Some CONFIG_TOKEN \<longrightarrow> tr_revoked r)"

lemma no_active_after_revoke: "no_active_key user_id (revoke_config_rows user_id db)"
  by (auto simp: no_active_key_def revoke_config_rows_def update_tokens_def)

lemma no_active_insert:
  assumes ok: "auth_ok db" and none: "no_active_key user_id db"
    and fresh: "\<forall>r \<in> set (ad_tokens db). tr_token_hash r \<noteq> cr_hash cr raw"
  shows "\<exists>r db'. insert_config_token cr user_id raw now db = Some (r, db') \<and> ad_tokens db' = ad_tokens db @ [r] \<and> tr_user_id r = user_id \<and>
    tr_token_hash r = cr_hash cr raw \<and> \<not> tr_revoked r \<and> tr_purpose r = Some CONFIG_TOKEN"
proof -
  let ?r = "(new_token user_id CONFIG_TOKEN (cr_hash cr raw) raw now)\<lparr>tr_purpose := Some CONFIG_TOKEN, tr_id := ad_token_seq db + 1\<rparr>"
  have "CONFIG_TOKEN \<noteq> PERSONAL_TOKEN" by (simp add: CONFIG_TOKEN_def PERSONAL_TOKEN_def)
  moreover have "user_id \<notin> tr_user_id ` set (active_with CONFIG_TOKEN (ad_tokens db))" using none by (auto simp: no_active_key_def active_with_def)
  ultimately have "tokens_unique (ad_tokens db @ [?r])"
    using auth_okD(2) [OF ok] fresh by (auto simp: tokens_unique_def active_with_def new_token_def)
  then show ?thesis by (simp add: insert_config_token_def insert_token_def set_tokens_def new_token_def Let_def)
qed

lemma no_active_mark:
  assumes ok: "auth_ok db" and none: "no_active_key user_id db" and r: "r \<in> set (ad_tokens db)" "tr_user_id r = user_id"
  shows "\<exists>db'. mark_config_row (tr_id r) db = Some db'"
proof -
  let ?f = "\<lambda>x :: token_row. if tr_id x = tr_id r then x\<lparr>tr_purpose := Some CONFIG_TOKEN\<rparr> else x"
  have mine: "x = r" if "x \<in> set (ad_tokens db)" "tr_id x = tr_id r" for x using token_id_inj [OF ok that(1) r(1) that(2)] .
  have ids: "map tr_id (map ?f (ad_tokens db)) = map tr_id (ad_tokens db)" "map tr_token_hash (map ?f (ad_tokens db)) = map tr_token_hash (ad_tokens db)"
    by auto
  have "distinct (map tr_id (ad_tokens db))" using auth_okD(5) [OF ok] by (simp add: strict_sorted_iff)
  then have "distinct (map tr_id (map ?f (ad_tokens db)))" by (simp only: ids(1))
  then have dist: "distinct (map ?f (ad_tokens db))" by (rule distinct_mapI)
  have unique: "x = y" if xy: "x \<in> set (ad_tokens db)" "y \<in> set (ad_tokens db)" "\<not> tr_revoked (?f x)" "\<not> tr_revoked (?f y)"
      "tr_purpose (?f x) = Some p" "tr_purpose (?f y) = Some p" "tr_user_id (?f x) = tr_user_id (?f y)" and p: "p \<in> {CONFIG_TOKEN, PERSONAL_TOKEN}" for x y p
  proof (cases "tr_id x = tr_id r \<or> tr_id y = tr_id r")
    case True
    then have "x = r \<or> y = r" using mine xy(1,2) by blast
    then have "p = CONFIG_TOKEN" "tr_user_id x = user_id" "tr_user_id y = user_id" using xy r(2) by (auto split: if_splits)
    moreover have "z = r" if z: "z \<in> set (ad_tokens db)" "\<not> tr_revoked (?f z)" "tr_purpose (?f z) = Some CONFIG_TOKEN" "tr_user_id z = user_id" for z
    proof (rule ccontr)
      assume "z \<noteq> r"
      then have "tr_id z \<noteq> tr_id r" using mine [OF z(1)] by blast
      then show False using z none by (auto simp: no_active_key_def)
    qed
    ultimately show ?thesis using xy by metis
  next
    case False
    then have "x \<in> set (active_with p (ad_tokens db))" "y \<in> set (active_with p (ad_tokens db))" "tr_user_id x = tr_user_id y"
      using xy by (auto simp: active_with_def)
    moreover have "inj_on tr_user_id (set (active_with p (ad_tokens db)))" using auth_okD(2) [OF ok] p by (auto simp: tokens_unique_def distinct_map)
    ultimately show ?thesis by (meson inj_onD)
  qed
  have "distinct (map tr_user_id (active_with p (map ?f (ad_tokens db))))" if p: "p \<in> {CONFIG_TOKEN, PERSONAL_TOKEN}" for p
  proof -
    have "inj_on tr_user_id (set (active_with p (map ?f (ad_tokens db))))"
    proof (rule inj_onI)
      fix x' y' assume x': "x' \<in> set (active_with p (map ?f (ad_tokens db)))" and y': "y' \<in> set (active_with p (map ?f (ad_tokens db)))"
        and same: "tr_user_id x' = tr_user_id y'"
      obtain x where x: "x \<in> set (ad_tokens db)" "x' = ?f x" "\<not> tr_revoked x'" "tr_purpose x' = Some p"
        using x' unfolding active_with_def set_filter set_map by blast
      obtain y where y: "y \<in> set (ad_tokens db)" "y' = ?f y" "\<not> tr_revoked y'" "tr_purpose y' = Some p"
        using y' unfolding active_with_def set_filter set_map by blast
      have "x = y" using unique [OF x(1) y(1) _ _ _ _ _ p] x(3,4) y(3,4) same unfolding x(2) y(2) by blast
      then show "x' = y'" by (simp only: x(2) y(2))
    qed
    then show ?thesis using dist by (simp only: distinct_map active_with_def distinct_filter)
  qed
  then have "tokens_unique (map ?f (ad_tokens db))" using ids(2) auth_okD(2) [OF ok] by (simp add: tokens_unique_def del: map_map)
  then show ?thesis by (simp add: mark_config_row_def set_tokens_def)
qed

lemma index_of_Some: "index_of i n rs = Some g \<Longrightarrow> \<exists>k < length rs. tr_id (rs ! k) = i \<and> g = n + int k"
proof (induction rs arbitrary: n)
  case (Cons r rs)
  show ?case
  proof (cases "tr_id r = i")
    case False
    then obtain k where "k < length rs" "tr_id (rs ! k) = i" "g = n + 1 + int k" using Cons by fastforce
    then show ?thesis by (intro exI [of _ "Suc k"]) auto
  qed (use Cons.prems in auto)
qed simp

text \<open>What a call leaves: a live, marked row that holds the returned key for its place.\<close>

definition holds_key :: "crypto \<Rightarrow> int \<Rightarrow> string \<Rightarrow> string \<Rightarrow> auth_db \<Rightarrow> nat \<Rightarrow> bool" where
  "holds_key cr user_id secret raw db k \<longleftrightarrow>
     k < length (config_rows user_id db) \<and> \<not> tr_revoked (config_rows user_id db ! k) \<and> tr_purpose (config_rows user_id db ! k) = Some CONFIG_TOKEN \<and>
     tr_token_hash (config_rows user_id db ! k) = cr_hash cr raw \<and> raw = derive_config_token cr secret user_id (int k)"

lemma config_rows_revoke:
  assumes "auth_ok db"
  shows "config_rows user_id (revoke_config_rows user_id db) =
    map (\<lambda>r. if tr_user_id r = user_id \<and> tr_purpose r = Some CONFIG_TOKEN \<and> \<not> tr_revoked r then r\<lparr>tr_revoked := True\<rparr> else r) (config_rows user_id db)"
  using revoke_config_rows_change [of db user_id] assms
  by (intro config_rows_map) (auto simp: auth_change_def revoke_config_rows_def update_tokens_def is_config_row_def)

lemma config_insert_holds:
  assumes ok: "auth_ok db" and ins: "insert_config_token cr user_id raw now db = Some (r, db')" and user: "user_id \<in> u_id ` set (ad_users db)"
    and raw: "raw = derive_config_token cr secret user_id (int (length (config_rows user_id db)))"
  shows "holds_key cr user_id secret raw db' (length (config_rows user_id db))"
proof -
  have new: "ad_tokens db' = ad_tokens db @ [r]" "is_config_row user_id r" "\<not> tr_revoked r" "tr_purpose r = Some CONFIG_TOKEN" "tr_token_hash r = cr_hash cr raw"
    using ins by (auto simp: insert_config_token_def insert_token_def set_tokens_def Let_def new_token_def is_config_row_def split: if_splits)
  have "auth_ok db'" using insert_config_change [OF ins user] ok by (simp add: auth_change_def)
  then have "config_rows user_id db' = config_rows user_id db @ [r]" using ok new(1,2) by (simp add: config_rows_filter)
  then show ?thesis using new raw by (simp add: holds_key_def)
qed

lemma config_mark_holds:
  assumes ok: "auth_ok db" and mark: "mark_config_row (tr_id r) db = Some db'"
    and k: "k < length (config_rows user_id db)" "config_rows user_id db ! k = r" "\<not> tr_revoked r" "tr_token_hash r = cr_hash cr raw"
    and raw: "raw = derive_config_token cr secret user_id (int k)"
  shows "holds_key cr user_id secret raw db' k"
proof -
  let ?f = "\<lambda>x :: token_row. if tr_id x = tr_id r then x\<lparr>tr_purpose := Some CONFIG_TOKEN\<rparr> else x"
  have mem: "r \<in> set (config_rows user_id db)" using k by auto
  have db': "ad_tokens db' = map ?f (ad_tokens db)" using mark by (auto simp: mark_config_row_def set_tokens_def split: if_splits)
  have "auth_ok db'" using mark_config_row_change [OF mark mem ok] ok by (simp add: auth_change_def)
  moreover have "is_config_row user_id (?f x) = is_config_row user_id x" if "x \<in> set (ad_tokens db)" for x
    using token_id_inj [OF ok that] mem ok by (cases "tr_id x = tr_id r") (auto simp: config_rows_filter is_config_row_def)
  ultimately have "config_rows user_id db' = map ?f (config_rows user_id db)" using config_rows_map [OF ok _ db'] by blast
  then show ?thesis using k raw by (simp add: holds_key_def)
qed


lemma config_mint_holds:
  assumes ok: "auth_ok db" and user: "user_id \<in> u_id ` set (ad_users db)" and rows: "rows = config_rows user_id db"
    and mint: "config_mint cr jc user_id secret now [] rows stale db = Some (Inr t, db')"
    and mismatch: "\<And>k. k < length rows \<Longrightarrow> \<not> tr_revoked (rows ! k) \<Longrightarrow> tr_purpose (rows ! k) = Some CONFIG_TOKEN \<Longrightarrow>
      tr_token_hash (rows ! k) \<noteq> cr_hash cr (derive_config_token cr secret user_id (int k))"
  shows "\<exists>k. holds_key cr user_id secret (ct_token t) db' k"
proof -
  define pending where "pending = (if stale then revoke_config_rows user_id db else db)"
  let ?g = "\<lambda>r :: token_row. if stale \<and> tr_user_id r = user_id \<and> tr_purpose r = Some CONFIG_TOKEN \<and> \<not> tr_revoked r then r\<lparr>tr_revoked := True\<rparr> else r"
  have prows: "config_rows user_id pending = map ?g rows" using config_rows_revoke [OF ok, of user_id] by (simp add: pending_def rows)
  have c: "auth_change db pending" using revoke_config_rows_change by (simp add: pending_def)
  then have okp: "auth_ok pending" and userp: "user_id \<in> u_id ` set (ad_users pending)" using ok auth_change_users [OF c ok user] by (auto simp: auth_change_def)
  show ?thesis
  proof (cases "match_generation cr secret user_id 0 rows")
    case None
    then obtain r where ins: "insert_config_token cr user_id (derive_config_token cr secret user_id (int (length rows))) now pending = Some (r, db')"
      "ct_token t = derive_config_token cr secret user_id (int (length rows))"
      using mint by (auto simp: config_mint_def Let_def pending_def [symmetric] created_def split: option.splits)
    then show ?thesis using config_insert_holds [OF okp ins(1) userp, of secret] prows by auto
  next
    case (Some x)
    obtain i r where x: "x = (i, r)" by (cases x)
    from match_generation_nth [OF Some [unfolded x]] obtain k where k: "k < length rows" "rows ! k = r" "i = int k" "\<not> tr_revoked r"
      "tr_token_hash r = cr_hash cr (derive_config_token cr secret user_id i)" by auto
    have "tr_purpose r \<noteq> Some CONFIG_TOKEN" using mismatch [OF k(1)] k by auto
    then have at: "k < length (config_rows user_id pending)" "config_rows user_id pending ! k = r" using prows k by simp_all
    have mark: "mark_config_row (tr_id r) pending = Some db'" "ct_token t = derive_config_token cr secret user_id (int k)"
      using mint Some x k(3) by (auto simp: config_mint_def Let_def pending_def [symmetric] created_def split: option.splits)
    then show ?thesis using config_mark_holds [OF okp mark(1) at k(4) k(5) [unfolded k(3)] refl] by auto
  qed
qed

lemma config_call_holds:
  assumes ok: "auth_ok db" and call: "get_or_create_config_token cr jc user_id secret now id [] db = Some (Inr t, db')"
  shows "\<exists>k. holds_key cr user_id secret (ct_token t) db' k"
proof -
  let ?rows = "config_rows user_id db"
  obtain u where u: "find_user user_id db = Some u" using call by (cases "find_user user_id db") (auto simp: get_or_create_config_token_def)
  note user = find_user_id [OF u]
  have row: "x \<in> set (ad_tokens db)" "tr_user_id x = user_id" if "x \<in> set ?rows" for x using that ok by (auto simp: config_rows_filter is_config_row_def)
  show ?thesis
  proof (cases "find (\<lambda>r. \<not> tr_revoked r \<and> tr_purpose r = Some CONFIG_TOKEN) (rev ?rows)")
    case None
    then have none: "\<And>x. x \<in> set ?rows \<Longrightarrow> \<not> tr_revoked x \<Longrightarrow> tr_purpose x \<noteq> Some CONFIG_TOKEN" by (auto simp: find_None_iff)
    moreover have "config_mint cr jc user_id secret now [] ?rows False db = Some (Inr t, db')"
      using call u None by (simp add: get_or_create_config_token_def Let_def)
    ultimately show ?thesis using config_mint_holds [OF ok user refl] none nth_mem by blast
  next
    case (Some active)
    then have active: "active \<in> set ?rows" "\<not> tr_revoked active" "tr_purpose active = Some CONFIG_TOKEN" using find_SomeD [OF Some] by auto
    then obtain k where k: "k < length ?rows" "?rows ! k = active" by (auto simp: in_set_conv_nth)
    then have index: "index_of (tr_id active) 0 ?rows = Some (int k)" using index_of_nth [OF config_rows_distinct [OF ok] k(1), of 0] by simp
    show ?thesis
    proof (cases "cr_hash cr (derive_config_token cr secret user_id (int k)) = tr_token_hash active")
      case True
      then have "t = created jc active (derive_config_token cr secret user_id (int k))" "db' = db"
        using call u Some index by (auto simp: get_or_create_config_token_def Let_def)
      then show ?thesis using k active True by (auto simp: holds_key_def created_def)
    next
      case False
      have "tr_token_hash (?rows ! j) \<noteq> cr_hash cr (derive_config_token cr secret user_id (int j))"
        if j: "j < length ?rows" "\<not> tr_revoked (?rows ! j)" "tr_purpose (?rows ! j) = Some CONFIG_TOKEN" for j
      proof -
        have "?rows ! j = active" using config_active_unique [OF ok _ j(2,3) row(1) [OF active(1)] active(2,3)] row [OF nth_mem [OF j(1)]] row(2) [OF active(1)] by simp
        then have "j = k" using config_rows_distinct [OF ok] j(1) k by (metis distinct_map nth_eq_iff_index_eq)
        then show ?thesis using False k(2) by auto
      qed
      moreover have "config_mint cr jc user_id secret now [] ?rows True db = Some (Inr t, db')"
        using call u Some index False by (simp add: get_or_create_config_token_def Let_def)
      ultimately show ?thesis using config_mint_holds [OF ok user refl] by blast
    qed
  qed
qed

lemma holds_key_row:
  assumes ok: "auth_ok db" and k: "holds_key cr user_id secret raw db k"
  shows "config_rows user_id db ! k \<in> set (ad_tokens db)" "tr_user_id (config_rows user_id db ! k) = user_id"
proof -
  have "config_rows user_id db ! k \<in> set (config_rows user_id db)" using k by (simp add: holds_key_def)
  then show "config_rows user_id db ! k \<in> set (ad_tokens db)" "tr_user_id (config_rows user_id db ! k) = user_id"
    using ok by (simp_all add: config_rows_filter is_config_row_def)
qed

lemma holds_key_resolves:
  assumes ok: "auth_ok db" and k: "holds_key cr user_id secret raw db k"
  shows "\<exists>a. resolve_token cr jc raw db = Some a \<and> u_id (ta_user a) = user_id"
proof -
  have "str_startswith raw TOKEN_PREFIX" using k by (simp add: holds_key_def derive_config_token_def str_startswith_def)
  moreover note holds_key_row [OF assms] k
  ultimately obtain u where "find_user user_id db = Some u" "resolve_token cr jc raw db = Some \<lparr>ta_user = u, ta_token = token_from_row jc (config_rows user_id db ! k)\<rparr>"
    using resolve_token_row [OF ok, of "config_rows user_id db ! k" cr raw jc] by (auto simp: holds_key_def)
  then show ?thesis using find_user_mem by (intro exI) auto
qed

lemma config_call_ok:
  assumes "auth_ok db" "get_or_create_config_token cr jc user_id secret now id [] db = Some (res, db')"
  shows "auth_ok db'" "auth_change db db'"
proof -
  show "auth_change db db'" using config_token_change [OF assms(2)] by (simp add: turns_change_def)
  then show "auth_ok db'" using assms(1) by (simp add: auth_change_def)
qed

lemma config_mint_total:
  assumes ok: "auth_ok db" and user: "user_id \<in> u_id ` set (ad_users db)" and none: "\<not> stale \<Longrightarrow> no_active_key user_id db"
    and fresh: "\<forall>r \<in> set (ad_tokens db). tr_token_hash r \<noteq> cr_hash cr (derive_config_token cr secret user_id (int (length (config_rows user_id db))))"
  shows "\<exists>t db'. config_mint cr jc user_id secret now [] (config_rows user_id db) stale db = Some (Inr t, db')"
proof -
  define pending where "pending = (if stale then revoke_config_rows user_id db else db)"
  have c: "auth_change db pending" using revoke_config_rows_change by (simp add: pending_def)
  have okp: "auth_ok pending" using c ok by (simp add: auth_change_def)
  have nonep: "no_active_key user_id pending" using none no_active_after_revoke by (simp add: pending_def)
  have freshp: "\<forall>r \<in> set (ad_tokens pending). tr_token_hash r \<noteq> cr_hash cr (derive_config_token cr secret user_id (int (length (config_rows user_id db))))"
    using fresh by (auto simp: pending_def revoke_config_rows_def update_tokens_def)
  show ?thesis
  proof (cases "match_generation cr secret user_id 0 (config_rows user_id db)")
    case None
    then show ?thesis using no_active_insert [OF okp nonep freshp, of now]
      by (auto simp: config_mint_def Let_def pending_def [symmetric])
  next
    case (Some x)
    obtain i r where x: "x = (i, r)" by (cases x)
    have "r \<in> set (config_rows user_id db)" using match_generation_mem [OF Some [unfolded x]] .
    then have r: "r \<in> set (ad_tokens db)" "tr_user_id r = user_id" using ok by (auto simp: config_rows_filter is_config_row_def)
    obtain r' where r': "r' \<in> set (ad_tokens pending)" "token_kept r r'" using c ok tokens_growE [OF _ r(1)] unfolding auth_change_def by blast
    then obtain db' where "mark_config_row (tr_id r) pending = Some db'" using no_active_mark [OF okp nonep r'(1)] r(2) by (auto simp: token_kept_def)
    then show ?thesis using Some x by (auto simp: config_mint_def Let_def pending_def [symmetric])
  qed
qed

lemma config_call_total:
  assumes ok: "auth_ok db" and user: "find_user user_id db \<noteq> None"
    and fresh: "\<forall>r \<in> set (ad_tokens db). tr_token_hash r \<noteq> cr_hash cr (derive_config_token cr secret user_id (int (length (config_rows user_id db))))"
  shows "\<exists>t db'. get_or_create_config_token cr jc user_id secret now id [] db = Some (Inr t, db')"
proof -
  let ?rows = "config_rows user_id db"
  obtain u where u: "find_user user_id db = Some u" using user by auto
  note mint = config_mint_total [OF ok find_user_id [OF u] _ fresh, of _ jc now]
  show ?thesis
  proof (cases "find (\<lambda>r. \<not> tr_revoked r \<and> tr_purpose r = Some CONFIG_TOKEN) (rev ?rows)")
    case None
    then have "no_active_key user_id db" using ok by (auto simp: find_None_iff no_active_key_def config_rows_filter is_config_row_def)
    then show ?thesis using mint [of False] u None by (simp add: get_or_create_config_token_def Let_def)
  next
    case (Some active)
    then obtain k where k: "k < length ?rows" "?rows ! k = active" using find_SomeD [OF Some] by (auto simp: in_set_conv_nth)
    then have "index_of (tr_id active) 0 ?rows = Some (int k)" using index_of_nth [OF config_rows_distinct [OF ok] k(1), of 0] by simp
    then show ?thesis using mint [of True] u Some by (auto simp: get_or_create_config_token_def Let_def)
  qed
qed

text \<open>
  Without another process in between, asking for the configuration key of a user returns one, unless an unrelated token already has
  the hash of the next generation; the key resolves to that user, and asking again with the same session secret, at any time and
  whatever other processes do, returns the same key and leaves the file as it is.
\<close>

theorem config_key_stable:
  assumes "auth_file cr jc db" "find_user user_id db \<noteq> None"
    "\<forall>r \<in> set (ad_tokens db). tr_token_hash r \<noteq> cr_hash cr (derive_config_token cr secret user_id (int (length (config_rows user_id db))))"
  shows "\<exists>t db'. get_or_create_config_token cr jc user_id secret now id [] db = Some (Inr t, db') \<and>
    (\<exists>a. resolve_token cr jc (ct_token t) db' = Some a \<and> u_id (ta_user a) = user_id) \<and>
    (\<forall>now' between turns. \<exists>t'. get_or_create_config_token cr jc user_id secret now' between turns db' = Some (Inr t', db') \<and> ct_token t' = ct_token t)"
proof -
  have ok: "auth_ok db" using auth_file_ok [OF assms(1)] .
  obtain t db' where call: "get_or_create_config_token cr jc user_id secret now id [] db = Some (Inr t, db')" using config_call_total [OF ok assms(2,3)] by blast
  obtain k where k: "holds_key cr user_id secret (ct_token t) db' k" using config_call_holds [OF ok call] by blast
  have ok': "auth_ok db'" using config_call_ok [OF ok call] by simp
  have "get_or_create_config_token cr jc user_id secret now' between turns db' =
      Some (Inr (created jc (config_rows user_id db' ! k) (derive_config_token cr secret user_id (int k))), db')" for now' between turns
    using k by (intro config_token_again [OF ok' _ refl]) (simp_all add: holds_key_def)
  then show ?thesis using call holds_key_resolves [OF ok' k] k by (auto simp: created_def holds_key_def)
qed

text \<open>
  Rotating the session secret invalidates the configuration keys derived from the old one: after a call with another secret has
  returned a key with another hash, the key returned before no longer resolves.
\<close>

theorem config_key_rotates:
  assumes "auth_file cr jc db" "get_or_create_config_token cr jc user_id secret now id [] db = Some (Inr t, db1)"
    "get_or_create_config_token cr jc user_id secret' now' id [] db1 = Some (Inr t', db2)" "cr_hash cr (ct_token t') \<noteq> cr_hash cr (ct_token t)"
  shows "resolve_token cr jc (ct_token t) db2 = None"
proof (rule ccontr)
  assume "resolve_token cr jc (ct_token t) db2 \<noteq> None"
  then obtain x where x: "x \<in> set (ad_tokens db2)" "tr_token_hash x = cr_hash cr (ct_token t)" "\<not> tr_revoked x" using resolve_token_Some by blast
  have ok: "auth_ok db" using auth_file_ok [OF assms(1)] .
  note call1 = config_call_ok [OF ok assms(2)] and call2 = config_call_ok [OF config_call_ok(1) [OF ok assms(2)] assms(3)]
  obtain k where k: "holds_key cr user_id secret (ct_token t) db1 k" using config_call_holds [OF ok assms(2)] by blast
  obtain k' where k': "holds_key cr user_id secret' (ct_token t') db2 k'" using config_call_holds [OF call1(1) assms(3)] by blast
  let ?r = "config_rows user_id db1 ! k" and ?s = "config_rows user_id db2 ! k'"
  obtain r where r: "r \<in> set (ad_tokens db2)" "token_kept ?r r"
    using tokens_growE holds_key_row(1) [OF call1(1) k] call2(2) call1(1) unfolding auth_change_def by blast
  then have "r = x" using token_hash_inj [OF auth_okD(2) [OF call2(1)] r(1) x(1)] x(2) k by (simp add: token_kept_def holds_key_def)
  then have "tr_purpose x = Some CONFIG_TOKEN" "tr_user_id x = user_id"
    using r(2) k holds_key_row(2) [OF call1(1) k] by (auto simp: token_kept_def holds_key_def)
  then have "x = ?s" using config_active_unique [OF call2(1) x(1,3) _ holds_key_row(1) [OF call2(1) k']] k' holds_key_row(2) [OF call2(1) k'] by (simp add: holds_key_def)
  then show False using x(2) k' assms(4) by (simp add: holds_key_def)
qed

section \<open>Sample runs\<close>

text \<open>A user with a token, then a revocation; the hash is the identity, and derived keys spell out what they are derived from.\<close>

definition sample_crypto :: crypto where
  "sample_crypto = \<lparr>cr_hash = (\<lambda>s. s), cr_hmac64 = (\<lambda>secret material. secret @ material)\<rparr>"

definition sample_codec :: json_codec where
  "sample_codec = \<lparr>jc_loads = (\<lambda>_. Some (JList [JStr ''m''])), jc_dumps = (\<lambda>_. ''m'')\<rparr>"

definition sample_profile :: google_profile where
  "sample_profile = \<lparr>gp_google_sub = ''s1'', gp_issuer = GOOGLE_ISSUER, gp_email = ''a@x'', gp_name = ''A'', gp_picture = ''p''\<rparr>"

definition sample_users :: auth_db where
  "sample_users = snd (upsert_google_user sample_profile 5 empty_auth_db)"

definition sample_tokens :: auth_db where
  "sample_tokens = snd (create_token sample_crypto sample_codec 1 ''cli'' None ''abc'' 6 sample_users)"

definition sample_revoked :: auth_db where
  "sample_revoked = snd (revoke_token 1 1 sample_tokens)"

lemma auth_file_step: "auth_file cr jc db \<Longrightarrow> auth_step cr jc db db' \<Longrightarrow> auth_file cr jc db'"
  by (rule reach_step)

lemma sample_files:
  "auth_file sample_crypto sample_codec sample_users" "auth_file sample_crypto sample_codec sample_tokens" "auth_file sample_crypto sample_codec sample_revoked"
proof -
  show 1: "auth_file sample_crypto sample_codec sample_users"
    unfolding sample_users_def by (rule auth_file_step [OF reach_init step_upsert [OF surjective_pairing]]) simp
  show 2: "auth_file sample_crypto sample_codec sample_tokens"
    unfolding sample_tokens_def by (rule auth_file_step [OF 1 step_create [OF surjective_pairing]])
  show "auth_file sample_crypto sample_codec sample_revoked"
    unfolding sample_revoked_def by (rule auth_file_step [OF 2 step_revoke [OF surjective_pairing]])
qed

theorem revoked_token_never_resolves_witness:
  "resolve_token sample_crypto sample_codec ''qiip_abc'' sample_tokens \<noteq> None \<and> resolve_token sample_crypto sample_codec ''qiip_abc'' sample_revoked = None"
proof
  show "resolve_token sample_crypto sample_codec ''qiip_abc'' sample_tokens \<noteq> None" by code_simp
  have "list_ex (\<lambda>r. tr_revoked r \<and> tr_token_hash r = ''qiip_abc'') (ad_tokens sample_revoked)" by code_simp
  then obtain r where "r \<in> set (ad_tokens sample_revoked)" "tr_revoked r" "tr_token_hash r = cr_hash sample_crypto ''qiip_abc''"
    by (auto simp: list_ex_iff sample_crypto_def)
  then show "resolve_token sample_crypto sample_codec ''qiip_abc'' sample_revoked = None"
    using revoked_token_never_resolves [OF sample_files(3)] by blast
qed

theorem auth_file_constraints_witness:
  "length (ad_tokens sample_revoked) = 1 \<and> distinct (map tr_token_hash (ad_tokens sample_revoked)) \<and> distinct (map u_email (ad_users sample_revoked))"
proof -
  have "length (ad_tokens sample_revoked) = 1" by code_simp
  then show ?thesis using auth_file_constraints [OF sample_files(3)] by simp
qed

definition sample_personal :: "(auth_error + CreatedToken) \<times> auth_db" where
  "sample_personal = create_personal_token sample_crypto sample_codec 1 ''mine'' [''m''] ''k'' ''n'' 7 sample_tokens"


definition sample_key :: "string \<Rightarrow> auth_db \<Rightarrow> CreatedToken \<times> auth_db" where
  "sample_key secret db = (case get_or_create_config_token sample_crypto sample_codec 1 secret 8 id [] db of
     Some (Inr t, db') \<Rightarrow> (t, db') | _ \<Rightarrow> (created sample_codec (new_token 0 [] [] [] 0) [], db))"

theorem config_key_stable_witness:
  "\<exists>t db'. get_or_create_config_token sample_crypto sample_codec 1 ''k'' 8 id [] sample_tokens = Some (Inr t, db') \<and>
     (\<exists>t'. get_or_create_config_token sample_crypto sample_codec 1 ''k'' 9 id [] db' = Some (Inr t', db') \<and> ct_token t' = ct_token t)"
proof -
  have "find_user 1 sample_tokens \<noteq> None" by code_simp
  moreover have "list_all (\<lambda>r. tr_token_hash r \<noteq> cr_hash sample_crypto (derive_config_token sample_crypto ''k'' 1 (int (length (config_rows 1 sample_tokens)))))
    (ad_tokens sample_tokens)" by code_simp
  ultimately show ?thesis using config_key_stable [OF sample_files(2), of 1 "''k''" 8] by (fastforce simp: list_all_iff)
qed

theorem config_key_rotates_witness:
  "resolve_token sample_crypto sample_codec (ct_token (fst (sample_key ''k'' sample_tokens))) (snd (sample_key ''k'' sample_tokens)) \<noteq> None \<and>
   resolve_token sample_crypto sample_codec (ct_token (fst (sample_key ''k'' sample_tokens)))
     (snd (sample_key ''l'' (snd (sample_key ''k'' sample_tokens)))) = None"
proof
  have call: "get_or_create_config_token sample_crypto sample_codec 1 secret 8 id [] db = Some (Inr (fst (sample_key secret db)), snd (sample_key secret db))"
    if "case get_or_create_config_token sample_crypto sample_codec 1 secret 8 id [] db of Some (Inr t, db') \<Rightarrow> True | _ \<Rightarrow> False" for secret db
    using that by (auto simp: sample_key_def split: option.splits sum.splits prod.splits)
  show "resolve_token sample_crypto sample_codec (ct_token (fst (sample_key ''k'' sample_tokens))) (snd (sample_key ''k'' sample_tokens)) \<noteq> None" by code_simp
  show "resolve_token sample_crypto sample_codec (ct_token (fst (sample_key ''k'' sample_tokens)))
     (snd (sample_key ''l'' (snd (sample_key ''k'' sample_tokens)))) = None"
  proof (rule config_key_rotates [OF sample_files(2) call call])
    show "case get_or_create_config_token sample_crypto sample_codec 1 ''k'' 8 id [] sample_tokens of Some (Inr t, db') \<Rightarrow> True | _ \<Rightarrow> False" by code_simp
    show "case get_or_create_config_token sample_crypto sample_codec 1 ''l'' 8 id [] (snd (sample_key ''k'' sample_tokens)) of Some (Inr t, db') \<Rightarrow> True | _ \<Rightarrow> False"
      by code_simp
    show "cr_hash sample_crypto (ct_token (fst (sample_key ''l'' (snd (sample_key ''k'' sample_tokens))))) \<noteq>
      cr_hash sample_crypto (ct_token (fst (sample_key ''k'' sample_tokens)))" by code_simp
  qed
qed

end
