(* ===== verification/AuthAccounts.thy ===== *)
theory AuthAccounts
  imports AuthStoreSafety
begin

text \<open>
  Sign-in, setup links and usage in the token store: whom a sign-in may write, how long a link works, and that the usage tables add up.
\<close>

section \<open>Sign-in\<close>

lemma users_uniqueD:
  assumes "users_unique us" "v \<in> set us" "w \<in> set us"
  shows "u_email v = u_email w \<Longrightarrow> v = w" "u_issuer v = u_issuer w \<Longrightarrow> u_google_sub v = u_google_sub w \<Longrightarrow> v = w"
  using assms by (auto simp: users_unique_def distinct_map dest: inj_onD)

lemma distinct_map_replace:
  assumes "distinct (map g us)" "\<And>x. x \<in> set us \<Longrightarrow> x \<noteq> v \<Longrightarrow> g x \<noteq> g w"
  shows "distinct (map g (map (\<lambda>u. if u = v then w else u) us))"
  using assms
proof (induction us)
  case (Cons x us)
  have x: "g x \<notin> g ` set us" using Cons.prems(1) by simp
  have "g (if x = v then w else x) \<noteq> g (if u = v then w else u)" if "u \<in> set us" for u
    using x that Cons.prems(2) [of u] Cons.prems(2) [of x] by auto
  then have "g (if x = v then w else x) \<notin> g ` set (map (\<lambda>u. if u = v then w else u) us)" by (simp only: set_map image_iff) blast
  then show ?case using Cons by (auto simp: image_image)
qed simp

lemma users_unique_replace:
  assumes "users_unique us" "\<And>x. x \<in> set us \<Longrightarrow> x \<noteq> v \<Longrightarrow> u_email x \<noteq> u_email w \<and> (u_issuer x, u_google_sub x) \<noteq> (u_issuer w, u_google_sub w)"
  shows "users_unique (map (\<lambda>u. if u = v then w else u) us)"
  using assms distinct_map_replace [of u_email us v w] distinct_map_replace [of "\<lambda>u. (u_issuer u, u_google_sub u)" us v w]
  unfolding users_unique_def by blast

lemma distinct_users: "users_unique us \<Longrightarrow> distinct us"
  by (auto simp: users_unique_def distinct_map)

lemma map_if_one: "(\<And>x. x \<in> set xs \<Longrightarrow> P x \<longleftrightarrow> x = v) \<Longrightarrow> map (\<lambda>u. if P u then f u else u) xs = map (\<lambda>u. if u = v then f v else u) xs"
  by (intro map_cong) auto

definition replace_users :: "(user \<Rightarrow> bool) \<Rightarrow> (user \<Rightarrow> user) \<Rightarrow> auth_db \<Rightarrow> auth_db" where
  "replace_users P f db = db\<lparr>ad_users := map (\<lambda>u. if P u then f u else u) (ad_users db)\<rparr>"

lemma user_id_inj: "auth_ok db \<Longrightarrow> x \<in> set (ad_users db) \<Longrightarrow> v \<in> set (ad_users db) \<Longrightarrow> u_id x = u_id v \<longleftrightarrow> x = v"
  using sorted_id_inj [OF auth_okD(3)] by blast

lemma replace_users_eq:
  assumes ok: "auth_ok db" and v: "v \<in> set (ad_users db)" "P v" and only: "\<And>x. x \<in> set (ad_users db) \<Longrightarrow> P x \<Longrightarrow> x = v"
  shows "db\<lparr>ad_users := map (\<lambda>u. if P u then f u else u) (ad_users db)\<rparr> = replace_users (\<lambda>u. u_id u = u_id v) f db"
proof -
  have "P u = (u_id u = u_id v)" if "u \<in> set (ad_users db)" for u using user_id_inj [OF ok that v(1)] v(2) only [OF that] by blast
  then have "map (\<lambda>u. if P u then f u else u) (ad_users db) = map (\<lambda>u. if u_id u = u_id v then f u else u) (ad_users db)" by (intro map_cong) simp_all
  then show ?thesis by (simp only: replace_users_def)
qed

lemma find_replaced:
  assumes ok: "auth_ok db" and v: "v \<in> set (ad_users db)" "Q (f v)" and only: "\<And>x. x \<in> set (ad_users db) \<Longrightarrow> x \<noteq> v \<Longrightarrow> \<not> Q x"
  shows "find Q (ad_users (replace_users (\<lambda>u. u_id u = u_id v) f db)) = Some (f v)"
proof (rule find_unique)
  show "f v \<in> set (ad_users (replace_users (\<lambda>u. u_id u = u_id v) f db))" using v(1) by (auto simp: replace_users_def intro!: image_eqI [of _ _ v])
  show "y = f v" if y: "y \<in> set (ad_users (replace_users (\<lambda>u. u_id u = u_id v) f db))" "Q y" for y
  proof -
    obtain u where u: "u \<in> set (ad_users db)" "y = (if u_id u = u_id v then f u else u)" using y(1) by (auto simp: replace_users_def)
    show ?thesis
    proof (cases "u = v")
      case False
      then have "y = u" using u user_id_inj [OF ok u(1) v(1)] by simp
      then show ?thesis using only [OF u(1) False] y(2) by simp
    qed (use u in simp)
  qed
qed (rule v(2))

text \<open>The three ways an account is written, and the refusal.\<close>

lemma upsert_existing:
  assumes ok: "auth_ok db" and call: "upsert_google_user p now db = (res, db')" and Some: "find (is_account p) (ad_users db) = Some v"
  obtains (refresh) "v \<in> set (ad_users db)" "is_account p v" "res = Inr (refreshed p now v)" "db' = replace_users (\<lambda>u. u_id u = u_id v) (refreshed p now) db"
  | (refuse) w where "w \<in> set (ad_users db)" "u_email w = gp_email p" "\<not> is_account p w" "res = Inl (AccountConflictError (gp_email p))" "db' = db"
proof -
  have unique: "users_unique (ad_users db)" using auth_okD(1) [OF ok] .
  have v: "v \<in> set (ad_users db)" "is_account p v" using find_SomeD [OF Some] by auto
  have only: "x = v" if "x \<in> set (ad_users db)" "is_account p x" for x
    using users_uniqueD(2) [OF unique that(1) v(1)] that(2) v(2) by (simp add: is_account_def)
  note db' = replace_users_eq [of db v "is_account p" "refreshed p now", OF ok v only]
  show thesis
  proof (cases "users_unique (map (\<lambda>u. if is_account p u then refreshed p now u else u) (ad_users db))")
    case True
    have "find (is_account p) (ad_users (replace_users (\<lambda>u. u_id u = u_id v) (refreshed p now) db)) = Some (refreshed p now v)"
      by (rule find_replaced [OF ok v(1)]) (use v(2) in \<open>simp add: is_account_def refreshed_def\<close>, use only in blast)
    then show thesis using refresh [OF v] call True Some db' by (simp add: upsert_google_user_def set_users_def)
  next
    case False
    have "map (\<lambda>u. if is_account p u then refreshed p now u else u) (ad_users db) = map (\<lambda>u. if u = v then refreshed p now v else u) (ad_users db)"
      using only v(2) by (intro map_if_one) blast
    then have "\<not> users_unique (map (\<lambda>u. if u = v then refreshed p now v else u) (ad_users db))" using False by (simp only: simp_thms)
    then obtain w where w: "w \<in> set (ad_users db)" "w \<noteq> v" "u_email w = gp_email p \<or> is_account p w"
      using users_unique_replace [OF unique, of v "refreshed p now v"] v(2) by (auto simp: refreshed_def is_account_def)
    then have "\<not> is_account p w" "u_email w = gp_email p" using only by blast+
    then show thesis using refuse [OF w(1)] call False Some by (simp add: upsert_google_user_def set_users_def)
  qed
qed

lemma upsert_new:
  assumes ok: "auth_ok db" and call: "upsert_google_user p now db = (res, db')" and None: "find (is_account p) (ad_users db) = None"
  obtains (create) "\<forall>v \<in> set (ad_users db). u_email v \<noteq> gp_email p" "res = Inr (new_user p now db)"
      "db' = db\<lparr>ad_users := ad_users db @ [new_user p now db], ad_user_seq := ad_user_seq db + 1\<rparr>"
  | (rebind) v where "v \<in> set (ad_users db)" "u_issuer v = gp_issuer p" "u_email v = gp_email p"
      "res = Inr (rebound p now v)" "db' = replace_users (\<lambda>u. u_id u = u_id v) (rebound p now) db"
  | (refuse) v where "v \<in> set (ad_users db)" "u_email v = gp_email p" "\<not> is_account p v" "res = Inl (AccountConflictError (gp_email p))" "db' = db"
proof -
  have unique: "users_unique (ad_users db)" using auth_okD(1) [OF ok] .
  have none: "\<not> is_account p x" if "x \<in> set (ad_users db)" for x using that None by (auto simp: find_None_iff)
  show thesis
  proof (cases "users_unique (ad_users db @ [new_user p now db])")
    case True
    then have "\<forall>v \<in> set (ad_users db). u_email v \<noteq> gp_email p" by (force simp: users_unique_def new_user_def)
    moreover have "find (is_account p) (ad_users db @ [new_user p now db]) = Some (new_user p now db)"
      using none by (intro find_unique) (auto simp: is_account_def new_user_def)
    ultimately show thesis using create call True None by (simp add: upsert_google_user_def set_users_def)
  next
    case False
    have "(gp_issuer p, gp_google_sub p) \<notin> (\<lambda>u. (u_issuer u, u_google_sub u)) ` set (ad_users db)"
    proof
      assume "(gp_issuer p, gp_google_sub p) \<in> (\<lambda>u. (u_issuer u, u_google_sub u)) ` set (ad_users db)"
      then obtain u where "u \<in> set (ad_users db)" "gp_issuer p = u_issuer u" "gp_google_sub p = u_google_sub u" by auto
      then show False using none [of u] by (simp add: is_account_def)
    qed
    then have "gp_email p \<in> u_email ` set (ad_users db)" using False unique by (auto simp: users_unique_def new_user_def simp del: image_iff)
    then obtain v where v: "v \<in> set (ad_users db)" "u_email v = gp_email p" by auto
    have only: "x = v" if "x \<in> set (ad_users db)" "u_email x = gp_email p" for x using users_uniqueD(1) [OF unique that(1) v(1)] that(2) v(2) by simp
    let ?same = "\<lambda>u. u_email u = gp_email p \<and> u_issuer u = gp_issuer p"
    show thesis
    proof (cases "u_issuer v = gp_issuer p")
      case True
      have "{x. ?same x} \<inter> set (ad_users db) = {v}" using v True only by blast
      then have one: "row_count ?same (ad_users db) = 1" using distinct_users [OF unique] by (simp add: row_count_def distinct_length_filter)
      have uniq: "users_unique (map (\<lambda>u. if ?same u then rebound p now u else u) (ad_users db))"
      proof -
        have "map (\<lambda>u. if ?same u then rebound p now u else u) (ad_users db) = map (\<lambda>u. if u = v then rebound p now v else u) (ad_users db)"
          using only v(2) True by (intro map_if_one) blast
        moreover have "u_email x \<noteq> gp_email p \<and> (u_issuer x, u_google_sub x) \<noteq> (gp_issuer p, gp_google_sub p)" if "x \<in> set (ad_users db)" "x \<noteq> v" for x
          using only [OF that(1)] none [OF that(1)] that(2) by (auto simp: is_account_def)
        then have "users_unique (map (\<lambda>u. if u = v then rebound p now v else u) (ad_users db))"
          using users_unique_replace [OF unique, of v "rebound p now v"] v(2) by (simp add: rebound_def)
        ultimately show ?thesis by (simp only: simp_thms)
      qed
      have db': "db\<lparr>ad_users := map (\<lambda>u. if ?same u then rebound p now u else u) (ad_users db)\<rparr> = replace_users (\<lambda>u. u_id u = u_id v) (rebound p now) db"
        using v(2) True only by (intro replace_users_eq [OF ok v(1)]) simp_all
      have "find (is_account p) (ad_users (replace_users (\<lambda>u. u_id u = u_id v) (rebound p now) db)) = Some (rebound p now v)"
        using none by (intro find_replaced [OF ok v(1)]) (simp_all add: is_account_def rebound_def)
      then show thesis using rebind [OF v(1) True v(2)] call None \<open>\<not> users_unique (ad_users db @ _)\<close> uniq db' one
        by (simp add: upsert_google_user_def set_users_def)
    next
      case False
      then have same: "\<not> ?same x" if "x \<in> set (ad_users db)" for x using only that by blast
      then have "map (\<lambda>u. if ?same u then rebound p now u else u) (ad_users db) = ad_users db" by (intro map_idI) auto
      moreover have "row_count ?same (ad_users db) = 0" using same by (simp add: row_count_def)
      ultimately show thesis using refuse [OF v none [OF v(1)]] call None \<open>\<not> users_unique (ad_users db @ _)\<close> unique by (simp add: upsert_google_user_def set_users_def)
    qed
  qed
qed

text \<open>
  C16. Signing in writes the account of that provider and subject and no other one: the account it returns carries the signed-in
  identity; every other account is left as it was; an existing account changes hands only within its own provider, and never
  gains or loses its administrator flag; a new account is no administrator. A sign-in that is refused changes nothing, and the
  email is then held by another account.
\<close>

theorem signin_keeps_accounts_apart:
  assumes "auth_file cr jc db" "upsert_google_user p now db = (res, db')"
  shows "case res of
      Inr u \<Rightarrow> u \<in> set (ad_users db') \<and> u_issuer u = gp_issuer p \<and> u_google_sub u = gp_google_sub p \<and> u_email u = gp_email p \<and>
        filter (\<lambda>v. u_id v \<noteq> u_id u) (ad_users db') = filter (\<lambda>v. u_id v \<noteq> u_id u) (ad_users db) \<and>
        (case find_user (u_id u) db of Some v \<Rightarrow> u_issuer v = gp_issuer p \<and> u_is_admin u = u_is_admin v | None \<Rightarrow> \<not> u_is_admin u)
    | Inl e \<Rightarrow> db' = db \<and> e = AccountConflictError (gp_email p) \<and> (\<exists>v \<in> set (ad_users db). u_email v = gp_email p \<and> \<not> is_account p v)"
proof -
  have ok: "auth_ok db" using auth_file_ok [OF assms(1)] .
  have others: "filter (\<lambda>x. u_id x \<noteq> u_id v) (ad_users (replace_users (\<lambda>u. u_id u = u_id v) f db)) = filter (\<lambda>x. u_id x \<noteq> u_id v) (ad_users db)"
    if "\<And>u. u_id (f u) = u_id u" for f v
    unfolding replace_users_def using that by (auto intro!: filter_map_same)
  have mem: "f v \<in> set (ad_users (replace_users (\<lambda>u. u_id u = u_id v) f db))" if "v \<in> set (ad_users db)" for f v
    using that by (auto simp: replace_users_def intro!: image_eqI [of _ _ v])
  show ?thesis
  proof (cases "find (is_account p) (ad_users db)")
    case (Some v)
    from ok assms(2) Some show ?thesis
    proof (cases rule: upsert_existing)
      case refresh
      then show ?thesis using mem [of v "refreshed p now"] others [of "refreshed p now" v] find_user_eq [OF ok refresh(1)]
        by (simp add: refreshed_def is_account_def)
    qed auto
  next
    case None
    from ok assms(2) None show ?thesis
    proof (cases rule: upsert_new)
      case create
      have "find_user (ad_user_seq db + 1) db = None" using auth_okD(4) [OF ok] by (fastforce simp: find_user_def find_None_iff)
      moreover have "filter (\<lambda>v. u_id v \<noteq> ad_user_seq db + 1) (ad_users db) = ad_users db" using auth_okD(4) [OF ok] by (fastforce simp: filter_id_conv)
      ultimately show ?thesis using create by (simp add: new_user_def)
    next
      case (rebind v)
      then show ?thesis using mem [of v "rebound p now"] others [of "rebound p now" v] find_user_eq [OF ok rebind(1)]
        by (simp add: rebound_def)
    qed auto
  qed
qed

section \<open>Setup links\<close>

lemma find_last: "\<forall>x \<in> set xs. \<not> P x \<Longrightarrow> find P (xs @ [x]) = (if P x then Some x else None)"
  by (induction xs) auto

text \<open>
  A setup link works from its creation until it expires, and only while the token it was made for is active: it then gives the
  harness and the models it was made with, and nothing otherwise.
\<close>

theorem setup_link_lifetime:
  assumes call: "create_setup_link cr jc user_id token_id harness models ttl link_id now db = (Inr (link, expires), db')"
    and codec: "jc_loads jc (jc_dumps jc (JList (map JStr models))) = Some (JList (map JStr models))"
  shows "link = link_id \<and> expires = now + seconds ttl \<and>
    resolve_setup_link cr jc link_id later db' =
      Inr (if later < expires \<and> (\<exists>r \<in> set (ad_tokens db'). tr_id r = token_id \<and> \<not> tr_revoked r)
           then Some \<lparr>sl_user_id = user_id, sl_token_id = token_id, sl_harness = harness, sl_models = models, sl_expires_at = expires\<rparr> else None)"
proof -
  let ?l = "\<lparr>ln_link_hash = cr_hash cr link_id, ln_user_id = user_id, ln_token_id = token_id, ln_harness = harness,
    ln_models = jc_dumps jc (JList (map JStr models)), ln_expires_at = now + seconds ttl\<rparr>"
  define ls where "ls = filter (\<lambda>l. \<not> ln_expires_at l \<le> now) (ad_links db)"
  have free: "\<not> list_ex (\<lambda>l. ln_link_hash l = cr_hash cr link_id) ls"
    using call by (cases "list_ex (\<lambda>l. ln_link_hash l = cr_hash cr link_id) ls") (simp_all add: create_setup_link_def Let_def ls_def)
  then have new: "ad_links db' = ls @ [?l]" "\<forall>l \<in> set ls. ln_link_hash l \<noteq> cr_hash cr link_id" "link = link_id" "expires = now + seconds ttl"
    using call by (simp_all add: create_setup_link_def Let_def ls_def [symmetric] list_ex_iff) auto
  define works where "works = (\<lambda>l :: link_row. ln_link_hash l = cr_hash cr link_id \<and> ln_expires_at l > later \<and>
      list_ex (\<lambda>r. tr_id r = ln_token_id l \<and> \<not> tr_revoked r) (ad_tokens db'))"
  have "\<forall>l \<in> set ls. \<not> works l" using new(2) by (simp add: works_def)
  then have "find works (ad_links db') = (if works ?l then Some ?l else None)" unfolding new(1) by (rule find_last)
  moreover have "works ?l \<longleftrightarrow> later < expires \<and> (\<exists>r \<in> set (ad_tokens db'). tr_id r = token_id \<and> \<not> tr_revoked r)"
    by (simp add: works_def new(4) list_ex_iff)
  ultimately show ?thesis using new(3,4) codec all_strings_map by (simp add: resolve_setup_link_def works_def [symmetric])
qed

section \<open>Usage\<close>

lemma sum_by_key:
  fixes f :: "_ \<Rightarrow> int"
  assumes "finite K" "g ` set xs \<subseteq> K"
  shows "(\<Sum>k \<in> K. sum_list (map f (filter (\<lambda>x. g x = k) xs))) = sum_list (map f xs)"
  using assms(2)
proof (induction xs)
  case (Cons x xs)
  have "sum_list (map f (filter (\<lambda>y. g y = k) (x # xs))) = (if g x = k then f x else 0) + sum_list (map f (filter (\<lambda>y. g y = k) xs))" for k
    by simp
  then show ?case using Cons assms(1) by (simp add: sum.distrib sum.delta del: filter.simps)
qed simp

lemma group_rows_sum: "sum_list (map (\<lambda>x. sum_list (map f (snd x))) (group_rows g xs)) = sum_list (map f xs)" for f :: "_ \<Rightarrow> int"
  using sum_by_key [of "set (map g xs)" g xs f]
  by (simp add: group_rows_def comp_def sum_list_distinct_conv_sum_set)

definition totals_add :: "UsageTotals \<Rightarrow> UsageTotals \<Rightarrow> UsageTotals" where
  "totals_add a b = \<lparr>ut_request_count = ut_request_count a + ut_request_count b, ut_prompt_tokens = ut_prompt_tokens a + ut_prompt_tokens b,
     ut_completion_tokens = ut_completion_tokens a + ut_completion_tokens b, ut_total_tokens = ut_total_tokens a + ut_total_tokens b\<rparr>"

definition totals_zero :: UsageTotals where
  "totals_zero = \<lparr>ut_request_count = 0, ut_prompt_tokens = 0, ut_completion_tokens = 0, ut_total_tokens = 0\<rparr>"

definition totals_sum :: "UsageTotals list \<Rightarrow> UsageTotals" where
  "totals_sum ts = foldr totals_add ts totals_zero"

lemma totals_sum_fields:
  "ut_request_count (totals_sum ts) = sum_list (map ut_request_count ts)" "ut_prompt_tokens (totals_sum ts) = sum_list (map ut_prompt_tokens ts)"
  "ut_completion_tokens (totals_sum ts) = sum_list (map ut_completion_tokens ts)" "ut_total_tokens (totals_sum ts) = sum_list (map ut_total_tokens ts)"
  by (induction ts) (simp_all add: totals_sum_def totals_add_def totals_zero_def)

lemma totals_sum_perm:
  assumes "mset ts = mset ts'"
  shows "totals_sum ts = totals_sum ts'"
proof -
  have "sum_list (map f ts) = sum_list (map f ts')" for f :: "UsageTotals \<Rightarrow> int" using assms by (metis mset_map sum_mset_sum_list)
  then show ?thesis by (intro UsageTotals.equality) (simp_all add: totals_sum_fields)
qed

lemma totals_sum_groups: "totals_sum (map (\<lambda>x. usage_sum (snd x)) (group_rows g xs)) = usage_sum xs"
  using group_rows_sum [of ug_request_count g xs] group_rows_sum [of ug_prompt_tokens g xs]
    group_rows_sum [of ug_completion_tokens g xs] group_rows_sum [of ug_total_tokens g xs]
  by (intro UsageTotals.equality) (simp_all add: totals_sum_fields usage_sum_def comp_def case_prod_beta)

text \<open>
  C17. Usage adds up: a recorded request adds its counts to its user's totals and to nobody else's, and the totals by model, by user
  and token group, and over the whole table are sums of the same rows.
\<close>

theorem usage_adds_up:
  "get_usage_totals v (record_usage u now db) =
     (if v = ug_user_id u then totals_add (get_usage_totals v db) (usage_sum [u]) else get_usage_totals v db) \<and>
   get_usage_totals_all (record_usage u now db) = totals_add (get_usage_totals_all db) (usage_sum [u]) \<and>
   totals_sum (map snd (get_usage_by_model db)) = get_usage_totals_all db \<and>
   totals_sum (map tu_totals (get_usage_summary v db)) = get_usage_totals v db"
proof -
  have "totals_sum (map snd (get_usage_by_model db)) = get_usage_totals_all db"
    using totals_sum_groups [of ug_model "ad_usage db"] by (simp add: get_usage_by_model_def get_usage_totals_all_def case_prod_beta comp_def)
  moreover have "totals_sum (map tu_totals (get_usage_summary v db)) = get_usage_totals v db"
    using totals_sum_groups [of "\<lambda>u. (ug_token_id u, ug_model u, ug_endpoint u)" "filter (\<lambda>u. ug_user_id u = v) (ad_usage db)"]
    by (subst totals_sum_perm [of _ "map (\<lambda>x. usage_sum (snd x)) (group_rows (\<lambda>u. (ug_token_id u, ug_model u, ug_endpoint u)) (filter (\<lambda>u. ug_user_id u = v) (ad_usage db)))"])
      (simp_all add: get_usage_summary_def Let_def get_usage_totals_def case_prod_beta comp_def)
  ultimately show ?thesis
    by (simp add: record_usage_def update_tokens_def get_usage_totals_def get_usage_totals_all_def usage_sum_def totals_add_def)
qed

section \<open>Sample sign-in and link\<close>

definition sample_other :: google_profile where
  "sample_other = sample_profile\<lparr>gp_issuer := ''https://sso.example'', gp_google_sub := ''z''\<rparr>"

theorem signin_keeps_accounts_apart_witness:
  "fst (upsert_google_user sample_other 9 sample_users) = Inl (AccountConflictError ''a@x'') \<and> snd (upsert_google_user sample_other 9 sample_users) = sample_users"
proof -
  have refused: "case fst (upsert_google_user sample_other 9 sample_users) of Inl e \<Rightarrow> True | Inr u \<Rightarrow> False" by code_simp
  have call: "upsert_google_user sample_other 9 sample_users =
    (fst (upsert_google_user sample_other 9 sample_users), snd (upsert_google_user sample_other 9 sample_users))" by simp
  from signin_keeps_accounts_apart [OF sample_files(1) call] refused show ?thesis
    by (auto simp: sample_other_def sample_profile_def split: sum.splits)
qed

definition sample_link :: "(auth_error + string \<times> micros) \<times> auth_db" where
  "sample_link = create_setup_link sample_crypto sample_codec 1 1 ''opencode'' [''m''] 60 ''link'' 10 sample_tokens"

theorem setup_link_lifetime_witness:
  "fst sample_link = Inr (''link'', 60000010) \<and>
   resolve_setup_link sample_crypto sample_codec ''link'' 60000009 (snd sample_link) \<noteq> Inr None \<and>
   resolve_setup_link sample_crypto sample_codec ''link'' 60000010 (snd sample_link) = Inr None"
proof -
  have link: "fst sample_link = Inr (''link'', 60000010)" by code_simp
  then have call: "create_setup_link sample_crypto sample_codec 1 1 ''opencode'' [''m''] 60 ''link'' 10 sample_tokens = (Inr (''link'', 60000010), snd sample_link)"
    by (simp add: sample_link_def prod_eq_iff)
  have "list_ex (\<lambda>r. tr_id r = 1 \<and> \<not> tr_revoked r) (ad_tokens (snd sample_link))" by code_simp
  then have "\<exists>r \<in> set (ad_tokens (snd sample_link)). tr_id r = 1 \<and> \<not> tr_revoked r" by (simp add: list_ex_iff)
  then show ?thesis using link setup_link_lifetime [OF call, of 60000009] setup_link_lifetime [OF call, of 60000010] by (simp add: sample_codec_def)
qed

end
