(* ===== verification/Allowlist.thy ===== *)
theory Allowlist
  imports EtcdClient PyTime
begin

text \<open>
  \<^verbatim>\<open>auth/allowlist.py\<close>: the SSO allowlist, a document fetched over HTTPS, cached in memory until its window ends and in a file for
  the next start. The HTTP response, \<open>json.loads\<close>, both clocks, the local time zone and the file system are arguments; while a
  request waits for the lock other requests change the cache, which is an argument too. A frozenset is a list read through \<open>set\<close>.
\<close>

section \<open>Documents\<close>

datatype allow_error = Unavailable string | InvalidDocument

type_synonym domains = "(string, string list) dict"

text \<open>\<open>s.rsplit("@", 1)\<close> of a text that has an at sign.\<close>

definition after_at :: "string \<Rightarrow> string" where
  "after_at s = rev (takeWhile (\<lambda>c. c \<noteq> CHR 0x40) (rev s))"

definition before_at :: "string \<Rightarrow> string" where
  "before_at s = rev (tl (dropWhile (\<lambda>c. c \<noteq> CHR 0x40) (rev s)))"

definition has_at :: "string \<Rightarrow> bool" where
  "has_at s \<longleftrightarrow> CHR 0x40 \<in> set s"

text \<open>\<open>rsplit("@", 1)[0]\<close>, which is the whole text when it has no at sign.\<close>

definition user_part :: "string \<Rightarrow> string" where
  "user_part s = (if has_at s then before_at s else s)"

definition email_domain :: "string \<Rightarrow> string" where
  "email_domain email = (if \<not> has_at email then [] else str_lower (str_strip (after_at email)))"

definition add_user :: "string \<Rightarrow> string \<Rightarrow> domains \<Rightarrow> domains" where
  "add_user domain user ds =
     (let users = dict_get_or ds domain [] in dict_set domain (if user \<in> set users then users else users @ [user]) ds)"

fun normalize_flat :: "string option \<Rightarrow> string list \<Rightarrow> domains \<Rightarrow> allow_error + domains" where
  "normalize_flat dflt [] ds = Inr ds"
| "normalize_flat dflt (entry # entries) ds =
     (let name = str_lower (str_strip entry)
      in if name = [] then normalize_flat dflt entries ds
         else if has_at name then
           (if after_at name = [] \<or> before_at name = [] then Inl (Unavailable ''flat list contains malformed email entries'')
            else normalize_flat dflt entries (add_user (after_at name) (before_at name) ds))
         else
           (case dflt of
              Some d \<Rightarrow>
                if d = [] then Inl (Unavailable ''flat username list requires sso_whitelist_default_domain'')
                else normalize_flat dflt entries (add_user d name ds)
            | None \<Rightarrow> Inl (Unavailable ''flat username list requires sso_whitelist_default_domain'')))"

text \<open>\<open>dict[str, list[str]] | list[str]\<close>.\<close>

fun str_items :: "json list \<Rightarrow> string list option" where
  "str_items [] = Some []"
| "str_items (JStr s # xs) = map_option (\<lambda>ys. s # ys) (str_items xs)"
| "str_items (x # xs) = None"

fun str_lists :: "(string \<times> json) list \<Rightarrow> (string \<times> string list) list option" where
  "str_lists [] = Some []"
| "str_lists ((k, JList xs) # kvs) =
     (case (str_items xs, str_lists kvs) of (Some ys, Some rest) \<Rightarrow> Some ((k, ys) # rest) | _ \<Rightarrow> None)"
| "str_lists (kv # kvs) = None"

definition clean_users :: "string list \<Rightarrow> string list" where
  "clean_users users = remdups (map (\<lambda>u. str_lower (str_strip u)) (filter (\<lambda>u. str_strip u \<noteq> []) users))"

definition clean_domains :: "(string \<times> string list) list \<Rightarrow> domains" where
  "clean_domains kvs = dict_comp (map (\<lambda>(k, users). (str_lower (str_strip k), clean_users users)) (filter (\<lambda>(k, users). str_strip k \<noteq> []) kvs))"

definition normalize_document :: "json \<Rightarrow> string option \<Rightarrow> allow_error + domains" where
  "normalize_document raw dflt =
     (case raw of
        JList xs \<Rightarrow> (case str_items xs of None \<Rightarrow> Inl InvalidDocument | Some entries \<Rightarrow> normalize_flat dflt entries [])
      | JObj kvs \<Rightarrow> (case str_lists kvs of None \<Rightarrow> Inl InvalidDocument | Some ds \<Rightarrow> Inr (clean_domains ds))
      | _ \<Rightarrow> Inl InvalidDocument)"

section \<open>Fetching\<close>

datatype response_end = BodyComplete | BodyFails

datatype response = NoResponse | Response int "string list" response_end

definition MAX_ALLOWLIST_BYTES :: nat where
  "MAX_ALLOWLIST_BYTES = 1048576"

fun read_body :: "string \<Rightarrow> string list \<Rightarrow> response_end \<Rightarrow> allow_error + string" where
  "read_body body [] BodyComplete = Inr body"
| "read_body body [] BodyFails = Inl (Unavailable ''allowlist fetch failed'')"
| "read_body body (chunk # chunks) e =
     (if length (body @ chunk) > MAX_ALLOWLIST_BYTES then Inl (Unavailable ''allowlist document too large'')
      else read_body (body @ chunk) chunks e)"

definition fetch :: "(string \<Rightarrow> json option) \<Rightarrow> string option \<Rightarrow> response \<Rightarrow> allow_error + domains" where
  "fetch loads dflt r =
     (case r of
        NoResponse \<Rightarrow> Inl (Unavailable ''allowlist fetch failed'')
      | Response status chunks e \<Rightarrow>
          if status \<noteq> 200 then Inl (Unavailable (''allowlist returned HTTP '' @ str_int status))
          else ebind (read_body [] chunks e) (\<lambda>body.
            case Option.bind (utf8_decode body) loads of
              None \<Rightarrow> Inl (Unavailable ''allowlist document is invalid JSON'')
            | Some raw \<Rightarrow>
                (case normalize_document raw dflt of
                   Inl InvalidDocument \<Rightarrow> Inl (Unavailable ''allowlist document is invalid JSON'')
                 | res \<Rightarrow> res)))"

section \<open>The cache\<close>

text \<open>The document last written to the cache file, with the time it was written.\<close>

record cache_file =
  cf_text :: string
  cf_mtime :: micros

record SSOAllowlist =
  al_daily :: bool
  al_poll_time :: "(int \<times> int) option"
  al_cache_configured :: bool
  al_default_domain :: "string option"
  al_extra_users :: "string list"
  al_extra_domains :: "string list"
  al_domains :: domains
  al_retry_after :: micros
  al_next_refresh :: micros
  al_loaded :: bool
  al_file :: "cache_file option"

definition RETRY_COOLDOWN :: micros where
  "RETRY_COOLDOWN = seconds 30"

text \<open>The local time zone: local time for an instant, and \<open>datetime.timestamp\<close> of a local time.\<close>

record zone =
  zn_local :: "micros \<Rightarrow> micros"
  zn_instant :: "micros \<Rightarrow> micros"

definition HOUR :: micros where
  "HOUR = seconds 3600"

definition next_refresh_at :: "zone \<Rightarrow> SSOAllowlist \<Rightarrow> micros \<Rightarrow> micros" where
  "next_refresh_at z a now =
     (let current = zn_local z now
      in if al_daily a then
           (case al_poll_time a of
              None \<Rightarrow> zn_instant z current + seconds 86400
            | Some (hour, minute) \<Rightarrow>
                let boundary = current div DAY * DAY + hour * HOUR + minute * seconds 60
                in zn_instant z (if boundary \<le> current then boundary + DAY else boundary))
         else
           let boundary = current div HOUR * HOUR
           in zn_instant z (if boundary \<le> current then boundary + HOUR else boundary))"

definition fresh :: "SSOAllowlist \<Rightarrow> micros \<Rightarrow> bool" where
  "fresh a now \<longleftrightarrow> al_loaded a \<and> now < al_next_refresh a"

definition cooling_down :: "SSOAllowlist \<Rightarrow> micros \<Rightarrow> bool" where
  "cooling_down a t \<longleftrightarrow> t < al_retry_after a"

definition cache_document :: "domains \<Rightarrow> json" where
  "cache_document ds = JObj (map (\<lambda>(d, users). (d, JList (map JStr (sort (remdups users))))) (sort_key fst ds))"

text \<open>\<open>write_ok\<close>: neither the write nor the replacement of the file raised an \<open>OSError\<close>.\<close>

definition write_cache :: "(json \<Rightarrow> string) \<Rightarrow> bool \<Rightarrow> micros \<Rightarrow> SSOAllowlist \<Rightarrow> SSOAllowlist" where
  "write_cache dumps write_ok now a =
     (if al_cache_configured a \<and> write_ok then a\<lparr>al_file := Some \<lparr>cf_text = utf8_encode (dumps (cache_document (al_domains a))), cf_mtime = now\<rparr>\<rparr> else a)"

text \<open>
  What one check meets: the wall clock and the monotonic clock at each reading, what other requests did while it waited for the lock,
  and the response; \<open>None\<close> is the time limit of the fetch.
\<close>

record allow_env =
  ae_codec :: json_codec
  ae_zone :: zone
  ae_now :: micros
  ae_mono :: micros
  ae_others :: "SSOAllowlist \<Rightarrow> SSOAllowlist"
  ae_now_locked :: micros
  ae_mono_locked :: micros
  ae_response :: "response option"
  ae_mono_failed :: micros
  ae_now_fetched :: micros
  ae_write_ok :: bool

definition current_domains :: "allow_env \<Rightarrow> SSOAllowlist \<Rightarrow> (allow_error + domains) \<times> SSOAllowlist" where
  "current_domains v a =
     (if fresh a (ae_now v) then (Inr (al_domains a), a)
      else if cooling_down a (ae_mono v) then (Inl (Unavailable ''allowlist temporarily unavailable''), a)
      else
        let a = ae_others v a
        in if fresh a (ae_now_locked v) then (Inr (al_domains a), a)
           else if cooling_down a (ae_mono_locked v) then (Inl (Unavailable ''allowlist temporarily unavailable''), a)
           else
             let failed = a\<lparr>al_retry_after := ae_mono_failed v + RETRY_COOLDOWN\<rparr>
             in case ae_response v of
                  None \<Rightarrow> (Inl (Unavailable ''allowlist fetch timed out''), failed)
                | Some r \<Rightarrow>
                    (case fetch (jc_loads (ae_codec v)) (al_default_domain a) r of
                       Inl e \<Rightarrow> (Inl e, failed)
                     | Inr ds \<Rightarrow>
                         let a = a\<lparr>al_domains := ds, al_loaded := True, al_next_refresh := next_refresh_at (ae_zone v) a (ae_now_fetched v)\<rparr>
                         in (Inr ds, write_cache (jc_dumps (ae_codec v)) (ae_write_ok v) (ae_now_fetched v) a)))"

definition is_allowed :: "allow_env \<Rightarrow> string \<Rightarrow> SSOAllowlist \<Rightarrow> (allow_error + bool) \<times> SSOAllowlist" where
  "is_allowed v email a =
     (let normalized = str_lower (str_strip email)
      in if normalized \<in> set (al_extra_users a) then (Inr True, a)
         else
           let domain = email_domain normalized
           in if domain = [] then (Inr False, a)
              else if domain \<in> set (al_extra_domains a) then (Inr True, a)
              else
                (case current_domains v a of
                   (Inl e, a) \<Rightarrow> (Inl e, a)
                 | (Inr ds, a) \<Rightarrow>
                     (Inr (case dict_get ds domain of None \<Rightarrow> False | Some users \<Rightarrow> user_part normalized \<in> set users), a)))"

definition enforce_allowlist :: "allow_env \<Rightarrow> string \<Rightarrow> SSOAllowlist option \<Rightarrow> (allow_error + bool) \<times> SSOAllowlist option" where
  "enforce_allowlist v email al =
     (case al of
        None \<Rightarrow> (Inl (Unavailable ''whitelist is not configured''), None)
      | Some a \<Rightarrow> (case is_allowed v email a of (res, a) \<Rightarrow> (res, Some a)))"

section \<open>Starting\<close>

record allow_config =
  ac_daily :: bool
  ac_poll_time :: "(int \<times> int) option"
  ac_cache_configured :: bool
  ac_extra_users :: "string list"
  ac_extra_domains :: "string list"
  ac_default_domain :: "string option"

text \<open>\<open>_load_seed\<close>; \<open>read_ok\<close>: reading the file raised no \<open>OSError\<close>. What it does not catch ends the constructor.\<close>

definition load_seed :: "json_codec \<Rightarrow> zone \<Rightarrow> bool \<Rightarrow> micros \<Rightarrow> SSOAllowlist \<Rightarrow> allow_error + SSOAllowlist" where
  "load_seed jc z read_ok now a =
     (case al_file a of
        None \<Rightarrow> Inr a
      | Some f \<Rightarrow>
          if \<not> al_cache_configured a \<or> \<not> read_ok then Inr a
          else
            case Option.bind (utf8_decode (cf_text f)) (jc_loads jc) of
              None \<Rightarrow> Inr a
            | Some raw \<Rightarrow>
                (case normalize_document raw None of
                   Inl InvalidDocument \<Rightarrow> Inr a
                 | Inl e \<Rightarrow> Inl e
                 | Inr ds \<Rightarrow> Inr (a\<lparr>al_domains := ds, al_loaded := True, al_next_refresh := max (next_refresh_at z a (cf_mtime f)) now\<rparr>)))"

definition clean_all :: "string list \<Rightarrow> string list" where
  "clean_all xs = map (\<lambda>x. str_lower (str_strip x)) (filter (\<lambda>x. str_strip x \<noteq> []) xs)"

definition allowlist_new :: "json_codec \<Rightarrow> zone \<Rightarrow> bool \<Rightarrow> micros \<Rightarrow> allow_config \<Rightarrow> cache_file option \<Rightarrow> allow_error + SSOAllowlist" where
  "allowlist_new jc z read_ok now c f =
     (let dflt = (case ac_default_domain c of None \<Rightarrow> None | Some d \<Rightarrow> if str_lower (str_strip d) = [] then None else Some (str_lower (str_strip d)));
          a = \<lparr>al_daily = ac_daily c, al_poll_time = ac_poll_time c, al_cache_configured = ac_cache_configured c, al_default_domain = dflt,
               al_extra_users = clean_all (ac_extra_users c), al_extra_domains = clean_all (ac_extra_domains c), al_domains = [],
               al_retry_after = 0, al_next_refresh = 0, al_loaded = False, al_file = f\<rparr>
      in load_seed jc z read_ok now (a\<lparr>al_next_refresh := next_refresh_at z a now\<rparr>))"

section \<open>Freshness\<close>

text \<open>
  C12. The allowlist fails closed: an email passes only as one of the configured extra users, under an extra domain, or because its user
  is listed for its domain in the document held after the check; that document is then either still inside its window at the check,
  or was fetched by this very check with status 200.
\<close>

theorem allowlist_fails_closed:
  assumes "is_allowed v email a = (Inr True, a')"
  shows "str_lower (str_strip email) \<in> set (al_extra_users a) \<or> email_domain (str_lower (str_strip email)) \<in> set (al_extra_domains a) \<or>
    ((\<exists>users. dict_get (al_domains a') (email_domain (str_lower (str_strip email))) = Some users \<and> user_part (str_lower (str_strip email)) \<in> set users) \<and>
     al_loaded a' \<and>
     (ae_now v < al_next_refresh a' \<or> ae_now_locked v < al_next_refresh a' \<or>
      (\<exists>chunks e. ae_response v = Some (Response 200 chunks e) \<and>
         fetch (jc_loads (ae_codec v)) (al_default_domain (ae_others v a)) (Response 200 chunks e) = Inr (al_domains a'))))"
proof -
  let ?n = "str_lower (str_strip email)"
  have cur: "al_domains a1 = ds \<and> al_loaded a1 \<and> (ae_now v < al_next_refresh a1 \<or> ae_now_locked v < al_next_refresh a1 \<or>
      (\<exists>chunks e. ae_response v = Some (Response 200 chunks e) \<and>
         fetch (jc_loads (ae_codec v)) (al_default_domain (ae_others v a)) (Response 200 chunks e) = Inr (al_domains a1)))"
    if "current_domains v a = (Inr ds, a1)" for ds a1
  proof -
    have ok: "\<exists>chunks e. r = Response 200 chunks e" if "fetch loads d r = Inr x" for loads d r x
      using that by (cases r) (auto simp: fetch_def split: if_splits)
    show ?thesis using that ok
      by (auto simp: current_domains_def Let_def fresh_def write_cache_def split: if_splits option.splits sum.splits) blast+
  qed
  consider "?n \<in> set (al_extra_users a)" | "email_domain ?n \<in> set (al_extra_domains a)"
    | ds users where "current_domains v a = (Inr ds, a')" "dict_get ds (email_domain ?n) = Some users" "user_part ?n \<in> set users"
    using assms by (auto simp: is_allowed_def Let_def split: if_splits prod.splits sum.splits option.splits)
  then show ?thesis using cur by cases auto
qed

text \<open>
  Where the local clock is a fixed offset from UTC, the window of a document that was fetched or written ends strictly later, at the
  latest one hour (hourly) or one day (daily at a wall-clock time) afterwards.
\<close>

theorem refresh_window_bounded:
  assumes "\<And>t. zn_local z t = t + offset" "\<And>t. zn_instant z t = t - offset"
    and "\<And>h m. al_poll_time a = Some (h, m) \<Longrightarrow> 0 \<le> h \<and> h < 24 \<and> 0 \<le> m \<and> m < 60"
  shows "now < next_refresh_at z a now \<and> next_refresh_at z a now \<le> now + (if al_daily a then DAY else HOUR)"
proof -
  let ?c = "now + offset"
  have units: "HOUR = 3600000000" "DAY = 86400000000" "seconds 60 = 60000000" "seconds 86400 = DAY" by (simp_all add: HOUR_def DAY_def seconds_def)
  have floor: "?c div k * k \<le> ?c" "?c < ?c div k * k + k" if "0 < k" for k :: int
    using mult_div_mod_eq [of k ?c] pos_mod_bound [OF that, of ?c] pos_mod_sign [OF that, of ?c] by (simp_all only: mult.commute [of k])
  show ?thesis
  proof (cases "al_daily a")
    case False
    then show ?thesis using floor [of HOUR] assms(1,2) by (auto simp: next_refresh_at_def Let_def units)
  next
    case True
    show ?thesis
    proof (cases "al_poll_time a")
      case None
      then show ?thesis using True assms(1,2) by (simp add: next_refresh_at_def Let_def units)
    next
      case (Some hm)
      obtain h m where hm: "hm = (h, m)" by (cases hm)
      then have "0 \<le> h * HOUR + m * seconds 60" "h * HOUR + m * seconds 60 < DAY" using assms(3) Some by (auto simp: units)
      then show ?thesis using True Some hm floor [of DAY] assms(1,2) by (auto simp: next_refresh_at_def Let_def units)
    qed
  qed
qed

text \<open>
  A fetch that fails, for whatever reason, keeps the document and its window, and for the next thirty seconds of the monotonic clock
  every check that needs the document is refused at once, without a request and without a change, unless a fresh document is held.
\<close>

theorem failed_fetch_cools_down:
  assumes "current_domains v a = (Inl e, a')" "e \<noteq> Unavailable ''allowlist temporarily unavailable''"
    and "ae_mono v' < ae_mono_failed v + seconds 30" "\<not> fresh a' (ae_now v')"
  shows "al_domains a' = al_domains (ae_others v a) \<and> al_next_refresh a' = al_next_refresh (ae_others v a) \<and>
    current_domains v' a' = (Inl (Unavailable ''allowlist temporarily unavailable''), a')"
proof -
  have "a' = (ae_others v a)\<lparr>al_retry_after := ae_mono_failed v + RETRY_COOLDOWN\<rparr>"
    using assms(1,2) by (auto simp: current_domains_def Let_def split: if_splits option.splits sum.splits)
  then show ?thesis using assms(3,4) by (simp add: current_domains_def cooling_down_def RETRY_COOLDOWN_def)
qed

section \<open>The cache file\<close>

lemma space_lower [simp]: "is_space (lower_char c) = is_space c"
proof (cases "65 \<le> (of_char c :: nat) \<and> (of_char c :: nat) \<le> 90")
  case True
  then have "(of_char (char_of ((of_char c :: nat) + 32) :: char) :: nat) = of_char c + 32" by (simp add: of_char_of)
  then show ?thesis using True by (simp add: lower_char_def is_space_def)
qed (auto simp: lower_char_def)

lemma strip_lower: "str_strip (str_lower s) = str_lower (str_strip s)"
  by (simp add: str_strip_def str_rstrip_def str_lower_def dropWhile_map rev_map comp_def)

lemma dropWhile_idem': "dropWhile P (dropWhile P xs) = dropWhile P xs"
  by (induction xs) auto

lemma dropWhile_strip: "dropWhile P (rev (dropWhile P (rev (dropWhile P xs)))) = rev (dropWhile P (rev (dropWhile P xs)))"
proof -
  let ?ys = "dropWhile P xs" and ?zs = "rev (dropWhile P (rev (dropWhile P xs)))"
  show ?thesis
  proof (cases ?zs)
    case (Cons z zs)
    have "?ys = ?zs @ rev (takeWhile P (rev ?ys))" by (metis rev_append rev_rev_ident takeWhile_dropWhile_id)
    then have "?ys = z # zs @ rev (takeWhile P (rev ?ys))" unfolding Cons by simp
    then have "\<not> P z" by (metis hd_dropWhile list.sel(1) list.distinct(1))
    then show ?thesis using Cons by simp
  next
    case Nil
    then show ?thesis by (simp only: dropWhile.simps)
  qed
qed

lemma strip_idem [simp]: "str_strip (str_strip s) = str_strip s"
  unfolding str_strip_def str_rstrip_def dropWhile_strip by (simp add: dropWhile_idem')

lemma lower_idem [simp]: "str_lower (str_lower s) = str_lower s"
  by (simp add: str_lower_def)

definition clean_name :: "string \<Rightarrow> bool" where
  "clean_name s \<longleftrightarrow> s \<noteq> [] \<and> str_strip s = s \<and> str_lower s = s"

definition normal_domains :: "domains \<Rightarrow> bool" where
  "normal_domains ds \<longleftrightarrow> dict_ok ds \<and> list_all (\<lambda>(d, users). clean_name d \<and> list_all clean_name users) ds"

definition listed :: "domains \<Rightarrow> string \<Rightarrow> string \<Rightarrow> bool" where
  "listed ds domain user \<longleftrightarrow> (case dict_get ds domain of None \<Rightarrow> False | Some users \<Rightarrow> user \<in> set users)"

lemma lower_empty [simp]: "str_lower s = [] \<longleftrightarrow> s = []"
  by (simp add: str_lower_def)

lemma cleaned [simp]: "clean_name (str_lower (str_strip s)) \<longleftrightarrow> str_strip s \<noteq> []"
  by (auto simp: clean_name_def strip_lower)

lemma foldl_set_mem: "set (foldl (\<lambda>d (k, v). dict_set k v d) d kvs) \<subseteq> set d \<union> set kvs"
proof (induction kvs arbitrary: d)
  case (Cons p kvs)
  obtain k v where p: "p = (k, v)" by fastforce
  have "set (dict_set k v d) \<subseteq> insert (k, v) (set d)" by (induction d) auto
  with Cons.IH [of "dict_set k v d"] p show ?case by auto
qed simp

lemma dict_comp_mem: "x \<in> set (dict_comp kvs) \<Longrightarrow> x \<in> set kvs"
  using foldl_set_mem [of "[]" kvs] by (auto simp: dict_comp_def)

lemma foldl_set_ok: "dict_ok d \<Longrightarrow> dict_ok (foldl (\<lambda>d (k, v). dict_set k v d) d kvs)"
  by (induction kvs arbitrary: d) auto

lemma clean_domains_normal: "normal_domains (clean_domains kvs)"
proof -
  have "dict_ok (clean_domains kvs)" by (simp add: clean_domains_def dict_comp_def foldl_set_ok)
  moreover have "clean_name d \<and> list_all clean_name users" if "(d, users) \<in> set (clean_domains kvs)" for d users
    using dict_comp_mem [OF that [unfolded clean_domains_def]] by (auto simp: list_all_iff clean_users_def)
  ultimately show ?thesis by (auto simp: normal_domains_def list_all_iff)
qed

lemma str_items_map [simp]: "str_items (map JStr xs) = Some xs"
  by (induction xs) auto

lemma str_lists_map [simp]: "str_lists (map (\<lambda>(d, users). (d, JList (map JStr (f users)))) ds) = Some (map (\<lambda>(d, users). (d, f users)) ds)"
  by (induction ds) auto

lemma clean_users_id: "list_all clean_name users \<Longrightarrow> set (clean_users users) = set users"
  by (auto simp: clean_users_def list_all_iff clean_name_def image_iff)

lemma clean_domains_id:
  assumes "normal_domains ds"
  shows "clean_domains ds = map (\<lambda>(d, users). (d, clean_users users)) ds"
proof -
  have "filter (\<lambda>(k, users). str_strip k \<noteq> []) ds = ds"
    using assms by (auto simp: normal_domains_def list_all_iff clean_name_def filter_id_conv)
  moreover have "map (\<lambda>(k, users). (str_lower (str_strip k), clean_users users)) ds = map (\<lambda>(d, users). (d, clean_users users)) ds"
    using assms by (auto simp: normal_domains_def list_all_iff clean_name_def)
  moreover have "distinct (map fst (map (\<lambda>(d, users). (d, clean_users users)) ds))"
    using assms by (simp add: normal_domains_def dict_ok_def comp_def split_def)
  ultimately show ?thesis unfolding clean_domains_def by (metis dict_comp_distinct)
qed

lemma listed_mem: "dict_ok ds \<Longrightarrow> listed ds d u \<longleftrightarrow> (\<exists>users. (d, users) \<in> set ds \<and> u \<in> set users)"
  by (auto simp: listed_def dict_mem_get split: option.splits)

lemma cache_document_reloads:
  assumes "normal_domains ds"
  shows "\<exists>ds'. normalize_document (cache_document ds) dflt = Inr ds' \<and> (\<forall>d u. listed ds' d u = listed ds d u)"
proof -
  let ?s = "map (\<lambda>(d, users). (d, sort (remdups users))) (sort_key fst ds)"
  have mem: "(d, us) \<in> set ?s \<longleftrightarrow> (\<exists>users. (d, users) \<in> set ds \<and> us = sort (remdups users))" for d us by auto
  have ok: "dict_ok ?s"
  proof -
    have "mset (map fst ?s) = mset (map fst ds)" by (simp add: comp_def split_def)
    then show ?thesis using assms by (metis dict_ok_def normal_domains_def mset_eq_imp_distinct_iff)
  qed
  have norm: "normal_domains ?s" using assms ok by (auto simp: normal_domains_def list_all_iff)
  have res: "normalize_document (cache_document ds) dflt = Inr (clean_domains ?s)"
    unfolding normalize_document_def cache_document_def json.case str_lists_map by simp
  have "listed (clean_domains ?s) d u = listed ds d u" for d u
  proof -
    have "dict_ok (clean_domains ?s)" using clean_domains_normal [of ?s] by (simp add: normal_domains_def)
    then have "listed (clean_domains ?s) d u \<longleftrightarrow> (\<exists>users. (d, users) \<in> set (clean_domains ?s) \<and> u \<in> set users)"
      by (rule listed_mem)
    also have "\<dots> \<longleftrightarrow> (\<exists>users. (d, users) \<in> set ?s \<and> u \<in> set (clean_users users))"
    proof -
      have "(d, us) \<in> set (clean_domains ?s) \<longleftrightarrow> (\<exists>users. (d, users) \<in> set ?s \<and> us = clean_users users)" for us
        unfolding clean_domains_id [OF norm] by (auto simp: image_iff split: prod.splits)
      then show ?thesis by metis
    qed
    also have "\<dots> \<longleftrightarrow> (\<exists>users. (d, users) \<in> set ?s \<and> u \<in> set users)"
    proof -
      have "set (clean_users users) = set users" if "(d, users) \<in> set ?s" for users
        using norm that by (intro clean_users_id) (auto simp: normal_domains_def list_all_iff)
      then show ?thesis by metis
    qed
    also have "\<dots> \<longleftrightarrow> listed ds d u" using assms mem by (subst listed_mem) (auto simp: normal_domains_def)
    finally show ?thesis .
  qed
  with res show ?thesis by blast
qed

lemma next_refresh_cong:
  "al_daily a = al_daily b \<Longrightarrow> al_poll_time a = al_poll_time b \<Longrightarrow> next_refresh_at z a t = next_refresh_at z b t"
  by (simp only: next_refresh_at_def)

text \<open>
  C13. Warm start: a per-domain document that was written to the cache file is read back by the next start with the same users for
  every domain, and counts as fresh from then on only until the end of the window in which it was written.
\<close>

theorem warm_start_restores:
  assumes doc: "normalize_document (JObj kvs) dflt = Inr (al_domains a)" and configured: "al_cache_configured a" "ac_cache_configured c"
    and codec: "jc_loads jc (jc_dumps jc (cache_document (al_domains a))) = Some (cache_document (al_domains a))"
  shows "\<exists>b. allowlist_new jc z True now c (al_file (write_cache (jc_dumps jc) True t a)) = Inr b \<and>
    (\<forall>d u. listed (al_domains b) d u = listed (al_domains a) d u) \<and>
    (\<forall>t' \<ge> now. fresh b t' = (t' < next_refresh_at z b t))"
proof -
  obtain ps where "clean_domains ps = al_domains a" using doc by (auto simp: normalize_document_def split: option.splits)
  then have "normal_domains (al_domains a)" using clean_domains_normal [of ps] by simp
  then obtain ds where ds: "normalize_document (cache_document (al_domains a)) None = Inr ds" "\<And>d u. listed ds d u = listed (al_domains a) d u"
    using cache_document_reloads by blast
  let ?f = "\<lparr>cf_text = utf8_encode (jc_dumps jc (cache_document (al_domains a))), cf_mtime = t\<rparr>"
  obtain x where x: "allowlist_new jc z True now c (Some ?f) = load_seed jc z True now x" "al_cache_configured x" "al_file x = Some ?f"
    using configured by (auto simp: allowlist_new_def Let_def)
  let ?b = "x\<lparr>al_domains := ds, al_loaded := True, al_next_refresh := max (next_refresh_at z x t) now\<rparr>"
  have "next_refresh_at z ?b t = next_refresh_at z x t" by (rule next_refresh_cong) simp_all
  then have "\<forall>t' \<ge> now. fresh ?b t' = (t' < next_refresh_at z ?b t)" unfolding fresh_def by auto
  moreover have "allowlist_new jc z True now c (Some ?f) = Inr ?b" using x ds(1) codec by (simp add: load_seed_def)
  ultimately show ?thesis using ds(2) configured by (intro exI [of _ ?b]) (simp add: write_cache_def)
qed

text \<open>
  A cache file that holds a flat list of user names is not ignored like every other unusable file: it stops the start, because
  \<^verbatim>\<open>AllowlistUnavailableError\<close> is not among the exceptions that \<^verbatim>\<open>_load_seed\<close> catches.
\<close>

lemma flat_cache_file_stops_start:
  assumes "ac_cache_configured c" "utf8_decode (cf_text f) = Some s" "jc_loads jc s = Some (JList (map JStr names))"
    and "\<exists>n \<in> set names. str_strip n \<noteq> [] \<and> \<not> has_at (str_lower (str_strip n))"
  shows "\<exists>msg. allowlist_new jc z True now c (Some f) = Inl (Unavailable msg)"
proof -
  have "\<exists>msg. normalize_flat None names ds = Inl (Unavailable msg)" for ds
    using assms(4) by (induction names arbitrary: ds) (auto simp: Let_def)
  from this [of "[]"] obtain msg where "normalize_flat None names [] = Inl (Unavailable msg)" by blast
  then show ?thesis using assms(1-3)
    by (auto simp: allowlist_new_def load_seed_def Let_def normalize_document_def)
qed

section \<open>An allowlist on a small document\<close>

definition sample_document :: json where
  "sample_document = JObj [('' Example.COM '', JList [JStr ''Alice'', JStr '' ''])]"

definition sample_json :: json_codec where
  "sample_json = \<lparr>jc_loads = (\<lambda>s. if s = ''d'' then Some sample_document
       else if s = ''c'' then Some (JObj [(''example.com'', JList [JStr ''alice''])]) else None), jc_dumps = (\<lambda>_. ''c'')\<rparr>"

definition sample_config :: allow_config where
  "sample_config = \<lparr>ac_daily = False, ac_poll_time = None, ac_cache_configured = True, ac_extra_users = [], ac_extra_domains = [],
     ac_default_domain = None\<rparr>"

definition sample_allow :: SSOAllowlist where
  "sample_allow = \<lparr>al_daily = False, al_poll_time = None, al_cache_configured = True, al_default_domain = None, al_extra_users = [],
     al_extra_domains = [], al_domains = [], al_retry_after = 0, al_next_refresh = 0, al_loaded = False, al_file = None\<rparr>"

definition utc :: zone where
  "utc = \<lparr>zn_local = (\<lambda>t. t), zn_instant = (\<lambda>t. t)\<rparr>"

definition sample_env :: "response option \<Rightarrow> allow_env" where
  "sample_env r = \<lparr>ae_codec = sample_json, ae_zone = utc, ae_now = 0, ae_mono = 0, ae_others = id, ae_now_locked = 0, ae_mono_locked = 0,
     ae_response = r, ae_mono_failed = 5, ae_now_fetched = 10, ae_write_ok = True\<rparr>"

lemmas sample_allow_defs = sample_document_def sample_json_def sample_config_def sample_allow_def utc_def sample_env_def

lemma sample_doc: "normalize_document sample_document d = Inr [(''example.com'', [''alice''])]"
  by (simp add: normalize_document_def sample_document_def, code_simp)

lemma sample_fetch:
  "current_domains (sample_env (Some (Response 200 [''d''] BodyComplete))) sample_allow =
     (Inr [(''example.com'', [''alice''])], sample_allow\<lparr>al_domains := [(''example.com'', [''alice''])], al_loaded := True,
        al_next_refresh := 3600000000, al_file := Some \<lparr>cf_text = ''c'', cf_mtime = 10\<rparr>\<rparr>)"
  using sample_doc by (simp add: current_domains_def fresh_def cooling_down_def fetch_def Let_def MAX_ALLOWLIST_BYTES_def write_cache_def
      next_refresh_at_def HOUR_def seconds_def utf8_encode_Cons sample_env_def sample_allow_def sample_json_def utc_def)

theorem allowlist_fails_closed_witness:
  "listed (al_domains (snd (is_allowed (sample_env (Some (Response 200 [''d''] BodyComplete))) ''Alice@example.com'' sample_allow))) ''example.com'' ''alice''"
proof -
  let ?v = "sample_env (Some (Response 200 [''d''] BodyComplete))"
  let ?a = "snd (current_domains ?v sample_allow)"
  have email: "str_lower (str_strip ''Alice@example.com'') = ''alice@example.com''" "email_domain ''alice@example.com'' = ''example.com''"
    "user_part ''alice@example.com'' = ''alice''" by code_simp+
  have "is_allowed ?v ''Alice@example.com'' sample_allow = (Inr True, ?a)"
    unfolding is_allowed_def Let_def email sample_fetch by (simp add: sample_allow_def)
  from allowlist_fails_closed [OF this] this show ?thesis unfolding email by (auto simp: listed_def sample_allow_def)
qed

theorem refresh_window_bounded_witness:
  "10 < next_refresh_at utc (sample_allow\<lparr>al_daily := True, al_poll_time := Some (6, 30)\<rparr>) 10 \<and>
   next_refresh_at utc (sample_allow\<lparr>al_daily := True, al_poll_time := Some (6, 30)\<rparr>) 10 \<le> 10 + DAY"
  using refresh_window_bounded [of utc 0 "sample_allow\<lparr>al_daily := True, al_poll_time := Some (6, 30)\<rparr>" 10] by (simp add: utc_def)

theorem failed_fetch_cools_down_witness:
  "current_domains (sample_env None) (snd (current_domains (sample_env (Some NoResponse)) sample_allow)) =
     (Inl (Unavailable ''allowlist temporarily unavailable''), snd (current_domains (sample_env (Some NoResponse)) sample_allow))"
proof -
  let ?a = "sample_allow\<lparr>al_retry_after := 5 + RETRY_COOLDOWN\<rparr>"
  have "current_domains (sample_env (Some NoResponse)) sample_allow = (Inl (Unavailable ''allowlist fetch failed''), ?a)"
    by (simp add: current_domains_def fresh_def cooling_down_def fetch_def Let_def sample_env_def sample_allow_def)
  from failed_fetch_cools_down [OF this, of "sample_env None"] this show ?thesis
    by (simp add: sample_env_def seconds_def fresh_def sample_allow_def)
qed

theorem warm_start_restores_witness:
  "\<exists>b. allowlist_new sample_json utc True 20 sample_config (Some \<lparr>cf_text = ''c'', cf_mtime = 10\<rparr>) = Inr b \<and>
    listed (al_domains b) ''example.com'' ''alice''"
proof -
  let ?a = "sample_allow\<lparr>al_domains := [(''example.com'', [''alice''])]\<rparr>"
  have doc: "normalize_document (JObj [('' Example.COM '', JList [JStr ''Alice'', JStr '' ''])]) None = Inr (al_domains ?a)"
    using sample_doc by (simp add: sample_document_def)
  have cached: "cache_document (al_domains ?a) = JObj [(''example.com'', JList [JStr ''alice''])]" by (simp add: cache_document_def)
  have written: "al_file (write_cache (jc_dumps sample_json) True 10 ?a) = Some \<lparr>cf_text = ''c'', cf_mtime = 10\<rparr>"
    by (simp add: write_cache_def sample_allow_defs utf8_encode_Cons)
  show ?thesis using warm_start_restores [of _ None ?a sample_config sample_json utc 20 10, OF doc] cached
    unfolding written by (auto simp: sample_allow_defs listed_def)
qed

end
