(* ===== verification/ApiAuth.thy ===== *)
theory ApiAuth
  imports Allowlist AuthStoreSafety
begin

text \<open>
  \<^verbatim>\<open>auth/dependencies.py\<close>, \<^verbatim>\<open>auth/session.py\<close> and \<^verbatim>\<open>auth/signin_policy.py\<close>: who a request comes from. Headers are looked up by their
  lower-case names; the session is the JSON object of the signed cookie, \<open>None\<close> without the session middleware; the token file that
  each look-up finds and what the allowlist check meets are arguments.
\<close>

section \<open>Settings and requests\<close>

record gateway_auth =
  ga_trust :: auth_settings
  ga_enforce_api_tokens :: bool
  ga_enforce_sso_whitelist :: bool
  ga_require_email_verification :: bool
  ga_allowed_domains :: "string list"
  ga_session_secret :: "string option"

datatype api_error = ApiAuthError string | HTTPException int string

type_synonym headers = "(string, string) dict"

text \<open>\<open>s.partition(" ")\<close> without the separator.\<close>

definition space_partition :: "string \<Rightarrow> string \<times> string" where
  "space_partition s = (takeWhile (\<lambda>c. c \<noteq> CHR '' '') s, drop 1 (dropWhile (\<lambda>c. c \<noteq> CHR '' '') s))"

definition presented_tokens :: "headers \<Rightarrow> bool \<Rightarrow> string list" where
  "presented_tokens hs accept_x_api_key =
     (case space_partition (dict_get_or hs ''authorization'' []) of
        (scheme, raw_token) \<Rightarrow>
          let tokens = (if str_lower scheme = ''bearer'' \<and> str_strip raw_token \<noteq> [] then [str_strip raw_token] else []);
              api_key = str_strip (dict_get_or hs ''x-api-key'' [])
          in if accept_x_api_key \<and> api_key \<noteq> [] \<and> api_key \<notin> set tokens then tokens @ [api_key] else tokens)"

definition requires_token :: "headers \<Rightarrow> bool" where
  "requires_token hs = (str_lower (str_strip (dict_get_or hs ''x-qiip-require-token'' [])) \<in> {''1'', ''true''})"

section \<open>Request authentication\<close>

definition enforce_sso_whitelist ::
  "allow_env \<Rightarrow> gateway_auth \<Rightarrow> TokenAuth \<Rightarrow> SSOAllowlist option \<Rightarrow> (api_error + unit) \<times> SSOAllowlist option" where
  "enforce_sso_whitelist v settings auth al =
     (if \<not> ga_enforce_sso_whitelist settings then (Inr (), al)
      else if is_full_access (u_email (ta_user auth)) (u_issuer (ta_user auth)) (ga_trust settings) then (Inr (), al)
      else
        case enforce_allowlist v (u_email (ta_user auth)) al of
          (Inl e, al) \<Rightarrow> (Inl (ApiAuthError ''SSO whitelist unavailable''), al)
        | (Inr allowed, al) \<Rightarrow> if \<not> allowed then (Inl (ApiAuthError ''SSO whitelist denied''), al) else (Inr (), al))"

text \<open>\<open>db_at t\<close> is the token file when \<open>t\<close> is looked up.\<close>

fun authenticate_loop ::
  "crypto \<Rightarrow> json_codec \<Rightarrow> (string \<Rightarrow> auth_db) \<Rightarrow> allow_env \<Rightarrow> gateway_auth \<Rightarrow> string list \<Rightarrow> SSOAllowlist option \<Rightarrow>
     (api_error + TokenAuth option) \<times> SSOAllowlist option" where
  "authenticate_loop cr jc db_at v settings [] al = (Inr None, al)"
| "authenticate_loop cr jc db_at v settings (token # tokens) al =
     (case resolve_token cr jc token (db_at token) of
        None \<Rightarrow> authenticate_loop cr jc db_at v settings tokens al
      | Some auth \<Rightarrow>
          (case enforce_sso_whitelist v settings auth al of
             (Inl e, al) \<Rightarrow> (Inl e, al)
           | (Inr _, al) \<Rightarrow> (Inr (Some auth), al)))"

definition authenticate ::
  "crypto \<Rightarrow> json_codec \<Rightarrow> (string \<Rightarrow> auth_db) \<Rightarrow> allow_env \<Rightarrow> string list \<Rightarrow> gateway_auth \<Rightarrow> bool \<Rightarrow> SSOAllowlist option \<Rightarrow>
     (api_error + TokenAuth option) \<times> SSOAllowlist option" where
  "authenticate cr jc db_at v presented settings required al =
     (case authenticate_loop cr jc db_at v settings presented al of
        (Inl e, al) \<Rightarrow> (Inl e, al)
      | (Inr (Some auth), al) \<Rightarrow> (Inr (Some auth), al)
      | (Inr None, al) \<Rightarrow>
          if required \<or> ga_enforce_api_tokens settings then
            (Inl (ApiAuthError (if presented \<noteq> [] then ''Invalid API token'' else ''Authentication required for inference requests'')), al)
          else (Inr None, al))"

definition get_api_auth ::
  "crypto \<Rightarrow> json_codec \<Rightarrow> (string \<Rightarrow> auth_db) \<Rightarrow> allow_env \<Rightarrow> headers \<Rightarrow> gateway_auth \<Rightarrow> SSOAllowlist option \<Rightarrow>
     (api_error + TokenAuth option) \<times> SSOAllowlist option" where
  "get_api_auth cr jc db_at v hs settings al = authenticate cr jc db_at v (presented_tokens hs False) settings (requires_token hs) al"

definition get_messages_api_auth ::
  "crypto \<Rightarrow> json_codec \<Rightarrow> (string \<Rightarrow> auth_db) \<Rightarrow> allow_env \<Rightarrow> headers \<Rightarrow> gateway_auth \<Rightarrow> SSOAllowlist option \<Rightarrow>
     (api_error + TokenAuth option) \<times> SSOAllowlist option" where
  "get_messages_api_auth cr jc db_at v hs settings al = authenticate cr jc db_at v (presented_tokens hs True) settings (requires_token hs) al"

section \<open>Sessions\<close>

type_synonym session = "(string, json) dict"

definition SESSION_USER_KEY :: string where
  "SESSION_USER_KEY = ''qiip_user_id''"

definition SESSION_LOCAL_ADMIN_KEY :: string where
  "SESSION_LOCAL_ADMIN_KEY = ''qiip_local_admin''"

definition SESSION_EXPIRY_KEY :: string where
  "SESSION_EXPIRY_KEY = ''qiip_exp''"

lemmas session_keys = SESSION_USER_KEY_def SESSION_LOCAL_ADMIN_KEY_def SESSION_EXPIRY_KEY_def

definition clear_session_user :: "session \<Rightarrow> session" where
  "clear_session_user s = dict_pop SESSION_EXPIRY_KEY (dict_pop SESSION_USER_KEY s)"

definition clear_local_admin_session :: "session \<Rightarrow> session" where
  "clear_local_admin_session s = dict_pop SESSION_EXPIRY_KEY (dict_pop SESSION_LOCAL_ADMIN_KEY s)"

definition set_session_user :: "int \<Rightarrow> int \<Rightarrow> micros \<Rightarrow> session \<Rightarrow> session" where
  "set_session_user user_id ttl_seconds now s =
     dict_set SESSION_EXPIRY_KEY (JInt (now div 1000000 + ttl_seconds)) (dict_set SESSION_USER_KEY (JInt user_id) (clear_local_admin_session s))"

definition set_local_admin_session :: "int \<Rightarrow> micros \<Rightarrow> session \<Rightarrow> session" where
  "set_local_admin_session ttl_seconds now s =
     dict_set SESSION_EXPIRY_KEY (JInt (now div 1000000 + ttl_seconds)) (dict_set SESSION_LOCAL_ADMIN_KEY (JBool True) (clear_session_user s))"

definition session_state :: "session option \<Rightarrow> string \<Rightarrow> (json option \<times> json option) option" where
  "session_state s key = map_option (\<lambda>s. (dict_get s key, dict_get s SESSION_EXPIRY_KEY)) s"

text \<open>\<open>isinstance(x, int)\<close> with the number it compares as; a \<open>bool\<close> is an \<open>int\<close>.\<close>

fun as_int :: "json option \<Rightarrow> int option" where
  "as_int (Some (JInt i)) = Some i"
| "as_int (Some (JBool b)) = Some (if b then 1 else 0)"
| "as_int _ = None"

definition get_local_admin_session :: "micros \<Rightarrow> session option \<Rightarrow> bool \<times> session option" where
  "get_local_admin_session now s =
     (case session_state s SESSION_LOCAL_ADMIN_KEY of
        None \<Rightarrow> (False, s)
      | Some (marker, expiry) \<Rightarrow>
          if marker \<noteq> Some (JBool True) then (False, s)
          else
            (case as_int expiry of
               None \<Rightarrow> (False, map_option clear_local_admin_session s)
             | Some e \<Rightarrow> if seconds e < now then (False, map_option clear_local_admin_session s) else (True, s)))"

definition get_session_user_id :: "micros \<Rightarrow> session option \<Rightarrow> int option \<times> session option" where
  "get_session_user_id now s =
     (case session_state s SESSION_USER_KEY of
        None \<Rightarrow> (None, s)
      | Some (user_id, expiry) \<Rightarrow>
          (case (as_int user_id, as_int expiry) of
             (Some i, Some e) \<Rightarrow> if seconds e < now then (None, map_option clear_session_user s) else (Some i, s)
           | _ \<Rightarrow> (None, s)))"

definition require_profile_user ::
  "gateway_auth \<Rightarrow> auth_db \<Rightarrow> micros \<Rightarrow> session option \<Rightarrow> (api_error + user) \<times> session option" where
  "require_profile_user settings db now s =
     (case ga_session_secret settings of
        None \<Rightarrow> (Inl (HTTPException 503 ''Sessions are not configured''), s)
      | Some _ \<Rightarrow>
          (case get_session_user_id now s of
             (None, s) \<Rightarrow> (Inl (HTTPException 401 ''Not signed in''), s)
           | (Some user_id, s) \<Rightarrow>
               (case find_user user_id db of
                  None \<Rightarrow> (Inl (HTTPException 401 ''Not signed in''), s)
                | Some u \<Rightarrow> (Inr u, s))))"

section \<open>Sign-in\<close>

text \<open>An auth plugin: its name and whether it is configured.\<close>

type_synonym auth_plugin = "string \<times> bool"

text \<open>\<open>manager\<close>: the plugins of the plugin manager, if there is one; \<open>selected\<close>: \<open>app.state.auth_plugin\<close>.\<close>

definition configured_auth_plugins :: "auth_plugin list option \<Rightarrow> auth_plugin option \<Rightarrow> auth_plugin list" where
  "configured_auth_plugins manager selected =
     (let plugins = (case manager of None \<Rightarrow> [] | Some ps \<Rightarrow> filter snd ps)
      in if plugins \<noteq> [] then plugins
         else (case selected of None \<Rightarrow> [] | Some p \<Rightarrow> if snd p then [p] else []))"

definition get_auth_plugin ::
  "auth_plugin list option \<Rightarrow> auth_plugin option \<Rightarrow> string option \<Rightarrow> session \<Rightarrow> api_error + auth_plugin" where
  "get_auth_plugin manager selected provider s =
     (let plugins = configured_auth_plugins manager selected
      in case plugins of
           [] \<Rightarrow> Inl (HTTPException 404 ''OAuth is not configured'')
         | p # _ \<Rightarrow>
             (case provider of
                Some name \<Rightarrow>
                  (case find (\<lambda>q. fst q = name) plugins of
                     None \<Rightarrow> Inl (HTTPException 404 (''Auth provider is not configured: '' @ name))
                   | Some q \<Rightarrow> Inr q)
              | None \<Rightarrow>
                  (case dict_get s ''auth_provider'' of
                     None \<Rightarrow> Inr p
                   | Some marker \<Rightarrow>
                       (case find (\<lambda>q. JStr (fst q) = marker) plugins of None \<Rightarrow> Inr p | Some q \<Rightarrow> Inr q))))"

definition check_signin_policy ::
  "allow_env \<Rightarrow> string \<Rightarrow> string \<Rightarrow> bool \<Rightarrow> gateway_auth \<Rightarrow> SSOAllowlist option \<Rightarrow> string option \<times> SSOAllowlist option" where
  "check_signin_policy v email issuer email_verified settings al =
     (let allowed_domains = map str_lower (ga_allowed_domains settings)
      in if ga_require_email_verification settings \<and> \<not> email_verified then (Some ''unverified_email'', al)
         else if allowed_domains \<noteq> [] \<and> email_domain email \<notin> set allowed_domains then (Some ''domain_not_allowed'', al)
         else if ga_enforce_sso_whitelist settings \<and> \<not> is_full_access email issuer (ga_trust settings) then
           (case enforce_allowlist v email al of
              (Inl e, al) \<Rightarrow> (Some ''allowlist_unavailable'', al)
            | (Inr allowed, al) \<Rightarrow> if \<not> allowed then (Some ''not_whitelisted'', al) else (None, al))
         else (None, al))"

section \<open>Properties\<close>

text \<open>What \<open>enforce_sso_whitelist\<close> lets through.\<close>

definition passes_whitelist :: "allow_env \<Rightarrow> gateway_auth \<Rightarrow> string \<Rightarrow> string \<Rightarrow> SSOAllowlist option \<Rightarrow> bool" where
  "passes_whitelist v settings email issuer al \<longleftrightarrow>
     ga_enforce_sso_whitelist settings \<longrightarrow> is_full_access email issuer (ga_trust settings) \<or> fst (enforce_allowlist v email al) = Inr True"

lemma whitelist_passes:
  "fst (enforce_sso_whitelist v settings auth al) = Inr () \<longleftrightarrow> passes_whitelist v settings (u_email (ta_user auth)) (u_issuer (ta_user auth)) al"
  by (auto simp: enforce_sso_whitelist_def passes_whitelist_def split: prod.splits sum.splits)

lemma loop_first_resolved:
  "authenticate_loop cr jc db_at v settings presented al =
     (case find (\<lambda>t. resolve_token cr jc t (db_at t) \<noteq> None) presented of
        None \<Rightarrow> (Inr None, al)
      | Some t \<Rightarrow>
          (case enforce_sso_whitelist v settings (the (resolve_token cr jc t (db_at t))) al of
             (Inl e, al) \<Rightarrow> (Inl e, al)
           | (Inr _, al) \<Rightarrow> (Inr (resolve_token cr jc t (db_at t)), al)))"
  by (induction presented) (auto split: option.splits sum.splits prod.splits)

lemma presented_cases:
  "presented_tokens hs x = [] \<or> (\<exists>t. presented_tokens hs x = [t]) \<or> (\<exists>t u. presented_tokens hs x = [t, u] \<and> t \<noteq> u)"
  by (auto simp: presented_tokens_def Let_def split: prod.splits)


section \<open>Sessions keep one identity\<close>

text \<open>The changes a session goes through.\<close>

inductive session_step :: "session \<Rightarrow> session \<Rightarrow> bool" where
  sess_user: "session_step s (set_session_user i ttl now s)"
| sess_admin: "session_step s (set_local_admin_session ttl now s)"
| sess_clear_user: "session_step s (clear_session_user s)"
| sess_clear_admin: "session_step s (clear_local_admin_session s)"
| sess_get_user: "get_session_user_id now (Some s) = (x, Some s') \<Longrightarrow> session_step s s'"
| sess_get_admin: "get_local_admin_session now (Some s) = (b, Some s') \<Longrightarrow> session_step s s'"
| sess_other: "k \<notin> {SESSION_USER_KEY, SESSION_LOCAL_ADMIN_KEY, SESSION_EXPIRY_KEY} \<Longrightarrow> session_step s (dict_set k v s)"
| sess_other_pop: "k \<notin> {SESSION_USER_KEY, SESSION_LOCAL_ADMIN_KEY, SESSION_EXPIRY_KEY} \<Longrightarrow> session_step s (dict_pop k s)"

inductive_cases session_stepE: "session_step s s'"

definition one_identity :: "session \<Rightarrow> bool" where
  "one_identity s \<longleftrightarrow> dict_get s SESSION_USER_KEY = None \<or> dict_get s SESSION_LOCAL_ADMIN_KEY = None"

lemma session_keys_distinct [simp]:
  "SESSION_USER_KEY \<noteq> SESSION_LOCAL_ADMIN_KEY" "SESSION_LOCAL_ADMIN_KEY \<noteq> SESSION_USER_KEY"
  "SESSION_USER_KEY \<noteq> SESSION_EXPIRY_KEY" "SESSION_EXPIRY_KEY \<noteq> SESSION_USER_KEY"
  "SESSION_LOCAL_ADMIN_KEY \<noteq> SESSION_EXPIRY_KEY" "SESSION_EXPIRY_KEY \<noteq> SESSION_LOCAL_ADMIN_KEY"
  by (simp_all add: session_keys)

lemmas session_defs = set_session_user_def set_local_admin_session_def clear_session_user_def clear_local_admin_session_def
  get_session_user_id_def get_local_admin_session_def session_state_def

lemma one_identity_step: "session_step s s' \<Longrightarrow> one_identity s \<Longrightarrow> one_identity s'"
  by (erule session_stepE) (auto simp: one_identity_def session_defs split: option.splits if_splits)

text \<open>
  C14. However sign-ins, sign-outs, checks and other uses of a session follow each other, it never holds a user and a local
  administrator at once, and at no time are both accepted.
\<close>

theorem session_holds_one_identity:
  assumes "session_step\<^sup>*\<^sup>* [] s"
  shows "one_identity s \<and> \<not> (fst (get_local_admin_session now (Some s)) \<and> fst (get_session_user_id now' (Some s)) \<noteq> None)"
proof -
  have "one_identity s" using assms by (induction rule: rtranclp_induct) (auto simp: one_identity_def dest: one_identity_step [unfolded one_identity_def])
  then show ?thesis by (auto simp: one_identity_def session_defs split: option.splits)
qed

text \<open>
  A sign-in lasts for its time to live, counted from the full second it happened in: until then the session gives that user
  and no administrator, whatever it held before; afterwards it gives nobody, and reading it removes what is left.
\<close>

theorem sign_in_lifetime:
  "get_session_user_id now (Some (set_session_user i ttl t s)) =
     (if now \<le> seconds (t div 1000000 + ttl) then (Some i, Some (set_session_user i ttl t s))
      else (None, Some (clear_session_user (set_session_user i ttl t s)))) \<and>
   \<not> fst (get_local_admin_session now (Some (set_session_user i ttl t s))) \<and>
   fst (get_session_user_id now' (Some (clear_session_user (set_session_user i ttl t s)))) = None"
  by (auto simp: session_defs)

text \<open>
  Sign-in is accepted exactly when every configured check passes: a verified address where that is required, a domain from the
  list where there is one, and the SSO allowlist where it is enforced.
\<close>

theorem signin_policy_exact:
  "fst (check_signin_policy v email issuer verified settings al) = None \<longleftrightarrow>
     (ga_require_email_verification settings \<longrightarrow> verified) \<and>
     (ga_allowed_domains settings \<noteq> [] \<longrightarrow> (\<exists>d \<in> set (ga_allowed_domains settings). email_domain email = str_lower d)) \<and>
     passes_whitelist v settings email issuer al"
  by (auto simp: check_signin_policy_def passes_whitelist_def Let_def image_iff split: prod.splits sum.splits)

section \<open>Sample requests\<close>

definition strict_settings :: gateway_auth where
  "strict_settings = \<lparr>ga_trust = \<lparr>as_full_access = [], as_full_access_by_issuer = []\<rparr>, ga_enforce_api_tokens = True,
     ga_enforce_sso_whitelist = True, ga_require_email_verification = True, ga_allowed_domains = [''X''], ga_session_secret = Some ''k''\<rparr>"

definition sample_headers :: headers where
  "sample_headers = [(''authorization'', ''Bearer qiip_abc'')]"

definition open_allowlist :: SSOAllowlist where
  "open_allowlist = sample_allow\<lparr>al_extra_domains := [''x'']\<rparr>"


theorem session_holds_one_identity_witness:
  "one_identity (set_local_admin_session 60 2 (set_session_user 1 60 1 [])) \<and>
   fst (get_local_admin_session 3 (Some (set_local_admin_session 60 2 (set_session_user 1 60 1 [])))) \<and>
   fst (get_session_user_id 3 (Some (set_local_admin_session 60 2 (set_session_user 1 60 1 [])))) = None"
proof -
  let ?s = "set_local_admin_session 60 2 (set_session_user 1 60 1 [])"
  have "session_step\<^sup>*\<^sup>* [] ?s" by (meson sess_admin sess_user rtranclp.rtrancl_into_rtrancl rtranclp.rtrancl_refl)
  from session_holds_one_identity [OF this, of 3 3] show ?thesis by (auto simp: session_defs seconds_def)
qed

theorem signin_policy_exact_witness:
  "fst (check_signin_policy (sample_env None) ''a@x'' GOOGLE_ISSUER True strict_settings (Some open_allowlist)) = None"
proof -
  have "fst (enforce_allowlist (sample_env None) ''a@x'' (Some open_allowlist)) = Inr True" by code_simp
  moreover have "email_domain ''a@x'' = str_lower ''X''" by code_simp
  ultimately show ?thesis unfolding signin_policy_exact passes_whitelist_def by (simp add: strict_settings_def)
qed

end
