(* ===== verification/Quads.thy ===== *)
theory Quads
  imports Claims HostLifecycle
begin

text \<open>
  \<^verbatim>\<open>quads/client.py\<close>, \<^verbatim>\<open>quads/poller.py\<close> and \<^verbatim>\<open>quads/schedule_enforcer.py\<close>: the host inventory of QUADS, its polled copy, and the
  enforcer that tears a host down before its schedule gives it to somebody else. A reply of QUADS is the JSON value that \<open>_get\<close>
  returns, or \<open>None\<close> where it raises. The enforcer works on the host coordinator of \<open>HostLifecycle\<close>; between two of its steps every
  other task of the process may run.
\<close>

section \<open>The client\<close>

datatype quads_error = QUADSConnectionError string

definition HOSTS_PATH :: string where
  "HOSTS_PATH = ''/api/v3/hosts''"

definition invalid_response :: "string \<Rightarrow> string \<Rightarrow> quads_error" where
  "invalid_response path what = QUADSConnectionError (''invalid QUADS response from '' @ path @ '': '' @ what)"

fun all_objects :: "json list \<Rightarrow> (string \<times> json) list list option" where
  "all_objects [] = Some []"
| "all_objects (JObj d # xs) = map_option (\<lambda>ds. d # ds) (all_objects xs)"
| "all_objects (x # xs) = None"

definition gpu_host :: "(string \<times> json) list \<Rightarrow> (string \<times> json) list list \<Rightarrow> string + QUADSHost" where
  "gpu_host raw gpus =
     (case obj_get raw ''name'' JNull of
        JStr name \<Rightarrow>
          (case (obj_get (hd gpus) ''vendor'' (JStr []), obj_get (hd gpus) ''product'' (JStr [])) of
             (JStr vendor, JStr product) \<Rightarrow>
               Inr \<lparr>qh_hostname = canonical_hostname name, qh_gpu_vendor = vendor, qh_gpu_model = product, qh_gpu_count = int (length gpus)\<rparr>
           | _ \<Rightarrow> Inl ''GPU vendor and product must be strings'')
      | _ \<Rightarrow> Inl ''GPU host name must be a string'')"

fun parse_hosts :: "json list \<Rightarrow> QUADSHost list \<Rightarrow> string + QUADSHost list" where
  "parse_hosts [] hosts = Inr hosts"
| "parse_hosts (JObj raw # rest) hosts =
     (if json_truthy (obj_get raw ''broken'' JNull) \<or> json_truthy (obj_get raw ''retired'' JNull) then parse_hosts rest hosts
      else
        case obj_get raw ''processors'' (JList []) of
          JList ps \<Rightarrow>
            (case all_objects ps of
               None \<Rightarrow> Inl ''host processors must be a list of objects''
             | Some processors \<Rightarrow>
                 let gpus = filter (\<lambda>p. obj_get p ''processor_type'' JNull = JStr ''GPU'') processors
                 in if gpus = [] then parse_hosts rest hosts
                    else ebind (gpu_host raw gpus) (\<lambda>h. parse_hosts rest (hosts @ [h])))
        | _ \<Rightarrow> Inl ''host processors must be a list of objects'')"
| "parse_hosts (x # rest) hosts = Inl ''host inventory entries must be objects''"

definition get_hosts :: "(quads_error + json) \<Rightarrow> quads_error + QUADSHost list" where
  "get_hosts reply =
     ebind reply (\<lambda>data.
       case data of
         JList xs \<Rightarrow> map_sum (invalid_response HOSTS_PATH) id (parse_hosts xs [])
       | _ \<Rightarrow> Inl (invalid_response HOSTS_PATH ''host inventory must be a list''))"

fun hostname_items :: "json list \<Rightarrow> string list option" where
  "hostname_items [] = Some []"
| "hostname_items (JStr s # xs) = map_option (\<lambda>ys. s # ys) (hostname_items xs)"
| "hostname_items (x # xs) = None"

definition get_available :: "(quads_error + json) \<Rightarrow> quads_error + string list" where
  "get_available reply =
     ebind reply (\<lambda>data.
       case (case data of JList xs \<Rightarrow> hostname_items xs | _ \<Rightarrow> None) of
         None \<Rightarrow> Inl (invalid_response ''/api/v3/available'' ''available hosts must be a list of strings'')
       | Some names \<Rightarrow> Inr (map canonical_hostname names))"

text \<open>A set of hosts is a list read through \<open>set\<close>.\<close>

fun parse_moves :: "json list \<Rightarrow> string list \<Rightarrow> string + string list" where
  "parse_moves [] pending = Inr pending"
| "parse_moves (JObj raw # rest) pending =
     (case obj_get raw ''host'' JNull of
        JStr h \<Rightarrow> parse_moves rest (List.insert (canonical_hostname h) pending)
      | _ \<Rightarrow> Inl ''pending move entries must be objects naming a host'')"
| "parse_moves (x # rest) pending = Inl ''pending move entries must be objects naming a host''"

definition get_pending_moves :: "(quads_error + json) \<Rightarrow> quads_error + string list" where
  "get_pending_moves reply =
     ebind reply (\<lambda>data.
       case data of
         JList xs \<Rightarrow> map_sum (invalid_response ''/api/v3/moves'') id (parse_moves xs [])
       | _ \<Rightarrow> Inl (invalid_response ''/api/v3/moves'' ''pending moves must be a list''))"

definition availability_window_end :: "int \<Rightarrow> micros \<Rightarrow> micros" where
  "availability_window_end lookahead_hours now = now + lookahead_hours * seconds 3600"

section \<open>The poller\<close>

record QUADSPoller =
  qp_hosts :: "QUADSHost list"
  qp_available :: "string list"
  qp_last_sync :: "micros option"
  qp_consecutive_failures :: int

definition QUADSPoller_new :: QUADSPoller where
  "QUADSPoller_new = \<lparr>qp_hosts = [], qp_available = [], qp_last_sync = None, qp_consecutive_failures = 0\<rparr>"

definition poll_once :: "(quads_error + QUADSHost list) \<Rightarrow> (quads_error + string list) \<Rightarrow> micros \<Rightarrow> QUADSPoller \<Rightarrow> QUADSPoller" where
  "poll_once hosts available now p =
     (case (hosts, available) of
        (Inr hs, Inr av) \<Rightarrow> p\<lparr>qp_hosts := hs, qp_available := av, qp_last_sync := Some now, qp_consecutive_failures := 0\<rparr>
      | _ \<Rightarrow> p\<lparr>qp_consecutive_failures := qp_consecutive_failures p + 1\<rparr>)"

section \<open>The schedule enforcer\<close>

definition ACTIONABLE_STATUSES :: "NodeStatus list" where
  "ACTIONABLE_STATUSES = [HEALTHY, UNHEALTHY, DRAINING, RELAUNCHING, RELAUNCH_FAILED]"

definition MAX_RETRY_BACKOFF :: micros where
  "MAX_RETRY_BACKOFF = seconds 3600"

record ScheduleEnforcer =
  se_interval :: int
  se_teardown_initiated :: "host list"
  se_retry_attempts :: "(host, int) dict"
  se_retry_after :: "(host, micros) dict"
  se_retry_escalated :: "host list"

definition ScheduleEnforcer_new :: "int \<Rightarrow> ScheduleEnforcer" where
  "ScheduleEnforcer_new check_interval =
     \<lparr>se_interval = check_interval, se_teardown_initiated = [], se_retry_attempts = [], se_retry_after = [], se_retry_escalated = []\<rparr>"

definition retry_delay :: "int \<Rightarrow> int \<Rightarrow> micros" where
  "retry_delay interval attempts = min (max (seconds 1) (seconds interval) * 2 ^ nat (min (attempts - 1) 16)) MAX_RETRY_BACKOFF"

definition record_teardown_failure :: "host \<Rightarrow> micros \<Rightarrow> ScheduleEnforcer \<Rightarrow> ScheduleEnforcer" where
  "record_teardown_failure h now e =
     (let attempts = dict_get_or (se_retry_attempts e) h 0 + 1;
          delay = retry_delay (se_interval e) attempts
      in e\<lparr>se_teardown_initiated := removeAll h (se_teardown_initiated e),
           se_retry_attempts := dict_set h attempts (se_retry_attempts e),
           se_retry_after := dict_set h (now + delay) (se_retry_after e),
           se_retry_escalated := (if delay = MAX_RETRY_BACKOFF then List.insert h (se_retry_escalated e) else se_retry_escalated e)\<rparr>)"

definition clear_teardown_retry :: "host \<Rightarrow> ScheduleEnforcer \<Rightarrow> ScheduleEnforcer" where
  "clear_teardown_retry h e =
     e\<lparr>se_retry_attempts := dict_pop h (se_retry_attempts e), se_retry_after := dict_pop h (se_retry_after e),
       se_retry_escalated := removeAll h (se_retry_escalated e)\<rparr>"

definition prune_completed :: "node list \<Rightarrow> ScheduleEnforcer \<Rightarrow> ScheduleEnforcer" where
  "prune_completed nodes e =
     (let registered = map node_id nodes
      in foldl (\<lambda>e h. clear_teardown_retry h e)
           (e\<lparr>se_teardown_initiated := filter (\<lambda>h. h \<in> set registered) (se_teardown_initiated e)\<rparr>)
           (filter (\<lambda>h. h \<notin> set registered) (dict_keys (se_retry_attempts e))))"

text \<open>
  A teardown task. \<open>Running\<close> covers the time until its coroutine ends, started or not; \<open>Ended\<close> the time until the done callback runs,
  with \<open>cancelled()\<close> and \<open>failure_recorded\<close>.
\<close>

datatype task_phase = Running | Ended bool bool | Finished

record teardown_task =
  td_host :: host
  td_lease :: nat
  td_phase :: task_phase

record enforcing =
  ew_enforcer :: ScheduleEnforcer
  ew_life :: HostLifecycleCoordinator
  ew_tasks :: "teardown_task list"

definition on_enforcer :: "(ScheduleEnforcer \<Rightarrow> ScheduleEnforcer) \<Rightarrow> enforcing \<Rightarrow> enforcing" where
  "on_enforcer f w = w\<lparr>ew_enforcer := f (ew_enforcer w)\<rparr>"

definition release_at_end :: "nat \<Rightarrow> enforcing \<Rightarrow> enforcing" where
  "release_at_end i w = w\<lparr>ew_life := snd (lease_release i (ew_life w))\<rparr>"

text \<open>\<open>fires\<close>: \<open>fire_background\<close> did not raise.\<close>

definition schedule_teardown :: "bool \<Rightarrow> micros \<Rightarrow> host \<Rightarrow> nat \<Rightarrow> enforcing \<Rightarrow> enforcing" where
  "schedule_teardown fires now h i w =
     (if fires then w\<lparr>ew_tasks := ew_tasks w @ [\<lparr>td_host = h, td_lease = i, td_phase = Running\<rparr>]\<rparr>
      else release_at_end i (on_enforcer (record_teardown_failure h now) w))"

text \<open>How the coroutine of a task ends.\<close>

datatype teardown_end = Succeeded | Raised | Cancelled | NeverStarted

text \<open>\<open>provisioner.teardown\<close> releases the lease before the wrapper does.\<close>

definition end_teardown :: "nat \<Rightarrow> teardown_end \<Rightarrow> micros \<Rightarrow> enforcing \<Rightarrow> enforcing" where
  "end_teardown k how now w =
     (let t = ew_tasks w ! k; h = td_host t; i = td_lease t;
          phase = (\<lambda>c r w. w\<lparr>ew_tasks := (ew_tasks w)[k := t\<lparr>td_phase := Ended c r\<rparr>]\<rparr>)
      in case how of
           NeverStarted \<Rightarrow> phase True False w
         | Succeeded \<Rightarrow> phase False False (release_at_end i (on_enforcer (clear_teardown_retry h) (release_at_end i w)))
         | Raised \<Rightarrow> phase False True (release_at_end i (on_enforcer (record_teardown_failure h now) (release_at_end i w)))
         | Cancelled \<Rightarrow> phase True True (release_at_end i (on_enforcer (record_teardown_failure h now) (release_at_end i w))))"

definition release_lease_callback :: "nat \<Rightarrow> micros \<Rightarrow> enforcing \<Rightarrow> enforcing" where
  "release_lease_callback k now w =
     (let t = ew_tasks w ! k; w' = w\<lparr>ew_tasks := (ew_tasks w)[k := t\<lparr>td_phase := Finished\<rparr>]\<rparr>
      in case td_phase t of
           Ended cancelled failure_recorded \<Rightarrow>
             release_at_end (td_lease t)
               (if cancelled \<and> \<not> failure_recorded then on_enforcer (record_teardown_failure (td_host t) now) w' else w')
         | _ \<Rightarrow> w)"

text \<open>What one pass meets after the reply: the clock at the check of each host and at a failure, and whether tasks can be created.\<close>

record pass_env =
  pe_check :: "host \<Rightarrow> micros"
  pe_failure :: "host \<Rightarrow> micros"
  pe_fires :: "host \<Rightarrow> bool"

definition reserve_and_schedule :: "pass_env \<Rightarrow> host \<Rightarrow> enforcing \<Rightarrow> enforcing" where
  "reserve_and_schedule pe h w =
     (case try_acquire h 0 (ew_life w) of
        (False, _) \<Rightarrow> w
      | (True, l) \<Rightarrow>
          schedule_teardown (pe_fires pe h) (pe_failure pe h) h (length (hc_leases (ew_life w)))
            (on_enforcer (\<lambda>e. e\<lparr>se_teardown_initiated := List.insert h (se_teardown_initiated e)\<rparr>) (w\<lparr>ew_life := l\<rparr>)))"

definition enforce_node :: "pass_env \<Rightarrow> string list \<Rightarrow> node \<Rightarrow> enforcing \<Rightarrow> enforcing" where
  "enforce_node pe available n w =
     (let h = node_id n; e = ew_enforcer w; retry_pending = dict_get (se_retry_attempts e) h \<noteq> None
      in if \<not> node_managed n then w
         else if node_status n \<notin> set ACTIONABLE_STATUSES then w
         else if canonical_hostname h \<in> set available \<and> \<not> (node_status n = DRAINING \<and> retry_pending) then on_enforcer (clear_teardown_retry h) w
         else if h \<in> set (se_teardown_initiated e) then w
         else
           (case dict_get (se_retry_after e) h of
              None \<Rightarrow> reserve_and_schedule pe h w
            | Some retry_after \<Rightarrow>
                if pe_check pe h < retry_after then w
                else reserve_and_schedule pe h (on_enforcer (\<lambda>e. e\<lparr>se_retry_after := dict_pop h (se_retry_after e)\<rparr>) w)))"

text \<open>
  One pass: \<open>before\<close> is the registry when it starts; the request to QUADS suspends it, and \<open>others\<close> is what runs meanwhile; \<open>nodes\<close> is
  the registry afterwards.
\<close>

definition enforce_nodes :: "pass_env \<Rightarrow> (quads_error + string list) \<Rightarrow> node list \<Rightarrow> enforcing \<Rightarrow> enforcing" where
  "enforce_nodes pe reply nodes w =
     (case reply of
        Inl e \<Rightarrow> w
      | Inr available \<Rightarrow> foldl (\<lambda>w n. enforce_node pe (map canonical_hostname available) n w) w nodes)"

definition enforce_once ::
  "pass_env \<Rightarrow> node list \<Rightarrow> (enforcing \<Rightarrow> enforcing) \<Rightarrow> (quads_error + string list) \<Rightarrow> node list \<Rightarrow> enforcing \<Rightarrow> enforcing" where
  "enforce_once pe before others reply nodes w = enforce_nodes pe reply nodes (others (on_enforcer (prune_completed before) w))"

section \<open>What a pass does\<close>

definition due :: "pass_env \<Rightarrow> string list \<Rightarrow> ScheduleEnforcer \<Rightarrow> node \<Rightarrow> bool" where
  "due pe available e n \<longleftrightarrow> node_managed n \<and> node_status n \<in> set ACTIONABLE_STATUSES \<and>
     (canonical_hostname (node_id n) \<notin> set available \<or> node_status n = DRAINING \<and> dict_get (se_retry_attempts e) (node_id n) \<noteq> None) \<and>
     node_id n \<notin> set (se_teardown_initiated e) \<and>
     (case dict_get (se_retry_after e) (node_id n) of None \<Rightarrow> True | Some t \<Rightarrow> t \<le> pe_check pe (node_id n))"

lemmas enforcer_defs = record_teardown_failure_def clear_teardown_retry_def on_enforcer_def Let_def

text \<open>What the enforcer and the coordinator hold about a host.\<close>

definition host_view :: "enforcing \<Rightarrow> host \<Rightarrow> bool \<times> int option \<times> micros option \<times> bool" where
  "host_view w g = (g \<in> set (se_teardown_initiated (ew_enforcer w)), dict_get (se_retry_attempts (ew_enforcer w)) g,
     dict_get (se_retry_after (ew_enforcer w)) g, is_busy (ew_life w) g)"

lemma due_view: "host_view w (node_id n) = host_view w' (node_id n) \<Longrightarrow> due pe av (ew_enforcer w) n = due pe av (ew_enforcer w') n"
  by (simp add: due_def host_view_def)

lemma drop_user_busy: "g \<noteq> h \<Longrightarrow> is_busy (drop_user h a s) g = is_busy s g"
  by (simp add: is_busy_def drop_user_def Let_def)

lemma is_busy_frame [simp]: "is_busy (on_entry a f s) g = is_busy s g" "is_busy (s\<lparr>hc_leases := x\<rparr>) g = is_busy s g"
  by (simp_all add: is_busy_def)

lemma lease_release_busy: "hl_hostname (hc_leases s ! i) \<noteq> g \<Longrightarrow> is_busy (snd (lease_release i s)) g = is_busy s g"
  by (auto simp: lease_release_def coordinator_release_def Let_def drop_user_busy split: option.splits)

lemma reserve_frame:
  assumes "g \<noteq> h"
  shows "host_view (reserve_and_schedule pe h w) g = host_view w g"
proof (cases "is_busy (ew_life w) h")
  case True
  then show ?thesis by (simp add: reserve_and_schedule_def try_acquire_simps)
next
  case False
  let ?l = "new_lease h (length (hc_heap (ew_life w))) (add_entry h \<lparr>le_locked = True, le_waiters = [], le_users = 1\<rparr> (ew_life w))"
  have "is_busy ?l g = is_busy (ew_life w) g" using assms by (simp add: is_busy_def)
  moreover have "is_busy (snd (lease_release (length (hc_leases (ew_life w))) ?l)) g = is_busy ?l g"
    using assms by (intro lease_release_busy) simp
  ultimately show ?thesis using False assms
    by (auto simp: reserve_and_schedule_def try_acquire_simps schedule_teardown_def release_at_end_def host_view_def enforcer_defs)
qed

lemma enforce_node_frame: "g \<noteq> node_id n \<Longrightarrow> host_view (enforce_node pe av n w) g = host_view w g"
  by (auto simp: enforce_node_def Let_def reserve_frame split: option.splits)
    (auto simp: host_view_def enforcer_defs)

lemma reserve_tasks:
  "map td_host (ew_tasks (reserve_and_schedule pe h w)) = map td_host (ew_tasks w) @ (if \<not> is_busy (ew_life w) h \<and> pe_fires pe h then [h] else [])"
  by (simp add: reserve_and_schedule_def try_acquire_simps schedule_teardown_def release_at_end_def on_enforcer_def)

lemma enforce_node_tasks:
  "map td_host (ew_tasks (enforce_node pe av n w)) =
     map td_host (ew_tasks w) @ (if due pe av (ew_enforcer w) n \<and> \<not> is_busy (ew_life w) (node_id n) \<and> pe_fires pe (node_id n) then [node_id n] else [])"
  by (auto simp: enforce_node_def Let_def due_def reserve_tasks on_enforcer_def split: option.splits)

lemma foldl_enforce_tasks:
  assumes "distinct (map node_id nodes)"
  shows "map td_host (ew_tasks (foldl (\<lambda>w n. enforce_node pe av n w) w nodes)) =
    map td_host (ew_tasks w) @
      map node_id (filter (\<lambda>n. due pe av (ew_enforcer w) n \<and> \<not> is_busy (ew_life w) (node_id n) \<and> pe_fires pe (node_id n)) nodes)"
  using assms
proof (induction nodes arbitrary: w)
  case (Cons n nodes)
  let ?w = "enforce_node pe av n w"
  have "filter (\<lambda>n. due pe av (ew_enforcer ?w) n \<and> \<not> is_busy (ew_life ?w) (node_id n) \<and> pe_fires pe (node_id n)) nodes =
      filter (\<lambda>n. due pe av (ew_enforcer w) n \<and> \<not> is_busy (ew_life w) (node_id n) \<and> pe_fires pe (node_id n)) nodes"
  proof (rule filter_cong [OF refl])
    fix m assume "m \<in> set nodes"
    then have "node_id m \<noteq> node_id n" using Cons.prems by (metis distinct.simps(2) image_eqI list.set_map list.simps(9))
    then have view: "host_view ?w (node_id m) = host_view w (node_id m)" by (rule enforce_node_frame)
    have "due pe av (ew_enforcer ?w) m = due pe av (ew_enforcer w) m" using view by (rule due_view)
    moreover have "is_busy (ew_life ?w) (node_id m) = is_busy (ew_life w) (node_id m)" using view by (simp add: host_view_def)
    ultimately show "(due pe av (ew_enforcer ?w) m \<and> \<not> is_busy (ew_life ?w) (node_id m) \<and> pe_fires pe (node_id m)) =
        (due pe av (ew_enforcer w) m \<and> \<not> is_busy (ew_life w) (node_id m) \<and> pe_fires pe (node_id m))"
      by simp
  qed
  then show ?case using Cons.IH [of ?w] Cons.prems by (simp add: enforce_node_tasks)
qed simp

text \<open>
  A pass starts a teardown for exactly the hosts it should: the managed nodes in a status it acts on that QUADS does not list as
  available (or that it is already draining), with no teardown of it under way, past their retry time, and free of any other
  lifecycle operation. Where QUADS does not answer, nothing changes.
\<close>

theorem pass_tears_down_exactly:
  assumes "distinct (map node_id nodes)"
  shows "enforce_nodes pe (Inl e) nodes w = w \<and>
    map td_host (ew_tasks (enforce_nodes pe (Inr available) nodes w)) =
      map td_host (ew_tasks w) @
        map node_id (filter (\<lambda>n. due pe (map canonical_hostname available) (ew_enforcer w) n \<and> \<not> is_busy (ew_life w) (node_id n) \<and> pe_fires pe (node_id n)) nodes)"
  using foldl_enforce_tasks [OF assms] by (simp add: enforce_nodes_def)

section \<open>Retries\<close>

lemma retry_delay_bounds:
  assumes "1 \<le> k"
  shows "seconds 1 \<le> retry_delay interval k" "retry_delay interval k \<le> seconds 3600" "k \<le> k' \<Longrightarrow> retry_delay interval k \<le> retry_delay interval k'"
proof -
  let ?b = "max (seconds 1) (seconds interval)"
  have b: "seconds 1 \<le> ?b" "0 < ?b" by (auto simp: seconds_def)
  have "?b * 1 \<le> ?b * 2 ^ nat (min (k - 1) 16)" using b by (intro mult_left_mono) simp_all
  then show "seconds 1 \<le> retry_delay interval k" using b(1) by (simp add: retry_delay_def MAX_RETRY_BACKOFF_def) (simp add: seconds_def)
  show "retry_delay interval k \<le> seconds 3600" by (simp add: retry_delay_def MAX_RETRY_BACKOFF_def)
  assume "k \<le> k'"
  then have "(2 :: int) ^ nat (min (k - 1) 16) \<le> 2 ^ nat (min (k' - 1) 16)" by (intro power_increasing) simp_all
  then have "?b * 2 ^ nat (min (k - 1) 16) \<le> ?b * 2 ^ nat (min (k' - 1) 16)" using b(2) by (intro mult_left_mono) simp_all
  then show "retry_delay interval k \<le> retry_delay interval k'" unfolding retry_delay_def by (rule min.mono) simp
qed

text \<open>The failures counted for a host.\<close>

abbreviation failures :: "ScheduleEnforcer \<Rightarrow> host \<Rightarrow> int" where
  "failures e h \<equiv> dict_get_or (se_retry_attempts e) h 0"

text \<open>
  C25. A failed teardown is retried, and not before its delay: the delay is at least a second and at most an hour and does not
  shrink from one failure to the next; until it is over a pass leaves a host that is still unavailable alone, and the first pass
  after it starts the teardown again when the host is free. A host that the enforcer was draining is retried even when QUADS lists
  it as available again; any other available host loses its retry state.
\<close>

theorem failed_teardown_retried:
  assumes "ew_enforcer w = record_teardown_failure h t e" "0 \<le> failures e h"
    and n: "node_id n = h" "node_managed n" "node_status n \<in> set ACTIONABLE_STATUSES"
  shows "let delay = retry_delay (se_interval e) (failures e h + 1); pe_now = pe_check pe h; w' = enforce_node pe available n w
    in seconds 1 \<le> delay \<and> delay \<le> seconds 3600 \<and> delay \<le> retry_delay (se_interval e) (failures e h + 2) \<and>
      (if canonical_hostname h \<notin> set available \<or> node_status n = DRAINING then
         (if pe_now < t + delay then w' = w
          else \<not> is_busy (ew_life w) h \<longrightarrow> pe_fires pe h \<longrightarrow> map td_host (ew_tasks w') = map td_host (ew_tasks w) @ [h])
       else w' = on_enforcer (clear_teardown_retry h) w)"
proof -
  have 1: "1 \<le> failures e h + 1" using assms(2) by simp
  have st: "h \<notin> set (se_teardown_initiated (ew_enforcer w))" "dict_get (se_retry_attempts (ew_enforcer w)) h \<noteq> None"
    "dict_get (se_retry_after (ew_enforcer w)) h = Some (t + retry_delay (se_interval e) (failures e h + 1))"
    by (simp_all add: assms(1) record_teardown_failure_def Let_def)
  have "map td_host (ew_tasks (enforce_node pe available n w)) = map td_host (ew_tasks w) @ [h]"
    if "canonical_hostname h \<notin> set available \<or> node_status n = DRAINING" "\<not> pe_check pe h < t + retry_delay (se_interval e) (failures e h + 1)"
      "\<not> is_busy (ew_life w) h" "pe_fires pe h"
    using that st n by (auto simp: enforce_node_tasks due_def)
  moreover have "enforce_node pe available n w = w"
    if "canonical_hostname h \<notin> set available \<or> node_status n = DRAINING" "pe_check pe h < t + retry_delay (se_interval e) (failures e h + 1)"
    using that st n by (auto simp: enforce_node_def Let_def)
  moreover have "enforce_node pe available n w = on_enforcer (clear_teardown_retry h) w"
    if "\<not> (canonical_hostname h \<notin> set available \<or> node_status n = DRAINING)"
    using that st n by (auto simp: enforce_node_def Let_def)
  ultimately show ?thesis unfolding Let_def
    using retry_delay_bounds(1,2) [OF 1] retry_delay_bounds(3) [OF 1, of "failures e h + 2"] by simp
qed

section \<open>Teardowns own their host\<close>

definition holds_lease :: "teardown_task \<Rightarrow> bool" where
  "holds_lease t \<longleftrightarrow> td_phase t = Running \<or> td_phase t = Ended True False"

text \<open>
  The steps of the process: the two halves of a pass, the end of a teardown, its callback, and any lifecycle operation of another
  task. A lease object is known to its holder only, so others do not release the leases of running teardowns.
\<close>

inductive enforcing_step :: "enforcing \<Rightarrow> enforcing \<Rightarrow> bool" where
  pass_begins: "enforcing_step w (on_enforcer (prune_completed nodes) w)"
| pass_ends: "enforcing_step w (enforce_nodes pe reply nodes w)"
| teardown_ends: "k < length (ew_tasks w) \<Longrightarrow> td_phase (ew_tasks w ! k) = Running \<Longrightarrow> enforcing_step w (end_teardown k how now w)"
| callback_runs: "k < length (ew_tasks w) \<Longrightarrow> td_phase (ew_tasks w ! k) = Ended c r \<Longrightarrow> enforcing_step w (release_lease_callback k now w)"
| others_run: "lifecycle_step (ew_life w) l \<Longrightarrow> list_all (\<lambda>t. holds_lease t \<longrightarrow> \<not> hl_released (hc_leases l ! td_lease t)) (ew_tasks w) \<Longrightarrow>
     enforcing_step w (w\<lparr>ew_life := l\<rparr>)"

inductive_cases enforcing_stepE: "enforcing_step w w'"

definition enforcing_init :: "enforcing \<Rightarrow> bool" where
  "enforcing_init w \<longleftrightarrow> (\<exists>i. w = \<lparr>ew_enforcer = ScheduleEnforcer_new i, ew_life = HostLifecycleCoordinator_new, ew_tasks = []\<rparr>)"

definition task_ok :: "HostLifecycleCoordinator \<Rightarrow> teardown_task \<Rightarrow> bool" where
  "task_ok s t \<longleftrightarrow> td_lease t < length (hc_leases s) \<and> hl_hostname (hc_leases s ! td_lease t) = td_host t \<and>
     (hl_released (hc_leases s ! td_lease t) \<longleftrightarrow> \<not> holds_lease t)"

definition enforcing_inv :: "enforcing \<Rightarrow> bool" where
  "enforcing_inv w \<longleftrightarrow> lifecycle_inv (ew_life w) \<and> list_all (task_ok (ew_life w)) (ew_tasks w) \<and> distinct (map td_lease (ew_tasks w))"

lemma inv_parts:
  assumes "enforcing_inv w"
  shows "lifecycle_inv (ew_life w)" "t \<in> set (ew_tasks w) \<Longrightarrow> task_ok (ew_life w) t" "distinct (map td_lease (ew_tasks w))"
  using assms by (auto simp: enforcing_inv_def list_all_iff)

lemma inv_on_enforcer [simp]: "enforcing_inv (on_enforcer f w) = enforcing_inv w"
  by (simp add: enforcing_inv_def on_enforcer_def)

lemma lifecycle_inv_release: "lifecycle_inv s \<Longrightarrow> i < length (hc_leases s) \<Longrightarrow> lifecycle_inv (snd (lease_release i s))"
  using lifecycle_step_ok [OF _ lifecycle_step.release] by (simp add: step_ok_def)

lemma task_ok_release: "task_ok s t \<Longrightarrow> td_lease t \<noteq> i \<Longrightarrow> task_ok (snd (lease_release i s)) t"
  by (simp add: task_ok_def leases_release)

lemma task_ok_append: "task_ok s t \<Longrightarrow> hc_leases s' = hc_leases s @ xs \<Longrightarrow> task_ok s' t"
  by (simp add: task_ok_def nth_append)

lemma lease_index_inj:
  assumes "distinct (map td_lease ts)" "k < length ts" "t \<in> set (ts[k := x])" "t \<noteq> x"
  shows "t \<in> set ts \<and> td_lease t \<noteq> td_lease (ts ! k)"
proof -
  obtain j where j: "j < length ts" "ts[k := x] ! j = t" using assms(3) by (auto simp: in_set_conv_nth)
  then have "j \<noteq> k" using assms(2,4) by auto
  then show ?thesis using j assms(1,2) by (auto simp: distinct_conv_nth)
qed

lemma inv_phase_kept:
  assumes inv: "enforcing_inv w" and k: "k < length (ew_tasks w)" and same: "holds_lease ((ew_tasks w ! k)\<lparr>td_phase := p\<rparr>) = holds_lease (ew_tasks w ! k)"
  shows "enforcing_inv (w\<lparr>ew_tasks := (ew_tasks w)[k := (ew_tasks w ! k)\<lparr>td_phase := p\<rparr>]\<rparr>)"
proof -
  let ?t = "(ew_tasks w ! k)\<lparr>td_phase := p\<rparr>"
  have "task_ok (ew_life w) ?t" using inv_parts(2) [OF inv nth_mem [OF k]] same by (simp add: task_ok_def)
  then have "task_ok (ew_life w) t" if "t \<in> set ((ew_tasks w)[k := ?t])" for t
    using that inv_parts(2) [OF inv] set_update_subset_insert [of "ew_tasks w" k ?t] by auto
  moreover have "map td_lease ((ew_tasks w)[k := ?t]) = map td_lease (ew_tasks w)" using k by (simp add: map_update list_update_same_conv)
  ultimately show ?thesis using inv by (auto simp: enforcing_inv_def list_all_iff)
qed

lemma inv_phase_released:
  assumes inv: "enforcing_inv w" and k: "k < length (ew_tasks w)" and rel: "\<not> holds_lease ((ew_tasks w ! k)\<lparr>td_phase := p\<rparr>)"
  shows "enforcing_inv (w\<lparr>ew_life := snd (lease_release (td_lease (ew_tasks w ! k)) (ew_life w)), ew_tasks := (ew_tasks w)[k := (ew_tasks w ! k)\<lparr>td_phase := p\<rparr>]\<rparr>)"
proof -
  let ?t = "(ew_tasks w ! k)\<lparr>td_phase := p\<rparr>" and ?i = "td_lease (ew_tasks w ! k)"
  let ?l = "snd (lease_release ?i (ew_life w))"
  have ok: "task_ok (ew_life w) (ew_tasks w ! k)" using inv_parts(2) [OF inv nth_mem [OF k]] .
  then have i: "?i < length (hc_leases (ew_life w))" by (simp add: task_ok_def)
  have "task_ok ?l ?t" using ok rel by (auto simp: task_ok_def leases_release)
  moreover have "task_ok ?l t" if "t \<in> set ((ew_tasks w)[k := ?t])" "t \<noteq> ?t" for t
    using lease_index_inj [OF inv_parts(3) [OF inv] k that] inv_parts(2) [OF inv] task_ok_release by blast
  ultimately have "list_all (task_ok ?l) ((ew_tasks w)[k := ?t])" unfolding list_all_iff by blast
  moreover have "map td_lease ((ew_tasks w)[k := ?t]) = map td_lease (ew_tasks w)" using k by (simp add: map_update list_update_same_conv)
  ultimately show ?thesis using inv lifecycle_inv_release [OF inv_parts(1) [OF inv] i] by (simp add: enforcing_inv_def)
qed

lemma inv_reserve:
  assumes inv: "enforcing_inv w"
  shows "enforcing_inv (reserve_and_schedule pe h w)"
proof (cases "is_busy (ew_life w) h")
  case True
  then show ?thesis using inv by (simp add: reserve_and_schedule_def try_acquire_simps)
next
  case False
  define l where "l = snd (try_acquire h 0 (ew_life w))"
  let ?i = "length (hc_leases (ew_life w))"
  have l: "lifecycle_inv l" using trying_ok [OF inv_parts(1) [OF inv], of h 0] by (simp add: step_ok_def l_def)
  obtain a where leases: "hc_leases l = hc_leases (ew_life w) @ [\<lparr>hl_hostname = h, hl_entry = a, hl_released = False\<rparr>]"
    using False by (auto simp: l_def try_acquire_simps)
  have old: "task_ok l t" "td_lease t \<noteq> ?i" if "t \<in> set (ew_tasks w)" for t
    using inv_parts(2) [OF inv that] task_ok_append [OF _ leases] by (auto simp: task_ok_def)
  have run: "reserve_and_schedule pe h w = schedule_teardown (pe_fires pe h) (pe_failure pe h) h ?i
      (on_enforcer (\<lambda>e. e\<lparr>se_teardown_initiated := List.insert h (se_teardown_initiated e)\<rparr>) (w\<lparr>ew_life := l\<rparr>))"
    using False by (simp add: reserve_and_schedule_def l_def try_acquire_simps)
  show ?thesis
  proof (cases "pe_fires pe h")
    case True
    have "task_ok l \<lparr>td_host = h, td_lease = ?i, td_phase = Running\<rparr>" by (simp add: task_ok_def leases holds_lease_def)
    moreover have "?i \<notin> set (map td_lease (ew_tasks w))" using old(2) by (metis imageE list.set_map)
    ultimately show ?thesis using True old(1) l inv_parts(3) [OF inv]
      by (auto simp: run schedule_teardown_def enforcing_inv_def list_all_iff on_enforcer_def)
  next
    case False
    have "lifecycle_inv (snd (lease_release ?i l))" using lifecycle_inv_release [OF l] by (simp add: leases)
    moreover have "task_ok (snd (lease_release ?i l)) t" if "t \<in> set (ew_tasks w)" for t using old [OF that] task_ok_release by blast
    ultimately show ?thesis using False inv_parts(3) [OF inv]
      by (auto simp: run schedule_teardown_def release_at_end_def enforcing_inv_def list_all_iff on_enforcer_def)
  qed
qed

lemma inv_enforce_node: "enforcing_inv w \<Longrightarrow> enforcing_inv (enforce_node pe av n w)"
  by (simp add: enforce_node_def Let_def inv_reserve split: option.splits)

lemma inv_enforce_nodes: "enforcing_inv w \<Longrightarrow> enforcing_inv (enforce_nodes pe reply nodes w)"
proof -
  have "enforcing_inv (foldl (\<lambda>w n. enforce_node pe av n w) w nodes)" if "enforcing_inv w" for av
    using that by (induction nodes arbitrary: w) (auto intro: inv_enforce_node)
  then show "enforcing_inv w \<Longrightarrow> ?thesis" by (simp add: enforce_nodes_def split: sum.splits)
qed

lemma inv_end:
  assumes inv: "enforcing_inv w" and k: "k < length (ew_tasks w)" and running: "td_phase (ew_tasks w ! k) = Running"
  shows "enforcing_inv (end_teardown k how now w)"
proof -
  have i: "td_lease (ew_tasks w ! k) < length (hc_leases (ew_life w))"
    using inv_parts(2) [OF inv nth_mem [OF k]] by (simp add: task_ok_def)
  have h: "holds_lease (ew_tasks w ! k)" using running by (simp add: holds_lease_def)
  have rel: "enforcing_inv (on_enforcer f (w\<lparr>ew_life := snd (lease_release (td_lease (ew_tasks w ! k)) (ew_life w)),
      ew_tasks := (ew_tasks w)[k := (ew_tasks w ! k)\<lparr>td_phase := Ended c r\<rparr>]\<rparr>))" if "\<not> (c \<and> \<not> r)" for f c r
    using inv_phase_released [OF inv k, of "Ended c r"] that by (simp add: holds_lease_def)
  show ?thesis
  proof (cases how)
    case NeverStarted
    then show ?thesis using inv_phase_kept [OF inv k, of "Ended True False"] h by (simp add: end_teardown_def Let_def holds_lease_def)
  qed (use i lifecycle_inv_release [OF inv_parts(1) [OF inv] i] rel [of False False id] rel [of False True id] rel [of True True id] in \<open>simp_all add: end_teardown_def Let_def release_at_end_def on_enforcer_def enforcing_inv_def\<close>)
qed

lemma inv_callback:
  assumes inv: "enforcing_inv w" and k: "k < length (ew_tasks w)" and ended: "td_phase (ew_tasks w ! k) = Ended c r"
  shows "enforcing_inv (release_lease_callback k now w)"
proof -
  let ?w = "w\<lparr>ew_life := snd (lease_release (td_lease (ew_tasks w ! k)) (ew_life w)), ew_tasks := (ew_tasks w)[k := (ew_tasks w ! k)\<lparr>td_phase := Finished\<rparr>]\<rparr>"
  have "enforcing_inv ?w" using inv_phase_released [OF inv k, of Finished] by (simp add: holds_lease_def)
  moreover have "ew_life (release_lease_callback k now w) = ew_life ?w" "ew_tasks (release_lease_callback k now w) = ew_tasks ?w"
    by (simp_all add: release_lease_callback_def ended Let_def release_at_end_def on_enforcer_def)
  ultimately show ?thesis unfolding enforcing_inv_def by presburger
qed

lemma inv_others:
  assumes "enforcing_inv w" "lifecycle_step (ew_life w) l" "list_all (\<lambda>t. holds_lease t \<longrightarrow> \<not> hl_released (hc_leases l ! td_lease t)) (ew_tasks w)"
  shows "enforcing_inv (w\<lparr>ew_life := l\<rparr>)"
proof -
  have "lifecycle_inv l" using lifecycle_step_ok [OF inv_parts(1) [OF assms(1)] assms(2)] by (simp add: step_ok_def)
  moreover have "task_ok l t" if "t \<in> set (ew_tasks w)" for t
    using inv_parts(2) [OF assms(1) that] lifecycle_leases_grow [OF assms(2)] assms(3) that
    by (auto simp: task_ok_def leases_grow_def list_all_iff)
  ultimately show ?thesis using assms(1) by (simp add: enforcing_inv_def list_all_iff)
qed

interpretation enforcing: invariant_system enforcing_init enforcing_step enforcing_inv
proof
  show "enforcing_inv w" if "enforcing_init w" for w
    using that lifecycle_inv_init by (auto simp: enforcing_init_def enforcing_inv_def)
  show "enforcing_inv w'" if "enforcing_inv w" "enforcing_step w w'" for w w'
    using that(2) by (rule enforcing_stepE) (use that(1) in \<open>auto intro: inv_enforce_nodes inv_end inv_callback inv_others\<close>)
qed

lemma live_iff: "i \<in> set (live s h) \<longleftrightarrow> i < length (hc_leases s) \<and> belongs_to (hc_leases s ! i) h"
  by (auto simp: live_def)

lemma live_single: "lifecycle_inv s \<Longrightarrow> i \<in> set (live s h) \<Longrightarrow> live s h = [i]"
proof -
  assume inv: "lifecycle_inv s" and i: "i \<in> set (live s h)"
  obtain l where l: "entry_of s h = Some l" using inv_entry(1) [OF inv, of h] i by (cases "entry_of s h") auto
  have ok: "entry_ok l (live s h)" by (rule inv_entry(2) [OF inv l])
  then show "live s h = [i]" using i unfolding entry_ok_def by (auto split: if_splits)
qed

text \<open>
  C24. In every interleaving with the other tasks of the process, a scheduled teardown is the only lifecycle operation on its host
  until its coroutine has ended (or, never started, until its callback runs), no two teardowns of a host overlap, and every teardown that is
  over has given its host back, whichever way it ended. The repeated releases never touch the lease of a later operation.
\<close>

theorem teardown_owns_host:
  assumes "reachable enforcing_init enforcing_step w"
  shows "(\<forall>t \<in> set (ew_tasks w). (if holds_lease t then live (ew_life w) (td_host t) = [td_lease t] else td_lease t \<notin> set (live (ew_life w) (td_host t)))) \<and>
    distinct (map td_host (filter holds_lease (ew_tasks w)))"
proof -
  note inv = enforcing.reachable_inv [OF assms]
  have owns: "live (ew_life w) (td_host t) = [td_lease t]" if "t \<in> set (ew_tasks w)" "holds_lease t" for t
    using inv_parts(2) [OF inv that(1)] that(2)
    by (intro live_single [OF inv_parts(1) [OF inv]]) (simp add: live_iff task_ok_def belongs_to_def)
  moreover have "td_lease t \<notin> set (live (ew_life w) (td_host t))" if "t \<in> set (ew_tasks w)" "\<not> holds_lease t" for t
    using inv_parts(2) [OF inv that(1)] that(2) by (simp add: live_iff task_ok_def belongs_to_def)
  moreover have "distinct (map td_host (filter holds_lease (ew_tasks w)))"
  proof -
    let ?ts = "filter holds_lease (ew_tasks w)"
    have "distinct (map td_lease ?ts)" using inv_parts(3) [OF inv] by (rule distinct_map_filter)
    moreover have "map td_lease ?ts = map (\<lambda>h. hd (live (ew_life w) h)) (map td_host ?ts)" using owns by auto
    ultimately show ?thesis by (metis distinct_mapI)
  qed
  ultimately show ?thesis by simp
qed

text \<open>
  A host that was torn down and registered again before the next pass stays in \<^verbatim>\<open>_teardown_initiated\<close>, since only its absence from the
  registry at the start of a pass removes it. From then on the enforcer ignores it, whatever QUADS says.
\<close>

lemma clear_all_initiated: "se_teardown_initiated (foldl (\<lambda>e h. clear_teardown_retry h e) e hs) = se_teardown_initiated e"
  by (induction hs arbitrary: e) (simp_all add: clear_teardown_retry_def)

lemma reregistered_host_ignored:
  assumes "distinct (map node_id nodes)" "h \<in> set (se_teardown_initiated (ew_enforcer w))" "h \<in> set (map node_id before)"
  shows "h \<in> set (se_teardown_initiated (ew_enforcer (end_teardown k Succeeded now w)))"
    and "h \<in> set (se_teardown_initiated (prune_completed before (ew_enforcer w)))"
    and "count_list (map td_host (ew_tasks (enforce_once pe before id (Inr available) nodes w))) h = count_list (map td_host (ew_tasks w)) h"
proof -
  show keep: "h \<in> set (se_teardown_initiated (prune_completed before (ew_enforcer w)))"
    using assms(2,3) by (simp add: prune_completed_def Let_def clear_all_initiated)
  show "h \<in> set (se_teardown_initiated (ew_enforcer (end_teardown k Succeeded now w)))"
    using assms(2) by (simp add: end_teardown_def Let_def release_at_end_def on_enforcer_def clear_teardown_retry_def)
  let ?w = "on_enforcer (prune_completed before) w"
  let ?due = "filter (\<lambda>n. due pe (map canonical_hostname available) (ew_enforcer ?w) n \<and> \<not> is_busy (ew_life ?w) (node_id n) \<and> pe_fires pe (node_id n)) nodes"
  have "h \<notin> set (map node_id ?due)" using keep by (auto simp: due_def on_enforcer_def)
  then show "count_list (map td_host (ew_tasks (enforce_once pe before id (Inr available) nodes w))) h = count_list (map td_host (ew_tasks w)) h"
    using foldl_enforce_tasks [OF assms(1), of pe "map canonical_hostname available" ?w]
    by (simp add: enforce_once_def enforce_nodes_def on_enforcer_def)
qed

section \<open>The inventory\<close>

lemma gpu_host_ok: "gpus \<noteq> [] \<Longrightarrow> gpu_host raw gpus = Inr h \<Longrightarrow> 1 \<le> qh_gpu_count h \<and> (\<exists>name. qh_hostname h = canonical_hostname name \<and> obj_get raw ''name'' JNull = JStr name)"
  by (cases gpus) (auto simp: gpu_host_def split: json.splits)

lemma parse_hosts_sound:
  assumes "parse_hosts xs hosts = Inr hs" "h \<in> set hs"
  shows "h \<in> set hosts \<or> (\<exists>raw. JObj raw \<in> set xs \<and> \<not> json_truthy (obj_get raw ''broken'' JNull) \<and> \<not> json_truthy (obj_get raw ''retired'' JNull) \<and>
    1 \<le> qh_gpu_count h \<and> (\<exists>name. qh_hostname h = canonical_hostname name \<and> obj_get raw ''name'' JNull = JStr name))"
  using assms
proof (induction xs hosts rule: parse_hosts.induct)
  case (2 raw rest hosts)
  show ?case
  proof (cases "json_truthy (obj_get raw ''broken'' JNull) \<or> json_truthy (obj_get raw ''retired'' JNull)")
    case True
    then show ?thesis using 2 by auto
  next
    case False
    then obtain ps processors where ps: "obj_get raw ''processors'' (JList []) = JList ps" "all_objects ps = Some processors"
      using 2(4) by (auto split: json.splits option.splits)
    let ?gpus = "filter (\<lambda>p. obj_get p ''processor_type'' JNull = JStr ''GPU'') processors"
    show ?thesis
    proof (cases "?gpus = []")
      case True
      then show ?thesis using 2(2) [OF False ps refl] 2(4,5) False ps by auto
    next
      case ne: False
      then obtain g where g: "gpu_host raw ?gpus = Inr g" "parse_hosts rest (hosts @ [g]) = Inr hs"
        using 2(4) False ps by (cases "gpu_host raw ?gpus") (simp_all add: Let_def)
      show ?thesis using 2(3) [OF False ps refl ne g(2) 2(5)] gpu_host_ok [OF ne g(1)] False by auto
    qed
  qed
qed auto

text \<open>
  The inventory is read all or nothing: every host it returns names a record of the reply that is neither broken nor retired, in
  canonical spelling and with at least one GPU, and a reply of any other form is a connection error, which leaves the polled copy as
  it was and counts as one more failure.
\<close>

theorem inventory_sound:
  "(\<forall>hs. \<forall>h \<in> set hs. get_hosts (Inr data) = Inr hs \<longrightarrow>
      (\<exists>xs raw name. data = JList xs \<and> JObj raw \<in> set xs \<and> \<not> json_truthy (obj_get raw ''broken'' JNull) \<and>
         \<not> json_truthy (obj_get raw ''retired'' JNull) \<and> 1 \<le> qh_gpu_count h \<and>
         obj_get raw ''name'' JNull = JStr name \<and> qh_hostname h = canonical_hostname name)) \<and>
   (\<forall>e. get_hosts (Inr data) = Inl e \<longrightarrow>
      poll_once (get_hosts (Inr data)) available now p = p\<lparr>qp_consecutive_failures := qp_consecutive_failures p + 1\<rparr>)"
proof (intro conjI allI ballI impI)
  fix hs h assume h: "h \<in> set hs" and ok: "get_hosts (Inr data) = Inr hs"
  from ok obtain xs where xs: "data = JList xs" "parse_hosts xs [] = Inr hs"
    by (auto simp: get_hosts_def split: json.splits) (metis id_apply map_sum.simps sum.exhaust sum.inject(2) sum.distinct(1))
  from parse_hosts_sound [OF xs(2) h] xs(1) show "\<exists>xs raw name. data = JList xs \<and> JObj raw \<in> set xs \<and> \<not> json_truthy (obj_get raw ''broken'' JNull) \<and>
         \<not> json_truthy (obj_get raw ''retired'' JNull) \<and> 1 \<le> qh_gpu_count h \<and>
         obj_get raw ''name'' JNull = JStr name \<and> qh_hostname h = canonical_hostname name" by auto
next
  fix e assume "get_hosts (Inr data) = Inl e"
  then show "poll_once (get_hosts (Inr data)) available now p = p\<lparr>qp_consecutive_failures := qp_consecutive_failures p + 1\<rparr>"
    by (simp add: poll_once_def)
qed

section \<open>A sample pass\<close>

definition quads_reply :: json where
  "quads_reply = JList [JObj [(''name'', JStr ''H1.''), (''processors'', JList [JObj [(''processor_type'', JStr ''GPU'')]])],
     JObj [(''name'', JStr ''h2''), (''broken'', JBool True)]]"

theorem inventory_sound_witness:
  "get_hosts (Inr quads_reply) = Inr [\<lparr>qh_hostname = ''h1'', qh_gpu_vendor = [], qh_gpu_model = [], qh_gpu_count = 1\<rparr>] \<and>
   (\<exists>name. canonical_hostname name = ''h1'')"
proof -
  let ?h = "\<lparr>qh_hostname = ''h1'', qh_gpu_vendor = [], qh_gpu_model = [], qh_gpu_count = 1\<rparr>"
  have ok: "get_hosts (Inr quads_reply) = Inr [?h]" by code_simp
  have "?h \<in> set [?h]" by simp
  from inventory_sound [of quads_reply "Inr []" 0 QUADSPoller_new] ok this show ?thesis by fastforce
qed

definition leased_node :: "string \<Rightarrow> node" where
  "leased_node h = (blank_node h ''http://a:8000'')\<lparr>node_status := HEALTHY, node_managed := True\<rparr>"

definition sample_pass :: pass_env where
  "sample_pass = \<lparr>pe_check = (\<lambda>_. 0), pe_failure = (\<lambda>_. 0), pe_fires = (\<lambda>_. True)\<rparr>"

definition idle_enforcing :: enforcing where
  "idle_enforcing = \<lparr>ew_enforcer = ScheduleEnforcer_new 300, ew_life = HostLifecycleCoordinator_new, ew_tasks = []\<rparr>"

definition one_pass :: enforcing where
  "one_pass = enforce_nodes sample_pass (Inr [''h2'']) [leased_node ''h1'', leased_node ''h2''] idle_enforcing"

lemmas sample_pass_defs = leased_node_def blank_node_def sample_pass_def idle_enforcing_def

theorem pass_tears_down_exactly_witness:
  "map td_host (ew_tasks one_pass) = [''h1'']"
proof -
  have "canonical_hostname ''h1'' = ''h1''" "canonical_hostname ''h2'' = ''h2''" by code_simp+
  then have "filter (\<lambda>n. due sample_pass (map canonical_hostname [''h2'']) (ew_enforcer idle_enforcing) n \<and> \<not> is_busy (ew_life idle_enforcing) (node_id n) \<and>
      pe_fires sample_pass (node_id n)) [leased_node ''h1'', leased_node ''h2''] = [leased_node ''h1'']"
    by (simp add: due_def sample_pass_defs is_busy_def HostLifecycleCoordinator_new_def ScheduleEnforcer_new_def ACTIONABLE_STATUSES_def)
  then show ?thesis using pass_tears_down_exactly [of "[leased_node ''h1'', leased_node ''h2'']" sample_pass "QUADSConnectionError []" idle_enforcing "[''h2'']"]
    by (simp add: one_pass_def) (simp add: sample_pass_defs)
qed

theorem failed_teardown_retried_witness:
  "enforce_node (sample_pass\<lparr>pe_check := (\<lambda>_. seconds 299)\<rparr>) [] (leased_node ''h1'') (on_enforcer (record_teardown_failure ''h1'' 0) idle_enforcing) =
     on_enforcer (record_teardown_failure ''h1'' 0) idle_enforcing \<and>
   map td_host (ew_tasks (enforce_node (sample_pass\<lparr>pe_check := (\<lambda>_. seconds 300)\<rparr>) [] (leased_node ''h1'') (on_enforcer (record_teardown_failure ''h1'' 0) idle_enforcing))) = [''h1'']"
proof -
  let ?w = "on_enforcer (record_teardown_failure ''h1'' 0) idle_enforcing" and ?e = "ew_enforcer idle_enforcing"
  have w: "ew_enforcer ?w = record_teardown_failure ''h1'' 0 ?e" by (simp add: on_enforcer_def)
  have e: "failures ?e ''h1'' = 0" "se_interval ?e = 300" by (simp_all add: idle_enforcing_def ScheduleEnforcer_new_def dict_get_or_def)
  have d: "retry_delay 300 1 = seconds 300" by code_simp
  have n: "node_id (leased_node ''h1'') = ''h1''" "node_managed (leased_node ''h1'')" "node_status (leased_node ''h1'') \<in> set ACTIONABLE_STATUSES"
    by (simp_all add: leased_node_def blank_node_def ACTIONABLE_STATUSES_def)
  have free: "\<not> is_busy (ew_life ?w) ''h1''" "ew_tasks ?w = []" by (simp_all add: on_enforcer_def idle_enforcing_def is_busy_def HostLifecycleCoordinator_new_def)
  have f: "0 \<le> failures ?e ''h1''" using e by simp
  note retried = failed_teardown_retried [OF w f n, where available = "[]", unfolded Let_def]
  from retried [of "sample_pass\<lparr>pe_check := (\<lambda>_. seconds 299)\<rparr>"] retried [of "sample_pass\<lparr>pe_check := (\<lambda>_. seconds 300)\<rparr>"] show ?thesis
    using e d free by (simp add: sample_pass_def seconds_def)
qed

theorem teardown_owns_host_witness:
  "live (ew_life one_pass) ''h1'' = [0] \<and> live (ew_life (end_teardown 0 Raised 5 one_pass)) ''h1'' = []"
proof -
  have init: "enforcing_init idle_enforcing" by (auto simp: enforcing_init_def idle_enforcing_def)
  have r: "reachable enforcing_init enforcing_step one_pass"
    unfolding one_pass_def by (rule reach_step [where step = enforcing_step, OF reach_init [where init = enforcing_init, OF init] pass_ends])
  have tasks: "ew_tasks one_pass = [\<lparr>td_host = ''h1'', td_lease = 0, td_phase = Running\<rparr>]" by code_simp
  have r': "reachable enforcing_init enforcing_step (end_teardown 0 Raised 5 one_pass)"
    by (rule reach_step [where step = enforcing_step, OF r teardown_ends]) (simp_all add: tasks)
  have "ew_tasks (end_teardown 0 Raised 5 one_pass) = [\<lparr>td_host = ''h1'', td_lease = 0, td_phase = Ended False True\<rparr>]" by code_simp
  moreover have "length (hc_leases (ew_life (end_teardown 0 Raised 5 one_pass))) = 1" by code_simp
  ultimately have "0 \<notin> set (live (ew_life (end_teardown 0 Raised 5 one_pass)) ''h1'')"
    "set (live (ew_life (end_teardown 0 Raised 5 one_pass)) ''h1'') \<subseteq> {0}"
    using teardown_owns_host [OF r'] by (auto simp: holds_lease_def live_iff)
  then have "set (live (ew_life (end_teardown 0 Raised 5 one_pass)) ''h1'') = {}" by (auto simp: subset_singleton_iff)
  then show ?thesis using teardown_owns_host [OF r] tasks by (simp add: holds_lease_def)
qed

end
