(* ===== verification/FleetView.thy ===== *)
theory FleetView
  imports ApiAuth Quads ProvisioningState
begin

text \<open>
  Who sees what of the fleet: the admin and viewer checks of \<^verbatim>\<open>config/dependencies.py\<close>, the merged node list of
  \<^verbatim>\<open>services/unified_nodes.py\<close> with the records of \<^verbatim>\<open>models/admin.py\<close> it returns, and the per-node lookup of \<^verbatim>\<open>api/fleet.py\<close>. Every
  reading of the clock within one request is an argument of its own.
\<close>

section \<open>Viewers\<close>

record admin_settings =
  ad_username :: string
  ad_password :: string

record web_request =
  wr_method :: string
  wr_headers :: headers
  wr_session :: "session option"

definition credentials_match :: "string \<Rightarrow> string \<Rightarrow> admin_settings \<Rightarrow> bool" where
  "credentials_match username password settings \<longleftrightarrow>
     utf8_encode username = utf8_encode (ad_username settings) \<and> utf8_encode password = utf8_encode (ad_password settings)"

definition basic_credentials_match :: "headers \<Rightarrow> admin_settings \<Rightarrow> bool" where
  "basic_credentials_match hs settings =
     (case space_partition (dict_get_or hs ''authorization'' []) of
        (scheme, encoded) \<Rightarrow>
          if str_lower scheme \<noteq> ''basic'' \<or> str_strip encoded = [] then False
          else
            case Option.bind (b64decode (str_strip encoded)) utf8_decode of
              None \<Rightarrow> False
            | Some decoded \<Rightarrow>
                if CHR '':'' \<notin> set decoded then False
                else credentials_match (takeWhile (\<lambda>c. c \<noteq> CHR '':'') decoded) (tl (dropWhile (\<lambda>c. c \<noteq> CHR '':'') decoded)) settings)"

datatype role = RoleAdmin | RoleUser

text \<open>\<open>store\<close>: the user table, if there is an auth store, when it is read.\<close>

definition viewer_from_session :: "auth_db option \<Rightarrow> micros \<Rightarrow> session option \<Rightarrow> role option \<times> session option" where
  "viewer_from_session store now s =
     (case get_session_user_id now s of
        (None, s) \<Rightarrow> (None, s)
      | (Some user_id, s) \<Rightarrow>
          (case store of
             None \<Rightarrow> (None, s)
           | Some db \<Rightarrow>
               (case find_user user_id db of
                  None \<Rightarrow> (None, s)
                | Some u \<Rightarrow> (Some (if u_is_admin u then RoleAdmin else RoleUser), s))))"

definition session_user_has_full_access :: "auth_db option \<Rightarrow> auth_settings \<Rightarrow> micros \<Rightarrow> session option \<Rightarrow> bool \<times> session option" where
  "session_user_has_full_access store settings now s =
     (case get_session_user_id now s of
        (None, s) \<Rightarrow> (False, s)
      | (Some user_id, s) \<Rightarrow>
          (case store of
             None \<Rightarrow> (False, s)
           | Some db \<Rightarrow> (case find_user user_id db of None \<Rightarrow> (False, s) | Some u \<Rightarrow> (is_full_access (u_email u) (u_issuer u) settings, s))))"

text \<open>The readings of the clock: \<open>t1\<close> at the check of the session, \<open>t2\<close> at the second check or at the check for the local administrator.\<close>

definition viewer_role :: "auth_db option \<Rightarrow> admin_settings \<Rightarrow> micros \<Rightarrow> micros \<Rightarrow> headers \<Rightarrow> session option \<Rightarrow> role option \<times> session option" where
  "viewer_role store settings t1 t2 hs s =
     (case get_session_user_id t1 s of
        (Some _, s) \<Rightarrow> viewer_from_session store t2 s
      | (None, s) \<Rightarrow>
          if basic_credentials_match hs settings then (Some RoleAdmin, s)
          else
            (case get_local_admin_session t2 s of
               (True, s) \<Rightarrow> (Some RoleAdmin, s)
             | (False, s) \<Rightarrow> (None, s)))"

definition require_fleet_viewer ::
  "auth_db option \<Rightarrow> admin_settings \<Rightarrow> micros \<Rightarrow> micros \<Rightarrow> headers \<Rightarrow> session option \<Rightarrow> (api_error + role) \<times> session option" where
  "require_fleet_viewer store settings t1 t2 hs s =
     (case viewer_role store settings t1 t2 hs s of
        (None, s) \<Rightarrow> (Inl (HTTPException 401 ''Authentication required''), s)
      | (Some r, s) \<Rightarrow> (Inr r, s))"

text \<open>\<open>t3\<close> is the third reading and \<open>store'\<close> the user table at the second read, which happens in another thread.\<close>

definition require_fleet_viewer_email ::
  "auth_db option \<Rightarrow> (auth_db \<Rightarrow> auth_db) \<Rightarrow> admin_settings \<Rightarrow> micros \<Rightarrow> micros \<Rightarrow> micros \<Rightarrow> headers \<Rightarrow> session option \<Rightarrow>
     (api_error + string option) \<times> session option" where
  "require_fleet_viewer_email store others settings t1 t2 t3 hs s =
     (case require_fleet_viewer store settings t1 t2 hs s of
        (Inl e, s) \<Rightarrow> (Inl e, s)
      | (Inr _, s) \<Rightarrow>
          (case get_session_user_id t3 s of
             (None, s) \<Rightarrow> (Inr None, s)
           | (Some user_id, s) \<Rightarrow>
               (case store of
                  None \<Rightarrow> (Inr None, s)
                | Some db \<Rightarrow>
                    (case find_user user_id (others db) of
                       None \<Rightarrow> (Inl (HTTPException 401 ''Invalid admin credentials''), s)
                     | Some u \<Rightarrow> (Inr (Some (str_lower (u_email u))), s)))))"

definition JSON_ADMIN_METHODS :: "string list" where
  "JSON_ADMIN_METHODS = [''POST'', ''PUT'', ''PATCH'']"

definition require_admin_auth ::
  "auth_db option \<Rightarrow> admin_settings \<Rightarrow> micros \<Rightarrow> micros \<Rightarrow> web_request \<Rightarrow> (api_error + unit) \<times> session option" where
  "require_admin_auth store settings t1 t2 req =
     (case viewer_role store settings t1 t2 (wr_headers req) (wr_session req) of
        (r, s) \<Rightarrow>
          if r \<noteq> Some RoleAdmin then (Inl (HTTPException 401 ''Invalid admin credentials''), s)
          else if wr_method req \<in> set JSON_ADMIN_METHODS \<and>
              str_lower (takeWhile (\<lambda>c. c \<noteq> CHR '';'') (dict_get_or (wr_headers req) ''content-type'' [])) \<noteq> ''application/json''
          then (Inl (HTTPException 415 ''Admin state-changing requests must use application/json''), s)
          else (Inr (), s))"

section \<open>Node views\<close>

record TaskStatusResponse =
  ts_hostname :: string
  ts_attempt_id :: "string option"
  ts_engine :: "InferenceEngine option"
  ts_current_step :: string
  ts_started_at :: py_datetime
  ts_updated_at :: py_datetime
  ts_failed_step :: "string option"
  ts_error :: "string option"
  ts_resume_state :: "ProvisioningResumeState option"
  ts_attempt_number :: "int option"
  ts_retry_count :: int
  ts_progress :: "(string \<times> json) list option"
  ts_failure_class :: "string option"
  ts_next_action :: "string option"

record AdminNodeResponse =
  an_node_id :: string
  an_name :: string
  an_endpoint :: string
  an_model :: string
  an_status :: string
  an_active_connections :: int
  an_circuit_breaker_state :: string
  an_engine :: "InferenceEngine option"
  an_artifact_id :: "string option"
  an_llamacpp_runtime :: "LlamaCppRuntimeState option"
  an_vllm_runtime :: "VllmRuntimeState option"
  an_state :: string
  an_actions :: "string list"
  an_gpu_vendor :: "string option"
  an_gpu_model :: "string option"
  an_gpu_count :: "int option"
  an_managed :: bool
  an_self_setup :: bool
  an_admin_only :: bool
  an_failed_step :: "string option"
  an_error :: "string option"
  an_resume_state :: "ProvisioningResumeState option"
  an_placement_blocker :: "string option"
  an_owner :: string
  an_attempt_number :: "int option"
  an_retry_count :: int
  an_progress :: "(string \<times> json) list option"
  an_failure_class :: "string option"
  an_next_action :: "string option"

definition STATE_ACTIONS :: "(string, string list) dict" where
  "STATE_ACTIONS =
     [(''available'', [''setup'']), (''healthy'', [''teardown'']), (''unhealthy'', [''teardown'']), (''provisioning'', [''cancel'']),
      (''failed'', [''setup'', ''teardown'']), (''draining'', [''force_teardown'']), (''relaunching'', []), (''relaunch_failed'', [''teardown''])]"

definition TEARDOWN_FAILED_STEP :: string where
  "TEARDOWN_FAILED_STEP = ''teardown''"

fun CircuitBreakerState_value :: "CircuitBreakerState \<Rightarrow> string" where
  "CircuitBreakerState_value CLOSED = ''closed''"
| "CircuitBreakerState_value OPEN = ''open''"
| "CircuitBreakerState_value HALF_OPEN = ''half_open''"

text \<open>The node service: the registry, the polled QUADS data if there is any, the shared counters and the blockers.\<close>

record UnifiedNodeService =
  us_nodes :: "node list"
  us_poller :: "QUADSPoller option"
  us_breakers :: CircuitBreakerRegistry
  us_tracker :: "(string, int) dict"
  us_placement_blockers :: "(string, string) dict"

type_synonym task_map = "(string, TaskStatusResponse) dict"

definition from_etcd :: "UnifiedNodeService \<Rightarrow> task_map \<Rightarrow> node \<Rightarrow> QUADSHost option \<Rightarrow> AdminNodeResponse" where
  "from_etcd us tasks n host =
     (let state = NodeStatus_value (node_status n);
          task = dict_get tasks (node_id n);
          actions = dict_get_or STATE_ACTIONS state [];
          actions = (if node_self_setup n then [''remove'']
                     else if Option.bind task ts_failed_step = Some TEARDOWN_FAILED_STEP then [''teardown'']
                     else if state = ''available'' \<and> \<not> node_managed n then actions @ [''remove'']
                     else actions)
      in \<lparr>an_node_id = node_id n, an_name = node_name n, an_endpoint = node_endpoint n, an_model = node_model n,
          an_status = NodeStatus_value (node_status n), an_active_connections = tracker_get (us_tracker us) (node_id n),
          an_circuit_breaker_state = (case cb_get (us_breakers us) (node_id n) of None \<Rightarrow> ''closed'' | Some b \<Rightarrow> CircuitBreakerState_value (cb_state b)),
          an_engine = Some (node_engine n), an_artifact_id = node_artifact_id n, an_llamacpp_runtime = node_llamacpp_runtime n,
          an_vllm_runtime = node_vllm_runtime n, an_state = state, an_actions = actions, an_gpu_vendor = map_option qh_gpu_vendor host,
          an_gpu_model = map_option qh_gpu_model host, an_gpu_count = map_option qh_gpu_count host, an_managed = node_managed n,
          an_self_setup = node_self_setup n, an_admin_only = node_admin_only n, an_failed_step = Option.bind task ts_failed_step,
          an_error = Option.bind task ts_error, an_resume_state = Option.bind task ts_resume_state, an_placement_blocker = None,
          an_owner = node_owner n, an_attempt_number = Option.bind task ts_attempt_number,
          an_retry_count = (case task of None \<Rightarrow> 0 | Some t \<Rightarrow> ts_retry_count t), an_progress = Option.bind task ts_progress,
          an_failure_class = Option.bind task ts_failure_class, an_next_action = Option.bind task ts_next_action\<rparr>)"

definition available_state :: "TaskStatusResponse option \<Rightarrow> string \<times> string list" where
  "available_state task =
     (case task of
        None \<Rightarrow> (''available'', dict_get_or STATE_ACTIONS ''available'' [])
      | Some t \<Rightarrow>
          if ts_current_step t = ''failed'' \<or> (case ts_failed_step t of None \<Rightarrow> False | Some s \<Rightarrow> s \<noteq> []) then
            (''failed'', if ts_failed_step t = Some TEARDOWN_FAILED_STEP then [''teardown''] else dict_get_or STATE_ACTIONS ''failed'' [])
          else if ts_current_step t \<in> set (map ProvisioningStep_value TEARDOWN_STEPS) then (''draining'', dict_get_or STATE_ACTIONS ''draining'' [])
          else if ts_current_step t \<notin> {''complete'', ''teardown_complete''} then (''provisioning'', dict_get_or STATE_ACTIONS ''provisioning'' [])
          else (''available'', dict_get_or STATE_ACTIONS ''available'' []))"

definition from_available :: "QUADSHost \<Rightarrow> TaskStatusResponse option \<Rightarrow> AdminNodeResponse" where
  "from_available host task =
     \<lparr>an_node_id = qh_hostname host, an_name = [], an_endpoint = [], an_model = [], an_status = [], an_active_connections = 0,
      an_circuit_breaker_state = ''closed'', an_engine = None, an_artifact_id = None, an_llamacpp_runtime = None, an_vllm_runtime = None,
      an_state = fst (available_state task), an_actions = snd (available_state task), an_gpu_vendor = Some (qh_gpu_vendor host),
      an_gpu_model = Some (qh_gpu_model host), an_gpu_count = Some (qh_gpu_count host), an_managed = True, an_self_setup = False,
      an_admin_only = False, an_failed_step = Option.bind task ts_failed_step, an_error = Option.bind task ts_error,
      an_resume_state = Option.bind task ts_resume_state, an_placement_blocker = None, an_owner = [],
      an_attempt_number = Option.bind task ts_attempt_number, an_retry_count = (case task of None \<Rightarrow> 0 | Some t \<Rightarrow> ts_retry_count t),
      an_progress = Option.bind task ts_progress, an_failure_class = Option.bind task ts_failure_class,
      an_next_action = Option.bind task ts_next_action\<rparr>"

definition visible_to :: "string option \<Rightarrow> AdminNodeResponse \<Rightarrow> bool" where
  "visible_to viewer_email item \<longleftrightarrow> \<not> an_admin_only item \<and>
     \<not> (viewer_email \<noteq> None \<and> viewer_email \<noteq> Some [] \<and> an_owner item \<noteq> [] \<and> Some (str_lower (an_owner item)) \<noteq> viewer_email)"

definition finalize :: "AdminNodeResponse list \<Rightarrow> bool \<Rightarrow> string option \<Rightarrow> AdminNodeResponse list" where
  "finalize result viewer_admin viewer_email =
     sort_key an_node_id
       (if viewer_admin then result
        else map (\<lambda>item. item\<lparr>an_actions := [], an_owner := []\<rparr>) (filter (visible_to viewer_email) result))"

text \<open>The loop over the QUADS hosts takes each matched node out of the map of registered nodes.\<close>

fun merge_hosts ::
  "UnifiedNodeService \<Rightarrow> task_map \<Rightarrow> bool \<Rightarrow> string list \<Rightarrow> (string \<times> QUADSHost) list \<Rightarrow> (string, node) dict \<Rightarrow>
     AdminNodeResponse list \<Rightarrow> AdminNodeResponse list \<times> (string, node) dict" where
  "merge_hosts us tasks viewer_admin available [] etcd result = (result, etcd)"
| "merge_hosts us tasks viewer_admin available ((hostname, host) # hosts) etcd result =
     (case dict_get etcd hostname of
        Some n \<Rightarrow> merge_hosts us tasks viewer_admin available hosts (dict_pop hostname etcd) (result @ [from_etcd us tasks n (Some host)])
      | None \<Rightarrow>
          merge_hosts us tasks viewer_admin available hosts etcd
            (if hostname \<in> set available \<and> viewer_admin then result @ [from_available host (dict_get tasks hostname)] else result))"

definition with_blocker :: "(string, string) dict \<Rightarrow> AdminNodeResponse \<Rightarrow> AdminNodeResponse" where
  "with_blocker blockers item =
     (if an_state item = ''available'' then
        (case dict_get blockers (an_node_id item) of None \<Rightarrow> item | Some b \<Rightarrow> item\<lparr>an_placement_blocker := Some b\<rparr>)
      else item)"

definition etcd_map :: "node list \<Rightarrow> (string, node) dict" where
  "etcd_map nodes = dict_comp (map (\<lambda>n. (canonical_hostname (node_id n), n)) nodes)"

definition get_unified_nodes :: "UnifiedNodeService \<Rightarrow> task_map \<Rightarrow> bool \<Rightarrow> string option \<Rightarrow> AdminNodeResponse list" where
  "get_unified_nodes us tasks viewer_admin viewer_email =
     (case us_poller us of
        None \<Rightarrow> finalize (map (\<lambda>n. from_etcd us tasks n None) (dict_values (etcd_map (us_nodes us)))) viewer_admin viewer_email
      | Some p \<Rightarrow>
          (case merge_hosts us tasks viewer_admin (qp_available p) (dict_comp (map (\<lambda>h. (qh_hostname h, h)) (qp_hosts p))) (etcd_map (us_nodes us)) [] of
             (result, etcd) \<Rightarrow>
               finalize (map (with_blocker (us_placement_blockers us)) (result @ map (\<lambda>n. from_etcd us tasks n None) (dict_values etcd)))
                 viewer_admin viewer_email))"

definition visible_node :: "UnifiedNodeService \<Rightarrow> string \<Rightarrow> string option \<Rightarrow> api_error + AdminNodeResponse" where
  "visible_node us i viewer_email =
     (case find (\<lambda>n. an_node_id n = i) (get_unified_nodes us [] False viewer_email) of
        None \<Rightarrow> Inl (HTTPException 404 ''Node not found'')
      | Some n \<Rightarrow> Inr n)"

section \<open>The merged list\<close>

lemma pop_subset: "set (dict_pop k d) \<subseteq> set d"
  by (induction d) auto

lemma merge_sound:
  assumes "merge_hosts us tasks viewer_admin av hosts etcd result = (result', etcd')"
  shows "set etcd' \<subseteq> set etcd" and "x \<in> set result' \<Longrightarrow> x \<in> set result \<or> (\<exists>k n h. (k, n) \<in> set etcd \<and> x = from_etcd us tasks n h) \<or>
    viewer_admin \<and> (\<exists>host task. x = from_available host task)"
  using assms
proof (induction us tasks viewer_admin av hosts etcd result rule: merge_hosts.induct)
  case (2 us tasks viewer_admin av hostname host hosts etcd result)
  {
    case 1
    then show ?case using 2 pop_subset [of hostname etcd] by (fastforce split: option.splits)
  next
    case prems: 2
    show ?case
    proof (cases "dict_get etcd hostname")
      case None
      then show ?thesis using 2(2) [OF None] prems by (auto split: if_splits)
    next
      case (Some n)
      have "(hostname, n) \<in> set etcd" by (rule dict_get_mem [OF Some])
      moreover have "(k, m) \<in> set etcd" if "(k, m) \<in> set (dict_pop hostname etcd)" for k m using that pop_subset [of hostname etcd] by blast
      moreover have "x \<in> set result \<or> x = from_etcd us tasks n (Some host) \<or> (\<exists>k m h. (k, m) \<in> set (dict_pop hostname etcd) \<and> x = from_etcd us tasks m h) \<or>
        viewer_admin \<and> (\<exists>host task. x = from_available host task)" using 2(4) [OF Some] prems Some by simp blast
      ultimately show ?thesis by blast
    qed
  }
qed auto

lemma merge_keeps: "merge_hosts us tasks va av hosts etcd result = (result', etcd') \<Longrightarrow> set result \<subseteq> set result'"
  by (induction us tasks va av hosts etcd result rule: merge_hosts.induct) (auto split: option.splits if_splits)

lemma merge_complete:
  "merge_hosts us tasks va av hosts etcd result = (result', etcd') \<Longrightarrow> dict_ok etcd \<Longrightarrow> (k, n) \<in> set etcd \<Longrightarrow>
     (k, n) \<in> set etcd' \<or> (\<exists>h. from_etcd us tasks n h \<in> set result')"
proof (induction us tasks va av hosts etcd result rule: merge_hosts.induct)
  case (2 us tasks va av hostname host hosts etcd result)
  show ?case
  proof (cases "dict_get etcd hostname")
    case None
    then show ?thesis using 2(1) [OF None] 2(3-) by simp
  next
    case (Some m)
    let ?r = "result @ [from_etcd us tasks m (Some host)]"
    have run: "merge_hosts us tasks va av hosts (dict_pop hostname etcd) ?r = (result', etcd')" using 2(3) Some by simp
    show ?thesis
    proof (cases "k = hostname")
      case True
      then have "n = m" using 2(4,5) Some by (simp add: dict_mem_get)
      then show ?thesis using merge_keeps [OF run] by auto
    next
      case False
      then have "(k, n) \<in> set (dict_pop hostname etcd)" using 2(4,5) by (simp add: dict_mem_get)
      then show ?thesis using 2(2) [OF Some run] 2(4) by simp
    qed
  qed
qed simp

lemma from_etcd_parts [simp]:
  "an_node_id (from_etcd us tasks n h) = node_id n" "an_admin_only (from_etcd us tasks n h) = node_admin_only n"
  "an_owner (from_etcd us tasks n h) = node_owner n" "an_status (from_etcd us tasks n h) = NodeStatus_value (node_status n)"
  by (simp_all add: from_etcd_def Let_def)

lemma with_blocker_parts [simp]:
  "an_node_id (with_blocker b x) = an_node_id x" "an_admin_only (with_blocker b x) = an_admin_only x"
  "an_owner (with_blocker b x) = an_owner x" "an_status (with_blocker b x) = an_status x"
  by (simp_all add: with_blocker_def split: option.splits)

text \<open>The list before it is filtered for the viewer.\<close>

definition merged :: "UnifiedNodeService \<Rightarrow> task_map \<Rightarrow> bool \<Rightarrow> AdminNodeResponse list" where
  "merged us tasks viewer_admin =
     (case us_poller us of
        None \<Rightarrow> map (\<lambda>n. from_etcd us tasks n None) (dict_values (etcd_map (us_nodes us)))
      | Some p \<Rightarrow>
          (case merge_hosts us tasks viewer_admin (qp_available p) (dict_comp (map (\<lambda>h. (qh_hostname h, h)) (qp_hosts p))) (etcd_map (us_nodes us)) [] of
             (result, etcd) \<Rightarrow> map (with_blocker (us_placement_blockers us)) (result @ map (\<lambda>n. from_etcd us tasks n None) (dict_values etcd))))"

lemma unified_merged: "get_unified_nodes us tasks va email = finalize (merged us tasks va) va email"
  by (simp add: get_unified_nodes_def merged_def split: option.splits prod.splits)

definition describes :: "AdminNodeResponse \<Rightarrow> node \<Rightarrow> bool" where
  "describes x n \<longleftrightarrow> an_node_id x = node_id n \<and> an_admin_only x = node_admin_only n \<and> an_owner x = node_owner n \<and>
     an_status x = NodeStatus_value (node_status n)"

lemma etcd_map_nodes: "(k, n) \<in> set (etcd_map nodes) \<Longrightarrow> n \<in> set nodes"
  unfolding etcd_map_def by (drule dict_comp_mem) auto

lemma merged_sound:
  assumes "x \<in> set (merged us tasks False)"
  shows "\<exists>n \<in> set (us_nodes us). describes x n"
proof (cases "us_poller us")
  case None
  then show ?thesis using assms by (auto simp: merged_def describes_def dest!: etcd_map_nodes)
next
  case (Some p)
  obtain result etcd where run: "merge_hosts us tasks False (qp_available p) (dict_comp (map (\<lambda>h. (qh_hostname h, h)) (qp_hosts p))) (etcd_map (us_nodes us)) [] = (result, etcd)"
    by fastforce
  have "x \<in> with_blocker (us_placement_blockers us) ` set (result @ map (\<lambda>n. from_etcd us tasks n None) (dict_values etcd))"
    using assms Some run by (auto simp: merged_def image_Un image_image)
  then obtain y where y: "x = with_blocker (us_placement_blockers us) y" "y \<in> set (result @ map (\<lambda>n. from_etcd us tasks n None) (dict_values etcd))" by blast
  then have "y \<in> set result \<or> (\<exists>k n. (k, n) \<in> set etcd \<and> y = from_etcd us tasks n None)" by force
  then obtain k n h where n: "(k, n) \<in> set (etcd_map (us_nodes us))" "y = from_etcd us tasks n h"
    using merge_sound(2) [OF run, of y] merge_sound(1) [OF run] by auto
  then show ?thesis using y(1) etcd_map_nodes by (auto simp: describes_def)
qed

lemma merged_complete:
  assumes "n \<in> set (us_nodes us)" "distinct (map (\<lambda>n. canonical_hostname (node_id n)) (us_nodes us))"
  shows "\<exists>x \<in> set (merged us tasks va). describes x n"
proof -
  have eq: "etcd_map (us_nodes us) = map (\<lambda>n. (canonical_hostname (node_id n), n)) (us_nodes us)"
    using assms(2) by (simp add: etcd_map_def comp_def)
  have ok: "dict_ok (etcd_map (us_nodes us))" using assms(2) by (simp add: eq dict_ok_def comp_def)
  have mem: "(canonical_hostname (node_id n), n) \<in> set (etcd_map (us_nodes us))" using assms(1) by (auto simp: eq)
  show ?thesis
  proof (cases "us_poller us")
    case None
    then show ?thesis using mem by (force simp: merged_def describes_def)
  next
    case (Some p)
    obtain result etcd where run: "merge_hosts us tasks va (qp_available p) (dict_comp (map (\<lambda>h. (qh_hostname h, h)) (qp_hosts p))) (etcd_map (us_nodes us)) [] = (result, etcd)"
      by fastforce
    from merge_complete [OF run ok mem]
    have "\<exists>y \<in> set (result @ map (\<lambda>n. from_etcd us tasks n None) (dict_values etcd)). describes y n" by (force simp: describes_def)
    then obtain y where "y \<in> set (result @ map (\<lambda>n. from_etcd us tasks n None) (dict_values etcd))" "describes y n" by blast
    then show ?thesis using Some run by (intro bexI [of _ "with_blocker (us_placement_blockers us) y"]) (auto simp: merged_def describes_def)
  qed
qed

text \<open>
  C10. A viewer who is not an administrator and has an address sees only registered nodes, none of them admin-only or owned by
  somebody else, and with no operations offered and no owner disclosed; and sees every such node, whatever QUADS reports, where no two
  registered nodes spell the same host name.
\<close>

theorem fleet_view_private:
  assumes "email \<noteq> []"
  shows "(\<forall>x \<in> set (get_unified_nodes us tasks False (Some email)). an_actions x = [] \<and> an_owner x = [] \<and>
      (\<exists>n \<in> set (us_nodes us). an_node_id x = node_id n \<and> an_status x = NodeStatus_value (node_status n) \<and> \<not> node_admin_only n \<and>
         (node_owner n = [] \<or> str_lower (node_owner n) = email))) \<and>
    (distinct (map (\<lambda>n. canonical_hostname (node_id n)) (us_nodes us)) \<longrightarrow>
      (\<forall>n \<in> set (us_nodes us). \<not> node_admin_only n \<and> (node_owner n = [] \<or> str_lower (node_owner n) = email) \<longrightarrow>
        node_id n \<in> an_node_id ` set (get_unified_nodes us tasks False (Some email))))"
proof (intro conjI ballI impI)
  fix x assume "x \<in> set (get_unified_nodes us tasks False (Some email))"
  then obtain y where y: "y \<in> set (merged us tasks False)" "visible_to (Some email) y" "x = y\<lparr>an_actions := [], an_owner := []\<rparr>"
    by (auto simp: unified_merged finalize_def)
  then show "an_actions x = []" "an_owner x = []" by simp_all
  from merged_sound [OF y(1)] obtain n where "n \<in> set (us_nodes us)" "describes y n" by blast
  then show "\<exists>n \<in> set (us_nodes us). an_node_id x = node_id n \<and> an_status x = NodeStatus_value (node_status n) \<and> \<not> node_admin_only n \<and>
         (node_owner n = [] \<or> str_lower (node_owner n) = email)"
    using y(2,3) assms by (intro bexI [of _ n]) (auto simp: describes_def visible_to_def)
next
  fix n assume "distinct (map (\<lambda>n. canonical_hostname (node_id n)) (us_nodes us))" "n \<in> set (us_nodes us)"
    and n: "\<not> node_admin_only n \<and> (node_owner n = [] \<or> str_lower (node_owner n) = email)"
  with merged_complete obtain y where y: "y \<in> set (merged us tasks False)" "describes y n" by blast
  then have "visible_to (Some email) y" using n by (auto simp: describes_def visible_to_def)
  then show "node_id n \<in> an_node_id ` set (get_unified_nodes us tasks False (Some email))"
    using y by (force simp: unified_merged finalize_def describes_def)
qed

section \<open>Viewers and administrators\<close>

lemma session_user_again:
  "get_session_user_id t s = (Some i, s') \<Longrightarrow> s' = s" "get_session_user_id t s = (None, s') \<Longrightarrow> fst (get_session_user_id t s') = None"
  by (auto simp: get_session_user_id_def session_state_def clear_session_user_def split: option.splits if_splits prod.splits)

lemma user_gone: "get_session_user_id t s = (None, s') \<Longrightarrow> fst (get_session_user_id t' s') = None"
  by (auto simp: get_session_user_id_def session_state_def clear_session_user_def split: option.splits if_splits prod.splits)

lemma admin_check_keeps_gone: "fst (get_session_user_id t s) = None \<Longrightarrow> fst (get_session_user_id t (snd (get_local_admin_session t' s))) = None"
  by (auto simp: get_session_user_id_def get_local_admin_session_def session_state_def clear_local_admin_session_def split: option.splits if_splits prod.splits)

text \<open>
  Only an administrator gets through the admin check: a session user who is an administrator, or, where no session user is signed
  in, the holder of the configured Basic credentials or of a local administrator session. A signed-in user who is not an administrator is
  refused whatever else the request carries, and a state-changing request must be JSON.
\<close>

theorem admin_access_exact:
  "fst (require_admin_auth store settings t t req) = Inr () \<longleftrightarrow>
     (case fst (get_session_user_id t (wr_session req)) of
        Some i \<Rightarrow> (\<exists>db u. store = Some db \<and> find_user i db = Some u \<and> u_is_admin u)
      | None \<Rightarrow> basic_credentials_match (wr_headers req) settings \<or>
          fst (get_local_admin_session t (snd (get_session_user_id t (wr_session req))))) \<and>
     (wr_method req \<in> set JSON_ADMIN_METHODS \<longrightarrow>
        str_lower (takeWhile (\<lambda>c. c \<noteq> CHR '';'') (dict_get_or (wr_headers req) ''content-type'' [])) = ''application/json'')"
proof (cases "get_session_user_id t (wr_session req)")
  case (Pair uid s)
  show ?thesis
  proof (cases uid)
    case None
    then show ?thesis using Pair by (auto simp: require_admin_auth_def viewer_role_def split: prod.splits bool.splits)
  next
    case (Some i)
    then have "s = wr_session req" using Pair session_user_again(1) by simp
    then show ?thesis using Pair Some
      by (auto simp: require_admin_auth_def viewer_role_def viewer_from_session_def split: prod.splits option.splits if_splits)
  qed
qed

text \<open>
  C11. The fleet filter of a signed-in user: where the session does not expire while the request is checked, a signed-in user is either
  refused or given their own address, in lower case, as the filter; the filter is dropped only for the holder of the Basic credentials or
  of a local administrator session.
\<close>

theorem fleet_filter_kept:
  assumes "require_fleet_viewer_email store others settings t1 t2 t3 hs s = (Inr email, s')"
    and "fst (get_session_user_id t1 s) = fst (get_session_user_id t3 s)"
  shows "case fst (get_session_user_id t1 s) of
      Some i \<Rightarrow> (\<exists>db u. store = Some db \<and> find_user i (others db) = Some u \<and> email = Some (str_lower (u_email u)))
    | None \<Rightarrow> email = None \<and> (basic_credentials_match hs settings \<or> fst (get_local_admin_session t2 (snd (get_session_user_id t1 s))))"
proof (cases "get_session_user_id t1 s")
  case (Pair uid s1)
  show ?thesis
  proof (cases uid)
    case None
    have "fst (get_session_user_id t3 s1) = None" "fst (get_session_user_id t3 (snd (get_local_admin_session t2 s1))) = None"
      using user_gone [of t1 s s1 t3] admin_check_keeps_gone [of t3 s1 t2] Pair None by simp_all
    then show ?thesis using assms(1) Pair None
      by (auto simp: require_fleet_viewer_email_def require_fleet_viewer_def viewer_role_def split: prod.splits option.splits if_splits bool.splits)
  next
    case (Some i)
    then have s1: "s1 = s" using Pair session_user_again(1) by simp
    obtain i3 where "get_session_user_id t3 s = (Some i, i3)" using assms(2) Pair Some by (metis fst_conv surj_pair)
    then have "get_session_user_id t3 s = (Some i, s)" using session_user_again(1) by blast
    moreover have "snd (viewer_from_session store t2 s) = s" if "fst (viewer_from_session store t2 s) \<noteq> None"
      using that session_user_again(1) [of t2 s] by (auto simp: viewer_from_session_def split: prod.splits option.splits)
    ultimately show ?thesis using assms(1) Pair Some s1
      by (auto simp: require_fleet_viewer_email_def require_fleet_viewer_def viewer_role_def viewer_from_session_def split: prod.splits option.splits)
  qed
qed

text \<open>
  Where the session of a user expires between the check of the role and the look-up of the address, the request goes on with no filter
  at all, so that user is shown the nodes of others: \<^verbatim>\<open>require_fleet_viewer_email\<close> treats the missing session user like an administrator.
\<close>

lemma expiring_session_drops_filter:
  assumes "find_user i db = Some u" "\<not> u_is_admin u" "t1 \<le> seconds e" "t2 \<le> seconds e" "seconds e < t3"
    and s: "s = [(SESSION_USER_KEY, JInt i), (SESSION_EXPIRY_KEY, JInt e)]"
  shows "fst (viewer_role (Some db) settings t1 t2 hs (Some s)) = Some RoleUser"
    and "fst (require_fleet_viewer_email (Some db) others settings t1 t2 t3 hs (Some s)) = Inr None"
  using assms by (simp_all add: require_fleet_viewer_email_def require_fleet_viewer_def viewer_role_def viewer_from_session_def get_session_user_id_def session_state_def)

section \<open>Sample views\<close>

definition fleet_admin :: admin_settings where
  "fleet_admin = \<lparr>ad_username = ''root'', ad_password = ''pw''\<rparr>"

definition sample_service :: UnifiedNodeService where
  "sample_service = \<lparr>us_nodes = [(leased_node ''h1'')\<lparr>node_owner := ''A@x''\<rparr>, (leased_node ''h2'')\<lparr>node_owner := ''b@x''\<rparr>], us_poller = None,
     us_breakers = \<lparr>cbr_threshold = 3, cbr_breakers = []\<rparr>, us_tracker = [], us_placement_blockers = []\<rparr>"

theorem fleet_view_private_witness:
  "''h1'' \<in> an_node_id ` set (get_unified_nodes sample_service [] False (Some ''a@x'')) \<and>
   ''h2'' \<notin> an_node_id ` set (get_unified_nodes sample_service [] False (Some ''a@x''))"
proof -
  have c: "canonical_hostname ''h1'' = ''h1''" "canonical_hostname ''h2'' = ''h2''" "str_lower ''A@x'' = ''a@x''" "str_lower ''b@x'' = ''b@x''" by code_simp+
  have nodes: "us_nodes sample_service = [(leased_node ''h1'')\<lparr>node_owner := ''A@x''\<rparr>, (leased_node ''h2'')\<lparr>node_owner := ''b@x''\<rparr>]"
    by (simp add: sample_service_def)
  note view = fleet_view_private [of "''a@x''" sample_service "[]", unfolded nodes]
  have "''h1'' \<in> an_node_id ` set (get_unified_nodes sample_service [] False (Some ''a@x''))"
    using view [THEN conjunct2] c by (simp add: leased_node_def blank_node_def)
  moreover have "''h2'' \<notin> an_node_id ` set (get_unified_nodes sample_service [] False (Some ''a@x''))"
  proof
    assume "''h2'' \<in> an_node_id ` set (get_unified_nodes sample_service [] False (Some ''a@x''))"
    then obtain x where "x \<in> set (get_unified_nodes sample_service [] False (Some ''a@x''))" "an_node_id x = ''h2''" by auto
    with view [THEN conjunct1] c show False by (fastforce simp: leased_node_def blank_node_def)
  qed
  ultimately show ?thesis by blast
qed

definition admin_request :: web_request where
  "admin_request = \<lparr>wr_method = ''POST'', wr_headers = [(''authorization'', ''Basic cm9vdDpwdw==''), (''content-type'', ''application/json'')], wr_session = None\<rparr>"

theorem admin_access_exact_witness:
  "fst (require_admin_auth None fleet_admin 0 0 admin_request) = Inr () \<and>
   fst (require_admin_auth None fleet_admin 0 0 (admin_request\<lparr>wr_session := Some [(SESSION_USER_KEY, JInt 1), (SESSION_EXPIRY_KEY, JInt 5)]\<rparr>)) \<noteq> Inr ()"
proof -
  have 1: "basic_credentials_match (wr_headers admin_request) fleet_admin"
    "str_lower (takeWhile (\<lambda>c. c \<noteq> CHR '';'') (dict_get_or (wr_headers admin_request) ''content-type'' [])) = ''application/json''" by code_simp+
  have 2: "fst (get_session_user_id 0 (wr_session admin_request)) = None"
    "fst (get_session_user_id 0 (Some [(SESSION_USER_KEY, JInt 1), (SESSION_EXPIRY_KEY, JInt 5)])) = Some 1" by code_simp+
  show ?thesis unfolding admin_access_exact using 1 2 by simp
qed

theorem fleet_filter_kept_witness:
  "fst (require_fleet_viewer_email (Some sample_users) id fleet_admin 0 0 0 [] (Some (set_session_user 1 60 0 []))) = Inr (Some ''a@x'')"
proof -
  let ?s = "Some (set_session_user 1 60 0 [])"
  have user: "fst (get_session_user_id 0 ?s) = Some 1" by code_simp
  have ok: "case fst (require_fleet_viewer_email (Some sample_users) id fleet_admin 0 0 0 [] ?s) of Inr _ \<Rightarrow> True | Inl _ \<Rightarrow> False" by code_simp
  then obtain email s' where run: "require_fleet_viewer_email (Some sample_users) id fleet_admin 0 0 0 [] ?s = (Inr email, s')"
    by (cases "require_fleet_viewer_email (Some sample_users) id fleet_admin 0 0 0 [] ?s") (auto split: sum.splits)
  have "map_option (\<lambda>u. str_lower (u_email u)) (find_user 1 sample_users) = Some ''a@x''" by code_simp
  then show ?thesis using fleet_filter_kept [OF run refl] user run by auto
qed

end
