(* ===== verification/Failover.thy ===== *)
theory Failover
  imports Reservations EtcdClient
begin

text \<open>
  The request path of \<^verbatim>\<open>api/routes.py\<close> with \<^verbatim>\<open>api/errors.py\<close> and \<^verbatim>\<open>proxy/client.py\<close>: attempts over several
  nodes for plain and for streaming requests, and the relay of a stream. One \<open>attempt_env\<close> per
  iteration of the attempt loop says what the environment does in it: the random draw, whether the
  backend URL can be built, what the HTTP client gives back, what other requests and threads do
  to the shared state meanwhile, and the clock. \<open>httpx\<close> and the SSE library are outside the
  repository: exceptions enter by class, responses by the attributes the handlers read. Rendering
  an error for a dialect and writing the usage row are left to \<open>ProxyError\<close> and the usage list.
\<close>

section \<open>Errors\<close>

datatype upstream_exc =
    ConnectError | TimeoutException | OtherTransportError | HTTPStatusError int string | OtherException

record ErrorDetail =
  ed_message :: string
  ed_type :: string
  ed_code :: string

fun is_transport :: "upstream_exc \<Rightarrow> bool" where
  "is_transport ConnectError = True"
| "is_transport TimeoutException = True"
| "is_transport OtherTransportError = True"
| "is_transport _ = False"

definition map_proxy_error :: "upstream_exc \<Rightarrow> int \<times> ErrorDetail" where
  "map_proxy_error exc =
     (case exc of
        ConnectError \<Rightarrow>
          (502, \<lparr>ed_message = ''Failed to connect to inference backend'', ed_type = ''upstream_error'',
                 ed_code = ''backend_unavailable''\<rparr>)
      | TimeoutException \<Rightarrow>
          (504, \<lparr>ed_message = ''Inference backend timed out'', ed_type = ''upstream_error'',
                 ed_code = ''backend_timeout''\<rparr>)
      | OtherTransportError \<Rightarrow>
          (502, \<lparr>ed_message = ''Inference backend connection failed during request'', ed_type = ''upstream_error'',
                 ed_code = ''backend_transport_error''\<rparr>)
      | HTTPStatusError status text \<Rightarrow>
          (status, \<lparr>ed_message = ''Inference backend returned error: '' @ take 200 text,
                    ed_type = ''upstream_error'', ed_code = str_int status\<rparr>)
      | OtherException \<Rightarrow>
          (500, \<lparr>ed_message = ''Internal gateway error'', ed_type = ''server_error'', ed_code = ''internal_error''\<rparr>))"

definition model_not_found_error :: "string \<Rightarrow> int \<times> ErrorDetail" where
  "model_not_found_error m =
     (404, \<lparr>ed_message = ''The model '' @ [CHR 0x27] @ m @ [CHR 0x27] @ '' does not exist'', ed_type = ''invalid_request_error'',
            ed_code = ''model_not_found''\<rparr>)"

definition model_unavailable_error :: "string \<Rightarrow> int \<times> ErrorDetail" where
  "model_unavailable_error m =
     (503, \<lparr>ed_message = ''The model '' @ [CHR 0x27] @ m @ [CHR 0x27] @ '' is temporarily unavailable'', ed_type = ''server_error'',
            ed_code = ''model_unavailable''\<rparr>)"

definition no_nodes_error :: "int \<times> ErrorDetail" where
  "no_nodes_error =
     (503, \<lparr>ed_message = ''No inference nodes available'', ed_type = ''server_error'', ed_code = ''no_nodes''\<rparr>)"

definition select_error :: "string option \<Rightarrow> string list option \<Rightarrow> string option \<Rightarrow> gateway \<Rightarrow> int \<times> ErrorDetail" where
  "select_error model allowed owner g =
     (let scoped = filter (\<lambda>n. in_scope n allowed owner) (registry_get_all (gw_registry g))
      in if scoped = [] then no_nodes_error
         else case model of
                Some m \<Rightarrow>
                  if m = [] then no_nodes_error
                  else if \<not> list_ex (\<lambda>n. node_model n = m) scoped then model_not_found_error m
                  else model_unavailable_error m
              | None \<Rightarrow> no_nodes_error)"

definition is_retryable :: "upstream_exc \<Rightarrow> bool" where
  "is_retryable exc =
     (if is_transport exc then True
      else case exc of HTTPStatusError status _ \<Rightarrow> status \<ge> 500 | _ \<Rightarrow> False)"

definition record_failure_and_trip :: "node \<Rightarrow> gateway \<Rightarrow> gateway" where
  "record_failure_and_trip n g =
     (case get_or_create (gw_breakers g) (node_id n) of
        (b, reg) \<Rightarrow>
          (let b' = record_failure b;
               g1 = g\<lparr>gw_breakers := cb_put (node_id n) b' reg\<rparr>
           in if is_open b'
              then g1\<lparr>gw_registry := snd (update_status (node_id n) UNHEALTHY [HEALTHY] (gw_registry g1))\<rparr>
              else g1))"

definition record_backend_success :: "node \<Rightarrow> gateway \<Rightarrow> gateway" where
  "record_backend_success n g =
     (case get_or_create (gw_breakers g) (node_id n) of
        (b, reg) \<Rightarrow> g\<lparr>gw_breakers := cb_put (node_id n) (record_success b) reg\<rparr>)"

section \<open>Requests and their environment\<close>

record http_response =
  hr_status :: int
  hr_success :: bool
  hr_json :: "json option"
  hr_text :: string

datatype upstream = Reply http_response | Failed upstream_exc | Cancelled

definition proxy_forward :: "upstream \<Rightarrow> upstream" where
  "proxy_forward u =
     (case u of
        Reply r \<Rightarrow> if hr_status r \<ge> 500 then Failed (HTTPStatusError (hr_status r) (hr_text r)) else Reply r
      | _ \<Rightarrow> u)"

definition response_content :: "http_response \<Rightarrow> json" where
  "response_content r = (case hr_json r of Some j \<Rightarrow> j | None \<Rightarrow> JObj [(''raw'', JStr (hr_text r))])"

record usage_row =
  us_model :: string
  us_endpoint :: string
  us_tokens :: "int \<times> int \<times> int"

record proxy_request =
  rq_endpoint :: string
  rq_model :: "string option"
  rq_allowed :: "string list option"
  rq_owner :: "string option"
  rq_metered :: bool
  rq_usage_of :: "json \<Rightarrow> (int \<times> int \<times> int) option"

record attempt_env =
  ae_rnd :: nat
  ae_url :: "string \<Rightarrow> bool"
  ae_upstream :: "node \<Rightarrow> upstream"
  ae_meanwhile :: "routing_sys \<Rightarrow> routing_sys"
  ae_now :: micros
  ae_connect_at :: micros

record serving =
  sv_sys :: routing_sys
  sv_usage :: "usage_row list"

datatype proxy_result =
    ProxyResponse int json
  | ProxyStream nat
  | ProxyError int ErrorDetail
  | ProxyExhausted int ErrorDetail nat
  | ProxyRaised py_error
  | ProxyCancelled

text \<open>The reservations a request takes: index and node, in order of the attempts.\<close>

type_synonym attempt_log = "(nat \<times> string) list"

definition on_gateway :: "(gateway \<Rightarrow> gateway) \<Rightarrow> serving \<Rightarrow> serving" where
  "on_gateway f s = s\<lparr>sv_sys := (sv_sys s)\<lparr>sys_gw := f (sys_gw (sv_sys s))\<rparr>\<rparr>"

definition release_at :: "nat \<Rightarrow> serving \<Rightarrow> serving" where
  "release_at j s = s\<lparr>sv_sys := reservation_release j (sv_sys s)\<rparr>"

text \<open>Selection, the reservation object and the request counters of one attempt.\<close>

definition start_attempt ::
  "proxy_request \<Rightarrow> attempt_env \<Rightarrow> string list \<Rightarrow> bool \<Rightarrow> serving \<Rightarrow> py_error + (node \<times> nat \<times> serving) option" where
  "start_attempt rq env excluded first s =
     (case select_and_reserve (rq_model rq) (if excluded = [] then None else Some excluded)
             (rq_allowed rq) (rq_owner rq) (ae_rnd env) (sys_gw (sv_sys s)) of
        Inl e \<Rightarrow> Inl e
      | Inr None \<Rightarrow> Inr None
      | Inr (Some (n, g)) \<Rightarrow>
          (let g = g\<lparr>gw_metrics := (if first then record_request (node_id n) (rq_model rq) (gw_metrics g)
                                    else record_node_attempt (node_id n) (gw_metrics g))\<rparr>
           in Inr (Some (n, length (sys_resv (sv_sys s)),
                s\<lparr>sv_sys := \<lparr>sys_gw = g, sys_resv = sys_resv (sv_sys s) @ [(node_id n, False)]\<rparr>\<rparr>))))"

definition no_node_result ::
  "proxy_request \<Rightarrow> (int \<times> ErrorDetail) option \<Rightarrow> nat \<Rightarrow> serving \<Rightarrow> proxy_result" where
  "no_node_result rq last_error attempts s =
     (case last_error of
        Some (status, e) \<Rightarrow> ProxyExhausted status e attempts
      | None \<Rightarrow> (case select_error (rq_model rq) (rq_allowed rq) (rq_owner rq) (sys_gw (sv_sys s)) of
                  (status, e) \<Rightarrow> ProxyError status e))"

definition budget_result :: "(int \<times> ErrorDetail) option \<Rightarrow> nat \<Rightarrow> proxy_result" where
  "budget_result last_error attempts =
     (case last_error of
        None \<Rightarrow> ProxyRaised (RuntimeError ''attempt budget exhausted without a backend failure'')
      | Some (status, e) \<Rightarrow> ProxyExhausted status e attempts)"

section \<open>Plain requests\<close>

definition accept_response :: "proxy_request \<Rightarrow> node \<Rightarrow> http_response \<Rightarrow> serving \<Rightarrow> serving" where
  "accept_response rq n r s =
     (let s = (if hr_success r then on_gateway (record_backend_success n) s else s)
      in if hr_success r \<and> rq_metered rq then
           (case rq_usage_of rq (response_content r) of
              None \<Rightarrow> s
            | Some tokens \<Rightarrow>
                s\<lparr>sv_usage := sv_usage s @ [\<lparr>us_model = (case rq_model rq of None \<Rightarrow> [] | Some m \<Rightarrow> m),
                     us_endpoint = rq_endpoint rq, us_tokens = tokens\<rparr>]\<rparr>)
         else s)"

fun proxy_non_streaming ::
  "proxy_request \<Rightarrow> attempt_env list \<Rightarrow> string list \<Rightarrow> (int \<times> ErrorDetail) option \<Rightarrow> attempt_log \<Rightarrow> serving
     \<Rightarrow> proxy_result \<times> attempt_log \<times> serving" where
  "proxy_non_streaming rq [] excluded last_error tries s = (budget_result last_error (length tries), tries, s)"
| "proxy_non_streaming rq (env # envs) excluded last_error tries s =
     (case start_attempt rq env excluded (tries = []) s of
        Inl e \<Rightarrow> (ProxyRaised e, tries, s)
      | Inr None \<Rightarrow> (no_node_result rq last_error (length tries) s, tries, s)
      | Inr (Some (n, j, s)) \<Rightarrow>
          (let tries = tries @ [(j, node_id n)]
           in if \<not> ae_url env (node_endpoint n) then (ProxyRaised (ValueError ''backend endpoint''), tries, s)
              else let s = s\<lparr>sv_sys := ae_meanwhile env (sv_sys s)\<rparr>
              in case proxy_forward (ae_upstream env n) of
                   Reply r \<Rightarrow>
                     (ProxyResponse (hr_status r) (response_content r), tries,
                      release_at j (accept_response rq n r s))
                 | Cancelled \<Rightarrow> (ProxyCancelled, tries, release_at j s)
                 | Failed exc \<Rightarrow>
                     (let s = release_at j (on_gateway (record_failure_and_trip n) s);
                          error = map_proxy_error exc
                      in if is_retryable exc
                         then proxy_non_streaming rq envs (excluded @ [node_id n]) (Some error) tries s
                         else (ProxyError (fst error) (snd error), tries, s))))"

section \<open>Streaming requests\<close>

text \<open>
  The handshake. \<open>except Exception\<close> does not catch a cancellation: nothing releases the
  reservation of a handshake that is cancelled while it waits.
\<close>

fun stream_completion ::
  "proxy_request \<Rightarrow> micros \<Rightarrow> attempt_env list \<Rightarrow> string list \<Rightarrow> (int \<times> ErrorDetail) option \<Rightarrow> attempt_log \<Rightarrow> serving
     \<Rightarrow> proxy_result \<times> attempt_log \<times> serving" where
  "stream_completion rq deadline [] excluded last_error tries s = (budget_result last_error (length tries), tries, s)"
| "stream_completion rq deadline (env # envs) excluded last_error tries s =
     (if ae_now env \<ge> deadline then (budget_result last_error (length tries), tries, s)
      else case start_attempt rq env excluded (tries = []) s of
        Inl e \<Rightarrow> (ProxyRaised e, tries, s)
      | Inr None \<Rightarrow> (no_node_result rq last_error (length tries) s, tries, s)
      | Inr (Some (n, j, s)) \<Rightarrow>
          (let tries = tries @ [(j, node_id n)]
           in if \<not> ae_url env (node_endpoint n) then (ProxyRaised (ValueError ''backend endpoint''), tries, s)
              else let late = (deadline - ae_connect_at env \<le> 0);
                       s = (if late then s else s\<lparr>sv_sys := ae_meanwhile env (sv_sys s)\<rparr>)
              in case (if late then Failed TimeoutException else proxy_forward (ae_upstream env n)) of
                   Reply r \<Rightarrow>
                     if hr_success r then (ProxyStream j, tries, s)
                     else (ProxyResponse (hr_status r) (response_content r), tries, release_at j s)
                 | Cancelled \<Rightarrow> (ProxyCancelled, tries, s)
                 | Failed exc \<Rightarrow>
                     (let s = on_gateway (record_failure_and_trip n) (release_at j s);
                          error = map_proxy_error exc
                      in if is_retryable exc
                         then stream_completion rq deadline envs (excluded @ [node_id n]) (Some error) tries s
                         else (ProxyError (fst error) (snd error), tries, s))))"

text \<open>
  The relay: each frame from the backend says whether the dialect's tracker saw the end of the
  answer; the stream ends, breaks with an exception, or is closed by the client. Usage is written
  at most once (\<open>_flush\<close>), the reservation is released by \<open>session.close()\<close> in every case.
\<close>

datatype stream_end = StreamEnded | StreamBroke upstream_exc | StreamClosed

definition flush_usage :: "proxy_request \<Rightarrow> (int \<times> int \<times> int) option \<Rightarrow> serving \<Rightarrow> serving" where
  "flush_usage rq tokens s =
     (if \<not> rq_metered rq then s
      else s\<lparr>sv_usage := sv_usage s @ [\<lparr>us_model = (case rq_model rq of None \<Rightarrow> [] | Some m \<Rightarrow> m),
               us_endpoint = rq_endpoint rq, us_tokens = (case tokens of None \<Rightarrow> (0, 0, 0) | Some t \<Rightarrow> t)\<rparr>]\<rparr>)"

fun stream_events ::
  "proxy_request \<Rightarrow> node \<Rightarrow> nat \<Rightarrow> bool list \<Rightarrow> stream_end \<Rightarrow> (int \<times> int \<times> int) option \<Rightarrow> serving \<Rightarrow> serving" where
  "stream_events rq n j [] ending tokens s =
     (case ending of
        StreamEnded \<Rightarrow> release_at j (flush_usage rq tokens s)
      | StreamBroke exc \<Rightarrow> release_at j (flush_usage rq tokens (on_gateway (record_failure_and_trip n) s))
      | StreamClosed \<Rightarrow> release_at j s)"
| "stream_events rq n j (finished # frames) ending tokens s =
     (if finished then release_at j (flush_usage rq tokens (on_gateway (record_backend_success n) s))
      else stream_events rq n j frames ending tokens s)"

section \<open>Reservations of a request\<close>

text \<open>What any interference does to reservations: none disappears, none is taken back.\<close>

definition resv_monotone :: "(string \<times> bool) list \<Rightarrow> (string \<times> bool) list \<Rightarrow> bool" where
  "resv_monotone rs rs' \<longleftrightarrow>
     length rs \<le> length rs' \<and> (\<forall>j < length rs. fst (rs' ! j) = fst (rs ! j) \<and> (snd (rs ! j) \<longrightarrow> snd (rs' ! j)))"

abbreviation resv_of :: "serving \<Rightarrow> (string \<times> bool) list" where
  "resv_of s \<equiv> sys_resv (sv_sys s)"

definition released_at :: "serving \<Rightarrow> nat \<Rightarrow> bool" where
  "released_at s j \<longleftrightarrow> j < length (resv_of s) \<and> snd (resv_of s ! j)"

lemma resv_monotone_refl [simp]: "resv_monotone rs rs"
  by (simp add: resv_monotone_def)

lemma resv_monotone_trans: "resv_monotone a b \<Longrightarrow> resv_monotone b c \<Longrightarrow> resv_monotone a c"
  by (auto simp: resv_monotone_def)

lemma released_mono: "released_at s j \<Longrightarrow> resv_monotone (resv_of s) (resv_of t) \<Longrightarrow> released_at t j"
  by (auto simp: released_at_def resv_monotone_def)

lemma release_resv: "resv_monotone (sys_resv s) (sys_resv (reservation_release j s))"
  by (cases "j < length (sys_resv s)")
    (auto simp: reservation_release_def resv_monotone_def nth_list_update split: prod.split)

lemma release_at_resv [simp]: "resv_monotone (resv_of s) (resv_of (release_at j s))"
  by (simp add: release_at_def release_resv)

lemma release_at_released: "j < length (resv_of s) \<Longrightarrow> released_at (release_at j s) j"
  by (auto simp: released_at_def release_at_def reservation_release_def split: prod.split)

lemma on_gateway_resv [simp]: "resv_of (on_gateway f s) = resv_of s"
  by (simp add: on_gateway_def)

lemma accept_response_resv [simp]: "resv_of (accept_response rq n r s) = resv_of s"
  by (simp add: accept_response_def Let_def split: option.split)

lemma flush_usage_resv [simp]: "resv_of (flush_usage rq t s) = resv_of s"
  by (simp add: flush_usage_def)

lemma start_attempt_Some:
  assumes "start_attempt rq env excluded first s = Inr (Some (n, j, s'))"
  shows "j = length (resv_of s)" "resv_of s' = resv_of s @ [(node_id n, False)]" "node_id n \<notin> set excluded"
    "node_status n = HEALTHY" "in_scope n (rq_allowed rq) (rq_owner rq)"
    "\<And>m. rq_model rq = Some m \<Longrightarrow> node_model n = m"
    "n \<in> set (registry_get_all (gw_registry (sys_gw (sv_sys s))))"
proof -
  from assms obtain g where sel: "select_and_reserve (rq_model rq) (if excluded = [] then None else Some excluded)
      (rq_allowed rq) (rq_owner rq) (ae_rnd env) (sys_gw (sv_sys s)) = Inr (Some (n, g))"
    by (auto simp: start_attempt_def Let_def split: sum.splits option.splits)
  with assms show "j = length (resv_of s)" "resv_of s' = resv_of s @ [(node_id n, False)]"
    by (auto simp: start_attempt_def Let_def)
  from select_and_reserve_Some [OF sel] select_locked_cases
  have "eligible (rq_model rq) (if excluded = [] then None else Some excluded) (rq_allowed rq) (rq_owner rq) n"
    and "n \<in> set (registry_get_all (gw_registry (sys_gw (sv_sys s))))"
    by fastforce+
  then show "node_id n \<notin> set excluded" "node_status n = HEALTHY" "in_scope n (rq_allowed rq) (rq_owner rq)"
    "\<And>m. rq_model rq = Some m \<Longrightarrow> node_model n = m"
    "n \<in> set (registry_get_all (gw_registry (sys_gw (sv_sys s))))"
    by (auto simp: eligible_def split: if_splits)
qed

lemma start_attempt_total: "start_attempt rq env excluded first s \<noteq> Inl e"
proof
  assume "start_attempt rq env excluded first s = Inl e"
  then have "select_locked (rq_model rq) (if excluded = [] then None else Some excluded)
      (rq_allowed rq) (rq_owner rq) (ae_rnd env) (sys_gw (sv_sys s)) = Inl e"
    by (auto simp: start_attempt_def select_and_reserve_def Let_def split: sum.splits option.splits)
  from select_locked_cases [OF this] show False by auto
qed

definition calm :: "attempt_env \<Rightarrow> bool" where
  "calm env \<longleftrightarrow> (\<forall>s. resv_monotone (sys_resv s) (sys_resv (ae_meanwhile env s))) \<and> (\<forall>e. ae_url env e)"

lemma non_streaming_releases:
  assumes "\<forall>env \<in> set envs. calm env"
  shows "proxy_non_streaming rq envs excluded last_error tries s = (res, tries', s') \<Longrightarrow>
    (\<forall>(j, i) \<in> set tries. released_at s j) \<Longrightarrow> (\<forall>(j, i) \<in> set tries'. released_at s' j)"
  using assms
proof (induction envs arbitrary: excluded last_error tries s)
  case (Cons env envs)
  have calm: "calm env" using Cons.prems(3) by simp
  show ?case
  proof (cases "start_attempt rq env excluded (tries = []) s")
    case (Inl e)
    then show ?thesis using start_attempt_total by blast
  next
    case (Inr opt)
    show ?thesis
    proof (cases opt)
      case None
      with Inr Cons.prems(1,2) show ?thesis by simp
    next
      case (Some a)
      obtain n j s1 where a: "a = (n, j, s1)" by (cases a)
      note st = start_attempt_Some [OF Inr [unfolded Some a]]
      define s2 where "s2 = s1\<lparr>sv_sys := ae_meanwhile env (sv_sys s1)\<rparr>"
      have m1: "resv_monotone (resv_of s) (resv_of s1)" by (auto simp: st resv_monotone_def nth_append)
      have m2: "resv_monotone (resv_of s1) (resv_of s2)" using calm by (simp add: s2_def calm_def)
      have j2: "j < length (resv_of s2)" using m2 by (simp add: st resv_monotone_def)
      have fin: "\<forall>(k, i) \<in> set (tries @ [(j, node_id n)]). released_at (release_at j t) k"
        if "resv_of t = resv_of s2" for t
      proof -
        have "released_at (release_at j t) k" if "released_at s k" for k
          using released_mono [OF that, of "release_at j t"] resv_monotone_trans [OF m1 m2]
            release_at_resv [of t j] resv_monotone_trans by (metis \<open>resv_of t = resv_of s2\<close>)
        moreover have "released_at (release_at j t) j" using j2 that by (intro release_at_released) simp
        ultimately show ?thesis using Cons.prems(2) by auto
      qed
      show ?thesis
      proof (cases "proxy_forward (ae_upstream env n)")
        case (Reply r)
        with Cons.prems(1) Inr Some a calm fin [of "accept_response rq n r s2"] show ?thesis
          by (auto simp add: Let_def calm_def s2_def [symmetric])
      next
        case Cancelled
        with Cons.prems(1) Inr Some a calm fin [of s2] show ?thesis
          by (auto simp add: Let_def calm_def s2_def [symmetric])
      next
        case (Failed exc)
        define s3 where "s3 = release_at j (on_gateway (record_failure_and_trip n) s2)"
        have f3: "\<forall>(k, i) \<in> set (tries @ [(j, node_id n)]). released_at s3 k"
          unfolding s3_def by (rule fin) simp
        show ?thesis
        proof (cases "is_retryable exc")
          case True
          with Cons.prems(1) Inr Some a calm Failed
          have "proxy_non_streaming rq envs (excluded @ [node_id n]) (Some (map_proxy_error exc))
              (tries @ [(j, node_id n)]) s3 = (res, tries', s')"
            by (simp add: Let_def calm_def s2_def [symmetric] s3_def)
          from Cons.IH [OF this f3] Cons.prems(3) show ?thesis by simp
        next
          case False
          with Cons.prems(1) Inr Some a calm Failed f3 show ?thesis
            by (auto simp add: Let_def calm_def s2_def [symmetric] s3_def)
        qed
      qed
    qed
  qed
qed simp

section \<open>Distinct attempts\<close>

text \<open>One iteration: the loop ends, with at most one more try, or a retryable failure adds one try
  on a node that was not excluded.\<close>

lemma non_streaming_step:
  assumes "proxy_non_streaming rq (env # envs) excluded last_error tries s = (res, tries', s')"
  obtains (ended) "tries' = tries"
    | (last) n j s1 where "start_attempt rq env excluded (tries = []) s = Inr (Some (n, j, s1))"
        "tries' = tries @ [(j, node_id n)]"
    | (again) n j s1 s2 exc where "start_attempt rq env excluded (tries = []) s = Inr (Some (n, j, s1))"
        "proxy_non_streaming rq envs (excluded @ [node_id n]) (Some (map_proxy_error exc))
           (tries @ [(j, node_id n)]) s2 = (res, tries', s')"
proof (cases "start_attempt rq env excluded (tries = []) s")
  case (Inl e)
  with assms show ?thesis by (intro ended) auto
next
  case (Inr opt)
  show ?thesis
  proof (cases opt)
    case None
    with assms Inr show ?thesis by (intro ended) auto
  next
    case (Some a)
    obtain n j s1 where a: "a = (n, j, s1)" by (cases a)
    note st = Inr [unfolded Some a]
    show ?thesis
    proof (cases "ae_url env (node_endpoint n) \<and>
        (\<exists>exc. proxy_forward (ae_upstream env n) = Failed exc \<and> is_retryable exc)")
      case True
      then obtain exc where "proxy_forward (ae_upstream env n) = Failed exc" "is_retryable exc" "ae_url env (node_endpoint n)"
        by blast
      with assms st show ?thesis by (intro again [OF st, of exc]) (auto simp: Let_def)
    next
      case False
      with assms st show ?thesis
        by (intro last [OF st]) (auto simp: Let_def split: if_splits upstream.splits)
    qed
  qed
qed

lemma non_streaming_distinct:
  assumes "proxy_non_streaming rq envs excluded last_error tries s = (res, tries', s')"
    and "map snd tries = excluded" "distinct excluded"
  shows "distinct (map snd tries') \<and> length tries' \<le> length tries + length envs"
  using assms
proof (induction envs arbitrary: excluded last_error tries s)
  case (Cons env envs)
  from Cons.prems(1) show ?case
  proof (cases rule: non_streaming_step)
    case ended
    with Cons.prems show ?thesis by auto
  next
    case (last n j s1)
    with start_attempt_Some(3) [OF last(1)] Cons.prems show ?thesis by auto
  next
    case (again n j s1 s2 exc)
    with start_attempt_Some(3) [OF again(1)] Cons.prems Cons.IH [OF again(2)] show ?thesis by auto
  qed
qed auto

lemma non_streaming_total:
  assumes "\<forall>env \<in> set envs. \<forall>e. ae_url env e"
    and "proxy_non_streaming rq envs excluded last_error tries s = (res, tries', s')"
    and "envs \<noteq> [] \<or> last_error \<noteq> None"
  shows "res \<noteq> ProxyRaised e"
  using assms
proof (induction envs arbitrary: excluded last_error tries s)
  case Nil
  then show ?case by (auto simp: budget_result_def)
next
  case (Cons env envs)
  have ih: "proxy_non_streaming rq envs ex (Some err) tr t = (res, tries', s') \<Longrightarrow> res \<noteq> ProxyRaised e" for ex err tr t
    using Cons.IH [of ex "Some err" tr t] Cons.prems(1) by simp
  show ?case
    using Cons.prems(1,2) start_attempt_total ih
    by (auto simp: Let_def no_node_result_def split: sum.splits option.splits prod.splits upstream.splits if_splits)
qed

section \<open>Request counters\<close>

abbreviation metrics_of :: "serving \<Rightarrow> RequestMetrics" where
  "metrics_of s \<equiv> gw_metrics (sys_gw (sv_sys s))"

definition counted :: "serving \<Rightarrow> string \<Rightarrow> int" where
  "counted s i = dict_get_or (rm_per_node (metrics_of s)) i 0"

lemma selector_release_metrics [simp]: "gw_metrics (selector_release i g) = gw_metrics g"
  by (simp add: selector_release_def sweep_drained_nodes_def)

lemma release_at_metrics [simp]: "metrics_of (release_at j s) = metrics_of s"
  by (simp add: release_at_def reservation_release_def split: prod.split)

lemma evidence_metrics [simp]:
  "gw_metrics (record_failure_and_trip n g) = gw_metrics g" "gw_metrics (record_backend_success n g) = gw_metrics g"
  by (simp_all add: record_failure_and_trip_def record_backend_success_def Let_def split: prod.split)

lemma on_gateway_metrics: "metrics_of (on_gateway f s) = gw_metrics (f (sys_gw (sv_sys s)))"
  by (simp add: on_gateway_def)

lemma accept_response_metrics [simp]: "metrics_of (accept_response rq n r s) = metrics_of s"
  by (simp add: accept_response_def Let_def on_gateway_metrics split: option.split)

lemma start_attempt_metrics:
  assumes "start_attempt rq env excluded first s = Inr (Some (n, j, s1))"
  shows "rm_total (metrics_of s1) = rm_total (metrics_of s) + (if first then 1 else 0)"
    and "counted s1 i = counted s i + (if i = node_id n then 1 else 0)"
  using assms
  by (auto simp: start_attempt_def counted_def Let_def record_request_def record_node_attempt_def
      dest!: select_and_reserve_Some split: sum.splits option.splits)

lemma non_streaming_metrics:
  assumes "\<forall>env \<in> set envs. ae_meanwhile env = id"
    and "proxy_non_streaming rq envs excluded last_error tries s = (res, tries', s')"
  shows "\<exists>ext. tries' = tries @ ext \<and>
    rm_total (metrics_of s') = rm_total (metrics_of s) + (if tries = [] \<and> ext \<noteq> [] then 1 else 0) \<and>
    (\<forall>i. counted s' i = counted s i + int (count_list (map snd ext) i))"
  using assms
proof (induction envs arbitrary: excluded last_error tries s)
  case Nil
  then show ?case by simp
next
  case (Cons env envs)
  show ?case
  proof (cases "start_attempt rq env excluded (tries = []) s")
    case (Inl e)
    then show ?thesis using start_attempt_total by blast
  next
    case (Inr opt)
    show ?thesis
    proof (cases opt)
      case None
      with Inr Cons.prems(2) show ?thesis by simp
    next
      case (Some a)
      obtain n j s1 where a: "a = (n, j, s1)" by (cases a)
      note st = Inr [unfolded Some a]
      note ms = start_attempt_metrics [OF st]
      have one: ?thesis if "tries' = tries @ [(j, node_id n)]" "metrics_of s' = metrics_of s1"
        using that ms by (intro exI [of _ "[(j, node_id n)]"]) (auto simp: counted_def)
      have env: "s1\<lparr>sv_sys := ae_meanwhile env (sv_sys s1)\<rparr> = s1" using Cons.prems(1) by simp
      show ?thesis
      proof (cases "ae_url env (node_endpoint n)")
        case False
        with Cons.prems(2) st show ?thesis by (intro one) (auto simp: Let_def)
      next
        case url: True
        show ?thesis
        proof (cases "proxy_forward (ae_upstream env n)")
          case (Reply r)
          with Cons.prems(2) st url env show ?thesis by (intro one) (auto simp: Let_def)
        next
          case Cancelled
          with Cons.prems(2) st url env show ?thesis by (intro one) (auto simp: Let_def)
        next
          case (Failed exc)
          define s3 where "s3 = release_at j (on_gateway (record_failure_and_trip n) s1)"
          have m3: "metrics_of s3 = metrics_of s1" by (simp add: s3_def on_gateway_metrics)
          show ?thesis
          proof (cases "is_retryable exc")
            case False
            with Cons.prems(2) st url env Failed m3 show ?thesis
              by (intro one) (auto simp: Let_def s3_def on_gateway_metrics)
          next
            case True
            with Cons.prems(2) st url env Failed
            have "proxy_non_streaming rq envs (excluded @ [node_id n]) (Some (map_proxy_error exc))
                (tries @ [(j, node_id n)]) s3 = (res, tries', s')"
              by (simp add: Let_def s3_def)
            from Cons.IH [OF _ this] Cons.prems(1) obtain ext where
              "tries' = (tries @ [(j, node_id n)]) @ ext"
              "rm_total (metrics_of s') = rm_total (metrics_of s3)"
              "\<forall>i. counted s' i = counted s3 i + int (count_list (map snd ext) i)" by auto
            then show ?thesis
              using ms m3 by (intro exI [of _ "(j, node_id n) # ext"]) (auto simp: counted_def)
          qed
        qed
      qed
    qed
  qed
qed

lemma count_list_distinct: "distinct xs \<Longrightarrow> count_list xs x = (if x \<in> set xs then 1 else 0)"
  by (induction xs) auto

lemma usage_frame:
  "sv_usage (release_at j s) = sv_usage s" "sv_usage (on_gateway f s) = sv_usage s"
  "length (sv_usage (flush_usage rq tokens s)) = length (sv_usage s) + (if rq_metered rq then 1 else 0)"
  by (simp_all add: release_at_def on_gateway_def flush_usage_def)

section \<open>Properties\<close>



text \<open>
  A client request is counted once however many nodes it was tried on: the total grows by one
  if any node was tried, and each tried node's counter by exactly one.
\<close>

theorem request_counted_once:
  assumes "\<forall>env \<in> set envs. ae_meanwhile env = id"
    and "proxy_non_streaming rq envs [] None [] s = (res, tried, s')"
  shows "rm_total (metrics_of s') = rm_total (metrics_of s) + (if tried = [] then 0 else 1) \<and>
    counted s' i = counted s i + (if i \<in> set (map snd tried) then 1 else 0)"
proof -
  have "distinct (map snd tried)" using non_streaming_distinct [OF assms(2)] by simp
  then have "count_list (map snd tried) i = (if i \<in> set (map snd tried) then 1 else 0)"
    by (rule count_list_distinct)
  with non_streaming_metrics [OF assms] show ?thesis by auto
qed

text \<open>
  A cancelled streaming handshake keeps its reservation: when the client goes away while the
  gateway waits for the first upstream response, the handler ends without releasing the node it
  had reserved.
\<close>

theorem cancelled_handshake_leaks:
  assumes "start_attempt rq env [] True s = Inr (Some (n, j, s1))" "ae_url env (node_endpoint n)"
    and "ae_now env < deadline" "ae_connect_at env < deadline" "ae_upstream env n = Cancelled"
    and "ae_meanwhile env = id"
  shows "\<exists>s'. stream_completion rq deadline (env # envs) [] None [] s = (ProxyCancelled, [(j, node_id n)], s') \<and>
    resv_of s' ! j = (node_id n, False)"
proof -
  note st = start_attempt_Some [OF assms(1)]
  have "stream_completion rq deadline (env # envs) [] None [] s = (ProxyCancelled, [(j, node_id n)], s1)"
    using assms by (simp add: Let_def proxy_forward_def)
  then show ?thesis using st(1,2) by simp
qed

text \<open>
  A relayed stream always gives its reservation back: whether it finishes, ends early, breaks
  or is closed by the client, the reservation is released, and at most one usage row is written.
\<close>

theorem stream_releases_reservation:
  assumes "j < length (resv_of s)"
  shows "released_at (stream_events rq n j frames ending tokens s) j \<and>
    length (sv_usage (stream_events rq n j frames ending tokens s)) \<le> length (sv_usage s) + 1"
proof (induction frames)
  case Nil
  show ?case
    using assms release_at_released by (cases ending) (simp_all add: usage_frame)
next
  case (Cons finished frames)
  then show ?case using assms release_at_released by (simp add: usage_frame)
qed

section \<open>Witnesses\<close>

definition busy_env :: "upstream \<Rightarrow> attempt_env" where
  "busy_env u = \<lparr>ae_rnd = 0, ae_url = (\<lambda>_. True), ae_upstream = (\<lambda>_. u), ae_meanwhile = id, ae_now = 0, ae_connect_at = 0\<rparr>"

definition two_nodes :: serving where
  "two_nodes =
     \<lparr>sv_sys = \<lparr>sys_gw = idle_gateway [(''a'', example_node), (''b'', example_node\<lparr>node_id := ''b''\<rparr>)], sys_resv = []\<rparr>,
      sv_usage = []\<rparr>"

definition any_request :: proxy_request where
  "any_request = \<lparr>rq_endpoint = ''/v1/completions'', rq_model = None, rq_allowed = None, rq_owner = None,
     rq_metered = True, rq_usage_of = (\<lambda>_. None)\<rparr>"

definition ok_reply :: http_response where
  "ok_reply = \<lparr>hr_status = 200, hr_success = True, hr_json = None, hr_text = ''hi''\<rparr>"

definition two_envs :: "attempt_env list" where
  "two_envs = [busy_env (Failed ConnectError), busy_env (Reply ok_reply)]"

lemma two_envs_calm: "\<forall>env \<in> set two_envs. calm env \<and> ae_meanwhile env = id \<and> (\<forall>e. ae_url env e)"
  by (simp add: two_envs_def busy_env_def calm_def)

definition failed_over :: "proxy_result \<times> attempt_log \<times> serving" where
  "failed_over = proxy_non_streaming any_request two_envs [] None [] two_nodes"

lemma failed_over_tries: "fst (snd failed_over) = [(0, ''a''), (1, ''b'')]"
  by code_simp

lemma failed_over_split:
  "proxy_non_streaming any_request two_envs [] None [] two_nodes =
     (fst failed_over, [(0, ''a''), (1, ''b'')], snd (snd failed_over))"
  unfolding failed_over_tries [symmetric] by (simp add: failed_over_def)



theorem request_counted_once_witness:
  "rm_total (metrics_of (snd (snd failed_over))) = 1 \<and> counted (snd (snd failed_over)) ''b'' = 1"
proof -
  have z: "rm_total (metrics_of two_nodes) = 0" "counted two_nodes ''b'' = 0"
    by (simp_all add: two_nodes_def idle_gateway_def counted_def)
  show ?thesis
    using request_counted_once [OF _ failed_over_split, of "''b''"] two_envs_calm z by simp
qed

theorem cancelled_handshake_leaks_witness:
  "\<exists>s'. stream_completion any_request 5 [busy_env Cancelled] [] None [] two_nodes =
     (ProxyCancelled, [(0, ''a'')], s') \<and> resv_of s' ! 0 = (''a'', False)"
proof -
  obtain s1 where st: "start_attempt any_request (busy_env Cancelled) [] True two_nodes = Inr (Some (example_node, 0, s1))"
  proof -
    have "case start_attempt any_request (busy_env Cancelled) [] True two_nodes of
        Inr (Some (n, j, s1)) \<Rightarrow> n = example_node \<and> j = 0 | _ \<Rightarrow> False"
      by code_simp
    then show ?thesis using that by (auto split: sum.splits option.splits)
  qed
  have "node_id example_node = ''a''" by (simp add: example_node_def blank_node_def)
  with cancelled_handshake_leaks [OF st, of 5 "[]"] show ?thesis by (simp add: busy_env_def)
qed

theorem stream_releases_reservation_witness:
  "released_at (stream_events any_request example_node 0 [False] (StreamBroke TimeoutException) None
     (two_nodes\<lparr>sv_sys := (sv_sys two_nodes)\<lparr>sys_resv := [(''a'', False)]\<rparr>\<rparr>)) 0"
  using stream_releases_reservation [of 0 "two_nodes\<lparr>sv_sys := (sv_sys two_nodes)\<lparr>sys_resv := [(''a'', False)]\<rparr>\<rparr>"
      any_request example_node "[False]" "StreamBroke TimeoutException" None] by simp

end
