(* ===== verification/Dialects.thy ===== *)
theory Dialects
  imports Failover Scopes
begin

text \<open>
  \<^verbatim>\<open>api/dialects.py\<close> with the parts of \<^verbatim>\<open>api/routes.py\<close> that use it: how each API format reports usage, ends a stream and renders an
  error, the checks on a pass-through request, and the relay of a stream with its tracker. \<open>loads\<close> is \<open>json.loads\<close>, \<open>dumps\<close> is
  \<open>json.dumps\<close> and \<open>sse\<close> is \<open>fastapi.sse.format_sse_event\<close>.
\<close>

section \<open>Formats\<close>

datatype dialect = OPENAI_CHAT | ANTHROPIC_MESSAGES | OPENAI_RESPONSES

type_synonym usage = "int \<times> int \<times> int"

fun strict_int :: "json \<Rightarrow> int option" where
  "strict_int (JInt i) = Some i"
| "strict_int _ = None"

definition event_type :: "string \<Rightarrow> json option \<Rightarrow> string option" where
  "event_type event payload =
     (if event \<noteq> ''message'' then Some event
      else
        case payload of
          Some (JObj d) \<Rightarrow> (case obj_get d ''type'' JNull of JStr kind \<Rightarrow> Some kind | _ \<Rightarrow> None)
        | _ \<Rightarrow> None)"

definition relay_frame :: "(string \<Rightarrow> string option \<Rightarrow> string) \<Rightarrow> string \<Rightarrow> string \<Rightarrow> string" where
  "relay_frame sse event data = sse data (if event = ''message'' then None else Some event)"

definition anthropic_prompt_tokens :: "(string \<times> json) list \<Rightarrow> int option" where
  "anthropic_prompt_tokens usage =
     (case strict_int (obj_get usage ''input_tokens'' JNull) of
        None \<Rightarrow> None
      | Some uncached \<Rightarrow>
          Some (uncached + (case strict_int (obj_get usage ''cache_read_input_tokens'' JNull) of None \<Rightarrow> 0 | Some i \<Rightarrow> i) +
                (case strict_int (obj_get usage ''cache_creation_input_tokens'' JNull) of None \<Rightarrow> 0 | Some i \<Rightarrow> i)))"

definition chat_usage :: "(string \<times> json) list \<Rightarrow> usage option" where
  "chat_usage u =
     (case (strict_int (obj_get u ''prompt_tokens'' JNull), strict_int (obj_get u ''completion_tokens'' JNull), strict_int (obj_get u ''total_tokens'' JNull)) of
        (Some p, Some c, Some t) \<Rightarrow> Some (p, c, t)
      | _ \<Rightarrow> None)"

definition anthropic_body_usage :: "(string \<times> json) list \<Rightarrow> usage option" where
  "anthropic_body_usage u =
     (case (anthropic_prompt_tokens u, strict_int (obj_get u ''output_tokens'' JNull)) of
        (Some p, Some c) \<Rightarrow> Some (p, c, p + c)
      | _ \<Rightarrow> None)"

definition responses_usage :: "(string \<times> json) list \<Rightarrow> usage option" where
  "responses_usage u =
     (case (strict_int (obj_get u ''input_tokens'' JNull), strict_int (obj_get u ''output_tokens'' JNull)) of
        (Some p, Some c) \<Rightarrow> Some (p, c, case strict_int (obj_get u ''total_tokens'' JNull) of Some t \<Rightarrow> t | None \<Rightarrow> p + c)
      | _ \<Rightarrow> None)"

fun usage_of_dict :: "dialect \<Rightarrow> (string \<times> json) list \<Rightarrow> usage option" where
  "usage_of_dict OPENAI_CHAT u = chat_usage u"
| "usage_of_dict ANTHROPIC_MESSAGES u = anthropic_body_usage u"
| "usage_of_dict OPENAI_RESPONSES u = responses_usage u"

definition usage_from_body :: "dialect \<Rightarrow> json option \<Rightarrow> usage option" where
  "usage_from_body d payload =
     (case payload of
        Some (JObj b) \<Rightarrow> (case obj_get b ''usage'' JNull of JObj u \<Rightarrow> usage_of_dict d u | _ \<Rightarrow> None)
      | _ \<Rightarrow> None)"

definition under :: "string \<Rightarrow> string \<Rightarrow> bool" where
  "under path prefix \<longleftrightarrow> path = prefix \<or> str_startswith path (prefix @ ''/'')"

definition dialect_for_path :: "string \<Rightarrow> dialect" where
  "dialect_for_path path =
     (if under path ''/v1/messages'' then ANTHROPIC_MESSAGES
      else if under path ''/v1/responses'' then OPENAI_RESPONSES
      else OPENAI_CHAT)"

section \<open>Stream trackers\<close>

datatype tracker =
    ChatTracker "usage option"
  | AnthropicTracker "int option" "int option"
  | ResponsesTracker "usage option"

fun stream_tracker :: "dialect \<Rightarrow> tracker" where
  "stream_tracker OPENAI_CHAT = ChatTracker None"
| "stream_tracker ANTHROPIC_MESSAGES = AnthropicTracker None None"
| "stream_tracker OPENAI_RESPONSES = ResponsesTracker None"

fun tracker_usage :: "tracker \<Rightarrow> usage option" where
  "tracker_usage (ChatTracker u) = u"
| "tracker_usage (AnthropicTracker p c) =
     (if p = None \<and> c = None then None
      else let prompt = (case p of None \<Rightarrow> 0 | Some i \<Rightarrow> i); completion = (case c of None \<Rightarrow> 0 | Some i \<Rightarrow> i)
           in Some (prompt, completion, prompt + completion))"
| "tracker_usage (ResponsesTracker u) = u"

text \<open>The usage object an Anthropic event carries.\<close>

definition anthropic_usage :: "string option \<Rightarrow> (string \<times> json) list \<Rightarrow> json" where
  "anthropic_usage kind payload =
     (if kind = Some ''message_start'' then (case obj_get payload ''message'' JNull of JObj m \<Rightarrow> obj_get m ''usage'' JNull | _ \<Rightarrow> JNull)
      else if kind = Some ''message_delta'' then obj_get payload ''usage'' JNull
      else JNull)"

definition chat_observe :: "(string \<Rightarrow> json option) \<Rightarrow> string \<Rightarrow> usage option \<Rightarrow> bool \<times> usage option" where
  "chat_observe loads data u =
     (if data = ''[DONE]'' then (True, u)
      else (False, case usage_from_body OPENAI_CHAT (loads data) of None \<Rightarrow> u | Some found \<Rightarrow> Some found))"

definition anthropic_observe :: "(string \<Rightarrow> json option) \<Rightarrow> string \<Rightarrow> string \<Rightarrow> int option \<Rightarrow> int option \<Rightarrow> bool \<times> int option \<times> int option" where
  "anthropic_observe loads event data p c =
     (let payload = loads data; kind = event_type event payload
      in if kind = Some ''message_stop'' then (True, p, c)
         else
           case payload of
             Some (JObj d) \<Rightarrow>
               (case anthropic_usage kind d of
                  JObj u \<Rightarrow>
                    (False,
                     case anthropic_prompt_tokens u of None \<Rightarrow> p | Some prompt \<Rightarrow> if prompt > 0 \<or> p = None then Some prompt else p,
                     case strict_int (obj_get u ''output_tokens'' JNull) of None \<Rightarrow> c | Some completion \<Rightarrow> Some completion)
                | _ \<Rightarrow> (False, p, c))
           | _ \<Rightarrow> (False, p, c))"

definition responses_observe :: "(string \<Rightarrow> json option) \<Rightarrow> string \<Rightarrow> string \<Rightarrow> usage option \<Rightarrow> bool \<times> usage option" where
  "responses_observe loads event data u =
     (let payload = loads data; kind = event_type event payload
      in (kind \<in> {Some ''response.completed'', Some ''response.incomplete''},
          case payload of
            Some (JObj d) \<Rightarrow>
              (case obj_get d ''response'' JNull of
                 JObj r \<Rightarrow> (case usage_from_body OPENAI_RESPONSES (Some (JObj r)) of None \<Rightarrow> u | Some found \<Rightarrow> Some found)
               | _ \<Rightarrow> u)
          | _ \<Rightarrow> u))"

fun observe :: "(string \<Rightarrow> json option) \<Rightarrow> string \<Rightarrow> string \<Rightarrow> tracker \<Rightarrow> bool \<times> tracker" where
  "observe loads event data (ChatTracker u) = map_prod id ChatTracker (chat_observe loads data u)"
| "observe loads event data (AnthropicTracker p c) = map_prod id (\<lambda>(p, c). AnthropicTracker p c) (anthropic_observe loads event data p c)"
| "observe loads event data (ResponsesTracker u) = map_prod id ResponsesTracker (responses_observe loads event data u)"

section \<open>Errors\<close>

record ErrorResponse =
  er_message :: string
  er_type :: string
  er_param :: "string option"
  er_code :: json

definition opt_json :: "string option \<Rightarrow> json" where
  "opt_json x = (case x of None \<Rightarrow> JNull | Some s \<Rightarrow> JStr s)"

definition error_dump :: "ErrorResponse \<Rightarrow> json" where
  "error_dump e = JObj [(''error'', JObj [(''message'', JStr (er_message e)), (''type'', JStr (er_type e)), (''param'', opt_json (er_param e)), (''code'', er_code e)])]"

definition openai_error_content :: "ErrorResponse \<Rightarrow> string option \<Rightarrow> json" where
  "openai_error_content e code = error_dump (case code of None \<Rightarrow> e | Some c \<Rightarrow> e\<lparr>er_code := JStr c\<rparr>)"

definition ANTHROPIC_ERROR_TYPES :: "(int, string) dict" where
  "ANTHROPIC_ERROR_TYPES =
     [(400, ''invalid_request_error''), (401, ''authentication_error''), (403, ''permission_error''), (404, ''not_found_error''),
      (413, ''request_too_large''), (429, ''rate_limit_error''), (503, ''overloaded_error''), (529, ''overloaded_error'')]"

definition anthropic_error_type :: "int \<Rightarrow> string" where
  "anthropic_error_type status =
     (case dict_get ANTHROPIC_ERROR_TYPES status of
        Some t \<Rightarrow> t
      | None \<Rightarrow> if status < 500 then ''invalid_request_error'' else ''api_error'')"

text \<open>\<open>str(code)\<close> of a code, which is text, a number or absent.\<close>

fun code_text :: "json \<Rightarrow> string option" where
  "code_text (JStr s) = Some s"
| "code_text (JInt i) = Some (str_int i)"
| "code_text _ = None"

definition anthropic_error_content :: "ErrorResponse \<Rightarrow> int \<Rightarrow> string option \<Rightarrow> json" where
  "anthropic_error_content e status code =
     JObj [(''type'', JStr ''error''),
           (''error'', JObj ([(''type'', JStr (anthropic_error_type status)), (''message'', JStr (er_message e))] @
              (case (case code of Some c \<Rightarrow> Some c | None \<Rightarrow> code_text (er_code e)) of None \<Rightarrow> [] | Some c \<Rightarrow> [(''code'', JStr c)])))]"

definition error_content :: "dialect \<Rightarrow> ErrorResponse \<Rightarrow> int \<Rightarrow> string option \<Rightarrow> json" where
  "error_content d e status code = (if d = ANTHROPIC_MESSAGES then anthropic_error_content e status code else openai_error_content e code)"

definition responses_failed :: "ErrorResponse \<Rightarrow> json" where
  "responses_failed e =
     JObj [(''type'', JStr ''response.failed''),
           (''response'', JObj [(''id'', JStr ''resp_qiip_error''), (''object'', JStr ''response''), (''status'', JStr ''failed''), (''output'', JList []),
              (''error'', JObj [(''code'', JStr (case code_text (er_code e) of Some c \<Rightarrow> c | None \<Rightarrow> ''server_error'')), (''message'', JStr (er_message e))])])]"

fun stream_error :: "(json \<Rightarrow> string) \<Rightarrow> (string \<Rightarrow> string option \<Rightarrow> string) \<Rightarrow> dialect \<Rightarrow> ErrorResponse \<Rightarrow> int \<Rightarrow> string list" where
  "stream_error dumps sse OPENAI_CHAT e status = [sse (dumps (error_dump e)) None, sse ''[DONE]'' None]"
| "stream_error dumps sse ANTHROPIC_MESSAGES e status = [sse (dumps (anthropic_error_content e status None)) (Some ''error'')]"
| "stream_error dumps sse OPENAI_RESPONSES e status = [sse (dumps (responses_failed e)) (Some ''response.failed'')]"

section \<open>Requests that are passed through\<close>

definition of_detail :: "ErrorDetail \<Rightarrow> ErrorResponse" where
  "of_detail d = \<lparr>er_message = ed_message d, er_type = ed_type d, er_param = None, er_code = JStr (ed_code d)\<rparr>"

definition invalid_request :: "dialect \<Rightarrow> string \<Rightarrow> string option \<Rightarrow> int \<times> json" where
  "invalid_request d message param =
     (400, error_content d \<lparr>er_message = message, er_type = ''invalid_request_error'', er_param = param, er_code = JStr ''invalid_request''\<rparr> 400 None)"

definition read_json_body :: "dialect \<Rightarrow> json option \<Rightarrow> (int \<times> json) + (string \<times> json) list" where
  "read_json_body d payload =
     (case payload of
        None \<Rightarrow> Inl (invalid_request d ''Request body must be valid JSON'' None)
      | Some (JObj b) \<Rightarrow>
          if \<not> (case obj_get b ''model'' JNull of JStr m \<Rightarrow> str_strip m \<noteq> [] | _ \<Rightarrow> False)
          then Inl (invalid_request d ([CHR 0x27] @ ''model'' @ [CHR 0x27] @ '' must be a non-empty string'') (Some ''model''))
          else if \<not> (case obj_get b ''stream'' JNull of JNull \<Rightarrow> True | JBool _ \<Rightarrow> True | _ \<Rightarrow> False)
          then Inl (invalid_request d ([CHR 0x27] @ ''stream'' @ [CHR 0x27] @ '' must be a boolean'') (Some ''stream''))
          else Inr b
      | Some _ \<Rightarrow> Inl (invalid_request d ''Request body must be a JSON object'' None))"

definition model_not_permitted_error :: "string \<Rightarrow> int \<times> ErrorResponse" where
  "model_not_permitted_error m =
     (403, \<lparr>er_message = ''This API token is not allowed to use the model '' @ [CHR 0x27] @ m @ [CHR 0x27] @
              ''. Add it to the token'' @ [CHR 0x27] @ ''s models in qiip and try again.'',
            er_type = ''invalid_request_error'',
            er_param = None, er_code = JStr ''model_not_permitted''\<rparr>)"

definition model_scope_denied :: "TokenAuth option \<Rightarrow> string option \<Rightarrow> dialect \<Rightarrow> (int \<times> json) option" where
  "model_scope_denied auth model d =
     (case Option.bind auth (\<lambda>a. tok_model_scope (ta_token a)) of
        None \<Rightarrow> None
      | Some scope \<Rightarrow>
          (case model of
             Some m \<Rightarrow> if m \<noteq> [] \<and> m \<in> set scope then None
                        else (case model_not_permitted_error m of (status, e) \<Rightarrow> Some (status, error_content d e status None))
           | None \<Rightarrow> (case model_not_permitted_error [] of (status, e) \<Rightarrow> Some (status, error_content d e status None))))"

section \<open>The relay\<close>

text \<open>
  \<open>_stream_events\<close> with the tracker of the dialect: what it yields and the state it leaves. An event is its name and its data; \<open>ending\<close> is
  how the backend's stream ends after the listed events.
\<close>

fun relay_stream ::
  "(string \<Rightarrow> json option) \<Rightarrow> (json \<Rightarrow> string) \<Rightarrow> (string \<Rightarrow> string option \<Rightarrow> string) \<Rightarrow> dialect \<Rightarrow> proxy_request \<Rightarrow> node \<Rightarrow> nat \<Rightarrow>
     (string \<times> string) list \<Rightarrow> stream_end \<Rightarrow> tracker \<Rightarrow> serving \<Rightarrow> string list \<times> serving" where
  "relay_stream loads dumps sse d rq n j [] ending tr s =
     (case ending of
        StreamEnded \<Rightarrow> ([], release_at j (flush_usage rq (tracker_usage tr) s))
      | StreamBroke exc \<Rightarrow>
          (case map_proxy_error exc of
             (status, e) \<Rightarrow> (stream_error dumps sse d (of_detail e) status,
                release_at j (flush_usage rq (tracker_usage tr) (on_gateway (record_failure_and_trip n) s))))
      | StreamClosed \<Rightarrow> ([], release_at j s))"
| "relay_stream loads dumps sse d rq n j ((event, data) # events) ending tr s =
     (case observe loads event data tr of
        (finished, tr) \<Rightarrow>
          let frame = relay_frame sse event data
          in if finished then ([frame], release_at j (flush_usage rq (tracker_usage tr) (on_gateway (record_backend_success n) s)))
             else (case relay_stream loads dumps sse d rq n j events ending tr s of (frames, s) \<Rightarrow> (frame # frames, s)))"

section \<open>Usage\<close>

text \<open>The usage and token counts an event reports.\<close>

definition body_usages :: "dialect \<Rightarrow> (string \<Rightarrow> json option) \<Rightarrow> (string \<times> string) list \<Rightarrow> usage list" where
  "body_usages d loads events =
     List.map_filter (\<lambda>(event, data).
       if d = OPENAI_CHAT then (if data = ''[DONE]'' then None else usage_from_body OPENAI_CHAT (loads data))
       else (case loads data of
               Some (JObj b) \<Rightarrow> (case obj_get b ''response'' JNull of JObj r \<Rightarrow> usage_from_body OPENAI_RESPONSES (Some (JObj r)) | _ \<Rightarrow> None)
             | _ \<Rightarrow> None)) events"

definition anthropic_dict :: "(string \<Rightarrow> json option) \<Rightarrow> string \<times> string \<Rightarrow> (string \<times> json) list option" where
  "anthropic_dict loads = (\<lambda>(event, data).
     case loads data of
       Some (JObj d) \<Rightarrow>
         if event_type event (loads data) = Some ''message_stop'' then None
         else (case anthropic_usage (event_type event (loads data)) d of JObj u \<Rightarrow> Some u | _ \<Rightarrow> None)
     | _ \<Rightarrow> None)"

definition prompt_counts :: "(string \<Rightarrow> json option) \<Rightarrow> (string \<times> string) list \<Rightarrow> int list" where
  "prompt_counts loads events = List.map_filter (\<lambda>x. Option.bind (anthropic_dict loads x) anthropic_prompt_tokens) events"

definition output_counts :: "(string \<Rightarrow> json option) \<Rightarrow> (string \<times> string) list \<Rightarrow> int list" where
  "output_counts loads events = List.map_filter (\<lambda>x. Option.bind (anthropic_dict loads x) (\<lambda>u. strict_int (obj_get u ''output_tokens'' JNull))) events"

definition last_of :: "'a list \<Rightarrow> 'a option" where
  "last_of xs = (if xs = [] then None else Some (last xs))"

text \<open>The last positive count, or the first one where none is positive.\<close>

definition settled_count :: "int list \<Rightarrow> int option" where
  "settled_count xs = (case filter (\<lambda>x. x > 0) xs of [] \<Rightarrow> (case xs of [] \<Rightarrow> None | x # _ \<Rightarrow> Some x) | ps \<Rightarrow> Some (last ps))"

definition reported_usage :: "dialect \<Rightarrow> (string \<Rightarrow> json option) \<Rightarrow> (string \<times> string) list \<Rightarrow> usage option" where
  "reported_usage d loads events =
     (if d = ANTHROPIC_MESSAGES then
        (case (settled_count (prompt_counts loads events), last_of (output_counts loads events)) of
           (None, None) \<Rightarrow> None
         | (p, c) \<Rightarrow> let prompt = (case p of None \<Rightarrow> 0 | Some i \<Rightarrow> i); completion = (case c of None \<Rightarrow> 0 | Some i \<Rightarrow> i)
                    in Some (prompt, completion, prompt + completion))
      else last_of (body_usages d loads events))"

definition observe_all :: "(string \<Rightarrow> json option) \<Rightarrow> (string \<times> string) list \<Rightarrow> tracker \<Rightarrow> tracker" where
  "observe_all loads events tr = foldl (\<lambda>tr (event, data). snd (observe loads event data tr)) tr events"

lemma observe_all_snoc: "observe_all loads (events @ [(event, data)]) tr = snd (observe loads event data (observe_all loads events tr))"
  by (simp add: observe_all_def)

lemma last_of_append: "last_of (xs @ (case x of None \<Rightarrow> [] | Some y \<Rightarrow> [y])) = (case x of None \<Rightarrow> last_of xs | Some y \<Rightarrow> Some y)"
  by (simp add: last_of_def split: option.splits)

lemma map_filter_snoc: "List.map_filter f (xs @ [x]) = List.map_filter f xs @ (case f x of None \<Rightarrow> [] | Some y \<Rightarrow> [y])"
  by (simp add: List.map_filter_def split: option.splits)

lemma settled_append:
  "settled_count (xs @ (case x of None \<Rightarrow> [] | Some y \<Rightarrow> [y])) =
     (case x of None \<Rightarrow> settled_count xs | Some y \<Rightarrow> if y > 0 \<or> settled_count xs = None then Some y else settled_count xs)"
proof (cases x)
  case (Some y)
  show ?thesis
  proof (cases "filter (\<lambda>x. x > 0) xs")
    case Nil
    then show ?thesis using Some by (cases xs) (auto simp: settled_count_def)
  next
    case (Cons p ps)
    then show ?thesis using Some by (auto simp: settled_count_def)
  qed
qed simp

lemma chat_tracker: "observe_all loads events (ChatTracker None) = ChatTracker (last_of (body_usages OPENAI_CHAT loads events))"
proof (induction events rule: rev_induct)
  case (snoc x events)
  obtain event data where x: "x = (event, data)" by fastforce
  show ?case unfolding x observe_all_snoc snoc.IH body_usages_def map_filter_snoc last_of_append
    by (simp add: chat_observe_def split: option.splits)
qed (simp add: observe_all_def body_usages_def last_of_def List.map_filter_def)

lemma responses_tracker: "observe_all loads events (ResponsesTracker None) = ResponsesTracker (last_of (body_usages OPENAI_RESPONSES loads events))"
proof (induction events rule: rev_induct)
  case (snoc x events)
  obtain event data where x: "x = (event, data)" by fastforce
  show ?case unfolding x observe_all_snoc snoc.IH body_usages_def map_filter_snoc last_of_append
    by (simp add: responses_observe_def Let_def split: option.splits json.splits)
qed (simp add: observe_all_def body_usages_def last_of_def List.map_filter_def)

lemma anthropic_observed:
  "snd (observe loads event data (AnthropicTracker p c)) =
     AnthropicTracker
       (case Option.bind (anthropic_dict loads (event, data)) anthropic_prompt_tokens of None \<Rightarrow> p | Some y \<Rightarrow> if y > 0 \<or> p = None then Some y else p)
       (case Option.bind (anthropic_dict loads (event, data)) (\<lambda>u. strict_int (obj_get u ''output_tokens'' JNull)) of None \<Rightarrow> c | Some y \<Rightarrow> Some y)"
proof (cases "\<exists>d. loads data = Some (JObj d)")
  case False
  then show ?thesis by (auto simp: anthropic_dict_def anthropic_observe_def Let_def split: option.splits json.splits)
next
  case True
  then obtain d where d: "loads data = Some (JObj d)" by blast
  show ?thesis
  proof (cases "event_type event (Some (JObj d)) = Some ''message_stop''")
    case False
    then show ?thesis by (cases "anthropic_usage (event_type event (Some (JObj d))) d") (simp_all add: anthropic_dict_def anthropic_observe_def Let_def d)
  qed (simp add: anthropic_dict_def anthropic_observe_def Let_def d)
qed

lemma anthropic_tracker:
  "observe_all loads events (AnthropicTracker None None) = AnthropicTracker (settled_count (prompt_counts loads events)) (last_of (output_counts loads events))"
proof (induction events rule: rev_induct)
  case (snoc x events)
  obtain event data where x: "x = (event, data)" by fastforce
  show ?case unfolding x observe_all_snoc snoc.IH anthropic_observed prompt_counts_def output_counts_def map_filter_snoc last_of_append settled_append
    by simp
qed (simp add: observe_all_def prompt_counts_def output_counts_def settled_count_def last_of_def List.map_filter_def)

text \<open>
  C20. The trackers compute what the stream reported: for the OpenAI formats the usage of the last event that carries one; for
  Anthropic the last output count and the last positive prompt count, so that a later zero never replaces a real prompt (the first
  count where none is positive), with their sum as the total.
\<close>

theorem tracker_reports_stream:
  "tracker_usage (observe_all loads events (stream_tracker d)) = reported_usage d loads events"
  by (cases d) (simp_all add: chat_tracker responses_tracker anthropic_tracker reported_usage_def split: option.splits)

section \<open>The relay implements the stream of the request path\<close>

text \<open>The events up to the one that ends the answer, and whether there is one.\<close>

fun consumed :: "(string \<Rightarrow> json option) \<Rightarrow> (string \<times> string) list \<Rightarrow> tracker \<Rightarrow> (string \<times> string) list \<times> bool" where
  "consumed loads [] tr = ([], False)"
| "consumed loads ((event, data) # events) tr =
     (case observe loads event data tr of
        (True, _) \<Rightarrow> ([(event, data)], True)
      | (False, tr) \<Rightarrow> (case consumed loads events tr of (es, finished) \<Rightarrow> ((event, data) # es, finished)))"

lemma consumed_empty: "consumed loads events tr = ([], finished) \<Longrightarrow> \<not> finished"
  by (cases events) (auto split: prod.splits bool.splits)


section \<open>Forwarding\<close>

text \<open>\<open>base\<close> carries the endpoint, the metering and the usage reader of the route.\<close>

definition forward_native ::
  "TokenAuth option \<Rightarrow> auth_settings \<Rightarrow> dialect \<Rightarrow> (string \<times> json) list \<Rightarrow> proxy_request \<Rightarrow> micros \<Rightarrow> attempt_env list \<Rightarrow> serving \<Rightarrow>
     proxy_result \<times> attempt_log \<times> serving" where
  "forward_native auth settings d body base deadline envs s =
     (let model = (case obj_get body ''model'' JNull of JStr m \<Rightarrow> Some m | _ \<Rightarrow> None)
      in case model_scope_denied auth model d of
           Some (status, content) \<Rightarrow> (ProxyResponse status content, [], s)
         | None \<Rightarrow>
             (case auth_scope auth settings of
                (allowed, owner) \<Rightarrow>
                  let rq = base\<lparr>rq_model := model, rq_allowed := allowed, rq_owner := owner\<rparr>
                  in if obj_get body ''stream'' JNull = JBool True then stream_completion rq deadline envs [] None [] s
                     else proxy_non_streaming rq envs [] None [] s))"

text \<open>
  A token that is limited to some models is never served another one: a body that passes the checks names a model, and when
  the token's scope does not contain it, the request is answered with status 403 in the client's format, without an attempt on any node
  and without a change of the gateway.
\<close>

theorem model_scope_enforced:
  assumes "read_json_body d payload = Inr body" "tok_model_scope (ta_token auth) = Some scope"
  shows "\<exists>m. obj_get body ''model'' JNull = JStr m \<and> m \<noteq> [] \<and>
    (m \<notin> set scope \<longrightarrow> (\<exists>content. forward_native (Some auth) settings d body base deadline envs s = (ProxyResponse 403 content, [], s) \<and>
       content = error_content d (snd (model_not_permitted_error m)) 403 None))"
proof -
  obtain m where m: "obj_get body ''model'' JNull = JStr m" "str_strip m \<noteq> []"
    using assms(1) by (auto simp: read_json_body_def split: option.splits json.splits if_splits)
  then have "m \<noteq> []" by (auto simp: str_strip_def str_rstrip_def)
  then show ?thesis using m assms(2) by (auto simp: forward_native_def Let_def model_scope_denied_def model_not_permitted_error_def)
qed

section \<open>Sample streams\<close>

definition sample_loads :: "string \<Rightarrow> json option" where
  "sample_loads s =
     (if s = ''start'' then Some (JObj [(''message'', JObj [(''usage'', JObj [(''input_tokens'', JInt 7), (''output_tokens'', JInt 1)])])])
      else if s = ''delta'' then Some (JObj [(''usage'', JObj [(''input_tokens'', JInt 0), (''output_tokens'', JInt 5)])])
      else Some (JObj []))"

definition sample_events :: "(string \<times> string) list" where
  "sample_events = [(''message_start'', ''start''), (''message_delta'', ''delta''), (''message_stop'', []), (''ping'', [])]"

definition plain_sse :: "string \<Rightarrow> string option \<Rightarrow> string" where
  "plain_sse data event = (case event of None \<Rightarrow> data | Some e \<Rightarrow> e @ '':'' @ data)"


definition scoped_auth :: TokenAuth where
  "scoped_auth = \<lparr>ta_user = \<lparr>u_id = 1, u_google_sub = [], u_issuer = [], u_email = ''a@x'', u_name = [], u_picture = [], u_is_admin = False, u_created_at = 0, u_updated_at = 0\<rparr>,
     ta_token = \<lparr>tok_id = 1, tok_user_id = 1, tok_name = [], tok_prefix = [], tok_created_at = 0, tok_last_used_at = None, tok_revoked = False,
       tok_endpoint_scope = None, tok_model_scope = Some [''m''], tok_purpose = None\<rparr>\<rparr>"

theorem model_scope_enforced_witness:
  "\<exists>content. forward_native (Some scoped_auth) \<lparr>as_full_access = [], as_full_access_by_issuer = []\<rparr> OPENAI_CHAT [(''model'', JStr ''other'')] any_request 0 [] two_nodes =
     (ProxyResponse 403 content, [], two_nodes)"
proof -
  have ok: "read_json_body OPENAI_CHAT (Some (JObj [(''model'', JStr ''other'')])) = Inr [(''model'', JStr ''other'')]" by code_simp
  have scope: "tok_model_scope (ta_token scoped_auth) = Some [''m'']" by (simp add: scoped_auth_def)
  have "obj_get [(''model'', JStr ''other'')] ''model'' JNull = JStr ''other''" by code_simp
  with model_scope_enforced [OF ok scope, of "\<lparr>as_full_access = [], as_full_access_by_issuer = []\<rparr>" any_request 0 "[]" two_nodes] show ?thesis by auto
qed

end
