(* ===== verification/Teardown.thy ===== *)
theory Teardown
  imports Reservations Claims HostLifecycle Serializer PassMonad
begin

text \<open>
  The end of a node in \<^verbatim>\<open>provisioning/provisioner.py\<close>: draining, stopping the engine, deregistering, with the checks around it, and the change
  of a node's owner. The code is a pass over a world that holds the gateway, etcd, the host coordinator and the clock of the event
  loop; at every \<open>await\<close> the other tasks run, which is the function \<open>te_other\<close> on everything but the clock and the history of this operation.
  SSH, the remote logs and the reconciliation of earlier remote operations answer through the environment.
\<close>

section \<open>World and environment\<close>

text \<open>What a teardown does that others see, in order.\<close>

datatype action =
    WroteState ProvisioningStep "string option" "string option"
  | Drained
  | Stopped bool
  | Deleted
  | Removed
  | Repooled
  | MarkedFailed

record 'e tworld =
  t_tick :: nat
  t_now :: micros
  t_gw :: gateway
  t_etcd :: 'e
  t_life :: HostLifecycleCoordinator
  t_task_engines :: "(host, InferenceEngine) dict"
  t_done :: "action list"

datatype DrainOutcome = DRAIN_COMPLETE | DRAIN_TIMED_OUT | DRAIN_UNAVAILABLE

text \<open>
  \<open>te_doc\<close> is the state document as it is stored; \<open>te_late\<close> how much later than asked a suspension ends; \<open>te_normalize\<close> the endpoint policy on
  a host with the configured port.
\<close>

record 'e tenv =
  te_api :: "'e etcd_api"
  te_wire :: wire
  te_exc :: "etcd_error \<Rightarrow> string"
  te_has_registry :: bool
  te_has_tracker :: bool
  te_drain_timeout :: micros
  te_late :: "nat \<Rightarrow> nat"
  te_other :: "nat \<Rightarrow> 'e tworld \<Rightarrow> 'e tworld"
  te_doc :: "host \<Rightarrow> ProvisioningStep \<Rightarrow> string option \<Rightarrow> string option \<Rightarrow> string"
  te_reconcile :: "nat \<Rightarrow> string + bool"
  te_upload :: "nat \<Rightarrow> string + unit"
  te_stop :: "nat \<Rightarrow> string + unit"
  te_normalize :: "host \<Rightarrow> string + string"

type_synonym ('e, 'a) tpass = "('e tworld, 'a) pass"

definition t_await :: "'e tenv \<Rightarrow> micros \<Rightarrow> 'e tworld \<Rightarrow> 'e tworld" where
  "t_await env pause w =
     (te_other env (t_tick w) w)\<lparr>t_tick := Suc (t_tick w), t_now := t_now w + pause + int (te_late env (t_tick w)), t_done := t_done w\<rparr>"

definition t_ask :: "'e tenv \<Rightarrow> (nat \<Rightarrow> string + 'a) \<Rightarrow> ('e, 'a) tpass" where
  "t_ask env answer w = (answer (t_tick w), t_await env 0 w)"

definition t_etcd_call :: "'e tenv \<Rightarrow> ('e, 'a) etcd_call \<Rightarrow> ('e, 'a) tpass" where
  "t_etcd_call env f w = (case f (t_etcd w) of (r, e) \<Rightarrow> (map_sum (te_exc env) id r, t_await env 0 (w\<lparr>t_etcd := e\<rparr>)))"

definition did :: "action \<Rightarrow> ('e, unit) tpass" where
  "did a = pwrite (\<lambda>w. w\<lparr>t_done := t_done w @ [a]\<rparr>)"

definition t_node :: "'e tenv \<Rightarrow> host \<Rightarrow> ('e, node option) tpass" where
  "t_node env h = pread (\<lambda>w. if te_has_registry env then registry_get (gw_registry (t_gw w)) h else None)"

section \<open>Steps\<close>

text \<open>\<open>_update_state\<close>; a failed write is logged. The row of the attempt history it also updates belongs to \<open>LogStore\<close>.\<close>

definition update_state :: "'e tenv \<Rightarrow> host \<Rightarrow> ProvisioningStep \<Rightarrow> string option \<Rightarrow> string option \<Rightarrow> ('e, unit) tpass" where
  "update_state env h step failed_step err =
     pbind (did (WroteState step failed_step err)) (\<lambda>_.
       ptry (pbind (t_etcd_call env (put (te_api env) (''/provisioning/'' @ h) (utf8_encode (te_doc env h step failed_step err)) None)) (\<lambda>_. preturn ()))
         (\<lambda>_. preturn ()))"

function drain_loop :: "'e tenv \<Rightarrow> host \<Rightarrow> micros \<Rightarrow> 'e tworld \<Rightarrow> DrainOutcome \<times> 'e tworld" where
  "drain_loop env h deadline w =
     (if tracker_get (gw_tracker (t_gw w)) h = 0 then (DRAIN_COMPLETE, w)
      else if t_now w \<ge> deadline then (DRAIN_TIMED_OUT, w)
      else drain_loop env h deadline (t_await env (seconds 1) w))"
  by pat_completeness auto

termination
  by (relation "measure (\<lambda>(env, h, deadline, w). nat (deadline - t_now w))") (simp_all add: t_await_def seconds_def)

declare drain_loop.simps [simp del]

definition drain_wait :: "'e tenv \<Rightarrow> host \<Rightarrow> ('e, DrainOutcome) tpass" where
  "drain_wait env h w =
     (if \<not> te_has_tracker env then (Inr DRAIN_UNAVAILABLE, w)
      else (case drain_loop env h (t_now w + te_drain_timeout env) w of (outcome, w) \<Rightarrow> (Inr outcome, w)))"

definition resolve_teardown_engine ::
  "node option \<Rightarrow> bool \<Rightarrow> InferenceEngine option \<Rightarrow> InferenceEngine option \<Rightarrow> string + InferenceEngine" where
  "resolve_teardown_engine node force identity recovery =
     (case identity of
        Some engine \<Rightarrow>
          if recovery \<noteq> None then Inl ''recovery_engine cannot override an active provisioning identity'' else Inr engine
      | None \<Rightarrow>
          (case node of
             Some n \<Rightarrow>
               if recovery \<noteq> None then Inl ''recovery_engine cannot override a registered node identity'' else Inr (node_engine n)
           | None \<Rightarrow>
               (case recovery of
                  Some engine \<Rightarrow> if \<not> force then Inl ''recovery_engine requires force=true when no node identity exists'' else Inr engine
                | None \<Rightarrow> Inl ''Cannot determine the inference engine for unregistered host'')))"

definition register_available :: "'e tenv \<Rightarrow> host \<Rightarrow> string \<Rightarrow> ('e, unit) tpass" where
  "register_available env h owner =
     (case te_normalize env h of
        Inl err \<Rightarrow> praise err
      | Inr endpoint \<Rightarrow>
          (let n = (blank_node h endpoint)\<lparr>node_status := AVAILABLE, node_managed := False, node_owner := owner\<rparr>
           in case node_to_etcd (te_wire env) n (api_prefix (te_api env)) of
                Inl err \<Rightarrow> praise (te_exc env err)
              | Inr (key, value) \<Rightarrow>
                  pbind (t_etcd_call env (put (te_api env) key value None)) (\<lambda>_.
                    pwrite (\<lambda>w. if te_has_registry env then w\<lparr>t_gw := (t_gw w)\<lparr>gw_registry := registry_add n (gw_registry (t_gw w))\<rparr>\<rparr> else w))))"

definition drain_node :: "'e tenv \<Rightarrow> host \<Rightarrow> ('e, unit) tpass" where
  "drain_node env h =
     pbind (update_state env h PS_DRAINING None None) (\<lambda>_.
     pbind (pwrite (\<lambda>w. if te_has_registry env then w\<lparr>t_gw := (t_gw w)\<lparr>gw_registry := snd (registry_drain h (gw_registry (t_gw w)))\<rparr>\<rparr> else w)) (\<lambda>_.
     pbind (drain_wait env h) (\<lambda>_. did Drained)))"

definition stop_engine :: "'e tenv \<Rightarrow> host \<Rightarrow> bool \<Rightarrow> InferenceEngine \<Rightarrow> ('e, unit) tpass" where
  "stop_engine env h force engine =
     pbind (update_state env h (if engine = LLAMA_CPP then PS_STOPPING_LLAMACPP else PS_STOPPING_VLLM) None None) (\<lambda>_.
     pbind (ptry (t_ask env (te_upload env)) (\<lambda>_. preturn ())) (\<lambda>_.
     pbind (t_ask env (te_stop env)) (\<lambda>_. did (Stopped force))))"

definition deregister :: "'e tenv \<Rightarrow> host \<Rightarrow> ('e, unit) tpass" where
  "deregister env h =
     pbind (update_state env h PS_DEREGISTERING None None) (\<lambda>_.
     pbind (t_node env h) (\<lambda>node.
     pbind (t_etcd_call env (delete_key (te_api env) (api_prefix (te_api env) @ h))) (\<lambda>_.
     pbind (did Deleted) (\<lambda>_.
     pbind (pwrite (\<lambda>w. if te_has_registry env then w\<lparr>t_gw := gw_remove h (t_gw w)\<rparr> else w)) (\<lambda>_.
     pbind (did Removed) (\<lambda>_.
     pbind (case node of
              None \<Rightarrow> preturn ()
            | Some n \<Rightarrow> if node_managed n then preturn () else pbind (register_available env h []) (\<lambda>_. did Repooled)) (\<lambda>_.
     update_state env h PS_TEARDOWN_COMPLETE None None)))))))"

definition mark_failed :: "'e tenv \<Rightarrow> host \<Rightarrow> string \<Rightarrow> ('e, unit) tpass" where
  "mark_failed env h err =
     pbind (update_state env h PS_FAILED (Some ''teardown'') (Some err)) (\<lambda>_.
     pbind (pwrite (t_await env 0)) (\<lambda>_.
     pbind (pwrite (\<lambda>w. if te_has_registry env
        then w\<lparr>t_gw := (t_gw w)\<lparr>gw_registry := snd (update_status h FAILED
               [AVAILABLE, HEALTHY, UNHEALTHY, DRAINING, RELAUNCHING, PROVISIONING, FAILED, UNKNOWN] (gw_registry (t_gw w)))\<rparr>\<rparr> else w)) (\<lambda>_.
     did MarkedFailed)))"

definition inner_teardown :: "'e tenv \<Rightarrow> host \<Rightarrow> bool \<Rightarrow> InferenceEngine \<Rightarrow> ('e, unit) tpass" where
  "inner_teardown env h force engine =
     pbind (pwrite (\<lambda>w. w\<lparr>t_task_engines := dict_set h engine (t_task_engines w)\<rparr>)) (\<lambda>_.
     pfinally
       (ptry
          (pbind (if force then preturn () else drain_node env h) (\<lambda>_.
           pbind (stop_engine env h force engine) (\<lambda>_.
           deregister env h)))
          (\<lambda>err. pbind (mark_failed env h err) (\<lambda>_. praise err)))
       (t_await env 0))"

text \<open>\<open>teardown\<close> with the lease it is given, after \<open>acquire\<close> where it was called with none.\<close>

definition teardown ::
  "'e tenv \<Rightarrow> host \<Rightarrow> bool \<Rightarrow> InferenceEngine option \<Rightarrow> InferenceEngine option \<Rightarrow> nat \<Rightarrow> ('e, unit) tpass" where
  "teardown env h force identity recovery lease w =
     (if \<not> (lease < length (hc_leases (t_life w)) \<and> belongs_to (hc_leases (t_life w) ! lease) h) then (Inl ''lifecycle lease does not own this host'', w)
      else
        pfinally
          (pbind (t_ask env (te_reconcile env)) (\<lambda>_.
           pbind (t_node env h) (\<lambda>node.
             case resolve_teardown_engine node force identity recovery of
               Inl err \<Rightarrow> praise err
             | Inr engine \<Rightarrow> inner_teardown env h force engine)))
          (\<lambda>w. w\<lparr>t_life := snd (lease_release lease (t_life w))\<rparr>) w)"

section \<open>What each step adds to the history\<close>

definition appends :: "('e, 'a) tpass \<Rightarrow> (string + 'a \<Rightarrow> action list \<Rightarrow> bool) \<Rightarrow> bool" where
  "appends f S \<longleftrightarrow> (\<forall>w. \<exists>xs. t_done (snd (f w)) = t_done w @ xs \<and> S (fst (f w)) xs)"

lemma appendsD: "appends f S \<Longrightarrow> f w = (r, w') \<Longrightarrow> \<exists>xs. t_done w' = t_done w @ xs \<and> S r xs"
  unfolding appends_def by (metis fst_conv snd_conv)

lemma appendsI: "(\<And>w r w'. f w = (r, w') \<Longrightarrow> \<exists>xs. t_done w' = t_done w @ xs \<and> S r xs) \<Longrightarrow> appends f S"
  unfolding appends_def by (metis prod.collapse)

lemma appends_weaken: "appends f S \<Longrightarrow> (\<And>r xs. S r xs \<Longrightarrow> T r xs) \<Longrightarrow> appends f T"
  unfolding appends_def by blast

text \<open>\<open>f\<close> adds \<open>xs\<close> and returns, or adds one of \<open>E\<close> and raises.\<close>

definition adds :: "('e, 'a) tpass \<Rightarrow> action list set \<Rightarrow> action list set \<Rightarrow> bool" where
  "adds f R E = appends f (\<lambda>r xs. case r of Inr _ \<Rightarrow> xs \<in> R | Inl _ \<Rightarrow> xs \<in> E)"

definition cat :: "action list set \<Rightarrow> action list set \<Rightarrow> action list set" where
  "cat A B = (\<Union>x \<in> A. (@) x ` B)"

lemma catI: "x \<in> A \<Longrightarrow> y \<in> B \<Longrightarrow> x @ y \<in> cat A B"
  by (auto simp: cat_def)

lemma adds_bind:
  assumes "adds f R E" "\<And>x. adds (g x) R' E'"
  shows "adds (pbind f g) (cat R R') (E \<union> (cat R E'))"
  unfolding adds_def
proof (rule appendsI)
  fix w r w' assume run: "pbind f g w = (r, w')"
  obtain q v where f: "f w = (q, v)" by fastforce
  from appendsD [OF assms(1) [unfolded adds_def] f] obtain xs where xs: "t_done v = t_done w @ xs" "case q of Inr _ \<Rightarrow> xs \<in> R | Inl _ \<Rightarrow> xs \<in> E" by blast
  show "\<exists>xs. t_done w' = t_done w @ xs \<and> (case r of Inr _ \<Rightarrow> xs \<in> (cat R R') | Inl _ \<Rightarrow> xs \<in> E \<union> (cat R E'))"
  proof (cases q)
    case (Inl e)
    then show ?thesis using xs f run by (auto simp: pbind_def)
  next
    case (Inr x)
    then have g: "g x v = (r, w')" using f run by (simp add: pbind_def)
    from appendsD [OF assms(2) [unfolded adds_def] this] obtain ys where "t_done w' = t_done v @ ys" "case r of Inr _ \<Rightarrow> ys \<in> R' | Inl _ \<Rightarrow> ys \<in> E'" by blast
    then show ?thesis using xs Inr by (intro exI [of _ "xs @ ys"]) (auto intro: catI split: sum.splits)
  qed
qed

lemma adds_weaken: "adds f R E \<Longrightarrow> R \<subseteq> R' \<Longrightarrow> E \<subseteq> E' \<Longrightarrow> adds f R' E'"
  unfolding adds_def by (erule appends_weaken) (auto split: sum.splits)

text \<open>Steps in sequence, with the additions given as sets.\<close>

lemma adds_seq:
  assumes "adds f R E" "\<And>x. adds (g x) R' E'" "(cat R R') \<subseteq> S" "E \<subseteq> F" "(cat R E') \<subseteq> F"
  shows "adds (pbind f g) S F"
  using adds_weaken [OF adds_bind [OF assms(1,2)]] assms(3-) by (meson Un_least)

lemma adds_try:
  assumes "adds f R E" "\<And>e. adds (h e) R' E'" "R \<subseteq> S" "(cat E R') \<subseteq> S" "(cat E E') \<subseteq> F"
  shows "adds (ptry f h) S F"
  unfolding adds_def
proof (rule appendsI)
  fix w r w' assume run: "ptry f h w = (r, w')"
  obtain q v where f: "f w = (q, v)" by fastforce
  from appendsD [OF assms(1) [unfolded adds_def] f] obtain xs where xs: "t_done v = t_done w @ xs" "case q of Inr _ \<Rightarrow> xs \<in> R | Inl _ \<Rightarrow> xs \<in> E" by blast
  show "\<exists>xs. t_done w' = t_done w @ xs \<and> (case r of Inr _ \<Rightarrow> xs \<in> S | Inl _ \<Rightarrow> xs \<in> F)"
  proof (cases q)
    case (Inr x)
    then show ?thesis using xs f run assms(3) by (auto simp: ptry_def)
  next
    case (Inl e)
    then have h: "h e v = (r, w')" using f run by (simp add: ptry_def)
    from appendsD [OF assms(2) [unfolded adds_def] this] obtain ys where ys: "t_done w' = t_done v @ ys" "case r of Inr _ \<Rightarrow> ys \<in> R' | Inl _ \<Rightarrow> ys \<in> E'" by blast
    then have "case r of Inr _ \<Rightarrow> xs @ ys \<in> S | Inl _ \<Rightarrow> xs @ ys \<in> F" using xs(2) Inl assms(4,5) by (cases r) (auto dest: catI)
    then show ?thesis using xs(1) ys(1) by (intro exI [of _ "xs @ ys"]) simp
  qed
qed

lemma adds_finally: "adds f R E \<Longrightarrow> (\<And>w. t_done (g w) = t_done w) \<Longrightarrow> adds (pfinally f g) R E"
  unfolding adds_def appends_def pfinally_def by (simp split: prod.splits) (metis fst_conv snd_conv)

lemma await_done [simp]: "t_done (t_await env p w) = t_done w"
  by (simp add: t_await_def)

lemma adds_simple:
  "adds (preturn x) {[]} {}" "adds (praise e) {} {[]}" "adds (t_ask env f) {[]} {[]}" "adds (t_etcd_call env c) {[]} {[]}"
  "adds (did a) {[a]} {}" "adds (t_node env h) {[]} {}" "(\<And>w. t_done (k w) = t_done w) \<Longrightarrow> adds (pwrite k) {[]} {}"
  by (simp_all add: adds_def appends_def preturn_def praise_def t_ask_def t_etcd_call_def did_def pwrite_def t_node_def pread_def split: prod.splits sum.splits)

lemma adds_raise: "adds (praise e) R {[]}"
  by (rule adds_weaken [OF adds_simple(2)]) simp_all

lemma adds_update: "adds (update_state env h step f e) {[WroteState step f e]} {}"
proof -
  let ?put = "t_etcd_call env (put (te_api env) (''/provisioning/'' @ h) (utf8_encode (te_doc env h step f e)) None)"
  have "adds (pbind ?put (\<lambda>_. preturn ())) {[]} {[]}" by (rule adds_seq [OF adds_simple(4) adds_simple(1)]) (simp_all add: cat_def)
  then have "adds (ptry (pbind ?put (\<lambda>_. preturn ())) (\<lambda>_. preturn ())) {[]} {}" by (rule adds_try [OF _ adds_simple(1)]) (simp_all add: cat_def)
  then show ?thesis unfolding update_state_def by (rule adds_seq [OF adds_simple(5)]) (simp_all add: cat_def)
qed

lemma drain_loop_done: "t_done (snd (drain_loop env h d w)) = t_done w"
  by (induction env h d w rule: drain_loop.induct) (subst drain_loop.simps, simp)

lemma adds_drain_wait: "adds (drain_wait env h) {[]} {}"
  unfolding adds_def
proof (rule appendsI)
  fix w r w' assume "drain_wait env h w = (r, w')"
  then show "\<exists>xs. t_done w' = t_done w @ xs \<and> (case r of Inr _ \<Rightarrow> xs \<in> {[]} | Inl _ \<Rightarrow> xs \<in> {})"
    using drain_loop_done [of env h "t_now w + te_drain_timeout env" w] by (auto simp: drain_wait_def split: if_splits prod.splits)
qed

lemma adds_drain: "adds (drain_node env h) {[WroteState PS_DRAINING None None, Drained]} {}"
proof -
  have wait: "adds (pbind (drain_wait env h) (\<lambda>_. did Drained)) {[Drained]} {}"
    by (rule adds_seq [OF adds_drain_wait adds_simple(5)]) (simp_all add: cat_def)
  have "adds (pbind (pwrite k) (\<lambda>_. pbind (drain_wait env h) (\<lambda>_. did Drained))) {[Drained]} {}"
    if "\<And>w. t_done (k w) = t_done w" for k :: "'a tworld \<Rightarrow> 'a tworld"
    by (rule adds_seq [OF adds_simple(7) wait]) (simp_all add: that cat_def)
  then show ?thesis unfolding drain_node_def by (rule adds_seq [OF adds_update]) (simp_all add: cat_def)
qed

definition stopping :: "InferenceEngine \<Rightarrow> action" where
  "stopping engine = WroteState (if engine = LLAMA_CPP then PS_STOPPING_LLAMACPP else PS_STOPPING_VLLM) None None"

lemma adds_stop: "adds (stop_engine env h force engine) {[stopping engine, Stopped force]} {[stopping engine]}"
proof -
  have 1: "adds (pbind (t_ask env (te_stop env)) (\<lambda>_. did (Stopped force))) {[Stopped force]} {[]}"
    by (rule adds_seq [OF adds_simple(3) adds_simple(5)]) (simp_all add: cat_def)
  have "adds (ptry (t_ask env (te_upload env)) (\<lambda>_. preturn ())) {[]} {}" by (rule adds_try [OF adds_simple(3) adds_simple(1)]) (simp_all add: cat_def)
  then have "adds (pbind (ptry (t_ask env (te_upload env)) (\<lambda>_. preturn ())) (\<lambda>_. pbind (t_ask env (te_stop env)) (\<lambda>_. did (Stopped force)))) {[Stopped force]} {[]}"
    by (rule adds_seq [OF _ 1]) (simp_all add: cat_def)
  then show ?thesis unfolding stop_engine_def stopping_def by (rule adds_seq [OF adds_update]) (simp_all add: cat_def)
qed

lemma adds_register: "adds (register_available env h owner) {[]} {[]}"
proof (cases "te_normalize env h")
  case (Inr endpoint)
  have put: "adds (pbind (t_etcd_call env c) (\<lambda>_. pwrite k)) {[]} {[]}" if "\<And>w. t_done (k w) = t_done w" for c :: "'a \<Rightarrow> (etcd_error + bool) \<times> 'a" and k :: "'a tworld \<Rightarrow> 'a tworld"
    by (rule adds_seq [OF adds_simple(4) adds_simple(7)]) (simp_all add: cat_def that)
  show ?thesis using Inr by (auto simp: register_available_def Let_def adds_raise put split: sum.splits)
qed (simp add: register_available_def adds_raise)

lemma adds_deregister:
  "adds (deregister env h)
     {[WroteState PS_DEREGISTERING None None, Deleted, Removed, WroteState PS_TEARDOWN_COMPLETE None None],
      [WroteState PS_DEREGISTERING None None, Deleted, Removed, Repooled, WroteState PS_TEARDOWN_COMPLETE None None]}
     {[WroteState PS_DEREGISTERING None None], [WroteState PS_DEREGISTERING None None, Deleted, Removed]}"
proof -
  let ?repool = "\<lambda>node. case node of None \<Rightarrow> preturn () | Some n \<Rightarrow> if node_managed n then preturn () else pbind (register_available env h []) (\<lambda>_. did Repooled)"
  have "adds (pbind (register_available env h []) (\<lambda>_. did Repooled)) {[Repooled]} {[]}"
    by (rule adds_seq [OF adds_register adds_simple(5)]) (simp_all add: cat_def)
  then have "adds (?repool node) {[], [Repooled]} {[]}" for node
    by (auto intro: adds_weaken [OF adds_simple(1)] elim: adds_weaken split: option.splits)
  then have 1: "adds (pbind (?repool node) (\<lambda>_. update_state env h PS_TEARDOWN_COMPLETE None None))
      {[WroteState PS_TEARDOWN_COMPLETE None None], [Repooled, WroteState PS_TEARDOWN_COMPLETE None None]} {[]}" for node
    by (rule adds_seq [OF _ adds_update]) (simp_all add: cat_def)
  have 2: "adds (pbind (did Removed) (\<lambda>_. pbind (?repool node) (\<lambda>_. update_state env h PS_TEARDOWN_COMPLETE None None)))
      {[Removed, WroteState PS_TEARDOWN_COMPLETE None None], [Removed, Repooled, WroteState PS_TEARDOWN_COMPLETE None None]} {[Removed]}" for node
    by (rule adds_seq [OF adds_simple(5) 1]) (simp_all add: cat_def)
  have 3: "adds (pbind (pwrite k) (\<lambda>_. pbind (did Removed) (\<lambda>_. pbind (?repool node) (\<lambda>_. update_state env h PS_TEARDOWN_COMPLETE None None))))
      {[Removed, WroteState PS_TEARDOWN_COMPLETE None None], [Removed, Repooled, WroteState PS_TEARDOWN_COMPLETE None None]} {[Removed]}"
    if "\<And>w. t_done (k w) = t_done w" for k :: "'a tworld \<Rightarrow> 'a tworld" and node
    by (rule adds_seq [OF adds_simple(7) 2]) (simp_all add: cat_def that)
  have 4: "adds (pbind (did Deleted) (\<lambda>_. pbind (pwrite (\<lambda>w. if te_has_registry env then w\<lparr>t_gw := gw_remove h (t_gw w)\<rparr> else w)) (\<lambda>_. pbind (did Removed) (\<lambda>_. pbind (?repool node) (\<lambda>_. update_state env h PS_TEARDOWN_COMPLETE None None)))))
      {[Deleted, Removed, WroteState PS_TEARDOWN_COMPLETE None None], [Deleted, Removed, Repooled, WroteState PS_TEARDOWN_COMPLETE None None]} {[Deleted, Removed]}" for node
    by (rule adds_seq [OF adds_simple(5) 3]) (simp_all add: cat_def)
  have 5: "adds (pbind (t_etcd_call env (delete_key (te_api env) (api_prefix (te_api env) @ h))) (\<lambda>_.
      pbind (did Deleted) (\<lambda>_. pbind (pwrite (\<lambda>w. if te_has_registry env then w\<lparr>t_gw := gw_remove h (t_gw w)\<rparr> else w)) (\<lambda>_.
      pbind (did Removed) (\<lambda>_. pbind (?repool node) (\<lambda>_. update_state env h PS_TEARDOWN_COMPLETE None None))))))
      {[Deleted, Removed, WroteState PS_TEARDOWN_COMPLETE None None], [Deleted, Removed, Repooled, WroteState PS_TEARDOWN_COMPLETE None None]} {[], [Deleted, Removed]}" for node
    by (rule adds_seq [OF adds_simple(4) 4]) (simp_all add: cat_def)
  have 6: "adds (pbind (t_node env h) (\<lambda>node. pbind (t_etcd_call env (delete_key (te_api env) (api_prefix (te_api env) @ h))) (\<lambda>_.
      pbind (did Deleted) (\<lambda>_. pbind (pwrite (\<lambda>w. if te_has_registry env then w\<lparr>t_gw := gw_remove h (t_gw w)\<rparr> else w)) (\<lambda>_.
      pbind (did Removed) (\<lambda>_. pbind (?repool node) (\<lambda>_. update_state env h PS_TEARDOWN_COMPLETE None None)))))))
      {[Deleted, Removed, WroteState PS_TEARDOWN_COMPLETE None None], [Deleted, Removed, Repooled, WroteState PS_TEARDOWN_COMPLETE None None]} {[], [Deleted, Removed]}"
    by (rule adds_seq [OF adds_simple(6) 5]) (simp_all add: cat_def)
  show ?thesis unfolding deregister_def by (rule adds_seq [OF adds_update 6]) (simp_all add: cat_def)
qed

lemma adds_failed: "adds (mark_failed env h err) {[WroteState PS_FAILED (Some ''teardown'') (Some err), MarkedFailed]} {}"
proof -
  have 1: "adds (pbind (pwrite k) (\<lambda>_. did MarkedFailed)) {[MarkedFailed]} {}" if "\<And>w. t_done (k w) = t_done w" for k :: "'a tworld \<Rightarrow> 'a tworld"
    by (rule adds_seq [OF adds_simple(7) adds_simple(5)]) (simp_all add: cat_def that)
  have 2: "adds (pbind (pwrite (t_await env 0)) (\<lambda>_. pbind (pwrite k) (\<lambda>_. did MarkedFailed))) {[MarkedFailed]} {}"
    if "\<And>w. t_done (k w) = t_done w" for k :: "'a tworld \<Rightarrow> 'a tworld"
    by (rule adds_seq [OF adds_simple(7) 1]) (simp_all add: cat_def that)
  show ?thesis unfolding mark_failed_def by (rule adds_seq [OF adds_update 2]) (simp_all add: cat_def)
qed

text \<open>The histories of a teardown up to its end or to the step that failed.\<close>

definition drain_part :: "bool \<Rightarrow> action list" where
  "drain_part force = (if force then [] else [WroteState PS_DRAINING None None, Drained])"

definition stop_part :: "bool \<Rightarrow> InferenceEngine \<Rightarrow> action list" where
  "stop_part force engine = drain_part force @ [stopping engine, Stopped force]"

definition full_histories :: "bool \<Rightarrow> InferenceEngine \<Rightarrow> action list set" where
  "full_histories force engine = (\<lambda>repool. stop_part force engine @ [WroteState PS_DEREGISTERING None None, Deleted, Removed] @ repool @
     [WroteState PS_TEARDOWN_COMPLETE None None]) ` {[], [Repooled]}"

definition partial_histories :: "bool \<Rightarrow> InferenceEngine \<Rightarrow> action list set" where
  "partial_histories force engine =
     {drain_part force @ [stopping engine], stop_part force engine @ [WroteState PS_DEREGISTERING None None],
      stop_part force engine @ [WroteState PS_DEREGISTERING None None, Deleted, Removed]}"

lemma teardown_history:
  assumes "inner_teardown env h force engine w = (r, w')"
  shows "\<exists>xs. t_done w' = t_done w @ xs \<and>
    (case r of
       Inr _ \<Rightarrow> xs \<in> full_histories force engine
     | Inl err \<Rightarrow> \<exists>ys \<in> partial_histories force engine. xs = ys @ [WroteState PS_FAILED (Some ''teardown'') (Some err), MarkedFailed])"
proof -
  let ?body = "pbind (if force then preturn () else drain_node env h) (\<lambda>_. pbind (stop_engine env h force engine) (\<lambda>_. deregister env h))"
  let ?w0 = "w\<lparr>t_task_engines := dict_set h engine (t_task_engines w)\<rparr>"
  have drain: "adds (if force then preturn () else drain_node env h) {drain_part force} {}"
    by (simp add: drain_part_def adds_simple(1) adds_drain)
  have rest: "adds (pbind (stop_engine env h force engine) (\<lambda>_. deregister env h))
      ((\<lambda>repool. [stopping engine, Stopped force, WroteState PS_DEREGISTERING None None, Deleted, Removed] @ repool @ [WroteState PS_TEARDOWN_COMPLETE None None]) ` {[], [Repooled]})
      {[stopping engine], [stopping engine, Stopped force, WroteState PS_DEREGISTERING None None],
       [stopping engine, Stopped force, WroteState PS_DEREGISTERING None None, Deleted, Removed]}"
    by (rule adds_seq [OF adds_stop adds_deregister]) (simp_all add: cat_def)
  have body: "adds ?body (full_histories force engine) (partial_histories force engine)"
    by (rule adds_seq [OF drain rest]) (simp_all add: cat_def full_histories_def partial_histories_def stop_part_def)
  obtain q v where run: "?body ?w0 = (q, v)" by fastforce
  from appendsD [OF body [unfolded adds_def] run] obtain xs where
    xs: "t_done v = t_done w @ xs" "case q of Inr _ \<Rightarrow> xs \<in> full_histories force engine | Inl _ \<Rightarrow> xs \<in> partial_histories force engine" by auto
  show ?thesis
  proof (cases q)
    case (Inr u)
    then show ?thesis using assms run xs by (auto simp: inner_teardown_def pbind_def [of "pwrite _"] pwrite_def pfinally_def ptry_def)
  next
    case (Inl err)
    obtain q2 v2 where failed: "mark_failed env h err v = (q2, v2)" by fastforce
    from appendsD [OF adds_failed [unfolded adds_def] failed] have
      v2: "t_done v2 = t_done v @ [WroteState PS_FAILED (Some ''teardown'') (Some err), MarkedFailed]" "\<exists>u. q2 = Inr u" by (cases q2; auto)+
    have "r = Inl err" "w' = t_await env 0 v2" using assms run Inl failed v2(2)
      by (auto simp: inner_teardown_def pbind_def [of "pwrite _"] pwrite_def pfinally_def ptry_def pbind_def [of "mark_failed _ _ _"] praise_def)
    then show ?thesis using xs v2(1) Inl by auto
  qed
qed

section \<open>Properties\<close>


text \<open>The drain loop: how it ends, and how often it polls.\<close>

lemma drain_loop_result:
  assumes "drain_loop env h deadline w = (outcome, w')"
  shows "(outcome = DRAIN_COMPLETE \<and> tracker_get (gw_tracker (t_gw w')) h = 0 \<or>
      outcome = DRAIN_TIMED_OUT \<and> deadline \<le> t_now w' \<and> tracker_get (gw_tracker (t_gw w')) h \<noteq> 0) \<and>
    t_tick w \<le> t_tick w' \<and> (t_tick w' = t_tick w \<or> t_now w + seconds (int (t_tick w' - t_tick w) - 1) < deadline)"
  using assms
proof (induction env h deadline w rule: drain_loop.induct)
  case (1 env h deadline w)
  show ?case
  proof (cases "tracker_get (gw_tracker (t_gw w)) h = 0 \<or> t_now w \<ge> deadline")
    case True
    then show ?thesis using 1(2) by (subst (asm) drain_loop.simps) (auto split: if_splits)
  next
    case False
    let ?v = "t_await env (seconds 1) w"
    have run: "drain_loop env h deadline ?v = (outcome, w')" using 1(2) False by (subst (asm) drain_loop.simps) simp
    have v: "t_tick ?v = Suc (t_tick w)" "t_now w + seconds 1 \<le> t_now ?v" by (simp_all add: t_await_def)
    have IH: "(outcome = DRAIN_COMPLETE \<and> tracker_get (gw_tracker (t_gw w')) h = 0 \<or>
        outcome = DRAIN_TIMED_OUT \<and> deadline \<le> t_now w' \<and> tracker_get (gw_tracker (t_gw w')) h \<noteq> 0) \<and>
      t_tick ?v \<le> t_tick w' \<and> (t_tick w' = t_tick ?v \<or> t_now ?v + seconds (int (t_tick w' - t_tick ?v) - 1) < deadline)"
      using 1(1) [OF _ _ run] False by blast
    have "t_tick w' = t_tick w \<or> t_now w + seconds (int (t_tick w' - t_tick w) - 1) < deadline"
      using IH v False by (auto simp: seconds_def of_nat_diff)
    then show ?thesis using IH v by simp
  qed
qed

text \<open>
  Draining ends: with no request left on the node, or at the deadline with requests still running, or at once where connections are
  not tracked; it never raises and polls at most once a second until the deadline.
\<close>

theorem drain_ends:
  "\<exists>outcome w'. drain_wait env h w = (Inr outcome, w') \<and>
    (case outcome of
       DRAIN_COMPLETE \<Rightarrow> tracker_get (gw_tracker (t_gw w')) h = 0
     | DRAIN_TIMED_OUT \<Rightarrow> t_now w + te_drain_timeout env \<le> t_now w'
     | DRAIN_UNAVAILABLE \<Rightarrow> \<not> te_has_tracker env \<and> w' = w) \<and>
    seconds (int (t_tick w' - t_tick w)) \<le> max 0 (te_drain_timeout env) + seconds 1"
proof (cases "te_has_tracker env")
  case True
  obtain outcome w' where run: "drain_loop env h (t_now w + te_drain_timeout env) w = (outcome, w')" by fastforce
  have "seconds (int (t_tick w' - t_tick w)) \<le> max 0 (te_drain_timeout env) + seconds 1"
    using drain_loop_result [OF run] by (auto simp: seconds_def)
  then show ?thesis using True run drain_loop_result [OF run] by (auto simp: drain_wait_def)
next
  case False
  then show ?thesis by (simp add: drain_wait_def seconds_def)
qed

section \<open>The lease\<close>

definition leases_kept :: "'e tenv \<Rightarrow> bool" where
  "leases_kept env \<longleftrightarrow> (\<forall>n v. leases_grow (hc_leases (t_life v)) (hc_leases (t_life (te_other env n v))))"

lemma leases_grow_trans: "leases_grow a b \<Longrightarrow> leases_grow b c \<Longrightarrow> leases_grow a c"
  unfolding leases_grow_def by (metis le_trans order_less_le_trans)

abbreviation grown :: "HostLifecycleLease list \<Rightarrow> 'e tworld \<Rightarrow> bool" where
  "grown ls w \<equiv> leases_grow ls (hc_leases (t_life w))"

lemma grown_await: "leases_kept env \<Longrightarrow> grown ls w \<Longrightarrow> grown ls (t_await env p w)"
  unfolding t_await_def leases_kept_def by (simp, blast intro: leases_grow_trans)

lemma grown_simple [keeps]:
  assumes "leases_kept env"
  shows "pkeeps (grown ls) (t_ask env f)" "pkeeps (grown ls) (t_etcd_call env c)" "pkeeps (grown ls) (did a)" "pkeeps (grown ls) (t_node env h)"
    "pkeeps (grown ls) (pwrite (t_await env p))"
  using grown_await [OF assms] by (auto intro!: pkeepsI simp: t_ask_def t_etcd_call_def did_def t_node_def pread_def pwrite_def split: prod.splits)

lemma drain_loop_grown: "leases_kept env \<Longrightarrow> grown ls w \<Longrightarrow> grown ls (snd (drain_loop env h d w))"
  by (induction env h d w rule: drain_loop.induct) (subst drain_loop.simps, simp add: grown_await)

lemma grown_drain_wait [keeps]: "leases_kept env \<Longrightarrow> pkeeps (grown ls) (drain_wait env h)"
  by (rule pkeepsI) (auto simp: drain_wait_def split: prod.splits, metis drain_loop_grown snd_conv)

lemma grown_update [keeps]: "leases_kept env \<Longrightarrow> pkeeps (grown ls) (update_state env h s f e)"
  unfolding update_state_def by (intro keeps)

lemma grown_register [keeps]: "leases_kept env \<Longrightarrow> pkeeps (grown ls) (register_available env h owner)"
  unfolding register_available_def Let_def by (auto intro!: keeps split: sum.splits)

lemma grown_inner: "leases_kept env \<Longrightarrow> pkeeps (grown ls) (inner_teardown env h force engine)"
  unfolding inner_teardown_def drain_node_def stop_engine_def deregister_def mark_failed_def
  by (intro keeps) (auto intro: grown_await)

text \<open>
  A teardown gives its host back however it ends, and it never guesses the engine: the engine is that of the provisioning
  it was called to end, or else of the registered node, or else, only with force, the one the caller named. Without a lease on the
  host it changes nothing.
\<close>

theorem teardown_releases_lease:
  assumes "teardown env h force identity recovery lease w = (r, w')" "leases_kept env"
  shows "(if lease < length (hc_leases (t_life w)) \<and> belongs_to (hc_leases (t_life w) ! lease) h
      then hl_released (hc_leases (t_life w') ! lease) else w' = w \<and> r \<noteq> Inr ()) \<and>
    (\<forall>node engine. resolve_teardown_engine node force identity recovery = Inr engine \<longrightarrow>
       identity = Some engine \<or> identity = None \<and> map_option node_engine node = Some engine \<or>
       identity = None \<and> node = None \<and> force \<and> recovery = Some engine)"
proof (rule conjI)
  let ?f = "pbind (t_ask env (te_reconcile env)) (\<lambda>_. pbind (t_node env h) (\<lambda>node.
    case resolve_teardown_engine node force identity recovery of Inl err \<Rightarrow> praise err | Inr engine \<Rightarrow> inner_teardown env h force engine))"
  have keep: "pkeeps (grown (hc_leases (t_life w))) ?f"
    using assms(2) by (auto intro!: keeps grown_inner split: sum.splits)
  show "if lease < length (hc_leases (t_life w)) \<and> belongs_to (hc_leases (t_life w) ! lease) h
      then hl_released (hc_leases (t_life w') ! lease) else w' = w \<and> r \<noteq> Inr ()"
  proof (cases "lease < length (hc_leases (t_life w)) \<and> belongs_to (hc_leases (t_life w) ! lease) h")
    case True
    obtain q v where run: "?f w = (q, v)" by fastforce
    have "grown (hc_leases (t_life w)) v" using pkeepsD [OF keep, of w] run by simp
    then have "lease < length (hc_leases (t_life v))" using True by (simp add: leases_grow_def)
    moreover have "t_life w' = snd (lease_release lease (t_life v))" using assms(1) True run by (auto simp: teardown_def pfinally_def)
    ultimately show ?thesis using True by (simp add: leases_release)
  next
    case False
    then show ?thesis using assms(1) by (auto simp: teardown_def)
  qed
  show "\<forall>node engine. resolve_teardown_engine node force identity recovery = Inr engine \<longrightarrow>
       identity = Some engine \<or> identity = None \<and> map_option node_engine node = Some engine \<or>
       identity = None \<and> node = None \<and> force \<and> recovery = Some engine"
    by (auto simp: resolve_teardown_engine_def split: option.splits if_splits)
qed

section \<open>Changing the owner\<close>

text \<open>\<open>_write_node_owner\<close> from a record that was read, with the attempts left.\<close>

definition owned :: "node \<Rightarrow> string \<Rightarrow> node" where
  "owned n owner = n\<lparr>node_owner := owner, node_placement := (if owner \<noteq> [] then None else node_placement n)\<rparr>"

fun write_owner_loop :: "'e tenv \<Rightarrow> host \<Rightarrow> string \<Rightarrow> nat \<Rightarrow> EtcdRecord \<Rightarrow> ('e, node) tpass" where
  "write_owner_loop env h owner 0 record = praise ''kept changing during owner update''"
| "write_owner_loop env h owner (Suc k) record =
     (case node_from_etcd (te_wire env) (er_key record) (er_value record) (api_prefix (te_api env)) of
        None \<Rightarrow> praise ''has an invalid etcd registration''
      | Some n \<Rightarrow>
          (case node_to_etcd (te_wire env) (owned n owner) (api_prefix (te_api env)) of
             Inl err \<Rightarrow> praise (te_exc env err)
           | Inr (_, value) \<Rightarrow>
               pbind (t_etcd_call env (replace_if_revision (te_api env) (api_prefix (te_api env) @ h) value (er_mod_revision record) (er_lease_id record))) (\<lambda>revision.
               case revision of
                 Some _ \<Rightarrow>
                   pbind (pwrite (\<lambda>w. if te_has_registry env
                      then w\<lparr>t_gw := (t_gw w)\<lparr>gw_registry := registry_add (owned n owner) (gw_registry (t_gw w))\<rparr>\<rparr> else w)) (\<lambda>_. preturn (owned n owner))
               | None \<Rightarrow>
                   pbind (t_etcd_call env (get_record (te_api env) (api_prefix (te_api env) @ h))) (\<lambda>fresh.
                   case fresh of
                     None \<Rightarrow> praise ''disappeared during owner update''
                   | Some record \<Rightarrow> write_owner_loop env h owner k record))))"

definition write_node_owner :: "'e tenv \<Rightarrow> host \<Rightarrow> string \<Rightarrow> ('e, node) tpass" where
  "write_node_owner env h owner =
     pbind (t_etcd_call env (get_record (te_api env) (api_prefix (te_api env) @ h))) (\<lambda>record.
     case record of
       None \<Rightarrow> praise ''KeyError''
     | Some r \<Rightarrow> write_owner_loop env h owner 3 r)"

text \<open>
  The owner update of a request that is not abandoned: the task it starts is awaited, and its callback releases the lease. An abandoned
  request leaves the task running, which then ends the same way.
\<close>

definition update_node_owner :: "'e tenv \<Rightarrow> host \<Rightarrow> string \<Rightarrow> ('e, node) tpass" where
  "update_node_owner env h owner w =
     (case try_acquire h 0 (t_life w) of
        (False, _) \<Rightarrow> (Inl ''has a lifecycle operation in progress'', w)
      | (True, l) \<Rightarrow>
          pfinally (write_node_owner env h owner) (\<lambda>v. v\<lparr>t_life := snd (lease_release (length (hc_leases (t_life w))) (t_life v))\<rparr>) (w\<lparr>t_life := l\<rparr>))"

text \<open>
  A write of the owner that succeeded: some call of \<open>replace_if_revision\<close> at the revision and lease of a record that a read of the host's
  key returned has committed, and the value is that record's node with the owner changed.
\<close>

definition stored_under :: "'e tenv \<Rightarrow> host \<Rightarrow> EtcdRecord \<Rightarrow> bool" where
  "stored_under env h r \<longleftrightarrow> (\<exists>e e'. get_record (te_api env) (api_prefix (te_api env) @ h) e = (Inr (Some r), e'))"

definition owner_committed :: "'e tenv \<Rightarrow> host \<Rightarrow> string \<Rightarrow> node \<Rightarrow> bool" where
  "owner_committed env h owner n \<longleftrightarrow>
     (\<exists>(r :: EtcdRecord) n0 k value e e' m. stored_under env h r \<and> node_from_etcd (te_wire env) (er_key r) (er_value r) (api_prefix (te_api env)) = Some n0 \<and> n = owned n0 owner \<and>
        node_to_etcd (te_wire env) n (api_prefix (te_api env)) = Inr (k, value) \<and>
        replace_if_revision (te_api env) (api_prefix (te_api env) @ h) value (er_mod_revision r) (er_lease_id r) e = (Inr (Some m), e'))"

lemma read_stored:
  assumes "t_etcd_call env (get_record (te_api env) (api_prefix (te_api env) @ h)) w = (Inr (Some r), w')"
  shows "stored_under env h r"
proof -
  obtain q e where q: "get_record (te_api env) (api_prefix (te_api env) @ h) (t_etcd w) = (q, e)" by fastforce
  then have "map_sum (te_exc env) id q = Inr (Some r)" using assms by (simp add: t_etcd_call_def)
  then show ?thesis using q by (cases q) (auto simp: stored_under_def)
qed

lemma write_owner_loop_commits:
  "write_owner_loop env h owner k r w = (Inr n, w') \<Longrightarrow> stored_under env h r \<Longrightarrow> owner_committed env h owner n"
proof (induction k arbitrary: r w)
  case (Suc k)
  obtain n0 where n0: "node_from_etcd (te_wire env) (er_key r) (er_value r) (api_prefix (te_api env)) = Some n0"
    using Suc.prems by (auto simp: praise_def split: option.splits)
  obtain key val where kv: "node_to_etcd (te_wire env) (owned n0 owner) (api_prefix (te_api env)) = Inr (key, val)"
    using Suc.prems n0 by (auto simp: praise_def split: sum.splits)
  let ?cas = "replace_if_revision (te_api env) (api_prefix (te_api env) @ h) val (er_mod_revision r) (er_lease_id r)"
  obtain q e where cas: "?cas (t_etcd w) = (q, e)" by fastforce
  show ?case
  proof (cases q)
    case (Inl err)
    then show ?thesis using Suc.prems n0 kv cas by (simp add: pbind_def t_etcd_call_def)
  next
    case (Inr revision)
    show ?thesis
    proof (cases revision)
      case (Some m)
      then have "n = owned n0 owner" using Suc.prems n0 kv cas Inr by (simp add: pbind_def t_etcd_call_def pwrite_def preturn_def)
      then show ?thesis using n0 kv cas Inr Some Suc.prems(2) unfolding owner_committed_def by blast
    next
      case None
      then obtain r' v where "write_owner_loop env h owner k r' v = (Inr n, w')" "stored_under env h r'"
        using Suc.prems(1) n0 kv cas Inr
        by (auto simp: pbind_def t_etcd_call_def [of _ "replace_if_revision _ _ _ _ _"] praise_def split: prod.splits sum.splits option.splits dest: read_stored)
      then show ?thesis by (rule Suc.IH)
    qed
  qed
qed (simp add: praise_def)

lemma grown_write_owner: "leases_kept env \<Longrightarrow> pkeeps (grown ls) (write_owner_loop env h owner k r)"
  by (induction k arbitrary: r) (auto intro!: keeps split: sum.splits)

text \<open>
  C27. A change of owner never overwrites a change it has not seen: when it returns, the node it returns is one that was read under the
  host, with the new owner and, where an owner was set, no automatic placement, written by a compare-and-swap at the revision it was read
  at and with its lease; with an operation on the host in progress it changes nothing, and otherwise the host is free again afterwards.
\<close>

theorem owner_update_atomic:
  assumes "update_node_owner env h owner w = (r, w')" "leases_kept env"
  shows "(r = Inr n \<longrightarrow> owner_committed env h owner n \<and> node_owner n = owner \<and> (owner \<noteq> [] \<longrightarrow> node_placement n = None)) \<and>
    (if is_busy (t_life w) h then w' = w \<and> r \<noteq> Inr n else hl_released (hc_leases (t_life w') ! length (hc_leases (t_life w))))"
proof (cases "is_busy (t_life w) h")
  case True
  then show ?thesis using assms(1) by (auto simp: update_node_owner_def try_acquire_simps)
next
  case False
  define l where "l = snd (try_acquire h 0 (t_life w))"
  have l: "length (hc_leases l) = Suc (length (hc_leases (t_life w)))" using False by (simp add: l_def try_acquire_simps)
  obtain v where run: "write_node_owner env h owner (w\<lparr>t_life := l\<rparr>) = (r, v)"
    "w' = v\<lparr>t_life := snd (lease_release (length (hc_leases (t_life w))) (t_life v))\<rparr>"
    using assms(1) False by (auto simp: update_node_owner_def l_def try_acquire_simps pfinally_def split: prod.splits)
  have "owner_committed env h owner n" if "r = Inr n"
    using run(1) that by (auto simp: write_node_owner_def pbind_def praise_def split: prod.splits sum.splits option.splits
      dest!: read_stored intro: write_owner_loop_commits)
  moreover have "node_owner n = owner \<and> (owner \<noteq> [] \<longrightarrow> node_placement n = None)" if "owner_committed env h owner n"
    using that by (auto simp: owner_committed_def owned_def)
  moreover have "hl_released (hc_leases (t_life w') ! length (hc_leases (t_life w)))"
  proof -
    have "pkeeps (grown (hc_leases l)) (write_node_owner env h owner)"
      unfolding write_node_owner_def using assms(2) by (auto intro!: keeps grown_write_owner)
    then have "grown (hc_leases l) v" using pkeepsD [of "grown (hc_leases l)" "write_node_owner env h owner" "w\<lparr>t_life := l\<rparr>"] run(1) by simp
    then have "length (hc_leases (t_life w)) < length (hc_leases (t_life v))" using l by (simp add: leases_grow_def)
    then show ?thesis using run(2) by (simp add: leases_release)
  qed
  ultimately show ?thesis using False by simp
qed

section \<open>A sample teardown\<close>

definition willing_api :: "nat etcd_api" where
  "willing_api = accepting_api\<lparr>api_put := (\<lambda>_ _ _ e. (Inr True, e + 1)), api_delete := (\<lambda>_ e. (Inr True, e + 1))\<rparr>"

definition quiet_tenv :: "nat tenv" where
  "quiet_tenv = \<lparr>te_api = willing_api, te_wire = toy_wire, te_exc = (\<lambda>_. ''etcd''), te_has_registry = True, te_has_tracker = True,
     te_drain_timeout = seconds 60, te_late = (\<lambda>_. 0), te_other = (\<lambda>_ w. w), te_doc = (\<lambda>_ _ _ _. []), te_reconcile = (\<lambda>_. Inr False),
     te_upload = (\<lambda>_. Inl ''no route''), te_stop = (\<lambda>_. Inr ()), te_normalize = (\<lambda>h. Inr ''http://a:1'')\<rparr>"

definition failing_tenv :: "nat tenv" where
  "failing_tenv = quiet_tenv\<lparr>te_stop := (\<lambda>_. Inl ''stop failed'')\<rparr>"

definition doomed_node :: node where
  "doomed_node = (blank_node ''a'' ''http://a:1'')\<lparr>node_status := HEALTHY, node_managed := True\<rparr>"

definition doomed_world :: "nat tworld" where
  "doomed_world = \<lparr>t_tick = 0, t_now = 0, t_gw = idle_gateway [(''a'', doomed_node)], t_etcd = 0,
     t_life = snd (try_acquire ''a'' 0 HostLifecycleCoordinator_new), t_task_engines = [], t_done = []\<rparr>"

lemma quiet_leases: "leases_kept quiet_tenv" "leases_kept failing_tenv"
  by (simp_all add: leases_kept_def quiet_tenv_def failing_tenv_def)

lemmas teardown_evals = inner_teardown_def drain_node_def stop_engine_def deregister_def mark_failed_def register_available_def update_state_def drain_wait_def
  drain_loop.simps t_node_def t_etcd_call_def t_ask_def t_await_def did_def pbind_def ptry_def pfinally_def preturn_def praise_def pread_def pwrite_def
  quiet_tenv_def failing_tenv_def willing_api_def accepting_api_def toy_wire_def doomed_world_def doomed_node_def idle_gateway_def


theorem teardown_releases_lease_witness:
  "hl_released (hc_leases (t_life (snd (teardown failing_tenv ''a'' False None None 0 doomed_world))) ! 0)"
proof -
  have "0 < length (hc_leases (t_life doomed_world)) \<and> belongs_to (hc_leases (t_life doomed_world) ! 0) ''a''" by code_simp
  then show ?thesis
    using teardown_releases_lease [of failing_tenv "''a''" False None None 0 doomed_world, OF surjective_pairing quiet_leases(2)] by simp
qed

definition range_api :: "nat etcd_api" where
  "range_api = willing_api\<lparr>api_range := (\<lambda>_ e. (Inr (JObj [(''kvs'', JList [JObj [(''key'', JStr (b64encode ''/nodes/b'')), (''value'', JStr (b64encode ''healthy'')),
     (''mod_revision'', JStr ''4''), (''lease'', JStr ''7'')]])]), e + 1))\<rparr>"

theorem owner_update_atomic_witness:
  "case update_node_owner (quiet_tenv\<lparr>te_api := range_api\<rparr>) ''b'' ''a@x'' doomed_world of
     (r, w') \<Rightarrow> (case r of Inr n \<Rightarrow> owner_committed (quiet_tenv\<lparr>te_api := range_api\<rparr>) ''b'' ''a@x'' n \<and> node_owner n = ''a@x'' | Inl _ \<Rightarrow> False) \<and>
       hl_released (hc_leases (t_life w') ! 1)"
proof -
  let ?env = "quiet_tenv\<lparr>te_api := range_api\<rparr>"
  have kept: "leases_kept ?env" by (simp add: leases_kept_def quiet_tenv_def)
  have ok: "case update_node_owner ?env ''b'' ''a@x'' doomed_world of (Inr _, _) \<Rightarrow> True | _ \<Rightarrow> False" by code_simp
  have facts: "\<not> is_busy (t_life doomed_world) ''b''" "length (hc_leases (t_life doomed_world)) = 1" by code_simp+
  obtain n w' where run: "update_node_owner ?env ''b'' ''a@x'' doomed_world = (Inr n, w')" using ok by (auto split: prod.splits sum.splits)
  from owner_update_atomic [OF run kept, of n] facts run show ?thesis by simp
qed

end
