(* ===== verification/Relaunch.thy ===== *)
theory Relaunch
  imports Teardown
begin

text \<open>
  The relaunch of a llama.cpp node with another sizing policy, in \<^verbatim>\<open>provisioning/provisioner.py\<close>: the node is taken out of rotation by a
  compare-and-swap, drained, stopped, started with the new policy and published again; whatever goes wrong after the stop is rolled
  back to the previous policy. Local variables that the failure handler reads are fields of the state. A task can be cancelled at
  every \<open>await\<close>, which \<open>except Exception\<close> does not catch.
\<close>

section \<open>State\<close>

datatype exn = Raised string | Cancelled

text \<open>A cancellation at a suspension finds the call not begun, or lets its thread finish.\<close>

datatype interruption = Calm | Early | Late

text \<open>
  What the relaunch did, newest first: a state document, a confirmed compare-and-swap of the node with its lease, a compare-and-swap
  that raised, the end of the drain with the number of requests left, the stop command before it is sent, a verified launch, a registry
  entry, a revoked lease.
\<close>

datatype deed =
    StateDoc ProvisioningStep
  | Swapped node int
  | SwapFailed
  | DrainEnd DrainOutcome int
  | Stopping
  | Launched LlamaCppRuntimeRequest string LlamaCppRuntimeState
  | Entered node
  | Revoked int

record 'e relaunch_world =
  rw :: "'e tworld"
  rl_record :: "EtcdRecord option"
  rl_previous :: "node option"
  rl_artifact :: "string option"
  rl_lease :: "int option"
  rl_granted :: bool
  rl_stop_attempted :: bool
  rl_active :: bool
  rl_step :: ProvisioningStep
  rl_done :: "deed list"

type_synonym ('e, 'a) rpass = "(exn, 'e relaunch_world, 'a) xpass"

text \<open>
  The environment: \<open>re_launch\<close> is everything between the start script and the verification of what it started, with the artifact and
  the policy; \<open>re_heartbeat\<close> is the wall clock.
\<close>

record 'e relaunch_env =
  re_t :: "'e tenv"
  re_cancel :: "nat \<Rightarrow> interruption"
  re_resolve :: "nat \<Rightarrow> string option \<Rightarrow> string + string option"
  re_upload :: "nat \<Rightarrow> string + unit"
  re_stop :: "nat \<Rightarrow> string + unit"
  re_launch :: "nat \<Rightarrow> string \<Rightarrow> LlamaCppRuntimeRequest \<Rightarrow> string + (string \<times> LlamaCppRuntimeState)"
  re_reconcile :: "nat \<Rightarrow> string + bool"
  re_heartbeat :: "nat \<Rightarrow> py_datetime"

section \<open>Suspensions\<close>

definition r_call :: "'e relaunch_env \<Rightarrow> micros \<Rightarrow> ('e tworld \<Rightarrow> (string + 'a) \<times> 'e tworld) \<Rightarrow> ('e, 'a) rpass" where
  "r_call env pause f w =
     (case re_cancel env (t_tick (rw w)) of
        Early \<Rightarrow> (Inl Cancelled, w\<lparr>rw := t_await (re_t env) 0 (rw w)\<rparr>)
      | Late \<Rightarrow> (Inl Cancelled, w\<lparr>rw := t_await (re_t env) pause (snd (f (rw w)))\<rparr>)
      | Calm \<Rightarrow> (case f (rw w) of (r, v) \<Rightarrow> (map_sum Raised id r, w\<lparr>rw := t_await (re_t env) pause v\<rparr>)))"

definition r_etcd :: "'e relaunch_env \<Rightarrow> ('e, 'a) etcd_call \<Rightarrow> ('e, 'a) rpass" where
  "r_etcd env f = r_call env 0 (\<lambda>v. case f (t_etcd v) of (r, e) \<Rightarrow> (map_sum (te_exc (re_t env)) id r, v\<lparr>t_etcd := e\<rparr>))"

definition r_ask :: "'e relaunch_env \<Rightarrow> (nat \<Rightarrow> string + 'a) \<Rightarrow> ('e, 'a) rpass" where
  "r_ask env answer = r_call env 0 (\<lambda>v. (answer (t_tick v), v))"

definition r_did :: "deed \<Rightarrow> ('e, unit) rpass" where
  "r_did d = pwrite (\<lambda>w. w\<lparr>rl_done := d # rl_done w\<rparr>)"

definition r_fail :: "string \<Rightarrow> ('e, 'a) rpass" where
  "r_fail text = praise (Raised text)"

text \<open>\<open>try: f except Exception as e: handler(e)\<close>; a cancellation passes.\<close>

definition rtry :: "('e, 'a) rpass \<Rightarrow> (string \<Rightarrow> ('e, 'a) rpass) \<Rightarrow> ('e, 'a) rpass" where
  "rtry f handler = ptry f (\<lambda>err. case err of Raised text \<Rightarrow> handler text | Cancelled \<Rightarrow> praise Cancelled)"

definition r_update_state :: "'e relaunch_env \<Rightarrow> host \<Rightarrow> ProvisioningStep \<Rightarrow> string option \<Rightarrow> string option \<Rightarrow> ('e, unit) rpass" where
  "r_update_state env h step failed_step err =
     pbind (r_did (StateDoc step)) (\<lambda>_.
       rtry (pbind (r_etcd env (put (te_api (re_t env)) (''/provisioning/'' @ h) (utf8_encode (te_doc (re_t env) h step failed_step err)) None)) (\<lambda>_. preturn ()))
         (\<lambda>_. preturn ()))"

definition r_connections :: "host \<Rightarrow> 'e relaunch_world \<Rightarrow> int" where
  "r_connections h w = tracker_get (gw_tracker (t_gw (rw w))) h"

lemma r_call_later:
  "r_call env pause f w = (r, w') \<Longrightarrow> (\<And>v. t_tick (snd (f v)) = t_tick v) \<Longrightarrow> t_tick (rw w') = Suc (t_tick (rw w))"
  by (auto simp: r_call_def t_await_def split: interruption.splits prod.splits) (metis snd_conv)+

function r_drain_loop :: "'e relaunch_env \<Rightarrow> host \<Rightarrow> micros \<Rightarrow> 'e relaunch_world \<Rightarrow> (exn + DrainOutcome) \<times> 'e relaunch_world" where
  "r_drain_loop env h deadline w =
     (if r_connections h w = 0 then (Inr DRAIN_COMPLETE, w)
      else if t_now (rw w) \<ge> deadline then (Inr DRAIN_TIMED_OUT, w)
      else (case r_call env (seconds 1) (\<lambda>v. (Inr (), v)) w of
              (Inl err, w) \<Rightarrow> (Inl err, w)
            | (Inr _, w) \<Rightarrow> r_drain_loop env h deadline w))"
  by pat_completeness auto

termination
  by (relation "measure (\<lambda>(env, h, deadline, w). nat (deadline - t_now (rw w)))")
    (auto simp: r_call_def t_await_def seconds_def split: interruption.splits)

declare r_drain_loop.simps [simp del]

definition r_drain_wait :: "'e relaunch_env \<Rightarrow> host \<Rightarrow> ('e, DrainOutcome) rpass" where
  "r_drain_wait env h w =
     (if \<not> te_has_tracker (re_t env) then (Inr DRAIN_UNAVAILABLE, w)
      else r_drain_loop env h (t_now (rw w) + te_drain_timeout (re_t env)) w)"

section \<open>Reading and replacing the node\<close>

definition validate_llamacpp_relaunch :: "'e relaunch_env \<Rightarrow> node option \<Rightarrow> LlamaCppRuntimeRequest \<Rightarrow> string + node" where
  "validate_llamacpp_relaunch env node request =
     (case node of
        None \<Rightarrow> Inl ''Node is not registered''
      | Some n \<Rightarrow>
          if node_status n \<noteq> HEALTHY then Inl ''relaunch requires a healthy node''
          else if \<not> node_managed n \<or> node_engine n \<noteq> LLAMA_CPP then Inl ''Relaunch requires a managed llama_cpp node''
          else (case (node_artifact_id n, node_llamacpp_runtime n) of
             (Some _, Some runtime) \<Rightarrow>
               if \<not> te_has_tracker (re_t env) then Inl ''Relaunch requires active-connection tracking''
               else if rr_sizing request = SZ_PROFILE \<or> node_placement n \<noteq> None \<or> rr_sizing (rs_requested runtime) = SZ_PROFILE \<and> node_owner n = []
               then Inl ''Catalog-profile nodes are relaunched by automatic placement, not with a custom sizing policy''
               else if rs_gpus runtime = [] then Inl ''min() iterable argument is empty''
               else if rr_fit_target_mib request \<ge> Min (set (map gs_total_mib (rs_gpus runtime)))
               then Inl ''fit_target_mib must be smaller than every GPU's total VRAM''
               else if rr_sizing request = SZ_CUSTOM \<and>
                   (case rr_context_per_slot request of None \<Rightarrow> False | Some c \<Rightarrow> c > re_train_context (rs_effective runtime))
               then Inl ''context_per_slot exceeds the model training context''
               else Inr n
           | _ \<Rightarrow> Inl ''Relaunch requires an artifact identity and verified runtime state''))"

definition read_node_record :: "'e relaunch_env \<Rightarrow> host \<Rightarrow> ('e, EtcdRecord \<times> node) rpass" where
  "read_node_record env h =
     pbind (r_etcd env (get_record (te_api (re_t env)) (api_prefix (te_api (re_t env)) @ h))) (\<lambda>record.
     case record of
       None \<Rightarrow> r_fail ''disappeared from etcd during relaunch''
     | Some r \<Rightarrow>
         (case node_from_etcd (te_wire (re_t env)) (er_key r) (er_value r) (api_prefix (te_api (re_t env))) of
            None \<Rightarrow> r_fail ''has an invalid etcd registration''
          | Some n \<Rightarrow> preturn (r, n)))"

fun replace_loop :: "'e relaunch_env \<Rightarrow> node \<Rightarrow> node \<Rightarrow> int \<Rightarrow> string \<Rightarrow> string \<Rightarrow> nat \<Rightarrow> EtcdRecord \<Rightarrow> ('e, EtcdRecord) rpass" where
  "replace_loop env expected replacement lease key value 0 record = r_fail ''revision changed repeatedly during relaunch''"
| "replace_loop env expected replacement lease key value (Suc k) record =
     pbind (r_etcd env (replace_if_revision (te_api (re_t env)) key value (er_mod_revision record) lease)) (\<lambda>revision.
     case revision of
       Some m \<Rightarrow> preturn \<lparr>er_key = utf8_encode key, er_value = value, er_mod_revision = m, er_lease_id = lease\<rparr>
     | None \<Rightarrow>
         pbind (read_node_record env (node_id replacement)) (\<lambda>(current, n).
         if n \<noteq> expected then r_fail ''changed during relaunch''
         else replace_loop env expected replacement lease key value k current))"

definition replace_node_revision :: "'e relaunch_env \<Rightarrow> EtcdRecord \<Rightarrow> node \<Rightarrow> node \<Rightarrow> int \<Rightarrow> ('e, EtcdRecord) rpass" where
  "replace_node_revision env record expected replacement lease =
     pbind
       (ptry
          (case node_to_etcd (te_wire (re_t env)) replacement (api_prefix (te_api (re_t env))) of
             Inl err \<Rightarrow> r_fail (te_exc (re_t env) err)
           | Inr (key, value) \<Rightarrow> replace_loop env expected replacement lease key value 3 record)
          (\<lambda>err. pbind (r_did SwapFailed) (\<lambda>_. praise err)))
       (\<lambda>r. pbind (r_did (Swapped replacement lease)) (\<lambda>_. preturn r))"

definition prepare_relaunch_lease :: "'e relaunch_env \<Rightarrow> EtcdRecord \<Rightarrow> ('e, int \<times> bool) rpass" where
  "prepare_relaunch_lease env record =
     (if er_lease_id record \<noteq> 0 then
        pbind (r_etcd env (refresh_lease (te_api (re_t env)) (er_lease_id record))) (\<lambda>remaining.
        if remaining = - 1 then r_fail ''The managed node lease has expired'' else preturn (er_lease_id record, False))
      else pbind (r_etcd env (grant_node_lease (te_api (re_t env)))) (\<lambda>lease. preturn (lease, True)))"

definition enter_node :: "'e relaunch_env \<Rightarrow> node \<Rightarrow> ('e, unit) rpass" where
  "enter_node env n =
     pbind (r_did (Entered n)) (\<lambda>_.
       pwrite (\<lambda>w. w\<lparr>rw := (rw w)\<lparr>t_gw := (t_gw (rw w))\<lparr>gw_registry := registry_add n (gw_registry (t_gw (rw w)))\<rparr>\<rparr>\<rparr>))"

text \<open>\<open>_launch_llamacpp_runtime\<close>; what it returns is noted.\<close>

definition launch_llamacpp_runtime :: "'e relaunch_env \<Rightarrow> string \<Rightarrow> LlamaCppRuntimeRequest \<Rightarrow> ('e, string \<times> LlamaCppRuntimeState) rpass" where
  "launch_llamacpp_runtime env artifact request =
     pbind (r_ask env (\<lambda>n. re_launch env n artifact request)) (\<lambda>(model, runtime).
     pbind (r_did (Launched request model runtime)) (\<lambda>_. preturn (model, runtime)))"

definition revoke_quietly :: "'e relaunch_env \<Rightarrow> int \<Rightarrow> ('e, unit) rpass" where
  "revoke_quietly env lease =
     pbind (r_did (Revoked lease)) (\<lambda>_. rtry (pbind (r_etcd env (revoke_lease (te_api (re_t env)) lease)) (\<lambda>_. preturn ())) (\<lambda>_. preturn ()))"

section \<open>The relaunch\<close>

definition set_step :: "ProvisioningStep \<Rightarrow> ('e, unit) rpass" where
  "set_step s = pwrite (\<lambda>w. w\<lparr>rl_step := s\<rparr>)"

abbreviation relaunching :: "node \<Rightarrow> node" where
  "relaunching n \<equiv> node_with_status n RELAUNCHING id"

definition published :: "'e relaunch_env \<Rightarrow> 'e relaunch_world \<Rightarrow> node \<Rightarrow> string \<Rightarrow> LlamaCppRuntimeState \<Rightarrow> node" where
  "published env w n model runtime =
     node_with_status n HEALTHY (\<lambda>n. n\<lparr>node_model := model, node_llamacpp_runtime := Some runtime, node_last_heartbeat := Some (re_heartbeat env (t_tick (rw w)))\<rparr>)"

text \<open>The registry entry is replaced in one step under the registry's lock, where it is still the one that was validated.\<close>

definition take_out :: "'e relaunch_env \<Rightarrow> host \<Rightarrow> node option \<Rightarrow> node \<Rightarrow> ('e, unit) rpass" where
  "take_out env h found replacement =
     pbind (pread (\<lambda>w. registry_get (gw_registry (t_gw (rw w))) h)) (\<lambda>current.
     if current \<noteq> found then r_fail ''The node changed before relaunch could begin''
     else
       pbind (pwrite (\<lambda>w. w\<lparr>rw := (rw w)\<lparr>t_gw := (t_gw (rw w))\<lparr>gw_registry := snd (registry_drain h (gw_registry (t_gw (rw w))))\<rparr>\<rparr>\<rparr>)) (\<lambda>_.
       enter_node env replacement))"

definition same_identity :: "node \<Rightarrow> node \<Rightarrow> bool" where
  "same_identity a b \<longleftrightarrow>
     (node_engine a, node_artifact_id a, node_llamacpp_runtime a) = (node_engine b, node_artifact_id b, node_llamacpp_runtime b)"

text \<open>
  From the validation to the confirmed compare-and-swap, in three parts: with the lease known, with the artifact known, and from the
  beginning. The results are the locals that follow.
\<close>

definition take_node ::
  "'e relaunch_env \<Rightarrow> host \<Rightarrow> node \<Rightarrow> node \<Rightarrow> string \<Rightarrow> EtcdRecord \<Rightarrow> int \<Rightarrow> bool \<Rightarrow> ('e, node \<times> string \<times> int \<times> EtcdRecord) rpass" where
  "take_node env h local_node previous artifact stored lease granted =
     (if \<not> te_has_registry (re_t env) then r_fail ''Relaunch requires the managed node registry''
      else
        pbind (take_out env h (Some local_node) (relaunching previous)) (\<lambda>_.
        pbind
          (rtry (replace_node_revision env stored previous (relaunching previous) lease)
             (\<lambda>err.
                pbind (enter_node env local_node) (\<lambda>_.
                pbind (if granted then revoke_quietly env lease else preturn ()) (\<lambda>_. r_fail err)))) (\<lambda>r.
        pbind (pwrite (\<lambda>w. w\<lparr>rl_record := Some r, rl_active := True\<rparr>)) (\<lambda>_.
        preturn (previous, artifact, lease, r)))))"

definition prepare_node ::
  "'e relaunch_env \<Rightarrow> host \<Rightarrow> node \<Rightarrow> node \<Rightarrow> EtcdRecord \<Rightarrow> ('e, node \<times> string \<times> int \<times> EtcdRecord) rpass" where
  "prepare_node env h local_node previous stored =
     pbind (r_ask env (\<lambda>n. re_resolve env n (node_artifact_id previous))) (\<lambda>found_artifact.
     pbind (pwrite (\<lambda>w. w\<lparr>rl_artifact := found_artifact\<rparr>)) (\<lambda>_.
     case found_artifact of
       None \<Rightarrow> r_fail ''The persisted llama.cpp artifact is unavailable''
     | Some artifact \<Rightarrow>
         pbind (r_ask env (re_upload env)) (\<lambda>_.
         pbind (prepare_relaunch_lease env stored) (\<lambda>(lease, granted).
         pbind (pwrite (\<lambda>w. w\<lparr>rl_lease := Some lease, rl_granted := granted\<rparr>)) (\<lambda>_.
         take_node env h local_node previous artifact stored lease granted)))))"

definition begin_relaunch :: "'e relaunch_env \<Rightarrow> host \<Rightarrow> LlamaCppRuntimeRequest \<Rightarrow> ('e, node \<times> string \<times> int \<times> EtcdRecord) rpass" where
  "begin_relaunch env h request =
     pbind (pread (\<lambda>w. if te_has_registry (re_t env) then registry_get (gw_registry (t_gw (rw w))) h else None)) (\<lambda>found.
     case validate_llamacpp_relaunch env found request of
       Inl err \<Rightarrow> r_fail err
     | Inr local_node \<Rightarrow>
         pbind (read_node_record env h) (\<lambda>(stored, persisted).
         case validate_llamacpp_relaunch env (Some persisted) request of
           Inl err \<Rightarrow> r_fail err
         | Inr previous \<Rightarrow>
             pbind (pwrite (\<lambda>w. w\<lparr>rl_previous := Some previous\<rparr>)) (\<lambda>_.
             if \<not> same_identity local_node previous then r_fail ''The registry and persisted node identity differ''
             else prepare_node env h local_node previous stored)))"

definition drain_for_relaunch :: "'e relaunch_env \<Rightarrow> host \<Rightarrow> node \<Rightarrow> int \<Rightarrow> EtcdRecord \<Rightarrow> ('e, unit) rpass" where
  "drain_for_relaunch env h previous lease record =
     pbind (set_step PS_DRAINING) (\<lambda>_.
     pbind (r_update_state env h PS_DRAINING None None) (\<lambda>_.
     pbind (r_drain_wait env h) (\<lambda>outcome.
     pbind (pread (r_connections h)) (\<lambda>left.
     pbind (r_did (DrainEnd outcome left)) (\<lambda>_.
     if outcome \<noteq> DRAIN_COMPLETE then
       pbind (replace_node_revision env record (relaunching previous) previous lease) (\<lambda>restored.
       pbind (pwrite (\<lambda>w. w\<lparr>rl_record := Some restored, rl_active := False\<rparr>)) (\<lambda>_.
       pbind (enter_node env previous) (\<lambda>_.
       r_fail (if outcome = DRAIN_TIMED_OUT then ''Relaunch aborted because active requests did not drain''
               else ''Relaunch aborted because connection tracking is unavailable''))))
     else preturn ())))))"

definition switch_policy ::
  "'e relaunch_env \<Rightarrow> host \<Rightarrow> LlamaCppRuntimeRequest \<Rightarrow> node \<Rightarrow> string \<Rightarrow> int \<Rightarrow> EtcdRecord \<Rightarrow> ('e, unit) rpass" where
  "switch_policy env h request previous artifact lease record =
     pbind (set_step PS_STOPPING_LLAMACPP) (\<lambda>_.
     pbind (r_update_state env h PS_STOPPING_LLAMACPP None None) (\<lambda>_.
     pbind (pwrite (\<lambda>w. w\<lparr>rl_stop_attempted := True, rl_done := Stopping # rl_done w\<rparr>)) (\<lambda>_.
     pbind (r_ask env (re_stop env)) (\<lambda>_.
     pbind (set_step PS_STARTING_LLAMACPP) (\<lambda>_.
     pbind (r_update_state env h PS_STARTING_LLAMACPP None None) (\<lambda>_.
     pbind (launch_llamacpp_runtime env artifact request) (\<lambda>(model, runtime).
     pbind (pread (\<lambda>w. published env w previous model runtime)) (\<lambda>healthy.
     pbind (set_step PS_REGISTERING) (\<lambda>_.
     pbind (replace_node_revision env record (relaunching previous) healthy lease) (\<lambda>r.
     pbind (pwrite (\<lambda>w. w\<lparr>rl_record := Some r, rl_active := False\<rparr>)) (\<lambda>_.
     pbind (enter_node env healthy) (\<lambda>_.
     r_update_state env h PS_COMPLETE None None))))))))))))"

definition relaunch_body :: "'e relaunch_env \<Rightarrow> host \<Rightarrow> LlamaCppRuntimeRequest \<Rightarrow> ('e, unit) rpass" where
  "relaunch_body env h request =
     pbind (begin_relaunch env h request) (\<lambda>(previous, artifact, lease, record).
     pbind (drain_for_relaunch env h previous lease record) (\<lambda>_.
     switch_policy env h request previous artifact lease record))"

section \<open>The failure handler\<close>

fun exn_text :: "exn \<Rightarrow> string" where
  "exn_text (Raised text) = text"
| "exn_text Cancelled = []"

definition enter_if :: "'e relaunch_env \<Rightarrow> node \<Rightarrow> ('e, unit) rpass" where
  "enter_if env n = (if te_has_registry (re_t env) then enter_node env n else preturn ())"

definition settled_active :: "('e, unit) rpass" where
  "settled_active = pwrite (\<lambda>w. w\<lparr>rl_active := False\<rparr>)"

text \<open>Diagnostics: their own failures are logged, and the answer is whether a cancellation arrived meanwhile.\<close>

definition capture_failure :: "'e relaunch_env \<Rightarrow> ('e, bool) rpass" where
  "capture_failure env = ptry (pbind (r_ask env (\<lambda>_. Inr ())) (\<lambda>_. preturn False)) (\<lambda>_. preturn True)"

definition rollback_failed :: "'e relaunch_env \<Rightarrow> host \<Rightarrow> exn \<Rightarrow> exn \<Rightarrow> node \<Rightarrow> int \<Rightarrow> EtcdRecord \<Rightarrow> ('e, unit) rpass" where
  "rollback_failed env h err rollback_err previous lease record =
     pbind (pread (\<lambda>w. node_with_status previous RELAUNCH_FAILED
        (\<lambda>n. n\<lparr>node_llamacpp_runtime := None, node_last_heartbeat := Some (re_heartbeat env (t_tick (rw w)))\<rparr>))) (\<lambda>failed.
     pbind
       (rtry
          (pbind (replace_node_revision env record (relaunching previous) failed 0) (\<lambda>_.
           pbind settled_active (\<lambda>_. pbind (enter_if env failed) (\<lambda>_. preturn True))))
          (\<lambda>_. preturn False)) (\<lambda>terminal_written.
     pbind (if terminal_written \<and> lease \<noteq> 0 then revoke_quietly env lease else preturn ()) (\<lambda>_.
     pbind (pread rl_step) (\<lambda>s.
     let combined = ''Relaunch failed: '' @ exn_text err @ ''; rollback failed: '' @ exn_text rollback_err
     in pbind (r_update_state env h PS_FAILED (Some (ProvisioningStep_value s)) (Some combined)) (\<lambda>_. r_fail combined)))))"

definition roll_back ::
  "'e relaunch_env \<Rightarrow> host \<Rightarrow> exn \<Rightarrow> bool \<Rightarrow> node \<Rightarrow> LlamaCppRuntimeState \<Rightarrow> string \<Rightarrow> int \<Rightarrow> EtcdRecord \<Rightarrow> ('e, unit) rpass" where
  "roll_back env h err diagnostic_cancel previous old artifact lease record =
     pbind (set_step PS_ROLLING_BACK) (\<lambda>_.
     pbind (r_update_state env h PS_ROLLING_BACK None None) (\<lambda>_.
     pbind
       (ptry
          (pbind (launch_llamacpp_runtime env artifact (rs_requested old)) (\<lambda>(model, runtime).
           pbind (pread (\<lambda>w. published env w previous model runtime)) (\<lambda>restored.
           pbind (replace_node_revision env record (relaunching previous) restored lease) (\<lambda>r.
           pbind (pwrite (\<lambda>w. w\<lparr>rl_record := Some r\<rparr>)) (\<lambda>_. preturn (Inr restored))))))
          (\<lambda>rollback_err. preturn (Inl rollback_err))) (\<lambda>outcome.
     case outcome of
       Inl rollback_err \<Rightarrow> rollback_failed env h err rollback_err previous lease record
     | Inr restored \<Rightarrow>
         pbind settled_active (\<lambda>_.
         pbind (enter_if env restored) (\<lambda>_.
         pbind (pread rl_step) (\<lambda>s.
         pbind (r_update_state env h PS_FAILED (Some (ProvisioningStep_value s))
            (Some (exn_text err @ ''; '' @
               (case rr_sizing (rs_requested old) of SZ_AUTO \<Rightarrow> ''Automatic sizing restored'' | SZ_PROFILE \<Rightarrow> ''Previous catalog profile restored''
                | _ \<Rightarrow> ''Previous custom sizing restored'')))) (\<lambda>_.
         praise (if diagnostic_cancel then Cancelled else err))))))))"

definition put_back :: "'e relaunch_env \<Rightarrow> 'e relaunch_world \<Rightarrow> ('e, unit) rpass" where
  "put_back env w =
     (case (rl_active w \<and> \<not> rl_stop_attempted w, rl_record w, rl_previous w, rl_lease w) of
        (True, Some record, Some previous, Some lease) \<Rightarrow>
          rtry
            (pbind (replace_node_revision env record (relaunching previous) previous lease) (\<lambda>_.
             pbind settled_active (\<lambda>_. enter_if env previous)))
            (\<lambda>_. preturn ())
      | _ \<Rightarrow> preturn ())"

definition rollback_data :: "'e relaunch_world \<Rightarrow> (node \<times> LlamaCppRuntimeState \<times> string \<times> int \<times> EtcdRecord) option" where
  "rollback_data w =
     (case (rl_stop_attempted w, rl_record w, rl_previous w, rl_artifact w, rl_lease w) of
        (True, Some record, Some previous, Some artifact, Some lease) \<Rightarrow>
          map_option (\<lambda>old. (previous, old, artifact, lease, record)) (node_llamacpp_runtime previous)
      | _ \<Rightarrow> None)"

definition settle_failure :: "'e relaunch_env \<Rightarrow> host \<Rightarrow> exn \<Rightarrow> bool \<Rightarrow> 'e relaunch_world \<Rightarrow> ('e, unit) rpass" where
  "settle_failure env h err diagnostic_cancel w =
     (case rollback_data w of
        Some (previous, old, artifact, lease, record) \<Rightarrow> roll_back env h err diagnostic_cancel previous old artifact lease record
      | None \<Rightarrow>
          pbind (put_back env w) (\<lambda>_.
          pbind (pread rl_step) (\<lambda>s.
          pbind (r_update_state env h PS_FAILED (Some (ProvisioningStep_value s)) (Some (exn_text err))) (\<lambda>_.
          praise (if diagnostic_cancel then Cancelled else err)))))"

definition relaunch_failed :: "'e relaunch_env \<Rightarrow> host \<Rightarrow> exn \<Rightarrow> ('e, unit) rpass" where
  "relaunch_failed env h err =
     pbind (case err of Raised _ \<Rightarrow> capture_failure env | Cancelled \<Rightarrow> preturn False) (\<lambda>diagnostic_cancel.
     pbind (pread id) (\<lambda>w. settle_failure env h err diagnostic_cancel w))"

definition fresh_locals :: "'e relaunch_world \<Rightarrow> 'e relaunch_world" where
  "fresh_locals w = w\<lparr>rl_record := None, rl_previous := None, rl_artifact := None, rl_lease := None, rl_granted := False,
     rl_stop_attempted := False, rl_active := False, rl_step := PS_RELAUNCH_VALIDATING, rl_done := []\<rparr>"

text \<open>
  The keepalive of the lease is one of the other tasks, so it runs at every suspension. What the \<open>finally\<close> clause waits for, the end of
  the keepalive and of the log collection, is one more.
\<close>

definition relaunch_inner :: "'e relaunch_env \<Rightarrow> host \<Rightarrow> LlamaCppRuntimeRequest \<Rightarrow> ('e, unit) rpass" where
  "relaunch_inner env h request =
     pbind (pwrite fresh_locals) (\<lambda>_.
     pbind (r_update_state env h PS_RELAUNCH_VALIDATING None None) (\<lambda>_.
     pfinally
       (ptry (relaunch_body env h request) (relaunch_failed env h))
       (\<lambda>w. w\<lparr>rw := t_await (re_t env) 0 (rw w)\<rparr>)))"

definition relaunch_llamacpp :: "'e relaunch_env \<Rightarrow> host \<Rightarrow> LlamaCppRuntimeRequest \<Rightarrow> nat \<Rightarrow> ('e, unit) rpass" where
  "relaunch_llamacpp env h request lease w =
     (if \<not> (lease < length (hc_leases (t_life (rw w))) \<and> belongs_to (hc_leases (t_life (rw w)) ! lease) h)
      then (Inl (Raised ''lifecycle lease does not own this host''), w)
      else
        pfinally
          (pbind (r_ask env (re_reconcile env)) (\<lambda>active.
             if active then r_fail ''A prior provisioning operation is still active on the node'' else relaunch_inner env h request))
          (\<lambda>w. w\<lparr>rw := (rw w)\<lparr>t_life := snd (lease_release lease (t_life (rw w)))\<rparr>\<rparr>) w)"


section \<open>What the history says\<close>

primrec last_swap :: "deed list \<Rightarrow> node option" where
  "last_swap [] = None"
| "last_swap (d # ds) = (case d of Swapped n _ \<Rightarrow> Some n | _ \<Rightarrow> last_swap ds)"

text \<open>A compare-and-swap has raised since the last confirmed one.\<close>

primrec unconfirmed :: "deed list \<Rightarrow> bool" where
  "unconfirmed [] = False"
| "unconfirmed (d # ds) = (case d of Swapped _ _ \<Rightarrow> False | SwapFailed \<Rightarrow> True | _ \<Rightarrow> unconfirmed ds)"

primrec last_launch :: "deed list \<Rightarrow> (LlamaCppRuntimeRequest \<times> string \<times> LlamaCppRuntimeState) option" where
  "last_launch [] = None"
| "last_launch (d # ds) = (case d of Launched q model runtime \<Rightarrow> Some (q, model, runtime) | _ \<Rightarrow> last_launch ds)"

primrec last_drain :: "deed list \<Rightarrow> (DrainOutcome \<times> int) option" where
  "last_drain [] = None"
| "last_drain (d # ds) = (case d of DrainEnd outcome left \<Rightarrow> Some (outcome, left) | _ \<Rightarrow> last_drain ds)"

text \<open>
  Every stop command was sent to a node that etcd had confirmed as relaunching and whose drain had ended with no request left, and
  every launch came after a stop command.
\<close>

primrec orderly :: "deed list \<Rightarrow> bool" where
  "orderly [] = True"
| "orderly (d # ds) \<longleftrightarrow>
     (case d of
        Stopping \<Rightarrow> last_drain ds = Some (DRAIN_COMPLETE, 0) \<and> map_option node_status (last_swap ds) = Some RELAUNCHING
      | Launched _ _ _ \<Rightarrow> Stopping \<in> set ds
      | _ \<Rightarrow> True) \<and> orderly ds"

text \<open>The part of the state the proofs follow.\<close>

record summary =
  sm_record :: "EtcdRecord option"
  sm_previous :: "node option"
  sm_artifact :: "string option"
  sm_lease :: "int option"
  sm_stop :: bool
  sm_active :: bool
  sm_swap :: "node option"
  sm_unconfirmed :: bool
  sm_launch :: "(LlamaCppRuntimeRequest \<times> string \<times> LlamaCppRuntimeState) option"
  sm_drain :: "(DrainOutcome \<times> int) option"
  sm_stopping :: bool
  sm_orderly :: bool

definition view :: "'e relaunch_world \<Rightarrow> summary" where
  "view w = \<lparr>sm_record = rl_record w, sm_previous = rl_previous w, sm_artifact = rl_artifact w, sm_lease = rl_lease w,
     sm_stop = rl_stop_attempted w, sm_active = rl_active w, sm_swap = last_swap (rl_done w), sm_unconfirmed = unconfirmed (rl_done w),
     sm_launch = last_launch (rl_done w), sm_drain = last_drain (rl_done w), sm_stopping = (Stopping \<in> set (rl_done w)),
     sm_orderly = orderly (rl_done w)\<rparr>"

definition since :: "nat \<Rightarrow> (summary \<Rightarrow> bool) \<Rightarrow> 'e relaunch_world \<Rightarrow> bool" where
  "since N P w \<longleftrightarrow> N \<le> t_tick (rw w) \<and> P (view w)"

text \<open>Steps that leave the summary as it is, while the clock goes on.\<close>

definition same :: "('e, 'a) rpass \<Rightarrow> bool" where
  "same f \<longleftrightarrow> (\<forall>w. view (snd (f w)) = view w \<and> t_tick (rw w) \<le> t_tick (rw (snd (f w))))"

named_theorems same_intro

lemma same_bind [same_intro]: "same f \<Longrightarrow> (\<And>x. same (g x)) \<Longrightarrow> same (pbind f g)"
  unfolding same_def pbind_def by (auto split: prod.splits sum.splits) (metis snd_conv le_trans)+

lemma same_try [same_intro]: "same f \<Longrightarrow> (\<And>x. same (g x)) \<Longrightarrow> same (ptry f g)"
  unfolding same_def ptry_def by (auto split: prod.splits sum.splits) (metis snd_conv le_trans)+

lemma same_simple [same_intro]: "same (preturn x)" "same (praise e)" "same (r_fail t)" "same (pread k)" "same (set_step s)"
  by (simp_all add: same_def preturn_def praise_def r_fail_def pread_def set_step_def pwrite_def view_def)

lemma same_rtry [same_intro]: "same f \<Longrightarrow> (\<And>x. same (g x)) \<Longrightarrow> same (rtry f g)"
  unfolding rtry_def by (auto intro!: same_intro split: exn.splits)

lemma same_if [same_intro]: "same f \<Longrightarrow> same g \<Longrightarrow> same (if b then f else g)"
  by simp

lemma same_option [same_intro]: "same f \<Longrightarrow> (\<And>x. same (g x)) \<Longrightarrow> same (case q of None \<Rightarrow> f | Some x \<Rightarrow> g x)"
  by (simp split: option.splits)

lemma same_sum [same_intro]: "(\<And>e. same (f e)) \<Longrightarrow> (\<And>x. same (g x)) \<Longrightarrow> same (case q of Inl e \<Rightarrow> f e | Inr x \<Rightarrow> g x)"
  by (simp split: sum.splits)

lemma same_pair [same_intro]: "(\<And>a b. same (g a b)) \<Longrightarrow> same (case q of (a, b) \<Rightarrow> g a b)"
  by (simp split: prod.splits)

lemma same_call: "(\<And>v. t_tick (snd (f v)) = t_tick v) \<Longrightarrow> same (r_call env pause f)"
  unfolding same_def r_call_def by (auto simp: view_def t_await_def split: interruption.splits prod.splits) (metis snd_conv le_SucI order_refl)+

lemma same_etcd [same_intro]: "same (r_etcd env c)"
  unfolding r_etcd_def by (rule same_call) (simp split: prod.splits)

lemma same_ask [same_intro]: "same (r_ask env c)"
  unfolding r_ask_def by (rule same_call) simp

lemma same_did: "(\<And>ds. last_swap (d # ds) = last_swap ds \<and> unconfirmed (d # ds) = unconfirmed ds \<and> last_launch (d # ds) = last_launch ds \<and>
    last_drain (d # ds) = last_drain ds \<and> orderly (d # ds) = orderly ds) \<Longrightarrow> d \<noteq> Stopping \<Longrightarrow> same (r_did d)"
  by (auto simp: same_def r_did_def pwrite_def view_def)

lemma same_deeds [same_intro]: "same (r_did (StateDoc s))" "same (r_did (Entered n))" "same (r_did (Revoked l))"
  by (rule same_did; simp)+

lemma same_world [same_intro]: "(\<And>w. t_tick (rw w) \<le> t_tick (k w)) \<Longrightarrow> same (pwrite (\<lambda>w. w\<lparr>rw := k w\<rparr>))"
  by (simp add: same_def pwrite_def view_def)

lemma same_steps [same_intro]: "same (r_update_state env h s f e)" "same (enter_node env n)" "same (revoke_quietly env l)"
  "same (read_node_record env h)" "same (prepare_relaunch_lease env r)" "same (take_out env h found n)" "same (capture_failure env)" "same (enter_if env n)"
  unfolding r_update_state_def enter_node_def revoke_quietly_def read_node_record_def prepare_relaunch_lease_def take_out_def capture_failure_def enter_if_def
  by (intro same_intro; simp)+

lemma same_replace_loop [same_intro]: "same (replace_loop env a b l key val k r)"
  by (induction k arbitrary: r) (auto intro!: same_intro)

lemma same_drain_loop: "view (snd (r_drain_loop env h d w)) = view w \<and> t_tick (rw w) \<le> t_tick (rw (snd (r_drain_loop env h d w)))"
proof (induction env h d w rule: r_drain_loop.induct)
  case (1 env h d w)
  have "same (r_call env (seconds 1) (\<lambda>v. (Inr (), v)))" by (rule same_call) simp
  moreover obtain r v where call: "r_call env (seconds 1) (\<lambda>v. (Inr (), v)) w = (r, v)" by fastforce
  ultimately have step: "view v = view w" "t_tick (rw w) \<le> t_tick (rw v)" by (metis same_def snd_conv)+
  show ?case
  proof (cases "r_connections h w = 0 \<or> d \<le> t_now (rw w)")
    case True
    then show ?thesis by (auto simp: r_drain_loop.simps [of env h d w])
  next
    case False
    then show ?thesis using 1 [OF _ _ call [symmetric]] call step
      by (cases r) (auto simp: r_drain_loop.simps [of env h d w] intro: le_trans)
  qed
qed

lemma same_drain_wait [same_intro]: "same (r_drain_wait env h)"
  unfolding same_def r_drain_wait_def using same_drain_loop by auto


section \<open>Rules over the summary\<close>

lemma since_same: "same f \<Longrightarrow> (\<And>s. P s \<Longrightarrow> E s) \<Longrightarrow> ptriple (since N P) f (\<lambda>_. since N P) (since N E)"
  unfolding ptriple_def same_def since_def by (auto split: prod.splits sum.splits) (metis snd_conv le_trans)+

lemma since_seq:
  assumes "same f" "\<And>s. P s \<Longrightarrow> E s" "\<And>x. ptriple (since N P) (g x) Q (since N E)"
  shows "ptriple (since N P) (pbind f g) Q (since N E)"
  using since_same [OF assms(1,2)] assms(3) by (rule ptriple_bind)

lemma since_write:
  assumes "\<And>w :: 'e relaunch_world. rw (k w) = rw w" "\<And>w :: 'e relaunch_world. P (view w) \<Longrightarrow> R (view (k w))" "ptriple (since N R) (g ()) Q E"
  shows "ptriple (since N P) (pbind (pwrite k) g) Q E"
  using ptriple_write [of "since N P" "\<lambda>_. since N R" k E] assms by (auto simp: since_def intro: ptriple_bind)

lemma since_raise: "(\<And>s. P s \<Longrightarrow> E s) \<Longrightarrow> ptriple (since N P) (r_fail t) Q (since N E)" "(\<And>s. P s \<Longrightarrow> E s) \<Longrightarrow> ptriple (since N P) (praise e) Q (since N E)"
  by (simp_all add: ptriple_def r_fail_def praise_def since_def)

lemma since_read: "(\<And>x. ptriple (since N P) (g x) Q E) \<Longrightarrow> ptriple (since N P) (pbind (pread k) g) Q E"
  by (simp add: ptriple_def pbind_def pread_def)

lemma since_replace:
  assumes "\<And>s. P s \<Longrightarrow> R (s\<lparr>sm_swap := Some b, sm_unconfirmed := False\<rparr>)" "\<And>s. P s \<Longrightarrow> E (s\<lparr>sm_unconfirmed := True\<rparr>)"
  shows "ptriple (since N P) (replace_node_revision env r a b l) (\<lambda>_. since N R) (since N E)"
proof -
  have did: "view (w\<lparr>rl_done := SwapFailed # rl_done w\<rparr>) = (view w)\<lparr>sm_unconfirmed := True\<rparr>"
    "view (w\<lparr>rl_done := Swapped b l # rl_done w\<rparr>) = (view w)\<lparr>sm_swap := Some b, sm_unconfirmed := False\<rparr>" for w :: "'a relaunch_world"
    by (simp_all add: view_def)
  let ?f = "case node_to_etcd (te_wire (re_t env)) b (api_prefix (te_api (re_t env))) of
      Inl err \<Rightarrow> r_fail (te_exc (re_t env) err) | Inr (key, value) \<Rightarrow> replace_loop env a b l key value 3 r"
  have "ptriple (since N P) ?f (\<lambda>_. since N P) (since N P)"
    by (rule since_same) (intro same_intro)
  moreover have "ptriple (since N P) (pbind (r_did SwapFailed) (\<lambda>_. praise err)) Q (since N E)" for err and Q :: "EtcdRecord \<Rightarrow> 'a relaunch_world \<Rightarrow> bool"
    using assms(2) by (simp add: ptriple_def pbind_def r_did_def pwrite_def praise_def since_def did)
  ultimately have "ptriple (since N P) (ptry ?f (\<lambda>err. pbind (r_did SwapFailed) (\<lambda>_. praise err))) (\<lambda>_. since N P) (since N E)"
    by (rule ptriple_try)
  moreover have "ptriple (since N P :: 'a relaunch_world \<Rightarrow> bool) (pbind (r_did (Swapped b l)) (\<lambda>_. preturn x)) (\<lambda>_. since N R) (since N E)" for x :: EtcdRecord
    using assms(1) by (simp add: ptriple_def pbind_def r_did_def pwrite_def preturn_def since_def did)
  ultimately show ?thesis unfolding replace_node_revision_def by (rule ptriple_bind)
qed

lemma since_launch:
  assumes "\<And>s. P s \<Longrightarrow> E s" "\<And>s. P s \<Longrightarrow> sm_stopping s" "\<And>s m t. P s \<Longrightarrow> R m t (s\<lparr>sm_launch := Some (q, m, t)\<rparr>)"
    "\<And>m t. ptriple (since N (R m t)) (g (m, t)) Q (since N E)"
  shows "ptriple (since N P) (pbind (launch_llamacpp_runtime env a q) g) Q (since N E)"
proof -
  have did: "R m t (view (w\<lparr>rl_done := Launched q m t # rl_done w\<rparr>))" if "P (view w)" for w :: "'a relaunch_world" and m t
    using assms(2) [OF that] assms(3) [OF that] by (simp add: view_def)
  have "ptriple (since N P :: 'a relaunch_world \<Rightarrow> bool) (pbind (r_did (Launched q m t)) (\<lambda>_. preturn (m, t))) (\<lambda>x. since N (R (fst x) (snd x))) (since N E)" for m t
    using did by (auto simp: ptriple_def pbind_def r_did_def pwrite_def preturn_def since_def)
  then have "ptriple (since N P) (launch_llamacpp_runtime env a q) (\<lambda>x. since N (R (fst x) (snd x))) (since N E)"
    unfolding launch_llamacpp_runtime_def by (intro since_seq same_ask) (simp_all add: assms(1) split: prod.splits)
  then show ?thesis using assms(4) by (auto intro: ptriple_bind)
qed

section \<open>The body\<close>

definition blank :: "summary \<Rightarrow> bool" where
  "blank s \<longleftrightarrow> \<not> sm_stop s \<and> \<not> sm_active s \<and> sm_swap s = None \<and> sm_launch s = None \<and> sm_drain s = None \<and> \<not> sm_stopping s \<and> sm_orderly s"

text \<open>The node is out of rotation: etcd has confirmed it as relaunching, and everything a way back needs is known.\<close>

definition taken :: "node \<Rightarrow> string \<Rightarrow> int \<Rightarrow> EtcdRecord \<Rightarrow> summary \<Rightarrow> bool" where
  "taken p a l r s \<longleftrightarrow> sm_record s = Some r \<and> sm_previous s = Some p \<and> sm_artifact s = Some a \<and> sm_lease s = Some l \<and>
     sm_swap s = Some (relaunching p) \<and> \<not> sm_unconfirmed s \<and> sm_orderly s \<and> node_status p = HEALTHY \<and> node_llamacpp_runtime p \<noteq> None"

definition intact :: "summary \<Rightarrow> bool" where
  "intact s \<longleftrightarrow> \<not> sm_stop s \<and> \<not> sm_stopping s \<and> sm_launch s = None \<and> sm_active s"

text \<open>What holds when the body raises.\<close>

definition broken_off :: "summary \<Rightarrow> bool" where
  "broken_off s \<longleftrightarrow> sm_orderly s \<and> sm_stop s = sm_stopping s \<and>
     (if sm_stop s then sm_record s \<noteq> None \<and> sm_artifact s \<noteq> None \<and> sm_lease s \<noteq> None \<and>
        (\<exists>p. sm_previous s = Some p \<and> node_status p = HEALTHY \<and> node_llamacpp_runtime p \<noteq> None)
      else if sm_active s then sm_record s \<noteq> None \<and> sm_lease s \<noteq> None \<and> (\<exists>p. sm_previous s = Some p \<and> node_status p = HEALTHY)
      else sm_swap s = None \<or> (\<exists>p. sm_swap s = Some p \<and> sm_previous s = Some p \<and> node_status p = HEALTHY))"

lemma validated: "validate_llamacpp_relaunch env found request = Inr p \<Longrightarrow> found = Some p \<and> node_status p = HEALTHY \<and> node_llamacpp_runtime p \<noteq> None"
  by (auto simp: validate_llamacpp_relaunch_def split: option.splits if_splits)

lemmas summary_defs = blank_def taken_def intact_def broken_off_def

abbreviation known :: "node \<Rightarrow> string \<Rightarrow> int \<Rightarrow> summary \<Rightarrow> bool" where
  "known p a l s \<equiv> blank s \<and> sm_previous s = Some p \<and> sm_artifact s = Some a \<and> sm_lease s = Some l"

abbreviation begun :: "nat \<Rightarrow> node \<times> string \<times> int \<times> EtcdRecord \<Rightarrow> 'e relaunch_world \<Rightarrow> bool" where
  "begun N \<equiv> (\<lambda>(p, a, l, r). since N (\<lambda>s. taken p a l r s \<and> intact s))"

lemma blank_off: "blank s \<Longrightarrow> broken_off s"
  by (simp add: summary_defs)

lemma take_triple:
  assumes p: "node_status p = HEALTHY" "node_llamacpp_runtime p \<noteq> None"
  shows "ptriple (since N (known p a l)) (take_node env h n p a r0 l granted) (begun N) (since N broken_off)"
proof -
  let ?R = "\<lambda>s. sm_previous s = Some p \<and> sm_artifact s = Some a \<and> sm_lease s = Some l \<and> sm_swap s = Some (relaunching p) \<and>
    \<not> sm_unconfirmed s \<and> sm_orderly s \<and> \<not> sm_stop s \<and> \<not> sm_stopping s \<and> sm_launch s = None"
  let ?undo = "\<lambda>err. pbind (enter_node env n) (\<lambda>_. pbind (if granted then revoke_quietly env l else preturn ()) (\<lambda>_. r_fail err))"
  have "ptriple (since N (known p a l)) (replace_node_revision env r0 p (relaunching p) l) (\<lambda>_. since N ?R) (since N blank)"
    by (rule since_replace) (auto simp: blank_def)
  moreover have "ptriple (since N blank) (case err of Raised text \<Rightarrow> ?undo text | Cancelled \<Rightarrow> praise Cancelled) Q (since N broken_off)" for err Q
    by (cases err) (auto intro!: since_seq since_raise same_intro blank_off)
  ultimately have "ptriple (since N (known p a l)) (rtry (replace_node_revision env r0 p (relaunching p) l) ?undo) (\<lambda>_. since N ?R) (since N broken_off)"
    unfolding rtry_def by (rule ptriple_try)
  moreover have "ptriple (since N ?R) (pbind (pwrite (\<lambda>w. w\<lparr>rl_record := Some r, rl_active := True\<rparr>)) (\<lambda>_. preturn (p, a, l, r))) (begun N) (since N broken_off)" for r
    using p by (auto simp: ptriple_def pbind_def pwrite_def preturn_def since_def view_def summary_defs)
  ultimately have "ptriple (since N (known p a l)) (pbind (rtry (replace_node_revision env r0 p (relaunching p) l) ?undo) (\<lambda>r.
      pbind (pwrite (\<lambda>w. w\<lparr>rl_record := Some r, rl_active := True\<rparr>)) (\<lambda>_. preturn (p, a, l, r)))) (begun N) (since N broken_off)"
    by (rule ptriple_bind)
  then show ?thesis unfolding take_node_def
    by (intro ptriple_if since_seq [OF same_steps(6)] since_raise) (simp_all add: blank_off)
qed

lemma prepare_triple:
  assumes p: "node_status p = HEALTHY" "node_llamacpp_runtime p \<noteq> None"
  shows "ptriple (since N (\<lambda>s. blank s \<and> sm_previous s = Some p)) (prepare_node env h n p r0) (begun N) (since N broken_off)"
proof -
  let ?A = "\<lambda>q s. blank s \<and> sm_previous s = Some p \<and> sm_artifact s = q"
  have "ptriple (since N (?A (Some a))) (pbind (pwrite (\<lambda>w. w\<lparr>rl_lease := Some l, rl_granted := g\<rparr>)) (\<lambda>_. take_node env h n p a r0 l g)) (begun N) (since N broken_off)" for a l g
    by (rule since_write [OF _ _ take_triple [OF p]]) (auto simp: view_def blank_def)
  then have "ptriple (since N (?A q)) (case q of None \<Rightarrow> r_fail t | Some a \<Rightarrow> pbind (r_ask env (re_upload env)) (\<lambda>_. pbind (prepare_relaunch_lease env r0) (\<lambda>(l, g).
      pbind (pwrite (\<lambda>w. w\<lparr>rl_lease := Some l, rl_granted := g\<rparr>)) (\<lambda>_. take_node env h n p a r0 l g)))) (begun N) (since N broken_off)" for q t
    by (cases q) (auto intro!: since_seq [OF same_ask] since_seq [OF same_steps(5)] since_raise blank_off)
  then show ?thesis unfolding prepare_node_def
    by (intro since_seq [OF same_ask] since_write [where R = "?A _"]) (auto simp: view_def blank_def blank_off)
qed

lemma begin_triple: "ptriple (since N blank) (begin_relaunch env h request) (begun N) (since N broken_off)"
proof -
  have "ptriple (since N (\<lambda>s. blank s \<and> sm_previous s = Some p)) (if b then r_fail t else prepare_node env h n p r0) (begun N) (since N broken_off)"
    if "validate_llamacpp_relaunch env q request = Inr p" for q p b t n r0
    using validated [OF that] by (auto intro!: prepare_triple since_raise blank_off)
  then have "ptriple (since N blank) (pbind (pwrite (\<lambda>w. w\<lparr>rl_previous := Some p\<rparr>)) (\<lambda>_. if b then r_fail t else prepare_node env h n p r0)) (begun N) (since N broken_off)"
    if "validate_llamacpp_relaunch env q request = Inr p" for q p b t n r0
    using that by (intro since_write [where R = "\<lambda>s. blank s \<and> sm_previous s = Some p"]) (auto simp: view_def blank_def)
  then show ?thesis unfolding begin_relaunch_def
    by (auto intro!: since_read since_seq [OF same_steps(4)] since_raise blank_off split: sum.splits)
qed


lemma drain_loop_empty: "r_drain_loop env h d w = (Inr DRAIN_COMPLETE, w') \<Longrightarrow> r_connections h w' = 0"
proof (induction env h d w rule: r_drain_loop.induct)
  case (1 env h d w)
  obtain r v where call: "r_call env (seconds 1) (\<lambda>v. (Inr (), v)) w = (r, v)" by fastforce
  show ?case
  proof (cases "r_connections h w = 0 \<or> d \<le> t_now (rw w)")
    case True
    then show ?thesis using 1(2) by (auto simp: r_drain_loop.simps [of env h d w] split: if_splits)
  next
    case False
    then show ?thesis using 1(1) [OF _ _ call [symmetric]] 1(2) call by (cases r) (auto simp: r_drain_loop.simps [of env h d w])
  qed
qed

lemma since_drain:
  assumes "\<And>s. P s \<Longrightarrow> E s" "\<And>s q n. P s \<Longrightarrow> (q = DRAIN_COMPLETE \<longrightarrow> n = 0) \<Longrightarrow> R q (s\<lparr>sm_drain := Some (q, n)\<rparr>)"
    "\<And>q. ptriple (since N (R q)) (g q) Q (since N E)"
  shows "ptriple (since N P) (pbind (r_drain_wait env h) (\<lambda>q. pbind (pread (r_connections h)) (\<lambda>n. pbind (r_did (DrainEnd q n)) (\<lambda>_. g q)))) Q (since N E)"
proof (rule ptriple_bind)
  have "q = DRAIN_COMPLETE \<longrightarrow> r_connections h w' = 0" if "r_drain_wait env h w = (Inr q, w')" for w w' q
    using that drain_loop_empty by (fastforce simp: r_drain_wait_def split: if_splits)
  moreover have "ptriple (since N P) (r_drain_wait env h) (\<lambda>_. since N P) (since N E)"
    by (rule since_same [OF same_drain_wait]) (rule assms(1))
  ultimately show "ptriple (since N P) (r_drain_wait env h) (\<lambda>q w. since N P w \<and> (q = DRAIN_COMPLETE \<longrightarrow> r_connections h w = 0)) (since N E)"
    unfolding ptriple_def by (fastforce split: prod.splits sum.splits)
  have did: "view (w\<lparr>rl_done := DrainEnd q n # rl_done w\<rparr>) = (view w)\<lparr>sm_drain := Some (q, n)\<rparr>" for w :: "'a relaunch_world" and q n
    by (simp add: view_def)
  show "ptriple (\<lambda>w. since N P w \<and> (q = DRAIN_COMPLETE \<longrightarrow> r_connections h w = 0))
      (pbind (pread (r_connections h)) (\<lambda>n. pbind (r_did (DrainEnd q n)) (\<lambda>_. g q))) Q (since N E)" for q
    using assms(2,3) by (auto simp: ptriple_def pbind_def pread_def r_did_def pwrite_def since_def did)
qed

lemma taken_off: "taken p a l r s \<Longrightarrow> intact s \<Longrightarrow> broken_off s"
  by (auto simp: summary_defs)

lemma drain_triple:
  "ptriple (since N (\<lambda>s. taken p a l r s \<and> intact s)) (drain_for_relaunch env h p l r)
     (\<lambda>_. since N (\<lambda>s. taken p a l r s \<and> intact s \<and> sm_drain s = Some (DRAIN_COMPLETE, 0))) (since N broken_off)"
proof -
  let ?T = "\<lambda>s. taken p a l r s \<and> intact s"
  let ?R = "\<lambda>q s. ?T s \<and> (q = DRAIN_COMPLETE \<longrightarrow> sm_drain s = Some (q, 0))"
  let ?home = "\<lambda>s. sm_swap s = Some p \<and> sm_previous s = Some p \<and> node_status p = HEALTHY \<and> \<not> sm_stop s \<and> \<not> sm_stopping s \<and> sm_orderly s"
  have swap: "ptriple (since N ?T) (replace_node_revision env r (relaunching p) p l) (\<lambda>_. since N ?home) (since N broken_off)"
    by (rule since_replace) (auto simp: summary_defs)
  have rest: "ptriple (since N ?home) (pbind (pwrite (\<lambda>w. w\<lparr>rl_record := Some r', rl_active := False\<rparr>)) (\<lambda>_. pbind (enter_node env p) (\<lambda>_. r_fail t))) Q (since N broken_off)"
    for r' t and Q :: "unit \<Rightarrow> 'a relaunch_world \<Rightarrow> bool"
    by (rule since_write [where R = "\<lambda>s. ?home s \<and> \<not> sm_active s"]) (auto simp: view_def broken_off_def intro!: since_seq [OF same_steps(2)] since_raise)
  have abort: "ptriple (since N ?T) (pbind (replace_node_revision env r (relaunching p) p l) (\<lambda>r'. pbind (pwrite (\<lambda>w. w\<lparr>rl_record := Some r', rl_active := False\<rparr>)) (\<lambda>_.
      pbind (enter_node env p) (\<lambda>_. r_fail t)))) Q (since N broken_off)" for t and Q :: "unit \<Rightarrow> 'a relaunch_world \<Rightarrow> bool"
    by (rule ptriple_bind [OF swap rest])
  have "ptriple (since N (?R q)) (if q \<noteq> DRAIN_COMPLETE then pbind (replace_node_revision env r (relaunching p) p l) (\<lambda>r'.
      pbind (pwrite (\<lambda>w. w\<lparr>rl_record := Some r', rl_active := False\<rparr>)) (\<lambda>_. pbind (enter_node env p) (\<lambda>_. r_fail t))) else preturn ())
      (\<lambda>_. since N (\<lambda>s. taken p a l r s \<and> intact s \<and> sm_drain s = Some (DRAIN_COMPLETE, 0))) (since N broken_off)" for q t
    using abort by (cases "q = DRAIN_COMPLETE") (auto simp: ptriple_def preturn_def since_def)
  then show ?thesis unfolding drain_for_relaunch_def
    by (intro since_seq same_intro since_drain [where R = ?R]) (auto simp: taken_off summary_defs)
qed


text \<open>After the stop command everything the rollback needs is known.\<close>

definition stopped :: "node \<Rightarrow> summary \<Rightarrow> bool" where
  "stopped p s \<longleftrightarrow> sm_record s \<noteq> None \<and> sm_previous s = Some p \<and> sm_artifact s \<noteq> None \<and> sm_lease s \<noteq> None \<and> sm_stop s \<and> sm_stopping s \<and>
     sm_orderly s \<and> node_status p = HEALTHY \<and> node_llamacpp_runtime p \<noteq> None"

text \<open>Etcd has confirmed a healthy node that carries the model and the runtime of the latest launch, which was one of \<open>q\<close>.\<close>

definition publishes :: "LlamaCppRuntimeRequest \<Rightarrow> summary \<Rightarrow> bool" where
  "publishes q s \<longleftrightarrow> \<not> sm_unconfirmed s \<and> (\<exists>n m t. sm_swap s = Some n \<and> sm_launch s = Some (q, m, t) \<and>
     node_status n = HEALTHY \<and> node_model n = m \<and> node_llamacpp_runtime n = Some t)"

lemma stopped_off: "stopped p s \<Longrightarrow> broken_off s"
  by (auto simp: stopped_def broken_off_def)

lemma stopped_facts: "stopped p (s\<lparr>sm_launch := x\<rparr>) = stopped p s" "stopped p s \<Longrightarrow> sm_stopping s"
  by (simp_all add: stopped_def)

lemma since_publish:
  assumes "\<And>s. P s \<Longrightarrow> E (s\<lparr>sm_unconfirmed := True\<rparr>)" "\<And>s n. P s \<Longrightarrow> K (s\<lparr>sm_swap := Some n, sm_unconfirmed := False\<rparr>)"
    "\<And>s. P s \<Longrightarrow> sm_launch s = Some (q, m, t)"
  shows "ptriple (since N P) (replace_node_revision env r a (published env v p m t) l) (\<lambda>_. since N (\<lambda>s. K s \<and> publishes q s)) (since N E)"
  by (rule since_replace) (use assms in \<open>auto simp: publishes_def published_def node_with_status_def\<close>)

lemma switch_triple:
  "ptriple (since N (\<lambda>s. taken p a l r s \<and> intact s \<and> sm_drain s = Some (DRAIN_COMPLETE, 0))) (switch_policy env h request p a l r)
     (\<lambda>_. since N (\<lambda>s. stopped p s \<and> publishes request s)) (since N broken_off)"
proof -
  let ?D = "\<lambda>s. taken p a l r s \<and> intact s \<and> sm_drain s = Some (DRAIN_COMPLETE, 0)"
  let ?P = "\<lambda>s. stopped p s \<and> publishes request s"
  have off: "?D s \<Longrightarrow> broken_off s" "?P s \<Longrightarrow> broken_off s" for s by (auto intro: taken_off stopped_off)
  have stop: "?D (view w) \<Longrightarrow> stopped p (view (w\<lparr>rl_stop_attempted := True, rl_done := Stopping # rl_done w\<rparr>))" for w :: "'a relaunch_world"
    by (auto simp: view_def summary_defs stopped_def node_with_status_def)
  have 1: "ptriple (since N ?P) (pbind (pwrite (\<lambda>w. w\<lparr>rl_record := Some r', rl_active := False\<rparr>)) (\<lambda>_. pbind (enter_node env n) (\<lambda>_.
      r_update_state env h PS_COMPLETE None None))) (\<lambda>_. since N ?P) (since N broken_off)" for r' n
    by (rule since_write [where R = ?P]) (auto simp: view_def stopped_def publishes_def intro!: since_seq [OF same_steps(2)] since_same [OF same_steps(1)] off)
  have 2: "ptriple (since N (\<lambda>s. stopped p s \<and> sm_launch s = Some (request, m, t))) (pbind (replace_node_revision env r (relaunching p) (published env v p m t) l) (\<lambda>r'.
      pbind (pwrite (\<lambda>w. w\<lparr>rl_record := Some r', rl_active := False\<rparr>)) (\<lambda>_. pbind (enter_node env (published env v p m t)) (\<lambda>_.
      r_update_state env h PS_COMPLETE None None)))) (\<lambda>_. since N ?P) (since N broken_off)" for m t v
    by (rule ptriple_bind [OF since_publish 1]) (auto simp: stopped_def broken_off_def)
  have 3: "ptriple (since N (\<lambda>s. stopped p s \<and> sm_launch s = Some (request, m, t))) (pbind (pread (\<lambda>w. published env w p m t)) (\<lambda>n. pbind (set_step PS_REGISTERING) (\<lambda>_.
      pbind (replace_node_revision env r (relaunching p) n l) (\<lambda>r'. pbind (pwrite (\<lambda>w. w\<lparr>rl_record := Some r', rl_active := False\<rparr>)) (\<lambda>_. pbind (enter_node env n) (\<lambda>_.
      r_update_state env h PS_COMPLETE None None)))))) (\<lambda>_. since N ?P) (since N broken_off)" for m t
    by (intro ptriple_read_bind since_seq [OF same_simple(5)] 2) (auto intro: stopped_off)
  show ?thesis unfolding switch_policy_def
    by (intro since_seq [OF same_simple(5)] since_seq [OF same_steps(1)] since_write [where R = "stopped p"]
        since_seq [OF same_ask] since_launch [where R = "\<lambda>m t s. stopped p s \<and> sm_launch s = Some (request, m, t)"])
      (use 3 in \<open>auto simp: stopped_facts intro: off stopped_off stop\<close>)
qed

lemma body_triple:
  "ptriple (since N blank) (relaunch_body env h request) (\<lambda>_. since N (\<lambda>s. (\<exists>p. stopped p s) \<and> publishes request s)) (since N broken_off)"
proof -
  have "ptriple (begun N (p, a, l, r)) (pbind (drain_for_relaunch env h p l r) (\<lambda>_. switch_policy env h request p a l r))
      (\<lambda>_. since N (\<lambda>s. (\<exists>p. stopped p s) \<and> publishes request s)) (since N broken_off)" for p a l r
    by (simp, rule ptriple_bind [OF drain_triple], rule ptriple_conseq [OF switch_triple]) (auto simp: since_def)
  then show ?thesis unfolding relaunch_body_def by (intro ptriple_bind [OF begin_triple]) auto
qed


section \<open>The handler\<close>

subsection \<open>With cancellations\<close>

definition disciplined :: "summary \<Rightarrow> bool" where
  "disciplined s \<longleftrightarrow> sm_orderly s \<and> (sm_stop s \<longrightarrow> sm_stopping s)"

lemma disciplined_facts [simp]: "disciplined (s\<lparr>sm_swap := x, sm_unconfirmed := b\<rparr>) = disciplined s" "disciplined (s\<lparr>sm_unconfirmed := b\<rparr>) = disciplined s"
  "disciplined (s\<lparr>sm_swap := x\<rparr>) = disciplined s"
  "disciplined (s\<lparr>sm_launch := y\<rparr>) = disciplined s"
  by (simp_all add: disciplined_def)

abbreviation stays :: "nat \<Rightarrow> (summary \<Rightarrow> bool) \<Rightarrow> ('e, 'a) rpass \<Rightarrow> bool" where
  "stays N P f \<equiv> ptriple (since N P) f (\<lambda>_. since N P) (since N P)"

lemma stays_same: "same f \<Longrightarrow> stays N P f"
  by (rule since_same)

lemma stays_bind: "stays N P f \<Longrightarrow> (\<And>x. stays N P (g x)) \<Longrightarrow> stays N P (pbind f g)"
  by (rule ptriple_bind)

lemma stays_try: "stays N P f \<Longrightarrow> (\<And>x. stays N P (g x)) \<Longrightarrow> stays N P (ptry f g)"
  by (rule ptriple_try)

lemma stays_rtry: "stays N P f \<Longrightarrow> (\<And>x. stays N P (g x)) \<Longrightarrow> stays N P (rtry f g)"
  unfolding rtry_def by (rule ptriple_try) (auto split: exn.splits intro: stays_same same_intro)

lemma stays_replace: "stays N disciplined (replace_node_revision env r a b l)"
  "stays N (\<lambda>s. disciplined s \<and> sm_stopping s) (replace_node_revision env r a b l)"
  by (rule since_replace, simp, simp)+

lemma stays_locals: "stays N disciplined settled_active" "stays N (\<lambda>s. disciplined s \<and> sm_stopping s) settled_active"
  "stays N (\<lambda>s. disciplined s \<and> sm_stopping s) (pwrite (\<lambda>w. w\<lparr>rl_record := Some r\<rparr>))"
  by (auto simp: settled_active_def ptriple_def pwrite_def since_def view_def disciplined_def)

lemma pbind_preturn [simp]: "pbind f preturn = f"
  by (rule ext) (simp add: pbind_def preturn_def split: prod.splits sum.splits)

lemma stays_launch: "stays N (\<lambda>s. disciplined s \<and> sm_stopping s) (launch_llamacpp_runtime env a q)"
proof -
  let ?P = "\<lambda>s. disciplined s \<and> sm_stopping s"
  have "ptriple (since N ?P) (pbind (launch_llamacpp_runtime env a q) preturn) (\<lambda>_. since N ?P) (since N ?P)"
    by (rule since_launch [where R = "\<lambda>_ _. ?P"]) (auto intro: stays_same same_intro)
  then show ?thesis by simp
qed

lemmas stays_intro = stays_bind stays_rtry stays_replace stays_locals stays_launch stays_same

lemma stays_roll_back: "stays N (\<lambda>s. disciplined s \<and> sm_stopping s) (roll_back env h err d p old a l r)"
proof -
  have failed: "stays N (\<lambda>s. disciplined s \<and> sm_stopping s) (rollback_failed env h err e p l r)" for e
    unfolding rollback_failed_def Let_def by (intro stays_intro ptriple_if same_intro)
  show ?thesis unfolding roll_back_def
    by (intro stays_bind stays_try) (auto intro!: failed stays_bind stays_locals stays_launch stays_replace intro: stays_same same_intro split: sum.splits prod.splits)
qed

text \<open>The handler reads its locals once; a triple for each state it may find is one for the handler.\<close>

lemma since_inspect: "(\<And>w. since N P w \<Longrightarrow> ptriple (since N (\<lambda>s. P s \<and> s = view w)) (f w) Q E) \<Longrightarrow> ptriple (since N P) (pbind (pread id) f) Q E"
  by (auto simp: ptriple_def pbind_def pread_def since_def)

lemma rollback_data_view:
  "rollback_data w = Some (p, old, a, l, r) \<Longrightarrow> sm_stop (view w) \<and> sm_record (view w) = Some r \<and> sm_previous (view w) = Some p \<and>
     sm_artifact (view w) = Some a \<and> sm_lease (view w) = Some l \<and> node_llamacpp_runtime p = Some old"
  by (auto simp: rollback_data_def view_def split: bool.splits option.splits)

lemma stays_put_back: "stays N disciplined (put_back env w)"
  unfolding put_back_def by (auto intro!: stays_rtry stays_bind stays_replace stays_locals intro: stays_same same_intro split: option.splits bool.splits)

lemma settle_disciplined:
  assumes "since N disciplined w"
  shows "ptriple (since N (\<lambda>s. disciplined s \<and> s = view w)) (settle_failure env h err d w) (\<lambda>_. since N disciplined) (since N disciplined)"
proof (cases "rollback_data w")
  case None
  have "stays N disciplined (settle_failure env h err d w)"
    unfolding settle_failure_def using None by (simp only: option.case) (intro stays_bind stays_put_back stays_same same_intro)
  then show ?thesis by (rule ptriple_conseq) (auto simp: since_def)
next
  case (Some x)
  obtain p old a l r where x: "x = (p, old, a, l, r)" by (cases x) auto
  have "sm_stopping (view w)" using rollback_data_view [of w p old a l r] Some x assms by (simp add: since_def disciplined_def)
  then show ?thesis unfolding settle_failure_def using Some x by (auto intro!: ptriple_conseq [OF stays_roll_back] simp: since_def)
qed

lemma handler_disciplined: "stays N disciplined (relaunch_failed env h err)"
  unfolding relaunch_failed_def
  by (intro stays_bind since_inspect settle_disciplined) (auto intro: stays_same same_intro split: exn.splits)


subsection \<open>Without cancellations\<close>

definition calm :: "'e relaunch_env \<Rightarrow> nat \<Rightarrow> bool" where
  "calm env N \<longleftrightarrow> (\<forall>n \<ge> N. re_cancel env n = Calm)"

text \<open>From \<open>N\<close> on, a step is not cancelled; a step that is also sure raises nothing.\<close>

definition plain :: "nat \<Rightarrow> ('e, 'a) rpass \<Rightarrow> bool" where
  "plain N f \<longleftrightarrow> (\<forall>w. N \<le> t_tick (rw w) \<longrightarrow> fst (f w) \<noteq> Inl Cancelled \<and> N \<le> t_tick (rw (snd (f w))))"

definition sure :: "nat \<Rightarrow> ('e, 'a) rpass \<Rightarrow> bool" where
  "sure N f \<longleftrightarrow> (\<forall>w. N \<le> t_tick (rw w) \<longrightarrow> (\<exists>x. fst (f w) = Inr x) \<and> N \<le> t_tick (rw (snd (f w))))"

named_theorems plain_intro

lemma plain_bind [plain_intro]: "plain N f \<Longrightarrow> (\<And>x. plain N (g x)) \<Longrightarrow> plain N (pbind f g)"
  unfolding plain_def pbind_def by (auto split: prod.splits sum.splits)

lemma plain_try [plain_intro]: "plain N f \<Longrightarrow> (\<And>x. plain N (g x)) \<Longrightarrow> plain N (ptry f g)"
  unfolding plain_def ptry_def by (auto split: prod.splits sum.splits)

lemma plain_simple [plain_intro]: "plain N (preturn x)" "plain N (r_fail t)" "plain N (r_did d)" "plain N (set_step s)" "plain N (pread k)"
  by (simp_all add: plain_def preturn_def r_fail_def praise_def r_did_def set_step_def pwrite_def pread_def)

lemma plain_call: "calm env N \<Longrightarrow> (\<And>v. t_tick (snd (f v)) = t_tick v) \<Longrightarrow> plain N (r_call env pause f)"
proof -
  assume c: "calm env N" and f: "\<And>v. t_tick (snd (f v)) = t_tick v"
  have "fst (r_call env pause f w) \<noteq> Inl Cancelled \<and> N \<le> t_tick (rw (snd (r_call env pause f w)))" if "N \<le> t_tick (rw w)" for w
  proof -
    obtain q v where q: "f (rw w) = (q, v)" by fastforce
    then have "t_tick v = t_tick (rw w)" using f [of "rw w"] by simp
    then show ?thesis using c that q by (cases q) (auto simp: calm_def r_call_def t_await_def)
  qed
  then show ?thesis by (simp add: plain_def)
qed

lemma plain_etcd [plain_intro]: "calm env N \<Longrightarrow> plain N (r_etcd env c)"
  unfolding r_etcd_def by (rule plain_call) (simp split: prod.splits)+

lemma plain_ask [plain_intro]: "calm env N \<Longrightarrow> plain N (r_ask env c)"
  unfolding r_ask_def by (rule plain_call) simp_all

lemma plain_cases [plain_intro]:
  "plain N f \<Longrightarrow> (\<And>x. plain N (g x)) \<Longrightarrow> plain N (case q of None \<Rightarrow> f | Some x \<Rightarrow> g x)"
  "plain N f \<Longrightarrow> plain N k \<Longrightarrow> plain N (if b then f else k)"
  by (simp_all split: option.splits)

lemma plain_read_record [plain_intro]: "calm env N \<Longrightarrow> plain N (read_node_record env h)"
  unfolding read_node_record_def by (intro plain_intro)

lemma plain_replace_loop: "calm env N \<Longrightarrow> plain N (replace_loop env a b l key val k r)"
  by (induction k arbitrary: r) (auto intro!: plain_intro)

text \<open>What a failed step notes before it raises again is not a cancellation either.\<close>

lemma plain_reraise: "plain N f \<Longrightarrow> plain N (ptry f (\<lambda>err. pbind (r_did d) (\<lambda>_. praise err)))"
  unfolding plain_def ptry_def pbind_def r_did_def pwrite_def praise_def by (auto split: prod.splits sum.splits)

lemma plain_replace [plain_intro]: "calm env N \<Longrightarrow> plain N (replace_node_revision env r a b l)"
  unfolding replace_node_revision_def
  by (intro plain_bind plain_reraise) (auto intro!: plain_intro plain_replace_loop split: sum.splits)

lemma sure_rtry: "plain N f \<Longrightarrow> sure N (rtry f (\<lambda>_. preturn x))"
  unfolding plain_def sure_def rtry_def ptry_def preturn_def praise_def
  by (auto split: prod.splits sum.splits exn.splits)

lemma sure_did: "sure N f \<Longrightarrow> sure N (pbind (r_did d) (\<lambda>_. f))"
  by (simp add: sure_def pbind_def r_did_def pwrite_def)

lemma sure_steps: "calm env N \<Longrightarrow> sure N (r_update_state env h s f e)" "calm env N \<Longrightarrow> sure N (revoke_quietly env l)" "calm env N \<Longrightarrow> sure N (capture_failure env)"
  "sure N (set_step s)" "sure N (enter_if env n)" "sure N (preturn x)"
proof -
  show "calm env N \<Longrightarrow> sure N (r_update_state env h s f e)" unfolding r_update_state_def by (intro sure_did sure_rtry plain_intro)
  show "calm env N \<Longrightarrow> sure N (revoke_quietly env l)" unfolding revoke_quietly_def by (intro sure_did sure_rtry plain_intro)
  show "calm env N \<Longrightarrow> sure N (capture_failure env)"
    using plain_ask [of env N "\<lambda>_. Inr ()"] unfolding capture_failure_def sure_def plain_def ptry_def pbind_def preturn_def
    by (auto split: prod.splits sum.splits)
  show "sure N (set_step s)" "sure N (enter_if env n)" "sure N (preturn x)"
    by (simp_all add: sure_def set_step_def enter_if_def enter_node_def r_did_def pbind_def pwrite_def preturn_def)
qed

lemma since_sure:
  assumes "same f" "sure N f" "\<And>x. ptriple (since N P) (g x) Q E"
  shows "ptriple (since N P) (pbind f g) Q E"
proof (rule ptriple_bind)
  show "ptriple (since N P) f (\<lambda>_. since N P) E"
    using assms(1,2) unfolding ptriple_def same_def sure_def since_def by (auto split: prod.splits sum.splits) (metis fst_conv snd_conv Inl_Inr_False)+
qed (rule assms(3))

lemma since_rtry:
  assumes "plain N f" "ptriple (since N P) f Q (since N R)" "\<And>t. ptriple (since N R) (handler t) Q E"
  shows "ptriple (since N P) (rtry f handler) Q E"
  unfolding ptriple_def
proof (intro allI impI)
  fix w :: "'a relaunch_world" assume w: "since N P w"
  obtain q v where f: "f w = (q, v)" by fastforce
  have "q \<noteq> Inl Cancelled" using assms(1) w f unfolding plain_def since_def by (metis fst_conv)
  moreover have "case q of Inl _ \<Rightarrow> since N R v | Inr x \<Rightarrow> Q x v" using assms(2) w f unfolding ptriple_def by (auto split: sum.splits)
  ultimately show "case rtry f handler w of (Inl _, w') \<Rightarrow> E w' | (Inr x, w') \<Rightarrow> Q x w'"
    using assms(3) f by (cases q) (auto simp: rtry_def ptry_def ptriple_def split: exn.splits)
qed


text \<open>
  How a failed relaunch may leave the node, as far as etcd has confirmed it: untouched or put back as it was, when the engine was not
  stopped; otherwise healthy with the previous policy launched again, or marked as failed without a runtime. The exception is a
  compare-and-swap that raised.
\<close>

definition settled :: "summary \<Rightarrow> bool" where
  "settled s \<longleftrightarrow> sm_unconfirmed s \<or>
     (if sm_stopping s then
        (\<exists>p old. sm_previous s = Some p \<and> node_llamacpp_runtime p = Some old \<and> publishes (rs_requested old) s) \<or>
        (\<exists>n. sm_swap s = Some n \<and> node_status n = RELAUNCH_FAILED \<and> node_llamacpp_runtime n = None)
      else sm_swap s = None \<or> (\<exists>p. sm_previous s = Some p \<and> sm_swap s = Some p \<and> node_status p = HEALTHY))"

lemma stays_settled: "stays N settled settled_active"
  by (auto simp: settled_active_def ptriple_def pwrite_def since_def view_def settled_def publishes_def)

lemma rollback_failed_triple:
  assumes "calm env N"
  shows "ptriple (since N (stopped p)) (rollback_failed env h err e p l r) (\<lambda>_ _. False) (since N settled)"
proof -
  let ?failed = "\<lambda>w. node_with_status p RELAUNCH_FAILED (\<lambda>n. n\<lparr>node_llamacpp_runtime := None, node_last_heartbeat := Some (re_heartbeat env (t_tick (rw w)))\<rparr>)"
  let ?final = "\<lambda>n. pbind (replace_node_revision env r (relaunching p) n 0) (\<lambda>_. pbind settled_active (\<lambda>_. pbind (enter_if env n) (\<lambda>_. preturn True)))"
  have swap: "ptriple (since N (stopped p)) (replace_node_revision env r (relaunching p) (?failed w) 0) (\<lambda>_. since N settled) (since N settled)" for w
    by (rule since_replace) (auto simp: stopped_def settled_def node_with_status_def)
  have "stays N settled (pbind settled_active (\<lambda>_. pbind (enter_if env n) (\<lambda>_. preturn True)))" for n
    by (intro stays_bind stays_settled stays_same same_intro)
  then have "ptriple (since N (stopped p)) (?final (?failed w)) (\<lambda>_. since N settled) (since N settled)" for w by (intro ptriple_bind [OF swap])
  moreover have "plain N (?final n)" for n
    using assms by (intro plain_intro) (simp_all add: plain_def settled_active_def enter_if_def enter_node_def pbind_def r_did_def pwrite_def preturn_def)
  ultimately have "ptriple (since N (stopped p)) (rtry (?final (?failed w)) (\<lambda>_. preturn False)) (\<lambda>_. since N settled) (since N settled)" for w
    by (intro since_rtry) (auto intro: stays_same same_intro)
  then show ?thesis unfolding rollback_failed_def Let_def
    by (intro ptriple_read_bind ptriple_bind [of "since N (stopped p)"]) (use assms in
      \<open>auto intro!: since_sure [OF same_steps(3)] since_sure [OF same_simple(1)] since_sure [OF same_steps(1)] since_read since_raise sure_steps split: if_splits\<close>)
qed

lemma roll_back_triple:
  assumes "calm env N" "node_llamacpp_runtime p = Some old"
  shows "ptriple (since N (stopped p)) (roll_back env h err d p old a l r) (\<lambda>_ _. False) (since N settled)"
proof -
  let ?q = "rs_requested old"
  let ?good = "\<lambda>s. stopped p s \<and> publishes ?q s"
  let ?att = "pbind (launch_llamacpp_runtime env a ?q) (\<lambda>(m, t). pbind (pread (\<lambda>w. published env w p m t)) (\<lambda>n.
      pbind (replace_node_revision env r (relaunching p) n l) (\<lambda>r'. pbind (pwrite (\<lambda>w. w\<lparr>rl_record := Some r'\<rparr>)) (\<lambda>_. preturn (Inr n)))))"
  let ?R = "\<lambda>q. case q of Inl (_ :: exn) \<Rightarrow> since N (stopped p) | Inr (_ :: node) \<Rightarrow> since N ?good"
  have good: "?good s \<Longrightarrow> settled s" for s using assms(2) by (auto simp: settled_def stopped_def)
  have 1: "ptriple (since N ?good) (pbind (pwrite (\<lambda>w. w\<lparr>rl_record := Some r'\<rparr>)) (\<lambda>_. preturn (Inr n))) ?R (since N (stopped p))" for r' n
    by (auto simp: ptriple_def pbind_def pwrite_def preturn_def since_def view_def stopped_def publishes_def)
  have 2: "ptriple (since N (\<lambda>s. stopped p s \<and> sm_launch s = Some (?q, m, t))) (pbind (replace_node_revision env r (relaunching p) (published env w p m t) l) (\<lambda>r'.
      pbind (pwrite (\<lambda>w. w\<lparr>rl_record := Some r'\<rparr>)) (\<lambda>_. preturn (Inr (published env w p m t))))) ?R (since N (stopped p))" for m t w
    by (rule ptriple_bind [OF since_publish 1]) (auto simp: stopped_def)
  have "ptriple (since N (stopped p)) ?att ?R (since N (stopped p))"
    by (rule since_launch [where R = "\<lambda>m t s. stopped p s \<and> sm_launch s = Some (?q, m, t)"]) (use 2 in \<open>auto simp: stopped_facts intro!: ptriple_read_bind\<close>)
  then have attempt: "ptriple (since N (stopped p)) (ptry ?att (\<lambda>e. preturn (Inl e))) ?R (since N settled)"
    by (rule ptriple_try) (simp add: ptriple_def preturn_def)
  have "ptriple (since N ?good) (pbind settled_active (\<lambda>_. pbind (enter_if env n) (\<lambda>_. pbind (pread rl_step) (\<lambda>s.
      pbind (r_update_state env h PS_FAILED (Some (ProvisioningStep_value s)) (Some msg)) (\<lambda>_. praise e))))) (\<lambda>_ _. False) (since N settled)" for n msg e
    unfolding settled_active_def
    by (rule since_write [where R = ?good]) (use assms(1) good in
      \<open>auto simp: view_def stopped_def publishes_def intro!: since_sure [OF same_steps(8)] since_sure [OF same_steps(1)] since_read since_raise sure_steps\<close>)
  then show ?thesis unfolding roll_back_def using assms(1)
    by (intro since_sure [OF same_simple(5)] since_sure [OF same_steps(1)] sure_steps ptriple_bind [OF attempt])
      (auto intro!: rollback_failed_triple split: sum.splits)
qed


lemma put_back_triple:
  assumes "calm env N" "broken_off (view w)" "\<not> rl_stop_attempted w"
  shows "ptriple (since N (\<lambda>s. s = view w)) (put_back env w) (\<lambda>_. since N settled) (since N settled)"
proof (cases "rl_active w")
  case True
  obtain r p l where w: "rl_record w = Some r" "rl_previous w = Some p" "rl_lease w = Some l" "node_status p = HEALTHY"
    using assms(2,3) True by (auto simp: broken_off_def view_def)
  let ?f = "pbind (replace_node_revision env r (relaunching p) p l) (\<lambda>_. pbind settled_active (\<lambda>_. enter_if env p))"
  have "ptriple (since N (\<lambda>s. s = view w)) (replace_node_revision env r (relaunching p) p l) (\<lambda>_. since N settled) (since N settled)"
    by (rule since_replace) (use assms(2,3) w in \<open>auto simp: settled_def broken_off_def view_def\<close>)
  moreover have "stays N settled (pbind settled_active (\<lambda>_. enter_if env p))"
    by (intro stays_bind stays_settled stays_same same_intro)
  ultimately have "ptriple (since N (\<lambda>s. s = view w)) ?f (\<lambda>_. since N settled) (since N settled)" by (rule ptriple_bind)
  moreover have "plain N ?f"
    using assms(1) by (intro plain_intro) (simp_all add: plain_def settled_active_def enter_if_def enter_node_def pbind_def r_did_def pwrite_def preturn_def)
  ultimately have "ptriple (since N (\<lambda>s. s = view w)) (rtry ?f (\<lambda>_. preturn ())) (\<lambda>_. since N settled) (since N settled)"
    by (intro since_rtry) (auto intro: stays_same same_intro)
  then show ?thesis using w True assms(3) by (simp add: put_back_def)
next
  case False
  then have "settled (view w)" using assms(2,3) by (auto simp: settled_def broken_off_def view_def)
  then show ?thesis using False by (simp add: put_back_def ptriple_def preturn_def since_def)
qed

lemma settle_failure_triple:
  assumes "calm env N" "since N broken_off w"
  shows "ptriple (since N (\<lambda>s. broken_off s \<and> s = view w)) (settle_failure env h err d w) (\<lambda>_ _. False) (since N settled)"
proof (cases "rollback_data w")
  case None
  have b: "broken_off (view w)" using assms(2) by (simp add: since_def)
  then have "\<not> rl_stop_attempted w" using None by (auto simp: broken_off_def view_def rollback_data_def split: if_splits)
  from put_back_triple [OF assms(1) b this]
  have "ptriple (since N (\<lambda>s. broken_off s \<and> s = view w)) (put_back env w) (\<lambda>_. since N settled) (since N settled)"
    by (rule ptriple_conseq) (auto simp: since_def)
  moreover have "ptriple (since N settled) (pbind (pread rl_step) (\<lambda>s. pbind (r_update_state env h PS_FAILED (Some (ProvisioningStep_value s)) (Some (exn_text err))) (\<lambda>_.
      praise (if d then Cancelled else err)))) (\<lambda>_ _. False) (since N settled)"
    using assms(1) by (intro since_read since_sure [OF same_steps(1)] sure_steps since_raise)
  ultimately show ?thesis unfolding settle_failure_def using None by (simp only: option.case) (rule ptriple_bind)
next
  case (Some x)
  obtain p old a l r where x: "x = (p, old, a, l, r)" by (cases x) auto
  have v: "stopped p (view w)" "node_llamacpp_runtime p = Some old"
    using rollback_data_view [of w p old a l r] Some x assms(2) by (auto simp: since_def broken_off_def stopped_def)
  then show ?thesis unfolding settle_failure_def using Some x
    by (auto intro!: ptriple_conseq [OF roll_back_triple [OF assms(1) v(2)]] simp: since_def)
qed

lemma handler_triple:
  assumes "calm env N"
  shows "ptriple (since N broken_off) (relaunch_failed env h err) (\<lambda>_ _. False) (since N settled)"
  unfolding relaunch_failed_def using assms
  by (cases err) (auto intro!: since_sure [OF same_steps(7)] since_sure [OF same_simple(1)] sure_steps since_inspect settle_failure_triple)

section \<open>Properties\<close>


text \<open>The time at which the body of a relaunch has ended, for better or worse.\<close>

definition body_end :: "'e relaunch_env \<Rightarrow> host \<Rightarrow> LlamaCppRuntimeRequest \<Rightarrow> 'e relaunch_world \<Rightarrow> nat" where
  "body_end env h request w =
     t_tick (rw (snd (pbind (r_update_state env h PS_RELAUNCH_VALIDATING None None) (\<lambda>_. relaunch_body env h request) (fresh_locals w))))"



section \<open>Sample relaunches\<close>

definition policy :: "LlamaCppSizingMode \<Rightarrow> LlamaCppRuntimeRequest" where
  "policy mode = \<lparr>rr_sizing = mode, rr_fit_target_mib = 1024, rr_context_per_slot = (if mode = SZ_CUSTOM then Some 4096 else None),
     rr_slots = None, rr_cache_type = None, rr_allow_estimator_overrun = False, rr_profile = None\<rparr>"

definition runtime_of :: "LlamaCppRuntimeRequest \<Rightarrow> LlamaCppRuntimeState" where
  "runtime_of q = \<lparr>rs_requested = q,
     rs_effective = \<lparr>re_train_context = 8192, re_context_per_slot = 4096, re_slot_context_limit = 4096, re_slots = 1, re_aggregate_context = 4096,
       re_cache_type_k = F16, re_cache_type_v = F16, re_flash_attn = FA_ON, re_kv_unified = True, re_gpu_layers = 1, re_total_layers = 1,
       re_estimator_overrun_used = False, re_ubatch = None, re_speculative = None\<rparr>,
     rs_gpus = [\<lparr>gs_index = 0, gs_total_mib = 8192, gs_used_mib = 0, gs_free_mib = 8192\<rparr>], rs_observed_at = Aware 0\<rparr>"

definition llama_node :: node where
  "llama_node = (blank_node ''b'' ''http://a:1'')\<lparr>node_status := HEALTHY, node_managed := True, node_engine := LLAMA_CPP, node_artifact_id := Some ''m'',
     node_llamacpp_runtime := Some (runtime_of (policy SZ_AUTO))\<rparr>"

definition sample_env_ok :: "nat relaunch_env" where
  "sample_env_ok = \<lparr>re_t = quiet_tenv\<lparr>te_api := range_api\<lparr>api_refresh := (\<lambda>_ e. (Inr 30, e + 1))\<rparr>, te_wire := toy_wire\<lparr>wr_node := (\<lambda>_ _. Some llama_node)\<rparr>\<rparr>, re_cancel = (\<lambda>_. Calm),
     re_resolve = (\<lambda>_. Inr), re_upload = (\<lambda>_. Inr ()), re_stop = (\<lambda>_. Inr ()), re_launch = (\<lambda>_ a q. Inr (a, runtime_of q)),
     re_reconcile = (\<lambda>_. Inr False), re_heartbeat = (\<lambda>_. Aware 0)\<rparr>"

definition sample_relaunch :: "nat relaunch_world" where
  "sample_relaunch = \<lparr>rw = doomed_world\<lparr>t_gw := idle_gateway [(''b'', llama_node)]\<rparr>, rl_record = None, rl_previous = None, rl_artifact = None, rl_lease = None,
     rl_granted = False, rl_stop_attempted = False, rl_active = False, rl_step = PS_PENDING, rl_done = []\<rparr>"

text \<open>The new policy does not start; the previous one does.\<close>

definition failing_env :: "nat relaunch_env" where
  "failing_env = sample_env_ok\<lparr>re_launch := (\<lambda>_ a q. if rr_sizing q = SZ_CUSTOM then Inl ''out of memory'' else Inr (a, runtime_of q))\<rparr>"

definition cancelled_at :: "nat \<Rightarrow> interruption \<Rightarrow> nat relaunch_env \<Rightarrow> nat relaunch_env" where
  "cancelled_at n kind env = env\<lparr>re_cancel := (\<lambda>k. if k = n then kind else Calm)\<rparr>"


lemma sample_sel [simp]: "re_cancel sample_env_ok n = Calm" "te_has_registry (re_t sample_env_ok) = True" "te_has_tracker (re_t sample_env_ok) = True"
  "te_drain_timeout (re_t sample_env_ok) = seconds 60" "te_late (re_t sample_env_ok) k = 0" "te_other (re_t sample_env_ok) k v = v"
  "api_prefix (te_api (re_t sample_env_ok)) = ''/nodes/''" "re_resolve sample_env_ok k x = Inr x" "re_upload sample_env_ok k = Inr ()" "re_stop sample_env_ok k = Inr ()"
  "re_launch sample_env_ok k a q = Inr (a, runtime_of q)" "re_heartbeat sample_env_ok k = Aware 0"
  by (simp_all add: sample_env_ok_def quiet_tenv_def range_api_def willing_api_def accepting_api_def silent_api_def)

lemma variant_sel [simp]: "re_t (cancelled_at n kind env) = re_t env" "re_cancel (cancelled_at n kind env) = (\<lambda>k. if k = n then kind else Calm)"
  "re_resolve (cancelled_at n kind env) = re_resolve env" "re_upload (cancelled_at n kind env) = re_upload env" "re_stop (cancelled_at n kind env) = re_stop env"
  "re_launch (cancelled_at n kind env) = re_launch env" "re_heartbeat (cancelled_at n kind env) = re_heartbeat env"
  "re_t failing_env = re_t sample_env_ok" "re_cancel failing_env = re_cancel sample_env_ok" "re_resolve failing_env = re_resolve sample_env_ok"
  "re_upload failing_env = re_upload sample_env_ok" "re_stop failing_env = re_stop sample_env_ok" "re_heartbeat failing_env = re_heartbeat sample_env_ok"
  "re_launch failing_env k a q = (if rr_sizing q = SZ_CUSTOM then Inl ''out of memory'' else Inr (a, runtime_of q))"
  by (simp_all add: cancelled_at_def failing_env_def)

lemma sample_put [simp]: "put (te_api (re_t sample_env_ok)) key val l e = (Inr True, Suc e)"
  by (simp add: put_def sample_env_ok_def range_api_def willing_api_def)

lemma sample_refresh [simp]: "refresh_lease (te_api (re_t sample_env_ok)) l e = (Inr 30, Suc e)"
  by (simp add: refresh_lease_def sample_env_ok_def)

lemma sample_get [simp]: "get_record (te_api (re_t sample_env_ok)) ''/nodes/b'' e = (Inr (Some \<lparr>er_key = ''/nodes/b'', er_value = ''healthy'', er_mod_revision = 4, er_lease_id = 7\<rparr>), Suc e)"
proof -
  have "get_record (te_api (re_t sample_env_ok)) ''/nodes/b'' 0 = (Inr (Some \<lparr>er_key = ''/nodes/b'', er_value = ''healthy'', er_mod_revision = 4, er_lease_id = 7\<rparr>), 1)"
    by code_simp
  then show ?thesis by (simp add: get_record_def then_parse_def Let_def sample_env_ok_def range_api_def split: sum.splits)
qed

lemma sample_cas [simp]: "replace_if_revision (te_api (re_t sample_env_ok)) key val m l e = (Inr (Some 9), Suc e)"
proof -
  have "replace_if_revision (te_api (re_t sample_env_ok)) [] [] 0 0 0 = (Inr (Some 9), 1)"
    by code_simp
  then show ?thesis by (simp add: replace_if_revision_def then_parse_def Let_def sample_env_ok_def range_api_def willing_api_def accepting_api_def split: sum.splits)
qed

lemma sample_wire [simp]: "node_from_etcd (te_wire (re_t sample_env_ok)) ''/nodes/b'' ''healthy'' ''/nodes/'' = Some llama_node"
  "\<exists>val. node_to_etcd (te_wire (re_t sample_env_ok)) n ''/nodes/'' = Inr (''/nodes/'' @ node_id n, val)"
  by code_simp (simp add: node_to_etcd_def sample_env_ok_def toy_wire_def)

lemma llama_node_valid [simp]: "validate_llamacpp_relaunch env (Some llama_node) (policy SZ_CUSTOM) = (if te_has_tracker (re_t env) then Inr llama_node else Inl ''Relaunch requires active-connection tracking'')"
  by (simp add: validate_llamacpp_relaunch_def llama_node_def policy_def runtime_of_def blank_node_def)

lemma sample_replace [simp]:
  assumes "re_t env = re_t sample_env_ok" "node_id b = ''b''"
  shows "replace_node_revision env r a b l w =
    (let v = w\<lparr>rw := (rw w)\<lparr>t_tick := Suc (t_tick (rw w)), t_etcd := Suc (t_etcd (rw w))\<rparr>\<rparr> in
     case re_cancel env (t_tick (rw w)) of
       Calm \<Rightarrow> (Inr \<lparr>er_key = ''/nodes/b'', er_value = snd (projr (node_to_etcd (te_wire (re_t sample_env_ok)) b ''/nodes/'')), er_mod_revision = 9, er_lease_id = l\<rparr>,
               v\<lparr>rl_done := Swapped b l # rl_done w\<rparr>)
     | Early \<Rightarrow> (Inl Cancelled, w\<lparr>rw := (rw w)\<lparr>t_tick := Suc (t_tick (rw w))\<rparr>, rl_done := SwapFailed # rl_done w\<rparr>)
     | Late \<Rightarrow> (Inl Cancelled, v\<lparr>rl_done := SwapFailed # rl_done w\<rparr>))"
proof -
  obtain val where "node_to_etcd (te_wire (re_t sample_env_ok)) b ''/nodes/'' = Inr (''/nodes/b'', val)" using sample_wire(2) [of b] assms(2) by auto
  then show ?thesis using assms(1)
    by (simp add: replace_node_revision_def numeral_3_eq_3 r_etcd_def r_call_def t_await_def pass_defs r_did_def utf8_encode_def Let_def split: interruption.splits)
qed

lemma sample_state [simp]:
  assumes "re_t env = re_t sample_env_ok"
  shows "r_update_state env h s f e w =
    (case re_cancel env (t_tick (rw w)) of
       Calm \<Rightarrow> (Inr (), w\<lparr>rw := (rw w)\<lparr>t_tick := Suc (t_tick (rw w)), t_etcd := Suc (t_etcd (rw w))\<rparr>, rl_done := StateDoc s # rl_done w\<rparr>)
     | Early \<Rightarrow> (Inl Cancelled, w\<lparr>rw := (rw w)\<lparr>t_tick := Suc (t_tick (rw w))\<rparr>, rl_done := StateDoc s # rl_done w\<rparr>)
     | Late \<Rightarrow> (Inl Cancelled, w\<lparr>rw := (rw w)\<lparr>t_tick := Suc (t_tick (rw w)), t_etcd := Suc (t_etcd (rw w))\<rparr>, rl_done := StateDoc s # rl_done w\<rparr>))"
  using assms by (simp add: r_update_state_def rtry_def r_etcd_def r_call_def t_await_def pass_defs r_did_def split: interruption.splits)

lemmas sample_evals = relaunch_inner_def relaunch_body_def begin_relaunch_def prepare_node_def take_node_def drain_for_relaunch_def switch_policy_def
  relaunch_failed_def settle_failure_def rollback_data_def roll_back_def rollback_failed_def put_back_def read_node_record_def prepare_relaunch_lease_def take_out_def
  enter_node_def enter_if_def set_step_def settled_active_def capture_failure_def launch_llamacpp_runtime_def r_drain_wait_def r_drain_loop.simps r_connections_def
  r_ask_def r_etcd_def r_call_def r_did_def r_fail_def rtry_def t_await_def pass_defs fresh_locals_def sample_relaunch_def doomed_world_def idle_gateway_def
  registry_get_def registry_add_def registry_drain_def tracker_get_def dict_get_or_def published_def node_with_status_def same_identity_def Let_def

lemma llama_node_sel [simp]: "node_id llama_node = ''b''" "node_artifact_id llama_node = Some ''m''" "node_llamacpp_runtime llama_node = Some (runtime_of (policy SZ_AUTO))"
  "rs_requested (runtime_of q) = q" "rr_sizing (policy mode) = mode"
  by (simp_all add: llama_node_def runtime_of_def policy_def blank_node_def)


text \<open>
  Cancellations that the handler does not meet as intended: during the last state document of a completed relaunch, which is then
  rolled back; during the first compare-and-swap, after which the registry keeps the node out of rotation although its engine was never
  stopped; and during the state document that announces the rollback, which leaves the node with a stopped engine.
\<close>

lemma cancelled_completion_rolls_back:
  "case relaunch_inner (cancelled_at 12 Early sample_env_ok) ''b'' (policy SZ_CUSTOM) sample_relaunch of
     (r, w) \<Rightarrow> r = Inl Cancelled \<and> map_option fst (last_launch (rl_done w)) = Some (policy SZ_AUTO) \<and> Launched (policy SZ_CUSTOM) ''m'' (runtime_of (policy SZ_CUSTOM)) \<in> set (rl_done w)"
  by (simp add: sample_evals)

lemma cancelled_swap_keeps_node_out:
  "case relaunch_inner (cancelled_at 5 Late sample_env_ok) ''b'' (policy SZ_CUSTOM) sample_relaunch of
     (r, w) \<Rightarrow> r = Inl Cancelled \<and> Stopping \<notin> set (rl_done w) \<and>
       map_option node_status (registry_get (gw_registry (t_gw (rw w))) ''b'') = Some RELAUNCHING"
  by (simp add: sample_evals)

lemma cancelled_rollback_leaves_stopped:
  "case relaunch_inner (cancelled_at 12 Early failing_env) ''b'' (policy SZ_CUSTOM) sample_relaunch of
     (r, w) \<Rightarrow> r = Inl Cancelled \<and> Stopping \<in> set (rl_done w) \<and> last_launch (rl_done w) = None \<and>
       map_option node_status (last_swap (rl_done w)) = Some RELAUNCHING \<and> \<not> unconfirmed (rl_done w)"
  by (simp add: sample_evals)


end
