(* ===== verification/Spec2Isabelle.thy ===== *)
theory Spec2Isabelle
  imports Planner HealthChecker Watcher LaunchSafety VllmFitSafety LogStoreSafety LogBuffer AuthAccounts FleetView Dialects Relaunch
begin

section \<open>The program\<close>

text \<open>
  qiip is a gateway in front of a fleet of GPU hosts that serve language models. Everything below models Python code under
  \<^verbatim>\<open>src/inference_proxy/\<close>; paths are relative to it.

  \<^item> \<^bold>\<open>Discovery.\<close> Node records live in etcd. A watcher thread (\<^verbatim>\<open>discovery/watcher.py\<close>) follows them through the etcd client
    (\<^verbatim>\<open>discovery/etcd_client.py\<close>), parses them (\<^verbatim>\<open>discovery/serializer.py\<close>, \<^verbatim>\<open>models/node.py\<close>) and keeps the in-memory registry
    (\<^verbatim>\<open>discovery/registry.py\<close>) equal to them. Records are kept alive by leases (\<^verbatim>\<open>discovery/node_leases.py\<close>).
  \<^item> \<^bold>\<open>Requests.\<close> The router (\<^verbatim>\<open>routing/\<close>) selects a node for a request within the filters of its token (\<^verbatim>\<open>auth/scopes.py\<close>),
    counts the reservation, and the handlers (\<^verbatim>\<open>api/routes.py\<close>, \<^verbatim>\<open>api/errors.py\<close>) proxy the request, fail over to other nodes and
    relay streams.
  \<^item> \<^bold>\<open>Health.\<close> A thread (\<^verbatim>\<open>resilience/health_checker.py\<close>) probes nodes, changes their status and drives the circuit breakers
    (\<^verbatim>\<open>resilience/circuit_breaker.py\<close>).
  \<^item> \<^bold>\<open>Placement.\<close> A reconciler (\<^verbatim>\<open>placement/\<close>) plans which model profile each free host runs, claims hosts in etcd, and
    starts provisions under a per-host lease (\<^verbatim>\<open>provisioning/host_lifecycle.py\<close>).
  \<^item> \<^bold>\<open>Provisioning.\<close> A launch is sized from the measured memory of its GPUs (\<^verbatim>\<open>provisioning/vllm_fit.py\<close>); its output is
    kept in bounded logs. A teardown drains the node, stops its engine and deregisters it; a relaunch
    starts it again with another policy or rolls back.
  \<^item> \<^bold>\<open>QUADS.\<close> The lab scheduler lends hosts. A poller keeps its inventory, and an enforcer tears down the nodes of hosts that are
    no longer available (\<^verbatim>\<open>quads/\<close>).
  \<^item> \<^bold>\<open>Accounts.\<close> Users, API tokens and usage live in SQLite (\<^verbatim>\<open>auth/store.py\<close>); a request is authenticated by a token or a session,
    and an SSO allowlist may have to agree (\<^verbatim>\<open>auth/\<close>). The fleet view shows each user their own nodes (\<^verbatim>\<open>services/\<close>).

  The parts share state: the registry, the connection counts and the breakers are read and written by the request handlers, the
  watcher, the health thread and the provisioner; claims, leases and node records are shared between gateways through etcd.
\<close>

section \<open>The theories\<close>

text \<open>
  \<^descr> \<open>QiipPrelude\<close>: Python dictionaries, \<open>min\<close>/\<open>max\<close> with a key, string methods, reachability; \<open>PassMonad\<close>: asynchronous code with
    exceptions and its Hoare rules; \<open>PyFloat\<close>: double-precision arithmetic with its rounding laws.
  \<^descr> \<open>NodeModel\<close>, \<open>ProvisioningState\<close>, \<open>Catalog\<close>: the Pydantic models with their bounds and validators. The shipped profiles are
    launchable on their GPU classes.
  \<^descr> \<open>EtcdClient\<close>, \<open>NodeLeases\<close>, \<open>Serializer\<close>, \<open>Watcher\<close>, \<open>Registry\<close>: discovery. A prefix range covers exactly the keys with
    the prefix, watch batches are consistent, replays apply each event once, the registry ends with the latest records, interrupted
    relaunches are settled at startup, and lease upkeep keeps newer records.
  \<^descr> \<open>CircuitBreaker\<close>, \<open>Routing\<close>, \<open>Reservations\<close>, \<open>Scopes\<close>, \<open>Failover\<close>: requests. Selection takes the least loaded eligible node,
    the counts are the outstanding reservations in every interleaving, a drain completes with the last release, a token never reaches
    an endpoint outside its scope, and attempts are bounded, distinct and release what they reserve.
  \<^descr> \<open>HealthChecker\<close>: a probe never overrides a protected status and recovers a node only after a real completion.
  \<^descr> \<open>Planner\<close>, \<open>Claims\<close>, \<open>HostLifecycle\<close>, \<open>Reconciler\<close>, \<open>ReconcilerSafety\<close>, \<open>LaunchSafety\<close> (with \<open>PlacementSamples\<close> for the
    instances): placement. A plan is sound and maximal, a claim is written only at the revision that was read, the host lock
    refines a mutex, a pass respects its limits and attempt budgets, a launch has passed every check under its lease, and a gateway
    that cannot refresh its claim stops before another may take the host.
  \<^descr> \<open>VllmFit\<close>, \<open>VllmFitSafety\<close>: launch sizing. A plan that claims to fit is within the memory of every card it allocates, keeps
    what the operator set, and planning and its retries end.
  \<^descr> \<open>PyText\<close>, \<open>LogStore\<close>, \<open>LogStoreSafety\<close>: \<^verbatim>\<open>provisioning/log_store.py\<close>, the SQLite tables of provisioning attempts, their records and
    budgets as association lists with the statements that change them. Shown: tables and statistics agree, the budgets hold after every
    append, collecting a node's records again adds nothing, and a stage is resumed only when it was verified. \<open>PyText\<close> holds the text
    encoding and JSON helpers several modules share.
  \<^descr> \<open>LogBuffer\<close>: \<^verbatim>\<open>provisioning/log_buffer.py\<close>, the live logs on top of the store and the readers that follow them. Shown: the
    retention bounds of every generation, that a reader accounts for every entry, and that a reader of a closed generation ends.
  \<^descr> \<open>PyTime\<close>, \<open>AuthStore\<close>, \<open>AuthStoreSafety\<close>, \<open>AuthAccounts\<close>: \<^verbatim>\<open>auth/store.py\<close>, users, API tokens, setup links and usage in SQLite.
    \<open>PyTime\<close> is the calendar and \<open>isoformat\<close>, with the proof that SQL may compare the texts. Shown: a revoked token never
    resolves again, whoever else works on the file; a personal token replaces all others of its user; a configuration key is stable
    and follows the session secret; a sign-in never writes an account of another provider; a setup link works until it expires;
    usage adds up.
  \<^descr> \<open>Allowlist\<close>, \<open>ApiAuth\<close>: \<^verbatim>\<open>auth/allowlist.py\<close>, \<^verbatim>\<open>auth/dependencies.py\<close>, \<^verbatim>\<open>auth/session.py\<close>, \<^verbatim>\<open>auth/signin_policy.py\<close>: the SSO allowlist with its
    refresh window, cooldown and cache file, and what decides who a request comes from. Shown: both fail closed, a document survives a
    restart for the rest of its window, a failed fetch cools down, a session never holds a user and a local administrator at once.
  \<^descr> \<open>Quads\<close>: \<^verbatim>\<open>quads/client.py\<close>, \<^verbatim>\<open>quads/poller.py\<close>, \<^verbatim>\<open>quads/schedule_enforcer.py\<close>: reading the inventory of the lab scheduler and giving hosts back.
    Shown: a pass tears down exactly the hosts it should, a teardown owns its host in every interleaving, and a failed one is
    retried after its delay.
  \<^descr> \<open>FleetView\<close>: \<^verbatim>\<open>services/unified_nodes.py\<close>, the viewer checks of \<^verbatim>\<open>config/dependencies.py\<close> and the visibility test of \<^verbatim>\<open>api/fleet.py\<close>. Shown: who
    passes the admin check, and that a viewer sees exactly the nodes that are neither admin-only nor owned by somebody else.
  \<^descr> \<open>Dialects\<close>: \<^verbatim>\<open>api/dialects.py\<close> and the pass-through handlers of \<^verbatim>\<open>api/routes.py\<close>. Shown: the relay refines the stream step of \<open>Failover\<close>,
    the usage trackers compute what the stream reported, and a token limited to some models is never served another.
  \<^descr> \<open>Teardown\<close>: of \<^verbatim>\<open>provisioning/provisioner.py\<close>, the teardown of a node and the change of its owner. Shown: the steps happen in order and
    a node is not deregistered before its engine has stopped, draining ends, the host lease is given back, and a change of
    owner is a compare-and-swap.
  \<^descr> \<open>Relaunch\<close>: of \<^verbatim>\<open>provisioning/provisioner.py\<close>, the relaunch of a llama.cpp node with another policy and its rollback, with cancellation at every
    suspension. Shown: the engine is stopped only on a drained node that is out of rotation, and a relaunch that is not cancelled after its
    body ends with the new policy published, the node as it was, the previous policy launched again, or the node marked as failed.
\<close>

section \<open>How the code is modelled\<close>

text \<open>
  Records are the classes, one function is one method; a method that holds a lock for its whole body is one atomic step, and the
  step relations (\<open>routing_step\<close>, the breaker's and the lifecycle's) interleave those steps. Where the code suspends or calls out,
  what other threads do meanwhile is an argument: an arbitrary function of the shared state. Raised exceptions are values of a sum
  type. Services and libraries outside the repository (etcd and \<^verbatim>\<open>etcd3gw\<close>, \<open>httpx\<close>, Pydantic's JSON codec, QUADS, SSH, the clock) are
  arguments; what is relied on is stated where it is used, such as \<open>etcd_law\<close> in \<open>Claims\<close>, and an instance shows it can hold.

  Interfaces are locales, each interpreted on the definitions of the model: reachability in \<open>QiipPrelude\<close>, \<open>rounding\<close> in
  \<open>PyFloat\<close>, and those of the components that rely on one another.

  \<^bold>\<open>Bounds and fuel.\<close> The augmenting search of the planner carries fuel, the caller passes one more than the number of hosts,
  and \<open>plan_total\<close> shows it is enough. The loop that lowers a GPU memory utilization has a bound of one hundred steps, and
  \<open>planning_ends\<close> shows it is never reached. Retries of an attempt loop recurse on the list of attempts.

  \<^bold>\<open>Assumptions.\<close> Text is 8-bit characters; case mapping and white space are those of ASCII. A breaker object is identified with
  its registry entry. The watcher relies on the header revision of a batch. Readiness checks that the code gathers
  concurrently run in sequence. Doubles neither overflow nor become subnormal.
\<close>

section \<open>Not modelled\<close>

text \<open>
  Pure I/O and presentation: the HTML pages (\<^verbatim>\<open>api/dashboard.py\<close>, \<^verbatim>\<open>api/templating.py\<close>, \<^verbatim>\<open>api/chat.py\<close>), the admin and sign-in endpoints,
  which validate input and call the modelled parts, the SSH, Redfish and Hugging Face clients, plugin loading and application start-up.
  The setup of a node in \<^verbatim>\<open>provisioning/provisioner.py\<close> is a sequence of shell commands over SSH whose outcome depends on remote
  output; its teardown, its relaunch, its owner updates and what the reconciler calls are modelled. The scripts under \<^verbatim>\<open>src/common/\<close> run on the hosts.
  The manifest lists every part with its reason.
\<close>

end
